(* ===== verification/Prelude.thy ===== *)
theory Prelude
  imports Main "HOL-Library.Word" "HOL-Library.Monad_Syntax"
begin

text \<open>
  What every component of the development shares.

  \<^item> The machine types of the C code, as words of their width.
  \<^item> A checked memory: a C array is a list, and every access to it is one of \<open>put\<close>
    (a \<^verbatim>\<open>memcpy\<close> or an indexed store into the array), \<open>fetch\<close> (a read of a range)
    and \<open>byte_at\<close> (an indexed load). An access that leaves the array is undefined
    behaviour of the C program, and the value \<open>None\<close> of the model. A theorem that a
    function returns \<open>Some\<close> is therefore also a memory-safety theorem.
  \<^item> An allocation oracle: \<^verbatim>\<open>malloc\<close> may fail at any call, so the functions that
    allocate take the list of outcomes of the coming calls (\<open>alloc\<close>).
  \<^item> The interfaces (locales) of byte codecs and of first-in first-out streams.
\<close>

unbundle bit_operations_syntax

section \<open>Collections of facts\<close>

named_theorems mem_simps \<open>rules that evaluate checked memory accesses\<close>
named_theorems mem_dest \<open>what a successful checked access says\<close>

section \<open>Machine types\<close>

type_synonym u8 = "8 word"
type_synonym u16 = "16 word"
type_synonym u32 = "32 word"
type_synonym u64 = "64 word"
type_synonym bytes = "u8 list"

abbreviation bytes_of :: "string \<Rightarrow> bytes" where
  "bytes_of s \<equiv> map (\<lambda>c. of_nat (of_char c :: nat)) s"

section \<open>Checked memory\<close>

definition put :: "nat \<Rightarrow> 'a list \<Rightarrow> 'a list \<Rightarrow> 'a list option" where
  "put off xs buf =
     (if off + length xs \<le> length buf
      then Some (take off buf @ xs @ drop (off + length xs) buf) else None)"

definition fetch :: "nat \<Rightarrow> nat \<Rightarrow> 'a list \<Rightarrow> 'a list option" where
  "fetch off n buf = (if off + n \<le> length buf then Some (take n (drop off buf)) else None)"

definition byte_at :: "'a list \<Rightarrow> nat \<Rightarrow> 'a option" where
  "byte_at buf i = (if i < length buf then Some (buf ! i) else None)"

text \<open>
  \<open>mem_copy dst d src s n\<close> is \<^verbatim>\<open>memcpy(dst + d, src + s, n)\<close> with C \<^verbatim>\<open>int\<close> offsets
  and length. A negative length is converted to a huge \<^verbatim>\<open>size_t\<close>, so it faults like
  every other access outside the two arrays.
\<close>

definition mem_copy :: "'a list \<Rightarrow> int \<Rightarrow> 'a list \<Rightarrow> int \<Rightarrow> int \<Rightarrow> 'a list option" where
  "mem_copy dst d src s n =
     (if d < 0 \<or> s < 0 \<or> n < 0 then None
      else do { xs \<leftarrow> fetch (nat s) (nat n) src; put (nat d) xs dst })"

lemma put_nil [simp]: "off \<le> length buf \<Longrightarrow> put off [] buf = Some buf"
  by (simp add: put_def)

lemma put_SomeD [mem_dest]:
  "put off xs buf = Some b \<Longrightarrow>
     off + length xs \<le> length buf \<and> b = take off buf @ xs @ drop (off + length xs) buf"
  by (auto simp: put_def split: if_splits)

lemma put_length: "put off xs buf = Some b \<Longrightarrow> length b = length buf"
  by (auto dest!: put_SomeD)

lemma put_Some_iff: "(\<exists>b. put off xs buf = Some b) \<longleftrightarrow> off + length xs \<le> length buf"
  by (simp add: put_def)

text \<open>Two adjacent stores are one store: this turns a sequence of writes into a wire format.\<close>

lemma put_fits: "off + length xs \<le> length buf \<Longrightarrow> \<exists>b. put off xs buf = Some b \<and> length b = length buf"
  by (auto simp: put_def)

lemma put_put [mem_simps]:
  "Option.bind (put off xs buf) (put (off + length xs) ys) = put off (xs @ ys) buf"
  by (auto simp: put_def bind_eq_Some_conv algebra_simps split: if_splits)

lemma put_put_then [mem_simps]:
  "Option.bind (put off xs buf) (\<lambda>b. Option.bind (put (off + length xs) ys b) f) =
     Option.bind (put off (xs @ ys) buf) f"
  by (simp flip: put_put)

lemma put_nth: "put off xs buf = Some b \<Longrightarrow> i < length buf \<Longrightarrow>
    b ! i = (if off \<le> i \<and> i < off + length xs then xs ! (i - off) else buf ! i)"
  by (auto dest!: put_SomeD simp: nth_append min_def)

lemma fetch_put: "put off xs buf = Some b \<Longrightarrow> fetch off (length xs) b = Some xs"
  by (auto dest!: put_SomeD simp: fetch_def)

lemma fetch_append [simp]: "fetch (length xs) (length ys) (xs @ ys @ zs) = Some ys"
  by (simp add: fetch_def)

lemma fetch_0_append [simp]: "fetch 0 (length ys) (ys @ zs) = Some ys"
  by (simp add: fetch_def)

lemma fetch_SomeD [mem_dest]:
  "fetch off n buf = Some xs \<Longrightarrow> off + n \<le> length buf \<and> xs = take n (drop off buf)"
  by (auto simp: fetch_def split: if_splits)

lemma fetch_length: "fetch off n buf = Some xs \<Longrightarrow> length xs = n"
  by (auto dest!: fetch_SomeD)

lemma byte_at_SomeD [mem_dest]: "byte_at buf i = Some x \<Longrightarrow> i < length buf \<and> x = buf ! i"
  by (auto simp: byte_at_def split: if_splits)

lemma byte_at_less [mem_simps]: "i < length buf \<Longrightarrow> byte_at buf i = Some (buf ! i)"
  by (simp add: byte_at_def)

lemma mem_copy_eq: "0 \<le> d \<Longrightarrow> 0 \<le> s \<Longrightarrow> 0 \<le> n \<Longrightarrow> s + n \<le> int (length src) \<Longrightarrow>
    mem_copy dst d src s n = put (nat d) (take (nat n) (drop (nat s) src)) dst"
  by (simp add: mem_copy_def fetch_def)

section \<open>C integers\<close>

text \<open>Signed 32-bit arithmetic: an overflow is undefined, and so is the remainder by zero.
  The remainder has the sign of the dividend.\<close>

definition c_int :: "int \<Rightarrow> int option" where
  "c_int x = (if - (2 ^ 31) \<le> x \<and> x < 2 ^ 31 then Some x else None)"

definition c_rem :: "int \<Rightarrow> int \<Rightarrow> int option" where
  "c_rem a b = (if b = 0 then None
                else Some (if a < 0 then - (- a mod \<bar>b\<bar>) else a mod \<bar>b\<bar>))"

lemma c_int_in [mem_simps]: "- (2 ^ 31) \<le> x \<Longrightarrow> x < 2 ^ 31 \<Longrightarrow> c_int x = Some x"
  by (simp add: c_int_def)

lemma c_rem_pos [mem_simps]: "0 \<le> a \<Longrightarrow> 0 < b \<Longrightarrow> c_rem a b = Some (a mod b)"
  by (simp add: c_rem_def)

section \<open>Allocation\<close>

text \<open>
  \<open>alloc\<close> consumes one outcome of the oracle; an exhausted oracle means success.
\<close>

fun alloc :: "bool list \<Rightarrow> bool \<times> bool list" where
  "alloc [] = (True, [])"
| "alloc (b # bs) = (b, bs)"

section \<open>C strings\<close>

text \<open>
  The bytes of a C string in a buffer: everything before the first zero byte
  (\<^verbatim>\<open>strlen\<close> counts them). A buffer without a terminator makes \<^verbatim>\<open>strlen\<close> run off its end,
  so reading it is \<open>None\<close>.
\<close>

definition c_str :: "bytes \<Rightarrow> bytes option" where
  "c_str buf = (if 0 \<in> set buf then Some (takeWhile (\<lambda>c. c \<noteq> 0) buf) else None)"

lemma c_str_terminated [simp]: "0 \<notin> set s \<Longrightarrow> c_str (s @ 0 # rest) = Some s"
  by (induction s) (auto simp: c_str_def)

section \<open>List updates and counting\<close>

text \<open>Changing one element changes a count by at most one: used for threads of a program.\<close>

lemma count_update:
  "i < length xs \<Longrightarrow>
     length (filter P (xs[i := y])) + (if P (xs ! i) then 1 else 0) =
     length (filter P xs) + (if P y then 1 else 0)"
proof (induction xs arbitrary: i)
  case (Cons x xs)
  show ?case
  proof (cases i)
    case (Suc j)
    then show ?thesis using Cons.IH[of j] Cons.prems by auto
  qed auto
qed simp

lemma filter_pos: "i < length xs \<Longrightarrow> P (xs ! i) \<Longrightarrow> 0 < length (filter P xs)"
  using nth_mem[of i xs] by (auto simp: filter_empty_conv)

lemma filter_le_1_unique:
  "length (filter P xs) \<le> 1 \<Longrightarrow> i < length xs \<Longrightarrow> j < length xs \<Longrightarrow> P (xs ! i) \<Longrightarrow> P (xs ! j)
     \<Longrightarrow> i = j"
proof (rule ccontr)
  assume le: "length (filter P xs) \<le> 1" and i: "i < length xs" and j: "j < length xs"
    and Pi: "P (xs ! i)" and Pj: "P (xs ! j)" and ne: "i \<noteq> j"
  have "{i, j} \<subseteq> {k. k < length xs \<and> P (xs ! k)}" using i j Pi Pj by auto
  then have "card {i, j} \<le> card {k. k < length xs \<and> P (xs ! k)}" by (intro card_mono) auto
  then show False using le ne by (simp add: length_filter_conv_card)
qed

section \<open>Bits of words\<close>

lemma bit_0xff [simp]: "bit (0xff :: 'a::len word) n \<longleftrightarrow> n < 8 \<and> n < LENGTH('a)"
proof -
  have "(0xff :: 'a word) = mask 8" by (simp add: mask_eq_exp_minus_1)
  then show ?thesis by (simp only: bit_mask_iff) auto
qed

lemma bit_0xff_int [simp]: "bit (0xff :: int) n \<longleftrightarrow> n < 8"
proof -
  have "(0xff :: int) = mask 8" by (simp add: mask_eq_exp_minus_1)
  then show ?thesis by (simp only: bit_mask_iff) simp
qed

lemma even_uint [simp]: "even (uint w) \<longleftrightarrow> even (w :: 'a::len word)"
  by transfer simp

lemma uint_of_nat_small: "n < 2 ^ LENGTH('a) \<Longrightarrow> uint (of_nat n :: 'a::len word) = int n"
  by (simp only: uint_nat unat_of_nat) simp

lemma unat_u8_less [simp]: "unat (b :: u8) < 256"
  using unsigned_less[of b, where ?'a = nat] by simp

lemma unat_u16_less [simp]: "unat (w :: u16) < 65536"
  using unsigned_less[of w, where ?'a = nat] by simp

lemma ucast_u8_inj: "8 \<le> LENGTH('a) \<Longrightarrow> (ucast (b :: u8) :: 'a::len word) = ucast c \<Longrightarrow> b = c"
proof (rule bit_word_eqI)
  fix n assume "8 \<le> LENGTH('a)" and "(ucast b :: 'a word) = ucast c" and "n < LENGTH(8)"
  then have "bit (ucast b :: 'a word) n = bit (ucast c :: 'a word) n" and "n < LENGTH('a)"
    by simp_all
  then show "bit b n \<longleftrightarrow> bit c n" by (simp add: bit_ucast_iff)
qed

lemma ucast_xor: "(ucast (x XOR y) :: 'b::len word) = ucast x XOR ucast (y :: 'a::len word)"
  by (rule bit_word_eqI) (auto simp: bit_ucast_iff bit_xor_iff)

lemma uint_ucast_up:
  "LENGTH('a) \<le> LENGTH('b) \<Longrightarrow> uint (ucast (w :: 'a::len word) :: 'b::len word) = uint w"
proof -
  assume le: "LENGTH('a) \<le> LENGTH('b)"
  have "uint w < 2 ^ LENGTH('a)" by (rule uint_bounded)
  also have "(2 :: int) ^ LENGTH('a) \<le> 2 ^ LENGTH('b)" using le by simp
  finally show ?thesis by (simp add: unsigned_ucast_eq take_bit_int_eq_self)
qed

lemma unat_ucast_up:
  "LENGTH('a) \<le> LENGTH('b) \<Longrightarrow> unat (ucast (w :: 'a::len word) :: 'b::len word) = unat w"
  using uint_ucast_up[of w, where ?'b = 'b] by (metis of_nat_eq_iff of_nat_unat)

lemma xor_right_cancel [simp]: "(a XOR c = b XOR c) \<longleftrightarrow> a = (b :: 'a::len word)"
  by (metis xor.assoc xor.right_neutral xor_self_eq)

lemma bit_u8_less [dest]: "bit (b :: u8) n \<Longrightarrow> n < 8"
  using bit_imp_le_length[of b n] by simp

section \<open>Decimal numbers\<close>

text \<open>\<^verbatim>\<open>sprintf\<close> with \<^verbatim>\<open>%d\<close> of a number that is not negative.\<close>

fun dec_str :: "nat \<Rightarrow> bytes" where
  "dec_str n = (if n < 10 then [of_nat (48 + n)] else dec_str (n div 10) @ [of_nat (48 + n mod 10)])"

declare dec_str.simps [simp del]

definition is_digit :: "u8 \<Rightarrow> bool" where
  "is_digit c \<longleftrightarrow> 48 \<le> c \<and> c \<le> 57"

definition is_space :: "u8 \<Rightarrow> bool" where
  "is_space c \<longleftrightarrow> c = 32 \<or> 9 \<le> c \<and> c \<le> 13"

fun dec_val :: "bytes \<Rightarrow> nat \<Rightarrow> nat" where
  "dec_val [] acc = acc"
| "dec_val (c # cs) acc = dec_val cs (10 * acc + (unat c - 48))"

text \<open>A sign in front of the digits: whether it is a minus, and what follows it.\<close>

definition scan_sign :: "bytes \<Rightarrow> bool \<times> bytes" where
  "scan_sign cs = (case cs of [] \<Rightarrow> (False, cs) | c # t \<Rightarrow> if c = 45 then (True, t) else if c = 43 then (False, t) else (False, cs))"

lemma digit_char: "k < 10 \<Longrightarrow> unat (of_nat (48 + k) :: u8) = 48 + k"
  by (simp only: unat_of_nat) simp

lemma digit_is: "k < 10 \<Longrightarrow> is_digit (of_nat (48 + k))"
  using digit_char[of k] unfolding is_digit_def by (simp only: word_le_nat_alt) simp

lemma dec_digits: "dec_str n \<noteq> [] \<and> (\<forall>c \<in> set (dec_str n). is_digit c)"
proof (induction n rule: dec_str.induct)
  case (1 n)
  have l: "is_digit (of_nat (48 + n mod 10))" by (rule digit_is) simp
  show ?case
  proof (cases "n < 10")
    case True
    then show ?thesis using digit_is[of n] by (simp add: dec_str.simps[of n] del: of_nat_add)
  next
    case False
    then show ?thesis using "1.IH" l by (simp add: dec_str.simps[of n] del: of_nat_add)
  qed
qed

lemma dec_val_snoc: "dec_val (cs @ [c]) acc = 10 * dec_val cs acc + (unat c - 48)"
  by (induction cs acc rule: dec_val.induct) simp_all

lemma dec_val_str: "dec_val (dec_str n) 0 = n"
proof (induction n rule: dec_str.induct)
  case (1 n)
  have m: "unat (of_nat (48 + n mod 10) :: u8) - 48 = n mod 10" using digit_char[of "n mod 10"] by simp
  show ?case
  proof (cases "n < 10")
    case True
    then show ?thesis using digit_char[of n] by (simp add: dec_str.simps[of n] del: of_nat_add)
  next
    case False
    then have "dec_val (dec_str n) 0 = 10 * (n div 10) + n mod 10"
      using "1.IH" m by (simp add: dec_str.simps[of n] dec_val_snoc del: of_nat_add)
    then show ?thesis by simp
  qed
qed

lemma dec_length: "n < 256 \<Longrightarrow> length (dec_str n) \<le> 3"
  by (simp add: dec_str.simps[of n] dec_str.simps[of "n div 10"] dec_str.simps[of "n div 10 div 10"])

lemma dec_nonzero: "0 \<notin> set (dec_str n)"
  using dec_digits[of n] by (auto simp: is_digit_def)

section \<open>Interfaces\<close>

text \<open>
  A wire codec: an encoder to bytes and a decoder that takes its value off the front of a
  byte stream. The one law is the round trip with an arbitrary rest of the stream; from it
  follow unique decodability and the decoding of a whole sequence.
\<close>

locale wire_codec =
  fixes enc :: "'a \<Rightarrow> bytes" and dec :: "bytes \<Rightarrow> ('a \<times> bytes) option" and ok :: "'a \<Rightarrow> bool"
  assumes dec_enc: "ok x \<Longrightarrow> dec (enc x @ rest) = Some (x, rest)"
begin

lemma enc_unique:
  assumes "ok x" and "ok y" and "enc x @ r = enc y @ s"
  shows "x = y \<and> r = s"
proof -
  have "Some (x, r) = dec (enc x @ r)" using dec_enc[OF assms(1), of r] by (rule sym)
  also have "\<dots> = dec (enc y @ s)" by (simp only: assms(3))
  also have "\<dots> = Some (y, s)" using dec_enc[OF assms(2), of s] .
  finally show ?thesis by simp
qed

fun dec_many :: "nat \<Rightarrow> bytes \<Rightarrow> ('a list \<times> bytes) option" where
  "dec_many 0 bs = Some ([], bs)"
| "dec_many (Suc n) bs =
     do { (x, bs) \<leftarrow> dec bs; (xs, bs) \<leftarrow> dec_many n bs; Some (x # xs, bs) }"

lemma dec_many_enc:
  "list_all ok xs \<Longrightarrow> dec_many (length xs) (concat (map enc xs) @ rest) = Some (xs, rest)"
proof (induction xs)
  case (Cons x xs)
  then have "ok x" and "dec_many (length xs) (concat (map enc xs) @ rest) = Some (xs, rest)"
    by simp_all
  then show ?case using dec_enc[of x "concat (map enc xs) @ rest"] by simp
qed simp

lemma enc_seq_unique:
  assumes "list_all ok xs" and "list_all ok ys" and "length xs = length ys"
    and "concat (map enc xs) = concat (map enc ys)"
  shows "xs = ys"
  using dec_many_enc[OF assms(1), of "[]"] dec_many_enc[OF assms(2), of "[]"] assms(3,4) by simp

end

text \<open>
  A bounded first-in first-out stream: writing appends a prefix of what is offered, as
  much as fits; reading takes a prefix of the contents. Both always return. The operations
  are those of a C API: the count is a C \<^verbatim>\<open>int\<close>, negative for a refused call.
\<close>

datatype 'a stream_op = SWrite "'a list" | SRead nat

text \<open>Any interleaving of writes and reads: what was accepted and what came out.\<close>

fun run_stream ::
  "('a list \<Rightarrow> 's \<Rightarrow> (int \<times> 's) option) \<Rightarrow> (nat \<Rightarrow> 's \<Rightarrow> ('a list \<times> 's) option)
     \<Rightarrow> 'a stream_op list \<Rightarrow> 's \<Rightarrow> ('a list \<times> 'a list \<times> 's) option" where
  "run_stream wr rd [] s = Some ([], [], s)"
| "run_stream wr rd (SWrite xs # ops) s =
     do { (k, s1) \<leftarrow> wr xs s; (a, out, s2) \<leftarrow> run_stream wr rd ops s1;
          Some (take (nat k) xs @ a, out, s2) }"
| "run_stream wr rd (SRead n # ops) s =
     do { (ys, s1) \<leftarrow> rd n s; (a, out, s2) \<leftarrow> run_stream wr rd ops s1; Some (a, ys @ out, s2) }"

locale fifo_stream =
  fixes ok :: "'s \<Rightarrow> bool" and contents :: "'s \<Rightarrow> 'a list" and space :: "'s \<Rightarrow> nat"
    and wr :: "'a list \<Rightarrow> 's \<Rightarrow> (int \<times> 's) option" and rd :: "nat \<Rightarrow> 's \<Rightarrow> ('a list \<times> 's) option"
  assumes wr_law: "ok s \<Longrightarrow> \<exists>k s'. wr xs s = Some (k, s') \<and> nat k = min (length xs) (space s) \<and>
      ok s' \<and> contents s' = contents s @ take (nat k) xs"
    and rd_law: "ok s \<Longrightarrow> \<exists>s'. rd n s = Some (take n (contents s), s') \<and>
      ok s' \<and> contents s' = drop n (contents s)"
begin

lemma run_stream_fifo:
  "ok s \<Longrightarrow> \<exists>acc out s'. run_stream wr rd ops s = Some (acc, out, s') \<and> ok s' \<and>
     contents s @ acc = out @ contents s'"
proof (induction ops arbitrary: s)
  case (Cons op ops)
  show ?case
  proof (cases op)
    case (SWrite xs)
    obtain k s1 where w: "wr xs s = Some (k, s1)" "ok s1"
        "contents s1 = contents s @ take (nat k) xs"
      using wr_law[OF Cons.prems] by blast
    then show ?thesis using Cons.IH[OF w(2)] SWrite by auto
  next
    case (SRead n)
    obtain s1 where r: "rd n s = Some (take n (contents s), s1)" "ok s1"
        "contents s1 = drop n (contents s)"
      using rd_law[OF Cons.prems] by blast
    obtain acc out s' where i: "run_stream wr rd ops s1 = Some (acc, out, s')" "ok s'"
        "contents s1 @ acc = out @ contents s'"
      using Cons.IH[OF r(2)] by blast
    have "contents s @ acc = take n (contents s) @ (drop n (contents s) @ acc)" by simp
    also have "\<dots> = (take n (contents s) @ out) @ contents s'" using i(3) r(3) by simp
    finally show ?thesis using SRead r i by simp
  qed
qed simp

end

text \<open>
  A bounded first-in first-out buffer of single messages: \<open>cap\<close> places, an insertion that
  fails exactly when they are taken, a removal that fails exactly when none is. The integer
  results are the C ones: 0 for success.
\<close>

datatype 'a fifo_op = FPush 'a | FPop

fun run_fifo ::
  "('a \<Rightarrow> 's \<Rightarrow> (int \<times> 's) option) \<Rightarrow> ('s \<Rightarrow> (int \<times> 'a option \<times> 's) option)
     \<Rightarrow> 'a fifo_op list \<Rightarrow> 's \<Rightarrow> ('a list \<times> 'a list \<times> 's) option" where
  "run_fifo push pop [] s = Some ([], [], s)"
| "run_fifo push pop (FPush x # ops) s =
     do { (r, s1) \<leftarrow> push x s; (a, out, s2) \<leftarrow> run_fifo push pop ops s1;
          Some ((if r = 0 then [x] else []) @ a, out, s2) }"
| "run_fifo push pop (FPop # ops) s =
     do { (r, y, s1) \<leftarrow> pop s; (a, out, s2) \<leftarrow> run_fifo push pop ops s1;
          Some (a, (case y of Some v \<Rightarrow> [v] | None \<Rightarrow> []) @ out, s2) }"

locale bounded_fifo =
  fixes ok :: "'s \<Rightarrow> bool" and contents :: "'s \<Rightarrow> 'a list" and cap :: nat
    and push :: "'a \<Rightarrow> 's \<Rightarrow> (int \<times> 's) option" and pop :: "'s \<Rightarrow> (int \<times> 'a option \<times> 's) option"
  assumes bounded: "ok s \<Longrightarrow> length (contents s) \<le> cap"
    and push_law: "ok s \<Longrightarrow> \<exists>s'. push x s = Some (if length (contents s) < cap then 0 else -1, s') \<and>
      ok s' \<and> contents s' = contents s @ (if length (contents s) < cap then [x] else [])"
    and pop_law: "ok s \<Longrightarrow> \<exists>s'. ok s' \<and>
      (case contents s of
         [] \<Rightarrow> pop s = Some (-1, None, s') \<and> contents s' = []
       | y # ys \<Rightarrow> pop s = Some (0, Some y, s') \<and> contents s' = ys)"
begin

lemma run_fifo_order:
  "ok s \<Longrightarrow> \<exists>acc out s'. run_fifo push pop ops s = Some (acc, out, s') \<and> ok s' \<and>
     contents s @ acc = out @ contents s' \<and> length (contents s') \<le> cap"
proof (induction ops arbitrary: s)
  case Nil
  then show ?case using bounded by simp
next
  case (Cons op ops)
  show ?case
  proof (cases op)
    case (FPush x)
    obtain s1 where w: "push x s = Some (if length (contents s) < cap then 0 else -1, s1)" "ok s1"
        "contents s1 = contents s @ (if length (contents s) < cap then [x] else [])"
      using push_law[OF Cons.prems] by blast
    then show ?thesis using Cons.IH[OF w(2)] FPush by auto
  next
    case FPop
    obtain s1 where w: "ok s1" "case contents s of
         [] \<Rightarrow> pop s = Some (-1, None, s1) \<and> contents s1 = []
       | y # ys \<Rightarrow> pop s = Some (0, Some y, s1) \<and> contents s1 = ys"
      using pop_law[OF Cons.prems] by blast
    then show ?thesis using Cons.IH[OF w(1)] FPop by (cases "contents s") auto
  qed
qed

end

end
