(* ===== verification/Crc.thy ===== *)
theory Crc
  imports Prelude
begin

text \<open>
  The checksums of \<^verbatim>\<open>crc/crc16.c\<close> and \<^verbatim>\<open>crc/crc32.c\<close>: the two tables and the two
  table-driven loops. The 32-bit routine is proved equal to the bit-by-bit CRC-32
  (polynomial 0xEDB88320, reflected), composes over concatenation and detects every
  one-byte error. The 16-bit routine reads a most-significant-bit-first table in a
  least-significant-bit-first loop; it misses two-byte errors that a CRC of
  width 16 detects.
\<close>

section \<open>The tables\<close>

definition crc16_ccitt_table :: "u16 list" where
  "crc16_ccitt_table = [
   0x0000, 0x1021, 0x2042, 0x3063, 0x4084, 0x50a5, 0x60c6, 0x70e7, 0x8108, 0x9129,
   0xa14a, 0xb16b, 0xc18c, 0xd1ad, 0xe1ce, 0xf1ef, 0x1231, 0x0210, 0x3273, 0x2252,
   0x52b5, 0x4294, 0x72f7, 0x62d6, 0x9339, 0x8318, 0xb37b, 0xa35a, 0xd3bd, 0xc39c,
   0xf3ff, 0xe3de, 0x2462, 0x3443, 0x0420, 0x1401, 0x64e6, 0x74c7, 0x44a4, 0x5485,
   0xa56a, 0xb54b, 0x8528, 0x9509, 0xe5ee, 0xf5cf, 0xc5ac, 0xd58d, 0x3653, 0x2672,
   0x1611, 0x0630, 0x76d7, 0x66f6, 0x5695, 0x46b4, 0xb75b, 0xa77a, 0x9719, 0x8738,
   0xf7df, 0xe7fe, 0xd79d, 0xc7bc, 0x48c4, 0x58e5, 0x6886, 0x78a7, 0x0840, 0x1861,
   0x2802, 0x3823, 0xc9cc, 0xd9ed, 0xe98e, 0xf9af, 0x8948, 0x9969, 0xa90a, 0xb92b,
   0x5af5, 0x4ad4, 0x7ab7, 0x6a96, 0x1a71, 0x0a50, 0x3a33, 0x2a12, 0xdbfd, 0xcbdc,
   0xfbbf, 0xeb9e, 0x9b79, 0x8b58, 0xbb3b, 0xab1a, 0x6ca6, 0x7c87, 0x4ce4, 0x5cc5,
   0x2c22, 0x3c03, 0x0c60, 0x1c41, 0xedae, 0xfd8f, 0xcdec, 0xddcd, 0xad2a, 0xbd0b,
   0x8d68, 0x9d49, 0x7e97, 0x6eb6, 0x5ed5, 0x4ef4, 0x3e13, 0x2e32, 0x1e51, 0x0e70,
   0xff9f, 0xefbe, 0xdfdd, 0xcffc, 0xbf1b, 0xaf3a, 0x9f59, 0x8f78, 0x9188, 0x81a9,
   0xb1ca, 0xa1eb, 0xd10c, 0xc12d, 0xf14e, 0xe16f, 0x1080, 0x00a1, 0x30c2, 0x20e3,
   0x5004, 0x4025, 0x7046, 0x6067, 0x83b9, 0x9398, 0xa3fb, 0xb3da, 0xc33d, 0xd31c,
   0xe37f, 0xf35e, 0x02b1, 0x1290, 0x22f3, 0x32d2, 0x4235, 0x5214, 0x6277, 0x7256,
   0xb5ea, 0xa5cb, 0x95a8, 0x8589, 0xf56e, 0xe54f, 0xd52c, 0xc50d, 0x34e2, 0x24c3,
   0x14a0, 0x0481, 0x7466, 0x6447, 0x5424, 0x4405, 0xa7db, 0xb7fa, 0x8799, 0x97b8,
   0xe75f, 0xf77e, 0xc71d, 0xd73c, 0x26d3, 0x36f2, 0x0691, 0x16b0, 0x6657, 0x7676,
   0x4615, 0x5634, 0xd94c, 0xc96d, 0xf90e, 0xe92f, 0x99c8, 0x89e9, 0xb98a, 0xa9ab,
   0x5844, 0x4865, 0x7806, 0x6827, 0x18c0, 0x08e1, 0x3882, 0x28a3, 0xcb7d, 0xdb5c,
   0xeb3f, 0xfb1e, 0x8bf9, 0x9bd8, 0xabbb, 0xbb9a, 0x4a75, 0x5a54, 0x6a37, 0x7a16,
   0x0af1, 0x1ad0, 0x2ab3, 0x3a92, 0xfd2e, 0xed0f, 0xdd6c, 0xcd4d, 0xbdaa, 0xad8b,
   0x9de8, 0x8dc9, 0x7c26, 0x6c07, 0x5c64, 0x4c45, 0x3ca2, 0x2c83, 0x1ce0, 0x0cc1,
   0xef1f, 0xff3e, 0xcf5d, 0xdf7c, 0xaf9b, 0xbfba, 0x8fd9, 0x9ff8, 0x6e17, 0x7e36,
   0x4e55, 0x5e74, 0x2e93, 0x3eb2, 0x0ed1, 0x1ef0]"

definition crc_table :: "u32 list" where
  "crc_table = [
   0x00000000, 0x77073096, 0xee0e612c, 0x990951ba, 0x076dc419, 0x706af48f, 0xe963a535, 0x9e6495a3,
   0x0edb8832, 0x79dcb8a4, 0xe0d5e91e, 0x97d2d988, 0x09b64c2b, 0x7eb17cbd, 0xe7b82d07, 0x90bf1d91,
   0x1db71064, 0x6ab020f2, 0xf3b97148, 0x84be41de, 0x1adad47d, 0x6ddde4eb, 0xf4d4b551, 0x83d385c7,
   0x136c9856, 0x646ba8c0, 0xfd62f97a, 0x8a65c9ec, 0x14015c4f, 0x63066cd9, 0xfa0f3d63, 0x8d080df5,
   0x3b6e20c8, 0x4c69105e, 0xd56041e4, 0xa2677172, 0x3c03e4d1, 0x4b04d447, 0xd20d85fd, 0xa50ab56b,
   0x35b5a8fa, 0x42b2986c, 0xdbbbc9d6, 0xacbcf940, 0x32d86ce3, 0x45df5c75, 0xdcd60dcf, 0xabd13d59,
   0x26d930ac, 0x51de003a, 0xc8d75180, 0xbfd06116, 0x21b4f4b5, 0x56b3c423, 0xcfba9599, 0xb8bda50f,
   0x2802b89e, 0x5f058808, 0xc60cd9b2, 0xb10be924, 0x2f6f7c87, 0x58684c11, 0xc1611dab, 0xb6662d3d,
   0x76dc4190, 0x01db7106, 0x98d220bc, 0xefd5102a, 0x71b18589, 0x06b6b51f, 0x9fbfe4a5, 0xe8b8d433,
   0x7807c9a2, 0x0f00f934, 0x9609a88e, 0xe10e9818, 0x7f6a0dbb, 0x086d3d2d, 0x91646c97, 0xe6635c01,
   0x6b6b51f4, 0x1c6c6162, 0x856530d8, 0xf262004e, 0x6c0695ed, 0x1b01a57b, 0x8208f4c1, 0xf50fc457,
   0x65b0d9c6, 0x12b7e950, 0x8bbeb8ea, 0xfcb9887c, 0x62dd1ddf, 0x15da2d49, 0x8cd37cf3, 0xfbd44c65,
   0x4db26158, 0x3ab551ce, 0xa3bc0074, 0xd4bb30e2, 0x4adfa541, 0x3dd895d7, 0xa4d1c46d, 0xd3d6f4fb,
   0x4369e96a, 0x346ed9fc, 0xad678846, 0xda60b8d0, 0x44042d73, 0x33031de5, 0xaa0a4c5f, 0xdd0d7cc9,
   0x5005713c, 0x270241aa, 0xbe0b1010, 0xc90c2086, 0x5768b525, 0x206f85b3, 0xb966d409, 0xce61e49f,
   0x5edef90e, 0x29d9c998, 0xb0d09822, 0xc7d7a8b4, 0x59b33d17, 0x2eb40d81, 0xb7bd5c3b, 0xc0ba6cad,
   0xedb88320, 0x9abfb3b6, 0x03b6e20c, 0x74b1d29a, 0xead54739, 0x9dd277af, 0x04db2615, 0x73dc1683,
   0xe3630b12, 0x94643b84, 0x0d6d6a3e, 0x7a6a5aa8, 0xe40ecf0b, 0x9309ff9d, 0x0a00ae27, 0x7d079eb1,
   0xf00f9344, 0x8708a3d2, 0x1e01f268, 0x6906c2fe, 0xf762575d, 0x806567cb, 0x196c3671, 0x6e6b06e7,
   0xfed41b76, 0x89d32be0, 0x10da7a5a, 0x67dd4acc, 0xf9b9df6f, 0x8ebeeff9, 0x17b7be43, 0x60b08ed5,
   0xd6d6a3e8, 0xa1d1937e, 0x38d8c2c4, 0x4fdff252, 0xd1bb67f1, 0xa6bc5767, 0x3fb506dd, 0x48b2364b,
   0xd80d2bda, 0xaf0a1b4c, 0x36034af6, 0x41047a60, 0xdf60efc3, 0xa867df55, 0x316e8eef, 0x4669be79,
   0xcb61b38c, 0xbc66831a, 0x256fd2a0, 0x5268e236, 0xcc0c7795, 0xbb0b4703, 0x220216b9, 0x5505262f,
   0xc5ba3bbe, 0xb2bd0b28, 0x2bb45a92, 0x5cb36a04, 0xc2d7ffa7, 0xb5d0cf31, 0x2cd99e8b, 0x5bdeae1d,
   0x9b64c2b0, 0xec63f226, 0x756aa39c, 0x026d930a, 0x9c0906a9, 0xeb0e363f, 0x72076785, 0x05005713,
   0x95bf4a82, 0xe2b87a14, 0x7bb12bae, 0x0cb61b38, 0x92d28e9b, 0xe5d5be0d, 0x7cdcefb7, 0x0bdbdf21,
   0x86d3d2d4, 0xf1d4e242, 0x68ddb3f8, 0x1fda836e, 0x81be16cd, 0xf6b9265b, 0x6fb077e1, 0x18b74777,
   0x88085ae6, 0xff0f6a70, 0x66063bca, 0x11010b5c, 0x8f659eff, 0xf862ae69, 0x616bffd3, 0x166ccf45,
   0xa00ae278, 0xd70dd2ee, 0x4e048354, 0x3903b3c2, 0xa7672661, 0xd06016f7, 0x4969474d, 0x3e6e77db,
   0xaed16a4a, 0xd9d65adc, 0x40df0b66, 0x37d83bf0, 0xa9bcae53, 0xdebb9ec5, 0x47b2cf7f, 0x30b5ffe9,
   0xbdbdf21c, 0xcabac28a, 0x53b39330, 0x24b4a3a6, 0xbad03605, 0xcdd70693, 0x54de5729, 0x23d967bf,
   0xb3667a2e, 0xc4614ab8, 0x5d681b02, 0x2a6f2b94, 0xb40bbe37, 0xc30c8ea1, 0x5a05df1b, 0x2d02ef8d]"

section \<open>The loops\<close>

definition crc16_step :: "u16 \<Rightarrow> u8 \<Rightarrow> u16" where
  "crc16_step reg b =
     drop_bit 8 reg XOR crc16_ccitt_table ! unat ((reg XOR ucast b) AND 0xff)"

fun crc16_loop :: "u16 \<Rightarrow> bytes \<Rightarrow> nat \<Rightarrow> nat \<Rightarrow> u16 option" where
  "crc16_loop reg buf i 0 = Some reg"
| "crc16_loop reg buf i (Suc n) =
     do { b \<leftarrow> byte_at buf i; crc16_loop (crc16_step reg b) buf (Suc i) n }"

definition calc_crc16 :: "u16 \<Rightarrow> bytes \<Rightarrow> int \<Rightarrow> u16 option" where
  "calc_crc16 reg_init massage len = crc16_loop reg_init massage 0 (nat len)"

definition crc32_step :: "u32 \<Rightarrow> u8 \<Rightarrow> u32" where
  "crc32_step crc b =
     drop_bit 8 crc XOR crc_table ! unat (((crc AND 0xff) XOR ucast b) AND 0xff)"

fun crc32_loop :: "u32 \<Rightarrow> bytes \<Rightarrow> nat \<Rightarrow> nat \<Rightarrow> u32 option" where
  "crc32_loop crc buf i 0 = Some crc"
| "crc32_loop crc buf i (Suc n) =
     do { b \<leftarrow> byte_at buf i; crc32_loop (crc32_step crc b) buf (Suc i) n }"

definition calc_crc32 :: "u32 \<Rightarrow> bytes option \<Rightarrow> int \<Rightarrow> u32 option" where
  "calc_crc32 origin buf len =
     (case buf of
        None \<Rightarrow> Some 0
      | Some pbuf \<Rightarrow>
          if len < 0 then Some 0
          else map_option (\<lambda>crc. NOT crc) (crc32_loop (NOT origin) pbuf 0 (nat len)))"

section \<open>The loops as folds\<close>

lemma crc16_loop_foldl:
  "i + n \<le> length buf \<Longrightarrow>
     crc16_loop reg buf i n = Some (foldl crc16_step reg (take n (drop i buf)))"
  by (induction n arbitrary: i reg) (simp_all add: mem_simps take_Suc_conv_app_nth[symmetric]
      Cons_nth_drop_Suc[symmetric])

lemma crc32_loop_foldl:
  "i + n \<le> length buf \<Longrightarrow>
     crc32_loop crc buf i n = Some (foldl crc32_step crc (take n (drop i buf)))"
  by (induction n arbitrary: i crc) (simp_all add: mem_simps Cons_nth_drop_Suc[symmetric])

lemma calc_crc16_all:
  "calc_crc16 reg buf (int (length buf)) = Some (foldl crc16_step reg buf)"
  by (simp add: calc_crc16_def crc16_loop_foldl)

lemma calc_crc32_all:
  "calc_crc32 origin (Some buf) (int (length buf)) = Some (NOT (foldl crc32_step (NOT origin) buf))"
  by (simp add: calc_crc32_def crc32_loop_foldl)

section \<open>The bit-by-bit CRC-32\<close>

definition crc32_bit :: "u32 \<Rightarrow> u32" where
  "crc32_bit c = (if bit c 0 then drop_bit 1 c XOR 0xEDB88320 else drop_bit 1 c)"

definition crc32_byte :: "u32 \<Rightarrow> u8 \<Rightarrow> u32" where
  "crc32_byte c b = (crc32_bit ^^ 8) (c XOR ucast b)"

definition crc32_ref :: "u32 \<Rightarrow> bytes \<Rightarrow> u32" where
  "crc32_ref origin buf = NOT (foldl crc32_byte (NOT origin) buf)"

lemma crc32_bit_xor: "crc32_bit (x XOR y) = crc32_bit x XOR crc32_bit y"
  by (simp add: crc32_bit_def bit_xor_iff ac_simps)

lemma crc32_bits_xor: "(crc32_bit ^^ k) (x XOR y) = (crc32_bit ^^ k) x XOR (crc32_bit ^^ k) y"
  by (induction k) (simp_all add: crc32_bit_xor)

lemma crc32_bits_shift: "(\<And>i. i < k \<Longrightarrow> \<not> bit z i) \<Longrightarrow> (crc32_bit ^^ k) z = drop_bit k z"
proof (induction k)
  case (Suc k)
  then show ?case
    by (simp add: crc32_bit_def bit_drop_bit_eq)
qed simp

text \<open>
  The 256 entries of the table are the bit-by-bit values of the 256 bytes. The kernel checks
  them on integers, where the simplifier computes with binary numerals.
\<close>

definition crc32_bit_int :: "int \<Rightarrow> int" where
  "crc32_bit_int c = (if even c then c div 2 else (c div 2) XOR 0xEDB88320)"

definition crc32_bits_int :: "int \<Rightarrow> int" where
  "crc32_bits_int c =
     crc32_bit_int (crc32_bit_int (crc32_bit_int (crc32_bit_int
       (crc32_bit_int (crc32_bit_int (crc32_bit_int (crc32_bit_int c)))))))"

lemma uint_crc32_bit: "uint (crc32_bit c) = crc32_bit_int (uint c)"
  by (simp add: crc32_bit_def crc32_bit_int_def bit_0 uint_xor drop_bit_eq_div uint_div)

lemma uint_crc32_bits: "uint ((crc32_bit ^^ 8) c) = crc32_bits_int (uint c)"
  by (simp add: numeral_eq_Suc crc32_bits_int_def uint_crc32_bit)

lemma crc_table_int: "map uint crc_table = map crc32_bits_int [0..255]"
  by (simp add: crc32_bits_int_def crc32_bit_int_def upto_rec1 crc_table_def)

lemma crc_table_length: "length crc_table = 256"
  by (simp add: crc_table_def)

lemma crc_table_bits: "i < 256 \<Longrightarrow> crc_table ! i = (crc32_bit ^^ 8) (of_nat i)"
proof -
  assume i: "i < 256"
  have "uint (crc_table ! i) = map uint crc_table ! i" using i by (simp add: crc_table_length)
  also have "\<dots> = crc32_bits_int (int i)" using i by (simp add: crc_table_int nth_upto)
  also have "\<dots> = uint ((crc32_bit ^^ 8) (of_nat i))"
    using i by (simp add: uint_crc32_bits uint_of_nat_small)
  finally show ?thesis by (simp add: word_uint_eq_iff)
qed

lemma byte_index: "unat ((x :: u32) AND 0xff) < 256" "of_nat (unat (x AND 0xff)) = x AND 0xff"
proof -
  have "x AND 0xff \<le> 0xff" by (rule word_and_le1)
  then show "unat (x AND 0xff) < 256" by (simp add: word_le_nat_alt)
qed simp

lemma crc32_step_byte: "crc32_step crc b = crc32_byte crc b"
proof -
  define x where "x = crc XOR ucast b"
  have split: "x = (crc AND NOT 0xff) XOR (x AND 0xff)"
    unfolding x_def by (rule bit_word_eqI) (auto simp: bit_simps)
  have idx: "((crc AND 0xff) XOR ucast b) AND 0xff = x AND 0xff"
    unfolding x_def by (rule bit_word_eqI) (auto simp: bit_simps)
  have high: "(crc32_bit ^^ 8) (crc AND NOT 0xff) = drop_bit 8 crc"
  proof -
    have "(crc32_bit ^^ 8) (crc AND NOT 0xff) = drop_bit 8 (crc AND NOT 0xff)"
      by (rule crc32_bits_shift) (auto simp: bit_simps)
    also have "\<dots> = drop_bit 8 crc"
      by (rule bit_word_eqI)
        (auto simp only: bit_drop_bit_eq comp_apply bit_and_iff bit_not_iff bit_0xff possible_bit_word
          dest: bit_imp_le_length)
    finally show ?thesis .
  qed
  have "crc32_byte crc b = (crc32_bit ^^ 8) ((crc AND NOT 0xff) XOR (x AND 0xff))"
    unfolding crc32_byte_def using split by (simp only: x_def)
  also have "\<dots> = drop_bit 8 crc XOR (crc32_bit ^^ 8) (x AND 0xff)"
    by (simp only: crc32_bits_xor high)
  also have "\<dots> = crc32_step crc b"
    by (simp only: crc32_step_def idx crc_table_bits byte_index)
  finally show ?thesis by (rule sym)
qed

text \<open>The constant has its top bit set, so a step loses nothing of the register.\<close>

lemma crc32_bit_top: "bit (crc32_bit x) 31 = bit x 0"
  using bit_imp_le_length[of x 32] by (auto simp: crc32_bit_def bit_simps)

lemma crc32_bit_inj: "crc32_bit x = crc32_bit y \<Longrightarrow> x = y"
proof -
  assume eq: "crc32_bit x = crc32_bit y"
  then have b0: "bit x 0 = bit y 0" by (metis crc32_bit_top)
  with eq have "drop_bit 1 x = drop_bit 1 y"
    by (auto simp: crc32_bit_def split: if_splits)
  then have "bit x n = bit y n" if "n \<noteq> 0" for n
  proof -
    have "bit (drop_bit 1 x) (n - 1) = bit (drop_bit 1 y) (n - 1)"
      using \<open>drop_bit 1 x = drop_bit 1 y\<close> by (rule arg_cong)
    then show ?thesis using that by (simp add: bit_drop_bit_eq)
  qed
  with b0 show "x = y" by (intro bit_word_eqI) metis
qed

lemma crc32_bits_inj: "(crc32_bit ^^ k) x = (crc32_bit ^^ k) y \<Longrightarrow> x = y"
  by (induction k) (auto dest: crc32_bit_inj)

lemma crc32_byte_inj_reg: "crc32_byte x b = crc32_byte y b \<Longrightarrow> x = y"
  unfolding crc32_byte_def by (drule crc32_bits_inj) simp

lemma crc32_ucast_inj: "(ucast (b :: u8) :: u32) = ucast c \<Longrightarrow> b = c"
  by (rule ucast_u8_inj) simp_all

lemma crc32_byte_inj_byte: "crc32_byte x b = crc32_byte x c \<Longrightarrow> b = c"
  unfolding crc32_byte_def
  by (drule crc32_bits_inj) (metis xor.commute xor_right_cancel crc32_ucast_inj)

lemma crc32_foldl_inj_reg: "foldl crc32_byte x bs = foldl crc32_byte y bs \<Longrightarrow> x = y"
  by (induction bs arbitrary: x y) (auto dest: crc32_byte_inj_reg)

section \<open>The 16-bit table\<close>

text \<open>The table of \<^verbatim>\<open>crc16.c\<close> is made for shifting left, with the CCITT polynomial 0x1021.\<close>

definition ccitt_bit :: "u16 \<Rightarrow> u16" where
  "ccitt_bit c = (if bit c 15 then push_bit 1 c XOR 0x1021 else push_bit 1 c)"

definition ccitt_byte :: "u8 \<Rightarrow> u16" where
  "ccitt_byte b = (ccitt_bit ^^ 8) (push_bit 8 (ucast b))"

definition ccitt_bit_int :: "int \<Rightarrow> int" where
  "ccitt_bit_int c =
     (if even (c div 32768) then (2 * c) mod 65536 else (2 * c) mod 65536 XOR 0x1021)"

definition ccitt_byte_int :: "int \<Rightarrow> int" where
  "ccitt_byte_int b =
     ccitt_bit_int (ccitt_bit_int (ccitt_bit_int (ccitt_bit_int
       (ccitt_bit_int (ccitt_bit_int (ccitt_bit_int (ccitt_bit_int (256 * b))))))))"

lemma uint_ccitt_bit: "uint (ccitt_bit c) = ccitt_bit_int (uint c)"
proof -
  have "bit c 15 \<longleftrightarrow> odd (uint c div 32768)"
    using bit_iff_odd[of "uint c" 15] by (simp add: bit_uint_iff bit_imp_le_length)
  moreover have "uint (push_bit 1 c) = (2 * uint c) mod 65536"
    by (simp add: push_bit_eq_mult uint_word_ariths mult.commute)
  ultimately show ?thesis by (simp add: ccitt_bit_def ccitt_bit_int_def uint_xor)
qed

lemma uint_ccitt_byte: "uint (ccitt_byte b) = ccitt_byte_int (uint b)"
proof -
  have "uint (push_bit 8 (ucast b :: u16)) = 256 * uint b"
    using uint_bounded[of b]
    by (simp add: push_bit_eq_mult uint_word_ariths unsigned_ucast_eq take_bit_int_eq_self mult.commute)
  then show ?thesis
    by (simp add: ccitt_byte_def numeral_eq_Suc uint_ccitt_bit ccitt_byte_int_def)
qed

lemma crc16_table_int: "map uint crc16_ccitt_table = map ccitt_byte_int [0..255]"
  by (simp add: ccitt_byte_int_def ccitt_bit_int_def upto_rec1 crc16_ccitt_table_def)

lemma crc16_table_length: "length crc16_ccitt_table = 256"
  by (simp add: crc16_ccitt_table_def)

lemma crc16_table_byte: "crc16_ccitt_table ! unat b = ccitt_byte b"
proof -
  have b: "unat b < 256" by simp
  then have "uint (crc16_ccitt_table ! unat b) = map uint crc16_ccitt_table ! unat b"
    by (simp add: crc16_table_length)
  also have "\<dots> = ccitt_byte_int (uint b)"
  proof -
    have "0 + int (unat b) \<le> 255" using b by linarith
    then have "[0..255] ! unat b = uint b" using nth_upto[of 0 "unat b" 255] by simp
    then show ?thesis using b by (simp add: crc16_table_int)
  qed
  finally show ?thesis by (simp add: uint_ccitt_byte word_uint_eq_iff)
qed

lemma ccitt_byte_xor: "ccitt_byte (x XOR y) = ccitt_byte x XOR ccitt_byte y"
proof -
  have bit: "ccitt_bit (a XOR b) = ccitt_bit a XOR ccitt_bit b" for a b
    by (simp add: ccitt_bit_def bit_xor_iff ac_simps)
  have "(ccitt_bit ^^ k) (a XOR b) = (ccitt_bit ^^ k) a XOR (ccitt_bit ^^ k) b" for a b k
    by (induction k) (simp_all add: bit)
  then show ?thesis by (simp add: ccitt_byte_def ucast_xor)
qed

text \<open>One step is linear in the register and the byte together.\<close>

lemma crc16_step_byte: "crc16_step reg b = drop_bit 8 reg XOR ccitt_byte (ucast reg XOR b)"
proof -
  have "unat ((reg XOR ucast b) AND 0xff) = unat (ucast reg XOR b)"
  proof -
    have "(reg XOR ucast b) AND 0xff = ucast (ucast reg XOR b)"
      by (rule bit_word_eqI) (auto simp: bit_simps)
    moreover have "unat (ucast reg XOR b) < 2 ^ 16"
      by (rule less_trans[OF unat_u8_less]) simp
    ultimately show ?thesis by (simp add: unsigned_ucast_eq take_bit_nat_eq_self)
  qed
  then show ?thesis by (simp add: crc16_step_def crc16_table_byte)
qed

lemma crc16_step_linear:
  "crc16_step (r XOR d) (b XOR e) = crc16_step r b XOR crc16_step d e"
  by (simp add: crc16_step_byte ucast_xor ccitt_byte_xor ac_simps)

section \<open>Properties\<close>

text \<open>C29. On any message the table-driven \<open>calc_crc32\<close> is the bit-by-bit CRC-32 with the
  reflected polynomial 0xEDB88320, complemented before and after.\<close>

theorem calc_crc32_ref:
  "calc_crc32 origin (Some buf) (int (length buf)) = Some (crc32_ref origin buf)"
  by (simp add: calc_crc32_all crc32_ref_def crc32_step_byte[abs_def])

text \<open>The checksum of a message sent in two parts is the checksum of the second part
  started from the checksum of the first.\<close>

theorem calc_crc32_append:
  "calc_crc32 origin (Some (xs @ ys)) (int (length (xs @ ys))) =
     do { c \<leftarrow> calc_crc32 origin (Some xs) (int (length xs));
          calc_crc32 c (Some ys) (int (length ys)) }"
  by (simp only: calc_crc32_all foldl_append bind.bind_lunit bit.double_compl)

text \<open>Two messages that differ in exactly one byte have different CRC-32 checksums.\<close>

theorem calc_crc32_detects_byte_error:
  assumes "b \<noteq> c"
  shows "calc_crc32 origin (Some (xs @ b # ys)) (int (length (xs @ b # ys))) \<noteq>
         calc_crc32 origin (Some (xs @ c # ys)) (int (length (xs @ c # ys)))"
proof
  assume "calc_crc32 origin (Some (xs @ b # ys)) (int (length (xs @ b # ys))) =
          calc_crc32 origin (Some (xs @ c # ys)) (int (length (xs @ c # ys)))"
  then have "foldl crc32_byte (NOT origin) (xs @ b # ys) = foldl crc32_byte (NOT origin) (xs @ c # ys)"
    by (simp add: calc_crc32_all crc32_step_byte[abs_def] del: length_append)
  then have "crc32_byte (foldl crc32_byte (NOT origin) xs) b = crc32_byte (foldl crc32_byte (NOT origin) xs) c"
    by (simp add: crc32_foldl_inj_reg)
  with assms show False by (auto dest: crc32_byte_inj_byte)
qed

theorem calc_crc32_detects_byte_error_witness:
  "(1 :: u8) \<noteq> 2 \<and> calc_crc32 0 (Some ([] @ 1 # [])) (int (length ([] @ (1 :: u8) # []))) \<noteq>
     calc_crc32 0 (Some ([] @ 2 # [])) (int (length ([] @ (2 :: u8) # [])))"
proof -
  have h: "(1 :: u8) \<noteq> 2" by simp
  show ?thesis using h calc_crc32_detects_byte_error[OF h, of 0 "[]" "[]"] by blast
qed

text \<open>The 16-bit routine misses two-byte errors: these two messages of two bytes have the
  same checksum from every initial register, although any CRC of width 16 detects every error
  burst of up to 16 bits. (The loop shifts right over a table made for shifting left.)\<close>

theorem calc_crc16_misses_burst:
  "calc_crc16 reg [10, 195] 2 = calc_crc16 reg [0, 0] 2"
proof -
  have zero: "crc16_step (crc16_step 0 10) 195 = 0"
    by (simp add: crc16_step_def crc16_ccitt_table_def)
  have "crc16_step (crc16_step reg 10) 195 =
        crc16_step (crc16_step reg 0) 0 XOR crc16_step (crc16_step 0 10) 195"
    by (simp flip: crc16_step_linear)
  then have "crc16_step (crc16_step reg 10) 195 = crc16_step (crc16_step reg 0) 0"
    by (simp add: zero)
  then show ?thesis
    using calc_crc16_all[of reg "[10, 195]"] calc_crc16_all[of reg "[0, 0]"] by simp
qed

end
