(* ===== verification/Osal.thy ===== *)
theory Osal
  imports Prelude
begin

text \<open>
  The OS abstraction layer, \<^verbatim>\<open>os/osal/osal.c\<close>: a table of function pointers that a port
  installs once (\<^verbatim>\<open>osal_imp.h\<close>), and one wrapper per operation that calls the installed
  function or returns the failure value of the operation.

  The operating system is a state \<open>'os\<close> and each operation of the table is a function on it.
  A call that does not return (a task waits for ever, or leaves by \<^verbatim>\<open>task_exit\<close>) is \<open>None\<close>.
  An address or a handle is a natural number, a pointer that may be \<^verbatim>\<open>NULL\<close> an option; an
  output parameter is passed by value and returned.
\<close>

section \<open>The function table\<close>

type_synonym ('r, 'os) call = "'os \<Rightarrow> ('r \<times> 'os) option"

record 'os tag_os_ops =
  op_task_create :: "(string \<Rightarrow> nat \<Rightarrow> nat option \<Rightarrow> int \<Rightarrow> nat option \<Rightarrow> int \<Rightarrow> (nat option, 'os) call) option"
  op_task_kill :: "(nat option \<Rightarrow> (int, 'os) call) option"
  op_task_exit :: "(unit, 'os) call option"
  op_task_sleep :: "(int \<Rightarrow> (unit, 'os) call) option"
  op_mutex_create :: "(nat \<Rightarrow> (bool \<times> nat, 'os) call) option"
  op_mutex_lock :: "(nat \<Rightarrow> (bool, 'os) call) option"
  op_mutex_unlock :: "(nat \<Rightarrow> (bool, 'os) call) option"
  op_mutex_del :: "(nat \<Rightarrow> (bool, 'os) call) option"
  op_semp_create :: "(nat \<Rightarrow> int \<Rightarrow> int \<Rightarrow> (bool \<times> nat, 'os) call) option"
  op_semp_pend :: "(nat \<Rightarrow> u32 \<Rightarrow> (bool, 'os) call) option"
  op_semp_post :: "(nat \<Rightarrow> (bool, 'os) call) option"
  op_semp_del :: "(nat \<Rightarrow> (bool, 'os) call) option"
  op_queue_create :: "(nat \<Rightarrow> int \<Rightarrow> int \<Rightarrow> (bool \<times> nat, 'os) call) option"
  op_queue_send :: "(nat \<Rightarrow> nat option \<Rightarrow> u32 \<Rightarrow> u32 \<Rightarrow> (bool, 'os) call) option"
  op_queue_recv :: "(nat \<Rightarrow> nat option \<Rightarrow> u32 \<Rightarrow> u32 \<Rightarrow> (bool \<times> u32, 'os) call) option"
  op_queue_del :: "(nat \<Rightarrow> (bool, 'os) call) option"
  op_malloc :: "(u64 \<Rightarrow> (nat option, 'os) call) option"
  op_free :: "(nat \<Rightarrow> (unit, 'os) call) option"
  op_realloc :: "(nat option \<Rightarrow> u64 \<Rightarrow> (nat option, 'os) call) option"
  op_get_sys_time :: "(u64, 'os) call option"
  op_reboot :: "(int, 'os) call option"
  op_int_connect :: "(int \<Rightarrow> int \<Rightarrow> int \<Rightarrow> nat \<Rightarrow> nat option \<Rightarrow> (int, 'os) call) option"

record 'os tag_os =
  os_name :: string
  os_ops :: "'os tag_os_ops option"

text \<open>\<^verbatim>\<open>s_os_cb\<close> is the installed port, \<^verbatim>\<open>NULL\<close> before the first installation.\<close>

type_synonym 'os os_cb = "'os tag_os option"

definition osal_install :: "'os tag_os option \<Rightarrow> 'os os_cb \<Rightarrow> int \<times> 'os os_cb" where
  "osal_install os s_os_cb = (if s_os_cb = None then (0, os) else (-1, s_os_cb))"

text \<open>
  The guard of every wrapper: \<^verbatim>\<open>(NULL != s_os_cb) && (NULL != s_os_cb->ops) &&
  (NULL != s_os_cb->ops->f)\<close>.
\<close>

definition os_op :: "'os os_cb \<Rightarrow> ('os tag_os_ops \<Rightarrow> 'f option) \<Rightarrow> 'f option" where
  "os_op s_os_cb f = do { os \<leftarrow> s_os_cb; ops \<leftarrow> os_ops os; f ops }"

definition or_else :: "'r \<Rightarrow> ('r, 'os) call option \<Rightarrow> ('r, 'os) call" where
  "or_else r f = (case f of None \<Rightarrow> (\<lambda>st. Some (r, st)) | Some g \<Rightarrow> g)"

section \<open>The wrappers\<close>

definition osal_task_create ::
  "'os os_cb \<Rightarrow> string \<Rightarrow> nat \<Rightarrow> nat option \<Rightarrow> int \<Rightarrow> nat option \<Rightarrow> int \<Rightarrow> (nat option, 'os) call" where
  "osal_task_create cb name task_entry args stack_size stack prior =
     or_else None (map_option (\<lambda>f. f name task_entry args stack_size stack prior)
       (os_op cb op_task_create))"

definition osal_task_kill :: "'os os_cb \<Rightarrow> nat option \<Rightarrow> (int, 'os) call" where
  "osal_task_kill cb task = or_else (-1) (map_option (\<lambda>f. f task) (os_op cb op_task_kill))"

definition osal_task_exit :: "'os os_cb \<Rightarrow> (unit, 'os) call" where
  "osal_task_exit cb = or_else () (os_op cb op_task_exit)"

definition osal_task_sleep :: "'os os_cb \<Rightarrow> int \<Rightarrow> (unit, 'os) call" where
  "osal_task_sleep cb ms = or_else () (map_option (\<lambda>f. f ms) (os_op cb op_task_sleep))"

definition osal_mutex_create :: "'os os_cb \<Rightarrow> nat \<Rightarrow> (bool \<times> nat, 'os) call" where
  "osal_mutex_create cb mutex =
     or_else (False, mutex) (map_option (\<lambda>f. f mutex) (os_op cb op_mutex_create))"

definition osal_mutex_lock :: "'os os_cb \<Rightarrow> nat \<Rightarrow> (bool, 'os) call" where
  "osal_mutex_lock cb mutex = or_else False (map_option (\<lambda>f. f mutex) (os_op cb op_mutex_lock))"

definition osal_mutex_unlock :: "'os os_cb \<Rightarrow> nat \<Rightarrow> (bool, 'os) call" where
  "osal_mutex_unlock cb mutex =
     or_else False (map_option (\<lambda>f. f mutex) (os_op cb op_mutex_unlock))"

definition osal_mutex_del :: "'os os_cb \<Rightarrow> nat \<Rightarrow> (bool, 'os) call" where
  "osal_mutex_del cb mutex = or_else False (map_option (\<lambda>f. f mutex) (os_op cb op_mutex_del))"

definition osal_semp_create :: "'os os_cb \<Rightarrow> nat \<Rightarrow> int \<Rightarrow> int \<Rightarrow> (bool \<times> nat, 'os) call" where
  "osal_semp_create cb semp limit initvalue =
     or_else (False, semp) (map_option (\<lambda>f. f semp limit initvalue) (os_op cb op_semp_create))"

definition osal_semp_pend :: "'os os_cb \<Rightarrow> nat \<Rightarrow> u32 \<Rightarrow> (bool, 'os) call" where
  "osal_semp_pend cb semp timeout =
     or_else False (map_option (\<lambda>f. f semp timeout) (os_op cb op_semp_pend))"

definition osal_semp_post :: "'os os_cb \<Rightarrow> nat \<Rightarrow> (bool, 'os) call" where
  "osal_semp_post cb semp = or_else False (map_option (\<lambda>f. f semp) (os_op cb op_semp_post))"

definition osal_semp_del :: "'os os_cb \<Rightarrow> nat \<Rightarrow> (bool, 'os) call" where
  "osal_semp_del cb semp = or_else False (map_option (\<lambda>f. f semp) (os_op cb op_semp_del))"

definition osal_malloc :: "'os os_cb \<Rightarrow> u64 \<Rightarrow> (nat option, 'os) call" where
  "osal_malloc cb sz = or_else None (map_option (\<lambda>f. f sz) (os_op cb op_malloc))"

definition osal_free :: "'os os_cb \<Rightarrow> nat option \<Rightarrow> (unit, 'os) call" where
  "osal_free cb addr =
     (case addr of
        None \<Rightarrow> (\<lambda>st. Some ((), st))
      | Some a \<Rightarrow> or_else () (map_option (\<lambda>f. f a) (os_op cb op_free)))"

text \<open>\<open>memset\<close> is the library's \<^verbatim>\<open>memset\<close> on the memory of the state.\<close>

definition osal_zalloc ::
  "(nat \<Rightarrow> u8 \<Rightarrow> u64 \<Rightarrow> 'os \<Rightarrow> 'os) \<Rightarrow> 'os os_cb \<Rightarrow> u64 \<Rightarrow> (nat option, 'os) call" where
  "osal_zalloc memset cb sz =
     or_else None (map_option (\<lambda>f st.
       do { (ret, st) \<leftarrow> f sz st;
            Some (ret, case ret of None \<Rightarrow> st | Some a \<Rightarrow> memset a 0 sz st) })
       (os_op cb op_malloc))"

definition osal_realloc :: "'os os_cb \<Rightarrow> nat option \<Rightarrow> u64 \<Rightarrow> (nat option, 'os) call" where
  "osal_realloc cb ptr newsize =
     or_else None (map_option (\<lambda>f. f ptr newsize) (os_op cb op_realloc))"

text \<open>\<^verbatim>\<open>osal_calloc\<close> calls the C library's \<^verbatim>\<open>malloc\<close>, not the installed one.\<close>

definition osal_calloc ::
  "(nat \<Rightarrow> u8 \<Rightarrow> u64 \<Rightarrow> 'os \<Rightarrow> 'os) \<Rightarrow> (u64 \<Rightarrow> (nat option, 'os) call) \<Rightarrow> u64 \<Rightarrow> u64
     \<Rightarrow> (nat option, 'os) call" where
  "osal_calloc memset libc_malloc n sz st =
     (let len = n * sz in
      do { (ret, st) \<leftarrow> libc_malloc len st;
           Some (ret, case ret of None \<Rightarrow> st | Some a \<Rightarrow> memset a 0 len st) })"

definition osal_sys_time :: "'os os_cb \<Rightarrow> (u64, 'os) call" where
  "osal_sys_time cb = or_else 0 (os_op cb op_get_sys_time)"

definition osal_reboot :: "'os os_cb \<Rightarrow> (int, 'os) call" where
  "osal_reboot cb = or_else (-1) (os_op cb op_reboot)"

definition osal_int_connect ::
  "'os os_cb \<Rightarrow> int \<Rightarrow> int \<Rightarrow> int \<Rightarrow> nat \<Rightarrow> nat option \<Rightarrow> (int, 'os) call" where
  "osal_int_connect cb intnum prio mode callback arg =
     or_else (-1) (map_option (\<lambda>f. f intnum prio mode callback arg) (os_op cb op_int_connect))"

definition osal_queue_create :: "'os os_cb \<Rightarrow> nat \<Rightarrow> int \<Rightarrow> int \<Rightarrow> (bool \<times> nat, 'os) call" where
  "osal_queue_create cb queue len msgsize =
     or_else (False, queue) (map_option (\<lambda>f. f queue len msgsize) (os_op cb op_queue_create))"

definition osal_queue_send ::
  "'os os_cb \<Rightarrow> nat \<Rightarrow> nat option \<Rightarrow> u32 \<Rightarrow> u32 \<Rightarrow> (bool, 'os) call" where
  "osal_queue_send cb queue pbuf bufsize timeout =
     or_else False (map_option (\<lambda>f. f queue pbuf bufsize timeout) (os_op cb op_queue_send))"

definition osal_queue_recv ::
  "'os os_cb \<Rightarrow> nat \<Rightarrow> nat option \<Rightarrow> u32 \<Rightarrow> u32 \<Rightarrow> (bool \<times> u32, 'os) call" where
  "osal_queue_recv cb queue pbuf bufsize timeout =
     or_else (False, bufsize)
       (map_option (\<lambda>f. f queue pbuf bufsize timeout) (os_op cb op_queue_recv))"

definition osal_queue_del :: "'os os_cb \<Rightarrow> nat \<Rightarrow> (bool, 'os) call" where
  "osal_queue_del cb queue = or_else False (map_option (\<lambda>f. f queue) (os_op cb op_queue_del))"

section \<open>Loop timers\<close>

text \<open>\<^verbatim>\<open>osal_loop_timer_t\<close> is its one field, the 64-bit \<^verbatim>\<open>dead_time\<close>.\<close>

record osal_loop_timer =
  lt_dead_time :: u64

definition osal_loop_timer_init :: "'os os_cb \<Rightarrow> osal_loop_timer \<Rightarrow> (osal_loop_timer, 'os) call" where
  "osal_loop_timer_init cb timer st =
     do { (now, st) \<leftarrow> osal_sys_time cb st; Some (timer\<lparr>lt_dead_time := now\<rparr>, st) }"

definition osal_loop_timer_expired :: "'os os_cb \<Rightarrow> osal_loop_timer \<Rightarrow> (bool, 'os) call" where
  "osal_loop_timer_expired cb timer st =
     do { (now, st) \<leftarrow> osal_sys_time cb st; Some (lt_dead_time timer \<le> now, st) }"

definition osal_loop_timer_count_downms ::
  "'os os_cb \<Rightarrow> osal_loop_timer \<Rightarrow> u32 \<Rightarrow> (osal_loop_timer, 'os) call" where
  "osal_loop_timer_count_downms cb timer timeout st =
     do { (now, st) \<leftarrow> osal_sys_time cb st;
          Some (timer\<lparr>lt_dead_time := now + ucast timeout\<rparr>, st) }"

definition osal_loop_timer_count_down ::
  "'os os_cb \<Rightarrow> osal_loop_timer \<Rightarrow> u32 \<Rightarrow> (osal_loop_timer, 'os) call" where
  "osal_loop_timer_count_down cb timer timeout =
     osal_loop_timer_count_downms cb timer (timeout * 1000)"

text \<open>The result is converted from 64 bits unsigned to a 32-bit \<^verbatim>\<open>int\<close>.\<close>

definition osal_loop_timer_left :: "'os os_cb \<Rightarrow> osal_loop_timer \<Rightarrow> (int, 'os) call" where
  "osal_loop_timer_left cb timer st =
     do { (now, st) \<leftarrow> osal_sys_time cb st;
          Some (if lt_dead_time timer \<le> now then 0
                else sint (ucast (lt_dead_time timer - now) :: u32), st) }"

text \<open>The default of \<^verbatim>\<open>os_imp_init\<close>, which a port overrides.\<close>

definition os_imp_init_weak :: "'os os_cb \<Rightarrow> int \<times> 'os os_cb" where
  "os_imp_init_weak s_os_cb = (-1, s_os_cb)"

definition osal_init :: "('os os_cb \<Rightarrow> int \<times> 'os os_cb) \<Rightarrow> 'os os_cb \<Rightarrow> int \<times> 'os os_cb" where
  "osal_init os_imp_init s_os_cb = os_imp_init s_os_cb"

section \<open>Lemmas\<close>

named_theorems osal_defs \<open>the wrappers, unfolded to the installed table\<close>

declare osal_mutex_create_def [osal_defs] osal_mutex_lock_def [osal_defs]
  osal_mutex_unlock_def [osal_defs] osal_mutex_del_def [osal_defs]
  osal_semp_create_def [osal_defs] osal_semp_pend_def [osal_defs]
  osal_semp_post_def [osal_defs] osal_semp_del_def [osal_defs]
  osal_malloc_def [osal_defs] osal_free_def [osal_defs] osal_sys_time_def [osal_defs]
  os_op_def [osal_defs] or_else_def [osal_defs]

text \<open>A port whose clock is a function of its state, and reading it does not change the state.\<close>

definition has_clock :: "'os os_cb \<Rightarrow> ('os \<Rightarrow> u64) \<Rightarrow> bool" where
  "has_clock cb clk \<longleftrightarrow> (\<forall>st. osal_sys_time cb st = Some (clk st, st))"

lemma uint_add_u32: "uint (a :: u64) + uint (t :: u32) < 2 ^ 64 \<Longrightarrow> uint (a + ucast t) = uint a + uint t"
  by (simp add: uint_word_ariths uint_ucast_up)

lemma ucast_sub_u64:
  assumes "b \<le> (a :: u64)" and "uint a - uint b < 2 ^ 31"
  shows "sint (ucast (a - b) :: u32) = uint a - uint b"
proof -
  have d: "uint (a - b) = uint a - uint b"
    using assms(1) by (simp add: uint_sub_lem[THEN iffD1] word_le_def)
  have "uint (ucast (a - b) :: u32) = uint a - uint b"
    using assms by (simp add: unsigned_ucast_eq d take_bit_int_eq_self word_le_def)
  moreover have "0 \<le> uint a - uint b" using assms(1) by (simp add: word_le_def)
  ultimately show ?thesis using assms(2) by (simp add: sint_uint signed_take_bit_int_eq_self)
qed

section \<open>Properties\<close>

text \<open>A countdown of \<open>t\<close> milliseconds set at time \<open>now\<close> and read at a later time is
  expired exactly when \<open>t\<close> milliseconds have passed, and otherwise the time left is the
  rest of \<open>t\<close> (for countdowns of less than 2^31 ms, the range of the returned int).\<close>

theorem loop_timer_countdown:
  assumes "has_clock cb clk" and "uint (clk st) + uint t < 2 ^ 64" and "uint t < 2 ^ 31"
    and "clk st \<le> clk st'"
    and "osal_loop_timer_count_downms cb timer t st = Some (timer', st1)"
  shows "osal_loop_timer_expired cb timer' st' =
           Some (uint t \<le> uint (clk st') - uint (clk st), st') \<and>
         osal_loop_timer_left cb timer' st' =
           Some (max 0 (uint t - (uint (clk st') - uint (clk st))), st')"
proof -
  have d: "uint (lt_dead_time timer') = uint (clk st) + uint t"
    using assms by (auto simp: osal_loop_timer_count_downms_def has_clock_def uint_add_u32)
  have le: "lt_dead_time timer' \<le> clk st' \<longleftrightarrow> uint t \<le> uint (clk st') - uint (clk st)"
    by (auto simp: word_le_def d)
  have left: "sint (ucast (lt_dead_time timer' - clk st') :: u32) =
      uint t - (uint (clk st') - uint (clk st))" if "\<not> lt_dead_time timer' \<le> clk st'"
    using that assms(3,4) by (subst ucast_sub_u64) (auto simp: d word_le_def)
  show ?thesis
    using assms(1) le left
    by (auto simp: osal_loop_timer_expired_def osal_loop_timer_left_def has_clock_def)
qed
text \<open>A port that has a millisecond clock and nothing else.\<close>

definition clock_ops :: "u64 tag_os_ops" where
  "clock_ops =
     \<lparr>op_task_create = None, op_task_kill = None, op_task_exit = None, op_task_sleep = None,
      op_mutex_create = None, op_mutex_lock = None, op_mutex_unlock = None, op_mutex_del = None,
      op_semp_create = None, op_semp_pend = None, op_semp_post = None, op_semp_del = None,
      op_queue_create = None, op_queue_send = None, op_queue_recv = None, op_queue_del = None,
      op_malloc = None, op_free = None, op_realloc = None,
      op_get_sys_time = Some (\<lambda>t. Some (t, t)), op_reboot = None, op_int_connect = None\<rparr>"

definition clock_os :: "u64 os_cb" where
  "clock_os = Some \<lparr>os_name = ''clock'', os_ops = Some clock_ops\<rparr>"

lemma clock_os_time: "has_clock clock_os id"
  by (simp add: has_clock_def clock_os_def clock_ops_def osal_defs)

lemma loop_timer_countdown_witness:
  "osal_loop_timer_expired clock_os \<lparr>lt_dead_time = 1500\<rparr> 1200 = Some (False, 1200) \<and>
   osal_loop_timer_left clock_os \<lparr>lt_dead_time = 1500\<rparr> 1200 = Some (300, 1200)"
  using loop_timer_countdown[OF clock_os_time, of 1000 500 1200 "\<lparr>lt_dead_time = 0\<rparr>"
      "\<lparr>lt_dead_time = 1500\<rparr>" 1000] clock_os_time
  by (simp add: osal_loop_timer_count_downms_def has_clock_def)

end
