(* ===== verification/LinuxOs.thy ===== *)
theory LinuxOs
  imports Osal
begin

text \<open>
  The Linux port of the OS abstraction layer, \<^verbatim>\<open>os/linux/linux_imp.c\<close>, over a model of the
  POSIX calls it makes, seen from one thread: semaphores are counters, mutexes a flag, the
  real-time clock a number of nanoseconds. What POSIX leaves undefined and a wait that no
  other thread ends are \<open>None\<close>. The outcomes of the calls that may fail for lack of
  resources (\<^verbatim>\<open>malloc\<close>, \<^verbatim>\<open>sem_init\<close>, \<^verbatim>\<open>pthread_mutex_init\<close>, \<^verbatim>\<open>pthread_create\<close>) come from
  the oracle \<open>px_outcomes\<close>.

  The locale \<open>osal_sync\<close> is what a client of the abstraction layer relies on: the laws of
  counting semaphores and mutexes through the \<^verbatim>\<open>osal\<close> wrappers. The Linux port is proved to
  provide them.
\<close>

section \<open>POSIX\<close>

record posix =
  px_sem :: "nat \<Rightarrow> nat option"
  px_mtx :: "nat \<Rightarrow> bool option"
  px_thr :: "nat \<Rightarrow> bool"
  px_next :: nat
  px_outcomes :: "bool list"
  px_clock :: nat

record timespec =
  tv_sec :: nat
  tv_nsec :: nat

definition libc_outcome :: "posix \<Rightarrow> bool \<times> posix" where
  "libc_outcome st = (let (ok, os) = alloc (px_outcomes st) in (ok, st\<lparr>px_outcomes := os\<rparr>))"

definition libc_malloc :: "posix \<Rightarrow> nat option \<times> posix" where
  "libc_malloc st =
     (let (ok, st) = libc_outcome st
      in if ok then (Some (px_next st), st\<lparr>px_next := Suc (px_next st)\<rparr>) else (None, st))"

definition px_usleep :: "u32 \<Rightarrow> posix \<Rightarrow> posix" where
  "px_usleep us st = st\<lparr>px_clock := px_clock st + unat us * 1000\<rparr>"

definition px_clock_gettime :: "posix \<Rightarrow> timespec" where
  "px_clock_gettime st =
     \<lparr>tv_sec = px_clock st div 10 ^ 9, tv_nsec = px_clock st mod 10 ^ 9\<rparr>"

definition px_sem_init :: "nat \<Rightarrow> u32 \<Rightarrow> posix \<Rightarrow> int \<times> posix" where
  "px_sem_init s value st =
     (let (ok, st) = libc_outcome st
      in if ok \<and> unat value < 2 ^ 31 then (0, st\<lparr>px_sem := (px_sem st)(s \<mapsto> unat value)\<rparr>)
         else (-1, st))"

definition px_sem_wait :: "nat \<Rightarrow> posix \<Rightarrow> (int \<times> posix) option" where
  "px_sem_wait s st =
     (case px_sem st s of
        Some (Suc n) \<Rightarrow> Some (0, st\<lparr>px_sem := (px_sem st)(s \<mapsto> n)\<rparr>)
      | _ \<Rightarrow> None)"

definition px_sem_trywait :: "nat \<Rightarrow> posix \<Rightarrow> (int \<times> posix) option" where
  "px_sem_trywait s st =
     (case px_sem st s of
        None \<Rightarrow> None
      | Some 0 \<Rightarrow> Some (-1, st)
      | Some (Suc n) \<Rightarrow> Some (0, st\<lparr>px_sem := (px_sem st)(s \<mapsto> n)\<rparr>))"

text \<open>A semaphore at zero: an invalid deadline fails at once, a valid one when it is reached.\<close>

definition px_sem_timedwait :: "nat \<Rightarrow> timespec \<Rightarrow> posix \<Rightarrow> (int \<times> posix) option" where
  "px_sem_timedwait s ts st =
     (case px_sem st s of
        None \<Rightarrow> None
      | Some (Suc n) \<Rightarrow> Some (0, st\<lparr>px_sem := (px_sem st)(s \<mapsto> n)\<rparr>)
      | Some 0 \<Rightarrow>
          if 10 ^ 9 \<le> tv_nsec ts then Some (-1, st)
          else Some (-1, st\<lparr>px_clock := max (px_clock st) (tv_sec ts * 10 ^ 9 + tv_nsec ts)\<rparr>))"

definition px_sem_post :: "nat \<Rightarrow> posix \<Rightarrow> (int \<times> posix) option" where
  "px_sem_post s st =
     map_option (\<lambda>n. (0, st\<lparr>px_sem := (px_sem st)(s \<mapsto> Suc n)\<rparr>)) (px_sem st s)"

definition px_sem_destroy :: "nat \<Rightarrow> posix \<Rightarrow> (int \<times> posix) option" where
  "px_sem_destroy s st =
     map_option (\<lambda>n. (0, st\<lparr>px_sem := (px_sem st)(s := None)\<rparr>)) (px_sem st s)"

definition px_mutex_init :: "nat \<Rightarrow> posix \<Rightarrow> int \<times> posix" where
  "px_mutex_init m st =
     (let (ok, st) = libc_outcome st
      in if ok then (0, st\<lparr>px_mtx := (px_mtx st)(m \<mapsto> False)\<rparr>) else (11, st))"

definition px_mutex_lock :: "nat \<Rightarrow> posix \<Rightarrow> (int \<times> posix) option" where
  "px_mutex_lock m st =
     (case px_mtx st m of
        Some False \<Rightarrow> Some (0, st\<lparr>px_mtx := (px_mtx st)(m \<mapsto> True)\<rparr>)
      | _ \<Rightarrow> None)"

definition px_mutex_unlock :: "nat \<Rightarrow> posix \<Rightarrow> (int \<times> posix) option" where
  "px_mutex_unlock m st =
     (case px_mtx st m of
        Some True \<Rightarrow> Some (0, st\<lparr>px_mtx := (px_mtx st)(m \<mapsto> False)\<rparr>)
      | _ \<Rightarrow> None)"

definition px_mutex_destroy :: "nat \<Rightarrow> posix \<Rightarrow> (int \<times> posix) option" where
  "px_mutex_destroy m st =
     (case px_mtx st m of
        Some False \<Rightarrow> Some (0, st\<lparr>px_mtx := (px_mtx st)(m := None)\<rparr>)
      | _ \<Rightarrow> None)"

section \<open>The port\<close>

definition linux_task_sleep :: "int \<Rightarrow> (unit, posix) call" where
  "linux_task_sleep ms st = Some ((), px_usleep (word_of_int (ms * 1000)) st)"

definition linux_task_create ::
  "string \<Rightarrow> nat \<Rightarrow> nat option \<Rightarrow> int \<Rightarrow> nat option \<Rightarrow> int \<Rightarrow> (nat option, posix) call" where
  "linux_task_create name task_entry args stack_size stack prior st =
     (let (ok, st) = libc_outcome st
      in if ok
         then Some (Some (px_next st),
                st\<lparr>px_next := Suc (px_next st), px_thr := (px_thr st)(px_next st := True)\<rparr>)
         else Some (None, st))"

text \<open>Cancelling and joining: a thread that does not exist is undefined.\<close>

definition linux_task_kill :: "nat option \<Rightarrow> (int, posix) call" where
  "linux_task_kill task st =
     (case task of
        None \<Rightarrow> None
      | Some pid \<Rightarrow>
          if px_thr st pid then Some (0, st\<lparr>px_thr := (px_thr st)(pid := False)\<rparr>) else None)"

definition linux_task_exit :: "(unit, posix) call" where
  "linux_task_exit st = None"

text \<open>The result of \<^verbatim>\<open>malloc\<close> is not checked: a failed allocation reaches \<^verbatim>\<open>pthread_mutex_init\<close>.\<close>

definition linux_mutex_create :: "nat \<Rightarrow> (bool \<times> nat, posix) call" where
  "linux_mutex_create mutex st =
     (case libc_malloc st of
        (None, st) \<Rightarrow> None
      | (Some m, st) \<Rightarrow> (let (r, st) = px_mutex_init m st in Some ((r = 0, m), st)))"

definition linux_mutex_lock :: "nat \<Rightarrow> (bool, posix) call" where
  "linux_mutex_lock mutex st = map_option (\<lambda>(r, st). (r = 0, st)) (px_mutex_lock mutex st)"

definition linux_mutex_unlock :: "nat \<Rightarrow> (bool, posix) call" where
  "linux_mutex_unlock mutex st =
     do { (r, st) \<leftarrow> px_mutex_unlock mutex st;
          if r = 0 then Some (True, px_usleep 1000 st) else Some (False, st) }"

definition linux_mutex_del :: "nat \<Rightarrow> (bool, posix) call" where
  "linux_mutex_del mutex st =
     do { (r, st) \<leftarrow> px_mutex_destroy mutex st; Some (r = 0, st) }"

definition linux_semp_create :: "nat \<Rightarrow> int \<Rightarrow> int \<Rightarrow> (bool \<times> nat, posix) call" where
  "linux_semp_create semp limit initvalue st =
     (case libc_malloc st of
        (None, st) \<Rightarrow> Some ((False, semp), st)
      | (Some s, st) \<Rightarrow>
          (let (r, st) = px_sem_init s (word_of_int initvalue) st
           in if r \<noteq> 0 then Some ((False, semp), st) else Some ((True, s), st)))"

abbreviation cn_osal_timeout_forever :: u32 where
  "cn_osal_timeout_forever \<equiv> 0xFFFFFFFF"

text \<open>The deadline of a timed wait, as the code computes it.\<close>

definition linux_deadline :: "u32 \<Rightarrow> timespec \<Rightarrow> timespec" where
  "linux_deadline timeout ts =
     \<lparr>tv_sec = tv_sec ts + unat (timeout div 1000),
      tv_nsec = tv_nsec ts + unat ((timeout mod 1000) * 1000)\<rparr>"

definition linux_semp_pend :: "nat \<Rightarrow> u32 \<Rightarrow> (bool, posix) call" where
  "linux_semp_pend semp timeout st =
     (if timeout = cn_osal_timeout_forever
      then map_option (\<lambda>(r, st). (r = 0, st)) (px_sem_wait semp st)
      else if timeout > 0
      then map_option (\<lambda>(r, st). (r = 0, st))
             (px_sem_timedwait semp (linux_deadline timeout (px_clock_gettime st)) st)
      else map_option (\<lambda>(r, st). (r = 0, st)) (px_sem_trywait semp st))"

text \<open>\<^verbatim>\<open>return (sem_post(...))\<close>: the integer result, 0 for success, taken as a truth value.\<close>

definition linux_semp_post :: "nat \<Rightarrow> (bool, posix) call" where
  "linux_semp_post semp st = map_option (\<lambda>(r, st). (r \<noteq> 0, st)) (px_sem_post semp st)"

definition linux_semp_del :: "nat \<Rightarrow> (bool, posix) call" where
  "linux_semp_del semp st = map_option (\<lambda>(r, st). (r = 0, st)) (px_sem_destroy semp st)"

definition linux_get_sys_time :: "(u64, posix) call" where
  "linux_get_sys_time st =
     (let sec = px_clock st div 10 ^ 9; usec = px_clock st mod 10 ^ 9 div 1000
      in Some (of_nat sec * 1000 + of_nat (usec div 1000), st))"

definition s_linux_ops :: "posix tag_os_ops" where
  "s_linux_ops =
     \<lparr>op_task_create = Some linux_task_create, op_task_kill = Some linux_task_kill,
      op_task_exit = Some linux_task_exit, op_task_sleep = Some linux_task_sleep,
      op_mutex_create = Some linux_mutex_create, op_mutex_lock = Some linux_mutex_lock,
      op_mutex_unlock = Some linux_mutex_unlock, op_mutex_del = Some linux_mutex_del,
      op_semp_create = Some linux_semp_create, op_semp_pend = Some linux_semp_pend,
      op_semp_post = Some linux_semp_post, op_semp_del = Some linux_semp_del,
      op_queue_create = None, op_queue_send = None, op_queue_recv = None, op_queue_del = None,
      op_malloc = Some (\<lambda>sz st. Some (libc_malloc st)),
      op_free = Some (\<lambda>a st. Some ((), st)),
      op_realloc = Some (\<lambda>p sz st. Some (libc_malloc st)),
      op_get_sys_time = Some linux_get_sys_time, op_reboot = None, op_int_connect = None\<rparr>"

definition s_link_linux :: "posix tag_os" where
  "s_link_linux = \<lparr>os_name = ''Linux'', os_ops = Some s_linux_ops\<rparr>"

definition linux_os_imp_init :: "posix os_cb \<Rightarrow> int \<times> posix os_cb" where
  "linux_os_imp_init s_os_cb = osal_install (Some s_link_linux) s_os_cb"

section \<open>The interface: semaphores and mutexes\<close>

text \<open>
  \<open>val h st\<close> is the value of the semaphore with handle \<open>h\<close>, \<open>locked h st\<close> whether the mutex
  \<open>h\<close> is held. The laws say what one thread sees while no other runs.
\<close>

locale osal_sync =
  fixes cb :: "'os os_cb" and val :: "nat \<Rightarrow> 'os \<Rightarrow> nat option" and locked :: "nat \<Rightarrow> 'os \<Rightarrow> bool option"
  assumes pend_pos: "val h st = Some (Suc n) \<Longrightarrow> \<exists>st'. osal_semp_pend cb h t st = Some (True, st') \<and>
      (\<forall>k. val k st' = (if k = h then Some n else val k st)) \<and> (\<forall>m. locked m st' = locked m st)"
    and pend_zero: "val h st = Some 0 \<Longrightarrow> t \<noteq> cn_osal_timeout_forever \<Longrightarrow>
      \<exists>st'. osal_semp_pend cb h t st = Some (False, st') \<and>
      (\<forall>k. val k st' = val k st) \<and> (\<forall>m. locked m st' = locked m st)"
    and post: "val h st = Some n \<Longrightarrow> \<exists>r st'. osal_semp_post cb h st = Some (r, st') \<and>
      (\<forall>k. val k st' = (if k = h then Some (Suc n) else val k st)) \<and> (\<forall>m. locked m st' = locked m st)"
    and lock: "locked m st = Some False \<Longrightarrow> \<exists>st'. osal_mutex_lock cb m st = Some (True, st') \<and>
      (\<forall>k. locked k st' = (if k = m then Some True else locked k st)) \<and> (\<forall>h. val h st' = val h st)"
    and unlock: "locked m st = Some True \<Longrightarrow> \<exists>r st'. osal_mutex_unlock cb m st = Some (r, st') \<and>
      (\<forall>k. locked k st' = (if k = m then Some False else locked k st)) \<and> (\<forall>h. val h st' = val h st)"
begin

text \<open>A critical section leaves the semaphores and every mutex as they were.\<close>

lemma critical_section:
  assumes "locked m st = Some False"
  shows "\<exists>st1 r st2. osal_mutex_lock cb m st = Some (True, st1) \<and>
    osal_mutex_unlock cb m st1 = Some (r, st2) \<and> (\<forall>h. val h st2 = val h st) \<and>
    (\<forall>k. locked k st2 = locked k st)"
proof -
  obtain st1 where l: "osal_mutex_lock cb m st = Some (True, st1)"
      "\<forall>k. locked k st1 = (if k = m then Some True else locked k st)" "\<forall>h. val h st1 = val h st"
    using lock[OF assms] by blast
  then have "locked m st1 = Some True" by simp
  then obtain r st2 where u: "osal_mutex_unlock cb m st1 = Some (r, st2)"
      "\<forall>k. locked k st2 = (if k = m then Some False else locked k st1)" "\<forall>h. val h st2 = val h st1"
    using unlock by blast
  have "\<forall>k. locked k st2 = locked k st" using l(2) u(2) assms by simp
  then show ?thesis using l u by auto
qed

end

named_theorems linux_defs \<open>the Linux port, unfolded to the POSIX calls\<close>

declare linux_mutex_lock_def [linux_defs] linux_mutex_unlock_def [linux_defs]
  linux_semp_pend_def [linux_defs] linux_semp_post_def [linux_defs]
  px_sem_wait_def [linux_defs] px_sem_trywait_def [linux_defs] px_sem_timedwait_def [linux_defs]
  px_sem_post_def [linux_defs] px_mutex_lock_def [linux_defs] px_mutex_unlock_def [linux_defs]
  px_usleep_def [linux_defs]

lemma linux_pend: "osal_semp_pend (Some s_link_linux) h t st = linux_semp_pend h t st"
  by (simp add: osal_defs s_link_linux_def s_linux_ops_def)

lemma linux_post: "osal_semp_post (Some s_link_linux) h st = linux_semp_post h st"
  by (simp add: osal_defs s_link_linux_def s_linux_ops_def)

lemma linux_lock: "osal_mutex_lock (Some s_link_linux) h st = linux_mutex_lock h st"
  by (simp add: osal_defs s_link_linux_def s_linux_ops_def)

lemma linux_unlock: "osal_mutex_unlock (Some s_link_linux) h st = linux_mutex_unlock h st"
  by (simp add: osal_defs s_link_linux_def s_linux_ops_def)

interpretation linux_sync: osal_sync "Some s_link_linux" "\<lambda>h st. px_sem st h" "\<lambda>m st. px_mtx st m"
  by unfold_locales
    (auto simp: linux_pend linux_post linux_lock linux_unlock linux_defs)

section \<open>Properties\<close>

text \<open>How long a timed wait on an empty semaphore really takes on Linux. The milliseconds
  below a second are turned into nanoseconds with the factor 1000 in place of 1000000, so
  they count as microseconds; and when that sum leaves the second of the clock, the deadline is
  invalid and the wait does not happen at all.\<close>

theorem linux_timed_wait_duration:
  assumes "px_sem st semp = Some 0" and "0 < t" and "t \<noteq> cn_osal_timeout_forever"
  shows "linux_semp_pend semp t st =
    Some (False,
      if 10 ^ 9 \<le> px_clock st mod 10 ^ 9 + (unat t mod 1000) * 1000 then st
      else st\<lparr>px_clock := px_clock st + (unat t div 1000) * 10 ^ 9 + (unat t mod 1000) * 1000\<rparr>)"
proof -
  have d: "unat (t div 1000) = unat t div 1000" "unat (t mod 1000) = unat t mod 1000"
    by (simp_all add: unat_div unat_mod)
  have "unat t mod 1000 < 1000" by simp
  then have "unat t mod 1000 * 1000 < 2 ^ 32" by simp
  then have m: "unat ((t mod 1000) * 1000) = unat t mod 1000 * 1000"
    using unat_mult_lem[of "t mod 1000" 1000] by (simp add: d)
  have c: "px_clock st div 10 ^ 9 * 10 ^ 9 + px_clock st mod 10 ^ 9 = px_clock st"
    by (rule div_mult_mod_eq)
  have e: "(px_clock st div 10 ^ 9 + x) * 10 ^ 9 + (px_clock st mod 10 ^ 9 + y) =
      px_clock st + x * 10 ^ 9 + y" for x y
    using c unfolding add_mult_distrib by linarith
  show ?thesis
    using assms
    by (simp add: linux_semp_pend_def px_sem_timedwait_def linux_deadline_def
        px_clock_gettime_def d m e del: power_numeral)
qed

lemma linux_timed_wait_duration_witness:
  "linux_semp_pend 7 1500 \<lparr>px_sem = [7 \<mapsto> 0], px_mtx = Map.empty, px_thr = (\<lambda>n. False),
      px_next = 8, px_outcomes = [], px_clock = 0\<rparr> =
    Some (False, \<lparr>px_sem = [7 \<mapsto> 0], px_mtx = Map.empty, px_thr = (\<lambda>n. False),
      px_next = 8, px_outcomes = [], px_clock = 1000500000\<rparr>)"
  by (subst linux_timed_wait_duration) simp_all

end
