(* ===== verification/RingBuffer.thy ===== *)
theory RingBuffer
  imports Prelude
begin

text \<open>
  The ring buffer of \<^verbatim>\<open>link_misc/link_ring_buffer.c\<close>. A pointer parameter is an option
  (\<^verbatim>\<open>NULL\<close> is \<open>None\<close>); the ring and the caller's buffer are returned as the call leaves them.
  Lengths and offsets are C ints whose sums are checked for overflow (\<open>c_int\<close>), every
  \<^verbatim>\<open>memcpy\<close> is checked against both arrays.

  The abstraction \<open>ring_contents\<close> is the bytes stored, oldest first; the buffer is proved to
  implement the interface \<open>fifo_stream\<close>.
\<close>

section \<open>State and operations\<close>

record tag_ring_buffer_t =
  rb_buf :: bytes
  rb_buflen :: int
  rb_datalen :: int
  rb_dataoff :: int

definition ring_buffer_init ::
  "tag_ring_buffer_t option \<Rightarrow> bytes \<Rightarrow> int \<Rightarrow> int \<Rightarrow> int \<Rightarrow> int \<times> tag_ring_buffer_t option" where
  "ring_buffer_init ring buf buflen offset datalen =
     (case ring of
        None \<Rightarrow> (-1, None)
      | Some r \<Rightarrow> (0, Some \<lparr>rb_buf = buf, rb_buflen = buflen, rb_datalen = datalen,
                            rb_dataoff = offset\<rparr>))"

text \<open>
  The body of \<^verbatim>\<open>ring_buffer_write\<close> after the parameter checks. \<open>pos\<close> is how far \<^verbatim>\<open>src\<close> has
  been advanced, \<open>lenleft\<close> what is left to move after the first branch.
\<close>

definition ring_write :: "tag_ring_buffer_t \<Rightarrow> bytes \<Rightarrow> int \<Rightarrow> (int \<times> tag_ring_buffer_t) option" where
  "ring_write ring src len =
     (if rb_datalen ring = rb_buflen ring \<or> rb_buflen ring \<le> 0 then Some (0, ring)
      else do {
        let ret = (if len > rb_buflen ring - rb_datalen ring
                   then rb_buflen ring - rb_datalen ring else len);
        tail \<leftarrow> c_int (rb_dataoff ring + rb_datalen ring);
        (ring, pos, lenleft) \<leftarrow>
          (if tail > rb_buflen ring
           then do {
             offset \<leftarrow> c_rem tail (rb_buflen ring);
             if ret > 0
             then do { b \<leftarrow> mem_copy (rb_buf ring) offset src 0 ret;
                       Some (ring\<lparr>rb_buf := b, rb_datalen := rb_datalen ring + ret\<rparr>, 0, 0) }
             else Some (ring, 0, ret) }
           else do {
             over \<leftarrow> c_int (tail + ret);
             if over > rb_buflen ring
             then do { let cpylen = rb_buflen ring - tail;
                       b \<leftarrow> mem_copy (rb_buf ring) tail src 0 cpylen;
                       Some (ring\<lparr>rb_buf := b, rb_datalen := rb_datalen ring + cpylen\<rparr>,
                             cpylen, ret - cpylen) }
             else Some (ring, 0, ret) });
        if lenleft > 0
        then do {
          tail \<leftarrow> c_int (rb_dataoff ring + rb_datalen ring);
          offset \<leftarrow> c_rem tail (rb_buflen ring);
          b \<leftarrow> mem_copy (rb_buf ring) offset src pos lenleft;
          Some (ret, ring\<lparr>rb_buf := b, rb_datalen := rb_datalen ring + lenleft\<rparr>) }
        else Some (ret, ring) })"

definition ring_buffer_write ::
  "tag_ring_buffer_t option \<Rightarrow> bytes option \<Rightarrow> int \<Rightarrow> (int \<times> tag_ring_buffer_t option) option" where
  "ring_buffer_write ring buf len =
     (case (ring, buf) of
        (Some r, Some src) \<Rightarrow>
          if len = 0 then Some (-1, ring) else map_option (apsnd Some) (ring_write r src len)
      | _ \<Rightarrow> Some (-1, ring))"

definition ring_read ::
  "tag_ring_buffer_t \<Rightarrow> bytes \<Rightarrow> int \<Rightarrow> (int \<times> bytes \<times> tag_ring_buffer_t) option" where
  "ring_read ring buf len =
     (if rb_datalen ring = 0 \<or> rb_buflen ring \<le> 0 then Some (0, buf, ring)
      else do {
        let ret = (if len > rb_datalen ring then rb_datalen ring else len);
        wrap \<leftarrow> c_int (rb_buflen ring - ret);
        (ring, buf, pos, lenleft) \<leftarrow>
          (if rb_dataoff ring \<ge> wrap
           then do {
             let cpylen = rb_buflen ring - rb_dataoff ring;
             if cpylen > 0
             then do { buf \<leftarrow> mem_copy buf 0 (rb_buf ring) (rb_dataoff ring) cpylen;
                       off \<leftarrow> c_rem (rb_dataoff ring + cpylen) (rb_buflen ring);
                       Some (ring\<lparr>rb_dataoff := off, rb_datalen := rb_datalen ring - cpylen\<rparr>,
                             buf, cpylen, ret - cpylen) }
             else Some (ring, buf, 0, ret) }
           else Some (ring, buf, 0, ret));
        if lenleft > 0
        then do { buf \<leftarrow> mem_copy buf pos (rb_buf ring) (rb_dataoff ring) lenleft;
                  Some (ret, buf, ring\<lparr>rb_dataoff := rb_dataoff ring + lenleft,
                                       rb_datalen := rb_datalen ring - lenleft\<rparr>) }
        else Some (ret, buf, ring) })"

definition ring_buffer_read ::
  "tag_ring_buffer_t option \<Rightarrow> bytes option \<Rightarrow> int
     \<Rightarrow> (int \<times> bytes option \<times> tag_ring_buffer_t option) option" where
  "ring_buffer_read ring buf len =
     (case (ring, buf) of
        (Some r, Some dst) \<Rightarrow>
          if len = 0 then Some (-1, buf, ring)
          else map_option (map_prod id (map_prod Some Some)) (ring_read r dst len)
      | _ \<Rightarrow> Some (-1, buf, ring))"

definition ring_buffer_datalen :: "tag_ring_buffer_t option \<Rightarrow> int" where
  "ring_buffer_datalen ring = (case ring of None \<Rightarrow> -1 | Some r \<Rightarrow> rb_datalen r)"

definition ring_buffer_freespace :: "tag_ring_buffer_t option \<Rightarrow> int" where
  "ring_buffer_freespace ring =
     (case ring of None \<Rightarrow> -1 | Some r \<Rightarrow> rb_buflen r - rb_datalen r)"

definition ring_buffer_reset :: "tag_ring_buffer_t option \<Rightarrow> int \<times> tag_ring_buffer_t option" where
  "ring_buffer_reset ring =
     (case ring of
        None \<Rightarrow> (-1, None)
      | Some r \<Rightarrow> (0, Some (r\<lparr>rb_datalen := 0, rb_dataoff := 0\<rparr>)))"

definition ring_buffer_deinit :: "tag_ring_buffer_t option \<Rightarrow> int \<times> tag_ring_buffer_t option" where
  "ring_buffer_deinit ring =
     (case ring of
        None \<Rightarrow> (-1, None)
      | Some r \<Rightarrow> (0, Some \<lparr>rb_buf = [], rb_buflen = 0, rb_datalen = 0, rb_dataoff = 0\<rparr>))"

section \<open>Invariant and abstraction\<close>

text \<open>The buffer has at most 2^30 bytes, so the sum of two positions is an \<^verbatim>\<open>int\<close>.\<close>

definition ring_ok :: "tag_ring_buffer_t \<Rightarrow> bool" where
  "ring_ok r \<longleftrightarrow> 0 < rb_buflen r \<and> rb_buflen r \<le> 2 ^ 30 \<and>
     rb_buflen r = int (length (rb_buf r)) \<and> 0 \<le> rb_datalen r \<and> rb_datalen r \<le> rb_buflen r \<and>
     0 \<le> rb_dataoff r \<and> rb_dataoff r < rb_buflen r"

definition ring_contents :: "tag_ring_buffer_t \<Rightarrow> bytes" where
  "ring_contents r =
     take (nat (rb_datalen r)) (drop (nat (rb_dataoff r)) (rb_buf r) @ rb_buf r)"

definition ring_space :: "tag_ring_buffer_t \<Rightarrow> nat" where
  "ring_space r = nat (rb_buflen r - rb_datalen r)"

text \<open>A well-formed ring by its three parts as natural numbers.\<close>

definition mk_ring :: "bytes \<Rightarrow> nat \<Rightarrow> nat \<Rightarrow> tag_ring_buffer_t" where
  "mk_ring B D F = \<lparr>rb_buf = B, rb_buflen = int (length B), rb_datalen = int D, rb_dataoff = int F\<rparr>"

lemma ring_ok_mk_ring:
  "ring_ok r \<longleftrightarrow> (\<exists>B D F. r = mk_ring B D F \<and> D \<le> length B \<and> F < length B \<and> length B \<le> 2 ^ 30)"
proof
  assume ok: "ring_ok r"
  then have "r = mk_ring (rb_buf r) (nat (rb_datalen r)) (nat (rb_dataoff r))"
    by (cases r) (simp add: ring_ok_def mk_ring_def)
  moreover have "nat (rb_datalen r) \<le> length (rb_buf r)" "nat (rb_dataoff r) < length (rb_buf r)"
    "length (rb_buf r) \<le> 2 ^ 30"
    using ok by (auto simp: ring_ok_def)
  ultimately show "\<exists>B D F. r = mk_ring B D F \<and> D \<le> length B \<and> F < length B \<and> length B \<le> 2 ^ 30"
    by blast
next
  assume "\<exists>B D F. r = mk_ring B D F \<and> D \<le> length B \<and> F < length B \<and> length B \<le> 2 ^ 30"
  then show "ring_ok r" by (auto simp: ring_ok_def mk_ring_def)
qed

lemma ring_okI: "D \<le> length B \<Longrightarrow> F < length B \<Longrightarrow> length B \<le> 2 ^ 30 \<Longrightarrow> ring_ok (mk_ring B D F)"
  by (auto simp: ring_ok_def mk_ring_def)

lemma contents_mk_ring: "ring_contents (mk_ring B D F) = take D (drop F B @ B)"
  by (simp add: ring_contents_def mk_ring_def)

lemma length_contents: "D \<le> length B \<Longrightarrow> length (ring_contents (mk_ring B D F)) = D"
  by (simp add: contents_mk_ring)

lemma nth_contents: "D \<le> length B \<Longrightarrow> F < length B \<Longrightarrow> i < D \<Longrightarrow>
    ring_contents (mk_ring B D F) ! i =
      B ! (if F + i < length B then F + i else F + i - length B)"
  by (auto simp: contents_mk_ring nth_append intro!: arg_cong[of _ _ "nth B"])

lemma contents_eqI:
  assumes "D \<le> length B" and "D + k \<le> length B" and "F < length B" and "length xs = k"
    and "length B' = length B"
    and old: "\<And>i. i < D \<Longrightarrow> B' ! (if F + i < length B then F + i else F + i - length B) =
                B ! (if F + i < length B then F + i else F + i - length B)"
    and new: "\<And>j. j < k \<Longrightarrow> B' ! (if F + D + j < length B then F + D + j
                                   else F + D + j - length B) = xs ! j"
  shows "ring_contents (mk_ring B' (D + k) F) = ring_contents (mk_ring B D F) @ xs"
proof (rule nth_equalityI)
  show "length (ring_contents (mk_ring B' (D + k) F)) =
      length (ring_contents (mk_ring B D F) @ xs)"
    using assms by (simp add: length_contents)
next
  fix i assume "i < length (ring_contents (mk_ring B' (D + k) F))"
  then have i: "i < D + k" using assms by (simp add: length_contents)
  show "ring_contents (mk_ring B' (D + k) F) ! i = (ring_contents (mk_ring B D F) @ xs) ! i"
  proof (cases "i < D")
    case True
    then show ?thesis using assms(1-5) i old[OF True]
      by (simp add: nth_contents nth_append length_contents split: if_splits)
  next
    case False
    then have "i - D < k" using i by simp
    from new[OF this] show ?thesis using assms(1-5) i False
      by (simp add: nth_contents nth_append length_contents split: if_splits)
  qed
qed


section \<open>Writing and reading\<close>

lemmas mk_ring_sel [simp] = tag_ring_buffer_t.simps

lemma mk_ring_upd [simp]:
  "rb_buf (mk_ring B D F) = B" "rb_buflen (mk_ring B D F) = int (length B)"
  "rb_datalen (mk_ring B D F) = int D" "rb_dataoff (mk_ring B D F) = int F"
  by (simp_all add: mk_ring_def)

lemma mk_ring_write: "length B' = length B \<Longrightarrow>
    (mk_ring B D F)\<lparr>rb_buf := B', rb_datalen := int D + int k\<rparr> = mk_ring B' (D + k) F"
  by (simp add: mk_ring_def)

lemma put_ok: "off + length xs \<le> length B \<Longrightarrow>
    \<exists>B'. put off xs B = Some B' \<and> length B' = length B \<and>
      (\<forall>i < length B. B' ! i = (if off \<le> i \<and> i < off + length xs then xs ! (i - off) else B ! i))"
  using put_Some_iff[of off xs B] put_length[of off xs B] put_nth[of off xs B] by metis

text \<open>One copy suffices: the free part at the tail takes everything, or the data wrapped already.\<close>

lemma write_one:
  assumes "D + k \<le> length B" and "F < length B" and "k \<le> length xs" and "0 < k"
    and "F + D + k \<le> length B \<or> length B \<le> F + D"
  shows "\<exists>B'. mem_copy B (int (F + D) mod int (length B)) xs 0 (int k) = Some B' \<and>
    length B' = length B \<and>
    ring_contents (mk_ring B' (D + k) F) = ring_contents (mk_ring B D F) @ take k xs"
proof -
  define off where "off = (if F + D < length B then F + D else F + D - length B)"
  have "(F + D) mod length B = off"
    using assms by (auto simp: off_def mod_if)
  then have m: "int (F + D) mod int (length B) = int off" by (metis zmod_int)
  have "off + length (take k xs) \<le> length B" using assms by (auto simp: off_def)
  then obtain B' where B': "put off (take k xs) B = Some B'" "length B' = length B"
      "\<forall>i < length B. B' ! i = (if off \<le> i \<and> i < off + k then take k xs ! (i - off) else B ! i)"
    using put_ok[of off "take k xs" B] assms(3) by (auto simp: min_absorb2)
  have "mem_copy B (int off) xs 0 (int k) = Some B'"
    using assms(3) B'(1) by (simp add: mem_copy_eq)
  moreover have "ring_contents (mk_ring B' (D + k) F) = ring_contents (mk_ring B D F) @ take k xs"
    by (rule contents_eqI) (use assms B' in \<open>auto simp: off_def\<close>)
  ultimately show ?thesis using m B'(2) by auto
qed

text \<open>Two copies: the tail of the buffer, then its head.\<close>

lemma write_two:
  assumes "D + k \<le> length B" and "F < length B" and "k \<le> length xs"
    and "F + D \<le> length B" and "length B < F + D + k"
  shows "\<exists>B1 B'. mem_copy B (int (F + D)) xs 0 (int (length B - (F + D))) = Some B1 \<and>
    length B1 = length B \<and>
    mem_copy B1 0 xs (int (length B - (F + D))) (int (k - (length B - (F + D)))) = Some B' \<and>
    length B' = length B \<and>
    ring_contents (mk_ring B' (D + k) F) = ring_contents (mk_ring B D F) @ take k xs"
proof -
  define c where "c = length B - (F + D)"
  have c: "c < k" "F + D + c = length B" using assms by (auto simp: c_def)
  have "F + D + length (take c xs) \<le> length B" using c assms(3) by simp
  then obtain B1 where B1: "put (F + D) (take c xs) B = Some B1" "length B1 = length B"
      "\<forall>i < length B. B1 ! i =
         (if F + D \<le> i \<and> i < F + D + c then take c xs ! (i - (F + D)) else B ! i)"
    using put_ok[of "F + D" "take c xs" B] assms(3) c by (auto simp: min_absorb2)
  have "0 + length (take (k - c) (drop c xs)) \<le> length B1" using c assms B1(2) by simp
  then obtain B' where B': "put 0 (take (k - c) (drop c xs)) B1 = Some B'" "length B' = length B"
      "\<forall>i < length B. B' ! i = (if i < k - c then take (k - c) (drop c xs) ! i else B1 ! i)"
    using put_ok[of 0 "take (k - c) (drop c xs)" B1] assms(3) c B1(2) by (auto simp: min_absorb2)
  have "mem_copy B (int (F + D)) xs 0 (int c) = Some B1"
    using assms(3) c B1(1) by (simp add: mem_copy_eq nat_int_add)
  moreover have "mem_copy B1 0 xs (int c) (int (k - c)) = Some B'"
    using assms(3) c B'(1) by (simp add: mem_copy_eq flip: of_nat_diff)
  moreover have "ring_contents (mk_ring B' (D + k) F) = ring_contents (mk_ring B D F) @ take k xs"
    by (rule contents_eqI) (use assms B1 B' c in \<open>auto intro!: arg_cong[of _ _ "nth xs"]\<close>)
  ultimately show ?thesis using B1(2) B'(2) unfolding c_def by blast
qed

lemma ring_write_min:
  "ring_write r xs (min n (rb_buflen r - rb_datalen r)) = ring_write r xs n"
proof -
  have e: "(if min n (rb_buflen r - rb_datalen r) > rb_buflen r - rb_datalen r
        then rb_buflen r - rb_datalen r else min n (rb_buflen r - rb_datalen r)) =
      (if n > rb_buflen r - rb_datalen r then rb_buflen r - rb_datalen r else n)"
    by (simp add: min_def)
  show ?thesis unfolding ring_write_def e by (rule refl)
qed

lemma ring_write_law:
  assumes "D \<le> length B" and "F < length B" and "length B \<le> 2 ^ 30" and "n \<le> length xs"
    and "0 < n" and "k = min n (length B - D)"
  shows "\<exists>B'. ring_write (mk_ring B D F) xs (int n) = Some (int k, mk_ring B' (D + k) F) \<and>
    length B' = length B \<and>
    ring_contents (mk_ring B' (D + k) F) = ring_contents (mk_ring B D F) @ take k xs"
proof (cases "D = length B")
  case True
  then show ?thesis using assms by (auto simp: ring_write_def)
next
  case False
  then have k: "0 < k" "D + k \<le> length B" "k \<le> length xs" using assms by auto
  have m: "min (int n) (rb_buflen (mk_ring B D F) - rb_datalen (mk_ring B D F)) = int k"
    using assms by (simp add: of_nat_diff)
  have ret: "ring_write (mk_ring B D F) xs (int n) = ring_write (mk_ring B D F) xs (int k)"
    "\<not> int (length B) - int D < int k"
    using k ring_write_min[of "mk_ring B D F" xs "int n"] unfolding m by simp_all
  have ints: "c_int (int F + int D) = Some (int (F + D))"
    "c_int (int (F + D) + int k) = Some (int (F + D + k))"
    using assms k by (simp_all add: c_int_def)
  have ne: "int D \<noteq> int (length B)" "\<not> int (length B) \<le> 0" using False assms by auto
  consider "length B < F + D" | "F + D + k \<le> length B"
    | "F + D \<le> length B" "length B < F + D + k"
    by linarith
  then show ?thesis
  proof cases
    case 1
    then obtain B' where B': "mem_copy B (int (F + D) mod int (length B)) xs 0 (int k) = Some B'"
        "length B' = length B"
        "ring_contents (mk_ring B' (D + k) F) = ring_contents (mk_ring B D F) @ take k xs"
      using write_one[OF k(2) assms(2) k(3) k(1)] by auto
    then show ?thesis using ne 1 k ret ints
      unfolding ret(1)
      by (intro exI[of _ B']) (simp add: ring_write_def Let_def c_rem_def mk_ring_write)
  next
    case 2
    then obtain B' where B': "mem_copy B (int (F + D) mod int (length B)) xs 0 (int k) = Some B'"
        "length B' = length B"
        "ring_contents (mk_ring B' (D + k) F) = ring_contents (mk_ring B D F) @ take k xs"
      using write_one[OF k(2) assms(2) k(3) k(1)] by auto
    then show ?thesis using ne 2 k ret ints
      unfolding ret(1)
      by (intro exI[of _ B']) (simp add: ring_write_def Let_def c_rem_def mk_ring_write)
  next
    case 3
    define c where "c = length B - (F + D)"
    obtain d where d: "k = c + d" "0 < d"
      using 3 by (metis add_diff_cancel_left' add_diff_inverse_nat c_def less_diff_conv2
          nat_add_left_cancel_less not_less_iff_gr_or_eq zero_less_diff add.commute)
    have c: "length B = F + D + c" using 3 by (simp add: c_def)
    obtain B1 B' where B': "mem_copy B (int (F + D)) xs 0 (int c) = Some B1" "length B1 = length B"
      "mem_copy B1 0 xs (int c) (int d) = Some B'" "length B' = length B"
      "ring_contents (mk_ring B' (D + k) F) = ring_contents (mk_ring B D F) @ take k xs"
      using write_two[OF k(2) assms(2) k(3) 3] d unfolding c_def[symmetric] by auto
    have rem: "c_rem (int F + int D + int c) (int F + int D + int c) = Some 0"
      using c assms(2) by (simp add: c_rem_def flip: of_nat_add)
    have ci: "c_int (int F + int D + int c) = Some (int F + int D + int c)"
      using assms(3) c by (simp add: c_int_def)
    have "ring_write (mk_ring B D F) xs (int k) = Some (int k, mk_ring B' (D + k) F)"
      using ne ret(2) ints d B'(1-4) ci rem
      by (simp add: ring_write_def Let_def c mk_ring_def add.assoc)
    then show ?thesis unfolding ret(1) using B'(4,5) by blast
  qed
qed

lemma contents_drop:
  assumes "k \<le> D" and "D \<le> length B" and "F < length B"
  shows "ring_contents (mk_ring B (D - k) (if F + k < length B then F + k else F + k - length B)) =
    drop k (ring_contents (mk_ring B D F))"
proof (rule nth_equalityI)
  show "length (ring_contents (mk_ring B (D - k)
      (if F + k < length B then F + k else F + k - length B))) =
      length (drop k (ring_contents (mk_ring B D F)))"
    using assms by (simp add: length_contents)
next
  let ?F = "if F + k < length B then F + k else F + k - length B"
  fix i assume "i < length (ring_contents (mk_ring B (D - k) ?F))"
  then have i: "i < D - k" using assms by (simp add: length_contents)
  have F: "?F < length B" using assms by auto
  have "ring_contents (mk_ring B (D - k) ?F) ! i =
      B ! (if ?F + i < length B then ?F + i else ?F + i - length B)"
    by (rule nth_contents) (use assms i F in simp_all)
  also have "(if ?F + i < length B then ?F + i else ?F + i - length B) =
      (if F + (k + i) < length B then F + (k + i) else F + (k + i) - length B)"
    using assms i by (cases "F + k < length B") auto
  also have "B ! \<dots> = ring_contents (mk_ring B D F) ! (k + i)"
    using assms i nth_contents[of D B F "k + i"] by simp
  finally show "ring_contents (mk_ring B (D - k) ?F) ! i = drop k (ring_contents (mk_ring B D F)) ! i"
    using assms i by (simp add: length_contents)
qed

lemma contents_take:
  "k \<le> D \<Longrightarrow> F < length B \<Longrightarrow> F + k \<le> length B \<Longrightarrow>
     take k (ring_contents (mk_ring B D F)) = take k (drop F B)"
  "k \<le> D \<Longrightarrow> F < length B \<Longrightarrow> length B \<le> F + k \<Longrightarrow>
     take k (ring_contents (mk_ring B D F)) = drop F B @ take (k - (length B - F)) B"
  by (simp_all add: contents_mk_ring min_absorb1)

lemma ring_read_min: "ring_read r buf (min n (rb_datalen r)) = ring_read r buf n"
proof -
  have e: "(if min n (rb_datalen r) > rb_datalen r then rb_datalen r else min n (rb_datalen r)) =
      (if n > rb_datalen r then rb_datalen r else n)"
    by (simp add: min_def)
  show ?thesis unfolding ring_read_def e by (rule refl)
qed

lemma mk_ring_read: "d = int D' \<Longrightarrow> f = int F' \<Longrightarrow>
    (mk_ring B D F)\<lparr>rb_dataoff := f, rb_datalen := d\<rparr> = mk_ring B D' F'"
  "d = int D' \<Longrightarrow> f = int F' \<Longrightarrow>
    (mk_ring B D F)\<lparr>rb_datalen := d, rb_dataoff := f\<rparr> = mk_ring B D' F'"
  by (simp_all add: mk_ring_def)

lemma ring_read_law:
  assumes "D \<le> length B" and "F < length B" and "length B \<le> 2 ^ 30" and "n \<le> length buf"
    and "0 < n" and "k = min n D"
  shows "\<exists>F'. ring_read (mk_ring B D F) buf (int n) =
      Some (int k, take k (ring_contents (mk_ring B D F)) @ drop k buf, mk_ring B (D - k) F') \<and>
    F' < length B \<and>
    ring_contents (mk_ring B (D - k) F') = drop k (ring_contents (mk_ring B D F))"
proof (cases "D = 0")
  case True
  then show ?thesis using assms by (auto simp: ring_read_def contents_mk_ring)
next
  case False
  then have k: "0 < k" "k \<le> D" "k \<le> length buf" using assms by auto
  have m: "min (int n) (rb_datalen (mk_ring B D F)) = int k" using assms by simp
  have ret: "ring_read (mk_ring B D F) buf (int n) = ring_read (mk_ring B D F) buf (int k)"
    "\<not> int D < int k"
    using k ring_read_min[of "mk_ring B D F" buf "int n"] unfolding m by simp_all
  have ints: "c_int (int (length B) - int k) = Some (int (length B - k))"
    using assms k by (simp add: c_int_def of_nat_diff)
  have ne: "int D \<noteq> 0" "\<not> int (length B) \<le> 0" using False assms by auto
  let ?F = "if F + k < length B then F + k else F + k - length B"
  have drop: "ring_contents (mk_ring B (D - k) ?F) = drop k (ring_contents (mk_ring B D F))"
    by (rule contents_drop) (use assms k in auto)
  have "ring_read (mk_ring B D F) buf (int k) =
      Some (int k, take k (ring_contents (mk_ring B D F)) @ drop k buf, mk_ring B (D - k) ?F)"
  proof (cases "F + k < length B")
    case True
    have "mem_copy buf 0 B (int F) (int k) = Some (take k (drop F B) @ drop k buf)"
      using k True by (simp add: mem_copy_eq put_def min_absorb2)
    then show ?thesis using ne ret(2) k ints True
      by (simp add: ring_read_def Let_def contents_take(1) assms(2) mk_ring_read of_nat_diff)
  next
    case over: False
    define c where "c = length B - F"
    have c: "0 < c" "c \<le> k" "F + c = length B" using over assms(2) by (auto simp: c_def)
    have "B \<noteq> []" using assms(2) by auto
    have ci: "int (length B) - int F = int c" using c by simp
    have c1: "mem_copy buf 0 B (int F) (int c) = Some (drop F B @ drop c buf)"
      using c k by (simp add: mem_copy_eq put_def min_absorb2 c_def)
    have c2: "mem_copy (drop F B @ drop c buf) (int c) B 0 (int (k - c)) =
        Some (drop F B @ take (k - c) B @ drop k buf)"
      using c k(2,3) assms(1) c_def by (simp add: mem_copy_eq put_def min_absorb2 flip: of_nat_diff)
    have rem: "c_rem (int F + int c) (int (length B)) = Some 0"
      using c \<open>B \<noteq> []\<close> by (simp add: c_rem_def flip: of_nat_add)
    obtain d where d: "k = c + d" using c(2) le_Suc_ex by blast
    obtain e where e: "D = c + d + e" using d k(2) le_Suc_ex by blast
    have i: "c_int (int (length B) - (int c + int d)) = Some (int (length B) - (int c + int d))"
      "int (length B) - (int c + int d) \<le> int F" "\<not> int D < int c + int d"
      using ints d(1) k(2) c(3) assms(1) by (simp_all add: of_nat_diff)
    have c2': "mem_copy (drop F B @ drop c buf) (int c) B 0 (int d) =
        Some (drop F B @ take d B @ drop (c + d) buf)"
      using c2 d(1) by simp
    have "ring_read (mk_ring B D F) buf (int c + int d) = Some (int c + int d,
        drop F B @ take d B @ drop (c + d) buf, mk_ring B e d)"
    proof (cases "d = 0")
      case True
      then show ?thesis using ne c(1) i by (simp add: ring_read_def Let_def ci c1 rem e mk_ring_def)
    next
      case False
      then show ?thesis using ne c(1) by (simp add: ring_read_def Let_def i ci c1 rem c2' e mk_ring_def)
    qed
    moreover have "take k (ring_contents (mk_ring B D F)) = drop F B @ take d B"
      using contents_take(2)[of k D F B] k assms(2) over d by (simp add: c_def)
    moreover have "?F = d" using over c d by simp
    ultimately show ?thesis using d e by simp
  qed
  then show ?thesis using drop assms(2) k ret(1) assms(1)
    by (intro exI[of _ ?F]) auto
qed


section \<open>The buffer is a first-in first-out stream\<close>

text \<open>The two operations with the parameters of the interface: a read into a zeroed buffer.\<close>

definition ring_wr :: "bytes \<Rightarrow> tag_ring_buffer_t \<Rightarrow> (int \<times> tag_ring_buffer_t) option" where
  "ring_wr xs r =
     do { (k, r') \<leftarrow> ring_buffer_write (Some r) (Some xs) (int (length xs)); r' \<leftarrow> r'; Some (k, r') }"

definition ring_rd :: "nat \<Rightarrow> tag_ring_buffer_t \<Rightarrow> (bytes \<times> tag_ring_buffer_t) option" where
  "ring_rd n r =
     do { (k, buf, r') \<leftarrow> ring_buffer_read (Some r) (Some (replicate n 0)) (int n);
          buf \<leftarrow> buf; r' \<leftarrow> r'; Some (take (nat k) buf, r') }"

lemma ring_wr_law:
  assumes "ring_ok r"
  shows "\<exists>k r'. ring_wr xs r = Some (k, r') \<and> nat k = min (length xs) (ring_space r) \<and>
    ring_ok r' \<and> ring_contents r' = ring_contents r @ take (nat k) xs"
proof (cases "xs = []")
  case True
  then show ?thesis using assms by (simp add: ring_wr_def ring_buffer_write_def)
next
  case False
  obtain B D F where r: "r = mk_ring B D F" "D \<le> length B" "F < length B" "length B \<le> 2 ^ 30"
    using assms by (auto simp: ring_ok_mk_ring)
  define k where "k = min (length xs) (length B - D)"
  obtain B' where B': "ring_write (mk_ring B D F) xs (int (length xs)) =
      Some (int k, mk_ring B' (D + k) F)" "length B' = length B"
      "ring_contents (mk_ring B' (D + k) F) = ring_contents (mk_ring B D F) @ take k xs"
    using ring_write_law[OF r(2-4) order_refl _ k_def] False by auto
  have "ring_ok (mk_ring B' (D + k) F)"
    using r(2-4) B'(2) by (intro ring_okI) (auto simp: k_def)
  moreover have "ring_wr xs r = Some (int k, mk_ring B' (D + k) F)"
    using False B'(1) r(1) by (simp add: ring_wr_def ring_buffer_write_def)
  moreover have "nat (int k) = min (length xs) (ring_space r)"
    using r by (simp add: k_def ring_space_def)
  ultimately show ?thesis using B'(3) r(1) by auto
qed

lemma ring_rd_law:
  assumes "ring_ok r"
  shows "\<exists>r'. ring_rd n r = Some (take n (ring_contents r), r') \<and> ring_ok r' \<and>
    ring_contents r' = drop n (ring_contents r)"
proof (cases "n = 0")
  case True
  then show ?thesis using assms by (simp add: ring_rd_def ring_buffer_read_def)
next
  case False
  obtain B D F where r: "r = mk_ring B D F" "D \<le> length B" "F < length B" "length B \<le> 2 ^ 30"
    using assms by (auto simp: ring_ok_mk_ring)
  define k where "k = min n D"
  have len: "length (ring_contents r) = D" using r by (simp add: length_contents)
  have tk: "take k (ring_contents r) = take n (ring_contents r)"
    "drop k (ring_contents r) = drop n (ring_contents r)"
    using len by (auto simp: k_def min_def)
  obtain F' where F': "ring_read (mk_ring B D F) (replicate n 0) (int n) =
      Some (int k, take k (ring_contents (mk_ring B D F)) @ drop k (replicate n 0),
            mk_ring B (D - k) F')" "F' < length B"
      "ring_contents (mk_ring B (D - k) F') = drop k (ring_contents (mk_ring B D F))"
    using ring_read_law[OF r(2-4) _ _ k_def, of "replicate n 0"] False by auto
  have "ring_ok (mk_ring B (D - k) F')" using r F'(2) by (intro ring_okI) auto
  moreover have "ring_rd n r = Some (take n (ring_contents r), mk_ring B (D - k) F')"
    using False F'(1) r(1) tk(1) len
    by (simp add: ring_rd_def ring_buffer_read_def k_def min_def)
  ultimately show ?thesis using F'(3) r(1) tk(2) by auto
qed

interpretation ring: fifo_stream ring_ok ring_contents ring_space ring_wr ring_rd
  by unfold_locales (rule ring_wr_law, assumption, rule ring_rd_law, assumption)

section \<open>Properties\<close>

text \<open>One write, on every branch. On a well-formed ring and a source of at least \<open>len\<close>
  bytes (\<open>len\<close> positive), \<^verbatim>\<open>ring_buffer_write\<close> stores as many bytes as fit, returns that
  number, appends exactly those bytes to the contents and keeps the ring well-formed,
  whether the free part wraps, the data wraps, both or neither; and the free space it
  leaves is reported by \<^verbatim>\<open>ring_buffer_freespace\<close>.\<close>

theorem ring_buffer_write_appends:
  assumes "ring_ok r" and "0 < len" and "nat len \<le> length src"
  shows "\<exists>k r'. ring_buffer_write (Some r) (Some src) len = Some (k, Some r') \<and> ring_ok r' \<and>
    k = min len (ring_buffer_freespace (Some r)) \<and>
    ring_contents r' = ring_contents r @ take (nat k) src \<and>
    ring_buffer_freespace (Some r') = ring_buffer_freespace (Some r) - k"
proof -
  obtain B D F where r: "r = mk_ring B D F" "D \<le> length B" "F < length B" "length B \<le> 2 ^ 30"
    using assms(1) by (auto simp: ring_ok_mk_ring)
  define k where "k = min (nat len) (length B - D)"
  obtain B' where B': "ring_write (mk_ring B D F) src (int (nat len)) =
      Some (int k, mk_ring B' (D + k) F)" "length B' = length B"
      "ring_contents (mk_ring B' (D + k) F) = ring_contents (mk_ring B D F) @ take k src"
    using ring_write_law[OF r(2-4) assms(3) _ k_def] assms(2) by auto
  have "ring_ok (mk_ring B' (D + k) F)"
    using r(2-4) B'(2) by (intro ring_okI) (auto simp: k_def)
  moreover have "int k = min len (ring_buffer_freespace (Some r))"
    using r(2) assms(2) unfolding k_def r(1) ring_buffer_freespace_def
    by (simp only: option.case mk_ring_upd)
  moreover have "ring_buffer_write (Some r) (Some src) len = Some (int k, Some (mk_ring B' (D + k) F))"
    using B'(1) r(1) assms(2) by (simp add: ring_buffer_write_def)
  moreover have "ring_contents (mk_ring B' (D + k) F) = ring_contents r @ take (nat (int k)) src"
    using B'(3) r(1) by simp
  moreover have "ring_buffer_freespace (Some (mk_ring B' (D + k) F)) =
      ring_buffer_freespace (Some r) - int k"
    using B'(2) r(1) by (simp add: ring_buffer_freespace_def)
  ultimately show ?thesis by blast
qed

lemma ring_buffer_write_appends_witness:
  "\<exists>k r'. ring_buffer_write (Some \<lparr>rb_buf = [1, 2, 3, 4], rb_buflen = 4, rb_datalen = 2,
       rb_dataoff = 1\<rparr>) (Some [7, 8, 9]) 3 = Some (k, Some r') \<and> ring_ok r' \<and> k = 2 \<and>
     ring_contents r' = [2, 3, 7, 8]"
  using ring_buffer_write_appends[of "\<lparr>rb_buf = [1, 2, 3, 4], rb_buflen = 4, rb_datalen = 2,
       rb_dataoff = 1\<rparr>" 3 "[7, 8, 9]"]
  by (auto simp: ring_ok_def ring_buffer_freespace_def ring_contents_def)

text \<open>C6. The ring buffer is a first-in first-out stream: from a freshly initialised empty ring, any
  sequence of writes and reads of any lengths returns (no access leaves an array, no sum
  overflows), and the bytes accepted by the writes are exactly the bytes delivered by the
  reads followed by the bytes still stored, in order.\<close>

theorem ring_buffer_fifo:
  assumes "ring_buffer_init (Some r0) buf (int (length buf)) 0 0 = (0, Some r)"
    and "0 < length buf" and "length buf \<le> 2 ^ 30"
  shows "\<exists>accepted delivered r'. run_stream ring_wr ring_rd ops r = Some (accepted, delivered, r') \<and>
    accepted = delivered @ ring_contents r' \<and> ring_ok r'"
proof -
  have r: "r = mk_ring buf 0 0" using assms(1) by (simp add: ring_buffer_init_def mk_ring_def)
  have "ring_ok r" unfolding ring_ok_mk_ring r using assms(2,3) by auto
  then show ?thesis using ring.run_stream_fifo[of r ops] by (auto simp: r contents_mk_ring)
qed

lemma ring_buffer_fifo_witness:
  "\<exists>accepted delivered r'. run_stream ring_wr ring_rd [SWrite [1, 2], SRead 1, SWrite [3, 4, 5]]
       \<lparr>rb_buf = [0, 0, 0], rb_buflen = 3, rb_datalen = 0, rb_dataoff = 0\<rparr> =
     Some (accepted, delivered, r') \<and> accepted = delivered @ ring_contents r' \<and> ring_ok r'"
  by (rule ring_buffer_fifo[of "\<lparr>rb_buf = [], rb_buflen = 0, rb_datalen = 0, rb_dataoff = 0\<rparr>"
        "[0, 0, 0]"]) (simp_all add: ring_buffer_init_def)

end
