(* ===== verification/LinkString.thy ===== *)
theory LinkString
  imports Osal
begin

text \<open>
  The string helpers of \<^verbatim>\<open>link_misc/link_string.c\<close> and the random filler of
  \<^verbatim>\<open>link_misc/link_random.c\<close>. A C string is the buffer that holds it, a pointer into it an
  offset. The contents of a fresh block come from the parameter \<open>fill\<close>, the outcomes of
  \<^verbatim>\<open>osal_malloc\<close> from an oracle. Every store is checked, so \<open>None\<close> is an access outside a
  buffer or a string without terminator.
\<close>

section \<open>Splitting a command line\<close>

definition blank_to_nul :: "bytes \<Rightarrow> bytes" where
  "blank_to_nul = map (\<lambda>c. if c = 0x20 then 0 else c)"

text \<open>The second loop: \<open>tmp\<close> is an offset, \<open>bak\<close> the byte before it.\<close>

fun string_to_arg_loop ::
  "bytes \<Rightarrow> nat \<Rightarrow> u8 \<Rightarrow> int \<Rightarrow> nat \<Rightarrow> nat list \<Rightarrow> (nat \<times> nat list) option" where
  "string_to_arg_loop [] tmp bak argvlen paramnum argv = Some (paramnum, argv)"
| "string_to_arg_loop (c # cs) tmp bak argvlen paramnum argv =
     (if c \<noteq> 0 \<and> bak = 0 \<and> int paramnum < argvlen
      then do { argv \<leftarrow> put paramnum [tmp] argv;
                string_to_arg_loop cs (tmp + 1) c argvlen (paramnum + 1) argv }
      else string_to_arg_loop cs (tmp + 1) c argvlen paramnum argv)"

text \<open>The result, the new \<^verbatim>\<open>*argc\<close>, the argument array and the changed string.\<close>

definition string_to_arg ::
  "int \<Rightarrow> nat list \<Rightarrow> bytes option \<Rightarrow> (int \<times> int \<times> nat list \<times> bytes option) option" where
  "string_to_arg argc argv string =
     (case string of
        None \<Rightarrow> Some (0, 0, argv, None)
      | Some s \<Rightarrow> do {
          cs \<leftarrow> c_str s;
          let s' = blank_to_nul cs @ drop (length cs) s;
          (paramnum, argv) \<leftarrow> string_to_arg_loop (blank_to_nul cs) 0 0 argc 0 argv;
          Some (int paramnum, int paramnum, argv, Some s') })"

section \<open>Copies\<close>

definition osal_strdup :: "u8 \<Rightarrow> bool list \<Rightarrow> bytes option \<Rightarrow> (bytes option \<times> bool list) option" where
  "osal_strdup fill os ch =
     (case ch of
        None \<Rightarrow> Some (None, os)
      | Some ch \<Rightarrow> do {
          cs \<leftarrow> c_str ch;
          let (ok, os) = alloc os;
          if \<not> ok then Some (None, os)
          else do { copy \<leftarrow> put 0 cs (replicate (length cs + 1) fill);
                    copy \<leftarrow> put (length cs) [0] copy;
                    Some (Some copy, os) } })"

fun strcat_loop :: "bytes list \<Rightarrow> nat \<Rightarrow> bytes \<Rightarrow> (nat \<times> bytes) option" where
  "strcat_loop [] str_off ret = Some (str_off, ret)"
| "strcat_loop (s # ss) str_off ret =
     do { cs \<leftarrow> c_str s; ret \<leftarrow> put str_off cs ret; strcat_loop ss (str_off + length cs) ret }"

fun strcat_len :: "bytes list \<Rightarrow> nat option" where
  "strcat_len [] = Some 0"
| "strcat_len (s # ss) = do { cs \<leftarrow> c_str s; n \<leftarrow> strcat_len ss; Some (length cs + n) }"

text \<open>The block has \<^verbatim>\<open>str_tlen\<close> bytes, and the terminator is stored behind them.\<close>

definition osal_strcat ::
  "u8 \<Rightarrow> bool list \<Rightarrow> bytes list option \<Rightarrow> (bytes option \<times> bool list) option" where
  "osal_strcat fill os str =
     (case str of
        None \<Rightarrow> Some (None, os)
      | Some ss \<Rightarrow> do {
          str_tlen \<leftarrow> strcat_len ss;
          let (ok, os) = alloc os;
          if \<not> ok then Some (None, os)
          else do { (str_off, ret) \<leftarrow> strcat_loop ss 0 (replicate str_tlen fill);
                    ret \<leftarrow> put str_off [0] ret;
                    Some (Some ret, os) } })"

section \<open>Hexadecimal\<close>

definition hex_digit :: "u8 \<Rightarrow> u8 option" where
  "hex_digit c =
     (if 0x30 \<le> c \<and> c \<le> 0x39 then Some (c - 0x30)
      else if 0x41 \<le> c \<and> c \<le> 0x46 then Some (c - 0x41 + 10)
      else if 0x61 \<le> c \<and> c \<le> 0x66 then Some (c - 0x61 + 10)
      else None)"

function hexstr2byte_loop :: "nat \<Rightarrow> nat \<Rightarrow> bytes \<Rightarrow> bytes \<Rightarrow> (int \<times> bytes) option" where
  "hexstr2byte_loop i len buf bufout =
     (if i < len
      then do {
        c \<leftarrow> byte_at buf i;
        case hex_digit c of
          None \<Rightarrow> Some (-1, bufout)
        | Some high \<Rightarrow> do {
            d \<leftarrow> byte_at buf (i + 1);
            case hex_digit d of
              None \<Rightarrow> Some (-1, bufout)
            | Some low \<Rightarrow> do {
                bufout \<leftarrow> put (i div 2) [push_bit 4 high OR (low AND 0x0F)] bufout;
                hexstr2byte_loop (i + 2) len buf bufout } } }
      else Some (0, bufout))"
  by pat_completeness auto
termination by (relation "measure (\<lambda>(i, len, _, _). len - i)") auto

definition hexstr2byte :: "bytes option \<Rightarrow> int \<Rightarrow> bytes option \<Rightarrow> (int \<times> bytes option) option" where
  "hexstr2byte buf len bufout =
     (case (buf, bufout) of
        (Some b, Some out) \<Rightarrow>
          if len \<le> 0 then Some (-1, bufout)
          else map_option (apsnd Some) (hexstr2byte_loop 0 (nat len) b out)
      | _ \<Rightarrow> Some (-1, bufout))"

definition hex_char :: "u8 \<Rightarrow> u8" where
  "hex_char t = (if t > 9 then t - 10 + 0x61 else t + 0x30)"

function byte2hexstr_loop :: "nat \<Rightarrow> nat \<Rightarrow> bytes \<Rightarrow> bytes \<Rightarrow> bytes option" where
  "byte2hexstr_loop i len bufin bufout =
     (if i < len
      then do {
        b \<leftarrow> byte_at bufin i;
        bufout \<leftarrow> put (2 * i) [hex_char (drop_bit 4 b AND 0x0F)] bufout;
        bufout \<leftarrow> put (2 * i + 1) [hex_char (b AND 0x0F)] bufout;
        byte2hexstr_loop (i + 1) len bufin bufout }
      else Some bufout)"
  by pat_completeness auto
termination by (relation "measure (\<lambda>(i, len, _, _). len - i)") auto

definition byte2hexstr :: "bytes option \<Rightarrow> int \<Rightarrow> bytes option \<Rightarrow> (int \<times> bytes option) option" where
  "byte2hexstr bufin len bufout =
     (case (bufin, bufout) of
        (Some b, Some out) \<Rightarrow>
          if len \<le> 0 then Some (-1, bufout)
          else do { out \<leftarrow> byte2hexstr_loop 0 (nat len) b out;
                    out \<leftarrow> put (2 * nat len) [0] out;
                    Some (0, Some out) }
      | _ \<Rightarrow> Some (-1, bufout))"

section \<open>Random bytes\<close>

text \<open>
  \<open>srand\<close> and \<open>rand\<close> are the C library's generator: a state from a seed, and the next
  number with the next state. An \<^verbatim>\<open>int\<close> is stored low byte first.
\<close>

definition int_bytes :: "u32 \<Rightarrow> bytes" where
  "int_bytes w = [ucast w, ucast (drop_bit 8 w), ucast (drop_bit 16 w), ucast (drop_bit 24 w)]"

function link_random_loop ::
  "('g \<Rightarrow> u32 \<times> 'g) \<Rightarrow> nat \<Rightarrow> nat \<Rightarrow> bytes \<Rightarrow> 'g \<Rightarrow> (bytes \<times> 'g) option" where
  "link_random_loop rand i len pbuf g =
     (if i < len
      then do {
        let (n, g) = rand g;
        pbuf \<leftarrow> put i (take (if 4 > len - i then len - i else 4) (int_bytes n)) pbuf;
        link_random_loop rand (i + 4) len pbuf g }
      else Some (pbuf, g))"
  by pat_completeness auto
termination by (relation "measure (\<lambda>(_, i, len, _, _). len - i)") auto

definition link_random ::
  "(u32 \<Rightarrow> 'g) \<Rightarrow> ('g \<Rightarrow> u32 \<times> 'g) \<Rightarrow> 'os os_cb \<Rightarrow> bytes option \<Rightarrow> int
     \<Rightarrow> (int \<times> bytes option, 'os) call" where
  "link_random srand rand cb output len st =
     (case output of
        None \<Rightarrow> Some ((-1, None), st)
      | Some pbuf \<Rightarrow> do {
          (now, st) \<leftarrow> osal_sys_time cb st;
          (pbuf, g) \<leftarrow> link_random_loop rand 0 (nat len) pbuf (srand (ucast now));
          Some ((0, Some pbuf), st) })"

declare hexstr2byte_loop.simps [simp del] byte2hexstr_loop.simps [simp del]
  link_random_loop.simps [simp del]


section \<open>Lemmas\<close>

text \<open>The runs of non-zero bytes of a string.\<close>

function runs :: "bytes \<Rightarrow> bytes list" where
  "runs [] = []"
| "runs (x # xs) =
     (if x = 0 then runs xs
      else (x # takeWhile (\<lambda>c. c \<noteq> 0) xs) # runs (dropWhile (\<lambda>c. c \<noteq> 0) xs))"
  by pat_completeness auto
termination by (relation "measure length") (auto simp: le_imp_less_Suc length_dropWhile_le)

fun starts :: "nat \<Rightarrow> u8 \<Rightarrow> bytes \<Rightarrow> nat list" where
  "starts i b [] = []"
| "starts i b (x # xs) = (if x \<noteq> 0 \<and> b = 0 then [i] else []) @ starts (i + 1) x xs"

lemma starts_runs:
  "map (\<lambda>i. takeWhile (\<lambda>c. c \<noteq> 0) (drop i (pre @ xs))) (starts (length pre) b xs) =
     (if b = 0 then runs xs else runs (dropWhile (\<lambda>c. c \<noteq> 0) xs))"
proof (induction xs arbitrary: pre b)
  case (Cons x xs)
  have "map (\<lambda>i. takeWhile (\<lambda>c. c \<noteq> 0) (drop i (pre @ x # xs))) (starts (Suc (length pre)) x xs) =
      (if x = 0 then runs xs else runs (dropWhile (\<lambda>c. c \<noteq> 0) xs))"
    using Cons.IH[of "pre @ [x]" x] by simp
  then show ?case by simp
qed simp

lemma string_to_arg_loop_starts:
  "length argv = nat argvlen \<Longrightarrow> int paramnum \<le> argvlen \<Longrightarrow>
     \<exists>argv'. string_to_arg_loop cs i b argvlen paramnum argv =
       Some (paramnum + length (take (nat argvlen - paramnum) (starts i b cs)), argv') \<and>
     length argv' = nat argvlen \<and> take paramnum argv' = take paramnum argv \<and>
     take (length (take (nat argvlen - paramnum) (starts i b cs))) (drop paramnum argv') =
       take (nat argvlen - paramnum) (starts i b cs)"
proof (induction cs arbitrary: i b paramnum argv)
  case (Cons c cs)
  show ?case
  proof (cases "c \<noteq> 0 \<and> b = 0 \<and> int paramnum < argvlen")
    case False
    then have "take (nat argvlen - paramnum) (starts i b (c # cs)) =
        take (nat argvlen - paramnum) (starts (i + 1) c cs)"
      by auto
    then show ?thesis using Cons.IH[OF Cons.prems, of "i + 1" c] False by auto
  next
    case True
    let ?argv = "take paramnum argv @ i # drop (Suc paramnum) argv"
    have p: "put paramnum [i] argv = Some ?argv" "length ?argv = nat argvlen"
      using True Cons.prems by (auto simp: put_def)
    obtain argv' where a: "string_to_arg_loop cs (i + 1) c argvlen (paramnum + 1) ?argv =
        Some (paramnum + 1 + length (take (nat argvlen - (paramnum + 1)) (starts (i + 1) c cs)), argv')"
        "length argv' = nat argvlen" "take (paramnum + 1) argv' = take (paramnum + 1) ?argv"
        "take (length (take (nat argvlen - (paramnum + 1)) (starts (i + 1) c cs)))
           (drop (paramnum + 1) argv') = take (nat argvlen - (paramnum + 1)) (starts (i + 1) c cs)"
      using Cons.IH[OF p(2), of "paramnum + 1" "i + 1" c] True by auto
    have t: "take (nat argvlen - paramnum) (starts i b (c # cs)) =
        i # take (nat argvlen - (paramnum + 1)) (starts (i + 1) c cs)"
    proof -
      have "nat argvlen - paramnum = Suc (nat argvlen - (paramnum + 1))" using True by linarith
      then show ?thesis using True by simp
    qed
    have pl: "paramnum < length argv" "paramnum < length argv'" using True Cons.prems a(2) by auto
    then have "argv' ! paramnum = i" and tp: "take paramnum argv' = take paramnum argv"
      using arg_cong[OF a(3), of "\<lambda>l. l ! paramnum"] arg_cong[OF a(3), of "take paramnum"]
      by (simp_all add: nth_append min_def)
    then have "drop paramnum argv' = i # drop (paramnum + 1) argv'"
      using pl(2) by (simp add: Cons_nth_drop_Suc[symmetric])
    then show ?thesis using True p(1) a tp t by auto
  qed
qed simp

lemma bit_0x0f [simp]: "bit (0x0F :: u8) n \<longleftrightarrow> n < 4"
proof -
  have "(0x0F :: u8) = mask 4" by (simp add: mask_eq_exp_minus_1)
  then show ?thesis by (simp only: bit_mask_iff) auto
qed

lemma join_nibbles: "push_bit 4 (drop_bit 4 b AND 0x0F) OR (b AND 0x0F AND 0x0F) = (b :: u8)"
  by (rule bit_word_eqI)
    (simp only: bit_or_iff bit_and_iff bit_push_bit_iff bit_drop_bit_eq bit_0x0f comp_def, auto)

lemma nibble_less: "b AND 0x0F < (16 :: u8)"
proof -
  have "b AND 0x0F = b mod 16"
    using take_bit_eq_mask[of 4 b] take_bit_eq_mod[of 4 b] by (simp add: mask_eq_exp_minus_1)
  then show ?thesis by (simp add: word_less_def uint_mod)
qed

lemma hex_digit_char: "n < 16 \<Longrightarrow> hex_digit (hex_char n) = Some n"
proof -
  assume "n < 16"
  then have "unat n \<in> set [0..<16]" by (simp add: word_less_nat_alt)
  moreover have "list_all (\<lambda>k. hex_digit (hex_char (of_nat k)) = Some (of_nat k)) [0..<16]"
    by code_simp
  ultimately have "hex_digit (hex_char (of_nat (unat n))) = Some (of_nat (unat n))"
    by (simp only: list_all_iff)
  then show ?thesis by simp
qed

definition hexs :: "bytes \<Rightarrow> bytes" where
  "hexs bs = concat (map (\<lambda>b. [hex_char (drop_bit 4 b AND 0x0F), hex_char (b AND 0x0F)]) bs)"

lemma hexs_simps [simp]: "hexs [] = []"
  "hexs (b # bs) = hex_char (drop_bit 4 b AND 0x0F) # hex_char (b AND 0x0F) # hexs bs"
  "length (hexs bs) = 2 * length bs"
  by (simp_all add: hexs_def) (induction bs; simp)

lemma byte2hexstr_loop_put:
  "i \<le> len \<Longrightarrow> len \<le> length bufin \<Longrightarrow> 2 * len \<le> length out \<Longrightarrow>
     byte2hexstr_loop i len bufin out = put (2 * i) (hexs (take (len - i) (drop i bufin))) out"
proof (induction i len bufin out rule: byte2hexstr_loop.induct)
  case (1 i len bufin out)
  show ?case
  proof (cases "i < len")
    case False
    then show ?thesis using 1(2-) by (subst byte2hexstr_loop.simps) simp
  next
    case True
    let ?h = "[hex_char (drop_bit 4 (bufin ! i) AND 0x0F)]" and ?l = "[hex_char (bufin ! i AND 0x0F)]"
    have b: "byte_at bufin i = Some (bufin ! i)" using True 1 by (simp add: byte_at_def)
    obtain o1 where o1: "put (2 * i) ?h out = Some o1" "length o1 = length out"
      using True 1(4) by (auto simp: put_def)
    obtain o2 where o2: "put (2 * i + 1) ?l o1 = Some o2" "length o2 = length out"
      using True 1(4) o1(2) by (auto simp: put_def)
    have "byte2hexstr_loop (i + 1) len bufin o2 =
        put (2 * (i + 1)) (hexs (take (len - (i + 1)) (drop (i + 1) bufin))) o2"
      using 1(1)[OF True b o1(1) o2(1)] True 1(3,4) o2(2) by simp
    moreover have "put (2 * i) (?h @ ?l) out = Some o2"
      using put_put[of "2 * i" ?h out ?l] o1(1) o2(1) by simp
    moreover have "take (len - i) (drop i bufin) =
        bufin ! i # take (len - (i + 1)) (drop (i + 1) bufin)"
      using True 1(3) by (metis Cons_nth_drop_Suc Suc_diff_Suc Suc_eq_plus1 less_le_trans take_Suc_Cons)
    moreover have "put (2 * i) ((?h @ ?l) @ ys) out = put (2 * i + 2) ys o2" for ys
      using put_put[of "2 * i" "?h @ ?l" out ys] \<open>put (2 * i) (?h @ ?l) out = Some o2\<close> by simp
    ultimately show ?thesis using True b o1(1) o2(1) by (subst byte2hexstr_loop.simps) simp
  qed
qed

lemma hexstr2byte_loop_put:
  "i + length xs \<le> length out \<Longrightarrow> length pre = 2 * i \<Longrightarrow>
     hexstr2byte_loop (2 * i) (2 * i + 2 * length xs) (pre @ hexs xs @ rest) out =
       map_option (Pair 0) (put i xs out)"
proof (induction xs arbitrary: i pre out)
  case Nil
  then show ?case by (subst hexstr2byte_loop.simps) simp
next
  case (Cons x xs)
  let ?buf = "pre @ hexs (x # xs) @ rest"
  have b: "byte_at ?buf (2 * i) = Some (hex_char (drop_bit 4 x AND 0x0F))"
    "byte_at ?buf (2 * i + 1) = Some (hex_char (x AND 0x0F))"
    using Cons.prems(2) by (simp_all add: byte_at_def nth_append)
  have d: "hex_digit (hex_char (drop_bit 4 x AND 0x0F)) = Some (drop_bit 4 x AND 0x0F)"
    "hex_digit (hex_char (x AND 0x0F)) = Some (x AND 0x0F)"
    by (rule hex_digit_char[OF nibble_less])+
  obtain o1 where o1: "put i [x] out = Some o1" "length o1 = length out"
    using Cons.prems(1) by (auto simp: put_def)
  have "hexstr2byte_loop (2 * (i + 1)) (2 * (i + 1) + 2 * length xs)
      ((pre @ [hex_char (drop_bit 4 x AND 0x0F), hex_char (x AND 0x0F)]) @ hexs xs @ rest) o1 =
      map_option (Pair 0) (put (i + 1) xs o1)"
    by (rule Cons.IH) (use Cons.prems o1(2) in auto)
  then have "hexstr2byte_loop (2 * i + 2) (2 * i + 2 * length (x # xs)) ?buf o1 =
      map_option (Pair 0) (put (i + 1) xs o1)"
    by (simp add: algebra_simps)
  moreover have "put i (x # xs) out = put (i + 1) xs o1"
    using put_put[of i "[x]" out xs] o1(1) by simp
  ultimately show ?case using b d o1(1)
    by (subst hexstr2byte_loop.simps) (simp add: join_nibbles[simplified])
qed


text \<open>The words of a command line.\<close>

definition words_of :: "bytes \<Rightarrow> bytes list" where
  "words_of cs = runs (blank_to_nul cs)"

lemma starts_less: "j \<in> set (starts i b xs) \<Longrightarrow> i \<le> j \<and> j < i + length xs"
  by (induction xs arbitrary: i b) (force split: if_splits)+

lemma takeWhile_before_nul: fixes r :: bytes shows
  "i < length xs \<Longrightarrow> takeWhile (\<lambda>c. c \<noteq> 0) (drop i (xs @ 0 # r)) = takeWhile (\<lambda>c. c \<noteq> 0) (drop i xs)"
proof -
  have "takeWhile (\<lambda>c. c \<noteq> 0) (ys @ 0 # r) = takeWhile (\<lambda>c. c \<noteq> 0) ys" for ys :: bytes
    by (induction ys) auto
  then show "i < length xs \<Longrightarrow> ?thesis" by simp
qed

lemma c_str_take: "0 \<in> set xs \<Longrightarrow> c_str xs = Some (takeWhile (\<lambda>c. c \<noteq> 0) xs)"
  by (simp add: c_str_def)

lemma strcat_loop_put:
  "strcat_len ss = Some n \<Longrightarrow> off + n \<le> length ret \<Longrightarrow>
     \<exists>ret'. strcat_loop ss off ret = Some (off + n, ret') \<and> length ret' = length ret"
proof (induction ss arbitrary: off n ret)
  case (Cons s ss)
  then obtain cs m where c: "c_str s = Some cs" "strcat_len ss = Some m" "n = length cs + m"
    by (auto simp: bind_eq_Some_conv)
  then obtain r1 where r1: "put off cs ret = Some r1" "length r1 = length ret"
    using Cons.prems(2) by (auto simp: put_def)
  obtain r2 where "strcat_loop ss (off + length cs) r1 = Some (off + length cs + m, r2)"
    "length r2 = length r1"
    using Cons.IH[OF c(2), of "off + length cs" r1] c(3) r1(2) Cons.prems(2) by auto
  then show ?case using c r1 by simp
qed simp

section \<open>Properties\<close>

text \<open>Hexadecimal round trip: \<^verbatim>\<open>byte2hexstr\<close> writes two characters per byte and a terminator,
  and \<^verbatim>\<open>hexstr2byte\<close> reads those characters back to the same bytes. Both stay inside buffers
  of just those sizes and leave what is behind them alone.\<close>

theorem hex_roundtrip:
  assumes "bs \<noteq> []" and "2 * length bs + 1 \<le> length out" and "length bs \<le> length out2"
  shows "\<exists>txt. byte2hexstr (Some bs) (int (length bs)) (Some out) = Some (0, Some txt) \<and>
    length txt = length out \<and> drop (2 * length bs) txt = 0 # drop (2 * length bs + 1) out \<and>
    hexstr2byte (Some txt) (int (2 * length bs)) (Some out2) =
      Some (0, Some (bs @ drop (length bs) out2))"
proof -
  have l: "byte2hexstr_loop 0 (length bs) bs out = Some (hexs bs @ drop (2 * length bs) out)"
    using assms(2) byte2hexstr_loop_put[of 0 "length bs" bs out] by (simp add: put_def)
  have "put (2 * length bs) [0] (hexs bs @ drop (2 * length bs) out) =
      Some (hexs bs @ 0 # drop (2 * length bs + 1) out)"
    using assms(2) by (simp add: put_def)
  then have "byte2hexstr (Some bs) (int (length bs)) (Some out) =
      Some (0, Some (hexs bs @ 0 # drop (2 * length bs + 1) out))"
    using assms(1) l by (simp add: byte2hexstr_def)
  moreover have "hexstr2byte_loop (2 * 0) (2 * 0 + 2 * length bs)
      ([] @ hexs bs @ (0 # drop (2 * length bs + 1) out)) out2 = map_option (Pair 0) (put 0 bs out2)"
    by (rule hexstr2byte_loop_put) (use assms in auto)
  then have "hexstr2byte (Some (hexs bs @ 0 # drop (2 * length bs + 1) out)) (int (2 * length bs))
      (Some out2) = Some (0, Some (bs @ drop (length bs) out2))"
    using assms by (simp add: hexstr2byte_def put_def nat_mult_distrib)
  ultimately show ?thesis using assms(2) by (intro exI conjI) auto
qed

lemma hex_roundtrip_witness:
  "\<exists>txt. byte2hexstr (Some [0xAB, 0x07]) 2 (Some [9, 9, 9, 9, 9]) = Some (0, Some txt) \<and>
    length txt = 5 \<and> drop 4 txt = [0] \<and>
    hexstr2byte (Some txt) 4 (Some [1, 1, 1]) = Some (0, Some [0xAB, 0x07, 1])"
  using hex_roundtrip[of "[0xAB, 0x07]" "[9, 9, 9, 9, 9]" "[1, 1, 1]"]
  by (simp add: eval_nat_numeral)

text \<open>\<^verbatim>\<open>string_to_arg\<close> cuts a command line into its words: the arguments it returns point, in the
  changed string, at C strings that are exactly the first \<open>argc\<close> maximal runs of
  non-blank characters, in order. It stores no more than \<open>argc\<close> pointers.\<close>

theorem string_to_arg_words:
  assumes "s = cs @ 0 # rest" and "0 \<notin> set cs" and "0 \<le> argc" and "length argv = nat argc"
  shows "\<exists>n argv' s'. string_to_arg argc argv (Some s) = Some (int n, int n, argv', Some s') \<and>
    length s' = length s \<and> length argv' = nat argc \<and> n = min (nat argc) (length (words_of cs)) \<and>
    map (\<lambda>i. c_str (drop i s')) (take n argv') = map Some (take n (words_of cs))"
proof -
  define b where "b = blank_to_nul cs"
  define s' where "s' = b @ 0 # rest"
  define n where "n = length (take (nat argc) (starts 0 0 b))"
  have lb: "length b = length cs" by (simp add: b_def blank_to_nul_def)
  have w: "map (\<lambda>i. takeWhile (\<lambda>c. c \<noteq> 0) (drop i b)) (starts 0 0 b) = words_of cs"
    using starts_runs[of "[]" b 0] by (simp add: words_of_def b_def)
  obtain argv' where a: "string_to_arg_loop b 0 0 argc 0 argv = Some (n, argv')"
      "length argv' = nat argc" "take n argv' = take (nat argc) (starts 0 0 b)"
    using string_to_arg_loop_starts[OF assms(4), of 0 b 0 0] assms(3) unfolding n_def by auto
  have "map (\<lambda>i. c_str (drop i s')) (starts 0 0 b) = map Some (words_of cs)"
    unfolding w[symmetric] map_map comp_def
  proof (rule map_cong[OF refl])
    fix i assume "i \<in> set (starts 0 0 b)"
    then have i: "i < length b" using starts_less by fastforce
    then show "c_str (drop i s') = Some (takeWhile (\<lambda>c. c \<noteq> 0) (drop i b))"
      using takeWhile_before_nul[OF i, of rest] by (simp add: s'_def c_str_take)
  qed
  moreover have "take n argv' = take n (starts 0 0 b)" using a(3) by (simp add: n_def min_def)
  ultimately have m: "map (\<lambda>i. c_str (drop i s')) (take n argv') = map Some (take n (words_of cs))"
    by (simp only: take_map[symmetric])
  have "string_to_arg argc argv (Some s) = Some (int n, int n, argv', Some s')"
    using assms(1,2) a(1) by (simp add: string_to_arg_def b_def s'_def)
  moreover have "n = min (nat argc) (length (words_of cs))"
    using arg_cong[OF w, of length] by (auto simp: n_def)
  moreover have "length s' = length s" using lb assms(1) by (simp add: s'_def)
  ultimately show ?thesis using a(2) m by blast
qed

lemma string_to_arg_words_witness:
  "\<exists>n argv' s'. string_to_arg 2 [0, 0] (Some (bytes_of ''at  +cmd 1'' @ 0 # [])) =
      Some (int n, int n, argv', Some s') \<and>
    length s' = length (bytes_of ''at  +cmd 1'' @ 0 # []) \<and> length argv' = nat 2 \<and>
    n = min (nat 2) (length (words_of (bytes_of ''at  +cmd 1''))) \<and>
    map (\<lambda>i. c_str (drop i s')) (take n argv') =
      map Some (take n (words_of (bytes_of ''at  +cmd 1'')))"
  by (rule string_to_arg_words[OF refl]) simp_all

text \<open>\<^verbatim>\<open>osal_strcat\<close> overflows its block on every input: whenever the allocation succeeds, the
  terminator is stored one byte past the block, which has the length of the strings and
  no place for it.\<close>

theorem osal_strcat_overflows:
  assumes "strcat_len ss = Some n" and "fst (alloc os)"
  shows "osal_strcat fill os (Some ss) = None"
proof -
  obtain r where "strcat_loop ss 0 (replicate n fill) = Some (n, r)" "length r = n"
    using strcat_loop_put[OF assms(1), of 0 "replicate n fill"] by auto
  then show ?thesis
    using assms by (auto simp: osal_strcat_def put_def split: prod.split)
qed

lemma osal_strcat_overflows_witness:
  "osal_strcat 0xA5 [True] (Some [bytes_of ''ab'' @ [0], bytes_of ''c'' @ [0]]) = None"
  by (rule osal_strcat_overflows[of _ 3]) (simp_all add: c_str_def)

end
