(* ===== verification/MsgQueue.thy ===== *)
theory MsgQueue
  imports LinuxOs
begin

text \<open>
  The message queue of \<^verbatim>\<open>queue/queue.c\<close> over the OS abstraction layer. A message is a
  non-null pointer, a natural number. The queue is proved to be a bounded first-in first-out
  buffer (\<open>bounded_fifo\<close>) in both modes: without synchronisation on any port, and with
  semaphores and mutex on every port that obeys the laws \<open>osal_sync\<close>, which the Linux port
  does. Here each call runs alone; the interleavings of several threads are in \<open>QueueConc\<close>.
\<close>

section \<open>State and operations\<close>

text \<open>\<open>q_addr\<close> is the address of the block, which \<^verbatim>\<open>queue_delete\<close> frees.\<close>

record queue_t =
  q_addr :: nat
  q_name :: "string option"
  q_msg_buflen :: int
  q_msg_buf :: "nat list"
  q_cur_write :: int
  q_cur_read :: int
  q_msg_num :: int
  q_sync_mode :: int
  q_sync_read :: nat
  q_sync_write :: nat
  q_lock :: nat

text \<open>
  \<open>sizeof(queue_t)\<close> on a 64-bit target is 72. \<open>fill\<close> is what the slots of the fresh block hold.
\<close>

definition queue_create ::
  "nat \<Rightarrow> 'os os_cb \<Rightarrow> string option \<Rightarrow> int \<Rightarrow> int \<Rightarrow> (queue_t option, 'os) call" where
  "queue_create fill cb name len syncmode st =
     do { (ret, st) \<leftarrow> osal_malloc cb (72 + word_of_int len * 8) st;
          case ret of
            None \<Rightarrow> Some (None, st)
          | Some addr \<Rightarrow>
              let q = \<lparr>q_addr = addr, q_name = name, q_msg_buflen = len,
                       q_msg_buf = replicate (nat len) fill, q_cur_write = 0, q_cur_read = 0,
                       q_msg_num = 0, q_sync_mode = syncmode, q_sync_read = 0,
                       q_sync_write = 0, q_lock = 0\<rparr>
              in if syncmode = 0 then Some (Some q, st)
                 else do {
                   ((ok, sr), st) \<leftarrow> osal_semp_create cb (q_sync_read q) len 0 st;
                   let q = q\<lparr>q_sync_read := sr\<rparr>;
                   if \<not> ok
                   then do { (_, st) \<leftarrow> osal_free cb (Some addr) st; Some (None, st) }
                   else do {
                     ((ok, sw), st) \<leftarrow> osal_semp_create cb (q_sync_write q) len len st;
                     let q = q\<lparr>q_sync_write := sw\<rparr>;
                     if \<not> ok
                     then do { (_, st) \<leftarrow> osal_semp_del cb (q_sync_read q) st;
                               (_, st) \<leftarrow> osal_free cb (Some addr) st;
                               Some (None, st) }
                     else do {
                       ((ok, m), st) \<leftarrow> osal_mutex_create cb (q_lock q) st;
                       let q = q\<lparr>q_lock := m\<rparr>;
                       if \<not> ok
                       then do { (_, st) \<leftarrow> osal_semp_del cb (q_sync_write q) st;
                                 (_, st) \<leftarrow> osal_semp_del cb (q_sync_read q) st;
                                 (_, st) \<leftarrow> osal_free cb (Some addr) st;
                                 Some (None, st) }
                       else Some (Some q, st) } } } }"

definition raw_queue_pushdata :: "queue_t \<Rightarrow> nat \<Rightarrow> (int \<times> queue_t) option" where
  "raw_queue_pushdata queue data =
     (if q_msg_num queue < q_msg_buflen queue
      then do {
        buf \<leftarrow> put (nat (q_cur_write queue)) [data] (q_msg_buf queue);
        w \<leftarrow> c_rem (q_cur_write queue + 1) (q_msg_buflen queue);
        Some (0, queue\<lparr>q_msg_buf := buf, q_cur_write := w, q_msg_num := q_msg_num queue + 1\<rparr>) }
      else Some (-1, queue))"

definition raw_queue_pop :: "queue_t \<Rightarrow> (int \<times> nat option \<times> queue_t) option" where
  "raw_queue_pop queue =
     (if q_msg_num queue > 0
      then do {
        d \<leftarrow> byte_at (q_msg_buf queue) (nat (q_cur_read queue));
        r \<leftarrow> c_rem (q_cur_read queue + 1) (q_msg_buflen queue);
        Some (0, Some d, queue\<lparr>q_cur_read := r, q_msg_num := q_msg_num queue - 1\<rparr>) }
      else Some (-1, None, queue))"

definition queue_push ::
  "'os os_cb \<Rightarrow> queue_t option \<Rightarrow> nat option \<Rightarrow> int \<Rightarrow> (int \<times> queue_t option, 'os) call" where
  "queue_push cb queue data timeout st =
     (case (queue, data) of
        (Some q, Some d) \<Rightarrow>
          if q_sync_mode q \<noteq> 0
          then do {
            (got, st) \<leftarrow> osal_semp_pend cb (q_sync_write q) (word_of_int timeout) st;
            if got
            then do {
              (held, st) \<leftarrow> osal_mutex_lock cb (q_lock q) st;
              (ret, q, st) \<leftarrow>
                (if held
                 then do { (ret, q) \<leftarrow> raw_queue_pushdata q d;
                           (_, st) \<leftarrow> osal_mutex_unlock cb (q_lock q) st;
                           Some (ret, q, st) }
                 else Some (-1, q, st));
              if ret = 0
              then do { (_, st) \<leftarrow> osal_semp_post cb (q_sync_read q) st;
                        Some ((ret, Some q), st) }
              else Some ((ret, Some q), st) }
            else Some ((-1, Some q), st) }
          else do { (ret, q) \<leftarrow> raw_queue_pushdata q d; Some ((ret, Some q), st) }
      | _ \<Rightarrow> Some ((-1, queue), st))"

text \<open>\<open>has_buf\<close> is whether \<^verbatim>\<open>buf\<close> is not \<^verbatim>\<open>NULL\<close>; the second result is what is stored there.\<close>

definition queue_pop ::
  "'os os_cb \<Rightarrow> queue_t option \<Rightarrow> bool \<Rightarrow> int
     \<Rightarrow> (int \<times> nat option \<times> queue_t option, 'os) call" where
  "queue_pop cb queue has_buf timeout st =
     (case queue of
        Some q \<Rightarrow>
          if \<not> has_buf then Some ((-1, None, queue), st)
          else if q_sync_mode q \<noteq> 0
          then do {
            (got, st) \<leftarrow> osal_semp_pend cb (q_sync_read q) (word_of_int timeout) st;
            if got
            then do {
              (held, st) \<leftarrow> osal_mutex_lock cb (q_lock q) st;
              (ret, d, q, st) \<leftarrow>
                (if held
                 then do { (ret, d, q) \<leftarrow> raw_queue_pop q;
                           (_, st) \<leftarrow> osal_mutex_unlock cb (q_lock q) st;
                           Some (ret, d, q, st) }
                 else Some (-1, None, q, st));
              if ret = 0
              then do { (_, st) \<leftarrow> osal_semp_post cb (q_sync_write q) st;
                        Some ((ret, d, Some q), st) }
              else Some ((ret, d, Some q), st) }
            else Some ((-1, None, Some q), st) }
          else do { (ret, d, q) \<leftarrow> raw_queue_pop q; Some ((ret, d, Some q), st) }
      | None \<Rightarrow> Some ((-1, None, None), st))"

definition queue_delete :: "'os os_cb \<Rightarrow> queue_t option \<Rightarrow> (int, 'os) call" where
  "queue_delete cb queue st =
     (case queue of
        None \<Rightarrow> Some (-1, st)
      | Some q \<Rightarrow> do {
          st \<leftarrow> (if q_sync_mode q \<noteq> 0
                then do { (_, st) \<leftarrow> osal_semp_del cb (q_sync_read q) st;
                          (_, st) \<leftarrow> osal_semp_del cb (q_sync_write q) st;
                          (_, st) \<leftarrow> osal_mutex_del cb (q_lock q) st;
                          Some st }
                else Some st);
          (_, st) \<leftarrow> osal_free cb (Some (q_addr q)) st;
          Some (0, st) })"

section \<open>Invariant and abstraction\<close>

definition queue_ok :: "nat \<Rightarrow> queue_t \<Rightarrow> bool" where
  "queue_ok n q \<longleftrightarrow> 0 < n \<and> q_msg_buflen q = int n \<and> length (q_msg_buf q) = n \<and>
     0 \<le> q_msg_num q \<and> q_msg_num q \<le> int n \<and> 0 \<le> q_cur_read q \<and> q_cur_read q < int n \<and>
     q_cur_write q = (q_cur_read q + q_msg_num q) mod int n"

definition queue_contents :: "queue_t \<Rightarrow> nat list" where
  "queue_contents q =
     map (\<lambda>i. q_msg_buf q ! nat ((q_cur_read q + int i) mod q_msg_buflen q)) [0..<nat (q_msg_num q)]"

lemma length_queue_contents [simp]: "length (queue_contents q) = nat (q_msg_num q)"
  by (simp add: queue_contents_def)

lemma mod_slot_distinct:
  assumes "0 \<le> (r :: int)" and "0 \<le> i" and "i < m" and "m < n"
  shows "(r + i) mod n \<noteq> (r + m) mod n"
proof
  assume "(r + i) mod n = (r + m) mod n"
  then have "n dvd (r + m) - (r + i)" by (metis mod_eq_dvd_iff)
  then have "n dvd m - i" by simp
  then show False using assms zdvd_not_zless by auto
qed

lemma raw_push_law:
  assumes "queue_ok n q"
  shows "\<exists>q'. raw_queue_pushdata q d = Some (if q_msg_num q < int n then 0 else -1, q') \<and>
    queue_ok n q' \<and>
    queue_contents q' = queue_contents q @ (if q_msg_num q < int n then [d] else []) \<and>
    q_msg_num q' = q_msg_num q + (if q_msg_num q < int n then 1 else 0) \<and>
    q_addr q' = q_addr q \<and> q_sync_mode q' = q_sync_mode q \<and> q_sync_read q' = q_sync_read q \<and>
    q_sync_write q' = q_sync_write q \<and> q_lock q' = q_lock q"
proof (cases "q_msg_num q < int n")
  case False
  then show ?thesis using assms by (simp add: raw_queue_pushdata_def queue_ok_def)
next
  case True
  note ok = assms[unfolded queue_ok_def]
  let ?w = "nat (q_cur_write q)"
  have w: "0 \<le> q_cur_write q" "q_cur_write q < int n"
    using ok by auto
  then have wl: "?w < length (q_msg_buf q)" using ok by (metis nat_less_iff)
  obtain buf where b: "put ?w [d] (q_msg_buf q) = Some buf" "length buf = n"
      "\<And>i. i < n \<Longrightarrow> buf ! i = (if i = ?w then d else q_msg_buf q ! i)"
    using put_Some_iff[of ?w "[d]" "q_msg_buf q"] put_length[of ?w "[d]" "q_msg_buf q"]
      put_nth[of ?w "[d]" "q_msg_buf q"] wl ok by (auto simp: less_Suc_eq_le le_antisym)
  let ?q = "q\<lparr>q_msg_buf := buf, q_cur_write := (q_cur_write q + 1) mod int n,
              q_msg_num := q_msg_num q + 1\<rparr>"
  have "raw_queue_pushdata q d = Some (0, ?q)"
  proof -
    have "c_rem (q_cur_write q + 1) (int n) = Some ((q_cur_write q + 1) mod int n)"
      by (rule c_rem_pos) (use w in auto)
    then show ?thesis using True ok b(1) by (simp add: raw_queue_pushdata_def)
  qed
  moreover have "queue_ok n ?q"
    using ok True b(2) by (auto simp: queue_ok_def mod_add_left_eq add.assoc)
  moreover have "queue_contents ?q = queue_contents q @ [d]"
  proof -
    have n1: "nat (q_msg_num q + 1) = Suc (nat (q_msg_num q))" using ok by auto
    have "buf ! nat ((q_cur_read q + int i) mod int n) =
        q_msg_buf q ! nat ((q_cur_read q + int i) mod int n)" if "i < nat (q_msg_num q)" for i
    proof -
      have "(q_cur_read q + int i) mod int n \<noteq> q_cur_write q"
        using mod_slot_distinct[of "q_cur_read q" "int i" "q_msg_num q" "int n"] ok True that by auto
      moreover have "0 \<le> (q_cur_read q + int i) mod int n" "(q_cur_read q + int i) mod int n < int n"
        using ok by simp_all
      ultimately show ?thesis using b(3) w by (simp add: nat_less_iff eq_nat_nat_iff)
    qed
    moreover have "buf ! nat ((q_cur_read q + q_msg_num q) mod int n) = d"
      using b(3)[of ?w] ok w by (simp add: nat_less_iff)
    ultimately show ?thesis using ok by (simp add: queue_contents_def n1)
  qed
  ultimately show ?thesis using True by (intro exI[of _ ?q]) simp
qed

lemma raw_pop_law:
  assumes "queue_ok n q"
  shows "\<exists>q'. queue_ok n q' \<and>
    (case queue_contents q of
       [] \<Rightarrow> raw_queue_pop q = Some (-1, None, q') \<and> q' = q
     | d # ds \<Rightarrow> raw_queue_pop q = Some (0, Some d, q') \<and> queue_contents q' = ds \<and>
         q_msg_num q' = q_msg_num q - 1) \<and>
    q_addr q' = q_addr q \<and> q_sync_mode q' = q_sync_mode q \<and> q_sync_read q' = q_sync_read q \<and>
    q_sync_write q' = q_sync_write q \<and> q_lock q' = q_lock q"
proof (cases "q_msg_num q > 0")
  case False
  then have "queue_contents q = []" by (simp add: queue_contents_def)
  then show ?thesis using assms False by (auto simp: raw_queue_pop_def)
next
  case True
  note ok = assms[unfolded queue_ok_def]
  let ?q = "q\<lparr>q_cur_read := (q_cur_read q + 1) mod int n, q_msg_num := q_msg_num q - 1\<rparr>"
  obtain k where k: "nat (q_msg_num q) = Suc k" using True by (metis gr0_implies_Suc zero_less_nat_eq)
  let ?d = "q_msg_buf q ! nat (q_cur_read q)"
  have "queue_contents q = ?d #
      map (\<lambda>i. q_msg_buf q ! nat ((q_cur_read q + int (Suc i)) mod int n)) [0..<k]"
    using ok by (simp add: queue_contents_def k map_upt_Suc del: upt_Suc)
  moreover have "nat (q_msg_num q - 1) = k" using k by simp
  then have "queue_contents ?q =
      map (\<lambda>i. q_msg_buf q ! nat ((q_cur_read q + int (Suc i)) mod int n)) [0..<k]"
    using ok by (simp add: queue_contents_def mod_add_left_eq add.assoc)
  moreover have "raw_queue_pop q = Some (0, Some ?d, ?q)"
    using True ok by (simp add: raw_queue_pop_def byte_at_def c_rem_def nat_less_iff)
  moreover have "queue_ok n ?q"
    using ok True by (auto simp: queue_ok_def mod_add_left_eq)
  ultimately show ?thesis by (intro exI[of _ ?q]) simp
qed


section \<open>The queue alone, without synchronisation\<close>

text \<open>Calls in the form of the interface: the state is the queue with the state of the port.\<close>

definition push_call ::
  "'os os_cb \<Rightarrow> int \<Rightarrow> nat \<Rightarrow> queue_t \<times> 'os \<Rightarrow> (int \<times> queue_t \<times> 'os) option" where
  "push_call cb t d = (\<lambda>(q, st).
     do { ((r, q), st) \<leftarrow> queue_push cb (Some q) (Some d) t st; q \<leftarrow> q; Some (r, q, st) })"

definition pop_call ::
  "'os os_cb \<Rightarrow> int \<Rightarrow> queue_t \<times> 'os \<Rightarrow> (int \<times> nat option \<times> queue_t \<times> 'os) option" where
  "pop_call cb t = (\<lambda>(q, st).
     do { ((r, d, q), st) \<leftarrow> queue_pop cb (Some q) True t st; q \<leftarrow> q; Some (r, d, q, st) })"

definition raw_ok :: "nat \<Rightarrow> queue_t \<times> 'os \<Rightarrow> bool" where
  "raw_ok n s \<longleftrightarrow> queue_ok n (fst s) \<and> q_sync_mode (fst s) = 0"

lemma contents_full: "queue_ok n q \<Longrightarrow> length (queue_contents q) < n \<longleftrightarrow> q_msg_num q < int n"
  by (auto simp: queue_ok_def nat_less_iff)

lemma raw_push_call:
  "raw_ok n s \<Longrightarrow> \<exists>s'. push_call cb t d s =
      Some (if length (queue_contents (fst s)) < n then 0 else -1, s') \<and> raw_ok n s' \<and>
      queue_contents (fst s') =
        queue_contents (fst s) @ (if length (queue_contents (fst s)) < n then [d] else [])"
proof -
  assume ok: "raw_ok n s"
  obtain q st where s: "s = (q, st)" by (cases s)
  have q: "queue_ok n q" "q_sync_mode q = 0" using ok by (simp_all add: raw_ok_def s)
  obtain q' where "raw_queue_pushdata q d = Some (if q_msg_num q < int n then 0 else -1, q')"
    "queue_ok n q'" "q_sync_mode q' = q_sync_mode q"
    "queue_contents q' = queue_contents q @ (if q_msg_num q < int n then [d] else [])"
    using raw_push_law[OF q(1), of d] by blast
  then show ?thesis using q contents_full[OF q(1)]
    by (intro exI[of _ "(q', st)"]) (simp add: push_call_def queue_push_def raw_ok_def s)
qed

lemma raw_pop_call:
  "raw_ok n s \<Longrightarrow> \<exists>s'. raw_ok n s' \<and>
     (case queue_contents (fst s) of
        [] \<Rightarrow> pop_call cb t s = Some (-1, None, s') \<and> queue_contents (fst s') = []
      | y # ys \<Rightarrow> pop_call cb t s = Some (0, Some y, s') \<and> queue_contents (fst s') = ys)"
proof -
  assume ok: "raw_ok n s"
  obtain q st where s: "s = (q, st)" by (cases s)
  have q: "queue_ok n q" "q_sync_mode q = 0" using ok by (simp_all add: raw_ok_def s)
  obtain q' where q': "queue_ok n q'" "q_sync_mode q' = q_sync_mode q"
    "case queue_contents q of
       [] \<Rightarrow> raw_queue_pop q = Some (-1, None, q') \<and> q' = q
     | d # ds \<Rightarrow> raw_queue_pop q = Some (0, Some d, q') \<and> queue_contents q' = ds \<and>
         q_msg_num q' = q_msg_num q - 1"
    using raw_pop_law[OF q(1)] by blast
  then show ?thesis using q
    by (intro exI[of _ "(q', st)"])
      (simp add: pop_call_def queue_pop_def raw_ok_def s split: list.splits)
qed

interpretation raw_queue: bounded_fifo "raw_ok n" "\<lambda>s. queue_contents (fst s)" n
    "push_call cb t" "pop_call cb t" for n cb t
proof unfold_locales
  show "raw_ok n s \<Longrightarrow> length (queue_contents (fst s)) \<le> n" for s :: "queue_t \<times> 'a"
    by (auto simp: raw_ok_def queue_ok_def)
qed (rule raw_push_call, assumption, rule raw_pop_call, assumption)

section \<open>The synchronised queue over any lawful port\<close>

text \<open>Timeouts other than forever: a call on a full or empty queue then returns.\<close>

locale sync_queue = osal_sync cb val locked
  for cb :: "'os os_cb" and val :: "nat \<Rightarrow> 'os \<Rightarrow> nat option" and locked :: "nat \<Rightarrow> 'os \<Rightarrow> bool option" +
  fixes timeout :: int
  assumes finite_wait: "word_of_int timeout \<noteq> cn_osal_timeout_forever"
begin

definition sync_ok :: "nat \<Rightarrow> queue_t \<times> 'os \<Rightarrow> bool" where
  "sync_ok n s \<longleftrightarrow> (case s of (q, st) \<Rightarrow> queue_ok n q \<and> q_sync_mode q \<noteq> 0 \<and>
     q_sync_read q \<noteq> q_sync_write q \<and> val (q_sync_read q) st = Some (nat (q_msg_num q)) \<and>
     val (q_sync_write q) st = Some (n - nat (q_msg_num q)) \<and> locked (q_lock q) st = Some False)"

lemma sync_push_call:
  assumes "sync_ok n s"
  shows "\<exists>s'. push_call cb timeout d s =
      Some (if length (queue_contents (fst s)) < n then 0 else -1, s') \<and> sync_ok n s' \<and>
      queue_contents (fst s') =
        queue_contents (fst s) @ (if length (queue_contents (fst s)) < n then [d] else [])"
proof -
  obtain q st where s: "s = (q, st)" by (cases s)
  have q: "queue_ok n q" "q_sync_mode q \<noteq> 0" "q_sync_read q \<noteq> q_sync_write q"
    "val (q_sync_read q) st = Some (nat (q_msg_num q))"
    "val (q_sync_write q) st = Some (n - nat (q_msg_num q))" "locked (q_lock q) st = Some False"
    using assms by (simp_all add: sync_ok_def s)
  have num: "nat (q_msg_num q) \<le> n" using q(1) by (auto simp: queue_ok_def)
  show ?thesis
  proof (cases "nat (q_msg_num q) < n")
    case False
    then have z: "val (q_sync_write q) st = Some 0" using q(5) by simp
    obtain st' where "osal_semp_pend cb (q_sync_write q) (word_of_int timeout) st = Some (False, st')"
      "\<forall>k. val k st' = val k st" "\<forall>m. locked m st' = locked m st"
      using pend_zero[OF z finite_wait] by blast
    then show ?thesis using q False
      by (intro exI[of _ "(q, st')"]) (simp add: push_call_def queue_push_def s sync_ok_def)
  next
    case True
    then obtain j where j: "n - nat (q_msg_num q) = Suc j" by (metis Suc_diff_Suc)
    obtain st1 where st1: "osal_semp_pend cb (q_sync_write q) (word_of_int timeout) st = Some (True, st1)"
        "\<forall>k. val k st1 = (if k = q_sync_write q then Some j else val k st)"
        "\<forall>m. locked m st1 = locked m st"
      using pend_pos[of "q_sync_write q" st j "word_of_int timeout"] q(5) j by auto
    obtain st2 where st2: "osal_mutex_lock cb (q_lock q) st1 = Some (True, st2)"
        "\<forall>m. locked m st2 = (if m = q_lock q then Some True else locked m st1)"
        "\<forall>h. val h st2 = val h st1"
      using lock[of "q_lock q" st1] q(6) st1(3) by auto
    obtain r st3 where st3: "osal_mutex_unlock cb (q_lock q) st2 = Some (r, st3)"
        "\<forall>m. locked m st3 = (if m = q_lock q then Some False else locked m st2)"
        "\<forall>h. val h st3 = val h st2"
      using unlock[of "q_lock q" st2] st2(2) by auto
    obtain r' st4 where st4: "osal_semp_post cb (q_sync_read q) st3 = Some (r', st4)"
        "\<forall>k. val k st4 = (if k = q_sync_read q then Some (Suc (nat (q_msg_num q))) else val k st3)"
        "\<forall>m. locked m st4 = locked m st3"
      using post[of "q_sync_read q" st3 "nat (q_msg_num q)"] st3(3) st2(3) st1(2) q(3,4) by auto
    have full: "q_msg_num q < int n" using True q(1) by (simp add: queue_ok_def nat_less_iff)
    obtain q' where q': "raw_queue_pushdata q d = Some (0, q')" "queue_ok n q'"
        "queue_contents q' = queue_contents q @ [d]" "q_msg_num q' = q_msg_num q + 1"
        "q_sync_mode q' = q_sync_mode q" "q_sync_read q' = q_sync_read q"
        "q_sync_write q' = q_sync_write q" "q_lock q' = q_lock q"
      using raw_push_law[OF q(1), of d] full by auto
    have "nat (q_msg_num q + 1) = Suc (nat (q_msg_num q))" using q(1) by (auto simp: queue_ok_def)
    then have "sync_ok n (q', st4)"
      using q q' st1(2,3) st2(2,3) st3(2,3) st4(2,3) j True by (simp add: sync_ok_def)
    moreover have "push_call cb timeout d s = Some (0, q', st4)"
      using q(2) q'(1,5-8) st1(1) st2(1) st3(1) st4(1) by (simp add: push_call_def queue_push_def s)
    ultimately show ?thesis using True q'(3) by (intro exI[of _ "(q', st4)"]) (simp add: s)
  qed
qed

lemma sync_pop_call:
  assumes "sync_ok n s"
  shows "\<exists>s'. sync_ok n s' \<and>
     (case queue_contents (fst s) of
        [] \<Rightarrow> pop_call cb timeout s = Some (-1, None, s') \<and> queue_contents (fst s') = []
      | y # ys \<Rightarrow> pop_call cb timeout s = Some (0, Some y, s') \<and> queue_contents (fst s') = ys)"
proof -
  obtain q st where s: "s = (q, st)" by (cases s)
  have q: "queue_ok n q" "q_sync_mode q \<noteq> 0" "q_sync_read q \<noteq> q_sync_write q"
    "val (q_sync_read q) st = Some (nat (q_msg_num q))"
    "val (q_sync_write q) st = Some (n - nat (q_msg_num q))" "locked (q_lock q) st = Some False"
    using assms by (simp_all add: sync_ok_def s)
  have num: "nat (q_msg_num q) \<le> n" using q(1) by (auto simp: queue_ok_def)
  show ?thesis
  proof (cases "queue_contents q")
    case Nil
    then have "nat (q_msg_num q) = 0" by (metis length_queue_contents list.size(3))
    then have z: "val (q_sync_read q) st = Some 0" using q(4) by simp
    obtain st' where "osal_semp_pend cb (q_sync_read q) (word_of_int timeout) st = Some (False, st')"
      "\<forall>k. val k st' = val k st" "\<forall>m. locked m st' = locked m st"
      using pend_zero[OF z finite_wait] by blast
    then show ?thesis using q Nil
      by (intro exI[of _ "(q, st')"]) (simp add: pop_call_def queue_pop_def s sync_ok_def)
  next
    case (Cons y ys)
    then obtain j where j: "nat (q_msg_num q) = Suc j" by (metis length_queue_contents length_Cons)
    obtain st1 where st1: "osal_semp_pend cb (q_sync_read q) (word_of_int timeout) st = Some (True, st1)"
        "\<forall>k. val k st1 = (if k = q_sync_read q then Some j else val k st)"
        "\<forall>m. locked m st1 = locked m st"
      using pend_pos[of "q_sync_read q" st j "word_of_int timeout"] q(4) j by auto
    obtain st2 where st2: "osal_mutex_lock cb (q_lock q) st1 = Some (True, st2)"
        "\<forall>m. locked m st2 = (if m = q_lock q then Some True else locked m st1)"
        "\<forall>h. val h st2 = val h st1"
      using lock[of "q_lock q" st1] q(6) st1(3) by auto
    obtain r st3 where st3: "osal_mutex_unlock cb (q_lock q) st2 = Some (r, st3)"
        "\<forall>m. locked m st3 = (if m = q_lock q then Some False else locked m st2)"
        "\<forall>h. val h st3 = val h st2"
      using unlock[of "q_lock q" st2] st2(2) by auto
    obtain r' st4 where st4: "osal_semp_post cb (q_sync_write q) st3 = Some (r', st4)"
        "\<forall>k. val k st4 = (if k = q_sync_write q then Some (Suc (n - nat (q_msg_num q))) else val k st3)"
        "\<forall>m. locked m st4 = locked m st3"
      using post[of "q_sync_write q" st3 "n - nat (q_msg_num q)"] st3(3) st2(3) st1(2) q(3,5) by auto
    obtain q' where q': "raw_queue_pop q = Some (0, Some y, q')" "queue_ok n q'"
        "queue_contents q' = ys" "q_msg_num q' = q_msg_num q - 1"
        "q_sync_mode q' = q_sync_mode q" "q_sync_read q' = q_sync_read q"
        "q_sync_write q' = q_sync_write q" "q_lock q' = q_lock q"
      using raw_pop_law[OF q(1)] Cons by auto
    have "nat (q_msg_num q - 1) = j" "n - j = Suc (n - nat (q_msg_num q))" using j num by auto
    then have "sync_ok n (q', st4)"
      using q q' st1(2,3) st2(2,3) st3(2,3) st4(2,3) by (simp add: sync_ok_def)
    moreover have "pop_call cb timeout s = Some (0, Some y, q', st4)"
      using q(2) q'(1,5-8) st1(1) st2(1) st3(1) st4(1) by (simp add: pop_call_def queue_pop_def s)
    ultimately show ?thesis using Cons q'(3) by (intro exI[of _ "(q', st4)"]) (simp add: s)
  qed
qed

end

sublocale sync_queue \<subseteq> bounded_fifo "sync_ok n" "\<lambda>s. queue_contents (fst s)" n
    "push_call cb timeout" "pop_call cb timeout" for n
proof unfold_locales
  show "sync_ok n s \<Longrightarrow> length (queue_contents (fst s)) \<le> n" for s
    by (auto simp: sync_ok_def queue_ok_def)
qed (rule sync_push_call, assumption, rule sync_pop_call, assumption)


section \<open>The queue on Linux\<close>

lemma word_timeout_finite: "(word_of_int (int (t mod 2 ^ 31)) :: u32) \<noteq> cn_osal_timeout_forever"
proof
  have "t mod 2 ^ 31 < 2 ^ 31" by simp
  then have "unat (of_nat (t mod 2 ^ 31) :: u32) = t mod 2 ^ 31"
    by (simp add: unat_of_nat)
  moreover assume "(word_of_int (int (t mod 2 ^ 31)) :: u32) = cn_osal_timeout_forever"
  then have "(of_nat (t mod 2 ^ 31) :: u32) = cn_osal_timeout_forever" by simp
  ultimately have "t mod 2 ^ 31 = unat (cn_osal_timeout_forever)" by metis
  then show False using \<open>t mod 2 ^ 31 < 2 ^ 31\<close> by simp
qed

interpretation linux_queue: sync_queue "Some s_link_linux" "\<lambda>h st. px_sem st h"
    "\<lambda>m st. px_mtx st m" "int (t mod 2 ^ 31)" for t
  by unfold_locales (rule word_timeout_finite)

named_theorems linux_create \<open>creating objects on Linux, unfolded to the POSIX calls\<close>

lemma linux_creates [linux_create]:
  "osal_malloc (Some s_link_linux) sz st = Some (libc_malloc st)"
  "osal_free (Some s_link_linux) a st = Some ((), st)"
  "osal_semp_create (Some s_link_linux) h l i st = linux_semp_create h l i st"
  "osal_semp_del (Some s_link_linux) h st = linux_semp_del h st"
  "osal_mutex_create (Some s_link_linux) h st = linux_mutex_create h st"
  by (simp_all add: osal_defs s_link_linux_def s_linux_ops_def split: option.splits)

declare linux_semp_create_def [linux_create] linux_semp_del_def [linux_create]
  linux_mutex_create_def [linux_create] libc_malloc_def [linux_create]
  libc_outcome_def [linux_create] px_sem_init_def [linux_create] px_mutex_init_def [linux_create]
  px_sem_destroy_def [linux_create]

lemma queue_create_linux:
  assumes "queue_create fill (Some s_link_linux) name (int n) syncmode st = Some (Some q, st1)"
    and "syncmode \<noteq> 0" and "0 < n" and "n < 2 ^ 31"
  shows "queue_ok n q \<and> q_sync_mode q \<noteq> 0 \<and> q_msg_num q = 0 \<and> q_sync_read q \<noteq> q_sync_write q \<and>
    px_sem st1 (q_sync_read q) = Some 0 \<and> px_sem st1 (q_sync_write q) = Some n \<and>
    px_mtx st1 (q_lock q) = Some False"
proof -
  have "unat (of_nat n :: u32) = n" using assms(4) by (simp add: unat_of_nat)
  then show ?thesis
    using assms
    by (auto simp: queue_create_def linux_create Let_def queue_ok_def bind_eq_Some_conv
        split: prod.splits if_splits option.splits)
qed

section \<open>Properties\<close>

text \<open>C11. The message queue on the Linux port: when \<^verbatim>\<open>queue_create\<close> returns a synchronised queue of
  \<open>n\<close> places, any sequence of pushes and pops with a timeout that is not forever returns
  (no access outside the slots, no wait that cannot end), delivers the accepted messages
  in the order of their acceptance, loses and duplicates none, and never holds more than
  \<open>n\<close>.\<close>

theorem queue_linux_fifo:
  assumes "queue_create fill (Some s_link_linux) name (int n) syncmode st = Some (Some q, st1)"
    and "syncmode \<noteq> 0" and "0 < n" and "n < 2 ^ 31" and "0 \<le> timeout" and "timeout < 2 ^ 31"
  shows "\<exists>accepted delivered q' st'.
    run_fifo (push_call (Some s_link_linux) timeout) (pop_call (Some s_link_linux) timeout) ops (q, st1)
      = Some (accepted, delivered, q', st') \<and>
    accepted = delivered @ queue_contents q' \<and> length (queue_contents q') \<le> n"
proof -
  have t: "int (nat timeout mod 2 ^ 31) = timeout" using assms(5,6) by simp
  have "linux_queue.sync_ok n (q, st1)"
    using queue_create_linux[OF assms(1-4)] by (simp add: linux_queue.sync_ok_def)
  moreover have "queue_contents q = []"
    using queue_create_linux[OF assms(1-4)] by (simp add: queue_contents_def)
  ultimately show ?thesis
    using linux_queue.run_fifo_order[of n "(q, st1)" "nat timeout" ops, unfolded t] by fastforce
qed

text \<open>A Linux process that has created nothing yet.\<close>

definition posix_init :: posix where
  "posix_init = \<lparr>px_sem = Map.empty, px_mtx = Map.empty, px_thr = (\<lambda>n. False), px_next = 1,
                px_outcomes = [], px_clock = 0\<rparr>"

lemma queue_linux_fifo_witness:
  "\<exists>q st1 accepted delivered q' st'.
    queue_create 0 (Some s_link_linux) None 2 1 posix_init = Some (Some q, st1) \<and>
    run_fifo (push_call (Some s_link_linux) 10) (pop_call (Some s_link_linux) 10)
      [FPush 5, FPush 6, FPop, FPush 7] (q, st1) = Some (accepted, delivered, q', st') \<and>
    accepted = delivered @ queue_contents q' \<and> length (queue_contents q') \<le> 2"
proof -
  obtain q st1 where c: "queue_create 0 (Some s_link_linux) None (int 2) 1 posix_init = Some (Some q, st1)"
    by (simp add: queue_create_def linux_create posix_init_def)
  show ?thesis
    using queue_linux_fifo[OF c, of 10 "[FPush 5, FPush 6, FPop, FPush 7]"] c by fastforce
qed

text \<open>The unsynchronised queue, on every port and from any well-formed state: the same order
  and bound, with a refusal exactly when all places are taken.\<close>

theorem queue_raw_fifo:
  assumes "queue_ok n q" and "q_sync_mode q = 0"
  shows "\<exists>accepted delivered q' st'.
    run_fifo (push_call cb timeout) (pop_call cb timeout) ops (q, st)
      = Some (accepted, delivered, q', st') \<and> queue_ok n q' \<and>
    queue_contents q @ accepted = delivered @ queue_contents q' \<and>
    (\<exists>q''. push_call cb timeout d (q', st') =
       Some (if length (queue_contents q') < n then 0 else -1, q'', st'))"
proof -
  have "raw_ok n (q, st)" using assms by (simp add: raw_ok_def)
  then obtain acc out s' where r: "run_fifo (push_call cb timeout) (pop_call cb timeout) ops (q, st) =
      Some (acc, out, s')" "raw_ok n s'" "queue_contents q @ acc = out @ queue_contents (fst s')"
    using raw_queue.run_fifo_order[of n "(q, st)" cb timeout ops] by auto
  obtain q' st' where s': "s' = (q', st')" by (cases s')
  have q': "queue_ok n q'" "q_sync_mode q' = 0" using r(2) by (simp_all add: raw_ok_def s')
  obtain q'' where "raw_queue_pushdata q' d = Some (if q_msg_num q' < int n then 0 else -1, q'')"
    using raw_push_law[OF q'(1)] by blast
  then have "push_call cb timeout d (q', st') =
      Some (if length (queue_contents q') < n then 0 else -1, q'', st')"
    using q' contents_full[OF q'(1)] by (simp add: push_call_def queue_push_def)
  then show ?thesis using r q'(1) unfolding s' by auto
qed

lemma queue_raw_fifo_witness:
  "\<exists>accepted delivered q' st'.
    run_fifo (push_call None 0) (pop_call None 0) [FPush 4, FPush 5, FPop]
      (\<lparr>q_addr = 0, q_name = None, q_msg_buflen = 1, q_msg_buf = [0], q_cur_write = 0,
        q_cur_read = 0, q_msg_num = 0, q_sync_mode = 0, q_sync_read = 0, q_sync_write = 0,
        q_lock = 0\<rparr>, ()) = Some (accepted, delivered, q', st') \<and> queue_ok 1 q' \<and>
    accepted = delivered @ queue_contents q'"
  using queue_raw_fifo[of 1 "\<lparr>q_addr = 0, q_name = None, q_msg_buflen = 1, q_msg_buf = [0],
      q_cur_write = 0, q_cur_read = 0, q_msg_num = 0, q_sync_mode = 0, q_sync_read = 0,
      q_sync_write = 0, q_lock = 0\<rparr>" None 0 "[FPush 4, FPush 5, FPop]" "()"]
  by (fastforce simp: queue_ok_def queue_contents_def)

end
