(* ===== verification/QueueConc.thy ===== *)
theory QueueConc
  imports MsgQueue
begin

text \<open>
  Threads that push to and pop from one synchronised queue (\<^verbatim>\<open>queue/queue.c\<close>) at the same time.
  Every call of the OS abstraction layer in \<^verbatim>\<open>queue_push\<close> and \<^verbatim>\<open>queue_pop\<close> is one atomic step of
  the thread that makes it, and so is the unprotected body \<open>raw_queue_pushdata\<close> or
  \<open>raw_queue_pop\<close>; between two steps any other thread may run. A wait that times out is no
  step of the system: the call returns \<open>-1\<close> and the thread stays where it was. The two
  semaphores are counters and the mutex a flag, as the laws \<open>osal_sync\<close> say. A thread waits for the mutex
  until it gets it: a port whose \<^verbatim>\<open>osal_mutex_lock\<close> gives up after the wait for the semaphore, whose permit
  the code then loses (lines 112 and 149), has no step here.
\<close>

section \<open>Threads and steps\<close>

text \<open>Where a thread stands: the call it will make next.\<close>

datatype qpc =
    QIdle
  | QPushLock nat
  | QPushRaw nat
  | QPushUnlock int
  | QPushPost
  | QPopLock
  | QPopRaw
  | QPopUnlock int
  | QPopPost

text \<open>\<open>qs_pushed\<close> and \<open>qs_popped\<close> record what the bodies accepted and delivered, in order.\<close>

record qsys =
  qs_queue :: queue_t
  qs_read :: nat
  qs_write :: nat
  qs_locked :: bool
  qs_pcs :: "qpc list"
  qs_pushed :: "nat list"
  qs_popped :: "nat list"

inductive qstep :: "qsys \<Rightarrow> qsys \<Rightarrow> bool" where
  PushPend: "i < length (qs_pcs s) \<Longrightarrow> qs_pcs s ! i = QIdle \<Longrightarrow> qs_write s = Suc w \<Longrightarrow>
    qstep s (s\<lparr>qs_write := w, qs_pcs := (qs_pcs s)[i := QPushLock d]\<rparr>)"
| PushLock: "i < length (qs_pcs s) \<Longrightarrow> qs_pcs s ! i = QPushLock d \<Longrightarrow> \<not> qs_locked s \<Longrightarrow>
    qstep s (s\<lparr>qs_locked := True, qs_pcs := (qs_pcs s)[i := QPushRaw d]\<rparr>)"
| PushRaw: "i < length (qs_pcs s) \<Longrightarrow> qs_pcs s ! i = QPushRaw d \<Longrightarrow>
    raw_queue_pushdata (qs_queue s) d = Some (ret, q) \<Longrightarrow>
    qstep s (s\<lparr>qs_queue := q, qs_pcs := (qs_pcs s)[i := QPushUnlock ret],
               qs_pushed := qs_pushed s @ (if ret = 0 then [d] else [])\<rparr>)"
| PushUnlock: "i < length (qs_pcs s) \<Longrightarrow> qs_pcs s ! i = QPushUnlock ret \<Longrightarrow>
    qstep s (s\<lparr>qs_locked := False,
               qs_pcs := (qs_pcs s)[i := if ret = 0 then QPushPost else QIdle]\<rparr>)"
| PushPost: "i < length (qs_pcs s) \<Longrightarrow> qs_pcs s ! i = QPushPost \<Longrightarrow>
    qstep s (s\<lparr>qs_read := Suc (qs_read s), qs_pcs := (qs_pcs s)[i := QIdle]\<rparr>)"
| PopPend: "i < length (qs_pcs s) \<Longrightarrow> qs_pcs s ! i = QIdle \<Longrightarrow> qs_read s = Suc r \<Longrightarrow>
    qstep s (s\<lparr>qs_read := r, qs_pcs := (qs_pcs s)[i := QPopLock]\<rparr>)"
| PopLock: "i < length (qs_pcs s) \<Longrightarrow> qs_pcs s ! i = QPopLock \<Longrightarrow> \<not> qs_locked s \<Longrightarrow>
    qstep s (s\<lparr>qs_locked := True, qs_pcs := (qs_pcs s)[i := QPopRaw]\<rparr>)"
| PopRaw: "i < length (qs_pcs s) \<Longrightarrow> qs_pcs s ! i = QPopRaw \<Longrightarrow>
    raw_queue_pop (qs_queue s) = Some (ret, d, q) \<Longrightarrow>
    qstep s (s\<lparr>qs_queue := q, qs_pcs := (qs_pcs s)[i := QPopUnlock ret],
               qs_popped := qs_popped s @ (case d of Some v \<Rightarrow> [v] | None \<Rightarrow> [])\<rparr>)"
| PopUnlock: "i < length (qs_pcs s) \<Longrightarrow> qs_pcs s ! i = QPopUnlock ret \<Longrightarrow>
    qstep s (s\<lparr>qs_locked := False,
               qs_pcs := (qs_pcs s)[i := if ret = 0 then QPopPost else QIdle]\<rparr>)"
| PopPost: "i < length (qs_pcs s) \<Longrightarrow> qs_pcs s ! i = QPopPost \<Longrightarrow>
    qstep s (s\<lparr>qs_write := Suc (qs_write s), qs_pcs := (qs_pcs s)[i := QIdle]\<rparr>)"

text \<open>The start: the queue as created, \<open>k\<close> threads that have called nothing.\<close>

definition qs_init :: "nat \<Rightarrow> nat \<Rightarrow> queue_t \<Rightarrow> qsys" where
  "qs_init n k q = \<lparr>qs_queue = q, qs_read = 0, qs_write = n, qs_locked = False,
                    qs_pcs = replicate k QIdle, qs_pushed = [], qs_popped = []\<rparr>"

inductive reachable :: "nat \<Rightarrow> nat \<Rightarrow> queue_t \<Rightarrow> qsys \<Rightarrow> bool" for n k q where
  start: "reachable n k q (qs_init n k q)"
| step: "reachable n k q s \<Longrightarrow> qstep s s' \<Longrightarrow> reachable n k q s'"

inductive_cases qstepE [consumes 1]: "qstep s s'"

section \<open>The invariant\<close>

fun in_crit :: "qpc \<Rightarrow> bool" where
  "in_crit (QPushRaw d) = True"
| "in_crit (QPushUnlock r) = True"
| "in_crit QPopRaw = True"
| "in_crit (QPopUnlock r) = True"
| "in_crit _ = False"

text \<open>Threads that took a free place and have not filled it, and so on.\<close>

fun will_push :: "qpc \<Rightarrow> bool" where
  "will_push (QPushLock d) = True" | "will_push (QPushRaw d) = True" | "will_push _ = False"

fun has_pushed :: "qpc \<Rightarrow> bool" where
  "has_pushed (QPushUnlock r) = True" | "has_pushed QPushPost = True" | "has_pushed _ = False"

fun will_pop :: "qpc \<Rightarrow> bool" where
  "will_pop QPopLock = True" | "will_pop QPopRaw = True" | "will_pop _ = False"

fun has_popped :: "qpc \<Rightarrow> bool" where
  "has_popped (QPopUnlock r) = True" | "has_popped QPopPost = True" | "has_popped _ = False"

fun ret_ok :: "qpc \<Rightarrow> bool" where
  "ret_ok (QPushUnlock r) = (r = 0)" | "ret_ok (QPopUnlock r) = (r = 0)" | "ret_ok _ = True"

definition cnt :: "(qpc \<Rightarrow> bool) \<Rightarrow> qsys \<Rightarrow> nat" where
  "cnt P s = length (filter P (qs_pcs s))"

definition qinv :: "nat \<Rightarrow> qsys \<Rightarrow> bool" where
  "qinv n s \<longleftrightarrow> queue_ok n (qs_queue s) \<and> list_all ret_ok (qs_pcs s) \<and>
     cnt in_crit s = (if qs_locked s then 1 else 0) \<and>
     qs_write s + cnt will_push s + nat (q_msg_num (qs_queue s)) + cnt has_popped s = n \<and>
     qs_read s + cnt will_pop s + cnt has_pushed s = nat (q_msg_num (qs_queue s)) \<and>
     qs_pushed s = qs_popped s @ queue_contents (qs_queue s)"

lemma cnt_move:
  "i < length (qs_pcs s) \<Longrightarrow> qs_pcs s' = (qs_pcs s)[i := pc] \<Longrightarrow>
     cnt P s' + (if P (qs_pcs s ! i) then 1 else 0) = cnt P s + (if P pc then 1 else 0)"
  by (simp add: cnt_def count_update)

lemma cnt_moves:
  assumes "i < length (qs_pcs s)" and "qs_pcs s' = (qs_pcs s)[i := pc]"
  shows "cnt in_crit s' + (if in_crit (qs_pcs s ! i) then 1 else 0) = cnt in_crit s + (if in_crit pc then 1 else 0)"
    and "cnt will_push s' + (if will_push (qs_pcs s ! i) then 1 else 0) = cnt will_push s + (if will_push pc then 1 else 0)"
    and "cnt has_pushed s' + (if has_pushed (qs_pcs s ! i) then 1 else 0) = cnt has_pushed s + (if has_pushed pc then 1 else 0)"
    and "cnt will_pop s' + (if will_pop (qs_pcs s ! i) then 1 else 0) = cnt will_pop s + (if will_pop pc then 1 else 0)"
    and "cnt has_popped s' + (if has_popped (qs_pcs s ! i) then 1 else 0) = cnt has_popped s + (if has_popped pc then 1 else 0)"
    and "list_all ret_ok (qs_pcs s) \<Longrightarrow> ret_ok pc \<Longrightarrow> list_all ret_ok (qs_pcs s')"
  using cnt_move[OF assms, of in_crit] cnt_move[OF assms, of will_push]
    cnt_move[OF assms, of has_pushed] cnt_move[OF assms, of will_pop]
    cnt_move[OF assms, of has_popped] assms(2)
  by (auto simp: list_all_iff dest: set_update_subset_insert[THEN subsetD])

lemma cnt_pos: "i < length (qs_pcs s) \<Longrightarrow> P (qs_pcs s ! i) \<Longrightarrow> 0 < cnt P s"
  using filter_pos[of i "qs_pcs s" P] by (simp add: cnt_def)

lemma push_succeeds:
  assumes "qinv n s" and "i < length (qs_pcs s)" and "qs_pcs s ! i = QPushRaw d"
  obtains q where "raw_queue_pushdata (qs_queue s) d = Some (0, q)" "queue_ok n q"
    "queue_contents q = queue_contents (qs_queue s) @ [d]"
    "q_msg_num q = q_msg_num (qs_queue s) + 1"
proof -
  have "0 < cnt will_push s" using assms(2,3) by (auto intro: cnt_pos)
  then have "q_msg_num (qs_queue s) < int n" using assms(1) by (auto simp: qinv_def)
  then show thesis
    using raw_push_law[of n "qs_queue s" d] assms(1) that by (auto simp: qinv_def)
qed

lemma pop_succeeds:
  assumes "qinv n s" and "i < length (qs_pcs s)" and "qs_pcs s ! i = QPopRaw"
  obtains q x where "raw_queue_pop (qs_queue s) = Some (0, Some x, q)" "queue_ok n q"
    "queue_contents (qs_queue s) = x # queue_contents q"
    "q_msg_num q = q_msg_num (qs_queue s) - 1" "0 < q_msg_num (qs_queue s)"
proof -
  have "0 < cnt will_pop s" using assms(2,3) by (auto intro: cnt_pos)
  then have "0 < nat (q_msg_num (qs_queue s))" using assms(1) by (auto simp: qinv_def)
  then obtain x xs where "queue_contents (qs_queue s) = x # xs"
    by (metis length_queue_contents length_greater_0_conv list.exhaust)
  then show thesis
    using raw_pop_law[of n "qs_queue s"] assms(1) that \<open>0 < nat _\<close> by (auto simp: qinv_def)
qed


lemma ret_okD: "qinv n s \<Longrightarrow> i < length (qs_pcs s) \<Longrightarrow> ret_ok (qs_pcs s ! i)"
  by (simp add: qinv_def list_all_length)

lemma qinv_step:
  assumes "qstep s s'" and inv: "qinv n s"
  shows "qinv n s'"
  using assms(1)
proof cases
  case (PushPend i w d)
  then show ?thesis
    using inv cnt_moves[of i s s' "QPushLock d"] by (auto simp: qinv_def)
next
  case (PushLock i d)
  then show ?thesis
    using inv cnt_moves[of i s s' "QPushRaw d"] by (auto simp: qinv_def)
next
  case (PushRaw i d ret q)
  obtain q' where "raw_queue_pushdata (qs_queue s) d = Some (0, q')" "queue_ok n q'"
    "queue_contents q' = queue_contents (qs_queue s) @ [d]"
    "q_msg_num q' = q_msg_num (qs_queue s) + 1"
    using push_succeeds[OF inv PushRaw(2,3)] by blast
  moreover have "0 \<le> q_msg_num (qs_queue s)" using inv by (simp add: qinv_def queue_ok_def)
  ultimately show ?thesis
    using inv PushRaw cnt_moves[of i s s' "QPushUnlock ret"]
    by (auto simp: qinv_def nat_add_distrib split: if_splits)
next
  case (PushUnlock i ret)
  then show ?thesis
    using inv cnt_moves[of i s s' "if ret = 0 then QPushPost else QIdle"]
      ret_okD[OF inv PushUnlock(2)]
    by (auto simp: qinv_def split: if_splits)
next
  case (PushPost i)
  then show ?thesis
    using inv cnt_moves[of i s s' QIdle] by (auto simp: qinv_def)
next
  case (PopPend i r)
  then show ?thesis
    using inv cnt_moves[of i s s' QPopLock] by (auto simp: qinv_def)
next
  case (PopLock i)
  then show ?thesis
    using inv cnt_moves[of i s s' QPopRaw] by (auto simp: qinv_def)
next
  case (PopRaw i ret d q)
  obtain q' x where "raw_queue_pop (qs_queue s) = Some (0, Some x, q')" "queue_ok n q'"
    "queue_contents (qs_queue s) = x # queue_contents q'"
    "q_msg_num q' = q_msg_num (qs_queue s) - 1" "0 < q_msg_num (qs_queue s)"
    using pop_succeeds[OF inv PopRaw(2,3)] by blast
  moreover from this have "nat (q_msg_num (qs_queue s)) = Suc (nat (q_msg_num q'))" by simp
  ultimately show ?thesis
    using inv PopRaw cnt_moves[of i s s' "QPopUnlock ret"]
    by (auto simp: qinv_def split: if_splits)
next
  case (PopUnlock i ret)
  then show ?thesis
    using inv cnt_moves[of i s s' "if ret = 0 then QPopPost else QIdle"]
      ret_okD[OF inv PopUnlock(2)]
    by (auto simp: qinv_def split: if_splits)
next
  case (PopPost i)
  then show ?thesis
    using inv cnt_moves[of i s s' QIdle] by (auto simp: qinv_def)
qed

lemma qinv_init:
  "queue_ok n q \<Longrightarrow> q_msg_num q = 0 \<Longrightarrow> qinv n (qs_init n k q)"
  by (simp add: qinv_def qs_init_def cnt_def list_all_iff queue_contents_def)

lemma reachable_qinv:
  "reachable n k q s \<Longrightarrow> queue_ok n q \<Longrightarrow> q_msg_num q = 0 \<Longrightarrow> qinv n s \<and> length (qs_pcs s) = k"
proof (induction rule: reachable.induct)
  case start
  then show ?case by (simp add: qinv_init) (simp add: qs_init_def)
next
  case (step s s')
  have "length (qs_pcs s') = length (qs_pcs s)" using step.hyps(2) by (cases rule: qstepE) auto
  then show ?case using step qinv_step by auto
qed

section \<open>Properties\<close>

text \<open>C1. Safety of the synchronised queue under every interleaving of any number of threads. In
  every reachable state at most one thread is inside the critical section; a thread that
  passed the wait of \<^verbatim>\<open>queue_push\<close> finds a free place and its push returns 0, and one that
  passed the wait of \<^verbatim>\<open>queue_pop\<close> finds a message; the queue stays within its bound; and the
  messages delivered are, in order, a prefix of the messages accepted, the rest being
  still stored.\<close>

theorem queue_conc_safe:
  assumes "reachable n k q0 s" and "queue_ok n q0" and "q_msg_num q0 = 0"
  shows "queue_ok n (qs_queue s) \<and>
    qs_pushed s = qs_popped s @ queue_contents (qs_queue s) \<and>
    (\<forall>i j. i < k \<longrightarrow> j < k \<longrightarrow> in_crit (qs_pcs s ! i) \<longrightarrow> in_crit (qs_pcs s ! j) \<longrightarrow> i = j) \<and>
    (\<forall>i d. i < k \<longrightarrow> qs_pcs s ! i = QPushRaw d \<longrightarrow>
       (\<exists>q. raw_queue_pushdata (qs_queue s) d = Some (0, q))) \<and>
    (\<forall>i. i < k \<longrightarrow> qs_pcs s ! i = QPopRaw \<longrightarrow>
       (\<exists>d q. raw_queue_pop (qs_queue s) = Some (0, Some d, q)))"
proof -
  have inv: "qinv n s" and k: "length (qs_pcs s) = k"
    using reachable_qinv[OF assms] by auto
  have "cnt in_crit s \<le> 1" using inv by (auto simp: qinv_def)
  then have "i = j" if "i < k" "j < k" "in_crit (qs_pcs s ! i)" "in_crit (qs_pcs s ! j)" for i j
    using filter_le_1_unique[of in_crit "qs_pcs s" i j] that k by (simp add: cnt_def)
  moreover have "\<exists>q. raw_queue_pushdata (qs_queue s) d = Some (0, q)"
    if "i < k" "qs_pcs s ! i = QPushRaw d" for i d
    using push_succeeds[OF inv, of i d] that k by blast
  moreover have "\<exists>d q. raw_queue_pop (qs_queue s) = Some (0, Some d, q)"
    if "i < k" "qs_pcs s ! i = QPopRaw" for i
    using pop_succeeds[OF inv, of i] that k by blast
  ultimately show ?thesis using inv by (auto simp: qinv_def)
qed

definition one_slot :: queue_t where
  "one_slot = \<lparr>q_addr = 0, q_name = None, q_msg_buflen = 1, q_msg_buf = [0], q_cur_write = 0,
     q_cur_read = 0, q_msg_num = 0, q_sync_mode = 1, q_sync_read = 1, q_sync_write = 2, q_lock = 3\<rparr>"

lemma one_slot_ok: "queue_ok 1 one_slot" "q_msg_num one_slot = 0"
  by (simp_all add: one_slot_def queue_ok_def)

lemma queue_conc_safe_witness:
  "\<exists>s. reachable 1 2 one_slot s \<and> qs_pcs s ! 0 = QPushRaw 9 \<and>
     (\<exists>q. raw_queue_pushdata (qs_queue s) 9 = Some (0, q))"
proof -
  let ?s1 = "(qs_init 1 2 one_slot)\<lparr>qs_write := 0, qs_pcs := [QIdle, QIdle][0 := QPushLock 9]\<rparr>"
  let ?s2 = "?s1\<lparr>qs_locked := True, qs_pcs := (qs_pcs ?s1)[0 := QPushRaw 9]\<rparr>"
  have "qstep (qs_init 1 2 one_slot) ?s1"
    using qstep.PushPend[of 0 "qs_init 1 2 one_slot" 0 9]
    by (simp add: qs_init_def eval_nat_numeral)
  moreover have "qstep ?s1 ?s2" by (rule qstep.PushLock[of _ _ 9]) (simp_all add: qs_init_def)
  ultimately have "reachable 1 2 one_slot ?s2" by (blast intro: reachable.intros)
  then show ?thesis using queue_conc_safe[OF _ one_slot_ok, of 2 ?s2] by fastforce
qed

text \<open>C31. No deadlock: in every reachable state in which some thread is in the middle of a call, some
  thread can take a step; so a push or pop that passed its wait is never blocked for good
  by the others.\<close>

theorem queue_conc_progress:
  assumes "reachable n k q0 s" and "queue_ok n q0" and "q_msg_num q0 = 0"
    and "i < k" and "qs_pcs s ! i \<noteq> QIdle"
  shows "\<exists>s'. qstep s s'"
proof -
  have inv: "qinv n s" and k: "length (qs_pcs s) = k"
    using reachable_qinv[OF assms(1-3)] by auto
  have crit: "\<exists>s'. qstep s s'" if "j < k" "in_crit (qs_pcs s ! j)" for j
  proof (cases "qs_pcs s ! j")
    case (QPushRaw d)
    then show ?thesis using push_succeeds[OF inv, of j d] that k by (metis qstep.PushRaw)
  next
    case (QPushUnlock r)
    then show ?thesis using that k by (metis qstep.PushUnlock)
  next
    case QPopRaw
    then show ?thesis using pop_succeeds[OF inv, of j] that k by (metis qstep.PopRaw)
  next
    case (QPopUnlock r)
    then show ?thesis using that k by (metis qstep.PopUnlock)
  qed (use that in simp_all)
  show ?thesis
  proof (cases "qs_locked s")
    case True
    then have "filter in_crit (qs_pcs s) \<noteq> []" using inv by (auto simp: qinv_def cnt_def)
    then obtain pc where "pc \<in> set (qs_pcs s)" "in_crit pc" by (auto simp: filter_empty_conv)
    then show ?thesis using crit k by (metis in_set_conv_nth)
  next
    case False
    show ?thesis
    proof (cases "in_crit (qs_pcs s ! i)")
      case True
      then show ?thesis using crit assms(4) by blast
    next
      case nc: False
      show ?thesis
      proof (cases "qs_pcs s ! i")
        case (QPushLock d)
        then show ?thesis using False assms(4) k by (metis qstep.PushLock)
      next
        case QPushPost
        then show ?thesis using assms(4) k by (metis qstep.PushPost)
      next
        case QPopLock
        then show ?thesis using False assms(4) k by (metis qstep.PopLock)
      next
        case QPopPost
        then show ?thesis using assms(4) k by (metis qstep.PopPost)
      qed (use assms(5) nc in simp_all)
    qed
  qed
qed

lemma queue_conc_progress_witness:
  "\<exists>s'. qstep ((qs_init 1 2 one_slot)\<lparr>qs_write := 0, qs_pcs := [QPushLock 9, QIdle]\<rparr>) s'"
proof (rule queue_conc_progress[OF _ one_slot_ok, of 2 _ 0])
  show "reachable 1 2 one_slot ((qs_init 1 2 one_slot)\<lparr>qs_write := 0, qs_pcs := [QPushLock 9, QIdle]\<rparr>)"
    using reachable.step[OF reachable.start[of 1 2 one_slot]]
      qstep.PushPend[of 0 "qs_init 1 2 one_slot" 0 9]
    by (simp add: qs_init_def eval_nat_numeral)
qed simp_all

end
