(* ===== verification/MqttPacket.thy ===== *)
theory MqttPacket
  imports Prelude
begin

text \<open>
  The packet codec of the small MQTT client, \<^verbatim>\<open>mqtt_sinn/mqtt_packet.c\<close>. A pointer into a
  buffer is the array with an offset. A C string is its bytes without the terminator, a
  \<^verbatim>\<open>NULL\<close> string is \<open>None\<close>; taking the length of \<^verbatim>\<open>NULL\<close> is undefined, the value \<open>None\<close> of the
  model, as is every access outside the array. The encoders take \<^verbatim>\<open>buf_len\<close>, and only the one
  of CONNECT looks at it.

  Each encoder is proved to be a single store of the packet's wire format, so it succeeds
  exactly when the packet fits in what is left of the array.
\<close>

section \<open>Data\<close>

abbreviation "MQTT_PACKET_LEN_MASK \<equiv> 128 :: int"

datatype mqtt_packet_type =
    RESERVED | CONNECT | CONNACK | PUBLISH | PUBACK | PUBREC | PUBREL | PUBCOMP
  | SUBSCRIBE | SUBACK | UNSUBSCRIBE | UNSUBACK | PINGREQ | PINGRESP | DISCONNECT | TYPE_MAX

fun type_code :: "mqtt_packet_type \<Rightarrow> u8" where
  "type_code RESERVED = 0" | "type_code CONNECT = 1" | "type_code CONNACK = 2"
| "type_code PUBLISH = 3" | "type_code PUBACK = 4" | "type_code PUBREC = 5"
| "type_code PUBREL = 6" | "type_code PUBCOMP = 7" | "type_code SUBSCRIBE = 8"
| "type_code SUBACK = 9" | "type_code UNSUBSCRIBE = 10" | "type_code UNSUBACK = 11"
| "type_code PINGREQ = 12" | "type_code PINGRESP = 13" | "type_code DISCONNECT = 14"
| "type_code TYPE_MAX = 15"

text \<open>The bytes of the union \<^verbatim>\<open>mqtt_connect_flag_u\<close>: its bit fields are read by the functions below.\<close>

record mqtt_connect_head_t =
  proto_len :: bytes
  proto_name :: bytes
  proto_level :: u8
  connect_flag :: u8
  keep_alive :: u16

definition clean_session_of :: "u8 \<Rightarrow> bool" where "clean_session_of f = bit f 1"
definition will_flag_of :: "u8 \<Rightarrow> bool" where "will_flag_of f = bit f 2"
definition psd_flag_of :: "u8 \<Rightarrow> bool" where "psd_flag_of f = bit f 6"
definition user_name_flag_of :: "u8 \<Rightarrow> bool" where "user_name_flag_of f = bit f 7"

record mqtt_connect_opt_t = mqtt_connect_head_t +
  client_id :: "bytes option"
  will_topic :: "bytes option"
  will_msg :: "bytes option"
  user_name :: "bytes option"
  password :: "bytes option"

record mqtt_publish_opt_t =
  po_topic :: "bytes option"
  po_packet_id :: u16
  po_msg :: "bytes option"
  po_dup :: u8
  po_qos :: u8
  po_retain :: u8

text \<open>What \<^verbatim>\<open>mqtt_decode_publish\<close> stores in the same struct: topic and message point into the buffer.\<close>

record mqtt_publish_in =
  pi_topic :: nat
  pi_topic_len :: u16
  pi_packet_id :: u16
  pi_msg :: nat
  pi_msg_len :: u64
  pi_dup :: u8
  pi_qos :: u8
  pi_retain :: u8

record mqtt_subscribe_opt_t =
  so_packet_id :: u16
  so_count :: u8
  so_topic :: "bytes option list"
  so_qoss :: bytes

record mqtt_unsubscribe_opt_t =
  uo_packet_id :: u16
  uo_count :: u8
  uo_topic :: "bytes option list"

record mqtt_suback_opt_t =
  sa_count :: u8
  sa_packet_id :: u16
  sa_ret_code :: bytes

record mqtt_puback_opt_t =
  pa_type :: u8
  pa_packet_id :: u16

section \<open>Lengths, numbers, strings\<close>

text \<open>The \<^verbatim>\<open>do .. while\<close> loop of \<^verbatim>\<open>mqtt_encode_len\<close>; \<open>>>=\<close> on a C int is \<open>drop_bit\<close>.\<close>

function mqtt_encode_len_loop :: "bytes \<Rightarrow> nat \<Rightarrow> nat \<Rightarrow> int \<Rightarrow> (int \<times> bytes) option" where
  "mqtt_encode_len_loop buf off rc len =
     (let d = word_of_int (len AND (MQTT_PACKET_LEN_MASK - 1)); len' = drop_bit 7 len in
      do { buf \<leftarrow> put (off + rc) [if len' > 0 then d OR 0x80 else d] buf;
           if len' > 0 then mqtt_encode_len_loop buf off (rc + 1) len'
           else Some (int (rc + 1), buf) })"
  by pat_completeness auto
termination by (relation "measure (\<lambda>(_, _, _, len). nat len)") (auto simp: drop_bit_eq_div)

definition mqtt_encode_len :: "bytes \<Rightarrow> nat \<Rightarrow> int \<Rightarrow> (int \<times> bytes) option" where
  "mqtt_encode_len buf off len = mqtt_encode_len_loop buf off 0 len"

text \<open>In every pass \<^verbatim>\<open>mul\<close> is 128 to the number of bytes read so far.\<close>

function mqtt_decode_len_loop :: "bytes \<Rightarrow> nat \<Rightarrow> nat \<Rightarrow> int \<Rightarrow> (int \<times> int) option" where
  "mqtt_decode_len_loop buf off rc len =
     (let mul = (128 :: int) ^ rc in
      do { b \<leftarrow> byte_at buf (off + rc);
           part \<leftarrow> c_int (uint (b AND NOT 0x80) * mul);
           len \<leftarrow> c_int (len + part);
           if mul > MQTT_PACKET_LEN_MASK * MQTT_PACKET_LEN_MASK * MQTT_PACKET_LEN_MASK
           then Some (-1, len)
           else if b AND 0x80 \<noteq> 0 then mqtt_decode_len_loop buf off (rc + 1) len
           else Some (int (rc + 1), len) })"
  by pat_completeness auto
termination
proof (relation "measure (\<lambda>(_, _, rc, _). 4 - rc)", goal_cases)
  case (2 buf off rc len mul b part len')
  have "rc < 4"
  proof (rule ccontr)
    assume "\<not> rc < 4"
    then have "(128 :: int) ^ 4 \<le> 128 ^ rc" by (intro power_increasing) auto
    then show False using 2 by simp
  qed
  then show ?case by simp
qed simp

definition mqtt_decode_len :: "bytes \<Rightarrow> nat \<Rightarrow> (int \<times> int) option" where
  "mqtt_decode_len buf off = mqtt_decode_len_loop buf off 0 0"

declare mqtt_encode_len_loop.simps [simp del] mqtt_decode_len_loop.simps [simp del]

definition num_bytes :: "u16 \<Rightarrow> bytes" where
  "num_bytes num = [ucast (drop_bit 8 num), ucast (num AND 0xFF)]"

definition mqtt_encode_num :: "bytes \<Rightarrow> nat \<Rightarrow> u16 \<Rightarrow> (nat \<times> bytes) option" where
  "mqtt_encode_num buf off num = map_option (Pair 2) (put off (num_bytes num) buf)"

definition mqtt_decode_num :: "bytes \<Rightarrow> nat \<Rightarrow> (nat \<times> u16) option" where
  "mqtt_decode_num buf off =
     do { h \<leftarrow> byte_at buf off; l \<leftarrow> byte_at buf (off + 1);
          Some (2, push_bit 8 (ucast h) + ucast l) }"

definition mqtt_encode_string :: "bytes \<Rightarrow> nat \<Rightarrow> bytes option \<Rightarrow> (nat \<times> bytes) option" where
  "mqtt_encode_string buf off str =
     do { str \<leftarrow> str;
          (len, buf) \<leftarrow> mqtt_encode_num buf off (of_nat (length str));
          buf \<leftarrow> put (off + len) str buf;
          Some (len + length str, buf) }"

text \<open>The consumed length, where the string starts, its length.\<close>

definition mqtt_decode_string :: "bytes \<Rightarrow> nat \<Rightarrow> (nat \<times> nat \<times> u16) option" where
  "mqtt_decode_string buf off =
     do { (len, num) \<leftarrow> mqtt_decode_num buf off; Some (len + unat num, off + len, num) }"

section \<open>Fixed header\<close>

definition first_byte :: "u8 \<Rightarrow> u8 \<Rightarrow> u8 \<Rightarrow> u8 \<Rightarrow> u8" where
  "first_byte type dup qos retain =
     (retain AND 1) OR push_bit 1 (qos AND 3) OR push_bit 3 (dup AND 1) OR push_bit 4 (type AND 15)"

definition mqtt_encode_fixhead ::
  "bytes \<Rightarrow> nat \<Rightarrow> u8 \<Rightarrow> u8 \<Rightarrow> u8 \<Rightarrow> u8 \<Rightarrow> int \<Rightarrow> (int \<times> bytes) option" where
  "mqtt_encode_fixhead buf off type dup qos retain remaining_len =
     do { buf \<leftarrow> put off [first_byte type dup qos retain] buf;
          (n, buf) \<leftarrow> mqtt_encode_len buf (off + 1) remaining_len;
          Some (1 + n, buf) }"

record mqtt_fixhead =
  fh_len :: int
  fh_type :: u8
  fh_dup :: u8
  fh_qos :: u8
  fh_retain :: u8
  fh_remaining :: int

definition mqtt_decode_fixhead :: "bytes \<Rightarrow> nat \<Rightarrow> mqtt_fixhead option" where
  "mqtt_decode_fixhead buf off =
     do { b \<leftarrow> byte_at buf off;
          (n, rem) \<leftarrow> mqtt_decode_len buf (off + 1);
          Some \<lparr>fh_len = 1 + n, fh_type = drop_bit 4 b, fh_dup = drop_bit 3 b AND 1,
                fh_qos = drop_bit 1 b AND 3, fh_retain = b AND 1, fh_remaining = rem\<rparr> }"


section \<open>CONNECT\<close>

abbreviation "MQTT_STRING_LEN \<equiv> 2 :: int"
abbreviation "MQTT_QOS_LEN \<equiv> 1 :: int"

definition c_strlen :: "bytes option \<Rightarrow> int option" where
  "c_strlen s = map_option (\<lambda>cs. int (length cs)) s"

definition has_will :: "mqtt_connect_opt_t \<Rightarrow> bool" where
  "has_will op \<longleftrightarrow> will_flag_of (connect_flag op) \<and> will_topic op \<noteq> None \<and> will_msg op \<noteq> None"

definition has_user :: "mqtt_connect_opt_t \<Rightarrow> bool" where
  "has_user op \<longleftrightarrow> user_name_flag_of (connect_flag op) \<and> user_name op \<noteq> None"

definition has_password :: "mqtt_connect_opt_t \<Rightarrow> bool" where
  "has_password op \<longleftrightarrow> psd_flag_of (connect_flag op) \<and> password op \<noteq> None"

text \<open>The first eight bytes of the struct, as \<^verbatim>\<open>memcpy\<close> copies them.\<close>

definition connect_head_bytes :: "mqtt_connect_opt_t \<Rightarrow> bytes" where
  "connect_head_bytes op = proto_len op @ proto_name op @ [proto_level op, connect_flag op]"

definition mqtt_encode_connect ::
  "bytes \<Rightarrow> nat \<Rightarrow> int \<Rightarrow> mqtt_connect_opt_t \<Rightarrow> (int \<times> bytes) option" where
  "mqtt_encode_connect buf off buf_len op =
     do { id_len \<leftarrow> c_strlen (client_id op);
          let remaining_len = 10 + (id_len + MQTT_STRING_LEN);
          remaining_len \<leftarrow>
            (if has_will op
             then do { t \<leftarrow> c_strlen (will_topic op); m \<leftarrow> c_strlen (will_msg op);
                       Some (remaining_len + (t + MQTT_STRING_LEN) + (m + MQTT_STRING_LEN)) }
             else Some remaining_len);
          remaining_len \<leftarrow>
            (if has_user op
             then do { u \<leftarrow> c_strlen (user_name op); Some (remaining_len + (u + MQTT_STRING_LEN)) }
             else Some remaining_len);
          remaining_len \<leftarrow>
            (if has_password op
             then do { w \<leftarrow> c_strlen (password op); Some (remaining_len + (w + MQTT_STRING_LEN)) }
             else Some remaining_len);
          (len, buf) \<leftarrow> mqtt_encode_fixhead buf off (type_code CONNECT) 0 0 0 remaining_len;
          if len + remaining_len > buf_len then Some (-1, buf)
          else do {
            let vhead = off + nat len;
            buf \<leftarrow> put vhead (connect_head_bytes op) buf;
            (_, buf) \<leftarrow> mqtt_encode_num buf (vhead + 8) (keep_alive op);
            let payload = vhead + 10;
            (n, buf) \<leftarrow> mqtt_encode_string buf payload (client_id op);
            let payload = payload + n;
            (payload, buf) \<leftarrow>
              (if has_will op
               then do { (n, buf) \<leftarrow> mqtt_encode_string buf payload (will_topic op);
                         let payload = payload + n;
                         (n, buf) \<leftarrow> mqtt_encode_string buf payload (will_msg op);
                         Some (payload + n, buf) }
               else Some (payload, buf));
            (payload, buf) \<leftarrow>
              (if has_user op
               then do { (n, buf) \<leftarrow> mqtt_encode_string buf payload (user_name op);
                         Some (payload + n, buf) }
               else Some (payload, buf));
            (payload, buf) \<leftarrow>
              (if has_password op
               then do { (n, buf) \<leftarrow> mqtt_encode_string buf payload (password op);
                         Some (payload + n, buf) }
               else Some (payload, buf));
            Some (len + remaining_len, buf) } }"

section \<open>PUBLISH\<close>

definition mqtt_encode_publish ::
  "bytes \<Rightarrow> nat \<Rightarrow> int \<Rightarrow> mqtt_publish_opt_t \<Rightarrow> (int \<times> bytes) option" where
  "mqtt_encode_publish buf off buf_len op =
     do { let topic_len = (case po_topic op of None \<Rightarrow> 0 | Some t \<Rightarrow> int (length t) + MQTT_STRING_LEN);
          let msg_len = (case po_msg op of None \<Rightarrow> 0 | Some m \<Rightarrow> int (length m));
          let remaining_len = topic_len + 2 + msg_len;
          (len, buf) \<leftarrow> mqtt_encode_fixhead buf off (type_code PUBLISH) (po_dup op) (po_qos op)
                          (po_retain op) remaining_len;
          let vhead = off + nat len;
          (n, buf) \<leftarrow> mqtt_encode_string buf vhead (po_topic op);
          let vhead = vhead + n;
          (vhead, buf) \<leftarrow>
            (if po_qos op > 0
             then do { (n, buf) \<leftarrow> mqtt_encode_num buf vhead (po_packet_id op); Some (vhead + n, buf) }
             else Some (vhead, buf));
          buf \<leftarrow> (case po_msg op of None \<Rightarrow> Some buf | Some m \<Rightarrow> put vhead m buf);
          Some (len + remaining_len, buf) }"

definition mqtt_decode_publish ::
  "bytes \<Rightarrow> nat \<Rightarrow> int \<Rightarrow> mqtt_publish_in \<Rightarrow> (int \<times> mqtt_publish_in) option" where
  "mqtt_decode_publish buf off buf_len op =
     do { h \<leftarrow> mqtt_decode_fixhead buf off;
          let op = op\<lparr>pi_dup := fh_dup h, pi_qos := fh_qos h, pi_retain := fh_retain h\<rparr>;
          if fh_type h \<noteq> type_code PUBLISH then Some (-1, op)
          else do {
            let vhead = off + nat (fh_len h);
            (n, topic, topic_len) \<leftarrow> mqtt_decode_string buf vhead;
            let vhead = vhead + n;
            let op = op\<lparr>pi_topic := topic, pi_topic_len := topic_len\<rparr>;
            (vhead, op) \<leftarrow>
              (if pi_qos op > 0
               then do { (n, id) \<leftarrow> mqtt_decode_num buf vhead;
                         Some (vhead + n, op\<lparr>pi_packet_id := id\<rparr>) }
               else Some (vhead, op));
            Some (0, op\<lparr>pi_msg := vhead,
                        pi_msg_len := word_of_int (fh_remaining h - uint topic_len - MQTT_STRING_LEN)\<rparr>) } }"

section \<open>SUBSCRIBE, UNSUBSCRIBE, acknowledgements, PINGREQ, DISCONNECT\<close>

text \<open>The two loops of \<^verbatim>\<open>mqtt_encode_subscribe\<close>; the arrays have \<^verbatim>\<open>count\<close> used entries.\<close>

fun subscribe_len :: "bytes option list \<Rightarrow> int option" where
  "subscribe_len [] = Some 0"
| "subscribe_len (t # ts) =
     do { n \<leftarrow> c_strlen t; rest \<leftarrow> subscribe_len ts; Some (MQTT_STRING_LEN + MQTT_QOS_LEN + n + rest) }"

fun subscribe_payload ::
  "bytes \<Rightarrow> nat \<Rightarrow> (bytes option \<times> u8) list \<Rightarrow> bytes option" where
  "subscribe_payload buf payload [] = Some buf"
| "subscribe_payload buf payload ((t, q) # ts) =
     do { (n, buf) \<leftarrow> mqtt_encode_string buf payload t;
          buf \<leftarrow> put (payload + n) [q] buf;
          subscribe_payload buf (payload + n + 1) ts }"

definition mqtt_encode_subscribe ::
  "bytes \<Rightarrow> nat \<Rightarrow> int \<Rightarrow> mqtt_subscribe_opt_t \<Rightarrow> (int \<times> bytes) option" where
  "mqtt_encode_subscribe buf off buf_len op =
     do { topics \<leftarrow> fetch 0 (unat (so_count op)) (so_topic op);
          n \<leftarrow> subscribe_len topics;
          let remaining_len = 2 + n;
          (len, buf) \<leftarrow> mqtt_encode_fixhead buf off (type_code SUBSCRIBE) 0 1 0 remaining_len;
          let vhead = off + nat len;
          (n, buf) \<leftarrow> mqtt_encode_num buf vhead (so_packet_id op);
          qoss \<leftarrow> fetch 0 (unat (so_count op)) (so_qoss op);
          buf \<leftarrow> subscribe_payload buf (vhead + n) (zip topics qoss);
          Some (len + remaining_len, buf) }"

text \<open>\<open>os\<close> is the allocation oracle of \<^verbatim>\<open>malloc\<close>, whose result is not checked.\<close>

definition mqtt_decode_suback ::
  "bool list \<Rightarrow> bytes \<Rightarrow> nat \<Rightarrow> int \<Rightarrow> mqtt_suback_opt_t \<Rightarrow> (int \<times> mqtt_suback_opt_t \<times> bool list) option"
where
  "mqtt_decode_suback os buf off buf_len op =
     do { h \<leftarrow> mqtt_decode_fixhead buf off;
          if fh_type h \<noteq> type_code SUBACK then Some (-1, op, os)
          else do {
            let vhead = off + nat (fh_len h);
            (n, id) \<leftarrow> mqtt_decode_num buf vhead;
            let count = (word_of_int (fh_remaining h - 2) :: u8);
            let (ok, os) = alloc os;
            if count = 0 then Some (0, op\<lparr>sa_packet_id := id, sa_count := count, sa_ret_code := []\<rparr>, os)
            else if \<not> ok then None
            else do { codes \<leftarrow> fetch (vhead + n) (unat count) buf;
                      Some (0, op\<lparr>sa_packet_id := id, sa_count := count, sa_ret_code := codes\<rparr>, os) } } }"

definition mqtt_encode_puback ::
  "bytes \<Rightarrow> nat \<Rightarrow> int \<Rightarrow> mqtt_puback_opt_t \<Rightarrow> (int \<times> bytes) option" where
  "mqtt_encode_puback buf off buf_len op =
     do { let remaining_len = 2;
          (len, buf) \<leftarrow> mqtt_encode_fixhead buf off (pa_type op) 0
                          (if pa_type op = type_code PUBREL then 1 else 0) 0 remaining_len;
          (n, buf) \<leftarrow> mqtt_encode_num buf (off + nat len) (pa_packet_id op);
          Some (len + remaining_len, buf) }"

definition mqtt_decode_puback ::
  "bytes \<Rightarrow> nat \<Rightarrow> int \<Rightarrow> mqtt_puback_opt_t \<Rightarrow> u8 \<Rightarrow> (int \<times> mqtt_puback_opt_t) option" where
  "mqtt_decode_puback buf off buf_len op mqtt_type =
     do { h \<leftarrow> mqtt_decode_fixhead buf off;
          if fh_type h \<noteq> mqtt_type then Some (-1, op)
          else do { (n, id) \<leftarrow> mqtt_decode_num buf (off + nat (fh_len h));
                    Some (0, op\<lparr>pa_packet_id := id\<rparr>) } }"

fun unsubscribe_len :: "bytes option list \<Rightarrow> int option" where
  "unsubscribe_len [] = Some 0"
| "unsubscribe_len (t # ts) =
     do { n \<leftarrow> c_strlen t; rest \<leftarrow> unsubscribe_len ts; Some (MQTT_STRING_LEN + n + rest) }"

fun unsubscribe_payload :: "bytes \<Rightarrow> nat \<Rightarrow> bytes option list \<Rightarrow> bytes option" where
  "unsubscribe_payload buf payload [] = Some buf"
| "unsubscribe_payload buf payload (t # ts) =
     do { (n, buf) \<leftarrow> mqtt_encode_string buf payload t;
          unsubscribe_payload buf (payload + n) ts }"

definition mqtt_encode_unsubscribe ::
  "bytes \<Rightarrow> nat \<Rightarrow> int \<Rightarrow> mqtt_unsubscribe_opt_t \<Rightarrow> (int \<times> bytes) option" where
  "mqtt_encode_unsubscribe buf off buf_len op =
     do { topics \<leftarrow> fetch 0 (unat (uo_count op)) (uo_topic op);
          n \<leftarrow> unsubscribe_len topics;
          let remaining_len = 2 + n;
          (len, buf) \<leftarrow> mqtt_encode_fixhead buf off (type_code UNSUBSCRIBE) 0 1 0 remaining_len;
          let vhead = off + nat len;
          (n, buf) \<leftarrow> mqtt_encode_num buf vhead (uo_packet_id op);
          buf \<leftarrow> unsubscribe_payload buf (vhead + n) topics;
          Some (len + remaining_len, buf) }"

definition mqtt_encode_ping :: "bytes \<Rightarrow> nat \<Rightarrow> int \<Rightarrow> (int \<times> bytes) option" where
  "mqtt_encode_ping buf off buf_len = mqtt_encode_fixhead buf off (type_code PINGREQ) 0 0 0 0"

definition mqtt_encode_disconnect :: "bytes \<Rightarrow> nat \<Rightarrow> int \<Rightarrow> (int \<times> bytes) option" where
  "mqtt_encode_disconnect buf off buf_len = mqtt_encode_fixhead buf off (type_code DISCONNECT) 0 0 0 0"

section \<open>The wire format\<close>

fun len_wire :: "nat \<Rightarrow> bytes" where
  "len_wire n = (if n < 128 then [of_nat n] else of_nat (n mod 128 + 128) # len_wire (n div 128))"

declare len_wire.simps [simp del]

definition str_wire :: "bytes \<Rightarrow> bytes" where
  "str_wire s = num_bytes (of_nat (length s)) @ s"

definition fixhead_wire :: "u8 \<Rightarrow> u8 \<Rightarrow> u8 \<Rightarrow> u8 \<Rightarrow> nat \<Rightarrow> bytes" where
  "fixhead_wire type dup qos retain n = first_byte type dup qos retain # len_wire n"

lemma length_num_bytes [simp]: "length (num_bytes w) = 2"
  by (simp add: num_bytes_def)

lemma length_str_wire [simp]: "length (str_wire s) = length s + 2"
  by (simp add: str_wire_def)

lemma low7: "word_of_int (int n AND 127) = (of_nat (n mod 128) :: u8)"
proof -
  have "int n AND 127 = int (n mod 128)"
    using take_bit_eq_mask[of 7 "int n"] take_bit_eq_mod[of 7 "int n"]
    by (simp add: mask_eq_exp_minus_1 zmod_int)
  then show ?thesis by simp
qed

lemma or_128: "n < 128 \<Longrightarrow> (of_nat n :: u8) OR 0x80 = of_nat (n + 128)"
proof -
  assume "n < 128"
  then have "n \<in> set [0..<128]" by simp
  moreover have "list_all (\<lambda>k. (of_nat k :: u8) OR 0x80 = of_nat (k + 128)) [0..<128]"
    by code_simp
  ultimately show ?thesis by (simp only: list_all_iff)
qed

lemma encode_len_put:
  "mqtt_encode_len_loop buf off rc (int n) =
     map_option (Pair (int (rc + length (len_wire n)))) (put (off + rc) (len_wire n) buf)"
proof (induction n arbitrary: buf rc rule: less_induct)
  case (less n)
  have d: "drop_bit 7 (int n) = int (n div 128)" by (simp add: drop_bit_eq_div zdiv_int)
  show ?case
  proof (cases "n < 128")
    case True
    then show ?thesis
      by (subst mqtt_encode_len_loop.simps, subst (1 2) len_wire.simps)
        (auto simp: d low7 Let_def map_option_case split: option.splits)
  next
    case False
    then have pos: "0 < n div 128" "n div 128 < n" by (auto simp: div_greater_zero_iff)
    let ?d = "of_nat (n mod 128 + 128) :: u8"
    have "mqtt_encode_len_loop buf off rc (int n) =
        Option.bind (put (off + rc) [?d] buf) (\<lambda>b. mqtt_encode_len_loop b off (rc + 1) (int (n div 128)))"
      using pos by (subst mqtt_encode_len_loop.simps) (simp add: d low7 or_128 Let_def)
    also have "\<dots> = Option.bind (put (off + rc) [?d] buf) (\<lambda>b.
        Option.bind (put (off + rc + length [?d]) (len_wire (n div 128)) b)
          (\<lambda>b. Some (int (rc + 1 + length (len_wire (n div 128))), b)))"
      by (rule arg_cong[where f = "Option.bind _"])
        (simp add: less.IH[OF pos(2)] map_option_case fun_eq_iff split: option.splits)
    also have "\<dots> = Option.bind (put (off + rc) ([?d] @ len_wire (n div 128)) buf)
        (\<lambda>b. Some (int (rc + 1 + length (len_wire (n div 128))), b))"
      by (rule put_put_then)
    finally show ?thesis using False
      by (subst (1 2) len_wire.simps) (auto simp: map_option_case split: option.splits)
  qed
qed

lemma encode_fixhead_put:
  "mqtt_encode_fixhead buf off type dup qos retain (int n) =
     map_option (Pair (int (length (fixhead_wire type dup qos retain n))))
       (put off (fixhead_wire type dup qos retain n) buf)"
proof -
  let ?b = "first_byte type dup qos retain"
  have "mqtt_encode_fixhead buf off type dup qos retain (int n) =
      Option.bind (put off [?b] buf) (\<lambda>b. Option.bind (put (off + length [?b]) (len_wire n) b)
        (\<lambda>b. Some (1 + int (length (len_wire n)), b)))"
    by (auto simp: mqtt_encode_fixhead_def mqtt_encode_len_def encode_len_put bind_eq_Some_conv
        map_option_case split: option.splits Option.bind_splits)
  also have "\<dots> = Option.bind (put off ([?b] @ len_wire n) buf)
      (\<lambda>b. Some (1 + int (length (len_wire n)), b))"
    by (rule put_put_then)
  finally show ?thesis
    by (auto simp: fixhead_wire_def map_option_case split: option.splits)
qed


text \<open>The pieces of an encoder as stores, and adjacent stores as one.\<close>

lemma encode_num_bind [mem_simps]:
  "Option.bind (mqtt_encode_num buf off w) f = Option.bind (put off (num_bytes w) buf) (\<lambda>b. f (2, b))"
  by (simp add: mqtt_encode_num_def map_option_case split: option.splits)

lemma encode_string_bind [mem_simps]:
  "Option.bind (mqtt_encode_string buf off (Some s)) f =
     Option.bind (put off (str_wire s) buf) (\<lambda>b. f (length s + 2, b))"
proof -
  have "Option.bind (mqtt_encode_string buf off (Some s)) f =
      Option.bind (put off (num_bytes (of_nat (length s))) buf) (\<lambda>b.
        Option.bind (put (off + length (num_bytes (of_nat (length s)))) s b) (\<lambda>b. f (length s + 2, b)))"
    by (simp add: mqtt_encode_string_def encode_num_bind)
  also have "\<dots> = Option.bind (put off (str_wire s) buf) (\<lambda>b. f (length s + 2, b))"
    unfolding str_wire_def by (rule put_put_then)
  finally show ?thesis .
qed

lemma encode_fixhead_bind [mem_simps]:
  "Option.bind (mqtt_encode_fixhead buf off type dup qos retain (int n)) f =
     Option.bind (put off (fixhead_wire type dup qos retain n) buf)
       (\<lambda>b. f (int (length (fixhead_wire type dup qos retain n)), b))"
  by (simp add: encode_fixhead_put map_option_case split: option.splits)

lemma put_merge:
  "o2 = o1 + length xs \<Longrightarrow>
     Option.bind (put o1 xs buf) (\<lambda>b. Option.bind (put o2 ys b) f) = Option.bind (put o1 (xs @ ys) buf) f"
  by (simp add: put_put_then)

section \<open>Decoding\<close>

lemma low_byte: "n < 128 \<Longrightarrow> uint ((of_nat n :: u8) AND NOT 0x80) = int n \<and> (of_nat n :: u8) AND 0x80 = 0 \<and>
    uint ((of_nat (n + 128) :: u8) AND NOT 0x80) = int n \<and> (of_nat (n + 128) :: u8) AND 0x80 \<noteq> 0"
proof -
  assume "n < 128"
  then have "n \<in> set [0..<128]" by simp
  moreover have "list_all (\<lambda>n. uint ((of_nat n :: u8) AND NOT 0x80) = int n \<and>
      (of_nat n :: u8) AND 0x80 = 0 \<and> uint ((of_nat (n + 128) :: u8) AND NOT 0x80) = int n \<and>
      (of_nat (n + 128) :: u8) AND 0x80 \<noteq> 0) [0..<128]"
    by code_simp
  ultimately show ?thesis unfolding list_all_iff by (rule bspec[rotated])
qed

lemma c_int_small: "0 \<le> x \<Longrightarrow> x < 128 ^ 4 \<Longrightarrow> c_int x = Some x"
  by (simp add: c_int_def)

lemma byte_at_drop: "drop i buf = x # xs \<Longrightarrow> byte_at buf i = Some x \<and> drop (Suc i) buf = xs"
  by (metis byte_at_def drop_all hd_drop_conv_nth linorder_not_le list.distinct(1) list.sel(1,3) drop_Suc tl_drop)

lemma decode_len_wire:
  "drop (off + rc) buf = len_wire n @ rest \<Longrightarrow> rc < 4 \<Longrightarrow> n < 128 ^ (4 - rc) \<Longrightarrow> 0 \<le> acc \<Longrightarrow>
     acc < 128 ^ rc \<Longrightarrow>
     mqtt_decode_len_loop buf off rc acc =
       Some (int (rc + length (len_wire n)), acc + int n * 128 ^ rc)"
proof (induction n arbitrary: rc acc rule: less_induct)
  case (less n)
  let ?m = "(128 :: int) ^ rc"
  have pw: "?m \<le> 128 ^ 3" using less.prems(2) by (intro power_increasing) auto
  have pos: "0 < ?m" by simp
  have mul: "\<not> ?m > MQTT_PACKET_LEN_MASK * MQTT_PACKET_LEN_MASK * MQTT_PACKET_LEN_MASK"
    using pw by simp
  have part: "c_int (int (n mod 128) * ?m) = Some (int (n mod 128) * ?m)"
    "c_int (acc + int (n mod 128) * ?m) = Some (acc + int (n mod 128) * ?m)"
    "acc + int (n mod 128) * ?m < 128 ^ Suc rc"
  proof -
    have "int (n mod 128) * ?m \<le> 127 * ?m" by (intro mult_right_mono) auto
    then have s: "acc + int (n mod 128) * ?m < 128 * ?m" using less.prems(5) by linarith
    then have "acc + int (n mod 128) * ?m < 128 ^ 4" using pw by simp
    then show "c_int (int (n mod 128) * ?m) = Some (int (n mod 128) * ?m)"
      "c_int (acc + int (n mod 128) * ?m) = Some (acc + int (n mod 128) * ?m)"
      using less.prems(4) by (auto intro!: c_int_small)
    show "acc + int (n mod 128) * ?m < 128 ^ Suc rc" using s by simp
  qed
  show ?case
  proof (cases "n < 128")
    case True
    then have "drop (off + rc) buf = of_nat n # rest"
      using less.prems(1) by (subst (asm) len_wire.simps) simp
    then have "byte_at buf (off + rc) = Some (of_nat n)" by (rule byte_at_drop[THEN conjunct1])
    then obtain w where w: "byte_at buf (off + rc) = Some w" "uint (w AND NOT 0x80) = int n"
        "w AND 0x80 = 0"
      using low_byte[OF True] by blast
    have m: "n mod 128 = n" "length (len_wire n) = 1" using True by (simp_all add: len_wire.simps)
    show ?thesis using w part(1,2) mul unfolding m
      by (subst mqtt_decode_len_loop.simps) (simp add: Let_def)
  next
    case False
    then have d: "drop (off + rc) buf = of_nat (n mod 128 + 128) # len_wire (n div 128) @ rest"
      using less.prems(1) by (subst (asm) len_wire.simps) simp
    have b: "byte_at buf (off + rc) = Some (of_nat (n mod 128 + 128))"
      "drop (off + (rc + 1)) buf = len_wire (n div 128) @ rest"
      using byte_at_drop[OF d] by simp_all
    have rc: "rc < 3"
    proof (rule ccontr)
      assume "\<not> rc < 3"
      then have "rc = 3" using less.prems(2) by simp
      then show False using less.prems(3) False by simp
    qed
    have "n div 128 < 128 ^ (4 - (rc + 1))"
    proof -
      have "4 - rc = Suc (4 - (rc + 1))" using rc by simp
      then have "n < 128 * 128 ^ (4 - (rc + 1))" using less.prems(3) by (simp add: mult.commute)
      then show ?thesis by (simp add: div_less_iff_less_mult mult.commute)
    qed
    then have "mqtt_decode_len_loop buf off (rc + 1) (acc + int (n mod 128) * ?m) =
        Some (int (rc + 1 + length (len_wire (n div 128))),
              acc + int (n mod 128) * ?m + int (n div 128) * 128 ^ (rc + 1))"
      using less.IH[of "n div 128" "rc + 1" "acc + int (n mod 128) * ?m"] b(2) rc part(3)
        less.prems(4) False
      by (simp add: div_less_dividend)
    moreover have "acc + int (n mod 128) * ?m + int (n div 128) * 128 ^ (rc + 1) = acc + int n * ?m"
    proof -
      have "int n = 128 * int (n div 128) + int (n mod 128)"
        by (metis mult_div_mod_eq of_nat_add of_nat_mult of_nat_numeral)
      then show ?thesis by (simp only: power_Suc Suc_eq_plus1[symmetric]) (simp add: algebra_simps)
    qed
    moreover obtain w where w: "byte_at buf (off + rc) = Some w" "uint (w AND NOT 0x80) = int (n mod 128)"
        "w AND 0x80 \<noteq> 0"
      using low_byte[of "n mod 128"] b(1) by (metis mod_less_divisor zero_less_numeral)
    moreover have "length (len_wire n) = Suc (length (len_wire (n div 128)))"
      using False by (subst len_wire.simps) simp
    ultimately show ?thesis using part(1,2) mul
      by (subst mqtt_decode_len_loop.simps) (simp add: Let_def del: of_nat_mod)
  qed
qed


lemma len_wire_codec:
  "n < 2 ^ 28 \<Longrightarrow> mqtt_decode_len (len_wire n @ rest) 0 = Some (int (length (len_wire n)), int n)"
  using decode_len_wire[of 0 0 "len_wire n @ rest" n rest 0] by (simp add: mqtt_decode_len_def)

definition len_dec :: "bytes \<Rightarrow> (nat \<times> bytes) option" where
  "len_dec bs = do { (k, n) \<leftarrow> mqtt_decode_len bs 0;
                     if k < 0 then None else Some (nat n, drop (nat k) bs) }"

interpretation mqtt_len: wire_codec len_wire len_dec "\<lambda>n. n < 2 ^ 28"
  by unfold_locales (simp add: len_dec_def len_wire_codec)

lemma u16_join: "push_bit 8 (ucast (ucast (drop_bit 8 w) :: u8)) + ucast (ucast (w AND 0xFF) :: u8) = (w :: u16)"
proof -
  have "ucast (ucast (drop_bit 8 w) :: u8) = drop_bit 8 w"
    by (rule bit_word_eqI) (auto simp: bit_ucast_iff bit_drop_bit_eq dest: bit_imp_le_length)
  moreover have "ucast (ucast (w AND 0xFF) :: u8) = take_bit 8 w"
    by (rule bit_word_eqI) (simp only: bit_ucast_iff bit_and_iff bit_0xff bit_take_bit_iff, auto)
  ultimately show ?thesis by (simp add: bits_ident)
qed

lemma decode_num_wire: "drop off buf = num_bytes w @ rest \<Longrightarrow> mqtt_decode_num buf off = Some (2, w)"
proof -
  assume d: "drop off buf = num_bytes w @ rest"
  then have "byte_at buf off = Some (ucast (drop_bit 8 w))"
    "byte_at buf (Suc off) = Some (ucast (w AND 0xFF))"
    using byte_at_drop[of off buf] byte_at_drop[of "Suc off" buf] unfolding num_bytes_def by auto
  then show ?thesis using u16_join[of w] by (simp add: mqtt_decode_num_def del: bit_0xff)
qed

lemma decode_string_wire:
  "drop off buf = str_wire s @ rest \<Longrightarrow> length s < 65536 \<Longrightarrow>
     mqtt_decode_string buf off = Some (length s + 2, off + 2, of_nat (length s)) \<and>
     fetch (off + 2) (length s) buf = Some s"
proof -
  assume d: "drop off buf = str_wire s @ rest" and l: "length s < 65536"
  have "mqtt_decode_num buf off = Some (2, of_nat (length s))"
    by (rule decode_num_wire[of _ _ _ "s @ rest"]) (simp add: d str_wire_def)
  moreover have "unat (of_nat (length s) :: u16) = length s" using l by (simp add: unat_of_nat)
  moreover have "drop (off + 2) buf = s @ rest"
    using d by (metis add.commute append.assoc append_eq_conv_conj drop_drop length_num_bytes str_wire_def)
  moreover have "off + 2 + length s \<le> length buf"
    using arg_cong[OF d, of length] arg_cong[OF calculation(3), of length] by simp
  ultimately show ?thesis by (simp add: mqtt_decode_string_def fetch_def)
qed

definition string_dec :: "bytes \<Rightarrow> (bytes \<times> bytes) option" where
  "string_dec bs = do { (n, start, len) \<leftarrow> mqtt_decode_string bs 0;
                        s \<leftarrow> fetch start (unat len) bs; Some (s, drop n bs) }"

interpretation mqtt_string: wire_codec str_wire string_dec "\<lambda>s. length s < 65536"
proof unfold_locales
  fix s :: bytes and rest assume l: "length s < 65536"
  have "mqtt_decode_string (str_wire s @ rest) 0 = Some (length s + 2, 0 + 2, of_nat (length s))"
    "fetch (0 + 2) (length s) (str_wire s @ rest) = Some s"
    using decode_string_wire[of 0 "str_wire s @ rest" s rest, OF _ l] by simp_all
  moreover have "unat (of_nat (length s) :: u16) = length s" using l by (simp add: unat_of_nat)
  ultimately show "string_dec (str_wire s @ rest) = Some (s, rest)"
    by (simp add: string_dec_def)
qed

lemma mask_u8: "(1 :: u8) = mask 1" "(3 :: u8) = mask 2" "(15 :: u8) = mask 4"
  by (simp_all add: mask_eq_exp_minus_1)

lemma bit_1_u8: "bit (1 :: u8) n \<longleftrightarrow> n < 1"
  by (simp only: mask_u8 bit_mask_iff, auto)

lemma bit_3_u8: "bit (3 :: u8) n \<longleftrightarrow> n < 2"
  by (simp only: mask_u8 bit_mask_iff, auto)

lemma bit_15_u8: "bit (15 :: u8) n \<longleftrightarrow> n < 4"
  by (simp only: mask_u8 bit_mask_iff, auto)

lemmas bit_small_u8 = bit_1_u8 bit_3_u8 bit_15_u8

lemma first_byte_fields:
  "drop_bit 4 (first_byte t d q r) = t AND 15" "drop_bit 3 (first_byte t d q r) AND 1 = d AND 1"
  "drop_bit 1 (first_byte t d q r) AND 3 = q AND 3" "first_byte t d q r AND 1 = r AND 1"
  unfolding first_byte_def
  by ((rule bit_word_eqI, simp only: bit_drop_bit_eq bit_or_iff bit_and_iff bit_push_bit_iff
      bit_small_u8 comp_def, auto)[1])+

lemma decode_fixhead_wire:
  assumes "drop off buf = fixhead_wire t d q r n @ rest" and "n < 2 ^ 28"
  shows "mqtt_decode_fixhead buf off =
    Some \<lparr>fh_len = 1 + int (length (len_wire n)), fh_type = t AND 15, fh_dup = d AND 1,
          fh_qos = q AND 3, fh_retain = r AND 1, fh_remaining = int n\<rparr>"
proof -
  have b: "byte_at buf off = Some (first_byte t d q r)" "drop (off + 1) buf = len_wire n @ rest"
    using byte_at_drop[of off buf] assms(1) by (simp_all add: fixhead_wire_def)
  have "mqtt_decode_len buf (off + 1) = Some (int (length (len_wire n)), int n)"
    using decode_len_wire[of "off + 1" 0 buf n rest 0] b(2) assms(2)
    by (simp add: mqtt_decode_len_def)
  then show ?thesis using b(1) by (simp add: mqtt_decode_fixhead_def first_byte_fields[simplified])
qed

lemma length_len_wire: "1 \<le> length (len_wire n)" "n < 2 ^ 28 \<Longrightarrow> length (len_wire n) \<le> 4"
proof -
  show "1 \<le> length (len_wire n)" by (subst len_wire.simps) simp
  assume n: "n < 2 ^ 28"
  have one: "length (len_wire m) \<le> 1" if "m < 128" for m
    using that by (subst len_wire.simps) simp
  have two: "length (len_wire m) \<le> 2" if "m < 128 * 128" for m
    using one[of "m div 128"] one[of m] that by (subst len_wire.simps) auto
  have three: "length (len_wire m) \<le> 3" if "m < 128 * 128 * 128" for m
    using two[of "m div 128"] that by (subst len_wire.simps) auto
  show "length (len_wire n) \<le> 4"
    using three[of "n div 128"] n by (subst len_wire.simps) auto
qed


section \<open>Whole packets\<close>

definition packet :: "u8 \<Rightarrow> u8 \<Rightarrow> u8 \<Rightarrow> u8 \<Rightarrow> bytes \<Rightarrow> bytes" where
  "packet type dup qos retain body = fixhead_wire type dup qos retain (length body) @ body"

text \<open>A string if its field is used.\<close>

definition opt_wire :: "bool \<Rightarrow> bytes option \<Rightarrow> bytes" where
  "opt_wire used s = (if used then str_wire (the s) else [])"

definition connect_body :: "mqtt_connect_opt_t \<Rightarrow> bytes" where
  "connect_body op = connect_head_bytes op @ num_bytes (keep_alive op) @ str_wire (the (client_id op)) @
     opt_wire (has_will op) (will_topic op) @ opt_wire (has_will op) (will_msg op) @
     opt_wire (has_user op) (user_name op) @ opt_wire (has_password op) (password op)"

definition publish_body :: "mqtt_publish_opt_t \<Rightarrow> bytes" where
  "publish_body op = str_wire (the (po_topic op)) @
     (if po_qos op > 0 then num_bytes (po_packet_id op) else []) @
     (case po_msg op of None \<Rightarrow> [] | Some m \<Rightarrow> m)"

definition subscribe_body :: "u16 \<Rightarrow> (bytes \<times> u8) list \<Rightarrow> bytes" where
  "subscribe_body pid ts = num_bytes pid @ concat (map (\<lambda>(t, q). str_wire t @ [q]) ts)"

definition unsubscribe_body :: "u16 \<Rightarrow> bytes list \<Rightarrow> bytes" where
  "unsubscribe_body pid ts = num_bytes pid @ concat (map str_wire ts)"

lemma connect_put:
  assumes "client_id op = Some cid" and "length (proto_len op) = 2" and "length (proto_name op) = 4"
  shows "mqtt_encode_connect buf off buf_len op =
    (let wire = packet (type_code CONNECT) 0 0 0 (connect_body op)
     in if int (length wire) \<le> buf_len
        then map_option (Pair (int (length wire))) (put off wire buf)
        else map_option (Pair (-1))
          (put off (fixhead_wire (type_code CONNECT) 0 0 0 (length (connect_body op))) buf))"
proof -
  let ?n = "length (connect_body op)"
  have h: "length (connect_head_bytes op) = 8"
    using assms by (simp add: connect_head_bytes_def)
  have used: "has_will op \<Longrightarrow> \<exists>t m. will_topic op = Some t \<and> will_msg op = Some m"
    "has_user op \<Longrightarrow> \<exists>u. user_name op = Some u" "has_password op \<Longrightarrow> \<exists>w. password op = Some w"
    by (auto simp: has_will_def has_user_def has_password_def)
  have eq: "mqtt_encode_connect buf off buf_len op =
      Option.bind (mqtt_encode_fixhead buf off (type_code CONNECT) 0 0 0 (int ?n))
        (\<lambda>(len, b). if len + int ?n > buf_len then Some (-1, b)
           else Option.bind (put (off + nat len) (connect_body op) b) (\<lambda>b. Some (len + int ?n, b)))"
    using assms(1) used h
    by (cases "has_will op"; cases "has_user op"; cases "has_password op")
      (auto simp: mqtt_encode_connect_def connect_body_def opt_wire_def c_strlen_def mem_simps
        put_merge Let_def algebra_simps intro!: arg_cong[where f = "Option.bind _"] ext)
  show ?thesis
    unfolding eq encode_fixhead_bind
    by (auto simp: packet_def put_merge Let_def map_option_case split: option.splits)
qed


text \<open>
  PUBLISH: the remaining length always counts a packet identifier, which a packet of quality
  of service 0 does not have: then it is two larger than the body.
\<close>

lemma publish_put:
  assumes "po_topic op = Some t"
  shows "mqtt_encode_publish buf off buf_len op =
    (let extra = (if po_qos op = 0 then 2 else 0);
         wire = fixhead_wire (type_code PUBLISH) (po_dup op) (po_qos op) (po_retain op)
                  (length (publish_body op) + extra) @ publish_body op
     in map_option (Pair (int (length wire + extra))) (put off wire buf))"
proof -
  let ?n = "length (publish_body op) + (if po_qos op = 0 then 2 else 0)"
  have z: "0 < po_qos op \<longleftrightarrow> po_qos op \<noteq> 0" by (simp add: word_greater_zero_iff)
  have "mqtt_encode_publish buf off buf_len op =
      Option.bind (mqtt_encode_fixhead buf off (type_code PUBLISH) (po_dup op) (po_qos op) (po_retain op) (int ?n))
        (\<lambda>(len, b). Option.bind (put (off + nat len) (publish_body op) b) (\<lambda>b. Some (len + int ?n, b)))"
    using assms z
    by (cases "po_msg op"; cases "po_qos op = 0")
      (auto simp: mqtt_encode_publish_def publish_body_def mem_simps put_merge Let_def algebra_simps
        intro!: arg_cong[where f = "Option.bind _"] ext split: option.splits)
  then show ?thesis
    unfolding encode_fixhead_bind
    by (auto simp: put_merge Let_def map_option_case split: option.splits)
qed

lemma subscribe_len_topics:
  "subscribe_len (map Some ts) = Some (int (length (concat (map (\<lambda>t. str_wire t @ [0]) ts))))"
  by (induction ts) (simp_all add: c_strlen_def)

lemma subscribe_payload_put:
  "length ts = length qs \<Longrightarrow> p \<le> length buf \<Longrightarrow>
     subscribe_payload buf p (zip (map Some ts) qs) =
       put p (concat (map (\<lambda>(t, q). str_wire t @ [q]) (zip ts qs))) buf"
proof (induction ts arbitrary: qs p buf)
  case (Cons t ts)
  then obtain q qs' where qs: "qs = q # qs'" by (cases qs) auto
  let ?rest = "concat (map (\<lambda>(t, q). str_wire t @ [q]) (zip ts qs'))"
  have "subscribe_payload buf p (zip (map Some (t # ts)) qs) =
      Option.bind (put p (str_wire t @ [q]) buf)
        (\<lambda>b. subscribe_payload b (p + length t + 3) (zip (map Some ts) qs'))"
    by (simp add: qs encode_string_bind put_merge eval_nat_numeral)
  also have "\<dots> = Option.bind (put p (str_wire t @ [q]) buf)
      (\<lambda>b. put (p + length (str_wire t @ [q])) ?rest b)"
  proof (cases "put p (str_wire t @ [q]) buf")
    case (Some b)
    then have "p + length t + 3 \<le> length b" by (auto dest!: put_SomeD)
    then show ?thesis using Cons qs Some by (simp add: eval_nat_numeral)
  qed simp
  also have "\<dots> = put p ((str_wire t @ [q]) @ ?rest) buf" by (rule put_put)
  finally show ?case by (simp add: qs)
qed simp

lemma unsubscribe_len_topics:
  "unsubscribe_len (map Some ts) = Some (int (length (concat (map str_wire ts))))"
  by (induction ts) (simp_all add: c_strlen_def)

lemma unsubscribe_payload_put:
  "p \<le> length buf \<Longrightarrow>
     unsubscribe_payload buf p (map Some ts) = put p (concat (map str_wire ts)) buf"
proof (induction ts arbitrary: p buf)
  case (Cons t ts)
  have "unsubscribe_payload buf p (map Some (t # ts)) =
      Option.bind (put p (str_wire t) buf) (\<lambda>b. unsubscribe_payload b (p + length t + 2) (map Some ts))"
    by (simp add: encode_string_bind add.assoc)
  also have "\<dots> = Option.bind (put p (str_wire t) buf)
      (\<lambda>b. put (p + length (str_wire t)) (concat (map str_wire ts)) b)"
  proof (cases "put p (str_wire t) buf")
    case (Some b)
    then have "p + length t + 2 \<le> length b" by (auto dest!: put_SomeD)
    then show ?thesis using Cons Some by (simp add: add.assoc)
  qed simp
  also have "\<dots> = put p (str_wire t @ concat (map str_wire ts)) buf" by (rule put_put)
  finally show ?case by simp
qed simp

lemma subscribe_body_len:
  "length ts = length qs \<Longrightarrow>
     length (subscribe_body pid (zip ts qs)) = 2 + length (concat (map (\<lambda>t. str_wire t @ [0]) ts))"
proof (induction ts arbitrary: qs)
  case (Cons t ts)
  then obtain q qs' where "qs = q # qs'" by (cases qs) auto
  then show ?case using Cons by (simp add: subscribe_body_def)
qed (simp add: subscribe_body_def)

text \<open>A packet whose header and body are stored one after the other.\<close>

lemma packet_store:
  assumes "length body = n"
    and "\<And>b. length b = length buf \<Longrightarrow> off + length (fixhead_wire t d q r n) \<le> length b \<Longrightarrow>
           f (int (length (fixhead_wire t d q r n)), b) =
           map_option (Pair (int (length (packet t d q r body))))
             (put (off + length (fixhead_wire t d q r n)) body b)"
  shows "Option.bind (mqtt_encode_fixhead buf off t d q r (int n)) f =
    map_option (Pair (int (length (packet t d q r body)))) (put off (packet t d q r body) buf)"
proof -
  let ?fh = "fixhead_wire t d q r n"
  have "Option.bind (mqtt_encode_fixhead buf off t d q r (int n)) f =
      Option.bind (put off ?fh buf) (\<lambda>b. f (int (length ?fh), b))"
    by (rule encode_fixhead_bind)
  also have "\<dots> = Option.bind (put off ?fh buf) (\<lambda>b.
      Option.bind (put (off + length ?fh) body b) (\<lambda>b. Some (int (length (packet t d q r body)), b)))"
  proof (cases "put off ?fh buf")
    case (Some b)
    then have "length b = length buf" "off + length ?fh \<le> length b" by (auto dest!: put_SomeD)
    then show ?thesis using Some assms(2)[of b] by (simp add: map_option_case split: option.splits)
  qed simp
  also have "\<dots> = Option.bind (put off (?fh @ body) buf)
      (\<lambda>b. Some (int (length (packet t d q r body)), b))"
    by (rule put_put_then)
  finally show ?thesis using assms(1) by (simp add: packet_def map_option_case split: option.splits)
qed


lemma subscribe_tail:
  assumes "length ts = length qs"
  shows "Option.bind (put o1 (num_bytes pid) b)
      (\<lambda>b. Option.bind (subscribe_payload b (o1 + 2) (zip (map Some ts) qs)) f) =
    Option.bind (put o1 (subscribe_body pid (zip ts qs)) b) f"
proof -
  let ?rest = "concat (map (\<lambda>(t, q). str_wire t @ [q]) (zip ts qs))"
  have "Option.bind (put o1 (num_bytes pid) b)
      (\<lambda>b. Option.bind (subscribe_payload b (o1 + 2) (zip (map Some ts) qs)) f) =
      Option.bind (put o1 (num_bytes pid) b) (\<lambda>b. Option.bind (put (o1 + 2) ?rest b) f)"
  proof (cases "put o1 (num_bytes pid) b")
    case (Some b')
    then have "o1 + 2 \<le> length b'" by (auto dest!: put_SomeD)
    then show ?thesis using Some subscribe_payload_put[OF assms] by simp
  qed simp
  then show ?thesis by (simp add: put_merge subscribe_body_def)
qed

lemma unsubscribe_tail:
  "Option.bind (put o1 (num_bytes pid) b)
      (\<lambda>b. Option.bind (unsubscribe_payload b (o1 + 2) (map Some ts)) f) =
    Option.bind (put o1 (unsubscribe_body pid ts) b) f"
proof -
  have "Option.bind (put o1 (num_bytes pid) b)
      (\<lambda>b. Option.bind (unsubscribe_payload b (o1 + 2) (map Some ts)) f) =
      Option.bind (put o1 (num_bytes pid) b)
        (\<lambda>b. Option.bind (put (o1 + 2) (concat (map str_wire ts)) b) f)"
  proof (cases "put o1 (num_bytes pid) b")
    case (Some b')
    then have "o1 + 2 \<le> length b'" by (auto dest!: put_SomeD)
    then show ?thesis using Some unsubscribe_payload_put by simp
  qed simp
  then show ?thesis by (simp add: put_merge unsubscribe_body_def)
qed

lemma subscribe_put:
  assumes "so_topic op = map Some ts @ spare" and "so_qoss op = qs @ spare'"
    and "length ts = unat (so_count op)" and "length qs = unat (so_count op)"
  shows "mqtt_encode_subscribe buf off buf_len op =
    (let wire = packet (type_code SUBSCRIBE) 0 1 0 (subscribe_body (so_packet_id op) (zip ts qs))
     in map_option (Pair (int (length wire))) (put off wire buf))"
proof -
  let ?body = "subscribe_body (so_packet_id op) (zip ts qs)"
  have f: "fetch 0 (unat (so_count op)) (so_topic op) = Some (map Some ts)"
    "fetch 0 (unat (so_count op)) (so_qoss op) = Some qs"
    using assms by (simp_all add: fetch_def)
  have l: "length ts = length qs" using assms by simp
  have n: "2 + int (length (concat (map (\<lambda>t. str_wire t @ [0]) ts))) = int (length ?body)"
    using subscribe_body_len[OF l] by simp
  have "mqtt_encode_subscribe buf off buf_len op =
      Option.bind (mqtt_encode_fixhead buf off (type_code SUBSCRIBE) 0 1 0 (int (length ?body)))
        (\<lambda>(len, b). Option.bind (put (off + nat len) (num_bytes (so_packet_id op)) b)
          (\<lambda>b. Option.bind (subscribe_payload b (off + nat len + 2) (zip (map Some ts) qs))
            (\<lambda>b. Some (len + int (length ?body), b))))"
    by (simp only: mqtt_encode_subscribe_def f subscribe_len_topics Let_def n Option.bind.simps
        encode_num_bind) (simp add: case_prod_beta')
  also have "\<dots> = map_option (Pair (int (length (packet (type_code SUBSCRIBE) 0 1 0 ?body))))
      (put off (packet (type_code SUBSCRIBE) 0 1 0 ?body) buf)"
    by (rule packet_store[OF refl])
      (simp add: subscribe_tail[OF l] packet_def map_option_case del: add_2_eq_Suc' split: option.splits)
  finally show ?thesis unfolding Let_def .
qed

lemma unsubscribe_put:
  assumes "uo_topic op = map Some ts @ spare" and "length ts = unat (uo_count op)"
  shows "mqtt_encode_unsubscribe buf off buf_len op =
    (let wire = packet (type_code UNSUBSCRIBE) 0 1 0 (unsubscribe_body (uo_packet_id op) ts)
     in map_option (Pair (int (length wire))) (put off wire buf))"
proof -
  let ?body = "unsubscribe_body (uo_packet_id op) ts"
  have f: "fetch 0 (unat (uo_count op)) (uo_topic op) = Some (map Some ts)"
    using assms by (simp add: fetch_def)
  have n: "2 + int (length (concat (map str_wire ts))) = int (length ?body)"
    by (simp add: unsubscribe_body_def)
  have "mqtt_encode_unsubscribe buf off buf_len op =
      Option.bind (mqtt_encode_fixhead buf off (type_code UNSUBSCRIBE) 0 1 0 (int (length ?body)))
        (\<lambda>(len, b). Option.bind (put (off + nat len) (num_bytes (uo_packet_id op)) b)
          (\<lambda>b. Option.bind (unsubscribe_payload b (off + nat len + 2) (map Some ts))
            (\<lambda>b. Some (len + int (length ?body), b))))"
    by (simp only: mqtt_encode_unsubscribe_def f unsubscribe_len_topics Let_def n Option.bind.simps
        encode_num_bind) (simp add: case_prod_beta')
  also have "\<dots> = map_option (Pair (int (length (packet (type_code UNSUBSCRIBE) 0 1 0 ?body))))
      (put off (packet (type_code UNSUBSCRIBE) 0 1 0 ?body) buf)"
    by (rule packet_store[OF refl])
      (simp add: unsubscribe_tail packet_def map_option_case del: add_2_eq_Suc' split: option.splits)
  finally show ?thesis unfolding Let_def .
qed

lemma puback_put:
  "mqtt_encode_puback buf off buf_len op =
    (let wire = packet (pa_type op) 0 (if pa_type op = type_code PUBREL then 1 else 0) 0
                  (num_bytes (pa_packet_id op))
     in map_option (Pair (int (length wire))) (put off wire buf))"
proof -
  let ?q = "if pa_type op = type_code PUBREL then 1 else 0 :: u8"
  have "mqtt_encode_puback buf off buf_len op =
      Option.bind (mqtt_encode_fixhead buf off (pa_type op) 0 ?q 0 (int 2))
        (\<lambda>(len, b). Option.bind (mqtt_encode_num b (off + nat len) (pa_packet_id op))
          (\<lambda>(n, b). Some (len + 2, b)))"
    by (simp add: mqtt_encode_puback_def)
  also have "\<dots> = map_option (Pair (int (length (packet (pa_type op) 0 ?q 0 (num_bytes (pa_packet_id op))))))
      (put off (packet (pa_type op) 0 ?q 0 (num_bytes (pa_packet_id op))) buf)"
    by (rule packet_store) (simp_all add: encode_num_bind packet_def map_option_case split: option.splits)
  finally show ?thesis unfolding Let_def .
qed


section \<open>Properties\<close>

lemma drop_of_put: "put off xs buf = Some b \<Longrightarrow> drop off b = xs @ drop (off + length xs) buf"
  by (auto dest!: put_SomeD simp: min_def)

text \<open>C28. The remaining-length field: every length below 2^28 is written in one to four bytes and read
  back, with the number of bytes, from wherever it was written.\<close>

theorem mqtt_length_roundtrip:
  assumes "n < 2 ^ 28" and "off + 4 \<le> length buf"
  shows "\<exists>k buf'. mqtt_encode_len buf off (int n) = Some (k, buf') \<and> 1 \<le> k \<and> k \<le> 4 \<and>
    mqtt_decode_len buf' off = Some (k, int n)"
proof -
  note l = length_len_wire[of n]
  obtain b where b: "put off (len_wire n) buf = Some b"
    using put_Some_iff[of off "len_wire n" buf] l(2) assms by auto
  then have "mqtt_encode_len buf off (int n) = Some (int (length (len_wire n)), b)"
    using encode_len_put[of buf off 0 n] by (simp add: mqtt_encode_len_def)
  moreover have "mqtt_decode_len b off = Some (int (length (len_wire n)), int n)"
    using decode_len_wire[of off 0 b n] drop_of_put[OF b] assms(1) by (simp add: mqtt_decode_len_def)
  ultimately show ?thesis using l assms(1) by auto
qed

lemma mqtt_length_roundtrip_witness:
  "\<exists>k buf'. mqtt_encode_len [0, 0, 0, 0, 0, 0] 1 (int 321) = Some (k, buf') \<and> 1 \<le> k \<and> k \<le> 4 \<and>
    mqtt_decode_len buf' 1 = Some (k, int 321)"
  by (rule mqtt_length_roundtrip) simp_all

text \<open>C35. CONNECT with the true free space as \<^verbatim>\<open>buf_len\<close>: when at least the five bytes of a fixed
  header are free the encoder never leaves the array; it returns \<open>-1\<close> exactly when the
  packet does not fit, and otherwise stores exactly the packet - fixed header, protocol
  head, keep-alive, client id, and the will, user name and password of the flags set - and
  returns its length.\<close>

theorem mqtt_connect_safe:
  assumes "client_id op = Some cid" and "length (proto_len op) = 2" and "length (proto_name op) = 4"
    and "off + 5 \<le> length buf" and "length (connect_body op) < 2 ^ 28"
    and "buf_len = int (length buf - off)"
    and "wire = packet (type_code CONNECT) 0 0 0 (connect_body op)"
  shows "\<exists>r buf'. mqtt_encode_connect buf off buf_len op = Some (r, buf') \<and> length buf' = length buf \<and>
    (if off + length wire \<le> length buf
     then r = int (length wire) \<and> buf' = take off buf @ wire @ drop (off + length wire) buf
     else r = -1)"
proof -
  let ?fh = "fixhead_wire (type_code CONNECT) 0 0 0 (length (connect_body op))"
  have "length ?fh \<le> 5" using length_len_wire(2)[OF assms(5)] by (simp add: fixhead_wire_def)
  then obtain b where b: "put off ?fh buf = Some b" "length b = length buf"
    using put_Some_iff[of off ?fh buf] put_length[of off ?fh buf] assms(4) by auto
  have fits: "int (length wire) \<le> buf_len \<longleftrightarrow> off + length wire \<le> length buf"
    using assms(4,6) by auto
  show ?thesis
    using connect_put[OF assms(1-3), of buf off buf_len] b fits assms(7)
    by (auto simp: Let_def put_def)
qed

lemma mqtt_connect_safe_witness:
  "\<exists>r buf'. mqtt_encode_connect (replicate 16 0) 0 16 \<lparr>proto_len = [0, 4],
      proto_name = [0x4D, 0x51, 0x54, 0x54], proto_level = 4, connect_flag = 2, keep_alive = 60,
      client_id = Some [0x61, 0x62], will_topic = None, will_msg = None, user_name = None,
      password = None\<rparr> = Some (r, buf') \<and> r = 16 \<and>
    buf' = [16, 14, 0, 4, 0x4D, 0x51, 0x54, 0x54, 4, 2, 0, 60, 0, 2, 0x61, 0x62]"
proof -
  let ?op = "\<lparr>proto_len = [0, 4],
      proto_name = [0x4D, 0x51, 0x54, 0x54], proto_level = 4, connect_flag = 2, keep_alive = 60,
      client_id = Some [0x61, 0x62], will_topic = None, will_msg = None, user_name = None,
      password = None\<rparr>"
  have b: "connect_body ?op = [0, 4, 0x4D, 0x51, 0x54, 0x54, 4, 2, 0, 60, 0, 2, 0x61, 0x62]"
    by (simp add: connect_body_def connect_head_bytes_def opt_wire_def str_wire_def num_bytes_def
        has_will_def has_user_def has_password_def)
  have w: "packet (type_code CONNECT) 0 0 0 [0, 4, 0x4D, 0x51, 0x54, 0x54, 4, 2, 0, 60, 0, 2, 0x61, 0x62] =
      [16, 14, 0, 4, 0x4D, 0x51, 0x54, 0x54, 4, 2, 0, 60, 0, 2, 0x61, 0x62]"
    by (simp add: packet_def fixhead_wire_def first_byte_def len_wire.simps)
  show ?thesis
    using mqtt_connect_safe[of ?op "[0x61, 0x62]" 0 "replicate 16 0" 16, OF _ _ _ _ _ _ refl]
    unfolding b w by (simp add: b)
qed

text \<open>SUBSCRIBE with \<open>count\<close> topics: the encoder stores exactly the packet - identifier, and each
  topic with its quality of service - and returns its length. It never looks at
  \<^verbatim>\<open>buf_len\<close>: when the packet does not fit it runs out of the array, whatever \<^verbatim>\<open>buf_len\<close> says.\<close>

theorem mqtt_subscribe_wire:
  assumes "so_topic op = map Some ts" and "so_qoss op = qs"
    and "length ts = unat (so_count op)" and "length qs = unat (so_count op)"
    and "wire = packet (type_code SUBSCRIBE) 0 1 0 (subscribe_body (so_packet_id op) (zip ts qs))"
  shows "mqtt_encode_subscribe buf off buf_len op =
    (if off + length wire \<le> length buf
     then Some (int (length wire), take off buf @ wire @ drop (off + length wire) buf) else None)"
  using subscribe_put[of op ts "[]" qs "[]" buf off buf_len] assms
  by (simp add: put_def Let_def)

lemma mqtt_subscribe_wire_witness:
  "mqtt_encode_subscribe [0, 0] 0 100 \<lparr>so_packet_id = 7, so_count = 1, so_topic = [Some [0x61]],
      so_qoss = [1]\<rparr> = None"
  by (subst mqtt_subscribe_wire[of _ "[[0x61]]" "[1]", OF _ _ _ _ refl])
    (simp_all add: packet_def subscribe_body_def num_bytes_def str_wire_def fixhead_wire_def)

text \<open>UNSUBSCRIBE: the topics of the packet are recovered from its bytes, all of them and in
  order, by reading \<open>count\<close> strings behind the fixed header and the identifier.\<close>

theorem mqtt_unsubscribe_recovers:
  assumes "uo_topic op = map Some ts" and "length ts = unat (uo_count op)"
    and "list_all (\<lambda>t. length t < 65536) ts"
    and "mqtt_encode_unsubscribe buf off buf_len op = Some (r, buf')"
  shows "\<exists>k. mqtt_string.dec_many (length ts) (drop (off + k) buf') = Some (ts, drop (off + nat r) buf) \<and>
    mqtt_decode_num buf' (off + k - 2) = Some (2, uo_packet_id op)"
proof -
  let ?body = "unsubscribe_body (uo_packet_id op) ts"
  let ?fh = "fixhead_wire (type_code UNSUBSCRIBE) 0 1 0 (length ?body)"
  let ?wire = "packet (type_code UNSUBSCRIBE) 0 1 0 ?body"
  have e: "map_option (Pair (int (length ?wire))) (put off ?wire buf) = Some (r, buf')"
    using unsubscribe_put[of op ts "[]" buf off buf_len] assms by (simp add: Let_def)
  then have p: "put off ?wire buf = Some buf'" and r: "r = int (length ?wire)" by auto
  have d: "drop off buf' = ?wire @ drop (off + length ?wire) buf" by (rule drop_of_put[OF p])
  have body: "?wire = ?fh @ num_bytes (uo_packet_id op) @ concat (map str_wire ts)"
    by (simp add: packet_def unsubscribe_body_def)
  let ?k = "length ?fh + 2"
  have "drop (off + ?k) buf' = drop ?k (drop off buf')" by (simp add: add.commute)
  also have "\<dots> = concat (map str_wire ts) @ drop (off + length ?wire) buf"
    unfolding d body by simp
  finally have "mqtt_string.dec_many (length ts) (drop (off + ?k) buf') =
      Some (ts, drop (off + length ?wire) buf)"
    using mqtt_string.dec_many_enc[OF assms(3)] by simp
  moreover have "drop (off + length ?fh) buf' = drop (length ?fh) (drop off buf')"
    by (simp add: add.commute)
  then have "drop (off + length ?fh) buf' =
      num_bytes (uo_packet_id op) @ concat (map str_wire ts) @ drop (off + length ?wire) buf"
    unfolding d by (simp only: body append_assoc append_eq_conv_conj[symmetric]) simp
  then have "mqtt_decode_num buf' (off + length ?fh) = Some (2, uo_packet_id op)"
    by (rule decode_num_wire)
  ultimately show ?thesis unfolding r by (intro exI[of _ ?k]) simp
qed


lemma mqtt_unsubscribe_recovers_witness:
  "\<exists>k. mqtt_string.dec_many (length [[0x61], [0x62, 0x63]])
      (drop (0 + k) [162, 9, 0, 7, 0, 1, 0x61, 0, 2, 0x62, 0x63, 0xEE]) =
      Some ([[0x61], [0x62, 0x63]], drop (0 + nat 11) (replicate 11 0 @ [0xEE])) \<and>
    mqtt_decode_num [162, 9, 0, 7, 0, 1, 0x61, 0, 2, 0x62, 0x63, 0xEE] (0 + k - 2) = Some (2, 7)"
proof -
  let ?op = "\<lparr>uo_packet_id = 7, uo_count = 2, uo_topic = [Some [0x61], Some [0x62, 0x63]]\<rparr>"
  have "packet (type_code UNSUBSCRIBE) 0 1 0 (unsubscribe_body 7 [[0x61], [0x62, 0x63]]) =
      [162, 9, 0, 7, 0, 1, 0x61, 0, 2, 0x62, 0x63]"
    by (simp add: packet_def fixhead_wire_def first_byte_def len_wire.simps unsubscribe_body_def
        str_wire_def num_bytes_def)
  then have "mqtt_encode_unsubscribe (replicate 11 0 @ [0xEE]) 0 0 ?op =
      Some (11, [162, 9, 0, 7, 0, 1, 0x61, 0, 2, 0x62, 0x63, 0xEE])"
    using unsubscribe_put[of ?op "[[0x61], [0x62, 0x63]]" "[]" "replicate 11 0 @ [0xEE]" 0 0]
    by (simp add: put_def Let_def)
  from mqtt_unsubscribe_recovers[OF _ _ _ this, of "[[0x61], [0x62, 0x63]]"] show ?thesis by simp
qed

lemma small_field: "t < 16 \<Longrightarrow> t AND 15 = (t :: u8)" "q < 4 \<Longrightarrow> q AND 3 = (q :: u8)"
  "d < 2 \<Longrightarrow> d AND 1 = (d :: u8)"
proof -
  have m: "x AND (2 ^ n - 1) = x mod 2 ^ n" for x :: u8 and n
    using take_bit_eq_mask[of n x] take_bit_eq_mod[of n x] by (simp add: mask_eq_exp_minus_1)
  have "unat (x mod y) = unat x" if "x < y" for x y :: u8
    using that by (simp add: unat_mod word_less_nat_alt)
  then have lt: "x mod y = x" if "x < y" for x y :: u8
    using that by (metis word_unat_eq_iff)
  show "t < 16 \<Longrightarrow> t AND 15 = t" "q < 4 \<Longrightarrow> q AND 3 = q" "d < 2 \<Longrightarrow> d AND 1 = d"
    using m[of t 4] m[of q 2] m[of d 1] lt[of t 16] lt[of q 4] lt[of d 2] by simp_all
qed

lemma drop_behind: "drop off b = xs @ ys \<Longrightarrow> drop (off + length xs) b = ys"
  by (metis add.commute append_eq_conv_conj drop_drop)

lemma decode_publish_steps:
  assumes "mqtt_decode_fixhead buf off = Some h" and "fh_type h = type_code PUBLISH"
    and "mqtt_decode_string buf (off + nat (fh_len h)) = Some (n, start, len)"
    and "fh_qos h \<noteq> 0 \<Longrightarrow> mqtt_decode_num buf (off + nat (fh_len h) + n) = Some (2, pid)"
  shows "mqtt_decode_publish buf off buf_len v0 = Some (0, v0\<lparr>pi_dup := fh_dup h, pi_qos := fh_qos h,
    pi_retain := fh_retain h, pi_topic := start, pi_topic_len := len,
    pi_packet_id := if fh_qos h = 0 then pi_packet_id v0 else pid,
    pi_msg := off + nat (fh_len h) + n + (if fh_qos h = 0 then 0 else 2),
    pi_msg_len := word_of_int (fh_remaining h - uint len - 2)\<rparr>)"
proof -
  have z: "0 < fh_qos h \<longleftrightarrow> fh_qos h \<noteq> 0" by (simp add: word_greater_zero_iff)
  show ?thesis
    using assms z by (cases "fh_qos h = 0") (simp_all add: mqtt_decode_publish_def Let_def)
qed

text \<open>C33. PUBLISH sent and received. What one side encodes the other decodes to the same topic, flags,
  packet identifier (for a quality of service above 0) and start of the message. The
  message length it reports is two too large; and for quality of service 0 the encoder
  counts two bytes it does not write, so the packet it sends ends with two bytes of
  whatever the send buffer held.\<close>

theorem mqtt_publish_roundtrip:
  assumes "po_topic op = Some t" and "length t < 65536" and "length (publish_body op) < 2 ^ 28 - 2"
    and "po_qos op < 4" and "po_dup op < 2" and "po_retain op < 2"
    and "mqtt_encode_publish buf off buf_len op = Some (r, buf')"
    and "m = (case po_msg op of None \<Rightarrow> [] | Some m \<Rightarrow> m)"
  shows "\<exists>v. mqtt_decode_publish buf' off buf_len' v0 = Some (0, v) \<and>
    fetch (pi_topic v) (unat (pi_topic_len v)) buf' = Some t \<and>
    fetch (pi_msg v) (length m) buf' = Some m \<and>
    pi_dup v = po_dup op \<and> pi_qos v = po_qos op \<and> pi_retain v = po_retain op \<and>
    pi_packet_id v = (if po_qos op = 0 then pi_packet_id v0 else po_packet_id op) \<and>
    pi_msg_len v = of_nat (length m + 2) \<and>
    int off + r = int (pi_msg v + length m) + (if po_qos op = 0 then 2 else 0)"
proof -
  let ?extra = "if po_qos op = 0 then 2 else 0 :: nat"
  let ?n = "length (publish_body op) + ?extra"
  let ?fh = "fixhead_wire (type_code PUBLISH) (po_dup op) (po_qos op) (po_retain op) ?n"
  let ?wire = "?fh @ publish_body op"
  have z: "0 < po_qos op \<longleftrightarrow> po_qos op \<noteq> 0" by (simp add: word_greater_zero_iff)
  have e: "map_option (Pair (int (length ?wire + ?extra))) (put off ?wire buf) = Some (r, buf')"
    using publish_put[OF assms(1), of buf off buf_len] assms(7) unfolding Let_def by simp
  then have p: "put off ?wire buf = Some buf'" and r: "r = int (length ?wire + ?extra)" by auto
  let ?rest = "drop (off + length ?wire) buf"
  let ?id = "if po_qos op = 0 then [] else num_bytes (po_packet_id op)"
  have body: "publish_body op = str_wire t @ ?id @ m"
    using z assms(1,8) by (simp add: publish_body_def)
  have d: "drop off buf' = ?fh @ str_wire t @ ?id @ m @ ?rest"
    using drop_of_put[OF p] by (simp add: body)
  have h: "mqtt_decode_fixhead buf' off = Some \<lparr>fh_len = 1 + int (length (len_wire ?n)), fh_type = 3,
      fh_dup = po_dup op, fh_qos = po_qos op, fh_retain = po_retain op, fh_remaining = int ?n\<rparr>"
    using decode_fixhead_wire[OF d] assms(3-6) small_field[of 3] by (simp add: small_field)
  have nl: "nat (1 + int (length (len_wire ?n))) = length ?fh" by (simp add: fixhead_wire_def)
  have d1: "drop (off + length ?fh) buf' = str_wire t @ ?id @ m @ ?rest" by (rule drop_behind[OF d])
  have s: "mqtt_decode_string buf' (off + length ?fh) =
      Some (length t + 2, off + length ?fh + 2, of_nat (length t))"
    "fetch (off + length ?fh + 2) (length t) buf' = Some t"
    using decode_string_wire[OF d1 assms(2)] by auto
  have d2: "drop (off + length ?fh + length (str_wire t)) buf' = ?id @ m @ ?rest"
    by (rule drop_behind[OF d1])
  let ?o2 = "off + length ?fh + (length t + 2)"
  have num: "po_qos op \<noteq> 0 \<Longrightarrow> mqtt_decode_num buf' ?o2 = Some (2, po_packet_id op)"
    using decode_num_wire[of ?o2 buf' "po_packet_id op" "m @ ?rest"] d2 by simp
  let ?o3 = "?o2 + length ?id"
  have d3: "drop ?o3 buf' = m @ ?rest" using drop_behind[OF d2] by simp
  have lb: "length buf' = length buf" "off + length ?wire \<le> length buf"
    using p by (auto dest!: put_SomeD)
  then have fm: "fetch ?o3 (length m) buf' = Some m"
    using d3 by (simp add: fetch_def body)
  have ut: "unat (of_nat (length t) :: u16) = length t" using assms(2) by (simp add: unat_of_nat)
  have ml: "int ?n - int (length t) - 2 = int (length m + 2)" by (simp add: body)
  have ti: "uint (of_nat (length t) :: u16) = int (length t)" using ut by (metis of_nat_unat)
  let ?v = "v0\<lparr>pi_dup := po_dup op, pi_qos := po_qos op, pi_retain := po_retain op,
    pi_topic := off + length ?fh + 2, pi_topic_len := of_nat (length t),
    pi_packet_id := if po_qos op = 0 then pi_packet_id v0 else po_packet_id op,
    pi_msg := ?o3, pi_msg_len := of_nat (length m + 2)\<rparr>"
  have w: "(word_of_int (int ?n - uint (of_nat (length t) :: u16) - 2) :: u64) = of_nat (length m + 2)"
    unfolding ti ml by (rule of_int_of_nat_eq)
  have "mqtt_decode_publish buf' off buf_len' v0 = Some (0, ?v)"
    using decode_publish_steps[OF h, unfolded mqtt_fixhead.simps nl, OF _ s(1), of "po_packet_id op"
        buf_len' v0] num
    unfolding w by (cases "po_qos op = 0") (simp_all del: of_nat_add)
  moreover have "int off + r = int (?o3 + length m) + (if po_qos op = 0 then 2 else 0)"
    unfolding r by (simp add: body)
  ultimately show ?thesis using s(2) fm ut by (intro exI[of _ ?v]) simp
qed


lemma mqtt_publish_roundtrip_witness:
  "\<exists>v. mqtt_decode_publish [0x33, 8, 0, 1, 0x61, 0, 5, 0x68, 0x69, 0x21, 9] 0 11
      \<lparr>pi_topic = 0, pi_topic_len = 0, pi_packet_id = 0, pi_msg = 0, pi_msg_len = 0, pi_dup = 0,
       pi_qos = 0, pi_retain = 0\<rparr> = Some (0, v) \<and>
    pi_packet_id v = 5 \<and> pi_msg_len v = 5"
proof -
  let ?op = "\<lparr>po_topic = Some [0x61], po_packet_id = 5, po_msg = Some [0x68, 0x69, 0x21], po_dup = 0,
      po_qos = 1, po_retain = 1\<rparr>"
  have body: "publish_body ?op = [0, 1, 0x61, 0, 5, 0x68, 0x69, 0x21]"
    by (simp add: publish_body_def str_wire_def num_bytes_def)
  have "mqtt_encode_publish (replicate 10 0 @ [9]) 0 0 ?op =
      Some (10, [0x33, 8, 0, 1, 0x61, 0, 5, 0x68, 0x69, 0x21, 9])"
    using publish_put[of ?op "[0x61]" "replicate 10 0 @ [9]" 0 0]
    by (simp add: body Let_def put_def fixhead_wire_def first_byte_def len_wire.simps)
  from mqtt_publish_roundtrip[OF _ _ _ _ _ _ this refl, of "[0x61]" 11] show ?thesis
    by (simp add: body) fastforce
qed

text \<open>The acknowledgement packets (PUBACK, PUBREC, PUBREL, PUBCOMP): four bytes, from which the
  decoder for the same type recovers the packet identifier, and which the decoder for any
  other type refuses without touching its result.\<close>

theorem mqtt_puback_roundtrip:
  assumes "pa_type op < 16" and "mqtt_encode_puback buf off buf_len op = Some (r, buf')"
  shows "r = 4 \<and> mqtt_decode_puback buf' off buf_len' op0 mqtt_type =
    (if mqtt_type = pa_type op then Some (0, op0\<lparr>pa_packet_id := pa_packet_id op\<rparr>)
     else Some (-1, op0))"
proof -
  let ?q = "if pa_type op = type_code PUBREL then 1 else 0 :: u8"
  let ?wire = "packet (pa_type op) 0 ?q 0 (num_bytes (pa_packet_id op))"
  let ?fh = "fixhead_wire (pa_type op) 0 ?q 0 2"
  have lw: "length (len_wire 2) = 1" by (simp add: len_wire.simps)
  have e: "map_option (Pair (int (length ?wire))) (put off ?wire buf) = Some (r, buf')"
    using puback_put[of buf off buf_len op] assms(2) unfolding Let_def by simp
  then have p: "put off ?wire buf = Some buf'" and r: "r = int (length ?wire)" by auto
  have d: "drop off buf' = ?fh @ num_bytes (pa_packet_id op) @ drop (off + length ?wire) buf"
    using drop_of_put[OF p] by (simp add: packet_def)
  have "mqtt_decode_fixhead buf' off = Some \<lparr>fh_len = 2, fh_type = pa_type op, fh_dup = 0,
      fh_qos = ?q AND 3, fh_retain = 0, fh_remaining = 2\<rparr>"
    using decode_fixhead_wire[OF d] assms(1) lw by (simp add: small_field)
  moreover have "length ?fh = 2" using lw by (simp add: fixhead_wire_def)
  then have "mqtt_decode_num buf' (off + 2) = Some (2, pa_packet_id op)"
    using decode_num_wire[OF drop_behind[OF d]] by simp
  moreover have "r = 4" using r lw by (simp add: packet_def fixhead_wire_def)
  ultimately show ?thesis by (simp add: mqtt_decode_puback_def)
qed

lemma mqtt_puback_roundtrip_witness:
  "mqtt_decode_puback [64, 2, 1, 2] 0 4 \<lparr>pa_type = 0, pa_packet_id = 0\<rparr> 4 =
     Some (0, \<lparr>pa_type = 0, pa_packet_id = 0x102\<rparr>)"
proof -
  have "mqtt_encode_puback [0, 0, 0, 0] 0 0 \<lparr>pa_type = 4, pa_packet_id = 0x102\<rparr> = Some (4, [64, 2, 1, 2])"
    by (simp add: puback_put Let_def packet_def put_def fixhead_wire_def first_byte_def
        len_wire.simps num_bytes_def)
  from mqtt_puback_roundtrip[OF _ this, of 4 "\<lparr>pa_type = 0, pa_packet_id = 0\<rparr>" 4] show ?thesis by simp
qed

text \<open>SUBACK: a packet with an identifier and up to 255 return codes is decoded to exactly
  those, provided the allocation succeeds; with codes and a failed allocation the decoder
  writes through a null pointer.\<close>

theorem mqtt_suback_decodes:
  assumes "drop off buf = packet (type_code SUBACK) 0 0 0 (num_bytes pid @ codes) @ rest"
    and "0 < length codes" and "length codes < 256"
  shows "mqtt_decode_suback os buf off buf_len op =
    (if fst (alloc os)
     then Some (0, op\<lparr>sa_packet_id := pid, sa_count := of_nat (length codes), sa_ret_code := codes\<rparr>,
            snd (alloc os))
     else None)"
proof -
  let ?n = "length (num_bytes pid @ codes)"
  let ?fh = "fixhead_wire (type_code SUBACK) 0 0 0 ?n"
  have d: "drop off buf = ?fh @ num_bytes pid @ codes @ rest" using assms(1) by (simp add: packet_def)
  have n: "?n < 2 ^ 28" using assms(3) by simp
  have h: "mqtt_decode_fixhead buf off = Some \<lparr>fh_len = 1 + int (length (len_wire ?n)), fh_type = 9,
      fh_dup = 0, fh_qos = 0, fh_retain = 0, fh_remaining = int ?n\<rparr>"
    using decode_fixhead_wire[OF d n] small_field(1)[of 9] by simp
  have nl: "nat (1 + int (length (len_wire ?n))) = length ?fh" by (simp add: fixhead_wire_def)
  have d1: "drop (off + length ?fh) buf = num_bytes pid @ codes @ rest" by (rule drop_behind[OF d])
  then have num: "mqtt_decode_num buf (off + length ?fh) = Some (2, pid)" by (rule decode_num_wire)
  have d2: "drop (off + length ?fh + 2) buf = codes @ rest" using drop_behind[OF d1] by simp
  then have "off + length ?fh + 2 + length codes \<le> length buf"
    using arg_cong[OF d2, of length] assms(2) unfolding length_drop length_append by linarith
  then have f: "fetch (off + length ?fh + 2) (length codes) buf = Some codes"
    using d2 by (simp add: fetch_def)
  have c: "(word_of_int (int ?n - 2) :: u8) = of_nat (length codes)" by simp
  have u: "unat (of_nat (length codes) :: u8) = length codes" using assms(3) by (simp add: unat_of_nat)
  then have nz: "(of_nat (length codes) :: u8) \<noteq> 0" using assms(2) by (metis less_irrefl unat_0)
  show ?thesis
    unfolding mqtt_decode_suback_def h Option.bind.simps mqtt_fixhead.simps Let_def nl num c prod.case
    using f u nz by (simp add: case_prod_beta')
qed

lemma mqtt_suback_decodes_witness:
  "mqtt_decode_suback [] [0x90, 4, 0, 7, 1, 0x80] 0 6 \<lparr>sa_count = 0, sa_packet_id = 0, sa_ret_code = []\<rparr> =
     Some (0, \<lparr>sa_count = 2, sa_packet_id = 7, sa_ret_code = [1, 0x80]\<rparr>, [])"
  by (subst mqtt_suback_decodes[of _ _ 7 "[1, 0x80]" "[]"])
    (simp_all add: packet_def fixhead_wire_def first_byte_def len_wire.simps num_bytes_def)

end
