(* ===== verification/SinnMqtt.thy ===== *)
theory SinnMqtt
  imports MqttPacket
begin

text \<open>
  The small MQTT client of \<^verbatim>\<open>mqtt_sinn/sinn_mqtt.c\<close> and the read and write callbacks of
  \<^verbatim>\<open>sinn_if_cbs.c\<close>: packet identifiers, the send buffer that the requests are encoded into,
  the parser of the receive buffer with the dispatch to the topic handlers, and the event
  loop over it.

  The application's handlers are parameters that may change the connection. The current
  time is an argument of every call. \<open>if_send\<close> and \<open>if_recv\<close> of the transport are
  represented by what they return.
\<close>

section \<open>State\<close>

record sinn_buf_t =
  sb_data :: bytes
  sb_len :: u64
  sb_size :: u64

text \<open>\<open>mh_cb\<close> names the application's function.\<close>

record message_handler =
  mh_efficient :: u8
  mh_filter :: "bytes option"
  mh_cb :: nat
  mh_arg :: nat

record sinn_connection_t =
  sc_flags :: u32
  sc_sock_fd :: int
  sc_recv_buf :: sinn_buf_t
  sc_send_buf :: sinn_buf_t
  sc_last_time :: u64
  pd_keep_alive :: u16
  pd_last_time :: u64
  pd_next_packetid :: u32
  pd_handlers :: "message_handler list"

abbreviation "SINN_MQTT_BUILTIN_NUM \<equiv> 5 :: nat"
abbreviation "MAX_PACKET_ID \<equiv> 0xFFFF :: u32"

record sinn_mqtt_msg_t =
  am_type :: u8
  am_qos :: u8
  am_len :: u32
  am_retained :: u8
  am_dup :: u8
  am_id :: u16
  am_payload :: nat
  am_payloadlen :: u64
  am_topic :: nat
  am_topiclen :: u64
  am_arg :: nat
  am_ret :: "u8 option list"

section \<open>Requests\<close>

definition sinn_mqtt_packetid :: "sinn_connection_t \<Rightarrow> u32 \<times> sinn_connection_t" where
  "sinn_mqtt_packetid nc =
     (let i = (if pd_next_packetid nc = MAX_PACKET_ID then 1 else pd_next_packetid nc + 1)
      in (i, nc\<lparr>pd_next_packetid := i\<rparr>))"

text \<open>
  The common part of the requests: encode behind the bytes already in the send buffer, add
  the length if it is positive, take the time.
\<close>

definition send_encoded ::
  "(bytes \<Rightarrow> nat \<Rightarrow> int \<Rightarrow> (int \<times> bytes) option) \<Rightarrow> u64 \<Rightarrow> sinn_connection_t
     \<Rightarrow> (int \<times> sinn_connection_t) option" where
  "send_encoded enc now nc =
     (let sb = sc_send_buf nc in
      do { (len, data) \<leftarrow> enc (sb_data sb) (unat (sb_len sb)) (sint (sb_size sb - sb_len sb));
           let sb = sb\<lparr>sb_data := data\<rparr>;
           let sb = (if len > 0 then sb\<lparr>sb_len := sb_len sb + word_of_int len\<rparr> else sb);
           Some (len, nc\<lparr>sc_send_buf := sb, pd_last_time := now\<rparr>) })"

definition mqtt_connect_opt_init :: mqtt_connect_opt_t where
  "mqtt_connect_opt_init =
     \<lparr>proto_len = [0, 4], proto_name = [0x4D, 0x51, 0x54, 0x54], proto_level = 4, connect_flag = 0,
      keep_alive = 0, client_id = None, will_topic = None, will_msg = None, user_name = None,
      password = None\<rparr>"

definition sinn_mqtt_connect ::
  "u64 \<Rightarrow> sinn_connection_t \<Rightarrow> mqtt_connect_opt_t option \<Rightarrow> (int \<times> sinn_connection_t) option" where
  "sinn_mqtt_connect now nc op =
     (let op = (case op of None \<Rightarrow> mqtt_connect_opt_init | Some op \<Rightarrow> op);
          nc = nc\<lparr>pd_keep_alive := keep_alive op, pd_next_packetid := 1\<rparr>;
          sb = sc_send_buf nc in
      do { (len, data) \<leftarrow> mqtt_encode_connect (sb_data sb) (unat (sb_len sb))
                            (sint (sb_size sb - sb_len sb)) op;
           let sb = sb\<lparr>sb_data := data\<rparr>;
           if len \<le> 0 then Some (-1, nc\<lparr>sc_send_buf := sb\<rparr>)
           else Some (0, nc\<lparr>sc_send_buf := sb\<lparr>sb_len := sb_len sb + word_of_int len\<rparr>,
                            pd_last_time := now\<rparr>) })"

definition sinn_mqtt_ping :: "u64 \<Rightarrow> sinn_connection_t \<Rightarrow> (int \<times> sinn_connection_t) option" where
  "sinn_mqtt_ping = send_encoded mqtt_encode_ping"

definition sinn_mqtt_disconnect :: "u64 \<Rightarrow> sinn_connection_t \<Rightarrow> (int \<times> sinn_connection_t) option" where
  "sinn_mqtt_disconnect = send_encoded mqtt_encode_disconnect"

definition sinn_mqtt_publish ::
  "u64 \<Rightarrow> sinn_connection_t \<Rightarrow> mqtt_publish_opt_t \<Rightarrow> (int \<times> sinn_connection_t \<times> mqtt_publish_opt_t) option"
where
  "sinn_mqtt_publish now nc op =
     (let (nc, op) = (if po_qos op \<noteq> 0
                      then (let (i, nc) = sinn_mqtt_packetid nc in (nc, op\<lparr>po_packet_id := ucast i\<rparr>))
                      else (nc, op)) in
      do { (len, nc) \<leftarrow> send_encoded (\<lambda>buf off n. mqtt_encode_publish buf off n op) now nc;
           Some (len, nc, op) })"

text \<open>Topics beyond the handler table are stored outside it: undefined.\<close>

fun set_handlers :: "nat \<Rightarrow> bytes option list \<Rightarrow> nat \<Rightarrow> nat \<Rightarrow> message_handler list \<Rightarrow> message_handler list option"
where
  "set_handlers i [] cbs arg hs = Some hs"
| "set_handlers i (t # ts) cbs arg hs =
     (if i < length hs
      then set_handlers (i + 1) ts cbs arg (hs[i := (hs ! i)\<lparr>mh_filter := t, mh_cb := cbs, mh_arg := arg\<rparr>])
      else None)"

definition sinn_mqtt_subscribe ::
  "u64 \<Rightarrow> sinn_connection_t \<Rightarrow> mqtt_subscribe_opt_t \<Rightarrow> nat \<Rightarrow> nat
     \<Rightarrow> (int \<times> sinn_connection_t \<times> mqtt_subscribe_opt_t) option" where
  "sinn_mqtt_subscribe now nc op cbs arg =
     (let (i, nc) = sinn_mqtt_packetid nc; op = op\<lparr>so_packet_id := ucast i\<rparr> in
      do { topics \<leftarrow> fetch 0 (unat (so_count op)) (so_topic op);
           hs \<leftarrow> set_handlers 0 topics cbs arg (pd_handlers nc);
           (len, nc) \<leftarrow> send_encoded (\<lambda>buf off n. mqtt_encode_subscribe buf off n op) now
                          (nc\<lparr>pd_handlers := hs\<rparr>);
           Some (len, nc, op) })"

definition sinn_mqtt_puback ::
  "u64 \<Rightarrow> sinn_connection_t \<Rightarrow> mqtt_puback_opt_t \<Rightarrow> (int \<times> sinn_connection_t) option" where
  "sinn_mqtt_puback now nc op = send_encoded (\<lambda>buf off n. mqtt_encode_puback buf off n op) now nc"

definition sinn_mqtt_unsubscribe ::
  "u64 \<Rightarrow> sinn_connection_t \<Rightarrow> mqtt_unsubscribe_opt_t
     \<Rightarrow> (int \<times> sinn_connection_t \<times> mqtt_unsubscribe_opt_t) option" where
  "sinn_mqtt_unsubscribe now nc op =
     (let (i, nc) = sinn_mqtt_packetid nc; op = op\<lparr>uo_packet_id := ucast i\<rparr> in
      do { (len, nc) \<leftarrow> send_encoded (\<lambda>buf off n. mqtt_encode_unsubscribe buf off n op) now nc;
           Some (len, nc, op) })"

section \<open>The parser\<close>

text \<open>
  \<open>memcmp(t, f, n) == 0\<close> with the terminated string \<open>f\<close>: the first difference decides; without
  one the comparison must not run past the terminator.
\<close>

definition memcmp_eq :: "bytes \<Rightarrow> bytes \<Rightarrow> bool option" where
  "memcmp_eq t f =
     (if length t \<le> length f + 1 then Some (t = take (length t) (f @ [0]))
      else if take (length f + 1) t \<noteq> f @ [0] then Some False else None)"

text \<open>The handlers of a PUBLISH, in the order they are called, with the message as it then is.\<close>

fun dispatch_publish ::
  "bytes \<Rightarrow> message_handler list \<Rightarrow> sinn_mqtt_msg_t
     \<Rightarrow> (sinn_mqtt_msg_t \<times> (nat \<times> sinn_mqtt_msg_t) list) option" where
  "dispatch_publish topic [] amm = Some (amm, [])"
| "dispatch_publish topic (h # hs) amm =
     (case mh_filter h of
        None \<Rightarrow> dispatch_publish topic hs amm
      | Some f \<Rightarrow> do {
          eq \<leftarrow> memcmp_eq topic f;
          if eq
          then do { let amm = amm\<lparr>am_arg := mh_arg h\<rparr>;
                    (amm', calls) \<leftarrow> dispatch_publish topic hs amm;
                    Some (amm', (if mh_efficient h \<noteq> 0 then [(mh_cb h, amm)] else []) @ calls) }
          else dispatch_publish topic hs amm })"

text \<open>The return codes of a SUBACK: which subscriptions become active; a refused one leaves \<^verbatim>\<open>ret[i]\<close> unset.\<close>

fun apply_suback :: "nat \<Rightarrow> bytes \<Rightarrow> message_handler list \<Rightarrow> (message_handler list \<times> u8 option list) option"
where
  "apply_suback i [] hs = Some (hs, [])"
| "apply_suback i (c # cs) hs =
     (if i < length hs
      then do { let hs = hs[i := (hs ! i)\<lparr>mh_efficient := if c \<noteq> 0x80 then 1 else 0\<rparr>];
                (hs, ret) \<leftarrow> apply_suback (i + 1) cs hs;
                Some (hs, (if c \<noteq> 0x80 then Some c else None) # ret) }
      else None)"

text \<open>
  \<open>pub0\<close> and \<open>sub0\<close> are the uninitialised locals of the cases. The result: the return value,
  the message, the handler table, the calls made, the rest of the allocation oracle. The calls are those of the
  table as it is when the message comes: in the code they are made during the loop, so the order is the same, but a handler that
  changes later entries of the table while it runs is not covered.
\<close>

definition sinn_mqtt_parser ::
  "mqtt_publish_in \<Rightarrow> mqtt_suback_opt_t \<Rightarrow> mqtt_puback_opt_t \<Rightarrow> bool list \<Rightarrow> sinn_buf_t
     \<Rightarrow> message_handler list \<Rightarrow> sinn_mqtt_msg_t
     \<Rightarrow> (int \<times> sinn_mqtt_msg_t \<times> message_handler list \<times> (nat \<times> sinn_mqtt_msg_t) list \<times> bool list) option"
where
  "sinn_mqtt_parser pub0 sub0 ack0 os io hs amm =
     do { h \<leftarrow> mqtt_decode_fixhead (sb_data io) 0;
          let amm = amm\<lparr>am_type := fh_type h, am_dup := fh_dup h, am_qos := fh_qos h,
                        am_retained := fh_retain h\<rparr>;
          if sb_len io < 2 then Some (-2, amm, hs, [], os)
          else do {
            (amm, hs, calls, os) \<leftarrow>
              (if am_type amm = type_code CONNACK then
                 (let (ok, os) = alloc os in
                  if \<not> ok then None
                  else do { c \<leftarrow> byte_at (sb_data io) (nat (fh_len h + fh_remaining h - 1));
                            Some (amm\<lparr>am_ret := [Some c]\<rparr>, hs, [], os) })
               else if am_type amm = type_code SUBACK then
                 do { (_, sub, os) \<leftarrow> mqtt_decode_suback os (sb_data io) 0 (fh_len h) sub0;
                      let (ok, os) = alloc os;
                      (hs, ret) \<leftarrow> apply_suback 0 (sa_ret_code sub) hs;
                      if \<not> ok \<and> (\<exists>c \<in> set ret. c \<noteq> None) then None
                      else Some (amm\<lparr>am_ret := ret\<rparr>, hs, [], os) }
               else if am_type amm = type_code PUBLISH then
                 do { (_, pub) \<leftarrow> mqtt_decode_publish (sb_data io) 0 (fh_len h) pub0;
                      let amm = amm\<lparr>am_payloadlen := pi_msg_len pub, am_payload := pi_msg pub,
                                    am_topiclen := ucast (pi_topic_len pub), am_topic := pi_topic pub,
                                    am_id := pi_packet_id pub\<rparr>;
                      topic \<leftarrow> fetch (pi_topic pub) (unat (pi_topic_len pub)) (sb_data io);
                      (amm, calls) \<leftarrow> dispatch_publish topic (take SINN_MQTT_BUILTIN_NUM hs) amm;
                      Some (amm, hs, calls, os) }
               else if am_type amm = type_code PUBREC \<or> am_type amm = type_code PUBREL then
                 do { (_, ack) \<leftarrow> mqtt_decode_puback (sb_data io) 0 (fh_len h) ack0 (am_type amm);
                      Some (amm\<lparr>am_id := pa_packet_id ack\<rparr>, hs, [], os) }
               else Some (amm, hs, [], os));
            let amm = amm\<lparr>am_len := word_of_int (fh_len h + fh_remaining h)\<rparr>;
            Some (sint (am_len amm), amm, hs, calls, os) } }"

section \<open>Events\<close>

text \<open>
  \<open>app ev amm nc\<close> is the application's \<^verbatim>\<open>user_handler\<close>, \<open>run_cbs calls nc\<close> its topic handlers; both
  may change the connection. The loop over the receive buffer: \<^verbatim>\<open>memmove\<close> moves \<^verbatim>\<open>recv_buf.len\<close>
  bytes from behind the packet. A run that leaves the buffer or does not end is \<open>None\<close>.
\<close>

partial_function (option) recv_loop ::
  "((nat \<times> sinn_mqtt_msg_t) list \<Rightarrow> sinn_connection_t \<Rightarrow> sinn_connection_t option)
   \<Rightarrow> (u32 \<Rightarrow> sinn_mqtt_msg_t \<Rightarrow> sinn_connection_t \<Rightarrow> sinn_connection_t option)
   \<Rightarrow> mqtt_publish_in \<Rightarrow> mqtt_suback_opt_t \<Rightarrow> mqtt_puback_opt_t \<Rightarrow> sinn_mqtt_msg_t \<Rightarrow> bool list
   \<Rightarrow> sinn_connection_t \<Rightarrow> sinn_connection_t option" where
  "recv_loop run_cbs app pub0 sub0 ack0 amm os nc =
     do { (len, amm, hs, calls, os) \<leftarrow>
            sinn_mqtt_parser pub0 sub0 ack0 os (sc_recv_buf nc) (pd_handlers nc) amm;
          nc \<leftarrow> run_cbs calls (nc\<lparr>pd_handlers := hs\<rparr>);
          if len \<le> 0 then Some nc
          else do {
            nc \<leftarrow> app (0x100 + ucast (am_type amm)) amm nc;
            let rb = sc_recv_buf nc;
            rest \<leftarrow> fetch (nat len) (unat (sb_len rb)) (sb_data rb);
            data \<leftarrow> put 0 rest (sb_data rb);
            recv_loop run_cbs app pub0 sub0 ack0 amm os
              (nc\<lparr>sc_recv_buf := rb\<lparr>sb_data := data, sb_len := sb_len rb - word_of_int len\<rparr>\<rparr>) } }"

datatype sinn_event =
    SINN_EV_POLL | SINN_EV_CONNECTED | SINN_EV_SEND | SINN_EV_RECV | SINN_EV_CLOSE | SINN_EV_RECONN

definition sinn_mqtt_event_handler ::
  "((nat \<times> sinn_mqtt_msg_t) list \<Rightarrow> sinn_connection_t \<Rightarrow> sinn_connection_t option)
   \<Rightarrow> (u32 \<Rightarrow> sinn_mqtt_msg_t \<Rightarrow> sinn_connection_t \<Rightarrow> sinn_connection_t option)
   \<Rightarrow> (sinn_event \<Rightarrow> sinn_connection_t \<Rightarrow> sinn_connection_t option)
   \<Rightarrow> mqtt_publish_in \<Rightarrow> mqtt_suback_opt_t \<Rightarrow> mqtt_puback_opt_t \<Rightarrow> bool list \<Rightarrow> u64
   \<Rightarrow> sinn_connection_t \<Rightarrow> sinn_event \<Rightarrow> sinn_connection_t option" where
  "sinn_mqtt_event_handler run_cbs app app_event pub0 sub0 ack0 os now nc event =
     do { nc \<leftarrow> app_event event nc;
          case event of
            SINN_EV_RECV \<Rightarrow>
              recv_loop run_cbs app pub0 sub0 ack0
                \<lparr>am_type = 0, am_qos = 0, am_len = 0, am_retained = 0, am_dup = 0, am_id = 0,
                 am_payload = 0, am_payloadlen = 0, am_topic = 0, am_topiclen = 0, am_arg = 0,
                 am_ret = []\<rparr> os nc
          | SINN_EV_POLL \<Rightarrow>
              if now - pd_last_time nc > ucast (pd_keep_alive nc) * 1000 \<and> pd_last_time nc > 0 \<and>
                 pd_keep_alive nc > 0
              then map_option snd (sinn_mqtt_ping now nc)
              else Some nc
          | _ \<Rightarrow> Some nc }"


section \<open>Reading and writing\<close>

abbreviation "SINN_FG_CONNECTING \<equiv> 0x2 :: u32"
abbreviation "SINN_FG_CAN_RD \<equiv> 0x4 :: u32"
abbreviation "SINN_FG_CAN_WR \<equiv> 0x8 :: u32"
abbreviation "SINN_FG_RECONNECT \<equiv> 0x20 :: u32"

type_synonym sinn_handler = "sinn_event \<Rightarrow> sinn_connection_t \<Rightarrow> sinn_connection_t option"

text \<open>The protocol handler if one is registered, else the application's.\<close>

definition sinn_dispatch_event ::
  "sinn_handler option \<Rightarrow> sinn_handler option \<Rightarrow> sinn_handler option \<Rightarrow> sinn_event
     \<Rightarrow> sinn_connection_t \<Rightarrow> sinn_connection_t option" where
  "sinn_dispatch_event event_handler proto_handler user_handler event nc =
     (case (case event_handler of
              None \<Rightarrow> (case proto_handler of Some f \<Rightarrow> Some f | None \<Rightarrow> user_handler)
            | Some f \<Rightarrow> Some f) of
        None \<Rightarrow> Some nc
      | Some f \<Rightarrow> f event nc)"

definition sinn_nc_connect_cb ::
  "sinn_handler option \<Rightarrow> sinn_handler option \<Rightarrow> sinn_connection_t \<Rightarrow> sinn_connection_t option" where
  "sinn_nc_connect_cb ph uh nc =
     sinn_dispatch_event None ph uh SINN_EV_CONNECTED
       (nc\<lparr>sc_flags := sc_flags nc AND NOT SINN_FG_CONNECTING\<rparr>)"

text \<open>\<open>if_send\<close> gives the number of bytes the transport took, negative for an error.\<close>

definition sinn_nc_can_write_cb ::
  "(bytes \<Rightarrow> int) \<Rightarrow> u64 \<Rightarrow> sinn_handler option \<Rightarrow> sinn_handler option \<Rightarrow> sinn_connection_t
     \<Rightarrow> sinn_connection_t option" where
  "sinn_nc_can_write_cb if_send now ph uh nc =
     (if sc_sock_fd nc = -1 then Some nc
      else do {
        let nc = nc\<lparr>sc_flags := sc_flags nc AND NOT SINN_FG_CAN_WR\<rparr>;
        let sb = sc_send_buf nc;
        rc \<leftarrow> (if sb_len sb > 0 then map_option if_send (fetch 0 (unat (sb_len sb)) (sb_data sb))
               else Some 0);
        if rc < 0 then Some (nc\<lparr>sc_flags := sc_flags nc AND NOT SINN_FG_CAN_WR\<rparr>)
        else do {
          nc \<leftarrow>
            (if rc > 0
             then do {
               data \<leftarrow> (if sb_len sb > word_of_int rc
                        then do { rest \<leftarrow> fetch (nat rc) (unat (sb_len sb - word_of_int rc)) (sb_data sb);
                                  put 0 rest (sb_data sb) }
                        else Some (sb_data sb));
               Some (nc\<lparr>sc_last_time := now,
                        sc_send_buf := sb\<lparr>sb_data := data, sb_len := sb_len sb - word_of_int rc\<rparr>,
                        sc_flags := sc_flags nc OR SINN_FG_CAN_WR\<rparr>) }
             else Some (nc\<lparr>sc_flags := sc_flags nc OR SINN_FG_CAN_WR\<rparr>));
          sinn_dispatch_event None ph uh SINN_EV_SEND nc } })"

text \<open>\<open>if_recv n\<close> gives the result of the transport for room of \<open>n\<close> bytes and the bytes it stored.\<close>

definition sinn_nc_can_read_cb ::
  "(nat \<Rightarrow> int \<times> bytes) \<Rightarrow> u64 \<Rightarrow> sinn_handler option \<Rightarrow> sinn_handler option \<Rightarrow> sinn_connection_t
     \<Rightarrow> sinn_connection_t option" where
  "sinn_nc_can_read_cb if_recv now ph uh nc =
     (let rb = sc_recv_buf nc; len = sb_size rb - sb_len rb;
          nc = nc\<lparr>sc_flags := sc_flags nc AND NOT SINN_FG_CAN_RD\<rparr> in
      if sc_sock_fd nc = -1 then Some nc
      else do {
        let (rc, got) = (if len > 0 then if_recv (unat len) else (0, []));
        data \<leftarrow> put (unat (sb_len rb)) got (sb_data rb);
        let nc = nc\<lparr>sc_recv_buf := rb\<lparr>sb_data := data\<rparr>\<rparr>;
        if rc < 0 then Some (nc\<lparr>sc_flags := sc_flags nc AND NOT SINN_FG_CAN_RD\<rparr>)
        else if rc = 0 then Some (nc\<lparr>sc_flags := sc_flags nc OR SINN_FG_CAN_RD\<rparr>)
        else do {
          nc \<leftarrow> sinn_dispatch_event None ph uh SINN_EV_RECV
                 (nc\<lparr>sc_last_time := now,
                     sc_recv_buf := (sc_recv_buf nc)\<lparr>sb_len := sb_len rb + word_of_int rc\<rparr>\<rparr>);
          Some (nc\<lparr>sc_flags := sc_flags nc OR SINN_FG_CAN_RD\<rparr>) } })"

definition sinn_nc_poll_cb ::
  "sinn_handler option \<Rightarrow> sinn_handler option \<Rightarrow> sinn_connection_t \<Rightarrow> (int \<times> sinn_connection_t) option"
where
  "sinn_nc_poll_cb ph uh nc =
     (if sc_flags nc AND SINN_FG_RECONNECT \<noteq> 0
      then map_option (Pair 1) (sinn_dispatch_event None ph uh SINN_EV_RECONN
             (nc\<lparr>sc_flags := sc_flags nc AND NOT SINN_FG_RECONNECT\<rparr>))
      else map_option (Pair 0) (sinn_dispatch_event None ph uh SINN_EV_POLL nc))"

definition sinn_mgr_handle_conn ::
  "(bytes \<Rightarrow> int) \<Rightarrow> (nat \<Rightarrow> int \<times> bytes) \<Rightarrow> u64 \<Rightarrow> sinn_handler option \<Rightarrow> sinn_handler option
     \<Rightarrow> sinn_connection_t \<Rightarrow> sinn_connection_t option" where
  "sinn_mgr_handle_conn if_send if_recv now ph uh nc =
     do { (r, nc) \<leftarrow> sinn_nc_poll_cb ph uh nc;
          if r \<noteq> 0 then Some nc
          else do {
            nc \<leftarrow> (if sc_flags nc AND SINN_FG_CONNECTING \<noteq> 0 then sinn_nc_connect_cb ph uh nc else Some nc);
            nc \<leftarrow> (if sc_flags nc AND SINN_FG_CAN_RD \<noteq> 0
                   then sinn_nc_can_read_cb if_recv now ph uh nc else Some nc);
            if sc_flags nc AND SINN_FG_CAN_WR \<noteq> 0
            then sinn_nc_can_write_cb if_send now ph uh nc else Some nc } }"

section \<open>Lemmas\<close>

definition buf_ok :: "sinn_buf_t \<Rightarrow> bool" where
  "buf_ok b \<longleftrightarrow> unat (sb_size b) = length (sb_data b) \<and> sb_len b \<le> sb_size b"

definition buf_contents :: "sinn_buf_t \<Rightarrow> bytes" where
  "buf_contents b = take (unat (sb_len b)) (sb_data b)"

lemma packetid_step:
  "1 \<le> uint (pd_next_packetid nc) \<Longrightarrow> uint (pd_next_packetid nc) \<le> 65535 \<Longrightarrow>
     uint (fst (sinn_mqtt_packetid nc)) = uint (pd_next_packetid nc) mod 65535 + 1 \<and>
     pd_next_packetid (snd (sinn_mqtt_packetid nc)) = fst (sinn_mqtt_packetid nc)"
proof -
  assume r: "1 \<le> uint (pd_next_packetid nc)" "uint (pd_next_packetid nc) \<le> 65535"
  show ?thesis
  proof (cases "pd_next_packetid nc = MAX_PACKET_ID")
    case True
    then show ?thesis by (simp add: sinn_mqtt_packetid_def)
  next
    case False
    then have "uint (pd_next_packetid nc) \<noteq> uint (MAX_PACKET_ID)"
      by (metis word_uint_eq_iff)
    then have lt: "uint (pd_next_packetid nc) < 65535" using r by simp
    then have "uint (pd_next_packetid nc + 1) = uint (pd_next_packetid nc) + 1"
      by (simp add: uint_word_ariths)
    then show ?thesis using False lt r by (simp add: sinn_mqtt_packetid_def Let_def)
  qed
qed

fun packetids :: "nat \<Rightarrow> sinn_connection_t \<Rightarrow> u32 list" where
  "packetids 0 nc = []"
| "packetids (Suc n) nc = (let (i, nc) = sinn_mqtt_packetid nc in i # packetids n nc)"

lemma packetids_nth:
  "1 \<le> uint (pd_next_packetid nc) \<Longrightarrow> uint (pd_next_packetid nc) \<le> 65535 \<Longrightarrow> k < n \<Longrightarrow>
     uint (packetids n nc ! k) = (uint (pd_next_packetid nc) + int k) mod 65535 + 1"
proof (induction n arbitrary: nc k)
  case (Suc n)
  obtain i nc' where p: "sinn_mqtt_packetid nc = (i, nc')" by (cases "sinn_mqtt_packetid nc")
  have s: "uint i = uint (pd_next_packetid nc) mod 65535 + 1" "pd_next_packetid nc' = i"
    using packetid_step[OF Suc.prems(1,2)] p by simp_all
  show ?case
  proof (cases k)
    case 0
    then show ?thesis using p s by simp
  next
    case (Suc j)
    have "uint (packetids n nc' ! j) = (uint i + int j) mod 65535 + 1"
      using Suc.IH[of nc' j] s Suc Suc.prems(3) by auto
    moreover have "uint i + int j = uint (pd_next_packetid nc) mod 65535 + (1 + int j)"
      using s by simp
    ultimately show ?thesis using p Suc by (simp only: mod_add_left_eq) (simp add: algebra_simps)
  qed
qed simp

lemma memcmp_eq_prefix:
  "0 \<notin> set t \<Longrightarrow> memcmp_eq t f = Some (take (length t) f = t)"
proof -
  assume nz: "0 \<notin> set t"
  have "t \<noteq> f @ [0]" using nz by auto
  moreover have "take (length f + 1) t \<noteq> f @ [0]"
    using nz by (metis in_set_conv_decomp in_set_takeD)
  moreover have "length t = length f + 1 \<Longrightarrow> take (length t) f \<noteq> t"
    by (metis length_take min.absorb2 n_not_Suc_n Suc_eq_plus1 le_add1 min.commute)
  ultimately show ?thesis
    by (auto simp: memcmp_eq_def le_Suc_eq)
qed

definition handles :: "bytes \<Rightarrow> message_handler \<Rightarrow> bool" where
  "handles t h \<longleftrightarrow> mh_efficient h \<noteq> 0 \<and> (\<exists>f. mh_filter h = Some f \<and> take (length t) f = t)"

lemma dispatch_calls:
  "0 \<notin> set t \<Longrightarrow> \<exists>amm' calls. dispatch_publish t hs amm = Some (amm', calls) \<and>
     map fst calls = map mh_cb (filter (handles t) hs) \<and>
     (\<forall>c \<in> set calls. am_payload (snd c) = am_payload amm \<and> am_topic (snd c) = am_topic amm)"
proof (induction hs arbitrary: amm)
  case (Cons h hs)
  show ?case
  proof (cases "mh_filter h")
    case None
    then show ?thesis using Cons by (auto simp: handles_def)
  next
    case (Some f)
    show ?thesis
    proof (cases "take (length t) f = t")
      case True
      obtain amm' calls where "dispatch_publish t hs (amm\<lparr>am_arg := mh_arg h\<rparr>) = Some (amm', calls)"
        "map fst calls = map mh_cb (filter (handles t) hs)"
        "\<forall>c \<in> set calls. am_payload (snd c) = am_payload amm \<and> am_topic (snd c) = am_topic amm"
        using Cons.IH[OF Cons.prems, of "amm\<lparr>am_arg := mh_arg h\<rparr>"] by auto
      moreover have "handles t h = (mh_efficient h \<noteq> 0)" using Some True by (simp add: handles_def)
      ultimately show ?thesis using Some True Cons.prems by (auto simp: memcmp_eq_prefix)
    next
      case False
      then have "\<not> handles t h" using Some by (simp add: handles_def)
      then show ?thesis using Some False Cons by (auto simp: memcmp_eq_prefix)
    qed
  qed
qed simp


section \<open>Properties\<close>

lemma mod_add_inj: "(p + int j) mod m = (p + int k) mod m \<Longrightarrow> int j < m \<Longrightarrow> int k < m \<Longrightarrow> j = k"
proof -
  assume e: "(p + int j) mod m = (p + int k) mod m" and l: "int j < m" "int k < m"
  have "m dvd (p + int j) - (p + int k)" using e by (simp add: mod_eq_dvd_iff)
  then have "m dvd int j - int k" by simp
  moreover have "\<not> m \<le> \<bar>int j - int k\<bar>" using l by linarith
  ultimately have "int j - int k = 0" using dvd_imp_le_int[of "int j - int k" m] l by fastforce
  then show "j = k" by simp
qed

text \<open>C32. Packet identifiers: from any state after a connect, the identifiers of the next 65535
  requests are the numbers 1 to 65535, each once; so an identifier is never 0, always
  fits its 16 bits, and is not reused while fewer than 65535 newer requests are open.\<close>

theorem sinn_packetids_distinct:
  assumes "1 \<le> uint (pd_next_packetid nc)" and "uint (pd_next_packetid nc) \<le> 65535" and "n \<le> 65535"
  shows "distinct (packetids n nc) \<and> length (packetids n nc) = n \<and>
    (\<forall>i \<in> set (packetids n nc). 1 \<le> uint i \<and> uint i \<le> 65535)"
proof -
  have len: "length (packetids n nc) = n"
    by (induction n arbitrary: nc) (auto simp: case_prod_beta' Let_def)
  note nth = packetids_nth[OF assms(1,2), of _ n]
  have "distinct (packetids n nc)"
    unfolding distinct_conv_nth len
  proof (intro allI impI)
    fix j k assume jk: "j < n" "k < n" "j \<noteq> k"
    show "packetids n nc ! j \<noteq> packetids n nc ! k"
    proof
      assume "packetids n nc ! j = packetids n nc ! k"
      then have "(uint (pd_next_packetid nc) + int j) mod 65535 = (uint (pd_next_packetid nc) + int k) mod 65535"
        using nth[OF jk(1)] nth[OF jk(2)] by simp
      then show False using mod_add_inj[of _ j 65535 k] jk assms(3) by simp
    qed
  qed
  moreover have "1 \<le> uint i \<and> uint i \<le> 65535" if "i \<in> set (packetids n nc)" for i
  proof -
    obtain k where "k < n" "i = packetids n nc ! k" using \<open>i \<in> _\<close> len by (metis in_set_conv_nth)
    then show ?thesis using nth[of k] by simp
  qed
  ultimately show ?thesis using len by blast
qed

lemma sint_small: "0 \<le> x \<Longrightarrow> x < 2 ^ 31 \<Longrightarrow> sint (word_of_int x :: u32) = x"
  by (simp add: signed_of_int signed_take_bit_int_eq_self)

definition nc0 :: sinn_connection_t where
  "nc0 = \<lparr>sc_flags = 0, sc_sock_fd = 3,
     sc_recv_buf = \<lparr>sb_data = [], sb_len = 0, sb_size = 0\<rparr>,
     sc_send_buf = \<lparr>sb_data = [1, 2, 3, 4], sb_len = 3, sb_size = 4\<rparr>, sc_last_time = 0,
     pd_keep_alive = 0, pd_last_time = 0, pd_next_packetid = 65534, pd_handlers = []\<rparr>"

lemma sinn_packetids_distinct_witness:
  "distinct (packetids 4 nc0) \<and> length (packetids 4 nc0) = 4 \<and>
    list_all (\<lambda>i. 1 \<le> uint i \<and> uint i \<le> 65535) (packetids 4 nc0)"
  using sinn_packetids_distinct[of nc0 4] by (simp add: nc0_def list_all_iff)

text \<open>C36. Delivery of a PUBLISH: the parser calls exactly the active handlers whose filter begins
  with the topic, in the order of the table, with the decoded message; and returns the
  length of the packet. A filter that is longer than the topic matches too: the comparison
  stops at the end of the topic, not of the filter.\<close>

theorem sinn_publish_dispatch:
  assumes "mqtt_decode_fixhead (sb_data io) 0 = Some h" and "fh_type h = type_code PUBLISH"
    and "2 \<le> sb_len io" and "mqtt_decode_publish (sb_data io) 0 (fh_len h) pub0 = Some (0, pub)"
    and "fetch (pi_topic pub) (unat (pi_topic_len pub)) (sb_data io) = Some t" and "0 \<notin> set t"
    and "length hs = SINN_MQTT_BUILTIN_NUM" and "0 \<le> fh_len h + fh_remaining h"
    and "fh_len h + fh_remaining h < 2 ^ 31"
  shows "\<exists>amm' calls. sinn_mqtt_parser pub0 sub0 ack0 os io hs amm =
      Some (fh_len h + fh_remaining h, amm', hs, calls, os) \<and>
    map fst calls = map mh_cb (filter (\<lambda>h. mh_efficient h \<noteq> 0 \<and>
      (\<exists>f. mh_filter h = Some f \<and> take (length t) f = t)) hs) \<and>
    (\<forall>c \<in> set calls. am_payload (snd c) = pi_msg pub \<and> am_topic (snd c) = pi_topic pub)"
proof -
  let ?amm = "amm\<lparr>am_type := fh_type h, am_dup := fh_dup h, am_qos := fh_qos h,
      am_retained := fh_retain h, am_payloadlen := pi_msg_len pub, am_payload := pi_msg pub,
      am_topiclen := ucast (pi_topic_len pub), am_topic := pi_topic pub, am_id := pi_packet_id pub\<rparr>"
  obtain amm' calls where d: "dispatch_publish t hs ?amm = Some (amm', calls)"
    "map fst calls = map mh_cb (filter (handles t) hs)"
    "\<forall>c \<in> set calls. am_payload (snd c) = am_payload ?amm \<and> am_topic (snd c) = am_topic ?amm"
    using dispatch_calls[OF assms(6), of hs ?amm] by blast
  have l: "sint (word_of_int (fh_len h + fh_remaining h) :: u32) = fh_len h + fh_remaining h"
    by (rule sint_small) (use assms(8,9) in auto)
  have nl: "\<not> sb_len io < 2" using assms(3) by simp
  have "sinn_mqtt_parser pub0 sub0 ack0 os io hs amm =
      Some (fh_len h + fh_remaining h, amm'\<lparr>am_len := word_of_int (fh_len h + fh_remaining h)\<rparr>, hs, calls, os)"
    using assms(1,2,4,5,7) nl d(1) l by (simp add: sinn_mqtt_parser_def Let_def)
  moreover have "map fst calls = map mh_cb (filter (\<lambda>h. mh_efficient h \<noteq> 0 \<and>
      (\<exists>f. mh_filter h = Some f \<and> take (length t) f = t)) hs)"
    using d(2) by (simp add: handles_def[abs_def])
  ultimately show ?thesis using d(3) by auto
qed

lemma sinn_publish_dispatch_witness:
  "\<exists>amm' calls. sinn_mqtt_parser
      \<lparr>pi_topic = 0, pi_topic_len = 0, pi_packet_id = 0, pi_msg = 0, pi_msg_len = 0, pi_dup = 0,
       pi_qos = 0, pi_retain = 0\<rparr>
      \<lparr>sa_count = 0, sa_packet_id = 0, sa_ret_code = []\<rparr> \<lparr>pa_type = 0, pa_packet_id = 0\<rparr> []
      \<lparr>sb_data = [0x30, 6, 0, 2, 0x61, 0x62, 0x68, 0x69], sb_len = 8, sb_size = 8\<rparr>
      (\<lparr>mh_efficient = 1, mh_filter = Some [0x61, 0x62, 0x63], mh_cb = 7, mh_arg = 0\<rparr> #
        replicate 4 \<lparr>mh_efficient = 0, mh_filter = None, mh_cb = 0, mh_arg = 0\<rparr>)
      \<lparr>am_type = 0, am_qos = 0, am_len = 0, am_retained = 0, am_dup = 0, am_id = 0,
       am_payload = 0, am_payloadlen = 0, am_topic = 0, am_topiclen = 0, am_arg = 0,
       am_ret = []\<rparr> = Some (8, amm', (\<lparr>mh_efficient = 1, mh_filter = Some [0x61, 0x62, 0x63], mh_cb = 7, mh_arg = 0\<rparr> #
        replicate 4 \<lparr>mh_efficient = 0, mh_filter = None, mh_cb = 0, mh_arg = 0\<rparr>), calls, []) \<and>
    map fst calls = [7]"
proof -
  let ?io = "\<lparr>sb_data = [0x30, 6, 0, 2, 0x61, 0x62, 0x68, 0x69], sb_len = 8, sb_size = 8\<rparr> :: sinn_buf_t"
  let ?h = "\<lparr>fh_len = 2, fh_type = 3, fh_dup = 0, fh_qos = 0, fh_retain = 0, fh_remaining = 6\<rparr>"
  let ?pub0 = "\<lparr>pi_topic = 0, pi_topic_len = 0, pi_packet_id = 0, pi_msg = 0, pi_msg_len = 0, pi_dup = 0,
       pi_qos = 0, pi_retain = 0\<rparr>"
  have dl: "mqtt_decode_len (sb_data ?io) 1 = Some (1, 6)"
    by (simp add: mqtt_decode_len_def mqtt_decode_len_loop.simps byte_at_def c_int_def)
  have h: "mqtt_decode_fixhead (sb_data ?io) 0 = Some ?h"
    using dl by (simp add: mqtt_decode_fixhead_def byte_at_def)
  have p: "mqtt_decode_publish (sb_data ?io) 0 (fh_len ?h) ?pub0 =
      Some (0, ?pub0\<lparr>pi_topic := 4, pi_topic_len := 2, pi_msg := 6, pi_msg_len := 2\<rparr>)"
    using h by (simp add: mqtt_decode_publish_def mqtt_decode_string_def mqtt_decode_num_def byte_at_def)
  have f: "fetch 4 2 (sb_data ?io) = Some [0x61, 0x62]" by (simp add: fetch_def)
  from sinn_publish_dispatch[OF h _ _ p, of "[0x61, 0x62]"
      "\<lparr>mh_efficient = 1, mh_filter = Some [0x61, 0x62, 0x63], mh_cb = 7, mh_arg = 0\<rparr> #
        replicate 4 \<lparr>mh_efficient = 0, mh_filter = None, mh_cb = 0, mh_arg = 0\<rparr>"] f
  show ?thesis by (fastforce simp: filter_replicate)
qed

text \<open>Writing is a stream: whatever part of the send buffer the transport takes, the bytes it did
  not take stay, in order and from the start of the buffer, for the next call; and the
  buffer stays well-formed.\<close>

theorem sinn_write_stream:
  assumes "buf_ok (sc_send_buf nc)" and "sc_sock_fd nc \<noteq> -1"
    and "rc = if_send (buf_contents (sc_send_buf nc))" and "0 \<le> rc"
    and "rc \<le> int (length (buf_contents (sc_send_buf nc)))" and "0 < sb_len (sc_send_buf nc)"
  shows "\<exists>nc'. sinn_nc_can_write_cb if_send now ph uh nc = sinn_dispatch_event None ph uh SINN_EV_SEND nc' \<and>
    buf_ok (sc_send_buf nc') \<and>
    buf_contents (sc_send_buf nc') = drop (nat rc) (buf_contents (sc_send_buf nc))"
proof -
  let ?sb = "sc_send_buf nc"
  let ?n = "unat (sb_len ?sb)"
  have sz: "?n \<le> length (sb_data ?sb)" using assms(1) by (simp add: buf_ok_def word_le_nat_alt)
  then have c: "fetch 0 ?n (sb_data ?sb) = Some (buf_contents ?sb)" "length (buf_contents ?sb) = ?n"
    by (simp_all add: fetch_def buf_contents_def)
  have "?n < 2 ^ 64" using unsigned_less[of "sb_len ?sb", where ?'a = nat] by simp
  then have "int ?n < int (2 ^ 64)" by (simp only: of_nat_less_iff)
  then have "rc < 2 ^ 64" using assms(5) unfolding c(2) by simp
  then have u: "unat (word_of_int rc :: u64) = nat rc"
    using assms(4) by (simp add: unsigned_of_int take_bit_int_eq_self)
  have us: "unat (sb_len ?sb - word_of_int rc) = ?n - nat rc"
    using assms(4,5) c(2) u by (simp add: unat_sub word_le_nat_alt nat_le_iff)
  show ?thesis
  proof (cases "rc = 0")
    case True
    then show ?thesis using assms c
      by (intro exI[of _ "nc\<lparr>sc_flags := (sc_flags nc AND NOT SINN_FG_CAN_WR) OR SINN_FG_CAN_WR\<rparr>"])
        (simp add: sinn_nc_can_write_cb_def Let_def)
  next
    case False
    then have pos: "0 < rc" using assms(4) by simp
    have gt: "word_of_int rc < sb_len ?sb \<longleftrightarrow> nat rc < ?n" using u by (simp add: word_less_nat_alt)
    define data where "data = (if nat rc < ?n
        then drop (nat rc) (buf_contents ?sb) @ drop (?n - nat rc) (sb_data ?sb) else sb_data ?sb)"
    let ?nc = "nc\<lparr>sc_last_time := now,
      sc_send_buf := ?sb\<lparr>sb_data := data, sb_len := sb_len ?sb - word_of_int rc\<rparr>,
      sc_flags := (sc_flags nc AND NOT SINN_FG_CAN_WR) OR SINN_FG_CAN_WR\<rparr>"
    have d: "(if word_of_int rc < sb_len ?sb
        then Option.bind (fetch (nat rc) (unat (sb_len ?sb - word_of_int rc)) (sb_data ?sb))
               (\<lambda>rest. put 0 rest (sb_data ?sb))
        else Some (sb_data ?sb)) = Some data"
      using sz us by (auto simp: gt data_def fetch_def put_def buf_contents_def take_drop min_def)
    have "sinn_nc_can_write_cb if_send now ph uh nc = sinn_dispatch_event None ph uh SINN_EV_SEND ?nc"
    proof (cases "word_of_int rc < sb_len ?sb")
      case True
      then obtain rest where
        "fetch (nat rc) (unat (sb_len ?sb - word_of_int rc)) (sb_data ?sb) = Some rest"
        "put 0 rest (sb_data ?sb) = Some data"
        using d by (auto simp: bind_eq_Some_conv)
      then show ?thesis using assms(2,6) c(1) assms(3)[symmetric] pos True
        by (simp add: sinn_nc_can_write_cb_def Let_def)
    next
      case False
      then have "?sb\<lparr>sb_data := data, sb_len := sb_len ?sb - word_of_int rc\<rparr> =
          ?sb\<lparr>sb_len := sb_len ?sb - word_of_int rc\<rparr>"
        using d by (cases "sc_send_buf nc") simp
      then show ?thesis using assms(2,6) c(1) assms(3)[symmetric] pos False
        by (simp add: sinn_nc_can_write_cb_def Let_def)
    qed
    moreover have "buf_ok (sc_send_buf ?nc)"
      using assms(1,5) sz us c(2) by (auto simp: buf_ok_def data_def word_le_nat_alt)
    moreover have "buf_contents (sc_send_buf ?nc) = drop (nat rc) (buf_contents ?sb)"
      using sz us c(2) by (auto simp: buf_contents_def data_def)
    ultimately show ?thesis by blast
  qed
qed

lemma sinn_write_stream_witness:
  "\<exists>nc'. sinn_nc_can_write_cb (\<lambda>bs. 2) 9 None None nc0 = Some nc' \<and>
    buf_contents (sc_send_buf nc') = [3]"
  using sinn_write_stream[of nc0 2 "\<lambda>bs. 2" 9 None None]
  by (auto simp: nc0_def buf_ok_def buf_contents_def sinn_dispatch_event_def)

end
