(* ===== verification/Storage.thy ===== *)
theory Storage
  imports Prelude
begin

text \<open>
  The storage devices and partitions of \<^verbatim>\<open>storage/storage.c\<close> and \<^verbatim>\<open>storage/partition.c\<close>. The
  operations of a device are functions of the application on the state of the flash; they
  are parameters, stored in the device table. Addresses and lengths are 32-bit words, and
  their sums wrap as in the code. An access outside a table is \<open>None\<close>.
\<close>

section \<open>Devices\<close>

type_synonym ('r, 'f) flash_op = "'f \<Rightarrow> 'r \<times> 'f"

record 'f storage_device =
  sd_id :: int
  sd_name :: "string option"
  sd_size :: u32
  sd_init :: "('f \<Rightarrow> 'f) option"
  sd_read :: "(u32 \<Rightarrow> u32 \<Rightarrow> (int \<times> bytes, 'f) flash_op) option"
  sd_write :: "(bytes \<Rightarrow> u32 \<Rightarrow> u32 \<Rightarrow> (int, 'f) flash_op) option"
  sd_erase :: "(u32 \<Rightarrow> u32 \<Rightarrow> (int, 'f) flash_op) option"
  sd_erase_write :: "(bytes \<Rightarrow> u32 \<Rightarrow> u32 \<Rightarrow> (int, 'f) flash_op) option"

record 'f storage_state =
  s_device :: "'f storage_device list option"
  max_dev_num :: u32

text \<open>The loop over the devices to install: each \<^verbatim>\<open>init\<close> that is set.\<close>

fun init_devices :: "nat \<Rightarrow> 'f storage_device list \<Rightarrow> 'f \<Rightarrow> 'f option" where
  "init_devices 0 ds f = Some f"
| "init_devices (Suc n) [] f = None"
| "init_devices (Suc n) (d # ds) f =
     init_devices n ds (case sd_init d of None \<Rightarrow> f | Some op \<Rightarrow> op f)"

definition storage_dev_install ::
  "'f storage_device list option \<Rightarrow> u32 \<Rightarrow> 'f storage_state \<Rightarrow> 'f \<Rightarrow> (int \<times> 'f storage_state \<times> 'f) option"
where
  "storage_dev_install dev max_num st f =
     (case dev of
        Some ds \<Rightarrow>
          if s_device st = None
          then do { f \<leftarrow> init_devices (unat max_num) ds f;
                    Some (0, st\<lparr>s_device := dev, max_dev_num := max_num\<rparr>, f) }
          else Some (-1, st, f)
      | None \<Rightarrow> Some (-1, st, f))"

definition storage_dev_uninstall :: "'f storage_state \<Rightarrow> int \<times> 'f storage_state" where
  "storage_dev_uninstall st =
     (if s_device st \<noteq> None then (0, st\<lparr>s_device := None, max_dev_num := 0\<rparr>) else (-1, st))"

text \<open>The device that the guard \<^verbatim>\<open>dev_id < max_dev_num && s_device != NULL\<close> selects.\<close>

definition device_op ::
  "'f storage_state \<Rightarrow> u32 \<Rightarrow> ('f storage_device \<Rightarrow> 'op option) \<Rightarrow> 'op option option" where
  "device_op st dev_id sel =
     (case s_device st of
        Some ds \<Rightarrow> if dev_id < max_dev_num st then map_option sel (byte_at ds (unat dev_id)) else Some None
      | None \<Rightarrow> Some None)"

definition storage_device_erase ::
  "u32 \<Rightarrow> u32 \<Rightarrow> u32 \<Rightarrow> 'f storage_state \<Rightarrow> 'f \<Rightarrow> (int \<times> 'f) option" where
  "storage_device_erase dev_id addr len st f =
     map_option (\<lambda>op. case op of None \<Rightarrow> (-1, f) | Some op \<Rightarrow> op addr len f)
       (device_op st dev_id sd_erase)"

definition storage_device_erase_write ::
  "u32 \<Rightarrow> bytes \<Rightarrow> u32 \<Rightarrow> u32 \<Rightarrow> 'f storage_state \<Rightarrow> 'f \<Rightarrow> (int \<times> 'f) option" where
  "storage_device_erase_write dev_id buf len addr st f =
     map_option (\<lambda>op. case op of None \<Rightarrow> (-1, f) | Some op \<Rightarrow> op buf len addr f)
       (device_op st dev_id sd_erase_write)"

definition storage_device_write ::
  "u32 \<Rightarrow> bytes \<Rightarrow> u32 \<Rightarrow> u32 \<Rightarrow> 'f storage_state \<Rightarrow> 'f \<Rightarrow> (int \<times> 'f) option" where
  "storage_device_write dev_id buf len addr st f =
     map_option (\<lambda>op. case op of None \<Rightarrow> (-1, f) | Some op \<Rightarrow> op buf len addr f)
       (device_op st dev_id sd_write)"

definition storage_device_read ::
  "u32 \<Rightarrow> u32 \<Rightarrow> u32 \<Rightarrow> 'f storage_state \<Rightarrow> 'f \<Rightarrow> ((int \<times> bytes) \<times> 'f) option" where
  "storage_device_read dev_id len addr st f =
     map_option (\<lambda>op. case op of None \<Rightarrow> ((-1, []), f) | Some op \<Rightarrow> op len addr f)
       (device_op st dev_id sd_read)"

section \<open>Partitions\<close>

record storage_partition =
  sp_dev_id :: u8
  sp_name :: "string option"
  sp_start_addr :: u32
  sp_size :: u32

record partition_state =
  s_partition :: "storage_partition list option"
  max_part_num :: int

definition storage_partition_init ::
  "storage_partition list option \<Rightarrow> int \<Rightarrow> partition_state \<Rightarrow> int \<times> partition_state" where
  "storage_partition_init part max_num ps =
     (if part \<noteq> None \<and> s_partition ps = None
      then (0, ps\<lparr>s_partition := part, max_part_num := max_num\<rparr>) else (-1, ps))"

definition storage_partition_deinit :: "partition_state \<Rightarrow> int \<times> partition_state" where
  "storage_partition_deinit ps =
     (if s_partition ps \<noteq> None then (0, ps\<lparr>s_partition := None, max_part_num := 0\<rparr>) else (-1, ps))"

text \<open>\<^verbatim>\<open>&s_partition[part_id]\<close>: only the upper bound of \<open>part_id\<close> has been checked.\<close>

definition partition_at :: "partition_state \<Rightarrow> int \<Rightarrow> storage_partition option" where
  "partition_at ps part_id =
     do { parts \<leftarrow> s_partition ps; if part_id < 0 then None else byte_at parts (nat part_id) }"

text \<open>The check of all four operations, as the code has it.\<close>

definition partition_refuses :: "storage_partition \<Rightarrow> u32 \<Rightarrow> u32 \<Rightarrow> bool" where
  "partition_refuses sp len offset \<longleftrightarrow> offset + len > sp_start_addr sp + sp_size sp"

definition storage_partition_read ::
  "int \<Rightarrow> bool \<Rightarrow> u32 \<Rightarrow> u32 \<Rightarrow> partition_state \<Rightarrow> 'f storage_state \<Rightarrow> 'f \<Rightarrow> ((int \<times> bytes) \<times> 'f) option"
where
  "storage_partition_read part_id has_buf len offset ps st f =
     (if part_id \<ge> max_part_num ps \<or> \<not> has_buf then Some ((-1, []), f)
      else do { sp \<leftarrow> partition_at ps part_id;
                if partition_refuses sp len offset then Some ((-1, []), f)
                else storage_device_read (ucast (sp_dev_id sp)) len (sp_start_addr sp + offset) st f })"

definition storage_partition_write ::
  "int \<Rightarrow> bytes option \<Rightarrow> u32 \<Rightarrow> u32 \<Rightarrow> partition_state \<Rightarrow> 'f storage_state \<Rightarrow> 'f \<Rightarrow> (int \<times> 'f) option"
where
  "storage_partition_write part_id buf len offset ps st f =
     (case buf of
        None \<Rightarrow> Some (-1, f)
      | Some buf \<Rightarrow>
          if part_id \<ge> max_part_num ps then Some (-1, f)
          else do { sp \<leftarrow> partition_at ps part_id;
                    if partition_refuses sp len offset then Some (-1, f)
                    else storage_device_write (ucast (sp_dev_id sp)) buf len (sp_start_addr sp + offset) st f })"

definition storage_partition_erase_write ::
  "int \<Rightarrow> bytes option \<Rightarrow> u32 \<Rightarrow> u32 \<Rightarrow> partition_state \<Rightarrow> 'f storage_state \<Rightarrow> 'f \<Rightarrow> (int \<times> 'f) option"
where
  "storage_partition_erase_write part_id buf len offset ps st f =
     (case buf of
        None \<Rightarrow> Some (-1, f)
      | Some buf \<Rightarrow>
          if part_id \<ge> max_part_num ps then Some (-1, f)
          else do { sp \<leftarrow> partition_at ps part_id;
                    if partition_refuses sp len offset then Some (-1, f)
                    else storage_device_erase_write (ucast (sp_dev_id sp)) buf len
                           (sp_start_addr sp + offset) st f })"

definition storage_partition_erase ::
  "int \<Rightarrow> u32 \<Rightarrow> u32 \<Rightarrow> partition_state \<Rightarrow> 'f storage_state \<Rightarrow> 'f \<Rightarrow> (int \<times> 'f) option" where
  "storage_partition_erase part_id offset len ps st f =
     (if part_id \<ge> max_part_num ps then Some (-1, f)
      else do { sp \<leftarrow> partition_at ps part_id;
                if partition_refuses sp len offset then Some (-1, f)
                else storage_device_erase (ucast (sp_dev_id sp)) (sp_start_addr sp + offset) len st f })"

section \<open>Lemmas\<close>

lemma uint_add_nowrap: "uint (a :: u32) + uint b < 2 ^ 32 \<Longrightarrow> uint (a + b) = uint a + uint b"
  by (simp add: uint_word_ariths)

lemma refuses_iff:
  assumes "uint offset + uint len < 2 ^ 32" and "uint (sp_start_addr sp) + uint (sp_size sp) < 2 ^ 32"
  shows "partition_refuses sp len offset \<longleftrightarrow>
    uint (sp_start_addr sp) + uint (sp_size sp) < uint offset + uint len"
  using assms by (simp add: partition_refuses_def word_less_def uint_add_nowrap)

section \<open>Properties\<close>

text \<open>An access inside a partition: the write is passed to the device of the partition at the
  partition's start plus the offset, and the bytes addressed lie inside the partition.\<close>

theorem partition_write_in_bounds:
  assumes "0 \<le> part_id" and "part_id < max_part_num ps" and "s_partition ps = Some parts"
    and "nat part_id < length parts" and "sp = parts ! nat part_id"
    and "uint offset + uint len \<le> uint (sp_size sp)"
    and "uint (sp_start_addr sp) + uint (sp_size sp) < 2 ^ 32"
  shows "storage_partition_write part_id (Some buf) len offset ps st f =
      storage_device_write (ucast (sp_dev_id sp)) buf len (sp_start_addr sp + offset) st f \<and>
    uint (sp_start_addr sp) \<le> uint (sp_start_addr sp + offset) \<and>
    uint (sp_start_addr sp + offset) + uint len \<le> uint (sp_start_addr sp) + uint (sp_size sp)"
proof -
  have nn: "0 \<le> uint len" "0 \<le> uint (sp_start_addr sp)" by simp_all
  then have a: "uint (sp_start_addr sp + offset) = uint (sp_start_addr sp) + uint offset"
    using assms(6,7) by (intro uint_add_nowrap) linarith
  have "uint offset + uint len < 2 ^ 32" using assms(6,7) nn by linarith
  then have "\<not> partition_refuses sp len offset"
    using refuses_iff[of offset len sp] assms(6,7) nn by linarith
  then show ?thesis
    using assms a by (simp add: storage_partition_write_def partition_at_def byte_at_def)
qed

definition demo_parts :: partition_state where
  "demo_parts = \<lparr>s_partition = Some [\<lparr>sp_dev_id = 0, sp_name = None, sp_start_addr = 16, sp_size = 8\<rparr>],
                max_part_num = 1\<rparr>"

lemma partition_write_in_bounds_witness:
  "storage_partition_write 0 (Some [1, 2]) 2 4 demo_parts \<lparr>s_device = None, max_dev_num = 0\<rparr> () =
     Some (-1, ())"
  using partition_write_in_bounds[of 0 demo_parts _ _ 4 2 "[1, 2]"
      "\<lparr>s_device = None, max_dev_num = 0\<rparr>" "()", OF _ _ _ _ refl]
  by (simp add: demo_parts_def storage_device_write_def device_op_def)

text \<open>C39. The bound is wrong: the sum of offset and length is compared with the end of the
  partition on the device instead of its size. Every partition that does not start at
  address 0 accepts a write of \<open>len\<close> bytes that lies entirely behind its end, for every
  \<open>len\<close> up to its start address.\<close>

theorem partition_write_escapes:
  assumes "0 \<le> part_id" and "part_id < max_part_num ps" and "s_partition ps = Some parts"
    and "nat part_id < length parts" and "sp = parts ! nat part_id"
    and "uint (sp_start_addr sp) + uint (sp_size sp) < 2 ^ 32" and "len \<le> sp_start_addr sp"
  shows "storage_partition_write part_id (Some buf) len (sp_size sp) ps st f =
      storage_device_write (ucast (sp_dev_id sp)) buf len (sp_start_addr sp + sp_size sp) st f \<and>
    uint (sp_start_addr sp + sp_size sp) = uint (sp_start_addr sp) + uint (sp_size sp)"
proof -
  have l: "uint len \<le> uint (sp_start_addr sp)" using assms(7) by (simp add: word_le_def)
  then have "uint (sp_size sp) + uint len < 2 ^ 32" using assms(6) by linarith
  then have "\<not> partition_refuses sp len (sp_size sp)"
    using assms(6) l by (simp add: refuses_iff)
  then show ?thesis
    using assms uint_add_nowrap[OF assms(6)]
    by (simp add: storage_partition_write_def partition_at_def byte_at_def)
qed

lemma partition_write_escapes_witness:
  "storage_partition_write 0 (Some [9]) 1 8 demo_parts
     \<lparr>s_device = Some [\<lparr>sd_id = 0, sd_name = None, sd_size = 64, sd_init = None, sd_read = None,
        sd_write = Some (\<lambda>buf len addr log. (0, addr # log)), sd_erase = None, sd_erase_write = None\<rparr>],
      max_dev_num = 1\<rparr> [] = Some (0, [24 :: u32])"
  using partition_write_escapes[of 0 demo_parts _ _ 1 "[9]"
      "\<lparr>s_device = Some [\<lparr>sd_id = 0, sd_name = None, sd_size = 64, sd_init = None, sd_read = None,
        sd_write = Some (\<lambda>buf len addr log. (0, addr # log)), sd_erase = None, sd_erase_write = None\<rparr>],
      max_dev_num = 1\<rparr>" "[] :: u32 list", OF _ _ _ _ refl]
  by (simp add: demo_parts_def storage_device_write_def device_op_def byte_at_def)

end
