(* ===== verification/Driver.thy ===== *)
theory Driver
  imports Prelude
begin

text \<open>
  The driver framework of \<^verbatim>\<open>driver/driver.c\<close>: registration of drivers, opening and closing of
  devices, and the calls passed to a driver. Control blocks live in two heaps, finite maps
  from addresses; the linked lists \<^verbatim>\<open>drivlst\<close> and \<^verbatim>\<open>devlst\<close> are the lists of the addresses in
  their order. A block that has been freed is gone from its heap, so that using it again is
  \<open>None\<close>, and so is freeing it twice.

  The operations of a driver are functions of the board support package on a state of its
  own. The outcomes of \<^verbatim>\<open>osal_malloc\<close> and \<^verbatim>\<open>osal_mutex_lock\<close> are oracles; a fresh block gets a
  new address. The open flags have their Linux values.
\<close>

section \<open>State\<close>

record 'w los_driv_op_t =
  op_open :: "(nat option \<Rightarrow> u32 \<Rightarrow> 'w \<Rightarrow> bool \<times> 'w) option"
  op_read :: "(nat option \<Rightarrow> u64 \<Rightarrow> u64 \<Rightarrow> u32 \<Rightarrow> 'w \<Rightarrow> (int \<times> bytes) \<times> 'w) option"
  op_write :: "(nat option \<Rightarrow> u64 \<Rightarrow> bytes \<Rightarrow> u32 \<Rightarrow> 'w \<Rightarrow> int \<times> 'w) option"
  op_close :: "(nat option \<Rightarrow> 'w \<Rightarrow> 'w) option"
  op_ioctl :: "(nat option \<Rightarrow> u32 \<Rightarrow> nat option \<Rightarrow> int \<Rightarrow> 'w \<Rightarrow> bool \<times> 'w) option"
  op_seek :: "(nat option \<Rightarrow> int \<Rightarrow> int \<Rightarrow> 'w \<Rightarrow> int \<times> 'w) option"
  op_init :: "(nat option \<Rightarrow> 'w \<Rightarrow> bool \<times> 'w) option"
  op_deinit :: "(nat option \<Rightarrow> 'w \<Rightarrow> 'w) option"

record 'w os_driv_para_t =
  pa_name :: "string option"
  pa_op :: "'w los_driv_op_t option"
  pa_pri :: "nat option"
  pa_flag :: u32

record 'w driv_cb =
  dr_pri :: "nat option"
  dr_name :: string
  dr_flagmask :: u32
  dr_op :: "'w los_driv_op_t"
  dr_drivstatus :: u32
  dr_devlst :: "nat list"
  dr_total_write :: u64
  dr_total_read :: u64
  dr_opencounter :: u64
  dr_errno :: u32

record dev_cb =
  de_driv :: nat
  de_openflag :: u32

record 'w los_driv_module =
  lm_drivlst :: "nat list"
  lm_drivnum :: u32
  lm_drv :: "nat \<Rightarrow> 'w driv_cb option"
  lm_dev :: "nat \<Rightarrow> dev_cb option"
  lm_next :: nat
  lm_mallocs :: "bool list"
  lm_locks :: "bool list"
  lm_world :: 'w

abbreviation "cn_driv_status_initialized \<equiv> 1 :: u32"
abbreviation "en_dev_err_init \<equiv> 1 :: u32"
abbreviation "en_dev_err_open \<equiv> 2 :: u32"
abbreviation "O_WRONLY \<equiv> 0x1 :: u32"
abbreviation "O_RDWR \<equiv> 0x2 :: u32"
abbreviation "O_EXCL \<equiv> 0x80 :: u32"

definition drv_malloc :: "'w los_driv_module \<Rightarrow> nat option \<times> 'w los_driv_module" where
  "drv_malloc s =
     (let (ok, os) = alloc (lm_mallocs s); s = s\<lparr>lm_mallocs := os\<rparr>
      in if ok then (Some (lm_next s), s\<lparr>lm_next := Suc (lm_next s)\<rparr>) else (None, s))"

definition drv_lock :: "'w los_driv_module \<Rightarrow> bool \<times> 'w los_driv_module" where
  "drv_lock s = (let (ok, os) = alloc (lm_locks s) in (ok, s\<lparr>lm_locks := os\<rparr>))"

section \<open>Registration\<close>

fun driv_match_list :: "(nat \<Rightarrow> 'w driv_cb option) \<Rightarrow> string \<Rightarrow> nat list \<Rightarrow> nat option option" where
  "driv_match_list drv name [] = Some None"
| "driv_match_list drv name (d # ds) =
     do { cb \<leftarrow> drv d;
          if dr_name cb = name then Some (Some d) else driv_match_list drv name ds }"

definition driv_match :: "'w los_driv_module \<Rightarrow> string \<Rightarrow> nat option option" where
  "driv_match s name = driv_match_list (lm_drv s) name (lm_drivlst s)"

text \<open>The new control block: cleared, then filled from the parameters.\<close>

definition new_driv :: "'w los_driv_op_t \<Rightarrow> string \<Rightarrow> 'w os_driv_para_t \<Rightarrow> 'w driv_cb" where
  "new_driv ops name para =
     \<lparr>dr_pri = pa_pri para, dr_name = name, dr_flagmask = pa_flag para, dr_op = ops,
      dr_drivstatus = 0, dr_devlst = [], dr_total_write = 0, dr_total_read = 0,
      dr_opencounter = 0, dr_errno = 0\<rparr>"

definition los_driv_register ::
  "'w os_driv_para_t \<Rightarrow> 'w los_driv_module \<Rightarrow> (nat option \<times> 'w los_driv_module) option" where
  "los_driv_register para s =
     (case (pa_name para, pa_op para) of
        (Some name, Some ops) \<Rightarrow>
          (case drv_malloc s of
             (None, s) \<Rightarrow> Some (None, s)
           | (Some a, s) \<Rightarrow>
               (case drv_lock s of
                  (False, s) \<Rightarrow> Some (None, s)
                | (True, s) \<Rightarrow>
                    do { found \<leftarrow> driv_match s name;
                         if found \<noteq> None then Some (None, s)
                         else Some (Some a,
                           s\<lparr>lm_drv := (lm_drv s)(a \<mapsto> new_driv ops name para),
                             lm_drivlst := a # lm_drivlst s, lm_drivnum := lm_drivnum s + 1\<rparr>) }))
      | _ \<Rightarrow> Some (None, s))"

definition los_driv_unregister ::
  "string option \<Rightarrow> 'w los_driv_module \<Rightarrow> (bool \<times> 'w los_driv_module) option" where
  "los_driv_unregister name s =
     (case name of
        None \<Rightarrow> Some (False, s)
      | Some name \<Rightarrow>
          (case drv_lock s of
             (False, s) \<Rightarrow> Some (False, s)
           | (True, s) \<Rightarrow>
               do { found \<leftarrow> driv_match s name;
                    case found of
                      None \<Rightarrow> Some (False, s)
                    | Some d \<Rightarrow> Some (True,
                        s\<lparr>lm_drivlst := remove1 d (lm_drivlst s), lm_drv := (lm_drv s)(d := None),
                          lm_drivnum := lm_drivnum s - 1\<rparr>) }))"

definition los_driv_event :: "nat \<Rightarrow> u32 \<Rightarrow> nat option \<Rightarrow> bool" where
  "los_driv_event driv event para = False"

text \<open>The static drivers of the linker section, in its order.\<close>

fun osdriv_load_static :: "'w os_driv_para_t list \<Rightarrow> 'w los_driv_module \<Rightarrow> 'w los_driv_module option" where
  "osdriv_load_static [] s = Some s"
| "osdriv_load_static (p # ps) s = do { (_, s) \<leftarrow> los_driv_register p s; osdriv_load_static ps s }"

text \<open>\<open>mutex_ok\<close> is the outcome of \<^verbatim>\<open>osal_mutex_create\<close>.\<close>

definition los_driv_init ::
  "bool \<Rightarrow> 'w os_driv_para_t list \<Rightarrow> 'w los_driv_module \<Rightarrow> (bool \<times> 'w los_driv_module) option" where
  "los_driv_init mutex_ok osdriv s =
     (if \<not> mutex_ok then Some (False, s)
      else do { s \<leftarrow> osdriv_load_static osdriv s; Some (True, s) })"

section \<open>Devices\<close>

definition set_driv :: "nat \<Rightarrow> 'w driv_cb \<Rightarrow> 'w los_driv_module \<Rightarrow> 'w los_driv_module" where
  "set_driv d cb s = s\<lparr>lm_drv := (lm_drv s)(d \<mapsto> cb)\<rparr>"

text \<open>The two calls into the driver when a device is opened: \<^verbatim>\<open>init\<close> unless it is initialised, then \<^verbatim>\<open>open\<close>.\<close>

definition run_init :: "'w driv_cb \<Rightarrow> 'w \<Rightarrow> bool \<times> 'w driv_cb \<times> 'w" where
  "run_init cb w =
     (case op_init (dr_op cb) of
        Some f \<Rightarrow>
          if dr_drivstatus cb AND cn_driv_status_initialized = 0
          then (let (ok, w) = f (dr_pri cb) w
                in if ok then (True, cb\<lparr>dr_drivstatus := dr_drivstatus cb OR cn_driv_status_initialized\<rparr>, w)
                   else (False, cb\<lparr>dr_errno := en_dev_err_init\<rparr>, w))
          else (True, cb, w)
      | None \<Rightarrow> (True, cb, w))"

definition run_open :: "u32 \<Rightarrow> 'w driv_cb \<Rightarrow> 'w \<Rightarrow> bool \<times> 'w driv_cb \<times> 'w" where
  "run_open flag cb w =
     (case op_open (dr_op cb) of
        Some f \<Rightarrow>
          (let (ok, w) = f (dr_pri cb) flag w
           in if ok then (True, cb, w) else (False, cb\<lparr>dr_errno := en_dev_err_open\<rparr>, w))
      | None \<Rightarrow> (True, cb, w))"

definition los_dev_open ::
  "string option \<Rightarrow> u32 \<Rightarrow> 'w los_driv_module \<Rightarrow> (nat option \<times> 'w los_driv_module) option" where
  "los_dev_open name flag s =
     (case name of
        None \<Rightarrow> Some (None, s)
      | Some name \<Rightarrow>
          (case drv_malloc s of
             (None, s) \<Rightarrow> Some (None, s)
           | (Some a, s) \<Rightarrow>
               (case drv_lock s of
                  (False, s) \<Rightarrow> Some (None, s)
                | (True, s) \<Rightarrow>
                    do { found \<leftarrow> driv_match s name;
                         case found of
                           None \<Rightarrow> Some (None, s)
                         | Some d \<Rightarrow> do {
                             cb \<leftarrow> lm_drv s d;
                             if O_EXCL AND dr_flagmask cb \<noteq> 0 \<and> dr_devlst cb \<noteq> [] then Some (None, s)
                             else
                               (case run_init cb (lm_world s) of
                                  (False, cb, w) \<Rightarrow> Some (None, set_driv d cb (s\<lparr>lm_world := w\<rparr>))
                                | (True, cb, w) \<Rightarrow>
                                    (case run_open flag cb w of
                                       (False, cb, w) \<Rightarrow> Some (None, set_driv d cb (s\<lparr>lm_world := w\<rparr>))
                                     | (True, cb, w) \<Rightarrow>
                                         Some (Some a,
                                           (set_driv d (cb\<lparr>dr_opencounter := dr_opencounter cb + 1,
                                                          dr_devlst := a # dr_devlst cb\<rparr>)
                                              (s\<lparr>lm_world := w\<rparr>))
                                           \<lparr>lm_dev := (lm_dev s)(a \<mapsto> \<lparr>de_driv = d, de_openflag = flag\<rparr>)\<rparr>))) } })))"

text \<open>The calls when a device is closed: \<^verbatim>\<open>close\<close>, then \<^verbatim>\<open>deinit\<close> when no device is left open.\<close>

definition run_close :: "'w driv_cb \<Rightarrow> 'w \<Rightarrow> 'w driv_cb \<times> 'w" where
  "run_close cb w =
     (let w = (case op_close (dr_op cb) of None \<Rightarrow> w | Some f \<Rightarrow> f (dr_pri cb) w)
      in case op_deinit (dr_op cb) of
           Some f \<Rightarrow>
             if dr_devlst cb = []
             then (cb\<lparr>dr_drivstatus := dr_drivstatus cb AND NOT cn_driv_status_initialized\<rparr>,
                   f (dr_pri cb) w)
             else (cb, w)
         | None \<Rightarrow> (cb, w))"

text \<open>\<open>dev\<close> is \<^verbatim>\<open>NULL\<close> or an address; one that is not live is used after it was freed. The mutex has no state in this model, only the outcome
  of taking it: the unlocks, of which the code makes two on success (lines 388 and 394), are left out.\<close>

definition los_dev_close :: "nat option \<Rightarrow> 'w los_driv_module \<Rightarrow> (bool \<times> 'w los_driv_module) option" where
  "los_dev_close dev s =
     (case dev of
        None \<Rightarrow> Some (False, s)
      | Some a \<Rightarrow>
          (case drv_lock s of
             (False, s) \<Rightarrow> Some (False, s)
           | (True, s) \<Rightarrow>
               do { devcb \<leftarrow> lm_dev s a;
                    let d = de_driv devcb;
                    cb \<leftarrow> lm_drv s d;
                    if a \<notin> set (dr_devlst cb) then Some (False, s)
                    else
                      (let (cb, w) = run_close (cb\<lparr>dr_devlst := remove1 a (dr_devlst cb)\<rparr>) (lm_world s)
                       in Some (True, (set_driv d (cb\<lparr>dr_opencounter := dr_opencounter cb - 1\<rparr>)
                            (s\<lparr>lm_world := w\<rparr>))\<lparr>lm_dev := (lm_dev s)(a := None)\<rparr>)) }))"

definition los_dev_read ::
  "nat option \<Rightarrow> u64 \<Rightarrow> bool \<Rightarrow> u64 \<Rightarrow> u32 \<Rightarrow> 'w los_driv_module
     \<Rightarrow> ((int \<times> bytes) \<times> 'w los_driv_module) option" where
  "los_dev_read dev offset has_buf len timeout s =
     (case dev of
        Some a \<Rightarrow>
          if has_buf \<and> len \<noteq> 0
          then do {
            devcb \<leftarrow> lm_dev s a;
            if de_openflag devcb AND O_WRONLY = 0
            then do {
              cb \<leftarrow> lm_drv s (de_driv devcb);
              case op_read (dr_op cb) of
                None \<Rightarrow> Some ((0, []), s)
              | Some f \<Rightarrow>
                  (let ((ret, data), w) = f (dr_pri cb) offset len timeout (lm_world s);
                       cb = (if ret > 0 then cb\<lparr>dr_total_read := dr_total_read cb + word_of_int ret\<rparr> else cb)
                   in Some ((ret, data), set_driv (de_driv devcb) cb (s\<lparr>lm_world := w\<rparr>))) }
            else Some ((0, []), s) }
          else Some ((0, []), s)
      | None \<Rightarrow> Some ((0, []), s))"

definition los_dev_write ::
  "nat option \<Rightarrow> u64 \<Rightarrow> bytes option \<Rightarrow> u32 \<Rightarrow> 'w los_driv_module \<Rightarrow> (int \<times> 'w los_driv_module) option"
where
  "los_dev_write dev offset buf timeout s =
     (case (dev, buf) of
        (Some a, Some data) \<Rightarrow>
          if data \<noteq> []
          then do {
            devcb \<leftarrow> lm_dev s a;
            if de_openflag devcb AND O_WRONLY \<noteq> 0 \<or> de_openflag devcb AND O_RDWR \<noteq> 0
            then do {
              cb \<leftarrow> lm_drv s (de_driv devcb);
              case op_write (dr_op cb) of
                None \<Rightarrow> Some (0, s)
              | Some f \<Rightarrow>
                  (let (ret, w) = f (dr_pri cb) offset data timeout (lm_world s);
                       cb = (if ret > 0 then cb\<lparr>dr_total_write := dr_total_write cb + word_of_int ret\<rparr> else cb)
                   in Some (ret, set_driv (de_driv devcb) cb (s\<lparr>lm_world := w\<rparr>))) }
            else Some (0, s) }
          else Some (0, s)
      | _ \<Rightarrow> Some (0, s))"

definition los_dev_ioctl ::
  "nat option \<Rightarrow> u32 \<Rightarrow> nat option \<Rightarrow> int \<Rightarrow> 'w los_driv_module \<Rightarrow> (bool \<times> 'w los_driv_module) option"
where
  "los_dev_ioctl dev cmd para paralen s =
     (case dev of
        None \<Rightarrow> Some (False, s)
      | Some a \<Rightarrow>
          do { devcb \<leftarrow> lm_dev s a; cb \<leftarrow> lm_drv s (de_driv devcb);
               case op_ioctl (dr_op cb) of
                 None \<Rightarrow> Some (False, s)
               | Some f \<Rightarrow> (let (ret, w) = f (dr_pri cb) cmd para paralen (lm_world s)
                           in Some (ret, s\<lparr>lm_world := w\<rparr>)) })"

definition los_dev_seek ::
  "nat option \<Rightarrow> int \<Rightarrow> int \<Rightarrow> 'w los_driv_module \<Rightarrow> (int \<times> 'w los_driv_module) option" where
  "los_dev_seek dev offset fromwhere s =
     (case dev of
        None \<Rightarrow> Some (-1, s)
      | Some a \<Rightarrow>
          do { devcb \<leftarrow> lm_dev s a; cb \<leftarrow> lm_drv s (de_driv devcb);
               case op_seek (dr_op cb) of
                 None \<Rightarrow> Some (-1, s)
               | Some f \<Rightarrow> (let (ret, w) = f (dr_pri cb) offset fromwhere (lm_world s)
                           in Some (ret, s\<lparr>lm_world := w\<rparr>)) })"


section \<open>The invariant\<close>

definition cb_ok :: "'w los_driv_module \<Rightarrow> nat \<Rightarrow> 'w driv_cb \<Rightarrow> bool" where
  "cb_ok s d cb \<longleftrightarrow> distinct (dr_devlst cb) \<and> dr_opencounter cb = of_nat (length (dr_devlst cb)) \<and>
     (\<forall>a \<in> set (dr_devlst cb). \<exists>dv. lm_dev s a = Some dv \<and> de_driv dv = d) \<and>
     (O_EXCL AND dr_flagmask cb \<noteq> 0 \<longrightarrow> length (dr_devlst cb) \<le> 1)"

definition driv_inv :: "'w los_driv_module \<Rightarrow> bool" where
  "driv_inv s \<longleftrightarrow> distinct (lm_drivlst s) \<and> dom (lm_drv s) = set (lm_drivlst s) \<and>
     lm_drivnum s = of_nat (length (lm_drivlst s)) \<and>
     (\<forall>d cb. lm_drv s d = Some cb \<longrightarrow> cb_ok s d cb) \<and>
     (\<forall>d d' cb cb'. lm_drv s d = Some cb \<longrightarrow> lm_drv s d' = Some cb' \<longrightarrow>
        dr_name cb = dr_name cb' \<longrightarrow> d = d') \<and>
     (\<forall>a dv. lm_dev s a = Some dv \<longrightarrow>
        (\<exists>cb. lm_drv s (de_driv dv) = Some cb \<and> a \<in> set (dr_devlst cb))) \<and>
     (\<forall>a. a \<in> dom (lm_drv s) \<union> dom (lm_dev s) \<longrightarrow> a < lm_next s)"

lemma driv_invD:
  assumes "driv_inv s"
  shows "distinct (lm_drivlst s)" "dom (lm_drv s) = set (lm_drivlst s)"
    "lm_drivnum s = of_nat (length (lm_drivlst s))"
    "lm_drv s d = Some cb \<Longrightarrow> cb_ok s d cb"
    "lm_drv s d = Some cb \<Longrightarrow> lm_drv s d' = Some cb' \<Longrightarrow> dr_name cb = dr_name cb' \<Longrightarrow> d = d'"
    "lm_dev s a = Some dv \<Longrightarrow> \<exists>cb. lm_drv s (de_driv dv) = Some cb \<and> a \<in> set (dr_devlst cb)"
    "lm_drv s d = Some cb \<Longrightarrow> d < lm_next s" "lm_dev s a = Some dv \<Longrightarrow> a < lm_next s"
  using assms unfolding driv_inv_def by blast+

lemma driv_invI:
  assumes "distinct (lm_drivlst s)" and "dom (lm_drv s) = set (lm_drivlst s)"
    and "lm_drivnum s = of_nat (length (lm_drivlst s))"
    and "\<And>d cb. lm_drv s d = Some cb \<Longrightarrow> cb_ok s d cb"
    and "\<And>d d' cb cb'. lm_drv s d = Some cb \<Longrightarrow> lm_drv s d' = Some cb' \<Longrightarrow>
      dr_name cb = dr_name cb' \<Longrightarrow> d = d'"
    and "\<And>a dv. lm_dev s a = Some dv \<Longrightarrow>
      \<exists>cb. lm_drv s (de_driv dv) = Some cb \<and> a \<in> set (dr_devlst cb)"
    and "\<And>d cb. lm_drv s d = Some cb \<Longrightarrow> d < lm_next s"
    and "\<And>a dv. lm_dev s a = Some dv \<Longrightarrow> a < lm_next s"
  shows "driv_inv s"
  unfolding driv_inv_def using assms(1-3)
  by (intro conjI allI impI) (use assms(4-8) in blast)+

lemma driv_match_list_spec:
  "\<forall>d \<in> set ds. drv d \<noteq> None \<Longrightarrow> \<exists>r. driv_match_list drv name ds = Some r \<and>
     (case r of None \<Rightarrow> \<forall>d \<in> set ds. \<forall>cb. drv d = Some cb \<longrightarrow> dr_name cb \<noteq> name
      | Some d \<Rightarrow> d \<in> set ds \<and> (\<exists>cb. drv d = Some cb \<and> dr_name cb = name))"
proof (induction ds)
  case (Cons d ds)
  then obtain cb where "drv d = Some cb" by auto
  then show ?case using Cons by (auto split: option.splits)
qed simp

lemma driv_match_spec:
  assumes "driv_inv s"
  obtains (none) "driv_match s name = Some None" "\<And>d cb. lm_drv s d = Some cb \<Longrightarrow> dr_name cb \<noteq> name"
  | (found) d cb where "driv_match s name = Some (Some d)" "lm_drv s d = Some cb" "dr_name cb = name"
      "d \<in> set (lm_drivlst s)"
proof -
  have dm: "dom (lm_drv s) = set (lm_drivlst s)" by (rule driv_invD(2)[OF assms])
  then have "\<forall>d \<in> set (lm_drivlst s). lm_drv s d \<noteq> None" by auto
  then obtain r where r: "driv_match s name = Some r"
    "case r of None \<Rightarrow> \<forall>d \<in> set (lm_drivlst s). \<forall>cb. lm_drv s d = Some cb \<longrightarrow> dr_name cb \<noteq> name
      | Some d \<Rightarrow> d \<in> set (lm_drivlst s) \<and> (\<exists>cb. lm_drv s d = Some cb \<and> dr_name cb = name)"
    using driv_match_list_spec[of "lm_drivlst s" "lm_drv s" name] by (auto simp: driv_match_def)
  show thesis
  proof (cases r)
    case None
    then have "dr_name cb \<noteq> name" if "lm_drv s d = Some cb" for d cb
      using r(2) that dm by fastforce
    then show thesis using r(1) None none by blast
  next
    case (Some d)
    then show thesis using r found by auto
  qed
qed

text \<open>The invariant depends on the lists, the heaps and the bound of the addresses only.\<close>

lemma inv_frame:
  assumes "driv_inv s" and "lm_drivlst s' = lm_drivlst s" and "lm_drivnum s' = lm_drivnum s"
    and "lm_drv s' = lm_drv s" and "lm_dev s' = lm_dev s" and "lm_next s \<le> lm_next s'"
  shows "driv_inv s'"
proof (rule driv_invI)
  note inv = driv_invD[OF assms(1)]
  show "distinct (lm_drivlst s')" "dom (lm_drv s') = set (lm_drivlst s')"
    "lm_drivnum s' = of_nat (length (lm_drivlst s'))"
    using inv(1-3) assms(2-4) by simp_all
  show "lm_drv s' d = Some cb \<Longrightarrow> cb_ok s' d cb" for d cb
    using inv(4) assms(4,5) by (simp add: cb_ok_def)
  show "lm_drv s' d = Some cb \<Longrightarrow> lm_drv s' d' = Some cb' \<Longrightarrow> dr_name cb = dr_name cb' \<Longrightarrow> d = d'"
    for d d' cb cb'
    using inv(5) assms(4) by simp
  show "lm_dev s' a = Some dv \<Longrightarrow> \<exists>cb. lm_drv s' (de_driv dv) = Some cb \<and> a \<in> set (dr_devlst cb)" for a dv
    using inv(6) assms(4,5) by simp
  show "lm_drv s' d = Some cb \<Longrightarrow> d < lm_next s'" for d cb using inv(7)[of d cb] assms(4,6) by simp
  show "lm_dev s' a = Some dv \<Longrightarrow> a < lm_next s'" for a dv using inv(8)[of a dv] assms(5,6) by simp
qed

lemma malloc_inv:
  assumes "driv_inv s" and "drv_malloc s = (r, s')"
  shows "driv_inv s' \<and> lm_drv s' = lm_drv s \<and> lm_dev s' = lm_dev s \<and> lm_drivlst s' = lm_drivlst s \<and>
    lm_world s' = lm_world s \<and>
    (\<forall>a. r = Some a \<longrightarrow> lm_drv s' a = None \<and> lm_dev s' a = None \<and> a < lm_next s')"
proof -
  have "lm_drv s (lm_next s) = None" "lm_dev s (lm_next s) = None"
    using driv_invD(7,8)[OF assms(1)] by (metis not_None_eq order.irrefl)+
  then show ?thesis
    using assms(2) inv_frame[OF assms(1), of s']
    by (auto simp: drv_malloc_def Let_def split: prod.splits if_splits)
qed

lemma lock_inv:
  "driv_inv s \<Longrightarrow> drv_lock s = (r, s') \<Longrightarrow> driv_inv s' \<and> lm_drv s' = lm_drv s \<and> lm_dev s' = lm_dev s \<and>
     lm_drivlst s' = lm_drivlst s \<and> lm_world s' = lm_world s \<and> lm_next s' = lm_next s"
  using inv_frame[of s s'] by (auto simp: drv_lock_def Let_def split: prod.splits)

text \<open>Changing the debug members or the state of a driver keeps the invariant.\<close>

lemma set_driv_inv:
  assumes "driv_inv s" and "lm_drv s d = Some cb" and "dr_name cb' = dr_name cb"
    and "dr_devlst cb' = dr_devlst cb" and "dr_opencounter cb' = dr_opencounter cb"
    and "dr_flagmask cb' = dr_flagmask cb"
  shows "driv_inv (set_driv d cb' (s\<lparr>lm_world := w\<rparr>))"
proof (rule driv_invI)
  note inv = driv_invD[OF assms(1)]
  let ?s = "set_driv d cb' (s\<lparr>lm_world := w\<rparr>)"
  have d: "insert d (dom (lm_drv s)) = dom (lm_drv s)" using assms(2) by blast
  show "distinct (lm_drivlst ?s)" "dom (lm_drv ?s) = set (lm_drivlst ?s)"
    "lm_drivnum ?s = of_nat (length (lm_drivlst ?s))"
    using inv(1-3) d by (simp_all add: set_driv_def)
  show "lm_drv ?s e = Some c \<Longrightarrow> cb_ok ?s e c" for e c
    using inv(4)[of e c] inv(4)[OF assms(2)] assms(4-6)
    by (auto simp: cb_ok_def set_driv_def split: if_splits)
  have old: "\<exists>c0. lm_drv s e = Some c0 \<and> dr_name c0 = dr_name c" if "lm_drv ?s e = Some c" for e c
    using that assms(2,3) by (auto simp: set_driv_def split: if_splits)
  show "lm_drv ?s e = Some c \<Longrightarrow> lm_drv ?s e' = Some c' \<Longrightarrow> dr_name c = dr_name c' \<Longrightarrow> e = e'"
    for e e' c c'
    using old[of e c] old[of e' c'] inv(5)[of e _ e'] by metis
  show "lm_dev ?s a = Some dv \<Longrightarrow> \<exists>cb. lm_drv ?s (de_driv dv) = Some cb \<and> a \<in> set (dr_devlst cb)" for a dv
    using inv(6)[of a dv] assms(2,4) by (auto simp: set_driv_def)
  show "lm_drv ?s e = Some c \<Longrightarrow> e < lm_next ?s" for e c
    using inv(7)[of e c] inv(7)[OF assms(2)] by (auto simp: set_driv_def split: if_splits)
  show "lm_dev ?s a = Some dv \<Longrightarrow> a < lm_next ?s" for a dv
    using inv(8)[of a dv] by (simp add: set_driv_def)
qed

lemma new_driv_name: "dr_name (new_driv ops name para) = name"
  by (simp add: new_driv_def)

lemma register_inv:
  assumes "driv_inv s"
  shows "\<exists>r s'. los_driv_register para s = Some (r, s') \<and> driv_inv s'"
proof (cases "pa_name para")
  case None
  then show ?thesis using assms by (simp add: los_driv_register_def)
next
  case (Some name)
  show ?thesis
  proof (cases "pa_op para")
    case None
    then show ?thesis using assms Some by (simp add: los_driv_register_def)
  next
    case ops: (Some ops)
    obtain r s1 where m: "drv_malloc s = (r, s1)" by (cases "drv_malloc s")
    obtain l s2 where k: "drv_lock s1 = (l, s2)" by (cases "drv_lock s1")
    note i1 = malloc_inv[OF assms m]
    then have i2: "driv_inv s2" "lm_drv s2 = lm_drv s1" "lm_dev s2 = lm_dev s1" "lm_next s2 = lm_next s1"
      using lock_inv[OF _ k] by auto
    show ?thesis
    proof (cases r)
      case None
      then show ?thesis using i1 m Some ops by (simp add: los_driv_register_def)
    next
      case a: (Some a)
      show ?thesis
      proof (cases l)
        case False
        then show ?thesis using i2 m k a Some ops by (simp add: los_driv_register_def)
      next
        case True
        show ?thesis
        proof (rule driv_match_spec[OF i2(1), of name])
          fix d cb assume "driv_match s2 name = Some (Some d)"
          then show ?thesis using i2 m k a True Some ops by (simp add: los_driv_register_def)
        next
          assume n: "driv_match s2 name = Some None" "\<And>d cb. lm_drv s2 d = Some cb \<Longrightarrow> dr_name cb \<noteq> name"
          let ?s = "s2\<lparr>lm_drv := (lm_drv s2)(a \<mapsto> new_driv ops name para),
            lm_drivlst := a # lm_drivlst s2, lm_drivnum := lm_drivnum s2 + 1\<rparr>"
          have fresh: "lm_drv s2 a = None" "lm_dev s2 a = None" "a < lm_next s2" using i1 i2 a by auto
          then have nl: "a \<notin> set (lm_drivlst s2)" using driv_invD(2)[OF i2(1)] by blast
          note inv = driv_invD[OF i2(1)]
          have "driv_inv ?s"
          proof (rule driv_invI)
            show "distinct (lm_drivlst ?s)" "dom (lm_drv ?s) = set (lm_drivlst ?s)"
              "lm_drivnum ?s = of_nat (length (lm_drivlst ?s))"
              using inv(1-3) nl by simp_all
            show "lm_drv ?s e = Some c \<Longrightarrow> cb_ok ?s e c" for e c
              using inv(4)[of e c] by (auto simp: cb_ok_def new_driv_def split: if_splits)
            show "e = e'" if "lm_drv ?s e = Some c" "lm_drv ?s e' = Some c'" "dr_name c = dr_name c'"
              for e e' c c'
            proof (cases "e = a \<or> e' = a")
              case True
              then show ?thesis using that n(2)[of e c] n(2)[of e' c']
                by (cases "e = a"; cases "e' = a") (auto simp: new_driv_name)
            next
              case False
              then show ?thesis using that inv(5)[of e c e' c'] by simp
            qed
            show "lm_dev ?s b = Some dv \<Longrightarrow> \<exists>cb. lm_drv ?s (de_driv dv) = Some cb \<and> b \<in> set (dr_devlst cb)" for b dv
              using inv(6)[of b dv] fresh(1) by auto
            show "lm_drv ?s e = Some c \<Longrightarrow> e < lm_next ?s" for e c
              using inv(7)[of e c] fresh(3) by (auto split: if_splits)
            show "lm_dev ?s b = Some dv \<Longrightarrow> b < lm_next ?s" for b dv using inv(8)[of b dv] by simp
          qed
          then show ?thesis using n m k a True Some ops by (simp add: los_driv_register_def)
        qed
      qed
    qed
  qed
qed


text \<open>A driver is removable when none of its devices is open.\<close>

definition unused :: "string \<Rightarrow> 'w los_driv_module \<Rightarrow> bool" where
  "unused name s \<longleftrightarrow> (\<forall>d cb. lm_drv s d = Some cb \<longrightarrow> dr_name cb = name \<longrightarrow> dr_devlst cb = [])"

lemma length_pos_of_nat: "x \<in> set xs \<Longrightarrow> (of_nat (length xs) :: 'a::len word) - 1 = of_nat (length (remove1 x xs))"
proof -
  assume x: "x \<in> set xs"
  then obtain n where "length xs = Suc n" by (cases xs) auto
  then show ?thesis using x by (simp add: length_remove1)
qed

lemma unregister_inv:
  assumes "driv_inv s" and "\<And>n. name = Some n \<Longrightarrow> unused n s"
  shows "\<exists>r s'. los_driv_unregister name s = Some (r, s') \<and> driv_inv s'"
proof (cases name)
  case None
  then show ?thesis using assms by (auto simp: los_driv_unregister_def)
next
  case (Some n)
  obtain l s1 where k: "drv_lock s = (l, s1)" by (cases "drv_lock s")
  have i: "driv_inv s1" "lm_drv s1 = lm_drv s" using lock_inv[OF assms(1) k] by auto
  show ?thesis
  proof (cases l)
    case False
    then show ?thesis using Some k i by (auto simp: los_driv_unregister_def)
  next
    case True
    show ?thesis
    proof (rule driv_match_spec[OF i(1), of n])
      assume "driv_match s1 n = Some None"
      then show ?thesis using Some k i True by (auto simp: los_driv_unregister_def)
    next
      fix d cb assume f: "driv_match s1 n = Some (Some d)" "lm_drv s1 d = Some cb" "dr_name cb = n"
        "d \<in> set (lm_drivlst s1)"
      note inv = driv_invD[OF i(1)]
      have none: "dr_devlst cb = []" using assms(2)[OF Some] f(2,3) i(2) by (simp add: unused_def)
      let ?s = "s1\<lparr>lm_drivlst := remove1 d (lm_drivlst s1), lm_drv := (lm_drv s1)(d := None),
        lm_drivnum := lm_drivnum s1 - 1\<rparr>"
      have old: "lm_drv s1 e = Some c \<and> e \<noteq> d" if "lm_drv ?s e = Some c" for e c
        using that by (auto split: if_splits)
      have "driv_inv ?s"
      proof (rule driv_invI)
        show "distinct (lm_drivlst ?s)" "dom (lm_drv ?s) = set (lm_drivlst ?s)"
          using inv(1,2) by auto
        show "lm_drivnum ?s = of_nat (length (lm_drivlst ?s))"
          using inv(3) length_pos_of_nat[OF f(4)] by simp
        show "cb_ok ?s e c" if "lm_drv ?s e = Some c" for e c
        proof -
          have "cb_ok s1 e c" using old[OF that] inv(4) by blast
          then show ?thesis by (simp add: cb_ok_def)
        qed
        show "lm_drv ?s e = Some c \<Longrightarrow> lm_drv ?s e' = Some c' \<Longrightarrow> dr_name c = dr_name c' \<Longrightarrow> e = e'"
          for e e' c c'
          using old[of e c] old[of e' c'] inv(5)[of e c e' c'] by blast
        show "\<exists>cb. lm_drv ?s (de_driv dv) = Some cb \<and> a \<in> set (dr_devlst cb)"
          if "lm_dev ?s a = Some dv" for a dv
        proof -
          have "lm_dev s1 a = Some dv" using that by simp
          then obtain c where "lm_drv s1 (de_driv dv) = Some c" "a \<in> set (dr_devlst c)"
            using inv(6) by blast
          then show ?thesis using f(2) none by (cases "de_driv dv = d") auto
        qed
        show "e < lm_next ?s" if "lm_drv ?s e = Some c" for e c
        proof -
          have "e < lm_next s1" using old[OF that] inv(7) by blast
          then show ?thesis by simp
        qed
        show "lm_dev ?s a = Some dv \<Longrightarrow> a < lm_next ?s" for a dv using inv(8)[of a dv] by simp
      qed
      then show ?thesis using f Some k True by (auto simp: los_driv_unregister_def)
    qed
  qed
qed

lemma run_init_fields:
  "run_init cb w = (ok, cb', w') \<Longrightarrow> dr_name cb' = dr_name cb \<and> dr_devlst cb' = dr_devlst cb \<and>
     dr_opencounter cb' = dr_opencounter cb \<and> dr_flagmask cb' = dr_flagmask cb \<and> dr_op cb' = dr_op cb \<and>
     dr_pri cb' = dr_pri cb"
  by (auto simp: run_init_def Let_def split: option.splits if_splits prod.splits)

lemma run_open_fields:
  "run_open flag cb w = (ok, cb', w') \<Longrightarrow> dr_name cb' = dr_name cb \<and> dr_devlst cb' = dr_devlst cb \<and>
     dr_opencounter cb' = dr_opencounter cb \<and> dr_flagmask cb' = dr_flagmask cb \<and> dr_op cb' = dr_op cb \<and>
     dr_pri cb' = dr_pri cb"
  by (auto simp: run_open_def Let_def split: option.splits if_splits prod.splits)

lemma run_close_fields:
  "run_close cb w = (cb', w') \<Longrightarrow> dr_name cb' = dr_name cb \<and> dr_devlst cb' = dr_devlst cb \<and>
     dr_opencounter cb' = dr_opencounter cb \<and> dr_flagmask cb' = dr_flagmask cb"
  by (auto simp: run_close_def Let_def split: option.splits if_splits)

text \<open>Adding a device to the open list of its driver.\<close>

lemma attach_inv:
  assumes "driv_inv s" and "lm_drv s d = Some cb" and "lm_dev s a = None" and "a < lm_next s"
    and "dr_name cb' = dr_name cb" and "dr_devlst cb' = dr_devlst cb"
    and "dr_opencounter cb' = dr_opencounter cb" and "dr_flagmask cb' = dr_flagmask cb"
    and "O_EXCL AND dr_flagmask cb = 0 \<or> dr_devlst cb = []"
  shows "driv_inv ((set_driv d (cb'\<lparr>dr_opencounter := dr_opencounter cb' + 1, dr_devlst := a # dr_devlst cb'\<rparr>)
      (s\<lparr>lm_world := w\<rparr>))\<lparr>lm_dev := (lm_dev s)(a \<mapsto> \<lparr>de_driv = d, de_openflag = flag\<rparr>)\<rparr>)"
    (is "driv_inv ?s")
proof (rule driv_invI)
  note inv = driv_invD[OF assms(1)]
  have d: "insert d (dom (lm_drv s)) = dom (lm_drv s)" using assms(2) by blast
  have cb: "cb_ok s d cb" by (rule inv(4)[OF assms(2)])
  then have nin: "a \<notin> set (dr_devlst cb)" using assms(3) by (auto simp: cb_ok_def)
  show "distinct (lm_drivlst ?s)" "dom (lm_drv ?s) = set (lm_drivlst ?s)"
    "lm_drivnum ?s = of_nat (length (lm_drivlst ?s))"
    using inv(1-3) d by (simp_all add: set_driv_def)
  show "cb_ok ?s e c" if "lm_drv ?s e = Some c" for e c
  proof (cases "e = d")
    case True
    then show ?thesis using that cb nin assms(3,6-9) by (auto simp: cb_ok_def set_driv_def)
  next
    case False
    then have "cb_ok s e c" using that inv(4)[of e c] by (simp add: set_driv_def)
    then show ?thesis using assms(3) by (auto simp: cb_ok_def set_driv_def)
  qed
  have old: "\<exists>c0. lm_drv s e = Some c0 \<and> dr_name c0 = dr_name c" if "lm_drv ?s e = Some c" for e c
    using that assms(2,5) by (auto simp: set_driv_def split: if_splits)
  show "lm_drv ?s e = Some c \<Longrightarrow> lm_drv ?s e' = Some c' \<Longrightarrow> dr_name c = dr_name c' \<Longrightarrow> e = e'"
    for e e' c c'
    using old[of e c] old[of e' c'] inv(5)[of e _ e'] by metis
  show "\<exists>cb. lm_drv ?s (de_driv dv) = Some cb \<and> b \<in> set (dr_devlst cb)" if "lm_dev ?s b = Some dv" for b dv
  proof (cases "b = a")
    case True
    then show ?thesis using that by (auto simp: set_driv_def)
  next
    case False
    then show ?thesis using that inv(6)[of b dv] assms(2,6) by (auto simp: set_driv_def)
  qed
  show "lm_drv ?s e = Some c \<Longrightarrow> e < lm_next ?s" for e c
    using inv(7)[of e c] inv(7)[OF assms(2)] by (auto simp: set_driv_def split: if_splits)
  show "lm_dev ?s b = Some dv \<Longrightarrow> b < lm_next ?s" for b dv
    using inv(8)[of b dv] assms(4) by (auto simp: set_driv_def split: if_splits)
qed


lemma open_inv:
  assumes "driv_inv s"
  shows "\<exists>r s'. los_dev_open name flag s = Some (r, s') \<and> driv_inv s' \<and>
    (\<forall>a. r = Some a \<longrightarrow> (\<exists>dv. lm_dev s' a = Some dv))"
proof (cases name)
  case None
  then show ?thesis using assms by (simp add: los_dev_open_def)
next
  case (Some n)
  obtain r s1 where m: "drv_malloc s = (r, s1)" by (cases "drv_malloc s")
  obtain l s2 where k: "drv_lock s1 = (l, s2)" by (cases "drv_lock s1")
  note i1 = malloc_inv[OF assms m]
  then have i2: "driv_inv s2" "lm_drv s2 = lm_drv s1" "lm_dev s2 = lm_dev s1" "lm_next s2 = lm_next s1"
    using lock_inv[OF _ k] by auto
  note e = los_dev_open_def Some m k
  show ?thesis
  proof (cases "r = None \<or> \<not> l")
    case True
    then show ?thesis using i1 i2 by (cases r; cases l) (auto simp: e)
  next
    case False
    then obtain a where a: "r = Some a" and l: "l = True" by auto
    have fresh: "lm_dev s2 a = None" "a < lm_next s2" using i1 i2 a by auto
    show ?thesis
    proof (rule driv_match_spec[OF i2(1), of n])
      assume "driv_match s2 n = Some None"
      then show ?thesis using i2 by (auto simp: e a l)
    next
      fix d cb assume f: "driv_match s2 n = Some (Some d)" "lm_drv s2 d = Some cb"
      obtain ok cb1 w1 where ri: "run_init cb (lm_world s2) = (ok, cb1, w1)" by (cases "run_init cb (lm_world s2)")
      obtain ok2 cb2 w2 where ro: "run_open flag cb1 w1 = (ok2, cb2, w2)" by (cases "run_open flag cb1 w1")
      note fi = run_init_fields[OF ri] and fo = run_open_fields[OF ro]
      have s1: "driv_inv (set_driv d cb1 (s2\<lparr>lm_world := w1\<rparr>))"
        "driv_inv (set_driv d cb2 (s2\<lparr>lm_world := w2\<rparr>))"
        using fi fo by (auto intro!: set_driv_inv[OF i2(1) f(2)])
      show ?thesis
      proof (cases "O_EXCL AND dr_flagmask cb \<noteq> 0 \<and> dr_devlst cb \<noteq> []")
        case True
        then show ?thesis using f i2(1) by (auto simp: e a l)
      next
        case nex: False
        have "driv_inv ((set_driv d (cb2\<lparr>dr_opencounter := dr_opencounter cb2 + 1, dr_devlst := a # dr_devlst cb2\<rparr>)
          (s2\<lparr>lm_world := w2\<rparr>))\<lparr>lm_dev := (lm_dev s2)(a \<mapsto> \<lparr>de_driv = d, de_openflag = flag\<rparr>)\<rparr>)"
          by (rule attach_inv[OF i2(1) f(2) fresh]) (use fi fo nex in auto)
        then show ?thesis using f nex ri ro s1
          by (cases ok; cases ok2) (auto simp: e a l)
      qed
    qed
  qed
qed

lemma close_inv:
  assumes "driv_inv s" and "\<And>a. dev = Some a \<Longrightarrow> lm_dev s a \<noteq> None"
  shows "\<exists>r s'. los_dev_close dev s = Some (r, s') \<and> driv_inv s'"
proof (cases dev)
  case None
  then show ?thesis using assms(1) by (auto simp: los_dev_close_def)
next
  case (Some a)
  obtain l s1 where k: "drv_lock s = (l, s1)" by (cases "drv_lock s")
  have i: "driv_inv s1" "lm_drv s1 = lm_drv s" "lm_dev s1 = lm_dev s"
    using lock_inv[OF assms(1) k] by auto
  note inv = driv_invD[OF i(1)]
  obtain dv where dv: "lm_dev s1 a = Some dv" using assms(2)[OF Some] i(3) by auto
  obtain cb where cb: "lm_drv s1 (de_driv dv) = Some cb" "a \<in> set (dr_devlst cb)"
    using inv(6)[OF dv] by blast
  let ?d = "de_driv dv"
  have ok: "cb_ok s1 ?d cb" by (rule inv(4)[OF cb(1)])
  show ?thesis
  proof (cases l)
    case False
    then show ?thesis using Some k i by (auto simp: los_dev_close_def)
  next
    case True
    obtain cb' w where c: "run_close (cb\<lparr>dr_devlst := remove1 a (dr_devlst cb)\<rparr>) (lm_world s1) = (cb', w)"
      by fastforce
    then have f: "dr_devlst cb' = remove1 a (dr_devlst cb)" "dr_name cb' = dr_name cb"
      "dr_opencounter cb' = dr_opencounter cb" "dr_flagmask cb' = dr_flagmask cb"
      using run_close_fields[OF c] by simp_all
    have r: "los_dev_close dev s = Some (True,
        (set_driv ?d (cb'\<lparr>dr_opencounter := dr_opencounter cb' - 1\<rparr>) (s1\<lparr>lm_world := w\<rparr>))
        \<lparr>lm_dev := (lm_dev s1)(a := None)\<rparr>)"
      using Some k True dv cb c by (simp add: los_dev_close_def)
    let ?s = "(set_driv ?d (cb'\<lparr>dr_opencounter := dr_opencounter cb' - 1\<rparr>) (s1\<lparr>lm_world := w\<rparr>))
        \<lparr>lm_dev := (lm_dev s1)(a := None)\<rparr>"
    have "driv_inv ?s"
    proof (rule driv_invI)
      have d: "insert ?d (dom (lm_drv s1)) = dom (lm_drv s1)" using cb(1) by blast
      show "distinct (lm_drivlst ?s)" "dom (lm_drv ?s) = set (lm_drivlst ?s)"
        "lm_drivnum ?s = of_nat (length (lm_drivlst ?s))"
        using inv(1-3) d by (simp_all add: set_driv_def)
      show "cb_ok ?s e c" if "lm_drv ?s e = Some c" for e c
      proof (cases "e = ?d")
        case True
        then have "c = cb'\<lparr>dr_opencounter := dr_opencounter cb' - 1\<rparr>" using that by (simp add: set_driv_def)
        then show ?thesis
          using True ok f cb(2) length_pos_of_nat[OF cb(2), where ?'a = 64]
          by (auto simp: cb_ok_def set_driv_def length_remove1)
      next
        case False
        then have "lm_drv s1 e = Some c" using that by (simp add: set_driv_def)
        then have "cb_ok s1 e c" by (rule inv(4))
        then show ?thesis using False dv by (auto simp: cb_ok_def set_driv_def)
      qed
      have old: "\<exists>c0. lm_drv s1 e = Some c0 \<and> dr_name c0 = dr_name c" if "lm_drv ?s e = Some c" for e c
        using that cb(1) f(2) by (auto simp: set_driv_def split: if_splits)
      show "lm_drv ?s e = Some c \<Longrightarrow> lm_drv ?s e' = Some c' \<Longrightarrow> dr_name c = dr_name c' \<Longrightarrow> e = e'"
        for e e' c c'
        using old[of e c] old[of e' c'] inv(5)[of e _ e'] by metis
      show "\<exists>cb. lm_drv ?s (de_driv v) = Some cb \<and> b \<in> set (dr_devlst cb)" if "lm_dev ?s b = Some v" for b v
        using that inv(6)[of b v] cb(1) f(1) by (auto simp: set_driv_def split: if_splits)
      show "lm_drv ?s e = Some c \<Longrightarrow> e < lm_next ?s" for e c
        using inv(7)[of e c] inv(7)[OF cb(1)] by (auto simp: set_driv_def split: if_splits)
      show "lm_dev ?s b = Some v \<Longrightarrow> b < lm_next ?s" for b v
        using inv(8)[of b v] by (auto simp: set_driv_def split: if_splits)
    qed
    then show ?thesis using r by blast
  qed
qed

lemma live_driver:
  assumes "driv_inv s" and "lm_dev s a = Some dv"
  obtains cb where "lm_drv s (de_driv dv) = Some cb"
  using driv_invD(6)[OF assms] by blast

lemma read_inv:
  assumes "driv_inv s" and "\<And>a. dev = Some a \<Longrightarrow> lm_dev s a \<noteq> None"
  shows "\<exists>r s'. los_dev_read dev offset has_buf len timeout s = Some (r, s') \<and> driv_inv s'"
proof (cases dev)
  case (Some a)
  then obtain dv where dv: "lm_dev s a = Some dv" using assms(2) by blast
  obtain cb where cb: "lm_drv s (de_driv dv) = Some cb" by (rule live_driver[OF assms(1) dv])
  have "driv_inv (set_driv (de_driv dv) (cb\<lparr>dr_total_read := n\<rparr>) (s\<lparr>lm_world := w\<rparr>))"
    "driv_inv (set_driv (de_driv dv) cb (s\<lparr>lm_world := w\<rparr>))" for n w
    by (rule set_driv_inv[OF assms(1) cb]; simp)+
  then show ?thesis using Some dv cb assms(1)
    by (auto simp: los_dev_read_def Let_def split: option.splits prod.splits)
qed (use assms(1) in \<open>auto simp: los_dev_read_def\<close>)

lemma write_inv:
  assumes "driv_inv s" and "\<And>a. dev = Some a \<Longrightarrow> lm_dev s a \<noteq> None"
  shows "\<exists>r s'. los_dev_write dev offset buf timeout s = Some (r, s') \<and> driv_inv s'"
proof (cases dev)
  case (Some a)
  then obtain dv where dv: "lm_dev s a = Some dv" using assms(2) by blast
  obtain cb where cb: "lm_drv s (de_driv dv) = Some cb" by (rule live_driver[OF assms(1) dv])
  have "driv_inv (set_driv (de_driv dv) (cb\<lparr>dr_total_write := n\<rparr>) (s\<lparr>lm_world := w\<rparr>))"
    "driv_inv (set_driv (de_driv dv) cb (s\<lparr>lm_world := w\<rparr>))" for n w
    by (rule set_driv_inv[OF assms(1) cb]; simp)+
  then show ?thesis using Some dv cb assms(1)
    by (auto simp: los_dev_write_def Let_def split: option.splits prod.splits)
qed (use assms(1) in \<open>auto simp: los_dev_write_def\<close>)

lemma ioctl_seek_inv:
  assumes "driv_inv s" and "\<And>a. dev = Some a \<Longrightarrow> lm_dev s a \<noteq> None"
  shows "\<exists>r s'. los_dev_ioctl dev cmd para paralen s = Some (r, s') \<and> driv_inv s'"
    and "\<exists>r s'. los_dev_seek dev off fromwhere s = Some (r, s') \<and> driv_inv s'"
proof -
  have w: "driv_inv (s\<lparr>lm_world := w\<rparr>)" for w by (rule inv_frame[OF assms(1)]) simp_all
  have "\<exists>dv cb. lm_dev s a = Some dv \<and> lm_drv s (de_driv dv) = Some cb" if "dev = Some a" for a
    using assms(2)[OF that] live_driver[OF assms(1)] by (metis not_None_eq)
  then show "\<exists>r s'. los_dev_ioctl dev cmd para paralen s = Some (r, s') \<and> driv_inv s'"
    "\<exists>r s'. los_dev_seek dev off fromwhere s = Some (r, s') \<and> driv_inv s'"
    using w assms(1)
    by (cases dev; fastforce simp: los_dev_ioctl_def los_dev_seek_def Let_def split: option.splits prod.splits)+
qed


section \<open>Sequences of calls\<close>

text \<open>
  The calls of the interface. A call is legal when the handle it passes is \<^verbatim>\<open>NULL\<close> or that of an open device and,
  for \<^verbatim>\<open>los_driv_unregister\<close>, when no device of the driver is open.
\<close>

datatype 'w drv_call =
    Register "'w os_driv_para_t"
  | Unregister "string option"
  | Open "string option" u32
  | Close "nat option"
  | Read "nat option" u64 bool u64 u32
  | Write "nat option" u64 "bytes option" u32
  | Ioctl "nat option" u32 "nat option" int
  | Seek "nat option" int int

fun drv_run :: "'w drv_call \<Rightarrow> 'w los_driv_module \<Rightarrow> 'w los_driv_module option" where
  "drv_run (Register para) s = map_option snd (los_driv_register para s)"
| "drv_run (Unregister name) s = map_option snd (los_driv_unregister name s)"
| "drv_run (Open name flag) s = map_option snd (los_dev_open name flag s)"
| "drv_run (Close dev) s = map_option snd (los_dev_close dev s)"
| "drv_run (Read dev off b n t) s = map_option snd (los_dev_read dev off b n t s)"
| "drv_run (Write dev off buf t) s = map_option snd (los_dev_write dev off buf t s)"
| "drv_run (Ioctl dev cmd p n) s = map_option snd (los_dev_ioctl dev cmd p n s)"
| "drv_run (Seek dev off whence) s = map_option snd (los_dev_seek dev off whence s)"

definition open_handle :: "nat option \<Rightarrow> 'w los_driv_module \<Rightarrow> bool" where
  "open_handle dev s \<longleftrightarrow> (case dev of None \<Rightarrow> True | Some a \<Rightarrow> lm_dev s a \<noteq> None)"

fun legal :: "'w drv_call \<Rightarrow> 'w los_driv_module \<Rightarrow> bool" where
  "legal (Register para) s = True"
| "legal (Unregister name) s = (case name of None \<Rightarrow> True | Some n \<Rightarrow> unused n s)"
| "legal (Open name flag) s = True"
| "legal (Close dev) s = open_handle dev s"
| "legal (Read dev off b n t) s = open_handle dev s"
| "legal (Write dev off buf t) s = open_handle dev s"
| "legal (Ioctl dev cmd p n) s = open_handle dev s"
| "legal (Seek dev off whence) s = open_handle dev s"

definition drv_start :: "bool list \<Rightarrow> bool list \<Rightarrow> 'w \<Rightarrow> 'w los_driv_module" where
  "drv_start mallocs locks w =
     \<lparr>lm_drivlst = [], lm_drivnum = 0, lm_drv = Map.empty, lm_dev = Map.empty, lm_next = 0,
      lm_mallocs = mallocs, lm_locks = locks, lm_world = w\<rparr>"

inductive drv_reach :: "'w los_driv_module \<Rightarrow> bool" where
  start: "drv_reach (drv_start mallocs locks w)"
| call: "drv_reach s \<Longrightarrow> legal c s \<Longrightarrow> drv_run c s = Some s' \<Longrightarrow> drv_reach s'"

lemma start_inv: "driv_inv (drv_start mallocs locks w)"
  by (simp add: drv_start_def driv_inv_def)

lemma legal_call:
  assumes inv: "driv_inv s" and l: "legal c s"
  shows "\<exists>s'. drv_run c s = Some s' \<and> driv_inv s'"
proof (cases c)
  case (Register para)
  then show ?thesis using register_inv[OF inv, of para] by auto
next
  case (Unregister name)
  then show ?thesis using l unregister_inv[OF inv, of name] by fastforce
next
  case (Open name flag)
  then show ?thesis using open_inv[OF inv, of name flag] by auto
next
  case (Close dev)
  then show ?thesis using l close_inv[OF inv, of dev] by (fastforce simp: open_handle_def)
next
  case (Read dev off b n t)
  then show ?thesis using l read_inv[OF inv, of dev off b n t] by (fastforce simp: open_handle_def)
next
  case (Write dev off buf t)
  then show ?thesis using l write_inv[OF inv, of dev off buf t] by (fastforce simp: open_handle_def)
next
  case (Ioctl dev cmd p n)
  then show ?thesis using l ioctl_seek_inv(1)[OF inv, of dev cmd p n] by (fastforce simp: open_handle_def)
next
  case (Seek dev off whence)
  then show ?thesis using l ioctl_seek_inv(2)[OF inv, of dev off whence] by (fastforce simp: open_handle_def)
qed

lemma reach_inv: "drv_reach s \<Longrightarrow> driv_inv s"
proof (induction rule: drv_reach.induct)
  case (call s c s')
  then show ?case using legal_call[of s c] by auto
qed (rule start_inv)

section \<open>Properties\<close>

text \<open>A driver with no operation, and its parameters: the concrete inputs of the witnesses.\<close>

definition idle_op :: "unit los_driv_op_t" where
  "idle_op = \<lparr>op_open = None, op_read = None, op_write = None, op_close = None, op_ioctl = None,
     op_seek = None, op_init = Some (\<lambda>_ w. (True, w)), op_deinit = None\<rparr>"

definition idle_para :: "string \<Rightarrow> u32 \<Rightarrow> unit os_driv_para_t" where
  "idle_para name flag = \<lparr>pa_name = Some name, pa_op = Some idle_op, pa_pri = None, pa_flag = flag\<rparr>"

definition one_open :: "unit los_driv_module" where
  "one_open = the (do { s \<leftarrow> drv_run (Register (idle_para ''uart'' O_EXCL)) (drv_start [] [] ());
                        drv_run (Open (Some ''uart'') O_RDWR) s })"

lemmas drv_eval = drv_start_def idle_para_def idle_op_def los_driv_register_def
  drv_malloc_def drv_lock_def driv_match_def new_driv_def los_dev_open_def set_driv_def run_init_def run_open_def

lemma one_open_eq:
  "drv_run (Register (idle_para ''uart'' O_EXCL)) (drv_start [] [] ()) \<noteq> None"
  "drv_run (Open (Some ''uart'') O_RDWR)
     (the (drv_run (Register (idle_para ''uart'' O_EXCL)) (drv_start [] [] ()))) = Some one_open"
  by (simp_all add: one_open_def drv_eval)

lemma one_open_reach: "drv_reach one_open"
proof -
  have r: "drv_reach (the (drv_run (Register (idle_para ''uart'' O_EXCL)) (drv_start [] [] ())))"
    by (rule drv_reach.call[OF drv_reach.start[of "[]" "[]" "()"], of "Register (idle_para ''uart'' O_EXCL)"])
      (use one_open_eq(1) in auto)
  show ?thesis by (rule drv_reach.call[OF r, of "Open (Some ''uart'') O_RDWR"]) (use one_open_eq(2) in auto)
qed

lemma one_open_state:
  "lm_dev one_open = [1 \<mapsto> \<lparr>de_driv = 0, de_openflag = O_RDWR\<rparr>]"
  "map_option (\<lambda>cb. (dr_name cb, dr_devlst cb)) (lm_drv one_open 0) = Some (''uart'', [1])"
  by (simp_all add: one_open_def drv_eval)

lemma open_ok:
  assumes "driv_inv s" and "los_dev_open (Some name) flag s = Some (Some a, s')"
  obtains d cb cb' w where "lm_drv s d = Some cb" "lm_dev s a = None"
    "dr_devlst cb' = dr_devlst cb" "dr_opencounter cb' = dr_opencounter cb"
    "lm_drv s' = (lm_drv s)(d \<mapsto> cb'\<lparr>dr_opencounter := dr_opencounter cb + 1, dr_devlst := a # dr_devlst cb\<rparr>)"
    "lm_dev s' = (lm_dev s)(a \<mapsto> \<lparr>de_driv = d, de_openflag = flag\<rparr>)"
proof -
  obtain r s1 where m: "drv_malloc s = (r, s1)" by (cases "drv_malloc s")
  obtain l s2 where k: "drv_lock s1 = (l, s2)" by (cases "drv_lock s1")
  have i1: "driv_inv s1" "lm_drv s1 = lm_drv s" "lm_dev s1 = lm_dev s" using malloc_inv[OF assms(1) m] by auto
  have i2: "driv_inv s2" "lm_drv s2 = lm_drv s" "lm_dev s2 = lm_dev s"
    using lock_inv[OF i1(1) k] i1 by auto
  note e = los_dev_open_def m k
  obtain a' where r: "r = Some a'" "l = True" using assms(2) by (cases r; cases l) (auto simp: e)
  have fresh: "lm_dev s a' = None" using malloc_inv[OF assms(1) m] i1 r by auto
  from i2(1) show thesis
  proof (cases rule: driv_match_spec[where name = name])
    case none
    then show thesis using assms(2) r by (simp add: e)
  next
    case (found d cb)
    obtain ok cb1 w1 where ri: "run_init cb (lm_world s2) = (ok, cb1, w1)" by (cases "run_init cb (lm_world s2)")
    obtain ok2 cb2 w2 where ro: "run_open flag cb1 w1 = (ok2, cb2, w2)" by (cases "run_open flag cb1 w1")
    note fi = run_init_fields[OF ri] and fo = run_open_fields[OF ro]
    have "\<not> (O_EXCL AND dr_flagmask cb \<noteq> 0 \<and> dr_devlst cb \<noteq> [])" "ok" "ok2"
      using assms(2) r found ri ro by (auto simp: e split: if_splits bool.splits)
    then show thesis using assms(2) r found ri ro fi fo i2 fresh
      by (intro that[of d cb cb2]) (auto simp: e set_driv_def)
  qed
qed

lemma close_ok:
  assumes "los_dev_close (Some a) s = Some (True, s')" and "lm_dev s a = Some dv"
    and "lm_drv s (de_driv dv) = Some cb"
  obtains cb' where "dr_devlst cb' = remove1 a (dr_devlst cb)"
    "dr_opencounter cb' = dr_opencounter cb - 1"
    "lm_drv s' = (lm_drv s)(de_driv dv \<mapsto> cb')" "lm_dev s' = (lm_dev s)(a := None)"
proof -
  obtain l s1 where k: "drv_lock s = (l, s1)" by (cases "drv_lock s")
  then have i: "lm_dev s1 = lm_dev s" "lm_drv s1 = lm_drv s" by (auto simp: drv_lock_def Let_def split: prod.splits)
  obtain cb' w where c: "run_close (cb\<lparr>dr_devlst := remove1 a (dr_devlst cb)\<rparr>) (lm_world s1) = (cb', w)"
    by fastforce
  note f = run_close_fields[OF c]
  have "l" "a \<in> set (dr_devlst cb)" using assms k i by (auto simp: los_dev_close_def split: bool.splits if_splits)
  then show thesis using assms k i c f
    by (intro that[of "cb'\<lparr>dr_opencounter := dr_opencounter cb' - 1\<rparr>"]) (auto simp: los_dev_close_def set_driv_def)
qed

text \<open>C2. After any sequence of legal calls the driver framework is consistent (no two drivers of one
  name, every open device on the list of exactly its driver, the open counter the length of that list,
  at most one device open on a driver registered with \<^verbatim>\<open>O_EXCL\<close>), and every further legal call
  returns: no call touches a block that was freed.\<close>

theorem driver_safe:
  assumes "drv_reach s" and "legal c s"
  shows "driv_inv s \<and> (\<exists>s'. drv_run c s = Some s' \<and> driv_inv s')"
  using reach_inv[OF assms(1)] legal_call[OF _ assms(2)] by blast

theorem driver_safe_witness:
  "driv_inv one_open \<and> (\<exists>s'. drv_run (Close (Some 1)) one_open = Some s' \<and> driv_inv s')"
  by (rule driver_safe[OF one_open_reach]) (simp add: open_handle_def one_open_state)

text \<open>A driver registered with \<^verbatim>\<open>O_EXCL\<close> that has a device open cannot be opened again: the call
  returns no handle and leaves drivers and devices as they are.\<close>

theorem driver_exclusive:
  assumes "drv_reach s" and "lm_drv s d = Some cb" and "O_EXCL AND dr_flagmask cb \<noteq> 0"
    and "dr_devlst cb \<noteq> []"
  shows "\<exists>s'. los_dev_open (Some (dr_name cb)) flag s = Some (None, s') \<and>
    lm_drv s' = lm_drv s \<and> lm_dev s' = lm_dev s"
proof -
  note inv = reach_inv[OF assms(1)]
  obtain r s1 where m: "drv_malloc s = (r, s1)" by (cases "drv_malloc s")
  obtain l s2 where k: "drv_lock s1 = (l, s2)" by (cases "drv_lock s1")
  have i1: "driv_inv s1" "lm_drv s1 = lm_drv s" "lm_dev s1 = lm_dev s" using malloc_inv[OF inv m] by auto
  have i2: "driv_inv s2" "lm_drv s2 = lm_drv s" "lm_dev s2 = lm_dev s"
    using lock_inv[OF i1(1) k] i1 by auto
  from i2(1) have "\<exists>d'. driv_match s2 (dr_name cb) = Some (Some d') \<and> d' = d"
    by (cases rule: driv_match_spec[where name = "dr_name cb"])
      (use i2(2) assms(2) driv_invD(5)[OF inv] in \<open>fastforce+\<close>)
  then show ?thesis using m k i1 i2 assms(2-4)
    by (cases r; cases l) (auto simp: los_dev_open_def)
qed

theorem driver_exclusive_witness:
  "\<exists>s'. los_dev_open (Some ''uart'') 0 one_open = Some (None, s') \<and>
    lm_drv s' = lm_drv one_open \<and> lm_dev s' = lm_dev one_open"
proof -
  have "\<exists>cb. lm_drv one_open 0 = Some cb \<and> dr_name cb = ''uart'' \<and> dr_flagmask cb = O_EXCL \<and> dr_devlst cb \<noteq> []"
    by (simp add: one_open_def drv_eval)
  then obtain cb where "lm_drv one_open 0 = Some cb" "dr_name cb = ''uart''" "dr_flagmask cb = O_EXCL"
    "dr_devlst cb \<noteq> []" by blast
  then show ?thesis using driver_exclusive[OF one_open_reach, of 0 cb 0] by simp
qed

text \<open>Opening a device and closing it restores the framework: no device is left over, and every driver has the
  open list and the open counter it had.\<close>

theorem driver_open_close:
  assumes "drv_reach s" and "los_dev_open (Some name) flag s = Some (Some a, s1)"
    and "los_dev_close (Some a) s1 = Some (True, s2)"
  shows "lm_dev s2 = lm_dev s \<and>
    (\<forall>d. map_option (\<lambda>cb. (dr_devlst cb, dr_opencounter cb)) (lm_drv s2 d) =
         map_option (\<lambda>cb. (dr_devlst cb, dr_opencounter cb)) (lm_drv s d))"
proof -
  obtain d cb cb' where o: "lm_drv s d = Some cb" "lm_dev s a = None"
    "lm_drv s1 = (lm_drv s)(d \<mapsto> cb'\<lparr>dr_opencounter := dr_opencounter cb + 1, dr_devlst := a # dr_devlst cb\<rparr>)"
    "lm_dev s1 = (lm_dev s)(a \<mapsto> \<lparr>de_driv = d, de_openflag = flag\<rparr>)"
    by (rule open_ok[OF reach_inv[OF assms(1)] assms(2)])
  have dv: "lm_dev s1 a = Some \<lparr>de_driv = d, de_openflag = flag\<rparr>"
    "lm_drv s1 (de_driv \<lparr>de_driv = d, de_openflag = flag\<rparr>) =
       Some (cb'\<lparr>dr_opencounter := dr_opencounter cb + 1, dr_devlst := a # dr_devlst cb\<rparr>)"
    using o by simp_all
  show ?thesis
    by (rule close_ok[OF assms(3) dv]) (use o in auto)
qed

theorem driver_open_close_witness:
  "\<exists>s1 s2. los_dev_open (Some ''uart'') 0
       (the (drv_run (Register (idle_para ''uart'' 0)) (drv_start [] [] ()))) = Some (Some 1, s1) \<and>
     los_dev_close (Some 1) s1 = Some (True, s2) \<and> lm_dev s2 = Map.empty"
proof -
  let ?s = "the (drv_run (Register (idle_para ''uart'' 0)) (drv_start [] [] ()))"
  obtain s1 where o: "los_dev_open (Some ''uart'') 0 ?s = Some (Some 1, s1)"
    by (simp add: drv_eval)
  then obtain s2 where c: "los_dev_close (Some 1) s1 = Some (True, s2)"
    by (auto simp: drv_eval los_dev_close_def run_close_def)
  have r: "drv_reach ?s"
    by (rule drv_reach.call[OF drv_reach.start[of "[]" "[]" "()"], of "Register (idle_para ''uart'' 0)"])
      (simp_all add: drv_eval)
  have "lm_dev ?s = Map.empty" by (simp add: drv_eval)
  then have "lm_dev s2 = Map.empty" using driver_open_close[OF r o c] by simp
  then show ?thesis using o c by blast
qed

text \<open>A driver can be unregistered while a device of it is open: the call succeeds and frees the driver. Any
  control call on the open handle then uses freed memory, and so does closing it, whenever the lock is
  taken.\<close>

theorem driver_unregister_dangles:
  assumes "drv_reach s" and "lm_dev s a = Some dv" and "lm_drv s (de_driv dv) = Some cb"
    and "fst (drv_lock s)" and "fst (drv_lock (snd (drv_lock s)))"
  shows "\<exists>s'. los_driv_unregister (Some (dr_name cb)) s = Some (True, s') \<and>
    los_dev_ioctl (Some a) cmd para paralen s' = None \<and> los_dev_close (Some a) s' = None"
proof -
  note inv = reach_inv[OF assms(1)]
  obtain l s1 where k: "drv_lock s = (l, s1)" by (cases "drv_lock s")
  have i: "driv_inv s1" "lm_drv s1 = lm_drv s" "lm_dev s1 = lm_dev s" using lock_inv[OF inv k] by auto
  from i(1) have m: "driv_match s1 (dr_name cb) = Some (Some (de_driv dv))"
    by (cases rule: driv_match_spec[where name = "dr_name cb"])
      (use i(2) assms(3) driv_invD(5)[OF inv] in \<open>fastforce+\<close>)
  define s' where "s' = s1\<lparr>lm_drivlst := remove1 (de_driv dv) (lm_drivlst s1), lm_drv := (lm_drv s1)(de_driv dv := None),
    lm_drivnum := lm_drivnum s1 - 1\<rparr>"
  have u: "los_driv_unregister (Some (dr_name cb)) s = Some (True, s')"
    using k assms(4) m by (simp add: los_driv_unregister_def s'_def)
  have "lm_dev s' a = Some dv" "lm_drv s' (de_driv dv) = None" using i assms(2) by (simp_all add: s'_def)
  moreover obtain s2 where "drv_lock s' = (True, s2)" "lm_dev s2 = lm_dev s'" "lm_drv s2 = lm_drv s'"
    using assms(5) k by (auto simp: s'_def drv_lock_def Let_def split: prod.splits)
  ultimately show ?thesis using u by (auto simp: los_dev_ioctl_def los_dev_close_def)
qed

theorem driver_unregister_dangles_witness:
  "\<exists>s'. los_driv_unregister (Some ''uart'') one_open = Some (True, s') \<and>
    los_dev_ioctl (Some 1) 0 None 0 s' = None \<and> los_dev_close (Some 1) s' = None"
proof -
  obtain cb where cb: "lm_drv one_open 0 = Some cb" "dr_name cb = ''uart''"
    using one_open_state(2) by (auto split: option.splits)
  have l: "fst (drv_lock one_open)" "fst (drv_lock (snd (drv_lock one_open)))"
    by (simp_all add: one_open_def drv_eval)
  have d: "lm_dev one_open 1 = Some \<lparr>de_driv = 0, de_openflag = O_RDWR\<rparr>" by (simp add: one_open_state)
  show ?thesis
    using driver_unregister_dangles[OF one_open_reach d _ l, of cb 0 None 0] cb by simp
qed

end
