(* ===== verification/Stimer.thy ===== *)
theory Stimer
  imports Prelude
begin

text \<open>
  The soft timers of \<^verbatim>\<open>stimer/stimer.c\<close>. The timers are blocks in a heap, a finite map from
  addresses, linked by their \<^verbatim>\<open>nxt\<close> members as in the code; a freed block is gone from the heap, and
  reading it is \<open>None\<close>. The walks along the list are partial functions: on a cyclic list, or
  with a timer that is always due, they do not return.

  The clock \<^verbatim>\<open>osal_sys_time\<close> is a sequence of readings, the outcomes of \<^verbatim>\<open>osal_malloc\<close> and
  \<^verbatim>\<open>osal_mutex_lock\<close> are oracles, and the calls of the handlers are logged with the time they
  are made at. A handler is a number, and it does not call the timer module: it runs with the mutex taken.
\<close>

section \<open>State\<close>

type_synonym addr = nat

record timer_item =
  ti_name :: "string option"
  ti_cycle :: u32
  ti_flag :: u32
  ti_handler :: "nat option"
  ti_args :: nat
  ti_dead_time :: u64
  ti_nxt :: "addr option"

record stimer_cb =
  st_semp :: "bool option"
  st_mutex :: bool
  st_lst :: "addr option"
  st_task :: bool
  st_daemon_exit :: bool
  st_heap :: "addr \<Rightarrow> timer_item option"
  st_next :: addr
  st_clock :: "nat \<Rightarrow> u64"
  st_ticks :: nat
  st_mallocs :: "bool list"
  st_locks :: "bool list"
  st_log :: "(nat \<times> nat \<times> u64) list"

abbreviation "cn_stimer_flag_once \<equiv> 1 :: u32"
abbreviation "cn_stimer_flag_start \<equiv> 2 :: u32"
abbreviation "cn_stimer_wait_max \<equiv> 0xffffffff :: u32"
abbreviation "cn_stimer_dead_max \<equiv> 0x7fffffffffffffff :: u64"

text \<open>The static \<^verbatim>\<open>s_stimer_cb\<close>: \<^verbatim>\<open>semp\<close> is \<open>None\<close> while invalid, else whether it was posted.\<close>

definition s_stimer_cb :: "(nat \<Rightarrow> u64) \<Rightarrow> bool list \<Rightarrow> bool list \<Rightarrow> stimer_cb" where
  "s_stimer_cb clock mallocs locks =
     \<lparr>st_semp = None, st_mutex = False, st_lst = None, st_task = False, st_daemon_exit = False,
      st_heap = Map.empty, st_next = 0, st_clock = clock, st_ticks = 0,
      st_mallocs = mallocs, st_locks = locks, st_log = []\<rparr>"

definition st_sys_time :: "stimer_cb \<Rightarrow> u64 \<times> stimer_cb" where
  "st_sys_time s = (st_clock s (st_ticks s), s\<lparr>st_ticks := Suc (st_ticks s)\<rparr>)"

definition st_lock :: "stimer_cb \<Rightarrow> bool \<times> stimer_cb" where
  "st_lock s = (let (ok, os) = alloc (st_locks s) in (ok, s\<lparr>st_locks := os\<rparr>))"

definition st_post :: "stimer_cb \<Rightarrow> stimer_cb" where
  "st_post s = s\<lparr>st_semp := map_option (\<lambda>_. True) (st_semp s)\<rparr>"

definition set_item :: "addr \<Rightarrow> timer_item \<Rightarrow> stimer_cb \<Rightarrow> stimer_cb" where
  "set_item a it s = s\<lparr>st_heap := (st_heap s)(a \<mapsto> it)\<rparr>"

section \<open>The list of timers\<close>

text \<open>The walk of \<^verbatim>\<open>timer_remove\<close>: the block whose \<^verbatim>\<open>nxt\<close> is \<open>item\<close>, if there is one.\<close>

partial_function (option) remove_walk ::
  "(addr \<Rightarrow> timer_item option) \<Rightarrow> addr \<Rightarrow> addr option \<Rightarrow> addr option option"
where
  "remove_walk h item p =
     (case p of
        None \<Rightarrow> Some None
      | Some t \<Rightarrow> do { it \<leftarrow> h t;
                      if ti_nxt it = Some item then Some (Some t) else remove_walk h item (ti_nxt it) })"

definition timer_remove :: "addr \<Rightarrow> stimer_cb \<Rightarrow> stimer_cb option" where
  "timer_remove item s =
     do { it \<leftarrow> st_heap s item;
          s \<leftarrow> (if st_lst s = Some item then Some (s\<lparr>st_lst := ti_nxt it\<rparr>)
               else do { q \<leftarrow> remove_walk (st_heap s) item (st_lst s);
                         case q of
                           None \<Rightarrow> Some s
                         | Some t \<Rightarrow> do { tt \<leftarrow> st_heap s t;
                                         Some (set_item t (tt\<lparr>ti_nxt := ti_nxt it\<rparr>) s) } });
          it \<leftarrow> st_heap s item;
          Some (set_item item (it\<lparr>ti_nxt := None\<rparr>) s) }"

text \<open>The walk of \<^verbatim>\<open>timer_add\<close>: the block after which the timer goes, \<open>None\<close> for the front.\<close>

partial_function (option) add_walk ::
  "(addr \<Rightarrow> timer_item option) \<Rightarrow> u64 \<Rightarrow> addr option \<Rightarrow> addr option option"
where
  "add_walk h dead_time p =
     (case p of
        None \<Rightarrow> Some None
      | Some t \<Rightarrow> do {
          it \<leftarrow> h t;
          if sint dead_time \<le> sint (ti_dead_time it) then Some None
          else (case ti_nxt it of
                  None \<Rightarrow> Some (Some t)
                | Some n \<Rightarrow> do { nx \<leftarrow> h n;
                                if sint dead_time \<le> sint (ti_dead_time nx) then Some (Some t)
                                else add_walk h dead_time (Some n) }) })"

definition timer_add :: "addr \<Rightarrow> stimer_cb \<Rightarrow> stimer_cb option" where
  "timer_add timer s =
     do { it \<leftarrow> st_heap s timer;
          q \<leftarrow> add_walk (st_heap s) (ti_dead_time it) (st_lst s);
          case q of
            None \<Rightarrow>
              Some ((if st_lst s \<noteq> None then set_item timer (it\<lparr>ti_nxt := st_lst s\<rparr>) s else s)
                    \<lparr>st_lst := Some timer\<rparr>)
          | Some t \<Rightarrow> do { tt \<leftarrow> st_heap s t;
                          let s = set_item timer (it\<lparr>ti_nxt := ti_nxt tt\<rparr>) s;
                          tt \<leftarrow> st_heap s t;
                          Some (set_item t (tt\<lparr>ti_nxt := Some timer\<rparr>) s) } }"

text \<open>What happens to a timer that is due: the handler is called, and the next dead time is set.\<close>

definition timer_fire :: "u64 \<Rightarrow> timer_item \<Rightarrow> timer_item" where
  "timer_fire cur_time it =
     (if ti_flag it AND cn_stimer_flag_once \<noteq> 0
      then it\<lparr>ti_flag := ti_flag it AND NOT cn_stimer_flag_start, ti_dead_time := cn_stimer_dead_max\<rparr>
      else it\<lparr>ti_dead_time := cur_time + ucast (ti_cycle it)\<rparr>)"

definition call_log :: "u64 \<Rightarrow> timer_item \<Rightarrow> (nat \<times> nat \<times> u64) list" where
  "call_log cur_time it = (case ti_handler it of None \<Rightarrow> [] | Some f \<Rightarrow> [(f, ti_args it, cur_time)])"

text \<open>One round of the loop of \<^verbatim>\<open>timer_scan\<close>; the flag says whether the loop goes on.\<close>

definition scan_round :: "addr \<Rightarrow> stimer_cb \<Rightarrow> (bool \<times> stimer_cb) option" where
  "scan_round a s =
     do { it \<leftarrow> st_heap s a;
          let s = set_item a (it\<lparr>ti_nxt := None\<rparr>) (s\<lparr>st_lst := ti_nxt it\<rparr>);
          let (cur_time, s) = st_sys_time s;
          it \<leftarrow> st_heap s a;
          if sint (ti_dead_time it) \<le> sint cur_time
          then do { s \<leftarrow> timer_add a (set_item a (timer_fire cur_time it)
                                        (s\<lparr>st_log := st_log s @ call_log cur_time it\<rparr>));
                    Some (True, s) }
          else do { s \<leftarrow> timer_add a s; Some (False, s) } }"

partial_function (option) timer_scan :: "stimer_cb \<Rightarrow> stimer_cb option" where
  "timer_scan s =
     (case st_lst s of
        None \<Rightarrow> Some s
      | Some a \<Rightarrow> do { (go, s) \<leftarrow> scan_round a s; if go then timer_scan s else Some s })"

section \<open>The task\<close>

definition stimer_daemonquit :: "stimer_cb \<Rightarrow> int \<times> stimer_cb" where
  "stimer_daemonquit s = (0, s\<lparr>st_daemon_exit := True\<rparr>)"

text \<open>The time the task waits for the semaphore, from the first timer and the time.\<close>

definition wait_for :: "u64 option \<Rightarrow> u64 \<Rightarrow> u32" where
  "wait_for dead cur_time =
     (case dead of
        None \<Rightarrow> cn_stimer_wait_max
      | Some dead_time \<Rightarrow>
          if dead_time = cn_stimer_dead_max then cn_stimer_wait_max
          else (let wait_time = (if sint dead_time > sint cur_time then ucast (dead_time - cur_time) else 0)
                in if wait_time > cn_stimer_wait_max - 1 then cn_stimer_wait_max else wait_time))"

text \<open>
  One round of the loop of the task, from the return of the pend on: the semaphore is taken, the
  list scanned, and the next wait computed.
\<close>

definition timer_entry :: "u32 \<Rightarrow> stimer_cb \<Rightarrow> (u32 \<times> stimer_cb) option" where
  "timer_entry wait_time s =
     (if st_daemon_exit s then Some (wait_time, s)
      else do {
        let s = s\<lparr>st_semp := map_option (\<lambda>_. False) (st_semp s)\<rparr>;
        let (ok, s) = st_lock s;
        s \<leftarrow> (if ok then timer_scan s else Some s);
        let (cur_time, s) = st_sys_time s;
        let (ok, s) = st_lock s;
        if ok
        then (case st_lst s of
                None \<Rightarrow> Some (wait_for None cur_time, s)
              | Some a \<Rightarrow> do { it \<leftarrow> st_heap s a; Some (wait_for (Some (ti_dead_time it)) cur_time, s) })
        else Some (wait_time, s) })"

text \<open>The outcomes of the creations are arguments; on an error what was made is deleted in the reverse order.\<close>

definition stimer_init :: "bool \<Rightarrow> bool \<Rightarrow> bool \<Rightarrow> stimer_cb \<Rightarrow> int \<times> stimer_cb" where
  "stimer_init semp_ok mutex_ok task_ok s =
     (if \<not> semp_ok then (-1, s)
      else let s = s\<lparr>st_semp := Some False\<rparr> in
        if \<not> mutex_ok then (-1, s\<lparr>st_semp := None\<rparr>)
        else let s = s\<lparr>st_mutex := True\<rparr> in
          if \<not> task_ok then (-1, s\<lparr>st_task := False, st_mutex := False, st_semp := None\<rparr>)
          else (0, s\<lparr>st_task := True, st_daemon_exit := False\<rparr>))"

section \<open>The interface\<close>

definition stimer_create ::
  "string option \<Rightarrow> nat option \<Rightarrow> nat \<Rightarrow> u32 \<Rightarrow> u32 \<Rightarrow> stimer_cb \<Rightarrow> (addr option \<times> stimer_cb) option"
where
  "stimer_create name handler arg cycle flag s =
     (let (ok, os) = alloc (st_mallocs s); s = s\<lparr>st_mallocs := os\<rparr>
      in if \<not> ok then Some (None, s)
         else
           let a = st_next s;
               (dead_time, s) =
                 (if flag AND cn_stimer_flag_start \<noteq> 0
                  then (let (now, s) = st_sys_time s in (now + ucast cycle, s))
                  else (cn_stimer_dead_max, s));
               item = \<lparr>ti_name = name, ti_cycle = cycle, ti_flag = flag, ti_handler = handler,
                       ti_args = arg, ti_dead_time = dead_time, ti_nxt = None\<rparr>;
               (locked, s) = st_lock (s\<lparr>st_next := Suc a\<rparr>)
           in if locked
              then do { s \<leftarrow> timer_add a (set_item a item s); Some (Some a, st_post s) }
              else Some (None, s))"

text \<open>Deleting the null handle reads and writes through it.\<close>

definition stimer_delete :: "addr option \<Rightarrow> stimer_cb \<Rightarrow> (int \<times> stimer_cb) option" where
  "stimer_delete timer s =
     (case st_lock s of
        (False, s) \<Rightarrow> Some (-1, s)
      | (True, s) \<Rightarrow>
          do { a \<leftarrow> timer;
               s \<leftarrow> timer_remove a s;
               Some (0, st_post (s\<lparr>st_heap := (st_heap s)(a := None)\<rparr>)) })"

text \<open>The options; \<open>arg\<close> is the word the caller's pointer refers to, \<open>None\<close> the null pointer.\<close>

datatype stimer_opt = opt_stop | opt_start | opt_gettime | opt_recycle | opt_reflag

text \<open>The three options that move the timer: it leaves the list, is changed, and enters again.\<close>

definition timer_move ::
  "(timer_item \<Rightarrow> stimer_cb \<Rightarrow> timer_item \<times> stimer_cb) \<Rightarrow> addr \<Rightarrow> stimer_cb \<Rightarrow> stimer_cb option" where
  "timer_move f a s =
     do { s \<leftarrow> timer_remove a s;
          it \<leftarrow> st_heap s a;
          let (it, s) = f (it\<lparr>ti_nxt := None\<rparr>) s;
          s \<leftarrow> timer_add a (set_item a it s);
          Some (st_post s) }"

definition restart :: "timer_item \<Rightarrow> stimer_cb \<Rightarrow> timer_item \<times> stimer_cb" where
  "restart it s = (let (now, s) = st_sys_time s in (it\<lparr>ti_dead_time := ucast (ti_cycle it) + now\<rparr>, s))"

definition stimer_ioctl ::
  "addr option \<Rightarrow> stimer_opt \<Rightarrow> u32 option \<Rightarrow> stimer_cb \<Rightarrow> ((int \<times> u32 option) \<times> stimer_cb) option"
where
  "stimer_ioctl timer opt arg s =
     (case timer of
        None \<Rightarrow> Some ((-1, arg), s)
      | Some a \<Rightarrow>
          (case st_lock s of
             (False, s) \<Rightarrow> Some ((-1, arg), s)
           | (True, s) \<Rightarrow>
               (case opt of
                  opt_gettime \<Rightarrow>
                    (case arg of
                       None \<Rightarrow> Some ((-1, arg), s)
                     | Some _ \<Rightarrow> do { it \<leftarrow> st_heap s a;
                                     let (now, s) = st_sys_time s;
                                     Some ((0, Some (ucast (ti_dead_time it - now))), s) })
                | opt_stop \<Rightarrow>
                    do { s \<leftarrow> timer_move (\<lambda>it s. (it\<lparr>ti_flag := ti_flag it AND NOT cn_stimer_flag_start,
                                                 ti_dead_time := cn_stimer_dead_max\<rparr>, s)) a s;
                         Some ((0, arg), s) }
                | opt_start \<Rightarrow>
                    do { s \<leftarrow> timer_move (\<lambda>it s. restart (it\<lparr>ti_flag := ti_flag it OR cn_stimer_flag_start\<rparr>) s) a s;
                         Some ((0, arg), s) }
                | opt_recycle \<Rightarrow>
                    do { c \<leftarrow> arg;
                         s \<leftarrow> timer_move (\<lambda>it s. (let it = it\<lparr>ti_cycle := c\<rparr> in
                                if ti_flag it AND cn_stimer_flag_start \<noteq> 0 then restart it s else (it, s))) a s;
                         Some ((0, arg), s) }
                | opt_reflag \<Rightarrow> Some ((-1, arg), s))))"

section \<open>The list a chain of pointers stands for\<close>

fun chain :: "(addr \<Rightarrow> timer_item option) \<Rightarrow> addr option \<Rightarrow> addr list \<Rightarrow> bool" where
  "chain h p [] = (p = None)"
| "chain h p (a # as) = (p = Some a \<and> (case h a of None \<Rightarrow> False | Some it \<Rightarrow> chain h (ti_nxt it) as))"

definition dead :: "(addr \<Rightarrow> timer_item option) \<Rightarrow> addr \<Rightarrow> int" where
  "dead h a = (case h a of None \<Rightarrow> 0 | Some it \<Rightarrow> sint (ti_dead_time it))"

text \<open>The timers without their links.\<close>

definition unlink :: "timer_item \<Rightarrow> timer_item" where
  "unlink it = it\<lparr>ti_nxt := None\<rparr>"

definition items :: "(addr \<Rightarrow> timer_item option) \<Rightarrow> addr \<Rightarrow> timer_item option" where
  "items h = (\<lambda>a. map_option unlink (h a))"

definition timers :: "stimer_cb \<Rightarrow> addr list \<Rightarrow> bool" where
  "timers s as \<longleftrightarrow> chain (st_heap s) (st_lst s) as \<and> distinct as"

lemma unlink_sel [simp]:
  "ti_dead_time (unlink it) = ti_dead_time it" "ti_flag (unlink it) = ti_flag it"
  "ti_cycle (unlink it) = ti_cycle it" "ti_handler (unlink it) = ti_handler it"
  "ti_args (unlink it) = ti_args it" "ti_nxt (unlink it) = None"
  "unlink (it\<lparr>ti_nxt := n\<rparr>) = unlink it" "unlink (unlink it) = unlink it"
  by (simp_all add: unlink_def)

lemma items_upd [simp]: "items (h(a \<mapsto> it)) = (items h)(a \<mapsto> unlink it)"
  by (auto simp: items_def)

lemma items_None [simp]: "items (h(a := None)) = (items h)(a := None)"
  by (auto simp: items_def)

lemma items_same: "h a = Some it \<Longrightarrow> unlink it' = unlink it \<Longrightarrow> (items h)(a \<mapsto> unlink it') = items h"
  by (auto simp: items_def)

lemma dead_items: "dead h a = (case items h a of None \<Rightarrow> 0 | Some it \<Rightarrow> sint (ti_dead_time it))"
  by (auto simp: dead_def items_def split: option.splits)

lemma dead_cong: "items h = items h' \<Longrightarrow> dead h = dead h'"
  by (rule ext) (simp add: dead_items)

lemma items_dom: "dom (items h) = dom h"
  by (auto simp: items_def)

lemma chain_upd [simp]: "a \<notin> set as \<Longrightarrow> chain (h(a := x)) p as = chain h p as"
  by (induction as arbitrary: p) (auto split: option.splits)

lemma chain_live: "chain h p as \<Longrightarrow> a \<in> set as \<Longrightarrow> \<exists>it. h a = Some it"
  by (induction as arbitrary: p) (auto split: option.splits)

lemma chain_head: "chain h p as \<Longrightarrow> p = (case as of [] \<Rightarrow> None | a # _ \<Rightarrow> Some a)"
  by (cases as) auto

lemma chain_insert:
  "chain h p (us @ t # vs) \<Longrightarrow> distinct (us @ t # vs) \<Longrightarrow> a \<notin> set (us @ t # vs) \<Longrightarrow> h t = Some tt \<Longrightarrow>
     chain (h(a \<mapsto> it\<lparr>ti_nxt := ti_nxt tt\<rparr>, t \<mapsto> tt\<lparr>ti_nxt := Some a\<rparr>)) p (us @ t # a # vs)"
  by (induction us arbitrary: p) (auto split: option.splits)

lemma chain_delete:
  "chain h p (us @ t # a # vs) \<Longrightarrow> distinct (us @ t # a # vs) \<Longrightarrow> h t = Some tt \<Longrightarrow> h a = Some it \<Longrightarrow>
     chain (h(t \<mapsto> tt\<lparr>ti_nxt := ti_nxt it\<rparr>)) p (us @ t # vs)"
  by (induction us arbitrary: p) (auto split: option.splits)

lemma remove_walk_spec:
  "chain h p as \<Longrightarrow> distinct as \<Longrightarrow> p \<noteq> Some a \<Longrightarrow>
     (a \<notin> set as \<longrightarrow> remove_walk h a p = Some None) \<and>
     (\<forall>us t vs. as = us @ t # a # vs \<longrightarrow> remove_walk h a p = Some (Some t))"
proof (induction as arbitrary: p)
  case Nil
  then show ?case by (auto simp: remove_walk.simps)
next
  case (Cons b as)
  then obtain it where it: "h b = Some it" "chain h (ti_nxt it) as" "p = Some b" by (auto split: option.splits)
  show ?case
  proof (cases "ti_nxt it = Some a")
    case True
    then obtain vs where "as = a # vs" using chain_head[OF it(2)] by (cases as) auto
    then show ?thesis using True it Cons.prems
      by (subst (1 2) remove_walk.simps) (auto simp: Cons_eq_append_conv)
  next
    case False
    then show ?thesis using it Cons
      by (subst (1 2) remove_walk.simps) (auto simp: Cons_eq_append_conv)
  qed
qed

text \<open>
  Removing a timer: the pointers of the result are those of the list without it, no timer has changed, and the
  removed one has no successor.
\<close>

lemma timer_remove_refines:
  assumes "timers s as" and "st_heap s a = Some it"
  shows "\<exists>h l. timer_remove a s = Some (s\<lparr>st_lst := l, st_heap := h\<rparr>) \<and>
    timers (s\<lparr>st_lst := l, st_heap := h\<rparr>) (remove1 a as) \<and> items h = items (st_heap s) \<and>
    h a = Some (unlink it)"
proof -
  have c: "chain (st_heap s) (st_lst s) as" "distinct as" using assms(1) by (auto simp: timers_def)
  consider (head) vs where "as = a # vs" | (out) "a \<notin> set as" | (mid) us t vs where "as = us @ t # a # vs"
  proof (cases "a \<in> set as")
    case True
    then obtain us vs where "as = us @ a # vs" by (meson split_list)
    then show ?thesis using head mid by (cases us rule: rev_cases) auto
  qed (use out in blast)
  then show ?thesis
  proof cases
    case head
    then show ?thesis using c assms(2)
      by (intro exI[of _ "(st_heap s)(a \<mapsto> unlink it)"] exI[of _ "ti_nxt it"])
        (auto simp: timer_remove_def timers_def set_item_def items_same simp flip: unlink_def)
  next
    case out
    then have "st_lst s \<noteq> Some a" using chain_head[OF c(1)] by (cases as) auto
    moreover then have "remove_walk (st_heap s) a (st_lst s) = Some None" using remove_walk_spec c out by blast
    ultimately show ?thesis using c assms(2) out
      by (intro exI[of _ "(st_heap s)(a \<mapsto> unlink it)"] exI[of _ "st_lst s"])
        (auto simp: timer_remove_def timers_def set_item_def items_same remove1_idem simp flip: unlink_def)
  next
    case mid
    have "st_lst s \<noteq> Some a" using chain_head[OF c(1)] c(2) mid by (cases us) auto
    moreover then have w: "remove_walk (st_heap s) a (st_lst s) = Some (Some t)"
      using remove_walk_spec[OF c] mid by blast
    moreover obtain tt where tt: "st_heap s t = Some tt" using chain_live[OF c(1), of t] mid by auto
    moreover have ta: "t \<noteq> a" using c(2) mid by auto
    moreover have "chain ((st_heap s)(t \<mapsto> tt\<lparr>ti_nxt := ti_nxt it\<rparr>)) (st_lst s) (us @ t # vs)"
      using chain_delete c mid tt assms(2) by blast
    moreover have "remove1 a as = us @ t # vs" using c(2) mid by (simp add: remove1_append)
    ultimately show ?thesis using c assms(2) mid
      by (intro exI[of _ "(st_heap s)(t \<mapsto> tt\<lparr>ti_nxt := ti_nxt it\<rparr>, a \<mapsto> unlink it)"] exI[of _ "st_lst s"])
        (auto simp: timer_remove_def timers_def set_item_def items_same simp flip: unlink_def)
  qed
qed

lemma add_walk_spec:
  "chain h p (b # bs) \<Longrightarrow> dead h b < sint d \<Longrightarrow>
     \<exists>us t vs. b # bs = us @ t # vs \<and> add_walk h d p = Some (Some t) \<and>
       (\<forall>x \<in> set us. dead h x < sint d) \<and> dead h t < sint d \<and> (\<forall>v ws. vs = v # ws \<longrightarrow> sint d \<le> dead h v)"
proof (induction bs arbitrary: p b)
  case Nil
  then obtain it where "h b = Some it" "ti_nxt it = None" "p = Some b" by (auto split: option.splits)
  then show ?case using Nil(2)
    by (intro exI[of _ "[]"] exI[of _ b] exI[of _ "[]"]) (subst add_walk.simps, simp add: dead_def)
next
  case (Cons c bs)
  then obtain it where it: "h b = Some it" "chain h (ti_nxt it) (c # bs)" "p = Some b" "ti_nxt it = Some c"
    by (auto split: option.splits)
  then obtain nx where nx: "h c = Some nx" using chain_live[OF it(2)] by auto
  have lt: "\<not> sint d \<le> sint (ti_dead_time it)" using Cons.prems(2) it by (simp add: dead_def)
  show ?case
  proof (cases "sint d \<le> dead h c")
    case True
    then have "add_walk h d p = Some (Some b)"
      using it nx lt by (subst add_walk.simps) (simp add: dead_def)
    then show ?thesis using True Cons.prems(2) by (intro exI[of _ "[]"] exI[of _ b] exI[of _ "c # bs"]) auto
  next
    case False
    then have w: "add_walk h d p = add_walk h d (Some c)"
      using it nx lt by (subst add_walk.simps) (simp add: dead_def)
    have "dead h c < sint d" using False by simp
    from Cons.IH[OF it(2)[unfolded it(4)] this] obtain us t vs where r: "c # bs = us @ t # vs"
      "add_walk h d (Some c) = Some (Some t)" "\<forall>x \<in> set us. dead h x < sint d" "dead h t < sint d"
      "\<forall>v ws. vs = v # ws \<longrightarrow> sint d \<le> dead h v" by blast
    then show ?thesis using w Cons.prems(2) by (intro exI[of _ "b # us"] exI[of _ t] exI[of _ vs]) auto
  qed
qed

lemma insort_key_before: "(\<forall>v ws. vs = v # ws \<longrightarrow> f a \<le> f v) \<Longrightarrow> insort_key f a vs = a # vs"
  by (cases vs) auto

lemma insort_key_skip: "(\<forall>x \<in> set us. f x < f a) \<Longrightarrow> insort_key f a (us @ vs) = us @ insort_key f a vs"
  by (induction us) auto

text \<open>Adding a timer inserts it in front of the first timer that is not due earlier.\<close>

lemma timer_add_refines:
  assumes "timers s as" and "st_heap s a = Some it" and "ti_nxt it = None" and "a \<notin> set as"
  obtains h l where "timer_add a s = Some (s\<lparr>st_lst := l, st_heap := h\<rparr>)"
    "timers (s\<lparr>st_lst := l, st_heap := h\<rparr>) (insort_key (dead (st_heap s)) a as)" "items h = items (st_heap s)"
proof -
  let ?f = "dead (st_heap s)" let ?d = "ti_dead_time it"
  have c: "chain (st_heap s) (st_lst s) as" "distinct as" using assms(1) by (auto simp: timers_def)
  have fa: "?f a = sint ?d" using assms(2) by (simp add: dead_def)
  show thesis
  proof (cases "\<forall>b bs. as = b # bs \<longrightarrow> ?f a \<le> ?f b")
    case True
    then have "add_walk (st_heap s) ?d (st_lst s) = Some None"
      using c(1) by (cases as) (auto simp: add_walk.simps dead_def assms(2) split: option.splits)
    moreover have "insort_key ?f a as = a # as" by (rule insort_key_before[OF True])
    ultimately show thesis
      using c assms chain_head[OF c(1)]
      by (intro that[where l = "Some a" and h = "if st_lst s = None then st_heap s
            else (st_heap s)(a \<mapsto> it\<lparr>ti_nxt := st_lst s\<rparr>)"])
        (auto simp: timer_add_def timers_def set_item_def items_same)
  next
    case False
    then obtain b bs where b: "as = b # bs" "?f b < sint ?d" using fa by force
    from add_walk_spec[OF c(1)[unfolded b(1)] b(2)] obtain us t vs where r: "as = us @ t # vs"
      "add_walk (st_heap s) ?d (st_lst s) = Some (Some t)" "\<forall>x \<in> set us. ?f x < sint ?d" "?f t < sint ?d"
      "\<forall>v ws. vs = v # ws \<longrightarrow> sint ?d \<le> ?f v" using b(1) by auto
    obtain tt where tt: "st_heap s t = Some tt" using chain_live[OF c(1)] r(1) by fastforce
    have ta: "t \<noteq> a" using assms(4) r(1) by auto
    have i: "insort_key ?f a as = us @ t # a # vs"
      using insort_key_skip[of "us @ [t]" ?f a vs] insort_key_before[of vs ?f a] r fa by auto
    have "chain ((st_heap s)(a \<mapsto> it\<lparr>ti_nxt := ti_nxt tt\<rparr>, t \<mapsto> tt\<lparr>ti_nxt := Some a\<rparr>)) (st_lst s) (us @ t # a # vs)"
      by (rule chain_insert) (use c assms(4) r(1) tt in auto)
    moreover have "timer_add a s = Some (s\<lparr>st_heap := (st_heap s)(a \<mapsto> it\<lparr>ti_nxt := ti_nxt tt\<rparr>,
        t \<mapsto> tt\<lparr>ti_nxt := Some a\<rparr>)\<rparr>)"
      using r(2) tt ta assms(2) by (simp add: timer_add_def set_item_def)
    moreover have "distinct (us @ t # a # vs)" using c(2) assms(4) r(1) by auto
    moreover have "(items (st_heap s))(a \<mapsto> unlink it, t \<mapsto> unlink tt) = items (st_heap s)"
      using assms(2) tt by (auto simp: items_def)
    ultimately show thesis using i by (intro that[where l = "st_lst s" and h = "(st_heap s)(a \<mapsto> it\<lparr>ti_nxt := ti_nxt tt\<rparr>,
        t \<mapsto> tt\<lparr>ti_nxt := Some a\<rparr>)"]) (auto simp: timers_def)
  qed
qed

lemma timer_addE:
  assumes "timers s as" and "st_heap s a = Some it" and "ti_nxt it = None" and "a \<notin> set as"
  obtains h l where "timer_add a s = Some (s\<lparr>st_lst := l, st_heap := h\<rparr>)"
    "timers (s\<lparr>st_lst := l, st_heap := h\<rparr>) (insort_key (dead h) a as)" "items h = items (st_heap s)"
proof -
  obtain h l where h: "timer_add a s = Some (s\<lparr>st_lst := l, st_heap := h\<rparr>)"
    "timers (s\<lparr>st_lst := l, st_heap := h\<rparr>) (insort_key (dead (st_heap s)) a as)" "items h = items (st_heap s)"
    by (rule timer_add_refines[OF assms])
  then show thesis using that[OF h(1) _ h(3)] dead_cong[OF h(3)] by simp
qed

lemma timer_removeE:
  assumes "timers s as" and "st_heap s a = Some it"
  obtains h l where "timer_remove a s = Some (s\<lparr>st_lst := l, st_heap := h\<rparr>)"
    "timers (s\<lparr>st_lst := l, st_heap := h\<rparr>) (remove1 a as)" "items h = items (st_heap s)" "h a = Some (unlink it)"
  using timer_remove_refines[OF assms] by blast

section \<open>The invariant\<close>

text \<open>
  Between the calls the list holds exactly the timers that exist, each once, by dead time, and the
  next address is above them all.
\<close>

definition stimer_inv :: "stimer_cb \<Rightarrow> bool" where
  "stimer_inv s \<longleftrightarrow> (\<exists>as. timers s as \<and> sorted (map (dead (st_heap s)) as) \<and> set as = dom (st_heap s)) \<and>
     (\<forall>a \<in> dom (st_heap s). a < st_next s)"

lemma timers_sel: "timers (s\<lparr>st_lst := l, st_heap := h\<rparr>) as \<longleftrightarrow> chain h l as \<and> distinct as"
  by (simp add: timers_def)

lemma timers_frame:
  "st_lst s' = st_lst s \<Longrightarrow> st_heap s' = st_heap s \<Longrightarrow> timers s' as = timers s as"
  by (simp add: timers_def)

lemma st_inv_frame:
  "stimer_inv s \<Longrightarrow> st_lst s' = st_lst s \<Longrightarrow> st_heap s' = st_heap s \<Longrightarrow> st_next s \<le> st_next s' \<Longrightarrow> stimer_inv s'"
  unfolding stimer_inv_def using timers_frame[of s' s] by (auto intro: less_le_trans)

lemma timers_outside: "timers s as \<Longrightarrow> a \<notin> set as \<Longrightarrow> timers (set_item a it s) as"
  by (simp add: timers_def set_item_def)

lemma sorted_dead_upd:
  "a \<notin> set as \<Longrightarrow> sorted (map (dead (h(a := x))) as) = sorted (map (dead h) as)"
  by (rule arg_cong[where f = sorted]) (auto simp: dead_def)

text \<open>A timer that is not on the list enters a sorted list: the invariant holds of the result.\<close>

lemma timer_add_inv:
  assumes "timers s as" and "sorted (map (dead (st_heap s)) as)" and "st_heap s a = Some it"
    and "ti_nxt it = None" and "a \<notin> set as"
  obtains h l where "timer_add a s = Some (s\<lparr>st_lst := l, st_heap := h\<rparr>)"
    "timers (s\<lparr>st_lst := l, st_heap := h\<rparr>) (insort_key (dead h) a as)"
    "sorted (map (dead h) (insort_key (dead h) a as))" "items h = items (st_heap s)"
proof -
  obtain h l where r: "timer_add a s = Some (s\<lparr>st_lst := l, st_heap := h\<rparr>)"
    "timers (s\<lparr>st_lst := l, st_heap := h\<rparr>) (insort_key (dead h) a as)" "items h = items (st_heap s)"
    by (rule timer_addE[OF assms(1,3,4,5)])
  have "sorted (map (dead h) (insort_key (dead h) a as))"
    using assms(2) dead_cong[OF r(3)] by (simp add: sorted_insort_key)
  then show thesis using that r by blast
qed

lemma add_new_inv:
  assumes "stimer_inv s" and "st_heap s a = None" and "ti_nxt it = None" and "a < st_next s"
  shows "\<exists>s'. timer_add a (set_item a it s) = Some s' \<and> stimer_inv s' \<and> items (st_heap s') = (items (st_heap s))(a \<mapsto> unlink it)"
proof -
  obtain as where as: "timers s as" "sorted (map (dead (st_heap s)) as)" "set as = dom (st_heap s)"
    using assms(1) by (auto simp: stimer_inv_def)
  have a: "a \<notin> set as" using as(3) assms(2) by blast
  have h: "st_heap (set_item a it s) = (st_heap s)(a \<mapsto> it)" by (simp add: set_item_def)
  obtain h' l where r: "timer_add a (set_item a it s) = Some ((set_item a it s)\<lparr>st_lst := l, st_heap := h'\<rparr>)"
    "timers ((set_item a it s)\<lparr>st_lst := l, st_heap := h'\<rparr>) (insort_key (dead h') a as)"
    "sorted (map (dead h') (insort_key (dead h') a as))" "items h' = items (st_heap (set_item a it s))"
    by (rule timer_add_inv[OF timers_outside[OF as(1) a, of it]])
      (use as(2) a assms(3) in \<open>auto simp: h sorted_dead_upd\<close>)
  have "dom h' = insert a (dom (st_heap s))" using arg_cong[OF r(4), of dom] by (auto simp: items_dom h)
  then have "stimer_inv ((set_item a it s)\<lparr>st_lst := l, st_heap := h'\<rparr>)"
    using r(2,3) as(3) assms(1,4) unfolding stimer_inv_def
    by (auto simp: set_insort_key set_item_def intro!: exI[of _ "insort_key (dead h') a as"])
  then show ?thesis using r(1,4) by (auto simp: h)
qed

text \<open>Taking a timer off the list: its block is outside, and adding a changed version restores the invariant.\<close>

lemma st_remove_inv:
  assumes "stimer_inv s" and "st_heap s a = Some it"
  obtains s' as where "timer_remove a s = Some s'" "timers s' as" "sorted (map (dead (st_heap s')) as)"
    "a \<notin> set as" "insert a (set as) = dom (st_heap s)" "items (st_heap s') = items (st_heap s)"
    "st_heap s' a = Some (unlink it)" "\<exists>h l. s' = s\<lparr>st_lst := l, st_heap := h\<rparr>"
proof -
  obtain as where as: "timers s as" "sorted (map (dead (st_heap s)) as)" "set as = dom (st_heap s)"
    using assms(1) by (auto simp: stimer_inv_def)
  obtain h l where r: "timer_remove a s = Some (s\<lparr>st_lst := l, st_heap := h\<rparr>)"
    "timers (s\<lparr>st_lst := l, st_heap := h\<rparr>) (remove1 a as)" "items h = items (st_heap s)" "h a = Some (unlink it)"
    by (rule timer_removeE[OF as(1) assms(2)])
  have d: "distinct as" using as(1) by (simp add: timers_def)
  have "sorted (map (dead h) (remove1 a as))" using as(2) dead_cong[OF r(3)] by (simp add: sorted_map_remove1)
  moreover have "a \<in> set as" using as(3) assms(2) by blast
  ultimately show thesis
    using r d as(3) by (intro that[OF r(1,2)]) (auto simp: set_remove1_eq)
qed

text \<open>\<open>f\<close> changes the timer and reads the clock at most.\<close>

definition clock_only :: "(timer_item \<Rightarrow> stimer_cb \<Rightarrow> timer_item \<times> stimer_cb) \<Rightarrow> bool" where
  "clock_only f \<longleftrightarrow> (\<forall>it s. ti_nxt it = None \<longrightarrow> ti_nxt (fst (f it s)) = None \<and>
     (\<exists>n. snd (f it s) = s\<lparr>st_ticks := n\<rparr>))"

lemma move_inv:
  assumes "stimer_inv s" and "st_heap s a = Some it" and "clock_only f"
  shows "\<exists>s'. timer_move f a s = Some s' \<and> stimer_inv s'"
proof -
  obtain s1 as where r: "timer_remove a s = Some s1" "timers s1 as" "sorted (map (dead (st_heap s1)) as)"
    "a \<notin> set as" "insert a (set as) = dom (st_heap s)" "items (st_heap s1) = items (st_heap s)"
    "st_heap s1 a = Some (unlink it)" "\<exists>h l. s1 = s\<lparr>st_lst := l, st_heap := h\<rparr>"
    by (rule st_remove_inv[OF assms(1,2)])
  obtain it2 n where f: "f (unlink it) s1 = (it2, s1\<lparr>st_ticks := n\<rparr>)" "ti_nxt it2 = None"
    using assms(3) unfolding clock_only_def
    by (metis prod.collapse unlink_sel(6))
  let ?s2 = "set_item a it2 (s1\<lparr>st_ticks := n\<rparr>)"
  have h: "st_heap ?s2 = (st_heap s1)(a \<mapsto> it2)" by (simp add: set_item_def)
  have t: "timers ?s2 as" using r(2,4) by (simp add: timers_def set_item_def)
  obtain h' l where u: "timer_add a ?s2 = Some (?s2\<lparr>st_lst := l, st_heap := h'\<rparr>)"
    "timers (?s2\<lparr>st_lst := l, st_heap := h'\<rparr>) (insort_key (dead h') a as)"
    "sorted (map (dead h') (insort_key (dead h') a as))" "items h' = items (st_heap ?s2)"
    by (rule timer_add_inv[OF t]) (use r(3,4) f(2) in \<open>auto simp: h sorted_dead_upd\<close>)
  have "dom h' = insert a (dom (st_heap s1))" using arg_cong[OF u(4), of dom] by (auto simp: items_dom h)
  then have d: "dom h' = insert a (set as)" using r(5,6) by (metis insert_absorb2 items_dom)
  have "st_next ?s2 = st_next s" using r(8) by (auto simp: set_item_def)
  then have "stimer_inv (st_post (?s2\<lparr>st_lst := l, st_heap := h'\<rparr>))"
    using u(2,3) d assms(1) r(5) unfolding stimer_inv_def
    by (auto simp: set_insort_key st_post_def timers_def intro!: exI[of _ "insort_key (dead h') a as"])
  then show ?thesis using r(1,7) f u(1)
    by (simp add: timer_move_def flip: unlink_def)
qed

lemma st_lock_frame:
  "st_lock s = (ok, s') \<Longrightarrow> st_lst s' = st_lst s \<and> st_heap s' = st_heap s \<and> st_next s' = st_next s \<and>
     st_clock s' = st_clock s \<and> st_ticks s' = st_ticks s \<and> st_log s' = st_log s"
  by (auto simp: st_lock_def Let_def split: prod.splits)

lemma st_lock_inv: "stimer_inv s \<Longrightarrow> st_lock s = (ok, s') \<Longrightarrow> stimer_inv s'"
  using st_lock_frame[of s ok s'] st_inv_frame[of s s'] by simp

lemma st_post_inv: "stimer_inv (st_post s) = stimer_inv s"
  by (simp add: stimer_inv_def st_post_def timers_def)

lemma fresh_addr: "stimer_inv s \<Longrightarrow> st_heap s (st_next s) = None"
  unfolding stimer_inv_def by blast

lemma st_create_inv:
  assumes "stimer_inv s"
  shows "\<exists>r s'. stimer_create name handler arg cycle flag s = Some (r, s') \<and> stimer_inv s'"
proof -
  define it where "it d = \<lparr>ti_name = name, ti_cycle = cycle, ti_flag = flag, ti_handler = handler,
    ti_args = arg, ti_dead_time = d, ti_nxt = None\<rparr>" for d
  have add: "\<exists>r s'. Option.bind (timer_add (st_next s) (set_item (st_next s) (it d) s1))
      (\<lambda>s. Some (Some a, st_post s)) = Some (r, s') \<and> stimer_inv s'"
    if "st_lst s1 = st_lst s" "st_heap s1 = st_heap s" "st_next s1 = Suc (st_next s)" for s1 d a
    using add_new_inv[of s1 "st_next s" "it d"] st_inv_frame[OF assms, of s1] that fresh_addr[OF assms]
    by (auto simp: it_def st_post_inv)
  have keep: "stimer_inv s1"
    if "st_lst s1 = st_lst s" "st_heap s1 = st_heap s" "st_next s \<le> st_next s1" for s1
    using st_inv_frame[OF assms] that by blast
  show ?thesis
    unfolding stimer_create_def it_def[symmetric] Let_def
    by (auto split: prod.splits simp: st_sys_time_def st_lock_def Let_def intro!: keep add)
qed

lemma st_delete_inv:
  assumes "stimer_inv s" and "st_heap s a \<noteq> None"
  shows "\<exists>r s'. stimer_delete (Some a) s = Some (r, s') \<and> stimer_inv s'"
proof -
  obtain ok s0 where k: "st_lock s = (ok, s0)" by (cases "st_lock s")
  have i: "stimer_inv s0" using st_lock_inv assms(1) k by blast
  obtain it where it: "st_heap s0 a = Some it" using st_lock_frame[OF k] assms(2) by auto
  obtain s' as where r: "timer_remove a s0 = Some s'" "timers s' as" "sorted (map (dead (st_heap s')) as)"
    "a \<notin> set as" "insert a (set as) = dom (st_heap s0)" "items (st_heap s') = items (st_heap s0)"
    "st_heap s' a = Some (unlink it)" "\<exists>h l. s' = s0\<lparr>st_lst := l, st_heap := h\<rparr>"
    by (rule st_remove_inv[OF i it])
  let ?s = "s'\<lparr>st_heap := (st_heap s')(a := None)\<rparr>"
  have "dom (st_heap s') = dom (st_heap s0)" using r(6) items_dom by metis
  then have d: "set as = dom (st_heap ?s)" using r(4,5) by auto
  have "st_next s' = st_next s0" using r(8) by auto
  moreover have "timers ?s as" using r(2,4) by (simp add: timers_def)
  moreover have "sorted (map (dead (st_heap ?s)) as)" using r(3,4) by (simp add: sorted_dead_upd)
  moreover have "\<forall>b \<in> dom (st_heap ?s). b < st_next s0"
    using i r(5) d unfolding stimer_inv_def by blast
  ultimately have "stimer_inv ?s" using d unfolding stimer_inv_def by auto
  then show ?thesis using k i r(1) by (cases ok) (auto simp: stimer_delete_def st_post_inv)
qed

lemma same_clock: "\<exists>n. s = s\<lparr>st_ticks := n\<rparr>" for s :: stimer_cb
  by (rule exI[of _ "st_ticks s"]) simp

lemma clock_only_simps [simp]:
  "clock_only (\<lambda>it s. (it\<lparr>ti_flag := f (ti_flag it), ti_dead_time := d\<rparr>, s))"
  "clock_only (\<lambda>it s. restart (it\<lparr>ti_flag := f (ti_flag it)\<rparr>) s)"
  "clock_only (\<lambda>it s. let it = it\<lparr>ti_cycle := c\<rparr> in
     if ti_flag it AND cn_stimer_flag_start \<noteq> 0 then restart it s else (it, s))"
  by (auto simp: clock_only_def restart_def st_sys_time_def Let_def same_clock)

lemma st_ioctl_inv:
  assumes "stimer_inv s" and "\<And>a. timer = Some a \<Longrightarrow> st_heap s a \<noteq> None" and "opt = opt_recycle \<Longrightarrow> arg \<noteq> None"
  shows "\<exists>r s'. stimer_ioctl timer opt arg s = Some (r, s') \<and> stimer_inv s'"
proof (cases timer)
  case None
  then show ?thesis using assms(1) by (simp add: stimer_ioctl_def)
next
  case (Some a)
  obtain ok s0 where k: "st_lock s = (ok, s0)" by (cases "st_lock s")
  have i: "stimer_inv s0" using st_lock_inv assms(1) k by blast
  obtain it where it: "st_heap s0 a = Some it" using st_lock_frame[OF k] assms(2)[OF Some] by auto
  note move = move_inv[OF i it]
  show ?thesis
  proof (cases ok)
    case False
    then show ?thesis using Some k i by (simp add: stimer_ioctl_def)
  next
    case True
    note e = stimer_ioctl_def Some k True
    show ?thesis
    proof (cases opt)
      case opt_stop
      then show ?thesis using move[OF clock_only_simps(1)[where f = "\<lambda>x. x AND NOT cn_stimer_flag_start" and d = cn_stimer_dead_max]]
        by (auto simp: e)
    next
      case opt_start
      then show ?thesis using move[OF clock_only_simps(2)[where f = "\<lambda>x. x OR cn_stimer_flag_start"]] by (auto simp: e)
    next
      case opt_recycle
      then obtain c where "arg = Some c" using assms(3) by auto
      then show ?thesis using opt_recycle move[OF clock_only_simps(3)[where c = c]] by (auto simp: e)
    next
      case opt_gettime
      then show ?thesis using i it st_inv_frame[OF i, of "s0\<lparr>st_ticks := n\<rparr>" for n]
        by (cases arg) (auto simp: e st_sys_time_def)
    next
      case opt_reflag
      then show ?thesis using i by (simp add: e)
    qed
  qed
qed

section \<open>The scan\<close>

lemma scan_round_spec:
  assumes "timers s (a # as)" and "sorted (map (dead (st_heap s)) (a # as))" and "st_heap s a = Some it"
  defines "now \<equiv> st_clock s (st_ticks s)"
  defines "due \<equiv> sint (ti_dead_time it) \<le> sint now"
  shows "\<exists>h l. scan_round a s = Some (due, s\<lparr>st_lst := l, st_heap := h, st_ticks := Suc (st_ticks s),
        st_log := (if due then st_log s @ call_log now it else st_log s)\<rparr>) \<and>
      timers (s\<lparr>st_lst := l, st_heap := h\<rparr>) (insort_key (dead h) a as) \<and>
      sorted (map (dead h) (insort_key (dead h) a as)) \<and>
      items h = (items (st_heap s))(a \<mapsto> unlink (if due then timer_fire now it else it))"
proof -
  have c: "chain (st_heap s) (ti_nxt it) as" "distinct as" "a \<notin> set as" "st_lst s = Some a"
    using assms(1,3) by (auto simp: timers_def)
  define it' where "it' = unlink (if due then timer_fire now it else it)"
  define s2 where "s2 = s\<lparr>st_lst := ti_nxt it, st_heap := (st_heap s)(a \<mapsto> it'), st_ticks := Suc (st_ticks s),
    st_log := (if due then st_log s @ call_log now it else st_log s)\<rparr>"
  have nx: "ti_nxt it' = None" by (simp add: it'_def)
  have t: "timers s2 as" using c by (simp add: s2_def timers_def)
  have srt: "sorted (map (dead (st_heap s2)) as)" using assms(2) c(3) by (simp add: s2_def sorted_dead_upd)
  have ha: "st_heap s2 a = Some it'" by (simp add: s2_def)
  obtain h l where r: "timer_add a s2 = Some (s2\<lparr>st_lst := l, st_heap := h\<rparr>)"
    "timers (s2\<lparr>st_lst := l, st_heap := h\<rparr>) (insort_key (dead h) a as)"
    "sorted (map (dead h) (insort_key (dead h) a as))" "items h = items (st_heap s2)"
    by (rule timer_add_inv[OF t srt ha nx c(3)])
  have f: "unlink (timer_fire now it) = timer_fire now (unlink it)" by (simp add: timer_fire_def unlink_def)
  have cl: "call_log now (unlink it) = call_log now it" by (simp add: call_log_def split: option.split)
  have "scan_round a s = do { s \<leftarrow> timer_add a s2; Some (due, s) }"
  proof (cases due)
    case True
    then have "s2 = set_item a (timer_fire now (unlink it)) ((s\<lparr>st_lst := ti_nxt it, st_heap := (st_heap s)(a \<mapsto> unlink it),
        st_ticks := Suc (st_ticks s)\<rparr>)\<lparr>st_log := st_log s @ call_log now (unlink it)\<rparr>)"
      by (simp add: s2_def it'_def f cl set_item_def)
    then show ?thesis using True assms(3) unfolding due_def now_def
      by (simp add: scan_round_def set_item_def st_sys_time_def flip: unlink_def)
  next
    case False
    then have "s2 = s\<lparr>st_lst := ti_nxt it, st_heap := (st_heap s)(a \<mapsto> unlink it), st_ticks := Suc (st_ticks s)\<rparr>"
      by (simp add: s2_def it'_def)
    then show ?thesis using False assms(3) unfolding due_def now_def
      by (simp add: scan_round_def set_item_def st_sys_time_def flip: unlink_def)
  qed
  then show ?thesis using r
    by (intro exI[of _ h] exI[of _ l]) (cases due; simp add: s2_def it'_def timers_def)
qed

text \<open>A scan at which the clock shows \<open>now\<close>: the due timers form a prefix of the list.\<close>

definition due :: "u64 \<Rightarrow> timer_item \<Rightarrow> bool" where
  "due now it \<longleftrightarrow> sint (ti_dead_time it) \<le> sint now"

text \<open>A fired timer is not due again at the same time: it is stopped, or its next dead time is later.\<close>

definition moves_on :: "u64 \<Rightarrow> timer_item \<Rightarrow> bool" where
  "moves_on now it \<longleftrightarrow> sint now < sint (ti_dead_time (timer_fire now it))"

lemma fire_unlink [simp]: "ti_dead_time (timer_fire now (unlink it)) = ti_dead_time (timer_fire now it)"
  "unlink (timer_fire now (unlink it)) = unlink (timer_fire now it)" "call_log now (unlink it) = call_log now it"
  by (auto simp: timer_fire_def call_log_def unlink_def split: option.split)

lemma scan_frozen:
  assumes "timers s (ds @ rest)" and "sorted (map (dead (st_heap s)) (ds @ rest))"
    and "\<And>n. st_ticks s \<le> n \<Longrightarrow> st_clock s n = now"
    and "\<And>a it. a \<in> set ds \<Longrightarrow> items (st_heap s) a = Some it \<Longrightarrow> due now it \<and> moves_on now it"
    and "\<And>a it. a \<in> set rest \<Longrightarrow> items (st_heap s) a = Some it \<Longrightarrow> \<not> due now it"
  shows "\<exists>s' as. timer_scan s = Some s' \<and> timers s' as \<and> sorted (map (dead (st_heap s')) as) \<and>
    set as = set (ds @ rest) \<and> st_next s' = st_next s \<and>
    st_log s' = st_log s @ concat (map (\<lambda>a. call_log now (the (items (st_heap s) a))) ds) \<and>
    (\<forall>a. items (st_heap s') a =
      (if a \<in> set ds then map_option (\<lambda>it. unlink (timer_fire now it)) (items (st_heap s) a) else items (st_heap s) a))"
  using assms
proof (induction ds arbitrary: s rest)
  case Nil
  show ?case
  proof (cases rest)
    case Nil
    then have "st_lst s = None" using Nil.prems(1) by (simp add: timers_def)
    then show ?thesis using Nil Nil.prems by (intro exI[of _ s] exI[of _ "[]"]) (auto simp: timer_scan.simps)
  next
    case (Cons a as)
    then obtain it where it: "st_heap s a = Some it"
      using chain_live[of "st_heap s" "st_lst s" rest a] Nil.prems(1) by (auto simp: timers_def)
    then have nd: "\<not> sint (ti_dead_time it) \<le> sint (st_clock s (st_ticks s))"
      using Nil.prems(5)[of a "unlink it"] Nil.prems(3)[of "st_ticks s"] Cons by (auto simp: items_def due_def)
    obtain h l where r: "scan_round a s = Some (False, s\<lparr>st_lst := l, st_heap := h, st_ticks := Suc (st_ticks s)\<rparr>)"
      "timers (s\<lparr>st_lst := l, st_heap := h\<rparr>) (insort_key (dead h) a as)"
      "sorted (map (dead h) (insort_key (dead h) a as))" "items h = (items (st_heap s))(a \<mapsto> unlink it)"
      using scan_round_spec[of s a as it] Nil.prems(1,2) Cons it nd by auto
    have "timer_scan s = Some (s\<lparr>st_lst := l, st_heap := h, st_ticks := Suc (st_ticks s)\<rparr>)"
      using r(1) Nil.prems(1) Cons by (subst timer_scan.simps) (simp add: timers_def)
    moreover have "(items (st_heap s))(a \<mapsto> unlink it) = items (st_heap s)" using it by (simp add: items_same)
    ultimately show ?thesis using r Cons by (auto simp: set_insort_key timers_def)
  qed
next
  case (Cons a ds)
  obtain it where it: "st_heap s a = Some it"
    using chain_live[of "st_heap s" "st_lst s" "(a # ds) @ rest" a] Cons.prems(1) by (auto simp: timers_def)
  have now: "st_clock s (st_ticks s) = now" using Cons.prems(3) by simp
  have "due now (unlink it) \<and> moves_on now (unlink it)"
    using Cons.prems(4)[of a "unlink it"] it by (simp add: items_def)
  then have d: "sint (ti_dead_time it) \<le> sint now" "sint now < sint (ti_dead_time (timer_fire now it))"
    by (simp_all add: due_def moves_on_def)
  obtain h l where r: "scan_round a s = Some (True, s\<lparr>st_lst := l, st_heap := h, st_ticks := Suc (st_ticks s),
        st_log := st_log s @ call_log now it\<rparr>)"
    "timers (s\<lparr>st_lst := l, st_heap := h\<rparr>) (insort_key (dead h) a (ds @ rest))"
    "sorted (map (dead h) (insort_key (dead h) a (ds @ rest)))"
    "items h = (items (st_heap s))(a \<mapsto> unlink (timer_fire now it))"
    using scan_round_spec[of s a "ds @ rest" it] Cons.prems(1,2) it d(1) now by auto
  define s1 where "s1 = s\<lparr>st_lst := l, st_heap := h, st_ticks := Suc (st_ticks s),
        st_log := st_log s @ call_log now it\<rparr>"
  have a: "a \<notin> set ds" "a \<notin> set rest" using Cons.prems(1) by (auto simp: timers_def)
  have "dead h x < dead h a" if x: "x \<in> set ds" for x
  proof -
    obtain ix where "st_heap s x = Some ix"
      using chain_live[of "st_heap s" "st_lst s" "(a # ds) @ rest" x] Cons.prems(1) x by (auto simp: timers_def)
    then have "items (st_heap s) x = Some (unlink ix)" by (simp add: items_def)
    moreover then have "due now (unlink ix)" using Cons.prems(4)[of x] x by simp
    moreover have "x \<noteq> a" using a x by auto
    ultimately show ?thesis using d(2) by (simp add: dead_items r(4) due_def)
  qed
  then have i: "insort_key (dead h) a (ds @ rest) = ds @ insort_key (dead h) a rest"
    by (intro insort_key_skip) blast
  have t: "timers s1 (ds @ insort_key (dead h) a rest)" "sorted (map (dead (st_heap s1)) (ds @ insort_key (dead h) a rest))"
    using r(2,3) i by (simp_all add: s1_def timers_def)
  have hs: "items (st_heap s1) = (items (st_heap s))(a \<mapsto> unlink (timer_fire now it))" using r(4) by (simp add: s1_def)
  have "\<exists>s' as. timer_scan s1 = Some s' \<and> timers s' as \<and> sorted (map (dead (st_heap s')) as) \<and>
    set as = set (ds @ insort_key (dead h) a rest) \<and> st_next s' = st_next s1 \<and>
    st_log s' = st_log s1 @ concat (map (\<lambda>a. call_log now (the (items (st_heap s1) a))) ds) \<and>
    (\<forall>a. items (st_heap s') a =
      (if a \<in> set ds then map_option (\<lambda>it. unlink (timer_fire now it)) (items (st_heap s1) a) else items (st_heap s1) a))"
  proof (rule Cons.IH[OF t])
    show "st_clock s1 n = now" if "st_ticks s1 \<le> n" for n using Cons.prems(3)[of n] that by (simp add: s1_def)
    show "due now ix \<and> moves_on now ix" if "x \<in> set ds" "items (st_heap s1) x = Some ix" for x ix
      using Cons.prems(4)[of x ix] that a by (auto simp: hs split: if_splits)
    show "\<not> due now ix" if "x \<in> set (insort_key (dead h) a rest)" "items (st_heap s1) x = Some ix" for x ix
      using Cons.prems(5)[of x ix] that a d(2) by (auto simp: hs set_insort_key due_def split: if_splits)
  qed
  then obtain s' as where s': "timer_scan s1 = Some s'" "timers s' as" "sorted (map (dead (st_heap s')) as)"
    "set as = set (ds @ insort_key (dead h) a rest)" "st_next s' = st_next s1"
    "st_log s' = st_log s1 @ concat (map (\<lambda>a. call_log now (the (items (st_heap s1) a))) ds)"
    "\<forall>a. items (st_heap s') a =
      (if a \<in> set ds then map_option (\<lambda>it. unlink (timer_fire now it)) (items (st_heap s1) a) else items (st_heap s1) a)"
    by blast
  have s1_log: "st_log s1 = st_log s @ call_log now it" "st_next s1 = st_next s" by (simp_all add: s1_def)
  have "timer_scan s = timer_scan s1"
    using r(1) Cons.prems(1) by (subst timer_scan.simps) (simp add: timers_def s1_def)
  moreover have "map (\<lambda>a. call_log now (the (items (st_heap s1) a))) ds = map (\<lambda>a. call_log now (the (items (st_heap s) a))) ds"
    using a by (auto simp: hs)
  moreover have "items (st_heap s) a = Some (unlink it)" using it by (simp add: items_def)
  ultimately show ?case using s' a
    by (intro exI[of _ s'] exI[of _ as]) (auto simp: hs set_insort_key s1_log intro!: arg_cong[where f = concat])
qed

text \<open>If a scan returns, it keeps the invariant, whatever the clock does.\<close>

lemma scan_round_inv:
  assumes "stimer_inv s" and "st_lst s = Some a" and "scan_round a s = Some (go, s')"
  shows "stimer_inv s'"
proof -
  obtain as where as: "timers s as" "sorted (map (dead (st_heap s)) as)" "set as = dom (st_heap s)"
    using assms(1) by (auto simp: stimer_inv_def)
  obtain bs where bs: "as = a # bs" using as(1) assms(2) by (cases as) (auto simp: timers_def)
  obtain it where it: "st_heap s a = Some it" using as(3) bs by auto
  obtain d h l log where r: "s' = s\<lparr>st_lst := l, st_heap := h, st_ticks := Suc (st_ticks s), st_log := log\<rparr>"
    "timers (s\<lparr>st_lst := l, st_heap := h\<rparr>) (insort_key (dead h) a bs)"
    "sorted (map (dead h) (insort_key (dead h) a bs))" "items h = (items (st_heap s))(a \<mapsto> d)"
    using scan_round_spec[of s a bs it] as(1,2) bs it assms(3) by auto
  have "dom h = dom (st_heap s)" using arg_cong[OF r(4), of dom] as(3) bs by (auto simp: items_dom)
  then show ?thesis using r(1-3) assms(1) as(3) bs unfolding stimer_inv_def
    by (auto simp: timers_def set_insort_key intro!: exI[of _ "insort_key (dead h) a bs"])
qed

lemma st_scan_inv: "timer_scan s = Some s' \<Longrightarrow> stimer_inv s \<Longrightarrow> stimer_inv s'"
proof (rule timer_scan.raw_induct[of "\<lambda>s s'. stimer_inv s \<longrightarrow> stimer_inv s'", THEN mp])
  fix f s s'
  assume IH: "\<And>s s'. f s = Some s' \<Longrightarrow> stimer_inv s \<longrightarrow> stimer_inv s'"
    and "(case st_lst s of None \<Rightarrow> Some s
      | Some a \<Rightarrow> do { (go, s) \<leftarrow> scan_round a s; if go then f s else Some s }) = Some s'"
  then show "stimer_inv s \<longrightarrow> stimer_inv s'"
    by (auto split: option.splits if_splits simp: bind_eq_Some_conv dest: scan_round_inv)
qed

lemma entry_inv:
  assumes "stimer_inv s" and "timer_entry w s = Some (w', s')"
  shows "stimer_inv s'"
proof (cases "st_daemon_exit s")
  case False
  define s0 where "s0 = s\<lparr>st_semp := map_option (\<lambda>_. False) (st_semp s)\<rparr>"
  have i0: "stimer_inv s0" using st_inv_frame[OF assms(1), of s0] by (simp add: s0_def)
  obtain ok s1 where k: "st_lock s0 = (ok, s1)" by (cases "st_lock s0")
  obtain s2 where s2: "(if ok then timer_scan s1 else Some s1) = Some s2"
    using assms(2) False k unfolding timer_entry_def s0_def[symmetric] by (auto simp: bind_eq_Some_conv)
  then have i2: "stimer_inv s2" using st_lock_inv[OF i0 k] st_scan_inv by (auto split: if_splits)
  obtain now s3 where c: "st_sys_time s2 = (now, s3)" by (cases "st_sys_time s2")
  obtain ok' s4 where k': "st_lock s3 = (ok', s4)" by (cases "st_lock s3")
  have "stimer_inv s3" using c st_inv_frame[OF i2, of s3] by (auto simp: st_sys_time_def)
  then have i4: "stimer_inv s4" using st_lock_inv k' by blast
  have "s' = s4"
    using assms(2) False k s2 c k' unfolding timer_entry_def s0_def[symmetric]
    by (auto split: if_splits option.splits simp: bind_eq_Some_conv)
  then show ?thesis using i4 by simp
qed (use assms in \<open>simp add: timer_entry_def\<close>)

section \<open>Sequences of calls\<close>

text \<open>
  The calls of the interface and the rounds of the task. A call is legal when its handle is that of a
  timer that exists and, for the new cycle, when the argument is not the null pointer.
\<close>

datatype stimer_call =
    Create "string option" "nat option" nat u32 u32
  | Delete addr
  | Ioctl "addr option" stimer_opt "u32 option"
  | Quit
  | Task u32

fun st_run :: "stimer_call \<Rightarrow> stimer_cb \<Rightarrow> stimer_cb option" where
  "st_run (Create name handler arg cycle flag) s = map_option snd (stimer_create name handler arg cycle flag s)"
| "st_run (Delete a) s = map_option snd (stimer_delete (Some a) s)"
| "st_run (Ioctl a opt arg) s = map_option snd (stimer_ioctl a opt arg s)"
| "st_run Quit s = Some (snd (stimer_daemonquit s))"
| "st_run (Task w) s = map_option snd (timer_entry w s)"

fun st_legal :: "stimer_call \<Rightarrow> stimer_cb \<Rightarrow> bool" where
  "st_legal (Create name handler arg cycle flag) s = True"
| "st_legal (Delete a) s = (st_heap s a \<noteq> None)"
| "st_legal (Ioctl timer opt arg) s =
     ((case timer of None \<Rightarrow> True | Some a \<Rightarrow> st_heap s a \<noteq> None) \<and> (opt = opt_recycle \<longrightarrow> arg \<noteq> None))"
| "st_legal Quit s = True"
| "st_legal (Task w) s = True"

inductive st_reach :: "stimer_cb \<Rightarrow> bool" where
  start: "st_reach (s_stimer_cb clock mallocs locks)"
| init: "st_reach s \<Longrightarrow> st_reach (snd (stimer_init semp_ok mutex_ok task_ok s))"
| call: "st_reach s \<Longrightarrow> st_legal c s \<Longrightarrow> st_run c s = Some s' \<Longrightarrow> st_reach s'"

lemma st_legal_call:
  assumes "stimer_inv s" and "st_legal c s"
  shows "(\<forall>s'. st_run c s = Some s' \<longrightarrow> stimer_inv s') \<and> ((\<forall>w. c \<noteq> Task w) \<longrightarrow> st_run c s \<noteq> None)"
proof (cases c)
  case (Create name handler arg cycle flag)
  then show ?thesis using st_create_inv[OF assms(1), of name handler arg cycle flag] by auto
next
  case (Delete a)
  then show ?thesis using st_delete_inv[OF assms(1), of a] assms(2) by auto
next
  case (Ioctl a opt arg)
  then show ?thesis using st_ioctl_inv[OF assms(1), of a opt arg] assms(2) by fastforce
next
  case Quit
  then show ?thesis using st_inv_frame[OF assms(1)] by (simp add: stimer_daemonquit_def)
next
  case (Task w)
  then show ?thesis using entry_inv[OF assms(1), of w] by auto
qed

lemma st_reach_inv: "st_reach s \<Longrightarrow> stimer_inv s"
proof (induction rule: st_reach.induct)
  case (start clock mallocs locks)
  show ?case by (auto simp: stimer_inv_def s_stimer_cb_def timers_def intro!: exI[of _ "[]"])
next
  case (init s semp_ok mutex_ok task_ok)
  show ?case by (rule st_inv_frame[OF init(2)]) (simp_all add: stimer_init_def Let_def)
next
  case (call s c s')
  then show ?case using st_legal_call by blast
qed

section \<open>Properties\<close>

text \<open>Two timers at the time 0, one of 5 and one of 7 ticks: the concrete input of the witnesses.\<close>

definition two_timers :: "(nat \<Rightarrow> u64) \<Rightarrow> stimer_cb" where
  "two_timers clock = the (do {
     s \<leftarrow> st_run (Create None (Some 1) 0 7 cn_stimer_flag_start) (s_stimer_cb clock [] []);
     st_run (Create None (Some 2) 0 5 cn_stimer_flag_start) s })"

lemma two_timers_run:
  "st_run (Create None (Some 2) 0 5 cn_stimer_flag_start)
     (the (st_run (Create None (Some 1) 0 7 cn_stimer_flag_start) (s_stimer_cb clock [] []))) = Some (two_timers clock)"
  "st_run (Create None (Some 1) 0 7 cn_stimer_flag_start) (s_stimer_cb clock [] []) \<noteq> None"
proof -
  have 1: "st_run (Create None (Some 1) 0 7 cn_stimer_flag_start) (s_stimer_cb clock [] []) \<noteq> None"
    using st_legal_call[OF st_reach_inv[OF st_reach.start], of "Create None (Some 1) 0 7 cn_stimer_flag_start"] by simp
  have "st_reach (the (st_run (Create None (Some 1) 0 7 cn_stimer_flag_start) (s_stimer_cb clock [] [])))"
    by (rule st_reach.call[OF st_reach.start, of "Create None (Some 1) 0 7 cn_stimer_flag_start"]) (use 1 in auto)
  then have 2: "st_run (Create None (Some 2) 0 5 cn_stimer_flag_start)
     (the (st_run (Create None (Some 1) 0 7 cn_stimer_flag_start) (s_stimer_cb clock [] []))) \<noteq> None"
    using st_legal_call[OF st_reach_inv, of _ "Create None (Some 2) 0 5 cn_stimer_flag_start"] by simp
  show "st_run (Create None (Some 1) 0 7 cn_stimer_flag_start) (s_stimer_cb clock [] []) \<noteq> None" by (rule 1)
  show "st_run (Create None (Some 2) 0 5 cn_stimer_flag_start)
     (the (st_run (Create None (Some 1) 0 7 cn_stimer_flag_start) (s_stimer_cb clock [] []))) = Some (two_timers clock)"
    using 1 2 unfolding two_timers_def by (metis bind.bind_lunit option.collapse)
qed

lemma two_timers_reach: "st_reach (two_timers clock)"
proof -
  have "st_reach (the (st_run (Create None (Some 1) 0 7 cn_stimer_flag_start) (s_stimer_cb clock [] [])))"
    by (rule st_reach.call[OF st_reach.start, of "Create None (Some 1) 0 7 cn_stimer_flag_start"])
      (use two_timers_run(2) in auto)
  then show ?thesis
    by (rule st_reach.call[of _ "Create None (Some 2) 0 5 cn_stimer_flag_start"])
      (use two_timers_run(1) in auto)
qed

text \<open>C5. The timer list is consistent: after any sequence of legal calls and rounds of the timer task, the
  linked list holds every existing timer exactly once and no freed one, ordered by dead time, and
  every legal call other than the task returns (its walks along the pointers end and
  touch live blocks only).\<close>

theorem stimer_consistent:
  assumes "st_reach s" and "st_legal c s"
  shows "(\<exists>as. chain (st_heap s) (st_lst s) as \<and> distinct as \<and> set as = dom (st_heap s) \<and>
      sorted (map (dead (st_heap s)) as)) \<and> ((\<forall>w. c \<noteq> Task w) \<longrightarrow> st_run c s \<noteq> None)"
  using st_reach_inv[OF assms(1)] st_legal_call[OF _ assms(2)] unfolding stimer_inv_def timers_def by blast

theorem stimer_consistent_witness:
  "(\<exists>as. chain (st_heap (two_timers (\<lambda>_. 0))) (st_lst (two_timers (\<lambda>_. 0))) as \<and> distinct as \<and>
      set as = dom (st_heap (two_timers (\<lambda>_. 0))) \<and> sorted (map (dead (st_heap (two_timers (\<lambda>_. 0)))) as)) \<and>
     st_run Quit (two_timers (\<lambda>_. 0)) \<noteq> None"
  using stimer_consistent[OF two_timers_reach, of Quit "\<lambda>_. 0"] by simp

text \<open>C23. A scan at a time at which every due timer moves on (it fires once, or its next dead time is later)
  returns; it calls the handlers of exactly the due timers, each once, in the order of their
  dead times; afterwards no timer is due, the others are unchanged, and the list is consistent.\<close>

theorem timer_scan_fires:
  assumes "st_reach s" and "timers s as" and "\<And>n. st_ticks s \<le> n \<Longrightarrow> st_clock s n = now"
    and "\<And>a it. a \<in> set as \<Longrightarrow> st_heap s a = Some it \<Longrightarrow> due now it \<Longrightarrow> moves_on now it"
  shows "\<exists>s'. timer_scan s = Some s' \<and> stimer_inv s' \<and> dom (st_heap s') = dom (st_heap s) \<and>
    st_log s' = st_log s @ concat (map (call_log now) (filter (due now) (map (the \<circ> st_heap s) as))) \<and>
    (\<forall>a it. st_heap s' a = Some it \<longrightarrow> \<not> due now it) \<and>
    (\<forall>a it. st_heap s a = Some it \<longrightarrow> \<not> due now it \<longrightarrow> items (st_heap s') a = Some (unlink it))"
proof -
  let ?h = "st_heap s" let ?P = "\<lambda>a. dead ?h a \<le> sint now"
  define ds where "ds = takeWhile ?P as"
  define rest where "rest = dropWhile ?P as"
  have as: "as = ds @ rest" by (simp add: ds_def rest_def)
  obtain bs where bs: "timers s bs" "sorted (map (dead ?h) bs)" "set bs = dom ?h"
    using st_reach_inv[OF assms(1)] by (auto simp: stimer_inv_def)
  have "chain h p xs \<Longrightarrow> chain h p ys \<Longrightarrow> xs = ys" for h p xs ys
  proof (induction xs arbitrary: p ys)
    case (Cons x xs)
    then show ?case by (cases ys) (auto split: option.splits)
  qed (use chain_head in \<open>fastforce split: list.splits\<close>)
  then have same: "bs = as" using bs(1) assms(2) by (auto simp: timers_def)
  have live: "\<exists>it. ?h a = Some it" if "a \<in> set as" for a using bs(3) same that by blast
  have dP: "due now it \<longleftrightarrow> ?P a" if "?h a = Some it" for a it using that by (simp add: due_def dead_def)
  have ds: "?P a" if "a \<in> set ds" for a using that by (auto simp: ds_def dest: set_takeWhileD)
  have rest: "\<not> ?P a" if m: "a \<in> set rest" for a
  proof -
    obtain r rs where r: "rest = r # rs" using m by (cases rest) auto
    then have "\<not> ?P r" using hd_dropWhile[of ?P as] by (simp add: rest_def)
    moreover have "dead ?h r \<le> dead ?h a"
      using bs(2) m unfolding same as r by (auto simp: sorted_append)
    ultimately show ?thesis by simp
  qed
  have fil: "filter (due now) (map (the \<circ> ?h) as) = map (the \<circ> ?h) ds"
  proof -
    have "filter (due now \<circ> (the \<circ> ?h)) ds = ds"
      using ds live dP as by (intro filter_True) fastforce
    moreover have "filter (due now \<circ> (the \<circ> ?h)) rest = []"
      using rest live dP as by (intro filter_False) fastforce
    ultimately show ?thesis unfolding as filter_map filter_append by simp
  qed
  have 1: "timers s (ds @ rest)" "sorted (map (dead ?h) (ds @ rest))" using assms(2) bs(2) same as by auto
  obtain s' cs where s': "timer_scan s = Some s'" "timers s' cs" "sorted (map (dead (st_heap s')) cs)"
    "set cs = set (ds @ rest)" "st_next s' = st_next s"
    "st_log s' = st_log s @ concat (map (\<lambda>a. call_log now (the (items ?h a))) ds)"
    "\<forall>a. items (st_heap s') a =
      (if a \<in> set ds then map_option (\<lambda>it. unlink (timer_fire now it)) (items ?h a) else items ?h a)"
  proof (rule scan_frozen[OF 1 assms(3), THEN exE], goal_cases)
    case (2 a it)
    then show ?case using assms(4)[of a] ds[of a] as by (fastforce simp: items_def due_def moves_on_def dead_def)
  next
    case (3 a it)
    then show ?case using rest[of a] by (fastforce simp: items_def due_def dead_def)
  next
    case (4 x)
    then show ?case by blast
  qed
  have dm: "dom (st_heap s') = dom ?h"
  proof -
    have "items (st_heap s') a = None \<longleftrightarrow> items ?h a = None" for a using s'(7) by simp
    then show ?thesis by (auto simp: items_def dom_def)
  qed
  have "map (\<lambda>a. call_log now (the (items ?h a))) ds = map (call_log now) (map (the \<circ> ?h) ds)"
    using live as by (fastforce simp: items_def)
  then have "st_log s' = st_log s @ concat (map (call_log now) (filter (due now) (map (the \<circ> ?h) as)))"
    using s'(6) unfolding fil by metis
  moreover have "stimer_inv s'"
    using s'(2-5) dm st_reach_inv[OF assms(1)] as same bs(3) unfolding stimer_inv_def by auto
  moreover have "\<not> due now it" if "st_heap s' a = Some it" for a it
  proof -
    have a: "a \<in> set as" using dm bs(3) same that by blast
    then obtain it0 where it0: "?h a = Some it0" using live by blast
    have u: "unlink it = (if a \<in> set ds then unlink (timer_fire now it0) else unlink it0)"
      using s'(7)[rule_format, of a] that it0 by (simp add: items_def split: if_splits)
    have "ti_dead_time it = (if a \<in> set ds then ti_dead_time (timer_fire now it0) else ti_dead_time it0)"
      using arg_cong[OF u, of ti_dead_time] by (simp split: if_splits)
    then show ?thesis using assms(4)[OF a it0] dP[OF it0] ds rest a as
      by (auto simp: due_def moves_on_def split: if_splits)
  qed
  moreover have "items (st_heap s') a = Some (unlink it)" if "?h a = Some it" "\<not> due now it" for a it
    using s'(7) that ds dP by (auto simp: items_def)
  ultimately show ?thesis using s'(1) dm by blast
qed

lemma add_walk_None: "add_walk h d None = Some None"
  by (simp add: add_walk.simps)

lemma add_walk_front: "h t = Some it \<Longrightarrow> sint d \<le> sint (ti_dead_time it) \<Longrightarrow> add_walk h d (Some t) = Some None"
  by (subst add_walk.simps) simp

lemma two_timers_eq:
  "clock 0 = 0 \<Longrightarrow> clock 1 = 0 \<Longrightarrow> two_timers clock = (s_stimer_cb clock [] [])
     \<lparr>st_lst := Some 1, st_next := 2, st_ticks := 2, st_heap :=
        [0 \<mapsto> \<lparr>ti_name = None, ti_cycle = 7, ti_flag = 2, ti_handler = Some 1, ti_args = 0, ti_dead_time = 7, ti_nxt = None\<rparr>,
         1 \<mapsto> \<lparr>ti_name = None, ti_cycle = 5, ti_flag = 2, ti_handler = Some 2, ti_args = 0, ti_dead_time = 5, ti_nxt = Some 0\<rparr>]\<rparr>"
  by (simp add: two_timers_def s_stimer_cb_def stimer_create_def st_sys_time_def st_lock_def st_post_def
    timer_add_def add_walk_None add_walk_front set_item_def)

theorem timer_scan_fires_witness:
  "\<exists>s'. timer_scan (two_timers (\<lambda>n. if n < 2 then 0 else 5)) = Some s' \<and> st_log s' = [(2, 0, 5)]"
proof -
  let ?c = "\<lambda>n::nat. if n < 2 then 0 else 5 :: u64"
  have e: "two_timers ?c = (s_stimer_cb ?c [] [])
     \<lparr>st_lst := Some 1, st_next := 2, st_ticks := 2, st_heap :=
        [0 \<mapsto> \<lparr>ti_name = None, ti_cycle = 7, ti_flag = 2, ti_handler = Some 1, ti_args = 0, ti_dead_time = 7, ti_nxt = None\<rparr>,
         1 \<mapsto> \<lparr>ti_name = None, ti_cycle = 5, ti_flag = 2, ti_handler = Some 2, ti_args = 0, ti_dead_time = 5, ti_nxt = Some 0\<rparr>]\<rparr>"
    by (rule two_timers_eq) simp_all
  have t: "timers (two_timers ?c) [1, 0]" by (simp add: e timers_def)
  have c: "st_clock (two_timers ?c) n = 5" if "st_ticks (two_timers ?c) \<le> n" for n
    using that by (simp add: e s_stimer_cb_def)
  have m: "moves_on 5 it" if "a \<in> set [1, 0]" "st_heap (two_timers ?c) a = Some it" "due 5 it" for a it
    using that by (auto simp: e moves_on_def timer_fire_def due_def)
  have "\<exists>s'. timer_scan (two_timers ?c) = Some s' \<and>
    st_log s' = st_log (two_timers ?c) @
      concat (map (call_log 5) (filter (due 5) (map (the \<circ> st_heap (two_timers ?c)) [1, 0])))"
    by (rule exE[OF timer_scan_fires[OF two_timers_reach t, of 5]]) (use c m in blast)+
  then show ?thesis by (simp add: e due_def call_log_def s_stimer_cb_def)
qed

text \<open>A periodic timer of cycle 0 that is due from now on, with a clock that does not run backwards.\<close>

definition spinning :: "addr \<Rightarrow> stimer_cb \<Rightarrow> bool" where
  "spinning b s \<longleftrightarrow> (\<exists>it. st_heap s b = Some it \<and> ti_cycle it = 0 \<and> ti_flag it AND cn_stimer_flag_once = 0 \<and>
     (\<forall>n \<ge> st_ticks s. sint (ti_dead_time it) \<le> sint (st_clock s n))) \<and>
   (\<forall>m n. m \<le> n \<longrightarrow> sint (st_clock s m) \<le> sint (st_clock s n))"

lemma spinning_round:
  assumes "stimer_inv s" and "spinning b s" and "st_lst s = Some a" and "scan_round a s = Some (go, s')"
  shows "go \<and> spinning b s'"
proof -
  obtain as where as: "timers s as" "sorted (map (dead (st_heap s)) as)" "set as = dom (st_heap s)"
    using assms(1) by (auto simp: stimer_inv_def)
  obtain bs where bs: "as = a # bs" using as(1) assms(3) by (cases as) (auto simp: timers_def)
  obtain it where it: "st_heap s a = Some it" using as(3) bs by auto
  let ?now = "st_clock s (st_ticks s)"
  obtain ib where b: "st_heap s b = Some ib" "ti_cycle ib = 0" "ti_flag ib AND cn_stimer_flag_once = 0"
    "\<And>n. st_ticks s \<le> n \<Longrightarrow> sint (ti_dead_time ib) \<le> sint (st_clock s n)"
    and mono: "\<And>m n. m \<le> n \<Longrightarrow> sint (st_clock s m) \<le> sint (st_clock s n)"
    using assms(2) by (auto simp: spinning_def)
  have "b \<in> set as" using b(1) as(3) by blast
  then have "dead (st_heap s) a \<le> dead (st_heap s) b" using as(2) bs by auto
  then have due: "sint (ti_dead_time it) \<le> sint ?now" using b(4)[of "st_ticks s"] it b(1) by (simp add: dead_def)
  obtain h l where r: "scan_round a s = Some (True, s\<lparr>st_lst := l, st_heap := h, st_ticks := Suc (st_ticks s),
        st_log := st_log s @ call_log ?now it\<rparr>)"
    "items h = (items (st_heap s))(a \<mapsto> unlink (timer_fire ?now it))"
    using scan_round_spec[of s a bs it] as(1,2) bs it due by auto
  have "items h b = Some (unlink (if a = b then timer_fire ?now it else ib))"
    using r(2) b(1) it by (auto simp: items_def)
  then obtain hb where hb: "h b = Some hb" "unlink hb = unlink (if a = b then timer_fire ?now it else ib)"
    by (auto simp: items_def)
  have f: "ti_cycle hb = ti_cycle (unlink hb)" "ti_flag hb = ti_flag (unlink hb)" "ti_dead_time hb = ti_dead_time (unlink hb)"
    by simp_all
  have "ti_cycle hb = 0 \<and> ti_flag hb AND cn_stimer_flag_once = 0 \<and>
    (\<forall>n \<ge> Suc (st_ticks s). sint (ti_dead_time hb) \<le> sint (st_clock s n))"
    unfolding f hb(2) using b it mono[of "st_ticks s"] by (auto simp: timer_fire_def)
  then show ?thesis using r(1) assms(4) hb(1) mono by (auto simp: spinning_def)
qed

lemma spinning_scan: "timer_scan s = Some s' \<Longrightarrow> \<not> (stimer_inv s \<and> spinning b s)"
proof (rule timer_scan.raw_induct[of "\<lambda>s s'. \<not> (stimer_inv s \<and> spinning b s)"])
  fix f s s'
  assume IH: "\<And>s s'. f s = Some s' \<Longrightarrow> \<not> (stimer_inv s \<and> spinning b s)"
    and r: "(case st_lst s of None \<Rightarrow> Some s
      | Some a \<Rightarrow> do { (go, s) \<leftarrow> scan_round a s; if go then f s else Some s }) = Some s'"
  show "\<not> (stimer_inv s \<and> spinning b s)"
  proof
    assume i: "stimer_inv s \<and> spinning b s"
    obtain as where as: "timers s as" "set as = dom (st_heap s)" using i by (auto simp: stimer_inv_def)
    obtain a where a: "st_lst s = Some a" using as i by (cases as) (auto simp: timers_def spinning_def)
    obtain go s1 where s1: "scan_round a s = Some (go, s1)" using r a by (auto simp: bind_eq_Some_conv)
    have "go \<and> spinning b s1" "stimer_inv s1"
      using spinning_round[of s b a go s1] scan_round_inv[of s a go s1] i a s1 by auto
    then show False using IH[of s1 s'] r a s1 by auto
  qed
qed

text \<open>C38. A periodic timer of cycle 0 hangs the task: once it is due, the scan does not return, for any clock
  that does not run backwards, so the mutex of the module is not released.\<close>

theorem timer_scan_hangs:
  assumes "st_reach s" and "st_heap s b = Some it" and "ti_cycle it = 0" and "ti_flag it AND cn_stimer_flag_once = 0"
    and "sint (ti_dead_time it) \<le> sint (st_clock s (st_ticks s))"
    and "\<And>m n. m \<le> n \<Longrightarrow> sint (st_clock s m) \<le> sint (st_clock s n)"
  shows "timer_scan s = None"
proof -
  have "sint (ti_dead_time it) \<le> sint (st_clock s n)" if "st_ticks s \<le> n" for n
    using assms(5) assms(6)[OF that] by linarith
  then have "spinning b s" using assms(2-4,6) by (auto simp: spinning_def)
  then show ?thesis using spinning_scan st_reach_inv[OF assms(1)] by (cases "timer_scan s") blast+
qed

lemma zero_timer_eq:
  "st_run (Create None (Some 1) 0 0 cn_stimer_flag_start) (s_stimer_cb (\<lambda>_. 0) [] []) =
     Some ((s_stimer_cb (\<lambda>_. 0) [] [])\<lparr>st_lst := Some 0, st_next := 1, st_ticks := 1, st_heap :=
        [0 \<mapsto> \<lparr>ti_name = None, ti_cycle = 0, ti_flag = 2, ti_handler = Some 1, ti_args = 0, ti_dead_time = 0,
              ti_nxt = None\<rparr>]\<rparr>)"
  by (simp add: s_stimer_cb_def stimer_create_def st_sys_time_def st_lock_def st_post_def
    timer_add_def add_walk_None set_item_def)

theorem timer_scan_hangs_witness:
  "timer_scan (the (st_run (Create None (Some 1) 0 0 cn_stimer_flag_start) (s_stimer_cb (\<lambda>_. 0) [] []))) = None"
proof -
  let ?s = "the (st_run (Create None (Some 1) 0 0 cn_stimer_flag_start) (s_stimer_cb (\<lambda>_. 0) [] []))"
  have r: "st_reach ?s"
    by (rule st_reach.call[OF st_reach.start, of "Create None (Some 1) 0 0 cn_stimer_flag_start"])
      (use zero_timer_eq in auto)
  show ?thesis
    by (rule timer_scan_hangs[OF r, of 0]) (simp_all only: zero_timer_eq option.sel, simp_all add: s_stimer_cb_def, simp_all)
qed

lemma wait_for_close:
  assumes "sint now < sint d" and "sint d - sint now < 2 ^ 32 - 1" and "d \<noteq> cn_stimer_dead_max"
  shows "uint (wait_for (Some d) now) = sint d - sint now"
proof -
  have "d - now = word_of_int (sint d - sint now)" by simp
  then have "uint (d - now) = sint d - sint now"
    using assms(1,2) by (simp only: unsigned_of_int) (simp add: take_bit_int_eq_self)
  then have u: "uint (ucast (d - now) :: u32) = sint d - sint now"
    using assms(1,2) by (simp add: unsigned_ucast_eq take_bit_int_eq_self)
  then have "\<not> (ucast (d - now) :: u32) > cn_stimer_wait_max - 1" using assms(2) by (simp add: word_less_def)
  then show ?thesis using assms u by (simp add: wait_for_def Let_def)
qed

lemma scan_round_frame:
  assumes "stimer_inv s" and "st_lst s = Some a" and "scan_round a s = Some (go, s')"
  shows "st_locks s' = st_locks s \<and> st_clock s' = st_clock s"
proof -
  obtain as where as: "timers s as" "sorted (map (dead (st_heap s)) as)" "set as = dom (st_heap s)"
    using assms(1) by (auto simp: stimer_inv_def)
  obtain bs where bs: "as = a # bs" using as(1) assms(2) by (cases as) (auto simp: timers_def)
  obtain it where it: "st_heap s a = Some it" using as(3) bs by auto
  show ?thesis using scan_round_spec[of s a bs it] as(1,2) bs it assms(3) by auto
qed

lemma scan_frame: "timer_scan s = Some s' \<Longrightarrow> stimer_inv s \<Longrightarrow> st_locks s' = st_locks s \<and> st_clock s' = st_clock s"
proof (rule timer_scan.raw_induct[of "\<lambda>s s'. stimer_inv s \<longrightarrow> st_locks s' = st_locks s \<and> st_clock s' = st_clock s", THEN mp])
  fix f s s'
  assume IH: "\<And>s s'. f s = Some s' \<Longrightarrow> stimer_inv s \<longrightarrow> st_locks s' = st_locks s \<and> st_clock s' = st_clock s"
    and r: "(case st_lst s of None \<Rightarrow> Some s
      | Some a \<Rightarrow> do { (go, s) \<leftarrow> scan_round a s; if go then f s else Some s }) = Some s'"
  show "stimer_inv s \<longrightarrow> st_locks s' = st_locks s \<and> st_clock s' = st_clock s"
  proof
    assume i: "stimer_inv s"
    show "st_locks s' = st_locks s \<and> st_clock s' = st_clock s"
    proof (cases "st_lst s")
      case (Some a)
      then obtain go s1 where s1: "scan_round a s = Some (go, s1)" using r by (auto simp: bind_eq_Some_conv)
      then show ?thesis
        using r Some IH[of s1 s'] scan_round_frame[OF i Some s1] scan_round_inv[OF i Some s1]
        by (auto split: if_splits)
    qed (use r in simp)
  qed
qed

text \<open>C37. The task never sleeps past a timer: after a round, the time it will wait for the semaphore is at most the
  time left until the dead time of every started timer that is not due yet and less than
  2^32 - 1 ticks away.\<close>

theorem task_never_oversleeps:
  assumes "st_reach s" and "st_locks s = []" and "\<not> st_daemon_exit s" and "timer_entry w s = Some (w', s')"
    and "st_heap s' a = Some it" and "ti_dead_time it \<noteq> cn_stimer_dead_max"
    and "sint (st_clock s' (st_ticks s' - 1)) < sint (ti_dead_time it)"
    and "sint (ti_dead_time it) - sint (st_clock s' (st_ticks s' - 1)) < 2 ^ 32 - 1"
  shows "uint w' \<le> sint (ti_dead_time it) - sint (st_clock s' (st_ticks s' - 1))"
proof -
  define s0 where "s0 = s\<lparr>st_semp := map_option (\<lambda>_. False) (st_semp s), st_locks := []\<rparr>"
  have i0: "stimer_inv s0" using st_inv_frame[OF st_reach_inv[OF assms(1)], of s0] by (simp add: s0_def)
  have s0: "s\<lparr>st_semp := map_option (\<lambda>_. False) (st_semp s)\<rparr> = s0" "st_lock s0 = (True, s0)"
    using assms(2) by (simp_all add: s0_def st_lock_def)
  obtain s2 where s2: "timer_scan s0 = Some s2"
    using assms(3,4) s0(2) unfolding timer_entry_def s0(1) by (auto simp: bind_eq_Some_conv)
  have i2: "stimer_inv s2" "st_locks s2 = []" using st_scan_inv[OF s2 i0] scan_frame[OF s2 i0] by (auto simp: s0_def)
  define now where "now = st_clock s2 (st_ticks s2)"
  define s3 where "s3 = s2\<lparr>st_ticks := Suc (st_ticks s2)\<rparr>"
  have s3: "st_sys_time s2 = (now, s3)" "st_lock s3 = (True, s3)" "st_heap s3 = st_heap s2" "st_lst s3 = st_lst s2"
    using i2(2) by (simp_all add: st_sys_time_def now_def s3_def st_lock_def)
  have r: "(case st_lst s2 of
        None \<Rightarrow> Some (wait_for None now, s3)
      | Some f \<Rightarrow> do { it \<leftarrow> st_heap s2 f; Some (wait_for (Some (ti_dead_time it)) now, s3) }) = Some (w', s')"
    using assms(3,4) s0(2) s2 s3(1,2,4) unfolding timer_entry_def s0(1) by (simp add: s3(3) cong: option.case_cong)
  then have e: "s' = s3" by (auto split: option.splits simp: bind_eq_Some_conv)
  then have n: "st_clock s' (st_ticks s' - 1) = now" by (simp add: s3_def now_def)
  have it: "st_heap s2 a = Some it" using assms(5) e s3 by simp
  obtain as where as: "timers s2 as" "sorted (map (dead (st_heap s2)) as)" "set as = dom (st_heap s2)"
    using i2(1) by (auto simp: stimer_inv_def)
  have "a \<in> set as" using it as(3) by blast
  then obtain f fs where f: "as = f # fs" by (cases as) auto
  obtain fi where fi: "st_heap s2 f = Some fi" using as(3) f by auto
  have w: "w' = wait_for (Some (ti_dead_time fi)) now"
    using r fi as(1) f by (simp add: timers_def)
  have le: "sint (ti_dead_time fi) \<le> sint (ti_dead_time it)"
    using as(2) f \<open>a \<in> set as\<close> it fi by (auto simp: dead_def)
  have "ti_dead_time fi \<noteq> cn_stimer_dead_max"
  proof
    assume "ti_dead_time fi = cn_stimer_dead_max"
    then have "2 ^ 63 - 1 \<le> sint (ti_dead_time it)" using le by simp
    then have "sint (ti_dead_time it) = sint cn_stimer_dead_max"
      using sint_lt[of "ti_dead_time it"] by simp
    then show False using assms(6) signed_word_eqI by blast
  qed
  then show ?thesis
    using w le assms(7,8) wait_for_close[of now "ti_dead_time fi"] unfolding n
    by (cases "sint now < sint (ti_dead_time fi)") (auto simp: wait_for_def Let_def)
qed

lemma low_diff: "take_bit 32 (take_bit 64 x - take_bit 64 y) = take_bit 32 (x - y :: int)"
proof -
  have "take_bit 32 (take_bit 64 x - take_bit 64 y) =
    take_bit 32 (take_bit 32 (take_bit 64 x) - take_bit 32 (take_bit 64 y))"
    by (rule take_bit_diff[symmetric])
  also have "\<dots> = take_bit 32 (take_bit 32 x - take_bit 32 y)" by simp
  finally show ?thesis by (simp only: take_bit_diff)
qed

lemma ucast_minus: "ucast (x - y) = (ucast x - ucast y :: u32)" for x y :: u64
  by transfer (simp add: low_diff)

text \<open>The time left that the interface reports for a stopped timer is not a time: the call succeeds
  and stores the low word of the largest dead time less the clock, \<^verbatim>\<open>0xffffffff\<close> less the time.\<close>

theorem stimer_gettime_stopped:
  assumes "fst (st_lock s)" and "st_heap s a = Some it" and "ti_dead_time it = cn_stimer_dead_max"
  shows "\<exists>s'. stimer_ioctl (Some a) opt_gettime (Some x) s =
     Some ((0, Some (0xffffffff - ucast (st_clock s (st_ticks s)))), s')"
proof -
  obtain s1 where k: "st_lock s = (True, s1)" using assms(1) by (metis (full_types) prod.collapse)
  have e: "ucast (cn_stimer_dead_max - t) = (0xffffffff - ucast t :: u32)" for t :: u64 by (simp add: ucast_minus)
  show ?thesis using k st_lock_frame[OF k] assms(2,3) e[of "st_clock s (st_ticks s)"]
    by (simp add: stimer_ioctl_def st_sys_time_def)
qed

theorem stimer_gettime_stopped_witness:
  "\<exists>s'. stimer_ioctl (Some 0) opt_gettime (Some 0)
     (the (st_run (Create None (Some 1) 0 9 0) (s_stimer_cb (\<lambda>_. 100) [] []))) = Some ((0, Some 4294967195), s')"
proof -
  let ?s = "the (st_run (Create None (Some 1) 0 9 0) (s_stimer_cb (\<lambda>_. 100) [] []))"
  have e: "?s = (s_stimer_cb (\<lambda>_. 100) [] [])\<lparr>st_lst := Some 0, st_next := 1, st_heap :=
        [0 \<mapsto> \<lparr>ti_name = None, ti_cycle = 9, ti_flag = 0, ti_handler = Some 1, ti_args = 0,
              ti_dead_time = cn_stimer_dead_max, ti_nxt = None\<rparr>]\<rparr>"
    by (simp add: s_stimer_cb_def stimer_create_def st_sys_time_def st_lock_def st_post_def
      timer_add_def add_walk_None set_item_def)
  have "fst (st_lock ?s)" unfolding e by (simp add: s_stimer_cb_def st_lock_def)
  moreover have "st_heap ?s 0 = Some \<lparr>ti_name = None, ti_cycle = 9, ti_flag = 0, ti_handler = Some 1, ti_args = 0,
              ti_dead_time = cn_stimer_dead_max, ti_nxt = None\<rparr>" unfolding e by simp
  ultimately have "\<exists>s'. stimer_ioctl (Some 0) opt_gettime (Some 0) ?s =
      Some ((0, Some (0xffffffff - ucast (st_clock ?s (st_ticks ?s)))), s')"
    by (rule stimer_gettime_stopped) simp
  then show ?thesis unfolding e by (simp add: s_stimer_cb_def)
qed

theorem task_never_oversleeps_witness:
  "\<exists>s'. timer_entry 0 (the (st_run (Create None (Some 1) 0 9 cn_stimer_flag_start) (s_stimer_cb (\<lambda>_. 0) [] []))) =
     Some (9, s') \<and> uint (9 :: u32) \<le> 9 - 0"
proof -
  let ?it = "\<lparr>ti_name = None, ti_cycle = 9, ti_flag = 2, ti_handler = Some 1, ti_args = 0, ti_dead_time = 9, ti_nxt = None\<rparr>"
  let ?s = "the (st_run (Create None (Some 1) 0 9 cn_stimer_flag_start) (s_stimer_cb (\<lambda>_. 0) [] []))"
  have c: "st_run (Create None (Some 1) 0 9 cn_stimer_flag_start) (s_stimer_cb (\<lambda>_. 0) [] []) =
      Some ((s_stimer_cb (\<lambda>_. 0) [] [])\<lparr>st_lst := Some 0, st_next := 1, st_ticks := 1, st_heap := [0 \<mapsto> ?it]\<rparr>)"
    by (simp add: s_stimer_cb_def stimer_create_def st_sys_time_def st_lock_def st_post_def
      timer_add_def add_walk_None set_item_def)
  have e: "?s = (s_stimer_cb (\<lambda>_. 0) [] [])\<lparr>st_lst := Some 0, st_next := 1, st_ticks := 1, st_heap := [0 \<mapsto> ?it]\<rparr>"
    by (simp only: c option.sel)
  have r: "st_reach ?s"
    by (rule st_reach.call[OF st_reach.start, of "Create None (Some 1) 0 9 cn_stimer_flag_start"]) (use c in auto)
  have run: "timer_entry 0 ?s =
      Some (9, (s_stimer_cb (\<lambda>_. 0) [] [])\<lparr>st_lst := Some 0, st_next := 1, st_ticks := 3, st_heap := [0 \<mapsto> ?it]\<rparr>)"
    unfolding e
    by (simp add: timer_entry_def s_stimer_cb_def st_lock_def timer_scan.simps scan_round_def st_sys_time_def
      timer_add_def add_walk_None set_item_def wait_for_def)
  have "uint (9 :: u32) \<le> sint (ti_dead_time ?it) - sint (st_clock ((s_stimer_cb (\<lambda>_. 0) [] [])\<lparr>st_lst := Some 0,
      st_next := 1, st_ticks := 3, st_heap := [0 \<mapsto> ?it]\<rparr>) 2)"
    by (rule order_trans[OF task_never_oversleeps[OF r _ _ run, of 0 ?it]])
      (simp_all only: e, simp_all add: s_stimer_cb_def)
  then show ?thesis using run by (auto simp: s_stimer_cb_def)
qed

end
