(* ===== verification/AtClient.thy ===== *)
theory AtClient
  imports Driver "HOL-Library.Sublist"
begin

text \<open>
  The AT client of \<^verbatim>\<open>at/at.c\<close>: one command at a time, whose response a receiver task looks for in the
  frames of the device, and a table of handlers for the frames that are no response. The device is
  opened, read and written through the driver framework. The receive buffer is the list of its
  bytes; an access outside it, by the device or by \<^verbatim>\<open>strstr\<close> on a buffer without a
  terminator, is \<open>None\<close>.

  A command waits for the receiver task: \<open>at_command\<close> takes the number of rounds the receiver
  makes between the sending and the end of the wait. The handlers are numbers, and their calls are logged.
  The semaphores are binary; the outcomes of the mutex are oracles.
\<close>

section \<open>State\<close>

abbreviation "CONFIG_AT_OOBTABLEN \<equiv> 6 :: nat"
abbreviation "CONFIG_AT_RECVMAXLEN \<equiv> 2048 :: nat"

text \<open>
  \<open>ac_respbuf\<close> is the address of the buffer of the caller, in the memory \<open>at_mem\<close>. The index of a
  command is a string, without its terminator.
\<close>

record at_cmd_item =
  ac_cmd :: "bytes option"
  ac_index :: "bytes option"
  ac_respbuf :: "nat option"
  ac_respbuflen :: nat
  ac_respdatalen :: nat
  ac_respsync :: bool
  ac_cmdsync :: bool

text \<open>\<open>oi_index\<close> is the memory the index pointer refers to, of which \<open>oi_len\<close> bytes are compared.\<close>

record at_oob_item =
  oi_name :: "string option"
  oi_func :: "nat option"
  oi_args :: nat
  oi_index :: "bytes option"
  oi_len :: nat

datatype at_debugmode = debug_none | debug_ascii | debug_hex

record 'w at_cb =
  at_devname :: string
  at_devhandle :: "nat option"
  at_cmd :: at_cmd_item
  at_oob :: "at_oob_item list"
  at_rcvbuf :: bytes
  at_rxdebug :: at_debugmode
  at_txdebug :: at_debugmode
  at_streammode :: int
  at_rcvlen :: int
  at_locks :: "bool list"
  at_log :: "(nat \<times> nat \<times> bytes) list"
  at_mem :: "nat \<Rightarrow> bytes option"
  at_drv :: "'w los_driv_module"

definition no_cmd :: at_cmd_item where
  "no_cmd = \<lparr>ac_cmd = None, ac_index = None, ac_respbuf = None, ac_respbuflen = 0, ac_respdatalen = 0,
     ac_respsync = False, ac_cmdsync = False\<rparr>"

definition no_oob :: at_oob_item where
  "no_oob = \<lparr>oi_name = None, oi_func = None, oi_args = 0, oi_index = None, oi_len = 0\<rparr>"

definition at_lock :: "'w at_cb \<Rightarrow> bool \<times> 'w at_cb" where
  "at_lock s = (let (ok, os) = alloc (at_locks s) in (ok, s\<lparr>at_locks := os\<rparr>))"

section \<open>The channel\<close>

definition cmd_send :: "bytes \<Rightarrow> u32 \<Rightarrow> 'w at_cb \<Rightarrow> (int \<times> 'w at_cb) option" where
  "cmd_send buf timeout s =
     do { (ret, d) \<leftarrow> los_dev_write (at_devhandle s) 0 (Some buf) timeout (at_drv s);
          Some (if ret > 0 then 0 else -1, s\<lparr>at_drv := d\<rparr>) }"

text \<open>\<open>off\<close> is the place in the receive buffer the device writes to.\<close>

definition resp_rcv :: "int \<Rightarrow> nat \<Rightarrow> u32 \<Rightarrow> 'w at_cb \<Rightarrow> (int \<times> 'w at_cb) option" where
  "resp_rcv off buflen timeout s =
     do { ((ret, data), d) \<leftarrow> los_dev_read (at_devhandle s) 0 True (of_nat buflen) timeout (at_drv s);
          if 0 \<le> off \<and> nat off + length data \<le> length (at_rcvbuf s)
          then Some (ret, s\<lparr>at_drv := d,
                 at_rcvbuf := take (nat off) (at_rcvbuf s) @ data @ drop (nat off + length data) (at_rcvbuf s)\<rparr>)
          else if data = [] then Some (ret, s\<lparr>at_drv := d\<rparr>) else None }"

section \<open>The command\<close>

definition semp_pend :: "bool \<Rightarrow> bool" where
  "semp_pend posted = posted"

definition cmd_create ::
  "bytes \<Rightarrow> bytes \<Rightarrow> nat option \<Rightarrow> nat \<Rightarrow> 'w at_cb \<Rightarrow> int \<times> 'w at_cb" where
  "cmd_create cmdbuf index respbuf respbuflen s =
     (if \<not> semp_pend (ac_cmdsync (at_cmd s)) then (-1, s)
      else
        let s = s\<lparr>at_cmd := (at_cmd s)\<lparr>ac_cmdsync := False\<rparr>\<rparr>;
            (ok, s) = at_lock s
        in (0, if ok
               then s\<lparr>at_cmd := (at_cmd s)\<lparr>ac_cmd := Some cmdbuf, ac_index := Some index, ac_respbuf := respbuf,
                       ac_respbuflen := respbuflen, ac_respsync := False\<rparr>\<rparr>
               else s))"

definition cmd_clear :: "'w at_cb \<Rightarrow> 'w at_cb" where
  "cmd_clear s =
     (let (ok, s) = at_lock s;
          s = (if ok
               then s\<lparr>at_cmd := (at_cmd s)\<lparr>ac_cmd := None, ac_index := None, ac_respbuf := None,
                       ac_respbuflen := 0, ac_respdatalen := 0\<rparr>\<rparr>
               else s)
      in s\<lparr>at_cmd := (at_cmd s)\<lparr>ac_cmdsync := True\<rparr>\<rparr>)"

text \<open>\<^verbatim>\<open>strstr\<close>: the text ends at the first zero byte; without one it reads on behind the buffer.\<close>

fun strstr :: "bytes \<Rightarrow> bytes \<Rightarrow> bool" where
  "strstr [] index = (index = [])"
| "strstr (c # cs) index = (prefix index (c # cs) \<or> strstr cs index)"

definition text_of :: "bytes \<Rightarrow> bytes option" where
  "text_of buf = (if 0 \<in> set buf then Some (takeWhile (\<lambda>c. c \<noteq> 0) buf) else None)"

text \<open>\<^verbatim>\<open>memcpy\<close> of the first \<open>n\<close> bytes of the receive buffer into the buffer of the caller.\<close>

definition copy_resp :: "bytes \<Rightarrow> nat \<Rightarrow> bytes \<Rightarrow> bytes option" where
  "copy_resp dst n src =
     (if n \<le> length src \<and> n \<le> length dst then Some (take n src @ drop n dst) else None)"

definition cmd_match :: "nat \<Rightarrow> 'w at_cb \<Rightarrow> (int \<times> 'w at_cb) option" where
  "cmd_match len s =
     (case at_lock s of
        (False, s) \<Rightarrow> Some (-1, s)
      | (True, s) \<Rightarrow>
          (let cmd = at_cmd s in
           case ac_index cmd of
             None \<Rightarrow> Some (-1, s)
           | Some index \<Rightarrow> do {
               str \<leftarrow> text_of (at_rcvbuf s);
               if \<not> strstr str index then Some (-1, s)
               else
                 (case ac_respbuf cmd of
                    Some a \<Rightarrow> do {
                      let cpylen = (if len > ac_respbuflen cmd then ac_respbuflen cmd else len);
                      buf \<leftarrow> at_mem s a;
                      buf \<leftarrow> copy_resp buf cpylen (at_rcvbuf s);
                      Some (0, s\<lparr>at_mem := (at_mem s)(a \<mapsto> buf),
                                 at_cmd := cmd\<lparr>ac_respdatalen := cpylen, ac_respsync := True\<rparr>\<rparr>) }
                  | None \<Rightarrow> Some (0, s\<lparr>at_cmd := cmd\<lparr>ac_respdatalen := len, ac_respsync := True\<rparr>\<rparr>)) }))"

section \<open>Frames that are no response\<close>

text \<open>\<^verbatim>\<open>memcmp\<close> of the index with the start of the receive buffer.\<close>

definition mem_eq :: "bytes \<Rightarrow> bytes \<Rightarrow> nat \<Rightarrow> bool option" where
  "mem_eq a b n = (if n \<le> length a \<and> n \<le> length b then Some (take n a = take n b) else None)"

fun oob_match_list :: "at_oob_item list \<Rightarrow> nat \<Rightarrow> 'w at_cb \<Rightarrow> (int \<times> 'w at_cb) option" where
  "oob_match_list [] len s = Some (-1, s)"
| "oob_match_list (oob # oobs) len s =
     (case (oi_func oob, oi_index oob) of
        (Some f, Some index) \<Rightarrow> do {
          eq \<leftarrow> mem_eq index (at_rcvbuf s) (oi_len oob);
          if eq then Some (0, s\<lparr>at_log := at_log s @ [(f, oi_args oob, take len (at_rcvbuf s))]\<rparr>)
          else oob_match_list oobs len s }
      | _ \<Rightarrow> oob_match_list oobs len s)"

definition oob_match :: "nat \<Rightarrow> 'w at_cb \<Rightarrow> (int \<times> 'w at_cb) option" where
  "oob_match len s = oob_match_list (at_oob s) len s"

fun oob_slot :: "at_oob_item \<Rightarrow> at_oob_item list \<Rightarrow> at_oob_item list option" where
  "oob_slot item [] = None"
| "oob_slot item (oob # oobs) =
     (if oi_func oob = None \<and> oi_index oob = None then Some (item # oobs)
      else map_option (Cons oob) (oob_slot item oobs))"

definition at_oobregister ::
  "string option \<Rightarrow> bytes option \<Rightarrow> nat \<Rightarrow> nat option \<Rightarrow> nat \<Rightarrow> 'w at_cb \<Rightarrow> int \<times> 'w at_cb" where
  "at_oobregister name index len func args s =
     (if func = None \<or> index = None then (-1, s)
      else (case oob_slot \<lparr>oi_name = name, oi_func = func, oi_args = args, oi_index = index, oi_len = len\<rparr> (at_oob s) of
              None \<Rightarrow> (-1, s)
            | Some oobs \<Rightarrow> (0, s\<lparr>at_oob := oobs\<rparr>)))"

section \<open>The receiver task\<close>

abbreviation "cn_osal_timeout_forever \<equiv> 0xffffffff :: u32"

definition clear_rcvbuf :: "'w at_cb \<Rightarrow> 'w at_cb" where
  "clear_rcvbuf s = s\<lparr>at_rcvbuf := replicate CONFIG_AT_RECVMAXLEN 0\<rparr>"

text \<open>One round of the loop of the task.\<close>

definition rcv_round :: "'w at_cb \<Rightarrow> 'w at_cb option" where
  "rcv_round s =
     (if at_streammode s = 1
      then do {
        let s = (if at_rcvlen s = 0 then clear_rcvbuf s else s);
        (ret, s) \<leftarrow> resp_rcv (at_rcvlen s) CONFIG_AT_RECVMAXLEN cn_osal_timeout_forever s;
        let s = s\<lparr>at_rcvlen := at_rcvlen s + ret\<rparr>;
        if at_rcvlen s > 0
        then do {
          (r, s) \<leftarrow> oob_match (nat (at_rcvlen s)) s;
          if r \<noteq> 0
          then do {
            (r, s) \<leftarrow> cmd_match (nat (at_rcvlen s)) s;
            Some (if r = 0 then s\<lparr>at_rcvlen := 0\<rparr> else s) }
          else Some (s\<lparr>at_rcvlen := 0\<rparr>) }
        else Some s }
      else do {
        let s = clear_rcvbuf s;
        (ret, s) \<leftarrow> resp_rcv 0 CONFIG_AT_RECVMAXLEN cn_osal_timeout_forever s;
        let s = s\<lparr>at_rcvlen := ret\<rparr>;
        if ret > 0
        then do {
          (r, s) \<leftarrow> oob_match (nat ret) s;
          if r \<noteq> 0 then do { (_, s) \<leftarrow> cmd_match (nat ret) s; Some s } else Some s }
        else Some s })"

definition rcv_task_start :: "'w at_cb \<Rightarrow> 'w at_cb option" where
  "rcv_task_start s =
     do { (h, d) \<leftarrow> los_dev_open (Some (at_devname s)) O_RDWR (at_drv s);
          Some (s\<lparr>at_devhandle := h, at_drv := d, at_rcvlen := 0\<rparr>) }"

fun rcv_task :: "nat \<Rightarrow> 'w at_cb \<Rightarrow> 'w at_cb option" where
  "rcv_task 0 s = Some s"
| "rcv_task (Suc n) s = (if at_devhandle s = None then Some s else do { s \<leftarrow> rcv_round s; rcv_task n s })"

section \<open>The interface\<close>

definition at_streammode_set :: "int \<Rightarrow> 'w at_cb \<Rightarrow> int \<times> 'w at_cb" where
  "at_streammode_set mode s = (0, s\<lparr>at_streammode := mode\<rparr>)"

definition at_debugclose :: "'w at_cb \<Rightarrow> int \<times> 'w at_cb" where
  "at_debugclose s = (0, s\<lparr>at_rxdebug := debug_none, at_txdebug := debug_none\<rparr>)"

definition at_command ::
  "bytes option \<Rightarrow> bytes option \<Rightarrow> nat option \<Rightarrow> nat \<Rightarrow> u32 \<Rightarrow> nat \<Rightarrow> 'w at_cb \<Rightarrow> (int \<times> 'w at_cb) option"
where
  "at_command cmd index respbuf respbuflen timeout rounds s =
     (case cmd of
        None \<Rightarrow> Some (-1, s)
      | Some cmd \<Rightarrow>
          (case index of
             None \<Rightarrow> cmd_send cmd timeout s
           | Some index \<Rightarrow>
               (case cmd_create cmd index respbuf respbuflen s of
                  (ret, s) \<Rightarrow>
                    if ret \<noteq> 0 then Some (ret, s)
                    else do {
                      (ret, s) \<leftarrow> cmd_send cmd timeout s;
                      (ret, s) \<leftarrow>
                        (if ret = 0
                         then do {
                           s \<leftarrow> rcv_task rounds s;
                           Some (if semp_pend (ac_respsync (at_cmd s))
                                 then (int (ac_respdatalen (at_cmd s)),
                                       s\<lparr>at_cmd := (at_cmd s)\<lparr>ac_respsync := False\<rparr>\<rparr>)
                                 else (-1, s)) }
                         else Some (-1, s));
                      Some (ret, cmd_clear s) })))"

text \<open>The outcomes of the creations are arguments. \<open>d\<close> is the driver framework and \<open>mem\<close> the memory of the callers.\<close>

definition at_init ::
  "bool \<Rightarrow> bool \<Rightarrow> bool \<Rightarrow> bool \<Rightarrow> string \<Rightarrow> bool list
     \<Rightarrow> (nat \<Rightarrow> bytes option) \<Rightarrow> 'w los_driv_module \<Rightarrow> int \<times> 'w at_cb" where
  "at_init cmdsync_ok respsync_ok lock_ok task_ok devname locks mem d =
     (let s = \<lparr>at_devname = devname, at_devhandle = None, at_cmd = no_cmd,
               at_oob = replicate CONFIG_AT_OOBTABLEN no_oob, at_rcvbuf = replicate CONFIG_AT_RECVMAXLEN 0,
               at_rxdebug = debug_none, at_txdebug = debug_none, at_streammode = 0, at_rcvlen = 0,
               at_locks = locks, at_log = [], at_mem = mem, at_drv = d\<rparr>
      in if cmdsync_ok \<and> respsync_ok \<and> lock_ok \<and> task_ok
         then (0, s\<lparr>at_cmd := (at_cmd s)\<lparr>ac_cmdsync := True\<rparr>, at_rxdebug := debug_ascii, at_txdebug := debug_ascii\<rparr>)
         else (-1, s))"

section \<open>The invariant\<close>

text \<open>A registered index is as long as its length says, and fits in the receive buffer.\<close>

definition oob_ok :: "at_oob_item \<Rightarrow> bool" where
  "oob_ok oob \<longleftrightarrow> (case oi_index oob of None \<Rightarrow> True
     | Some index \<Rightarrow> oi_len oob \<le> length index \<and> oi_len oob \<le> CONFIG_AT_RECVMAXLEN)"

text \<open>
  What the client relies on of the devices: a read stores no more bytes than it was asked for, and returns their number. What it needs on
  top of this is \<open>reads_short\<close>: no read fills the receive buffer, whose last byte is the terminator of the frame for \<^verbatim>\<open>strstr\<close>.
\<close>

definition reads_ok :: "'w los_driv_module \<Rightarrow> bool" where
  "reads_ok d \<longleftrightarrow> (\<forall>x ops f. map_option dr_op (lm_drv d x) = Some ops \<longrightarrow> op_read ops = Some f \<longrightarrow>
     (\<forall>pri off t w. let ((ret, data), _) = f pri off (of_nat CONFIG_AT_RECVMAXLEN) t w in
        length data \<le> CONFIG_AT_RECVMAXLEN \<and> (0 < ret \<longrightarrow> ret = int (length data))))"

definition reads_short :: "'w los_driv_module \<Rightarrow> bool" where
  "reads_short d \<longleftrightarrow> (\<forall>x ops f. map_option dr_op (lm_drv d x) = Some ops \<longrightarrow> op_read ops = Some f \<longrightarrow>
     (\<forall>pri off t w. let ((ret, data), _) = f pri off (of_nat CONFIG_AT_RECVMAXLEN) t w in length data < CONFIG_AT_RECVMAXLEN))"

definition at_inv :: "'w at_cb \<Rightarrow> bool" where
  "at_inv s \<longleftrightarrow> length (at_rcvbuf s) = CONFIG_AT_RECVMAXLEN \<and> length (at_oob s) = CONFIG_AT_OOBTABLEN \<and>
     (\<forall>oob \<in> set (at_oob s). oob_ok oob) \<and>
     (\<forall>a. ac_respbuf (at_cmd s) = Some a \<longrightarrow>
        (\<exists>buf. at_mem s a = Some buf \<and> length buf = ac_respbuflen (at_cmd s))) \<and>
     driv_inv (at_drv s) \<and> open_handle (at_devhandle s) (at_drv s) \<and> reads_ok (at_drv s)"

lemma read_dev:
  "los_dev_read h off b n t d = Some (r, d') \<Longrightarrow> lm_dev d' = lm_dev d \<and>
     (\<forall>x. map_option dr_op (lm_drv d' x) = map_option dr_op (lm_drv d x))"
  by (auto simp: los_dev_read_def set_driv_def Let_def bind_eq_Some_conv case_prod_beta split: option.splits if_splits)

lemma write_dev:
  "los_dev_write h off buf t d = Some (r, d') \<Longrightarrow> lm_dev d' = lm_dev d \<and>
     (\<forall>x. map_option dr_op (lm_drv d' x) = map_option dr_op (lm_drv d x))"
  by (auto simp: los_dev_write_def set_driv_def Let_def bind_eq_Some_conv case_prod_beta split: option.splits if_splits)

lemma reads_ok_cong:
  "\<forall>x. map_option dr_op (lm_drv d' x) = map_option dr_op (lm_drv d x) \<Longrightarrow> reads_ok d' = reads_ok d"
  by (simp add: reads_ok_def)

lemma reads_short_cong:
  "\<forall>x. map_option dr_op (lm_drv d' x) = map_option dr_op (lm_drv d x) \<Longrightarrow> reads_short d' = reads_short d"
  by (simp add: reads_short_def)

text \<open>What a read returns is nothing, or comes from a driver.\<close>

lemma read_source:
  assumes "los_dev_read h off b n t d = Some ((ret, data), d')"
  obtains "data = []" "ret = 0" | x ops f pri w where "map_option dr_op (lm_drv d x) = Some ops" "op_read ops = Some f"
    "fst (f pri off n t w) = (ret, data)"
proof -
  consider "data = []" "ret = 0" | x cb f where "lm_drv d x = Some cb" "op_read (dr_op cb) = Some f"
    "fst (f (dr_pri cb) off n t (lm_world d)) = (ret, data)"
    using assms unfolding los_dev_read_def
    by (auto simp: bind_eq_Some_conv case_prod_beta Let_def split: option.splits if_splits)
  then show thesis
  proof cases
    case (2 x cb f)
    then have "map_option dr_op (lm_drv d x) = Some (dr_op cb)" by simp
    then show thesis using that(2) 2(2,3) by blast
  qed (use that(1) in blast)
qed

lemma reads_okD:
  assumes "reads_ok d" and "los_dev_read h 0 True (of_nat CONFIG_AT_RECVMAXLEN) t d = Some ((ret, data), d')"
  shows "length data \<le> CONFIG_AT_RECVMAXLEN \<and> (0 < ret \<longrightarrow> ret = int (length data))"
  using assms(2)
proof (cases rule: read_source)
  case (2 x ops f pri w)
  then show ?thesis using assms(1) unfolding reads_ok_def Let_def case_prod_beta by (metis fst_conv snd_conv)
qed simp

lemma reads_shortD:
  assumes "reads_short d" and "los_dev_read h 0 True (of_nat CONFIG_AT_RECVMAXLEN) t d = Some ((ret, data), d')"
  shows "length data < CONFIG_AT_RECVMAXLEN"
  using assms(2)
proof (cases rule: read_source)
  case (2 x ops f pri w)
  then show ?thesis using assms(1) unfolding reads_short_def Let_def case_prod_beta by (metis fst_conv snd_conv)
qed simp

lemma open_handleD: "open_handle h d \<Longrightarrow> h = Some a \<Longrightarrow> lm_dev d a \<noteq> None"
  by (simp add: open_handle_def)

lemma open_handle_cong: "lm_dev d' = lm_dev d \<Longrightarrow> open_handle h d' = open_handle h d"
  by (auto simp: open_handle_def split: option.splits)

lemma send_inv:
  assumes "at_inv s"
  obtains r d where "cmd_send buf timeout s = Some (r, s\<lparr>at_drv := d\<rparr>)" "at_inv (s\<lparr>at_drv := d\<rparr>)"
    "reads_short d = reads_short (at_drv s)"
proof -
  have d: "driv_inv (at_drv s)" "open_handle (at_devhandle s) (at_drv s)" using assms by (auto simp: at_inv_def)
  obtain r d where r: "los_dev_write (at_devhandle s) 0 (Some buf) timeout (at_drv s) = Some (r, d)" "driv_inv d"
    using open_handleD[OF d(2)] write_inv[OF d(1), where dev = "at_devhandle s" and offset = 0 and buf = "Some buf" and timeout = timeout] by blast
  then have "at_inv (s\<lparr>at_drv := d\<rparr>)"
    using assms write_dev[OF r(1)] open_handle_cong[of d "at_drv s"] reads_ok_cong[of d "at_drv s"] r(2) by (simp add: at_inv_def)
  then show thesis using that r reads_short_cong[of d "at_drv s"] write_dev[OF r(1)] by (simp add: cmd_send_def)
qed

lemma at_lock_simp:
  "at_lock s = (ok, s') \<Longrightarrow> \<exists>os. s' = s\<lparr>at_locks := os\<rparr>"
  by (auto simp: at_lock_def Let_def split: prod.splits)

lemma at_inv_locks [simp]: "at_inv (s\<lparr>at_locks := os\<rparr>) = at_inv s"
  by (simp add: at_inv_def)

lemma clear_inv [simp]: "at_inv s \<Longrightarrow> at_inv (clear_rcvbuf s)"
  by (simp add: at_inv_def clear_rcvbuf_def)

text \<open>A frame of a device that keeps its promise ends up at the start of the buffer; when it is short there is a zero byte behind it.\<close>

lemma rcv_inv:
  fixes s :: "'w at_cb"
  assumes "at_inv s"
  obtains ret data d where
    "resp_rcv 0 CONFIG_AT_RECVMAXLEN cn_osal_timeout_forever (clear_rcvbuf s) = Some (ret, s\<lparr>at_drv := d,
       at_rcvbuf := data @ replicate (CONFIG_AT_RECVMAXLEN - length data) 0\<rparr>)"
    "at_inv (s\<lparr>at_drv := d, at_rcvbuf := data @ replicate (CONFIG_AT_RECVMAXLEN - length data) 0\<rparr>)"
    "length data \<le> CONFIG_AT_RECVMAXLEN" "0 < ret \<longrightarrow> ret = int (length data)"
    "reads_short (at_drv s) \<Longrightarrow> length data < CONFIG_AT_RECVMAXLEN" "reads_short d = reads_short (at_drv s)"
proof -
  have d: "driv_inv (at_drv s)" "open_handle (at_devhandle s) (at_drv s)" using assms by (auto simp: at_inv_def)
  obtain ret data d where r: "los_dev_read (at_devhandle s) 0 True (of_nat CONFIG_AT_RECVMAXLEN) cn_osal_timeout_forever
      (at_drv s) = Some ((ret, data), d)" "driv_inv d"
    using open_handleD[OF d(2)] read_inv[OF d(1), where dev = "at_devhandle s" and offset = 0 and has_buf = True
      and len = "of_nat CONFIG_AT_RECVMAXLEN" and timeout = cn_osal_timeout_forever]
    by auto
  have l: "length data \<le> CONFIG_AT_RECVMAXLEN" "0 < ret \<longrightarrow> ret = int (length data)"
    using reads_okD[OF _ r(1)] assms by (auto simp: at_inv_def)
  have k: "reads_short (at_drv s) \<Longrightarrow> length data < CONFIG_AT_RECVMAXLEN" "reads_short d = reads_short (at_drv s)"
    using reads_shortD[OF _ r(1)] reads_short_cong read_dev[OF r(1)] by blast+
  have "at_inv (s\<lparr>at_drv := d, at_rcvbuf := data @ replicate (CONFIG_AT_RECVMAXLEN - length data) 0\<rparr>)"
    using assms(1) l r(2) read_dev[OF r(1)] open_handle_cong[of d "at_drv s"] reads_ok_cong[of d "at_drv s"] by (simp add: at_inv_def)
  moreover have "resp_rcv 0 CONFIG_AT_RECVMAXLEN cn_osal_timeout_forever (clear_rcvbuf s) = Some (ret, s\<lparr>at_drv := d,
       at_rcvbuf := data @ replicate (CONFIG_AT_RECVMAXLEN - length data) 0\<rparr>)"
    using r(1) l by (simp add: resp_rcv_def clear_rcvbuf_def)
  ultimately show thesis using that l k by blast
qed

lemma oob_match_list_safe:
  "\<forall>oob \<in> set oobs. oob_ok oob \<Longrightarrow> length (at_rcvbuf s) = CONFIG_AT_RECVMAXLEN \<Longrightarrow>
     \<exists>r log. oob_match_list oobs len s = Some (r, s\<lparr>at_log := log\<rparr>)"
proof (induction oobs)
  case Nil
  then show ?case by (intro exI[of _ "-1"] exI[of _ "at_log s"]) simp
next
  case (Cons oob oobs)
  then show ?case
    by (auto simp: oob_ok_def mem_eq_def split: option.splits)
qed

text \<open>The sizes of the buffers of the callers.\<close>

definition buf_lens :: "'w at_cb \<Rightarrow> nat \<Rightarrow> nat option" where
  "buf_lens s = (\<lambda>a. map_option length (at_mem s a))"

lemma cmd_match_safe:
  assumes "at_inv s" and "0 \<in> set (at_rcvbuf s)" and "len \<le> CONFIG_AT_RECVMAXLEN"
  shows "\<exists>r s'. cmd_match len s = Some (r, s') \<and> at_inv s' \<and> at_devhandle s' = at_devhandle s \<and>
    at_streammode s' = at_streammode s \<and> at_drv s' = at_drv s \<and> buf_lens s' = buf_lens s"
proof -
  obtain ok s1 where k: "at_lock s = (ok, s1)" by (cases "at_lock s")
  then obtain os where s1: "s1 = s\<lparr>at_locks := os\<rparr>" using at_lock_simp by blast
  show ?thesis
  proof (cases "ac_respbuf (at_cmd s)")
    case None
    then show ?thesis using assms k s1
      by (cases ok) (auto simp: cmd_match_def text_of_def at_inv_def buf_lens_def Let_def split: option.splits)
  next
    case (Some a)
    then obtain buf where "at_mem s a = Some buf" "length buf = ac_respbuflen (at_cmd s)"
      "length (at_rcvbuf s) = CONFIG_AT_RECVMAXLEN"
      using assms(1) by (auto simp: at_inv_def)
    then show ?thesis using assms k s1 Some
      by (cases ok) (auto simp: cmd_match_def text_of_def at_inv_def copy_resp_def buf_lens_def Let_def split: option.splits)
  qed
qed

text \<open>What a round keeps: the invariant, the handle, the mode, the size of the caller's buffer, and that the device leaves room.\<close>

definition at_keeps :: "'w at_cb \<Rightarrow> 'w at_cb \<Rightarrow> bool" where
  "at_keeps s s' \<longleftrightarrow> at_inv s' \<and> at_devhandle s' = at_devhandle s \<and> at_streammode s' = at_streammode s \<and>
     reads_short (at_drv s') = reads_short (at_drv s) \<and> buf_lens s' = buf_lens s"

lemma at_keeps_trans: "at_keeps s s' \<Longrightarrow> at_keeps s' s'' \<Longrightarrow> at_keeps s s''"
  by (simp add: at_keeps_def)

lemma at_inv_log [simp]: "at_inv (s\<lparr>at_log := l\<rparr>) = at_inv s"
  by (simp add: at_inv_def)

lemma at_inv_rcvlen [simp]: "at_inv (s\<lparr>at_rcvlen := l\<rparr>) = at_inv s"
  by (simp add: at_inv_def)

text \<open>The dispatch of a frame: the table first, then the command.\<close>

lemma dispatch_keeps:
  assumes "at_inv s" and "0 \<in> set (at_rcvbuf s)" and "len \<le> CONFIG_AT_RECVMAXLEN"
  shows "\<exists>s'. do { (r, s) \<leftarrow> oob_match len s;
      if r \<noteq> 0 then do { (_, s) \<leftarrow> cmd_match len s; Some s } else Some s } = Some s' \<and> at_keeps s s'"
proof -
  obtain r log where o: "oob_match len s = Some (r, s\<lparr>at_log := log\<rparr>)"
    using oob_match_list_safe[of "at_oob s" s len] assms(1) by (auto simp: at_inv_def oob_match_def)
  have "at_inv (s\<lparr>at_log := log\<rparr>)" "0 \<in> set (at_rcvbuf (s\<lparr>at_log := log\<rparr>))" using assms by simp_all
  from cmd_match_safe[OF this assms(3)] show ?thesis using o assms(1)
    by (cases "r = 0") (auto simp: at_keeps_def buf_lens_def)
qed

lemma rcv_round_keeps:
  fixes s :: "'w at_cb"
  assumes "at_inv s" and "reads_short (at_drv s)" and "at_streammode s \<noteq> 1"
  shows "\<exists>s'. rcv_round s = Some s' \<and> at_keeps s s'"
proof -
  obtain ret data d where r: "resp_rcv 0 CONFIG_AT_RECVMAXLEN cn_osal_timeout_forever (clear_rcvbuf s) = Some (ret,
      s\<lparr>at_drv := d, at_rcvbuf := data @ replicate (CONFIG_AT_RECVMAXLEN - length data) 0\<rparr>)"
    "at_inv (s\<lparr>at_drv := d, at_rcvbuf := data @ replicate (CONFIG_AT_RECVMAXLEN - length data) 0\<rparr>)"
    "0 < ret \<longrightarrow> ret = int (length data)"
    and l: "length data < CONFIG_AT_RECVMAXLEN" "reads_short d"
    by (rule rcv_inv[OF assms(1)]) (use assms(2) in blast)
  let ?s = "s\<lparr>at_drv := d, at_rcvbuf := data @ replicate (CONFIG_AT_RECVMAXLEN - length data) 0, at_rcvlen := ret\<rparr>"
  have i: "at_inv ?s" "0 \<in> set (at_rcvbuf ?s)" using r(2) l(1) by (simp_all add: at_inv_def)
  have k: "at_keeps s ?s" using i(1) l(2) assms(2) by (simp add: at_keeps_def buf_lens_def)
  show ?thesis
  proof (cases "ret > 0")
    case True
    then have "nat ret \<le> CONFIG_AT_RECVMAXLEN" using r(3) l(1) by simp
    from dispatch_keeps[OF i this] obtain s' where s': "do { (r, s) \<leftarrow> oob_match (nat ret) ?s;
      if r \<noteq> 0 then do { (_, s) \<leftarrow> cmd_match (nat ret) s; Some s } else Some s } = Some s'" "at_keeps ?s s'" by blast
    then have "rcv_round s = Some s'" using True r(1) assms(3) by (simp add: rcv_round_def)
    then show ?thesis using at_keeps_trans[OF k s'(2)] by blast
  next
    case False
    then show ?thesis using k r(1) assms(3) by (simp add: rcv_round_def)
  qed
qed

lemma rcv_task_keeps:
  fixes s :: "'w at_cb"
  assumes "at_inv s" and "reads_short (at_drv s)" and "at_streammode s \<noteq> 1"
  shows "\<exists>s'. rcv_task n s = Some s' \<and> at_keeps s s'"
  using assms
proof (induction n arbitrary: s)
  case 0
  then show ?case by (simp add: at_keeps_def)
next
  case (Suc n)
  obtain s1 where s1: "rcv_round s = Some s1" "at_keeps s s1" using rcv_round_keeps[OF Suc.prems] by blast
  obtain s2 where s2: "rcv_task n s1 = Some s2" "at_keeps s1 s2"
    using Suc.IH[of s1] s1(2) Suc.prems(2,3) by (auto simp: at_keeps_def)
  show ?case using s1 s2 at_keeps_trans[OF s1(2) s2(2)] Suc.prems(1)
    by (cases "at_devhandle s = None") (auto simp: at_keeps_def)
qed

lemma create_keeps:
  assumes "at_inv s" and "\<And>a. buf = Some a \<Longrightarrow> buf_lens s a = Some n" and "cmd_create cmd index buf n s = (r, s')"
  shows "at_inv s' \<and> at_devhandle s' = at_devhandle s \<and> at_streammode s' = at_streammode s \<and> at_drv s' = at_drv s \<and>
    buf_lens s' = buf_lens s"
proof -
  have "at_inv (s\<lparr>at_cmd := (at_cmd s)\<lparr>ac_cmdsync := False\<rparr>\<rparr>)" using assms(1) by (simp add: at_inv_def)
  then show ?thesis using assms
    by (auto simp: cmd_create_def at_lock_def at_inv_def buf_lens_def Let_def split: prod.splits if_splits)
qed

lemma cmd_clear_keeps:
  "at_inv s \<Longrightarrow> at_inv (cmd_clear s) \<and> buf_lens (cmd_clear s) = buf_lens s \<and> at_drv (cmd_clear s) = at_drv s \<and> ac_cmdsync (at_cmd (cmd_clear s))"
  by (auto simp: cmd_clear_def at_lock_def at_inv_def buf_lens_def Let_def split: prod.splits)

text \<open>
  A modem whose frames are the state of its driver, registered, and the client started on it: the concrete
  input of the witnesses. The caller's buffer of 4 bytes is at the address 5.
\<close>

definition modem_op :: "bytes list los_driv_op_t" where
  "modem_op = \<lparr>op_open = None,
     op_read = Some (\<lambda>_ _ _ _ w. case w of [] \<Rightarrow> ((0, []), []) | f # fs \<Rightarrow> ((int (length (take 100 f)), take 100 f), fs)),
     op_write = Some (\<lambda>_ _ data _ w. (int (length data), w)), op_close = None, op_ioctl = None, op_seek = None,
     op_init = None, op_deinit = None\<rparr>"

definition modem_para :: "bytes list os_driv_para_t" where
  "modem_para = \<lparr>pa_name = Some ''atdev'', pa_op = Some modem_op, pa_pri = None, pa_flag = 0\<rparr>"

definition modem_cb :: "bytes list driv_cb" where
  "modem_cb = (new_driv modem_op ''atdev'' modem_para)\<lparr>dr_opencounter := 1, dr_devlst := [1]\<rparr>"

definition modem :: "bytes list \<Rightarrow> bytes list los_driv_module" where
  "modem frames = (drv_start [] [] frames)\<lparr>lm_drivlst := [0], lm_drivnum := 1, lm_drv := [0 \<mapsto> modem_cb],
     lm_dev := [1 \<mapsto> \<lparr>de_driv = 0, de_openflag = O_RDWR\<rparr>], lm_next := 2\<rparr>"

definition modem_client :: "bytes list \<Rightarrow> bytes list at_cb" where
  "modem_client frames = the (rcv_task_start (snd (at_init True True True True ''atdev'' [] [5 \<mapsto> [0, 0, 0, 0]]
     (the (drv_run (Register modem_para) (drv_start [] [] frames))))))"

lemma modem_client_eq:
  "modem_client frames = \<lparr>at_devname = ''atdev'', at_devhandle = Some 1, at_cmd = no_cmd\<lparr>ac_cmdsync := True\<rparr>,
     at_oob = replicate CONFIG_AT_OOBTABLEN no_oob, at_rcvbuf = replicate CONFIG_AT_RECVMAXLEN 0,
     at_rxdebug = debug_ascii, at_txdebug = debug_ascii, at_streammode = 0, at_rcvlen = 0, at_locks = [],
     at_log = [], at_mem = [5 \<mapsto> [0, 0, 0, 0]], at_drv = modem frames\<rparr>"
  unfolding modem_client_def at_init_def
  by (simp add: rcv_task_start_def modem_para_def drv_start_def los_driv_register_def drv_malloc_def drv_lock_def
    driv_match_def new_driv_def los_dev_open_def set_driv_def run_init_def run_open_def modem_op_def modem_def modem_cb_def)

lemma modem_ok: "driv_inv (modem frames)" "open_handle (Some 1) (modem frames)" "reads_ok (modem frames)" "reads_short (modem frames)"
  by (auto simp: modem_def drv_start_def driv_inv_def cb_ok_def modem_cb_def new_driv_def modem_para_def
    open_handle_def reads_ok_def reads_short_def modem_op_def split: if_splits list.splits)

lemma modem_client_inv: "at_inv (modem_client frames)"
  using modem_ok[of frames] by (auto simp: modem_client_eq at_inv_def oob_ok_def no_oob_def no_cmd_def)

section \<open>Properties\<close>

text \<open>C7. On a device whose reads store no more bytes than they are asked for, return their number, and never fill the receive buffer of 2048 bytes
  (\<open>reads_short\<close>), and in datagram mode, every command returns after any number of rounds of the receiver
  and writes no byte outside a buffer: no buffer of a caller changes its size, and the client is consistent and free for the
  next command (or was busy before). A frame that fills the buffer is left out: \<open>at_full_frame\<close> shows that it makes
  the receiver read past the end.\<close>

theorem at_command_safe:
  fixes s :: "'w at_cb"
  assumes "at_inv s" and "reads_short (at_drv s)" and "at_streammode s \<noteq> 1"
    and "\<And>a. respbuf = Some a \<Longrightarrow> buf_lens s a = Some n"
  shows "\<exists>ret s'. at_command cmd index respbuf n timeout rounds s = Some (ret, s') \<and> at_inv s' \<and> reads_short (at_drv s') \<and>
    buf_lens s' = buf_lens s \<and> (ac_cmdsync (at_cmd s) \<longrightarrow> ac_cmdsync (at_cmd s'))"
proof (cases cmd)
  case None
  then show ?thesis using assms(1,2) by (simp add: at_command_def)
next
  case c: (Some c)
  show ?thesis
  proof (cases index)
    case None
    obtain r d where "cmd_send c timeout s = Some (r, s\<lparr>at_drv := d\<rparr>)" "at_inv (s\<lparr>at_drv := d\<rparr>)" "reads_short d"
      by (rule send_inv[OF assms(1)]) (use assms(2) in blast)
    then show ?thesis using c None by (simp add: at_command_def buf_lens_def)
  next
    case (Some i)
    obtain r s1 where cr: "cmd_create c i respbuf n s = (r, s1)" by (cases "cmd_create c i respbuf n s")
    have k1: "at_inv s1" "at_devhandle s1 = at_devhandle s" "at_streammode s1 = at_streammode s" "buf_lens s1 = buf_lens s"
      "at_drv s1 = at_drv s"
      using create_keeps[OF assms(1,4) cr] by auto
    obtain r2 d where sd: "cmd_send c timeout s1 = Some (r2, s1\<lparr>at_drv := d\<rparr>)" "at_inv (s1\<lparr>at_drv := d\<rparr>)" "reads_short d"
      by (rule send_inv[OF k1(1)]) (use assms(2) k1(5) in simp)
    let ?s2 = "s1\<lparr>at_drv := d\<rparr>"
    obtain s3 where t: "rcv_task rounds ?s2 = Some s3" "at_keeps ?s2 s3"
      using rcv_task_keeps[OF sd(2)] assms(3) sd(3) k1 by auto
    have b2: "buf_lens ?s2 = buf_lens s" using k1(4) by (simp add: buf_lens_def)
    have i3: "at_inv s3" "buf_lens s3 = buf_lens s" "reads_short (at_drv s3)"
      using t(2) b2 sd(3) unfolding at_keeps_def buf_lens_def fun_eq_iff by auto
    then have "at_inv (s3\<lparr>at_cmd := (at_cmd s3)\<lparr>ac_respsync := False\<rparr>\<rparr>)"
      "buf_lens (s3\<lparr>at_cmd := (at_cmd s3)\<lparr>ac_respsync := False\<rparr>\<rparr>) = buf_lens s"
      by (simp_all add: at_inv_def buf_lens_def)
    note e = cmd_clear_keeps[OF this(1)] cmd_clear_keeps[OF i3(1)] cmd_clear_keeps[OF sd(2)] this(2) i3(2,3) b2 sd(3)
    show ?thesis
    proof (cases "r = 0")
      case False
      then have "s1 = s" "\<not> ac_cmdsync (at_cmd s)"
        using cr by (auto simp: cmd_create_def semp_pend_def Let_def split: if_splits prod.splits)
      then show ?thesis using c Some cr False assms(1,2) by (simp add: at_command_def)
    next
      case True
      then show ?thesis using c Some cr sd(1) t(1) e
        by (cases "r2 = 0"; cases "ac_respsync (at_cmd s3)") (simp_all add: at_command_def semp_pend_def)
    qed
  qed
qed

theorem at_command_safe_witness:
  "\<exists>ret s'. at_command (Some [65, 84]) (Some [79, 75]) (Some 5) 4 100 2 (modem_client [[82, 0], [79, 75]]) = Some (ret, s') \<and>
    at_inv s' \<and> ac_cmdsync (at_cmd s')"
proof -
  have "buf_lens (modem_client [[82, 0], [79, 75]]) a = Some 4" if "Some 5 = Some a" for a
    using that by (simp add: modem_client_eq buf_lens_def)
  moreover have "reads_short (at_drv (modem_client [[82, 0], [79, 75]]))" using modem_ok(4) by (simp add: modem_client_eq)
  ultimately show ?thesis
    using at_command_safe[OF modem_client_inv, of "[[82, 0], [79, 75]]" "Some 5" 4]
    by (fastforce simp: modem_client_eq)
qed

lemma at_lock_free: "at_locks s = [] \<Longrightarrow> at_lock s = (True, s)"
  by (cases s) (simp add: at_lock_def)

text \<open>The text of a frame without zero bytes, in the cleared buffer, is the frame.\<close>

lemma text_of_frame:
  "0 \<notin> set data \<Longrightarrow> 0 < n \<Longrightarrow> text_of (data @ replicate n 0) = Some data"
  by (auto simp: text_of_def takeWhile_append)

lemma strstr_iff: "strstr str index \<longleftrightarrow> sublist index str"
proof (induction str)
  case Nil
  then show ?case by simp
next
  case (Cons c cs)
  then show ?case by (auto simp: sublist_Cons_right)
qed

lemma oob_no_match:
  "\<forall>oob \<in> set oobs. oi_func oob = None \<or> (\<exists>idx. oi_index oob = Some idx \<and> mem_eq idx (at_rcvbuf s) (oi_len oob) = Some False) \<Longrightarrow>
     oob_match_list oobs len s = Some (-1, s)"
  by (induction oobs) (auto split: option.splits)

text \<open>The response: when the command was sent and the next frame is no out-of-band data and contains the
  index, the command returns the number of bytes it copied, the smaller of the sizes of the frame and of the
  caller's buffer; the buffer starts with the frame and keeps the rest of its bytes, and the client is idle again.\<close>

theorem at_command_response:
  fixes s :: "'w at_cb"
  assumes "ac_cmdsync (at_cmd s)" and "at_locks s = []" and "at_streammode s \<noteq> 1" and "at_devhandle s = Some h"
    and "length (at_rcvbuf s) = CONFIG_AT_RECVMAXLEN"
    and "los_dev_write (Some h) 0 (Some cmd) timeout (at_drv s) = Some (w, d1)" and "0 < w"
    and "los_dev_read (Some h) 0 True (of_nat CONFIG_AT_RECVMAXLEN) cn_osal_timeout_forever d1 = Some ((int (length data), data), d2)"
    and "data \<noteq> []" and "length data < CONFIG_AT_RECVMAXLEN" and "0 \<notin> set data" and "sublist index data"
    and "\<forall>oob \<in> set (at_oob s). oi_func oob = None \<or> (\<exists>idx. oi_index oob = Some idx \<and>
      mem_eq idx (data @ replicate (CONFIG_AT_RECVMAXLEN - length data) 0) (oi_len oob) = Some False)"
    and "at_mem s a = Some buf" and "length buf = n"
  shows "\<exists>s'. at_command (Some cmd) (Some index) (Some a) n timeout 1 s = Some (int (min (length data) n), s') \<and>
    at_mem s' = (at_mem s)(a \<mapsto> take n data @ drop (length data) buf) \<and>
    at_cmd s' = no_cmd\<lparr>ac_cmdsync := True\<rparr>"
proof -
  define rbuf where "rbuf = data @ replicate (CONFIG_AT_RECVMAXLEN - length data) 0"
  define s1 where "s1 = s\<lparr>at_cmd := (at_cmd s)\<lparr>ac_cmdsync := False, ac_cmd := Some cmd, ac_index := Some index,
    ac_respbuf := Some a, ac_respbuflen := n, ac_respsync := False\<rparr>\<rparr>"
  define s2 where "s2 = s1\<lparr>at_drv := d2, at_rcvbuf := rbuf, at_rcvlen := int (length data)\<rparr>"
  have cr: "cmd_create cmd index (Some a) n s = (0, s1)"
    using assms(1,2) by (simp add: cmd_create_def semp_pend_def at_lock_free s1_def)
  have sd: "cmd_send cmd timeout s1 = Some (0, s1\<lparr>at_drv := d1\<rparr>)"
    using assms(4,6,7) by (simp add: cmd_send_def s1_def)
  have rd: "resp_rcv 0 CONFIG_AT_RECVMAXLEN cn_osal_timeout_forever (clear_rcvbuf (s1\<lparr>at_drv := d1\<rparr>)) =
      Some (int (length data), s1\<lparr>at_drv := d2, at_rcvbuf := rbuf\<rparr>)"
    using assms(4,8,10) by (simp add: resp_rcv_def clear_rcvbuf_def s1_def rbuf_def)
  have om: "oob_match (length data) s2 = Some (-1, s2)"
    unfolding oob_match_def by (rule oob_no_match) (use assms(13) in \<open>simp add: s2_def s1_def rbuf_def\<close>)
  have tx: "text_of rbuf = Some data" using assms(10,11) by (simp add: rbuf_def text_of_frame)
  have cp: "copy_resp buf (min (length data) n) rbuf = Some (take n data @ drop (length data) buf)"
  proof (cases "length data \<le> n")
    case True
    then show ?thesis using assms(15) by (simp add: copy_resp_def rbuf_def)
  next
    case False
    then show ?thesis using assms(10,15) by (simp add: copy_resp_def rbuf_def)
  qed
  let ?s3 = "s2\<lparr>at_mem := (at_mem s)(a \<mapsto> take n data @ drop (length data) buf),
    at_cmd := (at_cmd s1)\<lparr>ac_respdatalen := min (length data) n, ac_respsync := True\<rparr>\<rparr>"
  have "cmd_match (length data) s2 = Some (0, ?s3)"
    using assms(2,12,14) tx cp at_lock_free[of s2]
    by (cases "n < length data") (simp_all add: cmd_match_def s2_def s1_def strstr_iff min_def Let_def)
  then have "rcv_round (s1\<lparr>at_drv := d1\<rparr>) = Some ?s3"
    using assms(3,9) rd om by (simp add: rcv_round_def s2_def s1_def)
  then have "rcv_task 1 (s1\<lparr>at_drv := d1\<rparr>) = Some ?s3" using assms(4) by (simp add: s1_def)
  then show ?thesis using cr sd assms(2)
    by (simp add: at_command_def semp_pend_def cmd_clear_def at_lock_free s1_def s2_def no_cmd_def)
qed

theorem at_command_response_witness:
  "\<exists>s'. at_command (Some [65, 84]) (Some [79]) (Some 5) 4 100 1 (modem_client [[79, 75, 13, 10, 33]]) = Some (4, s') \<and>
    at_mem s' = [5 \<mapsto> [79, 75, 13, 10]] \<and> at_cmd s' = no_cmd\<lparr>ac_cmdsync := True\<rparr>"
proof -
  let ?s = "modem_client [[79, 75, 13, 10, 33]]"
  have w: "los_dev_write (Some 1) 0 (Some [65, 84]) 100 (at_drv ?s) = Some (2, (at_drv ?s)\<lparr>lm_drv := [0 \<mapsto> modem_cb\<lparr>dr_total_write := 2\<rparr>]\<rparr>)"
    by (simp add: modem_client_eq los_dev_write_def modem_def drv_start_def modem_cb_def new_driv_def modem_op_def set_driv_def)
  have r: "los_dev_read (Some 1) 0 True (of_nat CONFIG_AT_RECVMAXLEN) cn_osal_timeout_forever
      ((at_drv ?s)\<lparr>lm_drv := [0 \<mapsto> modem_cb\<lparr>dr_total_write := 2\<rparr>]\<rparr>) =
    Some ((int (length [79, 75, 13, 10, 33]), [79, 75, 13, 10, 33]), (at_drv ?s)\<lparr>lm_drv := [0 \<mapsto> modem_cb
      \<lparr>dr_total_write := 2, dr_total_read := 5\<rparr>], lm_world := []\<rparr>)"
    by (simp add: modem_client_eq los_dev_read_def modem_def drv_start_def modem_cb_def new_driv_def modem_op_def set_driv_def)
  have m: "at_mem ?s 5 = Some [0, 0, 0, 0]" by (simp add: modem_client_eq)
  show ?thesis
    using at_command_response[of ?s 1 "[65, 84]" 100 2 _ "[79, 75, 13, 10, 33]", OF _ _ _ _ _ w _ r, of "[79]" 5, OF _ _ _ _ _ _ _ _ _ _ _ m, of 4]
    by (simp add: modem_client_eq no_cmd_def no_oob_def sublist_Cons_right)
qed

text \<open>Out-of-band data goes to the first handler of the table whose index the frame starts with, and to no
  other; the pending command does not see the frame.\<close>

theorem at_oob_dispatch:
  assumes "at_streammode s \<noteq> 1" and "at_devhandle s = Some h" and "length (at_rcvbuf s) = CONFIG_AT_RECVMAXLEN"
    and "los_dev_read (Some h) 0 True (of_nat CONFIG_AT_RECVMAXLEN) cn_osal_timeout_forever (at_drv s) =
      Some ((int (length data), data), d)"
    and "length data \<le> CONFIG_AT_RECVMAXLEN" and "at_oob s = before @ oob # after"
    and "oi_func oob = Some f" and "oi_index oob = Some (take (oi_len oob) data)"
    and "0 < oi_len oob" and "oi_len oob \<le> length data"
    and "\<forall>o' \<in> set before. oi_func o' = None \<or> (\<exists>idx. oi_index o' = Some idx \<and>
      mem_eq idx (data @ replicate (CONFIG_AT_RECVMAXLEN - length data) 0) (oi_len o') = Some False)"
  shows "\<exists>s'. rcv_round s = Some s' \<and> at_log s' = at_log s @ [(f, oi_args oob, data)] \<and> at_cmd s' = at_cmd s \<and>
    at_mem s' = at_mem s"
proof -
  define rbuf where "rbuf = data @ replicate (CONFIG_AT_RECVMAXLEN - length data) 0"
  define s1 where "s1 = s\<lparr>at_drv := d, at_rcvbuf := rbuf, at_rcvlen := int (length data)\<rparr>"
  have rd: "resp_rcv 0 CONFIG_AT_RECVMAXLEN cn_osal_timeout_forever (clear_rcvbuf s) =
      Some (int (length data), s\<lparr>at_drv := d, at_rcvbuf := rbuf\<rparr>)"
    using assms(2,4,5) by (simp add: resp_rcv_def clear_rcvbuf_def rbuf_def)
  have eq: "mem_eq (take (oi_len oob) data) rbuf (oi_len oob) = Some True"
    using assms(5,10) by (simp add: mem_eq_def rbuf_def)
  have "oob_match_list (os @ oob # after) len s1 = Some (0, s1\<lparr>at_log := at_log s1 @ [(f, oi_args oob, take len rbuf)]\<rparr>)"
    if "\<forall>o' \<in> set os. oi_func o' = None \<or> (\<exists>idx. oi_index o' = Some idx \<and> mem_eq idx rbuf (oi_len o') = Some False)" for os len
    using that
  proof (induction os)
    case Nil
    then show ?case using assms(7,8) eq by (simp add: s1_def)
  next
    case (Cons o' os)
    then show ?case by (auto simp: s1_def split: option.splits)
  qed
  then have "oob_match (length data) s1 = Some (0, s1\<lparr>at_log := at_log s1 @ [(f, oi_args oob, take (length data) rbuf)]\<rparr>)"
    using assms(6,11) by (simp add: oob_match_def s1_def rbuf_def)
  then show ?thesis using assms(1,9,10) rd by (auto simp: rcv_round_def s1_def rbuf_def Let_def)
qed

text \<open>A frame that fills the receive buffer and has no zero byte has no terminator: while a command waits for its response, \<^verbatim>\<open>strstr\<close> reads
  past the end of the buffer.\<close>

theorem at_full_frame:
  assumes "at_locks s = []" and "at_streammode s \<noteq> 1" and "at_devhandle s = Some h" and "length (at_rcvbuf s) = CONFIG_AT_RECVMAXLEN"
    and "los_dev_read (Some h) 0 True (of_nat CONFIG_AT_RECVMAXLEN) cn_osal_timeout_forever (at_drv s) =
      Some ((int (length data), data), d)"
    and "length data = CONFIG_AT_RECVMAXLEN" and "0 \<notin> set data" and "ac_index (at_cmd s) = Some index"
    and "\<forall>oob \<in> set (at_oob s). oi_func oob = None \<or> (\<exists>idx. oi_index oob = Some idx \<and> mem_eq idx data (oi_len oob) = Some False)"
  shows "rcv_round s = None"
proof -
  define s1 where "s1 = s\<lparr>at_drv := d, at_rcvbuf := data, at_rcvlen := int (length data)\<rparr>"
  have rd: "resp_rcv 0 CONFIG_AT_RECVMAXLEN cn_osal_timeout_forever (clear_rcvbuf s) =
      Some (int (length data), s\<lparr>at_drv := d, at_rcvbuf := data\<rparr>)"
    using assms(3,5,6) by (simp add: resp_rcv_def clear_rcvbuf_def)
  have om: "oob_match (length data) s1 = Some (-1, s1)"
    unfolding oob_match_def by (rule oob_no_match) (use assms(9) in \<open>simp add: s1_def\<close>)
  have "cmd_match (length data) s1 = None"
    using assms(1,7,8) at_lock_free[of s1] by (simp add: cmd_match_def s1_def text_of_def Let_def)
  then show ?thesis using assms(2,6) rd om by (simp add: rcv_round_def s1_def)
qed

theorem at_full_frame_witness:
  "rcv_round ((modem_client [])\<lparr>at_cmd := no_cmd\<lparr>ac_index := Some [79]\<rparr>,
     at_drv := (modem [])\<lparr>lm_drv := [0 \<mapsto> modem_cb\<lparr>dr_op := modem_op
       \<lparr>op_read := Some (\<lambda>_ _ _ _ w. ((int CONFIG_AT_RECVMAXLEN, replicate CONFIG_AT_RECVMAXLEN 1), w))\<rparr>\<rparr>]\<rparr>\<rparr>) = None"
  (is "rcv_round ?s = None")
proof -
  obtain d where r: "los_dev_read (Some 1) 0 True (of_nat CONFIG_AT_RECVMAXLEN) cn_osal_timeout_forever (at_drv ?s) =
      Some ((int (length (replicate CONFIG_AT_RECVMAXLEN (1::u8))), replicate CONFIG_AT_RECVMAXLEN 1), d)"
    by (simp add: los_dev_read_def modem_def drv_start_def modem_cb_def new_driv_def modem_op_def set_driv_def)
  show ?thesis
    by (rule at_full_frame[OF _ _ _ _ r]) (simp_all add: modem_client_eq no_oob_def)
qed

text \<open>Stream mode overflows the receive buffer: the device is offered the whole length of the buffer at
  the place behind the bytes that are kept, so a frame longer than the rest is written past the end.\<close>

theorem at_stream_overflow:
  assumes "at_streammode s = 1" and "0 < at_rcvlen s" and "length (at_rcvbuf s) = CONFIG_AT_RECVMAXLEN"
    and "los_dev_read (at_devhandle s) 0 True (of_nat CONFIG_AT_RECVMAXLEN) cn_osal_timeout_forever (at_drv s) =
      Some ((int (length data), data), d)"
    and "int CONFIG_AT_RECVMAXLEN < at_rcvlen s + int (length data)" and "at_rcvlen s \<le> int CONFIG_AT_RECVMAXLEN"
  shows "rcv_round s = None"
proof -
  have "\<not> nat (at_rcvlen s) + length data \<le> CONFIG_AT_RECVMAXLEN" "data \<noteq> []" using assms(2,5,6) by auto
  then show ?thesis using assms(1-4) by (simp add: rcv_round_def resp_rcv_def)
qed

theorem at_stream_overflow_witness:
  "rcv_round ((modem_client [replicate 60 1])\<lparr>at_streammode := 1, at_rcvlen := 2000\<rparr>) = None"
proof (rule at_stream_overflow[where data = "replicate 60 1" and d = "(modem [])\<lparr>lm_drv := [0 \<mapsto> modem_cb\<lparr>dr_total_read := 60\<rparr>]\<rparr>"])
  show "los_dev_read (at_devhandle ((modem_client [replicate 60 1])\<lparr>at_streammode := 1, at_rcvlen := 2000\<rparr>)) 0 True
      (of_nat CONFIG_AT_RECVMAXLEN) cn_osal_timeout_forever
      (at_drv ((modem_client [replicate 60 1])\<lparr>at_streammode := 1, at_rcvlen := 2000\<rparr>)) =
    Some ((int (length (replicate 60 (1::u8))), replicate 60 1), (modem [])\<lparr>lm_drv := [0 \<mapsto> modem_cb\<lparr>dr_total_read := 60\<rparr>]\<rparr>)"
    by (simp add: modem_client_eq los_dev_read_def modem_def drv_start_def modem_cb_def new_driv_def modem_op_def set_driv_def)
qed (simp_all add: modem_client_eq)

theorem at_oob_dispatch_witness:
  "\<exists>s'. rcv_round (snd (at_oobregister None (Some [43]) 1 (Some 7) 9 (modem_client [[43, 1]]))) = Some s' \<and>
    at_log s' = [(7, 9, [43, 1])]"
proof -
  let ?s = "snd (at_oobregister None (Some [43]) 1 (Some 7) 9 (modem_client [[43, 1]]))"
  let ?o = "\<lparr>oi_name = None, oi_func = Some 7, oi_args = 9, oi_index = Some [43], oi_len = 1\<rparr>"
  have o: "?s = (modem_client [[43, 1]])\<lparr>at_oob := [] @ ?o # replicate 5 no_oob\<rparr>"
    by (simp add: at_oobregister_def modem_client_eq no_oob_def numeral_eq_Suc)
  have r: "los_dev_read (Some 1) 0 True (of_nat CONFIG_AT_RECVMAXLEN) cn_osal_timeout_forever (at_drv ?s) =
    Some ((int (length [43, 1]), [43, 1]), (modem [])\<lparr>lm_drv := [0 \<mapsto> modem_cb\<lparr>dr_total_read := 2\<rparr>]\<rparr>)"
    unfolding o
    by (simp add: modem_client_eq los_dev_read_def modem_def drv_start_def modem_cb_def new_driv_def modem_op_def set_driv_def)
  have "\<exists>s'. rcv_round ?s = Some s' \<and> at_log s' = at_log ?s @ [(7, oi_args ?o, [43, 1])] \<and> at_cmd s' = at_cmd ?s \<and>
      at_mem s' = at_mem ?s"
    by (rule at_oob_dispatch[OF _ _ _ r, where before = "[]" and after = "replicate 5 no_oob"])
      (simp_all only: o, simp_all add: modem_client_eq)
  then show ?thesis unfolding o by (auto simp: modem_client_eq)
qed

end
