(* ===== verification/CoapMsg.thy ===== *)
theory CoapMsg
  imports Prelude
begin

text \<open>
  The messages of the CoAP library \<^verbatim>\<open>lite_coap/src/coap_core.c\<close>: the parser of a received packet, the encoder, and
  the functions that build a message. The linked list of options is the list of its elements. A
  pointer into a buffer is the buffer with an offset, and an access outside it is \<open>None\<close>; the received
  packet is the list of exactly the bytes that were received. The outcomes of \<^verbatim>\<open>litecoap_malloc\<close> are an oracle that is passed on;
  freed memory is not tracked, for every message has one owner.
\<close>

section \<open>Data\<close>

abbreviation "COAP_PROTO_UDP \<equiv> 1 :: u8"
abbreviation "COAP_PROTO_DTLS \<equiv> 2 :: u8"
abbreviation "COAP_PROTO_TCP \<equiv> 3 :: u8"
abbreviation "COAP_PROTO_TLS \<equiv> 4 :: u8"
abbreviation "COAP_MESSAGE_CON \<equiv> 0 :: u8"
abbreviation "COAP_MESSAGE_NON \<equiv> 1 :: u8"
abbreviation "COAP_MESSAGE_ACK \<equiv> 2 :: u8"
abbreviation "COAP_MESSAGE_RST \<equiv> 3 :: u8"
abbreviation "COAP_MAX_TOKEN_LEN \<equiv> 8 :: u8"

abbreviation "LITECOAP_OK \<equiv> 0 :: int"
abbreviation "LITECOAP_PARAM_NULL \<equiv> -1 :: int"
abbreviation "LITECOAP_BUF_LEN_TOO_SMALL \<equiv> -2 :: int"
abbreviation "LITECOAP_VER_ERR \<equiv> -3 :: int"
abbreviation "LITECOAP_TOKEN_LEN_ERR \<equiv> -4 :: int"
abbreviation "LITECOAP_OPTION_DELTA_ERR \<equiv> -5 :: int"
abbreviation "LITECOAP_OPTION_LEN_ERR \<equiv> -6 :: int"
abbreviation "LITECOAP_OPTION_OVERRUN_ERR \<equiv> -7 :: int"
abbreviation "LITECOAP_CONTEX_BUF_NULL \<equiv> -9 :: int"
abbreviation "LITECOAP_SND_LEN_TOO_BIG \<equiv> -10 :: int"
abbreviation "LITECOAP_HEADER_ERR \<equiv> -12 :: int"
abbreviation "LITECOAP_MALLOC_FAILED \<equiv> -12 :: int"
abbreviation "LITECOAP_TOKEN_ERR \<equiv> -13 :: int"
abbreviation "LITECOAP_OPTION_ERR \<equiv> -14 :: int"

definition udp_like :: "u8 \<Rightarrow> bool" where
  "udp_like proto \<longleftrightarrow> proto = COAP_PROTO_UDP \<or> proto = COAP_PROTO_DTLS"

definition tcp_like :: "u8 \<Rightarrow> bool" where
  "tcp_like proto \<longleftrightarrow> proto = COAP_PROTO_TCP \<or> proto = COAP_PROTO_TLS"

record coap_header =
  ch_ver :: u8
  ch_t :: u8
  ch_tkl :: u8
  ch_code :: u8
  ch_msgid0 :: u8
  ch_msgid1 :: u8

text \<open>\<open>co_value\<close> is the block of the value; \<open>co_optlen\<close> its length member.\<close>

record coap_option =
  co_optnum :: u16
  co_optlen :: u16
  co_value :: bytes

text \<open>The token block has the length of its \<^verbatim>\<open>tklen\<close>, the payload block that of \<^verbatim>\<open>payloadlen\<close> unless it is \<open>None\<close>.\<close>

record coap_msg =
  cm_head :: coap_header
  cm_tok :: "bytes option"
  cm_option :: "coap_option list"
  cm_optcnt :: u16
  cm_marker :: u8
  cm_payload :: "bytes option"

definition zero_msg :: coap_msg where
  "zero_msg = \<lparr>cm_head = \<lparr>ch_ver = 0, ch_t = 0, ch_tkl = 0, ch_code = 0, ch_msgid0 = 0, ch_msgid1 = 0\<rparr>,
     cm_tok = None, cm_option = [], cm_optcnt = 0, cm_marker = 0, cm_payload = None\<rparr>"

section \<open>The parser\<close>

definition parse_header_size :: "bytes \<Rightarrow> u8 \<Rightarrow> nat option" where
  "parse_header_size buf proto =
     (if tcp_like proto
      then do { b \<leftarrow> byte_at buf 0;
                let len = drop_bit 4 b;
                Some (if len < 13 then 2 else if len = 13 then 3 else if len = 14 then 4 else 6) }
      else Some (if udp_like proto then 4 else 0))"

definition parse_header :: "coap_msg \<Rightarrow> bytes \<Rightarrow> u8 \<Rightarrow> (int \<times> coap_msg) option" where
  "parse_header msg buf proto =
     do { header_size \<leftarrow> parse_header_size buf proto;
          if length buf < header_size then Some (LITECOAP_BUF_LEN_TOO_SMALL, msg)
          else if udp_like proto
          then do {
            b0 \<leftarrow> byte_at buf 0;
            let ver = drop_bit 6 (b0 AND 0xC0);
            if ver \<noteq> 1 then Some (LITECOAP_VER_ERR, msg\<lparr>cm_head := (cm_head msg)\<lparr>ch_ver := ver\<rparr>\<rparr>)
            else do {
              b1 \<leftarrow> byte_at buf 1; b2 \<leftarrow> byte_at buf 2; b3 \<leftarrow> byte_at buf 3;
              Some (LITECOAP_OK, msg\<lparr>cm_head :=
                \<lparr>ch_ver = ver, ch_t = drop_bit 4 (b0 AND 0x30), ch_tkl = b0 AND 0x0F, ch_code = b1,
                 ch_msgid0 = b2, ch_msgid1 = b3\<rparr>\<rparr>) } }
          else if tcp_like proto
          then do {
            b0 \<leftarrow> byte_at buf 0; code \<leftarrow> byte_at buf (header_size - 1);
            Some (LITECOAP_OK, msg\<lparr>cm_head := (cm_head msg)\<lparr>ch_t := COAP_MESSAGE_CON, ch_tkl := b0 AND 0x0F,
              ch_code := code, ch_msgid0 := 0, ch_msgid1 := 0\<rparr>\<rparr>) }
          else Some (LITECOAP_OK, msg) }"

definition parse_token :: "coap_msg \<Rightarrow> bytes \<Rightarrow> bool list \<Rightarrow> (int \<times> coap_msg \<times> bool list) option" where
  "parse_token msg buf os =
     (let tkl = ch_tkl (cm_head msg) in
      if tkl = 0 then Some (LITECOAP_OK, msg\<lparr>cm_tok := None\<rparr>, os)
      else if tkl \<le> COAP_MAX_TOKEN_LEN
      then
        if 4 + unat tkl > length buf then Some (LITECOAP_BUF_LEN_TOO_SMALL, msg, os)
        else
          (case (if cm_tok msg = None then alloc os else (True, os)) of
             (False, os) \<Rightarrow> Some (LITECOAP_MALLOC_FAILED, msg, os)
           | (True, os) \<Rightarrow>
               (case alloc os of
                  (True, os) \<Rightarrow> do { tok \<leftarrow> fetch 4 (unat tkl) buf;
                                    Some (LITECOAP_OK, msg\<lparr>cm_tok := Some tok\<rparr>, os) }
                | (False, os) \<Rightarrow> Some (LITECOAP_OK, msg\<lparr>cm_tok := None\<rparr>, os)))
      else Some (LITECOAP_TOKEN_LEN_ERR, msg, os))"

text \<open>
  The two extended fields of an option, which are read the same way: the value of the nibble or of the bytes that
  follow, the new place \<open>p\<close> and the bytes of the option's head so far; \<open>Inl\<close> is an error.
\<close>

definition parse_ext ::
  "bytes \<Rightarrow> nat \<Rightarrow> nat \<Rightarrow> nat \<Rightarrow> u16 \<Rightarrow> int \<Rightarrow> (int + u16 \<times> nat \<times> nat) option" where
  "parse_ext buf p buflen headlen nib err =
     (if nib = 13
      then if buflen < headlen + 1 then Some (Inl LITECOAP_BUF_LEN_TOO_SMALL)
           else do { b \<leftarrow> byte_at buf (p + 1); Some (Inr (ucast b + 13, p + 1, headlen + 1)) }
      else if nib = 14
      then if buflen < headlen + 2 then Some (Inl LITECOAP_BUF_LEN_TOO_SMALL)
           else do { b1 \<leftarrow> byte_at buf (p + 1); b2 \<leftarrow> byte_at buf (p + 2);
                     Some (Inr ((push_bit 8 (ucast b1) OR ucast b2) + 269, p + 2, headlen + 2)) }
      else if nib = 15 then Some (Inl err)
      else Some (Inr (nib, p, headlen)))"

text \<open>The head of the option at \<open>p\<close>: its delta, its length and the place of its value, which is inside the packet.\<close>

definition parse_option_head :: "bytes \<Rightarrow> nat \<Rightarrow> (int + u16 \<times> u16 \<times> nat) option" where
  "parse_option_head buf p0 =
     (let buflen = length buf - p0 in
      if buflen < 1 then Some (Inl LITECOAP_BUF_LEN_TOO_SMALL)
      else do {
        b \<leftarrow> byte_at buf p0;
        d \<leftarrow> parse_ext buf p0 buflen 1 (ucast (drop_bit 4 (b AND 0xF0))) LITECOAP_OPTION_DELTA_ERR;
        case d of
          Inl err \<Rightarrow> Some (Inl err)
        | Inr (delta, p, headlen) \<Rightarrow> do {
            l \<leftarrow> parse_ext buf p buflen headlen (ucast (b AND 0x0F)) LITECOAP_OPTION_LEN_ERR;
            case l of
              Inl err \<Rightarrow> Some (Inl err)
            | Inr (len, p, headlen) \<Rightarrow>
                if p + 1 + unat len > p0 + buflen then Some (Inl LITECOAP_OPTION_LEN_ERR)
                else Some (Inr (delta, len, p + 1)) } })"

definition parse_one_option ::
  "coap_msg \<Rightarrow> u16 \<Rightarrow> bytes \<Rightarrow> nat \<Rightarrow> bool list \<Rightarrow> (int \<times> coap_msg \<times> u16 \<times> nat \<times> bool list) option" where
  "parse_one_option msg sumdelta buf p0 os =
     do { h \<leftarrow> parse_option_head buf p0;
          case h of
            Inl err \<Rightarrow> Some (err, msg, sumdelta, p0, os)
          | Inr (delta, len, p) \<Rightarrow>
              (case alloc os of
                 (False, os) \<Rightarrow> Some (LITECOAP_MALLOC_FAILED, msg, sumdelta, p0, os)
               | (True, os) \<Rightarrow>
                   (case (if len > 0 then alloc os else (True, os)) of
                      (False, os) \<Rightarrow> Some (LITECOAP_MALLOC_FAILED, msg, sumdelta, p0, os)
                    | (True, os) \<Rightarrow> do {
                        val \<leftarrow> fetch p (unat len) buf;
                        let opt = \<lparr>co_optnum = delta + sumdelta, co_optlen = len, co_value = val\<rparr>;
                        Some (LITECOAP_OK, msg\<lparr>cm_optcnt := cm_optcnt msg + 1, cm_option := cm_option msg @ [opt]\<rparr>,
                              sumdelta + delta, p + unat len, os) })) }"

lemma parse_ext_place:
  "parse_ext buf p buflen headlen nib err = Some (Inr (v, p', h')) \<Longrightarrow> p \<le> p'"
  by (auto simp: parse_ext_def bind_eq_Some_conv split: if_splits)

lemma parse_ext_err:
  "parse_ext buf p buflen headlen nib err = Some (Inl e) \<Longrightarrow> err < 0 \<Longrightarrow> e < 0"
  by (auto simp: parse_ext_def bind_eq_Some_conv split: if_splits)

lemma parse_option_head_place:
  assumes "parse_option_head buf p0 = Some (Inr (delta, len, p))"
  shows "p0 < p \<and> p + unat len \<le> length buf"
proof -
  obtain b d where d: "byte_at buf p0 = Some b" "p0 < length buf"
    "parse_ext buf p0 (length buf - p0) 1 (ucast (drop_bit 4 (b AND 0xF0))) LITECOAP_OPTION_DELTA_ERR = Some d"
    using assms by (auto simp: parse_option_head_def Let_def bind_eq_Some_conv split: if_splits)
  obtain dv p1 h1 where d': "d = Inr (dv, p1, h1)"
    using assms d by (auto simp: parse_option_head_def Let_def split: sum.splits)
  obtain l where l: "parse_ext buf p1 (length buf - p0) h1 (ucast (b AND 0x0F)) LITECOAP_OPTION_LEN_ERR = Some l"
    using assms d d' by (auto simp: parse_option_head_def Let_def bind_eq_Some_conv)
  obtain lv p2 h2 where l': "l = Inr (lv, p2, h2)"
    using assms d d' l by (cases l) (auto simp: parse_option_head_def Let_def)
  have "p0 \<le> p1" "p1 \<le> p2" using parse_ext_place d(3) l d' l' by blast+
  moreover have "p = p2 + 1" "len = lv" "p2 + 1 + unat lv \<le> length buf"
    using assms d d' l l' by (auto simp: parse_option_head_def Let_def split: if_splits)
  ultimately show ?thesis by auto
qed

lemma parse_option_head_err:
  assumes "parse_option_head buf p0 = Some (Inl e)"
  shows "e < 0"
proof (cases "p0 < length buf")
  case True
  then obtain b d where d: "byte_at buf p0 = Some b"
    "parse_ext buf p0 (length buf - p0) 1 (ucast (drop_bit 4 (b AND 0xF0))) LITECOAP_OPTION_DELTA_ERR = Some d"
    using assms by (auto simp: parse_option_head_def Let_def bind_eq_Some_conv)
  show ?thesis
  proof (cases d)
    case (Inl x)
    then show ?thesis using assms d True parse_ext_err[of buf p0] by (auto simp: parse_option_head_def Let_def)
  next
    case (Inr a)
    obtain v p h where a: "a = (v, p, h)" by (cases a)
    obtain l where l: "parse_ext buf p (length buf - p0) h (ucast (b AND 0x0F)) LITECOAP_OPTION_LEN_ERR = Some l"
      using assms d True Inr a by (auto simp: parse_option_head_def Let_def bind_eq_Some_conv)
    then show ?thesis using assms d True Inr a parse_ext_err[of buf p]
      by (cases l) (auto simp: parse_option_head_def Let_def split: if_splits)
  qed
qed (use assms in \<open>simp add: parse_option_head_def Let_def\<close>)

lemma parse_one_option_moves:
  assumes "parse_one_option msg sumdelta buf p0 os = Some (0, msg', sd', p', os')"
  shows "p0 < p' \<and> p' \<le> length buf"
proof -
  obtain h where h: "parse_option_head buf p0 = Some h" using assms by (auto simp: parse_one_option_def bind_eq_Some_conv)
  show ?thesis
  proof (cases h)
    case (Inl e)
    then show ?thesis using assms h parse_option_head_err[of buf p0 e] by (simp add: parse_one_option_def)
  next
    case (Inr a)
    obtain delta len p where a: "a = (delta, len, p)" by (cases a)
    then have "p0 < p" "p + unat len \<le> length buf" using parse_option_head_place h Inr by blast+
    then show ?thesis using assms h Inr a
      by (auto simp: parse_one_option_def bind_eq_Some_conv split: prod.splits bool.splits if_splits)
  qed
qed

text \<open>The loop over the options: every option that is accepted takes at least a byte.\<close>

function opts_loop ::
  "coap_msg \<Rightarrow> u16 \<Rightarrow> bytes \<Rightarrow> nat \<Rightarrow> bool list \<Rightarrow> (int \<times> coap_msg \<times> nat \<times> bool list) option" where
  "opts_loop msg sumdelta buf p os =
     (if p < length buf \<and> buf ! p \<noteq> 0xFF
      then (case parse_one_option msg sumdelta buf p os of
              None \<Rightarrow> None
            | Some (ret, msg, sumdelta, p', os) \<Rightarrow>
                if ret \<noteq> 0 then Some (ret, msg, p', os) else opts_loop msg sumdelta buf p' os)
      else Some (0, msg, p, os))"
  by pat_completeness auto
termination
  by (relation "measure (\<lambda>(msg, sd, buf, p, os). length buf - p)") (auto dest!: parse_one_option_moves)

declare opts_loop.simps [simp del]

definition parse_opts_payload :: "coap_msg \<Rightarrow> bytes \<Rightarrow> bool list \<Rightarrow> (int \<times> coap_msg \<times> bool list) option" where
  "parse_opts_payload msg buf os =
     (if length buf < 4 then Some (LITECOAP_PARAM_NULL, msg, os)
      else
        let p = 4 + unat (ch_tkl (cm_head msg)) in
        if p > length buf then Some (LITECOAP_OPTION_OVERRUN_ERR, msg, os)
        else do {
          (ret, msg, p, os) \<leftarrow> opts_loop msg 0 buf p os;
          if ret \<noteq> 0 then Some (ret, msg, os)
          else if p + 1 < length buf \<and> buf ! p = 0xFF
          then (case alloc os of
                  (True, os) \<Rightarrow> do { pl \<leftarrow> fetch (p + 1) (length buf - (p + 1)) buf;
                                    Some (LITECOAP_OK, msg\<lparr>cm_payload := Some pl, cm_marker := 0xFF\<rparr>, os) }
                | (False, os) \<Rightarrow> Some (LITECOAP_OK, msg\<lparr>cm_payload := None, cm_marker := 0xFF\<rparr>, os))
          else Some (LITECOAP_OK, msg\<lparr>cm_payload := None, cm_marker := 0xFF\<rparr>, os) })"

text \<open>The three steps as \<^verbatim>\<open>litecoap_read\<close> makes them on a packet; \<open>Inl\<close> is the error it returns.\<close>

definition parse_packet :: "bytes \<Rightarrow> u8 \<Rightarrow> bool list \<Rightarrow> ((int + coap_msg) \<times> bool list) option" where
  "parse_packet buf proto os =
     (case alloc os of
        (False, os) \<Rightarrow> Some (Inl LITECOAP_MALLOC_FAILED, os)
      | (True, os) \<Rightarrow> do {
          (ret, msg) \<leftarrow> parse_header zero_msg buf proto;
          if ret < 0 then Some (Inl LITECOAP_HEADER_ERR, os)
          else do {
            (ret, msg, os) \<leftarrow> parse_token msg buf os;
            if ret < 0 then Some (Inl LITECOAP_TOKEN_ERR, os)
            else do {
              (ret, msg, os) \<leftarrow> parse_opts_payload msg buf os;
              if ret < 0 then Some (Inl LITECOAP_OPTION_ERR, os) else Some (Inr msg, os) } } })"

section \<open>The encoder\<close>

text \<open>The nibble and the extended part of an option delta or length.\<close>

definition opt_nibble :: "int \<Rightarrow> int" where
  "opt_nibble n = (if n < 13 then n else if n < 269 then 13 else 14)"

definition opt_extra :: "int \<Rightarrow> int" where
  "opt_extra n = (if n < 13 then 0 else if n < 269 then n - 13 else n - 269 - 14)"

definition extra_bytes :: "int \<Rightarrow> int \<Rightarrow> bytes" where
  "extra_bytes nib ex =
     (if nib = 13 then [word_of_int ex] else [])
     @ (if nib = 14 then [word_of_int (drop_bit 8 (ex AND 0xffff)), word_of_int (ex AND 0xff)] else [])"

text \<open>\<open>len\<close> is what the caller's variable holds before; it stays when the call fails.\<close>

definition option_len :: "coap_option \<Rightarrow> int \<Rightarrow> int \<Rightarrow> int" where
  "option_len opt lastoptval len =
     (if uint (co_optnum opt) < lastoptval then len
      else
        let delta = opt_nibble (uint (co_optnum opt) - lastoptval); optlen = opt_nibble (uint (co_optlen opt))
        in 1 + (if delta = 13 then 1 else 0) + (if delta = 14 then 2 else 0)
             + (if optlen = 13 then 1 else 0) + (if optlen = 14 then 2 else 0) + uint (co_optlen opt))"

definition option_head :: "int \<Rightarrow> int \<Rightarrow> bytes" where
  "option_head d l =
     [push_bit 4 (word_of_int (opt_nibble d)) OR (word_of_int (opt_nibble l) AND 0x0f)]
     @ extra_bytes (opt_nibble d) (opt_extra d) @ extra_bytes (opt_nibble l) (opt_extra l)"

definition encode_option :: "coap_option \<Rightarrow> int \<Rightarrow> bytes \<Rightarrow> nat \<Rightarrow> int \<Rightarrow> (bytes \<times> int) option" where
  "encode_option opt lastoptval buf off len =
     (if uint (co_optnum opt) < lastoptval then Some (buf, len)
      else do {
        let hd = option_head (uint (co_optnum opt) - lastoptval) (uint (co_optlen opt));
        buf \<leftarrow> put off hd buf;
        val \<leftarrow> fetch 0 (unat (co_optlen opt)) (co_value opt);
        buf \<leftarrow> put (off + length hd) val buf;
        Some (buf, int (length hd) + uint (co_optlen opt)) })"

text \<open>The sum of the option lengths of \<^verbatim>\<open>litecoap_build_byte_stream\<close> for the TCP header.\<close>

fun options_len :: "coap_option list \<Rightarrow> int \<Rightarrow> int" where
  "options_len [] sumdelta = 0"
| "options_len (opt # opts) sumdelta = option_len opt sumdelta 0 + options_len opts (uint (co_optnum opt))"

text \<open>The header: its bytes, and for TCP the length of what follows, which the check of the size adds up.\<close>

definition build_header :: "u8 \<Rightarrow> coap_msg \<Rightarrow> bytes \<times> int" where
  "build_header proto msg =
     (let hd = cm_head msg in
      if udp_like proto
      then ([(push_bit 6 (ch_ver hd AND 0x03) OR push_bit 4 (ch_t hd AND 0x03)) OR (ch_tkl hd AND 0x0F),
             ch_code hd, ch_msgid0 hd, ch_msgid1 hd], 0)
      else if tcp_like proto
      then
        let offset = options_len (cm_option msg) 0
              + (case cm_payload msg of None \<Rightarrow> 0 | Some pl \<Rightarrow> if pl \<noteq> [] then int (length pl) + 1 else 0)
        in (if offset < 13 then [push_bit 4 (word_of_int offset) OR ch_tkl hd, ch_code hd]
            else if offset < 269 then [push_bit 4 13 OR ch_tkl hd, word_of_int (offset - 13), ch_code hd]
            else if offset < 65805
            then [push_bit 4 14 OR ch_tkl hd, word_of_int (drop_bit 8 (offset - 269)), word_of_int (offset - 269), ch_code hd]
            else [push_bit 4 15 OR ch_tkl hd, word_of_int (drop_bit 24 (offset - 65805)),
                  word_of_int (drop_bit 16 (offset - 65805)), word_of_int (drop_bit 8 (offset - 65805)),
                  word_of_int (offset - 65805), ch_code hd], offset)
      else ([], 0))"

fun encode_options :: "coap_option list \<Rightarrow> int \<Rightarrow> bytes \<Rightarrow> nat \<Rightarrow> int \<Rightarrow> (bytes \<times> nat) option" where
  "encode_options [] sumdelta buf off len = Some (buf, off)"
| "encode_options (opt # opts) sumdelta buf off len =
     do { (buf, n) \<leftarrow> encode_option opt sumdelta buf off len;
          encode_options opts (uint (co_optnum opt)) buf (off + nat n) 0 }"

text \<open>\<open>sndlen\<close> is the \<^verbatim>\<open>len\<close> of the send buffer. The bound is checked against the header, the token and the TCP length.\<close>

definition build_byte_stream ::
  "u8 \<Rightarrow> bytes option \<Rightarrow> int \<Rightarrow> coap_msg \<Rightarrow> (int \<times> bytes option) option" where
  "build_byte_stream proto sndbuf sndlen msg =
     (case sndbuf of
        None \<Rightarrow> Some (LITECOAP_CONTEX_BUF_NULL, None)
      | Some buf \<Rightarrow> do {
          let (hd, offset) = build_header proto msg;
          buf \<leftarrow> put 0 hd buf;
          let tok = (if ch_tkl (cm_head msg) > 0 then (case cm_tok msg of None \<Rightarrow> [] | Some tok \<Rightarrow> tok) else []);
          let len = offset + int (length hd) + int (length tok);
          if len > sndlen then Some (LITECOAP_SND_LEN_TOO_BIG, Some buf)
          else do {
            buf \<leftarrow> put (length hd) tok buf;
            (buf, off) \<leftarrow> encode_options (cm_option msg) 0 buf (length hd + length tok) len;
            case cm_payload msg of
              None \<Rightarrow> Some (int off, Some buf)
            | Some pl \<Rightarrow> do {
                buf \<leftarrow> put off [cm_marker msg] buf;
                buf \<leftarrow> put (off + 1) pl buf;
                Some (int off + int (length pl) + 1, Some buf) } } })"

section \<open>Building a message\<close>

fun opt_insert :: "coap_option \<Rightarrow> coap_option list \<Rightarrow> coap_option list" where
  "opt_insert new [] = [new]"
| "opt_insert new [t] = [t, new]"
| "opt_insert new (t # n # opts) =
     (if co_optnum t \<le> co_optnum new \<and> co_optnum n > co_optnum new then t # new # n # opts
      else t # opt_insert new (n # opts))"

text \<open>The list is lost (\<^verbatim>\<open>NULL\<close> is returned) when there is no value.\<close>

definition add_option_to_list ::
  "coap_option list \<Rightarrow> u16 \<Rightarrow> bytes option \<Rightarrow> nat \<Rightarrow> bool list \<Rightarrow> (coap_option list \<times> bool list) option" where
  "add_option_to_list head opt value len os =
     (case value of
        None \<Rightarrow> Some ([], os)
      | Some value \<Rightarrow>
          if len = 0 then Some ([], os)
          else
            (case alloc os of
               (False, os) \<Rightarrow> Some (head, os)
             | (True, os) \<Rightarrow>
                 (case alloc os of
                    (False, os) \<Rightarrow> Some (head, os)
                  | (True, os) \<Rightarrow> do {
                      val \<leftarrow> fetch 0 len value;
                      let new = \<lparr>co_optnum = opt, co_optlen = of_nat len, co_value = val\<rparr>;
                      Some (case head of
                              [] \<Rightarrow> [new]
                            | tmp # _ \<Rightarrow> if co_optnum tmp > opt then new # head else opt_insert new head, os) })))"

definition add_token :: "coap_msg \<Rightarrow> bytes \<Rightarrow> int \<Rightarrow> bool list \<Rightarrow> (int \<times> coap_msg \<times> bool list) option" where
  "add_token msg tok tklen os =
     (if tklen < 0 \<or> tklen > uint COAP_MAX_TOKEN_LEN then Some (LITECOAP_PARAM_NULL, msg, os)
      else if tklen = 0 then Some (LITECOAP_OK, msg, os)
      else if cm_tok msg \<noteq> None then Some (LITECOAP_TOKEN_LEN_ERR, msg, os)
      else
        (case alloc os of
           (False, os) \<Rightarrow> Some (LITECOAP_MALLOC_FAILED, msg, os)
         | (True, os) \<Rightarrow>
             (case alloc os of
                (False, os) \<Rightarrow> Some (LITECOAP_MALLOC_FAILED, msg\<lparr>cm_tok := None\<rparr>, os)
              | (True, os) \<Rightarrow> do {
                  t \<leftarrow> fetch 0 (nat tklen) tok;
                  Some (LITECOAP_OK, msg\<lparr>cm_tok := Some t, cm_head := (cm_head msg)\<lparr>ch_tkl := word_of_int tklen\<rparr>\<rparr>, os) })))"

definition add_option :: "coap_msg \<Rightarrow> coap_option list \<Rightarrow> int \<times> coap_msg" where
  "add_option msg opts = (if opts = [] then (LITECOAP_PARAM_NULL, msg) else (LITECOAP_OK, msg\<lparr>cm_option := opts\<rparr>))"

definition add_payload :: "coap_msg \<Rightarrow> bytes option \<Rightarrow> nat \<Rightarrow> bool list \<Rightarrow> (int \<times> coap_msg \<times> bool list) option" where
  "add_payload msg payload len os =
     (case payload of
        None \<Rightarrow> Some (LITECOAP_PARAM_NULL, msg, os)
      | Some payload \<Rightarrow>
          if len = 0 then Some (LITECOAP_PARAM_NULL, msg, os)
          else
            (case alloc os of
               (True, os) \<Rightarrow> do { pl \<leftarrow> fetch 0 len payload;
                                 Some (LITECOAP_OK, msg\<lparr>cm_payload := Some pl, cm_marker := 0xff\<rparr>, os) }
             | (False, os) \<Rightarrow> Some (LITECOAP_MALLOC_FAILED, msg\<lparr>cm_payload := None\<rparr>, os)))"

text \<open>\<open>msgid\<close> is the counter of the context, which is returned with the message. For a payload of no bytes \<^verbatim>\<open>litecoap_malloc\<close>
  returns \<^verbatim>\<open>NULL\<close> without a call of the allocator, and the message is deleted.\<close>

definition new_msg ::
  "u16 \<Rightarrow> u8 \<Rightarrow> u8 \<Rightarrow> coap_option list \<Rightarrow> bytes option \<Rightarrow> bool list \<Rightarrow> coap_msg option \<times> u16 \<times> bool list" where
  "new_msg msgid msgtype code optlist payload os =
     (if msgtype > COAP_MESSAGE_RST then (None, msgid, os)
      else
        (case alloc os of
           (False, os) \<Rightarrow> (None, msgid, os)
         | (True, os) \<Rightarrow>
             let msgid = msgid + 1;
                 msg = zero_msg\<lparr>cm_head := \<lparr>ch_ver = 1, ch_t = msgtype, ch_tkl = 0, ch_code = code,
                         ch_msgid0 = ucast (msgid AND 0x00ff), ch_msgid1 = ucast (drop_bit 8 (msgid AND 0xff00))\<rparr>,
                         cm_option := optlist\<rparr>
             in (case payload of
                   None \<Rightarrow> (Some msg, msgid, os)
                 | Some pl \<Rightarrow>
                     if pl = [] then (None, msgid, os)
                     else
                       (case alloc os of
                          (True, os) \<Rightarrow> (Some (msg\<lparr>cm_marker := 0xff, cm_payload := Some pl\<rparr>), msgid, os)
                        | (False, os) \<Rightarrow> (None, msgid, os)))))"

section \<open>The parser stays inside the packet\<close>

lemma parse_ext_total:
  assumes "p0 + headlen = p + 1" and "buflen = length buf - p0" and "p0 < length buf"
  shows "\<exists>r. parse_ext buf p buflen headlen nib err = Some r \<and>
    (\<forall>v p' h'. r = Inr (v, p', h') \<longrightarrow> p0 + h' = p' + 1)"
  using assms by (auto simp: parse_ext_def byte_at_def)

lemma parse_option_head_total: "p0 < length buf \<Longrightarrow> \<exists>r. parse_option_head buf p0 = Some r"
proof -
  assume p0: "p0 < length buf"
  then obtain b where b: "byte_at buf p0 = Some b" by (simp add: byte_at_def)
  obtain d where d: "parse_ext buf p0 (length buf - p0) 1 (ucast (drop_bit 4 (b AND 0xF0))) LITECOAP_OPTION_DELTA_ERR = Some d"
    "\<forall>v p' h'. d = Inr (v, p', h') \<longrightarrow> p0 + h' = p' + 1"
    using parse_ext_total[OF refl refl p0] by blast
  show ?thesis
  proof (cases d)
    case (Inl e)
    then show ?thesis using b d(1) p0 by (simp add: parse_option_head_def)
  next
    case (Inr a)
    obtain v p h where a: "a = (v, p, h)" by (cases a)
    have "p0 + h = p + 1" using d(2) Inr a by blast
    then obtain l where l: "parse_ext buf p (length buf - p0) h (ucast (b AND 0x0F)) LITECOAP_OPTION_LEN_ERR = Some l"
      using parse_ext_total[of p0 h p "length buf - p0" buf] p0 by blast
    show ?thesis
    proof (cases l)
      case (Inl e)
      then show ?thesis using b d(1) p0 Inr a l by (simp add: parse_option_head_def)
    next
      case r: (Inr c)
      obtain v2 p2 h2 where c: "c = (v2, p2, h2)" by (cases c)
      show ?thesis using b d(1) p0 Inr a l r c
        by (cases "p2 + 1 + unat v2 > p0 + (length buf - p0)") (simp_all add: parse_option_head_def)
    qed
  qed
qed

lemma parse_one_option_total:
  assumes "p0 < length buf"
  shows "\<exists>r. parse_one_option msg sumdelta buf p0 os = Some r"
proof -
  obtain h where h: "parse_option_head buf p0 = Some h" using parse_option_head_total[OF assms] by blast
  show ?thesis
  proof (cases h)
    case (Inl e)
    then show ?thesis using h by (simp add: parse_one_option_def)
  next
    case (Inr a)
    obtain delta len p where a: "a = (delta, len, p)" by (cases a)
    then have "p + unat len \<le> length buf" using parse_option_head_place h Inr by blast
    then show ?thesis using h Inr a
      by (simp add: parse_one_option_def fetch_def split: prod.split bool.split)
  qed
qed

lemma opts_loop_total: "\<exists>r. opts_loop msg sumdelta buf p os = Some r"
proof (induction msg sumdelta buf p os rule: opts_loop.induct)
  case (1 msg sumdelta buf p os)
  show ?case
  proof (cases "p < length buf \<and> buf ! p \<noteq> 0xFF")
    case True
    then obtain r where r: "parse_one_option msg sumdelta buf p os = Some r" using parse_one_option_total by blast
    obtain ret m sd p' os' where "r = (ret, m, sd, p', os')" by (cases r)
    then show ?thesis using 1[OF True r] r True by (subst opts_loop.simps) auto
  next
    case False
    show ?thesis by (subst opts_loop.simps, subst if_not_P[OF False]) blast
  qed
qed

lemma parse_header_total:
  assumes "buf \<noteq> []"
  shows "\<exists>r. parse_header msg buf proto = Some r"
proof -
  have "byte_at buf 0 = Some (buf ! 0)" using assms by (simp add: byte_at_def)
  then obtain hs where hs: "parse_header_size buf proto = Some hs" "udp_like proto \<Longrightarrow> hs = 4"
    "tcp_like proto \<Longrightarrow> 2 \<le> hs"
  proof (cases "tcp_like proto")
    case True
    then have "\<not> udp_like proto" by (auto simp: tcp_like_def udp_like_def)
    then show ?thesis using that True \<open>byte_at buf 0 = _\<close> by (simp add: parse_header_size_def Let_def split: if_splits)
  next
    case False
    then show ?thesis using that by (cases "udp_like proto") (simp_all add: parse_header_size_def)
  qed
  show ?thesis
  proof (cases "length buf < hs")
    case False
    then show ?thesis using assms hs
      by (cases "udp_like proto"; cases "tcp_like proto") (simp_all add: parse_header_def byte_at_def Let_def)
  qed (use hs in \<open>simp add: parse_header_def\<close>)
qed

lemma parse_token_total: "\<exists>r. parse_token msg buf os = Some r"
  by (auto simp: parse_token_def fetch_def Let_def split: prod.split bool.split)

lemma parse_opts_payload_total: "\<exists>r. parse_opts_payload msg buf os = Some r"
proof (cases "length buf < 4 \<or> 4 + unat (ch_tkl (cm_head msg)) > length buf")
  case False
  obtain ret m p os1 where l: "opts_loop msg 0 buf (4 + unat (ch_tkl (cm_head msg))) os = Some (ret, m, p, os1)"
    using opts_loop_total by fast
  show ?thesis using False l
    by (auto simp: parse_opts_payload_def fetch_def Let_def split: prod.split bool.split)
qed (auto simp: parse_opts_payload_def Let_def)

text \<open>C9. The parser is total and safe: on every received packet that is not empty, for every protocol and every
  outcome of the allocations, parsing ends with a message or an error, and no byte outside
  the packet is read.\<close>

theorem coap_parse_total:
  assumes "buf \<noteq> []"
  shows "\<exists>r os'. parse_packet buf proto os = Some (r, os')"
proof (cases "alloc os")
  case (Pair ok os1)
  obtain r1 m1 where h: "parse_header zero_msg buf proto = Some (r1, m1)" using parse_header_total[OF assms] by fast
  obtain r2 m2 os2 where k: "parse_token m1 buf os1 = Some (r2, m2, os2)" using parse_token_total by fast
  obtain r3 m3 os3 where o: "parse_opts_payload m2 buf os2 = Some (r3, m3, os3)" using parse_opts_payload_total by fast
  show ?thesis
    by (cases ok; cases "r1 < 0"; cases "r2 < 0"; cases "r3 < 0") (simp_all add: parse_packet_def Pair h k o)
qed

theorem coap_parse_total_witness: "\<exists>r os'. parse_packet [0x40, 1, 0, 7, 0xD1] COAP_PROTO_UDP [] = Some (r, os')"
  using coap_parse_total[of "[0x40, 1, 0, 7, 0xD1]" COAP_PROTO_UDP "[]"] by simp

section \<open>Options on the wire\<close>

text \<open>The number that the parser reads where the encoder has written \<open>n\<close>: 269 is added to \<open>n\<close> less 283.\<close>

definition wire_val :: "int \<Rightarrow> int" where
  "wire_val n = (if n < 269 then n else n - 14)"

lemma bit_0xffff_int: "bit (0xffff :: int) n \<longleftrightarrow> n < 16"
proof -
  have "(0xffff :: int) = mask 16" by (simp add: mask_eq_exp_minus_1)
  then show ?thesis by (simp only: bit_mask_iff) simp
qed

lemma two_bytes:
  "push_bit 8 (ucast (word_of_int (drop_bit 8 (k AND 0xffff)) :: u8)) OR ucast (word_of_int (k AND 0xff) :: u8) = (word_of_int k :: u16)"
proof (rule bit_word_eqI)
  fix n assume "n < LENGTH(16)"
  then show "bit (push_bit 8 (ucast (word_of_int (drop_bit 8 (k AND 0xffff)) :: u8)) OR ucast (word_of_int (k AND 0xff) :: u8) :: u16) n =
    bit (word_of_int k :: u16) n"
    by (cases "n < 8") (auto simp: bit_or_iff bit_push_bit_iff bit_ucast_iff bit_word_of_int_iff bit_and_iff
      bit_drop_bit_eq bit_0xffff_int)
qed

lemma uint_word_small: "0 \<le> n \<Longrightarrow> n < 2 ^ LENGTH('a) \<Longrightarrow> uint (word_of_int n :: 'a::len word) = n"
  by (simp add: unsigned_of_int take_bit_int_eq_self)

lemma ucast_byte: "0 \<le> k \<Longrightarrow> k < 256 \<Longrightarrow> ucast (word_of_int k :: u8) = (word_of_int k :: u16)"
  by (simp add: ucast_eq uint_word_small)

lemma word_small_eq:
  "0 \<le> n \<Longrightarrow> n < 2 ^ LENGTH('a) \<Longrightarrow> 0 \<le> m \<Longrightarrow> m < 2 ^ LENGTH('a) \<Longrightarrow>
     (word_of_int n :: 'a::len word) = word_of_int m \<longleftrightarrow> n = m"
  using uint_word_small by metis

lemma nibble_word:
  assumes "0 \<le> n"
  shows "(word_of_int (opt_nibble n) = (13 :: u16)) = (13 \<le> n \<and> n < 269)" "(word_of_int (opt_nibble n) = (14 :: u16)) = (269 \<le> n)"
    "word_of_int (opt_nibble n) \<noteq> (15 :: u16)"
  using assms word_small_eq[of "opt_nibble n" 13, where ?'a = 16] word_small_eq[of "opt_nibble n" 14, where ?'a = 16]
    word_small_eq[of "opt_nibble n" 15, where ?'a = 16]
  by (auto simp: opt_nibble_def)

lemma fetch_byte: "fetch p n buf = Some xs \<Longrightarrow> i < n \<Longrightarrow> byte_at buf (p + i) = Some (xs ! i)"
  by (auto simp: fetch_def byte_at_def split: if_splits)

lemma parse_ext_extra:
  assumes "0 \<le> n" and "ex = extra_bytes (opt_nibble n) (opt_extra n)"
    and "fetch (p + 1) (length ex) buf = Some ex" and "headlen + length ex \<le> buflen"
  shows "parse_ext buf p buflen headlen (word_of_int (opt_nibble n)) err =
    Some (Inr (word_of_int (wire_val n), p + length ex, headlen + length ex))"
proof -
  consider "n < 13" | "13 \<le> n" "n < 269" | "269 \<le> n" by linarith
  then show ?thesis
  proof cases
    case 1
    then have "ex = []" using assms(1,2) by (simp add: extra_bytes_def opt_nibble_def)
    then show ?thesis using 1 nibble_word[OF assms(1)] assms(1) by (simp add: parse_ext_def wire_val_def opt_nibble_def)
  next
    case 2
    then have e: "ex = [word_of_int (n - 13)]" using assms(2) by (simp add: extra_bytes_def opt_nibble_def opt_extra_def)
    have "ucast (word_of_int (n - 13) :: u8) = (word_of_int (n - 13) :: u16)"
      by (rule ucast_byte) (use 2 in auto)
    then have "ucast (word_of_int (n - 13) :: u8) + 13 = (word_of_int n :: u16)" by simp
    then show ?thesis using 2 nibble_word[OF assms(1)] fetch_byte[OF assms(3), of 0] assms(4) e
      by (simp add: parse_ext_def wire_val_def opt_nibble_def)
  next
    case 3
    then have e: "ex = [word_of_int (drop_bit 8 ((n - 269 - 14) AND 0xffff)), word_of_int ((n - 269 - 14) AND 0xff)]"
      using assms(2) by (simp only: extra_bytes_def opt_nibble_def opt_extra_def) simp
    have b: "byte_at buf (p + 1) = Some (ex ! 0)" "byte_at buf (p + 2) = Some (ex ! 1)"
      using fetch_byte[OF assms(3), of 0] fetch_byte[OF assms(3), of 1] e by simp_all
    have v: "push_bit 8 (ucast (ex ! 0)) OR ucast (ex ! 1) = (word_of_int (n - 269 - 14) :: u16)"
      using two_bytes[of "n - 269 - 14"] by (simp only: e) simp
    have w: "(word_of_int (n - 269 - 14) :: u16) + 269 = word_of_int (n - 14)" by simp
    show ?thesis using 3 nibble_word[OF assms(1)] assms(4) e b v[symmetric] w
      by (simp add: parse_ext_def wire_val_def)
  qed
qed

lemma head_byte_table:
  "list_all (\<lambda>a. list_all (\<lambda>b.
     (let w = push_bit 4 (of_nat a :: u8) OR (of_nat b AND 0x0f) in
      ucast (drop_bit 4 (w AND 0xF0)) = (of_nat a :: u16) \<and> ucast (w AND 0x0F) = (of_nat b :: u16) \<and> w \<noteq> 0xFF))
     [0..<15]) [0..<15]"
  by code_simp

lemma head_byte:
  assumes "0 \<le> a" and "a \<le> 14" and "0 \<le> b" and "b \<le> 14"
  defines "w \<equiv> push_bit 4 (word_of_int a :: u8) OR (word_of_int b AND 0x0f)"
  shows "ucast (drop_bit 4 (w AND 0xF0)) = (word_of_int a :: u16)" "ucast (w AND 0x0F) = (word_of_int b :: u16)" "w \<noteq> 0xFF"
proof -
  have "nat a \<in> set [0..<15]" "nat b \<in> set [0..<15]" using assms(1-4) by auto
  then have "let w = push_bit 4 (of_nat (nat a) :: u8) OR (of_nat (nat b) AND 0x0f) in
      ucast (drop_bit 4 (w AND 0xF0)) = (of_nat (nat a) :: u16) \<and> ucast (w AND 0x0F) = (of_nat (nat b) :: u16) \<and> w \<noteq> 0xFF"
    using head_byte_table unfolding list_all_iff by blast
  moreover have "of_nat (nat a) = (word_of_int a :: u8)" "of_nat (nat b) = (word_of_int b :: u8)"
    "of_nat (nat a) = (word_of_int a :: u16)" "of_nat (nat b) = (word_of_int b :: u16)"
    using assms(1,3) by (metis int_nat_eq of_int_of_nat_eq)+
  ultimately show "ucast (drop_bit 4 (w AND 0xF0)) = (word_of_int a :: u16)" "ucast (w AND 0x0F) = (word_of_int b :: u16)"
    "w \<noteq> 0xFF"
    unfolding w_def Let_def by simp_all
qed

lemma nibble_range: "0 \<le> n \<Longrightarrow> 0 \<le> opt_nibble n \<and> opt_nibble n \<le> 14"
  by (auto simp: opt_nibble_def)

text \<open>What the parser makes of the head of an option that the encoder has written, for every delta and length.\<close>

lemma parse_written_head:
  assumes "0 \<le> d" and "d < 65536" and "0 \<le> l" and "l < 65536"
    and "buf = pre @ option_head d l @ rest"
  shows "parse_option_head buf (length pre) =
    Some (if unat (word_of_int (wire_val l) :: u16) \<le> length rest
          then Inr (word_of_int (wire_val d), word_of_int (wire_val l), length pre + length (option_head d l))
          else Inl LITECOAP_OPTION_LEN_ERR)"
proof -
  define w where "w = push_bit 4 (word_of_int (opt_nibble d) :: u8) OR (word_of_int (opt_nibble l) AND 0x0f)"
  define e1 where "e1 = extra_bytes (opt_nibble d) (opt_extra d)"
  define e2 where "e2 = extra_bytes (opt_nibble l) (opt_extra l)"
  have hd: "option_head d l = w # e1 @ e2" by (simp add: option_head_def w_def e1_def e2_def)
  have w: "ucast (drop_bit 4 (w AND 0xF0)) = (word_of_int (opt_nibble d) :: u16)"
    "ucast (w AND 0x0F) = (word_of_int (opt_nibble l) :: u16)"
    unfolding w_def using head_byte nibble_range[OF assms(1)] nibble_range[OF assms(3)] by blast+
  have b: "byte_at buf (length pre) = Some w" using assms(5) hd by (simp add: byte_at_def)
  have n: "length buf - length pre = 1 + length e1 + length e2 + length rest" using assms(5) hd by simp
  have f1: "fetch (length pre + 1) (length e1) buf = Some e1" using assms(5) hd by (simp add: fetch_def)
  have f2: "fetch (length pre + length e1 + 1) (length e2) buf = Some e2" using assms(5) hd by (simp add: fetch_def)
  have x1: "parse_ext buf (length pre) (length buf - length pre) 1 (ucast (drop_bit 4 (w AND 0xF0))) LITECOAP_OPTION_DELTA_ERR =
    Some (Inr (word_of_int (wire_val d), length pre + length e1, 1 + length e1))"
    unfolding w(1) by (rule parse_ext_extra[OF assms(1) e1_def f1]) (use n in simp)
  have x2: "parse_ext buf (length pre + length e1) (length buf - length pre) (1 + length e1) (ucast (w AND 0x0F))
      LITECOAP_OPTION_LEN_ERR =
    Some (Inr (word_of_int (wire_val l), length pre + length e1 + length e2, 1 + length e1 + length e2))"
    unfolding w(2) by (rule parse_ext_extra[OF assms(3) e2_def f2]) (use n in simp)
  show ?thesis
    using b n x1 x2 unfolding parse_option_head_def Let_def
    by (auto simp: hd)
qed

text \<open>Options in order whose deltas and lengths the encoder handles as the parser expects.\<close>

fun opts_ok :: "int \<Rightarrow> coap_option list \<Rightarrow> bool" where
  "opts_ok sd [] = True"
| "opts_ok sd (opt # opts) \<longleftrightarrow> sd \<le> uint (co_optnum opt) \<and> uint (co_optnum opt) - sd < 269 \<and>
     uint (co_optlen opt) < 269 \<and> unat (co_optlen opt) = length (co_value opt) \<and> opts_ok (uint (co_optnum opt)) opts"

definition opt_bytes :: "int \<Rightarrow> coap_option \<Rightarrow> bytes" where
  "opt_bytes sd opt = option_head (uint (co_optnum opt) - sd) (uint (co_optlen opt)) @ co_value opt"

fun opts_bytes :: "int \<Rightarrow> coap_option list \<Rightarrow> bytes" where
  "opts_bytes sd [] = []"
| "opts_bytes sd (opt # opts) = opt_bytes sd opt @ opts_bytes (uint (co_optnum opt)) opts"

lemma encode_option_put:
  assumes "sd \<le> uint (co_optnum opt)" and "unat (co_optlen opt) = length (co_value opt)"
  shows "encode_option opt sd buf off len =
    map_option (\<lambda>b. (b, int (length (opt_bytes sd opt)))) (put off (opt_bytes sd opt) buf)"
proof -
  have "uint (co_optlen opt) = int (length (co_value opt))" using assms(2) by (metis of_nat_unat)
  moreover have "fetch 0 (length (co_value opt)) (co_value opt) = Some (co_value opt)" by (simp add: fetch_def)
  ultimately show ?thesis using assms
    by (simp add: encode_option_def opt_bytes_def put_put_then map_option_case split: option.split)
qed

lemma encode_options_put:
  "opts_ok sd opts \<Longrightarrow> encode_options opts sd buf off len =
     map_option (\<lambda>b. (b, off + length (opts_bytes sd opts))) (if opts = [] then Some buf else put off (opts_bytes sd opts) buf)"
proof (induction opts arbitrary: sd buf off len)
  case (Cons opt opts)
  let ?n = "uint (co_optnum opt)" and ?x = "opt_bytes sd opt"
  have "encode_options (opt # opts) sd buf off len =
    do { b \<leftarrow> put off ?x buf; encode_options opts ?n b (off + length ?x) 0 }"
    using Cons.prems by (simp add: encode_option_put map_option_case split: option.split)
  also have "\<dots> = map_option (\<lambda>b. (b, off + length ?x + length (opts_bytes ?n opts)))
     (Option.bind (put off ?x buf) (\<lambda>b. if opts = [] then Some b else put (off + length ?x) (opts_bytes ?n opts) b))"
    using Cons.IH[of ?n] Cons.prems by (cases "put off ?x buf") simp_all
  also have "\<dots> = map_option (\<lambda>b. (b, off + length ?x + length (opts_bytes ?n opts))) (put off (opts_bytes sd (opt # opts)) buf)"
    by (cases "opts = []") (simp_all add: put_put)
  finally show ?case by (simp add: add.assoc)
qed simp

lemma opts_loop_written:
  "opts_ok sd opts \<Longrightarrow> 0 \<le> sd \<Longrightarrow> buf = pre @ opts_bytes sd opts @ tail \<Longrightarrow> tail = [] \<or> hd tail = 0xFF \<Longrightarrow>
     opts_loop msg (word_of_int sd) buf (length pre) [] = Some (0,
       msg\<lparr>cm_optcnt := cm_optcnt msg + of_nat (length opts), cm_option := cm_option msg @ opts\<rparr>,
       length pre + length (opts_bytes sd opts), [])"
proof (induction opts arbitrary: sd pre msg)
  case Nil
  have n: "\<not> (length pre < length buf \<and> buf ! length pre \<noteq> 0xFF)"
    using Nil.prems(3,4) by (cases tail) auto
  show ?case by (subst opts_loop.simps, subst if_not_P[OF n]) simp
next
  case (Cons opt opts)
  let ?n = "uint (co_optnum opt)" and ?l = "uint (co_optlen opt)" and ?rest = "co_value opt @ opts_bytes (uint (co_optnum opt)) opts @ tail"
  let ?hd = "option_head (?n - sd) ?l"
  have ok: "sd \<le> ?n" "?n - sd < 269" "?l < 269" "unat (co_optlen opt) = length (co_value opt)" "opts_ok ?n opts"
    using Cons.prems(1) by auto
  have buf: "buf = pre @ ?hd @ ?rest" using Cons.prems(3) by (simp add: opt_bytes_def)
  have l: "(word_of_int (wire_val ?l) :: u16) = co_optlen opt" "(word_of_int (wire_val (?n - sd)) :: u16) = word_of_int (?n - sd)"
    using ok(2,3) by (simp_all add: wire_val_def)
  have "parse_option_head buf (length pre) = Some (Inr (word_of_int (?n - sd), co_optlen opt, length pre + length ?hd))"
    using parse_written_head[OF _ _ _ _ buf] ok unfolding l by simp
  moreover have "fetch (length pre + length ?hd) (unat (co_optlen opt)) buf = Some (co_value opt)"
    using buf ok(4) by (simp add: fetch_def)
  moreover have "(word_of_int (?n - sd) :: u16) + word_of_int sd = co_optnum opt" "word_of_int sd + (word_of_int (?n - sd) :: u16) = co_optnum opt"
    by simp_all
  moreover have "\<lparr>co_optnum = co_optnum opt, co_optlen = co_optlen opt, co_value = co_value opt\<rparr> = opt" by simp
  ultimately have p: "parse_one_option msg (word_of_int sd) buf (length pre) [] = Some (0,
      msg\<lparr>cm_optcnt := cm_optcnt msg + 1, cm_option := cm_option msg @ [opt]\<rparr>, co_optnum opt,
      length pre + length ?hd + length (co_value opt), [])"
    by (simp add: parse_one_option_def ok(4))
  have b: "length pre < length buf \<and> buf ! length pre \<noteq> 0xFF"
    using buf head_byte(3)[of "opt_nibble (?n - sd)" "opt_nibble ?l"] nibble_range[of "?n - sd"] nibble_range[of ?l] ok(1)
    by (simp add: option_head_def nth_append)
  have "opts_loop (msg\<lparr>cm_optcnt := cm_optcnt msg + 1, cm_option := cm_option msg @ [opt]\<rparr>) (word_of_int ?n) buf
      (length (pre @ opt_bytes sd opt)) [] = Some (0,
       msg\<lparr>cm_optcnt := cm_optcnt msg + 1 + of_nat (length opts), cm_option := (cm_option msg @ [opt]) @ opts\<rparr>,
       length (pre @ opt_bytes sd opt) + length (opts_bytes ?n opts), [])"
    using Cons.IH[OF ok(5) _ _ Cons.prems(4), of "pre @ opt_bytes sd opt"
        "msg\<lparr>cm_optcnt := cm_optcnt msg + 1, cm_option := cm_option msg @ [opt]\<rparr>"] Cons.prems(3) by simp
  then show ?case using p b
    by (subst opts_loop.simps) (simp add: opt_bytes_def add.assoc)
qed

section \<open>The round trip\<close>

definition token_bytes :: "coap_msg \<Rightarrow> bytes" where
  "token_bytes msg = (case cm_tok msg of None \<Rightarrow> [] | Some tok \<Rightarrow> tok)"

definition payload_bytes :: "coap_msg \<Rightarrow> bytes" where
  "payload_bytes msg = (case cm_payload msg of None \<Rightarrow> [] | Some pl \<Rightarrow> cm_marker msg # pl)"

definition msg_ok :: "coap_msg \<Rightarrow> bool" where
  "msg_ok msg \<longleftrightarrow> ch_ver (cm_head msg) = 1 \<and> ch_t (cm_head msg) < 4 \<and>
     length (token_bytes msg) \<le> 8 \<and> ch_tkl (cm_head msg) = of_nat (length (token_bytes msg)) \<and> cm_tok msg \<noteq> Some [] \<and>
     opts_ok 0 (cm_option msg) \<and> cm_marker msg = 0xFF \<and> cm_payload msg \<noteq> Some []"

definition msg_bytes :: "u8 \<Rightarrow> coap_msg \<Rightarrow> bytes" where
  "msg_bytes proto msg = fst (build_header proto msg) @ token_bytes msg @ opts_bytes 0 (cm_option msg) @ payload_bytes msg"

lemma token_sent:
  "msg_ok msg \<Longrightarrow> (if ch_tkl (cm_head msg) > 0 then (case cm_tok msg of None \<Rightarrow> [] | Some tok \<Rightarrow> tok) else []) = token_bytes msg"
proof -
  assume ok: "msg_ok msg"
  show ?thesis
  proof (cases "token_bytes msg")
    case Nil
    then show ?thesis by (auto simp: token_bytes_def)
  next
    case (Cons b bs)
    then have "length (token_bytes msg) \<in> {1..8}" using ok by (simp add: msg_ok_def)
    then have "unat (of_nat (length (token_bytes msg)) :: u8) = length (token_bytes msg)" by (simp add: unat_of_nat)
    then have "ch_tkl (cm_head msg) > 0" using ok Cons unfolding msg_ok_def
      by (metis length_0_conv list.distinct(1) unat_eq_zero word_greater_zero_iff)
    then show ?thesis by (simp add: token_bytes_def)
  qed
qed

lemma build_put:
  assumes "msg_ok msg" and "snd (build_header proto msg) + int (length (fst (build_header proto msg))) + int (length (token_bytes msg)) \<le> sndlen"
    and "length (msg_bytes proto msg) \<le> length buf"
  shows "build_byte_stream proto (Some buf) sndlen msg =
    Some (int (length (msg_bytes proto msg)), put 0 (msg_bytes proto msg) buf)"
proof -
  obtain hd offset where h: "build_header proto msg = (hd, offset)" by (cases "build_header proto msg")
  let ?t = "token_bytes msg" and ?o = "opts_bytes 0 (cm_option msg)"
  have ok: "opts_ok 0 (cm_option msg)" using assms(1) by (simp add: msg_ok_def)
  have fit: "length hd + length ?t + length ?o + length (payload_bytes msg) \<le> length buf"
    using assms(3) h by (simp add: msg_bytes_def)
  obtain b1 where b1: "put 0 hd buf = Some b1" "length b1 = length buf"
    using put_fits[of 0 hd buf] fit by auto
  obtain b2 where b2: "put (length hd) ?t b1 = Some b2" "length b2 = length buf"
    using put_fits[of "length hd" ?t b1] b1 fit by auto
  obtain b3 where b3: "put (length hd + length ?t) ?o b2 = Some b3" "length b3 = length buf"
    using put_fits[of "length hd + length ?t" ?o b2] b2 fit by auto
  have e: "encode_options (cm_option msg) 0 b2 (length hd + length ?t) len = Some (b3, length hd + length ?t + length ?o)" for len
  proof (cases "cm_option msg = []")
    case True
    then have "b3 = b2" using b3(1) by (auto simp: put_def split: if_splits)
    then show ?thesis using True by simp
  next
    case False
    then show ?thesis using encode_options_put[OF ok] b3(1) by simp
  qed
  have p1: "put 0 (hd @ ?t) buf = Some b2" using put_put[of 0 hd buf ?t] b1(1) b2(1) by simp
  have p2: "put 0 ((hd @ ?t) @ ?o) buf = Some b3" using put_put[of 0 "hd @ ?t" buf ?o] p1 b3(1) by simp
  show ?thesis
  proof (cases "cm_payload msg")
    case None
    then show ?thesis using h b1 b2 e p2 assms(2)
      by (simp add: build_byte_stream_def token_sent[OF assms(1)] msg_bytes_def payload_bytes_def)
  next
    case (Some pl)
    then have lp: "length (payload_bytes msg) = 1 + length pl" by (simp add: payload_bytes_def)
    obtain b4 where b4: "put (length hd + length ?t + length ?o) [cm_marker msg] b3 = Some b4" "length b4 = length buf"
      using put_fits[of "length hd + length ?t + length ?o" "[cm_marker msg]" b3] b3 fit lp by auto
    obtain b5 where b5: "put (length hd + length ?t + length ?o + 1) pl b4 = Some b5"
      using put_fits[of "length hd + length ?t + length ?o + 1" pl b4] b4 fit lp by auto
    have p3: "put 0 (((hd @ ?t) @ ?o) @ [cm_marker msg]) buf = Some b4"
      using put_put[of 0 "(hd @ ?t) @ ?o" buf "[cm_marker msg]"] p2 b4(1) by (simp add: add.assoc)
    have p4: "put 0 ((((hd @ ?t) @ ?o) @ [cm_marker msg]) @ pl) buf = Some b5"
      using put_put[of 0 "((hd @ ?t) @ ?o) @ [cm_marker msg]" buf pl] p3 b5 by (simp add: add.assoc)
    show ?thesis using h b1 b2 e b4 b5 p4 assms(2) Some
      by (simp add: build_byte_stream_def token_sent[OF assms(1)] msg_bytes_def payload_bytes_def)
  qed
qed

lemma header_byte_table:
  "list_all (\<lambda>t. list_all (\<lambda>k.
     (let w = (push_bit 6 ((1 :: u8) AND 0x03) OR push_bit 4 (of_nat t AND 0x03)) OR (of_nat k AND 0x0F) in
      drop_bit 6 (w AND 0xC0) = 1 \<and> drop_bit 4 (w AND 0x30) = of_nat t \<and> w AND 0x0F = of_nat k)) [0..<16]) [0..<4]"
  by code_simp

lemma header_byte:
  assumes "t < 4" and "k < 16"
  defines "w \<equiv> (push_bit 6 ((1 :: u8) AND 0x03) OR push_bit 4 (t AND 0x03)) OR (k AND 0x0F)"
  shows "drop_bit 6 (w AND 0xC0) = 1" "drop_bit 4 (w AND 0x30) = t" "w AND 0x0F = k"
proof -
  have "unat t \<in> set [0..<4]" "unat k \<in> set [0..<16]" using assms(1,2) by (simp_all add: word_less_nat_alt)
  then have "let w = (push_bit 6 ((1 :: u8) AND 0x03) OR push_bit 4 (of_nat (unat t) AND 0x03)) OR (of_nat (unat k) AND 0x0F) in
      drop_bit 6 (w AND 0xC0) = 1 \<and> drop_bit 4 (w AND 0x30) = of_nat (unat t) \<and> w AND 0x0F = of_nat (unat k)"
    using header_byte_table unfolding list_all_iff by blast
  then show "drop_bit 6 (w AND 0xC0) = 1" "drop_bit 4 (w AND 0x30) = t" "w AND 0x0F = k"
    unfolding w_def Let_def by simp_all
qed

lemma tkl_unat: "msg_ok msg \<Longrightarrow> unat (ch_tkl (cm_head msg)) = length (token_bytes msg)"
  by (simp add: msg_ok_def unat_of_nat)

lemma parse_written:
  assumes ok: "msg_ok msg" and udp: "udp_like proto"
  shows "parse_packet (msg_bytes proto msg) proto [] = Some (Inr (msg\<lparr>cm_optcnt := of_nat (length (cm_option msg))\<rparr>), [])"
proof -
  let ?h = "cm_head msg" and ?t = "token_bytes msg" and ?o = "opts_bytes 0 (cm_option msg)" and ?buf = "msg_bytes proto msg"
  define w where "w = (push_bit 6 ((1 :: u8) AND 0x03) OR push_bit 4 (ch_t ?h AND 0x03)) OR (ch_tkl ?h AND 0x0F)"
  have tk: "unat (ch_tkl ?h) = length ?t" "length ?t \<le> 8" using tkl_unat[OF ok] ok by (simp_all add: msg_ok_def)
  then have "ch_tkl ?h < 16" by (simp add: word_less_nat_alt)
  then have w: "drop_bit 6 (w AND 0xC0) = 1" "drop_bit 4 (w AND 0x30) = ch_t ?h" "w AND 0x0F = ch_tkl ?h"
    unfolding w_def using header_byte[of "ch_t ?h" "ch_tkl ?h"] ok by (simp_all add: msg_ok_def)
  have buf: "?buf = [w, ch_code ?h, ch_msgid0 ?h, ch_msgid1 ?h] @ ?t @ ?o @ payload_bytes msg"
    using udp ok by (simp add: msg_bytes_def build_header_def w_def msg_ok_def Let_def)
  have ver: "ch_ver ?h = 1" using ok by (simp add: msg_ok_def)
  have "parse_header_size ?buf proto = Some 4"
    using udp by (auto simp: parse_header_size_def udp_like_def tcp_like_def)
  then have h: "parse_header zero_msg ?buf proto = Some (0, zero_msg\<lparr>cm_head := ?h\<rparr>)"
    using udp w ver by (simp add: parse_header_def buf byte_at_def Let_def)
  have t: "parse_token (zero_msg\<lparr>cm_head := ?h\<rparr>) ?buf [] = Some (0, zero_msg\<lparr>cm_head := ?h, cm_tok := cm_tok msg\<rparr>, [])"
  proof (cases "?t = []")
    case True
    then have "cm_tok msg = None" using ok by (auto simp: token_bytes_def msg_ok_def split: option.splits)
    then show ?thesis using True tk by (simp add: parse_token_def unat_eq_zero Let_def)
  next
    case False
    then have "cm_tok msg = Some ?t" by (auto simp: token_bytes_def split: option.splits)
    moreover have "ch_tkl ?h \<noteq> 0" "ch_tkl ?h \<le> 8" using False tk by (auto simp: word_le_nat_alt)
    moreover have "fetch 4 (length ?t) ?buf = Some ?t" by (simp add: buf fetch_def)
    ultimately show ?thesis using tk by (simp add: parse_token_def buf zero_msg_def Let_def)
  qed
  have tail: "payload_bytes msg = [] \<or> hd (payload_bytes msg) = 0xFF"
    using ok by (auto simp: payload_bytes_def msg_ok_def split: option.splits)
  let ?m = "zero_msg\<lparr>cm_head := ?h, cm_tok := cm_tok msg, cm_optcnt := of_nat (length (cm_option msg)), cm_option := cm_option msg\<rparr>"
  have "opts_loop (zero_msg\<lparr>cm_head := ?h, cm_tok := cm_tok msg\<rparr>) (word_of_int 0) ?buf
      (length ([w, ch_code ?h, ch_msgid0 ?h, ch_msgid1 ?h] @ ?t)) [] = Some (0,
      (zero_msg\<lparr>cm_head := ?h, cm_tok := cm_tok msg\<rparr>)\<lparr>cm_optcnt := cm_optcnt (zero_msg\<lparr>cm_head := ?h, cm_tok := cm_tok msg\<rparr>)
         + of_nat (length (cm_option msg)), cm_option := cm_option (zero_msg\<lparr>cm_head := ?h, cm_tok := cm_tok msg\<rparr>) @ cm_option msg\<rparr>,
      length ([w, ch_code ?h, ch_msgid0 ?h, ch_msgid1 ?h] @ ?t) + length ?o, [])"
    by (rule opts_loop_written[OF _ _ _ tail]) (use ok in \<open>simp_all add: msg_ok_def buf\<close>)
  then have l: "opts_loop (zero_msg\<lparr>cm_head := ?h, cm_tok := cm_tok msg\<rparr>) 0 ?buf (4 + length ?t) [] = Some (0, ?m, 4 + length ?t + length ?o, [])"
    by (simp add: zero_msg_def numeral_eq_Suc)
  have o: "parse_opts_payload (zero_msg\<lparr>cm_head := ?h, cm_tok := cm_tok msg\<rparr>) ?buf [] =
    Some (0, msg\<lparr>cm_optcnt := of_nat (length (cm_option msg))\<rparr>, [])"
  proof (cases "cm_payload msg")
    case None
    then have "?m\<lparr>cm_payload := None, cm_marker := 0xFF\<rparr> = msg\<lparr>cm_optcnt := of_nat (length (cm_option msg))\<rparr>"
      using ok by (simp add: msg_ok_def)
    moreover have "length ?buf = 4 + length ?t + length ?o" using None by (simp add: buf payload_bytes_def)
    ultimately show ?thesis using l tk by (simp add: parse_opts_payload_def Let_def)
  next
    case (Some pl)
    then have m: "?m\<lparr>cm_payload := Some pl, cm_marker := 0xFF\<rparr> = msg\<lparr>cm_optcnt := of_nat (length (cm_option msg))\<rparr>"
      using ok by (simp add: msg_ok_def)
    have pb: "payload_bytes msg = 0xFF # pl" "pl \<noteq> []" using Some ok by (auto simp: payload_bytes_def msg_ok_def)
    let ?p = "4 + length ?t + length ?o"
    have n: "length ?buf = ?p + 1 + length pl" using pb by (simp add: buf)
    define q where "q = [w, ch_code ?h, ch_msgid0 ?h, ch_msgid1 ?h] @ ?t @ ?o"
    have q: "?buf = q @ 0xFF # pl" "length q = ?p" using pb by (simp_all add: buf q_def)
    then have x: "?buf ! ?p = 0xFF" "drop (?p + 1) ?buf = pl" unfolding q(2)[symmetric] by simp_all
    have f: "fetch (?p + 1) (length ?buf - (?p + 1)) ?buf = Some pl"
      unfolding fetch_def x(2) n by simp
    have "?p + 1 < length ?buf" using n pb(2) by simp
    then show ?thesis using l tk x f m n by (simp add: parse_opts_payload_def Let_def)
  qed
  show ?thesis using h t o by (simp add: parse_packet_def)
qed

text \<open>C8. Round trip over UDP: a message of version 1 whose options are in order, with every delta and length
  below 269, and which fits in the buffer, is encoded, and parsing the bytes sent gives the same message,
  with its options counted.\<close>

theorem coap_roundtrip:
  assumes "msg_ok msg" and "udp_like proto" and "length (msg_bytes proto msg) \<le> length buf" and "length buf = nat sndlen"
  shows "\<exists>n buf'. build_byte_stream proto (Some buf) sndlen msg = Some (n, Some buf') \<and> 0 < n \<and> n \<le> sndlen \<and>
    parse_packet (take (nat n) buf') proto [] = Some (Inr (msg\<lparr>cm_optcnt := of_nat (length (cm_option msg))\<rparr>), [])"
proof -
  have hd: "snd (build_header proto msg) = 0" "length (fst (build_header proto msg)) = 4"
    using assms(2) by (simp_all add: build_header_def Let_def)
  have le: "4 + length (token_bytes msg) \<le> length (msg_bytes proto msg)" using hd(2) by (simp add: msg_bytes_def)
  then have "snd (build_header proto msg) + int (length (fst (build_header proto msg))) + int (length (token_bytes msg)) \<le> sndlen"
    using hd assms(3,4) by linarith
  note b = build_put[OF assms(1) this assms(3)]
  obtain buf' where buf': "put 0 (msg_bytes proto msg) buf = Some buf'" using put_fits[of 0 _ buf] assms(3) by auto
  then have "take (length (msg_bytes proto msg)) buf' = msg_bytes proto msg" by (auto dest!: put_SomeD)
  then show ?thesis using b buf' parse_written[OF assms(1,2)] le assms(3,4) by auto
qed

text \<open>A request with a token, two options and a payload: the concrete input of the witnesses.\<close>

definition demo_coap :: coap_msg where
  "demo_coap = zero_msg\<lparr>cm_head := \<lparr>ch_ver = 1, ch_t = 0, ch_tkl = 2, ch_code = 1, ch_msgid0 = 7, ch_msgid1 = 8\<rparr>,
     cm_tok := Some [1, 2], cm_option := [\<lparr>co_optnum = 11, co_optlen = 1, co_value = [97]\<rparr>, \<lparr>co_optnum = 258, co_optlen = 0, co_value = []\<rparr>],
     cm_marker := 0xFF, cm_payload := Some [3]\<rparr>"

theorem coap_roundtrip_witness:
  "\<exists>n buf'. build_byte_stream COAP_PROTO_UDP (Some (replicate 32 0)) 32 demo_coap = Some (n, Some buf') \<and> 0 < n \<and> n \<le> 32 \<and>
    parse_packet (take (nat n) buf') COAP_PROTO_UDP [] = Some (Inr (demo_coap\<lparr>cm_optcnt := 2\<rparr>), [])"
proof -
  have "msg_ok demo_coap" by (simp add: demo_coap_def msg_ok_def token_bytes_def zero_msg_def)
  moreover have "udp_like COAP_PROTO_UDP" by (simp add: udp_like_def)
  moreover have "length (msg_bytes COAP_PROTO_UDP demo_coap) \<le> length (replicate 32 (0 :: u8))"
    by (simp add: demo_coap_def msg_bytes_def build_header_def udp_like_def token_bytes_def payload_bytes_def opt_bytes_def
      option_head_def opt_nibble_def extra_bytes_def Let_def)
  ultimately show ?thesis using coap_roundtrip[of demo_coap COAP_PROTO_UDP "replicate 32 0" 32] by (simp add: demo_coap_def)
qed

text \<open>An option whose delta is 269 or more is sent with a number that is 14 too small: the encoder subtracts 283
  where the parser adds 269, so the receiver reads another option.\<close>

theorem coap_long_delta:
  assumes "0 \<le> sd" and "sd + 269 \<le> uint (co_optnum opt)" and "uint (co_optlen opt) < 269"
    and "unat (co_optlen opt) = length (co_value opt)" and "length (opt_bytes sd opt) \<le> length buf"
  shows "\<exists>buf' msg'. encode_option opt sd buf 0 len = Some (buf', int (length (opt_bytes sd opt))) \<and>
    parse_one_option msg (word_of_int sd) (take (length (opt_bytes sd opt)) buf') 0 [] =
      Some (0, msg', co_optnum opt - 14, length (opt_bytes sd opt), []) \<and>
    cm_option msg' = cm_option msg @ [opt\<lparr>co_optnum := co_optnum opt - 14\<rparr>]"
proof -
  let ?n = "uint (co_optnum opt)" and ?l = "uint (co_optlen opt)" and ?b = "opt_bytes sd opt"
  obtain buf' where buf': "put 0 ?b buf = Some buf'" using put_fits[of 0 ?b buf] assms(5) by auto
  have e: "encode_option opt sd buf 0 len = Some (buf', int (length ?b))"
    using encode_option_put[of sd opt buf 0 len] assms(2,4) buf' by simp
  have t: "take (length ?b) buf' = ?b" using buf' by (auto dest!: put_SomeD)
  have n: "?n < 65536" "?l < 65536" using uint_lt2p[of "co_optnum opt"] uint_lt2p[of "co_optlen opt"] by simp_all
  have b: "?b = [] @ option_head (?n - sd) ?l @ co_value opt" by (simp add: opt_bytes_def)
  have l: "(word_of_int (wire_val ?l) :: u16) = co_optlen opt" "(word_of_int (wire_val (?n - sd)) :: u16) = word_of_int (?n - sd) - 14"
    using assms(2,3) by (simp_all add: wire_val_def)
  have "parse_option_head ?b (length ([] :: bytes)) = Some (Inr (word_of_int (?n - sd) - 14, co_optlen opt, length (option_head (?n - sd) ?l)))"
    using parse_written_head[OF _ _ _ _ b] assms(1-4) n unfolding l by simp
  then have h: "parse_option_head ?b 0 = Some (Inr (word_of_int (?n - sd) - 14, co_optlen opt, length (option_head (?n - sd) ?l)))"
    by simp
  have f: "fetch (length (option_head (?n - sd) ?l)) (unat (co_optlen opt)) ?b = Some (co_value opt)"
    using assms(4) by (simp add: fetch_def opt_bytes_def)
  have s: "word_of_int (?n - sd) - 14 + word_of_int sd = co_optnum opt - 14" "word_of_int sd + (word_of_int (?n - sd) - 14) = co_optnum opt - 14"
    by simp_all
  have "parse_one_option msg (word_of_int sd) ?b 0 [] = Some (0,
      msg\<lparr>cm_optcnt := cm_optcnt msg + 1, cm_option := cm_option msg @ [opt\<lparr>co_optnum := co_optnum opt - 14\<rparr>]\<rparr>,
      co_optnum opt - 14, length ?b, [])"
    using h f s assms(4) by (simp add: parse_one_option_def opt_bytes_def)
  then show ?thesis using e t by simp
qed

theorem coap_long_delta_witness:
  "\<exists>buf' msg'. encode_option \<lparr>co_optnum = 2048, co_optlen = 1, co_value = [9]\<rparr> 0 (replicate 8 0) 0 0 = Some (buf', 4) \<and>
    parse_one_option zero_msg 0 (take 4 buf') 0 [] = Some (0, msg', 2034, 4, []) \<and>
    cm_option msg' = [\<lparr>co_optnum = 2034, co_optlen = 1, co_value = [9]\<rparr>]"
proof -
  let ?o = "\<lparr>co_optnum = 2048, co_optlen = 1, co_value = [9]\<rparr>"
  have "length (opt_bytes 0 ?o) = 4"
    by (simp add: opt_bytes_def option_head_def opt_nibble_def extra_bytes_def)
  then show ?thesis using coap_long_delta[of 0 ?o "replicate 8 0" 0 zero_msg] by (simp add: zero_msg_def)
qed

text \<open>C40. Over UDP the encoder checks the buffer against the header and the token only: a message whose options and payload do not
  fit is written past the end of the buffer.\<close>

theorem coap_build_overflows:
  assumes "udp_like proto" and "msg_ok msg" and "length buf = nat sndlen"
    and "4 + int (length (token_bytes msg)) \<le> sndlen" and "sndlen < int (length (msg_bytes proto msg))"
  shows "build_byte_stream proto (Some buf) sndlen msg = None"
proof -
  obtain hd where h: "build_header proto msg = (hd, 0)" "length hd = 4" using assms(1) by (simp add: build_header_def Let_def)
  let ?t = "token_bytes msg" and ?o = "opts_bytes 0 (cm_option msg)"
  have ok: "opts_ok 0 (cm_option msg)" using assms(2) by (simp add: msg_ok_def)
  have fit: "length hd + length ?t \<le> length buf" using assms(3,4) h(2) by linarith
  obtain b1 where b1: "put 0 hd buf = Some b1" "length b1 = length buf" using put_fits[of 0 hd buf] fit by auto
  obtain b2 where b2: "put (length hd) ?t b1 = Some b2" "length b2 = length buf" using put_fits[of "length hd" ?t b1] b1 fit by auto
  have long: "length buf < length hd + length ?t + length ?o + length (payload_bytes msg)"
    using assms(3,5) h by (simp add: msg_bytes_def)
  show ?thesis
  proof (cases "put (length hd + length ?t) ?o b2")
    case None
    then have "?o \<noteq> []" using b2 fit by (auto simp: put_def split: if_splits)
    then have "cm_option msg \<noteq> []" by auto
    then show ?thesis using h b1 b2 None encode_options_put[OF ok] assms(4)
      by (simp add: build_byte_stream_def token_sent[OF assms(2)])
  next
    case (Some b3)
    then have l3: "length hd + length ?t + length ?o \<le> length buf" "length b3 = length buf"
      using b2(2) by (auto dest!: put_SomeD)
    have e: "encode_options (cm_option msg) 0 b2 (length hd + length ?t) len = Some (b3, length hd + length ?t + length ?o)" for len
    proof (cases "cm_option msg = []")
      case True
      then have "b3 = b2" using Some b2 by (auto simp: put_def split: if_splits)
      then show ?thesis using True by simp
    qed (use encode_options_put[OF ok] Some in simp)
    obtain pl where pl: "cm_payload msg = Some pl" using long l3 by (auto simp: payload_bytes_def split: option.splits)
    then have lp: "length (payload_bytes msg) = 1 + length pl" by (simp add: payload_bytes_def)
    have "\<not> (length hd + length ?t + length ?o + 1 + length pl \<le> length buf)" using long lp by linarith
    then have "Option.bind (put (length hd + length ?t + length ?o) [cm_marker msg] b3)
        (\<lambda>b. Option.bind (put (length hd + length ?t + length ?o + 1) pl b) f) = None" for f :: "bytes \<Rightarrow> 'c option"
      using l3 by (auto simp: put_def)
    then show ?thesis using h b1 b2 e pl assms(4)
      by (simp add: build_byte_stream_def token_sent[OF assms(2)] Let_def)
  qed
qed

theorem coap_build_overflows_witness:
  "build_byte_stream COAP_PROTO_UDP (Some (replicate 10 0)) 10 demo_coap = None"
proof (rule coap_build_overflows)
  show "msg_ok demo_coap" by (simp add: demo_coap_def msg_ok_def token_bytes_def zero_msg_def)
  show "10 < int (length (msg_bytes COAP_PROTO_UDP demo_coap))"
    by (simp add: demo_coap_def msg_bytes_def build_header_def udp_like_def token_bytes_def payload_bytes_def opt_bytes_def
      option_head_def opt_nibble_def extra_bytes_def Let_def)
qed (simp_all add: udp_like_def demo_coap_def token_bytes_def)

section \<open>The list of options\<close>

lemma opt_insert_split:
  "sorted (map co_optnum opts) \<Longrightarrow> opts \<noteq> [] \<Longrightarrow> co_optnum (hd opts) \<le> co_optnum new \<Longrightarrow>
     opt_insert new opts = takeWhile (\<lambda>o'. co_optnum o' \<le> co_optnum new) opts @ new # dropWhile (\<lambda>o'. co_optnum o' \<le> co_optnum new) opts"
  by (induction new opts rule: opt_insert.induct) (auto simp: not_less)

text \<open>Adding an option keeps the list in order: the new option goes behind all options of a number that is not
  larger, so options of the same number stay in the order in which they were added.\<close>

theorem coap_options_sorted:
  fixes opt :: u16
  assumes "sorted (map co_optnum head)" and "0 < len" and "len \<le> length value"
  defines "new \<equiv> \<lparr>co_optnum = opt, co_optlen = of_nat len, co_value = take len value\<rparr>"
  shows "\<exists>opts. add_option_to_list head opt (Some value) len [] = Some (opts, []) \<and> sorted (map co_optnum opts) \<and>
    opts = takeWhile (\<lambda>o'. co_optnum o' \<le> opt) head @ new # dropWhile (\<lambda>o'. co_optnum o' \<le> opt) head"
proof -
  let ?opts = "takeWhile (\<lambda>o'. co_optnum o' \<le> opt) head @ new # dropWhile (\<lambda>o'. co_optnum o' \<le> opt) head"
  have n: "co_optnum new = opt" by (simp add: new_def)
  have "(case head of [] \<Rightarrow> [new] | tmp # _ \<Rightarrow> if co_optnum tmp > opt then new # head else opt_insert new head) = ?opts"
  proof (cases head)
    case (Cons o' os)
    then show ?thesis using opt_insert_split[of head new] assms(1) n by (cases "co_optnum o' > opt") auto
  qed simp
  moreover have "add_option_to_list head opt (Some value) len [] =
    Some (case head of [] \<Rightarrow> [new] | tmp # _ \<Rightarrow> if co_optnum tmp > opt then new # head else opt_insert new head, [])"
    using assms(2,3) unfolding new_def by (simp add: add_option_to_list_def fetch_def Let_def)
  ultimately have "add_option_to_list head opt (Some value) len [] = Some (?opts, [])" by simp
  moreover have "sorted (map co_optnum ?opts)"
  proof -
    have s: "sorted (map co_optnum (takeWhile (\<lambda>o'. co_optnum o' \<le> opt) head @ dropWhile (\<lambda>o'. co_optnum o' \<le> opt) head))"
      using assms(1) by simp
    have "opt \<le> co_optnum x" if x: "x \<in> set (dropWhile (\<lambda>o'. co_optnum o' \<le> opt) head)" for x
    proof -
      obtain y ys where y: "dropWhile (\<lambda>o'. co_optnum o' \<le> opt) head = y # ys" using x by (cases "dropWhile (\<lambda>o'. co_optnum o' \<le> opt) head") auto
      then have "\<not> co_optnum y \<le> opt" using hd_dropWhile[of "\<lambda>o'. co_optnum o' \<le> opt" head] by simp
      moreover have "co_optnum y \<le> co_optnum x" using s x unfolding y by (auto simp: sorted_append)
      ultimately show ?thesis by (meson linear order_trans)
    qed
    moreover have "sorted (map co_optnum (takeWhile (\<lambda>o'. co_optnum o' \<le> opt) head))"
      "sorted (map co_optnum (dropWhile (\<lambda>o'. co_optnum o' \<le> opt) head))"
      using s unfolding map_append sorted_append by blast+
    ultimately show ?thesis using n by (fastforce simp: sorted_append dest: set_takeWhileD intro: order_trans)
  qed
  ultimately show ?thesis by blast
qed

theorem coap_options_sorted_witness:
  "\<exists>opts. add_option_to_list [\<lparr>co_optnum = 11, co_optlen = 1, co_value = [97]\<rparr>] 6 (Some [0]) 1 [] = Some (opts, []) \<and>
    sorted (map co_optnum opts) \<and> length opts = 2"
  using coap_options_sorted[of "[\<lparr>co_optnum = 11, co_optlen = 1, co_value = [97]\<rparr>]" 1 "[0]" 6] by simp

end
