(* ===== verification/CoapQueue.thy ===== *)
theory CoapQueue
  imports CoapMsg
begin

text \<open>
  The context of a CoAP connection and its queues, from \<^verbatim>\<open>coap_core.h\<close> and \<^verbatim>\<open>coap_core.c\<close>. The resend queue is the
  list of its nodes; the \<^verbatim>\<open>time\<close> of a node is relative to the node before it, the first one to the base time
  of the context. The send queue holds the addresses of its messages. The clock \<^verbatim>\<open>litecoap_time\<close> is a
  sequence of readings, the outcomes of \<^verbatim>\<open>litecoap_malloc\<close> are an oracle. The network and the
  handlers of resources are functions on a state of their own; the response handler, which may call the library
  again, is the address of a function.
\<close>

section \<open>Data\<close>

record send_queue =
  sq_timeout :: u64
  sq_time :: u64
  sq_msg :: coap_msg
  sq_cnt :: u8

text \<open>A resource: the strings of its path without their terminators, and the handler, which completes the response.\<close>

record 'w coap_res =
  re_method :: u8
  re_handler :: "(coap_msg \<Rightarrow> coap_msg \<Rightarrow> 'w \<Rightarrow> coap_msg \<times> 'w) option"
  re_count :: int
  re_elems :: "bytes list"

text \<open>\<open>net_read\<close> gives its result and the bytes it stored; \<open>net_send\<close> gets the send buffer and the size.\<close>

record 'w coap_context =
  cx_proto :: u8
  cx_msgid :: u16
  cx_sndbuf :: "bytes option"
  cx_sndlen :: int
  cx_net_read :: "'w \<Rightarrow> (int \<times> bytes) \<times> 'w"
  cx_net_send :: "bytes option \<Rightarrow> int \<Rightarrow> 'w \<Rightarrow> int \<times> 'w"
  cx_handler :: "nat option"
  cx_resndque :: "send_queue list"
  cx_sndque :: "nat list"
  cx_res :: "'w coap_res list option"
  cx_max_retransmit :: u8
  cx_ack_timeout :: "u16 \<times> u16"
  cx_ack_random :: "u16 \<times> u16"
  cx_base_time :: u64
  cx_mallocs :: "bool list"
  cx_clock :: "nat \<Rightarrow> u64"
  cx_ticks :: nat
  cx_world :: 'w

definition cx_malloc :: "'w coap_context \<Rightarrow> bool \<times> 'w coap_context" where
  "cx_malloc ctx = (let (ok, os) = alloc (cx_mallocs ctx) in (ok, ctx\<lparr>cx_mallocs := os\<rparr>))"

definition litecoap_time :: "'w coap_context \<Rightarrow> u64 \<times> 'w coap_context" where
  "litecoap_time ctx = (cx_clock ctx (cx_ticks ctx), ctx\<lparr>cx_ticks := Suc (cx_ticks ctx)\<rparr>)"

definition litecoap_register_handler ::
  "nat option \<Rightarrow> 'w coap_context \<Rightarrow> int \<times> 'w coap_context" where
  "litecoap_register_handler f ctx = (LITECOAP_OK, ctx\<lparr>cx_handler := f\<rparr>)"

definition litecoap_add_resource ::
  "'w coap_res list option \<Rightarrow> 'w coap_context \<Rightarrow> int \<times> 'w coap_context" where
  "litecoap_add_resource res ctx = (LITECOAP_OK, ctx\<lparr>cx_res := res\<rparr>)"

section \<open>The resend queue\<close>

text \<open>
  The timeout of the first node, in C \<^verbatim>\<open>int\<close> arithmetic: an overflow or a shift by a negative count is undefined.
\<close>

definition resend_timeout :: "'w coap_context \<Rightarrow> u64 option" where
  "resend_timeout ctx =
     (if cx_max_retransmit ctx = 0 then None
      else do {
        a \<leftarrow> c_int (uint (fst (cx_ack_timeout ctx)) * 1000 + uint (snd (cx_ack_timeout ctx)));
        s \<leftarrow> c_int (2 * 2 ^ (unat (cx_max_retransmit ctx) - 1));
        x \<leftarrow> c_int (a * s);
        r \<leftarrow> c_int (uint (fst (cx_ack_random ctx)) * 1000 + uint (snd (cx_ack_random ctx)));
        y \<leftarrow> c_int (x * r);
        Some (word_of_int (y div 1000)) })"

text \<open>The head of a list with its time reduced.\<close>

fun less_time :: "u64 \<Rightarrow> send_queue list \<Rightarrow> send_queue list" where
  "less_time t [] = []"
| "less_time t (s # ss) = s\<lparr>sq_time := sq_time s - t\<rparr> # ss"

text \<open>The \<^verbatim>\<open>do .. while\<close> loop: the node goes behind every node that is not due later.\<close>

fun resnd_walk :: "send_queue \<Rightarrow> send_queue list \<Rightarrow> send_queue list" where
  "resnd_walk tmp [] = [tmp]"
| "resnd_walk tmp (s # ss) =
     (let tmp = tmp\<lparr>sq_time := sq_time tmp - sq_time s\<rparr> in
      if ss \<noteq> [] \<and> sq_time (hd ss) \<le> sq_time tmp then s # resnd_walk tmp ss
      else s # tmp # less_time (sq_time tmp) ss)"

definition litecoap_addto_resndqueue :: "coap_msg \<Rightarrow> 'w coap_context \<Rightarrow> (int \<times> 'w coap_context) option" where
  "litecoap_addto_resndqueue msg ctx =
     (case cx_malloc ctx of
        (False, ctx) \<Rightarrow> Some (LITECOAP_MALLOC_FAILED, ctx)
      | (True, ctx) \<Rightarrow>
          (let (now, ctx) = litecoap_time ctx; tmp = \<lparr>sq_timeout = 0, sq_time = 0, sq_msg = msg, sq_cnt = 0\<rparr> in
           case cx_resndque ctx of
             [] \<Rightarrow> do { t \<leftarrow> resend_timeout ctx;
                       Some (LITECOAP_OK, ctx\<lparr>cx_base_time := now,
                             cx_resndque := [tmp\<lparr>sq_timeout := t, sq_time := t\<rparr>]\<rparr>) }
           | s # ss \<Rightarrow>
               (let tmp = tmp\<lparr>sq_time := (now - cx_base_time ctx) + sq_timeout tmp\<rparr> in
                Some (LITECOAP_OK, ctx\<lparr>cx_resndque :=
                  (if sq_time s > sq_time tmp then tmp # less_time (sq_time tmp) (s # ss)
                   else resnd_walk tmp (s # ss))\<rparr>))))"

text \<open>The loop that runs over the nodes from \<^verbatim>\<open>before\<close> on: it adds the time of the removed node to all but the last.\<close>

fun shift_times :: "u64 \<Rightarrow> send_queue list \<Rightarrow> send_queue list" where
  "shift_times t [] = []"
| "shift_times t [s] = [s]"
| "shift_times t (s # s' # ss) = s\<lparr>sq_time := sq_time s + t\<rparr> # shift_times t (s' # ss)"

definition same_msgid :: "coap_msg \<Rightarrow> coap_msg \<Rightarrow> bool" where
  "same_msgid a b \<longleftrightarrow> ch_msgid0 (cm_head a) = ch_msgid0 (cm_head b) \<and> ch_msgid1 (cm_head a) = ch_msgid1 (cm_head b)"

text \<open>The search behind the node \<open>before\<close>.\<close>

fun remove_resnd :: "coap_msg \<Rightarrow> send_queue \<Rightarrow> send_queue list \<Rightarrow> send_queue list" where
  "remove_resnd rcvmsg before [] = [before]"
| "remove_resnd rcvmsg before (tmp # ss) =
     (if same_msgid rcvmsg (sq_msg tmp) then shift_times (sq_time tmp) (before # ss)
      else before # remove_resnd rcvmsg tmp ss)"

definition litecoap_remove_resndqueue :: "coap_msg \<Rightarrow> 'w coap_context \<Rightarrow> int \<times> 'w coap_context" where
  "litecoap_remove_resndqueue rcvmsg ctx =
     (LITECOAP_OK, ctx\<lparr>cx_resndque :=
        (case cx_resndque ctx of
           [] \<Rightarrow> []
         | tmp # ss \<Rightarrow> if same_msgid rcvmsg (sq_msg tmp) then ss else remove_resnd rcvmsg tmp ss)\<rparr>)"

definition litecoap_discard_resndqueue :: "'w coap_context \<Rightarrow> int \<times> 'w coap_context" where
  "litecoap_discard_resndqueue ctx = (LITECOAP_OK, ctx\<lparr>cx_resndque := []\<rparr>)"

section \<open>The send queue\<close>

definition litecoap_addto_sndqueue :: "nat \<Rightarrow> 'w coap_context \<Rightarrow> int \<times> 'w coap_context" where
  "litecoap_addto_sndqueue msg ctx =
     (case cx_malloc ctx of
        (False, ctx) \<Rightarrow> (LITECOAP_MALLOC_FAILED, ctx)
      | (True, ctx) \<Rightarrow> (LITECOAP_OK, ctx\<lparr>cx_sndque := msg # cx_sndque ctx\<rparr>))"

definition litecoap_remove_sndqueue :: "nat \<Rightarrow> 'w coap_context \<Rightarrow> int \<times> 'w coap_context" where
  "litecoap_remove_sndqueue msg ctx = (LITECOAP_OK, ctx\<lparr>cx_sndque := remove1 msg (cx_sndque ctx)\<rparr>)"

section \<open>Deadlines\<close>

text \<open>When the nodes are due, as the code that reads the queue takes it: the sums of the times.\<close>

fun deadlines :: "nat \<Rightarrow> send_queue list \<Rightarrow> nat list" where
  "deadlines base [] = []"
| "deadlines base (s # ss) = (base + unat (sq_time s)) # deadlines (base + unat (sq_time s)) ss"

lemma deadlines_ge: "x \<in> set (deadlines base ss) \<Longrightarrow> base \<le> x"
  by (induction ss arbitrary: base) (auto dest: add_leD1)

lemma deadlines_sorted: "sorted (deadlines base ss)"
  by (induction ss arbitrary: base) (auto dest: deadlines_ge)

lemma deadlines_less_time:
  assumes "ss = [] \<or> t \<le> sq_time (hd ss)"
  shows "deadlines (base + unat t) (less_time t ss) = deadlines base ss"
proof (cases ss)
  case (Cons s rest)
  then have "unat (sq_time s - t) = unat (sq_time s) - unat t" "unat t \<le> unat (sq_time s)"
    using assms by (auto simp: unat_sub word_le_nat_alt)
  then show ?thesis using Cons by simp
qed simp

lemma insort_front: "\<forall>y \<in> set ys. x \<le> y \<Longrightarrow> insort x ys = x # ys"
  by (cases ys) auto

lemma deadlines_front:
  "ss = [] \<or> sq_time tmp \<le> sq_time (hd ss) \<Longrightarrow>
     deadlines base (tmp # less_time (sq_time tmp) ss) = insort (base + unat (sq_time tmp)) (deadlines base ss)"
proof -
  assume a: "ss = [] \<or> sq_time tmp \<le> sq_time (hd ss)"
  have "\<forall>y \<in> set (deadlines base ss). base + unat (sq_time tmp) \<le> y"
  proof (cases ss)
    case (Cons s rest)
    then have "unat (sq_time tmp) \<le> unat (sq_time s)" using a by (simp add: word_le_nat_alt)
    then show ?thesis using Cons by (fastforce dest: deadlines_ge)
  qed simp
  then show ?thesis using deadlines_less_time[OF a] by (simp add: insort_front)
qed

text \<open>The walk inserts the new deadline and keeps those of the queue.\<close>

lemma deadlines_walk:
  "ss = [] \<or> sq_time (hd ss) \<le> sq_time tmp \<Longrightarrow>
     deadlines base (resnd_walk tmp ss) = insort (base + unat (sq_time tmp)) (deadlines base ss)"
proof (induction tmp ss arbitrary: base rule: resnd_walk.induct)
  case (2 tmp s ss)
  let ?tmp = "tmp\<lparr>sq_time := sq_time tmp - sq_time s\<rparr>"
  have le: "sq_time s \<le> sq_time tmp" using 2(2) by simp
  then have u: "unat (sq_time tmp - sq_time s) = unat (sq_time tmp) - unat (sq_time s)" "unat (sq_time s) \<le> unat (sq_time tmp)"
    by (simp_all add: unat_sub word_le_nat_alt)
  have i: "insort (base + unat (sq_time tmp)) (deadlines base (s # ss)) =
    (base + unat (sq_time s)) # insort (base + unat (sq_time s) + unat (sq_time ?tmp)) (deadlines (base + unat (sq_time s)) ss)"
    using u by (cases "unat (sq_time s) = unat (sq_time tmp)") (auto simp: insort_front deadlines_ge)
  show ?case
  proof (cases "ss \<noteq> [] \<and> sq_time (hd ss) \<le> sq_time ?tmp")
    case True
    then show ?thesis using 2(1)[of ?tmp] i by (simp add: Let_def)
  next
    case False
    then have "ss = [] \<or> sq_time ?tmp \<le> sq_time (hd ss)" by (metis linear)
    moreover have "resnd_walk tmp (s # ss) = s # ?tmp # less_time (sq_time ?tmp) ss"
      by (subst resnd_walk.simps, subst Let_def, subst if_not_P[OF False], rule refl)
    ultimately show ?thesis using deadlines_front[of ss ?tmp "base + unat (sq_time s)"] i by simp
  qed
qed simp

text \<open>C30. A message that is queued for retransmission joins the others in the order of the deadlines: the deadlines of the messages in
  the queue stay, and the new one is due at the very time it is queued, for its timeout is 0.\<close>

theorem coap_resend_deadlines:
  assumes "cx_mallocs ctx = []" and "cx_resndque ctx \<noteq> []" and "litecoap_addto_resndqueue msg ctx = Some (ret, ctx')"
  shows "ret = LITECOAP_OK \<and> deadlines 0 (cx_resndque ctx') =
    insort (unat (cx_clock ctx (cx_ticks ctx) - cx_base_time ctx)) (deadlines 0 (cx_resndque ctx))"
proof -
  obtain s ss where q: "cx_resndque ctx = s # ss" using assms(2) by (cases "cx_resndque ctx") auto
  let ?t = "cx_clock ctx (cx_ticks ctx) - cx_base_time ctx"
  let ?tmp = "\<lparr>sq_timeout = 0, sq_time = ?t, sq_msg = msg, sq_cnt = 0\<rparr>"
  have r: "ret = LITECOAP_OK" "cx_resndque ctx' = (if sq_time s > ?t then ?tmp # less_time ?t (s # ss) else resnd_walk ?tmp (s # ss))"
    using assms q by (auto simp: litecoap_addto_resndqueue_def cx_malloc_def litecoap_time_def Let_def)
  then show ?thesis
    using deadlines_front[of "s # ss" ?tmp 0] deadlines_walk[of "s # ss" ?tmp 0] q
    by (cases "sq_time s > ?t") (simp_all del: deadlines.simps less_time.simps resnd_walk.simps)
qed

text \<open>A queue of two messages, 100 ms after its base time: the concrete input of the witnesses.\<close>

definition demo_queue :: "send_queue list" where
  "demo_queue = [\<lparr>sq_timeout = 30, sq_time = 30, sq_msg = zero_msg, sq_cnt = 0\<rparr>,
                 \<lparr>sq_timeout = 0, sq_time = 40, sq_msg = demo_coap, sq_cnt = 0\<rparr>]"

definition demo_ctx :: "nat coap_context" where
  "demo_ctx = \<lparr>cx_proto = COAP_PROTO_UDP, cx_msgid = 5, cx_sndbuf = Some (replicate 32 0), cx_sndlen = 32,
     cx_net_read = (\<lambda>w. ((4, [0x50, 0, 0, 9]), w)), cx_net_send = (\<lambda>buf n w. (n, w + 1)), cx_handler = None,
     cx_resndque = demo_queue, cx_sndque = [], cx_res = None, cx_max_retransmit = 4, cx_ack_timeout = (2, 0),
     cx_ack_random = (1, 500), cx_base_time = 1000, cx_mallocs = [], cx_clock = (\<lambda>n. 1100 + of_nat n), cx_ticks = 0, cx_world = 0\<rparr>"

theorem coap_resend_deadlines_witness:
  "\<exists>ctx'. litecoap_addto_resndqueue zero_msg demo_ctx = Some (LITECOAP_OK, ctx') \<and> deadlines 0 (cx_resndque ctx') = [30, 70, 100]"
proof -
  obtain ret ctx' where r: "litecoap_addto_resndqueue zero_msg demo_ctx = Some (ret, ctx')"
    by (simp add: litecoap_addto_resndqueue_def cx_malloc_def litecoap_time_def Let_def demo_ctx_def demo_queue_def)
  have "cx_mallocs demo_ctx = []" "cx_resndque demo_ctx \<noteq> []" by (simp_all add: demo_ctx_def demo_queue_def)
  from coap_resend_deadlines[OF this r] r show ?thesis
    by (simp add: demo_ctx_def demo_queue_def)
qed

section \<open>Removing an acknowledged message\<close>

lemma deadlines_append:
  "deadlines base (xs @ ys) = deadlines base xs @ deadlines (last (base # deadlines base xs)) ys"
  by (induction xs arbitrary: base) auto

lemma length_deadlines [simp]: "length (deadlines base ss) = length ss"
  by (induction ss arbitrary: base) auto

lemma deadlines_shift: "deadlines (base + k) ss = map (\<lambda>d. d + k) (deadlines base ss)"
proof (induction ss arbitrary: base)
  case (Cons s ss)
  show ?case using Cons[of "base + unat (sq_time s)"] by (simp add: add.assoc add.left_commute add.commute)
qed simp

lemma remove_resnd_found:
  "\<lbrakk>\<forall>s \<in> set pre. \<not> same_msgid rcv (sq_msg s); same_msgid rcv (sq_msg m)\<rbrakk> \<Longrightarrow>
     remove_resnd rcv b (pre @ m # post) = butlast (b # pre) @ shift_times (sq_time m) (last (b # pre) # post)"
  by (induction pre arbitrary: b) auto

text \<open>The acknowledgement of a message moves the deadlines of others. When its message is the first of the queue, all others are
  due earlier by its time; when it is in the middle, the message before it gets its
  deadline.\<close>

theorem coap_remove_shifts:
  assumes "cx_resndque ctx = pre @ m # post" and "\<forall>s \<in> set pre. \<not> same_msgid rcv (sq_msg s)" and "same_msgid rcv (sq_msg m)"
  shows "\<exists>ctx'. litecoap_remove_resndqueue rcv ctx = (LITECOAP_OK, ctx') \<and>
    (pre = [] \<longrightarrow> deadlines 0 (cx_resndque ctx') = map (\<lambda>d. d - unat (sq_time m)) (tl (deadlines 0 (cx_resndque ctx)))) \<and>
    (pre \<noteq> [] \<and> post \<noteq> [] \<and> unat (sq_time (last pre)) + unat (sq_time m) < 2 ^ 64 \<longrightarrow>
       deadlines 0 (cx_resndque ctx') ! (length pre - 1) = deadlines 0 (cx_resndque ctx) ! length pre)"
proof (cases pre)
  case Nil
  then have q: "cx_resndque (snd (litecoap_remove_resndqueue rcv ctx)) = post"
    using assms by (simp add: litecoap_remove_resndqueue_def)
  have "deadlines 0 post = map (\<lambda>d. d - unat (sq_time m)) (deadlines (0 + unat (sq_time m)) post)"
    unfolding deadlines_shift by (simp add: o_def)
  then show ?thesis using Nil assms(1) q
    by (intro exI[of _ "snd (litecoap_remove_resndqueue rcv ctx)"]) (simp add: litecoap_remove_resndqueue_def)
next
  case (Cons b pre')
  let ?a = "last pre" and ?q = "cx_resndque (snd (litecoap_remove_resndqueue rcv ctx))"
  have q: "?q = butlast pre @ shift_times (sq_time m) (?a # post)"
    using assms Cons remove_resnd_found[of pre' rcv m b post] by (simp add: litecoap_remove_resndqueue_def)
  have p: "pre = butlast pre @ [?a]" using Cons by simp
  have "deadlines 0 ?q ! (length pre - 1) = deadlines 0 (cx_resndque ctx) ! length pre"
    if "post \<noteq> []" "unat (sq_time ?a) + unat (sq_time m) < 2 ^ 64"
  proof -
    obtain c post' where c: "post = c # post'" using \<open>post \<noteq> []\<close> by (meson neq_Nil_conv)
    have "unat (sq_time ?a + sq_time m) = unat (sq_time ?a) + unat (sq_time m)" using that(2) by (simp add: unat_word_ariths)
    then have "deadlines 0 ?q ! length (butlast pre) = last (0 # deadlines 0 (butlast pre)) + unat (sq_time ?a) + unat (sq_time m)"
      unfolding q c by (simp add: deadlines_append nth_append)
    moreover have "deadlines 0 (butlast pre @ [?a] @ m # post) ! Suc (length (butlast pre)) =
        last (0 # deadlines 0 (butlast pre)) + unat (sq_time ?a) + unat (sq_time m)"
      by (simp add: deadlines_append nth_append)
    ultimately show ?thesis using assms(1) p Cons by (metis append.assoc length_butlast length_append_singleton)
  qed
  then show ?thesis using Cons
    by (intro exI[of _ "snd (litecoap_remove_resndqueue rcv ctx)"]) (simp add: litecoap_remove_resndqueue_def)
qed

theorem coap_remove_shifts_witness:
  "deadlines 0 (cx_resndque (snd (litecoap_remove_resndqueue zero_msg demo_ctx))) = [40]"
proof -
  have "same_msgid zero_msg (sq_msg (hd demo_queue))" by (simp add: same_msgid_def demo_queue_def)
  then show ?thesis
    using coap_remove_shifts[of demo_ctx "[]" "hd demo_queue" "tl demo_queue" zero_msg] by (auto simp: demo_ctx_def demo_queue_def)
qed

end
