(* ===== verification/CoapServer.thy ===== *)
theory CoapServer
  imports CoapQueue
begin

text \<open>
  Sending, receiving and the dispatch of requests, from \<^verbatim>\<open>coap_core.c\<close>. A response handler may call the library
  again: \<open>call\<close> gives what the function at an address does with the message and the context. An access
  to freed memory or outside a block, and a \<^verbatim>\<open>NULL\<close> that is followed, are \<open>None\<close>.
\<close>

abbreviation "LITECOAP_NG \<equiv> -1 :: int"
abbreviation "LITECOAP_ENCODE_PKG_SIZE_ERR \<equiv> -11 :: int"
abbreviation "LITECOAP_SOCKET_NETWORK_ERR \<equiv> -16 :: int"
abbreviation "COAP_OPTION_URI_PATH \<equiv> 11 :: u8"

definition COAP_RESP_CODE :: "nat \<Rightarrow> u8" where
  "COAP_RESP_CODE n = push_bit 5 (of_nat (n div 100)) OR of_nat (n mod 100)"

section \<open>Sending\<close>

text \<open>The \<^verbatim>\<open>do .. while\<close> loop; \<open>k\<close> tries are left after this one, of ten.\<close>

fun send_loop :: "nat \<Rightarrow> int \<Rightarrow> 'w coap_context \<Rightarrow> int \<times> 'w coap_context" where
  "send_loop k slen ctx =
     (let (n, w) = cx_net_send ctx (cx_sndbuf ctx) slen (cx_world ctx); ctx = ctx\<lparr>cx_world := w\<rparr>
      in if n = slen \<or> k = 0 then (n, ctx) else send_loop (k - 1) slen ctx)"

declare send_loop.simps [simp del]

definition is_con :: "coap_msg \<Rightarrow> 'w coap_context \<Rightarrow> bool" where
  "is_con msg ctx \<longleftrightarrow> ch_t (cm_head msg) = COAP_MESSAGE_CON \<and> udp_like (cx_proto ctx)"

definition ctx_build :: "coap_msg \<Rightarrow> 'w coap_context \<Rightarrow> (int \<times> 'w coap_context) option" where
  "ctx_build msg ctx = do {
     (n, buf) \<leftarrow> build_byte_stream (cx_proto ctx) (cx_sndbuf ctx) (cx_sndlen ctx) msg;
     Some (n, ctx\<lparr>cx_sndbuf := buf\<rparr>) }"

definition litecoap_send :: "coap_msg \<Rightarrow> 'w coap_context \<Rightarrow> (int \<times> 'w coap_context) option" where
  "litecoap_send msg ctx = do {
     ctx \<leftarrow> (if is_con msg ctx then map_option snd (litecoap_addto_resndqueue msg ctx) else Some ctx);
     (slen, ctx) \<leftarrow> ctx_build msg ctx;
     if slen > cx_sndlen ctx
     then Some (LITECOAP_SND_LEN_TOO_BIG, if is_con msg ctx then snd (litecoap_remove_resndqueue msg ctx) else ctx)
     else Some (send_loop 9 slen ctx) }"

text \<open>The second byte of the message id is a copy of the first one.\<close>

definition litecoap_send_back :: "coap_msg \<Rightarrow> u8 \<Rightarrow> 'w coap_context \<Rightarrow> (int \<times> 'w coap_context) option" where
  "litecoap_send_back rcvmsg type ctx =
     (case cx_malloc ctx of
        (False, ctx) \<Rightarrow> Some (LITECOAP_MALLOC_FAILED, ctx)
      | (True, ctx) \<Rightarrow> do {
          let newmsg = zero_msg\<lparr>cm_head := \<lparr>ch_ver = 1, ch_t = type, ch_tkl = 0, ch_code = 0,
                ch_msgid0 = ch_msgid0 (cm_head rcvmsg), ch_msgid1 = ch_msgid0 (cm_head rcvmsg)\<rparr>\<rparr>;
          (datalen, ctx) \<leftarrow> ctx_build newmsg ctx;
          if datalen < 0 then Some (LITECOAP_ENCODE_PKG_SIZE_ERR, ctx)
          else Some (LITECOAP_OK, ctx\<lparr>cx_world := snd (cx_net_send ctx (cx_sndbuf ctx) datalen (cx_world ctx))\<rparr>) })"

definition litecoap_send_rst :: "coap_msg \<Rightarrow> 'w coap_context \<Rightarrow> (int \<times> 'w coap_context) option" where
  "litecoap_send_rst rcvmsg = litecoap_send_back rcvmsg COAP_MESSAGE_RST"

definition litecoap_send_ack :: "coap_msg \<Rightarrow> 'w coap_context \<Rightarrow> (int \<times> 'w coap_context) option" where
  "litecoap_send_ack rcvmsg = litecoap_send_back rcvmsg COAP_MESSAGE_ACK"

text \<open>
  The node is the first one of the queue, as the only caller passes it: the queue is not empty. The result tells
  whether the node has been freed; it is still linked then. A shift by 64 or more is undefined.
\<close>

definition litecoap_retransmit :: "'w coap_context \<Rightarrow> (int \<times> bool \<times> 'w coap_context) option" where
  "litecoap_retransmit ctx =
     (case cx_resndque ctx of
        [] \<Rightarrow> Some (LITECOAP_PARAM_NULL, False, ctx)
      | node # nodes \<Rightarrow>
          if sq_cnt node < cx_max_retransmit ctx
          then do {
            let (now, ctx) = litecoap_time ctx;
            let cnt = sq_cnt node + 1;
            t \<leftarrow> (if unat cnt < 64 then Some (push_bit (unat cnt) (sq_timeout node)) else None);
            let node = node\<lparr>sq_cnt := cnt, sq_time := (now - cx_base_time ctx) + t\<rparr>;
            (_, ctx) \<leftarrow> litecoap_addto_resndqueue (sq_msg node) (ctx\<lparr>cx_resndque := node # nodes\<rparr>);
            (_, ctx) \<leftarrow> litecoap_send (sq_msg node) ctx;
            Some (LITECOAP_OK, True, ctx) }
          else Some (LITECOAP_OK, False, ctx))"

section \<open>Requests\<close>

definition litecoap_option_check_critical :: "coap_msg \<Rightarrow> int" where
  "litecoap_option_check_critical msg = LITECOAP_OK"

text \<open>The search for the first option with a number: \<open>i\<close> turns are left.\<close>

fun find_opts_loop ::
  "nat \<Rightarrow> coap_option list \<Rightarrow> u16 \<Rightarrow> coap_option list option \<Rightarrow> u8 \<Rightarrow> (coap_option list option \<times> u8) option" where
  "find_opts_loop 0 tmp num first count = Some (first, count)"
| "find_opts_loop (Suc i) [] num first count = None"
| "find_opts_loop (Suc i) (t # tmp) num first count =
     (if co_optnum t = num then find_opts_loop i tmp num (if first = None then Some (t # tmp) else first) (count + 1)
      else if first \<noteq> None then Some (first, count)
      else find_opts_loop i tmp num first count)"

definition litecoap_find_opts :: "coap_msg \<Rightarrow> u8 \<Rightarrow> (coap_option list option \<times> u8) option" where
  "litecoap_find_opts rcvmsg num = find_opts_loop (unat (cm_optcnt rcvmsg)) (cm_option rcvmsg) (ucast num) None 0"

text \<open>Whether \<open>n\<close> options are equal to the segments of the path; the array of the segments has its bounds.\<close>

fun path_match :: "nat \<Rightarrow> bytes list \<Rightarrow> coap_option list \<Rightarrow> bool option" where
  "path_match 0 elems tmp = Some True"
| "path_match (Suc n) (e # elems) (t # tmp) =
     (if unat (co_optlen t) \<noteq> length e then Some False
      else do { v \<leftarrow> fetch 0 (unat (co_optlen t)) (co_value t);
                if v \<noteq> e then Some False else path_match n elems tmp })"
| "path_match (Suc n) _ _ = None"

text \<open>The loop over the table, which a resource without a handler ends.\<close>

fun find_res ::
  "'w coap_res list \<Rightarrow> coap_msg \<Rightarrow> (coap_msg \<Rightarrow> coap_msg \<Rightarrow> 'w \<Rightarrow> coap_msg \<times> 'w) option option" where
  "find_res [] rcvmsg = None"
| "find_res (r # res) rcvmsg =
     (case re_handler r of
        None \<Rightarrow> Some None
      | Some h \<Rightarrow>
          if re_method r \<noteq> ch_code (cm_head rcvmsg) then find_res res rcvmsg
          else do {
            (opthead, pathcnt) \<leftarrow> litecoap_find_opts rcvmsg COAP_OPTION_URI_PATH;
            case opthead of
              None \<Rightarrow> find_res res rcvmsg
            | Some tmp \<Rightarrow>
                if int (unat pathcnt) \<noteq> re_count r then find_res res rcvmsg
                else do { m \<leftarrow> path_match (unat pathcnt) (re_elems r) tmp;
                          if m then Some (Some h) else find_res res rcvmsg } })"

definition ctx_new_msg :: "u8 \<Rightarrow> u8 \<Rightarrow> 'w coap_context \<Rightarrow> coap_msg option \<times> 'w coap_context" where
  "ctx_new_msg msgtype code ctx =
     (let (m, msgid, os) = new_msg (cx_msgid ctx) msgtype code [] None (cx_mallocs ctx)
      in (m, ctx\<lparr>cx_msgid := msgid, cx_mallocs := os\<rparr>))"

definition ctx_add_token :: "coap_msg \<Rightarrow> bytes \<Rightarrow> 'w coap_context \<Rightarrow> (int \<times> coap_msg \<times> 'w coap_context) option" where
  "ctx_add_token msg tok ctx = do {
     (ret, msg, os) \<leftarrow> add_token msg tok (int (length tok)) (cx_mallocs ctx);
     Some (ret, msg, ctx\<lparr>cx_mallocs := os\<rparr>) }"

definition litecoap_handle_request :: "coap_msg \<Rightarrow> 'w coap_context \<Rightarrow> (int \<times> 'w coap_context) option" where
  "litecoap_handle_request rcvmsg ctx =
     (let t = ch_t (cm_head rcvmsg) in
      if ch_code (cm_head rcvmsg) \<ge> 32 \<or> ch_code (cm_head rcvmsg) = 0 then Some (LITECOAP_OK, ctx)
      else do {
        res \<leftarrow> cx_res ctx;
        found \<leftarrow> find_res res rcvmsg;
        case found of
          Some h \<Rightarrow>
            (case (if t = COAP_MESSAGE_CON then ctx_new_msg COAP_MESSAGE_ACK (COAP_RESP_CODE 204) ctx
                   else if t \<noteq> COAP_MESSAGE_NON then ctx_new_msg COAP_MESSAGE_NON (COAP_RESP_CODE 204) ctx
                   else (None, ctx)) of
               (None, ctx) \<Rightarrow> Some (LITECOAP_PARAM_NULL, ctx)
             | (Some respmsg, ctx) \<Rightarrow> do {
                 tok \<leftarrow> cm_tok rcvmsg;
                 (ret, respmsg, ctx) \<leftarrow> ctx_add_token respmsg tok ctx;
                 if ret \<noteq> LITECOAP_OK then Some (LITECOAP_NG, ctx)
                 else do {
                   let (respmsg, w) = h rcvmsg respmsg (cx_world ctx);
                   (_, ctx) \<leftarrow> litecoap_send respmsg (ctx\<lparr>cx_world := w\<rparr>);
                   Some (LITECOAP_OK, ctx) } })
        | None \<Rightarrow>
            (case ctx_new_msg (if t = COAP_MESSAGE_CON then COAP_MESSAGE_ACK else COAP_MESSAGE_NON) (COAP_RESP_CODE 404) ctx of
               (None, ctx) \<Rightarrow> Some (LITECOAP_PARAM_NULL, ctx)
             | (Some respmsg, ctx) \<Rightarrow> do {
                 (ret, respmsg, ctx) \<leftarrow> (case cm_tok rcvmsg of
                    Some tok \<Rightarrow> ctx_add_token respmsg tok ctx
                  | None \<Rightarrow> Some (LITECOAP_OK, respmsg, ctx));
                 if ret \<noteq> LITECOAP_OK then Some (LITECOAP_NG, ctx)
                 else do { (_, ctx) \<leftarrow> litecoap_send respmsg ctx; Some (LITECOAP_OK, ctx) } }) })"

section \<open>Receiving\<close>

definition litecoap_handle_msg ::
  "(nat \<Rightarrow> coap_msg \<Rightarrow> 'w coap_context \<Rightarrow> 'w coap_context option) \<Rightarrow> coap_msg \<Rightarrow> 'w coap_context \<Rightarrow> (int \<times> 'w coap_context) option" where
  "litecoap_handle_msg call msg ctx = do {
     let t = ch_t (cm_head msg);
     let ctx = (if t = COAP_MESSAGE_ACK \<or> t = COAP_MESSAGE_RST then snd (litecoap_remove_resndqueue msg ctx) else ctx);
     ctx \<leftarrow> (case cx_handler ctx of None \<Rightarrow> Some ctx | Some f \<Rightarrow> call f msg ctx);
     (_, ctx) \<leftarrow> litecoap_handle_request msg ctx;
     Some (LITECOAP_OK, ctx) }"

text \<open>The loop over the nodes that are due: after the retransmission it reads \<^verbatim>\<open>node->next\<close>.\<close>

fun due_loop :: "u64 \<Rightarrow> send_queue list \<Rightarrow> 'w coap_context \<Rightarrow> 'w coap_context option" where
  "due_loop now [] ctx = Some ctx"
| "due_loop now (node # nodes) ctx =
     (if sq_time node \<le> now - cx_base_time ctx
      then do { (_, freed, ctx) \<leftarrow> litecoap_retransmit ctx;
                if freed then None else due_loop now nodes (ctx\<lparr>cx_resndque := nodes\<rparr>) }
      else Some ctx)"

definition litecoap_read ::
  "(nat \<Rightarrow> coap_msg \<Rightarrow> 'w coap_context \<Rightarrow> 'w coap_context option) \<Rightarrow> 'w coap_context \<Rightarrow> (int \<times> 'w coap_context) option" where
  "litecoap_read call ctx =
     (let ((len, data), w) = cx_net_read ctx (cx_world ctx); ctx = ctx\<lparr>cx_world := w\<rparr>
      in if len = 0 then Some (LITECOAP_OK, ctx)
         else if len < 0 then Some (LITECOAP_SOCKET_NETWORK_ERR, ctx)
         else do {
           packet \<leftarrow> fetch 0 (nat len) data;
           (r, os) \<leftarrow> parse_packet packet (cx_proto ctx) (cx_mallocs ctx);
           let ctx = ctx\<lparr>cx_mallocs := os\<rparr>;
           case r of
             Inl err \<Rightarrow> Some (err, ctx)
           | Inr msg \<Rightarrow> do {
               (_, ctx) \<leftarrow> litecoap_handle_msg call msg ctx;
               let (now, ctx) = litecoap_time ctx;
               ctx \<leftarrow> due_loop now (cx_resndque ctx) ctx;
               Some (LITECOAP_OK, ctx) } })"

section \<open>The table of resources\<close>

text \<open>The path of a request: the values of its first options with the number of \<open>Uri-Path\<close>.\<close>

definition uri_options :: "coap_msg \<Rightarrow> coap_option list" where
  "uri_options msg = takeWhile (\<lambda>t. co_optnum t = 11) (dropWhile (\<lambda>t. co_optnum t \<noteq> 11) (cm_option msg))"

definition uri_path :: "coap_msg \<Rightarrow> bytes list" where
  "uri_path msg = map co_value (uri_options msg)"

text \<open>What the parser makes: the counter of the options and the lengths of their values are right.\<close>

definition options_counted :: "coap_msg \<Rightarrow> bool" where
  "options_counted msg \<longleftrightarrow> unat (cm_optcnt msg) = length (cm_option msg) \<and>
     list_all (\<lambda>t. unat (co_optlen t) = length (co_value t)) (cm_option msg)"

definition serves :: "coap_msg \<Rightarrow> 'w coap_res \<Rightarrow> bool" where
  "serves msg r \<longleftrightarrow> re_method r = ch_code (cm_head msg) \<and> re_elems r \<noteq> [] \<and> re_elems r = uri_path msg"

lemma find_opts_rest:
  "find_opts_loop (length opts) opts num (Some f) count = Some (Some f, count + of_nat (length (takeWhile (\<lambda>t. co_optnum t = num) opts)))"
  by (induction opts arbitrary: count) auto

lemma find_opts_first:
  "find_opts_loop (length opts) opts num None count =
     (let p = takeWhile (\<lambda>t. co_optnum t = num) (dropWhile (\<lambda>t. co_optnum t \<noteq> num) opts)
      in Some (if p = [] then None else Some (dropWhile (\<lambda>t. co_optnum t \<noteq> num) opts), count + of_nat (length p)))"
  by (induction opts arbitrary: count) (auto simp: find_opts_rest Let_def)

lemma find_uri:
  assumes "options_counted msg"
  shows "litecoap_find_opts msg COAP_OPTION_URI_PATH =
    Some (if uri_options msg = [] then None else Some (dropWhile (\<lambda>t. co_optnum t \<noteq> 11) (cm_option msg)),
          of_nat (length (uri_options msg)))"
proof -
  have "unat (cm_optcnt msg) = length (cm_option msg)" using assms by (simp add: options_counted_def)
  then show ?thesis by (simp add: litecoap_find_opts_def find_opts_first uri_options_def Let_def)
qed

lemma path_match_iff:
  "\<lbrakk>length elems = length p; list_all (\<lambda>t. unat (co_optlen t) = length (co_value t)) p\<rbrakk> \<Longrightarrow>
     path_match (length p) elems (p @ rest) = Some (elems = map co_value p)"
proof (induction p arbitrary: elems)
  case (Cons t p)
  then obtain e es where "elems = e # es" by (cases elems) auto
  then show ?case using Cons by (auto simp: fetch_def)
qed simp

text \<open>The search in the table of resources: for every message as the parser makes it, it stays inside the table, the
  options and the paths, and finds the handler of the first resource with the method and the
  path of the request, or none.\<close>

theorem coap_find_resource:
  assumes "options_counted msg" and "length (uri_options msg) < 256"
    and "\<forall>r \<in> set rs. re_handler r \<noteq> None \<and> re_count r = int (length (re_elems r)) \<and> re_elems r \<noteq> []" and "re_handler e = None"
  shows "find_res (rs @ e # rest) msg = Some (Option.bind (List.find (serves msg) rs) re_handler)"
  using assms(3)
proof (induction rs)
  case (Cons r rs)
  then obtain h where h: "re_handler r = Some h" "re_count r = int (length (re_elems r))" "re_elems r \<noteq> []" by auto
  let ?p = "uri_options msg"
  have l: "list_all (\<lambda>t. unat (co_optlen t) = length (co_value t)) ?p"
    using assms(1) by (auto simp: options_counted_def uri_options_def list_all_iff dest!: set_takeWhileD set_dropWhileD)
  have m: "path_match (length ?p) (re_elems r) (dropWhile (\<lambda>t. co_optnum t \<noteq> 11) (cm_option msg)) = Some (re_elems r = uri_path msg)"
    if len: "length (re_elems r) = length ?p"
    using path_match_iff[OF len l, of "dropWhile (\<lambda>t. co_optnum t = 11) (dropWhile (\<lambda>t. co_optnum t \<noteq> 11) (cm_option msg))"]
    by (simp add: uri_path_def) (simp add: uri_options_def takeWhile_dropWhile_id)
  have "unat (of_nat (length ?p) :: u8) = length ?p" using assms(2) by (simp add: unat_of_nat)
  then have c: "unat (of_nat (length ?p) :: u8) = length ?p" "uint (of_nat (length ?p) :: u8) = int (length ?p)"
    by (simp_all add: uint_nat)
  have "length (re_elems r) \<noteq> length ?p \<Longrightarrow> \<not> serves msg r" by (auto simp: serves_def uri_path_def)
  then show ?case using Cons h m c
    by (cases "re_method r = ch_code (cm_head msg)"; cases "length (re_elems r) = length ?p"; cases "?p = []")
      (auto simp: find_uri[OF assms(1)] serves_def uri_path_def)
qed (simp add: assms(4))

text \<open>A table with two resources and a request with a path: the concrete input of the witnesses.\<close>

definition demo_table :: "nat coap_res list" where
  "demo_table =
     [\<lparr>re_method = 1, re_handler = Some (\<lambda>rcv msg w. (msg, w)), re_count = 1, re_elems = [[98]]\<rparr>,
      \<lparr>re_method = 1, re_handler = Some (\<lambda>rcv msg w. (msg\<lparr>cm_marker := 0xFF, cm_payload := Some [7]\<rparr>, w + 10)), re_count = 1, re_elems = [[97]]\<rparr>,
      \<lparr>re_method = 0, re_handler = None, re_count = 0, re_elems = []\<rparr>]"

definition demo_request :: coap_msg where
  "demo_request = zero_msg\<lparr>cm_head := \<lparr>ch_ver = 1, ch_t = COAP_MESSAGE_CON, ch_tkl = 1, ch_code = 1, ch_msgid0 = 0x12, ch_msgid1 = 0x34\<rparr>,
     cm_tok := Some [9], cm_option := [\<lparr>co_optnum = 11, co_optlen = 1, co_value = [97]\<rparr>], cm_optcnt := 1\<rparr>"

theorem coap_find_resource_witness: "find_res demo_table demo_request = Some (re_handler (demo_table ! 1))"
proof -
  have t: "demo_table = [demo_table ! 0, demo_table ! 1] @ demo_table ! 2 # []" by (simp add: demo_table_def)
  have "options_counted demo_request" "length (uri_options demo_request) < 256"
    by (simp_all add: options_counted_def uri_options_def demo_request_def)
  moreover have "\<forall>r \<in> set [demo_table ! 0, demo_table ! 1].
      re_handler r \<noteq> None \<and> re_count r = int (length (re_elems r)) \<and> re_elems r \<noteq> []" by (simp add: demo_table_def)
  moreover have "re_handler (demo_table ! 2) = None" by (simp add: demo_table_def)
  ultimately have "find_res ([demo_table ! 0, demo_table ! 1] @ demo_table ! 2 # []) demo_request =
      Some (Option.bind (List.find (serves demo_request) [demo_table ! 0, demo_table ! 1]) re_handler)"
    by (rule coap_find_resource)
  moreover have "\<not> serves demo_request (demo_table ! 0)" "serves demo_request (demo_table ! 1)"
    by (simp_all add: serves_def uri_path_def uri_options_def demo_request_def demo_table_def)
  ultimately have "find_res ([demo_table ! 0, demo_table ! 1] @ demo_table ! 2 # []) demo_request = Some (re_handler (demo_table ! 1))"
    by (simp del: find_res.simps append.simps One_nat_def)
  then show ?thesis by (rule trans[OF arg_cong[OF t, of "\<lambda>x. find_res x demo_request"]])
qed

section \<open>Answers\<close>

text \<open>The answer before the handler of the resource completes it.\<close>

definition answer_of :: "u16 \<Rightarrow> bytes \<Rightarrow> coap_msg" where
  "answer_of msgid tok = zero_msg\<lparr>cm_head :=
     \<lparr>ch_ver = 1, ch_t = COAP_MESSAGE_ACK, ch_tkl = of_nat (length tok), ch_code = COAP_RESP_CODE 204,
      ch_msgid0 = ucast (msgid AND 0x00ff), ch_msgid1 = ucast (drop_bit 8 (msgid AND 0xff00))\<rparr>, cm_tok := Some tok\<rparr>"

lemma new_answer:
  assumes "cx_mallocs ctx = []" and "tok \<noteq> []" and "length tok \<le> 8"
  shows "\<exists>m. ctx_new_msg COAP_MESSAGE_ACK (COAP_RESP_CODE 204) ctx = (Some m, ctx\<lparr>cx_msgid := cx_msgid ctx + 1\<rparr>) \<and>
    ctx_add_token m tok (ctx\<lparr>cx_msgid := cx_msgid ctx + 1\<rparr>) =
      Some (LITECOAP_OK, answer_of (cx_msgid ctx + 1) tok, ctx\<lparr>cx_msgid := cx_msgid ctx + 1\<rparr>)"
  using assms by (auto simp: ctx_new_msg_def new_msg_def ctx_add_token_def add_token_def fetch_def answer_of_def zero_msg_def Let_def)

text \<open>C34. A confirmable request with a token that a resource serves is answered: the handler of the resource completes an
  acknowledgement with the token of the request and the code 2.04, and the result is
  sent. Its message id is the next one of the own counter, not that of the request, so the peer cannot match
  it. Without a token the request crashes the program, and a request that need not be confirmed is dropped.\<close>

theorem coap_request_answer:
  assumes "cx_mallocs ctx = []" and "0 < ch_code (cm_head rcv)" and "ch_code (cm_head rcv) < 32"
    and "cx_res ctx = Some res" and "find_res res rcv = Some (Some h)"
  shows "(ch_t (cm_head rcv) = COAP_MESSAGE_CON \<and> cm_tok rcv = Some tok \<and> tok \<noteq> [] \<and> length tok \<le> 8 \<and>
      h rcv (answer_of (cx_msgid ctx + 1) tok) (cx_world ctx) = (resp, w) \<longrightarrow>
      litecoap_handle_request rcv ctx =
        map_option (\<lambda>(_, ctx'). (LITECOAP_OK, ctx')) (litecoap_send resp (ctx\<lparr>cx_msgid := cx_msgid ctx + 1, cx_world := w\<rparr>))) \<and>
    (ch_t (cm_head rcv) = COAP_MESSAGE_CON \<and> cm_tok rcv = None \<longrightarrow> litecoap_handle_request rcv ctx = None) \<and>
    (ch_t (cm_head rcv) = COAP_MESSAGE_NON \<longrightarrow> litecoap_handle_request rcv ctx = Some (LITECOAP_PARAM_NULL, ctx))"
    (is "(?con \<longrightarrow> ?sent) \<and> ?crash \<and> ?dropped")
proof -
  have c: "\<not> (ch_code (cm_head rcv) \<ge> 32 \<or> ch_code (cm_head rcv) = 0)" using assms(2,3) by auto
  note handle = litecoap_handle_request_def[of rcv ctx] if_not_P[OF c]
  have ?sent if a: ?con
  proof -
    obtain m where "ctx_new_msg COAP_MESSAGE_ACK (COAP_RESP_CODE 204) ctx = (Some m, ctx\<lparr>cx_msgid := cx_msgid ctx + 1\<rparr>)"
      "ctx_add_token m tok (ctx\<lparr>cx_msgid := cx_msgid ctx + 1\<rparr>) =
        Some (LITECOAP_OK, answer_of (cx_msgid ctx + 1) tok, ctx\<lparr>cx_msgid := cx_msgid ctx + 1\<rparr>)"
      using a new_answer[OF assms(1)] by metis
    then show ?sent
      using a unfolding handle Let_def
      by (cases "litecoap_send resp (ctx\<lparr>cx_msgid := cx_msgid ctx + 1, cx_world := w\<rparr>)") (auto simp: assms(4,5))
  qed
  moreover have ?crash unfolding handle Let_def by (auto simp: ctx_new_msg_def new_msg_def assms Let_def)
  moreover have ?dropped unfolding handle Let_def by (auto simp: assms(4,5))
  ultimately show ?thesis by blast
qed

theorem coap_request_answer_witness:
  "\<exists>ctx'. litecoap_handle_request demo_request (demo_ctx\<lparr>cx_res := Some demo_table\<rparr>) = Some (LITECOAP_OK, ctx') \<and>
    take 7 (the (cx_sndbuf ctx')) = [0x61, 68, 6, 0, 9, 0xFF, 7]"
proof -
  let ?ctx = "demo_ctx\<lparr>cx_res := Some demo_table\<rparr>"
  have c: "cx_mallocs ?ctx = []" "0 < ch_code (cm_head demo_request)" "ch_code (cm_head demo_request) < 32"
    "cx_res ?ctx = Some demo_table" by (simp_all add: demo_ctx_def demo_request_def)
  let ?h = "\<lambda>rcv msg w. (msg\<lparr>cm_marker := 0xFF, cm_payload := Some [7]\<rparr>, w + 10)"
  have f: "find_res demo_table demo_request = Some (Some ?h)"
    by (simp add: demo_table_def demo_request_def litecoap_find_opts_def fetch_def)
  let ?resp = "(answer_of 6 [9])\<lparr>cm_marker := 0xFF, cm_payload := Some [7]\<rparr>"
  have "litecoap_handle_request demo_request ?ctx =
      map_option (\<lambda>(_, ctx'). (LITECOAP_OK, ctx')) (litecoap_send ?resp (?ctx\<lparr>cx_msgid := 6, cx_world := 10\<rparr>))"
    using coap_request_answer[OF c f, of "[9]" ?resp 10] by (simp add: demo_request_def demo_ctx_def)
  moreover have "\<exists>n ctx'. litecoap_send ?resp (?ctx\<lparr>cx_msgid := 6, cx_world := 10\<rparr>) = Some (n, ctx') \<and>
      take 7 (the (cx_sndbuf ctx')) = [0x61, 68, 6, 0, 9, 0xFF, 7]"
    by (simp add: litecoap_send_def is_con_def ctx_build_def answer_of_def zero_msg_def demo_ctx_def build_byte_stream_def
      build_header_def udp_like_def COAP_RESP_CODE_def put_def send_loop.simps Let_def)
  ultimately show ?thesis by auto
qed

section \<open>Retransmission\<close>

lemma send_loop_frame: "\<exists>n w. send_loop k slen ctx = (n, ctx\<lparr>cx_world := w\<rparr>)"
proof (induction k arbitrary: ctx)
  case (Suc k)
  obtain n w where "cx_net_send ctx (cx_sndbuf ctx) slen (cx_world ctx) = (n, w)" by fastforce
  then show ?case using Suc[of "ctx\<lparr>cx_world := w\<rparr>"] by (subst send_loop.simps) (auto simp: Let_def)
qed (subst send_loop.simps, auto simp: case_prod_beta)

text \<open>Whether a message can be built depends on the size of the send buffer, not on its bytes, and the size stays.\<close>

lemma rel_option_bind:
  "\<lbrakk>rel_option R x y; \<And>a b. R a b \<Longrightarrow> rel_option S (f a) (g b)\<rbrakk> \<Longrightarrow> rel_option S (Option.bind x f) (Option.bind y g)"
  by (cases x; cases y) auto

abbreviation same_size :: "bytes \<Rightarrow> bytes \<Rightarrow> bool" where
  "same_size b b' \<equiv> length b = length b'"

lemma put_size: "same_size b b' \<Longrightarrow> rel_option same_size (put off xs b) (put off xs b')"
  by (simp add: put_def)

lemma encode_option_size:
  "same_size b b' \<Longrightarrow> rel_option (\<lambda>(x, n) (y, m). same_size x y \<and> n = m) (encode_option opt sd b off len) (encode_option opt sd b' off len)"
  by (auto simp: encode_option_def Let_def fetch_def put_def)

lemma encode_options_size:
  "same_size b b' \<Longrightarrow> rel_option (\<lambda>(x, n) (y, m). same_size x y \<and> n = m) (encode_options opts sd b off len) (encode_options opts sd b' off len)"
proof (induction opts arbitrary: sd b b' off len)
  case (Cons opt opts)
  then show ?case
    by (auto intro!: rel_option_bind[OF encode_option_size])
qed simp

lemma build_size:
  assumes "rel_option same_size b b'"
  shows "rel_option (\<lambda>(n, x) (m, y). n = m \<and> rel_option same_size x y) (build_byte_stream proto b sndlen msg) (build_byte_stream proto b' sndlen msg)"
  using assms
  by (cases b; cases b')
    (auto simp: build_byte_stream_def Let_def case_prod_beta split: option.splits
      intro!: rel_option_bind[OF put_size] rel_option_bind[OF encode_options_size])

lemma encode_option_keeps: "encode_option opt sd b off len = Some (b', n) \<Longrightarrow> same_size b' b"
  by (auto simp: encode_option_def Let_def bind_eq_Some_conv split: if_splits) (metis put_length)

lemma encode_options_keeps: "encode_options opts sd b off len = Some (b', n) \<Longrightarrow> same_size b' b"
proof (induction opts arbitrary: sd b off len)
  case (Cons opt opts)
  then obtain b1 k where "encode_option opt sd b off len = Some (b1, k)"
    "encode_options opts (uint (co_optnum opt)) b1 (off + nat k) 0 = Some (b', n)"
    by (auto simp: bind_eq_Some_conv)
  then show ?case using Cons.IH encode_option_keeps by metis
qed simp

lemma build_keeps:
  assumes "build_byte_stream proto b sndlen msg = Some (n, b')"
  shows "rel_option same_size b' b"
proof (cases b)
  case (Some buf)
  obtain hd offset where h: "build_header proto msg = (hd, offset)" by (cases "build_header proto msg")
  obtain b1 where 1: "put 0 hd buf = Some b1" using assms Some h by (auto simp: build_byte_stream_def bind_eq_Some_conv)
  define tok where "tok = (if ch_tkl (cm_head msg) > 0 then (case cm_tok msg of None \<Rightarrow> [] | Some tok \<Rightarrow> tok) else [])"
  define len where "len = offset + int (length hd) + int (length tok)"
  note s = assms[unfolded build_byte_stream_def Some option.case h Let_def prod.case 1 bind.bind_lunit tok_def[symmetric] len_def[symmetric]]
  show ?thesis
  proof (cases "len > sndlen")
    case False
    obtain b2 where 2: "put (length hd) tok b1 = Some b2" using s False by (auto simp: bind_eq_Some_conv)
    obtain b3 off where 3: "encode_options (cm_option msg) 0 b2 (length hd + length tok) len = Some (b3, off)"
      using s False 2 by (auto simp: bind_eq_Some_conv)
    have "rel_option same_size b' (Some b3)"
      using s False 2 3 by (auto simp: bind_eq_Some_conv dest!: put_length split: option.splits)
    moreover have "same_size b3 buf" using 1 2 3 put_length encode_options_keeps by metis
    ultimately show ?thesis using Some by (cases b') auto
  next
    case True
    then have "b' = Some b1" using s by simp
    then show ?thesis using Some put_length[OF 1] by simp
  qed
qed (use assms in \<open>simp add: build_byte_stream_def\<close>)

definition can_build :: "coap_msg \<Rightarrow> 'w coap_context \<Rightarrow> bool" where
  "can_build msg ctx \<longleftrightarrow> build_byte_stream (cx_proto ctx) (cx_sndbuf ctx) (cx_sndlen ctx) msg \<noteq> None"

lemma can_build_cong:
  assumes "rel_option same_size (cx_sndbuf c) (cx_sndbuf c')" and "cx_proto c = cx_proto c'" and "cx_sndlen c = cx_sndlen c'"
  shows "can_build msg c = can_build msg c'"
  using build_size[OF assms(1), of "cx_proto c'" "cx_sndlen c'" msg] assms(2,3)
  by (auto simp: can_build_def rel_option_unfold Option.is_none_def)

text \<open>A confirmable message that is sent is queued, and apart from the queue only the send buffer and the network change.\<close>

lemma send_con:
  assumes "litecoap_send msg ctx = Some (n, ctx')" and "0 \<le> n" and "is_con msg ctx"
  shows "\<exists>r c buf w. litecoap_addto_resndqueue msg ctx = Some (r, c) \<and> ctx' = c\<lparr>cx_sndbuf := buf, cx_world := w\<rparr> \<and>
    can_build msg c \<and> rel_option same_size buf (cx_sndbuf c)"
proof -
  obtain r c where c: "litecoap_addto_resndqueue msg ctx = Some (r, c)"
    using assms(1,3) by (auto simp: litecoap_send_def bind_eq_Some_conv)
  obtain slen buf where b: "ctx_build msg c = Some (slen, c\<lparr>cx_sndbuf := buf\<rparr>)"
    and bb: "build_byte_stream (cx_proto c) (cx_sndbuf c) (cx_sndlen c) msg = Some (slen, buf)"
    using assms(1,3) c by (auto simp: litecoap_send_def bind_eq_Some_conv ctx_build_def case_prod_beta)
  have k: "can_build msg c" "rel_option same_size buf (cx_sndbuf c)" using bb build_keeps[OF bb] by (simp_all add: can_build_def)
  have "send_loop 9 slen (c\<lparr>cx_sndbuf := buf\<rparr>) = (n, ctx')"
    using assms c b by (auto simp: litecoap_send_def split: if_splits)
  then show ?thesis using c k send_loop_frame[of 9 slen "c\<lparr>cx_sndbuf := buf\<rparr>"] by auto
qed

lemma addto_empty:
  assumes "litecoap_addto_resndqueue msg ctx = Some (r, ctx')" and "cx_mallocs ctx = []" and "cx_resndque ctx = []"
  shows "cx_max_retransmit ctx \<noteq> 0 \<and>
    (\<exists>s. ctx' = ctx\<lparr>cx_mallocs := [], cx_ticks := Suc (cx_ticks ctx), cx_base_time := cx_clock ctx (cx_ticks ctx), cx_resndque := [s]\<rparr> \<and> sq_cnt s = 0 \<and> sq_msg s = msg)"
  using assms
  by (auto simp: litecoap_addto_resndqueue_def cx_malloc_def litecoap_time_def resend_timeout_def bind_eq_Some_conv Let_def
    split: if_splits)

text \<open>A message that joins the queue is due at once, so some message at the front is.\<close>

lemma addto_due:
  assumes "litecoap_addto_resndqueue msg ctx = Some (r, ctx')" and "cx_mallocs ctx = []" and "cx_resndque ctx = [s]" and "sq_cnt s = 0"
  shows "ctx' = ctx\<lparr>cx_mallocs := [], cx_ticks := Suc (cx_ticks ctx), cx_resndque := cx_resndque ctx'\<rparr> \<and>
    (\<exists>h q. cx_resndque ctx' = h # q \<and> sq_cnt h = 0 \<and> sq_msg h \<in> {msg, sq_msg s} \<and> sq_time h \<le> cx_clock ctx (cx_ticks ctx) - cx_base_time ctx)"
  using assms by (auto simp: litecoap_addto_resndqueue_def cx_malloc_def litecoap_time_def Let_def)

lemma resnd_walk_Nil [simp]: "resnd_walk tmp ss \<noteq> []"
  by (cases ss) (simp_all add: Let_def)

lemma addto_nonempty:
  assumes "cx_resndque ctx \<noteq> []"
  shows "\<exists>r c. litecoap_addto_resndqueue msg ctx = Some (r, c) \<and> cx_resndque c \<noteq> [] \<and> cx_proto c = cx_proto ctx \<and>
    cx_sndbuf c = cx_sndbuf ctx \<and> cx_sndlen c = cx_sndlen ctx"
proof -
  obtain s ss where q: "cx_resndque ctx = s # ss" using assms by (cases "cx_resndque ctx") auto
  then show ?thesis
    by (cases "fst (alloc (cx_mallocs ctx))") (simp_all add: litecoap_addto_resndqueue_def cx_malloc_def litecoap_time_def case_prod_beta Let_def del: resnd_walk.simps)
qed

text \<open>The first retransmission of the first node succeeds when its message can be built, and frees the node.\<close>

lemma retransmit_frees:
  assumes "cx_resndque ctx = node # nodes" and "sq_cnt node = 0" and "cx_max_retransmit ctx \<noteq> 0" and "can_build (sq_msg node) ctx"
  shows "\<exists>c. litecoap_retransmit ctx = Some (LITECOAP_OK, True, c)"
proof -
  define node' where "node' = node\<lparr>sq_cnt := 1, sq_time := (cx_clock ctx (cx_ticks ctx) - cx_base_time ctx) + push_bit 1 (sq_timeout node)\<rparr>"
  define c0 where "c0 = ctx\<lparr>cx_ticks := Suc (cx_ticks ctx), cx_resndque := node' # nodes\<rparr>"
  have m: "sq_msg node' = sq_msg node" by (simp add: node'_def)
  obtain r1 c1 where a: "litecoap_addto_resndqueue (sq_msg node) c0 = Some (r1, c1)" "cx_resndque c1 \<noteq> []"
    and a': "cx_proto c1 = cx_proto c0" "cx_sndbuf c1 = cx_sndbuf c0" "cx_sndlen c1 = cx_sndlen c0"
    using addto_nonempty[of c0 "sq_msg node"] by (auto simp: c0_def)
  obtain r2 c2 where b: "litecoap_addto_resndqueue (sq_msg node) c1 = Some (r2, c2)"
    and b': "cx_proto c2 = cx_proto c1" "cx_sndbuf c2 = cx_sndbuf c1" "cx_sndlen c2 = cx_sndlen c1"
    using addto_nonempty[OF a(2), of "sq_msg node"] by auto
  define c3 where "c3 = (if is_con (sq_msg node) c1 then c2 else c1)"
  have "can_build (sq_msg node) c3"
    using assms(4) a' b' by (simp add: can_build_def c3_def c0_def)
  then obtain slen buf where k: "ctx_build (sq_msg node) c3 = Some (slen, c3\<lparr>cx_sndbuf := buf\<rparr>)"
    by (auto simp: can_build_def ctx_build_def)
  obtain n c where s: "litecoap_send (sq_msg node) c1 = Some (n, c)"
  proof -
    have "(if is_con (sq_msg node) c1 then map_option snd (litecoap_addto_resndqueue (sq_msg node) c1) else Some c1) = Some c3"
      using b by (simp add: c3_def)
    then have "litecoap_send (sq_msg node) c1 \<noteq> None" using k by (simp add: litecoap_send_def)
    then show thesis using that by auto
  qed
  have "(0::u8) < cx_max_retransmit ctx" using assms(3) by (simp add: word_neq_0_conv)
  then show ?thesis using assms(1,2) a(1) s m
    by (simp add: litecoap_retransmit_def litecoap_time_def c0_def node'_def Let_def)
qed

lemma due_loop_crashes:
  assumes "litecoap_retransmit ctx = Some (r, True, c)" and "sq_time node \<le> now - cx_base_time ctx"
  shows "due_loop now (node # nodes) ctx = None"
  using assms by simp

text \<open>After two confirmable messages the queue starts with one that has not been sent again, and it is due at the time of the second.\<close>

lemma two_sends_queue:
  assumes "cx_mallocs ctx = []" and "cx_resndque ctx = []" and "udp_like (cx_proto ctx)"
    and "ch_t (cm_head m1) = COAP_MESSAGE_CON" and "litecoap_send m1 ctx = Some (n1, ctx1)" and "0 \<le> n1"
    and "ch_t (cm_head m2) = COAP_MESSAGE_CON" and "litecoap_send m2 ctx1 = Some (n2, ctx2)" and "0 \<le> n2"
  obtains h q where "cx_resndque ctx2 = h # q" and "sq_cnt h = 0" and "can_build (sq_msg h) ctx2"
    and "sq_time h \<le> cx_clock ctx (cx_ticks ctx + 1) - cx_clock ctx (cx_ticks ctx)"
    and "cx_base_time ctx2 = cx_clock ctx (cx_ticks ctx)" and "cx_ticks ctx2 = cx_ticks ctx + 2" and "cx_clock ctx2 = cx_clock ctx"
    and "cx_max_retransmit ctx2 \<noteq> 0" and "cx_mallocs ctx2 = []"
    and "cx_net_read ctx2 = cx_net_read ctx" and "cx_proto ctx2 = cx_proto ctx" and "cx_handler ctx2 = cx_handler ctx"
proof -
  let ?now = "\<lambda>i. cx_clock ctx (cx_ticks ctx + i)"
  obtain r c1 b1 w1 where c1: "litecoap_addto_resndqueue m1 ctx = Some (r, c1)" "ctx1 = c1\<lparr>cx_sndbuf := b1, cx_world := w1\<rparr>"
    "can_build m1 c1" "rel_option same_size b1 (cx_sndbuf c1)"
    using send_con[OF assms(5,6)] assms(3,4) by (auto simp: is_con_def)
  obtain s where s: "c1 = ctx\<lparr>cx_mallocs := [], cx_ticks := Suc (cx_ticks ctx), cx_base_time := ?now 0, cx_resndque := [s]\<rparr>" "sq_cnt s = 0" "sq_msg s = m1"
    and max: "cx_max_retransmit ctx \<noteq> 0"
    using addto_empty[OF c1(1) assms(1,2)] by auto
  obtain r' c2 b2 w2 where c2: "litecoap_addto_resndqueue m2 ctx1 = Some (r', c2)" "ctx2 = c2\<lparr>cx_sndbuf := b2, cx_world := w2\<rparr>"
    "can_build m2 c2" "rel_option same_size b2 (cx_sndbuf c2)"
    using send_con[OF assms(8,9)] assms(3,7) c1(2) s(1) by (auto simp: is_con_def)
  have "c2 = ctx1\<lparr>cx_mallocs := [], cx_ticks := Suc (cx_ticks ctx1), cx_resndque := cx_resndque c2\<rparr>"
    "\<exists>h q. cx_resndque c2 = h # q \<and> sq_cnt h = 0 \<and> sq_msg h \<in> {m2, sq_msg s} \<and> sq_time h \<le> cx_clock ctx1 (cx_ticks ctx1) - cx_base_time ctx1"
    using addto_due[OF c2(1), of s] c1(2) s by auto
  then obtain h q where h: "c2 = ctx1\<lparr>cx_mallocs := [], cx_ticks := cx_ticks ctx + 2, cx_resndque := h # q\<rparr>" "sq_cnt h = 0"
    "sq_msg h \<in> {m1, m2}" "sq_time h \<le> ?now 1 - ?now 0"
    using c1(2) s(1,3) by auto
  have z2: "can_build m ctx2 = can_build m c2" for m by (rule can_build_cong) (use c2(2,4) in simp_all)
  have z1: "can_build m c2 = can_build m c1" for m by (rule can_build_cong) (use c1(2,4) h(1) in simp_all)
  have "can_build (sq_msg h) ctx2" using h(3) c1(3) c2(3) z1 z2 by auto
  then show thesis using that[of h q] h c1(2) c2(2) s(1) max by simp
qed

text \<open>A message that is no request and acknowledges nothing changes no more than the world, when the response handler does not.\<close>

lemma handle_idle:
  assumes "ch_t (cm_head msg) < COAP_MESSAGE_ACK" and "ch_code (cm_head msg) = 0 \<or> 32 \<le> ch_code (cm_head msg)"
    and "\<forall>f. cx_handler ctx = Some f \<longrightarrow> (\<exists>w. call f msg ctx = Some (ctx\<lparr>cx_world := w\<rparr>))"
  obtains w where "litecoap_handle_msg call msg ctx = Some (LITECOAP_OK, ctx\<lparr>cx_world := w\<rparr>)"
proof -
  have rq: "litecoap_handle_request msg c = Some (LITECOAP_OK, c)" for c :: "'a coap_context"
    using assms(2) by (auto simp: litecoap_handle_request_def Let_def)
  have nt: "ch_t (cm_head msg) \<noteq> COAP_MESSAGE_ACK" "ch_t (cm_head msg) \<noteq> COAP_MESSAGE_RST" using assms(1) by auto
  show thesis
  proof (cases "cx_handler ctx")
    case None
    then show thesis using that[of "cx_world ctx"] rq nt by (simp add: litecoap_handle_msg_def)
  next
    case (Some f)
    then obtain x where "call f msg ctx = Some (ctx\<lparr>cx_world := x\<rparr>)" using assms(3) by blast
    then show thesis using that[of x] rq nt Some by (simp add: litecoap_handle_msg_def)
  qed
qed

text \<open>C22. After two confirmable messages over UDP, neither of which has been answered, a packet that is confirmable or need not be confirmed
  and that is no request crashes the program: it is handled, then a message is due, since the second one joins the queue without
  a delay, the first node is sent again with success and freed, and then its \<open>next\<close> is followed.
  This holds for every clock that does not run backwards, when the queue was empty, and without a
  response handler or with one that leaves the context alone.\<close>

theorem coap_two_sends_crash:
  assumes "cx_mallocs ctx = []" and "cx_resndque ctx = []" and "udp_like (cx_proto ctx)" and "mono (cx_clock ctx)"
    and "ch_t (cm_head m1) = COAP_MESSAGE_CON" and "litecoap_send m1 ctx = Some (n1, ctx1)" and "0 \<le> n1"
    and "ch_t (cm_head m2) = COAP_MESSAGE_CON" and "litecoap_send m2 ctx1 = Some (n2, ctx2)" and "0 \<le> n2"
    and "cx_net_read ctx (cx_world ctx2) = ((int (length packet), packet), w)" and "packet \<noteq> []"
    and "parse_packet packet (cx_proto ctx) [] = Some (Inr msg, os)"
    and "ch_t (cm_head msg) < COAP_MESSAGE_ACK" and "ch_code (cm_head msg) = 0 \<or> 32 \<le> ch_code (cm_head msg)"
    and "\<forall>f c. cx_handler ctx = Some f \<longrightarrow> (\<exists>w. call f msg c = Some (c\<lparr>cx_world := w\<rparr>))"
  shows "\<exists>c node nodes c'. litecoap_handle_msg call msg (ctx2\<lparr>cx_world := w, cx_mallocs := os\<rparr>) = Some (LITECOAP_OK, c) \<and>
    cx_resndque c = node # nodes \<and> sq_time node \<le> cx_clock c (cx_ticks c) - cx_base_time c \<and>
    litecoap_retransmit (snd (litecoap_time c)) = Some (LITECOAP_OK, True, c') \<and> litecoap_read call ctx2 = None"
proof -
  let ?now = "\<lambda>i. cx_clock ctx (cx_ticks ctx + i)"
  obtain h q where h: "cx_resndque ctx2 = h # q" "sq_cnt h = 0" "can_build (sq_msg h) ctx2" "sq_time h \<le> ?now 1 - ?now 0"
    and f: "cx_base_time ctx2 = ?now 0" "cx_ticks ctx2 = cx_ticks ctx + 2" "cx_clock ctx2 = cx_clock ctx" "cx_max_retransmit ctx2 \<noteq> 0"
      "cx_mallocs ctx2 = []" "cx_net_read ctx2 = cx_net_read ctx" "cx_proto ctx2 = cx_proto ctx" "cx_handler ctx2 = cx_handler ctx"
    by (rule two_sends_queue[OF assms(1-3,5-10)]) simp
  have "?now 0 \<le> ?now 1" "?now 1 \<le> ?now 2" using assms(4) by (auto simp: mono_def)
  then have due: "sq_time h \<le> ?now 2 - ?now 0" using h(4) by (meson order_trans word_le_minus_mono_left)
  define c0 where "c0 = ctx2\<lparr>cx_world := w, cx_mallocs := os\<rparr>"
  have "cx_handler c0 = cx_handler ctx" using f(8) by (simp add: c0_def)
  then obtain w' where hm: "litecoap_handle_msg call msg c0 = Some (LITECOAP_OK, c0\<lparr>cx_world := w'\<rparr>)"
    using handle_idle[OF assms(14,15), of c0 call] assms(16) by auto
  define c where "c = c0\<lparr>cx_world := w'\<rparr>"
  define ctx3 where "ctx3 = snd (litecoap_time c)"
  have "can_build (sq_msg h) ctx3" using h(3) by (simp add: can_build_def ctx3_def c_def c0_def litecoap_time_def)
  moreover have q3: "cx_resndque ctx3 = h # q" "cx_base_time ctx3 = ?now 0" "cx_max_retransmit ctx3 \<noteq> 0"
    using h(1) f by (simp_all add: ctx3_def c_def c0_def litecoap_time_def)
  ultimately obtain c' where rt: "litecoap_retransmit ctx3 = Some (LITECOAP_OK, True, c')"
    using retransmit_frees[OF q3(1) h(2) q3(3)] by blast
  have q: "cx_resndque c = h # q" "cx_base_time c = ?now 0" "cx_clock c (cx_ticks c) = ?now 2"
    using h(1) f by (simp_all add: c_def c0_def)
  have "due_loop (?now 2) (h # q) ctx3 = None" using due_loop_crashes[OF rt] due q3(2) by simp
  moreover have "fetch 0 (length packet) packet = Some packet" by (simp add: fetch_def)
  moreover have "litecoap_time c = (?now 2, ctx3)" using q(3) by (simp add: ctx3_def litecoap_time_def)
  ultimately have "litecoap_read call ctx2 = None"
    using assms(11-13) f hm q(1) by (simp add: litecoap_read_def c0_def[symmetric] c_def[symmetric] ctx3_def[symmetric] q3(1) Let_def del: due_loop.simps)
  then show ?thesis using hm q due rt unfolding c_def[symmetric] c0_def[symmetric] ctx3_def by auto
qed

theorem coap_two_sends_crash_witness:
  "\<exists>ctx1 ctx2.
    litecoap_send zero_msg (demo_ctx\<lparr>cx_resndque := [], cx_clock := \<lambda>_. 1100, cx_sndbuf := Some [0, 0, 0, 0]\<rparr>) = Some (4, ctx1) \<and>
    litecoap_send zero_msg ctx1 = Some (4, ctx2) \<and> litecoap_read (\<lambda>f msg c. Some c) ctx2 = None"
proof -
  let ?ctx = "demo_ctx\<lparr>cx_resndque := [], cx_clock := \<lambda>_. 1100, cx_sndbuf := Some [0, 0, 0, 0]\<rparr>"
  note send = litecoap_send_def is_con_def ctx_build_def zero_msg_def demo_ctx_def build_byte_stream_def build_header_def
    udp_like_def put_def send_loop.simps litecoap_addto_resndqueue_def cx_malloc_def litecoap_time_def resend_timeout_def c_int_def Let_def
  obtain ctx1 where 1: "litecoap_send zero_msg ?ctx = Some (4, ctx1)" "ctx1 = ?ctx\<lparr>cx_ticks := 1, cx_base_time := 1100,
      cx_resndque := [\<lparr>sq_timeout = 48000, sq_time = 48000, sq_msg = zero_msg, sq_cnt = 0\<rparr>], cx_world := 1\<rparr>"
    by (simp add: send)
  obtain ctx2 where 2: "litecoap_send zero_msg ctx1 = Some (4, ctx2)" unfolding 1(2) by (simp add: send)
  let ?msg = "zero_msg\<lparr>cm_head := \<lparr>ch_ver = 1, ch_t = 1, ch_tkl = 0, ch_code = 0, ch_msgid0 = 0, ch_msgid1 = 9\<rparr>, cm_marker := 0xFF\<rparr>"
  have p: "parse_packet [0x50, 0, 0, 9] COAP_PROTO_UDP [] = Some (Inr ?msg, [])"
    by (simp add: parse_packet_def parse_header_def parse_header_size_def udp_like_def tcp_like_def byte_at_def
      parse_token_def parse_opts_payload_def opts_loop.simps zero_msg_def Let_def)
  have "\<exists>c node nodes c'. litecoap_handle_msg (\<lambda>f msg c. Some c) ?msg (ctx2\<lparr>cx_world := cx_world ctx2, cx_mallocs := []\<rparr>) = Some (LITECOAP_OK, c) \<and>
    cx_resndque c = node # nodes \<and> sq_time node \<le> cx_clock c (cx_ticks c) - cx_base_time c \<and>
    litecoap_retransmit (snd (litecoap_time c)) = Some (LITECOAP_OK, True, c') \<and> litecoap_read (\<lambda>f msg c. Some c) ctx2 = None"
    by (rule coap_two_sends_crash[where ctx = ?ctx and packet = "[0x50, 0, 0, 9]" and msg = ?msg and w = "cx_world ctx2", OF _ _ _ _ _ 1(1) _ _ 2])
      (use p in \<open>simp_all add: demo_ctx_def udp_like_def zero_msg_def mono_def\<close>)
  then show ?thesis using 1(1) 2 by blast
qed

end
