(* ===== verification/ShellCmd.thy ===== *)
theory ShellCmd
  imports LinkString
begin

text \<open>
  The commands of the shell, from \<^verbatim>\<open>shell/shell_cmd.c\<close>: the table, the search in it and the execution of a line.
  What the functions of commands do is a parameter (their output and their effect on a state of
  their own); the memory of the exported variables is a map from addresses to blocks. Addresses and \<^verbatim>\<open>long\<close>
  have 32 bits. Output is the list of the bytes that \<^verbatim>\<open>link_printf\<close> writes.
\<close>

section \<open>Data\<close>

abbreviation "cn_shell_args \<equiv> 16 :: nat"
abbreviation "MAX_TAB_MATCHES \<equiv> 16 :: nat"
abbreviation "EN_OSSHELL_CMD \<equiv> 0 :: u16"
abbreviation "EN_OSSHELL_VAR \<equiv> 1 :: u16"

text \<open>The name and the help are the strings without their terminators.\<close>

record shell_item =
  si_name :: bytes
  si_help :: bytes
  si_addr :: u32
  si_type :: u16
  si_len :: u16

record 'w shell_cb =
  sc_s :: "shell_item list"
  sc_d :: "shell_item list"
  sc_entry :: "u32 \<Rightarrow> bytes list \<Rightarrow> 'w \<Rightarrow> bytes \<times> 'w"
  sc_vars :: "u32 \<Rightarrow> bytes option"
  sc_out :: bytes
  sc_world :: 'w

definition emit :: "bytes \<Rightarrow> 'w shell_cb \<Rightarrow> 'w shell_cb" where
  "emit s cb = cb\<lparr>sc_out := sc_out cb @ s\<rparr>"

lemma emit_simps [simp]:
  "sc_out (emit s cb) = sc_out cb @ s" "sc_s (emit s cb) = sc_s cb" "sc_d (emit s cb) = sc_d cb"
  "sc_entry (emit s cb) = sc_entry cb" "sc_vars (emit s cb) = sc_vars cb" "sc_world (emit s cb) = sc_world cb"
  "emit t (emit s cb) = emit (s @ t) cb" "emit [] cb = cb"
  by (simp_all add: emit_def)

section \<open>Formats\<close>

text \<open>Conversions of \<^verbatim>\<open>printf\<close>: a number in base 16, whose letters begin at \<open>a\<close>, and the two kinds of padding.\<close>

fun hex_num :: "u8 \<Rightarrow> nat \<Rightarrow> bytes" where
  "hex_num a n = (if n < 16 then [] else hex_num a (n div 16)) @
     [if n mod 16 < 10 then 48 + of_nat (n mod 16) else a + of_nat (n mod 16 - 10)]"

declare hex_num.simps [simp del]

definition pad_right :: "nat \<Rightarrow> bytes \<Rightarrow> bytes" where
  "pad_right n s = s @ replicate (n - length s) 32"

definition pad_zero :: "nat \<Rightarrow> bytes \<Rightarrow> bytes" where
  "pad_zero n s = replicate (n - length s) 48 @ s"

definition os_shell_type :: "u16 \<Rightarrow> bytes" where
  "os_shell_type t = (if t mod 2 = 0 then bytes_of ''CMD'' else bytes_of ''VAR'')"

text \<open>The base that \<^verbatim>\<open>strtol\<close> finds with base 0 and the value of the digits; it saturates at the bounds of \<^verbatim>\<open>long\<close>.\<close>

definition digit_val :: "u8 \<Rightarrow> int" where
  "digit_val c = (if 48 \<le> c \<and> c \<le> 57 then uint c - 48 else if 97 \<le> c \<and> c \<le> 122 then uint c - 87
                  else if 65 \<le> c \<and> c \<le> 90 then uint c - 55 else 99)"

fun digits_val :: "int \<Rightarrow> int \<Rightarrow> bytes \<Rightarrow> int" where
  "digits_val base acc [] = acc"
| "digits_val base acc (c # cs) = (if digit_val c < base then digits_val base (acc * base + digit_val c) cs else acc)"

definition nat_val :: "bytes \<Rightarrow> int" where
  "nat_val s =
     (case s of
        c # x # d # _ \<Rightarrow>
          if c = 48 \<and> (x = 120 \<or> x = 88) \<and> digit_val d < 16 then digits_val 16 0 (drop 2 s)
          else digits_val (if c = 48 then 8 else 10) 0 s
      | c # _ \<Rightarrow> digits_val (if c = 48 then 8 else 10) 0 s
      | [] \<Rightarrow> 0)"

definition strtol :: "bytes \<Rightarrow> int" where
  "strtol s =
     (let s = dropWhile (\<lambda>c. c = 32 \<or> 9 \<le> c \<and> c \<le> 13) s;
          v = (case s of c # cs \<Rightarrow> if c = 45 then - nat_val cs else if c = 43 then nat_val cs else nat_val s | [] \<Rightarrow> 0)
      in max (- (2 ^ 31)) (min (2 ^ 31 - 1) v))"

section \<open>The table\<close>

definition help_line :: "shell_item \<Rightarrow> bytes" where
  "help_line item = pad_right 16 (si_name item) @ pad_right 5 (os_shell_type (si_type item))
     @ pad_right 4 (hex_num 97 (unat (si_len item))) @ pad_zero 8 (hex_num 97 (unat (si_addr item)))
     @ bytes_of ''  '' @ pad_right 30 (si_help item) @ [10, 13]"

fun help_dynamic :: "nat \<Rightarrow> shell_item list \<Rightarrow> bytes" where
  "help_dynamic i [] = []"
| "help_dynamic i (item # items) = pad_right 2 (hex_num 97 i) @ bytes_of ''  '' @ help_line item @ help_dynamic (i + 1) items"

definition shell_cmd_help :: "'w shell_cb \<Rightarrow> int \<times> 'w shell_cb" where
  "shell_cmd_help cb =
     (0, emit (pad_right 16 (bytes_of ''Name'') @ pad_right 5 (bytes_of ''Type'') @ pad_right 4 (bytes_of ''Len'')
        @ pad_right 10 (bytes_of ''RunAddr'') @ pad_right 20 (bytes_of ''Description'') @ [10, 13]
        @ concat (map help_line (sc_s cb)) @ help_dynamic 0 (sc_d cb)) cb)"

fun find_item :: "bytes \<Rightarrow> shell_item list \<Rightarrow> shell_item option" where
  "find_item name [] = None"
| "find_item name (item # items) = (if name = si_name item then Some item else find_item name items)"

definition shell_cmd_match :: "bytes \<Rightarrow> 'w shell_cb \<Rightarrow> shell_item option" where
  "shell_cmd_match name cb =
     (case find_item name (sc_s cb) of Some item \<Rightarrow> Some item | None \<Rightarrow> find_item name (sc_d cb))"

text \<open>\<^verbatim>\<open>strncmp(name, index, strlen(index)) == 0\<close>: the index begins the name.\<close>

fun index_loop :: "bytes \<Rightarrow> shell_item list \<Rightarrow> bytes list \<Rightarrow> bytes list" where
  "index_loop index [] matches = matches"
| "index_loop index (item # items) matches =
     (if length matches < MAX_TAB_MATCHES
      then index_loop index items (if take (length index) (si_name item) = index then matches @ [si_name item] else matches)
      else matches)"

definition shell_cmd_index :: "bytes \<Rightarrow> 'w shell_cb \<Rightarrow> bytes list" where
  "shell_cmd_index index cb = index_loop index (sc_d cb) (index_loop index (sc_s cb) [])"

section \<open>Execution\<close>

text \<open>A variable: \<^verbatim>\<open>memcpy\<close> from the local \<^verbatim>\<open>value\<close>, which has four bytes, or a dump of its bytes.\<close>

definition le_bytes :: "u32 \<Rightarrow> bytes" where
  "le_bytes v = [ucast v, ucast (drop_bit 8 v), ucast (drop_bit 16 v), ucast (drop_bit 24 v)]"

definition var_set :: "shell_item \<Rightarrow> bytes \<Rightarrow> 'w shell_cb \<Rightarrow> 'w shell_cb option" where
  "var_set item arg cb = do {
     let value = word_of_int (strtol arg);
     src \<leftarrow> fetch 0 (unat (si_len item)) (le_bytes value);
     blk \<leftarrow> sc_vars cb (si_addr item);
     blk \<leftarrow> put 0 src blk;
     Some (cb\<lparr>sc_vars := (sc_vars cb)(si_addr item \<mapsto> blk)\<rparr>) }"

definition var_show :: "shell_item \<Rightarrow> 'w shell_cb \<Rightarrow> 'w shell_cb option" where
  "var_show item cb = do {
     blk \<leftarrow> sc_vars cb (si_addr item);
     bs \<leftarrow> fetch 0 (unat (si_len item)) blk;
     Some (emit (bytes_of ''(HEX):ADDR:0X'' @ pad_zero 8 (hex_num 65 (unat (si_addr item))) @ bytes_of '':''
       @ concat (map (\<lambda>b. pad_zero 2 (hex_num 97 (unat b)) @ [32]) bs)) cb) }"

text \<open>The arguments as strings: what the pointers of \<^verbatim>\<open>argv\<close> point at in the changed line.\<close>

fun arg_strings :: "bytes \<Rightarrow> nat list \<Rightarrow> bytes list option" where
  "arg_strings s [] = Some []"
| "arg_strings s (i # is) = do { a \<leftarrow> c_str (drop i s); as \<leftarrow> arg_strings s is; Some (a # as) }"

definition shell_cmd_execute :: "bytes \<Rightarrow> 'w shell_cb \<Rightarrow> (int \<times> 'w shell_cb) option" where
  "shell_cmd_execute param cb = do {
     (_, argc, argp, s) \<leftarrow> string_to_arg (int cn_shell_args) (replicate cn_shell_args 0) (Some param);
     argv \<leftarrow> arg_strings (the s) (take (nat argc) argp);
     case argv of
       [] \<Rightarrow> Some (0, snd (shell_cmd_help cb))
     | name # args \<Rightarrow>
         (case shell_cmd_match name cb of
            None \<Rightarrow> Some (-1, emit (bytes_of ''SHELL COMMAND NOT FIND:'' @ name @ [10, 13]) cb)
          | Some item \<Rightarrow>
              if si_type item = EN_OSSHELL_CMD
              then (let (o', w) = sc_entry cb (si_addr item) argv (sc_world cb)
                    in Some (-1, (emit o' cb)\<lparr>sc_world := w\<rparr>))
              else do {
                cb \<leftarrow> (if length argv = 3 \<and> argv ! 1 = bytes_of ''set'' then var_set item (argv ! 2) cb else var_show item cb);
                Some (-1, cb) }) }"

text \<open>The section that the linker makes of the exported items.\<close>

definition shell_cmd_init :: "shell_item list \<Rightarrow> 'w shell_cb \<Rightarrow> int \<times> 'w shell_cb" where
  "shell_cmd_init section cb = (0, if section \<noteq> [] then cb\<lparr>sc_s := section\<rparr> else cb)"

definition os_shell_version :: "'w shell_cb \<Rightarrow> int \<times> 'w shell_cb" where
  "os_shell_version cb = (0, emit (bytes_of ''os_shell_version:1.0'' @ [10, 13]) cb)"

section \<open>Properties\<close>

lemma arg_strings_map: "map (\<lambda>i. c_str (drop i s)) is = map Some ws \<Longrightarrow> arg_strings s is = Some ws"
  by (induction "is" arbitrary: ws) (auto simp: map_eq_Cons_conv)

lemma find_item_find: "find_item name items = List.find (\<lambda>i. si_name i = name) items"
  by (induction items) auto

lemma match_find: "shell_cmd_match name cb = List.find (\<lambda>i. si_name i = name) (sc_s cb @ sc_d cb)"
proof -
  have "List.find P (xs @ ys) = (case List.find P xs of None \<Rightarrow> List.find P ys | Some x \<Rightarrow> Some x)" for P and xs ys :: "shell_item list"
    by (induction xs) auto
  then show ?thesis by (simp add: shell_cmd_match_def find_item_find split: option.split)
qed

lemma index_loop_filter:
  "length matches \<le> MAX_TAB_MATCHES \<Longrightarrow>
     index_loop index items matches = take MAX_TAB_MATCHES (matches @ filter (\<lambda>n. take (length index) n = index) (map si_name items))"
  by (induction items arbitrary: matches) (auto simp: take_Cons' Suc_diff_Suc)

lemma execute_words:
  assumes "param = cs @ 0 # rest" and "0 \<notin> set cs"
  shows "\<exists>s argp n. string_to_arg (int cn_shell_args) (replicate cn_shell_args 0) (Some param) = Some (int n, int n, argp, Some s) \<and>
    arg_strings s (take n argp) = Some (take cn_shell_args (words_of cs))"
proof -
  obtain n argv' s' where "string_to_arg (int cn_shell_args) (replicate cn_shell_args 0) (Some param) = Some (int n, int n, argv', Some s')"
    "n = min cn_shell_args (length (words_of cs))"
    "map (\<lambda>i. c_str (drop i s')) (take n argv') = map Some (take n (words_of cs))"
    using string_to_arg_words[OF assms, of "int cn_shell_args" "replicate cn_shell_args 0"] by auto
  moreover have "take n (words_of cs) = take cn_shell_args (words_of cs)" using calculation(2) by (simp add: min_def)
  ultimately show ?thesis using arg_strings_map by fastforce
qed

text \<open>Execution of a line: it is cut into at most 16 words at the blanks. An empty line prints the help; otherwise the first
  item of the table with the first word as its name is taken. A command is called with the words,
  and the line of an unknown one changes nothing but the output.\<close>

theorem shell_execute_dispatch:
  assumes "param = cs @ 0 # rest" and "0 \<notin> set cs" and "ws = take cn_shell_args (words_of cs)"
  shows "shell_cmd_execute param cb =
    (case ws of
       [] \<Rightarrow> Some (0, snd (shell_cmd_help cb))
     | name # _ \<Rightarrow>
         (case List.find (\<lambda>i. si_name i = name) (sc_s cb @ sc_d cb) of
            None \<Rightarrow> Some (-1, emit (bytes_of ''SHELL COMMAND NOT FIND:'' @ name @ [10, 13]) cb)
          | Some item \<Rightarrow>
              if si_type item = EN_OSSHELL_CMD
              then (case sc_entry cb (si_addr item) ws (sc_world cb) of
                      (o', w) \<Rightarrow> Some (-1, cb\<lparr>sc_out := sc_out cb @ o', sc_world := w\<rparr>))
              else map_option (Pair (-1))
                (if length ws = 3 \<and> ws ! 1 = bytes_of ''set'' then var_set item (ws ! 2) cb else var_show item cb)))"
proof -
  obtain s argp n where "string_to_arg (int cn_shell_args) (replicate cn_shell_args 0) (Some param) = Some (int n, int n, argp, Some s)"
    "arg_strings s (take n argp) = Some ws"
    using execute_words[OF assms(1,2)] assms(3) by auto
  then have "shell_cmd_execute param cb =
    (case ws of
       [] \<Rightarrow> Some (0, snd (shell_cmd_help cb))
     | name # args \<Rightarrow>
         (case shell_cmd_match name cb of
            None \<Rightarrow> Some (-1, emit (bytes_of ''SHELL COMMAND NOT FIND:'' @ name @ [10, 13]) cb)
          | Some item \<Rightarrow>
              if si_type item = EN_OSSHELL_CMD
              then (let (o', w) = sc_entry cb (si_addr item) ws (sc_world cb)
                    in Some (-1, (emit o' cb)\<lparr>sc_world := w\<rparr>))
              else do {
                cb \<leftarrow> (if length ws = 3 \<and> ws ! 1 = bytes_of ''set'' then var_set item (ws ! 2) cb else var_show item cb);
                Some (-1, cb) }))"
    unfolding shell_cmd_execute_def by simp
  then show ?thesis unfolding match_find
    by (auto simp: emit_def map_conv_bind_option comp_def split: list.split option.split prod.split)
qed

text \<open>A command that prints its arguments and a variable: the concrete input of the witnesses.\<close>

definition demo_shell :: "nat shell_cb" where
  "demo_shell = \<lparr>sc_s = [\<lparr>si_name = [101, 111], si_help = [], si_addr = 1, si_type = 0, si_len = 4\<rparr>,
                        \<lparr>si_name = [118], si_help = [], si_addr = 2, si_type = 1, si_len = 2\<rparr>],
     sc_d = [], sc_entry = (\<lambda>a argv w. (concat argv, w + 1)), sc_vars = [2 \<mapsto> [5, 6]], sc_out = [], sc_world = 0\<rparr>"

theorem shell_execute_dispatch_witness:
  "shell_cmd_execute (bytes_of ''eo  1 2'' @ [0]) demo_shell = Some (-1, demo_shell\<lparr>sc_out := bytes_of ''eo12'', sc_world := 1\<rparr>)"
proof -
  have "take cn_shell_args (words_of (bytes_of ''eo  1 2'')) = [[101, 111], [49], [50]]" by code_simp
  then show ?thesis
    using shell_execute_dispatch[of _ "bytes_of ''eo  1 2''" "[]" "[[101, 111], [49], [50]]" demo_shell]
    by (simp add: demo_shell_def)
qed

text \<open>Completion finds the names that begin with the text, in the order of the table, at most 16 of them.\<close>

theorem shell_completion:
  "shell_cmd_index index cb = take MAX_TAB_MATCHES (filter (\<lambda>n. take (length index) n = index) (map si_name (sc_s cb @ sc_d cb)))"
  by (simp add: shell_cmd_index_def index_loop_filter min_def)

end
