(* ===== verification/Shell.thy ===== *)
theory Shell
  imports ShellCmd
begin

text \<open>
  The line editor of the shell, from \<^verbatim>\<open>shell/shell_main.c\<close>: one definition per key, and the loop of the server as
  a step for each character it reads. The output goes to the bytes of \<open>shell_cb\<close>. An access outside the 64 bytes of a line is \<open>None\<close>; the
  machine is little-endian.
\<close>

section \<open>Data\<close>

abbreviation "CN_CMDLEN_MAX \<equiv> 64 :: nat"
abbreviation "CN_CMD_CACHE \<equiv> 4 :: nat"
abbreviation "CN_VIRTUAL_KEY_ARROWU \<equiv> 0x41001B :: u32"
abbreviation "CN_VIRTUAL_KEY_ARROWD \<equiv> 0x42001B :: u32"
abbreviation "CN_VIRTUAL_KEY_ARROWR \<equiv> 0x43001B :: u32"
abbreviation "CN_VIRTUAL_KEY_ARROWL \<equiv> 0x44001B :: u32"
abbreviation "CN_KEY_LF \<equiv> 0x0D :: u32"
abbreviation "CN_KEY_CR \<equiv> 0x0A :: u32"
abbreviation "CN_KEY_TAB \<equiv> 0x09 :: u32"
abbreviation "CN_KEY_BS \<equiv> 0x08 :: u32"
abbreviation "CN_KEY_ES \<equiv> 0x1B :: u32"

record shell_buffer =
  sb_curcmd :: bytes
  sb_curoffset :: u8
  sb_tab :: "bytes list"
  sb_taboffset :: u8

record 'w shell_server =
  sv_buf :: shell_buffer
  sv_vk :: u32
  sv_vkmask :: u32
  sv_cb :: "'w shell_cb"

section \<open>Output\<close>

definition shell_put_char :: "u8 \<Rightarrow> 'w shell_cb \<Rightarrow> 'w shell_cb" where
  "shell_put_char ch = emit [ch]"

fun shell_put_string :: "bytes \<Rightarrow> 'w shell_cb \<Rightarrow> 'w shell_cb" where
  "shell_put_string [] cb = cb"
| "shell_put_string (c # cs) cb = shell_put_string cs (shell_put_char c cb)"

definition shell_put_index :: "'w shell_cb \<Rightarrow> 'w shell_cb" where
  "shell_put_index = shell_put_string ([10, 13] @ bytes_of ''LiteOS:/>'')"

definition shell_put_backspace :: "nat \<Rightarrow> 'w shell_cb \<Rightarrow> 'w shell_cb" where
  "shell_put_backspace n = shell_put_string [8, 32, 8] ^^ n"

definition shell_put_space :: "nat \<Rightarrow> 'w shell_cb \<Rightarrow> 'w shell_cb" where
  "shell_put_space n = shell_put_char 32 ^^ n"

definition shell_moves_cursor_right :: "nat \<Rightarrow> u32 \<Rightarrow> 'w shell_cb \<Rightarrow> 'w shell_cb" where
  "shell_moves_cursor_right n vk =
     shell_put_string [ucast (vk AND 0xff), ucast (drop_bit 8 vk AND 0xff), ucast (drop_bit 16 vk AND 0xff)] ^^ n"

definition shell_bell :: "'w shell_cb \<Rightarrow> 'w shell_cb" where
  "shell_bell = shell_put_char 7"

definition shell_moves_cursor_left :: "nat \<Rightarrow> 'w shell_cb \<Rightarrow> 'w shell_cb" where
  "shell_moves_cursor_left n = shell_put_char 8 ^^ n"

section \<open>The line\<close>

text \<open>\<^verbatim>\<open>strncpy\<close>: the string, padded with zero bytes to \<open>n\<close>.\<close>

definition strncpy :: "nat \<Rightarrow> bytes \<Rightarrow> bytes" where
  "strncpy n s = take n (s @ replicate n 0)"

fun cached :: "bytes \<Rightarrow> bytes list \<Rightarrow> bool option" where
  "cached cmd [] = Some False"
| "cached cmd (t # ts) = do { s \<leftarrow> c_str t; if cmd = s then Some True else cached cmd ts }"

definition shell_cachecmd :: "shell_buffer \<Rightarrow> shell_buffer option" where
  "shell_cachecmd tab = do {
     cmd \<leftarrow> c_str (sb_curcmd tab);
     found \<leftarrow> cached cmd (sb_tab tab);
     if found then Some tab
     else do {
       let offset = unat (sb_taboffset tab);
       _ \<leftarrow> byte_at (sb_tab tab) offset;
       Some (tab\<lparr>sb_tab := (sb_tab tab)[offset := strncpy CN_CMDLEN_MAX cmd],
                 sb_taboffset := of_nat ((offset + 1) mod CN_CMD_CACHE)\<rparr>) } }"

text \<open>The loop that moves the end of the line, from its last byte to the cursor.\<close>

fun shift_loop :: "nat \<Rightarrow> nat \<Rightarrow> nat \<Rightarrow> bytes \<Rightarrow> bytes option" where
  "shift_loop 0 cursor n buf = Some buf"
| "shift_loop (Suc k) cursor n buf =
     (if cursor < n then None
      else do { b \<leftarrow> byte_at buf (cursor - n); buf \<leftarrow> put cursor [b] buf; shift_loop k (cursor - 1) n buf })"

definition shell_insert_string :: "shell_buffer \<Rightarrow> bytes \<Rightarrow> 'w shell_cb \<Rightarrow> (shell_buffer \<times> 'w shell_cb) option" where
  "shell_insert_string tab str cb = do {
     cursor \<leftarrow> c_str (drop (unat (sb_curoffset tab)) (sb_curcmd tab));
     let cursor_len = length cursor;
     let str_len = length str;
     let cb = shell_moves_cursor_left cursor_len (shell_put_string cursor (shell_put_string str cb));
     cmd \<leftarrow> c_str (sb_curcmd tab);
     let p = length cmd + str_len;
     buf \<leftarrow> put p [0] (sb_curcmd tab);
     buf \<leftarrow> shift_loop cursor_len (p - 1) str_len buf;
     buf \<leftarrow> put (p - cursor_len - str_len) str buf;
     Some (tab\<lparr>sb_curcmd := buf, sb_curoffset := sb_curoffset tab + of_nat str_len\<rparr>, cb) }"

section \<open>Keys\<close>

definition flush_vk :: "'w shell_server \<Rightarrow> 'w shell_server" where
  "flush_vk s = s\<lparr>sv_vk := 0, sv_vkmask := 0\<rparr>"

definition key_left :: "'w shell_server \<Rightarrow> 'w shell_server" where
  "key_left s =
     (let b = sv_buf s in
      if sb_curoffset b > 0
      then s\<lparr>sv_buf := b\<lparr>sb_curoffset := sb_curoffset b - 1\<rparr>, sv_cb := shell_moves_cursor_left 1 (sv_cb s)\<rparr>
      else s\<lparr>sv_cb := shell_bell (sv_cb s)\<rparr>)"

definition key_right :: "'w shell_server \<Rightarrow> 'w shell_server option" where
  "key_right s = do {
     let b = sv_buf s;
     cmd \<leftarrow> c_str (sb_curcmd b);
     Some (if unat (sb_curoffset b) < length cmd
           then s\<lparr>sv_buf := b\<lparr>sb_curoffset := sb_curoffset b + 1\<rparr>, sv_cb := shell_moves_cursor_right 1 (sv_vk s) (sv_cb s)\<rparr>
           else s\<lparr>sv_cb := shell_bell (sv_cb s)\<rparr>) }"

text \<open>The previous command is \<open>d = 3\<close> places on in the ring, the next one \<open>d = 5\<close>.\<close>

definition key_history :: "nat \<Rightarrow> 'w shell_server \<Rightarrow> 'w shell_server option" where
  "key_history d s = do {
     let b = sv_buf s;
     cmd \<leftarrow> c_str (sb_curcmd b);
     let len = length cmd;
     let cb = shell_put_backspace len (if unat (sb_curoffset b) < len
                then shell_put_space (len - unat (sb_curoffset b)) (sv_cb s) else sv_cb s);
     let offset = (unat (sb_taboffset b) + d) mod CN_CMD_CACHE;
     t \<leftarrow> byte_at (sb_tab b) offset;
     src \<leftarrow> c_str t;
     let curcmd = strncpy CN_CMDLEN_MAX src;
     cmd \<leftarrow> c_str curcmd;
     Some (s\<lparr>sv_buf := b\<lparr>sb_curcmd := curcmd, sb_taboffset := of_nat offset, sb_curoffset := of_nat (length cmd)\<rparr>,
             sv_cb := shell_put_string cmd cb\<rparr>) }"

fun put_matches :: "bytes list \<Rightarrow> 'w shell_cb \<Rightarrow> 'w shell_cb" where
  "put_matches [] cb = cb"
| "put_matches (m # ms) cb = put_matches ms (shell_put_char 9 (shell_put_string m cb))"

definition key_tab :: "'w shell_server \<Rightarrow> 'w shell_server option" where
  "key_tab s =
     (let b = sv_buf s; off = unat (sb_curoffset b) in
      if off > 0
      then do {
        cut \<leftarrow> put off [0] (sb_curcmd b);
        index \<leftarrow> c_str cut;
        case shell_cmd_index index (sv_cb s) of
          [] \<Rightarrow> Some (s\<lparr>sv_cb := shell_bell (sv_cb s)\<rparr>)
        | [m] \<Rightarrow>
            if off \<le> length m
            then do { (b, cb) \<leftarrow> shell_insert_string b (drop off m) (sv_cb s); Some (s\<lparr>sv_buf := b, sv_cb := cb\<rparr>) }
            else None
        | ms \<Rightarrow> do {
            cmd \<leftarrow> c_str (sb_curcmd b);
            let cb = emit [10, 13] (put_matches ms (emit [10, 13] (sv_cb s)));
            let cb = shell_put_string cmd (shell_put_index cb);
            Some (s\<lparr>sv_cb := shell_moves_cursor_left (length cmd - off) cb\<rparr>) } }
      else Some (s\<lparr>sv_cb := shell_bell (sv_cb s)\<rparr>))"

definition key_enter :: "'w shell_server \<Rightarrow> 'w shell_server option" where
  "key_enter s = do {
     let b = sv_buf s;
     cmd \<leftarrow> c_str (sb_curcmd b);
     (b, cb) \<leftarrow>
       (if cmd \<noteq> []
        then do {
          b \<leftarrow> shell_cachecmd b;
          (_, cb) \<leftarrow> shell_cmd_execute (sb_curcmd b) (emit [10, 13] (sv_cb s));
          Some (b\<lparr>sb_curcmd := replicate CN_CMDLEN_MAX 0, sb_curoffset := 0\<rparr>, cb) }
        else Some (b, sv_cb s));
     Some (s\<lparr>sv_buf := b, sv_cb := shell_put_index cb\<rparr>) }"

definition key_bs :: "'w shell_server \<Rightarrow> 'w shell_server option" where
  "key_bs s =
     (let b = sv_buf s; off = unat (sb_curoffset b) in
      if off > 0
      then do {
        substr \<leftarrow> c_str (drop off (sb_curcmd b));
        let cb = shell_put_char 32 (shell_put_string substr (shell_put_char 8 (sv_cb s)));
        let cb = shell_moves_cursor_left (length substr + 1) cb;
        buf \<leftarrow> put (off - 1) (substr @ [0]) (sb_curcmd b);
        Some (s\<lparr>sv_buf := b\<lparr>sb_curcmd := buf, sb_curoffset := sb_curoffset b - 1\<rparr>, sv_cb := cb\<rparr>) }
      else Some (s\<lparr>sv_cb := shell_bell (sv_cb s)\<rparr>))"

text \<open>\<^verbatim>\<open>(char *)&ch\<close> is the string of the one character.\<close>

definition key_default :: "int \<Rightarrow> 'w shell_server \<Rightarrow> 'w shell_server option" where
  "key_default ch s =
     (let b = sv_buf s in
      if unat (sb_curoffset b) < CN_CMDLEN_MAX - 1
      then do { (b, cb) \<leftarrow> shell_insert_string b [word_of_int ch] (sv_cb s); Some (s\<lparr>sv_buf := b, sv_cb := cb\<rparr>) }
      else Some (s\<lparr>sv_cb := shell_bell (sv_cb s)\<rparr>))"

definition shell_switch :: "int \<Rightarrow> 'w shell_server \<Rightarrow> 'w shell_server option" where
  "shell_switch ch s =
     (let m = sv_vkmask s in
      if m = CN_VIRTUAL_KEY_ARROWL then Some (flush_vk (key_left s))
      else if m = CN_VIRTUAL_KEY_ARROWR then map_option flush_vk (key_right s)
      else if m = CN_VIRTUAL_KEY_ARROWU then map_option flush_vk (key_history 3 s)
      else if m = CN_VIRTUAL_KEY_ARROWD then map_option flush_vk (key_history 5 s)
      else if m = CN_KEY_TAB then map_option flush_vk (key_tab s)
      else if m = CN_KEY_LF \<or> m = CN_KEY_CR then map_option flush_vk (key_enter s)
      else if m = CN_KEY_BS then map_option flush_vk (key_bs s)
      else if m = CN_KEY_ES then Some (s\<lparr>sv_vk := CN_KEY_ES, sv_vkmask := CN_KEY_ES\<rparr>)
      else map_option flush_vk (key_default ch s))"

text \<open>One turn of the loop of \<^verbatim>\<open>shell_server_entry\<close>, with the character that was read.\<close>

definition shell_server_turn :: "int \<Rightarrow> 'w shell_server \<Rightarrow> 'w shell_server option" where
  "shell_server_turn ch s =
     (if ch = 0 \<or> ch = -1 \<or> ch = 0xFF then Some s
      else if sv_vk s AND 0xFF \<noteq> 0
      then if drop_bit 8 (sv_vk s) AND 0xff = 0 then Some (s\<lparr>sv_vk := sv_vk s OR push_bit 8 (word_of_int ch)\<rparr>)
           else shell_switch ch (s\<lparr>sv_vk := sv_vk s OR push_bit 16 (word_of_int ch),
                                   sv_vkmask := sv_vkmask s OR push_bit 16 (word_of_int ch)\<rparr>)
      else shell_switch ch (s\<lparr>sv_vkmask := word_of_int ch\<rparr>))"

fun shell_server_run :: "int list \<Rightarrow> 'w shell_server \<Rightarrow> 'w shell_server option" where
  "shell_server_run [] s = Some s"
| "shell_server_run (ch # chs) s = do { s \<leftarrow> shell_server_turn ch s; shell_server_run chs s }"

definition shell_server_init :: "'w shell_cb \<Rightarrow> 'w shell_server" where
  "shell_server_init cb =
     \<lparr>sv_buf = \<lparr>sb_curcmd = replicate CN_CMDLEN_MAX 0, sb_curoffset = 0,
                sb_tab = replicate CN_CMD_CACHE (replicate CN_CMDLEN_MAX 0), sb_taboffset = 0\<rparr>,
      sv_vk = 0, sv_vkmask = 0,
      sv_cb = shell_put_index (shell_put_string (bytes_of ''WELCOME TO IOT_LINK SHELL'') cb)\<rparr>"

section \<open>What the functions print\<close>

lemma put_string_emit [simp]: "shell_put_string cs cb = emit cs cb"
  by (induction cs arbitrary: cb) (simp_all add: shell_put_char_def)

lemma emit_funpow: "(emit s ^^ n) cb = emit (concat (replicate n s)) cb"
proof (induction n)
  case (Suc n)
  have "concat (replicate n s) @ s = s @ concat (replicate n s)" by (induction n) auto
  then show ?case using Suc by simp
qed simp

lemma outputs [simp]:
  fixes cb :: "'w shell_cb"
  shows   "shell_put_char c cb = emit [c] cb" "shell_put_index cb = emit ([10, 13] @ bytes_of ''LiteOS:/>'') cb" "shell_bell cb = emit [7] cb"
  "shell_put_backspace n cb = emit (concat (replicate n [8, 32, 8])) cb" "shell_put_space n cb = emit (replicate n 32) cb"
  "shell_moves_cursor_left n cb = emit (replicate n 8) cb"
  "shell_moves_cursor_right (Suc 0) vk cb = emit [ucast (vk AND 0xff), ucast (drop_bit 8 vk AND 0xff), ucast (drop_bit 16 vk AND 0xff)] cb"
proof -
  have e: "shell_put_string t = emit t" "shell_put_char c = (emit [c] :: 'w shell_cb \<Rightarrow> 'w shell_cb)" for t c
    by (simp_all add: fun_eq_iff shell_put_char_def)
  have r: "concat (replicate n [x]) = replicate n x" for n and x :: u8 by (induction n) simp_all
  show "shell_put_char c cb = emit [c] cb" "shell_put_index cb = emit ([10, 13] @ bytes_of ''LiteOS:/>'') cb"
    "shell_bell cb = emit [7] cb" "shell_put_backspace n cb = emit (concat (replicate n [8, 32, 8])) cb"
    "shell_put_space n cb = emit (replicate n 32) cb" "shell_moves_cursor_left n cb = emit (replicate n 8) cb"
    "shell_moves_cursor_right (Suc 0) vk cb = emit [ucast (vk AND 0xff), ucast (drop_bit 8 vk AND 0xff), ucast (drop_bit 16 vk AND 0xff)] cb"
    by (simp_all add: e r shell_put_index_def shell_bell_def shell_put_backspace_def shell_put_space_def shell_moves_cursor_left_def
      shell_moves_cursor_right_def emit_funpow)
qed

section \<open>The line in the buffer\<close>

lemma shift_loop_moves:
  "\<lbrakk>k + n \<le> Suc cursor; cursor < length buf\<rbrakk> \<Longrightarrow>
     \<exists>buf'. shift_loop k cursor n buf = Some buf' \<and> length buf' = length buf \<and>
       (\<forall>i < length buf. buf' ! i = (if cursor < i + k \<and> i \<le> cursor then buf ! (i - n) else buf ! i))"
proof (induction k arbitrary: cursor buf)
  case (Suc k)
  let ?b = "buf[cursor := buf ! (cursor - n)]"
  have p: "put cursor [buf ! (cursor - n)] buf = Some ?b" using Suc.prems by (simp add: put_def upd_conv_take_nth_drop)
  have r: "shift_loop (Suc k) cursor n buf = shift_loop k (cursor - 1) n ?b"
    using Suc.prems p less_imp_diff_less[of cursor "length buf" n] by (simp add: byte_at_def)
  show ?case
  proof (cases "k = 0")
    case True
    have "cursor < i + Suc k \<and> i \<le> cursor \<longleftrightarrow> i = cursor" for i using True by auto
    then show ?thesis using r True by (auto simp: nth_list_update)
  next
    case False
    then have c: "k + n \<le> Suc (cursor - 1)" "cursor - 1 < length ?b" using Suc.prems by auto
    then obtain buf' where b: "shift_loop k (cursor - 1) n ?b = Some buf'" "length buf' = length buf"
      "\<forall>i < length buf. buf' ! i = (if cursor - 1 < i + k \<and> i \<le> cursor - 1 then ?b ! (i - n) else ?b ! i)"
      using Suc.IH[OF c] by auto
    have "buf' ! i = (if cursor < i + Suc k \<and> i \<le> cursor then buf ! (i - n) else buf ! i)" if i: "i < length buf" for i
      using b(3) i Suc.prems False by (auto simp: nth_list_update)
    then show ?thesis using r b(1,2) by auto
  qed
qed auto

lemma c_str_drop: "\<lbrakk>0 \<notin> set l; off \<le> length l\<rbrakk> \<Longrightarrow> c_str (drop off (l @ 0 # rest)) = Some (drop off l)"
proof -
  assume a: "0 \<notin> set l" "off \<le> length l"
  then have "0 \<notin> set (drop off l)" by (auto dest: in_set_dropD)
  then show ?thesis using a(2) by simp
qed

lemma insert_fits:
  assumes "sb_curcmd tab = l @ 0 # rest" and "0 \<notin> set l" and "unat (sb_curoffset tab) \<le> length l"
    and "length l + length str < length (sb_curcmd tab)"
  shows "\<exists>rest'. length rest' = length rest - length str \<and>
    shell_insert_string tab str cb =
      Some (tab\<lparr>sb_curcmd := take (unat (sb_curoffset tab)) l @ str @ drop (unat (sb_curoffset tab)) l @ 0 # rest',
                sb_curoffset := sb_curoffset tab + of_nat (length str)\<rparr>,
            emit (str @ drop (unat (sb_curoffset tab)) l @ replicate (length l - unat (sb_curoffset tab)) 8) cb)"
proof -
  let ?off = "unat (sb_curoffset tab)" and ?n = "length str" and ?c = "sb_curcmd tab"
  let ?p = "length l + ?n"
  have lr: "length ?c = length l + 1 + length rest" using assms(1) by simp
  have p1: "put ?p [0] ?c = Some (?c[?p := 0])" using assms(4) by (simp add: put_def upd_conv_take_nth_drop)
  have "\<exists>b2. shift_loop (length l - ?off) (?p - 1) ?n (?c[?p := 0]) = Some b2 \<and> length b2 = length ?c \<and>
    (\<forall>i < length ?c. b2 ! i = (if ?p \<le> i + (length l - ?off) \<and> i < ?p then ?c[?p := 0] ! (i - ?n) else ?c[?p := 0] ! i))"
  proof (cases "length l - ?off = 0")
    case False
    have e: "?p - 1 < i + k \<longleftrightarrow> ?p \<le> i + k" "i \<le> ?p - 1 \<longleftrightarrow> i < ?p" for i k using False by arith+
    show ?thesis using shift_loop_moves[of "length l - ?off" ?n "?p - 1" "?c[?p := 0]"] assms(4) False unfolding e by simp
  qed auto
  then obtain b2 where b2: "shift_loop (length l - ?off) (?p - 1) ?n (?c[?p := 0]) = Some b2" "length b2 = length ?c"
    "\<And>i. i < length ?c \<Longrightarrow> b2 ! i = (if ?p \<le> i + (length l - ?off) \<and> i < ?p then ?c[?p := 0] ! (i - ?n) else ?c[?p := 0] ! i)"
    by blast
  let ?b3 = "take ?off b2 @ str @ drop (?off + ?n) b2"
  have p3: "put ?off str b2 = Some ?b3" using assms(3,4) b2(2) by (simp add: put_def)
  have "?b3 = take ?off l @ str @ drop ?off l @ 0 # drop ?n rest"
  proof (rule nth_equalityI)
    fix i assume "i < length ?b3"
    then have i: "i < length ?c" using assms(3,4) b2(2) by simp
    consider "i < ?off" | "?off \<le> i" "i < ?off + ?n" | "?off + ?n \<le> i" "i < ?p" | "i = ?p" | "?p < i" by linarith
    then show "?b3 ! i = (take ?off l @ str @ drop ?off l @ 0 # drop ?n rest) ! i"
    proof cases
      case 1
      then have "\<not> ?p \<le> i + (length l - ?off)" using assms(3) by linarith
      then have "b2 ! i = l ! i" using 1 b2(3)[OF i] assms(1,3) by (simp add: nth_append)
      then show ?thesis using 1 i b2(2) assms(3) by (simp add: nth_append)
    next
      case 2
      then have "i - ?off < ?n" by linarith
      then show ?thesis using 2 i b2(2) assms(3) by (simp add: nth_append)
    next
      case 3
      then have "i - ?n < length l" "i - ?n \<noteq> ?p" by linarith+
      then have "?c[?p := 0] ! (i - ?n) = l ! (i - ?n)" using assms(1) by (simp add: nth_append)
      moreover have "?p \<le> i + (length l - ?off)" using 3 assms(3) by linarith
      ultimately have "b2 ! i = l ! (i - ?n)" using 3 b2(3)[OF i] by simp
      moreover obtain j where "i = ?off + ?n + j" using 3(1) le_Suc_ex by blast
      moreover have "j < length l - ?off" using 3(2) \<open>i = _\<close> by linarith
      ultimately show ?thesis using 3(2) i b2(2) assms(3) by (simp add: nth_append)
    next
      case 4
      moreover obtain j where "length l = ?off + j" using assms(3) le_Suc_ex by blast
      ultimately show ?thesis using i b2(2) b2(3)[OF i] assms(3) by (simp add: nth_append ac_simps)
    next
      case 5
      then have "?c[?p := 0] ! i = rest ! (i - length l - 1)" using assms(1) i by (simp add: nth_append nth_Cons')
      moreover obtain j where "i = Suc (?p + j)" using 5 less_iff_Suc_add by blast
      moreover obtain k where "length l = ?off + k" using assms(3) le_Suc_ex by blast
      ultimately show ?thesis using 5 i b2(2) b2(3)[OF i] lr by (simp add: nth_append ac_simps)
    qed
  qed (use assms(3,4) b2(2) lr in simp)
  then have "shell_insert_string tab str cb =
      Some (tab\<lparr>sb_curcmd := take ?off l @ str @ drop ?off l @ 0 # drop ?n rest, sb_curoffset := sb_curoffset tab + of_nat ?n\<rparr>,
            emit (str @ drop ?off l @ replicate (length l - ?off) 8) cb)"
    using assms(1-3) p1 b2(1) p3 c_str_drop[OF assms(2,3), of rest] c_str_terminated[OF assms(2), of rest]
    by (simp add: shell_insert_string_def Let_def)
  then show ?thesis by (intro exI[of _ "drop ?n rest"]) simp
qed

section \<open>A line editor\<close>

text \<open>What the keys do to a line: the text before the cursor and the text behind it. A line has at most 63 characters.\<close>

datatype edit_key = Ins u8 | CursorLeft | CursorRight | Backspace

fun key_chars :: "edit_key \<Rightarrow> int list" where
  "key_chars (Ins c) = [uint c]"
| "key_chars CursorLeft = [27, 91, 68]"
| "key_chars CursorRight = [27, 91, 67]"
| "key_chars Backspace = [8]"

fun edit :: "edit_key \<Rightarrow> bytes \<times> bytes \<Rightarrow> bytes \<times> bytes" where
  "edit (Ins c) (xs, ys) = (if length xs < 63 then (xs @ [c], ys) else (xs, ys))"
| "edit CursorLeft (xs, ys) = (if xs = [] then (xs, ys) else (butlast xs, last xs # ys))"
| "edit CursorRight (xs, ys) = (case ys of [] \<Rightarrow> (xs, ys) | y # ys \<Rightarrow> (xs @ [y], ys))"
| "edit Backspace (xs, ys) = (butlast xs, ys)"

definition printable :: "u8 \<Rightarrow> bool" where
  "printable c \<longleftrightarrow> 32 \<le> c \<and> c < 127"

text \<open>The keys that the code survives: a character is not inserted into a full line before its end.\<close>

fun key_fits :: "edit_key \<Rightarrow> bytes \<times> bytes \<Rightarrow> bool" where
  "key_fits (Ins c) (xs, ys) \<longleftrightarrow> printable c \<and> (length xs + length ys < 63 \<or> ys = [])"
| "key_fits _ _ \<longleftrightarrow> True"

fun keys_fit :: "edit_key list \<Rightarrow> bytes \<times> bytes \<Rightarrow> bool" where
  "keys_fit [] l \<longleftrightarrow> True"
| "keys_fit (k # ks) l \<longleftrightarrow> key_fits k l \<and> keys_fit ks (edit k l)"

text \<open>What the code prints for a key.\<close>

fun key_out :: "edit_key \<Rightarrow> bytes \<times> bytes \<Rightarrow> bytes" where
  "key_out (Ins c) (xs, ys) = (if length xs < 63 then c # ys @ replicate (length ys) 8 else [7])"
| "key_out CursorLeft (xs, ys) = (if xs = [] then [7] else [8])"
| "key_out CursorRight (xs, ys) = (if ys = [] then [7] else [27, 91, 67])"
| "key_out Backspace (xs, ys) = (if xs = [] then [7] else 8 # ys @ 32 # replicate (Suc (length ys)) 8)"

definition line_ok :: "shell_buffer \<Rightarrow> bytes \<times> bytes \<Rightarrow> bool" where
  "line_ok b l \<longleftrightarrow> (\<exists>rest. sb_curcmd b = fst l @ snd l @ 0 # rest) \<and> length (sb_curcmd b) = CN_CMDLEN_MAX \<and>
     list_all printable (fst l @ snd l) \<and> unat (sb_curoffset b) = length (fst l)"

definition editing :: "'w shell_server \<Rightarrow> bytes \<times> bytes \<Rightarrow> bool" where
  "editing s l \<longleftrightarrow> line_ok (sv_buf s) l \<and> sv_vk s = 0 \<and> sv_vkmask s = 0"

lemma printable_nz: "list_all printable l \<Longrightarrow> 0 \<notin> set l"
  by (auto simp: list_all_iff printable_def)

text \<open>A plain character goes to the switch as it is, and a cursor key after its three characters.\<close>

lemma turn_plain:
  "\<lbrakk>sv_vk s = 0; 0 < c; c < 0xFF\<rbrakk> \<Longrightarrow> shell_server_turn c s = shell_switch c (s\<lparr>sv_vkmask := word_of_int c\<rparr>)"
  by (simp add: shell_server_turn_def)

lemma run_left:
  fixes s :: "'a shell_server"
  assumes "sv_vk s = 0"
  shows "shell_server_run [27, 91, 68] s =
    Some (flush_vk (key_left (s\<lparr>sv_vk := 0x445B1B, sv_vkmask := CN_VIRTUAL_KEY_ARROWL\<rparr>)))"
  using assms by (simp add: shell_server_turn_def shell_switch_def)

lemma run_right:
  fixes s :: "'a shell_server"
  assumes "sv_vk s = 0"
  shows "shell_server_run [27, 91, 67] s =
    map_option flush_vk (key_right (s\<lparr>sv_vk := 0x435B1B, sv_vkmask := CN_VIRTUAL_KEY_ARROWR\<rparr>))"
proof -
  have "shell_server_run [] = (Some :: 'a shell_server \<Rightarrow> 'a shell_server option)" by (rule ext) simp
  then show ?thesis using assms by (simp add: shell_server_turn_def shell_switch_def)
qed

lemma switch_default:
  assumes "printable c"
  shows "shell_switch (uint c) (s\<lparr>sv_vkmask := word_of_int (uint c)\<rparr>) = map_option flush_vk (key_default (uint c) (s\<lparr>sv_vkmask := word_of_int (uint c)\<rparr>))"
proof -
  have c: "32 \<le> uint c" "uint c < 127" using assms by (auto simp: printable_def word_le_def word_less_def)
  then have "uint (word_of_int (uint c) :: u32) = uint c" by (simp add: unsigned_ucast_eq take_bit_int_eq_self)
  then have "(word_of_int (uint c) :: u32) \<noteq> w" if "uint w < 32 \<or> 127 \<le> uint w" for w using c that by auto
  then show ?thesis by (simp add: shell_switch_def)
qed

lemma line_okD:
  assumes "line_ok b (xs, ys)"
  shows "\<exists>rest. sb_curcmd b = (xs @ ys) @ 0 # rest \<and> length xs + length ys + length rest = 63"
    and "0 \<notin> set (xs @ ys)" and "unat (sb_curoffset b) = length xs" and "length xs + length ys \<le> 63"
    and "c_str (sb_curcmd b) = Some (xs @ ys)" and "c_str (drop (unat (sb_curoffset b)) (sb_curcmd b)) = Some ys"
proof -
  obtain rest where r: "sb_curcmd b = (xs @ ys) @ 0 # rest" and l: "length (sb_curcmd b) = 64"
    using assms by (auto simp: line_ok_def)
  then show "\<exists>rest. sb_curcmd b = (xs @ ys) @ 0 # rest \<and> length xs + length ys + length rest = 63" by auto
  show n: "0 \<notin> set (xs @ ys)" using assms by (auto simp: line_ok_def dest!: printable_nz)
  show o: "unat (sb_curoffset b) = length xs" using assms by (simp add: line_ok_def)
  show "length xs + length ys \<le> 63" using r l by simp
  show "c_str (sb_curcmd b) = Some (xs @ ys)" unfolding r using n by (rule c_str_terminated)
  show "c_str (drop (unat (sb_curoffset b)) (sb_curcmd b)) = Some ys"
    using c_str_drop[OF n, of "length xs" rest] unfolding r o by simp
qed

lemma edit_insert:
  assumes "editing s (xs, ys)" and "key_fits (Ins c) (xs, ys)"
  shows "\<exists>b. shell_server_run (key_chars (Ins c)) s =
      Some (flush_vk (s\<lparr>sv_buf := b, sv_cb := emit (key_out (Ins c) (xs, ys)) (sv_cb s)\<rparr>)) \<and> line_ok b (edit (Ins c) (xs, ys)) \<and>
      sb_tab b = sb_tab (sv_buf s) \<and> sb_taboffset b = sb_taboffset (sv_buf s)"
proof -
  let ?b = "sv_buf s"
  have l: "line_ok ?b (xs, ys)" and v: "sv_vk s = 0" "sv_vkmask s = 0" using assms(1) by (simp_all add: editing_def)
  obtain rest where r: "sb_curcmd ?b = (xs @ ys) @ 0 # rest" "length xs + length ys + length rest = 63" using line_okD(1)[OF l] by blast
  have c: "printable c" "0 < uint c" "uint c < 255" using assms(2) by (auto simp: printable_def word_le_def word_less_def)
  have t: "shell_server_run (key_chars (Ins c)) s = map_option flush_vk (key_default (uint c) (s\<lparr>sv_vkmask := word_of_int (uint c)\<rparr>))"
    using turn_plain[OF v(1) c(2,3)] switch_default[OF c(1), of s]
    by (cases "key_default (uint c) (s\<lparr>sv_vkmask := word_of_int (uint c)\<rparr>)") simp_all
  show ?thesis
  proof (cases "length xs < 63")
    case True
    then have f: "length (xs @ ys) + length [c] < length (sb_curcmd ?b)" using assms(2) r by auto
    obtain rest' where i: "length rest' = length rest - 1" "shell_insert_string ?b [c] (sv_cb s) =
        Some (?b\<lparr>sb_curcmd := xs @ [c] @ ys @ 0 # rest', sb_curoffset := sb_curoffset ?b + 1\<rparr>,
              emit ([c] @ ys @ replicate (length ys) 8) (sv_cb s))"
      using insert_fits[OF r(1) line_okD(2)[OF l] _ f, of "sv_cb s"] line_okD(3)[OF l] by auto
    have "unat (sb_curoffset ?b + 1) = length xs + 1"
      using line_okD(3)[OF l] True by (simp add: unat_word_ariths)
    then have "line_ok (?b\<lparr>sb_curcmd := xs @ [c] @ ys @ 0 # rest', sb_curoffset := sb_curoffset ?b + 1\<rparr>) (xs @ [c], ys)"
      using i(1) r f c(1) l by (auto simp: line_ok_def)
    then show ?thesis using t i(2) True line_okD(3)[OF l]
      by (intro exI[of _ "?b\<lparr>sb_curcmd := xs @ [c] @ ys @ 0 # rest', sb_curoffset := sb_curoffset ?b + 1\<rparr>"])
        (simp add: key_default_def flush_vk_def Let_def)
  next
    case False
    then show ?thesis using t l line_okD(3)[OF l]
      by (intro exI[of _ ?b]) (simp add: key_default_def flush_vk_def Let_def)
  qed
qed

lemma edit_left:
  assumes "editing s (xs, ys)"
  shows "\<exists>b. shell_server_run (key_chars CursorLeft) s =
      Some (flush_vk (s\<lparr>sv_buf := b, sv_cb := emit (key_out CursorLeft (xs, ys)) (sv_cb s)\<rparr>)) \<and> line_ok b (edit CursorLeft (xs, ys)) \<and>
      sb_tab b = sb_tab (sv_buf s) \<and> sb_taboffset b = sb_taboffset (sv_buf s)"
proof -
  let ?b = "sv_buf s"
  have l: "line_ok ?b (xs, ys)" and v: "sv_vk s = 0" using assms by (simp_all add: editing_def)
  show ?thesis
  proof (cases xs rule: rev_exhaust)
    case Nil
    then have "sb_curoffset ?b = 0" using line_okD(3)[OF l] by (simp add: unat_eq_0)
    then show ?thesis using l Nil
      by (intro exI[of _ ?b]) (simp add: run_left[OF v] key_left_def flush_vk_def Let_def del: shell_server_run.simps)
  next
    case (snoc zs z)
    then have o: "sb_curoffset ?b > 0" "unat (sb_curoffset ?b - 1) = length zs"
      using line_okD(3)[OF l] by (auto simp: word_less_nat_alt unat_sub_if')
    then have "line_ok (?b\<lparr>sb_curoffset := sb_curoffset ?b - 1\<rparr>) (zs, z # ys)" using l snoc by (simp add: line_ok_def)
    then show ?thesis using o snoc
      by (intro exI[of _ "?b\<lparr>sb_curoffset := sb_curoffset ?b - 1\<rparr>"]) (simp add: run_left[OF v] key_left_def flush_vk_def Let_def del: shell_server_run.simps)
  qed
qed

lemma edit_right:
  assumes "editing s (xs, ys)"
  shows "\<exists>b. shell_server_run (key_chars CursorRight) s =
      Some (flush_vk (s\<lparr>sv_buf := b, sv_cb := emit (key_out CursorRight (xs, ys)) (sv_cb s)\<rparr>)) \<and> line_ok b (edit CursorRight (xs, ys)) \<and>
      sb_tab b = sb_tab (sv_buf s) \<and> sb_taboffset b = sb_taboffset (sv_buf s)"
proof -
  let ?b = "sv_buf s"
  have l: "line_ok ?b (xs, ys)" and v: "sv_vk s = 0" using assms by (simp_all add: editing_def)
  show ?thesis
  proof (cases ys)
    case Nil
    then show ?thesis using l line_okD(3,5)[OF l]
      by (intro exI[of _ ?b]) (simp add: run_right[OF v] key_right_def flush_vk_def Let_def del: shell_server_run.simps)
  next
    case (Cons z zs)
    then have o: "unat (sb_curoffset ?b + 1) = length xs + 1"
      using line_okD(3,4)[OF l] by (simp add: unat_word_ariths)
    then have "line_ok (?b\<lparr>sb_curoffset := sb_curoffset ?b + 1\<rparr>) (xs @ [z], zs)" using l Cons by (simp add: line_ok_def)
    then show ?thesis using line_okD(3,5)[OF l] Cons
      by (intro exI[of _ "?b\<lparr>sb_curoffset := sb_curoffset ?b + 1\<rparr>"]) (simp add: run_right[OF v] key_right_def flush_vk_def Let_def del: shell_server_run.simps)
  qed
qed

lemma edit_bs:
  assumes "editing s (xs, ys)"
  shows "\<exists>b. shell_server_run (key_chars Backspace) s =
      Some (flush_vk (s\<lparr>sv_buf := b, sv_cb := emit (key_out Backspace (xs, ys)) (sv_cb s)\<rparr>)) \<and> line_ok b (edit Backspace (xs, ys)) \<and>
      sb_tab b = sb_tab (sv_buf s) \<and> sb_taboffset b = sb_taboffset (sv_buf s)"
proof -
  let ?b = "sv_buf s"
  have l: "line_ok ?b (xs, ys)" and v: "sv_vk s = 0" using assms by (simp_all add: editing_def)
  have t: "shell_server_run (key_chars Backspace) s = map_option flush_vk (key_bs (s\<lparr>sv_vkmask := 8\<rparr>))"
    using turn_plain[OF v, of 8] by (cases "key_bs (s\<lparr>sv_vkmask := 8\<rparr>)") (simp_all add: shell_switch_def)
  show ?thesis
  proof (cases xs rule: rev_exhaust)
    case Nil
    then have "unat (sb_curoffset ?b) = 0" using line_okD(3)[OF l] by simp
    then show ?thesis using t l Nil by (intro exI[of _ ?b]) (simp add: key_bs_def flush_vk_def Let_def)
  next
    case (snoc zs z)
    obtain rest where r: "sb_curcmd ?b = (zs @ [z] @ ys) @ 0 # rest" "length zs + length ys + length rest = 62"
      using line_okD(1)[OF l] snoc by auto
    have o: "unat (sb_curoffset ?b) = Suc (length zs)" "unat (sb_curoffset ?b - 1) = length zs"
      using line_okD(3)[OF l] snoc by (auto simp: unat_sub_if')
    have p: "put (length zs) (ys @ [0]) (sb_curcmd ?b) = Some (zs @ ys @ 0 # 0 # rest)"
      unfolding r(1) by (simp add: put_def)
    have "line_ok (?b\<lparr>sb_curcmd := zs @ ys @ 0 # 0 # rest, sb_curoffset := sb_curoffset ?b - 1\<rparr>) (zs, ys)"
      using l snoc r(2) o(2) by (auto simp: line_ok_def)
    then show ?thesis using t p o line_okD(6)[OF l] snoc
      by (intro exI[of _ "?b\<lparr>sb_curcmd := zs @ ys @ 0 # 0 # rest, sb_curoffset := sb_curoffset ?b - 1\<rparr>"])
        (simp add: key_bs_def flush_vk_def Let_def)
  qed
qed

text \<open>All keys: the buffer follows the line editor.\<close>

lemma edit_key_step:
  assumes "editing s l" and "key_fits k l"
  shows "\<exists>s'. shell_server_run (key_chars k) s = Some s' \<and> editing s' (edit k l) \<and>
    sb_tab (sv_buf s') = sb_tab (sv_buf s) \<and> sb_taboffset (sv_buf s') = sb_taboffset (sv_buf s) \<and>
    sv_cb s' = emit (key_out k l) (sv_cb s)"
proof -
  obtain xs ys where l: "l = (xs, ys)" by (cases l)
  have "\<exists>b. shell_server_run (key_chars k) s = Some (flush_vk (s\<lparr>sv_buf := b, sv_cb := emit (key_out k (xs, ys)) (sv_cb s)\<rparr>)) \<and>
      line_ok b (edit k (xs, ys)) \<and> sb_tab b = sb_tab (sv_buf s) \<and> sb_taboffset b = sb_taboffset (sv_buf s)"
    using assms edit_insert[of s xs ys] edit_left[of s xs ys] edit_right[of s xs ys] edit_bs[of s xs ys]
    unfolding l by (cases k) blast+
  then show ?thesis unfolding l by (auto simp: editing_def flush_vk_def)
qed

section \<open>What the user sees\<close>

text \<open>
  A terminal: the row of the cursor, the column, and how much of an escape sequence has been read. A character overwrites the
  one at the cursor; a line feed begins an empty row in the same column.
\<close>

record screen =
  tm_row :: bytes
  tm_col :: nat
  tm_esc :: nat

definition tput :: "screen \<Rightarrow> u8 \<Rightarrow> screen" where
  "tput t c =
     (if tm_esc t = 1 then t\<lparr>tm_esc := if c = 91 then 2 else 0\<rparr>
      else if tm_esc t = 2 then t\<lparr>tm_esc := 0, tm_col := (if c = 67 then tm_col t + 1 else tm_col t)\<rparr>
      else if c = 27 then t\<lparr>tm_esc := 1\<rparr>
      else if c = 8 then t\<lparr>tm_col := tm_col t - 1\<rparr>
      else if c = 7 then t
      else if c = 10 then t\<lparr>tm_row := []\<rparr>
      else if c = 13 then t\<lparr>tm_col := 0\<rparr>
      else t\<lparr>tm_row := take (tm_col t) (tm_row t) @ replicate (tm_col t - length (tm_row t)) 32 @ c # drop (Suc (tm_col t)) (tm_row t),
             tm_col := tm_col t + 1\<rparr>)"

definition shows_line :: "screen \<Rightarrow> bytes \<times> bytes \<Rightarrow> bool" where
  "shows_line t l \<longleftrightarrow> tm_esc t = 0 \<and> tm_col t = 9 + length (fst l) \<and>
     (\<exists>k. tm_row t = bytes_of ''LiteOS:/>'' @ fst l @ snd l @ replicate k 32)"

lemma tput_text:
  "\<lbrakk>tm_esc t = 0; tm_row t = a @ b; tm_col t = length a; list_all printable cs\<rbrakk> \<Longrightarrow>
     foldl tput t cs = t\<lparr>tm_row := a @ cs @ drop (length cs) b, tm_col := length a + length cs\<rparr>"
proof (induction cs arbitrary: t a b)
  case (Cons c cs)
  then have "tput t c = t\<lparr>tm_row := (a @ [c]) @ drop 1 b, tm_col := length (a @ [c])\<rparr>"
    by (auto simp: tput_def printable_def)
  then show ?case using Cons.IH[of "tput t c" "a @ [c]" "drop 1 b"] Cons.prems by simp
qed simp

lemma tput_left: "tm_esc t = 0 \<Longrightarrow> foldl tput t (replicate n 8) = t\<lparr>tm_col := tm_col t - n\<rparr>"
  by (induction n arbitrary: t) (auto simp: tput_def)

lemma tput_bell: "tm_esc t = 0 \<Longrightarrow> tput t 7 = t"
  by (simp add: tput_def)

lemma printable_space: "printable 32"
  by (simp add: printable_def)

text \<open>A printable text at the cursor replaces as much of the row.\<close>

lemma shows_key:
  assumes "shows_line t l" and "key_fits k l" and "list_all printable (fst l @ snd l)"
  shows "shows_line (foldl tput t (key_out k l)) (edit k l)"
proof -
  obtain xs ys where l: "l = (xs, ys)" by (cases l)
  let ?p = "bytes_of ''LiteOS:/>''"
  obtain n where t: "tm_esc t = 0" "tm_col t = length (?p @ xs)" "tm_row t = (?p @ xs) @ ys @ replicate n 32"
    using assms(1) l by (auto simp: shows_line_def)
  have py: "list_all printable xs" "list_all printable ys" using assms(3) l by simp_all
  show ?thesis
  proof (cases k)
    case (Ins c)
    have c: "list_all printable (c # ys)" using assms(2) py(2) l Ins by simp
    have d: "drop (Suc (length ys)) (ys @ replicate n 32) = replicate (n - 1) 32" by simp
    show ?thesis using Ins l t tput_text[OF t(1) t(3) t(2) c] unfolding d
      by (auto simp: shows_line_def tput_left tput_bell)
  next
    case CursorLeft
    then show ?thesis using l t by (cases xs rule: rev_exhaust) (auto simp: shows_line_def tput_def)
  next
    case CursorRight
    then show ?thesis using l t by (cases ys) (auto simp: shows_line_def tput_def)
  next
    case Backspace
    show ?thesis
    proof (cases xs rule: rev_exhaust)
      case Nil
      then show ?thesis using Backspace l t by (auto simp: shows_line_def tput_bell)
    next
      case (snoc zs z)
      let ?t = "tput t 8"
      have t': "tm_esc ?t = 0" "tm_row ?t = (?p @ zs) @ z # ys @ replicate n 32" "tm_col ?t = length (?p @ zs)"
        using t snoc by (simp_all add: tput_def)
      have c: "list_all printable (ys @ [32])" using py(2) by (simp add: printable_space)
      have d: "drop (length (ys @ [32])) (z # ys @ replicate n 32) = replicate n 32" by simp
      have "foldl tput ?t (ys @ [32]) = ?t\<lparr>tm_row := (?p @ zs) @ (ys @ [32]) @ replicate n 32, tm_col := length (?p @ zs) + length (ys @ [32])\<rparr>"
        using tput_text[OF t' c] unfolding d .
      then have "foldl tput t (key_out Backspace (xs, ys)) = ?t\<lparr>tm_row := ?p @ zs @ ys @ replicate (Suc n) 32, tm_col := length (?p @ zs)\<rparr>"
        using snoc t'(1) by (simp add: tput_left del: replicate.simps) (simp add: tput_left)
      then show ?thesis using Backspace l snoc t'(1) by (auto simp: shows_line_def simp del: replicate.simps)
    qed
  qed
qed

section \<open>Properties\<close>

lemma run_append: "shell_server_run (a @ b) s = Option.bind (shell_server_run a s) (shell_server_run b)"
proof (induction a arbitrary: s)
  case (Cons ch a)
  then show ?case by (cases "shell_server_turn ch s") simp_all
qed simp

lemma editing_printable: "editing s l \<Longrightarrow> list_all printable (fst l @ snd l)"
  by (simp add: editing_def line_ok_def)

lemma shell_keys:
  "\<lbrakk>editing s l; shows_line t l; keys_fit ks l\<rbrakk> \<Longrightarrow>
     \<exists>s' out. shell_server_run (concat (map key_chars ks)) s = Some s' \<and> editing s' (fold edit ks l) \<and>
       sc_out (sv_cb s') = sc_out (sv_cb s) @ out \<and> shows_line (foldl tput t out) (fold edit ks l)"
proof (induction ks arbitrary: s l t)
  case (Cons k ks)
  obtain s1 where s1: "shell_server_run (key_chars k) s = Some s1" "editing s1 (edit k l)" "sv_cb s1 = emit (key_out k l) (sv_cb s)"
    using edit_key_step[of s l k] Cons.prems by auto
  have "shows_line (foldl tput t (key_out k l)) (edit k l)"
    using shows_key[OF Cons.prems(2) _ editing_printable[OF Cons.prems(1)]] Cons.prems(3) by simp
  then obtain s' out where "shell_server_run (concat (map key_chars ks)) s1 = Some s'" "editing s' (fold edit ks (edit k l))"
    "sc_out (sv_cb s') = sc_out (sv_cb s1) @ out" "shows_line (foldl tput (foldl tput t (key_out k l)) out) (fold edit ks (edit k l))"
    using Cons.IH[OF s1(2)] Cons.prems(3) by fastforce
  then show ?case using s1 by (intro exI[of _ s'] exI[of _ "key_out k l @ out"]) (simp add: run_append)
qed auto

text \<open>The welcome, the new row and the prompt.\<close>

lemma init_shows:
  "shows_line (foldl tput \<lparr>tm_row = [], tm_col = 0, tm_esc = 0\<rparr> (bytes_of ''WELCOME TO IOT_LINK SHELL'' @ [10, 13] @ bytes_of ''LiteOS:/>'')) ([], [])"
  by (simp add: shows_line_def tput_def)

lemma init_editing: "editing (shell_server_init cb) ([], [])"
  by (simp add: editing_def line_ok_def shell_server_init_def) (simp add: eval_nat_numeral)

text \<open>C10. The line editor and its echo: from the start of the server, after any sequence of printable characters, cursor keys and
  backspaces that does not insert into a full line, the buffer holds the line of the abstract editor and
  the cursor, and the terminal shows the prompt with exactly this line and the cursor at this place.\<close>

theorem shell_line_editor:
  assumes "keys_fit ks ([], [])" and "sc_out cb = []"
  shows "\<exists>s'. shell_server_run (concat (map key_chars ks)) (shell_server_init cb) = Some s' \<and>
    c_str (sb_curcmd (sv_buf s')) = Some (fst (fold edit ks ([], [])) @ snd (fold edit ks ([], []))) \<and>
    unat (sb_curoffset (sv_buf s')) = length (fst (fold edit ks ([], []))) \<and>
    shows_line (foldl tput \<lparr>tm_row = [], tm_col = 0, tm_esc = 0\<rparr> (sc_out (sv_cb s'))) (fold edit ks ([], []))"
proof -
  let ?w = "bytes_of ''WELCOME TO IOT_LINK SHELL'' @ [10, 13] @ bytes_of ''LiteOS:/>''"
  obtain s' out where s: "shell_server_run (concat (map key_chars ks)) (shell_server_init cb) = Some s'" "editing s' (fold edit ks ([], []))"
    "sc_out (sv_cb s') = sc_out (sv_cb (shell_server_init cb)) @ out"
    "shows_line (foldl tput (foldl tput \<lparr>tm_row = [], tm_col = 0, tm_esc = 0\<rparr> ?w) out) (fold edit ks ([], []))"
    using shell_keys[OF init_editing init_shows assms(1)] by blast
  moreover have "sc_out (sv_cb (shell_server_init cb)) = ?w" using assms(2) by (simp add: shell_server_init_def)
  moreover have "line_ok (sv_buf s') (fold edit ks ([], []))" using s(2) by (simp add: editing_def)
  ultimately show ?thesis using line_okD(3,5)[of "sv_buf s'"] by (cases "fold edit ks ([], [])") auto
qed

theorem shell_line_editor_witness:
  "\<exists>s'. shell_server_run [97, 98, 27, 91, 68, 99, 8, 100] (shell_server_init demo_shell) = Some s' \<and>
    c_str (sb_curcmd (sv_buf s')) = Some [97, 100, 98] \<and> unat (sb_curoffset (sv_buf s')) = 2"
  using shell_line_editor[of "[Ins 97, Ins 98, CursorLeft, Ins 99, Backspace, Ins 100]" demo_shell]
  by (fastforce simp: printable_def demo_shell_def)

text \<open>A character typed into a full line before its end overflows the line: the check of the length looks at the cursor, and the
  terminator is written one byte behind the 64 bytes.\<close>

theorem shell_insert_overflows:
  assumes "editing s (xs, ys)" and "length xs + length ys = 63" and "ys \<noteq> []" and "printable c"
  shows "shell_server_run (key_chars (Ins c)) s = None"
proof -
  let ?b = "sv_buf s"
  have l: "line_ok ?b (xs, ys)" and v: "sv_vk s = 0" using assms(1) by (simp_all add: editing_def)
  have c: "0 < uint c" "uint c < 255" using assms(4) by (auto simp: printable_def word_le_def word_less_def)
  have "length (sb_curcmd ?b) = 64" using l by (simp add: line_ok_def)
  then have "put (length (xs @ ys) + length [c]) [0] (sb_curcmd ?b) = None" using assms(2) by (simp add: put_def)
  then have "shell_insert_string ?b [c] cb = None" for cb :: "'a shell_cb"
    using line_okD(5,6)[OF l] by (simp add: shell_insert_string_def Let_def)
  moreover have "length xs < 63" using assms(2,3) by (cases ys) auto
  ultimately show ?thesis using turn_plain[OF v c] switch_default[OF assms(4), of s] line_okD(3)[OF l]
    by (simp add: key_default_def Let_def)
qed

text \<open>The line is filled by typing: this state is reached.\<close>

theorem shell_insert_overflows_witness:
  "shell_server_run (replicate 63 97 @ [27, 91, 68, 98]) (shell_server_init demo_shell) = None"
proof -
  let ?ks = "replicate 63 (Ins 97) @ [CursorLeft]"
  have f: "keys_fit ?ks ([], [])" by code_simp
  have e: "fold edit ?ks ([], []) = (replicate 62 97, [97])" by code_simp
  obtain s' where s: "shell_server_run (concat (map key_chars ?ks)) (shell_server_init demo_shell) = Some s'" "editing s' (replicate 62 97, [97])"
    using shell_keys[OF init_editing init_shows f] unfolding e by blast
  have k: "replicate 63 97 @ [27, 91, 68, 98] = concat (map key_chars ?ks) @ key_chars (Ins 98)" by code_simp
  have "printable 98" by (simp add: printable_def)
  then have "shell_server_run (key_chars (Ins 98)) s' = None" using shell_insert_overflows[OF s(2), of 98] by simp
  then show ?thesis unfolding k run_append s(1) by simp
qed

section \<open>The history\<close>

lemma strncpy_line: "length l \<le> 63 \<Longrightarrow> strncpy CN_CMDLEN_MAX l = l @ 0 # replicate (63 - length l) 0"
proof -
  assume "length l \<le> 63"
  then have "64 - length l = Suc (63 - length l)" by linarith
  then show ?thesis using \<open>length l \<le> 63\<close> by (simp add: strncpy_def)
qed

lemma cached_iff: "\<forall>t \<in> set ts. \<exists>c. c_str t = Some c \<Longrightarrow> cached cmd ts = Some (Some cmd \<in> c_str ` set ts)"
  by (induction ts) auto

definition history_ok :: "shell_buffer \<Rightarrow> bool" where
  "history_ok b \<longleftrightarrow> length (sb_tab b) = CN_CMD_CACHE \<and> unat (sb_taboffset b) < CN_CMD_CACHE \<and>
     (\<forall>t \<in> set (sb_tab b). \<exists>c. c_str t = Some c \<and> length c \<le> 63 \<and> list_all printable c)"

lemma enter_new:
  assumes "editing s (xs, ys)" and "history_ok (sv_buf s)" and "xs @ ys \<noteq> []" and "Some (xs @ ys) \<notin> c_str ` set (sb_tab (sv_buf s))"
    and "shell_cmd_execute (sb_curcmd (sv_buf s)) (emit [10, 13] (sv_cb s)) = Some (r, cb)"
  shows "\<exists>b. shell_server_run [13] s = Some (flush_vk (s\<lparr>sv_buf := b, sv_cb := shell_put_index cb\<rparr>)) \<and> line_ok b ([], []) \<and>
    history_ok b \<and> sb_taboffset b = of_nat ((unat (sb_taboffset (sv_buf s)) + 1) mod 4) \<and>
    sb_tab b = (sb_tab (sv_buf s))[unat (sb_taboffset (sv_buf s)) := strncpy CN_CMDLEN_MAX (xs @ ys)]"
proof -
  let ?b = "sv_buf s" and ?l = "xs @ ys"
  have l: "line_ok ?b (xs, ys)" and v: "sv_vk s = 0" using assms(1) by (simp_all add: editing_def)
  let ?tab = "(sb_tab ?b)[unat (sb_taboffset ?b) := strncpy CN_CMDLEN_MAX ?l]"
  let ?b1 = "?b\<lparr>sb_tab := ?tab, sb_taboffset := of_nat ((unat (sb_taboffset ?b) + 1) mod 4)\<rparr>"
  let ?b2 = "?b1\<lparr>sb_curcmd := replicate CN_CMDLEN_MAX 0, sb_curoffset := 0\<rparr>"
  have "cached ?l (sb_tab ?b) = Some False" using cached_iff[of "sb_tab ?b" ?l] assms(2,4) by (auto simp: history_ok_def)
  then have c: "shell_cachecmd ?b = Some ?b1"
    using line_okD(5)[OF l] assms(2) by (simp add: shell_cachecmd_def history_ok_def byte_at_def Let_def)
  have "key_enter (s\<lparr>sv_vkmask := 13\<rparr>) = Some (s\<lparr>sv_vkmask := 13, sv_buf := ?b2, sv_cb := shell_put_index cb\<rparr>)"
    using line_okD(5)[OF l] c assms(3,5) by (simp add: key_enter_def Let_def)
  then have "shell_server_run [13] s = Some (flush_vk (s\<lparr>sv_buf := ?b2, sv_cb := shell_put_index cb\<rparr>))"
    using turn_plain[OF v, of 13] by (simp add: shell_switch_def flush_vk_def)
  moreover have "line_ok ?b2 ([], [])" by (simp add: line_ok_def) (simp add: eval_nat_numeral)
  moreover have "c_str (strncpy CN_CMDLEN_MAX ?l) = Some ?l"
    using strncpy_line[of ?l] line_okD(2,4)[OF l] c_str_terminated[of ?l] by simp
  then have "history_ok ?b2"
    using assms(2) l line_okD(4)[OF l]
    by (auto simp: history_ok_def line_ok_def unat_of_nat dest!: set_update_subset_insert[THEN subsetD])
  ultimately show ?thesis by (intro exI[of _ ?b2]) simp
qed

text \<open>Enter runs the line and clears it, and the cursor key up then brings it back with the cursor at its end, provided the line
  was not among the four of the history before.\<close>

theorem shell_history_recall:
  assumes "editing s (xs, ys)" and "history_ok (sv_buf s)" and "xs @ ys \<noteq> []" and "Some (xs @ ys) \<notin> c_str ` set (sb_tab (sv_buf s))"
    and "shell_cmd_execute (sb_curcmd (sv_buf s)) (emit [10, 13] (sv_cb s)) = Some (r, cb)"
  shows "\<exists>s1 s2. shell_server_run [13] s = Some s1 \<and> editing s1 ([], []) \<and> sv_cb s1 = shell_put_index cb \<and>
    shell_server_run [27, 91, 65] s1 = Some s2 \<and> editing s2 (xs @ ys, []) \<and> history_ok (sv_buf s2)"
proof -
  let ?b = "sv_buf s" and ?l = "xs @ ys"
  obtain b where b: "shell_server_run [13] s = Some (flush_vk (s\<lparr>sv_buf := b, sv_cb := shell_put_index cb\<rparr>))" "line_ok b ([], [])"
    "history_ok b" "sb_taboffset b = of_nat ((unat (sb_taboffset ?b) + 1) mod 4)"
    "sb_tab b = (sb_tab ?b)[unat (sb_taboffset ?b) := strncpy CN_CMDLEN_MAX ?l]"
    using enter_new[OF assms] by blast
  have l: "line_ok ?b (xs, ys)" using assms(1) by (simp add: editing_def)
  let ?s1 = "flush_vk (s\<lparr>sv_buf := b, sv_cb := shell_put_index cb\<rparr>)"
  have e1: "editing ?s1 ([], [])" using b(2) by (simp add: editing_def flush_vk_def)
  have o: "unat (sb_taboffset ?b) < 4" "length (sb_tab ?b) = 4" using assms(2) by (simp_all add: history_ok_def)
  have "unat (sb_taboffset b) = (unat (sb_taboffset ?b) + 1) mod 4"
    using b(4) by (simp add: unat_of_nat)
  then have off: "(unat (sb_taboffset b) + 3) mod 4 = unat (sb_taboffset ?b)" using o(1) by presburger
  have t: "byte_at (sb_tab b) (unat (sb_taboffset ?b)) = Some (strncpy CN_CMDLEN_MAX ?l)"
    using b(5) o by (simp add: byte_at_def)
  have n: "length ?l \<le> 63" using line_okD(4)[OF l] by simp
  have c: "c_str (strncpy CN_CMDLEN_MAX ?l) = Some ?l"
    unfolding strncpy_line[OF n] using line_okD(2)[OF l] by (rule c_str_terminated)
  let ?b2 = "b\<lparr>sb_curcmd := strncpy CN_CMDLEN_MAX ?l, sb_taboffset := sb_taboffset ?b, sb_curoffset := of_nat (length ?l)\<rparr>"
  have run: "shell_server_run [27, 91, 65] ?s1 = map_option flush_vk (key_history 3 (?s1\<lparr>sv_vk := 0x415B1B, sv_vkmask := CN_VIRTUAL_KEY_ARROWU\<rparr>))"
    by (cases "key_history 3 (?s1\<lparr>sv_vk := 0x415B1B, sv_vkmask := CN_VIRTUAL_KEY_ARROWU\<rparr>)")
      (simp_all add: shell_server_turn_def shell_switch_def flush_vk_def)
  have "key_history 3 (?s1\<lparr>sv_vk := 0x415B1B, sv_vkmask := CN_VIRTUAL_KEY_ARROWU\<rparr>) =
      Some (?s1\<lparr>sv_vk := 0x415B1B, sv_vkmask := CN_VIRTUAL_KEY_ARROWU, sv_buf := ?b2, sv_cb := emit ?l (shell_put_index cb)\<rparr>)"
    using line_okD(3,5)[OF b(2)] off t c by (simp add: key_history_def flush_vk_def Let_def)
  moreover have "unat (of_nat (length ?l) :: u8) = length ?l" using n by (simp only: unat_of_nat) simp
  then have "line_ok ?b2 (?l, [])"
    using l n strncpy_line[OF n] by (auto simp: line_ok_def simp del: of_nat_add)
  moreover have "history_ok ?b2" using b(3) o by (simp add: history_ok_def)
  ultimately show ?thesis using b(1) e1 run
    by (auto simp: editing_def flush_vk_def)
qed

text \<open>The line \<open>eo\<close> has been typed: the concrete input of the witness.\<close>

definition demo_server :: "nat shell_server" where
  "demo_server = (shell_server_init demo_shell)\<lparr>sv_buf := (sv_buf (shell_server_init demo_shell))\<lparr>
     sb_curcmd := [101, 111] @ 0 # replicate 61 0, sb_curoffset := 2\<rparr>\<rparr>"

theorem shell_history_recall_witness:
  "\<exists>s1 s2. shell_server_run [13] demo_server = Some s1 \<and> editing s1 ([], []) \<and> sc_world (sv_cb s1) = 1 \<and>
    shell_server_run [27, 91, 65] s1 = Some s2 \<and> editing s2 ([101, 111], [])"
proof -
  let ?c = "[101, 111] @ 0 # replicate 61 (0 :: u8)" and ?cb = "emit [10, 13] (sv_cb demo_server)"
  have e: "editing demo_server ([101, 111], [])"
    by (simp add: editing_def line_ok_def demo_server_def shell_server_init_def printable_def)
  have h: "history_ok (sv_buf demo_server)"
    using c_str_terminated[of "[]" "replicate 63 0"]
    by (simp add: history_ok_def demo_server_def shell_server_init_def eval_nat_numeral)
  have n: "Some ([101, 111] @ []) \<notin> c_str ` set (sb_tab (sv_buf demo_server))"
    by (simp add: demo_server_def shell_server_init_def c_str_def eval_nat_numeral)
  have w: "take cn_shell_args (words_of [101, 111]) = [[101, 111]]" by code_simp
  obtain x argp k where "string_to_arg (int cn_shell_args) (replicate cn_shell_args 0) (Some ?c) = Some (int k, int k, argp, Some x)"
    "arg_strings x (take k argp) = Some [[101, 111]]"
    using execute_words[of ?c "[101, 111]" "replicate 61 0"] unfolding w by auto
  then have "shell_cmd_execute ?c ?cb = Some (-1, (emit [101, 111] ?cb)\<lparr>sc_world := 1\<rparr>)"
    by (simp add: shell_cmd_execute_def shell_cmd_match_def demo_server_def shell_server_init_def demo_shell_def emit_def)
  then have x: "shell_cmd_execute (sb_curcmd (sv_buf demo_server)) ?cb = Some (-1, (emit [101, 111] ?cb)\<lparr>sc_world := 1\<rparr>)"
    by (simp add: demo_server_def)
  show ?thesis using shell_history_recall[OF e h _ n x] by fastforce
qed

end
