(* ===== verification/Usip.thy ===== *)
theory Usip
  imports Prelude
begin

text \<open>
  The serial protocol between two chips of \<^verbatim>\<open>usip/usip.c\<close>: frames with a checksum, escaped on the wire, the numbers of one or two
  bytes inside them, the cutting of data into packages with acknowledgement and retransmission, and the receiver task.

  The bytes that \<^verbatim>\<open>send_one_byte\<close> sends are appended to \<open>us_out\<close>. The semaphores of LiteOS are binary; whether a wait for an
  acknowledgement succeeds comes from the list \<open>us_acks\<close>, the outcomes of \<^verbatim>\<open>usip_malloc\<close> from \<open>us_mallocs\<close>. The calls of the callback are
  logged. The nodes of the frames are the list of their contents. A block is accessed inside its bounds or the
  result is \<open>None\<close>; the log output is left out.
\<close>

section \<open>Data\<close>

abbreviation "END \<equiv> 0xC0 :: u8"
abbreviation "ESC \<equiv> 0xDB :: u8"
abbreviation "ESC_END \<equiv> 0xDC :: u8"
abbreviation "ESC_ESC \<equiv> 0xDD :: u8"
abbreviation "USIP_FRM_MAX_LEN \<equiv> 128 :: nat"
abbreviation "USIP_FRM_DATA_MAX_LEN \<equiv> 126 :: nat"
abbreviation "USIP_FRM_CMD_AND_TLVS_MAX_LEN \<equiv> 123 :: nat"
abbreviation "USIP_UART_RCV_BUFF \<equiv> 2048 :: nat"
abbreviation "USIP_UART_SKB_NUM \<equiv> 16 :: nat"
abbreviation "USIP_EA_BIT \<equiv> 0x80 :: u8"
abbreviation "USIP_PKGNUM_MAX \<equiv> 0x7F :: nat"
abbreviation "USIP_SEQ_MAX \<equiv> 0x7F :: u16"
abbreviation "USIP_MAX_ARQ_TIMES \<equiv> 3 :: nat"
abbreviation "USIP_TLV_TAG_ACK \<equiv> 0 :: u16"
abbreviation "USIP_TLV_TAG_RST \<equiv> 1 :: u16"
abbreviation "USIP_TLV_TAG_LEN \<equiv> 1 :: nat"
abbreviation "USIP_OK \<equiv> 0 :: int"
abbreviation "USIP_ERROR \<equiv> 0xFF :: int"

definition g_usip_crc_table :: "u8 list" where
  "g_usip_crc_table = [
    0x00, 0x07, 0x0e, 0x09, 0x1c, 0x1b, 0x12, 0x15, 0x38, 0x3f, 0x36, 0x31, 0x24, 0x23, 0x2a, 0x2d,
    0x70, 0x77, 0x7e, 0x79, 0x6c, 0x6b, 0x62, 0x65, 0x48, 0x4f, 0x46, 0x41, 0x54, 0x53, 0x5a, 0x5d,
    0xe0, 0xe7, 0xee, 0xe9, 0xfc, 0xfb, 0xf2, 0xf5, 0xd8, 0xdf, 0xd6, 0xd1, 0xc4, 0xc3, 0xca, 0xcd,
    0x90, 0x97, 0x9e, 0x99, 0x8c, 0x8b, 0x82, 0x85, 0xa8, 0xaf, 0xa6, 0xa1, 0xb4, 0xb3, 0xba, 0xbd,
    0xc7, 0xc0, 0xc9, 0xce, 0xdb, 0xdc, 0xd5, 0xd2, 0xff, 0xf8, 0xf1, 0xf6, 0xe3, 0xe4, 0xed, 0xea,
    0xb7, 0xb0, 0xb9, 0xbe, 0xab, 0xac, 0xa5, 0xa2, 0x8f, 0x88, 0x81, 0x86, 0x93, 0x94, 0x9d, 0x9a,
    0x27, 0x20, 0x29, 0x2e, 0x3b, 0x3c, 0x35, 0x32, 0x1f, 0x18, 0x11, 0x16, 0x03, 0x04, 0x0d, 0x0a,
    0x57, 0x50, 0x59, 0x5e, 0x4b, 0x4c, 0x45, 0x42, 0x6f, 0x68, 0x61, 0x66, 0x73, 0x74, 0x7d, 0x7a,
    0x89, 0x8e, 0x87, 0x80, 0x95, 0x92, 0x9b, 0x9c, 0xb1, 0xb6, 0xbf, 0xb8, 0xad, 0xaa, 0xa3, 0xa4,
    0xf9, 0xfe, 0xf7, 0xf0, 0xe5, 0xe2, 0xeb, 0xec, 0xc1, 0xc6, 0xcf, 0xc8, 0xdd, 0xda, 0xd3, 0xd4,
    0x69, 0x6e, 0x67, 0x60, 0x75, 0x72, 0x7b, 0x7c, 0x51, 0x56, 0x5f, 0x58, 0x4d, 0x4a, 0x43, 0x44,
    0x19, 0x1e, 0x17, 0x10, 0x05, 0x02, 0x0b, 0x0c, 0x21, 0x26, 0x2f, 0x28, 0x3d, 0x3a, 0x33, 0x34,
    0x4e, 0x49, 0x40, 0x47, 0x52, 0x55, 0x5c, 0x5b, 0x76, 0x71, 0x78, 0x7f, 0x6a, 0x6d, 0x64, 0x63,
    0x3e, 0x39, 0x30, 0x37, 0x22, 0x25, 0x2c, 0x2b, 0x06, 0x01, 0x08, 0x0f, 0x1a, 0x1d, 0x14, 0x13,
    0xae, 0xa9, 0xa0, 0xa7, 0xb2, 0xb5, 0xbc, 0xbb, 0x96, 0x91, 0x98, 0x9f, 0x8a, 0x8d, 0x84, 0x83,
    0xde, 0xd9, 0xd0, 0xd7, 0xc2, 0xc5, 0xcc, 0xcb, 0xe6, 0xe1, 0xe8, 0xef, 0xfa, 0xfd, 0xf4, 0xf3]"

record usip_tlv =
  tv_tag :: u16
  tv_len :: u16
  tv_val :: bytes

record frame_data =
  fd_pkg_num :: u8
  fd_seq :: u8
  fd_cmd :: u16
  fd_tlv_tag :: u16
  fd_tlv_len :: u16
  fd_tlv_val :: bytes

text \<open>The receive buffer with the places of the frames in it, the counters, the task's list and what has gone out.\<close>

record usip =
  us_write_index :: u16
  us_is_ESC :: u16
  us_rcvbuf :: bytes
  us_head :: u16
  us_rx_sem :: bool
  us_ack_sem :: bool
  us_skb :: "(u16 \<times> u16) list"
  us_skb_write :: u16
  us_skb_read :: u16
  us_send_buf :: bytes
  us_frame_len :: u16
  us_seq :: u16
  us_wait_seq :: u16
  us_last :: u16
  us_callback :: bool
  us_list :: "frame_data list"
  us_json_len :: u16
  us_acks :: "bool list"
  us_mallocs :: "bool list"
  us_out :: bytes
  us_calls :: "(u16 \<times> bytes \<times> u16) list"

definition usip_malloc :: "usip \<Rightarrow> usip option" where
  "usip_malloc s = (let (ok, os) = alloc (us_mallocs s) in if ok then Some (s\<lparr>us_mallocs := os\<rparr>) else None)"

section \<open>Numbers of one or two bytes\<close>

definition short_to_EA :: "u16 \<Rightarrow> bytes" where
  "short_to_EA data =
     (if data < 0x80 then [ucast data OR USIP_EA_BIT]
      else [ucast (drop_bit 7 data), ucast (data AND NOT 0x80) OR USIP_EA_BIT])"

text \<open>The number and its length at a place; after an error the length is 0, as the callers have set it.\<close>

definition EA_to_short :: "bytes \<Rightarrow> nat \<Rightarrow> (int \<times> u16 \<times> nat) option" where
  "EA_to_short buf p = do {
     tmp \<leftarrow> byte_at buf p;
     if tmp AND USIP_EA_BIT \<noteq> 0 then Some (USIP_OK, ucast (tmp AND NOT USIP_EA_BIT), 1)
     else do {
       let data = push_bit 7 (ucast tmp :: u16);
       tmp \<leftarrow> byte_at buf (p + 1);
       if tmp AND USIP_EA_BIT = 0 then Some (USIP_ERROR, data, 0)
       else Some (USIP_OK, data + ucast (tmp AND NOT USIP_EA_BIT), 2) } }"

section \<open>Sending\<close>

text \<open>Bytes that are appended to the frame and to its checksum; \<open>j\<close> is the next place.\<close>

definition crc_step :: "u8 \<Rightarrow> u8 \<Rightarrow> u8" where
  "crc_step crc b = g_usip_crc_table ! unat (crc XOR b)"

fun put_bytes :: "bytes \<Rightarrow> nat \<Rightarrow> u8 \<Rightarrow> bytes \<Rightarrow> (nat \<times> u8 \<times> bytes) option" where
  "put_bytes [] j crc buf = Some (j, crc, buf)"
| "put_bytes (b # bs) j crc buf = do { buf \<leftarrow> put j [b] buf; put_bytes bs (j + 1) (crc_step crc b) buf }"

definition convert_tlv_to_usip_frame :: "u8 \<Rightarrow> u8 \<Rightarrow> u16 \<Rightarrow> usip_tlv \<Rightarrow> usip \<Rightarrow> (u16 \<times> usip) option" where
  "convert_tlv_to_usip_frame pkg_num seq cmd data s = do {
     let buf = replicate USIP_FRM_MAX_LEN 0;
     buf \<leftarrow> put 0 [END] buf;
     (j, crc, buf) \<leftarrow> put_bytes [pkg_num, seq] 1 0 buf;
     (j, crc, buf) \<leftarrow> put_bytes (short_to_EA cmd) j crc buf;
     (j, crc, buf) \<leftarrow> put_bytes (short_to_EA (tv_tag data)) j crc buf;
     (j, crc, buf) \<leftarrow> put_bytes (short_to_EA (tv_len data)) j crc buf;
     val \<leftarrow> fetch 0 (unat (tv_len data)) (tv_val data);
     (j, crc, buf) \<leftarrow> put_bytes val j crc buf;
     buf \<leftarrow> put j [crc] buf;
     buf \<leftarrow> put (j + 1) [END] buf;
     Some (of_nat (j + 2), s\<lparr>us_send_buf := buf\<rparr>) }"

definition send_one_byte :: "u8 \<Rightarrow> usip \<Rightarrow> usip" where
  "send_one_byte b s = s\<lparr>us_out := us_out s @ [b]\<rparr>"

definition send_escaped :: "u8 \<Rightarrow> usip \<Rightarrow> usip" where
  "send_escaped b s =
     (if b = END then send_one_byte ESC_END (send_one_byte ESC s)
      else if b = ESC then send_one_byte ESC_ESC (send_one_byte ESC s)
      else send_one_byte b s)"

fun send_loop_bytes :: "bytes \<Rightarrow> usip \<Rightarrow> usip" where
  "send_loop_bytes [] s = s"
| "send_loop_bytes (b # bs) s = send_loop_bytes bs (send_escaped b s)"

definition send_one_frame :: "bytes \<Rightarrow> u16 \<Rightarrow> usip \<Rightarrow> usip option" where
  "send_one_frame buf len s = do {
     b0 \<leftarrow> byte_at buf 0;
     let s = send_one_byte b0 s;
     let n = max 1 (unat len - 1);
     body \<leftarrow> fetch 1 (n - 1) buf;
     b1 \<leftarrow> byte_at buf n;
     Some (send_one_byte b1 (send_loop_bytes body s)) }"

definition get_seq :: "usip \<Rightarrow> u8 \<times> usip" where
  "get_seq s = (let seq = us_seq s + 1 in (ucast (us_seq s), s\<lparr>us_seq := if seq > USIP_SEQ_MAX then 0 else seq\<rparr>))"

text \<open>The wait for the acknowledgement: the semaphore was posted before, or the other task posts it, or time runs out.\<close>

definition wait_ack :: "usip \<Rightarrow> bool \<times> usip" where
  "wait_ack s =
     (if us_ack_sem s then (True, s\<lparr>us_ack_sem := False\<rparr>)
      else let (ok, os) = alloc (us_acks s) in (ok, s\<lparr>us_acks := os\<rparr>))"

text \<open>\<open>k\<close> retransmissions are left.\<close>

fun arq_loop :: "nat \<Rightarrow> u16 \<Rightarrow> usip \<Rightarrow> (int \<times> usip) option" where
  "arq_loop 0 frame_len s = do { s \<leftarrow> send_one_frame (us_send_buf s) frame_len s; Some (USIP_ERROR, s) }"
| "arq_loop (Suc k) frame_len s = do {
     s \<leftarrow> send_one_frame (us_send_buf s) frame_len s;
     case wait_ack s of (True, s) \<Rightarrow> Some (USIP_OK, s) | (False, s) \<Rightarrow> arq_loop k frame_len s }"

definition usip_send_tlv :: "u8 \<Rightarrow> u8 \<Rightarrow> u16 \<Rightarrow> usip_tlv \<Rightarrow> usip \<Rightarrow> (int \<times> usip) option" where
  "usip_send_tlv pkg_num seq cmd data s = do {
     (frame_len, s) \<leftarrow> convert_tlv_to_usip_frame pkg_num seq cmd data s;
     arq_loop USIP_MAX_ARQ_TIMES frame_len s }"

text \<open>The loop over the packages: \<open>data\<close> is the block from \<^verbatim>\<open>tmp_data\<close> on.\<close>

function send_packages :: "u8 \<Rightarrow> u8 \<Rightarrow> u16 \<Rightarrow> nat \<Rightarrow> bytes \<Rightarrow> u16 \<Rightarrow> usip \<Rightarrow> (int \<times> usip) option" where
  "send_packages package_num seq cmd m data left_len s =
     (if unat left_len > m \<and> m > 0
      then case usip_send_tlv package_num seq cmd \<lparr>tv_tag = USIP_TLV_TAG_RST, tv_len = of_nat m, tv_val = data\<rparr> s of
             None \<Rightarrow> None
           | Some (ret, s) \<Rightarrow> if ret \<noteq> USIP_OK then Some (USIP_ERROR, s)
                             else send_packages (package_num + 1) seq cmd m (drop m data) (left_len - of_nat m) s
      else case usip_send_tlv (package_num OR USIP_EA_BIT) seq cmd \<lparr>tv_tag = USIP_TLV_TAG_RST, tv_len = left_len, tv_val = data\<rparr> s of
             None \<Rightarrow> None
           | Some (ret, s) \<Rightarrow> Some (if ret \<noteq> USIP_OK then USIP_ERROR else USIP_OK, s))"
  by pat_completeness auto
termination
proof (relation "measure (\<lambda>(_, _, _, _, _, left_len, _). unat left_len)")
  fix m :: nat and left_len :: u16
  assume a: "unat left_len > m \<and> m > 0"
  have "m < 2 ^ LENGTH(16)" by (rule order_less_trans[OF conjunct1[OF a] unsigned_less])
  then have "m < 2 ^ 16" by simp
  then have "unat (of_nat m :: u16) = m" by (simp add: unat_of_nat)
  then show "((pn', q, c, m', d, left_len - of_nat m, s'), (pn, q', c', m'', d', left_len, s)) \<in> measure (\<lambda>(_, _, _, _, _, left_len, _). unat left_len)"
    for pn' q c m' d s' pn q' c' m'' d' s
    using a by (simp add: unat_sub word_le_nat_alt)
qed auto

declare send_packages.simps [simp del]

definition usip_send_data :: "u16 \<Rightarrow> bytes \<Rightarrow> u16 \<Rightarrow> usip \<Rightarrow> (int \<times> usip) option" where
  "usip_send_data cmd data len s =
     (let m = USIP_FRM_CMD_AND_TLVS_MAX_LEN - length (short_to_EA cmd) - 2 * USIP_TLV_TAG_LEN in
      if unat len > (USIP_PKGNUM_MAX + 1) * m then Some (USIP_ERROR, s)
      else
        let (seq, s) = get_seq s; s = s\<lparr>us_wait_seq := ucast seq\<rparr>
        in send_packages 0 seq cmd m data len s)"

section \<open>Receiving\<close>

definition skb_set :: "u16 \<Rightarrow> (u16 \<times> u16 \<Rightarrow> u16 \<times> u16) \<Rightarrow> usip \<Rightarrow> usip option" where
  "skb_set i f s = do { e \<leftarrow> byte_at (us_skb s) (unat i); Some (s\<lparr>us_skb := (us_skb s)[unat i := f e]\<rparr>) }"

definition store_byte :: "u8 \<Rightarrow> usip \<Rightarrow> usip option" where
  "store_byte b s = do {
     buf \<leftarrow> put (unat (us_write_index s)) [b] (us_rcvbuf s);
     Some (s\<lparr>us_frame_len := us_frame_len s + 1, us_rcvbuf := buf, us_write_index := us_write_index s + 1\<rparr>) }"

text \<open>The end of the function, which an early return leaves out.\<close>

definition wrap_indices :: "usip \<Rightarrow> usip" where
  "wrap_indices s =
     (let s = (if unat (us_write_index s) = USIP_UART_RCV_BUFF then s\<lparr>us_write_index := 0\<rparr> else s)
      in if unat (us_skb_write s) = USIP_UART_SKB_NUM then s\<lparr>us_skb_write := 0\<rparr> else s)"

definition bad_escape :: "u8 \<Rightarrow> usip \<Rightarrow> usip option" where
  "bad_escape b s =
     (if us_is_ESC s = 1 \<and> b \<noteq> ESC_END \<and> b \<noteq> ESC_ESC
      then do {
        s \<leftarrow> skb_set (us_skb_write s) (\<lambda>e. (us_write_index s, 0)) s;
        Some (s\<lparr>us_frame_len := 0, us_is_ESC := 0, us_head := 0\<rparr>) }
      else Some s)"

definition receive_one_byte :: "u8 \<Rightarrow> usip \<Rightarrow> usip option" where
  "receive_one_byte b s = do {
     s \<leftarrow> bad_escape b s;
     if b = END \<and> us_head s = 0
     then do {
       let s = s\<lparr>us_head := 1\<rparr>;
       let s = (if USIP_UART_RCV_BUFF < unat (us_write_index s) + USIP_FRM_DATA_MAX_LEN then s\<lparr>us_write_index := 0\<rparr> else s);
       skb_set (us_skb_write s) (\<lambda>(pos, len). (us_write_index s, len)) s }
     else if us_head s = 1
     then
       if b = END
       then if us_frame_len s = 0 then Some (s\<lparr>us_head := 0\<rparr>)
            else do {
              s \<leftarrow> skb_set (us_skb_write s) (\<lambda>(pos, len). (pos, us_frame_len s)) s;
              Some (wrap_indices (s\<lparr>us_head := 0, us_frame_len := 0, us_is_ESC := 0,
                    us_skb_write := us_skb_write s + 1, us_rx_sem := True\<rparr>)) }
       else if b = ESC then Some (wrap_indices (s\<lparr>us_is_ESC := 1\<rparr>))
       else if b = ESC_END \<and> us_is_ESC s = 1 then map_option wrap_indices (store_byte END (s\<lparr>us_is_ESC := 0\<rparr>))
       else if b = ESC_ESC \<and> us_is_ESC s = 1 then map_option wrap_indices (store_byte ESC (s\<lparr>us_is_ESC := 0\<rparr>))
       else map_option wrap_indices (store_byte b s)
     else Some (wrap_indices s) }"

definition usip_send_ack :: "u8 \<Rightarrow> u16 \<Rightarrow> u8 \<Rightarrow> usip \<Rightarrow> usip option" where
  "usip_send_ack seq cmd pkg_num s = do {
     (frame_len, s) \<leftarrow> convert_tlv_to_usip_frame USIP_EA_BIT seq cmd \<lparr>tv_tag = USIP_TLV_TAG_ACK, tv_len = 1, tv_val = [pkg_num]\<rparr> s;
     send_one_frame (us_send_buf s) frame_len s }"

definition crc_of :: "bytes \<Rightarrow> u8" where
  "crc_of bs = foldl crc_step 0 bs"

definition drop_frame :: "usip \<Rightarrow> usip option" where
  "drop_frame s = do { s \<leftarrow> skb_set (us_skb_read s) (\<lambda>(pos, len). (pos, 0)) s; Some (s\<lparr>us_skb_read := us_skb_read s + 1\<rparr>) }"

definition zero_frame :: frame_data where
  "zero_frame = \<lparr>fd_pkg_num = 0, fd_seq = 0, fd_cmd = 0, fd_tlv_tag = 0, fd_tlv_len = 0, fd_tlv_val = replicate USIP_FRM_DATA_MAX_LEN 0\<rparr>"

text \<open>The fields behind the sequence number at \<open>p\<close>, and the copy of the value into the array of the node.\<close>

definition read_fields :: "nat \<Rightarrow> frame_data \<Rightarrow> usip \<Rightarrow> frame_data option" where
  "read_fields p node s = do {
     (_, cmd, n) \<leftarrow> EA_to_short (us_rcvbuf s) p;
     (_, tag, n') \<leftarrow> EA_to_short (us_rcvbuf s) (p + n);
     (_, len, n'') \<leftarrow> EA_to_short (us_rcvbuf s) (p + n + n');
     v \<leftarrow> fetch (p + n + n' + n'') (unat len) (us_rcvbuf s);
     val \<leftarrow> put 0 v (fd_tlv_val node);
     Some (node\<lparr>fd_cmd := cmd, fd_tlv_tag := tag, fd_tlv_len := len, fd_tlv_val := val\<rparr>) }"

text \<open>The result is of type \<^verbatim>\<open>INT8\<close>, here with its value in the caller, where it is an unsigned byte.\<close>

definition receive_one_frame_to_list :: "frame_data \<Rightarrow> usip \<Rightarrow> (u8 \<times> frame_data \<times> usip) option" where
  "receive_one_frame_to_list node s = do {
     let s = (if unat (us_skb_read s) = USIP_UART_SKB_NUM then s\<lparr>us_skb_read := 0\<rparr> else s);
     (pos, len) \<leftarrow> byte_at (us_skb s) (unat (us_skb_read s));
     let p = unat pos;
     let n = unat len;
     if n = 0 then Some (0xFF, node, s\<lparr>us_skb_read := us_skb_read s + 1\<rparr>)
     else if n > USIP_FRM_DATA_MAX_LEN then do { s \<leftarrow> drop_frame s; Some (0xFF, node, s) }
     else do {
       body \<leftarrow> fetch p (n - 1) (us_rcvbuf s);
       c \<leftarrow> byte_at (us_rcvbuf s) (p + n - 1);
       if crc_of body \<noteq> c then do { s \<leftarrow> drop_frame s; Some (0xFF, node, s) }
       else do {
         pkg_num \<leftarrow> byte_at (us_rcvbuf s) p;
         let s = (if pkg_num AND USIP_EA_BIT \<noteq> 0 then s\<lparr>us_last := 1\<rparr> else s);
         seq \<leftarrow> byte_at (us_rcvbuf s) (p + 1);
         let node = node\<lparr>fd_pkg_num := pkg_num AND NOT USIP_EA_BIT, fd_seq := seq\<rparr>;
         if seq AND USIP_EA_BIT \<noteq> 0
         then do {
           let s = s\<lparr>us_last := 0\<rparr>;
           if us_wait_seq s = ucast (seq AND NOT USIP_EA_BIT)
           then do { s \<leftarrow> drop_frame (s\<lparr>us_ack_sem := True\<rparr>); Some (0, node, s) }
           else Some (0xFF, node, s) }
         else do {
           node \<leftarrow> read_fields (p + 2) node s;
           s \<leftarrow> usip_send_ack (fd_seq node OR USIP_EA_BIT) (fd_cmd node) (fd_pkg_num node) s;
           Some (ucast (fd_tlv_len node), node, s\<lparr>us_skb_read := us_skb_read s + 1\<rparr>) } } } }"

fun calc_total_len_from_frame_list :: "frame_data list \<Rightarrow> u16" where
  "calc_total_len_from_frame_list [] = 0"
| "calc_total_len_from_frame_list (f # fs) = fd_tlv_len f + calc_total_len_from_frame_list fs"

fun get_data_frame_list :: "frame_data list \<Rightarrow> nat \<Rightarrow> bytes \<Rightarrow> bytes option" where
  "get_data_frame_list [] p out = Some out"
| "get_data_frame_list (f # fs) p out = do {
     v \<leftarrow> fetch 0 (unat (fd_tlv_len f)) (fd_tlv_val f);
     out \<leftarrow> put p v out;
     get_data_frame_list fs (p + unat (fd_tlv_len f)) out }"

text \<open>A turn of the loop of \<^verbatim>\<open>usip_rec_task\<close> in which the semaphore was posted; the list of its head is in the state.\<close>

definition usip_rec_turn :: "usip \<Rightarrow> usip option" where
  "usip_rec_turn s = do {
     let s = s\<lparr>us_rx_sem := False\<rparr>;
     s \<leftarrow> usip_malloc s;
     (ret, node, s) \<leftarrow> receive_one_frame_to_list zero_frame s;
     if ret > 0
     then do {
       let s = s\<lparr>us_json_len := us_json_len s + fd_tlv_len node, us_list := us_list s @ [node]\<rparr>;
       if us_last s = 1
       then do {
         let s = s\<lparr>us_last := 0\<rparr>;
         s \<leftarrow> usip_malloc s;
         json \<leftarrow> put 0 (replicate (unat (us_json_len s) + 1) 0) (replicate (unat (us_json_len s + 1)) 0);
         json \<leftarrow> get_data_frame_list (us_list s) 0 json;
         Some (s\<lparr>us_calls := us_calls s @ [(fd_cmd node, take (unat (us_json_len s)) json, us_json_len s)],
                us_json_len := 0, us_list := []\<rparr>) }
       else Some s }
     else Some s }"

text \<open>A byte arrives; the task runs when the semaphore is posted, and has left its loop when there is no callback.\<close>

definition usip_byte :: "u8 \<Rightarrow> usip \<Rightarrow> usip option" where
  "usip_byte b s = do {
     s \<leftarrow> receive_one_byte b s;
     if us_rx_sem s \<and> us_callback s then usip_rec_turn s else Some s }"

fun usip_feed :: "bytes \<Rightarrow> usip \<Rightarrow> usip option" where
  "usip_feed [] s = Some s"
| "usip_feed (b # bs) s = do { s \<leftarrow> usip_byte b s; usip_feed bs s }"

definition register_cmd_process_callback :: "bool \<Rightarrow> usip \<Rightarrow> usip" where
  "register_cmd_process_callback cb s = s\<lparr>us_callback := cb\<rparr>"

definition usip_init :: "usip \<Rightarrow> usip" where
  "usip_init s = s\<lparr>us_write_index := 0, us_is_ESC := 0, us_rcvbuf := replicate USIP_UART_RCV_BUFF 0, us_head := 0,
     us_rx_sem := False, us_ack_sem := False, us_skb := replicate USIP_UART_SKB_NUM (0, 0)\<rparr>"

text \<open>The callback of the demonstration, on the side of the MCU: the flag \<^verbatim>\<open>g_received_devreg_result\<close> after the call.\<close>

definition usip_cmd_process :: "u16 \<Rightarrow> u16 \<Rightarrow> u16" where
  "usip_cmd_process cmd received = (if cmd = 0x04 then 1 else received)"

text \<open>The static variables before any call.\<close>

definition usip_boot :: usip where
  "usip_boot = \<lparr>us_write_index = 0, us_is_ESC = 0, us_rcvbuf = replicate USIP_UART_RCV_BUFF 0, us_head = 0, us_rx_sem = False, us_ack_sem = False,
     us_skb = replicate USIP_UART_SKB_NUM (0, 0), us_skb_write = 0, us_skb_read = 0, us_send_buf = replicate USIP_FRM_MAX_LEN 0, us_frame_len = 0,
     us_seq = 0, us_wait_seq = 0, us_last = 0, us_callback = False, us_list = [], us_json_len = 0, us_acks = [], us_mallocs = [], us_out = [],
     us_calls = []\<rparr>"

section \<open>The checksum\<close>

text \<open>The reference: eight steps of the register with the polynomial 0x07, the most significant bit first.\<close>

definition crc8_bit :: "u8 \<Rightarrow> u8" where
  "crc8_bit c = (if bit c 7 then push_bit 1 c XOR 0x07 else push_bit 1 c)"

definition crc8_byte :: "u8 \<Rightarrow> u8 \<Rightarrow> u8" where
  "crc8_byte crc b = (crc8_bit ^^ 8) (crc XOR b)"

text \<open>The kernel checks the 256 entries on integers.\<close>

definition crc8_bit_int :: "int \<Rightarrow> int" where
  "crc8_bit_int c = (if c < 128 then 2 * c else (2 * c - 256) XOR 7)"

definition crc8_bits_int :: "int \<Rightarrow> int" where
  "crc8_bits_int c =
     crc8_bit_int (crc8_bit_int (crc8_bit_int (crc8_bit_int (crc8_bit_int (crc8_bit_int (crc8_bit_int (crc8_bit_int c)))))))"

lemma uint_crc8_bit: "uint (crc8_bit c) = crc8_bit_int (uint c)"
proof -
  have c: "0 \<le> uint c" "uint c < 256" using uint_lt2p[of c] by simp_all
  have b: "bit c 7 \<longleftrightarrow> 128 \<le> uint c"
  proof -
    have "bit c 7 \<longleftrightarrow> bit (uint c) 7" by (simp add: bit_uint_iff)
    then have "bit c 7 \<longleftrightarrow> odd (uint c div 128)" by (simp add: bit_iff_odd)
    moreover have "uint c div 128 = (if 128 \<le> uint c then 1 else 0)" using c by auto
    ultimately show ?thesis by simp
  qed
  have "uint (push_bit 1 c) = (2 * uint c) mod 256" by (simp add: push_bit_eq_mult uint_word_ariths mult.commute)
  moreover have "(2 * uint c - 256 + 256) mod 256 = 2 * uint c - 256" if "128 \<le> uint c"
    unfolding mod_add_self2 by (rule mod_pos_pos_trivial) (use that c in simp_all)
  then have "(2 * uint c) mod 256 = (if 128 \<le> uint c then 2 * uint c - 256 else 2 * uint c)" using c by simp
  ultimately show ?thesis unfolding crc8_bit_def crc8_bit_int_def b by (auto simp: uint_xor)
qed

lemma crc8_table_int: "map uint g_usip_crc_table = map crc8_bits_int [0..255]"
  by (simp add: crc8_bits_int_def crc8_bit_int_def upto_rec1 g_usip_crc_table_def)

lemma crc8_table_length: "length g_usip_crc_table = 256"
  by (simp add: g_usip_crc_table_def)

lemma crc8_table: "i < 256 \<Longrightarrow> g_usip_crc_table ! i = (crc8_bit ^^ 8) (of_nat i)"
proof -
  assume i: "i < 256"
  have "uint (g_usip_crc_table ! i) = map uint g_usip_crc_table ! i" using i by (simp add: crc8_table_length)
  also have "\<dots> = crc8_bits_int (int i)" using i by (simp add: crc8_table_int nth_upto)
  also have "\<dots> = uint ((crc8_bit ^^ 8) (of_nat i))"
    using i by (simp add: numeral_eq_Suc crc8_bits_int_def uint_crc8_bit uint_of_nat_small)
  finally show ?thesis by (simp add: word_uint_eq_iff)
qed

lemma crc_step_bitwise: "crc_step crc b = crc8_byte crc b"
proof -
  have "unat (crc XOR b) < 2 ^ LENGTH(8)" by (rule unsigned_less)
  then have "unat (crc XOR b) < 256" by simp
  then show ?thesis by (simp add: crc_step_def crc8_byte_def crc8_table)
qed

text \<open>The table of the checksum is that of the CRC with the polynomial \<open>x^8 + x^2 + x + 1\<close>: the checksum of a frame is the one computed bit by bit.\<close>

theorem usip_crc_ref: "crc_of bs = foldl crc8_byte 0 bs"
proof -
  have "crc_step = crc8_byte" by (intro ext) (rule crc_step_bitwise)
  then show ?thesis by (simp add: crc_of_def)
qed

section \<open>Numbers\<close>

lemma bit_small: "\<lbrakk>uint w < 2 ^ n; bit w i\<rbrakk> \<Longrightarrow> i < n"
proof (rule ccontr)
  assume w: "uint w < 2 ^ n" "bit w i" and i: "\<not> i < n"
  have "bit (uint w) i" using w(2) bit_imp_le_length[OF w(2)] by (simp add: bit_uint_iff)
  then have "odd (uint w div 2 ^ i)" by (simp add: bit_iff_odd)
  moreover have "(2 :: int) ^ n \<le> 2 ^ i" using i by (simp add: power_increasing)
  then have "uint w < 2 ^ i" using w(1) by linarith
  then have "uint w div 2 ^ i = 0" by (simp add: div_pos_pos_trivial)
  ultimately show False by simp
qed

lemma bit_0x80 [simp]: "bit (0x80 :: u8) i \<longleftrightarrow> i = 7" "bit (0x80 :: u16) i \<longleftrightarrow> i = 7"
proof -
  have "(0x80 :: u8) = 2 ^ 7" "(0x80 :: u16) = 2 ^ 7" by simp_all
  then show "bit (0x80 :: u8) i \<longleftrightarrow> i = 7" "bit (0x80 :: u16) i \<longleftrightarrow> i = 7"
    by (simp_all only: bit_exp_iff possible_bit_word) auto
qed

lemma EA_bit: "w AND USIP_EA_BIT = 0 \<longleftrightarrow> \<not> bit w 7"
  using and_exp_eq_0_iff_not_bit[of w 7] by simp

lemmas EA_bits = bit_ucast_iff bit_and_iff bit_or_iff bit_not_iff bit_0x80 bit_push_bit_iff bit_drop_bit_eq comp_def possible_bit_word bit_0_eq

lemma EA_read:
  assumes "data < 2 ^ 14"
  shows "EA_to_short (a @ short_to_EA data @ b) (length a) = Some (USIP_OK, data, length (short_to_EA data))"
proof (cases "data < 0x80")
  case True
  then have l: "bit data i \<Longrightarrow> i < 7" for i using bit_small[of data 7 i] by (simp add: word_less_def)
  have "ucast ((ucast data OR 0x80 :: u8) AND NOT 0x80) = data"
    by (rule bit_word_eqI) (simp only: EA_bits, auto dest: l)
  then show ?thesis using True by (simp add: short_to_EA_def EA_to_short_def byte_at_def nth_append EA_bit bit_simps)
next
  case False
  have l: "bit data i \<Longrightarrow> i < 14" for i using bit_small[of data 14 i] assms by (simp add: word_less_def)
  let ?h = "push_bit 7 (ucast (ucast (drop_bit 7 data) :: u8)) :: u16"
  let ?l = "ucast ((ucast (data AND NOT 0x80) OR 0x80 :: u8) AND NOT 0x80) :: u16"
  have "\<not> bit (ucast (drop_bit 7 data) :: u8) 7" "bit (ucast (data AND NOT 0x80) OR 0x80 :: u8) 7"
    using l[of 14] by (auto simp only: EA_bits) auto
  moreover have "?h AND ?l = 0" by (rule bit_word_eqI) (simp only: EA_bits, auto)
  then have "?h + ?l = ?h OR ?l" by (simp add: disjunctive_add_eq_or)
  moreover have "?h OR ?l = data" by (rule bit_word_eqI) (simp only: EA_bits, auto dest: l)
  ultimately show ?thesis using False by (simp add: short_to_EA_def EA_to_short_def byte_at_def nth_append EA_bit)
qed

text \<open>The number at the start of a text, and what follows it.\<close>

definition EA_dec :: "bytes \<Rightarrow> (u16 \<times> bytes) option" where
  "EA_dec bs = do { (ret, data, n) \<leftarrow> EA_to_short bs 0; if ret = USIP_OK then Some (data, drop n bs) else None }"

interpretation usip_number: wire_codec short_to_EA EA_dec "\<lambda>data. data < 2 ^ 14"
proof unfold_locales
  fix data :: u16 and rest assume "data < 2 ^ 14"
  then show "EA_dec (short_to_EA data @ rest) = Some (data, rest)" using EA_read[of data "[]" rest] by (simp add: EA_dec_def)
qed

section \<open>Frames on the wire\<close>

fun esc :: "u8 \<Rightarrow> bytes" where
  "esc b = (if b = END then [ESC, ESC_END] else if b = ESC then [ESC, ESC_ESC] else [b])"

declare esc.simps [simp del]

definition escape :: "bytes \<Rightarrow> bytes" where
  "escape bs = concat (map esc bs)"

definition frame_content :: "u8 \<Rightarrow> u8 \<Rightarrow> u16 \<Rightarrow> u16 \<Rightarrow> bytes \<Rightarrow> bytes" where
  "frame_content pkg seq cmd tag val =
     [pkg, seq] @ short_to_EA cmd @ short_to_EA tag @ short_to_EA (of_nat (length val)) @ val"

definition frame_wire :: "bytes \<Rightarrow> bytes" where
  "frame_wire content = END # escape (content @ [crc_of content]) @ [END]"

lemma put_bytes_at:
  "length bs \<le> length c \<Longrightarrow>
     put_bytes bs (length a) crc (a @ c) = Some (length a + length bs, foldl crc_step crc bs, a @ bs @ drop (length bs) c)"
proof (induction bs arbitrary: a c crc)
  case (Cons b bs)
  then obtain c1 c' where c: "c = c1 # c'" by (cases c) auto
  then have "put (length a) [b] (a @ c) = Some ((a @ [b]) @ c')" by (simp add: put_def)
  then show ?case using Cons.IH[of c' "a @ [b]"] Cons.prems c by simp
qed simp

lemma put_at: "length bs \<le> length c \<Longrightarrow> put (length a) bs (a @ c) = Some (a @ bs @ drop (length bs) c)"
  by (simp add: put_def)

lemma EA_length: "1 \<le> length (short_to_EA d) \<and> length (short_to_EA d) \<le> 2"
  by (simp add: short_to_EA_def)

lemma convert_ok:
  assumes "length (frame_content pkg seq cmd tag val) + 3 \<le> USIP_FRM_MAX_LEN" and "tv_tag tlv = tag"
    and "fetch 0 (unat (tv_len tlv)) (tv_val tlv) = Some val"
  shows "convert_tlv_to_usip_frame pkg seq cmd tlv s =
    (let c = frame_content pkg seq cmd tag val in
     Some (of_nat (length c + 3), s\<lparr>us_send_buf := END # c @ [crc_of c, END] @ replicate (125 - length c) 0\<rparr>))"
proof -
  let ?c = "frame_content pkg seq cmd tag val"
  have v: "tv_len tlv = of_nat (length val)" by (simp add: fetch_length[OF assms(3)])
  have l: "length ?c = 2 + length (short_to_EA cmd) + length (short_to_EA tag) + length (short_to_EA (tv_len tlv)) + length val"
    unfolding frame_content_def v by simp
  let ?r = "\<lambda>n. replicate n (0 :: u8)"
  have 0: "put 0 [END] (?r 128) = Some ([END] @ ?r 127)" by (simp add: put_def)
  have 1: "put_bytes [pkg, seq] 1 0 ([END] @ ?r 127) = Some (length [END, pkg, seq], foldl crc_step 0 [pkg, seq], [END, pkg, seq] @ ?r 125)"
    using put_bytes_at[of "[pkg, seq]" "?r 127" "[END]" 0] by simp
  let ?a1 = "[END, pkg, seq]" and ?a2 = "[END, pkg, seq] @ short_to_EA cmd"
  let ?a3 = "?a2 @ short_to_EA tag" and ?a4 = "?a2 @ short_to_EA tag @ short_to_EA (tv_len tlv)"
  let ?crc = "\<lambda>bs. foldl crc_step 0 bs"
  have step: "put_bytes bs (length a) (?crc x) (a @ ?r n) = Some (length (a @ bs), ?crc (x @ bs), (a @ bs) @ ?r (n - length bs))"
    if "length bs \<le> n" for bs a x n
    using put_bytes_at[of bs "?r n" a] that by simp
  have b: "length (short_to_EA cmd) \<le> 125" "length (short_to_EA tag) \<le> 125 - length (short_to_EA cmd)"
    "length (short_to_EA (tv_len tlv)) \<le> 125 - length (short_to_EA cmd) - length (short_to_EA tag)"
    using EA_length[of cmd] EA_length[of tag] EA_length[of "tv_len tlv"] by linarith+
  have 2: "put_bytes (short_to_EA cmd) (length ?a1) (?crc [pkg, seq]) (?a1 @ ?r 125) =
      Some (length ?a2, ?crc ([pkg, seq] @ short_to_EA cmd), ?a2 @ ?r (125 - length (short_to_EA cmd)))"
    using step[OF b(1), of ?a1 "[pkg, seq]"] by simp
  have 3: "put_bytes (short_to_EA tag) (length ?a2) (?crc ([pkg, seq] @ short_to_EA cmd)) (?a2 @ ?r (125 - length (short_to_EA cmd))) =
      Some (length ?a3, ?crc (([pkg, seq] @ short_to_EA cmd) @ short_to_EA tag), ?a3 @ ?r (125 - length (short_to_EA cmd) - length (short_to_EA tag)))"
    using step[OF b(2), of ?a2 "[pkg, seq] @ short_to_EA cmd"] by simp
  let ?n = "125 - length (short_to_EA cmd) - length (short_to_EA tag)"
  have 4: "put_bytes (short_to_EA (tv_len tlv)) (length ?a3) (?crc (([pkg, seq] @ short_to_EA cmd) @ short_to_EA tag)) (?a3 @ ?r ?n) =
      Some (length ?a4, ?crc ([pkg, seq] @ short_to_EA cmd @ short_to_EA tag @ short_to_EA (tv_len tlv)), ?a4 @ ?r (?n - length (short_to_EA (tv_len tlv))))"
    using step[OF b(3), of ?a3 "([pkg, seq] @ short_to_EA cmd) @ short_to_EA tag"] by simp
  have c: "?c = ([pkg, seq] @ short_to_EA cmd @ short_to_EA tag @ short_to_EA (tv_len tlv)) @ val" unfolding frame_content_def v by simp
  have 5: "put_bytes val (length ?a4) (?crc ([pkg, seq] @ short_to_EA cmd @ short_to_EA tag @ short_to_EA (tv_len tlv)))
        (?a4 @ ?r (?n - length (short_to_EA (tv_len tlv)))) = Some (length (END # ?c), crc_of ?c, (END # ?c) @ ?r (127 - length ?c))"
    using step[of val "?n - length (short_to_EA (tv_len tlv))" ?a4 "[pkg, seq] @ short_to_EA cmd @ short_to_EA tag @ short_to_EA (tv_len tlv)"]
      assms(1) l unfolding crc_of_def c by simp
  have 6: "put (length (END # ?c)) [crc_of ?c] ((END # ?c) @ ?r (127 - length ?c)) = Some ((END # ?c @ [crc_of ?c]) @ ?r (126 - length ?c))"
    using put_at[of "[crc_of ?c]" "?r (127 - length ?c)" "END # ?c"] assms(1) by simp
  have 7: "put (length (END # ?c) + 1) [END] ((END # ?c @ [crc_of ?c]) @ ?r (126 - length ?c)) =
      Some (END # ?c @ [crc_of ?c, END] @ ?r (125 - length ?c))"
    using put_at[of "[END]" "?r (126 - length ?c)" "END # ?c @ [crc_of ?c]"] assms(1) by simp
  show ?thesis
    unfolding convert_tlv_to_usip_frame_def Let_def 0 Option.bind.bind_lunit 1 prod.case 2 assms(2) 3 4 assms(3) 5 6 7
    by simp
qed

lemma send_loop_out: "send_loop_bytes bs s = s\<lparr>us_out := us_out s @ escape bs\<rparr>"
  by (induction bs arbitrary: s) (simp_all add: send_escaped_def send_one_byte_def escape_def esc.simps)

lemma send_frame:
  assumes "length c + 3 \<le> USIP_FRM_MAX_LEN"
  shows "send_one_frame (END # c @ [crc_of c, END] @ rest) (of_nat (length c + 3)) s = Some (s\<lparr>us_out := us_out s @ frame_wire c\<rparr>)"
proof -
  have "unat (of_nat (length c + 3) :: u16) = length c + 3" using assms by (simp only: unat_of_nat) simp
  moreover have "fetch 1 (length c + 1) (END # c @ [crc_of c, END] @ rest) = Some (c @ [crc_of c])" by (simp add: fetch_def)
  moreover have "byte_at (END # c @ [crc_of c, END] @ rest) (length c + 2) = Some END" by (simp add: byte_at_def nth_append)
  ultimately show ?thesis
    by (simp add: send_one_frame_def send_loop_out send_one_byte_def frame_wire_def byte_at_def[of _ 0] Let_def del: of_nat_add)
qed

section \<open>The receiver\<close>

lemma feed_nil [simp]: "Option.bind r (usip_feed []) = r"
  by (cases r) simp_all

lemma feed_append: "usip_feed (a @ b) s = Option.bind (usip_feed a s) (usip_feed b)"
proof (induction a arbitrary: s)
  case (Cons x a)
  then show ?case by (cases "usip_byte x s") simp_all
qed simp

text \<open>Inside a frame; \<open>usip_store\<close> is what a byte of the frame does.\<close>

definition in_frame :: "usip \<Rightarrow> bool" where
  "in_frame s \<longleftrightarrow> us_head s = 1 \<and> us_is_ESC s = 0 \<and> \<not> us_rx_sem s \<and> unat (us_write_index s) < USIP_UART_RCV_BUFF \<and>
     length (us_rcvbuf s) = USIP_UART_RCV_BUFF \<and> length (us_skb s) = USIP_UART_SKB_NUM \<and> unat (us_skb_write s) < USIP_UART_SKB_NUM"

definition usip_store :: "bytes \<Rightarrow> usip \<Rightarrow> usip" where
  "usip_store bs s =
     (let w = unat (us_write_index s) in
      s\<lparr>us_frame_len := us_frame_len s + of_nat (length bs),
        us_rcvbuf := take w (us_rcvbuf s) @ bs @ drop (w + length bs) (us_rcvbuf s),
        us_write_index := if w + length bs = USIP_UART_RCV_BUFF then 0 else us_write_index s + of_nat (length bs)\<rparr>)"

lemma index_succ: "unat (w :: u16) < 2048 \<Longrightarrow> unat (w + 1) = unat w + 1"
  by (simp add: unat_word_ariths)

lemma store_one:
  assumes "in_frame s"
  shows "map_option wrap_indices (store_byte b s) = Some (usip_store [b] s)"
  using assms index_succ[of "us_write_index s"]
  by (auto simp: in_frame_def store_byte_def usip_store_def wrap_indices_def put_def Let_def)

lemma feed_esc: "in_frame s \<Longrightarrow> usip_feed (esc b) s = Some (usip_store [b] s)"
proof -
  assume s: "in_frame s"
  let ?e = "s\<lparr>us_is_ESC := 1\<rparr>"
  have "s\<lparr>us_is_ESC := 0\<rparr> = s" using s by (auto simp: in_frame_def)
  then have "store_byte x (s\<lparr>us_is_ESC := 0\<rparr>) = store_byte x s" for x by (rule arg_cong)
  then have st: "map_option wrap_indices (store_byte x (s\<lparr>us_is_ESC := 0\<rparr>)) = Some (usip_store [x] s)" for x
    using store_one[OF s, of x] by simp
  have e: "wrap_indices ?e = ?e" using s by (auto simp: in_frame_def wrap_indices_def)
  have rx: "\<not> us_rx_sem (usip_store [b] s)" using s by (simp add: usip_store_def in_frame_def Let_def)
  have i: "us_head s = 1" "us_is_ESC s = 0" "\<not> us_rx_sem s" using s by (simp_all add: in_frame_def)
  have esc1: "usip_byte ESC s = Some ?e" using i e by (simp add: usip_byte_def receive_one_byte_def bad_escape_def)
  consider "b = END" | "b = ESC" | "b \<noteq> END" "b \<noteq> ESC" by blast
  then show ?thesis
  proof cases
    case 1
    then have "usip_byte ESC_END ?e = Some (usip_store [b] s)"
      using i e rx st[of END] by (simp add: usip_byte_def receive_one_byte_def bad_escape_def del: map_option_eq_Some)
    then show ?thesis using esc1 1 by (simp add: esc.simps)
  next
    case 2
    then have "usip_byte ESC_ESC ?e = Some (usip_store [b] s)"
      using i e rx st[of ESC] by (simp add: usip_byte_def receive_one_byte_def bad_escape_def del: map_option_eq_Some)
    then show ?thesis using esc1 2 by (simp add: esc.simps)
  next
    case 3
    then have "usip_byte b s = Some (usip_store [b] s)"
      using i rx store_one[OF s, of b] by (simp add: usip_byte_def receive_one_byte_def bad_escape_def del: map_option_eq_Some)
    then show ?thesis using 3 by (simp add: esc.simps)
  qed
qed

lemma store_frame: "\<lbrakk>in_frame s; unat (us_write_index s) + 1 < USIP_UART_RCV_BUFF\<rbrakk> \<Longrightarrow> in_frame (usip_store [b] s)"
  using index_succ[of "us_write_index s"] by (auto simp: in_frame_def usip_store_def Let_def)

lemma store_store:
  assumes "in_frame s" and "unat (us_write_index s) + 1 < USIP_UART_RCV_BUFF" and "unat (us_write_index s) + length (b # bs) \<le> USIP_UART_RCV_BUFF"
  shows "usip_store bs (usip_store [b] s) = usip_store (b # bs) s"
proof -
  let ?w = "unat (us_write_index s)"
  have w: "unat (us_write_index s + 1) = ?w + 1" using assms(1) by (intro index_succ) (simp add: in_frame_def)
  have "length (us_rcvbuf s) = USIP_UART_RCV_BUFF" using assms(1) by (simp add: in_frame_def)
  then have "take (?w + 1) (take ?w (us_rcvbuf s) @ [b] @ drop (?w + 1) (us_rcvbuf s)) = take ?w (us_rcvbuf s) @ [b]"
    "drop (?w + 1 + length bs) (take ?w (us_rcvbuf s) @ [b] @ drop (?w + 1) (us_rcvbuf s)) = drop (?w + length (b # bs)) (us_rcvbuf s)"
    using assms(2) by (simp_all add: add.commute)
  then show ?thesis using assms(2) w by (simp add: usip_store_def Let_def add.assoc)
qed

lemma feed_escape:
  "\<lbrakk>in_frame s; unat (us_write_index s) + length bs \<le> USIP_UART_RCV_BUFF\<rbrakk> \<Longrightarrow> usip_feed (escape bs) s = Some (usip_store bs s)"
proof (induction bs arbitrary: s)
  case Nil
  then show ?case by (simp add: escape_def usip_store_def in_frame_def Let_def)
next
  case (Cons b bs)
  have e: "usip_feed (escape (b # bs)) s = usip_feed (escape bs) (usip_store [b] s)"
    using feed_esc[OF Cons.prems(1)] by (simp add: escape_def feed_append)
  show ?case
  proof (cases "bs = []")
    case True
    then show ?thesis using e by (simp add: escape_def)
  next
    case False
    then have w: "unat (us_write_index s) + 1 < USIP_UART_RCV_BUFF" using Cons.prems(2) by (cases bs) auto
    have "unat (us_write_index (usip_store [b] s)) = unat (us_write_index s) + 1"
      using w index_succ[of "us_write_index s"] by (simp add: usip_store_def Let_def)
    then show ?thesis using Cons.IH[OF store_frame[OF Cons.prems(1) w]] Cons.prems(2) e store_store[OF Cons.prems(1) w] by simp
  qed
qed

text \<open>Between two frames, with every received frame handled.\<close>

definition usip_idle :: "usip \<Rightarrow> bool" where
  "usip_idle s \<longleftrightarrow> us_head s = 0 \<and> us_is_ESC s = 0 \<and> us_frame_len s = 0 \<and> \<not> us_rx_sem s \<and> us_callback s \<and>
     unat (us_write_index s) < USIP_UART_RCV_BUFF \<and> length (us_rcvbuf s) = USIP_UART_RCV_BUFF \<and>
     length (us_skb s) = USIP_UART_SKB_NUM \<and> unat (us_skb_write s) < USIP_UART_SKB_NUM \<and>
     (if unat (us_skb_read s) = USIP_UART_SKB_NUM then 0 else us_skb_read s) = us_skb_write s \<and> us_mallocs s = []"

lemma feed_frame:
  assumes "usip_idle s" and "x \<noteq> []" and "length x \<le> USIP_FRM_DATA_MAX_LEN"
  shows "\<exists>W B K V pos. usip_feed (END # escape x @ [END]) s =
      usip_rec_turn (s\<lparr>us_write_index := W, us_rcvbuf := B, us_skb := K, us_skb_write := V, us_rx_sem := True\<rparr>) \<and>
    unat W < USIP_UART_RCV_BUFF \<and> length B = USIP_UART_RCV_BUFF \<and> length K = USIP_UART_SKB_NUM \<and>
    V = (if unat (us_skb_write s) = 15 then 0 else us_skb_write s + 1) \<and>
    K ! unat (us_skb_write s) = (pos, of_nat (length x)) \<and> fetch (unat pos) (length x) B = Some x"
proof -
  let ?wi = "us_write_index s" and ?w = "us_skb_write s"
  have i: "us_head s = 0" "us_is_ESC s = 0" "us_frame_len s = 0" "\<not> us_rx_sem s" "us_callback s" "unat ?wi < 2048"
    "length (us_rcvbuf s) = 2048" "length (us_skb s) = 16" "unat ?w < 16"
    using assms(1) by (simp_all add: usip_idle_def)
  define W0 where "W0 = (if 2048 < unat ?wi + 126 then 0 else ?wi)"
  have W0: "unat W0 + 126 \<le> 2048" "unat W0 < 2048" using i(6) by (auto simp: W0_def)
  define h where "h = s\<lparr>us_head := 1, us_write_index := W0, us_skb := (us_skb s)[unat ?w := (W0, snd (us_skb s ! unat ?w))]\<rparr>"
  have 1: "usip_byte END s = Some h"
    using i by (simp add: usip_byte_def receive_one_byte_def bad_escape_def skb_set_def byte_at_def h_def W0_def case_prod_beta Let_def)
  have f: "in_frame h" using i W0 by (simp add: in_frame_def h_def)
  have fits: "unat (us_write_index h) + length x \<le> 2048" using W0 assms(3) by (simp add: h_def)
  have 2: "usip_feed (escape x) h = Some (usip_store x h)" using feed_escape[OF f] fits by simp
  let ?s = "usip_store x h"
  define B where "B = us_rcvbuf ?s"
  define W where "W = us_write_index ?s"
  have s: "?s = s\<lparr>us_head := 1, us_frame_len := of_nat (length x), us_write_index := W, us_rcvbuf := B,
      us_skb := (us_skb s)[unat ?w := (W0, snd (us_skb s ! unat ?w))]\<rparr>"
    using i(3) by (simp add: W_def B_def usip_store_def h_def Let_def)
  have B: "length B = 2048" "fetch (unat W0) (length x) B = Some x"
    using i(7) fits by (simp_all add: B_def usip_store_def h_def fetch_def Let_def)
  have n: "unat (of_nat (length x) :: u16) = length x" using assms(3) by (simp only: unat_of_nat) simp
  have W: "unat W < 2048"
  proof (cases "unat W0 + length x = 2048")
    case False
    then have "unat W0 + length x < 2048" using fits by (simp add: h_def)
    moreover from this have "unat (W0 + of_nat (length x)) = unat W0 + length x"
      using n by (simp add: unat_word_ariths)
    ultimately show ?thesis using False by (simp add: W_def usip_store_def h_def Let_def)
  qed (simp add: W_def usip_store_def h_def Let_def)
  have nz: "(of_nat (length x) :: u16) \<noteq> 0" using n assms(2) by (metis length_0_conv unsigned_0)
  define V where "V = (if unat ?w = 15 then 0 else ?w + 1)"
  have V: "unat (?w + 1) = unat ?w + 1" using i(9) by (simp add: unat_word_ariths)
  define K where "K = (us_skb s)[unat ?w := (W0, of_nat (length x))]"
  let ?t = "s\<lparr>us_write_index := W, us_rcvbuf := B, us_skb := K, us_skb_write := V, us_rx_sem := True\<rparr>"
  have "wrap_indices (?s\<lparr>us_skb := K, us_head := 0, us_frame_len := 0, us_is_ESC := 0, us_skb_write := ?w + 1, us_rx_sem := True\<rparr>) =
      ?s\<lparr>us_skb := K, us_head := 0, us_frame_len := 0, us_is_ESC := 0, us_skb_write := V, us_rx_sem := True\<rparr>"
    using W V i(9) unfolding s by (auto simp: wrap_indices_def V_def Let_def)
  also have "\<dots> = ?t" using i(1-3) unfolding s by simp
  finally have 3: "usip_byte END ?s = usip_rec_turn ?t"
    using i nz unfolding s
    by (simp add: usip_byte_def receive_one_byte_def bad_escape_def skb_set_def byte_at_def K_def)
  have "usip_feed (END # escape x @ [END]) s = usip_rec_turn ?t"
    using 1 2 3 by (simp add: feed_append)
  then show ?thesis using W B i(8,9)
    by (intro exI[of _ W] exI[of _ B] exI[of _ K] exI[of _ V] exI[of _ W0]) (simp add: K_def V_def)
qed

lemma fetch_parts:
  assumes "fetch p n buf = Some x"
  shows "\<exists>a b. buf = a @ x @ b \<and> length a = p \<and> length x = n"
proof -
  have "p + n \<le> length buf" "x = take n (drop p buf)" using assms by (auto dest: fetch_SomeD)
  then have "buf = take p buf @ x @ drop (p + n) buf" by (simp add: add.commute flip: drop_drop)
  then show ?thesis using \<open>p + n \<le> length buf\<close> \<open>x = _\<close>
    by (intro exI[of _ "take p buf"] exI[of _ "drop (p + n) buf"]) simp
qed

text \<open>A data frame in the buffer is read back with all its fields.\<close>

definition data_node :: "u8 \<Rightarrow> u8 \<Rightarrow> u16 \<Rightarrow> u16 \<Rightarrow> bytes \<Rightarrow> frame_data" where
  "data_node pkg seq cmd tag val =
     \<lparr>fd_pkg_num = pkg AND NOT USIP_EA_BIT, fd_seq = seq, fd_cmd = cmd, fd_tlv_tag = tag, fd_tlv_len = of_nat (length val),
      fd_tlv_val = val @ replicate (USIP_FRM_DATA_MAX_LEN - length val) 0\<rparr>"

definition ack_content :: "u8 \<Rightarrow> u8 \<Rightarrow> u16 \<Rightarrow> bytes" where
  "ack_content pkg seq cmd = frame_content USIP_EA_BIT (seq OR USIP_EA_BIT) cmd USIP_TLV_TAG_ACK [pkg AND NOT USIP_EA_BIT]"

definition good_frame :: "u8 \<Rightarrow> u16 \<Rightarrow> u16 \<Rightarrow> bytes \<Rightarrow> bool" where
  "good_frame seq cmd tag val \<longleftrightarrow> \<not> bit seq 7 \<and> cmd < 2 ^ 14 \<and> tag < 2 ^ 14 \<and> val \<noteq> [] \<and>
     length (short_to_EA cmd) + length (short_to_EA tag) + length val \<le> 122 \<and> length val < 128"

lemma good_frame_length:
  "good_frame seq cmd tag val \<Longrightarrow> length (frame_content pkg seq cmd tag val) + 1 \<le> 126 \<and> length val \<le> 120 \<and> length (short_to_EA (of_nat (length val))) = 1"
proof -
  assume g: "good_frame seq cmd tag val"
  then have l: "length val \<le> 120" using EA_length[of cmd] EA_length[of tag] by (auto simp: good_frame_def)
  then have "unat (of_nat (length val) :: u16) = length val" by (simp only: unat_of_nat) simp
  then have "(of_nat (length val) :: u16) < 0x80" using l by (simp add: word_less_nat_alt)
  then have "length (short_to_EA (of_nat (length val))) = 1" by (simp add: short_to_EA_def)
  then show ?thesis using g l by (simp add: good_frame_def frame_content_def)
qed

lemma read_fields_ok:
  assumes "us_rcvbuf s = a @ frame_content pkg seq cmd tag val @ b" and "good_frame seq cmd tag val"
  shows "read_fields (length a + 2) (zero_frame\<lparr>fd_pkg_num := pkg AND NOT USIP_EA_BIT, fd_seq := seq\<rparr>) s = Some (data_node pkg seq cmd tag val)"
proof -
  let ?n = "of_nat (length val) :: u16"
  let ?C = "short_to_EA cmd" and ?T = "short_to_EA tag" and ?L = "short_to_EA ?n"
  have l: "length val \<le> 120" "cmd < 2 ^ 14" "tag < 2 ^ 14" using assms(2) good_frame_length[OF assms(2)] by (simp_all add: good_frame_def)
  then have n: "unat ?n = length val" by (simp only: unat_of_nat) simp
  then have n14: "?n < 2 ^ 14" using l(1) by (simp add: word_less_nat_alt)
  have buf: "us_rcvbuf s = (a @ [pkg, seq]) @ ?C @ (?T @ ?L @ val @ b)"
    "us_rcvbuf s = (a @ [pkg, seq] @ ?C) @ ?T @ (?L @ val @ b)" "us_rcvbuf s = (a @ [pkg, seq] @ ?C @ ?T) @ ?L @ (val @ b)"
    "us_rcvbuf s = (a @ [pkg, seq] @ ?C @ ?T @ ?L) @ val @ b"
    using assms(1) by (simp_all add: frame_content_def)
  have 1: "EA_to_short (us_rcvbuf s) (length a + 2) = Some (USIP_OK, cmd, length ?C)"
    using EA_read[OF l(2), of "a @ [pkg, seq]"] unfolding buf(1) by simp
  have 2: "EA_to_short (us_rcvbuf s) (length a + 2 + length ?C) = Some (USIP_OK, tag, length ?T)"
    using EA_read[OF l(3), of "a @ [pkg, seq] @ ?C"] unfolding buf(2) by (simp add: add.assoc)
  have 3: "EA_to_short (us_rcvbuf s) (length a + 2 + length ?C + length ?T) = Some (USIP_OK, ?n, length ?L)"
    using EA_read[OF n14, of "a @ [pkg, seq] @ ?C @ ?T"] unfolding buf(3) by (simp add: add.assoc)
  have 4: "fetch (length a + 2 + length ?C + length ?T + length ?L) (unat ?n) (us_rcvbuf s) = Some val"
    using fetch_append[of "a @ [pkg, seq] @ ?C @ ?T @ ?L" val b] unfolding buf(4) n by (simp add: add.assoc)
  have "put 0 val (replicate 126 0) = Some (val @ replicate (126 - length val) 0)" using l(1) by (simp add: put_def)
  then show ?thesis unfolding read_fields_def 1 Option.bind.bind_lunit prod.case 2 3 4 by (simp add: data_node_def zero_frame_def)
qed

lemma fits_ack: "length (ack_content pkg seq cmd) + 3 \<le> 128"
  using EA_length[of cmd] EA_length[of 0] EA_length[of 1] by (simp add: ack_content_def frame_content_def)

lemma ack_ok:
  "\<exists>buf. usip_send_ack (seq OR USIP_EA_BIT) cmd (pkg AND NOT USIP_EA_BIT) s =
     Some (s\<lparr>us_send_buf := buf, us_out := us_out s @ frame_wire (ack_content pkg seq cmd)\<rparr>)"
proof -
  let ?c = "ack_content pkg seq cmd" and ?v = "[pkg AND NOT USIP_EA_BIT]"
  let ?buf = "END # ?c @ [crc_of ?c, END] @ replicate (125 - length ?c) 0"
  have c: "convert_tlv_to_usip_frame USIP_EA_BIT (seq OR USIP_EA_BIT) cmd \<lparr>tv_tag = USIP_TLV_TAG_ACK, tv_len = 1, tv_val = ?v\<rparr> s =
      Some (of_nat (length ?c + 3), s\<lparr>us_send_buf := ?buf\<rparr>)"
    using convert_ok[of USIP_EA_BIT "seq OR USIP_EA_BIT" cmd USIP_TLV_TAG_ACK ?v "\<lparr>tv_tag = USIP_TLV_TAG_ACK, tv_len = 1, tv_val = ?v\<rparr>" s]
      fits_ack[of pkg seq cmd] by (simp add: ack_content_def fetch_def Let_def)
  show ?thesis unfolding usip_send_ack_def c Option.bind.bind_lunit prod.case
    using send_frame[OF fits_ack[of pkg seq cmd], of "replicate (125 - length ?c) 0" "s\<lparr>us_send_buf := ?buf\<rparr>"] by (intro exI[of _ ?buf]) simp
qed

lemma frame_byte_at:
  "\<lbrakk>fetch p n buf = Some x; i < n\<rbrakk> \<Longrightarrow> byte_at buf (p + i) = Some (x ! i)"
  by (auto simp: fetch_def byte_at_def split: if_splits)

text \<open>A frame in the buffer whose checksum is right.\<close>

definition frame_at :: "usip \<Rightarrow> u16 \<Rightarrow> bytes \<Rightarrow> bool" where
  "frame_at s r c \<longleftrightarrow> (if unat (us_skb_read s) = USIP_UART_SKB_NUM then 0 else us_skb_read s) = r \<and> unat r < length (us_skb s) \<and>
     snd (us_skb s ! unat r) = of_nat (length c + 1) \<and> 2 \<le> length c \<and> length c \<le> 125 \<and>
     fetch (unat (fst (us_skb s ! unat r))) (length c + 1) (us_rcvbuf s) = Some (c @ [crc_of c])"

lemma receive_checked:
  assumes "frame_at s r c"
  shows "receive_one_frame_to_list zero_frame s =
    (let s0 = s\<lparr>us_skb_read := r\<rparr>; s1 = (if bit (c ! 0) 7 then s0\<lparr>us_last := 1\<rparr> else s0);
         node = zero_frame\<lparr>fd_pkg_num := c ! 0 AND NOT USIP_EA_BIT, fd_seq := c ! 1\<rparr>
     in if bit (c ! 1) 7
        then if us_wait_seq s = ucast (c ! 1 AND NOT USIP_EA_BIT)
          then do { s \<leftarrow> drop_frame (s1\<lparr>us_last := 0, us_ack_sem := True\<rparr>); Some (0, node, s) }
          else Some (0xFF, node, s1\<lparr>us_last := 0\<rparr>)
        else do {
          node \<leftarrow> read_fields (unat (fst (us_skb s ! unat r)) + 2) node s1;
          s \<leftarrow> usip_send_ack (fd_seq node OR USIP_EA_BIT) (fd_cmd node) (fd_pkg_num node) s1;
          Some (ucast (fd_tlv_len node), node, s\<lparr>us_skb_read := us_skb_read s + 1\<rparr>) })"
proof -
  let ?n = "length c + 1" and ?s = "s\<lparr>us_skb_read := r\<rparr>"
  obtain pos where k: "us_skb s ! unat r = (pos, of_nat ?n)" "fetch (unat pos) ?n (us_rcvbuf s) = Some (c @ [crc_of c])"
    using assms by (cases "us_skb s ! unat r") (simp add: frame_at_def)
  have n: "?n \<le> 126" "2 \<le> length c" using assms by (simp_all add: frame_at_def)
  have un: "unat (of_nat ?n :: u16) = ?n" using n(1) by (simp only: unat_of_nat) simp
  have s: "(if unat (us_skb_read s) = USIP_UART_SKB_NUM then s\<lparr>us_skb_read := 0\<rparr> else s) = ?s" using assms by (auto simp: frame_at_def)
  have e: "byte_at (us_skb ?s) (unat (us_skb_read ?s)) = Some (pos, of_nat ?n)" using assms k(1) by (simp add: byte_at_def frame_at_def)
  have body: "fetch (unat pos) (?n - 1) (us_rcvbuf s) = Some c"
  proof -
    have "take ?n (drop (unat pos) (us_rcvbuf s)) = c @ [crc_of c]" "unat pos + ?n \<le> length (us_rcvbuf s)"
      using k(2) by (auto dest: fetch_SomeD)
    then have "take (length c) (take ?n (drop (unat pos) (us_rcvbuf s))) = c" "unat pos + length c \<le> length (us_rcvbuf s)" by simp_all
    then show ?thesis by (simp add: fetch_def min_def)
  qed
  have crc: "byte_at (us_rcvbuf s) (unat pos + ?n - 1) = Some (crc_of c)"
    using frame_byte_at[OF k(2), of "length c"] by simp
  have b: "byte_at (us_rcvbuf s) (unat pos + i) = Some (c ! i)" if "i < 2" for i
    using frame_byte_at[OF k(2), of i] n(2) that by (simp add: nth_append)
  show ?thesis
    using body crc b[of 0] b[of 1] n(1)
    unfolding receive_one_frame_to_list_def Let_def s e k(1) fst_conv Option.bind.bind_lunit prod.case un
    by (simp add: EA_bit cong: if_cong)
qed

lemma receive_data:
  fixes s :: usip and pkg seq :: u8 and cmd tag :: u16 and val :: bytes
  defines "c \<equiv> frame_content pkg seq cmd tag val"
  assumes at: "frame_at s r c" and g: "good_frame seq cmd tag val"
  shows "\<exists>buf. receive_one_frame_to_list zero_frame s = Some (of_nat (length val), data_node pkg seq cmd tag val,
    s\<lparr>us_skb_read := r + 1, us_last := if bit pkg 7 then 1 else us_last s, us_send_buf := buf,
      us_out := us_out s @ frame_wire (ack_content pkg seq cmd)\<rparr>)"
proof -
  let ?s = "s\<lparr>us_skb_read := r\<rparr>" and ?p = "unat (fst (us_skb s ! unat r))"
  let ?s1 = "if bit pkg 7 then ?s\<lparr>us_last := 1\<rparr> else ?s"
  have n: "length val \<le> 120" using good_frame_length[OF g, of pkg] by simp
  have cl: "c ! 0 = pkg" "c ! 1 = seq" by (simp_all add: c_def frame_content_def)
  have "fetch ?p (length c + 1) (us_rcvbuf s) = Some (c @ [crc_of c])" using at by (simp add: frame_at_def)
  then obtain a b where ab: "us_rcvbuf s = a @ c @ ([crc_of c] @ b)" "length a = ?p" using fetch_parts by fastforce
  have sk: "us_rcvbuf ?s1 = us_rcvbuf s" by simp
  have f: "read_fields (?p + 2) (zero_frame\<lparr>fd_pkg_num := pkg AND NOT USIP_EA_BIT, fd_seq := seq\<rparr>) ?s1 = Some (data_node pkg seq cmd tag val)"
    using read_fields_ok[OF _ g, of ?s1 a pkg] ab unfolding sk c_def by metis
  obtain buf where k: "usip_send_ack (seq OR USIP_EA_BIT) cmd (pkg AND NOT USIP_EA_BIT) ?s1 =
      Some (?s1\<lparr>us_send_buf := buf, us_out := us_out ?s1 @ frame_wire (ack_content pkg seq cmd)\<rparr>)"
    using ack_ok by blast
  have sq: "\<not> bit seq 7" using g by (simp add: good_frame_def)
  have u: "ucast (of_nat (length val) :: u16) = (of_nat (length val) :: u8)"
    using n by (simp add: unsigned_of_nat take_bit_nat_eq_self)
  have d: "fd_seq (data_node pkg seq cmd tag val) = seq" "fd_cmd (data_node pkg seq cmd tag val) = cmd"
    "fd_pkg_num (data_node pkg seq cmd tag val) = pkg AND NOT USIP_EA_BIT" "fd_tlv_len (data_node pkg seq cmd tag val) = of_nat (length val)"
    by (simp_all add: data_node_def)
  have "receive_one_frame_to_list zero_frame s = Some (of_nat (length val), data_node pkg seq cmd tag val,
      ?s1\<lparr>us_skb_read := r + 1, us_send_buf := buf, us_out := us_out s @ frame_wire (ack_content pkg seq cmd)\<rparr>)"
    unfolding receive_checked[OF at] Let_def cl if_not_P[OF sq] f Option.bind.bind_lunit d k u by simp
  then show ?thesis by (intro exI[of _ buf]) simp
qed

text \<open>An acknowledgement that was not waited for is an error, and the place to read from stays.\<close>

lemma ack_nth: "ack_content pkg seq cmd ! 0 = USIP_EA_BIT" "ack_content pkg seq cmd ! 1 = seq OR USIP_EA_BIT"
  by (simp_all add: ack_content_def frame_content_def)

lemma ack_seq: "\<not> bit seq 7 \<Longrightarrow> (seq OR USIP_EA_BIT) AND NOT USIP_EA_BIT = seq" for seq :: u8
  by (rule bit_word_eqI) (auto simp only: EA_bits)

lemma receive_ack:
  assumes "frame_at s r (ack_content pkg seq cmd)" and "\<not> bit seq 7"
  shows "\<exists>node. fd_tlv_len node = 0 \<and> length (fd_tlv_val node) = USIP_FRM_DATA_MAX_LEN \<and> receive_one_frame_to_list zero_frame s =
    (if us_wait_seq s = ucast seq
     then Some (0, node, s\<lparr>us_skb := (us_skb s)[unat r := (fst (us_skb s ! unat r), 0)], us_skb_read := r + 1, us_last := 0, us_ack_sem := True\<rparr>)
     else Some (0xFF, node, s\<lparr>us_skb_read := r, us_last := 0\<rparr>))"
proof -
  have l: "unat r < length (us_skb s)" using assms(1) by (simp add: frame_at_def)
  have b: "bit (USIP_EA_BIT :: u8) 7" "bit (seq OR USIP_EA_BIT) 7" by (simp_all add: bit_or_iff)
  show ?thesis
    unfolding receive_checked[OF assms(1)] Let_def ack_nth if_P[OF b(1)] if_P[OF b(2)] ack_seq[OF assms(2)]
    using l by (intro exI[of _ "zero_frame\<lparr>fd_pkg_num := USIP_EA_BIT AND NOT USIP_EA_BIT, fd_seq := seq OR USIP_EA_BIT\<rparr>"])
      (simp add: zero_frame_def drop_frame_def skb_set_def byte_at_def case_prod_beta)
qed

text \<open>The data that the task has collected.\<close>

definition node_bytes :: "frame_data \<Rightarrow> bytes" where
  "node_bytes f = take (unat (fd_tlv_len f)) (fd_tlv_val f)"

definition pending :: "usip \<Rightarrow> bytes" where
  "pending s = concat (map node_bytes (us_list s))"

definition task_ok :: "usip \<Rightarrow> bool" where
  "task_ok s \<longleftrightarrow> (\<forall>f \<in> set (us_list s). unat (fd_tlv_len f) \<le> length (fd_tlv_val f)) \<and>
     unat (us_json_len s) = length (pending s) \<and> us_last s = 0"

lemma get_data:
  "\<lbrakk>\<forall>f \<in> set fs. unat (fd_tlv_len f) \<le> length (fd_tlv_val f); p + length (concat (map node_bytes fs)) \<le> length out\<rbrakk> \<Longrightarrow>
     get_data_frame_list fs p out = put p (concat (map node_bytes fs)) out"
proof (induction fs arbitrary: p out)
  case (Cons f fs)
  have l: "length (node_bytes f) = unat (fd_tlv_len f)" using Cons.prems(1) by (simp add: node_bytes_def)
  have v: "fetch 0 (unat (fd_tlv_len f)) (fd_tlv_val f) = Some (node_bytes f)" using Cons.prems(1) by (simp add: fetch_def node_bytes_def)
  obtain o1 where o1: "put p (node_bytes f) out = Some o1" "length o1 = length out"
    using put_fits[of p "node_bytes f" out] Cons.prems(2) by auto
  have "get_data_frame_list fs (p + length (node_bytes f)) o1 = put (p + length (node_bytes f)) (concat (map node_bytes fs)) o1"
    using Cons.IH[of "p + length (node_bytes f)" o1] Cons.prems o1(2) by simp
  then show ?case using v o1(1) put_put[of p "node_bytes f" out "concat (map node_bytes fs)"] by (simp add: l[symmetric])
qed simp

lemma data_node_bytes:
  assumes "good_frame seq cmd tag val"
  shows "node_bytes (data_node pkg seq cmd tag val) = val" "unat (fd_tlv_len (data_node pkg seq cmd tag val)) = length val"
    "length val \<le> length (fd_tlv_val (data_node pkg seq cmd tag val))"
proof -
  have "length val \<le> 120" using good_frame_length[OF assms] by blast
  then have "unat (of_nat (length val) :: u16) = length val" by (simp only: unat_of_nat) simp
  then show "node_bytes (data_node pkg seq cmd tag val) = val" "unat (fd_tlv_len (data_node pkg seq cmd tag val)) = length val"
    "length val \<le> length (fd_tlv_val (data_node pkg seq cmd tag val))"
    by (simp_all add: node_bytes_def data_node_def)
qed

text \<open>A data frame on the wire: the receiver acknowledges it and collects its data, and delivers all with the last one.\<close>

lemma frame_received:
  assumes "usip_idle s" and "task_ok s" and "good_frame seq cmd tag val" and "length (pending s @ val) < 65535"
  shows "\<exists>s'. usip_feed (frame_wire (frame_content pkg seq cmd tag val)) s = Some s' \<and> usip_idle s' \<and> task_ok s' \<and>
    us_out s' = us_out s @ frame_wire (ack_content pkg seq cmd) \<and>
    (if bit pkg 7 then pending s' = [] \<and> us_calls s' = us_calls s @ [(cmd, pending s @ val, of_nat (length (pending s @ val)))]
     else pending s' = pending s @ val \<and> us_calls s' = us_calls s)"
proof -
  let ?c = "frame_content pkg seq cmd tag val" and ?node = "data_node pkg seq cmd tag val" and ?w = "us_skb_write s"
  let ?x = "?c @ [crc_of ?c]"
  have xl: "length ?x \<le> 126" "0 < length val" "length val \<le> 120"
    using good_frame_length[OF assms(3), of pkg] assms(3) by (auto simp: good_frame_def)
  obtain W B K V pos where f: "usip_feed (END # escape ?x @ [END]) s =
      usip_rec_turn (s\<lparr>us_write_index := W, us_rcvbuf := B, us_skb := K, us_skb_write := V, us_rx_sem := True\<rparr>)"
    "unat W < 2048" "length B = 2048" "length K = 16" "V = (if unat ?w = 15 then 0 else ?w + 1)"
    "K ! unat ?w = (pos, of_nat (length ?x))" "fetch (unat pos) (length ?x) B = Some ?x"
    using feed_frame[OF assms(1) _ xl(1)] by auto
  have w: "unat ?w < 16" "(if unat (us_skb_read s) = 16 then 0 else us_skb_read s) = ?w" "us_mallocs s = []"
    using assms(1) by (simp_all add: usip_idle_def)
  let ?t = "s\<lparr>us_write_index := W, us_rcvbuf := B, us_skb := K, us_skb_write := V, us_rx_sem := False, us_mallocs := []\<rparr>"
  have rd: "(if unat (us_skb_read ?t) = 16 then 0 else us_skb_read ?t) = ?w" using w(2) by (simp split: if_splits)
  have at: "frame_at ?t ?w ?c" using rd w(1) f(4,6,7) xl(1) by (simp add: frame_at_def frame_content_def)
  obtain buf where r: "receive_one_frame_to_list zero_frame ?t = Some (of_nat (length val), ?node,
      ?t\<lparr>us_skb_read := ?w + 1, us_last := if bit pkg 7 then 1 else us_last s, us_send_buf := buf,
        us_out := us_out s @ frame_wire (ack_content pkg seq cmd)\<rparr>)"
    using receive_data[OF at assms(3)] by (simp cong: if_cong) blast
  let ?u = "?t\<lparr>us_skb_read := ?w + 1, us_last := if bit pkg 7 then 1 else us_last s, us_send_buf := buf,
        us_out := us_out s @ frame_wire (ack_content pkg seq cmd)\<rparr>"
  have "unat (of_nat (length val) :: u8) = length val" using xl(3) by (simp only: unat_of_nat) simp
  then have pos: "(of_nat (length val) :: u8) > 0" using xl(2) by (simp add: word_less_nat_alt)
  note d = data_node_bytes[OF assms(3), of pkg]
  let ?list = "us_list s @ [?node]" and ?json = "us_json_len s + fd_tlv_len ?node"
  have ok: "\<forall>f \<in> set ?list. unat (fd_tlv_len f) \<le> length (fd_tlv_val f)" using assms(2) d by (auto simp: task_ok_def)
  have cat: "concat (map node_bytes ?list) = pending s @ val" using d(1) by (simp add: pending_def)
  have j: "unat ?json = length (pending s @ val)" "unat (?json + 1) = length (pending s @ val) + 1"
    using assms(2,4) d(2) by (simp_all add: unat_word_ariths task_ok_def)
  have turn: "usip_rec_turn (s\<lparr>us_write_index := W, us_rcvbuf := B, us_skb := K, us_skb_write := V, us_rx_sem := True\<rparr>) =
    (if bit pkg 7
     then Some (?u\<lparr>us_json_len := 0, us_list := [], us_last := 0,
       us_calls := us_calls s @ [(cmd, pending s @ val, ?json)]\<rparr>)
     else Some (?u\<lparr>us_json_len := ?json, us_list := ?list\<rparr>))"
  proof -
    let ?p = "pending s @ val" and ?s0 = "s\<lparr>us_write_index := W, us_rcvbuf := B, us_skb := K, us_skb_write := V, us_rx_sem := True\<rparr>"
    let ?z = "replicate (length ?p) 0 @ [0 :: u8]"
    have "replicate (length ?p + 1) 0 = ?z" by (simp add: replicate_append_same)
    then have z: "put 0 (replicate (unat ?json + 1) 0) (replicate (unat (?json + 1)) 0) = Some ?z"
      unfolding j by (simp add: put_def)
    have g: "get_data_frame_list ?list 0 ?z = Some (?p @ [0])"
      using get_data[OF ok, of 0 ?z] unfolding cat by (simp add: put_def)
    have t: "take (unat ?json) (?p @ [0]) = ?p" unfolding j by simp
    have c: "fd_cmd ?node = cmd" by (simp add: data_node_def)
    have m: "usip_malloc (?s0\<lparr>us_rx_sem := False\<rparr>) = Some ?t" using w(3) by (simp add: usip_malloc_def)
    have l: "us_last s = 0" using assms(2) by (simp add: task_ok_def)
    let ?v = "?u\<lparr>us_json_len := ?json, us_list := ?list\<rparr>"
    have 1: "usip_rec_turn ?s0 = (if us_last ?v = 1 then do {
        s \<leftarrow> usip_malloc (?v\<lparr>us_last := 0\<rparr>);
        json \<leftarrow> put 0 (replicate (unat (us_json_len s) + 1) 0) (replicate (unat (us_json_len s + 1)) 0);
        json \<leftarrow> get_data_frame_list (us_list s) 0 json;
        Some (s\<lparr>us_calls := us_calls s @ [(fd_cmd ?node, take (unat (us_json_len s)) json, us_json_len s)],
          us_json_len := 0, us_list := []\<rparr>) } else Some ?v)"
      unfolding usip_rec_turn_def Let_def m Option.bind.bind_lunit r prod.case if_P[OF pos] by simp
    show ?thesis
    proof (cases "bit pkg 7")
      case True
      have m2: "usip_malloc (?v\<lparr>us_last := 0\<rparr>) = Some (?v\<lparr>us_last := 0\<rparr>)" by (simp add: usip_malloc_def)
      have e: "us_json_len (?v\<lparr>us_last := 0\<rparr>) = ?json" "us_list (?v\<lparr>us_last := 0\<rparr>) = ?list" by simp_all
      show ?thesis unfolding 1 m2 Option.bind.bind_lunit e z g t c using True by simp
    next
      case False
      then show ?thesis unfolding 1 using l by simp
    qed
  qed
  have V: "unat V < 16" "(if unat (?w + 1) = 16 then 0 else ?w + 1) = V"
    using w(1) f(5) by (auto simp: unat_word_ariths)
  have feed: "usip_feed (frame_wire ?c) s = (if bit pkg 7
     then Some (?u\<lparr>us_json_len := 0, us_list := [], us_last := 0,
       us_calls := us_calls s @ [(cmd, pending s @ val, ?json)]\<rparr>)
     else Some (?u\<lparr>us_json_len := ?json, us_list := ?list\<rparr>))"
    using f(1) unfolding turn frame_wire_def .
  have jn: "?json = of_nat (length (pending s @ val))" unfolding j(1)[symmetric] by simp
  have i: "us_head s = 0" "us_is_ESC s = 0" "us_frame_len s = 0" "us_callback s" using assms(1) by (simp_all add: usip_idle_def)
  have l: "us_last s = 0" using assms(2) by (simp add: task_ok_def)
  have r': "(if unat (?w + 1) = 16 then 0 else ?w + 1) = V \<and> unat V < 16" using V by simp
  show ?thesis
  proof (cases "bit pkg 7")
    case True
    have "usip_idle (?u\<lparr>us_json_len := 0, us_list := [], us_last := 0, us_calls := us_calls s @ [(cmd, pending s @ val, ?json)]\<rparr>)"
      unfolding usip_idle_def using i f(2,3,4) r' by (simp split: if_splits)
    then show ?thesis unfolding feed if_P[OF True] jn by (simp add: task_ok_def pending_def)
  next
    case False
    have "usip_idle (?u\<lparr>us_json_len := ?json, us_list := ?list\<rparr>)"
      unfolding usip_idle_def using i f(2,3,4) r' by (simp split: if_splits)
    moreover have "task_ok (?u\<lparr>us_json_len := ?json, us_list := ?list\<rparr>)"
      unfolding task_ok_def pending_def using ok j(1) cat l False by simp
    moreover have "pending (?u\<lparr>us_json_len := ?json, us_list := ?list\<rparr>) = pending s @ val"
      unfolding pending_def using cat by (simp add: pending_def)
    ultimately show ?thesis unfolding feed if_not_P[OF False] by simp
  qed
qed

section \<open>A message from chip to chip\<close>

text \<open>What a sender has sent and that its next wait succeeds.\<close>

definition sender_ok :: "usip \<Rightarrow> bool" where
  "sender_ok s \<longleftrightarrow> us_acks s = [] \<and> \<not> us_ack_sem s"

lemma tlv_ok:
  assumes "good_frame seq cmd tag val" and "tv_tag tlv = tag" and "fetch 0 (unat (tv_len tlv)) (tv_val tlv) = Some val"
  shows "\<exists>n buf. convert_tlv_to_usip_frame pkg seq cmd tlv s = Some (n, s\<lparr>us_send_buf := buf\<rparr>) \<and>
    (\<forall>s'. send_one_frame buf n s' =
      Some (s'\<lparr>us_out := us_out s' @ frame_wire (frame_content pkg seq cmd tag val)\<rparr>))"
proof -
  let ?c = "frame_content pkg seq cmd tag val"
  have l: "length ?c + 3 \<le> 128" using good_frame_length[OF assms(1), of pkg] by simp
  show ?thesis
    using convert_ok[OF l assms(2,3), of s] send_frame[OF l, of "replicate (125 - length ?c) 0"]
    unfolding Let_def by blast
qed

lemma send_tlv_ok:
  assumes "good_frame seq cmd tag val" and "tv_tag tlv = tag" and "fetch 0 (unat (tv_len tlv)) (tv_val tlv) = Some val" and "sender_ok s"
  shows "\<exists>s'. usip_send_tlv pkg seq cmd tlv s = Some (USIP_OK, s') \<and> sender_ok s' \<and>
    us_out s' = us_out s @ frame_wire (frame_content pkg seq cmd tag val)"
proof -
  obtain n buf where c: "convert_tlv_to_usip_frame pkg seq cmd tlv s = Some (n, s\<lparr>us_send_buf := buf\<rparr>)"
    and o: "\<And>s'. send_one_frame buf n s' = Some (s'\<lparr>us_out := us_out s' @ frame_wire (frame_content pkg seq cmd tag val)\<rparr>)"
    using tlv_ok[OF assms(1-3)] by blast
  show ?thesis unfolding usip_send_tlv_def c Option.bind.bind_lunit prod.case
    using assms(4) by (simp add: numeral_3_eq_3 o wait_ack_def sender_ok_def)
qed

lemma bit_last: "bit (pn OR USIP_EA_BIT) 7"
  by (simp add: bit_or_iff)

lemma packages_received:
  assumes "m = 121 - length (short_to_EA cmd)" and "\<not> bit seq 7" and "cmd < 2 ^ 14"
    and "data \<noteq> []" "unat len = length data" "length data \<le> (128 - unat pn) * m" "unat pn < 128"
    and "sender_ok a" and "usip_idle b" "task_ok b" "length (pending b @ data) < 65535"
  shows "\<exists>w a' b'. send_packages pn seq cmd m data len a = Some (USIP_OK, a') \<and> us_out a' = us_out a @ w \<and> sender_ok a' \<and>
    usip_feed w b = Some b' \<and> usip_idle b' \<and> task_ok b' \<and> pending b' = [] \<and>
    us_calls b' = us_calls b @ [(cmd, pending b @ data, of_nat (length (pending b @ data)))]"
  using assms
proof (induction pn seq cmd m data len a arbitrary: b rule: send_packages.induct)
  case (1 pn seq cmd m data len a)
  have m: "119 \<le> m" "m \<le> 120" using "1.prems"(1) EA_length[of cmd] by auto
  have um: "unat (of_nat m :: u16) = m" using m by (simp only: unat_of_nat) simp
  have ml: "length (short_to_EA USIP_TLV_TAG_RST) = 1" by (simp add: short_to_EA_def)
  have good: "good_frame seq cmd USIP_TLV_TAG_RST val" if "val \<noteq> []" "length val \<le> m" for val
    unfolding good_frame_def ml using that "1.prems"(1,2,3) m by auto
  show ?case
  proof (cases "unat len > m")
    case False
    let ?t = "\<lparr>tv_tag = USIP_TLV_TAG_RST, tv_len = len, tv_val = data\<rparr>" and ?pn = "pn OR USIP_EA_BIT"
    have g: "good_frame seq cmd USIP_TLV_TAG_RST data" using good "1.prems"(4,5) False by simp
    have f: "fetch 0 (unat (tv_len ?t)) (tv_val ?t) = Some data" using "1.prems"(5) by (simp add: fetch_def)
    obtain a' where a: "usip_send_tlv ?pn seq cmd ?t a = Some (USIP_OK, a')" "sender_ok a'"
        "us_out a' = us_out a @ frame_wire (frame_content ?pn seq cmd USIP_TLV_TAG_RST data)"
      using send_tlv_ok[OF g _ f "1.prems"(8), of ?pn] by auto
    have s: "send_packages pn seq cmd m data len a = Some (USIP_OK, a')"
      using False a(1) by (simp add: send_packages.simps[of pn])
    show ?thesis using frame_received[OF "1.prems"(9,10) g "1.prems"(11), of ?pn] s a(2,3) unfolding if_P[OF bit_last] by blast
  next
    case True
    let ?v = "take m data"
    let ?t = "\<lparr>tv_tag = USIP_TLV_TAG_RST, tv_len = of_nat m, tv_val = data\<rparr>"
    have l: "m < length data" using True "1.prems"(5) by simp
    have "unat pn \<noteq> 127" using l "1.prems"(6) by auto
    then have pn: "unat pn + 1 < 128" "unat (pn + 1) = unat pn + 1" using "1.prems"(7) by (simp_all add: unat_word_ariths)
    have nb: "\<not> bit pn 7"
    proof
      assume "bit pn 7"
      then have "pn AND 0x80 \<noteq> 0" by (simp add: EA_bit)
      moreover have "pn < 0x80" using "1.prems"(7) by (simp add: word_less_nat_alt)
      ultimately show False using bit_small[of pn 7 7] \<open>bit pn 7\<close> by (simp add: word_less_def)
    qed
    have g: "good_frame seq cmd USIP_TLV_TAG_RST ?v" using good[of ?v] l m(1) "1.prems"(4) by auto
    have f: "fetch 0 (unat (tv_len ?t)) (tv_val ?t) = Some ?v" using l um by (simp add: fetch_def)
    obtain a1 where a1: "usip_send_tlv pn seq cmd ?t a = Some (USIP_OK, a1)" "sender_ok a1"
        "us_out a1 = us_out a @ frame_wire (frame_content pn seq cmd USIP_TLV_TAG_RST ?v)"
      using send_tlv_ok[OF g _ f "1.prems"(8), of pn] by auto
    have c: "unat len > m \<and> m > 0" using True m by simp
    have s: "send_packages pn seq cmd m data len a = send_packages (pn + 1) seq cmd m (drop m data) (len - of_nat m) a1"
      using True m a1(1) by (simp add: send_packages.simps[of pn])
    have p: "length (pending b @ ?v) < 65535" using "1.prems"(11) l by simp
    obtain b1 where b1: "usip_feed (frame_wire (frame_content pn seq cmd USIP_TLV_TAG_RST ?v)) b = Some b1" "usip_idle b1"
        "task_ok b1" "pending b1 = pending b @ ?v" "us_calls b1 = us_calls b"
      using frame_received[OF "1.prems"(9,10) g p, of pn] unfolding if_not_P[OF nb] by blast
    have len: "unat (len - of_nat m) = length (drop m data)"
      using True um "1.prems"(5) by (simp add: unat_sub word_le_nat_alt)
    have e: "(128 - unat (pn + 1)) * m = (128 - unat pn) * m - m" unfolding pn(2) by (simp add: diff_mult_distrib)
    have "\<exists>w a' b'. send_packages (pn + 1) seq cmd m (drop m data) (len - of_nat m) a1 = Some (USIP_OK, a') \<and>
        us_out a' = us_out a1 @ w \<and> sender_ok a' \<and> usip_feed w b1 = Some b' \<and> usip_idle b' \<and> task_ok b' \<and> pending b' = [] \<and>
        us_calls b' = us_calls b1 @ [(cmd, pending b1 @ drop m data, of_nat (length (pending b1 @ drop m data)))]"
      by (rule "1.IH"[OF c a1(1) refl _ "1.prems"(1,2,3) _ len _ _ a1(2) b1(2,3)])
        (use l "1.prems"(6,11) pn b1(4) e in auto)
    then obtain w a' b' where r: "send_packages (pn + 1) seq cmd m (drop m data) (len - of_nat m) a1 = Some (USIP_OK, a')"
        "us_out a' = us_out a1 @ w" "sender_ok a'" "usip_feed w b1 = Some b'" "usip_idle b'" "task_ok b'" "pending b' = []"
        "us_calls b' = us_calls b1 @ [(cmd, pending b1 @ drop m data, of_nat (length (pending b1 @ drop m data)))]"
      by blast
    have q: "pending b1 @ drop m data = pending b @ data" unfolding b1(4) by simp
    show ?thesis
      by (rule exI[of _ "frame_wire (frame_content pn seq cmd USIP_TLV_TAG_RST ?v) @ w"], rule exI[of _ a'], rule exI[of _ b'])
        (use s r a1(3) b1(1,5) q in \<open>simp add: feed_append\<close>)
  qed
qed

lemma boot_ok:
  "usip_idle (register_cmd_process_callback True (usip_init usip_boot))" "task_ok (register_cmd_process_callback True (usip_init usip_boot))"
  "sender_ok (register_cmd_process_callback True (usip_init usip_boot))" "pending (register_cmd_process_callback True (usip_init usip_boot)) = []"
  "us_seq (register_cmd_process_callback True (usip_init usip_boot)) = 0"
  by (simp_all add: usip_idle_def task_ok_def sender_ok_def pending_def register_cmd_process_callback_def usip_init_def usip_boot_def)

lemma seq_bit: "w \<le> USIP_SEQ_MAX \<Longrightarrow> \<not> bit (ucast w :: u8) 7" for w :: u16
proof -
  assume "w \<le> USIP_SEQ_MAX"
  then have "w < 0x80" by (simp add: word_less_nat_alt word_le_nat_alt)
  then have "uint w < 2 ^ 7" by (simp add: word_less_def)
  then show ?thesis using bit_small[of w 7 7] by (auto simp: bit_ucast_iff)
qed

text \<open>C12. A message from chip to chip: \<^verbatim>\<open>usip_send_data\<close> cuts the data into packages, escapes and checksums them, and when each is
  acknowledged it returns success; a receiver between two messages that gets the bytes it sent calls the callback once, with the command and
  exactly the data, and is between two messages again. It holds for every length up to 128 packages, for commands below 2^14, at any place of
  the receiver's ring of buffers, whatever bytes the data has.\<close>

theorem usip_transfer:
  assumes "us_seq a \<le> USIP_SEQ_MAX" and "cmd < 2 ^ 14" and "data \<noteq> []" and "unat len = length data"
    and "length data \<le> 128 * (121 - length (short_to_EA cmd))"
    and "sender_ok a" and "usip_idle b" and "task_ok b" and "pending b = []"
  shows "\<exists>w a' b'. usip_send_data cmd data len a = Some (USIP_OK, a') \<and> us_out a' = us_out a @ w \<and> usip_feed w b = Some b' \<and>
    us_calls b' = us_calls b @ [(cmd, data, len)] \<and> usip_idle b' \<and> task_ok b' \<and> pending b' = []"
proof -
  let ?m = "121 - length (short_to_EA cmd)"
  have m: "123 - length (short_to_EA cmd) - 2 = ?m" by simp
  have s: "\<not> bit (ucast (us_seq a) :: u8) 7" by (rule seq_bit) (rule assms(1))
  define a1 where "a1 = (snd (get_seq a))\<lparr>us_wait_seq := ucast (ucast (us_seq a) :: u8)\<rparr>"
  have g: "get_seq a = (ucast (us_seq a), snd (get_seq a))" by (simp add: get_seq_def Let_def)
  have a1: "sender_ok a1" "us_out a1 = us_out a" using assms(6) by (simp_all add: a1_def get_seq_def sender_ok_def Let_def)
  have len: "len = of_nat (length data)" by (simp flip: assms(4))
  have d: "length (pending b @ data) < 65535" using assms(5,9) EA_length[of cmd] by simp
  have "\<not> unat len > (127 + 1) * ?m" using assms(4,5) by simp
  then have u: "usip_send_data cmd data len a = send_packages 0 (ucast (us_seq a)) cmd ?m data len a1"
    unfolding usip_send_data_def Let_def m by (subst g) (simp add: a1_def)
  obtain w a' b' where r: "send_packages 0 (ucast (us_seq a)) cmd ?m data len a1 = Some (USIP_OK, a')" "us_out a' = us_out a1 @ w"
      "usip_feed w b = Some b'" "usip_idle b'" "task_ok b'" "pending b' = []"
      "us_calls b' = us_calls b @ [(cmd, pending b @ data, of_nat (length (pending b @ data)))]"
    using packages_received[OF refl s assms(2,3,4) _ _ a1(1) assms(7,8) d, of 0] assms(5) by auto
  show ?thesis using u r assms(9) len a1(2) by auto
qed

theorem usip_transfer_witness:
  "\<exists>w a' b'. usip_send_data 3 [0xC0, 1, 0xDB] 3 (register_cmd_process_callback True (usip_init usip_boot)) = Some (USIP_OK, a') \<and>
     us_out a' = us_out (register_cmd_process_callback True (usip_init usip_boot)) @ w \<and>
     usip_feed w (register_cmd_process_callback True (usip_init usip_boot)) = Some b' \<and>
     us_calls b' = us_calls (register_cmd_process_callback True (usip_init usip_boot)) @ [(3, [0xC0, 1, 0xDB], 3)] \<and>
     usip_idle b' \<and> task_ok b' \<and> pending b' = []"
  by (rule usip_transfer[OF _ _ _ _ _ boot_ok(3,1,2,4)]) (simp_all add: boot_ok(5) short_to_EA_def)

text \<open>The acknowledgement that the receiver sends for a package wakes the sender that waits for its number: its receiver gets the frame, posts the
  semaphore, and neither collects nor delivers nor answers anything.\<close>

theorem usip_ack_wakes:
  assumes "usip_idle s" and "task_ok s" and "\<not> bit seq 7" and "us_wait_seq s = ucast seq"
  shows "\<exists>s'. usip_feed (frame_wire (ack_content pkg seq cmd)) s = Some s' \<and> us_ack_sem s' \<and> usip_idle s' \<and> task_ok s' \<and>
    pending s' = pending s \<and> us_calls s' = us_calls s \<and> us_out s' = us_out s"
proof -
  let ?c = "ack_content pkg seq cmd" and ?w = "us_skb_write s"
  let ?x = "?c @ [crc_of ?c]"
  have xl: "length ?x \<le> 126" "2 \<le> length ?c" using fits_ack[of pkg seq cmd] by (simp_all add: ack_content_def frame_content_def)
  obtain W B K V pos where f: "usip_feed (END # escape ?x @ [END]) s =
      usip_rec_turn (s\<lparr>us_write_index := W, us_rcvbuf := B, us_skb := K, us_skb_write := V, us_rx_sem := True\<rparr>)"
    "unat W < 2048" "length B = 2048" "length K = 16" "V = (if unat ?w = 15 then 0 else ?w + 1)"
    "K ! unat ?w = (pos, of_nat (length ?x))" "fetch (unat pos) (length ?x) B = Some ?x"
    using feed_frame[OF assms(1) _ xl(1)] by auto
  let ?s0 = "s\<lparr>us_write_index := W, us_rcvbuf := B, us_skb := K, us_skb_write := V, us_rx_sem := True\<rparr>"
  let ?t = "s\<lparr>us_write_index := W, us_rcvbuf := B, us_skb := K, us_skb_write := V, us_rx_sem := False, us_mallocs := []\<rparr>"
  have i: "us_head s = 0" "us_is_ESC s = 0" "us_frame_len s = 0" "us_callback s" "unat ?w < 16" "us_mallocs s = []"
    "(if unat (us_skb_read ?t) = 16 then 0 else us_skb_read ?t) = ?w"
    using assms(1) by (simp_all add: usip_idle_def split: if_splits)
  have m: "usip_malloc (?s0\<lparr>us_rx_sem := False\<rparr>) = Some ?t" using i(6) by (simp add: usip_malloc_def)
  have at: "frame_at ?t ?w ?c" using i(5,7) f(4,6,7) xl by (simp add: frame_at_def)
  have ws: "us_wait_seq ?t = ucast seq" using assms(4) by simp
  let ?u = "?t\<lparr>us_skb := K[unat ?w := (pos, 0)], us_skb_read := ?w + 1, us_last := 0, us_ack_sem := True\<rparr>"
  obtain node where r: "receive_one_frame_to_list zero_frame ?t = Some (0, node, ?u)"
    using receive_ack[OF at assms(3)] f(6) unfolding if_P[OF ws] by auto
  have "usip_rec_turn ?s0 = Some ?u" unfolding usip_rec_turn_def Let_def m Option.bind.bind_lunit r prod.case by simp
  then have feed: "usip_feed (frame_wire ?c) s = Some ?u" using f(1) unfolding frame_wire_def by simp
  have "(if unat (?w + 1) = 16 then 0 else ?w + 1) = V \<and> unat V < 16"
    using i(5) f(5) by (auto simp: unat_word_ariths)
  then have "usip_idle ?u" unfolding usip_idle_def using i f(2,3,4) by (simp split: if_splits)
  then show ?thesis unfolding feed using assms(2) by (simp add: task_ok_def pending_def)
qed

theorem usip_ack_wakes_witness:
  "\<exists>s'. usip_feed (frame_wire (ack_content 0 0 3)) (register_cmd_process_callback True (usip_init usip_boot)) = Some s' \<and> us_ack_sem s' \<and>
     usip_idle s' \<and> task_ok s' \<and> pending s' = pending (register_cmd_process_callback True (usip_init usip_boot)) \<and>
     us_calls s' = us_calls (register_cmd_process_callback True (usip_init usip_boot)) \<and>
     us_out s' = us_out (register_cmd_process_callback True (usip_init usip_boot))"
  by (rule usip_ack_wakes[OF boot_ok(1,2)]) (simp_all add: register_cmd_process_callback_def usip_init_def usip_boot_def)

text \<open>A lost acknowledgement: a message of one package whose first acknowledgement does not arrive in time is sent twice, and the receiver, which
  compares neither the sequence number nor the number of the package with those of the last frame, delivers it twice.\<close>

theorem usip_duplicate:
  assumes "us_seq a \<le> USIP_SEQ_MAX" and "cmd < 2 ^ 14" and "data \<noteq> []" and "unat len = length data"
    and "length data \<le> 121 - length (short_to_EA cmd)"
    and "us_acks a = [False]" "\<not> us_ack_sem a" and "usip_idle b" and "task_ok b" and "pending b = []"
  shows "\<exists>w a' b'. usip_send_data cmd data len a = Some (USIP_OK, a') \<and> us_out a' = us_out a @ w \<and> usip_feed w b = Some b' \<and>
    us_calls b' = us_calls b @ [(cmd, data, len), (cmd, data, len)]"
proof -
  let ?m = "121 - length (short_to_EA cmd)" and ?q = "ucast (us_seq a) :: u8" and ?pn = "0 OR USIP_EA_BIT :: u8"
  let ?w = "frame_wire (frame_content ?pn ?q cmd USIP_TLV_TAG_RST data)"
  let ?t = "\<lparr>tv_tag = USIP_TLV_TAG_RST, tv_len = len, tv_val = data\<rparr>"
  have m: "123 - length (short_to_EA cmd) - 2 = ?m" "0 < ?m" "?m \<le> 120" using EA_length[of cmd] by auto
  have s: "\<not> bit ?q 7" by (rule seq_bit) (rule assms(1))
  define a1 where "a1 = (snd (get_seq a))\<lparr>us_wait_seq := ucast ?q\<rparr>"
  have g: "get_seq a = (?q, snd (get_seq a))" by (simp add: get_seq_def Let_def)
  have a1: "us_acks a1 = [False]" "\<not> us_ack_sem a1" "us_out a1 = us_out a" using assms(6,7) by (simp_all add: a1_def get_seq_def Let_def)
  have len: "of_nat (length data) = len" by (simp flip: assms(4))
  have gf: "good_frame ?q cmd USIP_TLV_TAG_RST data"
    using s assms(2,3,5) m EA_length[of cmd] by (auto simp: good_frame_def short_to_EA_def[of 1])
  have f: "fetch 0 (unat (tv_len ?t)) (tv_val ?t) = Some data" using assms(4) by (simp add: fetch_def)
  obtain n buf where c: "convert_tlv_to_usip_frame ?pn ?q cmd ?t a1 = Some (n, a1\<lparr>us_send_buf := buf\<rparr>)"
    and o: "\<And>s'. send_one_frame buf n s' = Some (s'\<lparr>us_out := us_out s' @ ?w\<rparr>)"
    using tlv_ok[OF gf _ f, of ?pn a1] by auto
  have t: "\<exists>a'. usip_send_tlv ?pn ?q cmd ?t a1 = Some (USIP_OK, a') \<and> us_out a' = us_out a @ ?w @ ?w"
    unfolding usip_send_tlv_def c Option.bind.bind_lunit prod.case using a1 by (simp add: numeral_3_eq_3 o wait_ack_def)
  have "\<not> unat len > (127 + 1) * ?m" using assms(4,5) by simp
  then have "usip_send_data cmd data len a = send_packages 0 ?q cmd ?m data len a1"
    unfolding usip_send_data_def Let_def m(1) by (subst g) (simp add: a1_def)
  also have "\<dots> = map_option (\<lambda>(ret, s). (if ret \<noteq> USIP_OK then USIP_ERROR else USIP_OK, s)) (usip_send_tlv ?pn ?q cmd ?t a1)"
    using assms(4,5) by (simp add: send_packages.simps[of 0] split: option.splits)
  finally obtain a' where a: "usip_send_data cmd data len a = Some (USIP_OK, a')" "us_out a' = us_out a @ ?w @ ?w" using t by auto
  have l: "length data < 65535" using assms(5) m(3) by linarith
  obtain b1 where b1: "usip_feed ?w b = Some b1" "usip_idle b1" "task_ok b1" "pending b1 = []" "us_calls b1 = us_calls b @ [(cmd, data, len)]"
    using frame_received[OF assms(8,9) gf, of ?pn] l assms(10) unfolding if_P[OF bit_last] by (auto simp: len)
  obtain b2 where b2: "usip_feed ?w b1 = Some b2" "us_calls b2 = us_calls b1 @ [(cmd, data, len)]"
    using frame_received[OF b1(2,3) gf, of ?pn] l b1(4) unfolding if_P[OF bit_last] by (auto simp: len)
  show ?thesis by (rule exI[of _ "?w @ ?w"]) (use a b1(1,5) b2 in \<open>simp add: feed_append\<close>)
qed

theorem usip_duplicate_witness:
  "\<exists>w a' b'. usip_send_data 3 [7] 1 (usip_boot\<lparr>us_acks := [False]\<rparr>) = Some (USIP_OK, a') \<and>
     us_out a' = us_out (usip_boot\<lparr>us_acks := [False]\<rparr>) @ w \<and>
     usip_feed w (register_cmd_process_callback True (usip_init usip_boot)) = Some b' \<and>
     us_calls b' = us_calls (register_cmd_process_callback True (usip_init usip_boot)) @ [(3, [7], 1), (3, [7], 1)]"
  by (rule usip_duplicate[OF _ _ _ _ _ _ _ boot_ok(1,2,4)]) (simp_all add: usip_boot_def short_to_EA_def)

text \<open>Turns of the task, one for each time the semaphore is posted.\<close>

fun usip_turns :: "nat \<Rightarrow> usip \<Rightarrow> usip option" where
  "usip_turns 0 s = Some s"
| "usip_turns (Suc k) s = do { s \<leftarrow> usip_rec_turn s; usip_turns k s }"

lemma stale_turn:
  assumes "frame_at s r (ack_content pkg seq cmd)" and "\<not> bit seq 7" and "us_wait_seq s \<noteq> ucast seq" and "us_mallocs s = []"
  shows "\<exists>s'. usip_rec_turn s = Some s' \<and> frame_at s' r (ack_content pkg seq cmd) \<and> us_wait_seq s' = us_wait_seq s \<and> us_mallocs s' = [] \<and>
    us_calls s' = us_calls s \<and> us_out s' = us_out s \<and> length (us_list s') = Suc (length (us_list s)) \<and> us_ack_sem s' = us_ack_sem s"
proof -
  let ?t = "s\<lparr>us_rx_sem := False\<rparr>"
  have m: "usip_malloc ?t = Some ?t" using assms(4) by (simp add: usip_malloc_def)
  have at: "frame_at ?t r (ack_content pkg seq cmd)" using assms(1) unfolding frame_at_def by (simp split: if_splits)
  obtain node where r: "fd_tlv_len node = 0" "receive_one_frame_to_list zero_frame ?t = Some (0xFF, node, ?t\<lparr>us_skb_read := r, us_last := 0\<rparr>)"
    using receive_ack[OF at assms(2)] assms(3) by auto
  have "usip_rec_turn s = Some (?t\<lparr>us_skb_read := r, us_last := 0, us_list := us_list s @ [node]\<rparr>)"
    unfolding usip_rec_turn_def Let_def m Option.bind.bind_lunit r(2) prod.case using r(1) by simp
  moreover have "unat r < 16 \<longrightarrow> r \<noteq> 16" by auto
  ultimately show ?thesis using assms(1,4) by (auto simp: frame_at_def split: if_splits)
qed

text \<open>An acknowledgement that is not the one waited for (a second one for the same package, after the next number was drawn) blocks the receiver: the
  function returns its error without moving the place to read from, so that each turn of the task, whatever was received behind it, reads
  the same frame again, delivers nothing, acknowledges nothing, and adds a node to the list.\<close>

theorem usip_stale_ack_blocks:
  assumes "frame_at s r (ack_content pkg seq cmd)" and "\<not> bit seq 7" and "us_wait_seq s \<noteq> ucast seq" and "us_mallocs s = []"
  shows "\<exists>s'. usip_turns k s = Some s' \<and> frame_at s' r (ack_content pkg seq cmd) \<and> us_calls s' = us_calls s \<and> us_out s' = us_out s \<and>
    us_ack_sem s' = us_ack_sem s \<and> length (us_list s') = length (us_list s) + k"
  using assms
proof (induction k arbitrary: s)
  case (Suc k)
  obtain s1 where s1: "usip_rec_turn s = Some s1" "frame_at s1 r (ack_content pkg seq cmd)" "us_wait_seq s1 = us_wait_seq s" "us_mallocs s1 = []"
      "us_calls s1 = us_calls s" "us_out s1 = us_out s" "length (us_list s1) = Suc (length (us_list s))" "us_ack_sem s1 = us_ack_sem s"
    using stale_turn[OF Suc.prems] by blast
  obtain s2 where "usip_turns k s1 = Some s2" "frame_at s2 r (ack_content pkg seq cmd)" "us_calls s2 = us_calls s1" "us_out s2 = us_out s1"
      "us_ack_sem s2 = us_ack_sem s1" "length (us_list s2) = length (us_list s1) + k"
    using Suc.IH[OF s1(2) Suc.prems(2) _ s1(4)] Suc.prems(3) s1(3) by auto
  then show ?case using s1 by simp
qed simp

theorem usip_stale_ack_blocks_witness:
  "let s = usip_boot\<lparr>us_rcvbuf := ack_content 0 5 3 @ [crc_of (ack_content 0 5 3)], us_skb := [(0, 7)], us_wait_seq := 6\<rparr>
   in \<exists>s'. usip_turns 9 s = Some s' \<and> frame_at s' 0 (ack_content 0 5 3) \<and> us_calls s' = us_calls s \<and> us_out s' = us_out s \<and>
     us_ack_sem s' = us_ack_sem s \<and> length (us_list s') = length (us_list s) + 9"
  unfolding Let_def
  by (rule usip_stale_ack_blocks) (simp_all add: usip_boot_def frame_at_def fetch_def ack_content_def frame_content_def short_to_EA_def)

text \<open>The length of the value is not checked: a frame of at most 126 bytes with the right checksum whose length field is above 126 makes the
  receiver write beyond the array of the node.\<close>

theorem usip_long_value_overflows:
  assumes "frame_at s r ([pkg, seq] @ short_to_EA cmd @ short_to_EA tag @ short_to_EA n @ rest)"
    and "\<not> bit seq 7" and "cmd < 2 ^ 14" "tag < 2 ^ 14" "n < 2 ^ 14" and "unat n > USIP_FRM_DATA_MAX_LEN"
  shows "receive_one_frame_to_list zero_frame s = None"
proof -
  let ?C = "short_to_EA cmd" and ?T = "short_to_EA tag" and ?L = "short_to_EA n"
  let ?c = "[pkg, seq] @ ?C @ ?T @ ?L @ rest" and ?p = "unat (fst (us_skb s ! unat r))"
  have "fetch ?p (length ?c + 1) (us_rcvbuf s) = Some (?c @ [crc_of ?c])" using assms(1) unfolding frame_at_def by blast
  then obtain a b where ab: "us_rcvbuf s = a @ (?c @ [crc_of ?c]) @ b" "length a = ?p" using fetch_parts by blast
  have cl: "?c ! 0 = pkg" "?c ! 1 = seq" by simp_all
  have f: "read_fields (?p + 2) node u = None" if "us_rcvbuf u = us_rcvbuf s" "length (fd_tlv_val node) = 126" for node u
  proof -
    let ?b = "rest @ [crc_of ?c] @ b"
    have buf: "us_rcvbuf u = (a @ [pkg, seq]) @ ?C @ (?T @ ?L @ ?b)"
      "us_rcvbuf u = (a @ [pkg, seq] @ ?C) @ ?T @ (?L @ ?b)" "us_rcvbuf u = (a @ [pkg, seq] @ ?C @ ?T) @ ?L @ ?b"
      using ab(1) that(1) by simp_all
    have 1: "EA_to_short (us_rcvbuf u) (?p + 2) = Some (USIP_OK, cmd, length ?C)"
      using EA_read[OF assms(3), of "a @ [pkg, seq]"] unfolding buf(1) by (simp add: ab(2))
    have 2: "EA_to_short (us_rcvbuf u) (?p + 2 + length ?C) = Some (USIP_OK, tag, length ?T)"
      using EA_read[OF assms(4), of "a @ [pkg, seq] @ ?C"] unfolding buf(2) by (simp add: ab(2) add.assoc)
    have 3: "EA_to_short (us_rcvbuf u) (?p + 2 + length ?C + length ?T) = Some (USIP_OK, n, length ?L)"
      using EA_read[OF assms(5), of "a @ [pkg, seq] @ ?C @ ?T"] unfolding buf(3) by (simp add: ab(2) add.assoc)
    have v: "put 0 v (fd_tlv_val node) = None" if "fetch q (unat n) (us_rcvbuf u) = Some v" for q v
      using fetch_length[OF that] \<open>length (fd_tlv_val node) = 126\<close> assms(6) by (simp add: put_def)
    show ?thesis unfolding read_fields_def 1 Option.bind.bind_lunit prod.case 2 3
      by (cases "fetch (?p + 2 + length ?C + length ?T + length ?L) (unat n) (us_rcvbuf u)") (simp_all add: v)
  qed
  show ?thesis unfolding receive_checked[OF assms(1)] Let_def cl if_not_P[OF assms(2)]
    by (subst f) (simp_all add: zero_frame_def)
qed

theorem usip_long_value_overflows_witness:
  "receive_one_frame_to_list zero_frame
     (usip_boot\<lparr>us_rcvbuf := ([0x80, 1] @ short_to_EA 3 @ short_to_EA 1 @ short_to_EA 200 @ []) @
        [crc_of ([0x80, 1] @ short_to_EA 3 @ short_to_EA 1 @ short_to_EA 200 @ [])], us_skb := [(0, 7)]\<rparr>) = None"
  by (rule usip_long_value_overflows[where r = 0 and pkg = "0x80" and seq = 1 and cmd = 3 and tag = 1 and n = 200 and rest = "[]"])
    (simp_all add: usip_boot_def frame_at_def fetch_def short_to_EA_def)

end
