(* ===== verification/Sal.thy ===== *)
theory Sal
  imports Prelude
begin

text \<open>
  The socket abstraction layer, \<^verbatim>\<open>network/tcpip/sal\<close>: the table of socket control blocks of \<^verbatim>\<open>sal.c\<close>, which gives the sockets of the installed
  stack numbers of its own and forwards the calls, and the conversions of addresses of \<^verbatim>\<open>sal_netdb.c\<close>.

  The functions of the stack are a record of optional functions on a state \<open>'p\<close> of their own; what they write through pointers is
  part of their result. The outcomes of \<^verbatim>\<open>osal_malloc\<close> and of the calls of the mutex are lists. A control
  block is only reachable through the table, so the table holds its contents.
\<close>

section \<open>Control blocks\<close>

record 'p tag_tcpip_ops =
  op_socket :: "(int \<Rightarrow> int \<Rightarrow> int \<Rightarrow> 'p \<Rightarrow> int \<times> 'p) option"
  op_bind :: "(int \<Rightarrow> bytes \<Rightarrow> 'p \<Rightarrow> int \<times> 'p) option"
  op_listen :: "(int \<Rightarrow> int \<Rightarrow> 'p \<Rightarrow> int \<times> 'p) option"
  op_accept :: "(int \<Rightarrow> 'p \<Rightarrow> (int \<times> bytes) \<times> 'p) option"
  op_connect :: "(int \<Rightarrow> bytes \<Rightarrow> 'p \<Rightarrow> int \<times> 'p) option"
  op_getsockname :: "(int \<Rightarrow> 'p \<Rightarrow> (int \<times> bytes) \<times> 'p) option"
  op_getpeername :: "(int \<Rightarrow> 'p \<Rightarrow> (int \<times> bytes) \<times> 'p) option"
  op_setsockopt :: "(int \<Rightarrow> int \<Rightarrow> int \<Rightarrow> bytes \<Rightarrow> 'p \<Rightarrow> int \<times> 'p) option"
  op_getsockopt :: "(int \<Rightarrow> int \<Rightarrow> int \<Rightarrow> 'p \<Rightarrow> (int \<times> bytes) \<times> 'p) option"
  op_send :: "(int \<Rightarrow> bytes \<Rightarrow> int \<Rightarrow> 'p \<Rightarrow> int \<times> 'p) option"
  op_sendto :: "(int \<Rightarrow> bytes \<Rightarrow> int \<Rightarrow> bytes \<Rightarrow> 'p \<Rightarrow> int \<times> 'p) option"
  op_recv :: "(int \<Rightarrow> nat \<Rightarrow> int \<Rightarrow> 'p \<Rightarrow> (int \<times> bytes) \<times> 'p) option"
  op_recvfrom :: "(int \<Rightarrow> nat \<Rightarrow> int \<Rightarrow> 'p \<Rightarrow> (int \<times> bytes \<times> bytes) \<times> 'p) option"
  op_shutdown :: "(int \<Rightarrow> int \<Rightarrow> 'p \<Rightarrow> int \<times> 'p) option"
  op_closesocket :: "(int \<Rightarrow> 'p \<Rightarrow> int \<times> 'p) option"
  op_gethostbyname :: "(bytes \<Rightarrow> 'p \<Rightarrow> bytes option \<times> 'p) option"
  op_select :: "(int \<Rightarrow> 'p \<Rightarrow> int \<times> 'p) option"

record 'p tag_sock_cb =
  sc_ops :: "'p tag_tcpip_ops option"
  sc_fd :: int
  sc_sock :: int

text \<open>The domain is \<^verbatim>\<open>NULL\<close> or has the pointer to its operations; \<open>sl_port\<close> is the state of the stack.\<close>

record 'p tag_sal_cb =
  sl_domain :: "'p tag_tcpip_ops option option"
  sl_num :: int
  sl_mutex :: bool
  sl_tab :: "'p tag_sock_cb option list option"
  sl_mallocs :: "bool list"
  sl_locks :: "bool list"
  sl_port :: 'p

abbreviation "CN_LINK_SOCKET_NUM \<equiv> 10 :: nat"

definition sal_malloc :: "'p tag_sal_cb \<Rightarrow> bool \<times> 'p tag_sal_cb" where
  "sal_malloc s = (let (ok, os) = alloc (sl_mallocs s) in (ok, s\<lparr>sl_mallocs := os\<rparr>))"

definition sal_mutex :: "'p tag_sal_cb \<Rightarrow> bool \<times> 'p tag_sal_cb" where
  "sal_mutex s = (let (ok, os) = alloc (sl_locks s) in (ok, s\<lparr>sl_locks := os\<rparr>))"

definition link_tcpip_imp_init_weak :: "'p tag_sal_cb \<Rightarrow> int \<times> 'p tag_sal_cb" where
  "link_tcpip_imp_init_weak s = (-1, s)"

definition link_tcpip_init :: "('p tag_sal_cb \<Rightarrow> int \<times> 'p tag_sal_cb) \<Rightarrow> 'p tag_sal_cb \<Rightarrow> int \<times> 'p tag_sal_cb" where
  "link_tcpip_init imp_init s =
     (if sl_tab s \<noteq> None then (-1, s)
      else let (ok, s) = sal_mutex s in
        if \<not> ok then (-1, s)
        else let (ok, s) = sal_malloc (s\<lparr>sl_mutex := True\<rparr>) in
          if \<not> ok then (-1, s\<lparr>sl_mutex := False\<rparr>)
          else imp_init (s\<lparr>sl_tab := Some (replicate CN_LINK_SOCKET_NUM None), sl_num := int CN_LINK_SOCKET_NUM, sl_domain := None\<rparr>))"

definition link_sal_install :: "'p tag_tcpip_ops option \<Rightarrow> 'p tag_sal_cb \<Rightarrow> int \<times> 'p tag_sal_cb" where
  "link_sal_install domain s = (if sl_domain s = None then (0, s\<lparr>sl_domain := Some domain\<rparr>) else (-1, s))"

text \<open>The first place that is \<^verbatim>\<open>NULL\<close>.\<close>

fun slot_loop :: "'a option list \<Rightarrow> nat \<Rightarrow> nat" where
  "slot_loop [] i = i"
| "slot_loop (None # tab) i = i"
| "slot_loop (Some _ # tab) i = slot_loop tab (i + 1)"

text \<open>The slots that the calls index: without a table there are none, because the number of blocks is 0 then.\<close>

definition sal_slots :: "'p tag_sal_cb \<Rightarrow> 'p tag_sock_cb option list" where
  "sal_slots s = (case sl_tab s of None \<Rightarrow> [] | Some tab \<Rightarrow> tab)"

text \<open>The place of a new block. When the mutex is not taken the block is returned with nothing in it, and both callers read its
  number at once: undefined.\<close>

definition sal_sockcb_malloc :: "'p tag_sal_cb \<Rightarrow> (nat option \<times> 'p tag_sal_cb) option" where
  "sal_sockcb_malloc s =
     (let (ok, s) = sal_malloc s in
      if \<not> ok then Some (None, s)
      else let (locked, s) = sal_mutex s in
        if \<not> locked then None
        else let i = slot_loop (sal_slots s) 0 in
          if int i = sl_num s then Some (None, s)
          else do {
            ops \<leftarrow> sl_domain s;
            tab \<leftarrow> put i [Some \<lparr>sc_ops = ops, sc_fd = int i, sc_sock = -1\<rparr>] (sal_slots s);
            Some (Some i, s\<lparr>sl_tab := Some tab\<rparr>) })"

definition sal_sockcb_free :: "int \<Rightarrow> 'p tag_sal_cb \<Rightarrow> 'p tag_sal_cb option" where
  "sal_sockcb_free sockfd s =
     (if sockfd < 0 \<or> sockfd \<ge> sl_num s then Some s
      else let (locked, s) = sal_mutex s in
        if locked then do { tab \<leftarrow> put (nat sockfd) [None] (sal_slots s); Some (s\<lparr>sl_tab := Some tab\<rparr>) } else Some s)"

definition sal_sockcb_getcb :: "int \<Rightarrow> 'p tag_sal_cb \<Rightarrow> 'p tag_sock_cb option option" where
  "sal_sockcb_getcb sockfd s = (if sockfd \<ge> 0 \<and> sockfd < sl_num s then byte_at (sal_slots s) (nat sockfd) else Some None)"

definition sal_sockcb_getfd :: "'p tag_sock_cb option \<Rightarrow> int" where
  "sal_sockcb_getfd sockcb = (case sockcb of None \<Rightarrow> -1 | Some cb \<Rightarrow> sc_fd cb)"

section \<open>Calls\<close>

text \<open>The number of the stack's socket goes into the block at \<open>i\<close>, or the block is freed when it is \<open>-1\<close>.\<close>

definition sal_attach :: "nat \<Rightarrow> int \<Rightarrow> 'p tag_sal_cb \<Rightarrow> (int \<times> 'p tag_sal_cb) option" where
  "sal_attach i sock s = do {
     e \<leftarrow> byte_at (sal_slots s) i;
     cb \<leftarrow> e;
     if sock \<noteq> -1
     then do {
       tab \<leftarrow> put i [Some (cb\<lparr>sc_sock := sock\<rparr>)] (sal_slots s);
       Some (sal_sockcb_getfd (Some cb), s\<lparr>sl_tab := Some tab\<rparr>) }
     else do { s \<leftarrow> sal_sockcb_free (sc_fd cb) s; Some (-1, s) } }"

definition sal_socket :: "int \<Rightarrow> int \<Rightarrow> int \<Rightarrow> 'p tag_sal_cb \<Rightarrow> (int \<times> 'p tag_sal_cb) option" where
  "sal_socket domain type protocol s = do {
     (r, s) \<leftarrow> sal_sockcb_malloc s;
     case r of
       None \<Rightarrow> Some (-1, s)
     | Some i \<Rightarrow>
         (case Option.bind (Option.bind (sl_domain s) (\<lambda>ops. ops)) op_socket of
            None \<Rightarrow> sal_attach i (-1) s
          | Some f \<Rightarrow> let (sock, p) = f domain type protocol (sl_port s) in sal_attach i sock (s\<lparr>sl_port := p\<rparr>)) }"

text \<open>A call that is forwarded: \<open>sel\<close> is the function of the stack with its other arguments, \<open>dflt\<close> the result when there is no block or function.\<close>

definition sal_call ::
  "int \<Rightarrow> ('p tag_tcpip_ops \<Rightarrow> (int \<Rightarrow> 'p \<Rightarrow> 'r \<times> 'p) option) \<Rightarrow> 'r \<Rightarrow> 'p tag_sal_cb \<Rightarrow> ('r \<times> 'p tag_sal_cb) option" where
  "sal_call sockfd sel dflt s = do {
     e \<leftarrow> sal_sockcb_getcb sockfd s;
     case e of
       None \<Rightarrow> Some (dflt, s)
     | Some cb \<Rightarrow>
         (case Option.bind (sc_ops cb) sel of
            None \<Rightarrow> Some (dflt, s)
          | Some f \<Rightarrow> let (r, p) = f (sc_sock cb) (sl_port s) in Some (r, s\<lparr>sl_port := p\<rparr>)) }"

definition sal_bind :: "int \<Rightarrow> bytes \<Rightarrow> 'p tag_sal_cb \<Rightarrow> (int \<times> 'p tag_sal_cb) option" where
  "sal_bind sockfd addr = sal_call sockfd (\<lambda>ops. map_option (\<lambda>f sock. f sock addr) (op_bind ops)) (-1)"

definition sal_listen :: "int \<Rightarrow> int \<Rightarrow> 'p tag_sal_cb \<Rightarrow> (int \<times> 'p tag_sal_cb) option" where
  "sal_listen sockfd backlog = sal_call sockfd (\<lambda>ops. map_option (\<lambda>f sock. f sock backlog) (op_listen ops)) (-1)"

text \<open>Without a function the address is left as it was, here empty.\<close>

definition sal_accept :: "int \<Rightarrow> 'p tag_sal_cb \<Rightarrow> ((int \<times> bytes) \<times> 'p tag_sal_cb) option" where
  "sal_accept sockfd s = do {
     e \<leftarrow> sal_sockcb_getcb sockfd s;
     case e of
       None \<Rightarrow> Some ((-1, []), s)
     | Some server \<Rightarrow> do {
         (r, s) \<leftarrow> sal_sockcb_malloc s;
         case r of
           None \<Rightarrow> Some ((-1, []), s)
         | Some i \<Rightarrow>
             (case Option.bind (sc_ops server) op_accept of
                None \<Rightarrow> do { (fd, s) \<leftarrow> sal_attach i (-1) s; Some ((fd, []), s) }
              | Some f \<Rightarrow> let ((sock, addr), p) = f (sc_sock server) (sl_port s)
                  in do { (fd, s) \<leftarrow> sal_attach i sock (s\<lparr>sl_port := p\<rparr>); Some ((fd, addr), s) }) } }"

definition sal_connect :: "int \<Rightarrow> bytes \<Rightarrow> 'p tag_sal_cb \<Rightarrow> (int \<times> 'p tag_sal_cb) option" where
  "sal_connect sockfd addr = sal_call sockfd (\<lambda>ops. map_option (\<lambda>f sock. f sock addr) (op_connect ops)) (-1)"

definition sal_getsockname :: "int \<Rightarrow> 'p tag_sal_cb \<Rightarrow> ((int \<times> bytes) \<times> 'p tag_sal_cb) option" where
  "sal_getsockname sockfd = sal_call sockfd op_getsockname (-1, [])"

definition sal_getpeername :: "int \<Rightarrow> 'p tag_sal_cb \<Rightarrow> ((int \<times> bytes) \<times> 'p tag_sal_cb) option" where
  "sal_getpeername sockfd = sal_call sockfd op_getpeername (-1, [])"

definition sal_getsockopt :: "int \<Rightarrow> int \<Rightarrow> int \<Rightarrow> 'p tag_sal_cb \<Rightarrow> ((int \<times> bytes) \<times> 'p tag_sal_cb) option" where
  "sal_getsockopt sockfd level optname =
     sal_call sockfd (\<lambda>ops. map_option (\<lambda>f sock. f sock level optname) (op_getsockopt ops)) (-1, [])"

definition sal_setsockopt :: "int \<Rightarrow> int \<Rightarrow> int \<Rightarrow> bytes \<Rightarrow> 'p tag_sal_cb \<Rightarrow> (int \<times> 'p tag_sal_cb) option" where
  "sal_setsockopt sockfd level optname optval =
     sal_call sockfd (\<lambda>ops. map_option (\<lambda>f sock. f sock level optname optval) (op_setsockopt ops)) (-1)"

definition sal_recv :: "int \<Rightarrow> nat \<Rightarrow> int \<Rightarrow> 'p tag_sal_cb \<Rightarrow> ((int \<times> bytes) \<times> 'p tag_sal_cb) option" where
  "sal_recv sockfd len flags = sal_call sockfd (\<lambda>ops. map_option (\<lambda>f sock. f sock len flags) (op_recv ops)) (-1, [])"

definition sal_recvfrom :: "int \<Rightarrow> nat \<Rightarrow> int \<Rightarrow> 'p tag_sal_cb \<Rightarrow> ((int \<times> bytes \<times> bytes) \<times> 'p tag_sal_cb) option" where
  "sal_recvfrom sockfd len flags = sal_call sockfd (\<lambda>ops. map_option (\<lambda>f sock. f sock len flags) (op_recvfrom ops)) (-1, [], [])"

definition sal_send :: "int \<Rightarrow> bytes \<Rightarrow> int \<Rightarrow> 'p tag_sal_cb \<Rightarrow> (int \<times> 'p tag_sal_cb) option" where
  "sal_send sockfd buf flags = sal_call sockfd (\<lambda>ops. map_option (\<lambda>f sock. f sock buf flags) (op_send ops)) (-1)"

definition sal_sendto :: "int \<Rightarrow> bytes \<Rightarrow> int \<Rightarrow> bytes \<Rightarrow> 'p tag_sal_cb \<Rightarrow> (int \<times> 'p tag_sal_cb) option" where
  "sal_sendto sockfd buf flags addr = sal_call sockfd (\<lambda>ops. map_option (\<lambda>f sock. f sock buf flags addr) (op_sendto ops)) (-1)"

definition sal_shutdown :: "int \<Rightarrow> int \<Rightarrow> 'p tag_sal_cb \<Rightarrow> (int \<times> 'p tag_sal_cb) option" where
  "sal_shutdown sockfd how = sal_call sockfd (\<lambda>ops. map_option (\<lambda>f sock. f sock how) (op_shutdown ops)) (-1)"

definition sal_closesocket :: "int \<Rightarrow> 'p tag_sal_cb \<Rightarrow> (int \<times> 'p tag_sal_cb) option" where
  "sal_closesocket sockfd s = do {
     e \<leftarrow> sal_sockcb_getcb sockfd s;
     case e of
       None \<Rightarrow> Some (-1, s)
     | Some cb \<Rightarrow> do {
         (ret, s) \<leftarrow> sal_call sockfd op_closesocket (-1) s;
         s \<leftarrow> sal_sockcb_free (sc_fd cb) s;
         Some (ret, s) } }"

definition sal_gethostbyname :: "bytes \<Rightarrow> 'p tag_sal_cb \<Rightarrow> bytes option \<times> 'p tag_sal_cb" where
  "sal_gethostbyname name s =
     (case Option.bind (Option.bind (sl_domain s) (\<lambda>ops. ops)) op_gethostbyname of
        None \<Rightarrow> (None, s)
      | Some f \<Rightarrow> let (r, p) = f name (sl_port s) in (r, s\<lparr>sl_port := p\<rparr>))"

definition sal_select :: "int \<Rightarrow> 'p tag_sal_cb \<Rightarrow> (int \<times> 'p tag_sal_cb) option" where
  "sal_select nfds = sal_call (nfds - 1) (\<lambda>ops. map_option (\<lambda>f sock. f (sock + 1)) (op_select ops)) (-1)"

section \<open>Addresses\<close>

abbreviation "AF_INET \<equiv> 2 :: int"

text \<open>\<^verbatim>\<open>%d\<close> of \<^verbatim>\<open>sscanf\<close>: white space, a sign, digits. \<open>Some None\<close> is a failure to match; a value that is no \<^verbatim>\<open>int\<close> is undefined.\<close>

definition scan_int :: "bytes \<Rightarrow> (int \<times> bytes) option option" where
  "scan_int cs =
     (let (neg, cs) = scan_sign (dropWhile is_space cs); ds = takeWhile is_digit cs; rest = dropWhile is_digit cs in
      if ds = [] then Some None
      else map_option (\<lambda>v. Some (v, rest)) (c_int (if neg then - int (dec_val ds 0) else int (dec_val ds 0))))"

text \<open>\<^verbatim>\<open>sscanf\<close> with \<open>n\<close> numbers that are separated by dots: those that match.\<close>

fun scan_dots :: "nat \<Rightarrow> bytes \<Rightarrow> int list option" where
  "scan_dots 0 cs = Some []"
| "scan_dots (Suc n) cs = do {
     r \<leftarrow> scan_int cs;
     case r of
       None \<Rightarrow> Some []
     | Some (v, rest) \<Rightarrow>
         if n \<noteq> 0 \<and> rest \<noteq> [] \<and> hd rest = 46 then map_option ((#) v) (scan_dots n (tl rest)) else Some [v] }"

text \<open>An address is its four bytes in memory.\<close>

definition inet_addr :: "bytes \<Rightarrow> bytes option" where
  "inet_addr addr = do {
     tmp \<leftarrow> scan_dots 4 addr;
     Some (if length tmp = 4 then map word_of_int tmp else replicate 4 0xFF) }"

definition inet_aton :: "bytes \<Rightarrow> bytes \<Rightarrow> (int \<times> bytes) option" where
  "inet_aton str addr = do {
     tmp \<leftarrow> scan_dots 4 str;
     Some (if length tmp = 4 then (1, map word_of_int tmp) else (0, addr)) }"

abbreviation "cn_inet_addrlen_max \<equiv> 16 :: nat"

text \<open>The static buffer with the text and its terminator.\<close>

definition inet_ntoa :: "bytes \<Rightarrow> bytes option" where
  "inet_ntoa ip = do {
     let tmp = map (\<lambda>b. dec_str (unat b)) ip;
     put 0 (tmp ! 0 @ [46] @ tmp ! 1 @ [46] @ tmp ! 2 @ [46] @ tmp ! 3 @ [0]) (replicate cn_inet_addrlen_max 0) }"

text \<open>\<open>None\<close> for \<^verbatim>\<open>NULL\<close>, also as the result.\<close>

definition inet_ntop :: "int \<Rightarrow> bytes option \<Rightarrow> bytes option \<Rightarrow> nat \<Rightarrow> bytes option option" where
  "inet_ntop af src dst cnt =
     (case (src, dst) of
        (Some src, Some dst) \<Rightarrow>
          if af = AF_INET
          then do {
            addr \<leftarrow> fetch 0 4 src;
            buf \<leftarrow> inet_ntoa addr;
            str \<leftarrow> c_str buf;
            if cnt > length str + 1 then do { text \<leftarrow> fetch 0 (length str + 1) buf; dst \<leftarrow> put 0 text dst; Some (Some dst) } else Some None }
          else Some None
      | _ \<Rightarrow> Some None)"

definition inet_pton :: "int \<Rightarrow> bytes option \<Rightarrow> bytes option \<Rightarrow> (int \<times> bytes option) option" where
  "inet_pton af src dst =
     (case (src, dst) of
        (Some src, Some dst) \<Rightarrow>
          if af = AF_INET
          then do {
            (ok, addr) \<leftarrow> inet_aton src [0, 0, 0, 0];
            if ok \<noteq> 0 then do { dst \<leftarrow> put 0 addr dst; Some (1, Some dst) } else Some (-1, Some dst) }
          else Some (-1, Some dst)
      | _ \<Rightarrow> Some (0, dst))"

section \<open>What the table promises\<close>

text \<open>Every block is at the place of its number and has the operations of the installed stack.\<close>

definition sal_ok :: "'p tag_sal_cb \<Rightarrow> bool" where
  "sal_ok s \<longleftrightarrow> sl_num s = int (length (sal_slots s)) \<and>
     (\<forall>i < length (sal_slots s). \<forall>cb. sal_slots s ! i = Some cb \<longrightarrow> sc_fd cb = int i \<and> sl_domain s = Some (sc_ops cb))"

text \<open>The specification: a map from the numbers to the sockets of the stack, beside the state of the stack.\<close>

type_synonym 'p sal_spec = "(nat \<Rightarrow> int option) \<times> 'p"

definition sal_abs :: "'p tag_sal_cb \<Rightarrow> 'p sal_spec" where
  "sal_abs s = (\<lambda>i. if i < length (sal_slots s) then map_option sc_sock (sal_slots s ! i) else None, sl_port s)"

definition spec_look :: "int \<Rightarrow> 'p sal_spec \<Rightarrow> int option" where
  "spec_look fd m = (if fd < 0 then None else fst m (nat fd))"

definition spec_call :: "int \<Rightarrow> (int \<Rightarrow> 'p \<Rightarrow> 'r \<times> 'p) option \<Rightarrow> 'r \<Rightarrow> 'p sal_spec \<Rightarrow> 'r \<times> 'p sal_spec" where
  "spec_call fd sel dflt m =
     (case (spec_look fd m, sel) of (Some sock, Some f) \<Rightarrow> let (r, p) = f sock (snd m) in (r, fst m, p) | _ \<Rightarrow> (dflt, m))"

text \<open>A new number is the least that is free, below \<open>n\<close>.\<close>

definition spec_free :: "nat \<Rightarrow> 'p sal_spec \<Rightarrow> nat option" where
  "spec_free n m = find (\<lambda>i. fst m i = None) [0..<n]"

definition spec_bind :: "nat \<Rightarrow> int \<Rightarrow> 'p sal_spec \<Rightarrow> int \<times> 'p sal_spec" where
  "spec_bind i sock m = (if sock = -1 then (-1, m) else (int i, (fst m)(i \<mapsto> sock), snd m))"

datatype sal_op =
  SSocket int int int | SAccept int | SBind int bytes | SListen int int | SConnect int bytes | SSend int bytes int | SRecv int nat int
| SShutdown int int | SClose int

definition res0 :: "int \<times> 'a \<Rightarrow> (int \<times> bytes) \<times> 'a" where
  "res0 x = ((fst x, []), snd x)"

fun spec_step :: "nat \<Rightarrow> 'p tag_tcpip_ops \<Rightarrow> sal_op \<Rightarrow> 'p sal_spec \<Rightarrow> (int \<times> bytes) \<times> 'p sal_spec" where
  "spec_step n ops (SSocket domain type protocol) m =
     (case spec_free n m of
        None \<Rightarrow> ((-1, []), m)
      | Some i \<Rightarrow>
          (case op_socket ops of
             None \<Rightarrow> ((-1, []), m)
           | Some f \<Rightarrow> let (sock, p) = f domain type protocol (snd m) in res0 (spec_bind i sock (fst m, p))))"
| "spec_step n ops (SAccept fd) m =
     (case (spec_look fd m, spec_free n m) of
        (Some server, Some i) \<Rightarrow>
          (case op_accept ops of
             None \<Rightarrow> ((-1, []), m)
           | Some f \<Rightarrow> let ((sock, addr), p) = f server (snd m); (c, m) = spec_bind i sock (fst m, p) in ((c, addr), m))
      | _ \<Rightarrow> ((-1, []), m))"
| "spec_step n ops (SBind fd addr) m = res0 (spec_call fd (map_option (\<lambda>f sock. f sock addr) (op_bind ops)) (-1) m)"
| "spec_step n ops (SListen fd backlog) m = res0 (spec_call fd (map_option (\<lambda>f sock. f sock backlog) (op_listen ops)) (-1) m)"
| "spec_step n ops (SConnect fd addr) m = res0 (spec_call fd (map_option (\<lambda>f sock. f sock addr) (op_connect ops)) (-1) m)"
| "spec_step n ops (SSend fd buf flags) m = res0 (spec_call fd (map_option (\<lambda>f sock. f sock buf flags) (op_send ops)) (-1) m)"
| "spec_step n ops (SRecv fd len flags) m = spec_call fd (map_option (\<lambda>f sock. f sock len flags) (op_recv ops)) (-1, []) m"
| "spec_step n ops (SShutdown fd how) m = res0 (spec_call fd (map_option (\<lambda>f sock. f sock how) (op_shutdown ops)) (-1) m)"
| "spec_step n ops (SClose fd) m =
     (case spec_look fd m of
        None \<Rightarrow> ((-1, []), m)
      | Some _ \<Rightarrow> let (r, m) = spec_call fd (op_closesocket ops) (-1) m in ((r, []), (fst m)(nat fd := None), snd m))"

fun spec_run :: "nat \<Rightarrow> 'p tag_tcpip_ops \<Rightarrow> sal_op list \<Rightarrow> 'p sal_spec \<Rightarrow> (int \<times> bytes) list \<times> 'p sal_spec" where
  "spec_run n ops [] m = ([], m)"
| "spec_run n ops (c # cs) m = (let (r, m) = spec_step n ops c m; (rs, m) = spec_run n ops cs m in (r # rs, m))"

fun sal_step :: "sal_op \<Rightarrow> 'p tag_sal_cb \<Rightarrow> ((int \<times> bytes) \<times> 'p tag_sal_cb) option" where
  "sal_step (SSocket domain type protocol) s = map_option res0 (sal_socket domain type protocol s)"
| "sal_step (SAccept fd) s = sal_accept fd s"
| "sal_step (SBind fd addr) s = map_option res0 (sal_bind fd addr s)"
| "sal_step (SListen fd backlog) s = map_option res0 (sal_listen fd backlog s)"
| "sal_step (SConnect fd addr) s = map_option res0 (sal_connect fd addr s)"
| "sal_step (SSend fd buf flags) s = map_option res0 (sal_send fd buf flags s)"
| "sal_step (SRecv fd len flags) s = sal_recv fd len flags s"
| "sal_step (SShutdown fd how) s = map_option res0 (sal_shutdown fd how s)"
| "sal_step (SClose fd) s = map_option res0 (sal_closesocket fd s)"

fun sal_run :: "sal_op list \<Rightarrow> 'p tag_sal_cb \<Rightarrow> ((int \<times> bytes) list \<times> 'p tag_sal_cb) option" where
  "sal_run [] s = Some ([], s)"
| "sal_run (c # cs) s = do { (r, s) \<leftarrow> sal_step c s; (rs, s) \<leftarrow> sal_run cs s; Some (r # rs, s) }"

text \<open>A state of the layer after its start, with the stack installed and nothing failing: \<open>n\<close> places.\<close>

definition sal_up :: "nat \<Rightarrow> 'p tag_tcpip_ops \<Rightarrow> 'p tag_sal_cb \<Rightarrow> bool" where
  "sal_up n ops s \<longleftrightarrow> sal_ok s \<and> length (sal_slots s) = n \<and> sl_domain s = Some (Some ops) \<and> sl_mallocs s = [] \<and> sl_locks s = []"

lemma slot_loop_take: "slot_loop tab k = k + length (takeWhile (\<lambda>e. e \<noteq> None) tab)"
  by (induction tab k rule: slot_loop.induct) simp_all

lemma find_slot:
  "find (\<lambda>i. tab ! i = None) [0..<length tab] = (let i = slot_loop tab 0 in if i = length tab then None else Some i)"
proof -
  let ?i = "slot_loop tab 0"
  have i: "?i = length (takeWhile (\<lambda>e. e \<noteq> None) tab)" by (simp add: slot_loop_take)
  have le: "?i \<le> length tab" unfolding i by (rule length_takeWhile_le)
  have before: "tab ! j \<noteq> None" if "j < ?i" for j
    using that nth_mem[of j "takeWhile (\<lambda>e. e \<noteq> None) tab"] set_takeWhileD[of "tab ! j" "\<lambda>e. e \<noteq> None" tab]
    unfolding i by (simp add: takeWhile_nth)
  show ?thesis
  proof (cases "?i = length tab")
    case True
    then have "\<forall>j < length tab. tab ! j \<noteq> None" using before by simp
    then show ?thesis using True by (simp add: find_None_iff)
  next
    case False
    then have "tab ! ?i = None" using le nth_length_takeWhile[of "\<lambda>e. e \<noteq> None" tab] unfolding i by simp
    then show ?thesis using False le before
      by (auto simp: find_Some_iff Let_def intro!: exI[of _ ?i])
  qed
qed

lemma abs_free: "length (sal_slots s) = n \<Longrightarrow>
    spec_free n (sal_abs s) = (let i = slot_loop (sal_slots s) 0 in if i = n then None else Some i)"
proof -
  assume n: "length (sal_slots s) = n"
  have "spec_free n (sal_abs s) = find (\<lambda>i. sal_slots s ! i = None) [0..<n]"
    unfolding spec_free_def by (rule find_cong) (use n in \<open>auto simp: sal_abs_def\<close>)
  then show ?thesis using find_slot[of "sal_slots s"] n by simp
qed

lemma slots_some: "i < length (sal_slots s) \<Longrightarrow> \<exists>tab. sl_tab s = Some tab \<and> sal_slots s = tab"
  by (cases "sl_tab s") (simp_all add: sal_slots_def)

text \<open>The table changed at one place.\<close>

definition set_slot :: "nat \<Rightarrow> 'p tag_sock_cb option \<Rightarrow> 'p tag_sal_cb \<Rightarrow> 'p tag_sal_cb" where
  "set_slot i e s = s\<lparr>sl_tab := Some ((sal_slots s)[i := e])\<rparr>"

lemma set_slot_simps [simp]:
  "sal_slots (set_slot i e s) = (sal_slots s)[i := e]" "sl_port (set_slot i e s) = sl_port s" "sl_num (set_slot i e s) = sl_num s"
  "sl_domain (set_slot i e s) = sl_domain s" "sl_mallocs (set_slot i e s) = sl_mallocs s" "sl_locks (set_slot i e s) = sl_locks s"
  "sal_slots (s\<lparr>sl_port := p\<rparr>) = sal_slots s" "sal_slots (s\<lparr>sl_locks := l\<rparr>) = sal_slots s" "sal_slots (s\<lparr>sl_mallocs := l\<rparr>) = sal_slots s"
  by (simp_all add: set_slot_def sal_slots_def)

lemma put_one: "i < length tab \<Longrightarrow> put i [e] tab = Some (tab[i := e])"
  by (simp add: put_def upd_conv_take_nth_drop)

lemma set_slot_put: "i < length (sal_slots s) \<Longrightarrow> put i [e] (sal_slots s) = Some ((sal_slots s)[i := e])"
  by (rule put_one)

lemma up_set:
  assumes "sal_up n ops s" and "\<And>cb. e = Some cb \<Longrightarrow> sc_fd cb = int i \<and> sc_ops cb = Some ops"
  shows "sal_up n ops (set_slot i e s)"
proof -
  have "sc_fd cb = int j \<and> sc_ops cb = Some ops" if "j < n" "(sal_slots s)[i := e] ! j = Some cb" for j cb
    using that assms by (cases "j = i") (auto simp: sal_up_def sal_ok_def)
  then show ?thesis using assms(1) by (auto simp: sal_up_def sal_ok_def)
qed

lemma up_port: "sal_up n ops s \<Longrightarrow> sal_up n ops (s\<lparr>sl_port := p\<rparr>)"
  by (auto simp: sal_up_def sal_ok_def)

lemma abs_set: "i < length (sal_slots s) \<Longrightarrow> sal_abs (set_slot i e s) = ((fst (sal_abs s))(i := map_option sc_sock e), sl_port s)"
  by (auto simp: sal_abs_def fun_eq_iff)

lemma abs_port: "sal_abs (s\<lparr>sl_port := p\<rparr>) = (fst (sal_abs s), p)"
  by (simp add: sal_abs_def cong: if_cong)

lemma up_get:
  assumes "sal_up n ops s"
  shows "\<exists>e. sal_sockcb_getcb fd s = Some e \<and> spec_look fd (sal_abs s) = map_option sc_sock e \<and>
    (\<forall>cb. e = Some cb \<longrightarrow> 0 \<le> fd \<and> nat fd < n \<and> sc_fd cb = fd \<and> sc_ops cb = Some ops \<and> sal_slots s ! nat fd = Some cb)"
proof (cases "0 \<le> fd \<and> nat fd < n")
  case True
  then show ?thesis using assms
    by (auto simp: sal_up_def sal_ok_def sal_sockcb_getcb_def spec_look_def sal_abs_def byte_at_def)
next
  case False
  then show ?thesis using assms
    by (auto simp: sal_up_def sal_ok_def sal_sockcb_getcb_def spec_look_def sal_abs_def byte_at_def)
qed

lemma up_call:
  assumes "sal_up n ops s"
  shows "\<exists>s'. sal_call fd sel dflt s = Some (fst (spec_call fd (sel ops) dflt (sal_abs s)), s') \<and>
    sal_abs s' = snd (spec_call fd (sel ops) dflt (sal_abs s)) \<and> sal_up n ops s' \<and> sal_slots s' = sal_slots s"
proof -
  obtain e where e: "sal_sockcb_getcb fd s = Some e" "spec_look fd (sal_abs s) = map_option sc_sock e"
      "\<And>cb. e = Some cb \<Longrightarrow> sc_ops cb = Some ops"
    using up_get[OF assms, of fd] by blast
  have p: "snd (sal_abs s) = sl_port s" by (simp add: sal_abs_def)
  show ?thesis
    using e up_port[OF assms] assms
    by (cases e; cases "sel ops") (auto simp: sal_call_def spec_call_def case_prod_beta abs_port p Let_def)
qed

lemma up_malloc:
  assumes "sal_up n ops s"
  shows "sal_sockcb_malloc s =
    (case spec_free n (sal_abs s) of None \<Rightarrow> Some (None, s)
     | Some i \<Rightarrow> Some (Some i, set_slot i (Some \<lparr>sc_ops = Some ops, sc_fd = int i, sc_sock = -1\<rparr>) s))"
    and "spec_free n (sal_abs s) = Some i \<Longrightarrow> i < n \<and> sal_slots s ! i = None"
proof -
  have n: "length (sal_slots s) = n" "sl_num s = int n" "sl_domain s = Some (Some ops)" "sl_mallocs s = []" "sl_locks s = []"
    using assms by (simp_all add: sal_up_def sal_ok_def)
  have u: "s\<lparr>sl_mallocs := [], sl_locks := []\<rparr> = s" using n by simp
  have le: "slot_loop (sal_slots s) 0 \<le> n" using length_takeWhile_le[of _ "sal_slots s"] n by (simp add: slot_loop_take)
  have m: "sal_malloc s = (True, s)" "sal_mutex s = (True, s)" using n by (simp_all add: sal_malloc_def sal_mutex_def)
  show "sal_sockcb_malloc s =
    (case spec_free n (sal_abs s) of None \<Rightarrow> Some (None, s)
     | Some i \<Rightarrow> Some (Some i, set_slot i (Some \<lparr>sc_ops = Some ops, sc_fd = int i, sc_sock = -1\<rparr>) s))"
    unfolding sal_sockcb_malloc_def Let_def m prod.case abs_free[OF n(1), unfolded Let_def]
    using n le by (auto simp: set_slot_put set_slot_def)
  show "spec_free n (sal_abs s) = Some i \<Longrightarrow> i < n \<and> sal_slots s ! i = None"
    unfolding spec_free_def using n(1) by (auto simp: find_Some_iff sal_abs_def)
qed

lemma up_free:
  assumes "sal_up n ops s" and "i < n"
  shows "sal_sockcb_free (int i) s = Some (set_slot i None s)"
proof -
  have n: "length (sal_slots s) = n" "sl_num s = int n" "sl_locks s = []" using assms by (simp_all add: sal_up_def sal_ok_def)
  have m: "sal_mutex s = (True, s)" using n by (simp add: sal_mutex_def)
  show ?thesis using n assms(2) unfolding sal_sockcb_free_def m by (simp add: set_slot_put set_slot_def)
qed

lemma up_attach:
  assumes "sal_up n ops s" and "i < n" and "sal_slots s ! i = Some cb" and "fst (sal_abs s) = (fst m)(i \<mapsto> x)" and "fst m i = None" "sl_port s = snd m"
  shows "\<exists>s'. sal_attach i sock s = Some (fst (spec_bind i sock m), s') \<and> sal_abs s' = snd (spec_bind i sock m) \<and> sal_up n ops s'"
proof -
  have n: "i < length (sal_slots s)" "sc_fd cb = int i" "sc_ops cb = Some ops" using assms(1-3) by (auto simp: sal_up_def sal_ok_def)
  have e: "byte_at (sal_slots s) i = Some (Some cb)" using n(1) assms(3) by (simp add: byte_at_def)
  show ?thesis
  proof (cases "sock = -1")
    case True
    have "sal_attach i sock s = Some (-1, set_slot i None s)"
      using True e up_free[OF assms(1,2)] n(2) by (simp add: sal_attach_def)
    moreover have "sal_abs (set_slot i None s) = m"
      using abs_set[OF n(1), of None] assms(4,5,6) by (auto simp: fun_eq_iff prod_eq_iff)
    ultimately show ?thesis using True up_set[OF assms(1), of None i] by (simp add: spec_bind_def)
  next
    case False
    let ?e = "Some (cb\<lparr>sc_sock := sock\<rparr>)"
    have "sal_attach i sock s = Some (int i, set_slot i ?e s)"
      using False e n set_slot_put[OF n(1)] by (simp add: sal_attach_def sal_sockcb_getfd_def set_slot_def)
    moreover have "sal_abs (set_slot i ?e s) = ((fst m)(i \<mapsto> sock), snd m)"
      using abs_set[OF n(1), of ?e] assms(4,6) by (auto simp: fun_eq_iff)
    moreover have "sal_up n ops (set_slot i ?e s)" using n(2,3) by (intro up_set[OF assms(1)]) auto
    ultimately show ?thesis using False by (simp add: spec_bind_def)
  qed
qed

text \<open>A new block that is then filled or freed is the new number of the specification.\<close>

lemma up_new:
  assumes "sal_up n ops s" and "spec_free n (sal_abs s) = Some i"
  shows "\<exists>s'. sal_attach i sock ((set_slot i (Some \<lparr>sc_ops = Some ops, sc_fd = int i, sc_sock = -1\<rparr>) s)\<lparr>sl_port := p\<rparr>) =
      Some (fst (spec_bind i sock (fst (sal_abs s), p)), s') \<and>
    sal_abs s' = snd (spec_bind i sock (fst (sal_abs s), p)) \<and> sal_up n ops s'"
proof -
  let ?e = "Some \<lparr>sc_ops = Some ops, sc_fd = int i, sc_sock = -1\<rparr>"
  let ?s = "(set_slot i ?e s)\<lparr>sl_port := p\<rparr>"
  have i: "i < n" "sal_slots s ! i = None" "i < length (sal_slots s)"
    using up_malloc(2)[OF assms] assms(1) by (simp_all add: sal_up_def)
  have "sal_up n ops ?s" by (rule up_port, rule up_set[OF assms(1)]) auto
  moreover have "sal_slots ?s ! i = ?e" using i by simp
  moreover have "fst (sal_abs ?s) = (fst (sal_abs s))(i \<mapsto> -1)" using abs_set[OF i(3), of ?e] by (simp add: abs_port)
  moreover have "fst (sal_abs s) i = None" using i by (simp add: sal_abs_def)
  ultimately show ?thesis using up_attach[of n ops ?s i _ "(fst (sal_abs s), p)" "-1" sock] i(1) by simp
qed

lemma up_forward:
  assumes "sal_up n ops s"
  shows "\<exists>s'. map_option res0 (sal_call fd sel (-1) s) = Some (fst (res0 (spec_call fd (sel ops) (-1) (sal_abs s))), s') \<and>
    sal_abs s' = snd (res0 (spec_call fd (sel ops) (-1) (sal_abs s))) \<and> sal_up n ops s'"
  using up_call[OF assms, of fd sel "-1"] by (auto simp: res0_def)

lemma up_step:
  assumes "sal_up n ops s"
  shows "\<exists>s'. sal_step c s = Some (fst (spec_step n ops c (sal_abs s)), s') \<and> sal_abs s' = snd (spec_step n ops c (sal_abs s)) \<and> sal_up n ops s'"
proof (cases c)
  case (SSocket domain type protocol)
  show ?thesis
  proof (cases "spec_free n (sal_abs s)")
    case None
    then show ?thesis using SSocket assms by (simp add: sal_socket_def up_malloc(1)[OF assms] res0_def)
  next
    case (Some i)
    let ?s = "set_slot i (Some \<lparr>sc_ops = Some ops, sc_fd = int i, sc_sock = -1\<rparr>) s"
    have d: "sl_domain ?s = Some (Some ops)" "sl_port ?s = snd (sal_abs s)" using assms by (simp_all add: sal_up_def sal_abs_def)
    have m: "sal_sockcb_malloc s = Some (Some i, ?s)" by (simp add: up_malloc(1)[OF assms] Some)
    show ?thesis
    proof (cases "op_socket ops")
      case None
      have "?s\<lparr>sl_port := snd (sal_abs s)\<rparr> = ?s" using d(2) by simp
      then show ?thesis using up_new[OF assms Some, of "-1" "snd (sal_abs s)"] m d None SSocket Some
        by (auto simp: sal_socket_def spec_bind_def res0_def)
    next
      case f: (Some f)
      obtain sock p where r: "f domain type protocol (snd (sal_abs s)) = (sock, p)" by fastforce
      then show ?thesis using up_new[OF assms Some, of sock p] m d f SSocket Some
        by (auto simp: sal_socket_def res0_def)
    qed
  qed
next
  case (SAccept fd)
  obtain e where e: "sal_sockcb_getcb fd s = Some e" "spec_look fd (sal_abs s) = map_option sc_sock e"
      "\<And>cb. e = Some cb \<Longrightarrow> sc_ops cb = Some ops"
    using up_get[OF assms, of fd] by blast
  show ?thesis
  proof (cases e)
    case None
    then show ?thesis using e SAccept assms by (simp add: sal_accept_def)
  next
    case server: (Some server)
    show ?thesis
    proof (cases "spec_free n (sal_abs s)")
      case None
      then show ?thesis using e server SAccept assms by (simp add: sal_accept_def up_malloc(1)[OF assms])
    next
      case (Some i)
      let ?s = "set_slot i (Some \<lparr>sc_ops = Some ops, sc_fd = int i, sc_sock = -1\<rparr>) s"
      have d: "sl_port ?s = snd (sal_abs s)" "sc_ops server = Some ops" using e(3) server by (simp_all add: sal_abs_def)
      have m: "sal_sockcb_malloc s = Some (Some i, ?s)" by (simp add: up_malloc(1)[OF assms] Some)
      show ?thesis
      proof (cases "op_accept ops")
        case None
        have "?s\<lparr>sl_port := snd (sal_abs s)\<rparr> = ?s" using d(1) by simp
        then show ?thesis using up_new[OF assms Some, of "-1" "snd (sal_abs s)"] m d None SAccept Some e server
          by (auto simp: sal_accept_def spec_bind_def)
      next
        case f: (Some f)
        obtain sock a p where r: "f (sc_sock server) (snd (sal_abs s)) = ((sock, a), p)" by (metis prod.exhaust)
        then show ?thesis using up_new[OF assms Some, of sock p] m d f SAccept Some e server
          by (auto simp: sal_accept_def case_prod_beta)
      qed
    qed
  qed
next
  case (SClose fd)
  obtain e where e: "sal_sockcb_getcb fd s = Some e" "spec_look fd (sal_abs s) = map_option sc_sock e"
      "\<And>cb. e = Some cb \<Longrightarrow> 0 \<le> fd \<and> nat fd < n \<and> sc_fd cb = fd"
    using up_get[OF assms, of fd] by blast
  show ?thesis
  proof (cases e)
    case None
    then show ?thesis using e SClose assms by (simp add: sal_closesocket_def res0_def)
  next
    case (Some cb)
    obtain s' where c: "sal_call fd op_closesocket (-1) s = Some (fst (spec_call fd (op_closesocket ops) (-1) (sal_abs s)), s')"
        "sal_abs s' = snd (spec_call fd (op_closesocket ops) (-1) (sal_abs s))" "sal_up n ops s'"
      using up_call[OF assms, of fd op_closesocket "-1"] by blast
    have fd: "fd = int (nat fd)" "nat fd < n" "sc_fd cb = fd" using e(3) Some by auto
    have f: "sal_sockcb_free fd s' = Some (set_slot (nat fd) None s')" using up_free[OF c(3) fd(2)] fd(1) by simp
    have l: "nat fd < length (sal_slots s')" using c(3) fd(2) by (simp add: sal_up_def)
    have "sal_abs (set_slot (nat fd) None s') = ((fst (sal_abs s'))(nat fd := None), snd (sal_abs s'))"
      using abs_set[OF l, of None] by (simp add: sal_abs_def)
    then show ?thesis using e Some SClose c f fd(3) up_set[OF c(3), of None]
      by (simp add: sal_closesocket_def res0_def case_prod_beta)
  qed
next
  case (SRecv fd len flags)
  then show ?thesis using up_call[OF assms, of fd "\<lambda>ops. map_option (\<lambda>f sock. f sock len flags) (op_recv ops)" "(-1, [])"]
    by (auto simp: sal_recv_def)
next
  case (SBind fd addr)
  then show ?thesis using up_forward[OF assms, of fd "\<lambda>ops. map_option (\<lambda>f sock. f sock addr) (op_bind ops)"] by (simp add: sal_bind_def)
next
  case (SListen fd backlog)
  then show ?thesis using up_forward[OF assms, of fd "\<lambda>ops. map_option (\<lambda>f sock. f sock backlog) (op_listen ops)"] by (simp add: sal_listen_def)
next
  case (SConnect fd addr)
  then show ?thesis using up_forward[OF assms, of fd "\<lambda>ops. map_option (\<lambda>f sock. f sock addr) (op_connect ops)"] by (simp add: sal_connect_def)
next
  case (SSend fd buf flags)
  then show ?thesis using up_forward[OF assms, of fd "\<lambda>ops. map_option (\<lambda>f sock. f sock buf flags) (op_send ops)"] by (simp add: sal_send_def)
next
  case (SShutdown fd how)
  then show ?thesis using up_forward[OF assms, of fd "\<lambda>ops. map_option (\<lambda>f sock. f sock how) (op_shutdown ops)"] by (simp add: sal_shutdown_def)
qed

text \<open>The start of the layer reaches such a state.\<close>

definition sal_boot :: "'p \<Rightarrow> 'p tag_sal_cb" where
  "sal_boot p = \<lparr>sl_domain = None, sl_num = 0, sl_mutex = False, sl_tab = None, sl_mallocs = [], sl_locks = [], sl_port = p\<rparr>"

lemma sal_start:
  "\<exists>s. link_tcpip_init (link_sal_install (Some ops)) (sal_boot p) = (0, s) \<and> sal_up CN_LINK_SOCKET_NUM ops s"
  by (auto simp: link_tcpip_init_def link_sal_install_def sal_boot_def sal_mutex_def sal_malloc_def sal_up_def sal_ok_def sal_slots_def nth_Cons')

text \<open>A stack that counts its sockets.\<close>

definition demo_stack :: "nat tag_tcpip_ops" where
  "demo_stack = \<lparr>op_socket = Some (\<lambda>_ _ _ p. (100 + int p, p + 1)), op_bind = None, op_listen = None, op_accept = None, op_connect = None,
     op_getsockname = None, op_getpeername = None, op_setsockopt = None, op_getsockopt = None, op_send = Some (\<lambda>sock buf _ p. (int (length buf), p)),
     op_sendto = None, op_recv = None, op_recvfrom = None, op_shutdown = None, op_closesocket = Some (\<lambda>_ p. (0, p)),
     op_gethostbyname = None, op_select = None\<rparr>"

section \<open>Properties\<close>

text \<open>C13. The layer implements a map from its numbers to the sockets of the installed stack: any sequence of calls returns, with the results of the
  specification, in which a new socket gets the least number that is free, every other call reaches the socket of its number or is refused
  without reaching the stack, and a closed number is free again. Each block stays at the place of its number.\<close>

theorem sal_refines:
  assumes "sal_up n ops s"
  shows "\<exists>s'. sal_run cs s = Some (fst (spec_run n ops cs (sal_abs s)), s') \<and> sal_abs s' = snd (spec_run n ops cs (sal_abs s)) \<and> sal_ok s'"
proof -
  have "\<exists>s'. sal_run cs s = Some (fst (spec_run n ops cs (sal_abs s)), s') \<and> sal_abs s' = snd (spec_run n ops cs (sal_abs s)) \<and> sal_up n ops s'"
    using assms
  proof (induction cs arbitrary: s)
    case (Cons c cs)
    obtain s1 where s1: "sal_step c s = Some (fst (spec_step n ops c (sal_abs s)), s1)" "sal_abs s1 = snd (spec_step n ops c (sal_abs s))"
        "sal_up n ops s1"
      using up_step[OF Cons.prems] by blast
    show ?case using Cons.IH[OF s1(3)] s1 by (auto simp: case_prod_beta)
  qed simp
  then show ?thesis by (auto simp: sal_up_def)
qed

theorem sal_refines_witness:
  "let s = snd (link_tcpip_init (link_sal_install (Some demo_stack)) (sal_boot 0));
       cs = [SSocket 2 1 0, SSocket 2 1 0, SClose 0, SSend 0 [1, 2] 0, SSend 1 [1, 2] 0, SSocket 2 1 0] in
   \<exists>s'. sal_run cs s = Some (fst (spec_run 10 demo_stack cs (sal_abs s)), s') \<and> sal_abs s' = snd (spec_run 10 demo_stack cs (sal_abs s)) \<and> sal_ok s'"
proof -
  have "sal_up 10 demo_stack (snd (link_tcpip_init (link_sal_install (Some demo_stack)) (sal_boot 0)))"
    using sal_start[of demo_stack 0] by auto
  then show ?thesis unfolding Let_def by (rule sal_refines)
qed

text \<open>Before a stack is installed, a socket cannot be asked for: the new block takes its operations from the domain, which is \<^verbatim>\<open>NULL\<close> then, and the check of the
  domain comes after that.\<close>

theorem sal_uninstalled_crashes:
  assumes "sal_ok s" and "sl_domain s = None" and "sal_slots s \<noteq> []" and "sl_mallocs s = []" and "sl_locks s = []"
  shows "sal_socket domain type protocol s = None"
proof -
  have m: "sal_malloc s = (True, s)" "sal_mutex s = (True, s)" using assms(4,5) by (simp_all add: sal_malloc_def sal_mutex_def)
  have "sal_slots s ! 0 = None" using assms(1,2,3) by (cases "sal_slots s ! 0") (auto simp: sal_ok_def)
  then have "slot_loop (sal_slots s) 0 = 0" using assms(3) by (cases "sal_slots s") auto
  moreover have "sl_num s \<noteq> 0" using assms(1,3) by (simp add: sal_ok_def)
  ultimately have "sal_sockcb_malloc s = None"
    unfolding sal_sockcb_malloc_def Let_def m prod.case using assms(2) by simp
  then show ?thesis by (simp add: sal_socket_def)
qed

theorem sal_uninstalled_crashes_witness:
  "sal_socket 2 1 0 (snd (link_tcpip_init link_tcpip_imp_init_weak (sal_boot (0 :: nat)))) = None"
  by (rule sal_uninstalled_crashes)
    (auto simp: link_tcpip_init_def link_tcpip_imp_init_weak_def sal_boot_def sal_mutex_def sal_malloc_def sal_ok_def sal_slots_def nth_Cons')

section \<open>Texts of addresses\<close>

lemma scan_dec:
  assumes "n < 2 ^ 31" and "rest = [] \<or> \<not> is_digit (hd rest)"
  shows "scan_int (dec_str n @ rest) = Some (Some (int n, rest))"
proof -
  obtain c cs where d: "dec_str n = c # cs" using dec_digits[of n] by (cases "dec_str n") auto
  have c: "is_digit c" using dec_digits[of n] d by simp
  then have n: "\<not> is_space c" "c \<noteq> 45" "c \<noteq> 43" by (auto simp: is_digit_def is_space_def word_le_nat_alt)
  have s: "scan_sign (dropWhile is_space (dec_str n @ rest)) = (False, dec_str n @ rest)"
    using n unfolding d by (simp add: scan_sign_def)
  have a: "\<And>x. x \<in> set (dec_str n) \<Longrightarrow> is_digit x" using dec_digits[of n] by blast
  have tw: "takeWhile is_digit rest = []" "dropWhile is_digit rest = rest" using assms(2) by (cases rest; auto)+
  have "takeWhile is_digit (dec_str n @ rest) = dec_str n" "dropWhile is_digit (dec_str n @ rest) = rest"
    using a tw by (simp_all add: takeWhile_append2 dropWhile_append2)
  then show ?thesis unfolding scan_int_def Let_def s prod.case
    using assms(1) dec_digits[of n] by (simp add: dec_val_str c_int_def)
qed

definition dotted :: "nat \<Rightarrow> nat \<Rightarrow> nat \<Rightarrow> nat \<Rightarrow> bytes" where
  "dotted a b c d = dec_str a @ [46] @ dec_str b @ [46] @ dec_str c @ [46] @ dec_str d"

lemma scan_dotted:
  assumes "a < 2 ^ 31" "b < 2 ^ 31" "c < 2 ^ 31" "d < 2 ^ 31"
  shows "scan_dots 4 (dotted a b c d) = Some [int a, int b, int c, int d]"
proof -
  have dot: "\<not> is_digit 46" by (simp add: is_digit_def)
  have "scan_int (dotted a b c d) = Some (Some (int a, 46 # dec_str b @ 46 # dec_str c @ 46 # dec_str d))"
    using scan_dec[OF assms(1), of "46 # dec_str b @ 46 # dec_str c @ 46 # dec_str d"] dot by (simp add: dotted_def)
  moreover have "scan_int (dec_str b @ 46 # dec_str c @ 46 # dec_str d) = Some (Some (int b, 46 # dec_str c @ 46 # dec_str d))"
    using scan_dec[OF assms(2), of "46 # dec_str c @ 46 # dec_str d"] dot by simp
  moreover have "scan_int (dec_str c @ 46 # dec_str d) = Some (Some (int c, 46 # dec_str d))"
    using scan_dec[OF assms(3), of "46 # dec_str d"] dot by simp
  moreover have "scan_int (dec_str d) = Some (Some (int d, []))" using scan_dec[OF assms(4), of "[]"] by simp
  ultimately show ?thesis by (simp add: numeral_eq_Suc)
qed

lemma ntoa_dotted:
  assumes "length ip = 4"
  shows "\<exists>rest. inet_ntoa ip = Some (dotted (unat (ip ! 0)) (unat (ip ! 1)) (unat (ip ! 2)) (unat (ip ! 3)) @ 0 # rest)"
    and "length (dotted (unat (ip ! 0)) (unat (ip ! 1)) (unat (ip ! 2)) (unat (ip ! 3))) \<le> 15"
proof -
  let ?t = "dotted (unat (ip ! 0)) (unat (ip ! 1)) (unat (ip ! 2)) (unat (ip ! 3))"
  have l: "length (dec_str (unat b)) \<le> 3" for b :: u8 by (rule dec_length) simp
  show le: "length ?t \<le> 15" using l[of "ip ! 0"] l[of "ip ! 1"] l[of "ip ! 2"] l[of "ip ! 3"] by (simp add: dotted_def)
  have "inet_ntoa ip = put 0 (?t @ [0]) (replicate 16 0)" using assms by (simp add: inet_ntoa_def dotted_def Let_def)
  then show "\<exists>rest. inet_ntoa ip = Some (?t @ 0 # rest)" using le by (simp add: put_def)
qed

text \<open>The text of an address fits the static buffer for every address, and is read back as the same address.\<close>

theorem inet_roundtrip:
  assumes "length ip = 4"
  shows "\<exists>buf str. inet_ntoa ip = Some buf \<and> c_str buf = Some str \<and> length str \<le> 15 \<and> inet_aton str addr = Some (1, ip) \<and> inet_addr str = Some ip"
proof -
  let ?t = "dotted (unat (ip ! 0)) (unat (ip ! 1)) (unat (ip ! 2)) (unat (ip ! 3))"
  obtain rest where buf: "inet_ntoa ip = Some (?t @ 0 # rest)" using ntoa_dotted(1)[OF assms] by blast
  have "0 \<notin> set ?t" using dec_nonzero by (simp add: dotted_def)
  then have str: "c_str (?t @ 0 # rest) = Some ?t" by simp
  have b: "unat b < 2 ^ 31" for b :: u8 by (rule order_less_trans[OF unat_u8_less]) simp
  have ip: "[ip ! 0, ip ! 1, ip ! 2, ip ! 3] = ip"
    using assms by (intro nth_equalityI) (auto simp: less_Suc_eq numeral_eq_Suc)
  have "scan_dots 4 ?t = Some (map (int \<circ> unat) ip)"
    using scan_dotted[OF b b b b, of "ip ! 0" "ip ! 1" "ip ! 2" "ip ! 3"] arg_cong[OF ip, of "map (int \<circ> unat)"] by simp
  moreover have "map word_of_int (map (int \<circ> unat) ip) = ip" by (simp add: comp_def)
  ultimately have "inet_aton ?t addr = Some (1, ip)" "inet_addr ?t = Some ip"
    using assms unfolding inet_aton_def inet_addr_def by simp_all
  then show ?thesis using buf str ntoa_dotted(2)[OF assms] by blast
qed

theorem inet_roundtrip_witness:
  "\<exists>buf str. inet_ntoa [192, 168, 0, 255] = Some buf \<and> c_str buf = Some str \<and> length str \<le> 15 \<and>
     inet_aton str [] = Some (1, [192, 168, 0, 255]) \<and> inet_addr str = Some [192, 168, 0, 255]"
  by (rule inet_roundtrip) simp

text \<open>The parts of a text are not checked against 255: each is taken modulo 256.\<close>

theorem inet_aton_wraps:
  assumes "a < 2 ^ 31" "b < 2 ^ 31" "c < 2 ^ 31" "d < 2 ^ 31"
  shows "inet_aton (dotted a b c d) addr = Some (1, [of_nat a, of_nat b, of_nat c, of_nat d])"
  using scan_dotted[OF assms] by (simp add: inet_aton_def)

text \<open>A buffer that the text and its terminator fill is refused.\<close>

theorem inet_ntop_exact_refused:
  assumes "length ip = 4" and "inet_ntoa ip = Some buf" and "c_str buf = Some str" and "length str + 1 \<le> length dst"
  shows "inet_ntop AF_INET (Some ip) (Some dst) cnt =
    Some (if length str + 1 < cnt then Some (str @ 0 # drop (length str + 1) dst) else None)"
proof -
  let ?t = "dotted (unat (ip ! 0)) (unat (ip ! 1)) (unat (ip ! 2)) (unat (ip ! 3))"
  obtain rest where buf: "buf = ?t @ 0 # rest" using ntoa_dotted(1)[OF assms(1)] assms(2) by auto
  have "0 \<notin> set ?t" using dec_nonzero by (simp add: dotted_def)
  then have str: "str = ?t" using assms(3) buf by simp
  have f: "fetch 0 4 ip = Some ip" using assms(1) by (simp add: fetch_def)
  have g: "fetch 0 (length str + 1) buf = Some (str @ [0])" unfolding buf str by (simp add: fetch_def)
  have p: "put 0 (str @ [0]) dst = Some (str @ 0 # drop (length str + 1) dst)" using assms(4) by (simp add: put_def)
  show ?thesis unfolding inet_ntop_def prod.case option.case f Option.bind.bind_lunit assms(2,3) g p by simp
qed

end
