(* ===== verification/MqttAl.thy ===== *)
theory MqttAl
  imports Prelude
begin

text \<open>
  The interface to the MQTT library, \<^verbatim>\<open>network/mqtt/mqtt_al/mqtt_al.c\<close>: the installed operations and the calls, which check their arguments
  and the table. The library is a record of optional functions on a state \<open>'m\<close> of its own; what it writes into a parameter
  (the return code of a connection or a subscription) is part of its result.
\<close>

text \<open>The security of the transport, from \<^verbatim>\<open>dtls_al.h\<close>: a pointer with its length is an optional block.\<close>

record dtls_cert =
  ct_server_ca :: "bytes option"
  ct_client_ca :: "bytes option"
  ct_client_pk :: "bytes option"
  ct_client_pk_pwd :: "bytes option"
  ct_server_name :: "bytes option"

datatype dtls_security = SECURITY_NONE | SECURITY_PSK "bytes option" "bytes option" | SECURITY_CERT dtls_cert

text \<open>The functions that an agent gives to a subscription.\<close>

datatype msg_dealer = BsMsgDeal | HubMsgDeal

record mqtt_al_conpara =
  cp_serveraddr :: bytes
  cp_serverport :: int
  cp_security :: dtls_security
  cp_version :: int
  cp_clientid :: bytes
  cp_user :: bytes
  cp_passwd :: "bytes option"
  cp_cleansession :: int
  cp_keepalivetime :: u16
  cp_timeout :: int

record mqtt_al_pubpara =
  pp_topic :: bytes
  pp_msg :: bytes
  pp_qos :: int
  pp_retain :: int
  pp_timeout :: int

record mqtt_al_subpara =
  sp_topic :: bytes
  sp_qos :: int
  sp_dealer :: msg_dealer
  sp_timeout :: int

record mqtt_al_unsubpara =
  up_topic :: bytes
  up_timeout :: int

text \<open>The state of the connection is true for \<^verbatim>\<open>en_mqtt_al_connect_ok\<close>.\<close>

record 'm mqtt_al_op =
  al_connect :: "(mqtt_al_conpara \<Rightarrow> 'm \<Rightarrow> (nat option \<times> int) \<times> 'm) option"
  al_disconnect :: "(nat \<Rightarrow> 'm \<Rightarrow> int \<times> 'm) option"
  al_publish :: "(nat \<Rightarrow> mqtt_al_pubpara \<Rightarrow> 'm \<Rightarrow> int \<times> 'm) option"
  al_subscribe :: "(nat \<Rightarrow> mqtt_al_subpara \<Rightarrow> 'm \<Rightarrow> (int \<times> int) \<times> 'm) option"
  al_unsubscribe :: "(nat \<Rightarrow> mqtt_al_unsubpara \<Rightarrow> 'm \<Rightarrow> int \<times> 'm) option"
  al_check_status :: "(nat \<Rightarrow> 'm \<Rightarrow> bool \<times> 'm) option"

record 'm mqtt_al_cb =
  al_ops :: "'m mqtt_al_op option"
  al_lib :: 'm

definition mqtt_al_install :: "'m mqtt_al_op option \<Rightarrow> 'm mqtt_al_cb \<Rightarrow> int \<times> 'm mqtt_al_cb" where
  "mqtt_al_install op s = (if op \<noteq> None \<and> al_ops s = None then (0, s\<lparr>al_ops := op\<rparr>) else (-1, s))"

definition mqtt_al_uninstall :: "'m mqtt_al_cb \<Rightarrow> int \<times> 'm mqtt_al_cb" where
  "mqtt_al_uninstall s = (if al_ops s \<noteq> None then (0, s\<lparr>al_ops := None\<rparr>) else (-1, s))"

definition mqtt_imp_init_weak :: "'m mqtt_al_cb \<Rightarrow> int \<times> 'm mqtt_al_cb" where
  "mqtt_imp_init_weak s = (-1, s)"

definition mqtt_al_init :: "('m mqtt_al_cb \<Rightarrow> int \<times> 'm mqtt_al_cb) \<Rightarrow> 'm mqtt_al_cb \<Rightarrow> int \<times> 'm mqtt_al_cb" where
  "mqtt_al_init imp_init s = imp_init s"

definition mqtt_al_deinit :: "'m mqtt_al_cb \<Rightarrow> int \<times> 'm mqtt_al_cb" where
  "mqtt_al_deinit s = (0, s)"

text \<open>A call of a function of the table, or the default result.\<close>

definition al_call :: "('m mqtt_al_op \<Rightarrow> 'f option) \<Rightarrow> ('f \<Rightarrow> 'm \<Rightarrow> 'r \<times> 'm) \<Rightarrow> 'r \<Rightarrow> 'm mqtt_al_cb \<Rightarrow> 'r \<times> 'm mqtt_al_cb" where
  "al_call sel use dflt s =
     (case Option.bind (al_ops s) sel of None \<Rightarrow> (dflt, s) | Some f \<Rightarrow> let (r, m) = use f (al_lib s) in (r, s\<lparr>al_lib := m\<rparr>))"

text \<open>The return code of a connection is 0 before the call, as the callers have set it.\<close>

definition mqtt_al_connect :: "mqtt_al_conpara option \<Rightarrow> 'm mqtt_al_cb \<Rightarrow> (nat option \<times> int) \<times> 'm mqtt_al_cb" where
  "mqtt_al_connect conpara s =
     (case conpara of None \<Rightarrow> ((None, 0), s) | Some para \<Rightarrow> al_call al_connect (\<lambda>f. f para) (None, 0) s)"

definition mqtt_al_disconnect :: "nat option \<Rightarrow> 'm mqtt_al_cb \<Rightarrow> int \<times> 'm mqtt_al_cb" where
  "mqtt_al_disconnect handle s = (case handle of None \<Rightarrow> (-1, s) | Some h \<Rightarrow> al_call al_disconnect (\<lambda>f. f h) (-1) s)"

definition mqtt_al_publish :: "nat option \<Rightarrow> mqtt_al_pubpara option \<Rightarrow> 'm mqtt_al_cb \<Rightarrow> int \<times> 'm mqtt_al_cb" where
  "mqtt_al_publish handle pubpara s =
     (case (handle, pubpara) of (Some h, Some para) \<Rightarrow> al_call al_publish (\<lambda>f. f h para) (-1) s | _ \<Rightarrow> (-1, s))"

definition mqtt_al_subscribe :: "nat option \<Rightarrow> mqtt_al_subpara option \<Rightarrow> 'm mqtt_al_cb \<Rightarrow> (int \<times> int) \<times> 'm mqtt_al_cb" where
  "mqtt_al_subscribe handle subpara s =
     (case (handle, subpara) of (Some h, Some para) \<Rightarrow> al_call al_subscribe (\<lambda>f. f h para) (-1, 0) s | _ \<Rightarrow> ((-1, 0), s))"

definition mqtt_al_unsubscribe :: "nat option \<Rightarrow> mqtt_al_unsubpara option \<Rightarrow> 'm mqtt_al_cb \<Rightarrow> int \<times> 'm mqtt_al_cb" where
  "mqtt_al_unsubscribe handle unsubpara s =
     (case (handle, unsubpara) of (Some h, Some para) \<Rightarrow> al_call al_unsubscribe (\<lambda>f. f h para) (-1) s | _ \<Rightarrow> (-1, s))"

definition mqtt_al_check_status :: "nat option \<Rightarrow> 'm mqtt_al_cb \<Rightarrow> bool \<times> 'm mqtt_al_cb" where
  "mqtt_al_check_status handle s = (case handle of None \<Rightarrow> (False, s) | Some h \<Rightarrow> al_call al_check_status (\<lambda>f. f h) False s)"

end
