(* ===== verification/OcMqtt.thy ===== *)
theory OcMqtt
  imports MqttAl LinkString
begin

text \<open>
  The agent of the cloud service over MQTT: \<^verbatim>\<open>oc/oc_mqtt/oc_mqtt_tiny_v5/oc_mqtt_tiny.c\<close>, with the table of agents of \<^verbatim>\<open>oc_mqtt_al/oc_mqtt_al.c\<close>. A
  daemon task executes the commands of the API one after another, connects to the bootstrap server and to the
  hub, subscribes the topics, and connects again when the connection is lost.

  A command is a turn of the daemon; the API posts it and waits for its result. The MQTT library is that of \<open>MqttAl\<close>.
  Strings are their bytes without the terminator, \<open>None\<close> is \<^verbatim>\<open>NULL\<close>, and \<open>om_blocks\<close> counts the blocks that are allocated and not
  freed. Parameters of the environment, in the state: the outcomes of \<^verbatim>\<open>osal_malloc\<close>, of posting a command,
  and of \<^verbatim>\<open>gmtime\<close>; the messages that arrive in each second in which the daemon sleeps; the parser of JSON (\<^verbatim>\<open>cJSON\<close>) on the one item that is looked up,
  and the keyed hash of mbed TLS. Callbacks of the application are logged.
\<close>

section \<open>State\<close>

datatype en_daemon_status = en_daemon_status_idle | en_daemon_status_bs_getaddr | en_daemon_status_dmp_connecting | en_daemon_status_hub_keep

abbreviation "en_oc_mqtt_err_ok \<equiv> 0 :: int"
abbreviation "en_oc_mqtt_err_parafmt \<equiv> 1 :: int"
abbreviation "en_oc_mqtt_err_network \<equiv> 2 :: int"
abbreviation "en_oc_mqtt_err_conclientid \<equiv> 4 :: int"
abbreviation "en_oc_mqtt_err_conserver \<equiv> 5 :: int"
abbreviation "en_oc_mqtt_err_conuserpwd \<equiv> 6 :: int"
abbreviation "en_oc_mqtt_err_conclient \<equiv> 7 :: int"
abbreviation "en_oc_mqtt_err_subscribe \<equiv> 8 :: int"
abbreviation "en_oc_mqtt_err_unsubscribe \<equiv> 9 :: int"
abbreviation "en_oc_mqtt_err_publish \<equiv> 10 :: int"
abbreviation "en_oc_mqtt_err_configured \<equiv> 11 :: int"
abbreviation "en_oc_mqtt_err_noconfigured \<equiv> 12 :: int"
abbreviation "en_oc_mqtt_err_noconected \<equiv> 13 :: int"
abbreviation "en_oc_mqtt_err_gethubaddrtimeout \<equiv> 14 :: int"
abbreviation "en_oc_mqtt_err_sysmem \<equiv> 15 :: int"
abbreviation "en_oc_mqtt_err_system \<equiv> 16 :: int"

abbreviation "CN_CON_BACKOFF_MAXTIMES \<equiv> 40 :: nat"
abbreviation "CN_HMAC_LEN \<equiv> 32 :: nat"
abbreviation "CN_OC_MQTT_TIMEOUT \<equiv> 10000 :: int"

definition CN_OC_BS_REPORT_TOPIC_FMT :: bytes where
  "CN_OC_BS_REPORT_TOPIC_FMT = bytes_of ''$oc/devices/%s/sys/bootstrap/up''"

definition CN_OC_BS_CMD_TOPIC_FMT :: bytes where
  "CN_OC_BS_CMD_TOPIC_FMT = bytes_of ''$oc/devices/%s/sys/bootstrap/down''"

definition CN_OC_HUB_SUBTOPIC_DEFAULT_FMT :: bytes where
  "CN_OC_HUB_SUBTOPIC_DEFAULT_FMT = bytes_of ''$oc/devices/%s/sys/commands/#''"

definition CN_OC_HUB_PUBTOPIC_DEFAULT_FMT :: bytes where
  "CN_OC_HUB_PUBTOPIC_DEFAULT_FMT = bytes_of ''$oc/devices/%s/sys/properties/report''"

definition s_new_topic_fmt :: "bytes list" where
  "s_new_topic_fmt = map bytes_of
     [''$oc/devices/%s/sys/messages/down'', ''$oc/devices/%s/sys/properties/set/#'', ''$oc/devices/%s/sys/properties/get/#'',
      ''$oc/devices/%s/sys/shadow/get/response/#'', ''$oc/devices/%s/sys/events/down'']"

record oc_mqtt_config_t =
  cf_boot_mode :: int
  cf_lifetime :: u16
  cf_server_addr :: "bytes option"
  cf_server_port :: "bytes option"
  cf_security :: dtls_security
  cf_id :: "bytes option"
  cf_pwd :: "bytes option"
  cf_scope_id :: "bytes option"
  cf_msg_deal :: bool
  cf_log_dealer :: bool

record oc_mqtt_para =
  pa_clientid :: "bytes option"
  pa_user :: "bytes option"
  pa_passwd :: "bytes option"
  pa_server_addr :: "bytes option"
  pa_server_port :: "bytes option"
  pa_pub_topic :: "bytes option"
  pa_sub_topic :: "bytes option"
  pa_handle :: "nat option"

text \<open>What the parser finds under \<^verbatim>\<open>address\<close>: no document, no such item, an item that is no string, or a string.\<close>

datatype json_addr = JNoRoot | JNoItem | JNotString | JString bytes

datatype oc_event = EvMsg bytes bytes | EvConnected | EvDisconnected | EvSleep

record 'm oc_mqtt_tiny_cb =
  om_config_mem :: "bytes option"
  om_config :: oc_mqtt_config_t
  om_para :: oc_mqtt_para
  om_bs_enable :: bool
  om_status :: en_daemon_status
  om_get_hubaddr :: bool
  om_do_bootstrap :: bool
  om_do_reportdisconnect :: bool
  om_hub_addr :: "bytes option"
  om_hub_port :: "bytes option"
  om_salt_time :: bytes
  om_hub_topics :: "bytes option list"
  om_subs :: "(bytes \<times> int) list"
  om_al :: "'m mqtt_al_cb"
  om_blocks :: int
  om_mallocs :: "bool list"
  om_posts :: "bool list"
  om_dates :: "(nat \<times> nat \<times> nat \<times> nat) option list"
  om_arrivals :: "(bytes \<times> bytes) list list"
  om_parse :: "bytes \<Rightarrow> json_addr"
  om_hmac :: "bytes \<Rightarrow> bytes \<Rightarrow> bytes"
  om_log :: "oc_event list"

definition zero_config :: oc_mqtt_config_t where
  "zero_config = \<lparr>cf_boot_mode = 0, cf_lifetime = 0, cf_server_addr = None, cf_server_port = None, cf_security = SECURITY_NONE, cf_id = None,
     cf_pwd = None, cf_scope_id = None, cf_msg_deal = False, cf_log_dealer = False\<rparr>"

definition zero_para :: oc_mqtt_para where
  "zero_para = \<lparr>pa_clientid = None, pa_user = None, pa_passwd = None, pa_server_addr = None, pa_server_port = None, pa_pub_topic = None,
     pa_sub_topic = None, pa_handle = None\<rparr>"

section \<open>Memory and texts\<close>

definition om_malloc :: "'m oc_mqtt_tiny_cb \<Rightarrow> bool \<times> 'm oc_mqtt_tiny_cb" where
  "om_malloc s = (let (ok, os) = alloc (om_mallocs s) in (ok, s\<lparr>om_mallocs := os, om_blocks := om_blocks s + (if ok then 1 else 0)\<rparr>))"

definition om_free :: "'a option \<Rightarrow> 'm oc_mqtt_tiny_cb \<Rightarrow> 'm oc_mqtt_tiny_cb" where
  "om_free p s = (case p of None \<Rightarrow> s | Some _ \<Rightarrow> s\<lparr>om_blocks := om_blocks s - 1\<rparr>)"

definition om_strdup :: "bytes option \<Rightarrow> 'm oc_mqtt_tiny_cb \<Rightarrow> bytes option \<times> 'm oc_mqtt_tiny_cb" where
  "om_strdup ch s = (case ch of None \<Rightarrow> (None, s) | Some _ \<Rightarrow> let (ok, s) = om_malloc s in (if ok then ch else None, s))"

text \<open>\<^verbatim>\<open>snprintf\<close> of a format that has only \<^verbatim>\<open>%s\<close>.\<close>

fun expand :: "bytes \<Rightarrow> bytes list \<Rightarrow> bytes" where
  "expand [] as = []"
| "expand [c] as = [c]"
| "expand (c # d # fmt) as =
     (if c = 37 \<and> d = 115 then concat (take 1 as) @ expand fmt (tl as) else c # expand (d # fmt) as)"

definition topic_fmt :: "bytes \<Rightarrow> bytes \<Rightarrow> 'm oc_mqtt_tiny_cb \<Rightarrow> bytes option \<times> 'm oc_mqtt_tiny_cb" where
  "topic_fmt fmt ident s =
     (let len = length fmt + length ident + 1; (ok, s) = om_malloc s
      in (if ok then Some (take (len - 1) (expand fmt [ident])) else None, s))"

definition clientid_fmt :: "bytes \<Rightarrow> bytes \<Rightarrow> bytes option \<Rightarrow> bool \<Rightarrow> 'm oc_mqtt_tiny_cb \<Rightarrow> (bytes option \<times> 'm oc_mqtt_tiny_cb) option" where
  "clientid_fmt ident salt_time scopeid group_mode s = do {
     let fmt = (if group_mode then bytes_of ''%s_0_%s'' else bytes_of ''%s_0_0_%s'');
     param \<leftarrow> (if group_mode then scopeid else Some salt_time);
     let len = length fmt + length ident + length param + 1;
     let (ok, s) = om_malloc s;
     Some (if ok then Some (take (len - 1) (expand fmt [ident, param])) else None, s) }"

definition atoi :: "bytes \<Rightarrow> int option" where
  "atoi cs = (let (neg, cs) = scan_sign (dropWhile is_space cs); v = int (dec_val (takeWhile is_digit cs) 0) in c_int (if neg then - v else v))"

definition dec_pad :: "nat \<Rightarrow> nat \<Rightarrow> bytes" where
  "dec_pad n k = replicate (n - length (dec_str k)) 48 @ dec_str k"

definition next_date :: "'m oc_mqtt_tiny_cb \<Rightarrow> (nat \<times> nat \<times> nat \<times> nat) option \<times> 'm oc_mqtt_tiny_cb" where
  "next_date s = (case om_dates s of [] \<Rightarrow> (Some (70, 0, 1, 0), s) | d # ds \<Rightarrow> (d, s\<lparr>om_dates := ds\<rparr>))"

section \<open>Messages\<close>

definition deliver :: "bytes \<times> bytes \<Rightarrow> 'm oc_mqtt_tiny_cb \<Rightarrow> 'm oc_mqtt_tiny_cb" where
  "deliver msg s =
     (if length (snd msg) > 0 \<and> cf_msg_deal (om_config s) then s\<lparr>om_log := om_log s @ [EvMsg (fst msg) (snd msg)]\<rparr> else s)"

definition hub_msg_default_deal :: "bytes \<times> bytes \<Rightarrow> 'm oc_mqtt_tiny_cb \<Rightarrow> 'm oc_mqtt_tiny_cb" where
  "hub_msg_default_deal msg s = deliver msg s"

text \<open>\<^verbatim>\<open>strrchr\<close>: what is before and after the last one.\<close>

definition strrchr_split :: "u8 \<Rightarrow> bytes \<Rightarrow> (bytes \<times> bytes) option" where
  "strrchr_split c str =
     (if c \<in> set str
      then let after = rev (takeWhile (\<lambda>x. x \<noteq> c) (rev str)) in Some (take (length str - length after - 1) str, after)
      else None)"

definition bs_set_hub :: "bytes \<Rightarrow> 'm oc_mqtt_tiny_cb \<Rightarrow> 'm oc_mqtt_tiny_cb" where
  "bs_set_hub valuestring s =
     (case strrchr_split 58 valuestring of
        None \<Rightarrow> s
      | Some (server, port) \<Rightarrow>
          let s = om_free (om_hub_addr s) s;
              s = om_free (om_hub_port s) s;
              (addr, s) = om_strdup (Some server) s;
              (prt, s) = om_strdup (Some port) s;
              s = s\<lparr>om_hub_addr := addr, om_hub_port := prt\<rparr>
          in if addr \<noteq> None \<and> prt \<noteq> None then s\<lparr>om_get_hubaddr := True\<rparr> else s)"

definition bs_msg_default_deal :: "bytes \<times> bytes \<Rightarrow> 'm oc_mqtt_tiny_cb \<Rightarrow> 'm oc_mqtt_tiny_cb option" where
  "bs_msg_default_deal msg s =
     (let (ok, s) = om_malloc s in
      if \<not> ok then Some s
      else do {
        s \<leftarrow> (case om_parse s (snd msg) of
               JNoRoot \<Rightarrow> Some s
             | JNoItem \<Rightarrow> Some s
             | JNotString \<Rightarrow> None
             | JString v \<Rightarrow> Some (bs_set_hub v s));
        Some (deliver msg (om_free (Some ()) s)) })"

section \<open>Configuration\<close>

fun free_all :: "'a option list \<Rightarrow> 'm oc_mqtt_tiny_cb \<Rightarrow> 'm oc_mqtt_tiny_cb" where
  "free_all [] s = s"
| "free_all (p # ps) s = free_all ps (om_free p s)"

definition config_parameter_release :: "'m oc_mqtt_tiny_cb \<Rightarrow> int \<times> 'm oc_mqtt_tiny_cb" where
  "config_parameter_release cb =
     (let cb = om_free (om_config_mem cb) cb;
          cb = cb\<lparr>om_config_mem := None\<rparr>;
          cb = om_free (om_hub_addr cb) cb;
          cb = om_free (om_hub_port cb) cb;
          cb = free_all (om_hub_topics cb) cb;
          cb = cb\<lparr>om_hub_topics := replicate (length s_new_topic_fmt) None, om_config := zero_config, om_hub_addr := None, om_hub_port := None,
                  om_status := en_daemon_status_idle\<rparr>;
          subs = om_subs cb;
          cb = free_all (map Some subs) (cb\<lparr>om_subs := []\<rparr>)
      in (en_oc_mqtt_err_ok, cb))"

definition opt_len :: "bytes option \<Rightarrow> nat" where
  "opt_len p = (case p of None \<Rightarrow> 0 | Some xs \<Rightarrow> length xs)"

definition str_len :: "bytes option \<Rightarrow> nat" where
  "str_len p = (case p of None \<Rightarrow> 0 | Some xs \<Rightarrow> length xs + 1)"

definition security_len :: "dtls_security \<Rightarrow> nat" where
  "security_len sec =
     (case sec of
        SECURITY_NONE \<Rightarrow> 0
      | SECURITY_PSK psk_id psk_key \<Rightarrow> opt_len psk_id + opt_len psk_key
      | SECURITY_CERT c \<Rightarrow> opt_len (ct_server_ca c) + opt_len (ct_client_ca c) + opt_len (ct_client_pk c) + opt_len (ct_client_pk_pwd c) +
          str_len (ct_server_name c))"

text \<open>Blocks that are copied one behind the other.\<close>

fun mem_puts :: "bytes list \<Rightarrow> nat \<Rightarrow> bytes \<Rightarrow> bytes option" where
  "mem_puts [] p mem = Some mem"
| "mem_puts (x # xs) p mem = do { mem \<leftarrow> put p x mem; mem_puts xs (p + length x) mem }"

definition str_block :: "bytes option \<Rightarrow> bytes list" where
  "str_block p = (case p of None \<Rightarrow> [] | Some xs \<Rightarrow> [xs @ [0]])"

definition opt_block :: "bytes option \<Rightarrow> bytes list" where
  "opt_block p = (if opt_len p \<noteq> 0 then [the p] else [])"

definition opt_copy :: "bytes option \<Rightarrow> bytes option" where
  "opt_copy p = (if opt_len p \<noteq> 0 then p else None)"

text \<open>The security with the pointers to the copies; \<open>builtin\<close> is the certificate of the source.\<close>

definition security_clone :: "bytes \<Rightarrow> dtls_security \<Rightarrow> dtls_security" where
  "security_clone builtin sec =
     (case sec of
        SECURITY_NONE \<Rightarrow> SECURITY_NONE
      | SECURITY_PSK _ _ \<Rightarrow> SECURITY_PSK None None
      | SECURITY_CERT c \<Rightarrow> SECURITY_CERT
          \<lparr>ct_server_ca = (if opt_len (ct_server_ca c) \<noteq> 0 then ct_server_ca c else Some builtin), ct_client_ca = opt_copy (ct_client_ca c),
           ct_client_pk = opt_copy (ct_client_pk c), ct_client_pk_pwd = opt_copy (ct_client_pk_pwd c), ct_server_name = None\<rparr>)"

definition security_blocks :: "dtls_security \<Rightarrow> bytes list" where
  "security_blocks sec =
     (case sec of
        SECURITY_CERT c \<Rightarrow> opt_block (ct_server_ca c) @ opt_block (ct_client_ca c) @ opt_block (ct_client_pk c) @ opt_block (ct_client_pk_pwd c)
      | _ \<Rightarrow> [])"

text \<open>The certificate that is used when the configuration has none, with the terminator that its size counts.\<close>

definition s_oc_mqtt_ca_crt :: bytes where
  "s_oc_mqtt_ca_crt = concat (map (\<lambda>l. bytes_of l @ [13, 10])
    ['' -----BEGIN CERTIFICATE-----'',
     ''MIIDrzCCApegAwIBAgIQCDvgVpBCRrGhdWrJWZHHSjANBgkqhkiG9w0BAQUFADBh'',
     ''MQswCQYDVQQGEwJVUzEVMBMGA1UEChMMRGlnaUNlcnQgSW5jMRkwFwYDVQQLExB3'',
     ''d3cuZGlnaWNlcnQuY29tMSAwHgYDVQQDExdEaWdpQ2VydCBHbG9iYWwgUm9vdCBD'',
     ''QTAeFw0wNjExMTAwMDAwMDBaFw0zMTExMTAwMDAwMDBaMGExCzAJBgNVBAYTAlVT'',
     ''MRUwEwYDVQQKEwxEaWdpQ2VydCBJbmMxGTAXBgNVBAsTEHd3dy5kaWdpY2VydC5j'',
     ''b20xIDAeBgNVBAMTF0RpZ2lDZXJ0IEdsb2JhbCBSb290IENBMIIBIjANBgkqhkiG'',
     ''9w0BAQEFAAOCAQ8AMIIBCgKCAQEA4jvhEXLeqKTTo1eqUKKPC3eQyaKl7hLOllsB'',
     ''CSDMAZOnTjC3U/dDxGkAV53ijSLdhwZAAIEJzs4bg7/fzTtxRuLWZscFs3YnFo97'',
     ''nh6Vfe63SKMI2tavegw5BmV/Sl0fvBf4q77uKNd0f3p4mVmFaG5cIzJLv07A6Fpt'',
     ''43C/dxC//AH2hdmoRBBYMql1GNXRor5H4idq9Joz+EkIYIvUX7Q6hL+hqkpMfT7P'',
     ''T19sdl6gSzeRntwi5m3OFBqOasv+zbMUZBfHWymeMr/y7vrTC0LUq7dBMtoM1O/4'',
     ''gdW7jVg/tRvoSSiicNoxBN33shbyTApOB6jtSj1etX+jkMOvJwIDAQABo2MwYTAO'',
     ''BgNVHQ8BAf8EBAMCAYYwDwYDVR0TAQH/BAUwAwEB/zAdBgNVHQ4EFgQUA95QNVbR'',
     ''TLtm8KPiGxvDl7I90VUwHwYDVR0jBBgwFoAUA95QNVbRTLtm8KPiGxvDl7I90VUw'',
     ''DQYJKoZIhvcNAQEFBQADggEBAMucN6pIExIK+t1EnE9SsPTfrgT1eXkIoyQY/Esr'',
     ''hMAtudXH/vTBH1jLuG2cenTnmCmrEbXjcKChzUyImZOMkXDiqw8cvpOp/2PV5Adg'',
     ''06O/nVsJ8dWO41P0jmP6P6fbtGbfYmbW0W5BjfIttep3Sp+dWOIrWcBAI+0tKIJF'',
     ''PnlUkiaY4IBIqDfv8NZ5YBberOgOzW6sRBc4L0na4UU+Krk2U886UAb3LujEV0ls'',
     ''YSEY1QSteDwsOoBrp+uvFRTp2InBuThs4pFsiv9kuXclVzDAGySj4dzp30d8tbQk'',
     ''CAUw7C29C79Fv1C5qfPrmAESrciIxpg0X40KPMbp1ZWVbd4='',
     ''-----END CERTIFICATE-----'']) @ [0]"

text \<open>The topics of the device, from the \<open>i\<close>-th on.\<close>

fun clone_topics :: "nat \<Rightarrow> bytes list \<Rightarrow> 'm oc_mqtt_tiny_cb \<Rightarrow> (int \<times> 'm oc_mqtt_tiny_cb) option" where
  "clone_topics i [] cb = Some (en_oc_mqtt_err_ok, cb)"
| "clone_topics i (fmt # fmts) cb = do {
     ident \<leftarrow> cf_id (om_config cb);
     let (topic, cb) = topic_fmt fmt ident cb;
     let cb = cb\<lparr>om_hub_topics := (om_hub_topics cb)[i := topic]\<rparr>;
     if topic = None then Some (en_oc_mqtt_err_sysmem, snd (config_parameter_release cb)) else clone_topics (i + 1) fmts cb }"

definition config_parameter_clone :: "oc_mqtt_config_t \<Rightarrow> 'm oc_mqtt_tiny_cb \<Rightarrow> (int \<times> 'm oc_mqtt_tiny_cb) option" where
  "config_parameter_clone config cb = do {
     ident \<leftarrow> cf_id config;
     addr \<leftarrow> cf_server_addr config;
     port \<leftarrow> cf_server_port config;
     let mem_len = security_len (cf_security config) + (length ident + 1) + str_len (cf_pwd config) + str_len (cf_scope_id config) +
           (length addr + 1) + (length port + 1);
     let (ok, cb) = om_malloc cb;
     if \<not> ok then Some (en_oc_mqtt_err_parafmt, cb)
     else do {
       mem \<leftarrow> mem_puts ([ident @ [0]] @ str_block (cf_pwd config) @ str_block (cf_scope_id config) @ [addr @ [0], port @ [0]] @
               security_blocks (cf_security config)) 0 (replicate mem_len 0);
       clone_topics 0 s_new_topic_fmt (cb\<lparr>
         om_bs_enable := cf_boot_mode config = 0,
         om_config_mem := Some mem,
         om_config := config\<lparr>cf_security := security_clone s_oc_mqtt_ca_crt (cf_security config)\<rparr>\<rparr>) } }"

section \<open>Connection parameters\<close>

definition oc_mqtt_para_release :: "'m oc_mqtt_tiny_cb \<Rightarrow> 'm oc_mqtt_tiny_cb" where
  "oc_mqtt_para_release cb =
     (let pa = om_para cb;
          cb = cb\<lparr>om_al := snd (mqtt_al_disconnect (pa_handle pa) (om_al cb))\<rparr>;
          cb = free_all [pa_clientid pa, pa_user pa, pa_passwd pa, pa_pub_topic pa, pa_sub_topic pa] cb
      in cb\<lparr>om_para := zero_para\<rparr>)"

text \<open>The hash is not computed of nothing; the buffer then keeps its zeros.\<close>

definition hmac_generate_passwd :: "(bytes \<Rightarrow> bytes \<Rightarrow> bytes) \<Rightarrow> bytes \<Rightarrow> bytes \<Rightarrow> bytes \<Rightarrow> bytes option" where
  "hmac_generate_passwd md content key buf = (if key = [] \<or> content = [] then Some buf else put 0 (md key content) (replicate (length buf) 0))"

definition para_exit_mem :: "'m oc_mqtt_tiny_cb \<Rightarrow> (int \<times> 'm oc_mqtt_tiny_cb) option" where
  "para_exit_mem cb = Some (en_oc_mqtt_err_sysmem, oc_mqtt_para_release cb)"

text \<open>The password of the connection: \<open>False\<close> when there is no memory for it.\<close>

definition para_passwd :: "'m oc_mqtt_tiny_cb \<Rightarrow> (bool \<times> 'm oc_mqtt_tiny_cb) option" where
  "para_passwd cb =
     (case cf_pwd (om_config cb) of
        None \<Rightarrow> Some (True, cb\<lparr>om_para := (om_para cb)\<lparr>pa_passwd := None\<rparr>\<rparr>)
      | Some pwd \<Rightarrow> do {
          hmac \<leftarrow> hmac_generate_passwd (om_hmac cb) pwd (om_salt_time cb) (replicate CN_HMAC_LEN 0);
          let (ok, cb) = om_malloc cb;
          if \<not> ok then Some (False, cb)
          else do {
            (_, out) \<leftarrow> byte2hexstr (Some hmac) (int CN_HMAC_LEN) (Some (replicate (CN_HMAC_LEN * 2 + 1) 0));
            buf \<leftarrow> out;
            str \<leftarrow> c_str buf;
            Some (True, cb\<lparr>om_para := (om_para cb)\<lparr>pa_passwd := Some str\<rparr>\<rparr>) } })"

text \<open>The two default topics.\<close>

definition para_topics :: "bytes \<Rightarrow> 'm oc_mqtt_tiny_cb \<Rightarrow> bool \<times> 'm oc_mqtt_tiny_cb" where
  "para_topics ident cb =
     (let bs = om_status cb = en_daemon_status_bs_getaddr;
          (pub, cb) = topic_fmt (if bs then CN_OC_BS_REPORT_TOPIC_FMT else CN_OC_HUB_PUBTOPIC_DEFAULT_FMT) ident cb;
          (sub, cb) = topic_fmt (if bs then CN_OC_BS_CMD_TOPIC_FMT else CN_OC_HUB_SUBTOPIC_DEFAULT_FMT) ident cb
      in (pub \<noteq> None \<and> sub \<noteq> None, cb\<lparr>om_para := (om_para cb)\<lparr>pa_pub_topic := pub, pa_sub_topic := sub\<rparr>\<rparr>))"

definition oc_mqtt_para_gernerate :: "'m oc_mqtt_tiny_cb \<Rightarrow> (int \<times> 'm oc_mqtt_tiny_cb) option" where
  "oc_mqtt_para_gernerate cb =
     (let (date, cb) = next_date cb in
      case date of
        None \<Rightarrow> Some (en_oc_mqtt_err_ok, cb)
      | Some (year, mon, mday, hour) \<Rightarrow>
          let cb = cb\<lparr>om_salt_time := take 10 (dec_pad 4 (year + 1900) @ dec_pad 2 mon @ dec_pad 2 mday @ dec_pad 2 hour)\<rparr>;
              cb = oc_mqtt_para_release cb;
              (user, cb) = om_strdup (cf_id (om_config cb)) cb;
              cb = cb\<lparr>om_para := (om_para cb)\<lparr>pa_user := user\<rparr>\<rparr>
          in if user = None then para_exit_mem cb
             else do {
               (ok, cb) \<leftarrow> para_passwd cb;
               if \<not> ok then para_exit_mem cb
               else do {
                 ident \<leftarrow> cf_id (om_config cb);
                 let group_mode = (om_status cb = en_daemon_status_bs_getaddr \<and> cf_scope_id (om_config cb) \<noteq> None);
                 let (ok, cb) = para_topics ident cb;
                 if \<not> ok then para_exit_mem cb
                 else do {
                   (clientid, cb) \<leftarrow> clientid_fmt ident (om_salt_time cb) (cf_scope_id (om_config cb)) group_mode cb;
                   let cb = cb\<lparr>om_para := (om_para cb)\<lparr>pa_clientid := clientid\<rparr>\<rparr>;
                   if clientid = None then para_exit_mem cb
                   else
                     let hub = om_bs_enable cb \<and> om_status cb \<in> {en_daemon_status_hub_keep, en_daemon_status_dmp_connecting};
                         addr = (if hub then om_hub_addr cb else cf_server_addr (om_config cb));
                         port = (if hub then om_hub_port cb else cf_server_port (om_config cb));
                         cb = cb\<lparr>om_para := (om_para cb)\<lparr>pa_server_addr := addr, pa_server_port := port\<rparr>\<rparr>
                     in if addr = None \<or> port = None then para_exit_mem cb else Some (en_oc_mqtt_err_ok, cb) } } })"

section \<open>Connecting\<close>

definition dmp_connect :: "'m oc_mqtt_tiny_cb \<Rightarrow> (int \<times> 'm oc_mqtt_tiny_cb) option" where
  "dmp_connect cb = do {
     clientid \<leftarrow> pa_clientid (om_para cb);
     user \<leftarrow> pa_user (om_para cb);
     addr \<leftarrow> pa_server_addr (om_para cb);
     server_port \<leftarrow> pa_server_port (om_para cb);
     port \<leftarrow> atoi server_port;
     let conpara = \<lparr>cp_serveraddr = addr, cp_serverport = port, cp_security = cf_security (om_config cb), cp_version = 1, cp_clientid = clientid,
           cp_user = user, cp_passwd = pa_passwd (om_para cb), cp_cleansession = 1, cp_keepalivetime = cf_lifetime (om_config cb),
           cp_timeout = CN_OC_MQTT_TIMEOUT\<rparr>;
     let ((handle, conret), al) = mqtt_al_connect (Some conpara) (om_al cb);
     let cb = cb\<lparr>om_al := al, om_para := (om_para cb)\<lparr>pa_handle := handle\<rparr>\<rparr>;
     Some (if handle \<noteq> None then en_oc_mqtt_err_ok
           else if conret = 2 then en_oc_mqtt_err_conclientid
           else if conret = 3 then en_oc_mqtt_err_conserver
           else if conret = 4 then en_oc_mqtt_err_conuserpwd
           else if conret = 5 then en_oc_mqtt_err_conclient
           else en_oc_mqtt_err_network, cb) }"

definition sub_topic :: "msg_dealer \<Rightarrow> bytes \<Rightarrow> int \<Rightarrow> 'm oc_mqtt_tiny_cb \<Rightarrow> int \<times> 'm oc_mqtt_tiny_cb" where
  "sub_topic dealer topic qos cb =
     (let ((ret, _), al) = mqtt_al_subscribe (pa_handle (om_para cb))
            (Some \<lparr>sp_topic = topic, sp_qos = qos, sp_dealer = dealer, sp_timeout = CN_OC_MQTT_TIMEOUT\<rparr>) (om_al cb)
      in (ret, cb\<lparr>om_al := al\<rparr>))"

text \<open>The loops over the topics: \<open>ret\<close> is the result so far.\<close>

fun sub_loop :: "bytes option list \<Rightarrow> int \<Rightarrow> 'm oc_mqtt_tiny_cb \<Rightarrow> (int \<times> 'm oc_mqtt_tiny_cb) option" where
  "sub_loop [] ret cb = Some (ret, cb)"
| "sub_loop (topic # topics) ret cb = do {
     topic \<leftarrow> topic;
     let (ret, cb) = sub_topic HubMsgDeal topic 1 cb;
     if ret \<noteq> 0 then Some (en_oc_mqtt_err_subscribe, cb) else sub_loop topics ret cb }"

definition dmp_subscribe :: "'m oc_mqtt_tiny_cb \<Rightarrow> (int \<times> 'm oc_mqtt_tiny_cb) option" where
  "dmp_subscribe cb =
     (if pa_handle (om_para cb) = None then Some (en_oc_mqtt_err_noconected, cb)
      else do {
        let bs = (om_status cb = en_daemon_status_bs_getaddr);
        topic \<leftarrow> pa_sub_topic (om_para cb);
        let (ret, cb) = sub_topic (if bs then BsMsgDeal else HubMsgDeal) topic 1 cb;
        let ret = (if ret \<noteq> 0 then en_oc_mqtt_err_subscribe else ret);
        if bs then Some (ret, cb)
        else do {
          (ret, cb) \<leftarrow> sub_loop (om_hub_topics cb) ret cb;
          sub_loop (map (\<lambda>(topic, qos). Some topic) (om_subs cb)) ret cb } })"

definition dmp_publish :: "bytes option \<Rightarrow> bytes \<Rightarrow> int \<Rightarrow> 'm oc_mqtt_tiny_cb \<Rightarrow> (int \<times> 'm oc_mqtt_tiny_cb) option" where
  "dmp_publish topic msg qos cb = do {
     topic \<leftarrow> (if topic = None then pa_pub_topic (om_para cb) else topic);
     let (ret, al) = mqtt_al_publish (pa_handle (om_para cb))
           (Some \<lparr>pp_topic = topic, pp_msg = msg, pp_qos = qos, pp_retain = 0, pp_timeout = 1000\<rparr>) (om_al cb);
     Some (if ret \<noteq> 0 then en_oc_mqtt_err_publish else ret, cb\<lparr>om_al := al\<rparr>) }"

definition step_exit :: "int \<Rightarrow> 'm oc_mqtt_tiny_cb \<Rightarrow> (int \<times> 'm oc_mqtt_tiny_cb) option" where
  "step_exit ret cb = Some (ret, oc_mqtt_para_release cb)"

definition hub_step :: "'m oc_mqtt_tiny_cb \<Rightarrow> (int \<times> 'm oc_mqtt_tiny_cb) option" where
  "hub_step cb = do {
     (gen, cb) \<leftarrow> oc_mqtt_para_gernerate cb;
     if gen \<noteq> en_oc_mqtt_err_ok then step_exit en_oc_mqtt_err_system cb
     else do {
       (ret, cb) \<leftarrow> dmp_connect cb;
       if ret \<noteq> en_oc_mqtt_err_ok then step_exit ret cb
       else do {
         (ret, cb) \<leftarrow> dmp_subscribe cb;
         if ret \<noteq> en_oc_mqtt_err_ok then step_exit ret cb
         else Some (ret, if cf_log_dealer (om_config cb)
                         then cb\<lparr>om_do_reportdisconnect := False, om_log := om_log cb @ [EvConnected]\<rparr> else cb) } } }"

fun deal_arrivals :: "(bytes \<times> bytes) list \<Rightarrow> 'm oc_mqtt_tiny_cb \<Rightarrow> 'm oc_mqtt_tiny_cb option" where
  "deal_arrivals [] cb = Some cb"
| "deal_arrivals (msg # msgs) cb = do { cb \<leftarrow> bs_msg_default_deal msg cb; deal_arrivals msgs cb }"

definition bs_sleep :: "'m oc_mqtt_tiny_cb \<Rightarrow> 'm oc_mqtt_tiny_cb option" where
  "bs_sleep cb =
     (let cb = cb\<lparr>om_log := om_log cb @ [EvSleep]\<rparr> in
      case om_arrivals cb of [] \<Rightarrow> Some cb | msgs # later \<Rightarrow> deal_arrivals msgs (cb\<lparr>om_arrivals := later\<rparr>))"

fun bs_wait :: "nat \<Rightarrow> 'm oc_mqtt_tiny_cb \<Rightarrow> 'm oc_mqtt_tiny_cb option" where
  "bs_wait 0 cb = Some cb"
| "bs_wait (Suc k) cb = (if om_get_hubaddr cb then Some cb else do { cb \<leftarrow> bs_sleep cb; bs_wait k cb })"

definition bs_step :: "'m oc_mqtt_tiny_cb \<Rightarrow> (int \<times> 'm oc_mqtt_tiny_cb) option" where
  "bs_step cb = do {
     (gen, cb) \<leftarrow> oc_mqtt_para_gernerate (cb\<lparr>om_get_hubaddr := False\<rparr>);
     if gen \<noteq> en_oc_mqtt_err_ok then step_exit en_oc_mqtt_err_system cb
     else do {
       (ret, cb) \<leftarrow> dmp_connect cb;
       if ret \<noteq> en_oc_mqtt_err_ok then step_exit ret cb
       else do {
         (ret, cb) \<leftarrow> dmp_subscribe cb;
         if ret \<noteq> en_oc_mqtt_err_ok then step_exit ret cb
         else do {
           (pub, cb) \<leftarrow> dmp_publish None [] 1 cb;
           if ret \<noteq> pub then step_exit ret cb
           else do {
             cb \<leftarrow> bs_wait CN_CON_BACKOFF_MAXTIMES cb;
             step_exit (if om_get_hubaddr cb then en_oc_mqtt_err_ok else en_oc_mqtt_err_gethubaddrtimeout) cb } } } } }"

section \<open>The daemon\<close>

text \<open>The connection as the commands see it: configured and up.\<close>

definition hub_up :: "'m oc_mqtt_tiny_cb \<Rightarrow> bool \<times> 'm oc_mqtt_tiny_cb" where
  "hub_up cb =
     (if om_status cb = en_daemon_status_hub_keep
      then let (up, al) = mqtt_al_check_status (pa_handle (om_para cb)) (om_al cb) in (up, cb\<lparr>om_al := al\<rparr>)
      else (False, cb))"

definition deal_api_subscribe :: "bytes \<Rightarrow> int \<Rightarrow> 'm oc_mqtt_tiny_cb \<Rightarrow> int \<times> 'm oc_mqtt_tiny_cb" where
  "deal_api_subscribe topic qos cb =
     (if om_status cb = en_daemon_status_idle then (en_oc_mqtt_err_noconfigured, cb)
      else let (up, cb) = hub_up cb in
        if \<not> up then (en_oc_mqtt_err_noconected, cb)
        else if topic \<in> fst ` set (om_subs cb) then (en_oc_mqtt_err_subscribe, cb)
        else let (ok, cb) = om_malloc cb in
          if \<not> ok then (en_oc_mqtt_err_sysmem, cb)
          else let (ret, cb) = sub_topic HubMsgDeal topic qos cb in
            if ret = 0 then (en_oc_mqtt_err_ok, cb\<lparr>om_subs := (topic, qos) # om_subs cb\<rparr>)
            else (en_oc_mqtt_err_subscribe, om_free (Some ()) cb))"

text \<open>The first entry of the topic is taken out of the list.\<close>

fun unlink_topic :: "bytes \<Rightarrow> (bytes \<times> int) list \<Rightarrow> bool \<times> (bytes \<times> int) list" where
  "unlink_topic topic [] = (False, [])"
| "unlink_topic topic (e # es) =
     (if topic = fst e then (True, es) else let (found, es) = unlink_topic topic es in (found, e # es))"

definition deal_api_unsubscribe :: "bytes \<Rightarrow> 'm oc_mqtt_tiny_cb \<Rightarrow> int \<times> 'm oc_mqtt_tiny_cb" where
  "deal_api_unsubscribe topic cb =
     (if om_status cb = en_daemon_status_idle then (en_oc_mqtt_err_noconfigured, cb)
      else let (up, cb) = hub_up cb in
        if \<not> up then (en_oc_mqtt_err_noconected, cb)
        else let (ret, al) = mqtt_al_unsubscribe (pa_handle (om_para cb)) (Some \<lparr>up_topic = topic, up_timeout = CN_OC_MQTT_TIMEOUT\<rparr>) (om_al cb);
                 cb = cb\<lparr>om_al := al\<rparr> in
          if ret = 0
          then let (found, subs) = unlink_topic topic (om_subs cb); cb = cb\<lparr>om_subs := subs\<rparr>
               in (en_oc_mqtt_err_ok, if found then om_free (Some ()) cb else cb)
          else (en_oc_mqtt_err_unsubscribe, cb))"

datatype oc_cmd =
  CConnect oc_mqtt_config_t | CSend | CPublish "bytes option" bytes int | CSubscribe bytes int | CUnsubscribe bytes | CDisconnect
| CBsgetaddr | CRebootstrap

definition cmd_connect :: "oc_mqtt_config_t \<Rightarrow> 'm oc_mqtt_tiny_cb \<Rightarrow> (int \<times> 'm oc_mqtt_tiny_cb) option" where
  "cmd_connect config cb =
     (if om_status cb \<noteq> en_daemon_status_idle then Some (en_oc_mqtt_err_configured, cb)
      else do {
        (ret, cb) \<leftarrow> config_parameter_clone config cb;
        (ret, cb) \<leftarrow> (if ret = en_oc_mqtt_err_ok \<and> om_bs_enable cb then bs_step (cb\<lparr>om_status := en_daemon_status_bs_getaddr\<rparr>) else Some (ret, cb));
        (ret, cb) \<leftarrow> (if ret = en_oc_mqtt_err_ok then hub_step (cb\<lparr>om_status := en_daemon_status_dmp_connecting\<rparr>) else Some (ret, cb));
        Some (ret, if ret = en_oc_mqtt_err_ok then cb\<lparr>om_status := en_daemon_status_hub_keep\<rparr>
                   else snd (config_parameter_release (oc_mqtt_para_release (cb\<lparr>om_status := en_daemon_status_idle\<rparr>)))) })"

text \<open>A command and the code it leaves; those without a case keep the code they are posted with.\<close>

fun deal_cmd :: "oc_cmd \<Rightarrow> 'm oc_mqtt_tiny_cb \<Rightarrow> (int \<times> 'm oc_mqtt_tiny_cb) option" where
  "deal_cmd (CConnect config) cb = cmd_connect config cb"
| "deal_cmd CDisconnect cb =
     Some (if om_status cb = en_daemon_status_idle then (en_oc_mqtt_err_noconfigured, cb)
           else config_parameter_release (oc_mqtt_para_release cb))"
| "deal_cmd (CPublish topic msg qos) cb =
     (if om_status cb = en_daemon_status_idle then Some (en_oc_mqtt_err_noconfigured, cb)
      else let (up, cb) = hub_up cb in if up then dmp_publish topic msg qos cb else Some (en_oc_mqtt_err_noconected, cb))"
| "deal_cmd (CSubscribe topic qos) cb = Some (deal_api_subscribe topic qos cb)"
| "deal_cmd (CUnsubscribe topic) cb = Some (deal_api_unsubscribe topic cb)"
| "deal_cmd CSend cb = Some (en_oc_mqtt_err_system, cb)"
| "deal_cmd CBsgetaddr cb = Some (en_oc_mqtt_err_system, cb)"
| "deal_cmd CRebootstrap cb = Some (en_oc_mqtt_err_system, cb)"

text \<open>What the daemon does after a command or after ten seconds without one.\<close>

definition daemon_tail :: "'m oc_mqtt_tiny_cb \<Rightarrow> 'm oc_mqtt_tiny_cb option" where
  "daemon_tail cb =
     (if om_do_bootstrap cb
      then do {
        (_, cb) \<leftarrow> bs_step (cb\<lparr>om_do_bootstrap := False, om_status := en_daemon_status_bs_getaddr\<rparr>);
        (_, cb) \<leftarrow> hub_step (cb\<lparr>om_status := en_daemon_status_hub_keep\<rparr>);
        Some cb }
      else if om_status cb = en_daemon_status_hub_keep
      then let (up, cb) = hub_up cb in
        if up then Some cb
        else
          let cb = (if \<not> om_do_reportdisconnect cb \<and> cf_log_dealer (om_config cb)
                    then cb\<lparr>om_log := om_log cb @ [EvDisconnected], om_do_reportdisconnect := True\<rparr> else cb)
          in do { (_, cb) \<leftarrow> hub_step cb; Some cb }
      else Some cb)"

text \<open>A turn of the loop, with a command or without; the result is that of the command.\<close>

definition daemon_turn :: "oc_cmd option \<Rightarrow> 'm oc_mqtt_tiny_cb \<Rightarrow> (int \<times> 'm oc_mqtt_tiny_cb) option" where
  "daemon_turn cmd cb = do {
     (ret, cb) \<leftarrow> (case cmd of None \<Rightarrow> Some (en_oc_mqtt_err_ok, cb) | Some c \<Rightarrow> deal_cmd c cb);
     cb \<leftarrow> daemon_tail cb;
     Some (ret, cb) }"

fun daemon_run :: "oc_cmd option list \<Rightarrow> 'm oc_mqtt_tiny_cb \<Rightarrow> (int list \<times> 'm oc_mqtt_tiny_cb) option" where
  "daemon_run [] cb = Some ([], cb)"
| "daemon_run (c # cs) cb = do { (ret, cb) \<leftarrow> daemon_turn c cb; (rets, cb) \<leftarrow> daemon_run cs cb; Some (ret # rets, cb) }"

section \<open>The interface\<close>

text \<open>A command is posted and its result awaited; \<open>om_posts\<close> has the outcomes of the semaphore and of the queue. The control block is \<open>None\<close> before the start.\<close>

definition daemon_cmd_post :: "oc_cmd \<Rightarrow> 'm oc_mqtt_tiny_cb option \<Rightarrow> (int \<times> 'm oc_mqtt_tiny_cb option) option" where
  "daemon_cmd_post cmd g = do {
     cb \<leftarrow> g;
     let (ok, cb) = om_malloc cb;
     if \<not> ok then Some (en_oc_mqtt_err_system, Some cb)
     else do {
       let (posted, os) = alloc (om_posts cb);
       let cb = cb\<lparr>om_posts := os\<rparr>;
       (ret, cb) \<leftarrow> (if posted then daemon_turn (Some cmd) cb else Some (en_oc_mqtt_err_system, cb));
       Some (ret, Some (om_free (Some ()) cb)) } }"

definition clamp_lifetime :: "u16 \<Rightarrow> u16" where
  "clamp_lifetime lifetime = (if lifetime = 0 then 120 else if lifetime < 30 then 30 else if lifetime > 1200 then 1200 else lifetime)"

definition tiny_config :: "oc_mqtt_config_t option \<Rightarrow> 'm oc_mqtt_tiny_cb option \<Rightarrow> (int \<times> 'm oc_mqtt_tiny_cb option) option" where
  "tiny_config config g =
     (case config of
        None \<Rightarrow> Some (en_oc_mqtt_err_parafmt, g)
      | Some config \<Rightarrow>
          if cf_server_addr config = None \<or> cf_server_port config = None then Some (en_oc_mqtt_err_parafmt, g)
          else let config = config\<lparr>cf_lifetime := clamp_lifetime (cf_lifetime config)\<rparr> in
            if cf_id config = None then Some (en_oc_mqtt_err_parafmt, g)
            else if (case cf_security config of SECURITY_PSK _ _ \<Rightarrow> True | _ \<Rightarrow> False) then Some (en_oc_mqtt_err_parafmt, g)
            else if cf_pwd config = None \<and>
                (case cf_security config of SECURITY_CERT c \<Rightarrow> ct_client_ca c = None \<or> ct_client_pk c = None | _ \<Rightarrow> True)
              then Some (en_oc_mqtt_err_parafmt, g)
            else daemon_cmd_post (CConnect config) g)"

definition tiny_publish :: "bytes option \<Rightarrow> bytes \<Rightarrow> int \<Rightarrow> 'm oc_mqtt_tiny_cb option \<Rightarrow> (int \<times> 'm oc_mqtt_tiny_cb option) option" where
  "tiny_publish topic payload qos g =
     (if qos \<ge> 3 then Some (en_oc_mqtt_err_parafmt, g)
      else if g = None then Some (en_oc_mqtt_err_system, g)
      else daemon_cmd_post (CPublish topic payload qos) g)"

text \<open>The length of the topic is taken with \<^verbatim>\<open>strlen\<close>, which follows it: a topic that is \<^verbatim>\<open>NULL\<close> is undefined.\<close>

definition tiny_subscribe :: "bytes option \<Rightarrow> int \<Rightarrow> 'm oc_mqtt_tiny_cb option \<Rightarrow> (int \<times> 'm oc_mqtt_tiny_cb option) option" where
  "tiny_subscribe topic qos g =
     (if qos \<ge> 3 then Some (en_oc_mqtt_err_parafmt, g)
      else if g = None then Some (en_oc_mqtt_err_system, g)
      else do { topic \<leftarrow> topic; daemon_cmd_post (CSubscribe topic qos) g })"

definition tiny_unsubscribe :: "bytes option \<Rightarrow> 'm oc_mqtt_tiny_cb option \<Rightarrow> (int \<times> 'm oc_mqtt_tiny_cb option) option" where
  "tiny_unsubscribe topic g =
     (if g = None then Some (en_oc_mqtt_err_system, g)
      else do { topic \<leftarrow> topic; daemon_cmd_post (CUnsubscribe topic) g })"

definition tiny_deconfig :: "'m oc_mqtt_tiny_cb option \<Rightarrow> (int \<times> 'm oc_mqtt_tiny_cb option) option" where
  "tiny_deconfig g = daemon_cmd_post CDisconnect g"

section \<open>The table of agents\<close>

record 'g oc_mqtt_op =
  oc_config :: "(oc_mqtt_config_t option \<Rightarrow> 'g \<Rightarrow> (int \<times> 'g) option) option"
  oc_deconfig :: "('g \<Rightarrow> (int \<times> 'g) option) option"
  oc_publish :: "(bytes option \<Rightarrow> bytes \<Rightarrow> int \<Rightarrow> 'g \<Rightarrow> (int \<times> 'g) option) option"
  oc_subscribe :: "(bytes option \<Rightarrow> int \<Rightarrow> 'g \<Rightarrow> (int \<times> 'g) option) option"
  oc_unsubscribe :: "(bytes option \<Rightarrow> 'g \<Rightarrow> (int \<times> 'g) option) option"

record 'g oc_mqtt_cb =
  ob_op :: "'g oc_mqtt_op option"
  ob_agent :: 'g

definition s_oc_mqtt_tiny :: "'m oc_mqtt_tiny_cb option oc_mqtt_op" where
  "s_oc_mqtt_tiny = \<lparr>oc_config = Some tiny_config, oc_deconfig = Some tiny_deconfig, oc_publish = Some tiny_publish,
     oc_subscribe = Some tiny_subscribe, oc_unsubscribe = Some tiny_unsubscribe\<rparr>"

definition oc_mqtt_register :: "'g oc_mqtt_op option \<Rightarrow> 'g oc_mqtt_cb \<Rightarrow> int \<times> 'g oc_mqtt_cb" where
  "oc_mqtt_register opt s = (if opt \<noteq> None then (en_oc_mqtt_err_ok, s\<lparr>ob_op := opt\<rparr>) else (en_oc_mqtt_err_system, s))"

definition oc_call :: "('g oc_mqtt_op \<Rightarrow> 'f option) \<Rightarrow> ('f \<Rightarrow> 'g \<Rightarrow> (int \<times> 'g) option) \<Rightarrow> 'g oc_mqtt_cb \<Rightarrow> (int \<times> 'g oc_mqtt_cb) option" where
  "oc_call sel use s =
     (case Option.bind (ob_op s) sel of
        None \<Rightarrow> Some (en_oc_mqtt_err_system, s)
      | Some f \<Rightarrow> do { (ret, g) \<leftarrow> use f (ob_agent s); Some (ret, s\<lparr>ob_agent := g\<rparr>) })"

definition oc_mqtt_config :: "oc_mqtt_config_t option \<Rightarrow> 'g oc_mqtt_cb \<Rightarrow> (int \<times> 'g oc_mqtt_cb) option" where
  "oc_mqtt_config param = oc_call oc_config (\<lambda>f. f param)"

text \<open>The check is of the function \<^verbatim>\<open>config\<close>, the call is of \<^verbatim>\<open>deconfig\<close>.\<close>

definition oc_mqtt_deconfig :: "'g oc_mqtt_cb \<Rightarrow> (int \<times> 'g oc_mqtt_cb) option" where
  "oc_mqtt_deconfig s =
     (case Option.bind (ob_op s) oc_config of
        None \<Rightarrow> Some (en_oc_mqtt_err_system, s)
      | Some _ \<Rightarrow> do {
          f \<leftarrow> Option.bind (ob_op s) oc_deconfig;
          (ret, g) \<leftarrow> f (ob_agent s);
          Some (ret, s\<lparr>ob_agent := g\<rparr>) })"

definition oc_mqtt_publish :: "bytes option \<Rightarrow> bytes \<Rightarrow> int \<Rightarrow> 'g oc_mqtt_cb \<Rightarrow> (int \<times> 'g oc_mqtt_cb) option" where
  "oc_mqtt_publish topic msg qos = oc_call oc_publish (\<lambda>f. f topic msg qos)"

definition oc_mqtt_report :: "bytes \<Rightarrow> int \<Rightarrow> 'g oc_mqtt_cb \<Rightarrow> (int \<times> 'g oc_mqtt_cb) option" where
  "oc_mqtt_report msg qos = oc_mqtt_publish None msg qos"

definition oc_mqtt_subscribe :: "bytes option \<Rightarrow> int \<Rightarrow> 'g oc_mqtt_cb \<Rightarrow> (int \<times> 'g oc_mqtt_cb) option" where
  "oc_mqtt_subscribe topic qos = oc_call oc_subscribe (\<lambda>f. f topic qos)"

definition oc_mqtt_unsubscribe :: "bytes option \<Rightarrow> 'g oc_mqtt_cb \<Rightarrow> (int \<times> 'g oc_mqtt_cb) option" where
  "oc_mqtt_unsubscribe topic = oc_call oc_unsubscribe (\<lambda>f. f topic)"

definition s_oc_mqtt_err_tab :: "string list" where
  "s_oc_mqtt_err_tab = [''success'', ''parameter_err'', ''network_err'', ''version_err'', ''clientid_err'', ''server_err'', ''userpwd_err'',
     ''clientauth_err'', ''subscribe_err'', ''publish_err'', ''reconfigure_err'', ''nonconfigure_err'', ''mqttconnect_err'', ''bsaddrtimeout_err'',
     ''sysmemory_err'', ''system_err'']"

definition oc_mqtt_err :: "int \<Rightarrow> string" where
  "oc_mqtt_err code = (if 0 \<le> code \<and> nat code < length s_oc_mqtt_err_tab then s_oc_mqtt_err_tab ! nat code else ''UNKNOWN'')"

text \<open>The control block that the start of the agent has cleared, with its environment.\<close>

definition oc_mqtt_zero :: "'m mqtt_al_cb \<Rightarrow> (bytes \<Rightarrow> json_addr) \<Rightarrow> (bytes \<Rightarrow> bytes \<Rightarrow> bytes) \<Rightarrow> 'm oc_mqtt_tiny_cb" where
  "oc_mqtt_zero al parse md = \<lparr>om_config_mem = None, om_config = zero_config, om_para = zero_para, om_bs_enable = False,
     om_status = en_daemon_status_idle, om_get_hubaddr = False, om_do_bootstrap = False, om_do_reportdisconnect = False, om_hub_addr = None,
     om_hub_port = None, om_salt_time = [], om_hub_topics = replicate (length s_new_topic_fmt) None, om_subs = [], om_al = al, om_blocks = 0,
     om_mallocs = [], om_posts = [], om_dates = [], om_arrivals = [], om_parse = parse, om_hmac = md, om_log = []\<rparr>"

text \<open>The start: memory, the queue and the task, and the entry in the table of agents.\<close>

definition oc_mqtt_imp_init ::
  "bool \<Rightarrow> bool \<Rightarrow> bool \<Rightarrow> 'm oc_mqtt_tiny_cb \<Rightarrow> 'm oc_mqtt_tiny_cb option oc_mqtt_cb \<Rightarrow> int \<times> 'm oc_mqtt_tiny_cb option oc_mqtt_cb" where
  "oc_mqtt_imp_init mem_ok queue_ok task_ok zero t =
     (if \<not> mem_ok \<or> \<not> queue_ok \<or> \<not> task_ok then (-1, t)
      else let (ret, t) = oc_mqtt_register (Some s_oc_mqtt_tiny) t in
        if ret \<noteq> 0 then (ret, t) else (ret, t\<lparr>ob_agent := Some zero\<rparr>))"

end
