(* ===== verification/OcAgent.thy ===== *)
theory OcAgent
  imports OcMqtt
begin

text \<open>
  Properties of the agent of \<open>OcMqtt\<close>: in every run of the daemon, with any behaviour of the MQTT library and of the memory, nothing undefined
  happens, no block is lost, and between two turns the agent is either released or configured.
\<close>

section \<open>Counting blocks\<close>

definition blk :: "'a option \<Rightarrow> int" where
  "blk p = (if p = None then 0 else 1)"

lemma blk_simps [simp]: "blk None = 0" "blk (Some x) = 1"
  by (simp_all add: blk_def)

definition blks :: "'a option list \<Rightarrow> int" where
  "blks ps = sum_list (map blk ps)"

lemma blks_simps [simp]: "blks [] = 0" "blks (p # ps) = blk p + blks ps" "blks (map Some xs) = int (length xs)" "blks (replicate n None) = 0"
proof -
  show "blks (map Some xs) = int (length xs)" by (induction xs) (simp_all add: blks_def)
  show "blks (replicate n None) = 0" by (induction n) (simp_all add: blks_def)
qed (simp_all add: blks_def)

definition para_blocks :: "oc_mqtt_para \<Rightarrow> int" where
  "para_blocks pa = blk (pa_clientid pa) + blk (pa_user pa) + blk (pa_passwd pa) + blk (pa_pub_topic pa) + blk (pa_sub_topic pa)"

text \<open>The blocks that the control block points to, and those beyond.\<close>

definition held :: "'m oc_mqtt_tiny_cb \<Rightarrow> int" where
  "held s = blk (om_config_mem s) + blk (om_hub_addr s) + blk (om_hub_port s) + blks (om_hub_topics s) + para_blocks (om_para s) +
     int (length (om_subs s))"

definition slack :: "'m oc_mqtt_tiny_cb \<Rightarrow> int" where
  "slack s = om_blocks s - held s"

lemma om_malloc_eq: "\<exists>ok os. om_malloc s = (ok, s\<lparr>om_mallocs := os, om_blocks := om_blocks s + (if ok then 1 else 0)\<rparr>)"
  by (cases "alloc (om_mallocs s)") (auto simp: om_malloc_def)

lemma om_free_eq: "om_free p s = s\<lparr>om_blocks := om_blocks s - blk p\<rparr>"
  by (cases p) (simp_all add: om_free_def)

lemma free_all_eq: "free_all ps s = s\<lparr>om_blocks := om_blocks s - blks ps\<rparr>"
  by (induction ps arbitrary: s) (simp_all add: om_free_eq algebra_simps)

lemma om_strdup_eq:
  "\<exists>r os. om_strdup ch s = (r, s\<lparr>om_mallocs := os, om_blocks := om_blocks s + blk r\<rparr>) \<and> (r = None \<or> r = ch)"
proof (cases ch)
  case None
  then show ?thesis by (intro exI[of _ None] exI[of _ "om_mallocs s"]) (simp add: om_strdup_def)
next
  case (Some x)
  obtain ok os where "om_malloc s = (ok, s\<lparr>om_mallocs := os, om_blocks := om_blocks s + (if ok then 1 else 0)\<rparr>)" using om_malloc_eq by blast
  then show ?thesis using Some
    by (intro exI[of _ "if ok then ch else None"] exI[of _ os]) (simp add: om_strdup_def)
qed

lemma topic_fmt_eq:
  "\<exists>r os. topic_fmt fmt ident s = (r, s\<lparr>om_mallocs := os, om_blocks := om_blocks s + blk r\<rparr>)"
proof -
  obtain ok os where "om_malloc s = (ok, s\<lparr>om_mallocs := os, om_blocks := om_blocks s + (if ok then 1 else 0)\<rparr>)" using om_malloc_eq by blast
  then show ?thesis
    by (intro exI[of _ "if ok then Some (take (length fmt + length ident) (expand fmt [ident])) else None"] exI[of _ os])
      (simp add: topic_fmt_def Let_def)
qed

lemma config_release_eq:
  "config_parameter_release s = (0, s\<lparr>om_config_mem := None, om_hub_topics := replicate 5 None, om_config := zero_config, om_hub_addr := None,
     om_hub_port := None, om_status := en_daemon_status_idle, om_subs := [],
     om_blocks := om_blocks s - blk (om_config_mem s) - blk (om_hub_addr s) - blk (om_hub_port s) - blks (om_hub_topics s) -
       int (length (om_subs s))\<rparr>)"
  by (simp add: config_parameter_release_def om_free_eq free_all_eq s_new_topic_fmt_def Let_def algebra_simps eval_nat_numeral)

lemma para_release_eq:
  "oc_mqtt_para_release s = s\<lparr>om_al := snd (mqtt_al_disconnect (pa_handle (om_para s)) (om_al s)), om_para := zero_para,
     om_blocks := om_blocks s - para_blocks (om_para s)\<rparr>"
  by (simp add: oc_mqtt_para_release_def free_all_eq para_blocks_def Let_def algebra_simps)

lemma zero_para_blocks [simp]: "para_blocks zero_para = 0"
  by (simp add: para_blocks_def zero_para_def)

lemma release_slack [simp]: "slack (snd (config_parameter_release s)) = slack s" "slack (oc_mqtt_para_release s) = slack s"
  by (simp_all add: config_release_eq para_release_eq slack_def held_def)

section \<open>The environment\<close>

definition port_ok :: "bytes option \<Rightarrow> bool" where
  "port_ok p \<longleftrightarrow> (case p of None \<Rightarrow> True | Some port \<Rightarrow> atoi port \<noteq> None)"

lemma port_ok_simps [simp]: "port_ok None" "port_ok (Some p) \<longleftrightarrow> atoi p \<noteq> None"
  by (simp_all add: port_ok_def)

text \<open>What the code relies on: the clock can be converted, an address is a string with a number after its last colon, the hash has its length.\<close>

definition addr_ok :: "json_addr \<Rightarrow> bool" where
  "addr_ok j \<longleftrightarrow> (case j of
        JNotString \<Rightarrow> False
      | JString v \<Rightarrow> (case strrchr_split 58 v of None \<Rightarrow> True | Some (addr, port) \<Rightarrow> port_ok (Some port))
      | _ \<Rightarrow> True)"

definition env_ok :: "'m oc_mqtt_tiny_cb \<Rightarrow> bool" where
  "env_ok s \<longleftrightarrow> None \<notin> set (om_dates s) \<and>
     (\<forall>p. addr_ok (om_parse s p)) \<and>
     (\<forall>key content. length (om_hmac s key content) = CN_HMAC_LEN)"

definition common_ok :: "'m oc_mqtt_tiny_cb \<Rightarrow> bool" where
  "common_ok s \<longleftrightarrow> env_ok s \<and> \<not> om_do_bootstrap s \<and> length (om_hub_topics s) = 5 \<and> distinct (map fst (om_subs s)) \<and> port_ok (cf_server_port (om_config s)) \<and>
     port_ok (om_hub_port s)"

definition cfg_idle :: "'m oc_mqtt_tiny_cb \<Rightarrow> bool" where
  "cfg_idle s \<longleftrightarrow> om_config_mem s = None \<and> om_para s = zero_para \<and> om_hub_addr s = None \<and> om_hub_port s = None \<and>
     om_hub_topics s = replicate 5 None \<and> om_subs s = []"

definition cfg_set :: "'m oc_mqtt_tiny_cb \<Rightarrow> bool" where
  "cfg_set s \<longleftrightarrow> om_config_mem s \<noteq> None \<and> cf_id (om_config s) \<noteq> None \<and> None \<notin> set (om_hub_topics s)"

text \<open>Whoever is connected has its topics.\<close>

definition para_ok :: "'m oc_mqtt_tiny_cb \<Rightarrow> bool" where
  "para_ok s \<longleftrightarrow> (pa_handle (om_para s) \<noteq> None \<longrightarrow> pa_pub_topic (om_para s) \<noteq> None \<and> pa_sub_topic (om_para s) \<noteq> None)"

definition oc_inv :: "'m oc_mqtt_tiny_cb \<Rightarrow> bool" where
  "oc_inv s \<longleftrightarrow> common_ok s \<and> para_ok s \<and>
     (om_status s = en_daemon_status_idle \<and> cfg_idle s \<or> om_status s = en_daemon_status_hub_keep \<and> cfg_set s)"

text \<open>What the steps of a connection leave alone.\<close>

definition core :: "'m oc_mqtt_tiny_cb \<Rightarrow> _" where
  "core s = (om_config_mem s, om_config s, om_bs_enable s, om_status s, om_hub_topics s, om_subs s, om_do_bootstrap s, om_parse s, om_hmac s)"

lemma core_ok:
  assumes "core s' = core s"
  shows "None \<notin> set (om_dates s') \<Longrightarrow> port_ok (om_hub_port s') \<Longrightarrow> common_ok s \<Longrightarrow> common_ok s'" and "cfg_set s \<Longrightarrow> cfg_set s'"
  using assms by (auto simp: core_def common_ok_def env_ok_def cfg_set_def)

section \<open>Generating the parameters\<close>

lemma hex_char_nonzero: "n < 16 \<Longrightarrow> hex_char n \<noteq> 0"
  using hex_digit_char[of n] by (auto simp: hex_digit_def)

lemma hexs_nonzero: "0 \<notin> set (hexs bs)"
proof (induction bs)
  case (Cons b bs)
  have "hex_char (drop_bit 4 b AND 0x0F) \<noteq> 0" "hex_char (b AND 0x0F) \<noteq> 0" by (rule hex_char_nonzero, rule nibble_less)+
  then show ?case using Cons by auto
qed simp

lemma hash_text:
  assumes "length h = CN_HMAC_LEN"
  shows "byte2hexstr (Some h) (int CN_HMAC_LEN) (Some (replicate (CN_HMAC_LEN * 2 + 1) 0)) = Some (0, Some (hexs h @ [0]))"
proof -
  let ?z = "replicate (CN_HMAC_LEN * 2 + 1) (0 :: u8)"
  have l: "byte2hexstr_loop 0 32 h ?z = Some (hexs h @ [0])"
    using byte2hexstr_loop_put[of 0 32 h ?z] assms by (simp add: put_def)
  have "put 64 [0] (hexs h @ [0]) = Some (hexs h @ [0])" using assms by (simp add: put_def)
  then show ?thesis using l by (simp add: byte2hexstr_def)
qed

lemma hmac_length:
  "\<lbrakk>\<And>k c. length (md k c) = CN_HMAC_LEN\<rbrakk> \<Longrightarrow> \<exists>h. hmac_generate_passwd md pwd key (replicate CN_HMAC_LEN 0) = Some h \<and> length h = CN_HMAC_LEN"
  by (simp add: hmac_generate_passwd_def put_def)

lemma para_passwd_eq:
  assumes "\<And>k c. length (om_hmac s k c) = CN_HMAC_LEN"
  shows "\<exists>ok p os. para_passwd s = Some (ok, s\<lparr>om_para := (om_para s)\<lparr>pa_passwd := p\<rparr>, om_mallocs := os, om_blocks := om_blocks s + blk p\<rparr>)
    \<or> para_passwd s = Some (False, s\<lparr>om_mallocs := os\<rparr>)"
proof (cases "cf_pwd (om_config s)")
  case None
  then have "para_passwd s = Some (True, s\<lparr>om_para := (om_para s)\<lparr>pa_passwd := None\<rparr>, om_mallocs := om_mallocs s, om_blocks := om_blocks s + blk None\<rparr>)"
    by (simp add: para_passwd_def)
  then show ?thesis by blast
next
  case (Some pwd)
  obtain h where h: "hmac_generate_passwd (om_hmac s) pwd (om_salt_time s) (replicate CN_HMAC_LEN 0) = Some h" "length h = CN_HMAC_LEN"
    using hmac_length[of "om_hmac s", OF assms] by blast
  obtain ok os where m: "om_malloc s = (ok, s\<lparr>om_mallocs := os, om_blocks := om_blocks s + (if ok then 1 else 0)\<rparr>)" using om_malloc_eq by blast
  have c: "c_str (hexs h @ [0]) = Some (hexs h)" using hexs_nonzero[of h] by simp
  have e: "para_passwd s = (if ok then Some (True, s\<lparr>om_mallocs := os, om_blocks := om_blocks s + 1, om_para := (om_para s)\<lparr>pa_passwd := Some (hexs h)\<rparr>\<rparr>)
      else Some (False, s\<lparr>om_mallocs := os\<rparr>))"
    unfolding para_passwd_def Some option.case h(1) Option.bind.bind_lunit m Let_def prod.case hash_text[OF h(2)] c
    by (cases ok) simp_all
  show ?thesis
  proof (cases ok)
    case True
    have "para_passwd s = Some (True, s\<lparr>om_para := (om_para s)\<lparr>pa_passwd := Some (hexs h)\<rparr>, om_mallocs := os, om_blocks := om_blocks s + blk (Some (hexs h))\<rparr>)"
      unfolding e if_P[OF True] by simp
    then show ?thesis by blast
  next
    case False
    then show ?thesis using e by auto
  qed
qed

text \<open>The rest of the state, which generating and connecting leave alone too.\<close>

definition frame :: "'m oc_mqtt_tiny_cb \<Rightarrow> _" where
  "frame s = (core s, om_hub_addr s, om_hub_port s, om_get_hubaddr s, om_arrivals s, om_do_reportdisconnect s, om_log s)"

definition gen_done :: "'m oc_mqtt_tiny_cb \<Rightarrow> bool" where
  "gen_done s \<longleftrightarrow> pa_clientid (om_para s) \<noteq> None \<and> pa_user (om_para s) \<noteq> None \<and> pa_server_addr (om_para s) \<noteq> None \<and>
     pa_server_port (om_para s) \<noteq> None \<and> port_ok (pa_server_port (om_para s)) \<and> pa_pub_topic (om_para s) \<noteq> None \<and>
     pa_sub_topic (om_para s) \<noteq> None"

text \<open>Two states that differ in the connection and the memory only, with the same slack.\<close>

definition moved :: "'m oc_mqtt_tiny_cb \<Rightarrow> 'm oc_mqtt_tiny_cb \<Rightarrow> bool" where
  "moved s s' \<longleftrightarrow> frame s' = frame s \<and> slack s' = slack s \<and> set (om_dates s') \<subseteq> set (om_dates s)"

lemma moved_trans: "moved s s' \<Longrightarrow> moved s' s'' \<Longrightarrow> moved s s''"
  by (auto simp: moved_def)

lemma moved_release: "moved s (oc_mqtt_para_release s)"
  by (simp add: moved_def) (simp add: para_release_eq frame_def core_def)

lemma moved_ok:
  assumes "moved s s'"
  shows "common_ok s \<Longrightarrow> common_ok s'" and "cfg_set s \<Longrightarrow> cfg_set s'" and "om_status s' = om_status s" and "om_bs_enable s' = om_bs_enable s"
    and "om_config s' = om_config s" and "om_subs s' = om_subs s" and "om_hub_topics s' = om_hub_topics s" and "slack s' = slack s"
    and "om_hub_addr s' = om_hub_addr s" and "om_hub_port s' = om_hub_port s" and "om_get_hubaddr s' = om_get_hubaddr s" and "om_log s' = om_log s"
    and "om_do_bootstrap s' = om_do_bootstrap s" and "om_arrivals s' = om_arrivals s"
proof -
  have c: "core s' = core s" "om_hub_port s' = om_hub_port s" "set (om_dates s') \<subseteq> set (om_dates s)"
    using assms by (simp_all add: moved_def frame_def)
  show "common_ok s \<Longrightarrow> common_ok s'" using core_ok(1)[OF c(1)] c(2,3) by (auto simp: common_ok_def env_ok_def)
  show "cfg_set s \<Longrightarrow> cfg_set s'" by (rule core_ok(2)[OF c(1)])
qed (use assms in \<open>simp_all add: moved_def frame_def core_def\<close>)

lemma exit_mem_eq: "para_exit_mem s = Some (en_oc_mqtt_err_sysmem, oc_mqtt_para_release s)"
  by (simp add: para_exit_mem_def)

lemma release_para [simp]: "om_para (oc_mqtt_para_release s) = zero_para"
  by (simp add: para_release_eq)

lemma next_date_eq: "None \<notin> set (om_dates s) \<Longrightarrow>
    \<exists>y mo d h ds. next_date s = (Some (y, mo, d, h), s\<lparr>om_dates := ds\<rparr>) \<and> set ds \<subseteq> set (om_dates s)"
proof (cases "om_dates s")
  case Nil
  then show ?thesis by (intro exI[of _ 70] exI[of _ 0] exI[of _ 1] exI[of _ 0] exI[of _ "om_dates s"]) (simp add: next_date_def)
next
  case (Cons d ds)
  assume "None \<notin> set (om_dates s)"
  then obtain y mo dd h where "d = Some (y, mo, dd, h)" using Cons by (cases d) auto
  then show ?thesis using Cons by (intro exI[of _ y] exI[of _ mo] exI[of _ dd] exI[of _ h] exI[of _ ds]) (auto simp: next_date_def)
qed

text \<open>The state with the parameters built so far.\<close>

definition built :: "oc_mqtt_para \<Rightarrow> bool list \<Rightarrow> 'm oc_mqtt_tiny_cb \<Rightarrow> 'm oc_mqtt_tiny_cb" where
  "built pa os s = s\<lparr>om_para := pa, om_mallocs := os, om_blocks := om_blocks s - para_blocks (om_para s) + para_blocks pa\<rparr>"

lemma built_moved [simp]: "moved s (built pa os s)"
  by (simp add: moved_def built_def frame_def core_def slack_def held_def)

lemma built_built [simp]: "built pa os (built pa' os' s) = built pa os s"
  by (simp add: built_def)

lemma built_fields [simp]:
  "om_para (built pa os s) = pa" "om_config (built pa os s) = om_config s" "om_status (built pa os s) = om_status s"
  "om_salt_time (built pa os s) = om_salt_time s" "om_hmac (built pa os s) = om_hmac s" "om_bs_enable (built pa os s) = om_bs_enable s"
  "om_hub_addr (built pa os s) = om_hub_addr s" "om_hub_port (built pa os s) = om_hub_port s"
  by (simp_all add: built_def)

lemma built_user: "\<exists>user os'. om_strdup ch (built zero_para os s) = (user, (built zero_para os' s)\<lparr>om_blocks := om_blocks (built zero_para os' s) + blk user\<rparr>) \<and>
    (\<forall>r. (r = user) \<longrightarrow> (built zero_para os' s)\<lparr>om_blocks := om_blocks (built zero_para os' s) + blk user, om_para := zero_para\<lparr>pa_user := r\<rparr>\<rparr> =
      built (zero_para\<lparr>pa_user := user\<rparr>) os' s) \<and> (user = None \<or> user = ch)"
proof -
  obtain user os' where u: "om_strdup ch (built zero_para os s) = (user, (built zero_para os s)\<lparr>om_mallocs := os', om_blocks := om_blocks (built zero_para os s) + blk user\<rparr>)"
      "user = None \<or> user = ch"
    using om_strdup_eq by blast
  have "(built zero_para os s)\<lparr>om_mallocs := os', om_blocks := om_blocks (built zero_para os s) + blk user\<rparr> =
      (built zero_para os' s)\<lparr>om_blocks := om_blocks (built zero_para os' s) + blk user\<rparr>" by (simp add: built_def)
  then show ?thesis using u by (intro exI[of _ user] exI[of _ os']) (auto simp: built_def para_blocks_def zero_para_def)
qed

lemma built_passwd:
  assumes "\<And>k c. length (om_hmac s k c) = CN_HMAC_LEN" and "pa_passwd pa = None"
  shows "\<exists>ok p os'. para_passwd (built pa os s) = Some (ok, built (pa\<lparr>pa_passwd := p\<rparr>) os' s)"
proof -
  have h: "\<And>k c. length (om_hmac (built pa os s) k c) = CN_HMAC_LEN" using assms(1) by simp
  consider ok p os' where "para_passwd (built pa os s) = Some (ok, (built pa os s)\<lparr>om_para := (om_para (built pa os s))\<lparr>pa_passwd := p\<rparr>,
        om_mallocs := os', om_blocks := om_blocks (built pa os s) + blk p\<rparr>)"
    | os' where "para_passwd (built pa os s) = Some (False, (built pa os s)\<lparr>om_mallocs := os'\<rparr>)"
    using para_passwd_eq[of "built pa os s", OF h] by blast
  then show ?thesis
  proof cases
    case 1
    have "(built pa os s)\<lparr>om_para := (om_para (built pa os s))\<lparr>pa_passwd := p\<rparr>, om_mallocs := os', om_blocks := om_blocks (built pa os s) + blk p\<rparr> =
        built (pa\<lparr>pa_passwd := p\<rparr>) os' s" using assms(2) by (simp add: built_def para_blocks_def)
    then show ?thesis using 1 by metis
  next
    case 2
    have "(built pa os s)\<lparr>om_mallocs := os'\<rparr> = built (pa\<lparr>pa_passwd := None\<rparr>) os' s" using assms(2) by (simp add: built_def para_blocks_def)
    then show ?thesis using 2 by metis
  qed
qed

lemma built_topics:
  assumes "pa_pub_topic pa = None" and "pa_sub_topic pa = None"
  shows "\<exists>ok pub sub os'. para_topics ident (built pa os s) = (ok, built (pa\<lparr>pa_pub_topic := pub, pa_sub_topic := sub\<rparr>) os' s) \<and>
    (ok \<longrightarrow> pub \<noteq> None \<and> sub \<noteq> None)"
proof -
  let ?b = "om_status (built pa os s) = en_daemon_status_bs_getaddr"
  let ?f = "if ?b then CN_OC_BS_REPORT_TOPIC_FMT else CN_OC_HUB_PUBTOPIC_DEFAULT_FMT"
  let ?g = "if ?b then CN_OC_BS_CMD_TOPIC_FMT else CN_OC_HUB_SUBTOPIC_DEFAULT_FMT"
  obtain pub os1 where p: "topic_fmt ?f ident (built pa os s) = (pub, (built pa os s)\<lparr>om_mallocs := os1, om_blocks := om_blocks (built pa os s) + blk pub\<rparr>)"
    using topic_fmt_eq by blast
  let ?s = "(built pa os s)\<lparr>om_mallocs := os1, om_blocks := om_blocks (built pa os s) + blk pub\<rparr>"
  obtain sub os2 where q: "topic_fmt ?g ident ?s = (sub, ?s\<lparr>om_mallocs := os2, om_blocks := om_blocks ?s + blk sub\<rparr>)"
    using topic_fmt_eq by blast
  have "(?s\<lparr>om_mallocs := os2, om_blocks := om_blocks ?s + blk sub\<rparr>)\<lparr>om_para := pa\<lparr>pa_pub_topic := pub, pa_sub_topic := sub\<rparr>\<rparr> =
      built (pa\<lparr>pa_pub_topic := pub, pa_sub_topic := sub\<rparr>) os2 s"
    using assms by (simp add: built_def para_blocks_def)
  then show ?thesis unfolding para_topics_def Let_def p prod.case q
    by (intro exI[of _ "pub \<noteq> None \<and> sub \<noteq> None"] exI[of _ pub] exI[of _ sub] exI[of _ os2]) simp
qed

lemma built_clientid:
  assumes "pa_clientid pa = None" and "group_mode \<Longrightarrow> scope \<noteq> None"
  shows "\<exists>c os'. (do { (clientid, cb) \<leftarrow> clientid_fmt ident salt scope group_mode (built pa os s);
      Some (clientid, cb\<lparr>om_para := (om_para cb)\<lparr>pa_clientid := clientid\<rparr>\<rparr>) }) = Some (c, built (pa\<lparr>pa_clientid := c\<rparr>) os' s)"
proof -
  obtain param where p: "(if group_mode then scope else Some salt) = Some param" using assms(2) by (cases group_mode) auto
  obtain ok os1 where m: "om_malloc (built pa os s) = (ok, (built pa os s)\<lparr>om_mallocs := os1, om_blocks := om_blocks (built pa os s) + (if ok then 1 else 0)\<rparr>)"
    using om_malloc_eq by blast
  let ?c = "if ok then Some (take (length (if group_mode then bytes_of ''%s_0_%s'' else bytes_of ''%s_0_0_%s'') + length ident + length param + 1 - 1)
      (expand (if group_mode then bytes_of ''%s_0_%s'' else bytes_of ''%s_0_0_%s'') [ident, param])) else None"
  have "(built pa os s)\<lparr>om_mallocs := os1, om_blocks := om_blocks (built pa os s) + (if ok then 1 else 0), om_para := pa\<lparr>pa_clientid := ?c\<rparr>\<rparr> =
      built (pa\<lparr>pa_clientid := ?c\<rparr>) os1 s"
    using assms(1) by (cases ok) (simp_all add: built_def para_blocks_def)
  then show ?thesis unfolding clientid_fmt_def Let_def p Option.bind.bind_lunit m prod.case
    by (intro exI[of _ ?c] exI[of _ os1]) simp
qed

definition hub_server :: "'m oc_mqtt_tiny_cb \<Rightarrow> bytes option \<times> bytes option" where
  "hub_server s =
     (if om_bs_enable s \<and> om_status s \<in> {en_daemon_status_hub_keep, en_daemon_status_dmp_connecting} then (om_hub_addr s, om_hub_port s)
      else (cf_server_addr (om_config s), cf_server_port (om_config s)))"

lemma moved_refl [simp]: "moved s s"
  by (simp add: moved_def)

lemma gen_exit:
  "moved s s' \<Longrightarrow> \<exists>ret s''. para_exit_mem s' = Some (ret, s'') \<and> moved s s'' \<and> pa_handle (om_para s'') = None \<and> ret \<in> {0, 15} \<and>
     (if ret = 0 then P s'' else om_para s'' = zero_para)"
  using moved_trans[OF _ moved_release] by (auto simp: exit_mem_eq zero_para_def)

lemma generate_ok:
  assumes "common_ok s"
  shows "\<exists>ret s'. oc_mqtt_para_gernerate s = Some (ret, s') \<and> moved s s' \<and> pa_handle (om_para s') = None \<and> ret \<in> {0, 15} \<and>
    (if ret = 0 then gen_done s' \<and> (pa_server_addr (om_para s'), pa_server_port (om_para s')) = hub_server s else om_para s' = zero_para)"
    (is "\<exists>ret s'. _ = Some (ret, s') \<and> moved s s' \<and> _ \<and> _ \<and> (if ret = 0 then ?P s' else _)")
proof -
  have env: "None \<notin> set (om_dates s)" "\<And>k c. length (om_hmac s k c) = CN_HMAC_LEN" using assms by (simp_all add: common_ok_def env_ok_def)
  obtain y mo d h ds where nd: "next_date s = (Some (y, mo, d, h), s\<lparr>om_dates := ds\<rparr>)" "set ds \<subseteq> set (om_dates s)"
    using next_date_eq[OF env(1)] by blast
  define salt where "salt = take 10 (dec_pad 4 (y + 1900) @ dec_pad 2 mo @ dec_pad 2 d @ dec_pad 2 h)"
  let ?s1 = "s\<lparr>om_dates := ds, om_salt_time := salt\<rparr>"
  define s2 where "s2 = ?s1\<lparr>om_al := snd (mqtt_al_disconnect (pa_handle (om_para s)) (om_al s))\<rparr>"
  have s2: "moved s s2" using nd(2) by (simp add: moved_def s2_def frame_def core_def slack_def held_def)
  have rel: "oc_mqtt_para_release ?s1 = built zero_para (om_mallocs s) s2"
    by (simp add: para_release_eq built_def s2_def)
  have s2f: "om_config s2 = om_config s" "om_status s2 = om_status s" "om_salt_time s2 = salt" "om_bs_enable s2 = om_bs_enable s"
    "om_hub_addr s2 = om_hub_addr s" "om_hub_port s2 = om_hub_port s" "om_hmac s2 = om_hmac s"
    by (simp_all add: s2_def)
  have mv: "moved s (built pa os s2)" for pa os using moved_trans[OF s2] by simp
  obtain user os1 where u: "om_strdup (cf_id (om_config s)) (built zero_para (om_mallocs s) s2) =
        (user, (built zero_para os1 s2)\<lparr>om_blocks := om_blocks (built zero_para os1 s2) + blk user\<rparr>)"
      "(built zero_para os1 s2)\<lparr>om_blocks := om_blocks (built zero_para os1 s2) + blk user, om_para := zero_para\<lparr>pa_user := user\<rparr>\<rparr> =
        built (zero_para\<lparr>pa_user := user\<rparr>) os1 s2" "user = None \<or> user = cf_id (om_config s)"
    using built_user[of "cf_id (om_config s)" "om_mallocs s" s2] by auto
  let ?pa1 = "zero_para\<lparr>pa_user := user\<rparr>"
  have gen: "oc_mqtt_para_gernerate s =
     (if user = None then para_exit_mem (built ?pa1 os1 s2)
      else do {
        (ok, cb) \<leftarrow> para_passwd (built ?pa1 os1 s2);
        if \<not> ok then para_exit_mem cb
        else do {
          ident \<leftarrow> cf_id (om_config cb);
          let group_mode = (om_status cb = en_daemon_status_bs_getaddr \<and> cf_scope_id (om_config cb) \<noteq> None);
          let (ok, cb) = para_topics ident cb;
          if \<not> ok then para_exit_mem cb
          else do {
            (clientid, cb) \<leftarrow> clientid_fmt ident (om_salt_time cb) (cf_scope_id (om_config cb)) group_mode cb;
            let cb = cb\<lparr>om_para := (om_para cb)\<lparr>pa_clientid := clientid\<rparr>\<rparr>;
            if clientid = None then para_exit_mem cb
            else
              let hub = om_bs_enable cb \<and> om_status cb \<in> {en_daemon_status_hub_keep, en_daemon_status_dmp_connecting};
                  addr = (if hub then om_hub_addr cb else cf_server_addr (om_config cb));
                  port = (if hub then om_hub_port cb else cf_server_port (om_config cb));
                  cb = cb\<lparr>om_para := (om_para cb)\<lparr>pa_server_addr := addr, pa_server_port := port\<rparr>\<rparr>
              in if addr = None \<or> port = None then para_exit_mem cb else Some (en_oc_mqtt_err_ok, cb) } } })"
  proof -
    let ?v = "(built zero_para os1 s2)\<lparr>om_blocks := om_blocks (built zero_para os1 s2) + blk user\<rparr>"
    have v: "?v\<lparr>om_para := (om_para ?v)\<lparr>pa_user := user\<rparr>\<rparr> = built ?pa1 os1 s2" using u(2) by simp
    show ?thesis
      unfolding oc_mqtt_para_gernerate_def Let_def nd(1) prod.case option.case salt_def[symmetric] rel built_fields(2) s2f(1) u(1) prod.case v by (rule refl)
  qed
  show ?thesis
  proof (cases user)
    case None
    show ?thesis unfolding gen if_P[OF None] by (rule gen_exit) (rule mv)
  next
    case (Some ident)
    have un: "user \<noteq> None" using Some by simp
    have idf: "cf_id (om_config s) = Some ident" "user \<noteq> None" using u(3) un Some by (metis, blast)
    obtain ok p os2 where pw: "para_passwd (built ?pa1 os1 s2) = Some (ok, built (?pa1\<lparr>pa_passwd := p\<rparr>) os2 s2)"
      using built_passwd[of s2 ?pa1 os1] env(2) by (auto simp: s2f zero_para_def)
    let ?pa2 = "?pa1\<lparr>pa_passwd := p\<rparr>"
    show ?thesis
    proof (cases ok)
      case False
      show ?thesis unfolding gen if_not_P[OF idf(2)] pw Option.bind.bind_lunit prod.case if_P[OF False]
        by (rule gen_exit) (rule mv)
    next
      case ok1: True
      obtain ok2 pub sub os3 where tp: "para_topics ident (built ?pa2 os2 s2) = (ok2, built (?pa2\<lparr>pa_pub_topic := pub, pa_sub_topic := sub\<rparr>) os3 s2)"
          "ok2 \<Longrightarrow> pub \<noteq> None \<and> sub \<noteq> None"
        using built_topics[of ?pa2 ident os2 s2] by (auto simp: zero_para_def)
      let ?pa3 = "?pa2\<lparr>pa_pub_topic := pub, pa_sub_topic := sub\<rparr>"
      have i: "cf_id (om_config (built ?pa2 os2 s2)) = Some ident" using idf s2f by simp
      show ?thesis
      proof (cases ok2)
        case False
        show ?thesis unfolding gen if_not_P[OF idf(2)] pw Option.bind.bind_lunit prod.case Let_def i tp(1)
          using ok1 False gen_exit[OF mv] by simp
      next
        case ok2: True
        let ?g = "om_status s = en_daemon_status_bs_getaddr \<and> cf_scope_id (om_config s) \<noteq> None"
        obtain c s3 os4 where cl: "clientid_fmt ident salt (cf_scope_id (om_config s)) ?g (built ?pa3 os3 s2) = Some (c, s3)"
            "s3\<lparr>om_para := (om_para s3)\<lparr>pa_clientid := c\<rparr>\<rparr> = built (?pa3\<lparr>pa_clientid := c\<rparr>) os4 s2"
          using built_clientid[of ?pa3 ?g "cf_scope_id (om_config s)" ident salt os3 s2] by (auto simp: zero_para_def bind_eq_Some_conv)
        let ?pa4 = "?pa3\<lparr>pa_clientid := c\<rparr>"
        let ?pa5 = "?pa4\<lparr>pa_server_addr := fst (hub_server s), pa_server_port := snd (hub_server s)\<rparr>"
        have b5: "(built ?pa4 os4 s2)\<lparr>om_para := ?pa5\<rparr> = built ?pa5 os4 s2" by (simp add: built_def para_blocks_def)
        have last: "oc_mqtt_para_gernerate s =
           (if c = None then para_exit_mem (built ?pa4 os4 s2)
            else if fst (hub_server s) = None \<or> snd (hub_server s) = None then para_exit_mem (built ?pa5 os4 s2)
            else Some (en_oc_mqtt_err_ok, built ?pa5 os4 s2))"
        proof -
          have f3: "om_bs_enable s3 = om_bs_enable s" "om_status s3 = om_status s" "om_hub_addr s3 = om_hub_addr s"
            "om_hub_port s3 = om_hub_port s" "om_config s3 = om_config s"
            using arg_cong[OF cl(2), of om_bs_enable] arg_cong[OF cl(2), of om_status] arg_cong[OF cl(2), of om_hub_addr]
              arg_cong[OF cl(2), of om_hub_port] arg_cong[OF cl(2), of om_config] by (simp_all add: s2f)
          let ?cb = "s3\<lparr>om_para := (om_para s3)\<lparr>pa_clientid := c\<rparr>\<rparr>"
          have h: "(if om_bs_enable ?cb \<and> om_status ?cb \<in> {en_daemon_status_hub_keep, en_daemon_status_dmp_connecting} then om_hub_addr ?cb
                else cf_server_addr (om_config ?cb)) = fst (hub_server s)"
              "(if om_bs_enable ?cb \<and> om_status ?cb \<in> {en_daemon_status_hub_keep, en_daemon_status_dmp_connecting} then om_hub_port ?cb
                else cf_server_port (om_config ?cb)) = snd (hub_server s)"
            by (auto simp: f3 hub_server_def)
          have n: "\<not> \<not> ok" "\<not> \<not> ok2" using ok1 ok2 by simp_all
          show ?thesis
            unfolding gen if_not_P[OF idf(2)] pw Option.bind.bind_lunit prod.case Let_def if_not_P[OF n(1)] if_not_P[OF n(2)]
              built_fields s2f idf(1) tp(1) cl(1)
            unfolding h unfolding cl(2) built_fields b5 by (rule refl)
        qed
        show ?thesis
        proof (cases "c = None \<or> fst (hub_server s) = None \<or> snd (hub_server s) = None")
          case True
          then show ?thesis unfolding last using gen_exit[OF mv] by (cases "c = None") simp_all
        next
          case False
          then have nn: "c \<noteq> None" "\<not> (fst (hub_server s) = None \<or> snd (hub_server s) = None)" by metis+
          have r: "oc_mqtt_para_gernerate s = Some (0, built ?pa5 os4 s2)" unfolding last if_not_P[OF nn(1)] if_not_P[OF nn(2)] by (rule refl)
          have "port_ok (snd (hub_server s))" using assms by (simp add: common_ok_def hub_server_def)
          then have "?P (built ?pa5 os4 s2)" using False tp(2)[OF ok2] Some by (simp add: gen_done_def)
          then show ?thesis unfolding r using mv[of ?pa5 os4] by (simp add: zero_para_def)
        qed
      qed
    qed
  qed
qed

section \<open>The steps of a connection\<close>

text \<open>Two states that differ in the connection, the address of the hub and what is reported.\<close>

definition roamed :: "'m oc_mqtt_tiny_cb \<Rightarrow> 'm oc_mqtt_tiny_cb \<Rightarrow> bool" where
  "roamed s s' \<longleftrightarrow> core s' = core s \<and> slack s' = slack s \<and> set (om_dates s') \<subseteq> set (om_dates s) \<and>
     (port_ok (om_hub_port s) \<longrightarrow> port_ok (om_hub_port s'))"

lemma roamed_trans: "roamed s s' \<Longrightarrow> roamed s' s'' \<Longrightarrow> roamed s s''"
  by (auto simp: roamed_def)

lemma moved_roamed: "moved s s' \<Longrightarrow> roamed s s'"
  by (auto simp: moved_def roamed_def frame_def)

lemma roamed_simps [simp]: "roamed s s" "roamed s (s\<lparr>om_al := al\<rparr>)" "roamed s (s\<lparr>om_log := evs\<rparr>)"
    "roamed s (s\<lparr>om_do_reportdisconnect := b\<rparr>)" "roamed s (s\<lparr>om_do_reportdisconnect := b, om_log := evs\<rparr>)"
    "roamed s (s\<lparr>om_log := evs, om_do_reportdisconnect := b\<rparr>)" "roamed s (s\<lparr>om_get_hubaddr := b\<rparr>)" "roamed s (s\<lparr>om_arrivals := as\<rparr>)"
    "roamed s (oc_mqtt_para_release s)"
  by (auto simp: roamed_def core_def slack_def held_def) (auto simp: para_release_eq para_blocks_def zero_para_def)

lemma roamed_ok:
  assumes "roamed s s'"
  shows "common_ok s \<Longrightarrow> common_ok s'" and "cfg_set s \<Longrightarrow> cfg_set s'" and "om_status s' = om_status s" and "om_bs_enable s' = om_bs_enable s"
    and "om_config s' = om_config s" and "om_subs s' = om_subs s" and "om_hub_topics s' = om_hub_topics s" and "slack s' = slack s"
    and "om_parse s' = om_parse s"
proof -
  show "common_ok s \<Longrightarrow> common_ok s'" using assms core_ok(1)[of s' s] by (auto simp: roamed_def common_ok_def env_ok_def)
  show "cfg_set s \<Longrightarrow> cfg_set s'" using assms core_ok(2)[of s' s] by (simp add: roamed_def)
qed (use assms in \<open>simp_all add: roamed_def core_def\<close>)

lemma sub_topic_eq: "\<exists>ret al. sub_topic dealer topic qos s = (ret, s\<lparr>om_al := al\<rparr>)"
  unfolding sub_topic_def by (auto simp: Let_def split: prod.split)

lemma sub_loop_ok: "None \<notin> set topics \<Longrightarrow> \<exists>ret' al. sub_loop topics ret s = Some (ret', s\<lparr>om_al := al\<rparr>)"
proof (induction topics arbitrary: ret s)
  case Nil
  show ?case by (intro exI[of _ ret] exI[of _ "om_al s"]) simp
next
  case (Cons t ts)
  then obtain topic where t: "t = Some topic" by (cases t) auto
  obtain r al where b: "sub_topic HubMsgDeal topic 1 s = (r, s\<lparr>om_al := al\<rparr>)" using sub_topic_eq by blast
  obtain r' al' where l: "sub_loop ts r (s\<lparr>om_al := al\<rparr>) = Some (r', (s\<lparr>om_al := al\<rparr>)\<lparr>om_al := al'\<rparr>)"
    using Cons.IH Cons.prems by (metis list.set_intros(2))
  show ?case
  proof (cases "r = 0")
    case True
    then show ?thesis using b l t by (intro exI[of _ r'] exI[of _ al']) simp
  next
    case False
    then show ?thesis using b t by (intro exI[of _ 8] exI[of _ al]) simp
  qed
qed

lemma dmp_subscribe_ok:
  assumes "pa_sub_topic (om_para s) \<noteq> None" and "None \<notin> set (om_hub_topics s)"
  shows "\<exists>ret al. dmp_subscribe s = Some (ret, s\<lparr>om_al := al\<rparr>)"
proof (cases "pa_handle (om_para s)")
  case None
  then show ?thesis by (intro exI[of _ 13] exI[of _ "om_al s"]) (simp add: dmp_subscribe_def)
next
  case (Some h)
  then have hn: "pa_handle (om_para s) \<noteq> None" by simp
  obtain topic where t: "pa_sub_topic (om_para s) = Some topic" using assms(1) by auto
  let ?d = "if om_status s = en_daemon_status_bs_getaddr then BsMsgDeal else HubMsgDeal"
  obtain r al where b: "sub_topic ?d topic 1 s = (r, s\<lparr>om_al := al\<rparr>)" using sub_topic_eq by blast
  let ?r = "if r \<noteq> 0 then en_oc_mqtt_err_subscribe else r" and ?s = "s\<lparr>om_al := al\<rparr>"
  obtain r1 al1 where l1: "sub_loop (om_hub_topics ?s) ?r ?s = Some (r1, ?s\<lparr>om_al := al1\<rparr>)"
    using sub_loop_ok[of "om_hub_topics ?s"] assms(2) by fastforce
  let ?s1 = "?s\<lparr>om_al := al1\<rparr>" and ?u = "map (\<lambda>(topic, qos). Some topic) (om_subs (?s\<lparr>om_al := al1\<rparr>))"
  have "None \<notin> set ?u" by auto
  then obtain r2 al2 where l2: "sub_loop ?u r1 ?s1 = Some (r2, ?s1\<lparr>om_al := al2\<rparr>)" using sub_loop_ok by blast
  have "dmp_subscribe s = (if om_status s = en_daemon_status_bs_getaddr then Some (?r, ?s) else Some (r2, ?s1\<lparr>om_al := al2\<rparr>))"
    unfolding dmp_subscribe_def if_not_P[OF hn] Let_def t Option.bind.bind_lunit b prod.case l1 l2 by (rule refl)
  then show ?thesis by (cases "om_status s = en_daemon_status_bs_getaddr") (simp_all, (blast | metis)+)
qed

lemma dmp_publish_ok:
  assumes "pa_pub_topic (om_para s) \<noteq> None \<or> topic \<noteq> None"
  shows "\<exists>ret al. dmp_publish topic msg qos s = Some (ret, s\<lparr>om_al := al\<rparr>)"
proof -
  obtain t where t: "(if topic = None then pa_pub_topic (om_para s) else topic) = Some t" using assms by (cases topic) auto
  show ?thesis unfolding dmp_publish_def t Option.bind.bind_lunit by (auto simp: Let_def split: prod.split)
qed

lemma dmp_connect_ok:
  assumes "gen_done s"
  shows "\<exists>ret h al. dmp_connect s = Some (ret, s\<lparr>om_al := al, om_para := (om_para s)\<lparr>pa_handle := h\<rparr>\<rparr>) \<and> (ret = 0 \<longleftrightarrow> h \<noteq> None)"
proof -
  obtain c u a p n where f: "pa_clientid (om_para s) = Some c" "pa_user (om_para s) = Some u" "pa_server_addr (om_para s) = Some a"
      "pa_server_port (om_para s) = Some p" "atoi p = Some n"
    using assms unfolding gen_done_def by auto
  let ?cp = "\<lparr>cp_serveraddr = a, cp_serverport = n, cp_security = cf_security (om_config s), cp_version = 1, cp_clientid = c,
           cp_user = u, cp_passwd = pa_passwd (om_para s), cp_cleansession = 1, cp_keepalivetime = cf_lifetime (om_config s),
           cp_timeout = CN_OC_MQTT_TIMEOUT\<rparr>"
  obtain h cr al where m: "mqtt_al_connect (Some ?cp) (om_al s) = ((h, cr), al)" by (metis surj_pair)
  show ?thesis unfolding dmp_connect_def f Option.bind.bind_lunit Let_def m prod.case
    by (intro exI[of _ "if h \<noteq> None then en_oc_mqtt_err_ok else if cr = 2 then en_oc_mqtt_err_conclientid
           else if cr = 3 then en_oc_mqtt_err_conserver else if cr = 4 then en_oc_mqtt_err_conuserpwd
           else if cr = 5 then en_oc_mqtt_err_conclient else en_oc_mqtt_err_network"] exI[of _ h] exI[of _ al]) simp
qed

text \<open>The state of an agent that is connected to the server it should be connected to.\<close>

definition linked :: "'m oc_mqtt_tiny_cb \<Rightarrow> 'm oc_mqtt_tiny_cb \<Rightarrow> bool" where
  "linked s s' \<longleftrightarrow> gen_done s' \<and> pa_handle (om_para s') \<noteq> None \<and> (pa_server_addr (om_para s'), pa_server_port (om_para s')) = hub_server s"

text \<open>What both steps begin with, and how they go on.\<close>

definition link_step ::
  "(int \<Rightarrow> 'm oc_mqtt_tiny_cb \<Rightarrow> (int \<times> 'm oc_mqtt_tiny_cb) option) \<Rightarrow> 'm oc_mqtt_tiny_cb \<Rightarrow> (int \<times> 'm oc_mqtt_tiny_cb) option" where
  "link_step k cb = do {
     (gen, cb) \<leftarrow> oc_mqtt_para_gernerate cb;
     if gen \<noteq> en_oc_mqtt_err_ok then step_exit en_oc_mqtt_err_system cb
     else do {
       (ret, cb) \<leftarrow> dmp_connect cb;
       if ret \<noteq> en_oc_mqtt_err_ok then step_exit ret cb
       else do {
         (ret, cb) \<leftarrow> dmp_subscribe cb;
         if ret \<noteq> en_oc_mqtt_err_ok then step_exit ret cb else k ret cb } } }"

lemma moved_al: "moved s (s\<lparr>om_al := al\<rparr>)" "moved s (s\<lparr>om_al := al, om_para := (om_para s)\<lparr>pa_handle := h\<rparr>\<rparr>)"
  by (simp_all add: moved_def frame_def core_def slack_def held_def para_blocks_def)

lemma link_step_ok:
  assumes "common_ok s" and "cfg_set s"
  shows "(\<exists>ret s'. link_step k s = Some (ret, s') \<and> ret \<noteq> 0 \<and> moved s s' \<and> om_para s' = zero_para) \<or>
    (\<exists>s'. link_step k s = k 0 s' \<and> moved s s' \<and> linked s s')"
proof -
  have ex: "\<exists>ret' s''. step_exit ret s' = Some (ret', s'') \<and> ret' \<noteq> 0 \<and> moved s s'' \<and> om_para s'' = zero_para"
    if "ret \<noteq> 0" and "moved s s'" for ret s'
    using that moved_trans[OF that(2) moved_release] by (auto simp: step_exit_def)
  obtain g s1 where g: "oc_mqtt_para_gernerate s = Some (g, s1)" "moved s s1"
      "g = 0 \<Longrightarrow> gen_done s1 \<and> (pa_server_addr (om_para s1), pa_server_port (om_para s1)) = hub_server s"
    using generate_ok[OF assms(1)] by metis
  show ?thesis
  proof (cases "g = 0")
    case False
    then have "link_step k s = step_exit 16 s1" by (simp add: link_step_def g(1))
    then show ?thesis using ex[of 16 s1] g(2) by auto
  next
    case True
    obtain r2 h al where c: "dmp_connect s1 = Some (r2, s1\<lparr>om_al := al, om_para := (om_para s1)\<lparr>pa_handle := h\<rparr>\<rparr>)" "r2 = 0 \<longleftrightarrow> h \<noteq> None"
      using dmp_connect_ok g(3)[OF True] by blast
    let ?s2 = "s1\<lparr>om_al := al, om_para := (om_para s1)\<lparr>pa_handle := h\<rparr>\<rparr>"
    have m2: "moved s ?s2" by (rule moved_trans[OF g(2) moved_al(2)])
    show ?thesis
    proof (cases "r2 = 0")
      case False
      then have "link_step k s = step_exit r2 ?s2" by (simp add: link_step_def g(1) c(1) \<open>g = 0\<close>)
      then show ?thesis using ex[OF False m2] by metis
    next
      case r2: True
      have "pa_sub_topic (om_para ?s2) \<noteq> None" using g(3)[OF True] by (auto simp: gen_done_def)
      moreover have "None \<notin> set (om_hub_topics ?s2)" using assms(2) moved_ok(7)[OF m2] by (auto simp: cfg_set_def)
      ultimately obtain r3 al' where u: "dmp_subscribe ?s2 = Some (r3, ?s2\<lparr>om_al := al'\<rparr>)" using dmp_subscribe_ok by blast
      have m3: "moved s (?s2\<lparr>om_al := al'\<rparr>)" by (rule moved_trans[OF m2 moved_al(1)])
      have l: "link_step k s = (if r3 \<noteq> 0 then step_exit r3 (?s2\<lparr>om_al := al'\<rparr>) else k r3 (?s2\<lparr>om_al := al'\<rparr>))"
        unfolding link_step_def g(1) Option.bind.bind_lunit prod.case c(1) u using True r2 by simp
      show ?thesis
      proof (cases "r3 = 0")
        case False
        then have "link_step k s = step_exit r3 (?s2\<lparr>om_al := al'\<rparr>)" unfolding l by simp
        then show ?thesis using ex[OF False m3] by metis
      next
        case r3: True
        have "link_step k s = k 0 (?s2\<lparr>om_al := al'\<rparr>)" unfolding l using r3 by simp
        moreover have "linked s (?s2\<lparr>om_al := al'\<rparr>)" using g(3)[OF True] c(2) r2 by (auto simp: linked_def gen_done_def)
        ultimately show ?thesis using m3 by blast
      qed
    qed
  qed
qed

lemma hub_step_link: "hub_step = link_step (\<lambda>ret cb. Some (ret, if cf_log_dealer (om_config cb)
    then cb\<lparr>om_do_reportdisconnect := False, om_log := om_log cb @ [EvConnected]\<rparr> else cb))"
  by (simp add: fun_eq_iff hub_step_def link_step_def)

lemma linked_para [simp]: "linked s (s'\<lparr>om_do_reportdisconnect := b, om_log := evs\<rparr>) = linked s s'"
  by (simp add: linked_def gen_done_def)

text \<open>The hub: connected with success, released without.\<close>

lemma hub_step_ok:
  fixes s :: "'m oc_mqtt_tiny_cb"
  assumes "common_ok s" and "cfg_set s"
  shows "\<exists>ret s'. hub_step s = Some (ret, s') \<and> roamed s s' \<and> (if ret = 0 then linked s s' else om_para s' = zero_para) \<and>
    om_hub_addr s' = om_hub_addr s \<and> om_hub_port s' = om_hub_port s"
  using link_step_ok[OF assms, of "\<lambda>ret cb. Some (ret, if cf_log_dealer (om_config cb)
    then cb\<lparr>om_do_reportdisconnect := False, om_log := om_log cb @ [EvConnected]\<rparr> else cb)"]
proof (elim disjE exE conjE)
  fix ret s'
  assume "link_step (\<lambda>ret cb. Some (ret, if cf_log_dealer (om_config cb)
    then cb\<lparr>om_do_reportdisconnect := False, om_log := om_log cb @ [EvConnected]\<rparr> else cb)) s = Some (ret, s')" "ret \<noteq> 0" "moved s s'"
    "om_para s' = zero_para"
  then show ?thesis using moved_roamed[of s s'] moved_ok(9,10)[of s s'] unfolding hub_step_link by (intro exI[of _ ret] exI[of _ s']) simp
next
  fix s' :: "'m oc_mqtt_tiny_cb"
  let ?t = "if cf_log_dealer (om_config s') then s'\<lparr>om_do_reportdisconnect := False, om_log := om_log s' @ [EvConnected]\<rparr> else s'"
  assume a: "link_step (\<lambda>ret cb. Some (ret, if cf_log_dealer (om_config cb)
    then cb\<lparr>om_do_reportdisconnect := False, om_log := om_log cb @ [EvConnected]\<rparr> else cb)) s = Some (0, ?t)" "moved s s'" "linked s s'"
  have "roamed s' ?t" by simp
  then have "roamed s ?t" using roamed_trans[OF moved_roamed[OF a(2)]] by blast
  then show ?thesis using a moved_ok(9,10)[OF a(2)] unfolding hub_step_link by (intro exI[of _ 0] exI[of _ ?t]) simp
qed

section \<open>The bootstrap server\<close>

lemma env_parse:
  assumes "env_ok s"
  shows "om_parse s p \<noteq> JNotString" and "om_parse s p = JString v \<Longrightarrow> strrchr_split 58 v = Some (a, pt) \<Longrightarrow> port_ok (Some pt)"
proof -
  have e: "addr_ok (om_parse s p)" using assms by (simp add: env_ok_def)
  show "om_parse s p \<noteq> JNotString" using e by (cases "om_parse s p") (simp_all add: addr_ok_def)
  show "om_parse s p = JString v \<Longrightarrow> strrchr_split 58 v = Some (a, pt) \<Longrightarrow> port_ok (Some pt)" using e by (simp add: addr_ok_def)
qed

lemma set_hub_roamed:
  assumes "env_ok s" and "om_parse s p = JString v"
  shows "roamed s (bs_set_hub v s)"
proof (cases "strrchr_split 58 v")
  case None
  then show ?thesis by (simp add: bs_set_hub_def)
next
  case (Some ap)
  obtain a pt where ap: "ap = (a, pt)" by (cases ap) simp
  have pt: "port_ok (Some pt)" using env_parse(2)[OF assms(1,2)] Some ap by blast
  let ?s0 = "om_free (om_hub_port s) (om_free (om_hub_addr s) s)"
  obtain addr os1 where s1: "om_strdup (Some a) ?s0 = (addr, ?s0\<lparr>om_mallocs := os1, om_blocks := om_blocks ?s0 + blk addr\<rparr>)"
    using om_strdup_eq by blast
  let ?s1 = "?s0\<lparr>om_mallocs := os1, om_blocks := om_blocks ?s0 + blk addr\<rparr>"
  obtain prt os2 where s2: "om_strdup (Some pt) ?s1 = (prt, ?s1\<lparr>om_mallocs := os2, om_blocks := om_blocks ?s1 + blk prt\<rparr>)" "prt = None \<or> prt = Some pt"
    using om_strdup_eq by blast
  have p: "om_hub_port (om_free (om_hub_addr s) s) = om_hub_port s" by (simp add: om_free_eq)
  show ?thesis unfolding bs_set_hub_def Some ap option.case prod.case Let_def p s1 s2(1)
    using s2(2) pt by (auto simp: roamed_def core_def slack_def held_def om_free_eq)
qed

lemma bs_msg_ok:
  assumes "common_ok s"
  shows "\<exists>s'. bs_msg_default_deal msg s = Some s' \<and> roamed s s' \<and> om_para s' = om_para s"
proof -
  obtain ok os where m: "om_malloc s = (ok, s\<lparr>om_mallocs := os, om_blocks := om_blocks s + (if ok then 1 else 0)\<rparr>)" using om_malloc_eq by blast
  show ?thesis
  proof (cases ok)
    case False
    then show ?thesis by (intro exI[of _ "s\<lparr>om_mallocs := os\<rparr>"]) (simp add: bs_msg_default_deal_def m roamed_def core_def slack_def held_def)
  next
    case True
    let ?s1 = "s\<lparr>om_mallocs := os, om_blocks := om_blocks s + 1\<rparr>"
    have env: "env_ok ?s1" using assms by (simp add: common_ok_def env_ok_def)
    have sh: "roamed ?s1 (bs_set_hub v ?s1)" if "om_parse ?s1 (snd msg) = JString v" for v by (rule set_hub_roamed[OF env that])
    have hp: "om_para (bs_set_hub v ?s1) = om_para s" for v
      by (auto simp: bs_set_hub_def om_free_eq om_strdup_def om_malloc_def Let_def split: option.split prod.split)
    have fin: "roamed s (deliver msg (om_free (Some ()) s')) \<and> om_para (deliver msg (om_free (Some ()) s')) = om_para s'" if "roamed ?s1 s'" for s'
      using that by (auto simp: roamed_def core_def slack_def held_def om_free_eq deliver_def)
    show ?thesis
    proof (cases "om_parse s (snd msg)")
      case JNotString
      then show ?thesis using env_parse(1)[of s] assms by (simp add: common_ok_def)
    next
      case (JString v)
      then show ?thesis using fin[OF sh] hp[of v] by (simp add: bs_msg_default_deal_def m True)
    qed (use fin[of ?s1] in \<open>simp_all add: bs_msg_default_deal_def m True\<close>)
  qed
qed

lemma arrivals_ok:
  "common_ok s \<Longrightarrow> \<exists>s'. deal_arrivals msgs s = Some s' \<and> roamed s s' \<and> om_para s' = om_para s"
proof (induction msgs arbitrary: s)
  case Nil
  then show ?case by simp
next
  case (Cons m msgs)
  obtain s1 where a: "bs_msg_default_deal m s = Some s1" "roamed s s1" "om_para s1 = om_para s" using bs_msg_ok[OF Cons.prems] by blast
  obtain s2 where b: "deal_arrivals msgs s1 = Some s2" "roamed s1 s2" "om_para s2 = om_para s1"
    using Cons.IH[OF roamed_ok(1)[OF a(2) Cons.prems]] by blast
  then show ?case using a roamed_trans[OF a(2) b(2)] by simp
qed

lemma bs_sleep_ok:
  assumes "common_ok s"
  shows "\<exists>s'. bs_sleep s = Some s' \<and> roamed s s' \<and> om_para s' = om_para s"
proof (cases "om_arrivals s")
  case Nil
  then show ?thesis by (simp add: bs_sleep_def)
next
  case (Cons msgs later)
  let ?s = "s\<lparr>om_log := om_log s @ [EvSleep], om_arrivals := later\<rparr>"
  have r: "roamed s ?s" using roamed_trans[OF roamed_simps(3) roamed_simps(8)] by blast
  obtain s' where "deal_arrivals msgs ?s = Some s'" "roamed ?s s'" "om_para s' = om_para ?s"
    using arrivals_ok[OF roamed_ok(1)[OF r assms]] by blast
  then show ?thesis using roamed_trans[OF r, of s'] Cons by (simp add: bs_sleep_def)
qed

lemma bs_wait_ok:
  "common_ok s \<Longrightarrow> \<exists>s'. bs_wait k s = Some s' \<and> roamed s s' \<and> om_para s' = om_para s"
proof (induction k arbitrary: s)
  case 0
  then show ?case by simp
next
  case (Suc k)
  obtain s1 where a: "bs_sleep s = Some s1" "roamed s s1" "om_para s1 = om_para s" using bs_sleep_ok[OF Suc.prems] by blast
  obtain s2 where b: "bs_wait k s1 = Some s2" "roamed s1 s2" "om_para s2 = om_para s1"
    using Suc.IH[OF roamed_ok(1)[OF a(2) Suc.prems]] by blast
  then show ?case using a roamed_trans[OF a(2) b(2)] by simp
qed

definition bs_rest :: "int \<Rightarrow> 'm oc_mqtt_tiny_cb \<Rightarrow> (int \<times> 'm oc_mqtt_tiny_cb) option" where
  "bs_rest ret cb = do {
     (pub, cb) \<leftarrow> dmp_publish None [] 1 cb;
     if ret \<noteq> pub then step_exit ret cb
     else do {
       cb \<leftarrow> bs_wait CN_CON_BACKOFF_MAXTIMES cb;
       step_exit (if om_get_hubaddr cb then en_oc_mqtt_err_ok else en_oc_mqtt_err_gethubaddrtimeout) cb } }"

lemma bs_step_link: "bs_step s = link_step bs_rest (s\<lparr>om_get_hubaddr := False\<rparr>)"
  unfolding bs_step_def link_step_def bs_rest_def by (rule refl)

lemma bs_step_ok:
  assumes "common_ok s" and "cfg_set s"
  shows "\<exists>ret s'. bs_step s = Some (ret, s') \<and> roamed s s' \<and> om_para s' = zero_para"
proof -
  let ?s = "s\<lparr>om_get_hubaddr := False\<rparr>"
  have r: "roamed s ?s" by simp
  consider ret s' where "link_step bs_rest ?s = Some (ret, s')" "moved ?s s'" "om_para s' = zero_para"
    | s' where "link_step bs_rest ?s = bs_rest 0 s'" "moved ?s s'" "linked ?s s'"
    using link_step_ok[OF roamed_ok(1)[OF r assms(1)] roamed_ok(2)[OF r assms(2)], of bs_rest] by blast
  then show ?thesis
  proof cases
    case 1
    then show ?thesis unfolding bs_step_link using roamed_trans[OF r moved_roamed] by blast
  next
    case (2 s1)
    have r1: "roamed s s1" by (rule roamed_trans[OF r moved_roamed[OF 2(2)]])
    obtain pub al where p: "dmp_publish None [] 1 s1 = Some (pub, s1\<lparr>om_al := al\<rparr>)"
      using dmp_publish_ok[of s1 None "[]" 1] 2(3) by (auto simp: linked_def gen_done_def)
    let ?s2 = "s1\<lparr>om_al := al\<rparr>"
    have r2: "roamed s ?s2" by (rule roamed_trans[OF r1]) simp
    obtain s3 where w: "bs_wait CN_CON_BACKOFF_MAXTIMES ?s2 = Some s3" "roamed ?s2 s3" using bs_wait_ok[OF roamed_ok(1)[OF r2 assms(1)]] by blast
    have e: "roamed s (oc_mqtt_para_release t)" if "roamed s t" for t by (rule roamed_trans[OF that]) simp
    have b: "bs_step s = (if 0 \<noteq> pub then step_exit 0 ?s2 else step_exit (if om_get_hubaddr s3 then en_oc_mqtt_err_ok else en_oc_mqtt_err_gethubaddrtimeout) s3)"
      unfolding bs_step_link 2(1) bs_rest_def p Option.bind.bind_lunit prod.case w(1) by (rule refl)
    show ?thesis unfolding b step_exit_def using e[OF r2] e[OF roamed_trans[OF r2 w(2)]] by (cases "pub = 0") auto
  qed
qed

section \<open>The copy of the configuration\<close>

lemma mem_puts_put: "p + length (concat xs) \<le> length mem \<Longrightarrow> mem_puts xs p mem = put p (concat xs) mem"
proof (induction xs arbitrary: p mem)
  case Nil
  then show ?case by simp
next
  case (Cons x xs)
  have l: "p + length x \<le> length mem" using Cons.prems by simp
  then obtain m where m: "put p x mem = Some m" "length m = length mem" using put_fits by blast
  have "mem_puts xs (p + length x) m = put (p + length x) (concat xs) m" using Cons.IH Cons.prems m(2) by (simp add: add.assoc)
  then have "mem_puts (x # xs) p mem = Option.bind (put p x mem) (put (p + length x) (concat xs))" using m by simp
  then show ?case by (simp add: put_put)
qed

lemma str_block_len [simp]: "length (concat (str_block p)) = str_len p"
  by (simp add: str_block_def str_len_def split: option.split)

lemma opt_block_len [simp]: "length (concat (opt_block p)) = opt_len p"
  by (cases p) (simp_all add: opt_block_def opt_len_def)

lemma security_blocks_len: "length (concat (security_blocks sec)) \<le> security_len sec"
  by (cases sec) (simp_all add: security_blocks_def security_len_def)

definition cmd_ok :: "oc_cmd option \<Rightarrow> bool" where
  "cmd_ok c \<longleftrightarrow> (case c of
     Some (CConnect config) \<Rightarrow> cf_id config \<noteq> None \<and> cf_server_addr config \<noteq> None \<and> cf_server_port config \<noteq> None \<and> port_ok (cf_server_port config)
   | _ \<Rightarrow> True)"

lemma blks_update: "i < length xs \<Longrightarrow> xs ! i = None \<Longrightarrow> blks (xs[i := t]) = blks xs + blk t"
proof (induction xs arbitrary: i)
  case (Cons x xs)
  then show ?case by (cases i) simp_all
qed simp

text \<open>Topics that are filled up to an index.\<close>

definition filled :: "nat \<Rightarrow> 'a option list \<Rightarrow> bool" where
  "filled i ts \<longleftrightarrow> (\<forall>j < length ts. ts ! j = None \<longleftrightarrow> i \<le> j)"

definition topics_only :: "'m oc_mqtt_tiny_cb \<Rightarrow> 'm oc_mqtt_tiny_cb \<Rightarrow> bool" where
  "topics_only s s' \<longleftrightarrow> (\<exists>os ts b. s' = s\<lparr>om_mallocs := os, om_hub_topics := ts, om_blocks := b\<rparr> \<and> length ts = length (om_hub_topics s)) \<and>
     slack s' = slack s"

lemma topics_only_trans: "topics_only s s' \<Longrightarrow> topics_only s' s'' \<Longrightarrow> topics_only s s''"
  unfolding topics_only_def by (elim conjE exE) (simp, blast)

lemma clone_topics_ok:
  assumes "cf_id (om_config s) = Some ident" and "length (om_hub_topics s) = i + length fmts" and "filled i (om_hub_topics s)"
  shows "(\<exists>s'. clone_topics i fmts s = Some (0, s') \<and> topics_only s s' \<and> None \<notin> set (om_hub_topics s')) \<or>
    (\<exists>s'. clone_topics i fmts s = Some (15, snd (config_parameter_release s')) \<and> topics_only s s')"
  using assms
proof (induction fmts arbitrary: i s)
  case Nil
  have "topics_only s s" unfolding topics_only_def
    by (intro conjI exI[of _ "om_mallocs s"] exI[of _ "om_hub_topics s"] exI[of _ "om_blocks s"]) simp_all
  moreover have "None \<notin> set (om_hub_topics s)" using Nil.prems(2,3) by (auto simp: filled_def in_set_conv_nth)
  ultimately show ?case by simp
next
  case (Cons fmt fmts)
  obtain t os where t: "topic_fmt fmt ident s = (t, s\<lparr>om_mallocs := os, om_blocks := om_blocks s + blk t\<rparr>)" using topic_fmt_eq by blast
  let ?s = "s\<lparr>om_mallocs := os, om_blocks := om_blocks s + blk t, om_hub_topics := (om_hub_topics s)[i := t]\<rparr>"
  have "om_hub_topics s ! i = None" using Cons.prems(2,3) by (simp add: filled_def)
  then have c: "blks ((om_hub_topics s)[i := t]) = blks (om_hub_topics s) + blk t" using Cons.prems(2) by (intro blks_update) simp_all
  have o: "topics_only s ?s" unfolding topics_only_def
    by (intro conjI exI[of _ os] exI[of _ "(om_hub_topics s)[i := t]"] exI[of _ "om_blocks s + blk t"]) (simp_all add: slack_def held_def c)
  have u: "clone_topics i (fmt # fmts) s = (if t = None then Some (15, snd (config_parameter_release ?s)) else clone_topics (i + 1) fmts ?s)"
    using Cons.prems(1) t by (simp add: Let_def)
  show ?case
  proof (cases t)
    case None
    then show ?thesis using u o by auto
  next
    case (Some x)
    have "filled (i + 1) (om_hub_topics ?s)" using Cons.prems(2,3) Some by (auto simp: filled_def nth_list_update)
    then have "(\<exists>s'. clone_topics (i + 1) fmts ?s = Some (0, s') \<and> topics_only ?s s' \<and> None \<notin> set (om_hub_topics s')) \<or>
        (\<exists>s'. clone_topics (i + 1) fmts ?s = Some (15, snd (config_parameter_release s')) \<and> topics_only ?s s')"
      using Cons.prems(1,2) by (intro Cons.IH) simp_all
    then show ?thesis using u Some topics_only_trans[OF o] by auto
  qed
qed

lemma clone_ok:
  assumes "common_ok s" and "cfg_idle s" and "cmd_ok (Some (CConnect config))"
  shows "\<exists>ret s'. config_parameter_clone config s = Some (ret, s') \<and> common_ok s' \<and> slack s' = slack s \<and>
    (ret = 0 \<longrightarrow> cfg_set s' \<and> om_bs_enable s' = (cf_boot_mode config = 0) \<and> cf_server_addr (om_config s') = cf_server_addr config \<and>
      cf_server_port (om_config s') = cf_server_port config)"
proof -
  obtain ident addr port where c: "cf_id config = Some ident" "cf_server_addr config = Some addr" "cf_server_port config = Some port" "port_ok (Some port)"
    using assms(3) by (auto simp: cmd_ok_def)
  obtain ok os where m: "om_malloc s = (ok, s\<lparr>om_mallocs := os, om_blocks := om_blocks s + (if ok then 1 else 0)\<rparr>)" using om_malloc_eq by blast
  let ?len = "security_len (cf_security config) + (length ident + 1) + str_len (cf_pwd config) + str_len (cf_scope_id config) +
           (length addr + 1) + (length port + 1)"
  let ?bs = "[ident @ [0]] @ str_block (cf_pwd config) @ str_block (cf_scope_id config) @ [addr @ [0], port @ [0]] @
               security_blocks (cf_security config)"
  have "mem_puts ?bs 0 (replicate ?len 0) = put 0 (concat ?bs) (replicate ?len 0)"
    using security_blocks_len[of "cf_security config"] by (intro mem_puts_put) simp
  then obtain mem where p: "mem_puts ?bs 0 (replicate ?len 0) = Some mem"
    using security_blocks_len[of "cf_security config"] by (simp add: put_def)
  show ?thesis
  proof (cases ok)
    case False
    then have "config_parameter_clone config s = Some (1, s\<lparr>om_mallocs := os\<rparr>)" by (simp add: config_parameter_clone_def c m)
    then show ?thesis using assms(1) by (simp add: common_ok_def env_ok_def slack_def held_def)
  next
    case True
    let ?s = "s\<lparr>om_mallocs := os, om_blocks := om_blocks s + 1, om_bs_enable := cf_boot_mode config = 0, om_config_mem := Some mem,
         om_config := config\<lparr>cf_security := security_clone s_oc_mqtt_ca_crt (cf_security config)\<rparr>\<rparr>"
    have e: "config_parameter_clone config s = clone_topics 0 s_new_topic_fmt ?s"
      unfolding config_parameter_clone_def c(1-3) Option.bind.bind_lunit Let_def m prod.case p using True by simp
    have s: "common_ok ?s" using assms(1) c by (simp add: common_ok_def env_ok_def)
    have sl: "slack ?s = slack s" using assms(2) by (simp add: slack_def held_def cfg_idle_def)
    have t: "cf_id (om_config ?s) = Some ident" "length (om_hub_topics ?s) = 0 + length s_new_topic_fmt" "filled 0 (om_hub_topics ?s)"
      using assms(2) c(1) by (simp_all add: cfg_idle_def s_new_topic_fmt_def filled_def)
    have k: "common_ok s' \<and> slack s' = slack s \<and> om_config_mem s' = Some mem \<and> cf_id (om_config s') = Some ident \<and>
        om_bs_enable s' = (cf_boot_mode config = 0) \<and> cf_server_addr (om_config s') = cf_server_addr config \<and>
        cf_server_port (om_config s') = cf_server_port config" if "topics_only ?s s'" for s'
      using that s sl c(1) unfolding topics_only_def common_ok_def env_ok_def by (elim conjE exE) simp
    have rel: "common_ok (snd (config_parameter_release s'))" if "common_ok s'" for s' :: "'a oc_mqtt_tiny_cb"
      using that by (simp add: config_release_eq common_ok_def env_ok_def zero_config_def)
    from clone_topics_ok[OF t] show ?thesis unfolding e
      using k rel by (elim disjE exE conjE) (simp_all add: cfg_set_def)
  qed
qed

section \<open>The daemon keeps its invariant\<close>

lemma release_all:
  assumes "common_ok s"
  shows "oc_inv (snd (config_parameter_release (oc_mqtt_para_release s)))" and "slack (snd (config_parameter_release (oc_mqtt_para_release s))) = slack s"
proof -
  show "slack (snd (config_parameter_release (oc_mqtt_para_release s))) = slack s" by simp
  show "oc_inv (snd (config_parameter_release (oc_mqtt_para_release s)))"
    using assms by (simp add: config_release_eq para_release_eq oc_inv_def common_ok_def env_ok_def cfg_idle_def para_ok_def zero_config_def zero_para_def)
qed

lemma hub_keep_inv:
  assumes "common_ok s" and "cfg_set s" and "linked t s \<or> om_para s = zero_para" and "om_status s = en_daemon_status_hub_keep"
  shows "oc_inv s"
  using assms by (auto simp: oc_inv_def para_ok_def linked_def gen_done_def zero_para_def)

lemma status_irrelevant [simp]: "common_ok (s\<lparr>om_status := st\<rparr>) = common_ok s" "cfg_set (s\<lparr>om_status := st\<rparr>) = cfg_set s"
    "slack (s\<lparr>om_status := st\<rparr>) = slack s" "linked t (s\<lparr>om_status := st\<rparr>) = linked t s"
  by (simp_all add: common_ok_def env_ok_def cfg_set_def slack_def held_def linked_def gen_done_def)

text \<open>The agent is connected, to the hub that the bootstrap server has named or to the configured server.\<close>

definition connected_to :: "oc_mqtt_config_t \<Rightarrow> 'm oc_mqtt_tiny_cb \<Rightarrow> bool" where
  "connected_to config s \<longleftrightarrow> om_status s = en_daemon_status_hub_keep \<and> pa_handle (om_para s) \<noteq> None \<and>
     (pa_server_addr (om_para s), pa_server_port (om_para s)) =
       (if cf_boot_mode config = 0 then (om_hub_addr s, om_hub_port s) else (cf_server_addr config, cf_server_port config))"

lemma cmd_connect_ok:
  assumes "oc_inv s" and "cmd_ok (Some (CConnect config))"
  shows "\<exists>ret s'. cmd_connect config s = Some (ret, s') \<and> oc_inv s' \<and> slack s' = slack s \<and> (ret = 0 \<longrightarrow> connected_to config s')"
proof (cases "om_status s = en_daemon_status_idle")
  case False
  then show ?thesis using assms(1) by (simp add: cmd_connect_def)
next
  case True
  then have i: "common_ok s" "cfg_idle s" using assms(1) by (simp_all add: oc_inv_def)
  let ?cfg = "\<lambda>s. om_bs_enable s = (cf_boot_mode config = 0) \<and> cf_server_addr (om_config s) = cf_server_addr config \<and>
      cf_server_port (om_config s) = cf_server_port config"
  obtain r1 s1 where c: "config_parameter_clone config s = Some (r1, s1)" "common_ok s1" "slack s1 = slack s" "r1 = 0 \<Longrightarrow> cfg_set s1 \<and> ?cfg s1"
    using clone_ok[OF i assms(2)] by blast
  obtain r2 s2 where b: "(if r1 = en_oc_mqtt_err_ok \<and> om_bs_enable s1 then bs_step (s1\<lparr>om_status := en_daemon_status_bs_getaddr\<rparr>) else Some (r1, s1)) =
        Some (r2, s2)" "common_ok s2" "slack s2 = slack s" "r2 = 0 \<Longrightarrow> cfg_set s2 \<and> ?cfg s2"
  proof (cases "r1 = en_oc_mqtt_err_ok \<and> om_bs_enable s1")
    case True
    then obtain r s' where "bs_step (s1\<lparr>om_status := en_daemon_status_bs_getaddr\<rparr>) = Some (r, s')"
        "roamed (s1\<lparr>om_status := en_daemon_status_bs_getaddr\<rparr>) s'"
      using bs_step_ok[of "s1\<lparr>om_status := en_daemon_status_bs_getaddr\<rparr>"] c(2,4) by auto
    then show ?thesis using that[of r s'] roamed_ok[of "s1\<lparr>om_status := en_daemon_status_bs_getaddr\<rparr>" s'] c True by simp
  next
    case False
    then have "(if r1 = en_oc_mqtt_err_ok \<and> om_bs_enable s1 then bs_step (s1\<lparr>om_status := en_daemon_status_bs_getaddr\<rparr>) else Some (r1, s1)) = Some (r1, s1)"
      by (rule if_not_P)
    then show ?thesis using that[of r1 s1] c by simp
  qed
  obtain r3 s3 where h: "(if r2 = en_oc_mqtt_err_ok then hub_step (s2\<lparr>om_status := en_daemon_status_dmp_connecting\<rparr>) else Some (r2, s2)) = Some (r3, s3)"
      "common_ok s3" "slack s3 = slack s" "r3 = 0 \<Longrightarrow> cfg_set s3 \<and> linked (s2\<lparr>om_status := en_daemon_status_dmp_connecting\<rparr>) s3 \<and> ?cfg s2 \<and>
        om_hub_addr s3 = om_hub_addr s2 \<and> om_hub_port s3 = om_hub_port s2"
  proof (cases "r2 = en_oc_mqtt_err_ok")
    case True
    then obtain r s' where q: "hub_step (s2\<lparr>om_status := en_daemon_status_dmp_connecting\<rparr>) = Some (r, s')"
        "roamed (s2\<lparr>om_status := en_daemon_status_dmp_connecting\<rparr>) s'"
        "if r = 0 then linked (s2\<lparr>om_status := en_daemon_status_dmp_connecting\<rparr>) s' else om_para s' = zero_para"
        "om_hub_addr s' = om_hub_addr s2" "om_hub_port s' = om_hub_port s2"
      using hub_step_ok[of "s2\<lparr>om_status := en_daemon_status_dmp_connecting\<rparr>"] b(2,4) by auto
    then show ?thesis using that[of r s'] roamed_ok[OF q(2)] b True by (cases "r = 0") simp_all
  next
    case False
    then show ?thesis using that[of r2 s2] b by simp
  qed
  have ns: "\<not> om_status s \<noteq> en_daemon_status_idle" using True by simp
  have e: "cmd_connect config s = Some (r3, if r3 = en_oc_mqtt_err_ok then s3\<lparr>om_status := en_daemon_status_hub_keep\<rparr>
                   else snd (config_parameter_release (oc_mqtt_para_release (s3\<lparr>om_status := en_daemon_status_idle\<rparr>))))"
    unfolding cmd_connect_def if_not_P[OF ns] c(1) Option.bind.bind_lunit prod.case b(1) h(1) by (rule refl)
  show ?thesis
  proof (cases "r3 = 0")
    case r: True
    have "oc_inv (s3\<lparr>om_status := en_daemon_status_hub_keep\<rparr>)" using h(2,4) r by (intro hub_keep_inv[of _ "s2\<lparr>om_status := en_daemon_status_dmp_connecting\<rparr>"]) simp_all
    moreover have "connected_to config (s3\<lparr>om_status := en_daemon_status_hub_keep\<rparr>)"
      using h(4) r by (auto simp: connected_to_def linked_def hub_server_def)
    ultimately show ?thesis unfolding e using h(3) r by simp
  next
    case False
    then show ?thesis unfolding e using release_all[of "s3\<lparr>om_status := en_daemon_status_idle\<rparr>"] h(2,3) by simp
  qed
qed

lemma hub_up_eq:
  "\<exists>up al. hub_up s = (up, s\<lparr>om_al := al\<rparr>) \<and> (up \<longrightarrow> om_status s = en_daemon_status_hub_keep \<and> pa_handle (om_para s) \<noteq> None)"
proof (cases "om_status s = en_daemon_status_hub_keep")
  case True
  obtain up al where "mqtt_al_check_status (pa_handle (om_para s)) (om_al s) = (up, al)" by (cases "mqtt_al_check_status (pa_handle (om_para s)) (om_al s)")
  then show ?thesis using True
    by (intro exI[of _ up] exI[of _ al]) (auto simp: hub_up_def mqtt_al_check_status_def split: option.splits)
next
  case False
  then show ?thesis by (intro exI[of _ False] exI[of _ "om_al s"]) (simp add: hub_up_def)
qed

lemma al_inv [simp]: "oc_inv (s\<lparr>om_al := al\<rparr>) = oc_inv s" "slack (s\<lparr>om_al := al\<rparr>) = slack s"
  by (simp_all add: oc_inv_def common_ok_def env_ok_def cfg_idle_def cfg_set_def para_ok_def slack_def held_def)

lemma api_subscribe_ok:
  assumes "oc_inv s"
  shows "oc_inv (snd (deal_api_subscribe topic qos s)) \<and> slack (snd (deal_api_subscribe topic qos s)) = slack s"
proof -
  obtain up al where u: "hub_up s = (up, s\<lparr>om_al := al\<rparr>)" "up \<Longrightarrow> om_status s = en_daemon_status_hub_keep" using hub_up_eq by blast
  let ?s = "s\<lparr>om_al := al\<rparr>"
  obtain ok os where m: "om_malloc ?s = (ok, ?s\<lparr>om_mallocs := os, om_blocks := om_blocks ?s + (if ok then 1 else 0)\<rparr>)" using om_malloc_eq by blast
  let ?s1 = "?s\<lparr>om_mallocs := os, om_blocks := om_blocks ?s + (if ok then 1 else 0)\<rparr>"
  obtain ret al' where b: "sub_topic HubMsgDeal topic qos ?s1 = (ret, ?s1\<lparr>om_al := al'\<rparr>)" using sub_topic_eq by blast
  consider "om_status s = en_daemon_status_idle" | "om_status s \<noteq> en_daemon_status_idle" "\<not> up \<or> topic \<in> fst ` set (om_subs s)"
    | "up" "topic \<notin> fst ` set (om_subs s)" "om_status s = en_daemon_status_hub_keep" using u(2) by blast
  then show ?thesis
  proof cases
    case 1
    then show ?thesis using assms by (simp add: deal_api_subscribe_def)
  next
    case 2
    then have "snd (deal_api_subscribe topic qos s) = ?s" by (auto simp: deal_api_subscribe_def u(1))
    then show ?thesis using assms by simp
  next
    case 3
    have k: "common_ok s" "cfg_set s" "para_ok s" using assms 3(3) by (simp_all add: oc_inv_def)
    have d: "snd (deal_api_subscribe topic qos s) =
       (if \<not> ok then ?s1 else if ret = 0 then ?s1\<lparr>om_al := al', om_subs := (topic, qos) # om_subs s\<rparr> else om_free (Some ()) (?s1\<lparr>om_al := al'\<rparr>))"
      unfolding deal_api_subscribe_def u(1) Let_def prod.case m b using 3 by simp
    show ?thesis unfolding d using k 3
      by (auto simp: oc_inv_def common_ok_def env_ok_def cfg_set_def para_ok_def slack_def held_def om_free_eq)
  qed
qed

lemma unlink_filter:
  "distinct (map fst es) \<Longrightarrow> unlink_topic topic es = (topic \<in> fst ` set es, filter (\<lambda>e. fst e \<noteq> topic) es)"
proof (induction es)
  case (Cons e es)
  have "filter (\<lambda>x. fst x \<noteq> fst e) es = es" using Cons.prems by (auto simp: filter_id_conv image_iff)
  then show ?case using Cons by (cases "topic = fst e") auto
qed simp

lemma unlink_length: "length es = length (snd (unlink_topic topic es)) + (if fst (unlink_topic topic es) then 1 else 0)"
  by (induction es) (auto split: prod.splits)

lemma unlink_props:
  assumes "distinct (map fst es)"
  shows "distinct (map fst (snd (unlink_topic topic es)))"
    "length es = length (snd (unlink_topic topic es)) + (if fst (unlink_topic topic es) then 1 else 0)"
  using assms unlink_length[of es topic] by (simp_all add: unlink_filter distinct_map_filter)

lemma api_unsubscribe_ok:
  assumes "oc_inv s"
  shows "oc_inv (snd (deal_api_unsubscribe topic s)) \<and> slack (snd (deal_api_unsubscribe topic s)) = slack s"
proof -
  obtain up al where u: "hub_up s = (up, s\<lparr>om_al := al\<rparr>)" "up \<Longrightarrow> om_status s = en_daemon_status_hub_keep" using hub_up_eq by blast
  let ?s = "s\<lparr>om_al := al\<rparr>"
  obtain ret al' where b: "mqtt_al_unsubscribe (pa_handle (om_para ?s)) (Some \<lparr>up_topic = topic, up_timeout = CN_OC_MQTT_TIMEOUT\<rparr>) (om_al ?s) = (ret, al')"
    by (metis surj_pair)
  obtain f subs where n: "unlink_topic topic (om_subs s) = (f, subs)" by (cases "unlink_topic topic (om_subs s)")
  show ?thesis
  proof (cases "om_status s = en_daemon_status_idle \<or> \<not> up")
    case True
    then have "snd (deal_api_unsubscribe topic s) = s \<or> snd (deal_api_unsubscribe topic s) = ?s"
      by (auto simp: deal_api_unsubscribe_def u(1))
    then show ?thesis using assms by (metis al_inv)
  next
    case False
    then have k: "common_ok s" "cfg_set s" "para_ok s" "om_status s = en_daemon_status_hub_keep" using assms u(2) by (simp_all add: oc_inv_def)
    let ?t = "?s\<lparr>om_al := al', om_subs := subs\<rparr>"
    have d: "snd (deal_api_unsubscribe topic s) = (if ret = 0 then if f then om_free (Some ()) ?t else ?t else ?s\<lparr>om_al := al'\<rparr>)"
      unfolding deal_api_unsubscribe_def u(1) Let_def prod.case b using False n by simp
    have p: "distinct (map fst subs)" "int (length (om_subs s)) = int (length subs) + (if f then 1 else 0)"
      using unlink_props[of "om_subs s" topic] n k(1) by (auto simp: common_ok_def)
    show ?thesis unfolding d using k p
      by (auto simp: oc_inv_def common_ok_def env_ok_def cfg_set_def para_ok_def slack_def held_def om_free_eq)
  qed
qed

lemma deal_cmd_ok:
  assumes "oc_inv s" and "cmd_ok (Some c)"
  shows "\<exists>ret s'. deal_cmd c s = Some (ret, s') \<and> oc_inv s' \<and> slack s' = slack s"
proof (cases c)
  case (CConnect config)
  then show ?thesis using cmd_connect_ok[of s config] assms by auto
next
  case (CPublish topic msg qos)
  obtain up al where u: "hub_up s = (up, s\<lparr>om_al := al\<rparr>)" "up \<Longrightarrow> om_status s = en_daemon_status_hub_keep \<and> pa_handle (om_para s) \<noteq> None"
    using hub_up_eq by blast
  show ?thesis
  proof (cases "om_status s \<noteq> en_daemon_status_idle \<and> up")
    case True
    have "pa_pub_topic (om_para (s\<lparr>om_al := al\<rparr>)) \<noteq> None" using assms(1) u(2) True by (auto simp: oc_inv_def para_ok_def)
    then obtain ret al' where "dmp_publish topic msg qos (s\<lparr>om_al := al\<rparr>) = Some (ret, s\<lparr>om_al := al\<rparr>\<lparr>om_al := al'\<rparr>)"
      using dmp_publish_ok by blast
    then show ?thesis using CPublish True u(1) assms(1) by simp
  next
    case False
    then show ?thesis using CPublish u(1) assms(1) by auto
  qed
next
  case (CSubscribe topic qos)
  then show ?thesis using api_subscribe_ok[OF assms(1), of topic qos] by (cases "deal_api_subscribe topic qos s") simp
next
  case (CUnsubscribe topic)
  then show ?thesis using api_unsubscribe_ok[OF assms(1), of topic] by (cases "deal_api_unsubscribe topic s") simp
next
  case CDisconnect
  have "fst (config_parameter_release t) = 0" for t :: "'a oc_mqtt_tiny_cb" by (simp add: config_release_eq)
  then show ?thesis using CDisconnect assms(1) release_all[of s]
    by (cases "config_parameter_release (oc_mqtt_para_release s)") (auto simp: oc_inv_def)
qed (use assms(1) in simp_all)

lemma daemon_tail_ok:
  assumes "oc_inv s"
  shows "\<exists>s'. daemon_tail s = Some s' \<and> oc_inv s' \<and> slack s' = slack s"
proof (cases "om_status s = en_daemon_status_hub_keep")
  case False
  then show ?thesis using assms by (simp add: daemon_tail_def oc_inv_def common_ok_def)
next
  case True
  then have k: "common_ok s" "cfg_set s" "para_ok s" "\<not> om_do_bootstrap s" using assms by (simp_all add: oc_inv_def common_ok_def)
  obtain up al where u: "hub_up s = (up, s\<lparr>om_al := al\<rparr>)" using hub_up_eq by blast
  let ?s = "s\<lparr>om_al := al\<rparr>"
  let ?t = "if \<not> om_do_reportdisconnect ?s \<and> cf_log_dealer (om_config ?s)
            then ?s\<lparr>om_log := om_log ?s @ [EvDisconnected], om_do_reportdisconnect := True\<rparr> else ?s"
  have r: "roamed ?s ?t" by simp
  have rt: "roamed s ?t" by (rule roamed_trans[OF _ r]) simp
  obtain ret s' where h: "hub_step ?t = Some (ret, s')" "roamed ?t s'" "if ret = 0 then linked ?t s' else om_para s' = zero_para"
    using hub_step_ok[OF roamed_ok(1)[OF rt k(1)] roamed_ok(2)[OF rt k(2)]] by blast
  have r': "roamed s s'" by (rule roamed_trans[OF rt h(2)])
  have "oc_inv s'" by (rule hub_keep_inv[of _ ?t]) (use roamed_ok[OF r'] k h(3) True in \<open>auto split: if_splits\<close>)
  moreover have "daemon_tail s = (if up then Some ?s else Some s')"
    unfolding daemon_tail_def if_not_P[OF k(4)] if_P[OF True] u Let_def prod.case h(1) Option.bind.bind_lunit by (rule refl)
  ultimately show ?thesis using assms roamed_ok(8)[OF r'] by simp
qed

lemma daemon_turn_ok:
  assumes "oc_inv s" and "cmd_ok c"
  shows "\<exists>ret s'. daemon_turn c s = Some (ret, s') \<and> oc_inv s' \<and> slack s' = slack s"
proof -
  obtain ret s1 where d: "(case c of None \<Rightarrow> Some (en_oc_mqtt_err_ok, s) | Some c \<Rightarrow> deal_cmd c s) = Some (ret, s1)" "oc_inv s1" "slack s1 = slack s"
  proof (cases c)
    case None
    then show ?thesis using that[of 0 s] assms(1) by simp
  next
    case (Some x)
    then show ?thesis using that deal_cmd_ok[OF assms(1), of x] assms(2) by auto
  qed
  obtain s2 where "daemon_tail s1 = Some s2" "oc_inv s2" "slack s2 = slack s1" using daemon_tail_ok[OF d(2)] by blast
  then show ?thesis using d unfolding daemon_turn_def by simp
qed

lemma daemon_run_ok:
  "oc_inv s \<Longrightarrow> \<forall>c \<in> set cs. cmd_ok c \<Longrightarrow> \<exists>rets s'. daemon_run cs s = Some (rets, s') \<and> length rets = length cs \<and> oc_inv s' \<and> slack s' = slack s"
proof (induction cs arbitrary: s)
  case (Cons c cs)
  obtain ret s1 where a: "daemon_turn c s = Some (ret, s1)" "oc_inv s1" "slack s1 = slack s" using daemon_turn_ok Cons.prems by (metis list.set_intros(1))
  obtain rets s2 where "daemon_run cs s1 = Some (rets, s2)" "length rets = length cs" "oc_inv s2" "slack s2 = slack s1"
    using Cons.IH[OF a(2)] Cons.prems(2) by auto
  then show ?case using a by simp
qed simp

section \<open>What the agent promises\<close>

lemma zero_inv:
  assumes "None \<notin> set ds" and "\<And>p. addr_ok (parse p)" and "\<And>key content. length (md key content) = CN_HMAC_LEN"
  shows "oc_inv ((oc_mqtt_zero al parse md)\<lparr>om_mallocs := ms, om_posts := ps, om_dates := ds, om_arrivals := as\<rparr>)"
    and "slack ((oc_mqtt_zero al parse md)\<lparr>om_mallocs := ms, om_posts := ps, om_dates := ds, om_arrivals := as\<rparr>) = 0"
  using assms by (simp_all add: oc_inv_def oc_mqtt_zero_def common_ok_def env_ok_def cfg_idle_def para_ok_def zero_para_def zero_config_def slack_def
    held_def para_blocks_def s_new_topic_fmt_def eval_nat_numeral)

lemma idle_held: "oc_inv s \<Longrightarrow> om_status s = en_daemon_status_idle \<Longrightarrow> held s = 0"
  by (simp add: oc_inv_def cfg_idle_def held_def)

text \<open>C3. From the start of the agent, and for every sequence of commands and timeouts, every behaviour of the MQTT library, every
  failure of an allocation and every message of the bootstrap server, under three conditions on the surroundings the daemon executes
  each turn without touching a pointer that is not there, keeps its invariant, and loses no block: it holds exactly the
  blocks its control block points to, and none when it is idle. The conditions leave out inputs for which the code is wrong: \<^verbatim>\<open>gmtime\<close>
  converts the clock (otherwise the parameters stay as they were, or \<^verbatim>\<open>NULL\<close>); an address that the bootstrap server sends is a string,
  with a number that \<^verbatim>\<open>atoi\<close> can read behind its last colon (\<open>addr_ok\<close>: \<^verbatim>\<open>strrchr\<close> follows a value that is no string); and a
  configuration that is posted has its identifier, its address and a port that is a number (\<open>cmd_ok\<close>), which the API checks except for
  the number. The hash has its 32 bytes, as the library documents.\<close>

theorem oc_daemon_safe:
  assumes "None \<notin> set ds" and "\<forall>p. addr_ok (parse p)" and "\<forall>key content. length (md key content) = CN_HMAC_LEN"
    and "\<forall>c \<in> set cs. cmd_ok c"
  shows "\<exists>rets s. daemon_run cs ((oc_mqtt_zero al parse md)\<lparr>om_mallocs := ms, om_posts := ps, om_dates := ds, om_arrivals := as\<rparr>) = Some (rets, s) \<and>
    length rets = length cs \<and> oc_inv s \<and> om_blocks s = held s \<and> (om_status s = en_daemon_status_idle \<longrightarrow> om_blocks s = 0)"
proof -
  let ?z = "(oc_mqtt_zero al parse md)\<lparr>om_mallocs := ms, om_posts := ps, om_dates := ds, om_arrivals := as\<rparr>"
  have z: "oc_inv ?z" "slack ?z = 0" using zero_inv[of ds parse md] assms(1-3) by blast+
  obtain rets s where r: "daemon_run cs ?z = Some (rets, s)" "length rets = length cs" "oc_inv s" "slack s = 0"
    using daemon_run_ok[OF z(1) assms(4)] z(2) by auto
  have "om_blocks s = held s" using r(4) by (simp add: slack_def)
  then show ?thesis using r idle_held[OF r(3)] by simp
qed

definition demo_config :: oc_mqtt_config_t where
  "demo_config = zero_config\<lparr>cf_boot_mode := 1, cf_server_addr := Some (bytes_of ''h''), cf_server_port := Some (bytes_of ''1883''),
     cf_id := Some (bytes_of ''d''), cf_pwd := Some (bytes_of ''p'')\<rparr>"

lemma demo_port: "atoi (bytes_of ''1883'') \<noteq> None"
  by code_simp

lemma demo_cmd_ok: "cmd_ok (Some (CConnect demo_config))"
  using demo_port by (simp add: cmd_ok_def demo_config_def)

definition demo_run :: "oc_cmd option list" where
  "demo_run = [Some (CConnect demo_config), None, Some (CSubscribe [116] 2), Some CDisconnect]"

lemma demo_run_ok: "\<forall>c \<in> set demo_run. cmd_ok c"
  using demo_cmd_ok by (simp add: demo_run_def) (simp add: cmd_ok_def)

theorem oc_daemon_safe_witness:
  "\<exists>rets s. daemon_run demo_run
      ((oc_mqtt_zero \<lparr>al_ops = None, al_lib = ()\<rparr> (\<lambda>p. JNoRoot) (\<lambda>key content. replicate 32 0))\<lparr>om_mallocs := [True, False], om_posts := [],
        om_dates := [Some (124, 3, 1, 12)], om_arrivals := []\<rparr>) = Some (rets, s) \<and>
    length rets = length demo_run \<and> oc_inv s \<and> om_blocks s = held s \<and> (om_status s = en_daemon_status_idle \<longrightarrow> om_blocks s = 0)"
  by (rule oc_daemon_safe) (simp_all add: addr_ok_def demo_run_ok)

text \<open>A call of the API that leaves the agent in order, with every block it has taken given back.\<close>

definition call_keeps :: "'m oc_mqtt_tiny_cb \<Rightarrow> (int \<times> 'm oc_mqtt_tiny_cb option) option \<Rightarrow> bool" where
  "call_keeps s r \<longleftrightarrow> (case r of Some (ret, Some s') \<Rightarrow> oc_inv s' \<and> slack s' = slack s | _ \<Rightarrow> False)"

lemma post_ok:
  assumes "oc_inv s" and "cmd_ok (Some c)"
  shows "call_keeps s (daemon_cmd_post c (Some s))"
proof -
  obtain ok os where m: "om_malloc s = (ok, s\<lparr>om_mallocs := os, om_blocks := om_blocks s + (if ok then 1 else 0)\<rparr>)" using om_malloc_eq by blast
  have inv: "oc_inv (s\<lparr>om_mallocs := x, om_blocks := y, om_posts := z\<rparr>)" "oc_inv (s\<lparr>om_mallocs := x, om_blocks := y\<rparr>)" for x y z
    using assms(1) by (simp_all add: oc_inv_def common_ok_def env_ok_def cfg_idle_def cfg_set_def para_ok_def)
  show ?thesis
  proof (cases ok)
    case False
    then show ?thesis using inv(2)[where x = os and y = "om_blocks s"] by (simp add: daemon_cmd_post_def m call_keeps_def slack_def held_def)
  next
    case True
    let ?s = "s\<lparr>om_mallocs := os, om_blocks := om_blocks s + 1, om_posts := snd (alloc (om_posts s))\<rparr>"
    have sl: "slack ?s = slack s + 1" by (simp add: slack_def held_def)
    obtain ret s' where t: "(if fst (alloc (om_posts s)) then daemon_turn (Some c) ?s else Some (en_oc_mqtt_err_system, ?s)) = Some (ret, s')"
        "oc_inv s'" "slack s' = slack s + 1"
    proof (cases "fst (alloc (om_posts s))")
      case True
      then show ?thesis using that daemon_turn_ok[OF inv(1)[where x = os and y = "om_blocks s + 1" and z = "snd (alloc (om_posts s))"] assms(2)] sl by auto
    next
      case False
      then show ?thesis using that inv(1) sl by simp
    qed
    have f: "oc_inv (om_free (Some ()) s') \<and> slack (om_free (Some ()) s') = slack s" using t(2,3)
      by (simp add: om_free_eq oc_inv_def common_ok_def env_ok_def cfg_idle_def cfg_set_def para_ok_def slack_def held_def)
    have "daemon_cmd_post c (Some s) = Some (ret, Some (om_free (Some ()) s'))"
      using t(1) True by (simp add: daemon_cmd_post_def m split_beta)
    then show ?thesis using f by (simp add: call_keeps_def)
  qed
qed

text \<open>C4. Each function of the API of the started agent, called between two turns, returns and leaves the agent in order: what is missing in a
  configuration is found before anything uses it, and every block that the call takes is freed or held by the agent. A configuration, its
  strings, the topic of a message and the quality of service may be anything, except that a port, when there is one, must be a number that
  \<^verbatim>\<open>atoi\<close> can read (\<open>port_ok\<close>), and that a topic to subscribe or to unsubscribe must be there: \<^verbatim>\<open>NULL\<close> is not
  checked and is the crash of \<^verbatim>\<open>strlen\<close>.\<close>

theorem oc_api_safe:
  assumes "oc_inv s" and "\<forall>c. config = Some c \<longrightarrow> port_ok (cf_server_port c)"
  shows "call_keeps s (tiny_config config (Some s)) \<and> call_keeps s (tiny_publish topic payload qos (Some s)) \<and>
    call_keeps s (tiny_subscribe (Some filt) qos (Some s)) \<and> call_keeps s (tiny_unsubscribe (Some filt) (Some s)) \<and>
    call_keeps s (tiny_deconfig (Some s)) \<and>
    tiny_subscribe None qos (Some s) = (if qos \<ge> 3 then Some (en_oc_mqtt_err_parafmt, Some s) else None) \<and> tiny_unsubscribe None (Some s) = None"
proof -
  have same: "call_keeps s (Some (r, Some s))" for r using assms(1) by (simp add: call_keeps_def)
  have post: "call_keeps s (daemon_cmd_post c (Some s))" if "cmd_ok (Some c)" for c by (rule post_ok[OF assms(1) that])
  have "cmd_ok (Some (CConnect (c\<lparr>cf_lifetime := l\<rparr>)))"
    if "config = Some c" "cf_server_addr c \<noteq> None" "cf_server_port c \<noteq> None" "cf_id c \<noteq> None" for c l
    using assms(2) that by (simp add: cmd_ok_def)
  then have "call_keeps s (tiny_config config (Some s))"
    using same post by (cases config) (simp_all add: tiny_config_def Let_def)
  moreover have "cmd_ok (Some (CPublish topic payload qos))" "cmd_ok (Some (CSubscribe filt qos))" "cmd_ok (Some (CUnsubscribe filt))" "cmd_ok (Some CDisconnect)"
    by (simp_all add: cmd_ok_def)
  ultimately show ?thesis using same post
    by (simp add: tiny_publish_def tiny_subscribe_def tiny_unsubscribe_def tiny_deconfig_def)
qed

text \<open>C24. A configuration that is accepted leaves the agent connected: to the hub that the bootstrap server has named when the mode of the
  configuration asks for it, and to the configured server otherwise.\<close>

theorem oc_connect_target:
  assumes "oc_inv s" and "cmd_ok (Some (CConnect config))" and "cmd_connect config s = Some (0, s')"
  shows "connected_to config s'"
  using cmd_connect_ok[OF assms(1,2)] assms(3) by auto

definition demo_ops :: "(bytes \<times> int) list mqtt_al_op" where
  "demo_ops = \<lparr>al_connect = Some (\<lambda>para m. ((Some 1, 0), m)), al_disconnect = Some (\<lambda>h m. (0, m)), al_publish = Some (\<lambda>h para m. (0, m)),
     al_subscribe = Some (\<lambda>h para m. ((0, 0), m @ [(sp_topic para, sp_qos para)])), al_unsubscribe = Some (\<lambda>h para m. (0, m)),
     al_check_status = Some (\<lambda>h m. (True, m))\<rparr>"

definition demo_state :: "(bytes \<times> int) list oc_mqtt_tiny_cb" where
  "demo_state = (oc_mqtt_zero \<lparr>al_ops = Some demo_ops, al_lib = []\<rparr> (\<lambda>p. JNoRoot) (\<lambda>key content. replicate 32 0))\<lparr>om_mallocs := [], om_posts := [],
     om_dates := [Some (124, 3, 1, 12)], om_arrivals := []\<rparr>"

lemma demo_inv: "oc_inv demo_state"
  unfolding demo_state_def by (rule zero_inv) (simp_all add: addr_ok_def)

lemma demo_connects: "case cmd_connect demo_config demo_state of Some (r, _) \<Rightarrow> r = 0 | None \<Rightarrow> False"
  by code_simp

theorem oc_connect_target_witness: "\<exists>s'. cmd_connect demo_config demo_state = Some (0, s') \<and> connected_to demo_config s'"
proof -
  obtain s' where "cmd_connect demo_config demo_state = Some (0, s')"
    using demo_connects by (cases "cmd_connect demo_config demo_state") auto
  then show ?thesis using oc_connect_target[OF demo_inv demo_cmd_ok] by blast
qed

theorem oc_api_safe_witness:
  "call_keeps demo_state (tiny_config (Some demo_config) (Some demo_state)) \<and> call_keeps demo_state (tiny_publish None [1] 1 (Some demo_state)) \<and>
    call_keeps demo_state (tiny_subscribe (Some [116]) 1 (Some demo_state)) \<and> call_keeps demo_state (tiny_unsubscribe (Some [116]) (Some demo_state)) \<and>
    call_keeps demo_state (tiny_deconfig (Some demo_state)) \<and>
    tiny_subscribe None 1 (Some demo_state) = (if (1::int) \<ge> 3 then Some (en_oc_mqtt_err_parafmt, Some demo_state) else None) \<and>
    tiny_unsubscribe None (Some demo_state) = None"
  by (rule oc_api_safe[OF demo_inv]) (use demo_port in \<open>simp add: demo_config_def\<close>)

section \<open>The subscriptions of a connection\<close>

text \<open>A library that refuses some topics and notes what it is asked for.\<close>

definition noting :: "(bytes \<Rightarrow> bool) \<Rightarrow> nat \<Rightarrow> mqtt_al_subpara \<Rightarrow> (bytes \<times> int) list \<Rightarrow> (int \<times> int) \<times> (bytes \<times> int) list" where
  "noting refused h para m = ((if refused (sp_topic para) then -1 else 0, 0), m @ [(sp_topic para, sp_qos para)])"

definition asked :: "(bytes \<Rightarrow> bool) \<Rightarrow> bytes list \<Rightarrow> bytes list" where
  "asked refused ts = takeWhile (\<lambda>t. \<not> refused t) ts @ take 1 (dropWhile (\<lambda>t. \<not> refused t) ts)"

lemma asked_simps [simp]: "asked R [] = []" "asked R (t # ts) = t # (if R t then [] else asked R ts)"
  by (simp_all add: asked_def)

definition noted :: "bytes list \<Rightarrow> (bytes \<times> int) list oc_mqtt_tiny_cb \<Rightarrow> (bytes \<times> int) list oc_mqtt_tiny_cb" where
  "noted ts s = s\<lparr>om_al := (om_al s)\<lparr>al_lib := al_lib (om_al s) @ map (\<lambda>t. (t, 1)) ts\<rparr>\<rparr>"

lemma noted_simps [simp]: "noted [] s = s" "noted ts (noted ts' s) = noted (ts' @ ts) s" "om_para (noted ts s) = om_para s"
    "om_status (noted ts s) = om_status s" "om_hub_topics (noted ts s) = om_hub_topics s" "om_subs (noted ts s) = om_subs s"
    "al_ops (om_al (noted ts s)) = al_ops (om_al s)" "al_lib (om_al (noted ts s)) = al_lib (om_al s) @ map (\<lambda>t. (t, 1)) ts"
  by (simp_all add: noted_def)

definition noter :: "(bytes \<Rightarrow> bool) \<Rightarrow> (bytes \<times> int) list oc_mqtt_tiny_cb \<Rightarrow> bool" where
  "noter refused s \<longleftrightarrow> pa_handle (om_para s) \<noteq> None \<and> Option.bind (al_ops (om_al s)) al_subscribe = Some (noting refused)"

lemma noter_noted [simp]: "noter R (noted ts s) = noter R s"
  by (simp add: noter_def)

lemma sub_topic_notes: "noter R s \<Longrightarrow> sub_topic dealer topic 1 s = (if R topic then -1 else 0, noted [topic] s)"
  by (auto simp: noter_def sub_topic_def mqtt_al_subscribe_def al_call_def noting_def noted_def)

lemma sub_loop_notes: "noter R s \<Longrightarrow> sub_loop (map Some ts) ret s =
    Some (if ts = [] then ret else if \<exists>t \<in> set ts. R t then en_oc_mqtt_err_subscribe else 0, noted (asked R ts) s)"
proof (induction ts arbitrary: ret s)
  case (Cons t ts)
  then show ?case using Cons.IH[of "noted [t] s" 0] by (simp add: sub_topic_notes)
qed simp

lemma dmp_subscribe_notes:
  assumes "noter R s" and "pa_sub_topic (om_para s) = Some t" and "om_hub_topics s = map Some ts" and "om_status s \<noteq> en_daemon_status_bs_getaddr"
  shows "dmp_subscribe s =
    Some (let last = (if om_subs s \<noteq> [] then map fst (om_subs s) else if ts \<noteq> [] then ts else [t])
          in if \<exists>x \<in> set last. R x then en_oc_mqtt_err_subscribe else 0,
      noted (t # asked R ts @ asked R (map fst (om_subs s))) s)"
proof -
  have h: "pa_handle (om_para s) \<noteq> None" using assms(1) by (simp add: noter_def)
  have u: "map (\<lambda>(topic, qos). Some topic) es = map Some (map fst es)" for es :: "(bytes \<times> int) list" by auto
  show ?thesis
    unfolding dmp_subscribe_def if_not_P[OF h] assms(2) Let_def Option.bind.bind_lunit u sub_topic_notes[OF assms(1)] prod.case
      if_not_P[OF assms(4)] noted_simps assms(3)
    using assms(1) by (simp add: sub_loop_notes del: map_map List.map.compositionality)
qed

text \<open>C25. After a connection is made again, the default topic, the topics of the service and every topic of the application are asked for,
  in this order and all with quality of service 1, whatever the application asked for at first: a library that takes them gets exactly
  this list.\<close>

theorem oc_resubscribe_all:
  assumes "noter (\<lambda>t. False) s" and "pa_sub_topic (om_para s) = Some t" and "om_hub_topics s = map Some ts"
    and "om_status s \<noteq> en_daemon_status_bs_getaddr"
  shows "\<exists>s'. dmp_subscribe s = Some (0, s') \<and> om_subs s' = om_subs s \<and>
    al_lib (om_al s') = al_lib (om_al s) @ map (\<lambda>topic. (topic, 1)) (t # ts @ map fst (om_subs s))"
proof -
  have "asked (\<lambda>t. False) xs = xs" for xs by (induction xs) simp_all
  then show ?thesis using dmp_subscribe_notes[OF assms] by (simp add: Let_def)
qed

definition demo_linked :: "(bytes \<times> int) list oc_mqtt_tiny_cb" where
  "demo_linked = demo_state\<lparr>om_status := en_daemon_status_hub_keep, om_para := zero_para\<lparr>pa_handle := Some 1, pa_sub_topic := Some [100]\<rparr>,
     om_hub_topics := map Some [[97], [98]], om_subs := [([117], 2)],
     om_al := \<lparr>al_ops = Some (demo_ops\<lparr>al_subscribe := Some (noting (\<lambda>t. False))\<rparr>), al_lib = []\<rparr>\<rparr>"

theorem oc_resubscribe_all_witness:
  "\<exists>s'. dmp_subscribe demo_linked = Some (0, s') \<and> om_subs s' = [([117], 2)] \<and> al_lib (om_al s') = [([100], 1), ([97], 1), ([98], 1), ([117], 1)]"
  using oc_resubscribe_all[where s = demo_linked and t = "[100]" and ts = "[[97], [98]]"]
  by (simp add: demo_linked_def noter_def)

text \<open>Only the result of the last group of topics is reported: when the application has topics, the subscription counts as made
  if and only if all of these are accepted, even if the default topic, on which the commands arrive, or a topic of the service was refused.\<close>

theorem oc_subscribe_masks:
  assumes "noter refused s" and "pa_sub_topic (om_para s) = Some t" and "om_hub_topics s = map Some ts" and "om_subs s \<noteq> []"
    and "om_status s \<noteq> en_daemon_status_bs_getaddr"
  shows "map_option fst (dmp_subscribe s) = Some (if \<exists>e \<in> set (om_subs s). refused (fst e) then en_oc_mqtt_err_subscribe else en_oc_mqtt_err_ok)"
  using dmp_subscribe_notes[OF assms(1,2,3,5)] assms(4) by (simp add: Let_def)

theorem oc_subscribe_masks_witness:
  "map_option fst (dmp_subscribe (demo_linked\<lparr>om_al := \<lparr>al_ops = Some (demo_ops\<lparr>al_subscribe := Some (noting (\<lambda>t. t \<noteq> [117]))\<rparr>), al_lib = []\<rparr>\<rparr>)) =
     Some en_oc_mqtt_err_ok"
  using oc_subscribe_masks[where s = "demo_linked\<lparr>om_al := \<lparr>al_ops = Some (demo_ops\<lparr>al_subscribe := Some (noting (\<lambda>t. t \<noteq> [117]))\<rparr>), al_lib = []\<rparr>\<rparr>"
      and refused = "\<lambda>t. t \<noteq> [117]" and t = "[100]" and ts = "[[97], [98]]"]
  by (simp add: demo_linked_def noter_def)

end
