(* ===== verification/Profile.thy ===== *)
theory Profile
  imports OcMqtt "HOL-Library.Sublist"
begin

text \<open>
  The profile of the cloud agent, \<^verbatim>\<open>oc/oc_mqtt/oc_mqtt_profile_v5\<close>: it packs reports, responses and events into JSON texts, publishes them
  under the topics of the service (\<^verbatim>\<open>oc_mqtt_profile.c\<close>, \<^verbatim>\<open>oc_mqtt_profile_package.c\<close>, \<^verbatim>\<open>oc_mqtt_event.c\<close>), and tells the application which
  kind of message has arrived.

  A JSON node is a tree with the blocks of memory that it holds: one for itself, one for the text of a string, one for a key that was copied. Creating, adding and deleting
  nodes are the functions of \<^verbatim>\<open>cJSON.c\<close>; its printer is a parameter. \<open>jm_mallocs\<close> has the outcomes of the allocations,
  \<open>jm_keys\<close> those of the copies of keys, and \<open>jm_blocks\<close> counts what is allocated and not freed. A number is the one that was converted, with the type it was converted from.
\<close>

section \<open>JSON nodes\<close>

datatype 'd number = FromInt int | FromLong int | FromFloat 'd | FromDouble 'd

text \<open>A member has its key and whether the key is constant, that is, not copied.\<close>

datatype 'd cjson = CJ_Number "'d number" | CJ_String bytes | CJ_Array "'d cjson list" | CJ_Object "'d cj_member list"
and 'd cj_member = CJ_Member bytes bool "'d cjson"

record jmem =
  jm_mallocs :: "bool list"
  jm_keys :: "bool list"
  jm_blocks :: int

definition jm_alloc :: "jmem \<Rightarrow> bool \<times> jmem" where
  "jm_alloc m = (let (ok, os) = alloc (jm_mallocs m) in (ok, m\<lparr>jm_mallocs := os, jm_blocks := jm_blocks m + (if ok then 1 else 0)\<rparr>))"

definition jm_free :: "int \<Rightarrow> jmem \<Rightarrow> jmem" where
  "jm_free n m = m\<lparr>jm_blocks := jm_blocks m - n\<rparr>"

fun cj_blocks :: "'d cjson \<Rightarrow> int" and member_blocks :: "'d cj_member \<Rightarrow> int" where
  "cj_blocks (CJ_Number n) = 1"
| "cj_blocks (CJ_String s) = 2"
| "cj_blocks (CJ_Array items) = 1 + sum_list (map cj_blocks items)"
| "cj_blocks (CJ_Object members) = 1 + sum_list (map member_blocks members)"
| "member_blocks (CJ_Member key const item) = (if const then 0 else 1) + cj_blocks item"

definition cJSON_Delete :: "'d cjson \<Rightarrow> jmem \<Rightarrow> jmem" where
  "cJSON_Delete item m = jm_free (cj_blocks item) m"

definition cJSON_New_Item :: "'d cjson \<Rightarrow> jmem \<Rightarrow> 'd cjson option \<times> jmem" where
  "cJSON_New_Item item m = (let (ok, m) = jm_alloc m in (if ok then Some item else None, m))"

definition cJSON_CreateObject :: "jmem \<Rightarrow> 'd cjson option \<times> jmem" where
  "cJSON_CreateObject = cJSON_New_Item (CJ_Object [])"

definition cJSON_CreateArray :: "jmem \<Rightarrow> 'd cjson option \<times> jmem" where
  "cJSON_CreateArray = cJSON_New_Item (CJ_Array [])"

definition cJSON_CreateNumber :: "'d number \<Rightarrow> jmem \<Rightarrow> 'd cjson option \<times> jmem" where
  "cJSON_CreateNumber num = cJSON_New_Item (CJ_Number num)"

text \<open>A string without its text is only the node.\<close>

definition cJSON_CreateString :: "bytes option \<Rightarrow> jmem \<Rightarrow> 'd cjson option \<times> jmem" where
  "cJSON_CreateString str m =
     (let (ok, m) = jm_alloc m in
      if \<not> ok then (None, m)
      else case str of
        None \<Rightarrow> (None, jm_free 1 m)
      | Some text \<Rightarrow> let (ok, m) = jm_alloc m in if ok then (Some (CJ_String text), m) else (None, jm_free 1 m))"

text \<open>The loops that fill an array; \<open>create\<close> makes an item.\<close>

fun create_items :: "('x \<Rightarrow> jmem \<Rightarrow> 'd cjson option \<times> jmem) \<Rightarrow> 'x list \<Rightarrow> 'd cjson list \<Rightarrow> jmem \<Rightarrow> 'd cjson option \<times> jmem" where
  "create_items create [] a m = (Some (CJ_Array a), m)"
| "create_items create (x # xs) a m =
     (let (n, m) = create x m in
      case n of None \<Rightarrow> (None, cJSON_Delete (CJ_Array a) m) | Some n \<Rightarrow> create_items create xs (a @ [n]) m)"

definition create_array :: "('x \<Rightarrow> jmem \<Rightarrow> 'd cjson option \<times> jmem) \<Rightarrow> 'x list option \<Rightarrow> jmem \<Rightarrow> 'd cjson option \<times> jmem" where
  "create_array create xs m =
     (case xs of
        None \<Rightarrow> (None, m)
      | Some xs \<Rightarrow> let (a, m) = cJSON_CreateArray m in case a of Some (CJ_Array items) \<Rightarrow> create_items create xs items m | _ \<Rightarrow> (None, m))"

definition cJSON_CreateIntArray :: "int list option \<Rightarrow> jmem \<Rightarrow> 'd cjson option \<times> jmem" where
  "cJSON_CreateIntArray = create_array (\<lambda>i. cJSON_CreateNumber (FromInt i))"

definition cJSON_CreateFloatArray :: "'d list option \<Rightarrow> jmem \<Rightarrow> 'd cjson option \<times> jmem" where
  "cJSON_CreateFloatArray = create_array (\<lambda>x. cJSON_CreateNumber (FromFloat x))"

definition cJSON_CreateDoubleArray :: "'d list option \<Rightarrow> jmem \<Rightarrow> 'd cjson option \<times> jmem" where
  "cJSON_CreateDoubleArray = create_array (\<lambda>x. cJSON_CreateNumber (FromDouble x))"

definition cJSON_CreateStringArray :: "bytes option list option \<Rightarrow> jmem \<Rightarrow> 'd cjson option \<times> jmem" where
  "cJSON_CreateStringArray = create_array cJSON_CreateString"

definition cj_add :: "'d cj_member \<Rightarrow> 'd cjson \<Rightarrow> 'd cjson" where
  "cj_add member root = (case root of CJ_Object members \<Rightarrow> CJ_Object (members @ [member]) | _ \<Rightarrow> root)"

definition cJSON_AddItemToObjectCS :: "bytes \<Rightarrow> 'd cjson \<Rightarrow> 'd cjson \<Rightarrow> 'd cjson" where
  "cJSON_AddItemToObjectCS key item root = cj_add (CJ_Member key True item) root"

text \<open>Without a key, or without memory for its copy, the item is not added and nobody is told.\<close>

definition cJSON_AddItemToObject :: "bytes option \<Rightarrow> 'd cjson \<Rightarrow> 'd cjson \<Rightarrow> jmem \<Rightarrow> 'd cjson \<times> jmem" where
  "cJSON_AddItemToObject key item root m =
     (case key of
        None \<Rightarrow> (root, m)
      | Some key \<Rightarrow>
          let (ok, ks) = alloc (jm_keys m); m = m\<lparr>jm_keys := ks\<rparr>
          in if ok then (cj_add (CJ_Member key False item) root, m\<lparr>jm_blocks := jm_blocks m + 1\<rparr>) else (root, m))"

definition cj_items :: "'d cjson \<Rightarrow> 'd cjson list" where
  "cj_items array = (case array of CJ_Array items \<Rightarrow> items | _ \<Rightarrow> [])"

definition cJSON_AddItemToArray :: "'d cjson \<Rightarrow> 'd cjson \<Rightarrow> 'd cjson" where
  "cJSON_AddItemToArray item array = (case array of CJ_Array items \<Rightarrow> CJ_Array (items @ [item]) | _ \<Rightarrow> array)"

definition cJSON_PrintUnformatted :: "('d cjson \<Rightarrow> bytes) \<Rightarrow> 'd cjson \<Rightarrow> jmem \<Rightarrow> bytes option \<times> jmem" where
  "cJSON_PrintUnformatted print item m = (let (ok, m) = jm_alloc m in (if ok then Some (print item) else None, m))"

text \<open>A node that must be there: else \<^verbatim>\<open>goto EXIT_MEM\<close>, where the root is deleted.\<close>

definition or_exit :: "'d cjson option \<times> jmem \<Rightarrow> 'd cjson \<Rightarrow> ('d cjson \<Rightarrow> jmem \<Rightarrow> 'r option \<times> jmem) \<Rightarrow> 'r option \<times> jmem" where
  "or_exit r root k = (let (item, m) = r in case item of None \<Rightarrow> (None, cJSON_Delete root m) | Some item \<Rightarrow> k item m)"

definition with_root :: "'d cjson option \<times> jmem \<Rightarrow> ('d cjson \<Rightarrow> jmem \<Rightarrow> 'r option \<times> jmem) \<Rightarrow> 'r option \<times> jmem" where
  "with_root r k = (let (item, m) = r in case item of None \<Rightarrow> (None, m) | Some item \<Rightarrow> k item m)"

text \<open>The end of a package: the text is made and the tree deleted.\<close>

definition print_out :: "('d cjson \<Rightarrow> bytes) \<Rightarrow> 'd cjson \<Rightarrow> jmem \<Rightarrow> bytes option \<times> jmem" where
  "print_out print root m = (let (ret, m) = cJSON_PrintUnformatted print root m in (ret, cJSON_Delete root m))"

section \<open>Keys\<close>

abbreviation "CN_OC_JSON_KEY_SERVICEID \<equiv> bytes_of ''service_id''"
abbreviation "CN_OC_JSON_KEY_OBJECTDEVICEID \<equiv> bytes_of ''object_device_id''"
abbreviation "CN_OC_JSON_KEY_NAME \<equiv> bytes_of ''name''"
abbreviation "CN_OC_JSON_KEY_ID \<equiv> bytes_of ''id''"
abbreviation "CN_OC_JSON_KEY_CONTENT \<equiv> bytes_of ''content''"
abbreviation "CN_OC_JSON_KEY_PROPERTIES \<equiv> bytes_of ''properties''"
abbreviation "CN_OC_JSON_KEY_EVENTTIME \<equiv> bytes_of ''event_time''"
abbreviation "CN_OC_JSON_KEY_EVENTTYPE \<equiv> bytes_of ''event_type''"
abbreviation "CN_OC_JSON_KEY_DEVICES \<equiv> bytes_of ''devices''"
abbreviation "CN_OC_JSON_KEY_DEVICEID \<equiv> bytes_of ''device_id''"
abbreviation "CN_OC_JSON_KEY_RESULTCODE \<equiv> bytes_of ''result_code''"
abbreviation "CN_OC_JSON_KEY_PARAS \<equiv> bytes_of ''paras''"
abbreviation "CN_OC_JSON_KEY_RESULTDESC \<equiv> bytes_of ''result_desc''"
abbreviation "CN_OC_JSON_KEY_SERVICES \<equiv> bytes_of ''services''"
abbreviation "CN_OC_JSON_KEY_SWVERSION \<equiv> bytes_of ''sw_version''"
abbreviation "CN_OC_JSON_KEY_FWVERSION \<equiv> bytes_of ''fw_version''"
abbreviation "CN_OC_JSON_KEY_VERSION \<equiv> bytes_of ''version''"
abbreviation "CN_OC_JSON_KEY_PROGRESS \<equiv> bytes_of ''progress''"

section \<open>Payloads\<close>

text \<open>A list of pairs; the value of a pair that is a list again is \<open>VKv\<close>. A missing or negative array is \<open>None\<close>.\<close>

datatype 'd kv_value =
  VInt int | VLong int | VFloat 'd | VDouble 'd | VString "bytes option" | VIntArray "int list option" | VFloatArray "'d list option"
| VDoubleArray "'d list option" | VStringArray "bytes option list option" | VKv "'d kv list" | VLast
and 'd kv = Kv "bytes option" "'d kv_value"

record oc_mqtt_profile_msgup_t =
  mu_device_id :: "bytes option"
  mu_name :: "bytes option"
  mu_id :: "bytes option"
  mu_msg :: "bytes option"

record 'd oc_mqtt_profile_service_t =
  sv_service_id :: "bytes option"
  sv_event_time :: "bytes option"
  sv_service_property :: "'d kv list"

record 'd oc_mqtt_profile_device_t =
  dv_subdevice_id :: "bytes option"
  dv_subdevice_property :: "'d oc_mqtt_profile_service_t list"

record oc_mqtt_profile_propertysetresp_t =
  ps_ret_code :: int
  ps_ret_description :: "bytes option"
  ps_request_id :: "bytes option"

record 'd oc_mqtt_profile_propertygetresp_t =
  pg_request_id :: "bytes option"
  pg_services :: "'d oc_mqtt_profile_service_t list"

record 'd oc_mqtt_profile_cmdresp_t =
  cr_ret_code :: int
  cr_ret_name :: "bytes option"
  cr_request_id :: "bytes option"
  cr_paras :: "'d kv list"

record oc_mqtt_profile_shadowget_t =
  sg_object_device_id :: "bytes option"
  sg_service_id :: "bytes option"
  sg_request_id :: "bytes option"

record 'd oc_mqtt_profile_event_t =
  ev_object_device_id :: "bytes option"
  ev_service_id :: "bytes option"
  ev_event_type :: "bytes option"
  ev_event_time :: "bytes option"
  ev_paras :: "'d kv list"

section \<open>Packing\<close>

fun JsonCreateKv :: "'d kv_value \<Rightarrow> jmem \<Rightarrow> 'd cjson option \<times> jmem"
and JsonCreateKvLst_loop :: "'d kv list \<Rightarrow> 'd cjson \<Rightarrow> jmem \<Rightarrow> 'd cjson option \<times> jmem" where
  "JsonCreateKv (VInt i) m = cJSON_CreateNumber (FromInt i) m"
| "JsonCreateKv (VLong i) m = cJSON_CreateNumber (FromLong i) m"
| "JsonCreateKv (VFloat x) m = cJSON_CreateNumber (FromFloat x) m"
| "JsonCreateKv (VDouble x) m = cJSON_CreateNumber (FromDouble x) m"
| "JsonCreateKv (VString s) m = cJSON_CreateString s m"
| "JsonCreateKv (VIntArray is) m = cJSON_CreateIntArray is m"
| "JsonCreateKv (VFloatArray xs) m = cJSON_CreateFloatArray xs m"
| "JsonCreateKv (VDoubleArray xs) m = cJSON_CreateDoubleArray xs m"
| "JsonCreateKv (VStringArray ss) m = cJSON_CreateStringArray ss m"
| "JsonCreateKv (VKv kvs) m = (let (root, m) = cJSON_CreateObject m in case root of None \<Rightarrow> (None, m) | Some root \<Rightarrow> JsonCreateKvLst_loop kvs root m)"
| "JsonCreateKv VLast m = (None, m)"
| "JsonCreateKvLst_loop [] root m = (Some root, m)"
| "JsonCreateKvLst_loop (Kv key value # kvs) root m =
     (let (kv, m) = JsonCreateKv value m in
      case kv of
        None \<Rightarrow> (None, cJSON_Delete root m)
      | Some kv \<Rightarrow> let (root, m) = cJSON_AddItemToObject key kv root m in JsonCreateKvLst_loop kvs root m)"

definition JsonCreateKvLst :: "'d kv list \<Rightarrow> jmem \<Rightarrow> 'd cjson option \<times> jmem" where
  "JsonCreateKvLst kvlst m = with_root (cJSON_CreateObject m) (\<lambda>root m. JsonCreateKvLst_loop kvlst root m)"

text \<open>A member that is left out when its text is \<^verbatim>\<open>NULL\<close>.\<close>

definition opt_string :: "bytes \<Rightarrow> bytes option \<Rightarrow> 'd cjson \<Rightarrow> jmem \<Rightarrow> ('d cjson \<Rightarrow> jmem \<Rightarrow> 'r option \<times> jmem) \<Rightarrow> 'r option \<times> jmem" where
  "opt_string key text root m k =
     (if text = None then k root m
      else or_exit (cJSON_CreateString text m) root (\<lambda>item m. k (cJSON_AddItemToObjectCS key item root) m))"

definition oc_mqtt_profile_package_msgup :: "('d cjson \<Rightarrow> bytes) \<Rightarrow> oc_mqtt_profile_msgup_t \<Rightarrow> jmem \<Rightarrow> bytes option \<times> jmem" where
  "oc_mqtt_profile_package_msgup print payload m =
     with_root (cJSON_CreateObject m) (\<lambda>root m.
     opt_string CN_OC_JSON_KEY_OBJECTDEVICEID (mu_device_id payload) root m (\<lambda>root m.
     opt_string CN_OC_JSON_KEY_NAME (mu_name payload) root m (\<lambda>root m.
     opt_string CN_OC_JSON_KEY_ID (mu_id payload) root m (\<lambda>root m.
     or_exit (cJSON_CreateString (mu_msg payload) m) root (\<lambda>item m.
     print_out print (cJSON_AddItemToObjectCS CN_OC_JSON_KEY_CONTENT item root) m)))))"

definition JsonCreateService :: "'d oc_mqtt_profile_service_t \<Rightarrow> jmem \<Rightarrow> 'd cjson option \<times> jmem" where
  "JsonCreateService service_info m =
     with_root (cJSON_CreateObject m) (\<lambda>root m.
     or_exit (cJSON_CreateString (sv_service_id service_info) m) root (\<lambda>service_id m.
     let root = cJSON_AddItemToObjectCS CN_OC_JSON_KEY_SERVICEID service_id root in
     or_exit (JsonCreateKvLst (sv_service_property service_info) m) root (\<lambda>properties m.
     let root = cJSON_AddItemToObjectCS CN_OC_JSON_KEY_PROPERTIES properties root in
     opt_string CN_OC_JSON_KEY_EVENTTIME (sv_event_time service_info) root m (\<lambda>root m. (Some root, m)))))"

fun services_loop :: "'d oc_mqtt_profile_service_t list \<Rightarrow> 'd cjson \<Rightarrow> jmem \<Rightarrow> 'd cjson option \<times> jmem" where
  "services_loop [] services m = (Some services, m)"
| "services_loop (sv # svs) services m =
     or_exit (JsonCreateService sv m) services (\<lambda>service m. services_loop svs (cJSON_AddItemToArray service services) m)"

definition JsonCreateServices :: "'d oc_mqtt_profile_service_t list \<Rightarrow> jmem \<Rightarrow> 'd cjson option \<times> jmem" where
  "JsonCreateServices service_info m = with_root (cJSON_CreateArray m) (\<lambda>services m. services_loop service_info services m)"

definition oc_mqtt_profile_package_propertyreport :: "('d cjson \<Rightarrow> bytes) \<Rightarrow> 'd oc_mqtt_profile_service_t list \<Rightarrow> jmem \<Rightarrow> bytes option \<times> jmem" where
  "oc_mqtt_profile_package_propertyreport print payload m =
     with_root (cJSON_CreateObject m) (\<lambda>root m.
     or_exit (JsonCreateServices payload m) root (\<lambda>services m.
     print_out print (cJSON_AddItemToObjectCS CN_OC_JSON_KEY_SERVICES services root) m))"

text \<open>The array of the devices is a member of the root from the start, and a device is an item of it before its own members are made.\<close>

definition devices_root :: "'d cjson list \<Rightarrow> 'd cjson" where
  "devices_root devices = CJ_Object [CJ_Member CN_OC_JSON_KEY_DEVICES True (CJ_Array devices)]"

fun devices_loop :: "'d oc_mqtt_profile_device_t list \<Rightarrow> 'd cjson list \<Rightarrow> jmem \<Rightarrow> 'd cjson option \<times> jmem" where
  "devices_loop [] devices m = (Some (devices_root devices), m)"
| "devices_loop (dv # dvs) devices m =
     or_exit (cJSON_CreateObject m) (devices_root devices) (\<lambda>device m.
     or_exit (cJSON_CreateString (dv_subdevice_id dv) m) (devices_root (devices @ [device])) (\<lambda>device_id m.
     let device = cJSON_AddItemToObjectCS CN_OC_JSON_KEY_DEVICEID device_id device in
     or_exit (JsonCreateServices (dv_subdevice_property dv) m) (devices_root (devices @ [device])) (\<lambda>services m.
     let device = cJSON_AddItemToObjectCS CN_OC_JSON_KEY_SERVICES services device in
     devices_loop dvs (devices @ [device]) m)))"

definition oc_mqtt_profile_package_gwpropertyreport :: "('d cjson \<Rightarrow> bytes) \<Rightarrow> 'd oc_mqtt_profile_device_t list \<Rightarrow> jmem \<Rightarrow> bytes option \<times> jmem" where
  "oc_mqtt_profile_package_gwpropertyreport print payload m =
     with_root (cJSON_CreateObject m) (\<lambda>root m.
     or_exit (cJSON_CreateArray m) root (\<lambda>devices m.
     with_root (devices_loop payload (cj_items devices) m) (\<lambda>root m. print_out print root m)))"

definition oc_mqtt_profile_package_propertysetresp :: "('d cjson \<Rightarrow> bytes) \<Rightarrow> oc_mqtt_profile_propertysetresp_t \<Rightarrow> jmem \<Rightarrow> bytes option \<times> jmem" where
  "oc_mqtt_profile_package_propertysetresp print payload m =
     with_root (cJSON_CreateObject m) (\<lambda>root m.
     or_exit (cJSON_CreateNumber (FromInt (ps_ret_code payload)) m) root (\<lambda>ret_code m.
     let root = cJSON_AddItemToObjectCS CN_OC_JSON_KEY_RESULTCODE ret_code root in
     opt_string CN_OC_JSON_KEY_RESULTDESC (ps_ret_description payload) root m (\<lambda>root m. print_out print root m)))"

definition oc_mqtt_profile_package_propertygetresp :: "('d cjson \<Rightarrow> bytes) \<Rightarrow> 'd oc_mqtt_profile_propertygetresp_t \<Rightarrow> jmem \<Rightarrow> bytes option \<times> jmem" where
  "oc_mqtt_profile_package_propertygetresp print payload m =
     with_root (cJSON_CreateObject m) (\<lambda>root m.
     or_exit (JsonCreateServices (pg_services payload) m) root (\<lambda>services m.
     print_out print (cJSON_AddItemToObjectCS CN_OC_JSON_KEY_SERVICES services root) m))"

definition oc_mqtt_profile_package_cmdresp :: "('d cjson \<Rightarrow> bytes) \<Rightarrow> 'd oc_mqtt_profile_cmdresp_t \<Rightarrow> jmem \<Rightarrow> bytes option \<times> jmem" where
  "oc_mqtt_profile_package_cmdresp print payload m =
     with_root (cJSON_CreateObject m) (\<lambda>root m.
     or_exit (cJSON_CreateNumber (FromInt (cr_ret_code payload)) m) root (\<lambda>ret_code m.
     let root = cJSON_AddItemToObjectCS CN_OC_JSON_KEY_RESULTCODE ret_code root in
     opt_string CN_OC_JSON_KEY_RESULTDESC (cr_ret_name payload) root m (\<lambda>root m.
     if cr_paras payload = [] then print_out print root m
     else or_exit (JsonCreateKvLst (cr_paras payload) m) root (\<lambda>paras m.
       print_out print (cJSON_AddItemToObjectCS CN_OC_JSON_KEY_PARAS paras root) m))))"

definition oc_mqtt_profile_package_shadowget :: "('d cjson \<Rightarrow> bytes) \<Rightarrow> oc_mqtt_profile_shadowget_t \<Rightarrow> jmem \<Rightarrow> bytes option \<times> jmem" where
  "oc_mqtt_profile_package_shadowget print payload m =
     with_root (cJSON_CreateObject m) (\<lambda>root m.
     opt_string CN_OC_JSON_KEY_OBJECTDEVICEID (sg_object_device_id payload) root m (\<lambda>root m.
     opt_string CN_OC_JSON_KEY_SERVICEID (sg_service_id payload) root m (\<lambda>root m. print_out print root m)))"

text \<open>
  The event copies its keys. A member whose key cannot be copied is not part of the tree, so the root is what is attached: the
  members \<open>R\<close>, and the array of the services when \<open>att\<close>; later members go into nodes that may hang in the air.
\<close>

definition event_root :: "'d cjson \<Rightarrow> bool \<Rightarrow> 'd cjson list \<Rightarrow> 'd cjson" where
  "event_root root att services = (if att then cj_add (CJ_Member CN_OC_JSON_KEY_SERVICES False (CJ_Array services)) root else root)"

definition key_copied :: "jmem \<Rightarrow> bool \<times> jmem" where
  "key_copied m = (let (ok, ks) = alloc (jm_keys m) in (ok, m\<lparr>jm_keys := ks, jm_blocks := jm_blocks m + (if ok then 1 else 0)\<rparr>))"

definition event_member ::
  "bytes \<Rightarrow> 'd cjson option \<times> jmem \<Rightarrow> ('d cjson \<Rightarrow> 'd cjson) \<Rightarrow> 'd cjson \<Rightarrow> ('d cjson \<Rightarrow> jmem \<Rightarrow> 'r option \<times> jmem) \<Rightarrow> 'r option \<times> jmem" where
  "event_member key r root service k =
     or_exit r (root service) (\<lambda>item m. let (service, m) = cJSON_AddItemToObject (Some key) item service m in k service m)"

definition oc_mqtt_profile_package_event :: "('d cjson \<Rightarrow> bytes) \<Rightarrow> 'd oc_mqtt_profile_event_t \<Rightarrow> jmem \<Rightarrow> bytes option \<times> jmem" where
  "oc_mqtt_profile_package_event print payload m =
     with_root (cJSON_CreateObject m) (\<lambda>root m.
     (\<lambda>k. if ev_object_device_id payload = None then k root m
          else event_member CN_OC_JSON_KEY_OBJECTDEVICEID (cJSON_CreateString (ev_object_device_id payload) m) (\<lambda>root. root) root k) (\<lambda>root m.
     or_exit (cJSON_CreateArray m) root (\<lambda>services m.
     let (att, m) = key_copied m in
     or_exit (cJSON_CreateObject m) (event_root root att []) (\<lambda>service m.
     let tree = (\<lambda>service. event_root root att [service]) in
     event_member CN_OC_JSON_KEY_SERVICEID (cJSON_CreateString (ev_service_id payload) m) tree service (\<lambda>service m.
     (\<lambda>k. if ev_event_time payload = None then k service m
          else event_member CN_OC_JSON_KEY_EVENTTIME (cJSON_CreateString (ev_event_time payload) m) tree service k) (\<lambda>service m.
     event_member CN_OC_JSON_KEY_EVENTTYPE (cJSON_CreateString (ev_event_type payload) m) tree service (\<lambda>service m.
     event_member CN_OC_JSON_KEY_PARAS (JsonCreateKvLst (ev_paras payload) m) tree service (\<lambda>service m.
     print_out print (tree service) m))))))))"

section \<open>Publishing\<close>

datatype en_oc_mqtt_profile_msg_type_down = DOWN_MSGDOWN | DOWN_COMMANDS | DOWN_PROPERTYSET | DOWN_PROPERTYGET | DOWN_EVENT | DOWN_BS | DOWN_SHADOWGET | DOWN_LAST

record oc_mqtt_profile_msgrcv_t =
  rc_type :: en_oc_mqtt_profile_msg_type_down
  rc_request_id :: "bytes option"
  rc_msg :: bytes

text \<open>The state of the profile, with the agent below it, the printer of cJSON, and what the function of the application was called with.\<close>

record ('g, 'd) oc_mqtt_profile_cb =
  pf_device_id :: "bytes option"
  pf_rcvfunc :: bool
  pf_mem :: jmem
  pf_oc :: "'g oc_mqtt_cb"
  pf_print :: "'d cjson \<Rightarrow> bytes"
  pf_rcvs :: "oc_mqtt_profile_msgrcv_t list"

text \<open>The buffer has room for the format without its last \<^verbatim>\<open>%s\<close> and the terminator.\<close>

definition topic_make :: "bytes \<Rightarrow> bytes option \<Rightarrow> bytes option \<Rightarrow> jmem \<Rightarrow> bytes option \<times> jmem" where
  "topic_make fmt device_id request_id m =
     (case device_id of
        None \<Rightarrow> (None, m)
      | Some ident \<Rightarrow>
          let len = length fmt + length ident + opt_len request_id; (ok, m) = jm_alloc m
          in (if ok then Some (take (len - 1) (expand fmt (ident # (case request_id of None \<Rightarrow> [] | Some r \<Rightarrow> [r])))) else None, m))"

definition jm_free_opt :: "'a option \<Rightarrow> jmem \<Rightarrow> jmem" where
  "jm_free_opt p m = (if p = None then m else jm_free 1 m)"

text \<open>What all functions that publish have in common: the device, the check of the payload, topic and message, the publication.\<close>

definition profile_publish ::
  "bytes \<Rightarrow> bytes option \<Rightarrow> bytes option \<Rightarrow> bool \<Rightarrow> (jmem \<Rightarrow> bytes option \<times> jmem) \<Rightarrow> ('g, 'd) oc_mqtt_profile_cb \<Rightarrow>
    (int \<times> ('g, 'd) oc_mqtt_profile_cb) option" where
  "profile_publish fmt deviceid request_id valid package s =
     (let deviceid = (if deviceid = None then pf_device_id s else deviceid) in
      if deviceid = None \<or> \<not> valid then Some (en_oc_mqtt_err_parafmt, s)
      else
        let (topic, m) = topic_make fmt deviceid request_id (pf_mem s);
            (msg, m) = package m
        in do {
          (ret, oc) \<leftarrow> (case (topic, msg) of
             (Some t, Some text) \<Rightarrow> oc_mqtt_publish (Some t) text 1 (pf_oc s)
           | _ \<Rightarrow> Some (en_oc_mqtt_err_sysmem, pf_oc s));
          Some (ret, s\<lparr>pf_mem := jm_free_opt msg (jm_free_opt topic m), pf_oc := oc\<rparr>) })"

definition CN_OC_MQTT_PROFILE_MSGUP_TOPICFMT :: bytes where
  "CN_OC_MQTT_PROFILE_MSGUP_TOPICFMT = bytes_of ''$oc/devices/%s/sys/messages/up''"

definition CN_OC_MQTT_PROFILE_PROPERTYREPORT_TOPICFMT :: bytes where
  "CN_OC_MQTT_PROFILE_PROPERTYREPORT_TOPICFMT = bytes_of ''$oc/devices/%s/sys/properties/report''"

definition CN_OC_MQTT_PROFILE_GWPROPERTYREPORT_TOPICFMT :: bytes where
  "CN_OC_MQTT_PROFILE_GWPROPERTYREPORT_TOPICFMT = bytes_of ''$oc/devices/%s/sys/gateway/sub_devices/properties/report''"

definition CN_OC_MQTT_PROFILE_ROPERTYSETRESP_TOPICFMT :: bytes where
  "CN_OC_MQTT_PROFILE_ROPERTYSETRESP_TOPICFMT = bytes_of ''$oc/devices/%s/sys/properties/set/response/request_id=%s''"

definition CN_OC_MQTT_PROFILE_ROPERTYGETRESP_TOPICFMT :: bytes where
  "CN_OC_MQTT_PROFILE_ROPERTYGETRESP_TOPICFMT = bytes_of ''$oc/devices/%s/sys/properties/get/response/request_id=%s''"

definition CN_OC_MQTT_PROFILE_CMDRESP_TOPICFMT :: bytes where
  "CN_OC_MQTT_PROFILE_CMDRESP_TOPICFMT = bytes_of ''$oc/devices/%s/sys/commands/response/request_id=%s''"

definition CN_OC_MQTT_PROFILE_GETSHADOW_TOPICFMT :: bytes where
  "CN_OC_MQTT_PROFILE_GETSHADOW_TOPICFMT = bytes_of ''$oc/devices/%s/sys/shadow/get/request_id=%s''"

definition CN_OC_MQTT_PROFILE_EVENT_TOPICFMT :: bytes where
  "CN_OC_MQTT_PROFILE_EVENT_TOPICFMT = bytes_of ''$oc/devices/%s/sys/events/up''"

type_synonym ('g, 'd) pf_step = "('g, 'd) oc_mqtt_profile_cb \<Rightarrow> (int \<times> ('g, 'd) oc_mqtt_profile_cb) option"

definition oc_mqtt_profile_msgup :: "bytes option \<Rightarrow> oc_mqtt_profile_msgup_t option \<Rightarrow> ('g, 'd) pf_step" where
  "oc_mqtt_profile_msgup deviceid payload s =
     profile_publish CN_OC_MQTT_PROFILE_MSGUP_TOPICFMT deviceid None (case payload of None \<Rightarrow> False | Some p \<Rightarrow> mu_msg p \<noteq> None)
       (oc_mqtt_profile_package_msgup (pf_print s) (the payload)) s"

text \<open>Of a list of services only the first is checked.\<close>

definition service_ok :: "'d oc_mqtt_profile_service_t list \<Rightarrow> bool" where
  "service_ok svs = (svs \<noteq> [] \<and> sv_service_id (hd svs) \<noteq> None \<and> sv_service_property (hd svs) \<noteq> [])"

definition oc_mqtt_profile_propertyreport :: "bytes option \<Rightarrow> 'd oc_mqtt_profile_service_t list \<Rightarrow> ('g, 'd) pf_step" where
  "oc_mqtt_profile_propertyreport deviceid payload s =
     profile_publish CN_OC_MQTT_PROFILE_PROPERTYREPORT_TOPICFMT deviceid None (service_ok payload)
       (oc_mqtt_profile_package_propertyreport (pf_print s) payload) s"

definition oc_mqtt_profile_gwpropertyreport :: "bytes option \<Rightarrow> 'd oc_mqtt_profile_device_t list \<Rightarrow> ('g, 'd) pf_step" where
  "oc_mqtt_profile_gwpropertyreport deviceid payload s =
     profile_publish CN_OC_MQTT_PROFILE_GWPROPERTYREPORT_TOPICFMT deviceid None
       (payload \<noteq> [] \<and> dv_subdevice_id (hd payload) \<noteq> None \<and> service_ok (dv_subdevice_property (hd payload)))
       (oc_mqtt_profile_package_gwpropertyreport (pf_print s) payload) s"

definition oc_mqtt_profile_propertysetresp :: "bytes option \<Rightarrow> oc_mqtt_profile_propertysetresp_t option \<Rightarrow> ('g, 'd) pf_step" where
  "oc_mqtt_profile_propertysetresp deviceid payload s =
     profile_publish CN_OC_MQTT_PROFILE_ROPERTYSETRESP_TOPICFMT deviceid (Option.bind payload ps_request_id)
       (case payload of None \<Rightarrow> False | Some p \<Rightarrow> ps_request_id p \<noteq> None) (oc_mqtt_profile_package_propertysetresp (pf_print s) (the payload)) s"

text \<open>The list of the services is followed without a check that there is one.\<close>

definition oc_mqtt_profile_propertygetresp :: "bytes option \<Rightarrow> 'd oc_mqtt_profile_propertygetresp_t option \<Rightarrow> ('g, 'd) pf_step" where
  "oc_mqtt_profile_propertygetresp deviceid payload s =
     (if (deviceid \<noteq> None \<or> pf_device_id s \<noteq> None) \<and> (case payload of None \<Rightarrow> False | Some p \<Rightarrow> pg_request_id p \<noteq> None \<and> pg_services p = []) then None
      else profile_publish CN_OC_MQTT_PROFILE_ROPERTYGETRESP_TOPICFMT deviceid (Option.bind payload pg_request_id)
       (case payload of None \<Rightarrow> False | Some p \<Rightarrow> pg_request_id p \<noteq> None \<and> service_ok (pg_services p))
       (oc_mqtt_profile_package_propertygetresp (pf_print s) (the payload)) s)"

definition oc_mqtt_profile_cmdresp :: "bytes option \<Rightarrow> 'd oc_mqtt_profile_cmdresp_t option \<Rightarrow> ('g, 'd) pf_step" where
  "oc_mqtt_profile_cmdresp deviceid payload s =
     profile_publish CN_OC_MQTT_PROFILE_CMDRESP_TOPICFMT deviceid (Option.bind payload cr_request_id)
       (case payload of None \<Rightarrow> False | Some p \<Rightarrow> cr_request_id p \<noteq> None) (oc_mqtt_profile_package_cmdresp (pf_print s) (the payload)) s"

definition oc_mqtt_profile_getshadow :: "bytes option \<Rightarrow> oc_mqtt_profile_shadowget_t option \<Rightarrow> ('g, 'd) pf_step" where
  "oc_mqtt_profile_getshadow deviceid payload s =
     profile_publish CN_OC_MQTT_PROFILE_GETSHADOW_TOPICFMT deviceid (Option.bind payload sg_request_id)
       (case payload of None \<Rightarrow> False | Some p \<Rightarrow> sg_request_id p \<noteq> None) (oc_mqtt_profile_package_shadowget (pf_print s) (the payload)) s"

definition oc_mqtt_profile_reportevent :: "bytes option \<Rightarrow> 'd oc_mqtt_profile_event_t option \<Rightarrow> ('g, 'd) pf_step" where
  "oc_mqtt_profile_reportevent deviceid event s =
     profile_publish CN_OC_MQTT_PROFILE_EVENT_TOPICFMT deviceid None (case event of None \<Rightarrow> False | Some p \<Rightarrow> ev_event_type p \<noteq> None)
       (oc_mqtt_profile_package_event (pf_print s) (the event)) s"

section \<open>Connecting\<close>

record oc_mqtt_profile_connect_t =
  pc_boostrap :: int
  pc_life_time :: int
  pc_server_addr :: "bytes option"
  pc_server_port :: "bytes option"
  pc_device_id :: "bytes option"
  pc_device_passwd :: "bytes option"
  pc_scope_id :: "bytes option"
  pc_security :: dtls_security
  pc_rcvfunc :: bool
  pc_logfunc :: bool

text \<open>The life time is cut to 16 bits.\<close>

definition profile_config :: "oc_mqtt_profile_connect_t \<Rightarrow> oc_mqtt_config_t" where
  "profile_config p = \<lparr>cf_boot_mode = (if pc_boostrap p \<noteq> 0 then 0 else 1), cf_lifetime = word_of_int (pc_life_time p),
     cf_server_addr = pc_server_addr p, cf_server_port = pc_server_port p, cf_security = pc_security p, cf_id = pc_device_id p,
     cf_pwd = pc_device_passwd p, cf_scope_id = pc_scope_id p, cf_msg_deal = True, cf_log_dealer = pc_logfunc p\<rparr>"

definition jm_strdup :: "bytes option \<Rightarrow> jmem \<Rightarrow> bytes option \<times> jmem" where
  "jm_strdup ch m = (case ch of None \<Rightarrow> (None, m) | Some _ \<Rightarrow> let (ok, m) = jm_alloc m in (if ok then ch else None, m))"

definition oc_mqtt_profile_connect :: "oc_mqtt_profile_connect_t option \<Rightarrow> ('g, 'd) pf_step" where
  "oc_mqtt_profile_connect payload s =
     (case payload of
        None \<Rightarrow> Some (en_oc_mqtt_err_parafmt, s)
      | Some p \<Rightarrow>
          let m = jm_free_opt (pf_device_id s) (pf_mem s);
              (device_id, m) = jm_strdup (pc_device_id p) m;
              s = s\<lparr>pf_mem := m, pf_device_id := device_id, pf_rcvfunc := pc_rcvfunc p\<rparr>
          in do { (ret, oc) \<leftarrow> oc_mqtt_config (Some (profile_config p)) (pf_oc s); Some (ret, s\<lparr>pf_oc := oc\<rparr>) })"

definition oc_mqtt_profile_disconnect :: "('g, 'd) pf_step" where
  "oc_mqtt_profile_disconnect s = do {
     (ret, oc) \<leftarrow> oc_mqtt_deconfig (pf_oc s);
     let s = s\<lparr>pf_oc := oc\<rparr>;
     Some (ret, if ret = en_oc_mqtt_err_ok
                then s\<lparr>pf_mem := jm_free_opt (pf_device_id s) (pf_mem s), pf_device_id := None, pf_rcvfunc := False\<rparr> else s) }"

section \<open>Messages\<close>

text \<open>\<^verbatim>\<open>strstr\<close>: the text from the first occurrence on.\<close>

fun str_find :: "bytes \<Rightarrow> bytes \<Rightarrow> bytes option" where
  "str_find p [] = (if p = [] then Some [] else None)"
| "str_find p (c # cs) = (if prefix p (c # cs) then Some (c # cs) else str_find p cs)"

definition CN_OC_MQTT_PROFILE_REQUESTID_INDEX :: bytes where
  "CN_OC_MQTT_PROFILE_REQUESTID_INDEX = bytes_of ''request_id=''"

definition msg_type :: "bytes \<Rightarrow> en_oc_mqtt_profile_msg_type_down" where
  "msg_type topic =
     (if str_find (bytes_of ''/sys/messages/down'') topic \<noteq> None then DOWN_MSGDOWN
      else if str_find (bytes_of ''/sys/properties/set/'') topic \<noteq> None then DOWN_PROPERTYSET
      else if str_find (bytes_of ''/sys/properties/get/'') topic \<noteq> None then DOWN_PROPERTYGET
      else if str_find (bytes_of ''/sys/commands/'') topic \<noteq> None then DOWN_COMMANDS
      else if str_find (bytes_of ''/sys/events/down'') topic \<noteq> None then DOWN_EVENT
      else if str_find (bytes_of ''/sys/bootstrap/down'') topic \<noteq> None then DOWN_BS
      else if str_find (bytes_of ''/sys/shadow/get'') topic \<noteq> None then DOWN_SHADOWGET
      else DOWN_LAST)"

text \<open>The topic is copied and ends at its first zero.\<close>

definition app_msg_deal :: "bytes \<times> bytes \<Rightarrow> ('g, 'd) oc_mqtt_profile_cb \<Rightarrow> int \<times> ('g, 'd) oc_mqtt_profile_cb" where
  "app_msg_deal msg s =
     (let (ok, m) = jm_alloc (pf_mem s); s = s\<lparr>pf_mem := m\<rparr> in
      if \<not> ok then (-1, s)
      else
        let topicbuf = takeWhile (\<lambda>c. c \<noteq> 0) (fst msg);
            s = (if pf_rcvfunc s
                 then s\<lparr>pf_rcvs := pf_rcvs s @ [\<lparr>rc_type = msg_type topicbuf,
                   rc_request_id = map_option (drop (length CN_OC_MQTT_PROFILE_REQUESTID_INDEX)) (str_find CN_OC_MQTT_PROFILE_REQUESTID_INDEX topicbuf),
                   rc_msg = snd msg\<rparr>]\<rparr>
                 else s)
        in (-1, s\<lparr>pf_mem := jm_free 1 (pf_mem s)\<rparr>))"

section \<open>Reports of versions and upgrades\<close>

definition oc_mqtt_report_version :: "bytes option \<Rightarrow> bytes option \<Rightarrow> bytes option \<Rightarrow> bytes option \<Rightarrow> ('g, 'd) pf_step" where
  "oc_mqtt_report_version deviceID objectDeviceID softVersion firmVersion s =
     (let cur = [];
          cur = (if softVersion \<noteq> None then Kv (Some CN_OC_JSON_KEY_SWVERSION) (VString softVersion) # cur else cur);
          cur = (if firmVersion \<noteq> None then Kv (Some CN_OC_JSON_KEY_FWVERSION) (VString firmVersion) # cur else cur)
      in oc_mqtt_profile_reportevent deviceID
           (Some \<lparr>ev_object_device_id = objectDeviceID, ev_service_id = Some (bytes_of ''$ota''), ev_event_type = Some (bytes_of ''version_report''),
              ev_event_time = None, ev_paras = cur\<rparr>) s)"

definition oc_mqtt_report_upgradeprogress :: "bytes option \<Rightarrow> bytes option \<Rightarrow> int \<Rightarrow> bytes option \<Rightarrow> int \<Rightarrow> ('g, 'd) pf_step" where
  "oc_mqtt_report_upgradeprogress deviceID objectDeviceID upgraderet version progress s =
     (let cur = [Kv (Some CN_OC_JSON_KEY_RESULTCODE) (VInt upgraderet)];
          cur = (if version \<noteq> None then Kv (Some CN_OC_JSON_KEY_VERSION) (VString version) # cur else cur);
          cur = (if progress \<ge> 0 \<and> progress \<le> 100 then Kv (Some CN_OC_JSON_KEY_PROGRESS) (VInt progress) # cur else cur)
      in oc_mqtt_profile_reportevent deviceID
           (Some \<lparr>ev_object_device_id = objectDeviceID, ev_service_id = Some (bytes_of ''$ota''),
              ev_event_type = Some (bytes_of ''upgrade_progress_report''), ev_event_time = None, ev_paras = cur\<rparr>) s)"

end
