(* ===== verification/ProfileFacts.thy ===== *)
theory ProfileFacts
  imports Profile OcAgent
begin

text \<open>
  Properties of the profile: each package is the text of the tree that the payload describes, with all memory freed; topics are built and recognised.
\<close>

section \<open>Yielding a value from memory\<close>

definition keys_ok :: "jmem \<Rightarrow> bool" where
  "keys_ok m \<longleftrightarrow> False \<notin> set (jm_keys m)"

definition mem_ok :: "jmem \<Rightarrow> bool" where
  "mem_ok m \<longleftrightarrow> False \<notin> set (jm_mallocs m)"

text \<open>
  \<open>at B ok c m\<close>: the memory has \<open>c\<close> blocks more than \<open>B\<close>, keys can be copied, and, when \<open>ok\<close>, no allocation fails.
  \<open>yields B ok r x b\<close>: the result is that of \<open>x\<close> with its \<open>b\<close> blocks, or it is missing and nothing is left; with memory, it is missing only when \<open>x\<close> is.
\<close>

definition at :: "int \<Rightarrow> bool \<Rightarrow> int \<Rightarrow> jmem \<Rightarrow> bool" where
  "at B ok c m \<longleftrightarrow> keys_ok m \<and> (ok \<longrightarrow> mem_ok m) \<and> jm_blocks m = B + c"

definition yields :: "int \<Rightarrow> bool \<Rightarrow> 'r option \<times> jmem \<Rightarrow> 'r option \<Rightarrow> ('r \<Rightarrow> int) \<Rightarrow> bool" where
  "yields B ok r x b \<longleftrightarrow>
     (case fst r of None \<Rightarrow> at B ok 0 (snd r) \<and> (ok \<longrightarrow> x = None) | Some y \<Rightarrow> x = Some y \<and> at B ok (b y) (snd r))"

lemma yieldsI:
  "fst r = None \<Longrightarrow> at B ok 0 (snd r) \<Longrightarrow> (ok \<Longrightarrow> x = None) \<Longrightarrow> yields B ok r x b"
  "fst r = Some y \<Longrightarrow> x = Some y \<Longrightarrow> at B ok (b y) (snd r) \<Longrightarrow> yields B ok r x b"
  by (simp_all add: yields_def)

lemma yieldsE:
  assumes "yields B ok r x b"
  obtains (fail) m where "r = (None, m)" "at B ok 0 m" "ok \<Longrightarrow> x = None"
    | (got) y m where "r = (Some y, m)" "x = Some y" "at B ok (b y) m"
  using assms by (cases r; cases "fst r") (auto simp: yields_def)

lemma at_base: "at (B + c) ok d m = at B ok (c + d) m"
  by (auto simp: at_def)

lemma at_free [simp]: "at B ok c (jm_free n m) = at B ok (c + n) m"
  by (auto simp: at_def jm_free_def keys_ok_def mem_ok_def)

lemma jm_alloc_at:
  assumes "at B ok c m"
  obtains (no) m' where "jm_alloc m = (False, m')" "at B ok c m'" "\<not> ok"
    | (yes) m' where "jm_alloc m = (True, m')" "at B ok (c + 1) m'"
proof (cases "jm_mallocs m")
  case Nil
  then show ?thesis using assms by (intro yes) (auto simp: jm_alloc_def at_def mem_ok_def keys_ok_def)
next
  case (Cons b bs)
  show ?thesis
  proof (cases b)
    case True
    then show ?thesis using assms Cons by (intro yes) (auto simp: jm_alloc_def at_def mem_ok_def keys_ok_def)
  next
    case False
    then show ?thesis using assms Cons by (intro no) (auto simp: jm_alloc_def at_def mem_ok_def keys_ok_def)
  qed
qed

lemma key_at:
  assumes "at B ok c m"
  obtains ks where "alloc (jm_keys m) = (True, ks)" "at B ok c (m\<lparr>jm_keys := ks\<rparr>)"
proof (cases "jm_keys m")
  case Nil
  then show ?thesis using assms by (intro that[of "[]"]) (simp_all add: at_def keys_ok_def mem_ok_def)
next
  case (Cons b bs)
  then show ?thesis using assms by (intro that[of bs]) (auto simp: at_def keys_ok_def mem_ok_def)
qed

section \<open>Nodes\<close>

lemma New_Item_yields: "at B ok 0 m \<Longrightarrow> cj_blocks i = 1 \<Longrightarrow> yields B ok (cJSON_New_Item i m) (Some i) cj_blocks"
  by (erule jm_alloc_at) (auto simp: cJSON_New_Item_def intro: yieldsI)

lemma Create_yields [intro]:
  "at B ok 0 m \<Longrightarrow> yields B ok (cJSON_CreateObject m) (Some (CJ_Object [])) cj_blocks"
  "at B ok 0 m \<Longrightarrow> yields B ok (cJSON_CreateArray m) (Some (CJ_Array [])) cj_blocks"
  "at B ok 0 m \<Longrightarrow> yields B ok (cJSON_CreateNumber n m) (Some (CJ_Number n)) cj_blocks"
  by (simp_all add: cJSON_CreateObject_def cJSON_CreateArray_def cJSON_CreateNumber_def New_Item_yields)

lemma CreateString_yields [intro]:
  assumes "at B ok 0 m"
  shows "yields B ok (cJSON_CreateString s m) (map_option CJ_String s) cj_blocks"
  using assms
proof (cases rule: jm_alloc_at)
  case (no m')
  then show ?thesis by (intro yieldsI(1)) (simp_all add: cJSON_CreateString_def)
next
  case (yes m1)
  show ?thesis
  proof (cases s)
    case None
    then show ?thesis using yes by (intro yieldsI(1)) (simp_all add: cJSON_CreateString_def)
  next
    case (Some t)
    from yes(2) show ?thesis
    proof (cases rule: jm_alloc_at)
      case (no m')
      then show ?thesis using yes Some by (intro yieldsI(1)) (simp_all add: cJSON_CreateString_def)
    next
      case y: (yes m')
      then show ?thesis using yes Some by (intro yieldsI(2)[of _ "CJ_String t"]) (simp_all add: cJSON_CreateString_def)
    qed
  qed
qed

lemma at_Delete: "at B ok (cj_blocks root) m \<Longrightarrow> at B ok 0 (cJSON_Delete root m)"
  by (simp add: cJSON_Delete_def)

lemma or_exit_yields:
  assumes "yields (B + cj_blocks root) ok r x cj_blocks"
    and "\<And>item m. x = Some item \<Longrightarrow> at B ok (cj_blocks root + cj_blocks item) m \<Longrightarrow> yields B ok (k item m) (y item) b"
  shows "yields B ok (or_exit r root k) (Option.bind x y) b"
  using assms(1)
proof (cases rule: yieldsE)
  case (fail m)
  then show ?thesis by (intro yieldsI(1)) (simp_all add: or_exit_def cJSON_Delete_def at_base)
next
  case (got item m)
  then show ?thesis using assms(2)[of item m] by (simp add: or_exit_def at_base)
qed

lemma with_root_yields:
  assumes "yields B ok r x cj_blocks"
    and "\<And>root m. x = Some root \<Longrightarrow> at B ok (cj_blocks root) m \<Longrightarrow> yields B ok (k root m) (y root) b"
  shows "yields B ok (with_root r k) (Option.bind x y) b"
  using assms(1)
proof (cases rule: yieldsE)
  case (fail m)
  then show ?thesis by (intro yieldsI(1)) (simp_all add: with_root_def)
next
  case (got item m)
  then show ?thesis using assms(2)[of item m] by (simp add: with_root_def)
qed

lemma print_out_yields:
  assumes "at B ok (cj_blocks root) m"
  shows "yields B ok (print_out print root m) (Some (print root)) (\<lambda>_. 1)"
  using assms
proof (cases rule: jm_alloc_at)
  case (no m')
  then show ?thesis by (intro yieldsI(1)) (simp_all add: print_out_def cJSON_PrintUnformatted_def cJSON_Delete_def)
next
  case (yes m')
  then show ?thesis by (intro yieldsI(2)[of _ "print root"]) (simp_all add: print_out_def cJSON_PrintUnformatted_def cJSON_Delete_def add.commute)
qed

lemma blocks_add [simp]:
  "cj_blocks (cj_add (CJ_Member key const item) (CJ_Object ms)) = cj_blocks (CJ_Object ms) + (if const then 0 else 1) + cj_blocks item"
  by (simp add: cj_add_def)

definition is_object :: "'d cjson \<Rightarrow> bool" where
  "is_object j \<longleftrightarrow> (\<exists>ms. j = CJ_Object ms)"

lemma object_add [simp]: "is_object j \<Longrightarrow> is_object (cj_add x j)" "is_object (CJ_Object ms)"
  by (auto simp: is_object_def cj_add_def)

lemma blocks_addCS [simp]:
  "is_object root \<Longrightarrow> cj_blocks (cJSON_AddItemToObjectCS key item root) = cj_blocks root + cj_blocks item"
  "is_object root \<Longrightarrow> is_object (cJSON_AddItemToObjectCS key item root)"
  by (auto simp: cJSON_AddItemToObjectCS_def is_object_def cj_add_def)

text \<open>A member is added, or left out.\<close>

definition opt_member :: "bytes \<Rightarrow> bytes option \<Rightarrow> 'd cjson \<Rightarrow> 'd cjson" where
  "opt_member key text root = (case text of None \<Rightarrow> root | Some t \<Rightarrow> cJSON_AddItemToObjectCS key (CJ_String t) root)"

lemma opt_member_object [simp]: "is_object root \<Longrightarrow> is_object (opt_member key text root)"
  by (simp add: opt_member_def split: option.split)

lemma opt_string_yields:
  fixes root :: "'d cjson"
  assumes "at B ok (cj_blocks root) m" and "is_object root"
    and "\<And>m. at B ok (cj_blocks (opt_member key text root)) m \<Longrightarrow> yields B ok (k (opt_member key text root) m) x b"
  shows "yields B ok (opt_string key text root m k) x b"
proof (cases "text")
  case None
  then show ?thesis using assms by (simp add: opt_string_def opt_member_def)
next
  case (Some t)
  have "at (B + cj_blocks root) ok 0 m" using assms(1) by (simp add: at_base)
  note CreateString_yields[OF this]
  then have "yields B ok (or_exit (cJSON_CreateString text m) root (\<lambda>item m. k (cJSON_AddItemToObjectCS key item root) m))
      (Option.bind (map_option CJ_String text :: 'd cjson option) (\<lambda>_. x)) b"
    by (rule or_exit_yields) (use assms(2,3) Some in \<open>auto simp: opt_member_def\<close>)
  then show ?thesis using Some by (simp add: opt_string_def)
qed

text \<open>Keys are copied.\<close>

lemma AddItem_at:
  assumes "at B ok (cj_blocks root + cj_blocks item) m" and "is_object root"
  shows "\<exists>m'. cJSON_AddItemToObject (Some key) item root m = (cj_add (CJ_Member key False item) root, m') \<and>
    at B ok (cj_blocks (cj_add (CJ_Member key False item) root)) m'"
proof -
  obtain ks where a: "alloc (jm_keys m) = (True, ks)" "at B ok (cj_blocks root + cj_blocks item) (m\<lparr>jm_keys := ks\<rparr>)"
    using key_at[OF assms(1)] .
  obtain ms where "root = CJ_Object ms" using assms(2) by (auto simp: is_object_def)
  then show ?thesis using a
    by (intro exI[of _ "m\<lparr>jm_keys := ks, jm_blocks := jm_blocks m + 1\<rparr>"]) (auto simp: cJSON_AddItemToObject_def at_def keys_ok_def mem_ok_def)
qed

section \<open>What a payload describes\<close>

fun kv_spec :: "'d kv_value \<Rightarrow> 'd cjson option" and kvs_spec :: "'d kv list \<Rightarrow> 'd cj_member list option" where
  "kv_spec (VInt i) = Some (CJ_Number (FromInt i))"
| "kv_spec (VLong i) = Some (CJ_Number (FromLong i))"
| "kv_spec (VFloat x) = Some (CJ_Number (FromFloat x))"
| "kv_spec (VDouble x) = Some (CJ_Number (FromDouble x))"
| "kv_spec (VString s) = map_option CJ_String s"
| "kv_spec (VIntArray is) = map_option (\<lambda>is. CJ_Array (map (\<lambda>i. CJ_Number (FromInt i)) is)) is"
| "kv_spec (VFloatArray xs) = map_option (\<lambda>xs. CJ_Array (map (\<lambda>x. CJ_Number (FromFloat x)) xs)) xs"
| "kv_spec (VDoubleArray xs) = map_option (\<lambda>xs. CJ_Array (map (\<lambda>x. CJ_Number (FromDouble x)) xs)) xs"
| "kv_spec (VStringArray ss) = (case ss of None \<Rightarrow> None | Some ss \<Rightarrow> if None \<in> set ss then None else Some (CJ_Array (map (\<lambda>s. CJ_String (the s)) ss)))"
| "kv_spec (VKv kvs) = map_option CJ_Object (kvs_spec kvs)"
| "kv_spec VLast = None"
| "kvs_spec [] = Some []"
| "kvs_spec (Kv key value # kvs) =
     (case (kv_spec value, kvs_spec kvs) of (Some j, Some ms) \<Rightarrow> Some (CJ_Member (the key) False j # ms) | _ \<Rightarrow> None)"

text \<open>Every pair has a key.\<close>

fun keyed :: "'d kv_value \<Rightarrow> bool" and keyed_list :: "'d kv list \<Rightarrow> bool" where
  "keyed (VKv kvs) = keyed_list kvs"
| "keyed _ = True"
| "keyed_list [] = True"
| "keyed_list (Kv key value # kvs) = (key \<noteq> None \<and> keyed value \<and> keyed_list kvs)"

lemma create_items_yields:
  assumes "\<And>x B m. at B ok 0 m \<Longrightarrow> yields B ok (create x m) (f x) cj_blocks" and "at B ok (cj_blocks (CJ_Array a)) m"
  shows "yields B ok (create_items create xs a m)
    (if \<exists>x \<in> set xs. f x = None then None else Some (CJ_Array (a @ map (\<lambda>x. the (f x)) xs))) cj_blocks"
  using assms(2)
proof (induction xs arbitrary: a m)
  case Nil
  then show ?case by (intro yieldsI(2)) auto
next
  case (Cons x xs)
  have "yields (B + cj_blocks (CJ_Array a)) ok (create x m) (f x) cj_blocks" using assms(1) Cons.prems by (simp add: at_base)
  then show ?case
  proof (cases rule: yieldsE)
    case (fail m1)
    then show ?thesis by (intro yieldsI(1)) (auto simp: cJSON_Delete_def at_base add.commute)
  next
    case (got n m1)
    then have "at B ok (cj_blocks (CJ_Array (a @ [n]))) m1" by (simp add: at_base add.assoc)
    from Cons.IH[OF this] show ?thesis using got(1,2) by (cases "\<exists>x \<in> set xs. f x = None") auto
  qed
qed

lemma create_array_yields:
  fixes create :: "'x \<Rightarrow> jmem \<Rightarrow> 'd cjson option \<times> jmem"
  assumes "\<And>x B m. at B ok 0 m \<Longrightarrow> yields B ok (create x m) (f x) cj_blocks" and "at B ok 0 m"
  shows "yields B ok (create_array create xs m)
    (case xs of None \<Rightarrow> None | Some xs \<Rightarrow> if \<exists>x \<in> set xs. f x = None then None else Some (CJ_Array (map (\<lambda>x. the (f x)) xs))) cj_blocks"
proof (cases xs)
  case None
  then show ?thesis using assms(2) by (intro yieldsI(1)) (simp_all add: create_array_def)
next
  case (Some ys)
  have "yields B ok (cJSON_CreateArray m) (Some (CJ_Array [] :: 'd cjson)) cj_blocks" using assms(2) by blast
  then show ?thesis
  proof (cases rule: yieldsE)
    case (fail m1)
    then show ?thesis using Some by (intro yieldsI(1)) (simp_all add: create_array_def)
  next
    case (got n m1)
    then have n: "n = CJ_Array []" by simp
    have e: "create_array create xs m = create_items create ys [] m1" using Some got(1) n by (simp add: create_array_def)
    have "at B ok (cj_blocks (CJ_Array [] :: 'd cjson)) m1" using got by simp
    from create_items_yields[where create = create and f = f and xs = ys, OF assms(1) this] show ?thesis unfolding e using Some by (cases "\<exists>x \<in> set ys. f x = None") auto
  qed
qed

lemma numbers_yield:
  assumes "at B ok 0 m"
  shows "yields B ok (cJSON_CreateIntArray is m) (kv_spec (VIntArray is)) cj_blocks"
    and "yields B ok (cJSON_CreateFloatArray xs m) (kv_spec (VFloatArray xs)) cj_blocks"
    and "yields B ok (cJSON_CreateDoubleArray xs m) (kv_spec (VDoubleArray xs)) cj_blocks"
    and "yields B ok (cJSON_CreateStringArray ss m) (kv_spec (VStringArray ss)) cj_blocks"
proof -
  show "yields B ok (cJSON_CreateIntArray is m) (kv_spec (VIntArray is)) cj_blocks"
    using create_array_yields[where create = "\<lambda>i. cJSON_CreateNumber (FromInt i)" and f = "\<lambda>i. Some (CJ_Number (FromInt i))" and xs = "is", OF _ assms]
    by (auto simp: cJSON_CreateIntArray_def Create_yields split: option.splits)
  show "yields B ok (cJSON_CreateFloatArray xs m) (kv_spec (VFloatArray xs)) cj_blocks"
    using create_array_yields[where create = "\<lambda>i. cJSON_CreateNumber (FromFloat i)" and f = "\<lambda>i. Some (CJ_Number (FromFloat i))" and xs = xs, OF _ assms]
    by (auto simp: cJSON_CreateFloatArray_def Create_yields split: option.splits)
  show "yields B ok (cJSON_CreateDoubleArray xs m) (kv_spec (VDoubleArray xs)) cj_blocks"
    using create_array_yields[where create = "\<lambda>i. cJSON_CreateNumber (FromDouble i)" and f = "\<lambda>i. Some (CJ_Number (FromDouble i))" and xs = xs, OF _ assms]
    by (auto simp: cJSON_CreateDoubleArray_def Create_yields split: option.splits)
  have s: "map (\<lambda>x. the (map_option CJ_String x)) ys = map (\<lambda>s. CJ_String (the s)) ys" if "None \<notin> set ys" for ys
    using that by (induction ys) (auto simp: option.map_sel)
  show "yields B ok (cJSON_CreateStringArray ss m) (kv_spec (VStringArray ss)) cj_blocks"
    using create_array_yields[where create = cJSON_CreateString and f = "map_option CJ_String" and xs = ss, OF CreateString_yields assms]
    by (cases ss) (auto simp: cJSON_CreateStringArray_def s split: if_splits)
qed

lemma kv_yields:
  fixes v :: "'d kv_value" and kvs :: "'d kv list"
  shows "keyed v \<Longrightarrow> at B ok 0 m \<Longrightarrow> yields B ok (JsonCreateKv v m) (kv_spec v) cj_blocks"
    and "keyed_list kvs \<Longrightarrow> is_object root \<Longrightarrow> at B ok (cj_blocks root) m \<Longrightarrow>
      yields B ok (JsonCreateKvLst_loop kvs root m) (map_option (\<lambda>ms. fold cj_add ms root) (kvs_spec kvs)) cj_blocks"
proof (induction v m and kvs root m arbitrary: B and B rule: JsonCreateKv_JsonCreateKvLst_loop.induct)
  case (10 kvs m)
  have "yields B ok (cJSON_CreateObject m) (Some (CJ_Object [] :: 'd cjson)) cj_blocks" using "10.prems"(2) by blast
  then show ?case
  proof (cases rule: yieldsE)
    case (fail m1)
    then show ?thesis by (intro yieldsI(1)) simp_all
  next
    case (got root m1)
    have io: "is_object root" using got(2) by auto
    have f: "fold cj_add ms (CJ_Object ms0) = CJ_Object (ms0 @ ms)" for ms ms0 :: "'d cj_member list"
      by (induction ms arbitrary: ms0) (simp_all add: cj_add_def)
    have "yields B ok (JsonCreateKvLst_loop kvs root m1) (map_option (\<lambda>ms. fold cj_add ms root) (kvs_spec kvs)) cj_blocks"
      using "10.IH"[OF got(1)[symmetric] refl, of root B] "10.prems"(1) got io by simp
    then show ?thesis using got f[of _ "[]"] by (cases "kvs_spec kvs") simp_all
  qed
next
  case (13 key v kvs root m)
  have v: "yields (B + cj_blocks root) ok (JsonCreateKv v m) (kv_spec v) cj_blocks" using 13 by (simp add: at_base)
  then show ?case
  proof (cases rule: yieldsE)
    case (fail m1)
    then show ?thesis by (intro yieldsI(1)) (simp_all add: cJSON_Delete_def at_base)
  next
    case (got kv m1)
    obtain k where k: "key = Some k" using "13.prems"(1) by auto
    obtain m2 where a: "cJSON_AddItemToObject key kv root m1 = (cj_add (CJ_Member k False kv) root, m2)"
        "at B ok (cj_blocks (cj_add (CJ_Member k False kv) root)) m2"
      using AddItem_at[of B ok root kv m1 k] got(3) "13.prems"(2) k by (auto simp: at_base)
    have "yields B ok (JsonCreateKvLst_loop kvs (cj_add (CJ_Member k False kv) root) m2)
        (map_option (\<lambda>ms. fold cj_add ms (cj_add (CJ_Member k False kv) root)) (kvs_spec kvs)) cj_blocks"
      using "13.IH"(2)[OF refl got(1)[symmetric] refl refl a(1)[symmetric]] "13.prems" a(2) by simp
    then show ?thesis using got(1,2) a(1) k by (cases "kvs_spec kvs") simp_all
  qed
qed (auto intro: numbers_yield[simplified] yieldsI)

lemma fold_add: "fold cj_add ms (CJ_Object ms0) = CJ_Object (ms0 @ ms)"
  by (induction ms arbitrary: ms0) (simp_all add: cj_add_def)

lemma yields_eq: "yields B ok r x b \<Longrightarrow> x = y \<Longrightarrow> yields B ok r y b"
  by simp

lemma KvLst_yields:
  assumes "keyed_list kvs" and "at B ok 0 m"
  shows "yields B ok (JsonCreateKvLst kvs m) (map_option CJ_Object (kvs_spec kvs)) cj_blocks"
  unfolding JsonCreateKvLst_def
proof (rule yields_eq[OF with_root_yields])
  show "yields B ok (cJSON_CreateObject m) (Some (CJ_Object [])) cj_blocks" using assms(2) by blast
  show "yields B ok (JsonCreateKvLst_loop kvs root m) (map_option (\<lambda>ms. fold cj_add ms root) (kvs_spec kvs)) cj_blocks"
    if "Some (CJ_Object []) = Some root" "at B ok (cj_blocks root) m" for root m
    using that by (intro kv_yields(2) assms(1)) auto
qed (cases "kvs_spec kvs"; simp add: fold_add)

text \<open>The members of an object with constant keys, one that is there and one that may be left out.\<close>

definition mem_of :: "bytes \<Rightarrow> 'd cjson \<Rightarrow> 'd cj_member list" where
  "mem_of key item = [CJ_Member key True item]"

definition mem_opt :: "bytes \<Rightarrow> bytes option \<Rightarrow> 'd cj_member list" where
  "mem_opt key text = (case text of None \<Rightarrow> [] | Some t \<Rightarrow> mem_of key (CJ_String t))"

lemma add_object [simp]:
  "cJSON_AddItemToObjectCS key item (CJ_Object ms) = CJ_Object (ms @ mem_of key item)"
  "opt_member key text (CJ_Object ms) = CJ_Object (ms @ mem_opt key text)"
  by (simp_all add: cJSON_AddItemToObjectCS_def cj_add_def mem_of_def mem_opt_def opt_member_def split: option.split)

definition service_spec :: "'d oc_mqtt_profile_service_t \<Rightarrow> 'd cjson option" where
  "service_spec sv =
     (case (sv_service_id sv, kvs_spec (sv_service_property sv)) of
        (Some sid, Some ms) \<Rightarrow> Some (CJ_Object (mem_of CN_OC_JSON_KEY_SERVICEID (CJ_String sid) @ mem_of CN_OC_JSON_KEY_PROPERTIES (CJ_Object ms) @
          mem_opt CN_OC_JSON_KEY_EVENTTIME (sv_event_time sv)))
      | _ \<Rightarrow> None)"

text \<open>What follows when an object has been made so far: the memory for its next item, and for itself.\<close>

lemma at_next: "at B ok (cj_blocks root) m \<Longrightarrow> at (B + cj_blocks root) ok 0 m"
  by (simp add: at_base)

lemma at_added: "at B ok (cj_blocks root + cj_blocks item) m \<Longrightarrow> is_object root \<Longrightarrow> at B ok (cj_blocks (cJSON_AddItemToObjectCS key item root)) m"
  by simp

lemma root_yields:
  fixes k :: "'d cjson \<Rightarrow> jmem \<Rightarrow> 'r option \<times> jmem"
  assumes "at B ok 0 m" and "\<And>m. at B ok (cj_blocks (CJ_Object [] :: 'd cjson)) m \<Longrightarrow> yields B ok (k (CJ_Object []) m) x b"
  shows "yields B ok (with_root (cJSON_CreateObject m) k) x b"
proof (rule yields_eq[OF with_root_yields])
  show "yields B ok (cJSON_CreateObject m) (Some (CJ_Object [])) cj_blocks" using assms(1) by blast
  show "yields B ok (k root m) x b" if "Some (CJ_Object []) = Some root" "at B ok (cj_blocks root) m" for root m
    using that assms(2) by auto
qed simp

text \<open>An item that is made and added under a key.\<close>

lemma item_yields:
  fixes root :: "'d cjson"
  assumes "at B ok (cj_blocks root) m" and "is_object root"
    and "at (B + cj_blocks root) ok 0 m \<Longrightarrow> yields (B + cj_blocks root) ok r x cj_blocks"
    and "\<And>item m. x = Some item \<Longrightarrow> at B ok (cj_blocks (cJSON_AddItemToObjectCS key item root)) m \<Longrightarrow>
      yields B ok (k (cJSON_AddItemToObjectCS key item root) m) (y item) b"
  shows "yields B ok (or_exit r root (\<lambda>item m. k (cJSON_AddItemToObjectCS key item root) m)) (Option.bind x y) b"
  by (rule or_exit_yields[OF assms(3)[OF at_next[OF assms(1)]] assms(4)]) (use assms(2) in auto)

lemma service_yields:
  assumes "keyed_list (sv_service_property sv)" and "at B ok 0 m"
  shows "yields B ok (JsonCreateService sv m) (service_spec sv) cj_blocks"
  unfolding JsonCreateService_def Let_def
proof (rule root_yields[OF assms(2)])
  fix m
  assume m: "at B ok (cj_blocks (CJ_Object [] :: 'a cjson)) m"
  let ?k = "\<lambda>root m. or_exit (JsonCreateKvLst (sv_service_property sv) m) root (\<lambda>properties m.
     opt_string CN_OC_JSON_KEY_EVENTTIME (sv_event_time sv) (cJSON_AddItemToObjectCS CN_OC_JSON_KEY_PROPERTIES properties root) m (\<lambda>root m. (Some root, m)))"
  let ?y = "\<lambda>sid props. Some (CJ_Object (mem_of CN_OC_JSON_KEY_SERVICEID sid @ mem_of CN_OC_JSON_KEY_PROPERTIES props @
          mem_opt CN_OC_JSON_KEY_EVENTTIME (sv_event_time sv)))"
  have k: "yields B ok (?k (CJ_Object (mem_of CN_OC_JSON_KEY_SERVICEID sid)) m)
      (Option.bind (map_option CJ_Object (kvs_spec (sv_service_property sv))) (?y sid)) cj_blocks"
    if "at B ok (cj_blocks (CJ_Object (mem_of CN_OC_JSON_KEY_SERVICEID sid))) m" for sid :: "'a cjson" and m
  proof (rule item_yields[OF that _ KvLst_yields[OF assms(1)]])
    show "yields B ok (opt_string CN_OC_JSON_KEY_EVENTTIME (sv_event_time sv)
        (cJSON_AddItemToObjectCS CN_OC_JSON_KEY_PROPERTIES props (CJ_Object (mem_of CN_OC_JSON_KEY_SERVICEID sid))) m (\<lambda>root m. (Some root, m)))
        (?y sid props) cj_blocks"
      if "at B ok (cj_blocks (cJSON_AddItemToObjectCS CN_OC_JSON_KEY_PROPERTIES props (CJ_Object (mem_of CN_OC_JSON_KEY_SERVICEID sid)))) m" for props m
      using that by (rule opt_string_yields) (auto intro: yieldsI(2))
  qed simp_all
  have "yields B ok (or_exit (cJSON_CreateString (sv_service_id sv) m) (CJ_Object [])
      (\<lambda>sid m. ?k (cJSON_AddItemToObjectCS CN_OC_JSON_KEY_SERVICEID sid (CJ_Object [])) m))
      (Option.bind (map_option CJ_String (sv_service_id sv)) (\<lambda>sid. Option.bind (map_option CJ_Object (kvs_spec (sv_service_property sv))) (?y sid))) cj_blocks"
    by (rule item_yields[OF m _ CreateString_yields]) (use k in auto)
  then show "yields B ok (or_exit (cJSON_CreateString (sv_service_id sv) m) (CJ_Object [])
      (\<lambda>sid m. ?k (cJSON_AddItemToObjectCS CN_OC_JSON_KEY_SERVICEID sid (CJ_Object [])) m)) (service_spec sv) cj_blocks"
    by (rule yields_eq) (auto simp: service_spec_def split: option.splits)
qed

definition services_spec :: "'d oc_mqtt_profile_service_t list \<Rightarrow> 'd cjson option" where
  "services_spec svs = map_option CJ_Array (those (map service_spec svs))"

definition props_keyed :: "'d oc_mqtt_profile_service_t list \<Rightarrow> bool" where
  "props_keyed svs \<longleftrightarrow> (\<forall>sv \<in> set svs. keyed_list (sv_service_property sv))"

lemma services_loop_yields:
  "props_keyed svs \<Longrightarrow> at B ok (cj_blocks (CJ_Array a)) m \<Longrightarrow>
    yields B ok (services_loop svs (CJ_Array a) m) (map_option (\<lambda>l. CJ_Array (a @ l)) (those (map service_spec svs))) cj_blocks"
proof (induction svs arbitrary: a m)
  case Nil
  then show ?case by (intro yieldsI(2)) auto
next
  case (Cons sv svs)
  have k: "keyed_list (sv_service_property sv)" "props_keyed svs" using Cons.prems(1) by (simp_all add: props_keyed_def)
  have "yields B ok (services_loop (sv # svs) (CJ_Array a) m)
      (Option.bind (service_spec sv) (\<lambda>j. map_option (\<lambda>l. CJ_Array ((a @ [j]) @ l)) (those (map service_spec svs)))) cj_blocks"
    unfolding services_loop.simps
  proof (rule or_exit_yields)
    show "yields (B + cj_blocks (CJ_Array a)) ok (JsonCreateService sv m) (service_spec sv) cj_blocks"
      using service_yields[OF k(1) at_next[OF Cons.prems(2)]] .
    show "yields B ok (services_loop svs (cJSON_AddItemToArray item (CJ_Array a)) m) (map_option (\<lambda>l. CJ_Array ((a @ [item]) @ l)) (those (map service_spec svs))) cj_blocks"
      if "at B ok (cj_blocks (CJ_Array a) + cj_blocks item) m" for item m
      using Cons.IH[OF k(2), of "a @ [item]" m] that by (simp add: cJSON_AddItemToArray_def add.assoc)
  qed
  then show ?case by (rule yields_eq) (auto simp: option.map_comp comp_def split: option.split)
qed

lemma services_yields:
  assumes "props_keyed svs" and "at B ok 0 m"
  shows "yields B ok (JsonCreateServices svs m) (services_spec svs) cj_blocks"
  unfolding JsonCreateServices_def
proof (rule yields_eq[OF with_root_yields])
  show "yields B ok (cJSON_CreateArray m) (Some (CJ_Array [])) cj_blocks" using assms(2) by blast
  show "yields B ok (services_loop svs a m) (services_spec svs) cj_blocks" if "Some (CJ_Array []) = Some a" "at B ok (cj_blocks a) m" for a m
    using services_loop_yields[OF assms(1), of B ok "[]" m] that by (auto simp: services_spec_def)
qed simp

section \<open>The packages\<close>

lemma report_yields:
  assumes "props_keyed svs" and "at B ok 0 m"
  shows "yields B ok (with_root (cJSON_CreateObject m) (\<lambda>root m.
     or_exit (JsonCreateServices svs m) root (\<lambda>services m.
     print_out print (cJSON_AddItemToObjectCS CN_OC_JSON_KEY_SERVICES services root) m)))
    (map_option (\<lambda>services. print (CJ_Object (mem_of CN_OC_JSON_KEY_SERVICES services))) (services_spec svs)) (\<lambda>_. 1)"
proof (rule root_yields[OF assms(2)], rule yields_eq)
  show "yields B ok (or_exit (JsonCreateServices svs m) (CJ_Object []) (\<lambda>services m.
     print_out print (cJSON_AddItemToObjectCS CN_OC_JSON_KEY_SERVICES services (CJ_Object [])) m))
     (Option.bind (services_spec svs) (\<lambda>services. Some (print (CJ_Object (mem_of CN_OC_JSON_KEY_SERVICES services))))) (\<lambda>_. 1)"
    if "at B ok (cj_blocks (CJ_Object [] :: 'a cjson)) m" for m
    by (rule item_yields[OF that _ services_yields[OF assms(1)]]) (auto intro: print_out_yields)
qed (cases "services_spec svs"; simp)

definition device_spec :: "'d oc_mqtt_profile_device_t \<Rightarrow> 'd cjson option" where
  "device_spec dv =
     (case (dv_subdevice_id dv, services_spec (dv_subdevice_property dv)) of
        (Some did, Some services) \<Rightarrow> Some (CJ_Object (mem_of CN_OC_JSON_KEY_DEVICEID (CJ_String did) @ mem_of CN_OC_JSON_KEY_SERVICES services))
      | _ \<Rightarrow> None)"

lemma devices_root_blocks: "cj_blocks (devices_root (ds @ [d])) = cj_blocks (devices_root ds) + cj_blocks d"
  by (simp add: devices_root_def)

lemma devices_loop_yields:
  fixes dvs :: "'d oc_mqtt_profile_device_t list"
  shows "\<forall>dv \<in> set dvs. props_keyed (dv_subdevice_property dv) \<Longrightarrow> at B ok (cj_blocks (devices_root ds)) m \<Longrightarrow>
    yields B ok (devices_loop dvs ds m) (map_option (\<lambda>l. devices_root (ds @ l)) (those (map device_spec dvs))) cj_blocks"
proof (induction dvs arbitrary: ds m)
  case Nil
  then show ?case by (intro yieldsI(2)) auto
next
  case (Cons dv dvs)
  let ?P = "dv_subdevice_property dv"
  have k: "props_keyed ?P" "\<forall>dv \<in> set dvs. props_keyed (dv_subdevice_property dv)" using Cons.prems(1) by simp_all
  let ?y = "\<lambda>did services. map_option (\<lambda>l. devices_root ((ds @ [CJ_Object (mem_of CN_OC_JSON_KEY_DEVICEID did @ mem_of CN_OC_JSON_KEY_SERVICES services)]) @ l))
      (those (map device_spec dvs))"
  have "yields B ok (devices_loop (dv # dvs) ds m)
      (Option.bind (Some (CJ_Object [] :: 'd cjson)) (\<lambda>_. Option.bind (map_option CJ_String (dv_subdevice_id dv)) (\<lambda>did. Option.bind (services_spec ?P) (?y did)))) cj_blocks"
    unfolding devices_loop.simps Let_def
  proof (rule or_exit_yields[OF Create_yields(1)[OF at_next[OF Cons.prems(2)]]], rule or_exit_yields)
    fix device :: "'d cjson" and m
    assume d: "Some (CJ_Object []) = Some device" "at B ok (cj_blocks (devices_root ds) + cj_blocks device) m"
    then have a: "at (B + cj_blocks (devices_root (ds @ [device]))) ok 0 m" by (simp add: at_base devices_root_blocks)
    show "yields (B + cj_blocks (devices_root (ds @ [device]))) ok (cJSON_CreateString (dv_subdevice_id dv) m) (map_option CJ_String (dv_subdevice_id dv)) cj_blocks"
      using a by blast
    fix did :: "'d cjson" and m
    let ?d = "cJSON_AddItemToObjectCS CN_OC_JSON_KEY_DEVICEID did device"
    assume "at B ok (cj_blocks (devices_root (ds @ [device])) + cj_blocks did) m"
    then have b: "at B ok (cj_blocks (devices_root (ds @ [?d]))) m" using d(1) by (auto simp: devices_root_blocks mem_of_def algebra_simps)
    show "yields B ok (or_exit (JsonCreateServices ?P m) (devices_root (ds @ [?d])) (\<lambda>services m.
        devices_loop dvs (ds @ [cJSON_AddItemToObjectCS CN_OC_JSON_KEY_SERVICES services ?d]) m)) (Option.bind (services_spec ?P) (?y did)) cj_blocks"
    proof (rule or_exit_yields[OF services_yields[OF k(1) at_next[OF b]]])
      fix services :: "'d cjson" and m
      assume c: "at B ok (cj_blocks (devices_root (ds @ [?d])) + cj_blocks services) m"
      let ?e = "CJ_Object (mem_of CN_OC_JSON_KEY_DEVICEID did @ mem_of CN_OC_JSON_KEY_SERVICES services)"
      have e: "cJSON_AddItemToObjectCS CN_OC_JSON_KEY_SERVICES services ?d = ?e" using d(1) by auto
      have "at B ok (cj_blocks (devices_root (ds @ [?e]))) m" using c d(1) by (auto simp: devices_root_blocks mem_of_def algebra_simps)
      from Cons.IH[OF k(2) this] show "yields B ok (devices_loop dvs (ds @ [cJSON_AddItemToObjectCS CN_OC_JSON_KEY_SERVICES services ?d]) m) (?y did services) cj_blocks"
        unfolding e .
    qed
  qed
  then show ?case by (rule yields_eq) (auto simp: device_spec_def[of dv] option.map_comp comp_def split: option.split)
qed

lemma gw_yields:
  fixes print :: "'d cjson \<Rightarrow> bytes"
  assumes "\<forall>dv \<in> set dvs. props_keyed (dv_subdevice_property dv)" and "at B ok 0 m"
  shows "yields B ok (oc_mqtt_profile_package_gwpropertyreport print dvs m)
    (map_option (\<lambda>l. print (devices_root l)) (those (map device_spec dvs))) (\<lambda>_. 1)"
  unfolding oc_mqtt_profile_package_gwpropertyreport_def
proof (rule root_yields[OF assms(2)], rule yields_eq)
  fix m
  assume m: "at B ok (cj_blocks (CJ_Object [] :: 'd cjson)) m"
  show "yields B ok (or_exit (cJSON_CreateArray m) (CJ_Object []) (\<lambda>devices m.
       with_root (devices_loop dvs (cj_items devices) m) (\<lambda>root m. print_out print root m)))
     (Option.bind (Some (CJ_Array [] :: 'd cjson)) (\<lambda>_. Option.bind (map_option devices_root (those (map device_spec dvs))) (\<lambda>root. Some (print root)))) (\<lambda>_. 1)"
  proof (rule or_exit_yields[OF Create_yields(2)[OF at_next[OF m]]], rule with_root_yields)
    fix devices :: "'d cjson" and m
    assume d: "Some (CJ_Array []) = Some devices" "at B ok (cj_blocks (CJ_Object [] :: 'd cjson) + cj_blocks devices) m"
    then have "at B ok (cj_blocks (devices_root [] :: 'd cjson)) m" by (auto simp: devices_root_def)
    from devices_loop_yields[OF assms(1) this] d(1)
    show "yields B ok (devices_loop dvs (cj_items devices) m) (map_option devices_root (those (map device_spec dvs))) cj_blocks"
      by (auto simp: cj_items_def)
  qed (rule print_out_yields)
qed (cases "those (map device_spec dvs)"; simp)

lemma print_object_yields:
  "at B ok (cj_blocks root) m \<Longrightarrow> root = root' \<Longrightarrow> yields B ok (print_out print root m) (Some (print root')) (\<lambda>_. 1)"
  by (simp add: print_out_yields)

lemma setresp_yields:
  fixes print :: "'d cjson \<Rightarrow> bytes"
  assumes "at B ok 0 m"
  shows "yields B ok (oc_mqtt_profile_package_propertysetresp print p m)
    (Some (print (CJ_Object (mem_of CN_OC_JSON_KEY_RESULTCODE (CJ_Number (FromInt (ps_ret_code p))) @
       mem_opt CN_OC_JSON_KEY_RESULTDESC (ps_ret_description p))))) (\<lambda>_. 1)"
  unfolding oc_mqtt_profile_package_propertysetresp_def Let_def
proof (rule root_yields[OF assms], rule yields_eq)
  fix m
  assume m: "at B ok (cj_blocks (CJ_Object [] :: 'd cjson)) m"
  show "yields B ok (or_exit (cJSON_CreateNumber (FromInt (ps_ret_code p)) m) (CJ_Object []) (\<lambda>n m.
      opt_string CN_OC_JSON_KEY_RESULTDESC (ps_ret_description p) (cJSON_AddItemToObjectCS CN_OC_JSON_KEY_RESULTCODE n (CJ_Object [])) m
        (\<lambda>root m. print_out print root m)))
    (Option.bind (Some (CJ_Number (FromInt (ps_ret_code p)))) (\<lambda>n. Some (print (CJ_Object (mem_of CN_OC_JSON_KEY_RESULTCODE n @
       mem_opt CN_OC_JSON_KEY_RESULTDESC (ps_ret_description p)))))) (\<lambda>_. 1)"
    by (rule item_yields[OF m _ Create_yields(3)], simp, assumption, rule opt_string_yields, assumption, simp)
      (rule print_object_yields, assumption, simp)
qed simp

lemma cmdresp_yields:
  fixes print :: "'d cjson \<Rightarrow> bytes"
  assumes "keyed_list (cr_paras p)" and "at B ok 0 m"
  shows "yields B ok (oc_mqtt_profile_package_cmdresp print p m)
    (map_option (\<lambda>ms. print (CJ_Object (mem_of CN_OC_JSON_KEY_RESULTCODE (CJ_Number (FromInt (cr_ret_code p))) @
       mem_opt CN_OC_JSON_KEY_RESULTDESC (cr_ret_name p) @ (if cr_paras p = [] then [] else mem_of CN_OC_JSON_KEY_PARAS (CJ_Object ms)))))
      (kvs_spec (cr_paras p))) (\<lambda>_. 1)"
  unfolding oc_mqtt_profile_package_cmdresp_def Let_def
proof (rule root_yields[OF assms(2)], rule yields_eq)
  fix m
  assume m: "at B ok (cj_blocks (CJ_Object [] :: 'd cjson)) m"
  let ?ms = "\<lambda>n. mem_of CN_OC_JSON_KEY_RESULTCODE n @ mem_opt CN_OC_JSON_KEY_RESULTDESC (cr_ret_name p)"
  let ?k = "\<lambda>root m. if cr_paras p = [] then print_out print root m
     else or_exit (JsonCreateKvLst (cr_paras p) m) root (\<lambda>paras m. print_out print (cJSON_AddItemToObjectCS CN_OC_JSON_KEY_PARAS paras root) m)"
  let ?y = "\<lambda>n. if cr_paras p = [] then Some (print (CJ_Object (?ms n)))
     else Option.bind (map_option CJ_Object (kvs_spec (cr_paras p))) (\<lambda>j. Some (print (CJ_Object (?ms n @ mem_of CN_OC_JSON_KEY_PARAS j))))"
  have k: "yields B ok (?k root m) (?y n) (\<lambda>_. 1)" if "at B ok (cj_blocks root) m" "root = CJ_Object (?ms n)" for n root m
  proof (cases "cr_paras p = []")
    case True
    then show ?thesis using that by (simp add: print_out_yields)
  next
    case False
    have "yields B ok (or_exit (JsonCreateKvLst (cr_paras p) m) root (\<lambda>paras m. print_out print (cJSON_AddItemToObjectCS CN_OC_JSON_KEY_PARAS paras root) m))
      (Option.bind (map_option CJ_Object (kvs_spec (cr_paras p))) (\<lambda>j. Some (print (CJ_Object (?ms n @ mem_of CN_OC_JSON_KEY_PARAS j))))) (\<lambda>_. 1)"
      by (rule item_yields[OF that(1) _ KvLst_yields[OF assms(1)]]) (use that(2) in \<open>auto intro: print_object_yields\<close>)
    then show ?thesis using False by simp
  qed
  show "yields B ok (or_exit (cJSON_CreateNumber (FromInt (cr_ret_code p)) m) (CJ_Object []) (\<lambda>n m.
      opt_string CN_OC_JSON_KEY_RESULTDESC (cr_ret_name p) (cJSON_AddItemToObjectCS CN_OC_JSON_KEY_RESULTCODE n (CJ_Object [])) m ?k))
    (Option.bind (Some (CJ_Number (FromInt (cr_ret_code p)))) ?y) (\<lambda>_. 1)"
    by (rule item_yields[OF m _ Create_yields(3)], simp, assumption, rule opt_string_yields, assumption, simp, rule k, assumption) simp
qed (cases "cr_paras p = []"; cases "kvs_spec (cr_paras p)"; simp)

lemma shadowget_yields:
  fixes print :: "'d cjson \<Rightarrow> bytes"
  assumes "at B ok 0 m"
  shows "yields B ok (oc_mqtt_profile_package_shadowget print p m)
    (Some (print (CJ_Object (mem_opt CN_OC_JSON_KEY_OBJECTDEVICEID (sg_object_device_id p) @ mem_opt CN_OC_JSON_KEY_SERVICEID (sg_service_id p))))) (\<lambda>_. 1)"
  unfolding oc_mqtt_profile_package_shadowget_def
  by (rule root_yields[OF assms], rule opt_string_yields, assumption, simp, rule opt_string_yields, assumption, simp, rule print_object_yields, assumption) simp

lemma msgup_yields:
  fixes print :: "'d cjson \<Rightarrow> bytes"
  assumes "at B ok 0 m"
  shows "yields B ok (oc_mqtt_profile_package_msgup print p m)
    (map_option (\<lambda>t. print (CJ_Object (mem_opt CN_OC_JSON_KEY_OBJECTDEVICEID (mu_device_id p) @ mem_opt CN_OC_JSON_KEY_NAME (mu_name p) @
       mem_opt CN_OC_JSON_KEY_ID (mu_id p) @ mem_of CN_OC_JSON_KEY_CONTENT (CJ_String t)))) (mu_msg p)) (\<lambda>_. 1)"
  unfolding oc_mqtt_profile_package_msgup_def
proof (rule root_yields[OF assms], rule opt_string_yields, assumption, simp, rule opt_string_yields, assumption, simp, rule opt_string_yields, assumption, simp, rule yields_eq)
  fix m
  let ?r = "opt_member CN_OC_JSON_KEY_ID (mu_id p) (opt_member CN_OC_JSON_KEY_NAME (mu_name p) (opt_member CN_OC_JSON_KEY_OBJECTDEVICEID (mu_device_id p)
     (CJ_Object [] :: 'd cjson)))"
  assume m: "at B ok (cj_blocks ?r) m"
  show "yields B ok (or_exit (cJSON_CreateString (mu_msg p) m) ?r (\<lambda>item m. print_out print (cJSON_AddItemToObjectCS CN_OC_JSON_KEY_CONTENT item ?r) m))
    (Option.bind (map_option CJ_String (mu_msg p)) (\<lambda>j. Some (print (cJSON_AddItemToObjectCS CN_OC_JSON_KEY_CONTENT j ?r)))) (\<lambda>_. 1)"
    by (rule item_yields[OF m _ CreateString_yields], simp, assumption, rule print_object_yields, assumption) simp
qed (cases "mu_msg p"; simp)

text \<open>The event, whose keys are copied.\<close>

definition mem_key :: "bytes \<Rightarrow> 'd cjson \<Rightarrow> 'd cj_member list" where
  "mem_key key item = [CJ_Member key False item]"

definition copy_opt :: "bytes \<Rightarrow> bytes option \<Rightarrow> 'd cj_member list" where
  "copy_opt key text = (case text of None \<Rightarrow> [] | Some t \<Rightarrow> mem_key key (CJ_String t))"

definition event_spec :: "'d oc_mqtt_profile_event_t \<Rightarrow> 'd cjson option" where
  "event_spec ev =
     (case (ev_service_id ev, ev_event_type ev, kvs_spec (ev_paras ev)) of
        (Some sid, Some ty, Some ms) \<Rightarrow>
          Some (CJ_Object (copy_opt CN_OC_JSON_KEY_OBJECTDEVICEID (ev_object_device_id ev) @ mem_key CN_OC_JSON_KEY_SERVICES (CJ_Array [CJ_Object
            (mem_key CN_OC_JSON_KEY_SERVICEID (CJ_String sid) @ copy_opt CN_OC_JSON_KEY_EVENTTIME (ev_event_time ev) @
             mem_key CN_OC_JSON_KEY_EVENTTYPE (CJ_String ty) @ mem_key CN_OC_JSON_KEY_PARAS (CJ_Object ms))])))
      | _ \<Rightarrow> None)"

lemma event_member_yields:
  fixes ms :: "'d cj_member list"
  assumes "\<And>ms. cj_blocks (tree (CJ_Object ms)) = T + cj_blocks (CJ_Object ms)" and "at B ok (T + cj_blocks (CJ_Object ms)) m"
    and "\<And>B. at B ok 0 m \<Longrightarrow> yields B ok r x cj_blocks"
    and "\<And>item m. at B ok (T + cj_blocks (CJ_Object (ms @ mem_key key item))) m \<Longrightarrow> yields B ok (k (CJ_Object (ms @ mem_key key item)) m) (y item) b"
  shows "yields B ok (event_member key r tree (CJ_Object ms) k) (Option.bind x y) b"
  unfolding event_member_def
proof (rule or_exit_yields)
  show "yields (B + cj_blocks (tree (CJ_Object ms))) ok r x cj_blocks" by (rule assms(3)) (use assms(1,2) in \<open>simp add: at_base\<close>)
  fix item :: "'d cjson" and m
  assume "at B ok (cj_blocks (tree (CJ_Object ms)) + cj_blocks item) m"
  then have "at (B + T) ok (cj_blocks (CJ_Object ms) + cj_blocks item) m" using assms(1) by (simp add: at_base add.assoc)
  from AddItem_at[OF this, of key]
  obtain m' where a: "cJSON_AddItemToObject (Some key) item (CJ_Object ms) m = (CJ_Object (ms @ mem_key key item), m')"
      "at (B + T) ok (cj_blocks (CJ_Object (ms @ mem_key key item))) m'"
    by (auto simp: cj_add_def mem_key_def)
  then show "yields B ok (let (service, m) = cJSON_AddItemToObject (Some key) item (CJ_Object ms) m in k service m) (y item) b"
    using assms(4)[of item m'] by (simp add: at_base)
qed

lemma event_opt_yields:
  fixes ms :: "'d cj_member list"
  assumes "\<And>ms. cj_blocks (tree (CJ_Object ms)) = T + cj_blocks (CJ_Object ms)" and "at B ok (T + cj_blocks (CJ_Object ms)) m"
    and "\<And>m. at B ok (T + cj_blocks (CJ_Object (ms @ copy_opt key text))) m \<Longrightarrow> yields B ok (k (CJ_Object (ms @ copy_opt key text)) m) y b"
  shows "yields B ok (if text = None then k (CJ_Object ms) m else event_member key (cJSON_CreateString text m) tree (CJ_Object ms) k) y b"
proof (cases "text")
  case None
  then show ?thesis using assms(2,3) by (simp add: copy_opt_def)
next
  case (Some t)
  have "yields B ok (event_member key (cJSON_CreateString text m) tree (CJ_Object ms) k) (Option.bind (map_option CJ_String text :: 'd cjson option) (\<lambda>j. if j = CJ_String t then y else None)) b"
    unfolding event_member_def
  proof (rule or_exit_yields)
    show "yields (B + cj_blocks (tree (CJ_Object ms))) ok (cJSON_CreateString text m) (map_option CJ_String text) cj_blocks"
      by (rule CreateString_yields) (use assms(1,2) in \<open>simp add: at_base\<close>)
  next
    fix item :: "'d cjson" and m
    assume i: "map_option CJ_String text = Some item" "at B ok (cj_blocks (tree (CJ_Object ms)) + cj_blocks item) m"
    then have "at (B + T) ok (cj_blocks (CJ_Object ms) + cj_blocks item) m" using assms(1) by (simp add: at_base add.assoc)
    from AddItem_at[OF this, of key]
    obtain m' where a: "cJSON_AddItemToObject (Some key) item (CJ_Object ms) m = (CJ_Object (ms @ copy_opt key text), m')"
        "at (B + T) ok (cj_blocks (CJ_Object (ms @ copy_opt key text))) m'"
      using i(1) Some by (auto simp: cj_add_def mem_key_def copy_opt_def)
    then show "yields B ok (let (service, m) = cJSON_AddItemToObject (Some key) item (CJ_Object ms) m in k service m) (if item = CJ_String t then y else None) b"
      using assms(3)[of m'] i(1) Some by (simp add: at_base)
  qed
  then show ?thesis using Some by simp
qed

lemma key_copied_at: "at B ok c m \<Longrightarrow> \<exists>m'. key_copied m = (True, m') \<and> at B ok (c + 1) m'"
proof -
  assume a: "at B ok c m"
  obtain ks where k: "alloc (jm_keys m) = (True, ks)" "at B ok c (m\<lparr>jm_keys := ks\<rparr>)" using key_at[OF a] .
  then show ?thesis
    by (intro exI[of _ "m\<lparr>jm_keys := ks, jm_blocks := jm_blocks m + 1\<rparr>"]) (auto simp: key_copied_def at_def keys_ok_def mem_ok_def)
qed

lemma event_root_object: "event_root (CJ_Object ms) True ss = CJ_Object (ms @ mem_key CN_OC_JSON_KEY_SERVICES (CJ_Array ss))"
  by (simp add: event_root_def cj_add_def mem_key_def)

text \<open>The members of the service of an event, and the text.\<close>

lemma event_service_yields:
  fixes print :: "'d cjson \<Rightarrow> bytes" and R :: "'d cj_member list"
  assumes "keyed_list (ev_paras ev)" and "at B ok (cj_blocks (event_root (CJ_Object R) True [CJ_Object []])) m"
  shows "yields B ok
    (event_member CN_OC_JSON_KEY_SERVICEID (cJSON_CreateString (ev_service_id ev) m) (\<lambda>service. event_root (CJ_Object R) True [service]) (CJ_Object []) (\<lambda>service m.
     (\<lambda>k. if ev_event_time ev = None then k service m
          else event_member CN_OC_JSON_KEY_EVENTTIME (cJSON_CreateString (ev_event_time ev) m) (\<lambda>service. event_root (CJ_Object R) True [service]) service k) (\<lambda>service m.
     event_member CN_OC_JSON_KEY_EVENTTYPE (cJSON_CreateString (ev_event_type ev) m) (\<lambda>service. event_root (CJ_Object R) True [service]) service (\<lambda>service m.
     event_member CN_OC_JSON_KEY_PARAS (JsonCreateKvLst (ev_paras ev) m) (\<lambda>service. event_root (CJ_Object R) True [service]) service (\<lambda>service m.
     print_out print (event_root (CJ_Object R) True [service]) m)))))
    (Option.bind (map_option CJ_String (ev_service_id ev)) (\<lambda>a. Option.bind (map_option CJ_String (ev_event_type ev)) (\<lambda>t.
     Option.bind (map_option CJ_Object (kvs_spec (ev_paras ev))) (\<lambda>j. Some (print (event_root (CJ_Object R) True [CJ_Object
       ((([] @ mem_key CN_OC_JSON_KEY_SERVICEID a) @ copy_opt CN_OC_JSON_KEY_EVENTTIME (ev_event_time ev)) @ mem_key CN_OC_JSON_KEY_EVENTTYPE t @
        mem_key CN_OC_JSON_KEY_PARAS j)])))))) (\<lambda>_. 1)"
proof -
  let ?T = "cj_blocks (event_root (CJ_Object R) True [])"
  have t: "cj_blocks (event_root (CJ_Object R) True [CJ_Object ms]) = ?T + cj_blocks (CJ_Object ms)" for ms
    by (simp add: event_root_object mem_key_def)
  have a: "at B ok (?T + cj_blocks (CJ_Object [] :: 'd cjson)) m" using assms(2) t by simp
  show ?thesis
    by (rule event_member_yields[OF t a CreateString_yields], assumption, rule event_opt_yields[OF t], assumption,
      rule event_member_yields[OF t _ CreateString_yields], assumption, assumption,
      rule event_member_yields[OF t _ KvLst_yields[OF assms(1)]], assumption, assumption)
     (rule print_object_yields, simp add: t, simp)
qed

lemma event_yields:
  fixes print :: "'d cjson \<Rightarrow> bytes"
  assumes "keyed_list (ev_paras ev)" and "at B ok 0 m"
  shows "yields B ok (oc_mqtt_profile_package_event print ev m) (map_option print (event_spec ev)) (\<lambda>_. 1)"
  unfolding oc_mqtt_profile_package_event_def
proof (rule root_yields[OF assms(2)], rule event_opt_yields[where T = 0])
  fix m
  assume "at B ok (cj_blocks (CJ_Object [] :: 'd cjson)) m"
  then show "at B ok (0 + cj_blocks (CJ_Object [] :: 'd cjson)) m" by simp
next
  fix m
  let ?R = "[] @ copy_opt CN_OC_JSON_KEY_OBJECTDEVICEID (ev_object_device_id ev) :: 'd cj_member list"
  assume m: "at B ok (0 + cj_blocks (CJ_Object ?R)) m"
  then have m: "at B ok (cj_blocks (CJ_Object ?R)) m" by simp
  let ?rest = "\<lambda>att service m. event_member CN_OC_JSON_KEY_SERVICEID (cJSON_CreateString (ev_service_id ev) m) (\<lambda>service. event_root (CJ_Object ?R) att [service]) service (\<lambda>service m.
     (\<lambda>k. if ev_event_time ev = None then k service m
          else event_member CN_OC_JSON_KEY_EVENTTIME (cJSON_CreateString (ev_event_time ev) m) (\<lambda>service. event_root (CJ_Object ?R) att [service]) service k) (\<lambda>service m.
     event_member CN_OC_JSON_KEY_EVENTTYPE (cJSON_CreateString (ev_event_type ev) m) (\<lambda>service. event_root (CJ_Object ?R) att [service]) service (\<lambda>service m.
     event_member CN_OC_JSON_KEY_PARAS (JsonCreateKvLst (ev_paras ev) m) (\<lambda>service. event_root (CJ_Object ?R) att [service]) service (\<lambda>service m.
     print_out print (event_root (CJ_Object ?R) att [service]) m))))"
  have "yields B ok (or_exit (cJSON_CreateArray m) (CJ_Object ?R) (\<lambda>services m. let (att, m) = key_copied m in
      or_exit (cJSON_CreateObject m) (event_root (CJ_Object ?R) att []) (\<lambda>service m. let tree = (\<lambda>service. event_root (CJ_Object ?R) att [service]) in ?rest att service m)))
      (Option.bind (Some (CJ_Array [] :: 'd cjson)) (\<lambda>_. Option.bind (Some (CJ_Object [] :: 'd cjson)) (\<lambda>_. map_option print (event_spec ev)))) (\<lambda>_. 1)"
  proof (rule or_exit_yields[OF Create_yields(2)[OF at_next[OF m]]])
    fix services :: "'d cjson" and m
    assume s: "Some (CJ_Array []) = Some services" "at B ok (cj_blocks (CJ_Object ?R) + cj_blocks services) m"
    obtain m1 where k: "key_copied m = (True, m1)" "at B ok (cj_blocks (CJ_Object ?R) + cj_blocks services + 1) m1" using key_copied_at[OF s(2)] by blast
    have r: "at B ok (cj_blocks (event_root (CJ_Object ?R) True [])) m1" using k(2) s(1) by (auto simp: event_root_object mem_key_def algebra_simps)
    show "yields B ok (let (att, m) = key_copied m in
      or_exit (cJSON_CreateObject m) (event_root (CJ_Object ?R) att []) (\<lambda>service m. let tree = (\<lambda>service. event_root (CJ_Object ?R) att [service]) in ?rest att service m))
      (Option.bind (Some (CJ_Object [] :: 'd cjson)) (\<lambda>_. map_option print (event_spec ev))) (\<lambda>_. 1)"
      unfolding k(1) Let_def prod.case
    proof (rule or_exit_yields[OF Create_yields(1)[OF at_next[OF r]]])
      fix service :: "'d cjson" and m
      assume v: "Some (CJ_Object []) = Some service" "at B ok (cj_blocks (event_root (CJ_Object ?R) True []) + cj_blocks service) m"
      have "at B ok (cj_blocks (event_root (CJ_Object ?R) True [CJ_Object []])) m" using v by (auto simp: event_root_object mem_key_def algebra_simps)
      from event_service_yields[OF assms(1) this] v(1)
      show "yields B ok (?rest True service m) (map_option print (event_spec ev)) (\<lambda>_. 1)"
        by (auto simp: event_spec_def event_root_object elim!: yields_eq split: option.splits)
    qed
  qed
  then show "yields B ok (or_exit (cJSON_CreateArray m) (CJ_Object ?R) (\<lambda>services m. let (att, m) = key_copied m in
      or_exit (cJSON_CreateObject m) (event_root (CJ_Object ?R) att []) (\<lambda>service m. let tree = (\<lambda>service. event_root (CJ_Object ?R) att [service]) in
        event_member CN_OC_JSON_KEY_SERVICEID (cJSON_CreateString (ev_service_id ev) m) tree service (\<lambda>service m.
     (\<lambda>k. if ev_event_time ev = None then k service m
          else event_member CN_OC_JSON_KEY_EVENTTIME (cJSON_CreateString (ev_event_time ev) m) tree service k) (\<lambda>service m.
     event_member CN_OC_JSON_KEY_EVENTTYPE (cJSON_CreateString (ev_event_type ev) m) tree service (\<lambda>service m.
     event_member CN_OC_JSON_KEY_PARAS (JsonCreateKvLst (ev_paras ev) m) tree service (\<lambda>service m.
     print_out print (tree service) m)))))))
      (map_option print (event_spec ev)) (\<lambda>_. 1)"
    unfolding Let_def by simp
qed simp

section \<open>Publishing\<close>

text \<open>
  What a call does: the text of the package goes to the topic with quality of service 1, and the result is that of the agent; or, when the
  payload describes nothing or the memory fails, nothing is sent. All memory is given back.
\<close>

definition sends :: "('g, 'd) oc_mqtt_profile_cb \<Rightarrow> bytes \<Rightarrow> bytes option \<Rightarrow> (int \<times> ('g, 'd) oc_mqtt_profile_cb) option \<Rightarrow> bool" where
  "sends s topic x r \<longleftrightarrow> (\<exists>m. jm_blocks m = jm_blocks (pf_mem s) \<and>
     (r = Some (en_oc_mqtt_err_sysmem, s\<lparr>pf_mem := m\<rparr>) \<and> (mem_ok (pf_mem s) \<longrightarrow> x = None) \<or>
      (\<exists>text. x = Some text \<and>
        r = map_option (\<lambda>(ret, oc). (ret, s\<lparr>pf_mem := m, pf_oc := oc\<rparr>)) (oc_mqtt_publish (Some topic) text 1 (pf_oc s)))))"

lemma publish_sends:
  assumes "(if deviceid = None then pf_device_id s else deviceid) = Some ident" and "keys_ok (pf_mem s)"
    and "\<And>B ok m. at B ok 0 m \<Longrightarrow> yields B ok (package m) x (\<lambda>_. 1)"
    and "expand fmt (ident # (case request_id of None \<Rightarrow> [] | Some r \<Rightarrow> [r])) = topic" and "length topic < length fmt + length ident + opt_len request_id"
    and "valid"
  shows "sends s topic x (profile_publish fmt deviceid request_id valid package s)"
proof -
  let ?B = "jm_blocks (pf_mem s)" and ?ok = "mem_ok (pf_mem s)"
  let ?len = "length fmt + length ident + opt_len request_id"
  have a: "at ?B ?ok 0 (pf_mem s)" using assms(2) by (simp add: at_def)
  have k: "length topic \<le> ?len - Suc 0" using assms(5) by arith
  have v: "\<not> (Some ident = None \<or> \<not> valid)" using assms(6) by simp
  have fin: "sends s topic x (do {
          (ret, oc) \<leftarrow> (case (t, msg) of (Some t, Some text) \<Rightarrow> oc_mqtt_publish (Some t) text 1 (pf_oc s) | _ \<Rightarrow> Some (en_oc_mqtt_err_sysmem, pf_oc s));
          Some (ret, s\<lparr>pf_mem := jm_free_opt msg (jm_free_opt t m), pf_oc := oc\<rparr>) })"
    if t: "t = None \<and> \<not> ?ok \<and> c = 0 \<or> t = Some topic \<and> c = 1" and y: "yields (?B + c) ?ok (msg, m) x (\<lambda>_. 1)" for t msg m c
  proof -
    have b: "jm_blocks (jm_free_opt msg (jm_free_opt t m)) = ?B"
      using t y by (cases msg) (auto simp: yields_def at_def jm_free_opt_def jm_free_def)
    show ?thesis
    proof (cases "t = None \<or> msg = None")
      case True
      then have "mem_ok (pf_mem s) \<longrightarrow> x = None" using t y by (auto simp: yields_def)
      then show ?thesis unfolding sends_def using True b
        by (intro exI[of _ "jm_free_opt msg (jm_free_opt t m)"]) (cases t; cases msg; simp)
    next
      case False
      then obtain tx where m: "msg = Some tx" "x = Some tx" "t = Some topic" using t y by (auto simp: yields_def)
      have "(do { (ret, oc) \<leftarrow> oc_mqtt_publish (Some topic) tx 1 (pf_oc s);
          Some (ret, s\<lparr>pf_mem := jm_free_opt msg (jm_free_opt t m), pf_oc := oc\<rparr>) }) =
        map_option (\<lambda>(ret, oc). (ret, s\<lparr>pf_mem := jm_free_opt msg (jm_free_opt t m), pf_oc := oc\<rparr>)) (oc_mqtt_publish (Some topic) tx 1 (pf_oc s))"
        by (cases "oc_mqtt_publish (Some topic) tx 1 (pf_oc s)") auto
      then show ?thesis unfolding sends_def using m b
        by (intro exI[of _ "jm_free_opt msg (jm_free_opt t m)"] conjI disjI2 exI[of _ tx]) simp_all
    qed
  qed
  from a show ?thesis
  proof (cases rule: jm_alloc_at)
    case (no m')
    have t: "topic_make fmt (Some ident) request_id (pf_mem s) = (None, m')" by (simp add: topic_make_def no)
    obtain msg m where p: "package m' = (msg, m)" by (cases "package m'")
    have "yields ?B ?ok (msg, m) x (\<lambda>_. 1)" using assms(3)[OF no(2)] p by simp
    then show ?thesis unfolding profile_publish_def Let_def assms(1) if_not_P[OF v] t prod.case p
      using fin[of None 0 msg m] no(3) by simp
  next
    case (yes m')
    have t: "topic_make fmt (Some ident) request_id (pf_mem s) = (Some topic, m')" by (simp add: topic_make_def yes assms(4) k)
    obtain msg m where p: "package m' = (msg, m)" by (cases "package m'")
    have "at (?B + 1) ?ok 0 m'" using yes(2) by (simp add: at_base)
    then have "yields (?B + 1) ?ok (msg, m) x (\<lambda>_. 1)" using assms(3) p by metis
    then show ?thesis unfolding profile_publish_def Let_def assms(1) if_not_P[OF v] t prod.case p
      using fin[of "Some topic" 1 msg m] by simp
  qed
qed

text \<open>The device that a call is for, and the topics of a device.\<close>

definition device_of :: "bytes option \<Rightarrow> ('g, 'd) oc_mqtt_profile_cb \<Rightarrow> bytes option" where
  "device_of deviceid s = (if deviceid = None then pf_device_id s else deviceid)"

definition dev_topic :: "bytes \<Rightarrow> string \<Rightarrow> bytes" where
  "dev_topic ident path = bytes_of ''$oc/devices/'' @ ident @ bytes_of path"

lemma topics:
  "expand CN_OC_MQTT_PROFILE_MSGUP_TOPICFMT [d] = dev_topic d ''/sys/messages/up''"
  "expand CN_OC_MQTT_PROFILE_PROPERTYREPORT_TOPICFMT [d] = dev_topic d ''/sys/properties/report''"
  "expand CN_OC_MQTT_PROFILE_GWPROPERTYREPORT_TOPICFMT [d] = dev_topic d ''/sys/gateway/sub_devices/properties/report''"
  "expand CN_OC_MQTT_PROFILE_EVENT_TOPICFMT [d] = dev_topic d ''/sys/events/up''"
  "expand CN_OC_MQTT_PROFILE_ROPERTYSETRESP_TOPICFMT [d, r] = dev_topic d ''/sys/properties/set/response/request_id='' @ r"
  "expand CN_OC_MQTT_PROFILE_ROPERTYGETRESP_TOPICFMT [d, r] = dev_topic d ''/sys/properties/get/response/request_id='' @ r"
  "expand CN_OC_MQTT_PROFILE_CMDRESP_TOPICFMT [d, r] = dev_topic d ''/sys/commands/response/request_id='' @ r"
  "expand CN_OC_MQTT_PROFILE_GETSHADOW_TOPICFMT [d, r] = dev_topic d ''/sys/shadow/get/request_id='' @ r"
  by (simp_all add: dev_topic_def CN_OC_MQTT_PROFILE_MSGUP_TOPICFMT_def CN_OC_MQTT_PROFILE_PROPERTYREPORT_TOPICFMT_def
    CN_OC_MQTT_PROFILE_GWPROPERTYREPORT_TOPICFMT_def CN_OC_MQTT_PROFILE_EVENT_TOPICFMT_def CN_OC_MQTT_PROFILE_ROPERTYSETRESP_TOPICFMT_def
    CN_OC_MQTT_PROFILE_ROPERTYGETRESP_TOPICFMT_def CN_OC_MQTT_PROFILE_CMDRESP_TOPICFMT_def CN_OC_MQTT_PROFILE_GETSHADOW_TOPICFMT_def)

lemma topic_room:
  "length (dev_topic d ''/sys/messages/up'') < length CN_OC_MQTT_PROFILE_MSGUP_TOPICFMT + length d + opt_len None"
  "length (dev_topic d ''/sys/properties/report'') < length CN_OC_MQTT_PROFILE_PROPERTYREPORT_TOPICFMT + length d + opt_len None"
  "length (dev_topic d ''/sys/gateway/sub_devices/properties/report'') < length CN_OC_MQTT_PROFILE_GWPROPERTYREPORT_TOPICFMT + length d + opt_len None"
  "length (dev_topic d ''/sys/events/up'') < length CN_OC_MQTT_PROFILE_EVENT_TOPICFMT + length d + opt_len None"
  "length (dev_topic d ''/sys/properties/set/response/request_id='' @ r) < length CN_OC_MQTT_PROFILE_ROPERTYSETRESP_TOPICFMT + length d + opt_len (Some r)"
  "length (dev_topic d ''/sys/properties/get/response/request_id='' @ r) < length CN_OC_MQTT_PROFILE_ROPERTYGETRESP_TOPICFMT + length d + opt_len (Some r)"
  "length (dev_topic d ''/sys/commands/response/request_id='' @ r) < length CN_OC_MQTT_PROFILE_CMDRESP_TOPICFMT + length d + opt_len (Some r)"
  "length (dev_topic d ''/sys/shadow/get/request_id='' @ r) < length CN_OC_MQTT_PROFILE_GETSHADOW_TOPICFMT + length d + opt_len (Some r)"
  by (simp_all add: opt_len_def dev_topic_def CN_OC_MQTT_PROFILE_MSGUP_TOPICFMT_def CN_OC_MQTT_PROFILE_PROPERTYREPORT_TOPICFMT_def
    CN_OC_MQTT_PROFILE_GWPROPERTYREPORT_TOPICFMT_def CN_OC_MQTT_PROFILE_EVENT_TOPICFMT_def CN_OC_MQTT_PROFILE_ROPERTYSETRESP_TOPICFMT_def
    CN_OC_MQTT_PROFILE_ROPERTYGETRESP_TOPICFMT_def CN_OC_MQTT_PROFILE_CMDRESP_TOPICFMT_def CN_OC_MQTT_PROFILE_GETSHADOW_TOPICFMT_def)

text \<open>C26. When the keys of the members can be copied (\<open>keys_ok\<close>), a report of properties, of the device or of those behind it, goes to its topic as
  the text of exactly the tree that the payload describes: each service with its identifier, its properties in their order and nesting,
  and its time when it has one. When a value has no representation or an allocation other than the copy of a key fails, nothing is sent; in
  both cases all memory is given back. The call or the client names a device, the lists are not empty, the first service has its identifier and
  properties, the first device its identifier, and properties have keys. A copy of a key that fails is left out, since the code does not notice it: then the report is sent
  without the property and a block is lost (\<open>profile_key_lost\<close>).\<close>

theorem profile_reports:
  assumes "device_of deviceid s = Some ident" and "keys_ok (pf_mem s)"
    and "service_ok svs" and "props_keyed svs"
    and "dvs \<noteq> []" and "dv_subdevice_id (hd dvs) \<noteq> None" and "service_ok (dv_subdevice_property (hd dvs))"
    and "\<forall>dv \<in> set dvs. props_keyed (dv_subdevice_property dv)"
  shows "sends s (dev_topic ident ''/sys/properties/report'')
      (map_option (\<lambda>services. pf_print s (CJ_Object (mem_of CN_OC_JSON_KEY_SERVICES services))) (services_spec svs))
      (oc_mqtt_profile_propertyreport deviceid svs s) \<and>
    sends s (dev_topic ident ''/sys/gateway/sub_devices/properties/report'')
      (map_option (\<lambda>l. pf_print s (devices_root l)) (those (map device_spec dvs))) (oc_mqtt_profile_gwpropertyreport deviceid dvs s)"
proof
  show "sends s (dev_topic ident ''/sys/properties/report'')
      (map_option (\<lambda>services. pf_print s (CJ_Object (mem_of CN_OC_JSON_KEY_SERVICES services))) (services_spec svs))
      (oc_mqtt_profile_propertyreport deviceid svs s)"
    unfolding oc_mqtt_profile_propertyreport_def
  proof (rule publish_sends[OF assms(1)[unfolded device_of_def] assms(2)])
    show "yields B ok (oc_mqtt_profile_package_propertyreport (pf_print s) svs m)
        (map_option (\<lambda>services. pf_print s (CJ_Object (mem_of CN_OC_JSON_KEY_SERVICES services))) (services_spec svs)) (\<lambda>_. 1)"
      if "at B ok 0 m" for B ok m
      unfolding oc_mqtt_profile_package_propertyreport_def by (rule report_yields[OF assms(4) that])
  qed (simp add: topics, rule topic_room, rule assms(3))
  show "sends s (dev_topic ident ''/sys/gateway/sub_devices/properties/report'')
      (map_option (\<lambda>l. pf_print s (devices_root l)) (those (map device_spec dvs))) (oc_mqtt_profile_gwpropertyreport deviceid dvs s)"
    unfolding oc_mqtt_profile_gwpropertyreport_def
    by (rule publish_sends[OF assms(1)[unfolded device_of_def] assms(2)], rule gw_yields[OF assms(8)], assumption, simp add: topics, rule topic_room, simp add: assms)
qed

text \<open>An answer goes to the topic of its request, with the number of the request that was asked, and its text has the code, the
  description and the values that were given; likewise the answer to a request for properties and the request for the shadow of the device.\<close>

theorem profile_answers:
  assumes "device_of deviceid s = Some ident" and "keys_ok (pf_mem s)"
    and "ps_request_id ps = Some r" and "pg_request_id pg = Some r" and "service_ok (pg_services pg)" and "props_keyed (pg_services pg)"
    and "cr_request_id cr = Some r" and "keyed_list (cr_paras cr)" and "sg_request_id sg = Some r"
  shows "sends s (dev_topic ident ''/sys/properties/set/response/request_id='' @ r)
      (Some (pf_print s (CJ_Object (mem_of CN_OC_JSON_KEY_RESULTCODE (CJ_Number (FromInt (ps_ret_code ps))) @
         mem_opt CN_OC_JSON_KEY_RESULTDESC (ps_ret_description ps))))) (oc_mqtt_profile_propertysetresp deviceid (Some ps) s) \<and>
    sends s (dev_topic ident ''/sys/properties/get/response/request_id='' @ r)
      (map_option (\<lambda>services. pf_print s (CJ_Object (mem_of CN_OC_JSON_KEY_SERVICES services))) (services_spec (pg_services pg)))
      (oc_mqtt_profile_propertygetresp deviceid (Some pg) s) \<and>
    sends s (dev_topic ident ''/sys/commands/response/request_id='' @ r)
      (map_option (\<lambda>ms. pf_print s (CJ_Object (mem_of CN_OC_JSON_KEY_RESULTCODE (CJ_Number (FromInt (cr_ret_code cr))) @
         mem_opt CN_OC_JSON_KEY_RESULTDESC (cr_ret_name cr) @ (if cr_paras cr = [] then [] else mem_of CN_OC_JSON_KEY_PARAS (CJ_Object ms)))))
        (kvs_spec (cr_paras cr))) (oc_mqtt_profile_cmdresp deviceid (Some cr) s) \<and>
    sends s (dev_topic ident ''/sys/shadow/get/request_id='' @ r)
      (Some (pf_print s (CJ_Object (mem_opt CN_OC_JSON_KEY_OBJECTDEVICEID (sg_object_device_id sg) @
         mem_opt CN_OC_JSON_KEY_SERVICEID (sg_service_id sg))))) (oc_mqtt_profile_getshadow deviceid (Some sg) s)"
proof (intro conjI)
  note p = publish_sends[OF assms(1)[unfolded device_of_def] assms(2), where request_id = "Some r"]
  show "sends s (dev_topic ident ''/sys/properties/set/response/request_id='' @ r)
      (Some (pf_print s (CJ_Object (mem_of CN_OC_JSON_KEY_RESULTCODE (CJ_Number (FromInt (ps_ret_code ps))) @
         mem_opt CN_OC_JSON_KEY_RESULTDESC (ps_ret_description ps))))) (oc_mqtt_profile_propertysetresp deviceid (Some ps) s)"
    unfolding oc_mqtt_profile_propertysetresp_def Option.bind.bind_lunit assms(3) option.sel
    by (rule p, rule setresp_yields, assumption, simp add: topics, rule topic_room, simp add: assms)
  have n: "\<not> ((deviceid \<noteq> None \<or> pf_device_id s \<noteq> None) \<and> (case Some pg of None \<Rightarrow> False | Some p \<Rightarrow> pg_request_id p \<noteq> None \<and> pg_services p = []))"
    using assms(5) by (auto simp: service_ok_def)
  show "sends s (dev_topic ident ''/sys/properties/get/response/request_id='' @ r)
      (map_option (\<lambda>services. pf_print s (CJ_Object (mem_of CN_OC_JSON_KEY_SERVICES services))) (services_spec (pg_services pg)))
      (oc_mqtt_profile_propertygetresp deviceid (Some pg) s)"
    unfolding oc_mqtt_profile_propertygetresp_def if_not_P[OF n] Option.bind.bind_lunit assms(4) option.sel
    by (rule p, unfold oc_mqtt_profile_package_propertygetresp_def, rule report_yields[OF assms(6)], assumption, simp add: topics, rule topic_room, simp add: assms)
  show "sends s (dev_topic ident ''/sys/commands/response/request_id='' @ r)
      (map_option (\<lambda>ms. pf_print s (CJ_Object (mem_of CN_OC_JSON_KEY_RESULTCODE (CJ_Number (FromInt (cr_ret_code cr))) @
         mem_opt CN_OC_JSON_KEY_RESULTDESC (cr_ret_name cr) @ (if cr_paras cr = [] then [] else mem_of CN_OC_JSON_KEY_PARAS (CJ_Object ms)))))
        (kvs_spec (cr_paras cr))) (oc_mqtt_profile_cmdresp deviceid (Some cr) s)"
    unfolding oc_mqtt_profile_cmdresp_def Option.bind.bind_lunit assms(7) option.sel
    by (rule p, rule cmdresp_yields[OF assms(8)], assumption, simp add: topics, rule topic_room, simp add: assms)
  show "sends s (dev_topic ident ''/sys/shadow/get/request_id='' @ r)
      (Some (pf_print s (CJ_Object (mem_opt CN_OC_JSON_KEY_OBJECTDEVICEID (sg_object_device_id sg) @
         mem_opt CN_OC_JSON_KEY_SERVICEID (sg_service_id sg))))) (oc_mqtt_profile_getshadow deviceid (Some sg) s)"
    unfolding oc_mqtt_profile_getshadow_def Option.bind.bind_lunit assms(9) option.sel
    by (rule p, rule shadowget_yields, assumption, simp add: topics, rule topic_room, simp add: assms)
qed

section \<open>Arriving messages\<close>

lemma str_find_iff: "str_find p t \<noteq> None \<longleftrightarrow> sublist p t"
proof (induction t)
  case (Cons c cs)
  then show ?case by (auto simp: sublist_Cons_right)
qed simp

lemma sublist_skip: "c \<notin> set a \<Longrightarrow> sublist (c # p) (a @ t) = sublist (c # p) t"
  by (induction a) (auto simp: sublist_Cons_right)

lemma sublist_absent: "c \<notin> set t \<Longrightarrow> \<not> sublist (c # p) t"
  by (auto dest: set_mono_sublist)

lemma prefix_split: "c \<notin> set a \<Longrightarrow> c \<notin> set d \<Longrightarrow> prefix (a @ c # p) (d @ c # t) \<longleftrightarrow> a = d \<and> prefix p t"
proof (induction a arbitrary: d)
  case Nil
  then show ?case by (cases d) auto
next
  case (Cons x a)
  then show ?case by (cases d) auto
qed

lemma prefix_sys:
  assumes "47 \<notin> set (d :: bytes)"
  shows "prefix (115 # 121 # 115 # 47 # p) (d @ 47 # t) \<longleftrightarrow> d = [115, 121, 115] \<and> prefix p t"
  using prefix_split[of 47 "[115, 121, 115]" d p t] assms by auto

lemma str_find_last:
  assumes "c \<notin> set a" and "c \<notin> set q"
  shows "str_find (q @ [c]) (a @ (q @ [c]) @ r) = Some ((q @ [c]) @ r)"
  using assms(1)
proof (induction a)
  case Nil
  obtain x xs where e: "(q @ [c]) @ r = x # xs" by (cases "(q @ [c]) @ r") auto
  have "prefix (q @ [c]) (x # xs)" unfolding e[symmetric] by simp
  then show ?case using e by simp
next
  case (Cons x a)
  have "\<not> prefix (q @ [c]) (x # a @ (q @ [c]) @ r)"
  proof
    assume "prefix (q @ [c]) (x # a @ (q @ [c]) @ r)"
    then have "(q @ [c]) ! length q = (x # a @ (q @ [c]) @ r) ! length q" by (auto simp: prefix_def nth_append)
    then have "c = ((x # a @ q) @ [c] @ r) ! length q" by simp
    moreover have "((x # a @ q) @ [c] @ r) ! length q \<in> set (x # a @ q)"
      by (metis add_Suc_right length_Cons length_append less_add_Suc2 nth_append nth_mem)
    ultimately show False using assms(2) Cons.prems by auto
  qed
  then show ?case using Cons by simp
qed

text \<open>The topics on which the service sends, with the kind of message and whether the number of the request follows.\<close>

definition down_topics :: "(string \<times> en_oc_mqtt_profile_msg_type_down \<times> bool) list" where
  "down_topics = [(''/sys/messages/down'', DOWN_MSGDOWN, False), (''/sys/properties/set/request_id='', DOWN_PROPERTYSET, True),
     (''/sys/properties/get/request_id='', DOWN_PROPERTYGET, True), (''/sys/commands/request_id='', DOWN_COMMANDS, True),
     (''/sys/events/down'', DOWN_EVENT, False), (''/sys/bootstrap/down'', DOWN_BS, False),
     (''/sys/shadow/get/response/request_id='', DOWN_SHADOWGET, True)]"

text \<open>Without another \<^verbatim>\<open>/sys/\<close>, only the beginning of the path decides, or the identifier when it is \<^verbatim>\<open>sys\<close> itself.\<close>

abbreviation "sys_mark \<equiv> [47, 115, 121, 115, 47] :: bytes"

definition sys_has :: "bytes \<Rightarrow> bytes \<Rightarrow> bytes \<Rightarrow> bool" where
  "sys_has d t p \<longleftrightarrow> prefix (115 # 121 # 115 # 47 # p) t \<or> d = [115, 121, 115] \<and> prefix p t"

lemma topic_has:
  assumes "47 \<notin> set d" and "\<not> sublist sys_mark t"
  shows "sublist (47 # 115 # 121 # 115 # 47 # p) (bytes_of ''$oc/devices/'' @ d @ 47 # t) \<longleftrightarrow> sys_has d t p"
proof -
  have "\<not> sublist (47 # 115 # 121 # 115 # 47 # p) t"
    using assms(2) sublist_order.order_trans[of sys_mark "47 # 115 # 121 # 115 # 47 # p" t] by (auto simp: sublist_Cons_right)
  then show ?thesis using prefix_sys[OF assms(1), of p t] by (auto simp: sys_has_def sublist_Cons_right sublist_skip[OF assms(1)])
qed

lemma msg_type_sys:
  assumes "47 \<notin> set d" and "\<not> sublist sys_mark t"
  shows "msg_type (bytes_of ''$oc/devices/'' @ d @ 47 # t) =
     (if sys_has d t (bytes_of ''messages/down'') then DOWN_MSGDOWN
      else if sys_has d t (bytes_of ''properties/set/'') then DOWN_PROPERTYSET
      else if sys_has d t (bytes_of ''properties/get/'') then DOWN_PROPERTYGET
      else if sys_has d t (bytes_of ''commands/'') then DOWN_COMMANDS
      else if sys_has d t (bytes_of ''events/down'') then DOWN_EVENT
      else if sys_has d t (bytes_of ''bootstrap/down'') then DOWN_BS
      else if sys_has d t (bytes_of ''shadow/get'') then DOWN_SHADOWGET
      else DOWN_LAST)"
proof -
  have b: "bytes_of ''/sys/messages/down'' = 47 # 115 # 121 # 115 # 47 # bytes_of ''messages/down''"
    "bytes_of ''/sys/properties/set/'' = 47 # 115 # 121 # 115 # 47 # bytes_of ''properties/set/''"
    "bytes_of ''/sys/properties/get/'' = 47 # 115 # 121 # 115 # 47 # bytes_of ''properties/get/''"
    "bytes_of ''/sys/commands/'' = 47 # 115 # 121 # 115 # 47 # bytes_of ''commands/''"
    "bytes_of ''/sys/events/down'' = 47 # 115 # 121 # 115 # 47 # bytes_of ''events/down''"
    "bytes_of ''/sys/bootstrap/down'' = 47 # 115 # 121 # 115 # 47 # bytes_of ''bootstrap/down''"
    "bytes_of ''/sys/shadow/get'' = 47 # 115 # 121 # 115 # 47 # bytes_of ''shadow/get''"
    by simp_all
  show ?thesis unfolding msg_type_def str_find_iff b topic_has[OF assms] by (rule refl)
qed

lemma sys_mark_once:
  assumes "47 \<notin> set r" and "(path, ty, req) \<in> set down_topics"
  shows "\<not> sublist sys_mark (tl (bytes_of path) @ r)"
  using assms(2) sublist_absent[OF assms(1)] by (auto simp: down_topics_def sublist_Cons_right)

lemma msg_type_down:
  assumes "47 \<notin> set d" and "47 \<notin> set r" and "(path, ty, req) \<in> set down_topics"
  shows "msg_type (dev_topic d path @ r) = ty"
proof -
  have "bytes_of path = 47 # tl (bytes_of path)" using assms(3) by (auto simp: down_topics_def)
  then have e: "dev_topic d path @ r = bytes_of ''$oc/devices/'' @ d @ 47 # (tl (bytes_of path) @ r)" unfolding dev_topic_def by (metis append.assoc append_Cons)
  show ?thesis unfolding e msg_type_sys[OF assms(1) sys_mark_once[OF assms(2,3)]]
    using assms(3) unfolding down_topics_def list.set insert_iff empty_iff prod.inject by (elim disjE conjE) (simp_all add: sys_has_def)
qed

lemma request_id_of:
  assumes "61 \<notin> set d" and "61 \<notin> set r \<or> req" and "(path, ty, req) \<in> set down_topics"
  shows "str_find CN_OC_MQTT_PROFILE_REQUESTID_INDEX (dev_topic d path @ r) = (if req then Some (bytes_of ''request_id='' @ r) else None)"
proof (cases req)
  case True
  obtain h where h: "bytes_of path = h @ bytes_of ''request_id'' @ [61]" "61 \<notin> set h"
  proof
    show "bytes_of path = take (length path - 11) (bytes_of path) @ bytes_of ''request_id'' @ [61]"
      and "61 \<notin> set (take (length path - 11) (bytes_of path))"
      using assms(3) True unfolding down_topics_def list.set insert_iff empty_iff prod.inject by (elim disjE conjE; simp)+
  qed
  have e: "dev_topic d path @ r = (bytes_of ''$oc/devices/'' @ d @ h) @ (bytes_of ''request_id'' @ [61]) @ r"
    unfolding dev_topic_def h(1) by simp
  have n: "61 \<notin> set (bytes_of ''$oc/devices/'' @ d @ h)" using assms(1) h(2) by simp
  have "CN_OC_MQTT_PROFILE_REQUESTID_INDEX = bytes_of ''request_id'' @ [61]" by (simp add: CN_OC_MQTT_PROFILE_REQUESTID_INDEX_def)
  then show ?thesis unfolding e using str_find_last[OF n, of "bytes_of ''request_id''" r] True by simp
next
  case False
  then have "61 \<notin> set (dev_topic d path @ r)" using assms by (auto simp: down_topics_def dev_topic_def)
  then have "\<not> sublist CN_OC_MQTT_PROFILE_REQUESTID_INDEX (dev_topic d path @ r)"
    by (auto simp: CN_OC_MQTT_PROFILE_REQUESTID_INDEX_def dest!: set_mono_sublist)
  then show ?thesis using False str_find_iff by (metis not_None_eq)
qed

text \<open>C27. On each topic on which the service sends to a device, the application gets the message with the right kind, the number of the request exactly where the topic
  has one, and the untouched payload, and the copy of the topic is freed.\<close>

theorem profile_message_kinds:
  assumes "(path, ty, req) \<in> set down_topics" and "47 \<notin> set d" and "61 \<notin> set d" and "0 \<notin> set d" and "47 \<notin> set r" and "0 \<notin> set r"
    and "req \<or> r = []" and "pf_rcvfunc s" and "mem_ok (pf_mem s)"
  shows "\<exists>m. app_msg_deal (dev_topic d path @ r, payload) s = (-1, s\<lparr>pf_mem := m,
      pf_rcvs := pf_rcvs s @ [\<lparr>rc_type = ty, rc_request_id = (if req then Some r else None), rc_msg = payload\<rparr>]\<rparr>) \<and> jm_blocks m = jm_blocks (pf_mem s)"
proof -
  have z: "takeWhile (\<lambda>c. c \<noteq> 0) (dev_topic d path @ r) = dev_topic d path @ r"
    using assms(1,4,6) by (subst takeWhile_eq_all_conv) (auto simp: down_topics_def dev_topic_def)
  have i: "map_option (drop (length CN_OC_MQTT_PROFILE_REQUESTID_INDEX)) (str_find CN_OC_MQTT_PROFILE_REQUESTID_INDEX (dev_topic d path @ r)) =
      (if req then Some r else None)"
    using request_id_of[OF assms(3) _ assms(1), of r] assms(7) by (auto simp: CN_OC_MQTT_PROFILE_REQUESTID_INDEX_def)
  obtain m where m: "jm_alloc (pf_mem s) = (True, m)" "jm_blocks m = jm_blocks (pf_mem s) + 1"
    using assms(9) by (cases "jm_mallocs (pf_mem s)") (auto simp: jm_alloc_def mem_ok_def)
  show ?thesis unfolding app_msg_deal_def m(1) Let_def prod.case fst_conv snd_conv z i msg_type_down[OF assms(2,5,1)]
    using assms(8) m(2) by (intro exI[of _ "jm_free 1 m"]) (simp add: jm_free_def)
qed

section \<open>Events and messages\<close>

lemma event_sends:
  assumes "device_of deviceid s = Some ident" and "keys_ok (pf_mem s)" and "keyed_list (ev_paras ev)" and "ev_event_type ev \<noteq> None"
  shows "sends s (dev_topic ident ''/sys/events/up'') (map_option (pf_print s) (event_spec ev)) (oc_mqtt_profile_reportevent deviceid (Some ev) s)"
  unfolding oc_mqtt_profile_reportevent_def option.sel
  by (rule publish_sends[OF assms(1)[unfolded device_of_def] assms(2)], rule event_yields[OF assms(3)], assumption, simp add: topics, rule topic_room,
    simp add: assms)

text \<open>An event of the upgrade service with its parameters, all keys copied.\<close>

definition ota_event :: "bytes option \<Rightarrow> string \<Rightarrow> 'd cj_member list \<Rightarrow> 'd cjson" where
  "ota_event object ty paras = CJ_Object (copy_opt CN_OC_JSON_KEY_OBJECTDEVICEID object @ mem_key CN_OC_JSON_KEY_SERVICES (CJ_Array [CJ_Object
     (mem_key CN_OC_JSON_KEY_SERVICEID (CJ_String (bytes_of ''$ota'')) @ mem_key CN_OC_JSON_KEY_EVENTTYPE (CJ_String (bytes_of ty)) @
      mem_key CN_OC_JSON_KEY_PARAS (CJ_Object paras))]))"

text \<open>The events of the upgrade service have the parameters that are given, and no others: the versions that are known, or the code of the
  result with the version when it is known and the progress when it is a percentage. A message of the application is sent under its own topic.\<close>

theorem profile_events:
  assumes "device_of deviceid s = Some ident" and "keys_ok (pf_mem s)" and "mu_msg mu = Some t"
  shows "sends s (dev_topic ident ''/sys/events/up'')
      (Some (pf_print s (ota_event object ''version_report'' (copy_opt CN_OC_JSON_KEY_FWVERSION firm @ copy_opt CN_OC_JSON_KEY_SWVERSION soft))))
      (oc_mqtt_report_version deviceid object soft firm s) \<and>
    sends s (dev_topic ident ''/sys/events/up'')
      (Some (pf_print s (ota_event object ''upgrade_progress_report''
        ((if 0 \<le> progress \<and> progress \<le> 100 then mem_key CN_OC_JSON_KEY_PROGRESS (CJ_Number (FromInt progress)) else []) @
         copy_opt CN_OC_JSON_KEY_VERSION version @ mem_key CN_OC_JSON_KEY_RESULTCODE (CJ_Number (FromInt upgraderet))))))
      (oc_mqtt_report_upgradeprogress deviceid object upgraderet version progress s) \<and>
    sends s (dev_topic ident ''/sys/messages/up'')
      (Some (pf_print s (CJ_Object (mem_opt CN_OC_JSON_KEY_OBJECTDEVICEID (mu_device_id mu) @ mem_opt CN_OC_JSON_KEY_NAME (mu_name mu) @
       mem_opt CN_OC_JSON_KEY_ID (mu_id mu) @ mem_of CN_OC_JSON_KEY_CONTENT (CJ_String t))))) (oc_mqtt_profile_msgup deviceid (Some mu) s)"
proof (intro conjI)
  let ?kv = "\<lambda>key x. case x of None \<Rightarrow> [] | Some v \<Rightarrow> [Kv (Some key) (VString x)]"
  let ?ev = "\<lambda>ty paras. \<lparr>ev_object_device_id = object, ev_service_id = Some (bytes_of ''$ota''), ev_event_type = Some (bytes_of ty),
              ev_event_time = None, ev_paras = paras\<rparr>"
  have sp: "kvs_spec (?kv k x @ kvs) = map_option (\<lambda>ms. copy_opt k x @ ms) (kvs_spec kvs)" "keyed_list (?kv k x @ kvs) = keyed_list kvs" for k x kvs
    by (cases x; cases "kvs_spec kvs"; simp add: copy_opt_def mem_key_def)+
  have es: "event_spec (?ev ty paras) = map_option (ota_event object ty) (kvs_spec paras)" for ty paras
    by (cases "kvs_spec paras") (simp_all add: event_spec_def ota_event_def copy_opt_def[of _ None])
  let ?v = "?kv CN_OC_JSON_KEY_FWVERSION firm @ ?kv CN_OC_JSON_KEY_SWVERSION soft @ []"
  have r: "oc_mqtt_report_version deviceid object soft firm s = oc_mqtt_profile_reportevent deviceid (Some (?ev ''version_report'' ?v)) s"
    unfolding oc_mqtt_report_version_def Let_def by (cases soft; cases firm) simp_all
  show "sends s (dev_topic ident ''/sys/events/up'')
      (Some (pf_print s (ota_event object ''version_report'' (copy_opt CN_OC_JSON_KEY_FWVERSION firm @ copy_opt CN_OC_JSON_KEY_SWVERSION soft))))
      (oc_mqtt_report_version deviceid object soft firm s)"
  proof -
    have k: "keyed_list ?v" by (cases firm; cases soft; simp)
    have e: "event_spec (?ev ty ?v) = Some (ota_event object ty (copy_opt CN_OC_JSON_KEY_FWVERSION firm @ copy_opt CN_OC_JSON_KEY_SWVERSION soft))" for ty
      unfolding es sp by simp
    have "sends s (dev_topic ident ''/sys/events/up'') (map_option (pf_print s) (event_spec (?ev ''version_report'' ?v)))
        (oc_mqtt_profile_reportevent deviceid (Some (?ev ''version_report'' ?v)) s)"
      by (rule event_sends[OF assms(1,2)]) (use k in simp_all)
    then show ?thesis unfolding r e option.map .
  qed
  let ?n = "\<lambda>b key i. if b then [Kv (Some key) (VInt i)] else []"
  have sn: "kvs_spec (?n b k i @ kvs) = map_option (\<lambda>ms. (if b then mem_key k (CJ_Number (FromInt i)) else []) @ ms) (kvs_spec kvs)"
      "keyed_list (?n b k i @ kvs) = keyed_list kvs" for b k i kvs
    by (cases b; cases "kvs_spec kvs"; simp add: mem_key_def)+
  let ?p = "?n (0 \<le> progress \<and> progress \<le> 100) CN_OC_JSON_KEY_PROGRESS progress @ ?kv CN_OC_JSON_KEY_VERSION version @ ?n True CN_OC_JSON_KEY_RESULTCODE upgraderet @ []"
  have u: "oc_mqtt_report_upgradeprogress deviceid object upgraderet version progress s =
      oc_mqtt_profile_reportevent deviceid (Some (?ev ''upgrade_progress_report'' ?p)) s"
    unfolding oc_mqtt_report_upgradeprogress_def Let_def by (cases version; cases "0 \<le> progress \<and> progress \<le> 100"; auto)
  show "sends s (dev_topic ident ''/sys/events/up'')
      (Some (pf_print s (ota_event object ''upgrade_progress_report''
        ((if 0 \<le> progress \<and> progress \<le> 100 then mem_key CN_OC_JSON_KEY_PROGRESS (CJ_Number (FromInt progress)) else []) @
         copy_opt CN_OC_JSON_KEY_VERSION version @ mem_key CN_OC_JSON_KEY_RESULTCODE (CJ_Number (FromInt upgraderet))))))
      (oc_mqtt_report_upgradeprogress deviceid object upgraderet version progress s)"
  proof -
    have k: "keyed_list ?p" by (cases version; simp)
    have e: "event_spec (?ev ty ?p) = Some (ota_event object ty ((if 0 \<le> progress \<and> progress \<le> 100 then mem_key CN_OC_JSON_KEY_PROGRESS (CJ_Number (FromInt progress)) else []) @
         copy_opt CN_OC_JSON_KEY_VERSION version @ mem_key CN_OC_JSON_KEY_RESULTCODE (CJ_Number (FromInt upgraderet))))" for ty
      unfolding es sn sp by simp
    have "sends s (dev_topic ident ''/sys/events/up'') (map_option (pf_print s) (event_spec (?ev ''upgrade_progress_report'' ?p)))
        (oc_mqtt_profile_reportevent deviceid (Some (?ev ''upgrade_progress_report'' ?p)) s)"
      by (rule event_sends[OF assms(1,2)]) (use k in simp_all)
    then show ?thesis unfolding u e option.map .
  qed
  show "sends s (dev_topic ident ''/sys/messages/up'')
      (Some (pf_print s (CJ_Object (mem_opt CN_OC_JSON_KEY_OBJECTDEVICEID (mu_device_id mu) @ mem_opt CN_OC_JSON_KEY_NAME (mu_name mu) @
       mem_opt CN_OC_JSON_KEY_ID (mu_id mu) @ mem_of CN_OC_JSON_KEY_CONTENT (CJ_String t))))) (oc_mqtt_profile_msgup deviceid (Some mu) s)"
    unfolding oc_mqtt_profile_msgup_def option.sel
    by (rule publish_sends[OF assms(1)[unfolded device_of_def] assms(2)], rule yields_eq[OF msgup_yields], assumption, simp add: assms, simp add: topics,
      rule topic_room, simp add: assms)
qed

section \<open>What goes wrong\<close>

text \<open>When there is no memory for the copy of the key of a property, the property is left out, its node is lost, and the report is sent
  as if it were complete: the caller gets the result of a publication without the value.\<close>

theorem profile_key_lost:
  assumes "pf_device_id s = Some ident" and "pf_mem s = \<lparr>jm_mallocs = [], jm_keys = [False], jm_blocks = b\<rparr>"
  shows "oc_mqtt_profile_propertyreport None
      [\<lparr>sv_service_id = Some sid, sv_event_time = None, sv_service_property = [Kv (Some key) (VInt i)]\<rparr>] s =
    map_option (\<lambda>(ret, oc). (ret, s\<lparr>pf_mem := \<lparr>jm_mallocs = [], jm_keys = [], jm_blocks = b + 1\<rparr>, pf_oc := oc\<rparr>))
      (oc_mqtt_publish (Some (dev_topic ident ''/sys/properties/report'')) (pf_print s (CJ_Object (mem_of CN_OC_JSON_KEY_SERVICES
        (CJ_Array [CJ_Object (mem_of CN_OC_JSON_KEY_SERVICEID (CJ_String sid) @ mem_of CN_OC_JSON_KEY_PROPERTIES (CJ_Object []))])))) 1 (pf_oc s))"
proof -
  have t: "topic_make CN_OC_MQTT_PROFILE_PROPERTYREPORT_TOPICFMT (Some ident) None \<lparr>jm_mallocs = [], jm_keys = [False], jm_blocks = b\<rparr> =
      (Some (dev_topic ident ''/sys/properties/report''), \<lparr>jm_mallocs = [], jm_keys = [False], jm_blocks = b + 1\<rparr>)"
    using topics(2)[of ident] topic_room(2)[of ident] by (simp add: topic_make_def jm_alloc_def)
  have p: "oc_mqtt_profile_package_propertyreport (pf_print s)
      [\<lparr>sv_service_id = Some sid, sv_event_time = None, sv_service_property = [Kv (Some key) (VInt i)]\<rparr>]
      \<lparr>jm_mallocs = [], jm_keys = [False], jm_blocks = b + 1\<rparr> =
    (Some (pf_print s (CJ_Object (mem_of CN_OC_JSON_KEY_SERVICES
        (CJ_Array [CJ_Object (mem_of CN_OC_JSON_KEY_SERVICEID (CJ_String sid) @ mem_of CN_OC_JSON_KEY_PROPERTIES (CJ_Object []))])))),
     \<lparr>jm_mallocs = [], jm_keys = [], jm_blocks = b + 3\<rparr>)"
    by (simp add: oc_mqtt_profile_package_propertyreport_def with_root_def cJSON_CreateObject_def cJSON_New_Item_def jm_alloc_def or_exit_def
      JsonCreateServices_def cJSON_CreateArray_def JsonCreateService_def cJSON_CreateString_def JsonCreateKvLst_def cJSON_CreateNumber_def
      cJSON_AddItemToObject_def opt_string_def cJSON_AddItemToArray_def print_out_def cJSON_PrintUnformatted_def cJSON_Delete_def jm_free_def mem_of_def)
  show ?thesis
    unfolding oc_mqtt_profile_propertyreport_def profile_publish_def Let_def assms if_P[OF refl] t p prod.case
    by (cases "oc_mqtt_publish (Some (dev_topic ident ''/sys/properties/report'')) (pf_print s (CJ_Object (mem_of CN_OC_JSON_KEY_SERVICES
        (CJ_Array [CJ_Object (mem_of CN_OC_JSON_KEY_SERVICEID (CJ_String sid) @ mem_of CN_OC_JSON_KEY_PROPERTIES (CJ_Object []))])))) 1 (pf_oc s)")
      (auto simp: service_ok_def jm_free_opt_def jm_free_def)
qed

text \<open>A connection that the agent refuses, for instance because it is connected already, has replaced the device and the function of the
  connection that is up: the reports that follow go to the topics of the other device.\<close>

theorem profile_connect_forgets:
  assumes "oc_mqtt_config (Some (profile_config p)) (pf_oc s) = Some (ret, oc)" and "ret \<noteq> en_oc_mqtt_err_ok" and "mem_ok (pf_mem s)"
  shows "\<exists>s'. oc_mqtt_profile_connect (Some p) s = Some (ret, s') \<and> pf_oc s' = oc \<and> pf_device_id s' = pc_device_id p \<and> pf_rcvfunc s' = pc_rcvfunc p"
proof -
  have m: "mem_ok (jm_free_opt (pf_device_id s) (pf_mem s))" using assms(3) by (simp add: jm_free_opt_def jm_free_def mem_ok_def)
  obtain m' where "jm_strdup (pc_device_id p) (jm_free_opt (pf_device_id s) (pf_mem s)) = (pc_device_id p, m')"
    using m by (cases "pc_device_id p"; cases "jm_mallocs (jm_free_opt (pf_device_id s) (pf_mem s))") (auto simp: jm_strdup_def jm_alloc_def mem_ok_def)
  then show ?thesis using assms(1) by (simp add: oc_mqtt_profile_connect_def)
qed

section \<open>Concrete instances\<close>

definition demo_pf :: "((bytes \<times> int) list oc_mqtt_tiny_cb option, nat) oc_mqtt_profile_cb" where
  "demo_pf = \<lparr>pf_device_id = Some [100], pf_rcvfunc = True, pf_mem = \<lparr>jm_mallocs = [True], jm_keys = [], jm_blocks = 1\<rparr>,
     pf_oc = \<lparr>ob_op = Some s_oc_mqtt_tiny, ob_agent = Some demo_linked\<rparr>, pf_print = (\<lambda>j. [123, 125]), pf_rcvs = []\<rparr>"

definition demo_services :: "nat oc_mqtt_profile_service_t list" where
  "demo_services = [\<lparr>sv_service_id = Some [115], sv_event_time = None,
     sv_service_property = [Kv (Some [107]) (VInt 5), Kv (Some [108]) (VKv [Kv (Some [109]) (VDouble 2)])]\<rparr>]"

lemma demo_services_ok: "service_ok demo_services" "props_keyed demo_services"
  by (simp_all add: demo_services_def service_ok_def props_keyed_def)

lemma demo_pf_ok: "device_of None demo_pf = Some [100]" "keys_ok (pf_mem demo_pf)" "mem_ok (pf_mem demo_pf)" "pf_rcvfunc demo_pf"
  by (simp_all add: demo_pf_def device_of_def keys_ok_def mem_ok_def)

theorem profile_reports_witness:
  "sends demo_pf (dev_topic [100] ''/sys/properties/report'')
      (map_option (\<lambda>services. pf_print demo_pf (CJ_Object (mem_of CN_OC_JSON_KEY_SERVICES services))) (services_spec demo_services))
      (oc_mqtt_profile_propertyreport None demo_services demo_pf)"
proof -
  let ?d = "\<lparr>dv_subdevice_id = Some [97], dv_subdevice_property = demo_services\<rparr>"
  have "service_ok (dv_subdevice_property (hd [?d]))" "\<forall>dv \<in> set [?d]. props_keyed (dv_subdevice_property dv)" "dv_subdevice_id (hd [?d]) \<noteq> None" "[?d] \<noteq> []"
    using demo_services_ok by simp_all
  from profile_reports[OF demo_pf_ok(1,2) demo_services_ok this(4,3,1,2)] show ?thesis by (rule conjunct1)
qed

theorem profile_answers_witness:
  "sends demo_pf (dev_topic [100] ''/sys/commands/response/request_id='' @ [49])
     (Some (pf_print demo_pf (CJ_Object (mem_of CN_OC_JSON_KEY_RESULTCODE (CJ_Number (FromInt 0))))))
     (oc_mqtt_profile_cmdresp None (Some \<lparr>cr_ret_code = 0, cr_ret_name = None, cr_request_id = Some [49], cr_paras = []\<rparr>) demo_pf)"
  using profile_answers[OF demo_pf_ok(1,2), where r = "[49]" and ps = "\<lparr>ps_ret_code = 0, ps_ret_description = None, ps_request_id = Some [49]\<rparr>" and
      pg = "\<lparr>pg_request_id = Some [49], pg_services = demo_services\<rparr>" and sg = "\<lparr>sg_object_device_id = None, sg_service_id = None, sg_request_id = Some [49]\<rparr>" and
      cr = "\<lparr>cr_ret_code = 0, cr_ret_name = None, cr_request_id = Some [49], cr_paras = []\<rparr>"] demo_services_ok
  by (simp add: mem_opt_def)

theorem profile_events_witness:
  "sends demo_pf (dev_topic [100] ''/sys/events/up'')
     (Some (pf_print demo_pf (ota_event None ''version_report'' (copy_opt CN_OC_JSON_KEY_FWVERSION None @ copy_opt CN_OC_JSON_KEY_SWVERSION (Some [49])))))
     (oc_mqtt_report_version None None (Some [49]) None demo_pf)"
  by (rule conjunct1[OF profile_events[OF demo_pf_ok(1,2), where mu = "\<lparr>mu_device_id = None, mu_name = None, mu_id = None, mu_msg = Some [104]\<rparr>" and t = "[104]"]])
    simp

theorem profile_message_kinds_witness:
  "\<exists>m. app_msg_deal (dev_topic [100] ''/sys/commands/request_id='' @ [49], [1, 2]) demo_pf = (-1, demo_pf\<lparr>pf_mem := m,
      pf_rcvs := pf_rcvs demo_pf @ [\<lparr>rc_type = DOWN_COMMANDS, rc_request_id = Some [49], rc_msg = [1, 2]\<rparr>]\<rparr>) \<and> jm_blocks m = jm_blocks (pf_mem demo_pf)"
  using profile_message_kinds[where path = "''/sys/commands/request_id=''" and ty = DOWN_COMMANDS and req = True and d = "[100]" and r = "[49]" and s = demo_pf and payload = "[1, 2]"]
    demo_pf_ok by (simp add: down_topics_def)

theorem profile_key_lost_witness:
  "oc_mqtt_profile_propertyreport None [\<lparr>sv_service_id = Some [115], sv_event_time = None, sv_service_property = [Kv (Some [107]) (VInt 5)]\<rparr>]
      (demo_pf\<lparr>pf_mem := \<lparr>jm_mallocs = [], jm_keys = [False], jm_blocks = 1\<rparr>\<rparr>) =
    map_option (\<lambda>(ret, oc). (ret, demo_pf\<lparr>pf_mem := \<lparr>jm_mallocs = [], jm_keys = [], jm_blocks = 2\<rparr>, pf_oc := oc\<rparr>))
      (oc_mqtt_publish (Some (dev_topic [100] ''/sys/properties/report'')) [123, 125] 1 (pf_oc demo_pf))"
  using profile_key_lost[where s = "demo_pf\<lparr>pf_mem := \<lparr>jm_mallocs = [], jm_keys = [False], jm_blocks = 1\<rparr>\<rparr>" and ident = "[100]" and b = 1 and
      sid = "[115]" and key = "[107]" and i = 5] by (simp add: demo_pf_def)

definition demo_other :: oc_mqtt_profile_connect_t where
  "demo_other = \<lparr>pc_boostrap = 0, pc_life_time = 60, pc_server_addr = Some (bytes_of ''h''), pc_server_port = Some (bytes_of ''1883''),
     pc_device_id = Some [101], pc_device_passwd = Some [112], pc_scope_id = None, pc_security = SECURITY_NONE, pc_rcvfunc = False, pc_logfunc = False\<rparr>"

lemma demo_refused: "case oc_mqtt_config (Some (profile_config demo_other)) (pf_oc demo_pf) of Some (r, _) \<Rightarrow> r = 11 | None \<Rightarrow> False"
  by code_simp

theorem profile_connect_forgets_witness:
  "\<exists>s'. oc_mqtt_profile_connect (Some demo_other) demo_pf = Some (11, s') \<and> pf_device_id s' = Some [101] \<and> \<not> pf_rcvfunc s'"
proof -
  obtain oc where "oc_mqtt_config (Some (profile_config demo_other)) (pf_oc demo_pf) = Some (11, oc)"
    using demo_refused by (cases "oc_mqtt_config (Some (profile_config demo_other)) (pf_oc demo_pf)") auto
  from profile_connect_forgets[OF this _ demo_pf_ok(3)] show ?thesis by (auto simp: demo_other_def)
qed

end
