(* ===== verification/ModemText.thy ===== *)
theory ModemText
  imports AtClient
begin

text \<open>
  What the clients of the AT client share: searches in the text of a frame, the loop that reads a number in it, the frames that a call
  of the client has handed out, and the lemmas that bound where these end. A pointer into a text is the memory that follows it.
\<close>

section \<open>Searches\<close>

text \<open>\<^verbatim>\<open>strstr\<close> with one character: the text from there on.\<close>

fun find_char :: "u8 \<Rightarrow> bytes \<Rightarrow> bytes option option" where
  "find_char c [] = None"
| "find_char c (d # ds) = (if d = c then Some (Some (d # ds)) else if d = 0 then Some None else find_char c ds)"

text \<open>The loop over digits that collects an \<^verbatim>\<open>int\<close>, with what follows them.\<close>

fun int_digits :: "bytes \<Rightarrow> int \<Rightarrow> (int \<times> bytes) option" where
  "int_digits [] n = None"
| "int_digits (c # str) n =
     (if is_digit c then do { v \<leftarrow> c_int (n * 10); v \<leftarrow> c_int (v + (int (unat c) - 48)); int_digits str v }
      else Some (n, c # str))"

text \<open>Where the index occurs first in a text, with the text before it.\<close>

fun str_index :: "bytes \<Rightarrow> bytes \<Rightarrow> nat option" where
  "str_index [] index = (if index = [] then Some 0 else None)"
| "str_index (c # cs) index = (if prefix index (c # cs) then Some 0 else map_option Suc (str_index cs index))"

lemma find_char_suffix: "find_char c p = Some (Some q) \<Longrightarrow> q \<noteq> [] \<and> length q \<le> length p"
  by (induction c p rule: find_char.induct) (auto split: if_splits)

lemma int_digits_suffix: "int_digits p fd = Some (v, q) \<Longrightarrow> length q \<le> length p"
  by (induction p fd rule: int_digits.induct) (auto simp: bind_eq_Some_conv intro: le_SucI split: if_splits)

lemma find_char_here: "c \<notin> set xs \<Longrightarrow> 0 \<notin> set xs \<Longrightarrow> find_char c (xs @ c # ys) = Some (Some (c # ys))"
  by (induction xs) auto

lemma c_int_nonneg: "0 \<le> v \<Longrightarrow> v < 2 ^ 31 \<Longrightarrow> c_int v = Some v"
  by (rule c_int_in) auto

lemma digit_unat: "is_digit c \<Longrightarrow> 48 \<le> unat c \<and> unat c \<le> 57"
  by (simp add: is_digit_def word_le_nat_alt)

lemma dec_val_mono: "m \<le> dec_val ds m"
  by (induction ds m rule: dec_val.induct) (auto intro: order_trans[rotated])

lemma int_digits_dec:
  "\<forall>d \<in> set ds. is_digit d \<Longrightarrow> \<not> is_digit c \<Longrightarrow> dec_val ds m < 2 ^ 31 \<Longrightarrow>
     int_digits (ds @ c # rest) (int m) = Some (int (dec_val ds m), c # rest)"
proof (induction ds arbitrary: m)
  case (Cons d ds)
  have u: "48 \<le> unat d" using digit_unat[of d] Cons.prems(1) by simp
  have b: "10 * m + (unat d - 48) < 2 ^ 31" using dec_val_mono[of "10 * m + (unat d - 48)" ds] Cons.prems(3) by simp
  have e: "int m * 10 + (int (unat d) - 48) = int (10 * m + (unat d - 48))" using u by (simp add: of_nat_diff)
  have c1: "c_int (int m * 10) = Some (int m * 10)" using b by (intro c_int_nonneg) auto
  have c2: "c_int (int m * 10 + (int (unat d) - 48)) = Some (int (10 * m + (unat d - 48)))"
    unfolding e by (rule c_int_nonneg) (use b in simp_all)
  have "int_digits ((d # ds) @ c # rest) (int m) = int_digits (ds @ c # rest) (int (10 * m + (unat d - 48)))"
    using Cons.prems(1) c1 c2 by (simp del: of_nat_unat of_nat_add of_nat_mult)
  then show ?case using Cons.IH[of "10 * m + (unat d - 48)"] Cons.prems by simp
qed simp

section \<open>Any text\<close>

text \<open>The code does not bound the numbers it reads; \<open>short_numbers\<close> bounds the runs of digits.\<close>

definition short_numbers :: "bytes \<Rightarrow> bool" where
  "short_numbers xs \<longleftrightarrow> (\<forall>i. length (takeWhile is_digit (drop i xs)) < 10)"

lemma find_char_drop:
  "0 \<in> set str \<Longrightarrow> (find_char c str = Some None) \<or> (\<exists>i < length str. find_char c str = Some (Some (drop i str)))"
proof (induction str)
  case (Cons d ds)
  show ?case
  proof (cases "d = c \<or> d = 0")
    case True
    then show ?thesis by (auto intro: exI[of _ 0])
  next
    case False
    then have "0 \<in> set ds" "find_char c (d # ds) = find_char c ds" using Cons.prems by auto
    then show ?thesis using Cons.IH by (auto intro: exI[of _ "Suc _"])
  qed
qed simp

lemma find_char_pos: "find_char c str = Some (Some q) \<Longrightarrow> c \<noteq> 0 \<Longrightarrow> \<exists>i < length (takeWhile (\<lambda>b. b \<noteq> 0) str). q = drop i str"
proof (induction c str rule: find_char.induct)
  case (2 c d ds)
  then show ?case by (auto split: if_splits intro: exI[of _ 0] exI[of _ "Suc _"])
qed simp

lemma dec_val_bound: "\<forall>d \<in> set ds. is_digit d \<Longrightarrow> dec_val ds m < (m + 1) * 10 ^ length ds"
proof (induction ds arbitrary: m)
  case (Cons d ds)
  have "unat d \<le> 57" using digit_unat[of d] Cons.prems by simp
  then have "10 * m + (unat d - 48) + 1 \<le> 10 * (m + 1)" by simp
  then have "(10 * m + (unat d - 48) + 1) * 10 ^ length ds \<le> 10 * (m + 1) * 10 ^ length ds" by (rule mult_right_mono) simp
  then show ?case using Cons.IH[of "10 * m + (unat d - 48)"] Cons.prems by (simp add: algebra_simps)
qed simp

lemma digits_split:
  assumes "0 \<in> set str"
  obtains c rest where "str = takeWhile is_digit str @ c # rest" "\<not> is_digit c"
proof -
  have z: "\<not> is_digit 0" by (simp add: is_digit_def)
  have "dropWhile is_digit str \<noteq> []" using assms z by auto
  then obtain c rest where d: "dropWhile is_digit str = c # rest" by (cases "dropWhile is_digit str") auto
  then have "\<not> is_digit c" using hd_dropWhile[of is_digit str] by simp
  moreover have "str = takeWhile is_digit str @ c # rest" using takeWhile_dropWhile_id[of is_digit str] d by simp
  ultimately show thesis using that by blast
qed

lemma int_digits_some:
  assumes "0 \<in> set str" and "length (takeWhile is_digit str) < 10"
  shows "\<exists>v. int_digits str 0 = Some (int v, dropWhile is_digit str)"
proof -
  obtain c rest where c: "str = takeWhile is_digit str @ c # rest" "\<not> is_digit c" by (rule digits_split[OF assms(1)])
  have all: "\<forall>d \<in> set (takeWhile is_digit str). is_digit d" using set_takeWhileD by metis
  have "dec_val (takeWhile is_digit str) 0 < 10 ^ length (takeWhile is_digit str)" using dec_val_bound[OF all, of 0] by simp
  also have "\<dots> \<le> 10 ^ 9" using assms(2) by (intro power_increasing) auto
  finally have "dec_val (takeWhile is_digit str) 0 < 2 ^ 31" by simp
  then have "int_digits (takeWhile is_digit str @ c # rest) 0 = Some (int (dec_val (takeWhile is_digit str) 0), c # rest)"
    using int_digits_dec[OF all c(2), of 0 rest] by simp
  moreover have "dropWhile is_digit str = c # rest"
    using arg_cong[OF c(1), of "drop (length (takeWhile is_digit str))"] by (simp add: dropWhile_eq_drop)
  ultimately show ?thesis using c(1) by auto
qed

text \<open>The length of the text at a pointer; the functions above stay in it.\<close>

definition nz :: "bytes \<Rightarrow> nat" where
  "nz str = length (takeWhile (\<lambda>b. b \<noteq> 0) str)"

lemma nz_drop: "i \<le> nz str \<Longrightarrow> nz (drop i str) = nz str - i"
proof (induction str arbitrary: i)
  case (Cons c cs)
  then show ?case by (cases i) (auto simp: nz_def split: if_splits)
qed (simp add: nz_def)

lemma nz_zero: "0 \<in> set str \<Longrightarrow> nz str < length str" "i \<le> nz str \<Longrightarrow> 0 \<in> set str \<Longrightarrow> 0 \<in> set (drop i str)"
proof -
  show l: "nz str < length str" if "0 \<in> set str" for str
    using that by (induction str) (auto simp: nz_def)
  assume "i \<le> nz str" and "0 \<in> set str"
  then have "i \<le> nz str" "nz str < length str" "str ! nz str = 0"
    using l[of str] nth_length_takeWhile[of "\<lambda>b. b \<noteq> 0" str] by (auto simp: nz_def)
  then show "0 \<in> set (drop i str)"
    using nth_mem[of "nz str - i" "drop i str"] by simp
qed

lemma digits_nz: "\<exists>n \<le> nz str. dropWhile is_digit str = drop n str"
proof -
  have "length (takeWhile is_digit str) \<le> nz str"
    unfolding nz_def by (induction str) (auto simp: is_digit_def)
  then show ?thesis by (auto simp: dropWhile_eq_drop)
qed

lemma short_drop: "short_numbers xs \<Longrightarrow> short_numbers (drop i xs)"
  by (simp add: short_numbers_def)

lemma few_digits:
  assumes "length (filter is_digit xs) < 10"
  shows "short_numbers xs"
  unfolding short_numbers_def
proof
  fix i
  have "length (takeWhile is_digit ys) \<le> length (filter is_digit ys)" for ys by (induction ys) auto
  then have "length (takeWhile is_digit (drop i xs)) \<le> length (filter is_digit (drop i xs))" .
  also have "\<dots> \<le> length (filter is_digit (take i xs @ drop i xs))" unfolding filter_append by simp
  finally show "length (takeWhile is_digit (drop i xs)) < 10" using assms by simp
qed

lemma short_zeros: "short_numbers xs \<Longrightarrow> short_numbers (xs @ replicate z 0)"
proof -
  assume sn: "short_numbers xs"
  have nd: "takeWhile is_digit (replicate n (0 :: u8)) = []" for n by (cases n) (simp_all add: is_digit_def)
  have "takeWhile is_digit (drop i (xs @ replicate z 0)) = takeWhile is_digit (drop i xs)" for i
  proof (cases "\<forall>d \<in> set (drop i xs). is_digit d")
    case True
    then show ?thesis using nd by (simp add: takeWhile_eq_all_conv[THEN iffD2])
  next
    case False
    then show ?thesis by (auto simp: takeWhile_append1)
  qed
  then show ?thesis using sn by (simp add: short_numbers_def)
qed

section \<open>Clients\<close>

text \<open>The frames that were handed out between two states of the AT client.\<close>

definition new_frames :: "'w at_cb \<Rightarrow> 'w at_cb \<Rightarrow> (nat \<times> nat \<times> bytes) list" where
  "new_frames c c' = drop (length (at_log c)) (at_log c')"

text \<open>A frame in the receive buffer, which was cleared before it was read.\<close>

definition frame_mem :: "bytes \<Rightarrow> bytes" where
  "frame_mem frame = frame @ replicate (CONFIG_AT_RECVMAXLEN - length frame) 0"

text \<open>A call through a table of functions on a state, or on what is left after undefined behaviour.\<close>

definition lift_call :: "'r \<Rightarrow> ('s \<Rightarrow> ('r \<times> 's) option) \<Rightarrow> 's option \<Rightarrow> 'r \<times> 's option" where
  "lift_call d f p = (case Option.bind p f of None \<Rightarrow> (d, None) | Some (r, s) \<Rightarrow> (r, Some s))"

end
