(* ===== verification/Esp8266.thy ===== *)
theory Esp8266
  imports ModemText RingBuffer Sal
begin

text \<open>
  The sockets of the ESP8266 modem, \<^verbatim>\<open>network/tcpip/esp8266/esp8266_tcpip.c\<close>: the functions that the socket layer calls,
  on top of the AT client and one ring buffer for each socket. The control block holds the state of the AT client; the
  buffer for the responses of a socket is the memory of the client at the address of the socket.

  The handler \<open>Esp8266MsgDeal\<close> runs in the receiver task of the client, which logs the frames it hands out; the frames
  of a command are handed to the handler when the command returns. A pointer into a message is the memory
  that follows it, and an access behind that memory is \<open>None\<close>. The blocks of \<^verbatim>\<open>osal_malloc\<close>, the outcomes of the
  mutexes and the rounds that the receiver makes during a command or a sleep are lists of coming outcomes. Logging is left out.
\<close>

section \<open>State\<close>

abbreviation "CN_ESP8266_SOCKMAX \<equiv> 5 :: nat"
abbreviation "CONFIG_ESP8266_RCVCACHE \<equiv> 1024 :: nat"
abbreviation "CONFIG_ESP8266_CMDTIMEOUT \<equiv> 2000 :: u32"
abbreviation "CN_STACK_STRMAX \<equiv> 128 :: nat"
abbreviation "SOCK_STREAM \<equiv> 1 :: int"
abbreviation "SOCK_DGRAM \<equiv> 2 :: int"

text \<open>\<^verbatim>\<open>"\r\n+IPD"\<close>\<close>

definition CN_ESP8266_RCVINDEX :: bytes where
  "CN_ESP8266_RCVINDEX = [13, 10, 43, 73, 80, 68]"

text \<open>The array \<^verbatim>\<open>esp8266_rcvbuf\<close> is the buffer of the ring.\<close>

record esp8266_sock =
  es_sockfd :: int
  es_domain :: int
  es_type :: int
  es_protocol :: int
  es_isConnect :: int
  es_timeout :: u32
  es_rcvRing :: tag_ring_buffer_t

text \<open>
  \<open>ew_mallocs\<close> has the address of each block of \<^verbatim>\<open>osal_malloc\<close>, with what the socket and its array \<^verbatim>\<open>oob_resp\<close>
  hold before they are written. \<open>ew_atLock\<close> and \<open>ew_ioLock\<close> say whether the mutexes were created; the calls are those of
  a modem that was started, so both are.
\<close>

record 'w esp8266_cb =
  ew_atLock :: bool
  ew_ioLock :: bool
  ew_sendok :: bool
  ew_sendindex :: bool
  ew_socks :: "nat option list"
  ew_heap :: "nat \<Rightarrow> esp8266_sock option"
  ew_host :: "bytes option"
  ew_at :: "'w at_cb"
  ew_mallocs :: "(nat \<times> esp8266_sock \<times> bytes) option list"
  ew_locks :: "bool list"
  ew_rounds :: "nat list"

definition esp_lock :: "'w esp8266_cb \<Rightarrow> bool \<times> 'w esp8266_cb" where
  "esp_lock s = (let (ok, os) = alloc (ew_locks s) in (ok, s\<lparr>ew_locks := os\<rparr>))"

definition esp_rounds :: "'w esp8266_cb \<Rightarrow> nat \<times> 'w esp8266_cb" where
  "esp_rounds s = (case ew_rounds s of [] \<Rightarrow> (0, s) | n # ns \<Rightarrow> (n, s\<lparr>ew_rounds := ns\<rparr>))"

definition set_sock :: "nat \<Rightarrow> esp8266_sock \<Rightarrow> 'w esp8266_cb \<Rightarrow> 'w esp8266_cb" where
  "set_sock a k s = s\<lparr>ew_heap := (ew_heap s)(a \<mapsto> k)\<rparr>"

definition Esp8266SockMalloc :: "nat \<Rightarrow> 'w esp8266_cb \<Rightarrow> (int \<times> 'w esp8266_cb) option" where
  "Esp8266SockMalloc a s =
     (case esp_lock s of
        (False, s) \<Rightarrow> Some (-1, s)
      | (True, s) \<Rightarrow>
          let i = slot_loop (ew_socks s) 0 in
          if i = CN_ESP8266_SOCKMAX then Some (-1, s)
          else do {
            k \<leftarrow> ew_heap s a;
            tab \<leftarrow> put i [Some a] (ew_socks s);
            Some (int i, (set_sock a (k\<lparr>es_sockfd := int i\<rparr>) s)\<lparr>ew_socks := tab\<rparr>) })"

definition Esp8266SockFree :: "nat \<Rightarrow> 'w esp8266_cb \<Rightarrow> 'w esp8266_cb option" where
  "Esp8266SockFree fd s =
     (case esp_lock s of
        (False, s) \<Rightarrow> Some s
      | (True, s) \<Rightarrow> do { tab \<leftarrow> put fd [None] (ew_socks s); Some (s\<lparr>ew_socks := tab\<rparr>) })"

definition Esp8266SockGet :: "nat \<Rightarrow> 'w esp8266_cb \<Rightarrow> nat option option" where
  "Esp8266SockGet fd s = byte_at (ew_socks s) fd"

text \<open>The check that the calls begin with: \<open>Some None\<close> when there is no such socket. A socket that was freed is undefined.\<close>

definition esp_sock :: "int \<Rightarrow> 'w esp8266_cb \<Rightarrow> (nat \<times> esp8266_sock) option option" where
  "esp_sock fd s =
     (if fd < 0 \<or> fd \<ge> int CN_ESP8266_SOCKMAX then Some None
      else do {
        p \<leftarrow> Esp8266SockGet (nat fd) s;
        case p of None \<Rightarrow> Some None | Some a \<Rightarrow> map_option (\<lambda>k. Some (a, k)) (ew_heap s a) })"

section \<open>Received frames\<close>

text \<open>The digits of the length, an \<^verbatim>\<open>unsigned short\<close>.\<close>

fun len_digits :: "bytes \<Rightarrow> u16 \<Rightarrow> (u16 \<times> bytes) option" where
  "len_digits [] datalen = None"
| "len_digits (c # str) datalen =
     (if is_digit c then len_digits str (word_of_int (int (unat datalen) * 10 + (int (unat c) - 48)))
      else Some (datalen, c # str))"

text \<open>The two bytes of the length in memory, the low one first.\<close>

definition u16_bytes :: "u16 \<Rightarrow> bytes" where
  "u16_bytes w = [ucast w, ucast (drop_bit 8 w)]"

definition u16_of :: "bytes \<Rightarrow> u16" where
  "u16_of bs = ucast (bs ! 0) OR push_bit 8 (ucast (bs ! 1))"

definition ring_put :: "tag_ring_buffer_t \<Rightarrow> bytes \<Rightarrow> int \<Rightarrow> tag_ring_buffer_t option" where
  "ring_put r src n = do { (_, r) \<leftarrow> ring_buffer_write (Some r) (Some src) n; r }"

text \<open>What is stored for a socket: a datagram with its length in front.\<close>

definition ring_store :: "int \<Rightarrow> u16 \<Rightarrow> bytes \<Rightarrow> tag_ring_buffer_t \<Rightarrow> tag_ring_buffer_t option" where
  "ring_store type datalen str r =
     (if type = SOCK_DGRAM then do { r \<leftarrow> ring_put r (u16_bytes datalen) 2; ring_put r str (int (unat datalen)) }
      else if type = SOCK_STREAM then ring_put r str (int (unat datalen))
      else Some r)"

text \<open>The result is the pointer behind what was dealt with. A pointer more than one place behind the memory is undefined.\<close>

definition Esp8266MsgDealSingle :: "bytes \<Rightarrow> nat \<Rightarrow> 'w esp8266_cb \<Rightarrow> (bytes \<times> 'w esp8266_cb) option" where
  "Esp8266MsgDealSingle msg len s =
     (if len > length msg then None
      else if len < length CN_ESP8266_RCVINDEX then Some (drop len msg, s)
      else do {
        str \<leftarrow> find_char 44 msg;
        case str of
          None \<Rightarrow> Some (drop len msg, s)
        | Some str \<Rightarrow> do {
            (fd, str) \<leftarrow> int_digits (tl str) 0;
            if fd \<ge> int CN_ESP8266_SOCKMAX then Some (drop len msg, s)
            else do {
              p \<leftarrow> Esp8266SockGet (nat fd) s;
              case p of
                None \<Rightarrow> Some (drop len msg, s)
              | Some a \<Rightarrow> do {
                  str \<leftarrow> find_char 44 str;
                  case str of
                    None \<Rightarrow> Some (drop len msg, s)
                  | Some str \<Rightarrow> do {
                      (datalen, str) \<leftarrow> len_digits (tl str) 0;
                      let str = tl str;
                      sock \<leftarrow> ew_heap s a;
                      if int (unat datalen) > int CONFIG_ESP8266_RCVCACHE - ring_buffer_datalen (Some (es_rcvRing sock))
                      then Some (drop len msg, s)
                      else if unat datalen > length str then None
                      else do {
                        r \<leftarrow> ring_store (es_type sock) datalen str (es_rcvRing sock);
                        Some (drop (unat datalen) str, set_sock a (sock\<lparr>es_rcvRing := r\<rparr>) s) } } } } } })"

lemma len_digits_suffix: "len_digits p n = Some (v, q) \<Longrightarrow> length q \<le> length p"
  by (induction p n rule: len_digits.induct) (auto split: if_splits)

text \<open>A frame that is dealt with is consumed, at least one byte of it.\<close>

lemma deal_single_shorter:
  assumes "Esp8266MsgDealSingle msg len s = Some (rest, s')" and "0 < len"
  shows "length rest < length msg"
proof -
  have d: "length (drop len msg) < length msg" if "len \<le> length msg" using that assms(2) by simp
  have t: "length (drop n (tl q5)) < length msg"
    if "find_char 44 msg = Some (Some q1)" "int_digits (tl q1) 0 = Some (fd, q2)" "find_char 44 q2 = Some (Some q3)"
      "len_digits (tl q3) 0 = Some (l, q5)" for q1 q2 q3 q5 n l fd
    using find_char_suffix[OF that(1)] int_digits_suffix[OF that(2)] find_char_suffix[OF that(3)] len_digits_suffix[OF that(4)]
    by (cases q1; cases q3) auto
  show ?thesis
    using assms(1) d t unfolding Esp8266MsgDealSingle_def Let_def
    by (auto simp: bind_eq_Some_conv split: if_splits option.splits)
qed

text \<open>\<open>beyond\<close> is the number of bytes of memory behind the message, so what is left of the message is known from the pointer.\<close>

function msg_loop :: "nat \<Rightarrow> bytes \<Rightarrow> 'w esp8266_cb \<Rightarrow> (bytes \<times> 'w esp8266_cb) option" where
  "msg_loop beyond dataNxt s =
     (if length dataNxt > beyond
      then do {
        let (ok, s) = esp_lock s;
        (dataNxt, s) \<leftarrow> (if ok then Esp8266MsgDealSingle dataNxt (length dataNxt - beyond) s else Some (dataNxt, s));
        let dataLeft = int (length dataNxt) - int beyond;
        if 0 \<le> dataLeft \<and> dataLeft < int (length CN_ESP8266_RCVINDEX) then Some (dataNxt, s)
        else do {
          eq \<leftarrow> mem_eq dataNxt CN_ESP8266_RCVINDEX (length CN_ESP8266_RCVINDEX);
          if eq then msg_loop beyond dataNxt s else Some (dataNxt, s) } }
      else Some (dataNxt, s))"
  by pat_completeness auto

termination
proof (relation "(\<lambda>(beyond, dataNxt, s). length dataNxt) <*mlex*> measure (\<lambda>(beyond, dataNxt, s). length (ew_locks s))")
  show "wf ((\<lambda>(beyond, dataNxt, s :: 'w esp8266_cb). length dataNxt) <*mlex*> measure (\<lambda>(beyond, dataNxt, s). length (ew_locks s)))"
    by (intro wf_mlex wf_measure)
next
  show "((beyond, nxt, s2), (beyond, dataNxt, s)) \<in> (\<lambda>(beyond, dataNxt, s). length dataNxt) <*mlex*> measure (\<lambda>(beyond, dataNxt, s). length (ew_locks s))"
    if "beyond < length dataNxt" and "x = esp_lock s" and "(ok, s1) = x"
      and "(if ok then Esp8266MsgDealSingle dataNxt (length dataNxt - beyond) s1 else Some (dataNxt, s1)) = Some y" and "(nxt, s2) = y"
    for beyond dataNxt nxt ok x y and s s1 s2 :: "'w esp8266_cb"
  proof (cases ok)
    case True
    then have "length nxt < length dataNxt" using that(1,4,5) deal_single_shorter[of dataNxt _ s1 nxt s2] by simp
    then show ?thesis by (simp add: mlex_prod_def)
  next
    case False
    then have "nxt = dataNxt" "s2 = s1" using that(4,5) by auto
    moreover have "length (ew_locks s1) < length (ew_locks s)"
      using that(2,3) False by (cases "ew_locks s") (simp_all add: esp_lock_def)
    ultimately show ?thesis by (simp add: mlex_prod_def)
  qed
qed


declare msg_loop.simps [simp del]

definition Esp8266MsgDeal :: "bytes \<Rightarrow> nat \<Rightarrow> 'w esp8266_cb \<Rightarrow> (int \<times> 'w esp8266_cb) option" where
  "Esp8266MsgDeal msg len s =
     (if len > length msg then None
      else do {
        let beyond = length msg - len;
        (dataNxt, s) \<leftarrow> msg_loop beyond msg s;
        if length dataNxt > beyond
        then do {
          str \<leftarrow> text_of dataNxt;
          let s = (if strstr str [62] then s\<lparr>ew_sendindex := True\<rparr> else s);
          let s = (if strstr str (bytes_of ''SEND OK'') then s\<lparr>ew_sendok := True\<rparr> else s);
          Some (int len, s) }
        else Some (int len, s) })"

section \<open>Commands\<close>

text \<open>
  The frames of the log that are for this handler, numbered \<open>ESP8266_RCV\<close>. A frame is at the start of the receive
  buffer, which was cleared before it was read.
\<close>

abbreviation "ESP8266_RCV \<equiv> 8266 :: nat"

fun esp_frames :: "(nat \<times> nat \<times> bytes) list \<Rightarrow> 'w esp8266_cb \<Rightarrow> 'w esp8266_cb option" where
  "esp_frames [] s = Some s"
| "esp_frames ((f, args, frame) # log) s =
     (if f = ESP8266_RCV
      then do {
        (_, s) \<leftarrow> Esp8266MsgDeal (frame_mem frame) (length frame) s;
        esp_frames log s }
      else esp_frames log s)"

definition esp_client :: "'w at_cb \<Rightarrow> 'w esp8266_cb \<Rightarrow> 'w esp8266_cb option" where
  "esp_client c s = esp_frames (new_frames (ew_at s) c) (s\<lparr>ew_at := c\<rparr>)"

definition esp_command ::
  "bytes \<Rightarrow> bytes \<Rightarrow> nat option \<Rightarrow> nat \<Rightarrow> u32 \<Rightarrow> 'w esp8266_cb \<Rightarrow> (int \<times> 'w esp8266_cb) option" where
  "esp_command cmd index respbuf respbuflen timeout s = do {
     let (n, s) = esp_rounds s;
     (ret, c) \<leftarrow> at_command (Some cmd) (Some index) respbuf respbuflen timeout n (ew_at s);
     s \<leftarrow> esp_client c s;
     Some (ret, s) }"

definition esp_sleep :: "'w esp8266_cb \<Rightarrow> 'w esp8266_cb option" where
  "esp_sleep s = (let (n, s) = esp_rounds s in do { c \<leftarrow> rcv_task n (ew_at s); esp_client c s })"

definition esp8266_atcmd :: "bytes \<Rightarrow> bytes \<Rightarrow> 'w esp8266_cb \<Rightarrow> (bool \<times> 'w esp8266_cb) option" where
  "esp8266_atcmd cmd index s =
     do { (ret, s) \<leftarrow> esp_command cmd index None 0 CONFIG_ESP8266_CMDTIMEOUT s; Some (ret \<ge> 0, s) }"

definition esp8266_atcmd_response :: "bytes \<Rightarrow> bytes \<Rightarrow> nat \<Rightarrow> nat \<Rightarrow> 'w esp8266_cb \<Rightarrow> (bool \<times> 'w esp8266_cb) option" where
  "esp8266_atcmd_response cmd index buf len s =
     do { (ret, s) \<leftarrow> esp_command cmd index (Some buf) len CONFIG_ESP8266_CMDTIMEOUT s; Some (ret \<ge> 0, s) }"

section \<open>The calls of a socket\<close>

definition Esp8266Socket :: "int \<Rightarrow> int \<Rightarrow> int \<Rightarrow> 'w esp8266_cb \<Rightarrow> (int \<times> 'w esp8266_cb) option" where
  "Esp8266Socket domain type protocol s =
     (case ew_mallocs s of
        [] \<Rightarrow> Some (-1, s)
      | None # ms \<Rightarrow> Some (-1, s\<lparr>ew_mallocs := ms\<rparr>)
      | Some (a, k, oob) # ms \<Rightarrow> do {
          r \<leftarrow> snd (ring_buffer_init (Some (es_rcvRing k)) (rb_buf (es_rcvRing k)) (int CONFIG_ESP8266_RCVCACHE) 0 0);
          let s = set_sock a (k\<lparr>es_rcvRing := r, es_domain := domain, es_type := type, es_protocol := protocol\<rparr>) (s\<lparr>ew_mallocs := ms\<rparr>);
          let s = s\<lparr>ew_at := (ew_at s)\<lparr>at_mem := (at_mem (ew_at s))(a \<mapsto> oob)\<rparr>\<rparr>;
          (fd, s) \<leftarrow> Esp8266SockMalloc a s;
          Some (fd, if fd = -1 then s\<lparr>ew_heap := (ew_heap s)(a := None), ew_at := (ew_at s)\<lparr>at_mem := (at_mem (ew_at s))(a := None)\<rparr>\<rparr>
                    else s) })"

definition Esp8266Bind :: "int \<Rightarrow> bytes \<Rightarrow> 'w esp8266_cb \<Rightarrow> (int \<times> 'w esp8266_cb) option" where
  "Esp8266Bind fd addr s = Some (-1, s)"

definition Esp8266Listen :: "int \<Rightarrow> int \<Rightarrow> 'w esp8266_cb \<Rightarrow> (int \<times> 'w esp8266_cb) option" where
  "Esp8266Listen fd backlog s = Some (-1, s)"

definition Esp8266Accept :: "int \<Rightarrow> 'w esp8266_cb \<Rightarrow> (int \<times> 'w esp8266_cb) option" where
  "Esp8266Accept fd s = Some (-1, s)"

text \<open>The address is the memory of a \<^verbatim>\<open>struct sockaddr_in\<close>: family, port and address, in network order.\<close>

definition cipstart :: "nat \<Rightarrow> bytes \<Rightarrow> bytes \<Rightarrow> nat \<Rightarrow> bytes" where
  "cipstart fd kind ip port =
     bytes_of ''AT+CIPSTART='' @ dec_str fd @ [44, 34] @ kind @ [34, 44, 34] @ ip @ [34, 44] @ dec_str port @ [13, 10]"

definition Esp8266Connect :: "int \<Rightarrow> bytes option \<Rightarrow> 'w esp8266_cb \<Rightarrow> (int \<times> 'w esp8266_cb) option" where
  "Esp8266Connect fd addr s = do {
     e \<leftarrow> esp_sock fd s;
     case (e, addr) of
       (Some (a, sock), Some addr) \<Rightarrow> do {
         port \<leftarrow> fetch 2 2 addr;
         ip \<leftarrow> fetch 4 4 addr;
         buf \<leftarrow> inet_ntoa ip;
         ip \<leftarrow> c_str buf;
         let serverPort = unat (port ! 0) * 256 + unat (port ! 1);
         if es_type sock \<noteq> SOCK_DGRAM \<and> es_type sock \<noteq> SOCK_STREAM then Some (-1, s)
         else do {
           let cmd = cipstart (nat fd) (bytes_of (if es_type sock = SOCK_DGRAM then ''UDP'' else ''TCP'')) ip serverPort;
           let (ok, s) = esp_lock s;
           if ok
           then do {
             (ok, s) \<leftarrow> esp8266_atcmd (take (CN_STACK_STRMAX - 1) cmd) (bytes_of ''OK'') s;
             if ok then do { sock \<leftarrow> ew_heap s a; Some (0, set_sock a (sock\<lparr>es_isConnect := 1\<rparr>) s) } else Some (-1, s) }
           else Some (-1, s) } }
     | _ \<Rightarrow> Some (-1, s) }"

text \<open>The response to the data. A frame in it, also behind other text, is dealt with.\<close>

definition send_response :: "nat \<Rightarrow> int \<Rightarrow> int \<Rightarrow> 'w esp8266_cb \<Rightarrow> (int \<times> 'w esp8266_cb) option" where
  "send_response a ret len s =
     (if ret > 0
      then do {
        resp \<leftarrow> at_mem (ew_at s) a;
        text \<leftarrow> text_of resp;
        (case str_index text CN_ESP8266_RCVINDEX of
           Some i \<Rightarrow> do { (_, s) \<leftarrow> Esp8266MsgDeal (drop i resp) (nat ((ret - int i) mod 2 ^ 32)) s; Some (len, s) }
         | None \<Rightarrow> Some (len, s)) }
      else Some (if ew_sendok s then len else ret, s))"

definition cipsend :: "nat \<Rightarrow> nat \<Rightarrow> bytes" where
  "cipsend fd len = bytes_of ''AT+CIPSEND='' @ dec_str fd @ [44] @ dec_str len @ [13, 10]"

definition Esp8266Send :: "int \<Rightarrow> bytes option \<Rightarrow> int \<Rightarrow> 'w esp8266_cb \<Rightarrow> (int \<times> 'w esp8266_cb) option" where
  "Esp8266Send fd buf len s = do {
     e \<leftarrow> esp_sock fd s;
     case (e, buf) of
       (Some (a, sock), Some buf) \<Rightarrow>
         if len \<le> 0 then Some (-1, s)
         else do {
           oob \<leftarrow> at_mem (ew_at s) a;
           oob \<leftarrow> put 0 (replicate CONFIG_ESP8266_RCVCACHE 0) oob;
           data \<leftarrow> fetch 0 (nat len) buf;
           let s = s\<lparr>ew_at := (ew_at s)\<lparr>at_mem := (at_mem (ew_at s))(a \<mapsto> oob)\<rparr>\<rparr>;
           let (ok, s) = esp_lock s;
           (ret, s) \<leftarrow>
             (if ok
              then do {
                (ok, s) \<leftarrow> esp8266_atcmd (take 63 (cipsend (nat fd) (nat len))) [62] (s\<lparr>ew_sendindex := False\<rparr>);
                if ok \<or> ew_sendindex s
                then do {
                  (ret, s) \<leftarrow> esp_command data (bytes_of ''SEND OK'') (Some a) CONFIG_ESP8266_RCVCACHE CONFIG_ESP8266_CMDTIMEOUT
                    (s\<lparr>ew_sendok := False\<rparr>);
                  send_response a ret len s }
                else Some (-1, s) }
              else Some (-1, s));
           if ret \<le> 0
           then do { sock \<leftarrow> ew_heap s a; Some (0, set_sock a (sock\<lparr>es_isConnect := 0\<rparr>) s) }
           else Some (ret, s) }
     | _ \<Rightarrow> Some (-1, s) }"

definition Esp8266Sendto :: "int \<Rightarrow> bytes option \<Rightarrow> int \<Rightarrow> bytes option \<Rightarrow> 'w esp8266_cb \<Rightarrow> (int \<times> 'w esp8266_cb) option" where
  "Esp8266Sendto fd msg len addr s = do {
     e \<leftarrow> esp_sock fd s;
     case (e, msg) of
       (Some (a, sock), Some _) \<Rightarrow>
         if len \<le> 0 then Some (-1, s)
         else do {
           s \<leftarrow> (if es_isConnect sock = 0 then map_option snd (Esp8266Connect fd addr s) else Some s);
           Esp8266Send fd msg len s }
     | _ \<Rightarrow> Some (-1, s) }"


text \<open>One try: the number and the buffer of the caller stay as they are when the mutex is not taken or nothing has arrived.\<close>

definition ring_get :: "int \<Rightarrow> nat \<Rightarrow> bytes \<Rightarrow> tag_ring_buffer_t \<Rightarrow> (int \<times> bytes option \<times> tag_ring_buffer_t option) option" where
  "ring_get type len buf r =
     (if type = SOCK_DGRAM
      then do {
        (_, frame, r) \<leftarrow> ring_buffer_read (Some r) (Some [0, 0]) 2;
        frame \<leftarrow> frame;
        ring_buffer_read r (Some buf) (int (unat (u16_of frame))) }
      else ring_buffer_read (Some r) (Some buf) (sint (of_nat len :: u32)))"

definition recv_try :: "nat \<Rightarrow> nat \<Rightarrow> int \<Rightarrow> bytes \<Rightarrow> 'w esp8266_cb \<Rightarrow> (int \<times> bytes \<times> 'w esp8266_cb) option" where
  "recv_try a len ret buf s =
     (case esp_lock s of
        (False, s) \<Rightarrow> Some (ret, buf, s)
      | (True, s) \<Rightarrow> do {
          sock \<leftarrow> ew_heap s a;
          if ring_buffer_datalen (Some (es_rcvRing sock)) > 0 \<and> (es_type sock = SOCK_DGRAM \<or> es_type sock = SOCK_STREAM)
          then do {
            (ret, buf, r) \<leftarrow> ring_get (es_type sock) len buf (es_rcvRing sock);
            buf \<leftarrow> buf;
            r \<leftarrow> r;
            Some (ret, buf, set_sock a (sock\<lparr>es_rcvRing := r\<rparr>) s) }
          else Some (ret, buf, s) })"

fun sock_recv_loop :: "nat \<Rightarrow> nat \<Rightarrow> nat \<Rightarrow> int \<Rightarrow> bytes \<Rightarrow> 'w esp8266_cb \<Rightarrow> (int \<times> bytes \<times> 'w esp8266_cb) option" where
  "sock_recv_loop timeout a len ret buf s = do {
     (ret, buf, s) \<leftarrow> recv_try a len ret buf s;
     if ret > 0 then Some (ret, buf, s)
     else do {
       sock \<leftarrow> ew_heap s a;
       if es_isConnect sock = 0 then Some (0, buf, s)
       else do {
         s \<leftarrow> esp_sleep s;
         case timeout of 0 \<Rightarrow> Some (ret, buf, s) | Suc timeout \<Rightarrow> sock_recv_loop timeout a len ret buf s } } }"

declare sock_recv_loop.simps [simp del]

definition Esp8266Recv :: "int \<Rightarrow> bytes option \<Rightarrow> nat \<Rightarrow> 'w esp8266_cb \<Rightarrow> (int \<times> bytes option \<times> 'w esp8266_cb) option" where
  "Esp8266Recv fd buf len s = do {
     e \<leftarrow> esp_sock fd s;
     case (e, buf) of
       (Some (a, sock), Some b) \<Rightarrow>
         if len = 0 then Some (-1, buf, s)
         else do { (ret, b, s) \<leftarrow> sock_recv_loop (unat (es_timeout sock)) a len (-1) b s; Some (ret, Some b, s) }
     | _ \<Rightarrow> Some (-1, buf, s) }"

definition Esp8266RecvFrom :: "int \<Rightarrow> bytes option \<Rightarrow> nat \<Rightarrow> 'w esp8266_cb \<Rightarrow> (int \<times> bytes option \<times> 'w esp8266_cb) option" where
  "Esp8266RecvFrom fd msg len s = Esp8266Recv fd msg len s"

text \<open>The value is a \<^verbatim>\<open>struct timeval\<close>, read whatever the option is; \<open>None\<close> is \<^verbatim>\<open>NULL\<close>.\<close>

definition Esp8266SetSockOpt :: "int \<Rightarrow> (int \<times> int) option \<Rightarrow> 'w esp8266_cb \<Rightarrow> (int \<times> 'w esp8266_cb) option" where
  "Esp8266SetSockOpt fd option_value s = do {
     e \<leftarrow> esp_sock fd s;
     case e of
       None \<Rightarrow> Some (-1, s)
     | Some (a, sock) \<Rightarrow> do {
         (tv_sec, tv_usec) \<leftarrow> option_value;
         let ms = (if tv_usec < 0 then - (- tv_usec div 1000) else tv_usec div 1000);
         Some (0, set_sock a (sock\<lparr>es_timeout := word_of_int (tv_sec * 1000 + ms)\<rparr>) s) } }"

definition Esp8266GetSockOpt :: "int \<Rightarrow> 'w esp8266_cb \<Rightarrow> (int \<times> 'w esp8266_cb) option" where
  "Esp8266GetSockOpt fd s = Some (-1, s)"

definition cipclose :: "nat \<Rightarrow> bytes" where
  "cipclose fd = bytes_of ''AT+CIPCLOSE='' @ dec_str fd @ [13, 10]"

definition Esp8266Close :: "int \<Rightarrow> 'w esp8266_cb \<Rightarrow> (int \<times> 'w esp8266_cb) option" where
  "Esp8266Close fd s = do {
     e \<leftarrow> esp_sock fd s;
     case e of
       None \<Rightarrow> Some (-1, s)
     | Some (a, sock) \<Rightarrow> do {
         let (ok, s) = esp_lock s;
         s \<leftarrow> (if ok then map_option snd (esp8266_atcmd (take 63 (cipclose (nat fd))) (bytes_of ''OK'') s) else Some s);
         s \<leftarrow> Esp8266SockFree (nat fd) s;
         Some (0, s\<lparr>ew_heap := (ew_heap s)(a := None), ew_at := (ew_at s)\<lparr>at_mem := (at_mem (ew_at s))(a := None)\<rparr>\<rparr>) } }"

definition Esp8266Shutdown :: "int \<Rightarrow> int \<Rightarrow> 'w esp8266_cb \<Rightarrow> (int \<times> 'w esp8266_cb) option" where
  "Esp8266Shutdown fd how s = Some (-1, s)"

definition Esp8266GetSockName :: "int \<Rightarrow> 'w esp8266_cb \<Rightarrow> (int \<times> 'w esp8266_cb) option" where
  "Esp8266GetSockName fd s = Some (0, s)"

definition Esp8266GetPeerName :: "int \<Rightarrow> 'w esp8266_cb \<Rightarrow> (int \<times> 'w esp8266_cb) option" where
  "Esp8266GetPeerName fd s = Some (0, s)"

section \<open>Names\<close>

text \<open>The entry is static: its address, or no address. \<open>ipv4\<close> is what the array of the numbers holds before it is written.\<close>

definition host_entry :: "int list \<Rightarrow> bytes \<Rightarrow> 'w esp8266_cb \<Rightarrow> (bytes option \<times> 'w esp8266_cb) option" where
  "host_entry ipv4 str s = do {
     nums \<leftarrow> scan_dots 4 str;
     let s = s\<lparr>ew_host := None\<rparr>;
     if length nums > 0
     then let addr = map word_of_int (nums @ drop (length nums) ipv4) in Some (Some addr, s\<lparr>ew_host := Some addr\<rparr>)
     else Some (None, s) }"

abbreviation "RESP_ADDR \<equiv> 0 :: nat"

definition cipdomain :: "bytes \<Rightarrow> bytes" where
  "cipdomain name = bytes_of ''AT+CIPDOMAIN='' @ [34] @ name @ [34, 13, 10]"

text \<open>The buffer for the response is on the stack, at \<open>RESP_ADDR\<close>.\<close>

definition Esp8266GetHostByName :: "int list \<Rightarrow> bytes \<Rightarrow> 'w esp8266_cb \<Rightarrow> (bytes option \<times> 'w esp8266_cb) option" where
  "Esp8266GetHostByName ipv4 name s = do {
     let s = s\<lparr>ew_at := (ew_at s)\<lparr>at_mem := (at_mem (ew_at s))(RESP_ADDR \<mapsto> replicate CN_STACK_STRMAX 0)\<rparr>\<rparr>;
     (ok, s) \<leftarrow> esp8266_atcmd_response (take (CN_STACK_STRMAX - 1) (cipdomain name)) (bytes_of ''+CIPDOMAIN'') RESP_ADDR CN_STACK_STRMAX s;
     resp \<leftarrow> at_mem (ew_at s) RESP_ADDR;
     let s = s\<lparr>ew_at := (ew_at s)\<lparr>at_mem := (at_mem (ew_at s))(RESP_ADDR := None)\<rparr>\<rparr>;
     if \<not> ok then host_entry ipv4 name s
     else do {
       str \<leftarrow> find_char 58 resp;
       str \<leftarrow> str;
       str \<leftarrow> c_str (tl str);
       host_entry ipv4 str s } }"

section \<open>The start of the modem\<close>

text \<open>What a call stores in a buffer of \<open>len\<close> bytes, of which the caller looks at those that were received.\<close>

definition recv_bytes :: "int \<Rightarrow> nat \<Rightarrow> 'w esp8266_cb \<Rightarrow> ((int \<times> bytes) \<times> 'w esp8266_cb) option" where
  "recv_bytes fd len s = do {
     (ret, buf, s) \<leftarrow> Esp8266Recv fd (Some (replicate len 0)) len s;
     buf \<leftarrow> buf;
     Some ((ret, take (nat ret) buf), s) }"

text \<open>\<open>timeval\<close> reads the members of a \<^verbatim>\<open>struct timeval\<close> in memory.\<close>

definition s_tcpip_socket_ops :: "(bytes \<Rightarrow> int \<times> int) \<Rightarrow> int list \<Rightarrow> 'w esp8266_cb option tag_tcpip_ops" where
  "s_tcpip_socket_ops timeval ipv4 = \<lparr>
     op_socket = Some (\<lambda>domain type protocol. lift_call 0 (Esp8266Socket domain type protocol)),
     op_bind = Some (\<lambda>fd addr. lift_call 0 (Esp8266Bind fd addr)),
     op_listen = Some (\<lambda>fd backlog. lift_call 0 (Esp8266Listen fd backlog)),
     op_accept = Some (\<lambda>fd. lift_call (0, []) (\<lambda>s. map_option (\<lambda>(r, s). ((r, []), s)) (Esp8266Accept fd s))),
     op_connect = Some (\<lambda>fd addr. lift_call 0 (Esp8266Connect fd (Some addr))),
     op_getsockname = Some (\<lambda>fd. lift_call (0, []) (\<lambda>s. map_option (\<lambda>(r, s). ((r, []), s)) (Esp8266GetSockName fd s))),
     op_getpeername = Some (\<lambda>fd. lift_call (0, []) (\<lambda>s. map_option (\<lambda>(r, s). ((r, []), s)) (Esp8266GetPeerName fd s))),
     op_setsockopt = Some (\<lambda>fd level option val. lift_call 0 (Esp8266SetSockOpt fd (Some (timeval val)))),
     op_getsockopt = Some (\<lambda>fd level option. lift_call (0, []) (\<lambda>s. map_option (\<lambda>(r, s). ((r, []), s)) (Esp8266GetSockOpt fd s))),
     op_send = Some (\<lambda>fd buf flags. lift_call 0 (Esp8266Send fd (Some buf) (int (length buf)))),
     op_sendto = Some (\<lambda>fd buf flags addr. lift_call 0 (Esp8266Sendto fd (Some buf) (int (length buf)) (Some addr))),
     op_recv = Some (\<lambda>fd len flags. lift_call (0, []) (recv_bytes fd len)),
     op_recvfrom = Some (\<lambda>fd len flags. lift_call (0, [], []) (\<lambda>s. map_option (\<lambda>((r, b), s). ((r, b, []), s)) (recv_bytes fd len s))),
     op_shutdown = Some (\<lambda>fd how. lift_call 0 (Esp8266Shutdown fd how)),
     op_closesocket = Some (\<lambda>fd. lift_call 0 (Esp8266Close fd)),
     op_gethostbyname = Some (\<lambda>name. lift_call None (Esp8266GetHostByName ipv4 name)),
     op_select = None\<rparr>"

datatype enum_net_mode = STA | AP | STA_AP

definition net_mode :: "enum_net_mode \<Rightarrow> nat" where
  "net_mode m = (case m of STA \<Rightarrow> 1 | AP \<Rightarrow> 2 | STA_AP \<Rightarrow> 3)"

definition esp8266_reset :: "'w esp8266_cb \<Rightarrow> (bool \<times> 'w esp8266_cb) option" where
  "esp8266_reset s = esp8266_atcmd (bytes_of ''AT+RST'' @ [13, 10]) (bytes_of ''ready'') s"

definition esp8266_echo_off :: "'w esp8266_cb \<Rightarrow> (bool \<times> 'w esp8266_cb) option" where
  "esp8266_echo_off s = esp8266_atcmd (bytes_of ''ATE0'' @ [13, 10]) (bytes_of ''OK'') s"

definition esp8266_show_dinfo :: "nat \<Rightarrow> 'w esp8266_cb \<Rightarrow> (bool \<times> 'w esp8266_cb) option" where
  "esp8266_show_dinfo flag s = esp8266_atcmd (take 63 (bytes_of ''AT+CIPDINFO='' @ dec_str flag @ [13, 10])) (bytes_of ''OK'') s"

definition esp8266_set_mode :: "enum_net_mode \<Rightarrow> 'w esp8266_cb \<Rightarrow> (bool \<times> 'w esp8266_cb) option" where
  "esp8266_set_mode mode s =
     esp8266_atcmd (take 63 (bytes_of ''AT+CWMODE_CUR='' @ dec_str (net_mode mode) @ [13, 10])) (bytes_of ''OK'') s"

definition esp8266_joinap :: "bytes \<Rightarrow> bytes \<Rightarrow> 'w esp8266_cb \<Rightarrow> (bool \<times> 'w esp8266_cb) option" where
  "esp8266_joinap ssid passwd s = do {
     let cmd = bytes_of ''AT+CWJAP_CUR='' @ [34] @ ssid @ [34, 44, 34] @ passwd @ [34, 13, 10];
     (ret, s) \<leftarrow> esp_command (take (CN_STACK_STRMAX - 1) cmd) (bytes_of ''OK'') None 0 (CONFIG_ESP8266_CMDTIMEOUT * 5) s;
     Some (ret \<ge> 0, s) }"

definition esp8266_set_mux :: "nat \<Rightarrow> 'w esp8266_cb \<Rightarrow> (bool \<times> 'w esp8266_cb) option" where
  "esp8266_set_mux mux s = esp8266_atcmd (take 63 (bytes_of ''AT+CIPMUX='' @ dec_str mux @ [13, 10])) (bytes_of ''OK'') s"

text \<open>One round of the loop that joins the access point, and the loop with the number of its rounds bounded: \<open>False\<close> when
  the bound is reached before the modem has joined.\<close>

definition esp_join_round :: "bytes \<Rightarrow> bytes \<Rightarrow> 'w esp8266_cb \<Rightarrow> (bool \<times> 'w esp8266_cb) option" where
  "esp_join_round ssid passwd s = do {
     s \<leftarrow> esp_sleep s;
     (_, s) \<leftarrow> esp8266_reset s;
     (_, s) \<leftarrow> esp8266_echo_off s;
     (_, s) \<leftarrow> esp8266_show_dinfo 0 s;
     (_, s) \<leftarrow> esp8266_set_mode STA s;
     (_, s) \<leftarrow> esp8266_set_mux 1 s;
     esp8266_joinap ssid passwd s }"

fun esp_join :: "nat \<Rightarrow> bytes \<Rightarrow> bytes \<Rightarrow> 'w esp8266_cb \<Rightarrow> (bool \<times> 'w esp8266_cb) option" where
  "esp_join 0 ssid passwd s = Some (False, s)"
| "esp_join (Suc n) ssid passwd s = do {
     (ok, s) \<leftarrow> esp_join_round ssid passwd s;
     if ok then Some (True, s) else esp_join n ssid passwd s }"

text \<open>The modem is the state of the stack. The outcomes of the creations of the mutexes are arguments; the result is
  \<open>None\<close> when the access point was not joined in \<open>fuel\<close> rounds.\<close>

definition link_tcpip_imp_init ::
  "nat \<Rightarrow> bool \<Rightarrow> bool \<Rightarrow> bytes \<Rightarrow> bytes \<Rightarrow> (bytes \<Rightarrow> int \<times> int) \<Rightarrow> int list \<Rightarrow> 'w esp8266_cb option tag_sal_cb
     \<Rightarrow> (int \<times> 'w esp8266_cb option tag_sal_cb) option" where
  "link_tcpip_imp_init fuel at_ok io_ok ssid passwd timeval ipv4 sal =
     (case sl_port sal of
        None \<Rightarrow> Some (-1, sal)
      | Some s \<Rightarrow>
          if \<not> at_ok then Some (-1, sal\<lparr>sl_port := Some (s\<lparr>ew_atLock := False\<rparr>)\<rparr>)
          else if \<not> io_ok then Some (-1, sal\<lparr>sl_port := Some (s\<lparr>ew_atLock := False, ew_ioLock := False\<rparr>)\<rparr>)
          else
            let (_, c) = at_oobregister (Some ''esp8266rcv'') (Some CN_ESP8266_RCVINDEX) (length CN_ESP8266_RCVINDEX) (Some ESP8266_RCV) 0 (ew_at s) in
            (case esp_join fuel ssid passwd (s\<lparr>ew_atLock := True, ew_ioLock := True, ew_at := c\<rparr>) of
               None \<Rightarrow> Some (-1, sal\<lparr>sl_port := None\<rparr>)
             | Some (False, s) \<Rightarrow> None
             | Some (True, s) \<Rightarrow>
                 let s = s\<lparr>ew_at := snd (at_debugclose (ew_at s))\<rparr>;
                     (ret, sal) = link_sal_install (Some (s_tcpip_socket_ops timeval ipv4)) (sal\<lparr>sl_port := Some s\<rparr>)
                 in Some (if ret \<noteq> 0 then (-1, sal\<lparr>sl_port := Some (s\<lparr>ew_atLock := False, ew_ioLock := False\<rparr>)\<rparr>) else (0, sal))))"

end
