(* ===== verification/Esp8266Facts.thy ===== *)
theory Esp8266Facts
  imports Esp8266
begin

text \<open>
  What the sockets of the ESP8266 promise: the well-formedness of the table and of the rings, the delivery of the frames
  that the modem sends to the sockets they name, and what a caller receives of them.
\<close>

section \<open>The sockets\<close>

definition sock_ok :: "esp8266_sock \<Rightarrow> bool" where
  "sock_ok k \<longleftrightarrow> ring_ok (es_rcvRing k) \<and> rb_buflen (es_rcvRing k) = int CONFIG_ESP8266_RCVCACHE"

text \<open>Every socket of the table has a block of its own, whose ring is well-formed.\<close>

definition esp_ok :: "'w esp8266_cb \<Rightarrow> bool" where
  "esp_ok s \<longleftrightarrow> length (ew_socks s) = CN_ESP8266_SOCKMAX \<and>
     (\<forall>i < CN_ESP8266_SOCKMAX. \<forall>a. ew_socks s ! i = Some a \<longrightarrow> (\<exists>k. ew_heap s a = Some k \<and> sock_ok k)) \<and>
     (\<forall>i < CN_ESP8266_SOCKMAX. \<forall>j < CN_ESP8266_SOCKMAX. \<forall>a. ew_socks s ! i = Some a \<longrightarrow> ew_socks s ! j = Some a \<longrightarrow> i = j)"

lemma esp_ok_flags [simp]: "esp_ok (s\<lparr>ew_sendindex := b\<rparr>) = esp_ok s" "esp_ok (s\<lparr>ew_sendok := b\<rparr>) = esp_ok s"
  by (simp_all add: esp_ok_def)

text \<open>The socket with a number.\<close>

definition esp_look :: "nat \<Rightarrow> 'w esp8266_cb \<Rightarrow> esp8266_sock option" where
  "esp_look fd s = (if fd < CN_ESP8266_SOCKMAX then Option.bind (ew_socks s ! fd) (ew_heap s) else None)"

lemma lookD:
  assumes "esp_look fd s = Some k"
  obtains a where "fd < CN_ESP8266_SOCKMAX" "ew_socks s ! fd = Some a" "ew_heap s a = Some k"
  using assms by (auto simp: esp_look_def bind_eq_Some_conv split: if_splits)

lemma esp_sock_look:
  assumes "esp_ok s" and "ew_socks s ! fd = Some a" and "ew_heap s a = Some k" and "fd < CN_ESP8266_SOCKMAX"
  shows "esp_sock (int fd) s = Some (Some (a, k))"
  using assms by (simp add: esp_sock_def Esp8266SockGet_def byte_at_def esp_ok_def)

text \<open>A new ring for one socket: what the others have does not change.\<close>

lemma set_ring:
  assumes "esp_ok s" and "fd < CN_ESP8266_SOCKMAX" and "ew_socks s ! fd = Some a" and "ew_heap s a = Some k" and "sock_ok k'"
  shows "esp_ok (set_sock a k' s)" "esp_look fd (set_sock a k' s) = Some k'"
    "f \<noteq> fd \<Longrightarrow> esp_look f (set_sock a k' s) = esp_look f s"
proof -
  show "esp_ok (set_sock a k' s)" using assms unfolding esp_ok_def set_sock_def by (simp; metis)
  show "esp_look fd (set_sock a k' s) = Some k'" using assms(2,3) by (simp add: esp_look_def set_sock_def)
  assume f: "f \<noteq> fd"
  show "esp_look f (set_sock a k' s) = esp_look f s"
  proof (cases "f < CN_ESP8266_SOCKMAX")
    case True
    then have "ew_socks s ! f \<noteq> Some a" using assms(1,2,3) f unfolding esp_ok_def by metis
    then show ?thesis by (cases "ew_socks s ! f") (auto simp: esp_look_def set_sock_def)
  next
    case False
    then show ?thesis by (simp add: esp_look_def)
  qed
qed

lemma look_ok: "esp_ok s \<Longrightarrow> esp_look fd s = Some k \<Longrightarrow> sock_ok k"
  by (elim lookD) (auto simp: esp_ok_def)

section \<open>The rings\<close>

text \<open>A write of the first \<open>n\<close> bytes of a text, as much as fits.\<close>

lemma ring_put_law:
  assumes "ring_ok r" and "n \<le> length src"
  shows "\<exists>r'. ring_put r src (int n) = Some r' \<and> ring_ok r' \<and> rb_buflen r' = rb_buflen r \<and>
    ring_contents r' = ring_contents r @ take (min n (ring_space r)) src"
proof (cases "n = 0")
  case True
  then show ?thesis using assms by (simp add: ring_put_def ring_buffer_write_def)
next
  case False
  obtain B D F where r: "r = mk_ring B D F" "D \<le> length B" "F < length B" "length B \<le> 2 ^ 30"
    using assms(1) by (auto simp: ring_ok_mk_ring)
  define k where "k = min n (length B - D)"
  obtain B' where B': "ring_write (mk_ring B D F) src (int n) = Some (int k, mk_ring B' (D + k) F)" "length B' = length B"
      "ring_contents (mk_ring B' (D + k) F) = ring_contents (mk_ring B D F) @ take k src"
    using ring_write_law[OF r(2-4) assms(2) _ k_def] False by auto
  have "ring_ok (mk_ring B' (D + k) F)" using r(2-4) B'(2) by (intro ring_okI) (auto simp: k_def)
  moreover have "ring_put r src (int n) = Some (mk_ring B' (D + k) F)"
    using False B'(1) r(1) by (simp add: ring_put_def ring_buffer_write_def)
  moreover have "k = min n (ring_space r)" using r by (simp add: k_def ring_space_def)
  ultimately show ?thesis using B'(2,3) r(1) by auto
qed

text \<open>What a socket stores of a payload.\<close>

definition stored :: "int \<Rightarrow> bytes \<Rightarrow> bytes" where
  "stored type p = (if type = SOCK_DGRAM then u16_bytes (of_nat (length p)) @ p else if type = SOCK_STREAM then p else [])"

lemma stored_stream: "stored SOCK_STREAM = (\<lambda>p. p)"
  by (rule ext) (simp add: stored_def)

lemma ring_space_contents: "ring_ok r \<Longrightarrow> ring_space r = nat (rb_buflen r) - length (ring_contents r)"
  by (auto simp: ring_ok_mk_ring ring_space_def length_contents)

lemma datalen_contents: "ring_ok r \<Longrightarrow> ring_buffer_datalen (Some r) = int (length (ring_contents r))"
  by (auto simp: ring_ok_mk_ring ring_buffer_datalen_def length_contents)

lemma ring_store_law:
  assumes "ring_ok r" and "unat n \<le> length str"
  shows "\<exists>r'. ring_store type n str r = Some r' \<and> ring_ok r' \<and> rb_buflen r' = rb_buflen r \<and>
    ring_contents r' = ring_contents r @ take (ring_space r) (stored type (take (unat n) str))"
proof -
  have u: "u16_bytes (of_nat (length (take (unat n) str))) = u16_bytes n" using assms(2) by (simp add: min_absorb2)
  consider "type = SOCK_DGRAM" | "type = SOCK_STREAM" | "type \<noteq> SOCK_DGRAM" "type \<noteq> SOCK_STREAM" by blast
  then show ?thesis
  proof cases
    case 1
    have "2 \<le> length (u16_bytes n)" by (simp add: u16_bytes_def)
    from ring_put_law[OF assms(1) this] obtain r1 where r1: "ring_put r (u16_bytes n) 2 = Some r1" "ring_ok r1"
      "rb_buflen r1 = rb_buflen r" "ring_contents r1 = ring_contents r @ take (min 2 (ring_space r)) (u16_bytes n)"
      by auto
    obtain r2 where r2: "ring_put r1 str (int (unat n)) = Some r2" "ring_ok r2" "rb_buflen r2 = rb_buflen r1"
      "ring_contents r2 = ring_contents r1 @ take (min (unat n) (ring_space r1)) str"
      using ring_put_law[OF r1(2) assms(2)] by auto
    have "length (ring_contents r1) = length (ring_contents r) + min 2 (ring_space r)"
      by (simp add: r1(4) u16_bytes_def min_def)
    then have sp: "ring_space r1 = ring_space r - 2"
      using ring_space_contents[OF assms(1)] ring_space_contents[OF r1(2)] r1(3) by arith
    have "take (min 2 (ring_space r)) (u16_bytes n) @ take (min (unat n) (ring_space r1)) str =
        take (ring_space r) (stored type (take (unat n) str))"
      using 1 assms(2) by (simp add: stored_def u sp u16_bytes_def min_def take_Cons' flip: numeral_2_eq_2)
    then show ?thesis using 1 r1 r2 by (simp add: ring_store_def)
  next
    case 2
    then show ?thesis using ring_put_law[OF assms] by (auto simp: ring_store_def stored_def min.commute)
  next
    case 3
    then show ?thesis using assms(1) by (simp add: ring_store_def stored_def)
  qed
qed


section \<open>The frames of the modem\<close>

text \<open>A frame as the modem writes it: the index, the number of the socket, the number of bytes and the bytes.\<close>

definition ipd :: "nat \<times> bytes \<Rightarrow> bytes" where
  "ipd f = CN_ESP8266_RCVINDEX @ [44] @ dec_str (fst f) @ [44] @ dec_str (length (snd f)) @ [58] @ snd f"

lemma len_digits_dec:
  "\<forall>d \<in> set ds. is_digit d \<Longrightarrow> \<not> is_digit c \<Longrightarrow>
     len_digits (ds @ c # rest) (of_nat m) = Some (of_nat (dec_val ds m), c # rest)"
proof (induction ds arbitrary: m)
  case (Cons d ds)
  have u: "48 \<le> unat d" using digit_unat[of d] Cons.prems(1) by simp
  have "(word_of_int (int (unat (of_nat m :: u16)) * 10 + (int (unat d) - 48)) :: u16) =
      of_nat m * 10 + word_of_int (int (unat d - 48))"
    using u by (simp add: of_nat_diff)
  also have "\<dots> = of_nat (10 * m + (unat d - 48))" by simp
  finally have "len_digits ((d # ds) @ c # rest) (of_nat m) = len_digits (ds @ c # rest) (of_nat (10 * m + (unat d - 48)))"
    using Cons.prems(1) by (simp del: of_nat_unat of_nat_add of_nat_mult)
  then show ?case using Cons.IH[of "10 * m + (unat d - 48)"] Cons.prems by simp
qed simp


lemma dec_length5: "n < 100000 \<Longrightarrow> length (dec_str n) \<le> 5"
  by (simp add: dec_str.simps[of n] dec_str.simps[of "n div 10"] dec_str.simps[of "n div 10 div 10"]
    dec_str.simps[of "n div 10 div 10 div 10"] dec_str.simps[of "n div 10 div 10 div 10 div 10"])

text \<open>The header of a frame is read to the socket, the length and the payload.\<close>

lemma ipd_find: "find_char 44 (ipd (fd, p) @ rest) = Some (Some (44 # dec_str fd @ 44 # dec_str (length p) @ 58 # p @ rest))"
  using find_char_here[of 44 CN_ESP8266_RCVINDEX] by (simp add: ipd_def CN_ESP8266_RCVINDEX_def)

lemma dec_fd: "fd < 2 ^ 31 \<Longrightarrow> int_digits (dec_str fd @ 44 # rest) 0 = Some (int fd, 44 # rest)"
  using int_digits_dec[of "dec_str fd" 44 0 rest] dec_digits[of fd] by (simp add: dec_val_str is_digit_def)

lemma dec_len: "len_digits (dec_str n @ 58 # rest) 0 = Some (of_nat n, 58 # rest)"
  using len_digits_dec[of "dec_str n" 58 rest 0] dec_digits[of n] by (simp add: dec_val_str is_digit_def)

lemma ipd_length: "length CN_ESP8266_RCVINDEX = 6" "6 \<le> length (ipd f)"
  by (simp_all add: ipd_def CN_ESP8266_RCVINDEX_def)

lemma deal_head:
  assumes "esp_ok s" and "fd < CN_ESP8266_SOCKMAX" and "ew_socks s ! fd = Some a" and "ew_heap s a = Some k"
    and "length p < 65536" and "6 \<le> len" and "len \<le> length (ipd (fd, p) @ rest)"
  shows "Esp8266MsgDealSingle (ipd (fd, p) @ rest) len s =
    (if int (length p) > int CONFIG_ESP8266_RCVCACHE - rb_datalen (es_rcvRing k)
     then Some (drop len (ipd (fd, p) @ rest), s)
     else do { r \<leftarrow> ring_store (es_type k) (of_nat (length p)) (p @ rest) (es_rcvRing k);
               Some (rest, set_sock a (k\<lparr>es_rcvRing := r\<rparr>) s) })"
proof -
  have u: "unat (of_nat (length p) :: u16) = length p" using assms(5) by (simp add: unat_of_nat)
  have g: "Esp8266SockGet fd s = Some (Some a)"
    using assms(1-3) by (simp add: Esp8266SockGet_def byte_at_def esp_ok_def)
  show ?thesis
    using assms(2,4,6,7) g
    by (simp add: Esp8266MsgDealSingle_def ipd_length(1) ipd_find dec_fd dec_len u ring_buffer_datalen_def Let_def
        del: of_nat_unat)
qed

text \<open>A frame that is no longer than the free space is stored, a datagram as much of it as fits behind its length.\<close>

lemma deal_ipd:
  assumes "esp_ok s" and "esp_look fd s = Some k"
    and "length (ring_contents (es_rcvRing k)) + length p \<le> CONFIG_ESP8266_RCVCACHE"
    and "6 \<le> len" and "len \<le> length (ipd (fd, p) @ rest)"
  obtains r s' where "Esp8266MsgDealSingle (ipd (fd, p) @ rest) len s = Some (rest, s')"
    "esp_ok s'" "s' = s\<lparr>ew_heap := ew_heap s'\<rparr>" "esp_look fd s' = Some (k\<lparr>es_rcvRing := r\<rparr>)"
    "\<And>f. f \<noteq> fd \<Longrightarrow> esp_look f s' = esp_look f s" "ring_contents r = ring_contents (es_rcvRing k) @
      take (CONFIG_ESP8266_RCVCACHE - length (ring_contents (es_rcvRing k))) (stored (es_type k) p)"
proof -
  obtain a where a: "fd < CN_ESP8266_SOCKMAX" "ew_socks s ! fd = Some a" "ew_heap s a = Some k" by (rule lookD[OF assms(2)])
  have k: "ring_ok (es_rcvRing k)" "rb_buflen (es_rcvRing k) = int CONFIG_ESP8266_RCVCACHE"
    using look_ok[OF assms(1,2)] by (simp_all add: sock_ok_def)
  have dl: "rb_datalen (es_rcvRing k) = int (length (ring_contents (es_rcvRing k)))"
    using k(1) by (auto simp: ring_ok_mk_ring length_contents)
  have u: "unat (of_nat (length p) :: u16) = length p" using assms(3) by (simp add: unat_of_nat)
  have le: "unat (of_nat (length p) :: u16) \<le> length (p @ rest)" using u by simp
  obtain r where r: "ring_store (es_type k) (of_nat (length p)) (p @ rest) (es_rcvRing k) = Some r" "ring_ok r"
    "rb_buflen r = int CONFIG_ESP8266_RCVCACHE" "ring_contents r = ring_contents (es_rcvRing k) @
      take (CONFIG_ESP8266_RCVCACHE - length (ring_contents (es_rcvRing k))) (stored (es_type k) p)"
    using ring_store_law[OF k(1) le, of "es_type k"] ring_space_contents[OF k(1)] k(2) u by auto
  have "sock_ok (k\<lparr>es_rcvRing := r\<rparr>)" using r(2,3) by (simp add: sock_ok_def)
  note st = set_ring[OF assms(1) a this]
  have "Esp8266MsgDealSingle (ipd (fd, p) @ rest) len s = Some (rest, set_sock a (k\<lparr>es_rcvRing := r\<rparr>) s)"
    using deal_head[OF assms(1) a _ assms(4,5)] assms(3) dl r(1) by simp
  then show thesis by (rule that) (use st r(4) in \<open>simp_all add: set_sock_def\<close>)
qed


section \<open>Delivery\<close>

text \<open>What a sequence of frames has for a socket, and what the socket stores of it.\<close>

definition payloads :: "nat \<Rightarrow> (nat \<times> bytes) list \<Rightarrow> bytes list" where
  "payloads fd fs = map snd (filter (\<lambda>f. fst f = fd) fs)"

definition sock_gets :: "nat \<Rightarrow> (nat \<times> bytes) list \<Rightarrow> esp8266_sock \<Rightarrow> bytes" where
  "sock_gets fd fs k = concat (map (stored (es_type k)) (payloads fd fs))"

text \<open>Every frame names an open socket, and all that a socket gets fits in its ring.\<close>

definition esp_fits :: "(nat \<times> bytes) list \<Rightarrow> 'w esp8266_cb \<Rightarrow> bool" where
  "esp_fits fs s \<longleftrightarrow>
     (\<forall>f \<in> set fs. \<exists>k. esp_look (fst f) s = Some k \<and> (es_type k = SOCK_DGRAM \<or> es_type k = SOCK_STREAM)) \<and>
     (\<forall>fd k. esp_look fd s = Some k \<longrightarrow> length (ring_contents (es_rcvRing k) @ sock_gets fd fs k) \<le> CONFIG_ESP8266_RCVCACHE)"

text \<open>The effect of the delivery: each ring has what its socket got behind what it had, nothing else changes.\<close>

definition esp_received :: "(nat \<times> bytes) list \<Rightarrow> 'w esp8266_cb \<Rightarrow> 'w esp8266_cb \<Rightarrow> bool" where
  "esp_received fs s s' \<longleftrightarrow> esp_ok s' \<and> s' = s\<lparr>ew_heap := ew_heap s'\<rparr> \<and>
     (\<forall>fd. case esp_look fd s of
        None \<Rightarrow> esp_look fd s' = None
      | Some k \<Rightarrow> \<exists>r. esp_look fd s' = Some (k\<lparr>es_rcvRing := r\<rparr>) \<and>
          ring_contents r = ring_contents (es_rcvRing k) @ sock_gets fd fs k)"

lemma received_case:
  "esp_received fs s s' \<Longrightarrow> case esp_look fd s of
     None \<Rightarrow> esp_look fd s' = None
   | Some k \<Rightarrow> \<exists>r. esp_look fd s' = Some (k\<lparr>es_rcvRing := r\<rparr>) \<and>
       ring_contents r = ring_contents (es_rcvRing k) @ sock_gets fd fs k"
  unfolding esp_received_def by blast

lemma received_look:
  "esp_received fs s s' \<Longrightarrow> esp_look fd s = Some k \<Longrightarrow> \<exists>r. esp_look fd s' = Some (k\<lparr>es_rcvRing := r\<rparr>) \<and>
     ring_contents r = ring_contents (es_rcvRing k) @ sock_gets fd fs k"
  using received_case[of fs s s' fd] by simp

lemma received_none: "esp_received fs s s' \<Longrightarrow> esp_look fd s = None \<Longrightarrow> esp_look fd s' = None"
  using received_case[of fs s s' fd] by simp

lemma same_ring [simp]: "k\<lparr>es_rcvRing := es_rcvRing k\<rparr> = k"
  by (rule esp8266_sock.equality) simp_all

lemma same_ring_ex: "\<exists>r. k = k\<lparr>es_rcvRing := r\<rparr> \<and> ring_contents r = ring_contents (es_rcvRing k)"
  by (rule exI[of _ "es_rcvRing k"]) simp

lemma received_nil [simp]: "esp_ok s \<Longrightarrow> esp_received [] s s"
  by (auto simp: esp_received_def sock_gets_def payloads_def intro!: exI[of _ "es_rcvRing _"] split: option.splits)

lemma received_state: "esp_received fs s s' \<Longrightarrow> s' = s\<lparr>ew_heap := ew_heap s'\<rparr>"
  by (simp add: esp_received_def)

lemma received_ok: "esp_received fs s s' \<Longrightarrow> esp_ok s'"
  by (simp add: esp_received_def)

lemma fits_named:
  "esp_fits fs s \<Longrightarrow> f \<in> set fs \<Longrightarrow> \<exists>k. esp_look (fst f) s = Some k \<and> (es_type k = SOCK_DGRAM \<or> es_type k = SOCK_STREAM)"
  by (simp add: esp_fits_def)

lemma fits_room:
  "esp_fits fs s \<Longrightarrow> esp_look fd s = Some k \<Longrightarrow>
     length (ring_contents (es_rcvRing k)) + length (sock_gets fd fs k) \<le> CONFIG_ESP8266_RCVCACHE"
  by (simp add: esp_fits_def)

lemma sock_gets_append: "sock_gets fd (fs @ gs) k = sock_gets fd fs k @ sock_gets fd gs k"
  by (simp add: sock_gets_def payloads_def)

lemma sock_gets_ring [simp]: "sock_gets fd fs (k\<lparr>es_rcvRing := r\<rparr>) = sock_gets fd fs k"
  by (simp add: sock_gets_def)

lemma received_append:
  assumes "esp_received fs s s1" and "esp_received gs s1 s2"
  shows "esp_received (fs @ gs) s s2"
  unfolding esp_received_def
proof (intro conjI allI)
  have h: "s1 = s\<lparr>ew_heap := ew_heap s1\<rparr>" "s2 = s1\<lparr>ew_heap := ew_heap s2\<rparr>" using assms unfolding esp_received_def by blast+
  show "s2 = s\<lparr>ew_heap := ew_heap s2\<rparr>" by (subst h(2), subst h(1)) simp
  show "esp_ok s2" using assms(2) by (simp add: esp_received_def)
  fix fd
  show "case esp_look fd s of None \<Rightarrow> esp_look fd s2 = None
      | Some k \<Rightarrow> \<exists>r. esp_look fd s2 = Some (k\<lparr>es_rcvRing := r\<rparr>) \<and>
          ring_contents r = ring_contents (es_rcvRing k) @ sock_gets fd (fs @ gs) k"
  proof (cases "esp_look fd s")
    case None
    then show ?thesis using received_none[OF assms(2) received_none[OF assms(1) None]] by simp
  next
    case (Some k)
    obtain r where r: "esp_look fd s1 = Some (k\<lparr>es_rcvRing := r\<rparr>)"
      "ring_contents r = ring_contents (es_rcvRing k) @ sock_gets fd fs k"
      using received_look[OF assms(1) Some] by blast
    show ?thesis using received_look[OF assms(2) r(1)] r(2) Some by (simp add: sock_gets_append)
  qed
qed

lemma fits_append:
  assumes "esp_fits (fs @ gs) s" and "esp_received fs s s1"
  shows "esp_fits gs s1"
  unfolding esp_fits_def
proof (intro conjI ballI allI impI)
  fix f assume "f \<in> set gs"
  then obtain k where k: "esp_look (fst f) s = Some k" "es_type k = SOCK_DGRAM \<or> es_type k = SOCK_STREAM"
    using fits_named[OF assms(1), of f] by auto
  show "\<exists>k. esp_look (fst f) s1 = Some k \<and> (es_type k = SOCK_DGRAM \<or> es_type k = SOCK_STREAM)"
    using received_look[OF assms(2) k(1)] k(2) by auto
next
  fix fd k1 assume k1: "esp_look fd s1 = Some k1"
  then obtain k where k: "esp_look fd s = Some k" using received_none[OF assms(2)] by (cases "esp_look fd s") auto
  have "length (ring_contents (es_rcvRing k) @ sock_gets fd (fs @ gs) k) \<le> CONFIG_ESP8266_RCVCACHE"
    using assms(1) k by (auto simp: esp_fits_def)
  then show "length (ring_contents (es_rcvRing k1) @ sock_gets fd gs k1) \<le> CONFIG_ESP8266_RCVCACHE"
    using received_look[OF assms(2) k] k1 by (auto simp: sock_gets_append)
qed

lemma fits_prefix:
  assumes "esp_fits (fs @ gs) s"
  shows "esp_fits fs s"
  unfolding esp_fits_def
proof (intro conjI ballI allI impI)
  show "\<exists>k. esp_look (fst f) s = Some k \<and> (es_type k = SOCK_DGRAM \<or> es_type k = SOCK_STREAM)" if "f \<in> set fs" for f
    using fits_named[OF assms] that by simp
  show "length (ring_contents (es_rcvRing k) @ sock_gets fd fs k) \<le> CONFIG_ESP8266_RCVCACHE" if "esp_look fd s = Some k" for fd k
    using fits_room[OF assms that] by (simp add: sock_gets_append)
qed

text \<open>One frame.\<close>

lemma deal_one:
  assumes "esp_ok s" and "esp_fits [f] s" and "6 \<le> len" and "len \<le> length (ipd f @ rest)"
  obtains s' where "Esp8266MsgDealSingle (ipd f @ rest) len s = Some (rest, s')" "esp_received [f] s s'"
proof -
  obtain fd p where f: "f = (fd, p)" by (cases f)
  obtain k where k: "esp_look fd s = Some k" "es_type k = SOCK_DGRAM \<or> es_type k = SOCK_STREAM"
    using fits_named[OF assms(2), of f] by (auto simp: f)
  have g: "sock_gets fd [f] k = stored (es_type k) p" by (simp add: sock_gets_def payloads_def f)
  have n: "length (ring_contents (es_rcvRing k)) + length (stored (es_type k) p) \<le> CONFIG_ESP8266_RCVCACHE"
    using fits_room[OF assms(2) k(1)] g by simp
  have "length p \<le> length (stored (es_type k) p)" using k(2) by (auto simp: stored_def)
  then have le: "length (ring_contents (es_rcvRing k)) + length p \<le> CONFIG_ESP8266_RCVCACHE" using n by simp
  obtain r s' where
    d: "Esp8266MsgDealSingle (ipd (fd, p) @ rest) len s = Some (rest, s')" "esp_ok s'" "s' = s\<lparr>ew_heap := ew_heap s'\<rparr>"
      "esp_look fd s' = Some (k\<lparr>es_rcvRing := r\<rparr>)" "\<And>f. f \<noteq> fd \<Longrightarrow> esp_look f s' = esp_look f s"
      "ring_contents r = ring_contents (es_rcvRing k) @
        take (CONFIG_ESP8266_RCVCACHE - length (ring_contents (es_rcvRing k))) (stored (es_type k) p)"
    by (rule deal_ipd[OF assms(1) k(1) le assms(3) assms(4)[unfolded f]], rule that, assumption+)
  have c: "case esp_look fd' s of None \<Rightarrow> esp_look fd' s' = None | Some k \<Rightarrow> \<exists>r. esp_look fd' s' = Some (k\<lparr>es_rcvRing := r\<rparr>) \<and>
      ring_contents r = ring_contents (es_rcvRing k) @ sock_gets fd' [f] k" for fd'
  proof (cases "fd' = fd")
    case True
    then show ?thesis using d(4,6) k(1) n g by auto
  next
    case False
    have "sock_gets fd' [f] k' = []" for k' using False by (simp add: sock_gets_def payloads_def f)
    then show ?thesis using d(5)[OF False] same_ring_ex by (auto split: option.splits)
  qed
  have "esp_received [f] s s'" unfolding esp_received_def by (intro conjI allI d(2,3) c)
  moreover have "Esp8266MsgDealSingle (ipd f @ rest) len s = Some (rest, s')" using d(1) unfolding f .
  ultimately show thesis using that by blast
qed

lemma esp_lock_free: "ew_locks s = [] \<Longrightarrow> esp_lock s = (True, s)"
  by (cases s) (simp add: esp_lock_def)

lemma received_locks:
  assumes "esp_received fs s s'"
  shows "ew_locks s' = ew_locks s"
proof -
  have "ew_locks s' = ew_locks (s\<lparr>ew_heap := ew_heap s'\<rparr>)" by (rule arg_cong[OF received_state[OF assms]])
  also have "\<dots> = ew_locks s" by simp
  finally show ?thesis .
qed

text \<open>The frames of a message.\<close>

lemma msg_loop_frames:
  assumes "esp_ok s" and "esp_fits fs s" and "ew_locks s = []"
  shows "\<exists>s'. msg_loop (length tail) (concat (map ipd fs) @ tail) s = Some (tail, s') \<and> esp_received fs s s'"
  using assms
proof (induction fs arbitrary: s)
  case Nil
  then show ?case by (simp add: msg_loop.simps)
next
  case (Cons f fs)
  have f1: "esp_fits [f] s" using fits_prefix[of "[f]" fs s] Cons.prems(2) by simp
  let ?rest = "concat (map ipd fs) @ tail"
  let ?msg = "concat (map ipd (f # fs)) @ tail"
  have l: "6 \<le> length ?msg - length tail" "length ?msg - length tail \<le> length (ipd f @ ?rest)" "length tail < length ?msg"
    using ipd_length(2)[of f] by (simp_all del: length_concat length_greater_0_conv)
  obtain s1 where s1: "Esp8266MsgDealSingle (ipd f @ ?rest) (length ?msg - length tail) s = Some (?rest, s1)" "esp_received [f] s s1"
    by (rule deal_one[OF Cons.prems(1) f1 l(1,2)])
  have "esp_ok s1" "ew_locks s1 = []" using s1(2) received_locks[OF s1(2)] Cons.prems(3) by (simp_all add: esp_received_def)
  moreover have "esp_fits fs s1" using fits_append[of "[f]" fs s s1] Cons.prems(2) s1(2) by simp
  ultimately obtain s2 where s2: "msg_loop (length tail) ?rest s1 = Some (tail, s2)" "esp_received fs s1 s2"
    using Cons.IH by blast
  have r: "esp_received (f # fs) s s2" using received_append[OF s1(2) s2(2)] by simp
  have st: "msg_loop (length tail) ?msg s = (let dataLeft = int (length ?rest) - int (length tail) in
      if 0 \<le> dataLeft \<and> dataLeft < int (length CN_ESP8266_RCVINDEX) then Some (?rest, s1)
      else do { eq \<leftarrow> mem_eq ?rest CN_ESP8266_RCVINDEX (length CN_ESP8266_RCVINDEX);
                if eq then msg_loop (length tail) ?rest s1 else Some (?rest, s1) })"
    using s1(1) l(3) esp_lock_free[OF Cons.prems(3)]
    by (subst msg_loop.simps) (simp del: length_concat)
  show ?case
  proof (cases fs)
    case Nil
    then show ?thesis using st s2 r by (simp add: msg_loop.simps ipd_length)
  next
    case (Cons g gs)
    have "mem_eq ?rest CN_ESP8266_RCVINDEX (length CN_ESP8266_RCVINDEX) = Some True" "6 \<le> length ?rest - length tail"
      using ipd_length(2)[of g] Cons by (simp_all add: mem_eq_def ipd_def CN_ESP8266_RCVINDEX_def)
    then show ?thesis using st s2 r by (simp add: ipd_length Let_def)
  qed
qed


text \<open>A whole message, with the memory behind it.\<close>

lemma deal_message:
  assumes "esp_ok s" and "esp_fits fs s" and "ew_locks s = []"
  obtains s' where "Esp8266MsgDeal (concat (map ipd fs) @ tail) (length (concat (map ipd fs))) s =
      Some (int (length (concat (map ipd fs))), s')" "esp_received fs s s'"
proof -
  obtain s' where s': "msg_loop (length tail) (concat (map ipd fs) @ tail) s = Some (tail, s')" "esp_received fs s s'"
    using msg_loop_frames[OF assms] by blast
  have n: "length (concat (map ipd fs) @ tail) - length (concat (map ipd fs)) = length tail"
    "\<not> length (concat (map ipd fs)) > length (concat (map ipd fs) @ tail)"
    by (simp_all del: length_concat)
  have "Esp8266MsgDeal (concat (map ipd fs) @ tail) (length (concat (map ipd fs))) s =
      Some (int (length (concat (map ipd fs))), s')"
    unfolding Esp8266MsgDeal_def n(1) if_not_P[OF n(2)] using s'(1) by (simp del: length_concat)
  then show thesis using that s'(2) by blast
qed

text \<open>The log of the client after messages of frames, each of them handed out.\<close>

definition log_of :: "(nat \<times> bytes) list list \<Rightarrow> (nat \<times> nat \<times> bytes) list" where
  "log_of msgs = map (\<lambda>fs. (ESP8266_RCV, 0, concat (map ipd fs))) msgs"

lemma frames_received:
  assumes "esp_ok s" and "esp_fits (concat msgs) s" and "ew_locks s = []"
  shows "\<exists>s'. esp_frames (log_of msgs) s = Some s' \<and> esp_received (concat msgs) s s'"
  using assms
proof (induction msgs arbitrary: s)
  case Nil
  then show ?case by (simp add: log_of_def)
next
  case (Cons fs msgs)
  have f: "esp_fits fs s" using fits_prefix[of fs "concat msgs" s] Cons.prems(2) by simp
  let ?tail = "replicate (CONFIG_AT_RECVMAXLEN - length (concat (map ipd fs))) 0"
  obtain s1 where s1: "Esp8266MsgDeal (concat (map ipd fs) @ ?tail) (length (concat (map ipd fs))) s =
      Some (int (length (concat (map ipd fs))), s1)" "esp_received fs s s1"
    by (rule deal_message[OF Cons.prems(1) f Cons.prems(3)])
  have "esp_fits (concat msgs) s1" using fits_append[of fs "concat msgs" s s1] Cons.prems(2) s1(2) by simp
  from Cons.IH[OF received_ok[OF s1(2)] this] obtain s2 where s2: "esp_frames (log_of msgs) s1 = Some s2"
    "esp_received (concat msgs) s1 s2"
    using received_locks[OF s1(2)] Cons.prems(3) by auto
  have "esp_frames (log_of (fs # msgs)) s = Some s2"
    using s1(1) s2(1) by (simp add: log_of_def frame_mem_def del: length_concat)
  then show ?case using received_append[OF s1(2) s2(2)] by auto
qed

section \<open>Receiving\<close>

lemma ring_read_some:
  assumes "ring_ok r" and "n \<le> length buf" and "0 < n"
  shows "\<exists>r'. ring_buffer_read (Some r) (Some buf) (int n) =
      Some (int (min n (length (ring_contents r))), Some (take n (ring_contents r) @ drop (min n (length (ring_contents r))) buf), Some r') \<and>
    ring_ok r' \<and> rb_buflen r' = rb_buflen r \<and> ring_contents r' = drop n (ring_contents r)"
proof -
  obtain B D F where r: "r = mk_ring B D F" "D \<le> length B" "F < length B" "length B \<le> 2 ^ 30"
    using assms(1) by (auto simp: ring_ok_mk_ring)
  have len: "length (ring_contents r) = D" using r by (simp add: length_contents)
  obtain F' where F': "ring_read (mk_ring B D F) buf (int n) = Some (int (min n D),
      take (min n D) (ring_contents (mk_ring B D F)) @ drop (min n D) buf, mk_ring B (D - min n D) F')" "F' < length B"
      "ring_contents (mk_ring B (D - min n D) F') = drop (min n D) (ring_contents (mk_ring B D F))"
    using ring_read_law[OF r(2-4) assms(2,3) refl] by auto
  have t: "take (min n D) (ring_contents r) = take n (ring_contents r)" "drop (min n D) (ring_contents r) = drop n (ring_contents r)"
    using len by (auto simp: min_def)
  have "ring_ok (mk_ring B (D - min n D) F')" using r F'(2) by (intro ring_okI) auto
  then show ?thesis using F' r(1) t len assms(3) by (auto simp: ring_buffer_read_def)
qed

lemma u16_bytes_of: "u16_of (u16_bytes w) = w"
proof (rule bit_word_eqI)
  fix n assume "n < LENGTH(16)"
  then show "bit (u16_of (u16_bytes w)) n \<longleftrightarrow> bit w n"
    by (auto simp: u16_of_def u16_bytes_def bit_or_iff bit_ucast_iff bit_push_bit_iff bit_drop_bit_eq dest: bit_imp_le_length)
qed

text \<open>The next datagram of a socket into a buffer that holds it.\<close>

lemma ring_get_datagram:
  assumes "ring_ok r" and "ring_contents r = u16_bytes (of_nat (length p)) @ p @ rest" and "p \<noteq> []"
    and "length p < 65536" and "length p \<le> length buf"
  shows "\<exists>r'. ring_get SOCK_DGRAM len buf r = Some (int (length p), Some (p @ drop (length p) buf), Some r') \<and>
    ring_ok r' \<and> rb_buflen r' = rb_buflen r \<and> ring_contents r' = rest"
proof -
  have u: "length (u16_bytes (of_nat (length p))) = 2" by (simp add: u16_bytes_def)
  have n: "unat (of_nat (length p) :: u16) = length p" using assms(4) by (simp add: unat_of_nat)
  have t: "take 2 (ring_contents r) = u16_bytes (of_nat (length p))" "drop 2 (ring_contents r) = p @ rest"
    "length (ring_contents r) \<ge> 2"
    using u unfolding assms(2) by auto
  obtain r1 where r1: "ring_buffer_read (Some r) (Some [0, 0]) 2 = Some (2, Some (u16_bytes (of_nat (length p))), Some r1)"
    "ring_ok r1" "rb_buflen r1 = rb_buflen r" "ring_contents r1 = p @ rest"
    using ring_read_some[OF assms(1), of 2 "[0, 0]"] t by (auto simp: min_def)
  obtain r2 where r2: "ring_buffer_read (Some r1) (Some buf) (int (length p)) = Some (int (length p), Some (p @ drop (length p) buf), Some r2)"
    "ring_ok r2" "rb_buflen r2 = rb_buflen r1" "ring_contents r2 = rest"
    using ring_read_some[OF r1(2) assms(5)] assms(3) r1(4) by (auto simp: min_def)
  show ?thesis using r1 r2 by (simp add: ring_get_def u16_bytes_of n del: of_nat_unat)
qed


text \<open>A read of more than the buffer holds leaves it, in one of the two copies.\<close>

lemma ring_read_leaves:
  assumes "ring_ok r" and "length buf < n" and "n \<le> length (ring_contents r)"
  shows "ring_buffer_read (Some r) (Some buf) (int n) = None"
proof -
  obtain B D F where r: "r = mk_ring B D F" "D \<le> length B" "F < length B" "length B \<le> 2 ^ 30"
    using assms(1) by (auto simp: ring_ok_mk_ring)
  have n: "n \<le> D" "0 < n" using assms(2,3) r by (auto simp: length_contents)
  have c: "c_int (int (length B) - int n) = Some (int (length B) - int n)"
    using r n by (intro c_int_in) auto
  have "ring_read (mk_ring B D F) buf (int n) = None"
  proof (cases "length B \<le> F + n")
    case True
    have m: "mem_copy buf 0 B (int F) (int (length B) - int F) =
        (if length B - F \<le> length buf then Some (drop F B @ drop (length B - F) buf) else None)"
      using r(3) by (auto simp: mem_copy_def fetch_def put_def nat_diff_distrib)
    show ?thesis
      using True r n c m assms(2)
      by (auto simp: ring_read_def mem_copy_def fetch_def put_def Let_def c_rem_def bind_eq_None_conv split: if_splits)
  next
    case False
    then show ?thesis using r n c assms(2) by (auto simp: ring_read_def mem_copy_def fetch_def put_def)
  qed
  then show ?thesis using r(1) n(2) by (simp add: ring_buffer_read_def)
qed

lemma ring_get_overflow:
  assumes "ring_ok r" and "ring_contents r = u16_bytes (of_nat (length p)) @ p @ rest"
    and "length p < 65536" and "length buf < length p"
  shows "ring_get SOCK_DGRAM len buf r = None"
proof -
  have n: "unat (of_nat (length p) :: u16) = length p" using assms(3) by (simp add: unat_of_nat)
  have t: "take 2 (ring_contents r) = u16_bytes (of_nat (length p))" "drop 2 (ring_contents r) = p @ rest"
    "length (ring_contents r) \<ge> 2"
    unfolding assms(2) by (auto simp: u16_bytes_def)
  obtain r1 where r1: "ring_buffer_read (Some r) (Some [0, 0]) 2 = Some (2, Some (u16_bytes (of_nat (length p))), Some r1)"
    "ring_ok r1" "ring_contents r1 = p @ rest"
    using ring_read_some[OF assms(1), of 2 "[0, 0]"] t by (auto simp: min_def)
  have "ring_buffer_read (Some r1) (Some buf) (int (length p)) = None"
    by (rule ring_read_leaves[OF r1(2) assms(4)]) (simp add: r1(3))
  then show ?thesis using r1(1) by (simp add: ring_get_def u16_bytes_of n del: of_nat_unat)
qed

text \<open>A stream gives what it has, at most as much as is asked for.\<close>

lemma int_of_size: "len < 2 ^ 31 \<Longrightarrow> sint (of_nat len :: u32) = int len"
  by (simp add: signed_of_nat signed_take_bit_int_eq_self)

lemma ring_get_stream:
  assumes "ring_ok r" and "0 < len" and "len < 2 ^ 31" and "len \<le> length buf"
  shows "\<exists>r'. ring_get SOCK_STREAM len buf r = Some (int (min len (length (ring_contents r))),
      Some (take len (ring_contents r) @ drop (min len (length (ring_contents r))) buf), Some r') \<and>
    ring_ok r' \<and> rb_buflen r' = rb_buflen r \<and> ring_contents r' = drop len (ring_contents r)"
  using ring_read_some[OF assms(1,4,2)] int_of_size[OF assms(3)] by (simp add: ring_get_def)

text \<open>A call that finds data returns at once.\<close>

lemma recv_first:
  assumes "esp_ok s" and "ew_locks s = []" and "esp_look fd s = Some k" and "ring_contents (es_rcvRing k) \<noteq> []"
    and "es_type k = SOCK_DGRAM \<or> es_type k = SOCK_STREAM"
    and "ring_get (es_type k) len buf (es_rcvRing k) = Some (ret, Some b, Some r)" and "0 < ret" and "0 < len"
    and "sock_ok (k\<lparr>es_rcvRing := r\<rparr>)"
  obtains s' where "Esp8266Recv (int fd) (Some buf) len s = Some (ret, Some b, s')" "esp_ok s'" "ew_locks s' = []"
    "esp_look fd s' = Some (k\<lparr>es_rcvRing := r\<rparr>)" "\<And>f. f \<noteq> fd \<Longrightarrow> esp_look f s' = esp_look f s"
proof -
  obtain a where a: "fd < CN_ESP8266_SOCKMAX" "ew_socks s ! fd = Some a" "ew_heap s a = Some k" by (rule lookD[OF assms(3)])
  have "ring_buffer_datalen (Some (es_rcvRing k)) > 0"
    using assms(4) look_ok[OF assms(1,3)]
    by (auto simp: sock_ok_def ring_ok_mk_ring ring_buffer_datalen_def length_contents contents_mk_ring)
  then have "sock_recv_loop n a len (-1) buf s = Some (ret, b, set_sock a (k\<lparr>es_rcvRing := r\<rparr>) s)" for n
    using assms(5-7) a(3) esp_lock_free[OF assms(2)] by (simp add: sock_recv_loop.simps[of n] recv_try_def)
  then have "Esp8266Recv (int fd) (Some buf) len s = Some (ret, Some b, set_sock a (k\<lparr>es_rcvRing := r\<rparr>) s)"
    using esp_sock_look[OF assms(1) a(2,3,1)] assms(8) by (simp add: Esp8266Recv_def)
  then show thesis
    by (rule that) (use set_ring[OF assms(1) a assms(9)] assms(2) in \<open>simp_all add: set_sock_def\<close>)
qed

lemma recv_datagram:
  assumes "esp_ok s" and "ew_locks s = []" and "esp_look fd s = Some k" and "es_type k = SOCK_DGRAM"
    and "ring_contents (es_rcvRing k) = stored SOCK_DGRAM p @ rest" and "p \<noteq> []" and "length p \<le> sz"
  obtains s' r where "recv_bytes (int fd) sz s = Some ((int (length p), p), s')" "esp_ok s'" "ew_locks s' = []"
    "esp_look fd s' = Some (k\<lparr>es_rcvRing := r\<rparr>)" "ring_contents r = rest" "\<And>f. f \<noteq> fd \<Longrightarrow> esp_look f s' = esp_look f s"
proof -
  have k: "ring_ok (es_rcvRing k)" "rb_buflen (es_rcvRing k) = int CONFIG_ESP8266_RCVCACHE"
    using look_ok[OF assms(1,3)] by (simp_all add: sock_ok_def)
  have "length (ring_contents (es_rcvRing k)) \<le> CONFIG_ESP8266_RCVCACHE"
    using k by (auto simp: ring_ok_mk_ring length_contents)
  then have l: "length p < 65536" using assms(5) by (simp add: stored_def)
  have c: "ring_contents (es_rcvRing k) = u16_bytes (of_nat (length p)) @ p @ rest" using assms(5) by (simp add: stored_def)
  have sl: "length p \<le> length (replicate sz (0 :: u8))" using assms(7) by simp
  obtain r where r: "ring_get SOCK_DGRAM sz (replicate sz 0) (es_rcvRing k) =
      Some (int (length p), Some (p @ drop (length p) (replicate sz 0)), Some r)" "ring_ok r"
    "rb_buflen r = rb_buflen (es_rcvRing k)" "ring_contents r = rest"
    using ring_get_datagram[OF k(1) c assms(6) l sl] by blast
  have ne: "ring_contents (es_rcvRing k) \<noteq> []" "0 < int (length p)" "0 < sz"
    using assms(6,7) c by (cases p; auto)+
  have ok: "sock_ok (k\<lparr>es_rcvRing := r\<rparr>)" using r k by (simp add: sock_ok_def)
  obtain s' where s': "Esp8266Recv (int fd) (Some (replicate sz 0)) sz s =
      Some (int (length p), Some (p @ drop (length p) (replicate sz 0)), s')" "esp_ok s'" "ew_locks s' = []"
    "esp_look fd s' = Some (k\<lparr>es_rcvRing := r\<rparr>)" "\<And>f. f \<noteq> fd \<Longrightarrow> esp_look f s' = esp_look f s"
    by (rule recv_first[OF assms(1-3) ne(1) _ _ ne(2,3) ok, of "replicate sz 0"]) (use assms(4) r(1) in auto)
  have "recv_bytes (int fd) sz s = Some ((int (length p), p), s')" using s'(1) by (simp add: recv_bytes_def)
  then show thesis by (rule that) (use s' r in simp_all)
qed

lemma recv_stream:
  assumes "esp_ok s" and "ew_locks s = []" and "esp_look fd s = Some k" and "es_type k = SOCK_STREAM"
    and "ring_contents (es_rcvRing k) \<noteq> []" and "0 < sz" and "sz < 2 ^ 31"
  obtains s' r where "recv_bytes (int fd) sz s = Some ((int (min sz (length (ring_contents (es_rcvRing k)))),
      take sz (ring_contents (es_rcvRing k))), s')" "esp_ok s'" "ew_locks s' = []"
    "esp_look fd s' = Some (k\<lparr>es_rcvRing := r\<rparr>)" "ring_contents r = drop sz (ring_contents (es_rcvRing k))"
    "\<And>f. f \<noteq> fd \<Longrightarrow> esp_look f s' = esp_look f s"
proof -
  have k: "ring_ok (es_rcvRing k)" "rb_buflen (es_rcvRing k) = int CONFIG_ESP8266_RCVCACHE"
    using look_ok[OF assms(1,3)] by (simp_all add: sock_ok_def)
  let ?c = "ring_contents (es_rcvRing k)"
  have sl: "sz \<le> length (replicate sz (0 :: u8))" by simp
  obtain r where r: "ring_get SOCK_STREAM sz (replicate sz 0) (es_rcvRing k) =
      Some (int (min sz (length ?c)), Some (take sz ?c @ drop (min sz (length ?c)) (replicate sz 0)), Some r)" "ring_ok r"
    "rb_buflen r = rb_buflen (es_rcvRing k)" "ring_contents r = drop sz ?c"
    using ring_get_stream[OF k(1) assms(6,7) sl] by blast
  have pos: "0 < int (min sz (length ?c))" using assms(5,6) by simp
  have ok: "sock_ok (k\<lparr>es_rcvRing := r\<rparr>)" using r k by (simp add: sock_ok_def)
  obtain s' where s': "Esp8266Recv (int fd) (Some (replicate sz 0)) sz s = Some (int (min sz (length ?c)),
      Some (take sz ?c @ drop (min sz (length ?c)) (replicate sz 0)), s')" "esp_ok s'" "ew_locks s' = []"
    "esp_look fd s' = Some (k\<lparr>es_rcvRing := r\<rparr>)" "\<And>f. f \<noteq> fd \<Longrightarrow> esp_look f s' = esp_look f s"
    by (rule recv_first[OF assms(1-3,5) _ _ pos assms(6) ok, of "replicate sz 0"]) (use assms(4) r(1) in auto)
  have "recv_bytes (int fd) sz s = Some ((int (min sz (length ?c)), take sz ?c), s')"
    using s'(1) by (simp add: recv_bytes_def min_def)
  then show thesis by (rule that) (use s' r in simp_all)
qed


section \<open>Behind the socket layer\<close>

text \<open>The socket \<open>n\<close> of the socket layer is the socket \<open>fd\<close> of the modem.\<close>

definition esp_behind :: "nat \<Rightarrow> nat \<Rightarrow> 'w esp8266_cb option tag_sal_cb \<Rightarrow> bool" where
  "esp_behind n fd sal \<longleftrightarrow> sl_num sal = int (length (sal_slots sal)) \<and> n < length (sal_slots sal) \<and>
     (\<exists>cb timeval ipv4. sal_slots sal ! n = Some cb \<and> sc_ops cb = Some (s_tcpip_socket_ops timeval ipv4) \<and> sc_sock cb = int fd)"

lemma behind_port [simp]: "esp_behind n fd (sal\<lparr>sl_port := p\<rparr>) = esp_behind n fd sal"
  by (simp add: esp_behind_def sal_slots_def)

lemma sal_recv_esp:
  assumes "esp_behind n fd sal" and "sl_port sal = Some s" and "recv_bytes (int fd) sz s = Some (r, s')"
  shows "sal_recv (int n) sz flags sal = Some (r, sal\<lparr>sl_port := Some s'\<rparr>)"
  using assms
  by (auto simp: esp_behind_def sal_recv_def sal_call_def sal_sockcb_getcb_def byte_at_def s_tcpip_socket_ops_def lift_call_def)

text \<open>One call of the socket layer for each size: what they deliver.\<close>

fun sal_recvs :: "nat \<Rightarrow> nat list \<Rightarrow> 'p tag_sal_cb \<Rightarrow> (bytes list \<times> 'p tag_sal_cb) option" where
  "sal_recvs n [] sal = Some ([], sal)"
| "sal_recvs n (sz # szs) sal = do {
     ((ret, b), sal) \<leftarrow> sal_recv (int n) sz 0 sal;
     (bs, sal) \<leftarrow> sal_recvs n szs sal;
     Some (b # bs, sal) }"

lemma recvs_datagrams:
  assumes "esp_behind n fd sal" and "sl_port sal = Some s" and "esp_ok s" and "ew_locks s = []"
    and "esp_look fd s = Some k" and "es_type k = SOCK_DGRAM"
    and "ring_contents (es_rcvRing k) = concat (map (stored SOCK_DGRAM) ps)" and "\<forall>p \<in> set ps. p \<noteq> [] \<and> length p \<le> sz"
  shows "\<exists>sal'. sal_recvs n (replicate (length ps) sz) sal = Some (ps, sal')"
  using assms
proof (induction ps arbitrary: sal s k)
  case Nil
  then show ?case by simp
next
  case (Cons p ps)
  have c: "ring_contents (es_rcvRing k) = stored SOCK_DGRAM p @ concat (map (stored SOCK_DGRAM) ps)" "p \<noteq> []" "length p \<le> sz"
    using Cons.prems(7,8) by simp_all
  obtain s' r where s': "recv_bytes (int fd) sz s = Some ((int (length p), p), s')" "esp_ok s'" "ew_locks s' = []"
    "esp_look fd s' = Some (k\<lparr>es_rcvRing := r\<rparr>)" "ring_contents r = concat (map (stored SOCK_DGRAM) ps)"
    by (rule recv_datagram[OF Cons.prems(3-6) c])
  have "\<exists>sal'. sal_recvs n (replicate (length ps) sz) (sal\<lparr>sl_port := Some s'\<rparr>) = Some (ps, sal')"
    by (rule Cons.IH[OF _ _ s'(2-4)]) (use Cons.prems s'(5) in simp_all)
  then show ?case using sal_recv_esp[OF Cons.prems(1,2) s'(1), of 0] by auto
qed

lemma recvs_stream:
  assumes "esp_behind n fd sal" and "sl_port sal = Some s" and "esp_ok s" and "ew_locks s = []"
    and "esp_look fd s = Some k" and "es_type k = SOCK_STREAM"
    and "\<forall>sz \<in> set szs. 0 < sz \<and> sz < 2 ^ 31" and "sum_list szs \<le> length (ring_contents (es_rcvRing k))"
  shows "\<exists>bs sal'. sal_recvs n szs sal = Some (bs, sal') \<and> map length bs = szs \<and>
    concat bs = take (sum_list szs) (ring_contents (es_rcvRing k))"
  using assms
proof (induction szs arbitrary: sal s k)
  case Nil
  then show ?case by simp
next
  case (Cons sz szs)
  let ?c = "ring_contents (es_rcvRing k)"
  have z: "0 < sz" "sz < 2 ^ 31" "sz \<le> length ?c" "?c \<noteq> []" using Cons.prems(7,8) by auto
  obtain s' r where s': "recv_bytes (int fd) sz s = Some ((int (min sz (length ?c)), take sz ?c), s')" "esp_ok s'" "ew_locks s' = []"
    "esp_look fd s' = Some (k\<lparr>es_rcvRing := r\<rparr>)" "ring_contents r = drop sz ?c"
    by (rule recv_stream[OF Cons.prems(3-6) z(4,1,2)])
  have "\<exists>bs sal'. sal_recvs n szs (sal\<lparr>sl_port := Some s'\<rparr>) = Some (bs, sal') \<and> map length bs = szs \<and>
      concat bs = take (sum_list szs) (ring_contents (es_rcvRing (k\<lparr>es_rcvRing := r\<rparr>)))"
    by (rule Cons.IH[OF _ _ s'(2-4)]) (use Cons.prems s'(5) in auto)
  then obtain bs sal' where i: "sal_recvs n szs (sal\<lparr>sl_port := Some s'\<rparr>) = Some (bs, sal')" "map length bs = szs"
    "concat bs = take (sum_list szs) (drop sz ?c)" using s'(5) by auto
  have "take sz ?c @ take (sum_list szs) (drop sz ?c) = take (sum_list (sz # szs)) ?c" by (simp add: take_add)
  then show ?case using sal_recv_esp[OF Cons.prems(1,2) s'(1), of 0] i z(3) by (auto simp: min_def)
qed


section \<open>Any frame\<close>

text \<open>
  The handler on whatever the modem sends. The receive buffer is zero behind the frame, so that a search ends there.
\<close>

lemma len_digits_some:
  assumes "0 \<in> set str"
  shows "\<exists>v. len_digits str 0 = Some (v, dropWhile is_digit str)"
proof -
  obtain c rest where c: "str = takeWhile is_digit str @ c # rest" "\<not> is_digit c" by (rule digits_split[OF assms])
  have all: "\<forall>d \<in> set (takeWhile is_digit str). is_digit d" using set_takeWhileD by metis
  have "len_digits (takeWhile is_digit str @ c # rest) 0 = Some (of_nat (dec_val (takeWhile is_digit str) 0), c # rest)"
    using len_digits_dec[OF all c(2), of rest 0] by simp
  moreover have "dropWhile is_digit str = c # rest"
    using arg_cong[OF c(1), of "drop (length (takeWhile is_digit str))"] by (simp add: dropWhile_eq_drop)
  ultimately show ?thesis using c(1) by auto
qed

lemma deal_single_safe:
  assumes "esp_ok s" and "short_numbers data" and "0 \<in> set data" and "nz data \<le> len" and "0 < len" and "len + 1031 \<le> length data"
  shows "\<exists>j s'. Esp8266MsgDealSingle data len s = Some (drop j data, s') \<and> 0 < j \<and> j \<le> len + 1025 \<and> esp_ok s' \<and> ew_locks s' = ew_locks s"
proof -
  have whole: ?thesis if "Esp8266MsgDealSingle data len s = Some (drop len data, s)"
    using that assms(1,5) by (intro exI[of _ len] exI[of _ s]) simp
  have lenle: "\<not> len > length data" using assms(6) by simp
  show ?thesis
  proof (cases "len < length CN_ESP8266_RCVINDEX \<or> find_char 44 data = Some None")
    case True
    then show ?thesis using lenle by (intro whole) (auto simp: Esp8266MsgDealSingle_def)
  next
    case f1: False
    then obtain q1 where q1: "find_char 44 data = Some (Some q1)"
      using find_char_drop[OF assms(3), of 44] by auto
    obtain i1 where i1: "i1 < nz data" "q1 = drop i1 data" using find_char_pos[OF q1] by (auto simp: nz_def)
    define p1 where "p1 = drop (i1 + 1) data"
    have t1: "tl q1 = p1" by (simp add: i1(2) p1_def tl_drop drop_Suc)
    have z1: "0 \<in> set p1" "nz p1 = nz data - (i1 + 1)"
      using nz_zero(2)[OF _ assms(3), of "i1 + 1"] nz_drop[of "i1 + 1" data] i1(1) by (simp_all add: p1_def)
    obtain fd where fd: "int_digits p1 0 = Some (int fd, dropWhile is_digit p1)"
      using int_digits_some[OF z1(1)] assms(2) unfolding p1_def short_numbers_def by blast
    obtain n1 where n1: "n1 \<le> nz p1" "dropWhile is_digit p1 = drop n1 p1" using digits_nz by blast
    define p2 where "p2 = drop n1 p1"
    have z2: "0 \<in> set p2" "nz p2 = nz p1 - n1"
      using nz_zero(2)[OF n1(1) z1(1)] nz_drop[OF n1(1)] by (simp_all add: p2_def)
    have g: "Esp8266SockGet fd s = Some (ew_socks s ! fd)" if "fd < CN_ESP8266_SOCKMAX"
      using that assms(1) by (simp add: Esp8266SockGet_def byte_at_def esp_ok_def)
    show ?thesis
    proof (cases "fd \<ge> CN_ESP8266_SOCKMAX \<or> ew_socks s ! fd = None \<or> find_char 44 p2 = Some None")
      case True
      then show ?thesis using lenle f1 q1 t1 fd n1 g
        by (intro whole) (auto simp: Esp8266MsgDealSingle_def p2_def split: option.splits)
    next
      case f2: False
      then obtain q3 where q3: "find_char 44 p2 = Some (Some q3)" using find_char_drop[OF z2(1), of 44] by auto
      obtain i3 where i3: "i3 < nz p2" "q3 = drop i3 p2" using find_char_pos[OF q3] by (auto simp: nz_def)
      define p3 where "p3 = drop (i3 + 1) p2"
      have t3: "tl q3 = p3" by (simp add: i3(2) p3_def tl_drop drop_Suc)
      have z3: "0 \<in> set p3" "nz p3 = nz p2 - (i3 + 1)"
        using nz_zero(2)[OF _ z2(1), of "i3 + 1"] nz_drop[of "i3 + 1" p2] i3(1) by (simp_all add: p3_def)
      obtain n where n: "len_digits p3 0 = Some (n, dropWhile is_digit p3)" using len_digits_some[OF z3(1)] by blast
      obtain n3 where n3: "n3 \<le> nz p3" "dropWhile is_digit p3 = drop n3 p3" using digits_nz by blast
      define m where "m = i1 + 1 + n1 + (i3 + 1) + n3 + 1"
      have str: "tl (drop n3 p3) = drop m data"
        by (simp add: p3_def p2_def p1_def m_def tl_drop add_ac flip: drop_Suc)
      have mb: "0 < m" "m \<le> len + 1" using i1(1) n1(1) i3(1) n3(1) z1(2) z2(2) z3(2) assms(4) by (simp_all add: m_def)
      obtain a where a: "fd < CN_ESP8266_SOCKMAX" "ew_socks s ! fd = Some a" using f2 by auto
      then obtain k where k: "ew_heap s a = Some k" "sock_ok k" using assms(1) unfolding esp_ok_def by blast
      let ?full = "int (unat n) > int CONFIG_ESP8266_RCVCACHE - ring_buffer_datalen (Some (es_rcvRing k))"
      have e: "Esp8266MsgDealSingle data len s =
        (if ?full then Some (drop len data, s)
         else if unat n > length (drop m data) then None
         else do { r \<leftarrow> ring_store (es_type k) n (drop m data) (es_rcvRing k);
                   Some (drop (unat n) (drop m data), set_sock a (k\<lparr>es_rcvRing := r\<rparr>) s) })"
        using lenle f1 q1 t1 fd n1(2) g a k(1) q3 t3 n n3(2) str
        by (simp add: Esp8266MsgDealSingle_def p2_def Let_def del: of_nat_unat)
      show ?thesis
      proof (cases ?full)
        case True
        then show ?thesis using e by (intro whole) simp
      next
        case False
        have r0: "ring_ok (es_rcvRing k)" using k(2) by (simp add: sock_ok_def)
        then have "0 \<le> rb_datalen (es_rcvRing k)" by (simp add: ring_ok_def)
        then have "int (unat n) \<le> int CONFIG_ESP8266_RCVCACHE"
          using False unfolding ring_buffer_datalen_def option.case by linarith
        then have nb: "unat n \<le> CONFIG_ESP8266_RCVCACHE" by (simp only: of_nat_le_iff)
        then have le: "unat n \<le> length (drop m data)" using mb assms(6) by simp
        obtain r where r: "ring_store (es_type k) n (drop m data) (es_rcvRing k) = Some r" "ring_ok r" "rb_buflen r = rb_buflen (es_rcvRing k)"
          using ring_store_law[OF r0 le] by blast
        have "sock_ok (k\<lparr>es_rcvRing := r\<rparr>)" using r k(2) by (simp add: sock_ok_def)
        then have "esp_ok (set_sock a (k\<lparr>es_rcvRing := r\<rparr>) s)" using set_ring(1)[OF assms(1) a k(1)] by blast
        moreover have "Esp8266MsgDealSingle data len s = Some (drop (m + unat n) data, set_sock a (k\<lparr>es_rcvRing := r\<rparr>) s)"
          using e False le r(1) by (simp add: add.commute del: of_nat_unat)
        ultimately show ?thesis using mb nb
          by (intro exI[of _ "m + unat n"] exI[of _ "set_sock a (k\<lparr>es_rcvRing := r\<rparr>) s"]) (simp add: set_sock_def)
      qed
    qed
  qed
qed

lemma msg_loop_safe:
  assumes "esp_ok s" and "short_numbers (xs @ replicate beyond 0)" and "1031 \<le> beyond" and "data = xs @ replicate beyond 0"
  shows "\<exists>rest s'. msg_loop beyond data s = Some (rest, s') \<and> esp_ok s' \<and> (length rest > beyond \<longrightarrow> 0 \<in> set rest)"
  using assms
proof (induction beyond data s arbitrary: xs rule: msg_loop.induct)
  case (1 beyond data s)
  note prems = "1.prems"
  show ?case
  proof (cases "xs = []")
    case True
    then show ?thesis using prems by (subst msg_loop.simps) simp
  next
    case False
    then have long: "length data > beyond" "length data - beyond = length xs" "0 < length xs" using prems(4) by simp_all
    obtain ok s1 where lk: "esp_lock s = (ok, s1)" by (cases "esp_lock s")
    have ok1: "esp_ok s1" using lk prems(1) by (auto simp: esp_lock_def esp_ok_def Let_def split: prod.splits)
    have z: "0 \<in> set data" "nz data \<le> length xs" "length xs + 1031 \<le> length data"
      using prems(3,4) by (auto simp: nz_def takeWhile_append length_takeWhile_le)
    obtain j s2 where j: "(if ok then Esp8266MsgDealSingle data (length xs) s1 else Some (data, s1)) = Some (drop j data, s2)"
      "j \<le> length xs + 1025" "esp_ok s2"
    proof (cases ok)
      case True
      then show thesis using deal_single_safe[OF ok1 _ z(1,2) long(3) z(3)] prems(2,4) that by auto
    next
      case False
      then show thesis using that[of 0 s1] ok1 by simp
    qed
    let ?rest = "drop j data" and ?left = "int (length (drop j data)) - int beyond"
    have st: "msg_loop beyond data s =
      (if 0 \<le> ?left \<and> ?left < int (length CN_ESP8266_RCVINDEX) then Some (?rest, s2)
       else do { eq \<leftarrow> mem_eq ?rest CN_ESP8266_RCVINDEX (length CN_ESP8266_RCVINDEX);
                 if eq then msg_loop beyond ?rest s2 else Some (?rest, s2) })"
      unfolding msg_loop.simps[of beyond data s] if_P[OF long(1)] lk long(2) Let_def prod.case j(1) Option.bind.bind_lunit
      by (rule refl)
    have l6: "6 \<le> length ?rest" using j(2) prems(3,4) by simp
    have zero: "0 \<in> set ?rest" if "j \<le> length xs" using that prems(3,4) by simp
    show ?thesis
    proof (cases "0 \<le> ?left \<and> ?left < int (length CN_ESP8266_RCVINDEX)")
      case True
      then have "int beyond \<le> int (length data - j)" by simp
      then have "j \<le> length xs" using prems(3) long(2) by linarith
      then show ?thesis using st True j(3) zero by auto
    next
      case stop: False
      have me: "mem_eq ?rest CN_ESP8266_RCVINDEX (length CN_ESP8266_RCVINDEX) = Some (take 6 ?rest = CN_ESP8266_RCVINDEX)"
        using l6 take_all[of CN_ESP8266_RCVINDEX 6] unfolding mem_eq_def ipd_length(1) by simp
      show ?thesis
      proof (cases "take 6 ?rest = CN_ESP8266_RCVINDEX")
        case False
        have "length ?rest > beyond \<longrightarrow> 0 \<in> set ?rest" using zero prems(4) by auto
        then show ?thesis using st stop me False j(3) by auto
      next
        case True
        have jle: "j \<le> length xs"
        proof (rule ccontr)
          assume "\<not> j \<le> length xs"
          then have "?rest = replicate (beyond - (j - length xs)) 0" using prems(4) by simp
          then have "set (take 6 ?rest) \<subseteq> {0}" by auto
          then show False using True by (simp add: CN_ESP8266_RCVINDEX_def)
        qed
        then have d: "?rest = drop j xs @ replicate beyond 0" using prems(4) by simp
        have sh: "short_numbers (drop j xs @ replicate beyond 0)" using short_drop[OF prems(2), of j] jle by simp
        have "\<exists>rest s'. msg_loop beyond ?rest s2 = Some (rest, s') \<and> esp_ok s' \<and> (length rest > beyond \<longrightarrow> 0 \<in> set rest)"
        proof (rule "1.IH"[OF long(1) lk[symmetric] refl _ refl refl stop me True j(3) sh prems(3) d])
          show "(if ok then Esp8266MsgDealSingle data (length data - beyond) s1 else Some (data, s1)) = Some (?rest, s2)"
            using j(1) unfolding long(2) .
        qed
        then show ?thesis using st stop me True by auto
      qed
    qed
  qed
qed

section \<open>A concrete modem\<close>

text \<open>Two open sockets with empty rings, the first for datagrams, the second for a stream, and both in the table of the socket layer.\<close>

definition demo_sock :: "nat \<Rightarrow> int \<Rightarrow> esp8266_sock" where
  "demo_sock fd type = \<lparr>es_sockfd = int fd, es_domain = 2, es_type = type, es_protocol = 0, es_isConnect = 1, es_timeout = 0,
     es_rcvRing = mk_ring (replicate CONFIG_ESP8266_RCVCACHE 0) 0 0\<rparr>"

definition demo_esp :: "bytes list esp8266_cb" where
  "demo_esp = \<lparr>ew_atLock = True, ew_ioLock = True, ew_sendok = False, ew_sendindex = False,
     ew_socks = [Some 1, Some 2, None, None, None], ew_heap = [1 \<mapsto> demo_sock 0 SOCK_DGRAM, 2 \<mapsto> demo_sock 1 SOCK_STREAM],
     ew_host = None, ew_at = modem_client [], ew_mallocs = [], ew_locks = [], ew_rounds = []\<rparr>"

definition demo_sal :: "bytes list esp8266_cb option tag_sal_cb" where
  "demo_sal = (let ops = s_tcpip_socket_ops (\<lambda>_. (0, 0)) [0, 0, 0, 0] in
     \<lparr>sl_domain = Some (Some ops), sl_num = 2, sl_mutex = True,
      sl_tab = Some [Some \<lparr>sc_ops = Some ops, sc_fd = 0, sc_sock = 1\<rparr>, Some \<lparr>sc_ops = Some ops, sc_fd = 1, sc_sock = 0\<rparr>],
      sl_mallocs = [], sl_locks = [], sl_port = Some demo_esp\<rparr>)"

lemma demo_sock_ok: "sock_ok (demo_sock fd type)"
  using ring_okI[of 0 "replicate CONFIG_ESP8266_RCVCACHE 0" 0] by (simp add: sock_ok_def demo_sock_def)

lemma demo_sock_simps [simp]:
  "es_type (demo_sock fd type) = type" "ring_contents (es_rcvRing (demo_sock fd type)) = []"
  by (simp_all add: demo_sock_def contents_mk_ring)

lemma demo_ok: "esp_ok demo_esp"
  using demo_sock_ok by (auto simp: esp_ok_def demo_esp_def nth_Cons' split: if_splits)

lemma demo_look: "esp_look fd demo_esp =
    (if fd = 0 then Some (demo_sock 0 SOCK_DGRAM) else if fd = 1 then Some (demo_sock 1 SOCK_STREAM) else None)"
  by (auto simp: esp_look_def demo_esp_def nth_Cons')

lemma demo_locks [simp]: "ew_locks demo_esp = []"
  by (simp add: demo_esp_def)

lemma demo_behind: "esp_behind 0 1 demo_sal" "esp_behind 1 0 demo_sal"
  unfolding esp_behind_def by (auto simp: demo_sal_def sal_slots_def Let_def)

section \<open>Properties\<close>

text \<open>C14. Datagrams arrive whole, in order and at their socket: after any messages of the modem, each of any number of
  frames for any of the open sockets, whose stored size fits in the rings, an application that reads from a datagram socket through
  the socket layer, with a buffer that holds the longest, gets exactly the payloads for that socket, one for each call.\<close>

theorem esp_datagrams:
  assumes "esp_ok s" and "ew_locks s = []" and "esp_fits (concat msgs) s" and "esp_behind n fd sal"
    and "esp_look fd s = Some k" and "es_type k = SOCK_DGRAM" and "ring_contents (es_rcvRing k) = []"
    and "\<forall>p \<in> set (payloads fd (concat msgs)). p \<noteq> [] \<and> length p \<le> sz"
  shows "\<exists>s1 sal'. esp_frames (log_of msgs) s = Some s1 \<and>
    sal_recvs n (replicate (length (payloads fd (concat msgs))) sz) (sal\<lparr>sl_port := Some s1\<rparr>) = Some (payloads fd (concat msgs), sal')"
proof -
  obtain s1 where s1: "esp_frames (log_of msgs) s = Some s1" "esp_received (concat msgs) s s1"
    using frames_received[OF assms(1,3,2)] by blast
  obtain r where r: "esp_look fd s1 = Some (k\<lparr>es_rcvRing := r\<rparr>)" "ring_contents r = sock_gets fd (concat msgs) k"
    using received_look[OF s1(2) assms(5)] assms(7) by auto
  have "\<exists>sal'. sal_recvs n (replicate (length (payloads fd (concat msgs))) sz) (sal\<lparr>sl_port := Some s1\<rparr>) =
      Some (payloads fd (concat msgs), sal')"
    by (rule recvs_datagrams[OF _ _ received_ok[OF s1(2)] _ r(1) _ _ assms(8)])
      (use assms r received_locks[OF s1(2)] in \<open>simp_all add: sock_gets_def\<close>)
  then show ?thesis using s1(1) by blast
qed

theorem esp_datagrams_witness:
  "\<exists>s1 sal'. esp_frames (log_of [[(0, [1, 2]), (1, [9])], [(0, [3])]]) demo_esp = Some s1 \<and>
    sal_recvs 1 [8, 8] (demo_sal\<lparr>sl_port := Some s1\<rparr>) = Some ([[1, 2], [3]], sal')"
proof -
  have f: "esp_fits (concat [[(0, [1, 2]), (1, [9])], [(0, [3])]]) demo_esp"
    by (auto simp: esp_fits_def demo_look sock_gets_def payloads_def stored_def u16_bytes_def)
  show ?thesis
    using esp_datagrams[OF demo_ok _ f demo_behind(2), of "demo_sock 0 SOCK_DGRAM" 8]
    by (simp add: demo_look payloads_def numeral_2_eq_2)
qed

text \<open>C16. A stream loses, doubles and reorders nothing: after any messages of the modem that fit in the rings, an
  application that reads from a stream socket through the socket layer, in pieces of any sizes, gets pieces of these sizes that are
  together what the socket held followed by the payloads for that socket, in the order of the frames.\<close>

theorem esp_stream:
  assumes "esp_ok s" and "ew_locks s = []" and "esp_fits (concat msgs) s" and "esp_behind n fd sal"
    and "esp_look fd s = Some k" and "es_type k = SOCK_STREAM"
    and "\<forall>sz \<in> set szs. 0 < sz \<and> sz < 2 ^ 31"
    and "sum_list szs \<le> length (ring_contents (es_rcvRing k) @ concat (payloads fd (concat msgs)))"
  shows "\<exists>s1 bs sal'. esp_frames (log_of msgs) s = Some s1 \<and> sal_recvs n szs (sal\<lparr>sl_port := Some s1\<rparr>) = Some (bs, sal') \<and>
    map length bs = szs \<and> concat bs = take (sum_list szs) (ring_contents (es_rcvRing k) @ concat (payloads fd (concat msgs)))"
proof -
  obtain s1 where s1: "esp_frames (log_of msgs) s = Some s1" "esp_received (concat msgs) s s1"
    using frames_received[OF assms(1,3,2)] by blast
  have g: "sock_gets fd (concat msgs) k = concat (payloads fd (concat msgs))"
    using assms(6) by (simp add: sock_gets_def stored_stream)
  obtain r where r: "esp_look fd s1 = Some (k\<lparr>es_rcvRing := r\<rparr>)"
    "ring_contents r = ring_contents (es_rcvRing k) @ concat (payloads fd (concat msgs))"
    using received_look[OF s1(2) assms(5)] g by auto
  have "\<exists>bs sal'. sal_recvs n szs (sal\<lparr>sl_port := Some s1\<rparr>) = Some (bs, sal') \<and> map length bs = szs \<and>
      concat bs = take (sum_list szs) (ring_contents (es_rcvRing (k\<lparr>es_rcvRing := r\<rparr>)))"
    by (rule recvs_stream[OF _ _ received_ok[OF s1(2)] _ r(1) _ assms(7)])
      (use assms r received_locks[OF s1(2)] in simp_all)
  then show ?thesis using s1(1) r(2) by auto
qed

theorem esp_stream_witness:
  "\<exists>s1 bs sal'. esp_frames (log_of [[(1, [1, 2]), (0, [9])], [(1, [3, 4])]]) demo_esp = Some s1 \<and>
    sal_recvs 0 [3, 1] (demo_sal\<lparr>sl_port := Some s1\<rparr>) = Some (bs, sal') \<and> map length bs = [3, 1] \<and> concat bs = [1, 2, 3, 4]"
proof -
  have f: "esp_fits (concat [[(1, [1, 2]), (0, [9])], [(1, [3, 4])]]) demo_esp"
    by (auto simp: esp_fits_def demo_look sock_gets_def payloads_def stored_def u16_bytes_def)
  show ?thesis
    using esp_stream[OF demo_ok _ f demo_behind(1), of "demo_sock 1 SOCK_STREAM" "[3, 1]"]
    by (simp add: demo_look payloads_def)
qed

text \<open>One full socket loses the frames of all: a frame that is longer than the free space of its ring is dropped together with
  every frame that follows it in the message, for whatever socket and however much space that has.\<close>

theorem esp_full_ring_drops:
  assumes "esp_ok s" and "ew_locks s = []" and "esp_look fd s = Some k" and "length p < 65536"
    and "CONFIG_ESP8266_RCVCACHE < length (ring_contents (es_rcvRing k)) + length p"
  shows "Esp8266MsgDeal (ipd (fd, p) @ concat (map ipd fs) @ tail) (length (ipd (fd, p) @ concat (map ipd fs))) s =
    Some (int (length (ipd (fd, p) @ concat (map ipd fs))), s)"
proof -
  obtain a where a: "fd < CN_ESP8266_SOCKMAX" "ew_socks s ! fd = Some a" "ew_heap s a = Some k" by (rule lookD[OF assms(3)])
  define msg where "msg = ipd (fd, p) @ concat (map ipd fs)"
  have dl: "rb_datalen (es_rcvRing k) = int (length (ring_contents (es_rcvRing k)))"
    using look_ok[OF assms(1,3)] by (auto simp: sock_ok_def ring_ok_mk_ring length_contents)
  have m: "6 \<le> length msg" "msg @ tail = ipd (fd, p) @ (concat (map ipd fs) @ tail)"
    using ipd_length(2)[of "(fd, p)"] by (simp_all add: msg_def)
  have l: "length msg \<le> length (ipd (fd, p) @ (concat (map ipd fs) @ tail))" by (simp add: msg_def del: length_concat)
  have d: "Esp8266MsgDealSingle (msg @ tail) (length msg) s = Some (tail, s)"
    using deal_head[OF assms(1) a assms(4) m(1) l] assms(5) dl unfolding m(2)[symmetric] by simp
  have "msg_loop (length tail) (msg @ tail) s = Some (tail, s)"
    using d m(1) esp_lock_free[OF assms(2)] by (subst msg_loop.simps) (auto simp: ipd_length)
  then have "Esp8266MsgDeal (msg @ tail) (length msg) s = Some (int (length msg), s)" by (simp add: Esp8266MsgDeal_def)
  then show ?thesis unfolding msg_def append.assoc .
qed

theorem esp_full_ring_drops_witness:
  "Esp8266MsgDeal (ipd (0, replicate 1025 7) @ ipd (1, [5]) @ [0]) (length (ipd (0, replicate 1025 7) @ ipd (1, [5]))) demo_esp =
    Some (int (length (ipd (0, replicate 1025 7) @ ipd (1, [5]))), demo_esp)"
  using esp_full_ring_drops[OF demo_ok, of 0 "demo_sock 0 SOCK_DGRAM" "replicate 1025 7" "[(1, [5])]" "[0]"]
  by (simp add: demo_look)


text \<open>C15. The handler is safe on short frames, whatever they hold: for any frames of at most 1017 bytes without a
  number of ten digits, and any outcomes of the mutex, it returns, reads and writes no memory outside the receive
  buffer and the rings, and leaves the sockets well-formed. A header may be cut off, announce more than has arrived or name no socket.\<close>

theorem esp_handler_safe:
  assumes "esp_ok s" and "\<forall>(f, args, frame) \<in> set log. length frame \<le> 1017 \<and> short_numbers frame"
  shows "\<exists>s'. esp_frames log s = Some s' \<and> esp_ok s'"
  using assms
proof (induction log arbitrary: s)
  case Nil
  then show ?case by simp
next
  case (Cons e log)
  obtain f args frame where e: "e = (f, args, frame)" by (cases e)
  have fr: "length frame \<le> 1017" "short_numbers frame" using Cons.prems(2) by (simp_all add: e)
  define z where "z = CONFIG_AT_RECVMAXLEN - length frame"
  have z: "1031 \<le> z" "length (frame @ replicate z 0) - length frame = z" using fr(1) by (simp_all add: z_def)
  obtain rest s1 where l: "msg_loop z (frame @ replicate z 0) s = Some (rest, s1)" "esp_ok s1" "length rest > z \<longrightarrow> 0 \<in> set rest"
    using msg_loop_safe[OF Cons.prems(1) short_zeros[OF fr(2)] z(1) refl] by blast
  obtain r s2 where d: "Esp8266MsgDeal (frame @ replicate z 0) (length frame) s = Some (r, s2)" "esp_ok s2"
    using l z(2) by (cases "length rest > z") (auto simp: Esp8266MsgDeal_def text_of_def Let_def)
  have okb: "esp_ok (if f = ESP8266_RCV then s2 else s)" using d(2) Cons.prems(1) by simp
  have more: "\<forall>(f, args, frame) \<in> set log. length frame \<le> 1017 \<and> short_numbers frame" using Cons.prems(2) by simp
  obtain s3 where "esp_frames log (if f = ESP8266_RCV then s2 else s) = Some s3" "esp_ok s3"
    using Cons.IH[OF okb more] by blast
  then show ?case using d(1) by (auto simp: e z_def frame_mem_def)
qed

theorem esp_handler_safe_witness:
  "\<exists>s'. esp_frames [(ESP8266_RCV, 0, ipd (0, [1, 2]) @ CN_ESP8266_RCVINDEX @ [44, 49, 44, 57, 57])] demo_esp = Some s' \<and> esp_ok s'"
proof -
  have "short_numbers (ipd (0, [1, 2]) @ CN_ESP8266_RCVINDEX @ [44, 49, 44, 57, 57])"
    by (rule few_digits) (simp add: ipd_def CN_ESP8266_RCVINDEX_def dec_str.simps is_digit_def)
  then show ?thesis
    by (intro esp_handler_safe[OF demo_ok]) (simp add: ipd_def CN_ESP8266_RCVINDEX_def dec_str.simps)
qed

text \<open>A frame that arrives in two parts is corrupted: when the end \<open>q\<close> of a payload for a stream is not in the first part, the socket gets
  zero bytes of the receive buffer in its place.\<close>

theorem esp_split_frame_padded:
  assumes "esp_ok s" and "ew_locks s = []" and "esp_look fd s = Some k" and "es_type k = SOCK_STREAM" and "q \<noteq> []"
    and "length (ring_contents (es_rcvRing k)) + length (p @ q) \<le> CONFIG_ESP8266_RCVCACHE"
    and "ipd (fd, p @ q) = frame @ q"
  shows "\<exists>s' r. esp_frames [(ESP8266_RCV, args, frame)] s = Some s' \<and> esp_look fd s' = Some (k\<lparr>es_rcvRing := r\<rparr>) \<and>
    ring_contents r = ring_contents (es_rcvRing k) @ p @ replicate (length q) 0"
proof -
  define m where "m = length q"
  define z where "z = CONFIG_AT_RECVMAXLEN - length frame"
  have fr: "ipd (fd, p @ replicate m 0) = frame @ replicate m 0" using assms(7) by (simp add: ipd_def m_def)
  obtain a where a: "fd < CN_ESP8266_SOCKMAX" using lookD[OF assms(3)] by blast
  have "length (dec_str fd) \<le> 3" using a by (intro dec_length) simp
  moreover have "length (dec_str (length (p @ q))) \<le> 5" using assms(6) by (intro dec_length5) simp
  ultimately have fl: "6 \<le> length frame" "length frame \<le> 17 + length p" "length p + m \<le> CONFIG_ESP8266_RCVCACHE"
    using arg_cong[OF assms(7), of length] assms(6) by (simp_all add: ipd_def CN_ESP8266_RCVINDEX_def m_def)
  then have zm: "m + 6 \<le> z" by (simp add: z_def)
  then have mem: "frame @ replicate z 0 = ipd (fd, p @ replicate m 0) @ replicate (z - m) 0"
    unfolding fr by (simp flip: replicate_add)
  have st: "length (ring_contents (es_rcvRing k)) + length (p @ replicate m 0) \<le> CONFIG_ESP8266_RCVCACHE"
    using assms(6) by (simp add: m_def)
  have le: "length frame \<le> length (ipd (fd, p @ replicate m 0) @ replicate (z - m) 0)" by (simp add: fr)
  obtain r s' where d: "Esp8266MsgDealSingle (ipd (fd, p @ replicate m 0) @ replicate (z - m) 0) (length frame) s = Some (replicate (z - m) 0, s')"
    "esp_look fd s' = Some (k\<lparr>es_rcvRing := r\<rparr>)" "ring_contents r = ring_contents (es_rcvRing k) @
      take (CONFIG_ESP8266_RCVCACHE - length (ring_contents (es_rcvRing k))) (stored (es_type k) (p @ replicate m 0))"
    by (rule deal_ipd[OF assms(1,3) st fl(1) le], rule that, assumption+)
  have "mem_eq (replicate (z - m) 0) CN_ESP8266_RCVINDEX (length CN_ESP8266_RCVINDEX) = Some False"
    using zm by (simp add: mem_eq_def CN_ESP8266_RCVINDEX_def)
  then have "msg_loop z (frame @ replicate z 0) s = Some (replicate (z - m) 0, s')"
    using d(1)[folded mem] fl(1) zm assms(5) esp_lock_free[OF assms(2)] by (subst msg_loop.simps) (auto simp: m_def)
  then have "esp_frames [(ESP8266_RCV, args, frame)] s = Some s'"
    using diff_le_self[of z m, folded not_less] by (simp add: Esp8266MsgDeal_def frame_mem_def flip: z_def)
  moreover have "ring_contents r = ring_contents (es_rcvRing k) @ p @ replicate (length q) 0"
    using d(3) assms(4,6) by (simp add: stored_stream m_def)
  ultimately show ?thesis using d(2) by blast
qed

theorem esp_split_frame_padded_witness:
  "\<exists>s' r. esp_frames [(ESP8266_RCV, 0, CN_ESP8266_RCVINDEX @ [44, 49, 44, 51, 58, 7])] demo_esp = Some s' \<and>
    esp_look 1 s' = Some ((demo_sock 1 SOCK_STREAM)\<lparr>es_rcvRing := r\<rparr>) \<and> ring_contents r = [7, 0, 0]"
  using esp_split_frame_padded[OF demo_ok _ _ _ _ _, of 1 "demo_sock 1 SOCK_STREAM" "[8, 9]" "[7]"
      "CN_ESP8266_RCVINDEX @ [44, 49, 44, 51, 58, 7]" 0]
  by (simp add: demo_look ipd_def dec_str.simps numeral_2_eq_2)


text \<open>A datagram longer than the buffer of the caller is written behind the buffer: the number of bytes that are copied is
  the length that was stored with the datagram, not the length of the buffer.\<close>

theorem esp_recv_overflows:
  assumes "esp_ok s" and "ew_locks s = []" and "esp_look fd s = Some k" and "es_type k = SOCK_DGRAM"
    and "ring_contents (es_rcvRing k) = stored SOCK_DGRAM p @ rest" and "length buf < length p" and "0 < len"
  shows "Esp8266Recv (int fd) (Some buf) len s = None"
proof -
  obtain a where a: "fd < CN_ESP8266_SOCKMAX" "ew_socks s ! fd = Some a" "ew_heap s a = Some k" by (rule lookD[OF assms(3)])
  have k: "ring_ok (es_rcvRing k)" using look_ok[OF assms(1,3)] by (simp add: sock_ok_def)
  have "length (ring_contents (es_rcvRing k)) \<le> CONFIG_ESP8266_RCVCACHE"
    using look_ok[OF assms(1,3)] by (auto simp: sock_ok_def ring_ok_mk_ring length_contents)
  then have l: "length p < 65536" using assms(5) by (simp add: stored_def)
  have "ring_get SOCK_DGRAM len buf (es_rcvRing k) = None"
    by (rule ring_get_overflow[OF k _ l assms(6)]) (use assms(5) in \<open>simp add: stored_def\<close>)
  moreover have "ring_buffer_datalen (Some (es_rcvRing k)) > 0"
    using datalen_contents[OF k] assms(5) by (simp add: stored_def u16_bytes_def)
  ultimately have "sock_recv_loop n a len (-1) buf s = None" for n
    using assms(4) a(3) esp_lock_free[OF assms(2)] by (simp add: sock_recv_loop.simps[of n] recv_try_def)
  then show ?thesis using esp_sock_look[OF assms(1) a(2,3,1)] assms(7) by (simp add: Esp8266Recv_def)
qed


theorem esp_recv_overflows_witness:
  "Esp8266Recv 0 (Some [0]) 1 (set_sock 1 ((demo_sock 0 SOCK_DGRAM)\<lparr>es_rcvRing := mk_ring ([2, 0, 7, 8] @ replicate 1020 0) 4 0\<rparr>) demo_esp) = None"
proof -
  let ?k = "(demo_sock 0 SOCK_DGRAM)\<lparr>es_rcvRing := mk_ring ([2, 0, 7, 8] @ replicate 1020 0) 4 0\<rparr>"
  have k: "sock_ok ?k" using ring_okI[of 4 "[2, 0, 7, 8] @ replicate 1020 0" 0] by (simp add: sock_ok_def)
  have d: "ew_socks demo_esp ! 0 = Some 1" "ew_heap demo_esp 1 = Some (demo_sock 0 SOCK_DGRAM)" by (simp_all add: demo_esp_def)
  have l: "esp_ok (set_sock 1 ?k demo_esp)" "esp_look 0 (set_sock 1 ?k demo_esp) = Some ?k"
    using set_ring(1,2)[OF demo_ok _ d k] by simp_all
  have "ew_locks (set_sock 1 ?k demo_esp) = []" by (simp add: set_sock_def)
  from esp_recv_overflows[OF l(1) this l(2), of "[7, 8]" "[]" "[0]" 1] show ?thesis
    by (simp add: contents_mk_ring stored_def u16_bytes_def)
qed

end
