(* ===== verification/AlTables.thy ===== *)
theory AlTables
  imports MqttAl
begin

text \<open>
  The interfaces behind which the protocols are installed: \<^verbatim>\<open>network/coap/coap_al\<close>, \<^verbatim>\<open>network/lwm2m/lwm2m_al\<close>, \<^verbatim>\<open>network/dtls/dtls_al\<close> and, for the
  agents of the cloud service, \<^verbatim>\<open>oc/oc_lwm2m/oc_lwm2m_al\<close> and \<^verbatim>\<open>oc/oc_coap/oc_coap_al\<close>. Each has a place for one table of
  functions; a call goes to its function when there is one. The functions work on a state of the library, and a handle or another pointer that is only
  passed on is a number. What a function writes through a pointer is part of its result.

  The locale \<open>provider_slot\<close> is what the places have in common; those of CoAP, LwM2M, MQTT and of the two
  agents are interpretations, that of DTLS is not.
\<close>

section \<open>One provider at a time\<close>

datatype 'o slot_op = Install 'o | Remove

text \<open>The specification: a place that is free or taken. The results say whether a call had an effect.\<close>

fun slot_spec :: "'o slot_op list \<Rightarrow> 'o option \<Rightarrow> bool list \<times> 'o option" where
  "slot_spec [] p = ([], p)"
| "slot_spec (Install op # cs) p =
     (let (rs, q) = slot_spec cs (if p = None then Some op else p) in ((p = None) # rs, q))"
| "slot_spec (Remove # cs) p = (let (rs, q) = slot_spec cs None in ((p \<noteq> None) # rs, q))"

fun run_slot :: "('o \<Rightarrow> 's \<Rightarrow> int \<times> 's) \<Rightarrow> ('s \<Rightarrow> int \<times> 's) \<Rightarrow> 'o slot_op list \<Rightarrow> 's \<Rightarrow> int list \<times> 's" where
  "run_slot ins del [] s = ([], s)"
| "run_slot ins del (Install op # cs) s = (let (r, s) = ins op s; (rs, s) = run_slot ins del cs s in (r # rs, s))"
| "run_slot ins del (Remove # cs) s = (let (r, s) = del s; (rs, s) = run_slot ins del cs s in (r # rs, s))"

locale provider_slot =
  fixes ok :: "'s \<Rightarrow> bool" and look :: "'s \<Rightarrow> 'o option"
    and ins :: "'o \<Rightarrow> 's \<Rightarrow> int \<times> 's" and del :: "'s \<Rightarrow> int \<times> 's"
  assumes ins_free: "ok s \<Longrightarrow> look s = None \<Longrightarrow> ins op s = (r, s') \<Longrightarrow> r = 0 \<and> look s' = Some op \<and> ok s'"
    and ins_taken: "ok s \<Longrightarrow> look s = Some p \<Longrightarrow> ins op s = (r, s') \<Longrightarrow> r \<noteq> 0 \<and> s' = s"
    and del_law: "ok s \<Longrightarrow> del s = (r, s') \<Longrightarrow> (r = 0 \<longleftrightarrow> look s \<noteq> None) \<and> look s' = None \<and> ok s'"
begin

lemma run_refines:
  "ok s \<Longrightarrow> run_slot ins del cs s = (rs, s') \<Longrightarrow>
     ok s' \<and> slot_spec cs (look s) = (map (\<lambda>r. r = 0) rs, look s')"
proof (induction cs arbitrary: s rs)
  case Nil
  then show ?case by simp
next
  case (Cons c cs)
  show ?case
  proof (cases c)
    case (Install op)
    obtain r s1 where i: "ins op s = (r, s1)" by (cases "ins op s")
    obtain rs1 where rs1: "run_slot ins del cs s1 = (rs1, s')" "rs = r # rs1"
      using Cons.prems(2) Install i by (auto split: prod.splits)
    show ?thesis
    proof (cases "look s")
      case None
      then show ?thesis using ins_free[OF Cons.prems(1) None i] Cons.IH[OF _ rs1(1)] rs1(2) Install by auto
    next
      case (Some p)
      then show ?thesis using ins_taken[OF Cons.prems(1) Some i] Cons.IH[OF _ rs1(1)] Cons.prems(1) rs1(2) Install by auto
    qed
  next
    case Remove
    obtain r s1 where d: "del s = (r, s1)" by (cases "del s")
    obtain rs1 where rs1: "run_slot ins del cs s1 = (rs1, s')" "rs = r # rs1"
      using Cons.prems(2) Remove d by (auto split: prod.splits)
    show ?thesis using del_law[OF Cons.prems(1) d] Cons.IH[OF _ rs1(1)] rs1(2) Remove by auto
  qed
qed

text \<open>Whoever comes second waits until the first has left.\<close>

lemma first_stays:
  assumes "ok s" and "look s = Some p" and "run_slot ins del (map Install ops) s = (rs, s')"
  shows "look s' = Some p \<and> (\<forall>r \<in> set rs. r \<noteq> 0)"
proof -
  have "slot_spec (map Install ops) (Some p) = (replicate (length ops) False, Some p)"
    by (induction ops) auto
  then have m: "map (\<lambda>r. r = 0) rs = replicate (length ops) False" "look s' = Some p"
    using run_refines[OF assms(1,3)] assms(2) by simp_all
  have "\<forall>b \<in> set (map (\<lambda>r. r = 0) rs). \<not> b" unfolding m(1) by simp
  then show ?thesis using m(2) by simp
qed

end

text \<open>A call of a function of a table, or the default result.\<close>

definition via :: "'ops option \<Rightarrow> ('ops \<Rightarrow> ('m \<Rightarrow> 'r \<times> 'm) option) \<Rightarrow> 'r \<Rightarrow> 'm \<Rightarrow> 'r \<times> 'm" where
  "via ops sel dflt m = (case Option.bind ops sel of None \<Rightarrow> (dflt, m) | Some f \<Rightarrow> f m)"

interpretation mqtt_slot: provider_slot "\<lambda>_. True" al_ops "\<lambda>op. mqtt_al_install (Some op)" mqtt_al_uninstall
  by unfold_locales (auto simp: mqtt_al_install_def mqtt_al_uninstall_def split: if_splits)

section \<open>CoAP\<close>

record coap_al_initpara =
  ci_ep_id :: bytes
  ci_address :: bytes
  ci_port :: u16
  ci_ctx :: nat
  ci_session :: nat
  ci_keeplive :: u32
  ci_dealer :: "nat option"
  ci_psk :: "bytes option"
  ci_pskid :: "bytes option"
  ci_ssl :: nat
  ci_proto :: u8

record coap_al_reqpara =
  cr_ctx :: nat
  cr_session :: nat
  cr_msgtype :: u8
  cr_code :: u8
  cr_optlst :: nat
  cr_payload :: "bytes option"

record coap_al_sndpara =
  cs_handle :: nat
  cs_msg :: nat

record coap_al_rcvpara =
  cv_ctx :: nat
  cv_now :: int

record coap_al_optpara =
  co_head :: nat
  co_opt_num :: int
  co_data :: bytes

text \<open>The initialisation fills in the context, the session and the transport of its parameter.\<close>

record 'm coap_al_op =
  ca_init :: "(coap_al_initpara \<Rightarrow> 'm \<Rightarrow> (int \<times> coap_al_initpara) \<times> 'm) option"
  ca_deinit :: "(nat \<Rightarrow> 'm \<Rightarrow> int \<times> 'm) option"
  ca_add_opt :: "(coap_al_optpara \<Rightarrow> 'm \<Rightarrow> nat option \<times> 'm) option"
  ca_request :: "(coap_al_reqpara \<Rightarrow> 'm \<Rightarrow> nat option \<times> 'm) option"
  ca_send :: "(coap_al_sndpara \<Rightarrow> 'm \<Rightarrow> int \<times> 'm) option"
  ca_recv :: "(coap_al_rcvpara \<Rightarrow> 'm \<Rightarrow> int \<times> 'm) option"

record 'm coap_al_op_cb =
  ca_ops :: "'m coap_al_op option"
  ca_lib :: 'm

definition coap_al_install :: "'m coap_al_op option \<Rightarrow> 'm coap_al_op_cb \<Rightarrow> int \<times> 'm coap_al_op_cb" where
  "coap_al_install op s = (if op \<noteq> None \<and> ca_ops s = None then (0, s\<lparr>ca_ops := op\<rparr>) else (-1, s))"

definition coap_al_uninstall :: "'m coap_al_op_cb \<Rightarrow> int \<times> 'm coap_al_op_cb" where
  "coap_al_uninstall s = (if ca_ops s \<noteq> None then (0, s\<lparr>ca_ops := None\<rparr>) else (-1, s))"

definition coap_via :: "('m coap_al_op \<Rightarrow> ('m \<Rightarrow> 'r \<times> 'm) option) \<Rightarrow> 'r \<Rightarrow> 'm coap_al_op_cb \<Rightarrow> 'r \<times> 'm coap_al_op_cb" where
  "coap_via sel dflt s = (let (r, m) = via (ca_ops s) sel dflt (ca_lib s) in (r, s\<lparr>ca_lib := m\<rparr>))"

definition coap_al_imp_init :: "coap_al_initpara option \<Rightarrow> 'm coap_al_op_cb \<Rightarrow> (int \<times> coap_al_initpara option) \<times> 'm coap_al_op_cb" where
  "coap_al_imp_init initparam s =
     (case initparam of
        None \<Rightarrow> ((0, None), s)
      | Some p \<Rightarrow> let ((r, p), s) = coap_via (\<lambda>ops. map_option (\<lambda>f. f p) (ca_init ops)) (0, p) s in ((r, Some p), s))"

definition coap_al_imp_deinit :: "nat option \<Rightarrow> 'm coap_al_op_cb \<Rightarrow> int \<times> 'm coap_al_op_cb" where
  "coap_al_imp_deinit handle s =
     (case handle of None \<Rightarrow> (0, s) | Some h \<Rightarrow> coap_via (\<lambda>ops. map_option (\<lambda>f. f h) (ca_deinit ops)) 0 s)"

definition coap_al_add_option :: "coap_al_optpara option \<Rightarrow> 'm coap_al_op_cb \<Rightarrow> nat option \<times> 'm coap_al_op_cb" where
  "coap_al_add_option optparam s =
     (case optparam of None \<Rightarrow> (None, s) | Some p \<Rightarrow> coap_via (\<lambda>ops. map_option (\<lambda>f. f p) (ca_add_opt ops)) None s)"

definition coap_al_new_request :: "coap_al_reqpara option \<Rightarrow> 'm coap_al_op_cb \<Rightarrow> nat option \<times> 'm coap_al_op_cb" where
  "coap_al_new_request reqparam s =
     (case reqparam of None \<Rightarrow> (None, s) | Some p \<Rightarrow> coap_via (\<lambda>ops. map_option (\<lambda>f. f p) (ca_request ops)) None s)"

definition coap_al_send :: "coap_al_sndpara option \<Rightarrow> 'm coap_al_op_cb \<Rightarrow> int \<times> 'm coap_al_op_cb" where
  "coap_al_send sndparam s =
     (case sndparam of None \<Rightarrow> (0, s) | Some p \<Rightarrow> coap_via (\<lambda>ops. map_option (\<lambda>f. f p) (ca_send ops)) 0 s)"

definition coap_al_recv :: "coap_al_rcvpara option \<Rightarrow> 'm coap_al_op_cb \<Rightarrow> int \<times> 'm coap_al_op_cb" where
  "coap_al_recv rcvparam s =
     (case rcvparam of None \<Rightarrow> (0, s) | Some p \<Rightarrow> coap_via (\<lambda>ops. map_option (\<lambda>f. f p) (ca_recv ops)) 0 s)"

definition coap_imp_init_weak :: "'m coap_al_op_cb \<Rightarrow> int \<times> 'm coap_al_op_cb" where
  "coap_imp_init_weak s = (-1, s)"

definition coap_al_init :: "('m coap_al_op_cb \<Rightarrow> int \<times> 'm coap_al_op_cb) \<Rightarrow> 'm coap_al_op_cb \<Rightarrow> int \<times> 'm coap_al_op_cb" where
  "coap_al_init imp_init s = imp_init s"

interpretation coap_slot: provider_slot "\<lambda>_. True" ca_ops "\<lambda>op. coap_al_install (Some op)" coap_al_uninstall
  by unfold_locales (auto simp: coap_al_install_def coap_al_uninstall_def split: if_splits)


section \<open>LwM2M\<close>

abbreviation "LWM2M_ERR \<equiv> - 9 :: int"

record lwm2m_al_init_param =
  li_endpoint_name :: bytes
  li_dealer :: "nat option"
  li_user_data :: nat
  li_bootstrap_type :: int

record lwm2m_al_send_param =
  ls_object_id :: int
  ls_object_instance_id :: int
  ls_resource_id :: int
  ls_data :: bytes
  ls_mode :: int

text \<open>The configuration stores a handle through its first argument.\<close>

record 'm lwm2m_al_op =
  lo_config :: "(lwm2m_al_init_param \<Rightarrow> 'm \<Rightarrow> (int \<times> nat option) \<times> 'm) option"
  lo_deconfig :: "(nat \<Rightarrow> 'm \<Rightarrow> int \<times> 'm) option"
  lo_add_object :: "(nat \<Rightarrow> int \<Rightarrow> int \<Rightarrow> int \<Rightarrow> nat \<Rightarrow> 'm \<Rightarrow> int \<times> 'm) option"
  lo_delete_object :: "(nat \<Rightarrow> int \<Rightarrow> 'm \<Rightarrow> int \<times> 'm) option"
  lo_connect :: "(nat \<Rightarrow> 'm \<Rightarrow> int \<times> 'm) option"
  lo_disconnect :: "(nat \<Rightarrow> 'm \<Rightarrow> int \<times> 'm) option"
  lo_send :: "(nat \<Rightarrow> lwm2m_al_send_param \<Rightarrow> 'm \<Rightarrow> int \<times> 'm) option"

record 'm lwm2m_al_op_cb =
  lo_ops :: "'m lwm2m_al_op option"
  lo_lib :: 'm

definition lwm2m_via :: "('m lwm2m_al_op \<Rightarrow> ('m \<Rightarrow> 'r \<times> 'm) option) \<Rightarrow> 'r \<Rightarrow> 'm lwm2m_al_op_cb \<Rightarrow> 'r \<times> 'm lwm2m_al_op_cb" where
  "lwm2m_via sel dflt s = (let (r, m) = via (lo_ops s) sel dflt (lo_lib s) in (r, s\<lparr>lo_lib := m\<rparr>))"

text \<open>\<open>handle\<close> is what the place of the handle holds; \<open>None\<close> is no place.\<close>

definition lwm2m_al_config ::
  "nat option option \<Rightarrow> lwm2m_al_init_param option \<Rightarrow> 'm lwm2m_al_op_cb \<Rightarrow> (int \<times> nat option option) \<times> 'm lwm2m_al_op_cb" where
  "lwm2m_al_config handle init_param s =
     (case (handle, init_param) of
        (Some h, Some p) \<Rightarrow>
          let ((r, h), s) = lwm2m_via (\<lambda>ops. map_option (\<lambda>f. f p) (lo_config ops)) (LWM2M_ERR, h) s in ((r, Some h), s)
      | _ \<Rightarrow> ((LWM2M_ERR, handle), s))"

definition lwm2m_al_deconfig :: "nat option \<Rightarrow> 'm lwm2m_al_op_cb \<Rightarrow> int \<times> 'm lwm2m_al_op_cb" where
  "lwm2m_al_deconfig handle s =
     (case handle of None \<Rightarrow> (LWM2M_ERR, s) | Some h \<Rightarrow> lwm2m_via (\<lambda>ops. map_option (\<lambda>f. f h) (lo_deconfig ops)) LWM2M_ERR s)"

definition lwm2m_al_add_object ::
  "nat option \<Rightarrow> int \<Rightarrow> int \<Rightarrow> int \<Rightarrow> nat \<Rightarrow> 'm lwm2m_al_op_cb \<Rightarrow> int \<times> 'm lwm2m_al_op_cb" where
  "lwm2m_al_add_object handle object_id object_instance_id resource_id param s =
     (case handle of
        None \<Rightarrow> (LWM2M_ERR, s)
      | Some h \<Rightarrow>
          lwm2m_via (\<lambda>ops. map_option (\<lambda>f. f h object_id object_instance_id resource_id param) (lo_add_object ops)) LWM2M_ERR s)"

definition lwm2m_al_delete_object :: "nat option \<Rightarrow> int \<Rightarrow> 'm lwm2m_al_op_cb \<Rightarrow> int \<times> 'm lwm2m_al_op_cb" where
  "lwm2m_al_delete_object handle object_id s =
     (case handle of
        None \<Rightarrow> (LWM2M_ERR, s)
      | Some h \<Rightarrow> lwm2m_via (\<lambda>ops. map_option (\<lambda>f. f h object_id) (lo_delete_object ops)) LWM2M_ERR s)"

definition lwm2m_al_connect :: "nat option \<Rightarrow> 'm lwm2m_al_op_cb \<Rightarrow> int \<times> 'm lwm2m_al_op_cb" where
  "lwm2m_al_connect handle s =
     (case handle of None \<Rightarrow> (LWM2M_ERR, s) | Some h \<Rightarrow> lwm2m_via (\<lambda>ops. map_option (\<lambda>f. f h) (lo_connect ops)) LWM2M_ERR s)"

definition lwm2m_al_disconnect :: "nat option \<Rightarrow> 'm lwm2m_al_op_cb \<Rightarrow> int \<times> 'm lwm2m_al_op_cb" where
  "lwm2m_al_disconnect handle s =
     (case handle of None \<Rightarrow> (LWM2M_ERR, s) | Some h \<Rightarrow> lwm2m_via (\<lambda>ops. map_option (\<lambda>f. f h) (lo_disconnect ops)) LWM2M_ERR s)"

definition lwm2m_al_send :: "nat option \<Rightarrow> lwm2m_al_send_param option \<Rightarrow> 'm lwm2m_al_op_cb \<Rightarrow> int \<times> 'm lwm2m_al_op_cb" where
  "lwm2m_al_send handle send_param s =
     (case (handle, send_param) of
        (Some h, Some p) \<Rightarrow> lwm2m_via (\<lambda>ops. map_option (\<lambda>f. f h p) (lo_send ops)) LWM2M_ERR s
      | _ \<Rightarrow> (LWM2M_ERR, s))"

definition lwm2m_al_install :: "'m lwm2m_al_op option \<Rightarrow> 'm lwm2m_al_op_cb \<Rightarrow> int \<times> 'm lwm2m_al_op_cb" where
  "lwm2m_al_install op s = (if op \<noteq> None \<and> lo_ops s = None then (0, s\<lparr>lo_ops := op\<rparr>) else (LWM2M_ERR, s))"

definition lwm2m_al_uninstall :: "'m lwm2m_al_op_cb \<Rightarrow> int \<times> 'm lwm2m_al_op_cb" where
  "lwm2m_al_uninstall s = (if lo_ops s \<noteq> None then (0, s\<lparr>lo_ops := None\<rparr>) else (LWM2M_ERR, s))"

definition lwm2m_imp_init_weak :: "'m lwm2m_al_op_cb \<Rightarrow> int \<times> 'm lwm2m_al_op_cb" where
  "lwm2m_imp_init_weak s = (-1, s)"

definition lwm2m_al_init :: "('m lwm2m_al_op_cb \<Rightarrow> int \<times> 'm lwm2m_al_op_cb) \<Rightarrow> 'm lwm2m_al_op_cb \<Rightarrow> int \<times> 'm lwm2m_al_op_cb" where
  "lwm2m_al_init imp_init s = imp_init s"

interpretation lwm2m_slot: provider_slot "\<lambda>_. True" lo_ops "\<lambda>op. lwm2m_al_install (Some op)" lwm2m_al_uninstall
  by unfold_locales (auto simp: lwm2m_al_install_def lwm2m_al_uninstall_def split: if_splits)

section \<open>DTLS\<close>

datatype en_dtls_al_err = EN_DTLS_AL_ERR_OK | EN_DTLS_AL_ERR_PARA | EN_DTLS_AL_ERR_SYS | EN_DTLS_AL_ERR_SYSMEM
  | EN_DTLS_AL_ERR_NOCONFIG | EN_DTLS_AL_ERR_NETWORK | EN_DTLS_AL_ERR_SERVERCERTPARSE | EN_DTLS_AL_ERR_CLIENTCERTPARSE
  | EN_DTLS_AL_ERR_CLIENTPKPARSE

record dtls_al_para =
  da_istcp :: int
  da_isclient :: int
  da_security :: dtls_security

text \<open>A new connection stores a handle; a read stores bytes.\<close>

record 'm dtls_al_io =
  io_new :: "(dtls_al_para option \<Rightarrow> 'm \<Rightarrow> (en_dtls_al_err \<times> nat option) \<times> 'm) option"
  io_connect :: "(nat option \<Rightarrow> bytes \<Rightarrow> bytes \<Rightarrow> int \<Rightarrow> 'm \<Rightarrow> int \<times> 'm) option"
  io_write :: "(nat option \<Rightarrow> bytes \<Rightarrow> int \<Rightarrow> 'm \<Rightarrow> int \<times> 'm) option"
  io_read :: "(nat option \<Rightarrow> nat \<Rightarrow> int \<Rightarrow> 'm \<Rightarrow> (int \<times> bytes) \<times> 'm) option"
  io_destroy :: "(nat option \<Rightarrow> 'm \<Rightarrow> en_dtls_al_err \<times> 'm) option"

record 'm dtls_al =
  dl_name :: bytes
  dl_io :: "'m dtls_al_io"

record 'm dtls_al_cb =
  dl_dtls :: "'m dtls_al option"
  dl_lib :: 'm

definition dtls_via :: "('m dtls_al_io \<Rightarrow> ('m \<Rightarrow> 'r \<times> 'm) option) \<Rightarrow> 'r \<Rightarrow> 'm dtls_al_cb \<Rightarrow> 'r \<times> 'm dtls_al_cb" where
  "dtls_via sel dflt s = (let (r, m) = via (dl_dtls s) (\<lambda>d. sel (dl_io d)) dflt (dl_lib s) in (r, s\<lparr>dl_lib := m\<rparr>))"

definition dtls_al_new :: "dtls_al_para option \<Rightarrow> nat option \<Rightarrow> 'm dtls_al_cb \<Rightarrow> (en_dtls_al_err \<times> nat option) \<times> 'm dtls_al_cb" where
  "dtls_al_new para handle = dtls_via (\<lambda>io. map_option (\<lambda>f. f para) (io_new io)) (EN_DTLS_AL_ERR_NOCONFIG, handle)"

definition dtls_al_connect :: "nat option \<Rightarrow> bytes \<Rightarrow> bytes \<Rightarrow> int \<Rightarrow> 'm dtls_al_cb \<Rightarrow> int \<times> 'm dtls_al_cb" where
  "dtls_al_connect handle server_ip server_port timeout =
     dtls_via (\<lambda>io. map_option (\<lambda>f. f handle server_ip server_port timeout) (io_connect io)) (-1)"

definition dtls_al_write :: "nat option \<Rightarrow> bytes \<Rightarrow> int \<Rightarrow> 'm dtls_al_cb \<Rightarrow> int \<times> 'm dtls_al_cb" where
  "dtls_al_write handle msg timeout = dtls_via (\<lambda>io. map_option (\<lambda>f. f handle msg timeout) (io_write io)) 0"

definition dtls_al_read :: "nat option \<Rightarrow> nat \<Rightarrow> int \<Rightarrow> 'm dtls_al_cb \<Rightarrow> (int \<times> bytes) \<times> 'm dtls_al_cb" where
  "dtls_al_read handle len timeout = dtls_via (\<lambda>io. map_option (\<lambda>f. f handle len timeout) (io_read io)) (0, [])"

definition dtls_al_destroy :: "nat option \<Rightarrow> 'm dtls_al_cb \<Rightarrow> en_dtls_al_err \<times> 'm dtls_al_cb" where
  "dtls_al_destroy handle = dtls_via (\<lambda>io. map_option (\<lambda>f. f handle) (io_destroy io)) EN_DTLS_AL_ERR_NOCONFIG"

definition dtls_al_install :: "'m dtls_al option \<Rightarrow> 'm dtls_al_cb \<Rightarrow> int \<times> 'm dtls_al_cb" where
  "dtls_al_install dtls s = (if dl_dtls s = None then (0, s\<lparr>dl_dtls := dtls\<rparr>) else (-1, s))"

definition dtls_al_uninstall :: "bytes \<Rightarrow> 'm dtls_al_cb \<Rightarrow> int \<times> 'm dtls_al_cb" where
  "dtls_al_uninstall name s =
     (case dl_dtls s of None \<Rightarrow> (-1, s) | Some d \<Rightarrow> (-1, if name = dl_name d then s\<lparr>dl_dtls := None\<rparr> else s))"

definition dtls_imp_init_weak :: "'m dtls_al_cb \<Rightarrow> int \<times> 'm dtls_al_cb" where
  "dtls_imp_init_weak s = (-1, s)"

definition dtls_al_init :: "('m dtls_al_cb \<Rightarrow> int \<times> 'm dtls_al_cb) \<Rightarrow> 'm dtls_al_cb \<Rightarrow> int \<times> 'm dtls_al_cb" where
  "dtls_al_init imp_init s = imp_init s"

section \<open>The agents of the cloud service\<close>

record oc_server =
  sv_ep_id :: "bytes option"
  sv_address :: "bytes option"
  sv_port :: "bytes option"
  sv_psk_id :: "bytes option"
  sv_psk :: "bytes option"

datatype en_oc_boot_strap_mode = en_oc_boot_strap_mode_factory | en_oc_boot_strap_mode_client_initialize
  | en_oc_boot_strap_mode_sequence

record oc_config_param =
  oc_boot_mode :: en_oc_boot_strap_mode
  oc_boot_server :: oc_server
  oc_app_server :: oc_server
  oc_rcv_func :: "nat option"
  oc_usr_data :: nat

text \<open>The error codes of LwM2M that the functions return.\<close>

abbreviation "en_oc_lwm2m_err_ok \<equiv> 0 :: int"
abbreviation "en_oc_lwm2m_err_parafmt \<equiv> 1 :: int"
abbreviation "en_oc_lwm2m_err_network \<equiv> 2 :: int"
abbreviation "en_oc_lwm2m_err_noconfigured \<equiv> 4 :: int"
abbreviation "en_oc_lwm2m_err_configured \<equiv> 5 :: int"
abbreviation "en_oc_lwm2m_err_system \<equiv> 9 :: int"

record 'm oc_lwm2m_opt =
  ol_config :: "(oc_config_param \<Rightarrow> 'm \<Rightarrow> int \<times> 'm) option"
  ol_report :: "(bytes option \<Rightarrow> int \<Rightarrow> int \<Rightarrow> 'm \<Rightarrow> int \<times> 'm) option"
  ol_deconfig :: "('m \<Rightarrow> int \<times> 'm) option"

record 'm oc_lwm2m =
  ol_name :: "bytes option"
  ol_opt :: "'m oc_lwm2m_opt option"
  ol_lib :: 'm

definition oc_lwm2m_register :: "bytes option \<Rightarrow> 'm oc_lwm2m_opt option \<Rightarrow> 'm oc_lwm2m \<Rightarrow> int \<times> 'm oc_lwm2m" where
  "oc_lwm2m_register name opt s = (if ol_opt s = None then (0, s\<lparr>ol_name := name, ol_opt := opt\<rparr>) else (-1, s))"

definition oc_lwm2m_unregister :: "bytes option \<Rightarrow> 'm oc_lwm2m \<Rightarrow> int \<times> 'm oc_lwm2m" where
  "oc_lwm2m_unregister name s =
     (if name \<noteq> None \<and> ol_name s \<noteq> None \<and> name = ol_name s then (0, s\<lparr>ol_opt := None, ol_name := None\<rparr>) else (-1, s))"

definition lwm2m_agent :: "('m oc_lwm2m_opt \<Rightarrow> ('m \<Rightarrow> 'r \<times> 'm) option) \<Rightarrow> 'r \<Rightarrow> 'm oc_lwm2m \<Rightarrow> 'r \<times> 'm oc_lwm2m" where
  "lwm2m_agent sel dflt s = (let (r, m) = via (ol_opt s) sel dflt (ol_lib s) in (r, s\<lparr>ol_lib := m\<rparr>))"

definition oc_lwm2m_report :: "bytes option \<Rightarrow> int \<Rightarrow> int \<Rightarrow> 'm oc_lwm2m \<Rightarrow> int \<times> 'm oc_lwm2m" where
  "oc_lwm2m_report buf len timeout =
     lwm2m_agent (\<lambda>ops. map_option (\<lambda>f. f buf len timeout) (ol_report ops)) en_oc_lwm2m_err_system"

definition oc_lwm2m_config :: "oc_config_param option \<Rightarrow> 'm oc_lwm2m \<Rightarrow> int \<times> 'm oc_lwm2m" where
  "oc_lwm2m_config param =
     lwm2m_agent (\<lambda>ops. map_option (\<lambda>f. case param of None \<Rightarrow> Pair en_oc_lwm2m_err_parafmt | Some p \<Rightarrow> f p) (ol_config ops))
       en_oc_lwm2m_err_system"

definition oc_lwm2m_deconfig :: "'m oc_lwm2m \<Rightarrow> int \<times> 'm oc_lwm2m" where
  "oc_lwm2m_deconfig = lwm2m_agent ol_deconfig en_oc_lwm2m_err_system"

definition oc_lwm2m_imp_init_weak :: "'m oc_lwm2m \<Rightarrow> int \<times> 'm oc_lwm2m" where
  "oc_lwm2m_imp_init_weak s = (-1, s)"

definition oc_lwm2m_init :: "('m oc_lwm2m \<Rightarrow> int \<times> 'm oc_lwm2m) \<Rightarrow> 'm oc_lwm2m \<Rightarrow> int \<times> 'm oc_lwm2m" where
  "oc_lwm2m_init imp_init s = (0, snd (imp_init s))"

text \<open>Under one name, which is stored exactly with a table.\<close>

interpretation oc_lwm2m_slot: provider_slot "\<lambda>s. ol_name s = (if ol_opt s = None then None else Some name)" ol_opt
    "\<lambda>op. oc_lwm2m_register (Some name) (Some op)" "oc_lwm2m_unregister (Some name)" for name
  by unfold_locales (auto simp: oc_lwm2m_register_def oc_lwm2m_unregister_def split: if_splits)

text \<open>CoAP: a context is a block with the handle of the agent and its table.\<close>

record 'm oc_coap_opt =
  oo_config :: "(oc_config_param \<Rightarrow> 'm \<Rightarrow> nat option \<times> 'm) option"
  oo_report :: "(nat \<Rightarrow> bytes \<Rightarrow> 'm \<Rightarrow> int \<times> 'm) option"
  oo_deconfig :: "(nat \<Rightarrow> 'm \<Rightarrow> int \<times> 'm) option"

record 'm oc_coap_context =
  ox_handle :: nat
  ox_ops :: "'m oc_coap_opt"
  ox_param :: oc_config_param

record 'm oc_coap =
  oo_name :: "bytes option"
  oo_opt :: "'m oc_coap_opt option"
  oo_heap :: "nat \<Rightarrow> 'm oc_coap_context option"
  oo_mallocs :: "nat option list"
  oo_lib :: 'm

definition oc_coap_register :: "bytes option \<Rightarrow> 'm oc_coap_opt option \<Rightarrow> 'm oc_coap \<Rightarrow> int \<times> 'm oc_coap" where
  "oc_coap_register name opt s = (if oo_opt s = None then (0, s\<lparr>oo_name := name, oo_opt := opt\<rparr>) else (-1, s))"

definition oc_coap_unregister :: "bytes option \<Rightarrow> 'm oc_coap \<Rightarrow> int \<times> 'm oc_coap" where
  "oc_coap_unregister name s =
     (if name \<noteq> None \<and> oo_name s \<noteq> None \<and> name = oo_name s then (0, s\<lparr>oo_opt := None, oo_name := None\<rparr>) else (-1, s))"

text \<open>A context that was freed is undefined.\<close>

definition oc_coap_report :: "nat option \<Rightarrow> bytes \<Rightarrow> 'm oc_coap \<Rightarrow> (int \<times> 'm oc_coap) option" where
  "oc_coap_report context buf s =
     (case context of
        None \<Rightarrow> Some (-1, s)
      | Some a \<Rightarrow> do {
          x \<leftarrow> oo_heap s a;
          Some (let (r, m) = via (Some (ox_ops x)) (\<lambda>ops. map_option (\<lambda>f. f (ox_handle x) buf) (oo_report ops)) (-1) (oo_lib s)
                in (r, s\<lparr>oo_lib := m\<rparr>)) })"

text \<open>The block is the next of \<open>oo_mallocs\<close>; the parameter is read behind its pointer.\<close>

definition oc_coap_config :: "oc_config_param option \<Rightarrow> 'm oc_coap \<Rightarrow> (nat option \<times> 'm oc_coap) option" where
  "oc_coap_config param s =
     (case Option.bind (oo_opt s) oo_config of
        None \<Rightarrow> Some (None, s)
      | Some f \<Rightarrow>
          (case oo_mallocs s of
             [] \<Rightarrow> Some (None, s)
           | None # ms \<Rightarrow> Some (None, s\<lparr>oo_mallocs := ms\<rparr>)
           | Some a # ms \<Rightarrow> do {
               p \<leftarrow> param;
               ops \<leftarrow> oo_opt s;
               let (h, m) = f p (oo_lib s);
               let s = s\<lparr>oo_mallocs := ms, oo_lib := m\<rparr>;
               Some (case h of
                       None \<Rightarrow> (None, s)
                     | Some h \<Rightarrow> (Some a, s\<lparr>oo_heap := (oo_heap s)(a \<mapsto> \<lparr>ox_handle = h, ox_ops = ops, ox_param = p\<rparr>)\<rparr>)) }))"

definition oc_coap_deconfig :: "nat option \<Rightarrow> 'm oc_coap \<Rightarrow> (int \<times> 'm oc_coap) option" where
  "oc_coap_deconfig context s =
     (case context of
        None \<Rightarrow> Some (-1, s)
      | Some a \<Rightarrow> do {
          x \<leftarrow> oo_heap s a;
          (case oo_deconfig (ox_ops x) of
             None \<Rightarrow> Some (-1, s)
           | Some f \<Rightarrow>
               let (r, m) = f (ox_handle x) (oo_lib s); s = s\<lparr>oo_lib := m\<rparr>
               in Some (r, if r = 0 then s\<lparr>oo_heap := (oo_heap s)(a := None)\<rparr> else s)) })"

definition oc_coap_imp_init_weak :: "'m oc_coap \<Rightarrow> int \<times> 'm oc_coap" where
  "oc_coap_imp_init_weak s = (-1, s)"

definition oc_coap_init :: "('m oc_coap \<Rightarrow> int \<times> 'm oc_coap) \<Rightarrow> 'm oc_coap \<Rightarrow> int \<times> 'm oc_coap" where
  "oc_coap_init imp_init s = imp_init s"

interpretation oc_coap_slot: provider_slot "\<lambda>s. oo_name s = (if oo_opt s = None then None else Some name)" oo_opt
    "\<lambda>op. oc_coap_register (Some name) (Some op)" "oc_coap_unregister (Some name)" for name
  by unfold_locales (auto simp: oc_coap_register_def oc_coap_unregister_def split: if_splits)

end
