(* ===== verification/LiteCoapPort.thy ===== *)
theory LiteCoapPort
  imports CoapServer AlTables ModemText Sal
begin

text \<open>
  What makes the CoAP library a client of the cloud service: \<^verbatim>\<open>network/coap/lite_coap/port\<close>, with the memory, the sockets and the contexts of
  \<^verbatim>\<open>coap_osdepends.c\<close> over \<open>Sal\<close>, and the operations and handlers of \<^verbatim>\<open>litecoap_port.c\<close> behind \<open>coap_al_install\<close>. Built without DTLS.

  The world of a context is the state of the port, or nothing after undefined behaviour in a call of the network or of
  a handler. A connection is a context with its socket. Messages and lists of options are values; where the code follows one that it has
  freed the result is undefined. The lists of \<open>osal_malloc\<close> outcomes are \<open>lp_mallocs\<close> for the port and another one for a context.
\<close>

section \<open>State\<close>

abbreviation "LITECOAP_CONSTRAINED_BUF_SIZE \<equiv> 256 :: nat"
abbreviation "RANDOM_TOKEN_LEN \<equiv> 8 :: int"
abbreviation "LITECOAP_SOCKET_HANDLER_ERR \<equiv> -14 :: int"
abbreviation "LITECOAP_SOCKET_SETOPT_ERR \<equiv> -17 :: int"
abbreviation "LITECOAP_SOCKET_ADDRCHK_ERR \<equiv> -19 :: int"
abbreviation "SOL_SOCKET \<equiv> 0xffff :: int"
abbreviation "SO_RCVTIMEO \<equiv> 0x1006 :: int"
abbreviation "COAP_REQUEST_GET \<equiv> 1 :: u8"
abbreviation "COAP_REQUEST_POST \<equiv> 2 :: u8"
abbreviation "COAP_OPTION_OBSERVE \<equiv> 6 :: u16"
abbreviation "COAP_OPTION_CONTENT_FORMAT \<equiv> 12 :: u16"

text \<open>\<open>lp_rands\<close> is what \<^verbatim>\<open>rand() % RAND_MAX\<close> is after each \<^verbatim>\<open>srand\<close>; a call of the dealer of the application is logged with the payload.\<close>

record 'p coap_port =
  lp_sal :: "'p tag_sal_cb"
  lp_cmd_func :: "nat option"
  lp_calls :: "(nat \<times> bytes option) list"
  lp_tok :: bytes
  lp_tok_len :: int
  lp_bind_finsh :: bool
  lp_mallocs :: "bool list"
  lp_rands :: "u32 list"

definition lp_malloc :: "'p coap_port \<Rightarrow> bool \<times> 'p coap_port" where
  "lp_malloc w = (let (ok, os) = alloc (lp_mallocs w) in (ok, w\<lparr>lp_mallocs := os\<rparr>))"

definition litecoap_get_random :: "'p coap_port \<Rightarrow> u32 \<times> 'p coap_port" where
  "litecoap_get_random w = (case lp_rands w of [] \<Rightarrow> (0, w) | r # rs \<Rightarrow> (r, w\<lparr>lp_rands := rs\<rparr>))"

text \<open>The token has eight bytes, of which four are random.\<close>

definition litecoap_generate_token :: "'p coap_port \<Rightarrow> (int \<times> 'p coap_port) option" where
  "litecoap_generate_token w = do {
     let (r, w) = litecoap_get_random w;
     tok \<leftarrow> put 0 [ucast r, ucast (drop_bit 8 r), ucast (drop_bit 16 r), ucast (drop_bit 24 r)] (lp_tok w);
     Some (RANDOM_TOKEN_LEN, w\<lparr>lp_tok := tok\<rparr>) }"

section \<open>Sockets\<close>

definition litecoap_check_validip :: "bytes option \<Rightarrow> int option" where
  "litecoap_check_validip ipaddr =
     (case ipaddr of
        None \<Rightarrow> Some LITECOAP_PARAM_NULL
      | Some ipaddr \<Rightarrow> do {
          ns \<leftarrow> scan_dots 4 ipaddr;
          Some (if length ns \<noteq> 4 then LITECOAP_SOCKET_ADDRCHK_ERR
                else if list_all (\<lambda>a. a \<ge> 0 \<and> a \<le> 255) ns then LITECOAP_OK
                else LITECOAP_SOCKET_ADDRCHK_ERR) })"

record udp_res_t =
  ur_fd :: int
  ur_remoteAddr :: bytes
  ur_ssl :: nat

text \<open>The memory of a \<^verbatim>\<open>struct sockaddr_in\<close>.\<close>

definition coap_remote :: "bytes \<Rightarrow> u16 \<Rightarrow> bytes" where
  "coap_remote addr port = [2, 0, ucast (drop_bit 8 port), ucast port] @ addr @ replicate 8 0"

definition litecoap_new_resource ::
  "bytes option \<Rightarrow> u16 \<Rightarrow> nat \<Rightarrow> u8 \<Rightarrow> 'p coap_port \<Rightarrow> (udp_res_t option \<times> 'p coap_port) option" where
  "litecoap_new_resource ipaddr port ssl proto w =
     (case ipaddr of
        None \<Rightarrow> Some (None, w)
      | Some ip \<Rightarrow> do {
          ret \<leftarrow> litecoap_check_validip ipaddr;
          if ret \<noteq> LITECOAP_OK then Some (None, w)
          else
            (case lp_malloc w of
               (False, w) \<Rightarrow> Some (None, w)
             | (True, w) \<Rightarrow> do {
                 (fd, sal) \<leftarrow> sal_socket AF_INET (if proto = COAP_PROTO_UDP then 2 else 1) 0 (lp_sal w);
                 let w = w\<lparr>lp_sal := sal\<rparr>;
                 if fd < 0 then Some (None, w)
                 else do {
                   addr \<leftarrow> inet_addr ip;
                   let remote = coap_remote addr port;
                   (_, sal) \<leftarrow> sal_connect fd remote (lp_sal w);
                   Some (Some \<lparr>ur_fd = fd, ur_remoteAddr = remote, ur_ssl = ssl\<rparr>, w\<lparr>lp_sal := sal\<rparr>) } }) })"

definition litecoap_delete_resource :: "udp_res_t option \<Rightarrow> 'p coap_port \<Rightarrow> (int \<times> 'p coap_port) option" where
  "litecoap_delete_resource res w =
     (case res of
        None \<Rightarrow> Some (LITECOAP_PARAM_NULL, w)
      | Some tmp \<Rightarrow> do {
          w \<leftarrow> (if ur_fd tmp \<ge> 0
                then do { (_, sal) \<leftarrow> sal_closesocket (ur_fd tmp) (lp_sal w); Some (w\<lparr>lp_sal := sal\<rparr>) } else Some w);
          Some (LITECOAP_OK, w) })"

text \<open>A size below zero becomes a \<^verbatim>\<open>size_t\<close> beyond the buffer.\<close>

definition litecoap_sal_send :: "udp_res_t option \<Rightarrow> bytes option \<Rightarrow> int \<Rightarrow> 'p coap_port \<Rightarrow> (int \<times> 'p coap_port) option" where
  "litecoap_sal_send handle buf n w =
     (case (handle, buf) of
        (Some res, Some buf) \<Rightarrow>
          if ur_fd res < 0 then Some (LITECOAP_SOCKET_HANDLER_ERR, w)
          else do {
            data \<leftarrow> (if n < 0 then None else fetch 0 (nat n) buf);
            (n, sal) \<leftarrow> sal_sendto (ur_fd res) data 0 (ur_remoteAddr res) (lp_sal w);
            Some (n, w\<lparr>lp_sal := sal\<rparr>) }
      | _ \<Rightarrow> Some (LITECOAP_PARAM_NULL, w))"

text \<open>The time of one second that a read waits.\<close>

definition litecoap_tv :: bytes where
  "litecoap_tv = [1, 0, 0, 0, 0, 0, 0, 0] @ replicate 8 0"

definition litecoap_sal_read :: "udp_res_t option \<Rightarrow> nat \<Rightarrow> 'p coap_port \<Rightarrow> ((int \<times> bytes) \<times> 'p coap_port) option" where
  "litecoap_sal_read handle len w =
     (case handle of
        None \<Rightarrow> Some ((LITECOAP_PARAM_NULL, []), w)
      | Some res \<Rightarrow>
          if ur_fd res < 0 then Some ((LITECOAP_SOCKET_HANDLER_ERR, []), w)
          else do {
            (ret, sal) \<leftarrow> sal_setsockopt (ur_fd res) SOL_SOCKET SO_RCVTIMEO litecoap_tv (lp_sal w);
            if ret < 0 then Some ((LITECOAP_SOCKET_SETOPT_ERR, []), w\<lparr>lp_sal := sal\<rparr>)
            else do {
              ((n, data, _), sal) \<leftarrow> sal_recvfrom (ur_fd res) len 0 sal;
              Some ((n, data), w\<lparr>lp_sal := sal\<rparr>) } })"

section \<open>Contexts\<close>

record 'p coap_conn =
  cn_ctx :: "'p coap_port option coap_context"
  cn_udpio :: "udp_res_t option"

text \<open>A new context allocates from \<open>mallocs\<close> and reads \<open>clock\<close> later. What \<^verbatim>\<open>osal_malloc\<close> leaves in its buffers is not read.\<close>

definition litecoap_malloc_context ::
  "bool list \<Rightarrow> (nat \<Rightarrow> u64) \<Rightarrow> udp_res_t option \<Rightarrow> 'p coap_port \<Rightarrow> 'p coap_conn option \<times> 'p coap_port" where
  "litecoap_malloc_context mallocs clock res w =
     (if res = None then (None, w)
      else case lp_malloc w of
        (False, w) \<Rightarrow> (None, w)
      | (True, w) \<Rightarrow>
          (case lp_malloc w of
             (False, w) \<Rightarrow> (None, w)
           | (True, w) \<Rightarrow>
               (case lp_malloc w of
                  (False, w) \<Rightarrow> (None, w)
                | (True, w) \<Rightarrow>
                    let (r, w) = litecoap_get_random w
                    in (Some \<lparr>cn_ctx = \<lparr>cx_proto = 0, cx_msgid = ucast r, cx_sndbuf = Some (replicate LITECOAP_CONSTRAINED_BUF_SIZE 0),
                          cx_sndlen = int LITECOAP_CONSTRAINED_BUF_SIZE,
                          cx_net_read = lift_call (0, []) (litecoap_sal_read res LITECOAP_CONSTRAINED_BUF_SIZE),
                          cx_net_send = (\<lambda>buf n. lift_call 0 (litecoap_sal_send res buf n)),
                          cx_handler = None, cx_resndque = [], cx_sndque = [], cx_res = None, cx_max_retransmit = 0,
                          cx_ack_timeout = (0, 0), cx_ack_random = (0, 0), cx_base_time = 0, cx_mallocs = mallocs, cx_clock = clock,
                          cx_ticks = 0, cx_world = Some w\<rparr>,
                        cn_udpio = res\<rparr>, w))))"

text \<open>The world of the connection is what is left; the messages of the queues are freed with it.\<close>

definition litecoap_free_context :: "'p coap_conn option \<Rightarrow> 'p coap_port \<Rightarrow> (int \<times> 'p coap_port) option" where
  "litecoap_free_context ctx w =
     (case ctx of
        None \<Rightarrow> Some (LITECOAP_PARAM_NULL, w)
      | Some tmp \<Rightarrow> do {
          w \<leftarrow> cx_world (cn_ctx tmp);
          w \<leftarrow> (if cn_udpio tmp \<noteq> None then map_option snd (litecoap_delete_resource (cn_udpio tmp) w) else Some w);
          Some (LITECOAP_OK, w) })"

section \<open>Handlers\<close>

text \<open>The response has the message id of the request. Its list of options is lost when it is not allocated.\<close>

definition same_id :: "coap_msg \<Rightarrow> coap_msg \<Rightarrow> coap_msg" where
  "same_id rcvmsg outmsg = outmsg\<lparr>cm_head := (cm_head outmsg)
     \<lparr>ch_msgid0 := ch_msgid0 (cm_head rcvmsg), ch_msgid1 := ch_msgid1 (cm_head rcvmsg)\<rparr>\<rparr>"

definition handle_observe_request :: "coap_msg \<Rightarrow> coap_msg \<Rightarrow> 'p coap_port option \<Rightarrow> coap_msg \<times> 'p coap_port option" where
  "handle_observe_request rcvmsg outmsg w =
     (let outmsg = same_id rcvmsg outmsg in
      case w of
        None \<Rightarrow> (outmsg, None)
      | Some w \<Rightarrow>
          (case add_option_to_list [] COAP_OPTION_CONTENT_FORMAT (Some [0xff, 0xff]) 2 (lp_mallocs w) of
             None \<Rightarrow> (outmsg, None)
           | Some (opts, os) \<Rightarrow> (snd (add_option outmsg opts), Some (w\<lparr>lp_mallocs := os\<rparr>))))"

definition handle_cmd_request :: "coap_msg \<Rightarrow> coap_msg \<Rightarrow> 'p coap_port option \<Rightarrow> coap_msg \<times> 'p coap_port option" where
  "handle_cmd_request rcvmsg outmsg w =
     (same_id rcvmsg outmsg,
      map_option (\<lambda>w. case lp_cmd_func w of None \<Rightarrow> w | Some f \<Rightarrow> w\<lparr>lp_calls := lp_calls w @ [(f, cm_payload rcvmsg)]\<rparr>) w)"

definition g_oclink_res :: "'p coap_port option coap_res list" where
  "g_oclink_res =
     [\<lparr>re_method = COAP_REQUEST_GET, re_handler = Some handle_observe_request, re_count = 2, re_elems = [bytes_of ''t'', bytes_of ''d'']\<rparr>,
      \<lparr>re_method = COAP_REQUEST_POST, re_handler = Some handle_cmd_request, re_count = 2, re_elems = [bytes_of ''t'', bytes_of ''d'']\<rparr>,
      \<lparr>re_method = 0, re_handler = None, re_count = 0, re_elems = []\<rparr>]"

text \<open>The first option and the token are read through their pointers. The codes that the code tells apart behind this have no effect.\<close>

definition on_world :: "('p coap_port \<Rightarrow> 'p coap_port option) \<Rightarrow> 'p coap_port option coap_context \<Rightarrow> 'p coap_port option coap_context option" where
  "on_world f ctx = do { w \<leftarrow> cx_world ctx; w \<leftarrow> f w; Some (ctx\<lparr>cx_world := Some w\<rparr>) }"

definition handle_coap_response :: "'p coap_port option coap_context \<Rightarrow> coap_msg \<Rightarrow> 'p coap_port option coap_context option" where
  "handle_coap_response ctx msg = do {
     let head = cm_head msg;
     observe \<leftarrow> (if ch_t head = COAP_MESSAGE_CON \<and> ch_code head = COAP_REQUEST_GET
                 then (case cm_option msg of [] \<Rightarrow> None | opt # _ \<Rightarrow> Some (co_optnum opt = COAP_OPTION_OBSERVE))
                 else Some False);
     if observe
     then on_world (\<lambda>w.
       if \<not> lp_bind_finsh w
       then do {
         tok \<leftarrow> cm_tok msg;
         g_tok \<leftarrow> put 0 tok (lp_tok w);
         Some (w\<lparr>lp_tok := g_tok, lp_tok_len := int (length tok), lp_bind_finsh := True\<rparr>) }
       else Some (w\<lparr>lp_tok_len := 0, lp_bind_finsh := False\<rparr>)) ctx
     else if ch_t head = COAP_MESSAGE_RST
     then on_world (\<lambda>w. Some (w\<lparr>lp_bind_finsh := False, lp_tok := replicate (length (lp_tok w)) 0xf1, lp_tok_len := 8\<rparr>)) ctx
     else Some ctx }"

abbreviation "RESPONSE_HANDLER \<equiv> 1 :: nat"

definition port_call :: "nat \<Rightarrow> coap_msg \<Rightarrow> 'p coap_port option coap_context \<Rightarrow> 'p coap_port option coap_context option" where
  "port_call f msg ctx = (if f = RESPONSE_HANDLER then handle_coap_response ctx msg else Some ctx)"

section \<open>The operations\<close>

definition ctx_message ::
  "u8 \<Rightarrow> u8 \<Rightarrow> coap_option list \<Rightarrow> bytes option \<Rightarrow> 'w coap_context \<Rightarrow> coap_msg option \<times> 'w coap_context" where
  "ctx_message msgtype code opts payload ctx =
     (let (m, msgid, os) = new_msg (cx_msgid ctx) msgtype code opts payload (cx_mallocs ctx)
      in (m, ctx\<lparr>cx_msgid := msgid, cx_mallocs := os\<rparr>))"

definition port_send_msg :: "coap_msg option \<Rightarrow> 'p coap_port option coap_context \<Rightarrow> (int \<times> 'p coap_port option coap_context) option" where
  "port_send_msg msg ctx = (case msg of None \<Rightarrow> Some (LITECOAP_PARAM_NULL, ctx) | Some msg \<Rightarrow> litecoap_send msg ctx)"

text \<open>The message with the capabilities of a connection over TCP, whose outcome is ignored.\<close>

definition send_csm :: "'p coap_port option coap_context \<Rightarrow> 'p coap_port option coap_context option" where
  "send_csm ctx = do {
     (opts, os) \<leftarrow> add_option_to_list [] 2 (Some [0x80, 0x01, 0x00]) 3 (cx_mallocs ctx);
     let (msg, ctx) = ctx_message COAP_MESSAGE_CON (COAP_RESP_CODE 701) opts None (ctx\<lparr>cx_mallocs := os\<rparr>);
     (_, ctx) \<leftarrow> port_send_msg msg ctx;
     (_, ctx) \<leftarrow> litecoap_read port_call ctx;
     Some ctx }"

text \<open>The result, the connection behind \<open>ctx\<close> of the parameter, and the port when there is none.\<close>

definition coap_port_init ::
  "bool list \<Rightarrow> (nat \<Rightarrow> u64) \<Rightarrow> coap_al_initpara option \<Rightarrow> 'p coap_port \<Rightarrow> (int \<times> 'p coap_conn option \<times> 'p coap_port) option" where
  "coap_port_init mallocs clock initparam w =
     (case initparam of
        None \<Rightarrow> Some (-1, None, w)
      | Some p \<Rightarrow> do {
          (remoteser, w) \<leftarrow> litecoap_new_resource (Some (ci_address p)) (ci_port p) (ci_ssl p) (ci_proto p) w;
          if remoteser = None then Some (-1, None, w)
          else
            (case litecoap_malloc_context mallocs clock remoteser w of
               (None, w) \<Rightarrow> do { (_, w) \<leftarrow> litecoap_delete_resource remoteser w; Some (-1, None, w) }
             | (Some cn, w) \<Rightarrow> do {
                 let ctx = (cn_ctx cn)\<lparr>cx_max_retransmit := 4, cx_ack_random := (1, 500), cx_ack_timeout := (2, 0),
                   cx_proto := ci_proto p, cx_world := Some (w\<lparr>lp_cmd_func := ci_dealer p\<rparr>)\<rparr>;
                 let (_, ctx) = litecoap_register_handler (Some RESPONSE_HANDLER) ctx;
                 let (_, ctx) = litecoap_add_resource (Some g_oclink_res) ctx;
                 ctx \<leftarrow> (if ci_proto p = COAP_PROTO_TCP then send_csm ctx else Some ctx);
                 Some (0, Some (cn\<lparr>cn_ctx := ctx\<rparr>), w) }) })"

definition coap_port_deinit :: "'p coap_conn option \<Rightarrow> 'p coap_port \<Rightarrow> (int \<times> 'p coap_port) option" where
  "coap_port_deinit handle w = (if handle \<noteq> None then litecoap_free_context handle w else Some (-1, w))"

definition coap_port_add_opt ::
  "coap_option list \<Rightarrow> u16 \<Rightarrow> bytes option \<Rightarrow> nat \<Rightarrow> 'p coap_port \<Rightarrow> (coap_option list \<times> 'p coap_port) option" where
  "coap_port_add_opt head opt_num data len w =
     do { (opts, os) \<leftarrow> add_option_to_list head opt_num data len (lp_mallocs w); Some (opts, w\<lparr>lp_mallocs := os\<rparr>) }"

text \<open>A token that is not added: the list of options is freed, and again, through its freed nodes, with the message that holds it. It was also
  freed when the message was given up for its payload, after its number was taken.\<close>

definition coap_port_request ::
  "u8 \<Rightarrow> u8 \<Rightarrow> coap_option list \<Rightarrow> bytes option \<Rightarrow> 'p coap_port option coap_context
     \<Rightarrow> (coap_msg option \<times> 'p coap_port option coap_context) option" where
  "coap_port_request msgtype code optlst payload ctx = do {
     let msgid = cx_msgid ctx;
     let (msg, ctx) = ctx_message msgtype code optlst payload ctx;
     ctx \<leftarrow> (if code \<noteq> COAP_RESP_CODE 205 \<and> code \<noteq> COAP_RESP_CODE 701
             then on_world (\<lambda>w. do { (n, w) \<leftarrow> litecoap_generate_token w; Some (w\<lparr>lp_tok_len := n\<rparr>) }) ctx
             else Some ctx);
     w \<leftarrow> cx_world ctx;
     case msg of
       None \<Rightarrow> if cx_msgid ctx \<noteq> msgid \<and> optlst \<noteq> [] then None else Some (None, ctx)
     | Some msg \<Rightarrow> do {
         (ret, msg, os) \<leftarrow> add_token msg (lp_tok w) (lp_tok_len w) (cx_mallocs ctx);
         let ctx = ctx\<lparr>cx_mallocs := os\<rparr>;
         if ret < 0 then (if optlst \<noteq> [] then None else Some (None, ctx))
         else Some (Some msg, ctx) } }"

text \<open>Without a message the first one of the send queue goes out; \<open>msgs\<close> has the messages at their addresses.\<close>

definition coap_port_send ::
  "(nat \<Rightarrow> coap_msg option) \<Rightarrow> coap_msg option \<Rightarrow> 'p coap_port option coap_context \<Rightarrow> (int \<times> 'p coap_port option coap_context) option" where
  "coap_port_send msgs msg ctx =
     (case msg of
        Some msg \<Rightarrow> litecoap_send msg ctx
      | None \<Rightarrow>
          (case cx_sndque ctx of
             [] \<Rightarrow> Some (-1, ctx)
           | a # _ \<Rightarrow> do { msg \<leftarrow> msgs a; litecoap_send msg ctx }))"

definition coap_port_recv :: "'p coap_port option coap_context \<Rightarrow> (int \<times> 'p coap_port option coap_context) option" where
  "coap_port_recv ctx = litecoap_read port_call ctx"

definition coap_imp_init :: "'m coap_al_op \<Rightarrow> 'm coap_al_op_cb \<Rightarrow> int \<times> 'm coap_al_op_cb" where
  "coap_imp_init litecoap_op s = coap_al_install (Some litecoap_op) s"

section \<open>Properties\<close>

text \<open>C21. The handler of responses follows the first option of a confirmable GET without a check: a packet that is one and has no options makes
  the receiver access \<^verbatim>\<open>NULL\<close>, whatever the state of the client.\<close>

theorem coap_get_crashes:
  assumes "cx_handler ctx = Some RESPONSE_HANDLER"
    and "cx_net_read ctx (cx_world ctx) = ((int (length packet), packet), w)" and "packet \<noteq> []"
    and "parse_packet packet (cx_proto ctx) (cx_mallocs ctx) = Some (Inr msg, os)"
    and "ch_t (cm_head msg) = COAP_MESSAGE_CON" and "ch_code (cm_head msg) = COAP_REQUEST_GET" and "cm_option msg = []"
  shows "coap_port_recv ctx = None"
proof -
  have f: "fetch 0 (length packet) packet = Some packet" by (simp add: fetch_def)
  show ?thesis using assms f
    by (simp add: coap_port_recv_def litecoap_read_def litecoap_handle_msg_def port_call_def handle_coap_response_def)
qed

text \<open>C20. The first server that observes the client gets the token of its request back: while the client is not bound, after the handler has
  seen a confirmable GET with the option first and a token of 1 to 8 bytes, a report that gets its memory carries that token, with the options and
  the payload it was made of. The payload is missing or has a byte at least; a second request clears the token, and with a payload of
  no bytes there is no message.\<close>

theorem coap_notify_token:
  assumes "ch_t (cm_head msg) = COAP_MESSAGE_CON" and "ch_code (cm_head msg) = COAP_REQUEST_GET"
    and "cm_option msg = opt # more_opts" and "co_optnum opt = COAP_OPTION_OBSERVE"
    and "cm_tok msg = Some tok" and "0 < length tok" and "length tok \<le> 8"
    and "cx_world ctx = Some w" and "length (lp_tok w) = 8" and "\<not> lp_bind_finsh w"
    and "cx_mallocs ctx = []" and "msgtype \<le> COAP_MESSAGE_RST" and "payload \<noteq> Some []"
  shows "\<exists>ctx1 m ctx2. handle_coap_response ctx msg = Some ctx1 \<and>
    coap_port_request msgtype (COAP_RESP_CODE 205) optlst payload ctx1 = Some (Some m, ctx2) \<and>
    cm_tok m = Some tok \<and> cm_option m = optlst \<and> cm_payload m = payload \<and> ch_t (cm_head m) = msgtype"
proof -
  define w1 where "w1 = w\<lparr>lp_tok := tok @ drop (length tok) (lp_tok w), lp_tok_len := int (length tok), lp_bind_finsh := True\<rparr>"
  have p: "put 0 tok (lp_tok w) = Some (tok @ drop (length tok) (lp_tok w))" using assms(7,9) by (simp add: put_def)
  have h: "handle_coap_response ctx msg = Some (ctx\<lparr>cx_world := Some w1\<rparr>)"
    using assms(1-5,8,10) p by (simp add: handle_coap_response_def on_world_def w1_def)
  have f: "fetch 0 (length tok) (lp_tok w1) = Some tok" by (simp add: fetch_def w1_def)
  have t: "lp_tok_len w1 = int (length tok)" by (simp add: w1_def)
  show ?thesis
    using h assms(6,7,11-13) f t
    by (auto simp: coap_port_request_def ctx_message_def new_msg_def Let_def zero_msg_def add_token_def split: option.split)
qed

text \<open>What the conditions leave out. A second request of the server clears the token, so the next report has none; a report of no bytes frees its
  options twice, and has no message without options.\<close>

lemma coap_second_observe:
  assumes "ch_t (cm_head msg) = COAP_MESSAGE_CON" and "ch_code (cm_head msg) = COAP_REQUEST_GET"
    and "cm_option msg = opt # more_opts" and "co_optnum opt = COAP_OPTION_OBSERVE" and "cx_world ctx = Some w" and "lp_bind_finsh w"
    and "cx_mallocs ctx = []" and "msgtype \<le> COAP_MESSAGE_RST"
  shows "\<exists>ctx1 m ctx2. handle_coap_response ctx msg = Some ctx1 \<and>
    coap_port_request msgtype (COAP_RESP_CODE 205) optlst None ctx1 = Some (Some m, ctx2) \<and> cm_tok m = None"
  using assms by (simp add: handle_coap_response_def on_world_def coap_port_request_def ctx_message_def new_msg_def Let_def zero_msg_def add_token_def)

lemma coap_empty_report:
  assumes "cx_mallocs ctx = []" and "cx_world ctx = Some w" and "msgtype \<le> COAP_MESSAGE_RST"
  shows "coap_port_request msgtype (COAP_RESP_CODE 205) optlst (Some []) ctx =
    (if optlst = [] then Some (None, ctx\<lparr>cx_msgid := cx_msgid ctx + 1\<rparr>) else None)"
  using assms by (simp add: coap_port_request_def ctx_message_def new_msg_def Let_def)

text \<open>A report whose token is not allocated frees its options twice.\<close>

theorem coap_request_frees_twice:
  assumes "cx_mallocs ctx = [True, False]" and "cx_world ctx = Some w" and "0 < lp_tok_len w" and "lp_tok_len w \<le> 8"
    and "msgtype \<le> COAP_MESSAGE_RST" and "optlst \<noteq> []"
  shows "coap_port_request msgtype (COAP_RESP_CODE 205) optlst None ctx = None"
  using assms by (simp add: coap_port_request_def ctx_message_def new_msg_def Let_def zero_msg_def add_token_def)

section \<open>Examples\<close>

definition demo_lite :: "unit coap_port" where
  "demo_lite = \<lparr>lp_sal = \<lparr>sl_domain = None, sl_num = 0, sl_mutex = True, sl_tab = Some [], sl_mallocs = [], sl_locks = [], sl_port = ()\<rparr>,
     lp_cmd_func = None, lp_calls = [], lp_tok = replicate 8 0, lp_tok_len = 0, lp_bind_finsh = False, lp_mallocs = [], lp_rands = []\<rparr>"

text \<open>A connection whose next packet is given.\<close>

definition lite_conn :: "bytes \<Rightarrow> unit coap_port option coap_context" where
  "lite_conn packet =
     (cn_ctx (the (fst (litecoap_malloc_context [] (\<lambda>_. 0) (Some \<lparr>ur_fd = 0, ur_remoteAddr = [], ur_ssl = 0\<rparr>) demo_lite))))
       \<lparr>cx_proto := COAP_PROTO_UDP, cx_handler := Some RESPONSE_HANDLER, cx_res := Some g_oclink_res,
         cx_net_read := (\<lambda>w. ((int (length packet), packet), w))\<rparr>"

lemma lite_conn_simps [simp]:
  "cx_handler (lite_conn p) = Some RESPONSE_HANDLER" "cx_net_read (lite_conn p) w = ((int (length p), p), w)"
  "cx_proto (lite_conn p) = COAP_PROTO_UDP" "cx_mallocs (lite_conn p) = []" "cx_world (lite_conn p) = Some demo_lite"
  by (simp_all add: lite_conn_def litecoap_malloc_context_def lp_malloc_def demo_lite_def litecoap_get_random_def)

theorem coap_get_crashes_witness: "coap_port_recv (lite_conn [0x40, 1, 0, 7]) = None"
proof -
  have "parse_packet [0x40, 1, 0, 7] COAP_PROTO_UDP [] = Some (Inr (zero_msg\<lparr>cm_head := \<lparr>ch_ver = 1, ch_t = 0, ch_tkl = 0, ch_code = 1,
      ch_msgid0 = 0, ch_msgid1 = 7\<rparr>, cm_marker := 255\<rparr>), [])"
    by code_simp
  then show ?thesis using coap_get_crashes[of "lite_conn [0x40, 1, 0, 7]" "[0x40, 1, 0, 7]"] by (simp add: zero_msg_def)
qed

theorem coap_notify_token_witness:
  "\<exists>ctx1 m ctx2. handle_coap_response (lite_conn []) (demo_coap\<lparr>cm_head := \<lparr>ch_ver = 1, ch_t = 0, ch_tkl = 2, ch_code = 1, ch_msgid0 = 0, ch_msgid1 = 7\<rparr>,
      cm_tok := Some [8, 9], cm_option := [\<lparr>co_optnum = 6, co_optlen = 0, co_value = []\<rparr>]\<rparr>) = Some ctx1 \<and>
    coap_port_request COAP_MESSAGE_NON (COAP_RESP_CODE 205) [] (Some [1]) ctx1 = Some (Some m, ctx2) \<and> cm_tok m = Some [8, 9]"
proof -
  let ?m = "demo_coap\<lparr>cm_head := \<lparr>ch_ver = 1, ch_t = 0, ch_tkl = 2, ch_code = 1, ch_msgid0 = 0, ch_msgid1 = 7\<rparr>,
      cm_tok := Some [8, 9], cm_option := [\<lparr>co_optnum = 6, co_optlen = 0, co_value = []\<rparr>]\<rparr>"
  have "\<exists>ctx1 m ctx2. handle_coap_response (lite_conn []) ?m = Some ctx1 \<and>
    coap_port_request COAP_MESSAGE_NON (COAP_RESP_CODE 205) [] (Some [1]) ctx1 = Some (Some m, ctx2) \<and>
    cm_tok m = Some [8, 9] \<and> cm_option m = [] \<and> cm_payload m = Some [1] \<and> ch_t (cm_head m) = COAP_MESSAGE_NON"
    by (rule coap_notify_token[where w = demo_lite and opt = "\<lparr>co_optnum = 6, co_optlen = 0, co_value = []\<rparr>" and more_opts = "[]"])
      (simp_all add: demo_lite_def word_le_nat_alt)
  then show ?thesis by blast
qed

theorem coap_request_frees_twice_witness:
  "coap_port_request COAP_MESSAGE_NON (COAP_RESP_CODE 205) [\<lparr>co_optnum = 12, co_optlen = 1, co_value = [0]\<rparr>] None
     ((lite_conn [])\<lparr>cx_mallocs := [True, False], cx_world := Some (demo_lite\<lparr>lp_tok_len := 2\<rparr>)\<rparr>) = None"
  by (rule coap_request_frees_twice[where w = "demo_lite\<lparr>lp_tok_len := 2\<rparr>"]) (simp_all add: word_le_nat_alt)

end
