(* ===== verification/Boudica.thy ===== *)
theory Boudica
  imports ModemText AlTables Sal
begin

text \<open>
  The agent of the cloud service for the NB-IoT module Boudica 150, \<^verbatim>\<open>oc/oc_lwm2m/boudica150_oc\<close>: reports and received messages as
  hexadecimal texts over AT commands, the loop that brings the module up, and the agent's table for \<open>oc_lwm2m_register\<close>.

  The two handlers run in the receiver task of the AT client, which logs the frames it hands out; the frames
  of a command or a sleep are handed to the handlers when it returns. The calls of the receive function of the application are logged.
  The arrays on the stack that hold a response are in the memory of the client at \<open>RESP\<close>. The result of taking the mutex is ignored by
  the code, so the mutex is left out, as is logging.
\<close>

section \<open>State\<close>

abbreviation "cn_boudica150_cmd_timeout \<equiv> 2000 :: u32"
abbreviation "cn_boudica150_cachelen \<equiv> 128 :: nat"

definition cn_boudica150_rcvindex :: bytes where
  "cn_boudica150_rcvindex = [13, 10] @ bytes_of ''+NNMI:''"

definition cn_urc_qlwevtind :: bytes where
  "cn_urc_qlwevtind = [13, 10] @ bytes_of ''+QLWEVTIND:''"

text \<open>The parameter of the application is \<open>None\<close> before the first configuration, when all of it is zero.\<close>

record 'w boudica150_cb =
  bo_plmn :: "bytes option"
  bo_apn :: "bytes option"
  bo_bands :: "bytes option"
  bo_oc_param :: "oc_config_param option"
  bo_sndenable :: bool
  bo_sndbuf :: bytes
  bo_rcvbuf :: bytes
  bo_observe :: bool
  bo_handle :: bool
  bo_stats :: "int list"
  bo_calls :: "(nat \<times> nat \<times> bytes) list"
  bo_at :: "'w at_cb"
  bo_rounds :: "nat list"

definition bo_wait :: "'w boudica150_cb \<Rightarrow> nat \<times> 'w boudica150_cb" where
  "bo_wait s = (case bo_rounds s of [] \<Rightarrow> (0, s) | n # ns \<Rightarrow> (n, s\<lparr>bo_rounds := ns\<rparr>))"

section \<open>Hexadecimal texts\<close>

text \<open>\<^verbatim>\<open>"%02X"\<close>\<close>

definition hex_upper :: "u8 \<Rightarrow> u8" where
  "hex_upper n = (if n < 10 then n + 48 else n + 55)"

definition hex_byte :: "u8 \<Rightarrow> bytes" where
  "hex_byte b = [hex_upper (drop_bit 4 b), hex_upper (b AND 15)]"

text \<open>Each \<^verbatim>\<open>sprintf\<close> writes two characters and a terminator. \<open>off\<close> is the place in \<open>bufout\<close> of the first of them.\<close>

fun hexstr_loop :: "bytes \<Rightarrow> nat \<Rightarrow> nat \<Rightarrow> bytes \<Rightarrow> nat \<Rightarrow> bytes option" where
  "hexstr_loop bufin i 0 bufout off = Some bufout"
| "hexstr_loop bufin i (Suc n) bufout off = do {
     b \<leftarrow> byte_at bufin i;
     bufout \<leftarrow> put (off + i * 2) (hex_byte b @ [0]) bufout;
     hexstr_loop bufin (Suc i) n bufout off }"

definition byte_to_hexstr :: "bytes option \<Rightarrow> int \<Rightarrow> bytes \<Rightarrow> nat \<Rightarrow> (int \<times> bytes) option" where
  "byte_to_hexstr bufin len bufout off =
     (case bufin of
        None \<Rightarrow> Some (-1, bufout)
      | Some bufin \<Rightarrow> if len \<le> 0 then Some (-1, bufout) else map_option (Pair 0) (hexstr_loop bufin 0 (nat len) bufout off))"

definition hex_nibble :: "u8 \<Rightarrow> u8" where
  "hex_nibble c = (if c \<le> 57 then c - 48 else c - 55)"

fun unhex_loop :: "bytes \<Rightarrow> nat \<Rightarrow> nat \<Rightarrow> bytes \<Rightarrow> bytes option" where
  "unhex_loop bufin i 0 bufout = Some bufout"
| "unhex_loop bufin i (Suc n) bufout = do {
     c \<leftarrow> byte_at bufin i;
     d \<leftarrow> byte_at bufin (i + 1);
     bufout \<leftarrow> put (i div 2) [push_bit 4 (hex_nibble c) OR (hex_nibble d AND 15)] bufout;
     unhex_loop bufin (i + 2) n bufout }"

text \<open>The loop runs over an even and an odd character at a time, so a rest of one character counts as two.\<close>

definition hexstr_to_byte :: "bytes \<Rightarrow> int \<Rightarrow> bytes \<Rightarrow> (int \<times> bytes) option" where
  "hexstr_to_byte bufin len bufout =
     (if len \<le> 0 then Some (-1, bufout) else map_option (Pair 0) (unhex_loop bufin 0 (nat ((len + 1) div 2)) bufout))"

section \<open>Received frames\<close>

text \<open>Addresses are compared by their distance to the start of the message.\<close>

definition boudica150_rcvdeal :: "bytes \<Rightarrow> nat \<Rightarrow> 'w boudica150_cb \<Rightarrow> (int \<times> 'w boudica150_cb) option" where
  "boudica150_rcvdeal msg len s =
     (if len < length cn_boudica150_rcvindex then Some (0, s)
      else do {
        str \<leftarrow> find_char 58 msg;
        case str of
          None \<Rightarrow> Some (0, s)
        | Some str \<Rightarrow> do {
            (datalen, str) \<leftarrow> int_digits (tl str) 0;
            let str = tl str;
            n2 \<leftarrow> c_int (datalen * 2);
            if int (length msg) - int (length str) + n2 + 2 > int len then Some (0, s)
            else if datalen > int cn_boudica150_cachelen then Some (0, s)
            else do {
              (_, rcvbuf) \<leftarrow> hexstr_to_byte str n2 (replicate cn_boudica150_cachelen 0);
              let s = s\<lparr>bo_rcvbuf := rcvbuf\<rparr>;
              Some (int len,
                (case bo_oc_param s of
                   None \<Rightarrow> s
                 | Some p \<Rightarrow>
                     (case oc_rcv_func p of
                        None \<Rightarrow> s
                      | Some f \<Rightarrow> s\<lparr>bo_calls := bo_calls s @ [(f, oc_usr_data p, take (nat datalen) rcvbuf)]\<rparr>))) } } })"

definition urc_qlwevtind :: "bytes \<Rightarrow> nat \<Rightarrow> 'w boudica150_cb \<Rightarrow> (int \<times> 'w boudica150_cb) option" where
  "urc_qlwevtind msg len s =
     (if len > length cn_urc_qlwevtind
      then do {
        c \<leftarrow> byte_at msg (length cn_urc_qlwevtind);
        Some (int len, if sint c - 48 = 3 then s\<lparr>bo_observe := True\<rparr> else s) }
      else Some (int len, s))"

abbreviation "BO_QLWEVTIND \<equiv> 151 :: nat"
abbreviation "BO_NNMI \<equiv> 150 :: nat"

fun bo_frames :: "(nat \<times> nat \<times> bytes) list \<Rightarrow> 'w boudica150_cb \<Rightarrow> 'w boudica150_cb option" where
  "bo_frames [] s = Some s"
| "bo_frames ((f, args, frame) # log) s = do {
     s \<leftarrow> (if f = BO_NNMI then map_option snd (boudica150_rcvdeal (frame_mem frame) (length frame) s)
          else if f = BO_QLWEVTIND then map_option snd (urc_qlwevtind (frame_mem frame) (length frame) s)
          else Some s);
     bo_frames log s }"

section \<open>Commands\<close>

definition bo_client :: "'w at_cb \<Rightarrow> 'w boudica150_cb \<Rightarrow> 'w boudica150_cb option" where
  "bo_client c s = bo_frames (new_frames (bo_at s) c) (s\<lparr>bo_at := c\<rparr>)"

definition bo_command ::
  "bytes \<Rightarrow> bytes \<Rightarrow> nat option \<Rightarrow> nat \<Rightarrow> u32 \<Rightarrow> 'w boudica150_cb \<Rightarrow> (int \<times> 'w boudica150_cb) option" where
  "bo_command cmd index respbuf respbuflen timeout s = do {
     let (n, s) = bo_wait s;
     (ret, c) \<leftarrow> at_command (Some cmd) (Some index) respbuf respbuflen timeout n (bo_at s);
     s \<leftarrow> bo_client c s;
     Some (ret, s) }"

definition bo_sleep :: "'w boudica150_cb \<Rightarrow> 'w boudica150_cb option" where
  "bo_sleep s = (let (n, s) = bo_wait s in do { c \<leftarrow> rcv_task n (bo_at s); bo_client c s })"

definition boudica150_atcmd :: "bytes \<Rightarrow> bytes \<Rightarrow> 'w boudica150_cb \<Rightarrow> (bool \<times> 'w boudica150_cb) option" where
  "boudica150_atcmd cmd index s =
     do { (ret, s) \<leftarrow> bo_command cmd index None 0 cn_boudica150_cmd_timeout s; Some (ret \<ge> 0, s) }"

definition boudica150_atcmd_response :: "bytes \<Rightarrow> bytes \<Rightarrow> nat \<Rightarrow> nat \<Rightarrow> 'w boudica150_cb \<Rightarrow> (bool \<times> 'w boudica150_cb) option" where
  "boudica150_atcmd_response cmd index buf len s =
     do { (ret, s) \<leftarrow> bo_command cmd index (Some buf) len cn_boudica150_cmd_timeout s; Some (ret \<ge> 0, s) }"

text \<open>An array on the stack for the response: what it holds before, the command, what it holds behind.\<close>

abbreviation "RESP \<equiv> 0 :: nat"

definition bo_mem :: "bytes option \<Rightarrow> 'w boudica150_cb \<Rightarrow> 'w boudica150_cb" where
  "bo_mem m s = s\<lparr>bo_at := (bo_at s)\<lparr>at_mem := (at_mem (bo_at s))(RESP := m)\<rparr>\<rparr>"

definition bo_query :: "bytes \<Rightarrow> bytes \<Rightarrow> bytes \<Rightarrow> 'w boudica150_cb \<Rightarrow> (bool \<times> bytes \<times> 'w boudica150_cb) option" where
  "bo_query resp cmd index s = do {
     (ok, s) \<leftarrow> boudica150_atcmd_response cmd index RESP (length resp) (bo_mem (Some resp) s);
     resp \<leftarrow> at_mem (bo_at s) RESP;
     Some (ok, resp, bo_mem None s) }"

section \<open>Reports\<close>

text \<open>The command in the send buffer: the text with the length, the data behind it and a carriage return over the terminator.\<close>

definition int_str :: "int \<Rightarrow> bytes" where
  "int_str n = (if n < 0 then 45 # dec_str (nat (- n)) else dec_str (nat n))"

definition report_cmd :: "bytes \<Rightarrow> int \<Rightarrow> (bytes \<times> bytes) option" where
  "report_cmd buf len = do {
     let sndbuf = replicate cn_boudica150_cachelen 0;
     sndbuf \<leftarrow> put 0 (take (cn_boudica150_cachelen - 1) (bytes_of ''AT+NMGS='' @ int_str len @ [44]) @ [0]) sndbuf;
     head \<leftarrow> c_str sndbuf;
     (_, sndbuf) \<leftarrow> byte_to_hexstr (Some buf) len sndbuf (length head);
     text \<leftarrow> c_str sndbuf;
     sndbuf \<leftarrow> put (length text) [13] sndbuf;
     cmd \<leftarrow> c_str sndbuf;
     Some (cmd, sndbuf) }"

definition boudica150_oc_report :: "bytes option \<Rightarrow> int \<Rightarrow> int \<Rightarrow> 'w boudica150_cb \<Rightarrow> (int \<times> 'w boudica150_cb) option" where
  "boudica150_oc_report buf len timeout s =
     (if \<not> bo_handle s then Some (en_oc_lwm2m_err_noconfigured, s)
      else
        (case buf of
           None \<Rightarrow> Some (en_oc_lwm2m_err_parafmt, s)
         | Some buf \<Rightarrow>
             if len \<ge> int cn_boudica150_cachelen div 2 \<or> \<not> bo_sndenable s then Some (en_oc_lwm2m_err_parafmt, s)
             else do {
               (cmd, sndbuf) \<leftarrow> report_cmd buf len;
               (ret, s) \<leftarrow> bo_command cmd (bytes_of ''OK'') None 0 (word_of_int timeout) (s\<lparr>bo_sndbuf := sndbuf\<rparr>);
               Some (if ret \<ge> 0 then en_oc_lwm2m_err_ok else en_oc_lwm2m_err_network, s) }))"

section \<open>Bringing up the module\<close>

text \<open>The texts are cut to the array of 64 characters.\<close>

definition boudica150_set_echo :: "nat \<Rightarrow> 'w boudica150_cb \<Rightarrow> (bool \<times> 'w boudica150_cb) option" where
  "boudica150_set_echo enable s = boudica150_atcmd (take 63 (bytes_of ''ATE'' @ dec_str enable @ [13])) (bytes_of ''OK'') s"

definition boudica150_set_regmode :: "nat \<Rightarrow> 'w boudica150_cb \<Rightarrow> (bool \<times> 'w boudica150_cb) option" where
  "boudica150_set_regmode mode s = boudica150_atcmd (take 63 (bytes_of ''AT+QREGSWT='' @ dec_str mode @ [13])) (bytes_of ''OK'') s"

definition boudica150_reboot :: "'w boudica150_cb \<Rightarrow> (bool \<times> 'w boudica150_cb) option" where
  "boudica150_reboot s = do {
     (_, s) \<leftarrow> boudica150_set_echo 0 s;
     (_, s) \<leftarrow> boudica150_set_echo 0 s;
     (_, s) \<leftarrow> boudica150_atcmd (bytes_of ''AT+NRB'' @ [13]) (bytes_of ''REBOOTING'') s;
     s \<leftarrow> bo_sleep s;
     (_, s) \<leftarrow> boudica150_set_echo 0 s;
     (_, s) \<leftarrow> boudica150_set_echo 0 s;
     Some (True, s) }"

definition boudica150_set_fun :: "nat \<Rightarrow> 'w boudica150_cb \<Rightarrow> (bool \<times> 'w boudica150_cb) option" where
  "boudica150_set_fun enable s = do {
     (ret, s) \<leftarrow> boudica150_atcmd (take 63 (bytes_of ''AT+CFUN='' @ dec_str enable @ [13])) (bytes_of ''OK'') s;
     s \<leftarrow> bo_sleep s;
     Some (ret, s) }"

text \<open>Whether a response to a query does not show the setting already.\<close>

definition must_set :: "bool \<Rightarrow> bytes \<Rightarrow> bytes \<Rightarrow> bool option" where
  "must_set ok resp want = (if \<not> ok then Some True else do { text \<leftarrow> text_of resp; Some (\<not> strstr text want) })"

definition boudica150_set_bands :: "bytes option \<Rightarrow> 'w boudica150_cb \<Rightarrow> (bool \<times> 'w boudica150_cb) option" where
  "boudica150_set_bands bands s =
     (case bands of
        None \<Rightarrow> Some (True, s)
      | Some bands \<Rightarrow> do {
          (ok, resp, s) \<leftarrow> bo_query (replicate 64 0) (bytes_of ''AT+NBAND?'' @ [13]) (bytes_of ''OK'') s;
          need \<leftarrow> must_set ok resp (take 62 (bytes_of ''+NBAND:'' @ bands @ [13]));
          if need
          then do {
            (_, s) \<leftarrow> boudica150_set_fun 0 s;
            (ret, s) \<leftarrow> boudica150_atcmd (take 62 (bytes_of ''AT+NBAND='' @ bands @ [13])) (bytes_of ''OK'') s;
            (_, s) \<leftarrow> boudica150_set_fun 1 s;
            Some (ret, s) }
          else Some (True, s) })"

definition boudica150_set_plmn :: "bytes option \<Rightarrow> 'w boudica150_cb \<Rightarrow> (bool \<times> 'w boudica150_cb) option" where
  "boudica150_set_plmn plmn s =
     (case plmn of
        Some plmn \<Rightarrow> do {
          (ok, resp, s) \<leftarrow> bo_query (replicate 64 0) (bytes_of ''AT+COPS?'' @ [13]) (bytes_of ''+COPS'') s;
          need \<leftarrow> must_set ok resp (take 62 (bytes_of ''+COPS:1,2,'' @ [34] @ plmn @ [34, 13]));
          if need
          then boudica150_atcmd (take 62 (bytes_of ''AT+COPS=1,2,'' @ [34] @ plmn @ [34, 13])) (bytes_of ''OK'') s
          else Some (True, s) }
      | None \<Rightarrow> boudica150_atcmd (bytes_of ''AT+COPS=0'' @ [13]) (bytes_of ''OK'') s)"

definition boudica150_set_apn :: "bytes option \<Rightarrow> 'w boudica150_cb \<Rightarrow> (bool \<times> 'w boudica150_cb) option" where
  "boudica150_set_apn apn s =
     (case apn of
        None \<Rightarrow> Some (True, s)
      | Some apn \<Rightarrow> do {
          (ok, resp, s) \<leftarrow> bo_query (replicate 64 0) (bytes_of ''AT+CGDCONT?'' @ [13]) (bytes_of ''OK'') s;
          need \<leftarrow> must_set ok resp (take 62 (bytes_of ''+CGDCONT:'' @ [34] @ apn @ [34, 13]));
          if need then boudica150_atcmd (take 62 (bytes_of ''AT+CGDCONT='' @ apn @ [13])) (bytes_of ''OK'') s
          else Some (True, s) })"

text \<open>A port that is \<^verbatim>\<open>NULL\<close> is undefined.\<close>

definition boudica150_set_cdp :: "bytes option \<Rightarrow> bytes option \<Rightarrow> 'w boudica150_cb \<Rightarrow> (bool \<times> 'w boudica150_cb) option" where
  "boudica150_set_cdp server port s =
     (case server of
        None \<Rightarrow> Some (True, s)
      | Some server \<Rightarrow> do {
          (ok, resp, s) \<leftarrow> bo_query (replicate 64 0) (bytes_of ''AT+NCDP?'' @ [13]) (bytes_of ''OK'') s;
          port \<leftarrow> port;
          need \<leftarrow> must_set ok resp (take 63 (bytes_of ''+NCDP:'' @ server @ [44] @ port @ [13]));
          if need then boudica150_atcmd (take 63 (bytes_of ''AT+NCDP='' @ server @ [44] @ port @ [13])) (bytes_of ''OK'') s
          else Some (True, s) })"

definition boudica150_set_cmee :: "nat \<Rightarrow> 'w boudica150_cb \<Rightarrow> (bool \<times> 'w boudica150_cb) option" where
  "boudica150_set_cmee enable s = boudica150_atcmd (take 63 (bytes_of ''AT+CMEE='' @ dec_str enable @ [13])) (bytes_of ''OK'') s"

definition boudica150_set_cgatt :: "nat \<Rightarrow> 'w boudica150_cb \<Rightarrow> (bool \<times> 'w boudica150_cb) option" where
  "boudica150_set_cgatt enable s = boudica150_atcmd (take 63 (bytes_of ''AT+CGATT='' @ dec_str enable @ [13])) (bytes_of ''OK'') s"

definition boudica150_set_nnmi :: "nat \<Rightarrow> 'w boudica150_cb \<Rightarrow> (bool \<times> 'w boudica150_cb) option" where
  "boudica150_set_nnmi enable s = boudica150_atcmd (take 63 (bytes_of ''AT+NNMI='' @ dec_str enable @ [13])) (bytes_of ''OK'') s"

fun boudica150_check_observe :: "nat \<Rightarrow> 'w boudica150_cb \<Rightarrow> (bool \<times> 'w boudica150_cb) option" where
  "boudica150_check_observe 0 s = Some (False, s)"
| "boudica150_check_observe (Suc n) s =
     (if bo_observe s then Some (True, s) else do { s \<leftarrow> bo_sleep s; boudica150_check_observe n s })"

fun boudica150_check_netattach :: "nat \<Rightarrow> 'w boudica150_cb \<Rightarrow> (bool \<times> 'w boudica150_cb) option" where
  "boudica150_check_netattach 0 s = Some (False, s)"
| "boudica150_check_netattach (Suc n) s = do {
     (ok, s) \<leftarrow> boudica150_atcmd (bytes_of ''AT+CGATT?'' @ [13]) (bytes_of ''CGATT:1'') s;
     if ok then Some (True, s) else do { s \<leftarrow> bo_sleep s; boudica150_check_netattach n s } }"

definition boudica150_set_autoconnect :: "bool \<Rightarrow> 'w boudica150_cb \<Rightarrow> (bool \<times> 'w boudica150_cb) option" where
  "boudica150_set_autoconnect enable s = do {
     let mode = bytes_of (if enable then ''AUTOCONNECT,TRUE'' else ''AUTOCONNECT,FALSE'');
     (ok, resp, s) \<leftarrow> bo_query (replicate 64 0) (bytes_of ''AT+NCONFIG?'' @ [13]) (bytes_of ''+NCONFIG'') s;
     need \<leftarrow> must_set ok resp mode;
     if need
     then do {
       (ret, s) \<leftarrow> boudica150_atcmd (take 63 (bytes_of ''AT+NCONFIG='' @ mode @ [13])) (bytes_of ''OK'') s;
       (_, s) \<leftarrow> boudica150_reboot s;
       Some (ret, s) }
     else Some (True, s) }"

text \<open>The commands of one turn of the loop, the turn, and the loop with the number of its turns bounded.\<close>

definition boot_setup ::
  "bytes option \<Rightarrow> bytes option \<Rightarrow> bytes option \<Rightarrow> bytes option \<Rightarrow> bytes option \<Rightarrow> 'w boudica150_cb \<Rightarrow> 'w boudica150_cb option" where
  "boot_setup plmn apn bands server port s = do {
     (_, s) \<leftarrow> boudica150_reboot (s\<lparr>bo_observe := False\<rparr>);
     (_, s) \<leftarrow> boudica150_set_echo 0 s;
     (_, s) \<leftarrow> boudica150_set_regmode 1 s;
     (_, s) \<leftarrow> boudica150_set_cmee 1 s;
     (_, s) \<leftarrow> boudica150_set_autoconnect False s;
     (_, s) \<leftarrow> boudica150_set_bands bands s;
     (_, s) \<leftarrow> boudica150_set_fun 1 s;
     (_, s) \<leftarrow> boudica150_set_plmn plmn s;
     (_, s) \<leftarrow> boudica150_set_apn apn s;
     (_, s) \<leftarrow> boudica150_set_cdp server port s;
     (_, s) \<leftarrow> boudica150_set_cgatt 1 s;
     (_, s) \<leftarrow> boudica150_set_nnmi 1 s;
     Some s }"

definition boot_turn ::
  "bytes option \<Rightarrow> bytes option \<Rightarrow> bytes option \<Rightarrow> bytes option \<Rightarrow> bytes option \<Rightarrow> 'w boudica150_cb \<Rightarrow> (bool \<times> 'w boudica150_cb) option" where
  "boot_turn plmn apn bands server port s = do {
     s \<leftarrow> boot_setup plmn apn bands server port s;
     (ok, s) \<leftarrow> boudica150_check_netattach 16 s;
     if \<not> ok then Some (False, s) else boudica150_check_observe 16 s }"

fun boot_loop ::
  "nat \<Rightarrow> bytes option \<Rightarrow> bytes option \<Rightarrow> bytes option \<Rightarrow> bytes option \<Rightarrow> bytes option \<Rightarrow> 'w boudica150_cb \<Rightarrow> (bool \<times> 'w boudica150_cb) option" where
  "boot_loop 0 plmn apn bands server port s = Some (False, s)"
| "boot_loop (Suc n) plmn apn bands server port s = do {
     (ok, s) \<leftarrow> boot_turn plmn apn bands server port s;
     if ok then Some (True, s) else boot_loop n plmn apn bands server port s }"

text \<open>\<open>False\<close> when the module is not up after \<open>fuel\<close> turns; the code returns only in the other case.\<close>

definition boudica150_boot ::
  "nat \<Rightarrow> bytes option \<Rightarrow> bytes option \<Rightarrow> bytes option \<Rightarrow> bytes option \<Rightarrow> bytes option \<Rightarrow> 'w boudica150_cb \<Rightarrow> (bool \<times> 'w boudica150_cb) option" where
  "boudica150_boot fuel plmn apn bands server port s = do {
     let (_, c) = at_oobregister (Some ''qlwevind'') (Some cn_urc_qlwevtind) (length cn_urc_qlwevtind) (Some BO_QLWEVTIND) 0 (bo_at s);
     let (_, c) = at_oobregister (Some ''boudica150rcv'') (Some cn_boudica150_rcvindex) (length cn_boudica150_rcvindex) (Some BO_NNMI) 0 c;
     (ok, s) \<leftarrow> boot_loop fuel plmn apn bands server port (s\<lparr>bo_at := c\<rparr>);
     Some (ok, if ok then s\<lparr>bo_sndenable := True\<rparr> else s) }"

section \<open>The agent\<close>

text \<open>The result is \<open>None\<close> when the call has not returned after \<open>fuel\<close> turns of the loop.\<close>

definition boudica150_oc_config :: "nat \<Rightarrow> oc_config_param option \<Rightarrow> 'w boudica150_cb \<Rightarrow> (int option \<times> 'w boudica150_cb) option" where
  "boudica150_oc_config fuel param s =
     (case param of
        None \<Rightarrow> Some (Some en_oc_lwm2m_err_parafmt, s)
      | Some p \<Rightarrow>
          if \<not> bo_handle s
          then do {
            (ok, s) \<leftarrow> boudica150_boot fuel (bo_plmn s) (bo_apn s) (bo_bands s) (sv_address (oc_app_server p)) (sv_port (oc_app_server p))
              (s\<lparr>bo_oc_param := Some p\<rparr>);
            Some (if ok then (Some en_oc_lwm2m_err_ok, s\<lparr>bo_handle := True\<rparr>) else (None, s)) }
          else Some (Some en_oc_lwm2m_err_configured, s))"

definition boudica150_oc_deconfig :: "'w boudica150_cb \<Rightarrow> int \<times> 'w boudica150_cb" where
  "boudica150_oc_deconfig s =
     (if bo_handle s then (en_oc_lwm2m_err_ok, s\<lparr>bo_handle := False\<rparr>) else (en_oc_lwm2m_err_noconfigured, s))"

text \<open>The strength of the signal into the place of \<open>value\<close>; \<open>None\<close> is no place.\<close>

definition boudica150_get_csq :: "int option \<Rightarrow> 'w boudica150_cb \<Rightarrow> (int \<times> int option \<times> 'w boudica150_cb) option" where
  "boudica150_get_csq value s =
     (case value of
        None \<Rightarrow> Some (-1, None, s)
      | Some v \<Rightarrow> do {
          (ok, resp, s) \<leftarrow> bo_query (replicate 64 0) (bytes_of ''AT+CSQ'' @ [13]) (bytes_of ''OK'') s;
          if \<not> ok then Some (-1, value, s)
          else do {
            text \<leftarrow> text_of resp;
            (case str_index text (bytes_of ''+CSQ:'') of
               None \<Rightarrow> Some (-1, value, s)
             | Some i \<Rightarrow> do {
                 (csq, _) \<leftarrow> int_digits (drop (i + 5) resp) 0;
                 Some (if csq \<noteq> 99 then (0, Some csq, s) else (-1, value, s)) }) } })"

text \<open>\<^verbatim>\<open>sscanf\<close> with \<open>n\<close> numbers that are separated by commas: those that match.\<close>

fun scan_commas :: "nat \<Rightarrow> bytes \<Rightarrow> int list option" where
  "scan_commas 0 cs = Some []"
| "scan_commas (Suc n) cs = do {
     r \<leftarrow> scan_int cs;
     case r of
       None \<Rightarrow> Some []
     | Some (v, rest) \<Rightarrow>
         if n \<noteq> 0 \<and> rest \<noteq> [] \<and> hd rest = 44 then map_option ((#) v) (scan_commas n (tl rest)) else Some [v] }"

text \<open>One number behind a key in a text, into the place \<open>i\<close> of the statistics; \<open>None\<close> inside is that the key is not there.\<close>

definition stat_key :: "bytes \<Rightarrow> bytes \<Rightarrow> nat \<Rightarrow> 'w boudica150_cb \<Rightarrow> 'w boudica150_cb option option" where
  "stat_key text key i s =
     (case str_index text key of
        None \<Rightarrow> Some None
      | Some n \<Rightarrow> do {
          r \<leftarrow> scan_int (drop (n + length key) text);
          Some (Some (case r of None \<Rightarrow> s | Some (v, _) \<Rightarrow> s\<lparr>bo_stats := (bo_stats s)[i := v]\<rparr>)) })"

text \<open>\<open>junk\<close> is what the last 192 bytes of the array of the response hold before, \<open>rsrp0\<close> what the number does that is read first.
  The results of the commands are \<^verbatim>\<open>bool_t\<close>, which is never negative.\<close>

definition boudica150_check_nuestats :: "bytes \<Rightarrow> int \<Rightarrow> 'w boudica150_cb \<Rightarrow> (int list option \<times> 'w boudica150_cb) option" where
  "boudica150_check_nuestats junk rsrp0 s = do {
     (_, resp, s) \<leftarrow> bo_query (replicate 64 0 @ junk) (bytes_of ''AT+NUESTATS=CELL'' @ [13]) (bytes_of ''NUESTATS:'') s;
     text \<leftarrow> text_of resp;
     case str_index text (bytes_of ''NUESTATS:'') of
       None \<Rightarrow> Some (None, s)
     | Some i \<Rightarrow> do {
         nums \<leftarrow> (if prefix (bytes_of ''NUESTATS:CELL,'') (drop i text) then scan_commas 7 (drop (i + 14) text) else Some []);
         let s = s\<lparr>bo_stats := (bo_stats s)[0 := (if 3 < length nums then nums ! 3 else rsrp0)]\<rparr>;
         (_, resp, s) \<leftarrow> bo_query resp (bytes_of ''AT+NUESTATS'' @ [13]) (bytes_of ''OK'') s;
         text \<leftarrow> text_of resp;
         r \<leftarrow> stat_key text (bytes_of ''ECL:'') 1 s;
         (case r of
            None \<Rightarrow> Some (None, s)
          | Some s \<Rightarrow> do {
              r \<leftarrow> stat_key text (bytes_of ''SNR:'') 2 s;
              (case r of
                 None \<Rightarrow> Some (None, s)
               | Some s \<Rightarrow> do {
                   r \<leftarrow> stat_key text (bytes_of ''Cell ID:'') 3 s;
                   Some (case r of None \<Rightarrow> (None, s) | Some s \<Rightarrow> (Some (bo_stats s), s)) }) }) } }"

text \<open>The agent is the state of the library behind the table; a configuration that does not return in \<open>fuel\<close> turns
  leaves no state.\<close>

definition g_boudica150_oc_opt :: "nat \<Rightarrow> 'w boudica150_cb option oc_lwm2m_opt" where
  "g_boudica150_oc_opt fuel = \<lparr>
     ol_config = Some (\<lambda>p. lift_call 0 (\<lambda>s. case boudica150_oc_config fuel (Some p) s of Some (Some r, s) \<Rightarrow> Some (r, s) | _ \<Rightarrow> None)),
     ol_report = Some (\<lambda>buf len timeout. lift_call 0 (boudica150_oc_report buf len timeout)),
     ol_deconfig = Some (lift_call 0 (\<lambda>s. Some (boudica150_oc_deconfig s)))\<rparr>"

definition oc_lwm2m_imp_init :: "nat \<Rightarrow> 'w boudica150_cb option oc_lwm2m \<Rightarrow> int \<times> 'w boudica150_cb option oc_lwm2m" where
  "oc_lwm2m_imp_init fuel o1 =
     oc_lwm2m_register (Some (bytes_of ''boudica150'')) (Some (g_boudica150_oc_opt fuel))
       (o1\<lparr>ol_lib := map_option (\<lambda>s. s\<lparr>bo_plmn := None, bo_apn := None, bo_bands := Some (bytes_of ''5,8,20'')\<rparr>) (ol_lib o1)\<rparr>)"

end
