(* ===== verification/BoudicaFacts.thy ===== *)
theory BoudicaFacts
  imports Boudica
begin

text \<open>
  What the agent of the NB-IoT module promises: the hexadecimal texts are read back as the bytes they were made of, a message goes through
  the report of one module and the handler of another unchanged, the longest report is known exactly, and
  a configuration that succeeds has seen the observation of the server.
\<close>

section \<open>Hexadecimal texts\<close>

definition hex_str :: "bytes \<Rightarrow> bytes" where
  "hex_str p = concat (map hex_byte p)"

lemma hex_str_simps [simp]: "hex_str [] = []" "hex_str (b # p) = hex_byte b @ hex_str p"
  by (simp_all add: hex_str_def)

lemma hex_byte_length [simp]: "length (hex_byte b) = 2"
  by (simp add: hex_byte_def)

lemma hex_str_length [simp]: "length (hex_str p) = 2 * length p"
  by (induction p) simp_all

lemma nibble_cases:
  assumes "(n :: u8) < 16"
  obtains "n = 0" | "n = 1" | "n = 2" | "n = 3" | "n = 4" | "n = 5" | "n = 6" | "n = 7" | "n = 8" | "n = 9" | "n = 10"
    | "n = 11" | "n = 12" | "n = 13" | "n = 14" | "n = 15"
proof -
  have "unat n < 16" using assms by (simp add: word_less_nat_alt)
  then have "unat n \<in> {0, 1, 2, 3, 4, 5, 6, 7, 8, 9, 10, 11, 12, 13, 14, 15}"
    unfolding insert_iff empty_iff by presburger
  moreover have "n = of_nat (unat n)" by simp
  ultimately show thesis using that by (elim insertE) (auto simp del: of_nat_unat)
qed

lemma nibble_char: "n < 16 \<Longrightarrow> hex_nibble (hex_upper n) = n \<and> hex_upper n \<noteq> 0"
  by (erule nibble_cases) (simp_all add: hex_nibble_def hex_upper_def)

lemma nibbles: "drop_bit 4 b < (16 :: u8)" "b AND 15 < (16 :: u8)"
proof -
  have "unat (drop_bit 4 b) = unat b div 16" unfolding unat_drop_bit_eq[of 4 b] drop_bit_eq_div[of 4 "unat b"] by simp
  then show "drop_bit 4 b < (16 :: u8)" using unat_u8_less[of b] by (simp add: word_less_nat_alt less_mult_imp_div_less)
  have "(15 :: u8) = mask 4" by (simp add: mask_eq_exp_minus_1)
  then show "b AND 15 < (16 :: u8)" using and_mask_less'[of 4 b] by simp
qed

lemma hex_byte_back:
  "push_bit 4 (hex_nibble (hex_upper (drop_bit 4 b))) OR (hex_nibble (hex_upper (b AND 15)) AND 15) = b"
proof -
  have m: "(15 :: u8) = mask 4" by (simp add: mask_eq_exp_minus_1)
  have "push_bit 4 (drop_bit 4 b) OR (b AND 15 AND 15) = b"
    unfolding m by (rule bit_word_eqI) (auto simp: bit_or_iff bit_and_iff bit_push_bit_iff bit_drop_bit_eq bit_mask_iff)
  then show ?thesis using nibble_char[OF nibbles(1)] nibble_char[OF nibbles(2)] by simp
qed

lemma hex_nonzero: "0 \<notin> set (hex_str p)"
  using nibble_char[OF nibbles(1)] nibble_char[OF nibbles(2)] by (induction p) (auto simp: hex_byte_def)

lemma put_behind: "off = length a \<Longrightarrow> length b = length xs \<Longrightarrow> put off xs (a @ b @ c) = Some (a @ xs @ c)"
  by (simp add: put_def)

text \<open>The writer fills the buffer behind what is there and ends with a terminator, if there is room for it.\<close>

lemma hexstr_loop_some:
  "off + 2 * (i + n) + 1 \<le> length bufout \<Longrightarrow> i + n \<le> length bufin \<Longrightarrow> 0 < n \<Longrightarrow>
     hexstr_loop bufin i n bufout off =
       Some (take (off + 2 * i) bufout @ hex_str (take n (drop i bufin)) @ [0] @ drop (off + 2 * (i + n) + 1) bufout)"
proof (induction n arbitrary: i bufout)
  case (Suc n)
  have b: "byte_at bufin i = Some (bufin ! i)" "drop i bufin = bufin ! i # drop (Suc i) bufin"
    using Suc.prems(2) by (simp_all add: byte_at_def Cons_nth_drop_Suc)
  define buf1 where "buf1 = take (off + i * 2) bufout @ (hex_byte (bufin ! i) @ [0]) @ drop (off + i * 2 + 3) bufout"
  have p: "put (off + i * 2) (hex_byte (bufin ! i) @ [0]) bufout = Some buf1" "length buf1 = length bufout"
    using Suc.prems(1) by (simp_all add: put_def buf1_def)
  show ?case
  proof (cases n)
    case 0
    then show ?thesis using b p by (simp add: buf1_def mult.commute numeral_3_eq_3)
  next
    case (Suc k)
    have i: "hexstr_loop bufin (Suc i) n buf1 off = Some (take (off + 2 * Suc i) buf1 @ hex_str (take n (drop (Suc i) bufin)) @ [0] @
        drop (off + 2 * (Suc i + n) + 1) buf1)"
      using Suc.IH[of "Suc i" buf1] Suc.prems p(2) Suc by simp
    have t: "take (off + 2 * Suc i) buf1 = take (off + 2 * i) bufout @ hex_byte (bufin ! i)"
      using Suc.prems(1) by (simp add: buf1_def mult.commute)
    have d: "drop (off + 2 * (Suc i + n) + 1) buf1 = drop (off + 2 * (Suc i + n) + 1) bufout"
    proof -
      have "drop (off + i * 2 + 3 + m) buf1 = drop (off + i * 2 + 3 + m) bufout" for m
        using Suc.prems(1) by (simp add: buf1_def add.commute)
      moreover have "off + 2 * (Suc i + n) + 1 = off + i * 2 + 3 + (2 * k + 2)" using Suc by simp
      ultimately show ?thesis by (simp only:)
    qed
    show ?thesis using b p(1) i t d by (simp add: add.commute)
  qed
qed simp

lemma hexstr_loop_none:
  "length bufout < off + 2 * (i + n) + 1 \<Longrightarrow> 0 < n \<Longrightarrow> hexstr_loop bufin i n bufout off = None"
proof (induction n arbitrary: i bufout)
  case (Suc n)
  show ?case
  proof (cases "n = 0 \<or> byte_at bufin i = None")
    case True
    then show ?thesis using Suc.prems(1) by (auto simp: put_def split: Option.bind_split)
  next
    case False
    have "hexstr_loop bufin (Suc i) n buf1 off = None" if "put (off + i * 2) xs bufout = Some buf1" for xs buf1
      using Suc.IH[of buf1 "Suc i"] Suc.prems(1) False put_length[OF that] by simp
    then show ?thesis
      by (cases "byte_at bufin i"; cases "put (off + i * 2) (hex_byte (the (byte_at bufin i)) @ [0]) bufout") simp_all
  qed
qed simp

lemma unhex_some:
  "length bufout \<ge> j + length q \<Longrightarrow>
     unhex_loop (pre @ hex_str q @ rest) (length pre) (length q) bufout = Some (take j bufout @ q @ drop (j + length q) bufout)"
  if "length pre = 2 * j" for pre q rest bufout
  using that
proof (induction q arbitrary: pre j bufout)
  case (Cons b q)
  define buf1 where "buf1 = take j bufout @ [b] @ drop (Suc j) bufout"
  have p: "put j [b] bufout = Some buf1" "length buf1 = length bufout" using Cons.prems(1) by (simp_all add: put_def buf1_def)
  have c: "byte_at (pre @ hex_str (b # q) @ rest) (length pre) = Some (hex_upper (drop_bit 4 b))"
    "byte_at (pre @ hex_str (b # q) @ rest) (length pre + 1) = Some (hex_upper (b AND 15))"
    by (simp_all add: byte_at_def hex_byte_def nth_append)
  have i: "unhex_loop ((pre @ hex_byte b) @ hex_str q @ rest) (length (pre @ hex_byte b)) (length q) buf1 =
      Some (take (Suc j) buf1 @ q @ drop (Suc j + length q) buf1)"
    by (rule Cons.IH) (use Cons.prems p(2) in simp_all)
  have "take (Suc j) buf1 = take j bufout @ [b]" "drop (Suc j + length q) buf1 = drop (j + length (b # q)) bufout"
    using Cons.prems(1) by (simp_all add: buf1_def add.commute)
  then show ?case using c p(1) i Cons.prems(2) hex_byte_back[of b] by simp
qed simp

section \<open>The command of a report\<close>

definition nmgs :: "nat \<Rightarrow> bytes" where
  "nmgs n = bytes_of ''AT+NMGS='' @ dec_str n @ [44]"

lemma dec_length2: "n < 100 \<Longrightarrow> length (dec_str n) = (if n < 10 then 1 else 2)"
  by (simp add: dec_str.simps[of n] dec_str.simps[of "n div 10"])

lemma nmgs_props: "0 \<notin> set (nmgs n)" "n < 100 \<Longrightarrow> length (nmgs n) = (if n < 10 then 10 else 11)"
  using dec_nonzero[of n] by (simp_all add: nmgs_def dec_length2)

lemma c_str_zeros: "0 \<notin> set xs \<Longrightarrow> c_str (xs @ replicate n 0) = (if n = 0 then None else Some xs)"
  using c_str_terminated[of xs "replicate (n - 1) 0"] by (cases n) (simp_all add: c_str_def)

lemma report_head:
  assumes "n < 100"
  shows "put 0 (take (cn_boudica150_cachelen - 1) (bytes_of ''AT+NMGS='' @ int_str (int n) @ [44]) @ [0]) (replicate cn_boudica150_cachelen 0) =
    Some (nmgs n @ replicate (cn_boudica150_cachelen - length (nmgs n)) 0)"
proof -
  have h: "bytes_of ''AT+NMGS='' @ int_str (int n) @ [44] = nmgs n" "length (nmgs n) \<le> 11"
    using assms by (simp_all add: nmgs_def int_str_def dec_length2)
  have "128 - length (nmgs n) = Suc (127 - length (nmgs n))" using h(2) by simp
  then have "[0] @ replicate (127 - length (nmgs n)) 0 = replicate (128 - length (nmgs n)) (0 :: u8)" by simp
  then show ?thesis using h by (simp add: put_def)
qed

lemma report_cmd_eq:
  assumes "0 < n" and "n < 100" and "n \<le> length buf"
  shows "report_cmd buf (int n) =
    (if 128 \<le> length (nmgs n) + 2 * n + 1 then None
     else Some (nmgs n @ hex_str (take n buf) @ [13],
            nmgs n @ hex_str (take n buf) @ [13] @ replicate (127 - length (nmgs n) - 2 * n) 0))"
    (is "_ = (if ?over then _ else _)")
proof -
  let ?h = "nmgs n"
  let ?z = "replicate (128 - length ?h) (0 :: u8)"
  have hl: "length ?h \<le> 11" "0 \<notin> set ?h" using assms(2) by (simp_all add: nmgs_props)
  have c: "c_str (?h @ ?z) = Some ?h" using c_str_zeros[OF hl(2), of "128 - length ?h"] hl(1) by simp
  show ?thesis
  proof (cases "128 < length ?h + 2 * n + 1")
    case True
    then have "hexstr_loop buf 0 n (?h @ ?z) (length ?h) = None"
      using hl(1) assms(1) by (intro hexstr_loop_none) simp_all
    then show ?thesis using True assms c report_head[OF assms(2)] by (simp add: report_cmd_def byte_to_hexstr_def)
  next
    case False
    define t where "t = ?h @ hex_str (take n buf)"
    define k where "k = 127 - length ?h - 2 * n"
    have tl: "length t = length ?h + 2 * n" "0 \<notin> set t" using assms(3) hl(2) hex_nonzero by (simp_all add: t_def)
    have l: "hexstr_loop buf 0 n (?h @ ?z) (length ?h) = Some (t @ 0 # replicate k 0)"
      using hexstr_loop_some[of "length ?h" 0 n "?h @ ?z" buf] False assms hl(1) by (simp add: t_def k_def)
    have p: "put (length t) [13] (t @ 0 # replicate k 0) = Some (t @ 13 # replicate k 0)"
      by (simp add: put_def)
    have c2: "c_str (t @ 13 # replicate k 0) = (if k = 0 then None else Some (t @ [13]))"
      using c_str_zeros[of "t @ [13]" k] tl(2) by simp
    have "report_cmd buf (int n) = map_option (\<lambda>cmd. (cmd, t @ 13 # replicate k 0)) (c_str (t @ 13 # replicate k 0))"
      using assms(1) c l p tl(2) report_head[OF assms(2)]
      by (simp add: report_cmd_def byte_to_hexstr_def map_option_case split: option.split)
    then show ?thesis using c2 False by (simp add: t_def k_def)
  qed
qed

section \<open>A message that is received\<close>

definition nnmi :: "bytes \<Rightarrow> bytes \<Rightarrow> bytes" where
  "nnmi p tail = cn_boudica150_rcvindex @ dec_str (length p) @ [44] @ hex_str p @ tail"

lemma nnmi_find: "find_char 58 (nnmi p tail @ rest) = Some (Some (58 # dec_str (length p) @ 44 # hex_str p @ tail @ rest))"
  by (simp add: nnmi_def cn_boudica150_rcvindex_def)

lemma rcv_digits: "n \<le> cn_boudica150_cachelen \<Longrightarrow> int_digits (dec_str n @ 44 # rest) 0 = Some (int n, 44 # rest)"
  using int_digits_dec[of "dec_str n" 44 0 rest] dec_digits[of n] by (simp add: dec_val_str is_digit_def)

lemma hexstr_to_byte_back:
  "length p \<le> cn_boudica150_cachelen \<Longrightarrow>
     \<exists>r. hexstr_to_byte (hex_str p @ rest) (int (length p) * 2) (replicate cn_boudica150_cachelen 0) =
       Some (r, p @ replicate (cn_boudica150_cachelen - length p) 0)"
  using unhex_some[of "[]" 0 p "replicate cn_boudica150_cachelen 0" rest]
  by (auto simp: hexstr_to_byte_def)

lemma rcvdeal_frame:
  assumes "length p \<le> cn_boudica150_cachelen" and "2 \<le> length tail" and "length (nnmi p tail) \<le> CONFIG_AT_RECVMAXLEN"
    and "bo_oc_param s = Some q" and "oc_rcv_func q = Some f"
  shows "\<exists>s'. boudica150_rcvdeal (frame_mem (nnmi p tail)) (length (nnmi p tail)) s = Some (int (length (nnmi p tail)), s') \<and>
    bo_calls s' = bo_calls s @ [(f, oc_usr_data q, p)]"
proof -
  define z :: bytes where "z = replicate (CONFIG_AT_RECVMAXLEN - length (nnmi p tail)) 0"
  obtain r where r: "hexstr_to_byte (hex_str p @ tail @ z) (int (length p) * 2) (replicate cn_boudica150_cachelen 0) =
      Some (r, p @ replicate (cn_boudica150_cachelen - length p) 0)"
    using hexstr_to_byte_back[OF assms(1)] by blast
  have c: "c_int (int (length p) * 2) = Some (int (length p) * 2)" using assms(1) by (intro c_int_nonneg) simp_all
  have l: "length (nnmi p tail @ z) = length (nnmi p tail) + length z" by simp
  have len: "\<not> length (nnmi p tail) < length cn_boudica150_rcvindex" by (simp add: nnmi_def)
  have room: "\<not> int (length (nnmi p tail @ z)) - int (length (hex_str p @ tail @ z)) + int (length p) * 2 + 2 > int (length (nnmi p tail))"
    using assms(2) by simp
  show ?thesis
    unfolding boudica150_rcvdeal_def if_not_P[OF len] frame_mem_def z_def[symmetric] nnmi_find
    using assms(1,4,5) rcv_digits[OF assms(1)] r c room by (simp del: length_append)
qed

text \<open>C17. A message of at most 57 bytes goes from one module to another unchanged: what is behind the name of the command in a report, in a
  frame that the receiver cuts out of its input, makes the handler call the application with the bytes that were reported.\<close>

theorem boudica_exchange:
  assumes "0 < length p" and "length p \<le> 57" and "bo_oc_param s = Some q" and "oc_rcv_func q = Some f"
  shows "\<exists>body sndbuf frame s'.
    report_cmd p (int (length p)) = Some (bytes_of ''AT+NMGS='' @ body @ [13], sndbuf) \<and>
    frame = cn_boudica150_rcvindex @ body @ [13, 10] \<and>
    boudica150_rcvdeal (frame_mem frame) (length frame) s = Some (int (length frame), s') \<and>
    bo_calls s' = bo_calls s @ [(f, oc_usr_data q, p)]"
proof -
  define body where "body = dec_str (length p) @ [44] @ hex_str p"
  have h: "length (nmgs (length p)) = (if length p < 10 then 10 else 11)" using assms(2) by (intro nmgs_props) simp
  have "report_cmd p (int (length p)) = Some (bytes_of ''AT+NMGS='' @ body @ [13],
      nmgs (length p) @ hex_str p @ [13] @ replicate (127 - length (nmgs (length p)) - 2 * length p) 0)"
    using report_cmd_eq[of "length p" p] assms(1,2) h by (auto simp: nmgs_def body_def split: if_splits)
  moreover have "nnmi p [13, 10] = cn_boudica150_rcvindex @ body @ [13, 10]" by (simp add: nnmi_def body_def)
  moreover have "length (nnmi p [13, 10]) \<le> CONFIG_AT_RECVMAXLEN"
    using assms(2) by (simp add: nnmi_def cn_boudica150_rcvindex_def dec_length2)
  ultimately show ?thesis using rcvdeal_frame[of p "[13, 10]" s q f] assms by auto
qed

section \<open>What the module has announced\<close>

text \<open>The receiver task only adds to the frames that it has handed out.\<close>

lemma send_log: "cmd_send buf timeout s = Some (r, s') \<Longrightarrow> at_log s' = at_log s"
  by (auto simp: cmd_send_def bind_eq_Some_conv)

lemma rcv_log: "resp_rcv off n timeout s = Some (r, s') \<Longrightarrow> at_log s' = at_log s"
  by (auto simp: resp_rcv_def bind_eq_Some_conv split: if_splits)

lemma lock_log: "at_lock s = (ok, s') \<Longrightarrow> at_log s' = at_log s"
  by (auto dest: at_lock_simp)

lemma match_log: "cmd_match len s = Some (r, s') \<Longrightarrow> at_log s' = at_log s"
  by (auto simp: cmd_match_def Let_def bind_eq_Some_conv split: prod.splits bool.splits option.splits if_splits dest!: lock_log)

lemma oob_log: "oob_match_list oobs len s = Some (r, s') \<Longrightarrow> prefix (at_log s) (at_log s')"
  by (induction oobs) (auto simp: bind_eq_Some_conv split: option.splits if_splits)

lemma clear_log: "at_log (clear_rcvbuf s) = at_log s"
  by (simp add: clear_rcvbuf_def)

lemma round_log:
  assumes "rcv_round s = Some s'"
  shows "prefix (at_log s) (at_log s')"
proof (cases "at_streammode s = 1")
  case True
  define s0 where "s0 = (if at_rcvlen s = 0 then clear_rcvbuf s else s)"
  obtain ret s1 where s1: "resp_rcv (at_rcvlen s0) CONFIG_AT_RECVMAXLEN cn_osal_timeout_forever s0 = Some (ret, s1)"
    using assms True unfolding rcv_round_def if_P[OF True] Let_def s0_def[symmetric] by (auto simp only: bind_eq_Some_conv split: prod.splits)
  define s2 where "s2 = s1\<lparr>at_rcvlen := at_rcvlen s1 + ret\<rparr>"
  have l: "at_log s2 = at_log s" using rcv_log[OF s1] by (simp add: s2_def s0_def clear_log)
  show ?thesis using assms l
    unfolding rcv_round_def if_P[OF True] Let_def s0_def[symmetric] s1 Option.bind.bind_lunit prod.case s2_def[symmetric]
    by (auto simp: bind_eq_Some_conv oob_match_def split: if_splits dest!: match_log oob_log)
next
  case False
  obtain ret s1 where s1: "resp_rcv 0 CONFIG_AT_RECVMAXLEN cn_osal_timeout_forever (clear_rcvbuf s) = Some (ret, s1)"
    using assms unfolding rcv_round_def if_not_P[OF False] Let_def by (auto simp only: bind_eq_Some_conv split: prod.splits)
  define s2 where "s2 = s1\<lparr>at_rcvlen := ret\<rparr>"
  have l: "at_log s2 = at_log s" using rcv_log[OF s1] by (simp add: s2_def clear_log)
  show ?thesis using assms l
    unfolding rcv_round_def if_not_P[OF False] Let_def s1 Option.bind.bind_lunit prod.case s2_def[symmetric]
    by (auto simp: bind_eq_Some_conv oob_match_def split: if_splits dest!: match_log oob_log)
qed

lemma task_log: "rcv_task n s = Some s' \<Longrightarrow> prefix (at_log s) (at_log s')"
proof (induction n arbitrary: s)
  case (Suc n)
  then show ?case using round_log[of s] by (auto simp: bind_eq_Some_conv split: if_splits intro: prefix_order.trans)
qed simp

lemma command_log:
  assumes "at_command cmd index buf len timeout n s = Some (r, s')"
  shows "prefix (at_log s) (at_log s')"
proof -
  have clear: "at_log (cmd_clear s) = at_log s" for s :: "'a at_cb"
    by (auto simp: cmd_clear_def Let_def split: prod.splits dest: lock_log)
  have create: "cmd_create c i b l s = (r, s1) \<Longrightarrow> at_log s1 = at_log s" for c i b l r s1
    by (auto simp: cmd_create_def Let_def split: prod.splits if_splits dest!: lock_log)
  show ?thesis
  proof (cases cmd)
    case None
    then show ?thesis using assms by (simp add: at_command_def)
  next
    case (Some c)
    show ?thesis
    proof (cases index)
      case None
      then show ?thesis using assms Some send_log by (fastforce simp: at_command_def)
    next
      case (Some i)
      obtain r1 s1 where c1: "cmd_create c i buf len s = (r1, s1)" by (cases "cmd_create c i buf len s")
      show ?thesis
      proof (cases "r1 = 0")
        case True
        obtain r2 s2 where s2: "cmd_send c timeout s1 = Some (r2, s2)"
          using assms \<open>cmd = Some c\<close> Some c1 True by (cases "cmd_send c timeout s1") (auto simp: at_command_def)
        have l: "at_log s2 = at_log s" using send_log[OF s2] create[OF c1] by simp
        show ?thesis
        proof (cases "r2 = 0")
          case True
          obtain s3 where s3: "rcv_task n s2 = Some s3"
            using assms \<open>cmd = Some c\<close> Some c1 \<open>r1 = 0\<close> s2 True by (cases "rcv_task n s2") (auto simp: at_command_def)
          show ?thesis
            using assms \<open>cmd = Some c\<close> Some c1 \<open>r1 = 0\<close> s2 True s3 l task_log[OF s3] clear by (auto simp: at_command_def split: if_splits)
        next
          case False
          then show ?thesis using assms \<open>cmd = Some c\<close> Some c1 \<open>r1 = 0\<close> s2 l clear by (auto simp: at_command_def)
        qed
      next
        case False
        then show ?thesis using assms \<open>cmd = Some c\<close> Some c1 create[OF c1] by (auto simp: at_command_def)
      qed
    qed
  qed
qed

text \<open>A frame that says that the server observes the module.\<close>

definition announced :: "(nat \<times> nat \<times> bytes) list \<Rightarrow> bool" where
  "announced log \<longleftrightarrow> (\<exists>(f, args, frame) \<in> set log. f = BO_QLWEVTIND \<and>
     length cn_urc_qlwevtind < length frame \<and> frame ! length cn_urc_qlwevtind = 51)"

definition bo_follows :: "'w boudica150_cb \<Rightarrow> 'w boudica150_cb \<Rightarrow> bool" where
  "bo_follows s s' \<longleftrightarrow> prefix (at_log (bo_at s)) (at_log (bo_at s')) \<and>
     (bo_observe s' \<longrightarrow> bo_observe s \<or> announced (new_frames (bo_at s) (bo_at s')))"

lemma follows_refl: "bo_follows s s"
  by (simp add: bo_follows_def)

lemma follows_trans: "bo_follows s1 s2 \<Longrightarrow> bo_follows s2 s3 \<Longrightarrow> bo_follows s1 s3"
  by (auto simp: bo_follows_def announced_def new_frames_def prefix_def)

lemma follows_same: "bo_at s' = bo_at s \<Longrightarrow> bo_observe s' = bo_observe s \<Longrightarrow> bo_follows s s'"
  by (simp add: bo_follows_def)

lemma urc_observe:
  assumes "urc_qlwevtind (frame_mem frame) (length frame) s = Some (r, s')"
  shows "bo_at s' = bo_at s \<and> (bo_observe s' \<longrightarrow> bo_observe s \<or> announced [(BO_QLWEVTIND, args, frame)])"
proof (cases "length cn_urc_qlwevtind < length frame")
  case True
  have s51: "c = 51" if "sint c = 51" for c :: u8
  proof -
    have "c = word_of_int (sint c)" by simp
    then show ?thesis using that by simp
  qed
  have "byte_at (frame_mem frame) (length cn_urc_qlwevtind) = Some (frame ! length cn_urc_qlwevtind)"
    using True by (simp add: byte_at_def frame_mem_def nth_append)
  then show ?thesis using assms True s51 by (auto simp: urc_qlwevtind_def announced_def split: if_splits)
next
  case False
  then show ?thesis using assms by (simp add: urc_qlwevtind_def)
qed

lemma bind_SomeE: "Option.bind m f = Some y \<Longrightarrow> (\<And>x. m = Some x \<Longrightarrow> f x = Some y \<Longrightarrow> P) \<Longrightarrow> P"
  by (cases m) simp_all

lemma rcvdeal_observe:
  assumes "boudica150_rcvdeal msg len s = Some (r, s')"
  shows "bo_at s' = bo_at s \<and> bo_observe s' = bo_observe s"
  using assms unfolding boudica150_rcvdeal_def Let_def
  by (auto simp only: option.inject prod.inject boudica150_cb.simps elim!: bind_SomeE
    split: if_split_asm option.split_asm prod.split_asm) simp_all

lemma frames_observe:
  "bo_frames log s = Some s' \<Longrightarrow> bo_at s' = bo_at s \<and> (bo_observe s' \<longrightarrow> bo_observe s \<or> announced log)"
proof (induction log s rule: bo_frames.induct)
  case (2 f args frame log s)
  have c: "announced (x # xs) \<longleftrightarrow> announced [x] \<or> announced xs" for x xs by (auto simp: announced_def)
  show ?case using "2.prems" "2.IH" rcvdeal_observe urc_observe[of frame s _ _ args] c[of "(f, args, frame)" log]
    by (auto simp: bind_eq_Some_conv split: if_splits) blast+
qed simp

text \<open>Every operation of the agent, in the order of the code.\<close>

named_theorems follows

lemma client_follows:
  assumes "bo_client c s = Some s'" and "prefix (at_log (bo_at s)) (at_log c)"
  shows "bo_follows s s'"
  using assms frames_observe[of "new_frames (bo_at s) c" "s\<lparr>bo_at := c\<rparr>" s'] by (simp add: bo_client_def bo_follows_def)

lemma wait_follows: "bo_wait s = (n, s1) \<Longrightarrow> bo_at s1 = bo_at s \<and> bo_follows s s1"
  by (auto simp: bo_wait_def intro: follows_refl follows_same split: list.splits)

lemma command_follows [follows]: "bo_command cmd index buf len timeout s = Some (r, s') \<Longrightarrow> bo_follows s s'"
  unfolding bo_command_def
  by (auto elim!: bind_SomeE split: prod.splits dest!: wait_follows command_log intro: follows_trans client_follows)

lemma sleep_follows [follows]: "bo_sleep s = Some s' \<Longrightarrow> bo_follows s s'"
  unfolding bo_sleep_def
  by (auto elim!: bind_SomeE split: prod.splits dest!: wait_follows task_log intro: follows_trans client_follows)

lemma atcmd_follows [follows]: "boudica150_atcmd cmd index s = Some (r, s') \<Longrightarrow> bo_follows s s'"
  unfolding boudica150_atcmd_def by (auto elim!: bind_SomeE dest: follows)

lemma query_follows [follows]: "bo_query resp cmd index s = Some (ok, resp', s') \<Longrightarrow> bo_follows s s'"
proof -
  have m: "bo_follows s (bo_mem x s)" for x and s :: "'a boudica150_cb"
    by (simp add: bo_follows_def bo_mem_def new_frames_def)
  show "bo_query resp cmd index s = Some (ok, resp', s') \<Longrightarrow> bo_follows s s'"
    unfolding bo_query_def boudica150_atcmd_response_def
    by (auto elim!: bind_SomeE dest!: command_follows) (rule follows_trans[OF m], erule follows_trans[OF _ m])+
qed

lemma echo_follows [follows]: "boudica150_set_echo n s = Some (r, s') \<Longrightarrow> bo_follows s s'"
  unfolding boudica150_set_echo_def by (rule follows)

lemma regmode_follows [follows]: "boudica150_set_regmode n s = Some (r, s') \<Longrightarrow> bo_follows s s'"
  unfolding boudica150_set_regmode_def by (rule follows)

lemma reboot_follows [follows]: "boudica150_reboot s = Some (r, s') \<Longrightarrow> bo_follows s s'"
  unfolding boudica150_reboot_def by (auto elim!: bind_SomeE dest!: follows) (assumption | erule follows_trans)+

lemma fun_follows [follows]: "boudica150_set_fun n s = Some (r, s') \<Longrightarrow> bo_follows s s'"
  unfolding boudica150_set_fun_def by (auto elim!: bind_SomeE dest!: follows) (assumption | erule follows_trans)+

lemma bands_follows [follows]: "boudica150_set_bands b s = Some (r, s') \<Longrightarrow> bo_follows s s'"
  unfolding boudica150_set_bands_def
  by (auto elim!: bind_SomeE dest!: follows intro: follows_refl split: option.splits if_splits) (assumption | erule follows_trans)+

lemma plmn_follows [follows]: "boudica150_set_plmn b s = Some (r, s') \<Longrightarrow> bo_follows s s'"
  unfolding boudica150_set_plmn_def
  by (auto elim!: bind_SomeE dest!: follows intro: follows_refl split: option.splits if_splits) (assumption | erule follows_trans)+

lemma apn_follows [follows]: "boudica150_set_apn b s = Some (r, s') \<Longrightarrow> bo_follows s s'"
  unfolding boudica150_set_apn_def
  by (auto elim!: bind_SomeE dest!: follows intro: follows_refl split: option.splits if_splits) (assumption | erule follows_trans)+

lemma cdp_follows [follows]: "boudica150_set_cdp a b s = Some (r, s') \<Longrightarrow> bo_follows s s'"
  unfolding boudica150_set_cdp_def
  by (auto elim!: bind_SomeE dest!: follows intro: follows_refl split: option.splits if_splits) (assumption | erule follows_trans)+

lemma cmee_follows [follows]: "boudica150_set_cmee n s = Some (r, s') \<Longrightarrow> bo_follows s s'"
  unfolding boudica150_set_cmee_def by (rule follows)

lemma cgatt_follows [follows]: "boudica150_set_cgatt n s = Some (r, s') \<Longrightarrow> bo_follows s s'"
  unfolding boudica150_set_cgatt_def by (rule follows)

lemma nnmi_follows [follows]: "boudica150_set_nnmi n s = Some (r, s') \<Longrightarrow> bo_follows s s'"
  unfolding boudica150_set_nnmi_def by (rule follows)

lemma observe_follows [follows]: "boudica150_check_observe n s = Some (r, s') \<Longrightarrow> bo_follows s s'"
proof (induction n arbitrary: s)
  case (Suc n)
  show ?case
  proof (cases "bo_observe s")
    case False
    then obtain s1 where s1: "bo_sleep s = Some s1" "boudica150_check_observe n s1 = Some (r, s')"
      using Suc.prems by (auto elim!: bind_SomeE)
    show ?thesis by (rule follows_trans[OF sleep_follows[OF s1(1)] Suc.IH[OF s1(2)]])
  qed (use Suc.prems in \<open>simp add: follows_refl\<close>)
qed (simp add: follows_refl)

lemma netattach_follows [follows]: "boudica150_check_netattach n s = Some (r, s') \<Longrightarrow> bo_follows s s'"
proof (induction n arbitrary: s)
  case (Suc n)
  let ?c = "boudica150_atcmd (bytes_of ''AT+CGATT?'' @ [13]) (bytes_of ''CGATT:1'')"
  obtain ok s1 where s1: "?c s = Some (ok, s1)" "(if ok then Some (True, s1)
      else do { s \<leftarrow> bo_sleep s1; boudica150_check_netattach n s }) = Some (r, s')"
    using Suc.prems unfolding boudica150_check_netattach.simps by (auto simp only: prod.case elim!: bind_SomeE)
  show ?case
  proof (cases ok)
    case True
    then show ?thesis using s1 atcmd_follows by auto
  next
    case False
    then obtain s2 where s2: "bo_sleep s1 = Some s2" "boudica150_check_netattach n s2 = Some (r, s')"
      using s1(2) by (auto elim!: bind_SomeE)
    show ?thesis by (rule follows_trans[OF atcmd_follows[OF s1(1)] follows_trans[OF sleep_follows[OF s2(1)] Suc.IH[OF s2(2)]]])
  qed
qed (simp add: follows_refl)

lemma autoconnect_follows [follows]: "boudica150_set_autoconnect b s = Some (r, s') \<Longrightarrow> bo_follows s s'"
  unfolding boudica150_set_autoconnect_def Let_def
  by (auto elim!: bind_SomeE dest!: follows intro: follows_refl split: if_splits) (assumption | erule follows_trans)+

lemma setup_follows:
  assumes "boot_setup plmn apn bands server port s = Some s'"
  shows "bo_follows (s\<lparr>bo_observe := False\<rparr>) s'"
  using assms unfolding boot_setup_def
  by (auto elim!: bind_SomeE dest!: follows) (assumption | erule follows_trans)+

lemma check_observe_true: "boudica150_check_observe n s = Some (True, s') \<Longrightarrow> bo_observe s'"
  by (induction n arbitrary: s) (auto elim!: bind_SomeE split: if_splits)

text \<open>A turn that ends well has been announced since its start.\<close>

lemma turn_announced:
  assumes "boot_turn plmn apn bands server port s = Some (ok, s')"
  shows "prefix (at_log (bo_at s)) (at_log (bo_at s')) \<and> (ok \<longrightarrow> bo_observe s' \<and> announced (new_frames (bo_at s) (bo_at s')))"
proof -
  obtain s1 ok2 s2 where s1: "boot_setup plmn apn bands server port s = Some s1" and
    s2: "boudica150_check_netattach 16 s1 = Some (ok2, s2)"
    "(if \<not> ok2 then Some (False, s2) else boudica150_check_observe 16 s2) = Some (ok, s')"
    using assms unfolding boot_turn_def by (auto simp only: prod.case elim!: bind_SomeE)
  have f: "bo_follows s2 s' \<and> (ok \<longrightarrow> bo_observe s')"
    using s2(2) check_observe_true[of 16 s2] observe_follows[of 16 s2] by (auto simp: follows_refl split: if_splits)
  have "bo_follows (s\<lparr>bo_observe := False\<rparr>) s'"
    using f follows_trans[OF setup_follows[OF s1] follows_trans[OF netattach_follows[OF s2(1)]]] by blast
  then show ?thesis using f by (auto simp: bo_follows_def)
qed

lemma announced_more: "announced xs \<Longrightarrow> announced (ys @ xs)"
  by (auto simp: announced_def)

lemma loop_announced:
  "boot_loop fuel plmn apn bands server port s = Some (ok, s') \<Longrightarrow>
     prefix (at_log (bo_at s)) (at_log (bo_at s')) \<and> (ok \<longrightarrow> bo_observe s' \<and> announced (new_frames (bo_at s) (bo_at s')))"
proof (induction fuel arbitrary: s)
  case (Suc n)
  obtain ok1 s1 where s1: "boot_turn plmn apn bands server port s = Some (ok1, s1)"
    "(if ok1 then Some (True, s1) else boot_loop n plmn apn bands server port s1) = Some (ok, s')"
    using Suc.prems unfolding boot_loop.simps by (auto simp only: prod.case elim!: bind_SomeE)
  note t = turn_announced[OF s1(1)]
  show ?case
  proof (cases ok1)
    case True
    then show ?thesis using s1(2) t by auto
  next
    case False
    then have "prefix (at_log (bo_at s1)) (at_log (bo_at s')) \<and>
        (ok \<longrightarrow> bo_observe s' \<and> announced (new_frames (bo_at s1) (bo_at s')))"
      using Suc.IH[of s1] s1(2) by simp
    then show ?thesis using t by (auto simp: prefix_def new_frames_def intro: announced_more)
  qed
qed simp

lemma register_log: "at_oobregister name index len func args s = (r, s') \<Longrightarrow> at_log s' = at_log s"
  by (auto simp: at_oobregister_def split: if_splits option.splits)

text \<open>C19. A configuration that reports success has seen the server observe the module: since it was called the receiver has handed out
  a frame that says so, the agent has noted it, may send, and is configured.\<close>

theorem boudica_config_observed:
  assumes "boudica150_oc_config fuel (Some p) s = Some (Some 0, s')" and "\<not> bo_handle s"
  shows "bo_observe s' \<and> bo_sndenable s' \<and> bo_handle s' \<and> announced (new_frames (bo_at s) (bo_at s'))"
proof -
  obtain r1 c1 r2 c2 where c: "at_oobregister (Some ''qlwevind'') (Some cn_urc_qlwevtind) (length cn_urc_qlwevtind)
      (Some BO_QLWEVTIND) 0 (bo_at s) = (r1, c1)"
    "at_oobregister (Some ''boudica150rcv'') (Some cn_boudica150_rcvindex) (length cn_boudica150_rcvindex)
      (Some BO_NNMI) 0 c1 = (r2, c2)"
    by (metis surj_pair)
  have l: "at_log c2 = at_log (bo_at s)" using register_log[OF c(1)] register_log[OF c(2)] by simp
  let ?s = "s\<lparr>bo_oc_param := Some p, bo_at := c2\<rparr>"
  obtain ok s1 where b: "boot_loop fuel (bo_plmn s) (bo_apn s) (bo_bands s) (sv_address (oc_app_server p))
      (sv_port (oc_app_server p)) ?s = Some (ok, s1)"
    "ok" "s' = s1\<lparr>bo_sndenable := True, bo_handle := True\<rparr>"
    using assms c by (auto simp: boudica150_oc_config_def boudica150_boot_def split: if_splits elim!: bind_SomeE)
  show ?thesis using loop_announced[OF b(1)] b(2,3) l by (simp add: new_frames_def)
qed

section \<open>A run\<close>

text \<open>A module behind a device that returns the given frames, one for each turn of the receiver. It answers no command of the
  set-up, then the question for the network, and announces the server.\<close>

definition bo_table :: "at_oob_item list" where
  "bo_table =
     \<lparr>oi_name = Some ''qlwevind'', oi_func = Some BO_QLWEVTIND, oi_args = 0, oi_index = Some cn_urc_qlwevtind,
        oi_len = length cn_urc_qlwevtind\<rparr> #
     \<lparr>oi_name = Some ''boudica150rcv'', oi_func = Some BO_NNMI, oi_args = 0, oi_index = Some cn_boudica150_rcvindex,
        oi_len = length cn_boudica150_rcvindex\<rparr> # [no_oob, no_oob, no_oob, no_oob]"

definition bo_param :: oc_config_param where
  "bo_param = (let sv = \<lparr>sv_ep_id = None, sv_address = None, sv_port = None, sv_psk_id = None, sv_psk = None\<rparr>
     in \<lparr>oc_boot_mode = en_oc_boot_strap_mode_factory, oc_boot_server = sv, oc_app_server = sv, oc_rcv_func = Some 3, oc_usr_data = 4\<rparr>)"

definition bo_modem :: "bytes list \<Rightarrow> u64 \<Rightarrow> u64 \<Rightarrow> bytes list los_driv_module" where
  "bo_modem frames r w = (modem frames)\<lparr>lm_drv := [0 \<mapsto> modem_cb\<lparr>dr_total_read := r, dr_total_write := w\<rparr>]\<rparr>"

lemma bo_modem_write:
  "cmd \<noteq> [] \<Longrightarrow> los_dev_write (Some (Suc 0)) 0 (Some cmd) timeout (bo_modem frames r w) =
     Some (int (length cmd), bo_modem frames r (w + word_of_int (int (length cmd))))"
  by (simp add: bo_modem_def los_dev_write_def modem_def drv_start_def modem_cb_def new_driv_def modem_op_def set_driv_def)

lemma bo_modem_read:
  "frame \<noteq> [] \<Longrightarrow> length frame \<le> 100 \<Longrightarrow> los_dev_read (Some (Suc 0)) 0 True (of_nat CONFIG_AT_RECVMAXLEN) cn_osal_timeout_forever
     (bo_modem (frame # frames) r w) = Some ((int (length frame), frame), bo_modem frames (r + word_of_int (int (length frame))) w)"
  by (simp add: bo_modem_def los_dev_read_def modem_def drv_start_def modem_cb_def new_driv_def modem_op_def set_driv_def)

definition bo_demo :: "nat list \<Rightarrow> bytes list \<Rightarrow> u64 \<Rightarrow> bytes list boudica150_cb" where
  "bo_demo waits frames w = \<lparr>bo_plmn = None, bo_apn = None, bo_bands = None, bo_oc_param = Some bo_param, bo_sndenable = False, bo_sndbuf = [],
     bo_rcvbuf = [], bo_observe = False, bo_handle = False, bo_stats = [0, 0, 0, 0], bo_calls = [],
     bo_at = (modem_client [])\<lparr>at_mem := Map.empty, at_oob := bo_table, at_drv := bo_modem frames 0 w\<rparr>, bo_rounds = waits\<rparr>"

text \<open>A command without an answer, and a wait without a frame.\<close>

lemma demo_command:
  assumes "cmd \<noteq> []"
  shows "bo_command cmd index None 0 timeout (bo_demo (0 # waits) frames w) = Some (-1, bo_demo waits frames (w + word_of_int (int (length cmd))))"
    and "bo_command cmd index (Some RESP) n timeout (bo_mem (Some resp) (bo_demo (0 # waits) frames w)) =
      Some (-1, bo_mem (Some resp) (bo_demo waits frames (w + word_of_int (int (length cmd)))))"
  using assms by (simp_all add: bo_command_def bo_wait_def bo_demo_def bo_mem_def at_command_def cmd_create_def semp_pend_def at_lock_def
    cmd_send_def cmd_clear_def bo_modem_write modem_client_eq no_cmd_def bo_client_def new_frames_def)

lemma demo_atcmd:
  "cmd \<noteq> [] \<Longrightarrow> boudica150_atcmd cmd index (bo_demo (0 # waits) frames w) = Some (False, bo_demo waits frames (w + word_of_int (int (length cmd))))"
  by (simp add: boudica150_atcmd_def demo_command)

lemma demo_query:
  "cmd \<noteq> [] \<Longrightarrow> bo_query resp cmd index (bo_demo (0 # waits) frames w) =
     Some (False, resp, bo_demo waits frames (w + word_of_int (int (length cmd))))"
  by (simp add: bo_query_def boudica150_atcmd_response_def demo_command) (simp add: bo_mem_def bo_demo_def)

lemma demo_sleep: "bo_sleep (bo_demo (0 # waits) frames w) = Some (bo_demo waits frames w)"
  by (simp add: bo_sleep_def bo_wait_def bo_demo_def bo_client_def new_frames_def)

lemmas demo_quiet = demo_atcmd demo_query demo_sleep must_set_def

lemma demo_setup:
  "\<exists>w'. boot_setup None None None None None (bo_demo (replicate 22 0 @ waits) frames w) = Some (bo_demo waits frames w')"
proof -
  have o: "(bo_demo ws frames w)\<lparr>bo_observe := False\<rparr> = bo_demo ws frames w" for ws by (simp add: bo_demo_def)
  show ?thesis
    by (simp add: boot_setup_def o numeral_eq_Suc boudica150_reboot_def boudica150_set_echo_def boudica150_set_regmode_def
      boudica150_set_cmee_def boudica150_set_autoconnect_def boudica150_set_bands_def boudica150_set_fun_def boudica150_set_plmn_def
      boudica150_set_apn_def boudica150_set_cdp_def boudica150_set_cgatt_def boudica150_set_nnmi_def demo_quiet) (rule exI, rule refl)
qed

text \<open>The answer to the question for the network, and the announcement.\<close>

definition bo_attached :: "nat list \<Rightarrow> bytes list \<Rightarrow> u64 \<Rightarrow> bytes list boudica150_cb" where
  "bo_attached waits frames w = (bo_demo waits frames w)\<lparr>bo_at := (bo_at (bo_demo waits frames w))
     \<lparr>at_rcvbuf := frame_mem (bytes_of ''CGATT:1''), at_rcvlen := 7, at_drv := bo_modem frames 7 w\<rparr>\<rparr>"

lemma demo_round:
  assumes "frame \<noteq> []" and "length frame \<le> 100" and "at_streammode c = 0" and "at_devhandle c = Some (Suc 0)"
    and "at_drv c = bo_modem (frame # frames) r w"
    and "c1 = c\<lparr>at_drv := bo_modem frames (r + word_of_int (int (length frame))) w, at_rcvbuf := frame_mem frame,
      at_rcvlen := int (length frame)\<rparr>"
  shows "rcv_round c = do {
    (r, s) \<leftarrow> oob_match (length frame) c1;
    if r \<noteq> 0 then do { (_, s) \<leftarrow> cmd_match (length frame) s; Some s } else Some s }"
proof -
  have "resp_rcv 0 CONFIG_AT_RECVMAXLEN cn_osal_timeout_forever (clear_rcvbuf c) = Some (int (length frame),
       c\<lparr>at_drv := bo_modem frames (r + word_of_int (int (length frame))) w, at_rcvbuf := frame_mem frame\<rparr>)"
    using bo_modem_read[of frame frames r w] assms by (simp add: resp_rcv_def clear_rcvbuf_def frame_mem_def)
  then show ?thesis using assms by (simp add: rcv_round_def cong: if_cong)
qed

lemma demo_attach:
  "boudica150_check_netattach 16 (bo_demo (1 # waits) (bytes_of ''CGATT:1'' # frames) w) = Some (True, bo_attached waits frames (w + 10))"
proof -
  let ?f = "bytes_of ''CGATT:1''"
  have t: "text_of (frame_mem ?f) = Some ?f" using text_of_frame[of ?f "CONFIG_AT_RECVMAXLEN - 7"] by (simp add: frame_mem_def)
  have m: "mem_eq cn_urc_qlwevtind (frame_mem ?f) (length cn_urc_qlwevtind) = Some False"
    "mem_eq cn_boudica150_rcvindex (frame_mem ?f) (length cn_boudica150_rcvindex) = Some False"
    by (simp_all add: mem_eq_def frame_mem_def cn_urc_qlwevtind_def cn_boudica150_rcvindex_def)
  have "bo_command (bytes_of ''AT+CGATT?'' @ [13]) ?f None 0 cn_boudica150_cmd_timeout (bo_demo (1 # waits) (?f # frames) w) =
      Some (7, bo_attached waits frames (w + 10))"
    using t m
    by (simp add: bo_command_def bo_wait_def bo_demo_def bo_attached_def at_command_def cmd_create_def semp_pend_def at_lock_def
      cmd_send_def cmd_clear_def bo_modem_write modem_client_eq no_cmd_def bo_client_def new_frames_def
      demo_round[OF _ _ _ _ _ refl, where frame = ?f and frames = frames and r = 0 and w = "w + 10"] oob_match_def bo_table_def no_oob_def cmd_match_def)
  then show ?thesis by (simp add: numeral_eq_Suc boudica150_atcmd_def)
qed

lemma demo_observe:
  "\<exists>s'. boudica150_check_observe 16 (bo_attached (1 # waits) ((cn_urc_qlwevtind @ [51]) # frames) w) = Some (True, s')"
proof -
  let ?f = "cn_urc_qlwevtind @ [51]"
  have m: "mem_eq cn_urc_qlwevtind (frame_mem ?f) (length cn_urc_qlwevtind) = Some True"
    by (simp add: mem_eq_def frame_mem_def cn_urc_qlwevtind_def)
  have b: "byte_at (frame_mem ?f) (length cn_urc_qlwevtind) = Some 51"
    by (simp add: byte_at_def frame_mem_def cn_urc_qlwevtind_def)
  have t: "take (length ?f) (frame_mem ?f) = ?f" by (simp add: frame_mem_def)
  have l: "length ?f \<le> 100" by (simp add: cn_urc_qlwevtind_def)
  have u: "urc_qlwevtind (frame_mem ?f) (Suc (length cn_urc_qlwevtind)) s = Some (int (length ?f), s\<lparr>bo_observe := True\<rparr>)" for s :: "bytes list boudica150_cb"
    using b by (simp add: urc_qlwevtind_def)
  have "\<exists>s'. bo_sleep (bo_attached (1 # waits) (?f # frames) w) = Some s' \<and> bo_observe s'"
    using m t l u
    by (simp add: bo_sleep_def bo_wait_def bo_demo_def bo_attached_def modem_client_eq bo_client_def new_frames_def
      demo_round[OF _ _ _ _ _ refl, where frame = ?f and frames = frames and r = 7 and w = w] oob_match_def bo_table_def)
  moreover have "\<not> bo_observe (bo_attached ws fs w)" for ws fs w by (simp add: bo_attached_def bo_demo_def)
  ultimately show ?thesis by (auto simp: numeral_eq_Suc)
qed

definition bo_start :: "bytes list boudica150_cb" where
  "bo_start = (bo_demo (replicate 22 0 @ [1, 1]) [bytes_of ''CGATT:1'', cn_urc_qlwevtind @ [51]] 0)
     \<lparr>bo_at := (modem_client [])\<lparr>at_mem := Map.empty, at_drv := bo_modem [bytes_of ''CGATT:1'', cn_urc_qlwevtind @ [51]] 0 0\<rparr>\<rparr>"

lemma bo_demo_config: "\<exists>s'. boudica150_oc_config 1 (Some bo_param) bo_start = Some (Some 0, s')"
proof -
  let ?fs = "[bytes_of ''CGATT:1'', cn_urc_qlwevtind @ [51]]"
  obtain w where w: "boot_setup None None None None None (bo_demo (replicate 22 0 @ [1, 1]) ?fs 0) = Some (bo_demo [1, 1] ?fs w)"
    using demo_setup by blast
  obtain s1 where s1: "boudica150_check_observe 16 (bo_attached [1] [cn_urc_qlwevtind @ [51]] (w + 10)) = Some (True, s1)"
    using demo_observe by blast
  have t: "boot_turn None None None None None (bo_demo (replicate 22 0 @ [1, 1]) ?fs 0) = Some (True, s1)"
    unfolding boot_turn_def w Option.bind.bind_lunit prod.case demo_attach s1 by simp
  have l: "boot_loop (Suc 0) None None None None None (bo_demo (replicate 22 0 @ [1, 1]) ?fs 0) = Some (True, s1)"
    unfolding boot_loop.simps t by simp
  define c1 where "c1 = snd (at_oobregister (Some ''qlwevind'') (Some cn_urc_qlwevtind) (length cn_urc_qlwevtind)
      (Some BO_QLWEVTIND) 0 (bo_at bo_start))"
  have r1: "at_oobregister (Some ''qlwevind'') (Some cn_urc_qlwevtind) (length cn_urc_qlwevtind) (Some BO_QLWEVTIND) 0 (bo_at bo_start) =
      (0, c1)"
    unfolding c1_def by (simp add: at_oobregister_def bo_start_def modem_client_eq no_oob_def numeral_eq_Suc)
  have r2: "at_oobregister (Some ''boudica150rcv'') (Some cn_boudica150_rcvindex) (length cn_boudica150_rcvindex) (Some BO_NNMI) 0 c1 =
      (0, bo_at (bo_demo (replicate 22 0 @ [1, 1]) ?fs 0))"
    unfolding c1_def by (simp add: at_oobregister_def bo_start_def modem_client_eq no_oob_def numeral_eq_Suc bo_table_def bo_demo_def)
  have s0: "(bo_start\<lparr>bo_oc_param := Some bo_param\<rparr>)\<lparr>bo_at := bo_at (bo_demo (replicate 22 0 @ [1, 1]) ?fs 0)\<rparr> =
      bo_demo (replicate 22 0 @ [1, 1]) ?fs 0"
    by (simp add: bo_start_def bo_demo_def)
  have a: "bo_at (bo_start\<lparr>bo_oc_param := Some bo_param\<rparr>) = bo_at bo_start" by simp
  have b: "boudica150_boot (Suc 0) None None None None None (bo_start\<lparr>bo_oc_param := Some bo_param\<rparr>) = Some (True, s1\<lparr>bo_sndenable := True\<rparr>)"
    unfolding boudica150_boot_def a r1 Let_def prod.case r2 s0 l Option.bind.bind_lunit if_True by (rule refl)
  have f: "bo_plmn bo_start = None" "bo_apn bo_start = None" "bo_bands bo_start = None" "\<not> bo_handle bo_start"
    "sv_address (oc_app_server bo_param) = None" "sv_port (oc_app_server bo_param) = None"
    by (simp_all add: bo_start_def bo_demo_def bo_param_def Let_def)
  show ?thesis unfolding boudica150_oc_config_def One_nat_def f option.case b using f(4) by simp
qed

theorem boudica_config_observed_witness:
  "\<exists>s'. boudica150_oc_config 1 (Some bo_param) bo_start = Some (Some 0, s') \<and> bo_observe s' \<and> bo_handle s' \<and>
     announced (new_frames (bo_at bo_start) (bo_at s'))"
proof -
  obtain s' where s': "boudica150_oc_config 1 (Some bo_param) bo_start = Some (Some 0, s')" using bo_demo_config by blast
  have "\<not> bo_handle bo_start" by (simp add: bo_start_def bo_demo_def)
  then show ?thesis using boudica_config_observed[OF s'] s' by blast
qed

theorem boudica_exchange_witness:
  "\<exists>body sndbuf frame s'. report_cmd [1, 171] (int (length [1, 171 :: u8])) = Some (bytes_of ''AT+NMGS='' @ body @ [13], sndbuf) \<and>
     frame = cn_boudica150_rcvindex @ body @ [13, 10] \<and>
     boudica150_rcvdeal (frame_mem frame) (length frame) bo_start = Some (int (length frame), s') \<and>
     bo_calls s' = [(3, 4, [1, 171])]"
proof -
  have f: "bo_oc_param bo_start = Some bo_param" "oc_rcv_func bo_param = Some 3" "oc_usr_data bo_param = 4" "bo_calls bo_start = []"
    by (simp_all add: bo_start_def bo_demo_def bo_param_def Let_def)
  have "0 < length [1, 171 :: u8]" "length [1, 171 :: u8] \<le> 57" by simp_all
  from boudica_exchange[OF this f(1,2)] show ?thesis unfolding f(3,4) append_Nil .
qed

section \<open>The longest report\<close>

text \<open>C18. The limit on a report is too high for the send buffer: a report of 1 to 57 bytes is formatted, and one of 58 to 63, which passes the
  check of the length, is written over the end of the buffer or left without a terminator in it, so the call is undefined.\<close>

theorem boudica_report_limit:
  assumes "0 < n" and "n < 64" and "n \<le> length buf" and "bo_handle s" and "bo_sndenable s"
  shows "(n \<le> 57 \<longrightarrow> (\<exists>sndbuf. length sndbuf = cn_boudica150_cachelen \<and>
      report_cmd buf (int n) = Some (bytes_of ''AT+NMGS='' @ dec_str n @ [44] @ hex_str (take n buf) @ [13], sndbuf))) \<and>
    (58 \<le> n \<longrightarrow> boudica150_oc_report (Some buf) (int n) timeout s = None)"
proof -
  have h: "length (nmgs n) = (if n < 10 then 10 else 11)" using assms(2) by (intro nmgs_props) simp
  have e: "report_cmd buf (int n) = (if 128 \<le> length (nmgs n) + 2 * n + 1 then None
     else Some (nmgs n @ hex_str (take n buf) @ [13],
            nmgs n @ hex_str (take n buf) @ [13] @ replicate (127 - length (nmgs n) - 2 * n) 0))"
    using assms(2) by (intro report_cmd_eq[OF assms(1) _ assms(3)]) simp
  show ?thesis
  proof (cases "n \<le> 57")
    case True
    then have "\<not> 128 \<le> length (nmgs n) + 2 * n + 1" using h by simp
    then show ?thesis using e h True assms(3) by (auto simp: nmgs_def)
  next
    case False
    then have "report_cmd buf (int n) = None" using e h by simp
    then show ?thesis using assms False by (simp add: boudica150_oc_report_def)
  qed
qed

theorem boudica_report_limit_witness:
  "boudica150_oc_report (Some (replicate 60 1)) (int 60) 100 (bo_start\<lparr>bo_handle := True, bo_sndenable := True\<rparr>) = None"
  using boudica_report_limit[of 60 "replicate 60 1" "bo_start\<lparr>bo_handle := True, bo_sndenable := True\<rparr>" 100] by simp

end
