(* ===== verification/Spec2Isabelle.thy ===== *)
theory Spec2Isabelle
  imports Prelude Crc Osal LinuxOs RingBuffer LinkString MsgQueue QueueConc MqttPacket SinnMqtt Storage Driver Stimer AtClient CoapMsg CoapQueue CoapServer ShellCmd Shell Usip Sal MqttAl OcMqtt OcAgent Profile ProfileFacts Esp8266 Esp8266Facts AlTables LiteCoapPort Boudica BoudicaFacts
begin

text \<open>
  IoT Link of LiteOS Lab: the C library that connects small devices to a cloud service. This development models its own
  logic, from the checksums up to the protocols, and leaves the vendored libraries aside. Each theory opens with
  what it models; this text says how they fit together.

  \<^bold>\<open>Conventions.\<close> A C function is a function of the state it reads and writes, which it returns changed. What C leaves
  undefined (an access outside a block or to a freed one, \<^verbatim>\<open>NULL\<close> that is followed, signed overflow, a walk that never
  ends) is \<open>None\<close>; the results and error codes of the code are its integers. Machine integers have their
  widths. Functions of other code that are called through pointers (operations of a port or a driver, handlers of the
  application, the network) are parameters on a state of their own. What may fail at run time (\<^verbatim>\<open>malloc\<close>,
  taking a mutex) comes from a list of outcomes, the clock from a sequence of readings.

  \<^bold>\<open>Layers.\<close>
  \<^item> \<open>Prelude\<close>: checked memory (\<open>put\<close>, \<open>fetch\<close>), C integers and strings, and the interfaces \<open>fifo_stream\<close> and \<open>bounded_fifo\<close>.
  \<^item> \<open>Osal\<close> and \<open>LinuxOs\<close>: the table of functions of \<^verbatim>\<open>os/osal\<close> and the port \<^verbatim>\<open>os/linux\<close>; the locale \<open>osal_sync\<close> has the laws
    of semaphores and mutexes that the clients of the layer rely on, and the Linux port is its interpretation.
  \<^item> \<open>Crc\<close>, \<open>RingBuffer\<close>, \<open>LinkString\<close>: \<^verbatim>\<open>crc\<close> and \<^verbatim>\<open>link_misc\<close>. The table-driven checksum is a reference definition bit by bit; the ring
    buffer is a stream that keeps the order of its bytes.
  \<^item> \<open>MsgQueue\<close> and \<open>QueueConc\<close>: \<^verbatim>\<open>queue/queue.c\<close>, one call at a time over any port with the laws of \<open>osal_sync\<close>, and
    then any interleaving of any number of threads as a step relation.
  \<^item> \<open>Storage\<close>, \<open>Driver\<close>, \<open>Stimer\<close>: \<^verbatim>\<open>storage\<close>, \<^verbatim>\<open>driver/driver.c\<close> and \<^verbatim>\<open>stimer/stimer.c\<close>. Devices and timers are blocks in a heap; the
    invariants hold for every state that legal calls reach.
  \<^item> \<open>AtClient\<close>: \<^verbatim>\<open>at/at.c\<close>, on top of the calls of \<open>Driver\<close>.
  \<^item> \<open>ShellCmd\<close> and \<open>Shell\<close>: \<^verbatim>\<open>shell/shell_cmd.c\<close>, which cuts a line by \<open>LinkString\<close>, and the line editor \<^verbatim>\<open>shell/shell_main.c\<close>.
  \<^item> \<open>MqttPacket\<close> and \<open>SinnMqtt\<close>: the codec and the client of \<^verbatim>\<open>network/mqtt/lite_mqtt/mqtt_sinn\<close>.
  \<^item> \<open>CoapMsg\<close>, \<open>CoapQueue\<close>, \<open>CoapServer\<close>: \<^verbatim>\<open>network/coap/lite_coap/src/coap_core.c\<close>, that is messages, the context with its queues, and the
    connection.
  \<^item> \<open>Sal\<close>: \<^verbatim>\<open>network/tcpip/sal\<close>, the table of sockets in front of an installed stack, and addresses as texts.
  \<^item> \<open>Esp8266\<close>: \<^verbatim>\<open>network/tcpip/esp8266\<close>, a stack behind \<open>Sal\<close> whose sockets are rings (\<open>RingBuffer\<close>) that the frames of a modem fill, which comes
    through \<open>AtClient\<close>; \<open>Esp8266Facts\<close> follows frames to the sockets they name (\<open>esp_received\<close>) and bounds what any frame can do.
  \<^item> \<open>MqttAl\<close> and \<open>OcMqtt\<close>: \<^verbatim>\<open>network/mqtt/mqtt_al\<close> and the cloud agent \<^verbatim>\<open>oc/oc_mqtt/oc_mqtt_tiny_v5\<close>, a daemon that keeps a connection to the hub; \<open>OcAgent\<close> has its
    properties: the invariant \<open>oc_inv\<close>, the balance of its memory (\<open>slack\<close>), the server it connects to and the topics it subscribes.
  \<^item> \<open>Profile\<close>: \<^verbatim>\<open>oc/oc_mqtt/oc_mqtt_profile_v5\<close>, reports and answers as JSON texts under the topics of the service, on the tree functions of
    \<^verbatim>\<open>cJSON/cJSON.c\<close>; \<open>ProfileFacts\<close> shows that each text is that of the payload and that all memory is given back (\<open>yields\<close>, \<open>sends\<close>).
  \<^item> \<open>ModemText\<close>: what the clients of \<open>AtClient\<close> share, that is searches in the text of a frame and the frames that were handed out.
  \<^item> \<open>AlTables\<close>: the places for the functions of CoAP, LwM2M and DTLS (\<^verbatim>\<open>coap_al.c\<close>, \<^verbatim>\<open>lwm2m_al.c\<close>, \<^verbatim>\<open>dtls_al.c\<close>) and of the agents of the cloud
    service (\<^verbatim>\<open>oc_lwm2m_al.c\<close>, \<^verbatim>\<open>oc_coap_al.c\<close>); the locale \<open>provider_slot\<close> has what they share with MQTT, one provider at a time.
  \<^item> \<open>LiteCoapPort\<close>: \<^verbatim>\<open>network/coap/lite_coap/port\<close>, the client of the cloud service on \<open>CoapServer\<close> with its sockets in \<open>Sal\<close>, whose operations
    go into the table of \<open>AlTables\<close>.
  \<^item> \<open>Boudica\<close>: \<^verbatim>\<open>oc/oc_lwm2m/boudica150_oc\<close>, the agent on a radio module, which comes through \<open>AtClient\<close> and is behind a table of
    \<open>AlTables\<close>; \<open>BoudicaFacts\<close> follows a message from a report to the handler and a configuration to the announcement it waits for.
  \<^item> \<open>Usip\<close>: \<^verbatim>\<open>usip/usip.c\<close>, the frames between two chips, with the sender and the receiver task.

  \<^bold>\<open>What is shown.\<close> Safety and invariants: the queue under every interleaving (\<open>queue_conc_safe\<close>, \<open>queue_conc_progress\<close>), the
  driver framework (\<open>driver_safe\<close>), the timer list (\<open>stimer_consistent\<close>), the AT client (\<open>at_command_safe\<close>), the CONNECT encoder, the CoAP
  parser on every packet (\<open>coap_parse_total\<close>). Refinement of a specification: ring buffer and queue (first in, first
  out), the deadlines of the resend queue, the line editor with what the terminal shows (\<open>shell_line_editor\<close>).
  Round trips of the codecs, of a message through the sender and the receiver of uSIP (\<open>usip_transfer\<close>), and of datagrams from
  the modem to the caller of the socket layer (\<open>esp_datagrams\<close>) and of a message through two radio modules (\<open>boudica_exchange\<close>). Equivalence with reference definitions: \<open>calc_crc32_ref\<close>, \<open>coap_find_resource\<close>. Several theorems state where the
  code does not do what it means to, on all inputs of a kind: a scan of the timers that never ends, the
  dangling devices of a driver that is unregistered, writes behind a buffer, options with a wrong number, the
  use after free of a retransmission, a packet of four bytes that crashes the CoAP client (\<open>coap_get_crashes\<close>).

  \<^bold>\<open>Conditions.\<close> A safety theorem holds where the code is right, and names what it leaves out: a frame of a modem that fills the receive
  buffer (\<open>reads_short\<close>; \<open>at_full_frame\<close>), a clock that \<^verbatim>\<open>gmtime\<close> cannot convert, an address of the bootstrap server that is no string or has no
  number as its port (\<open>addr_ok\<close>), a configuration whose port is no number (\<open>cmd_ok\<close>, \<open>port_ok\<close>), a topic that is \<^verbatim>\<open>NULL\<close>
  (\<open>oc_api_safe\<close>), and a key of a report that cannot be copied (\<open>keys_ok\<close>; \<open>profile_key_lost\<close>).

  \<^bold>\<open>Bounds and fuel.\<close> Loops over lists are structural; the others have a measure (the parser of CoAP options takes a byte in each
  turn, the length encoder divides) or are partial functions whose termination is proved where it holds (the
  walks and the scan of \<open>Stimer\<close>). No definition has a fuel that stands for time, except that
  the number of rounds of the receiver during an AT command is an argument over which the theorems quantify, and that the loop that joins an access point and the one that
  brings up the radio module, which may run forever, have a bound on their rounds.

  \<^bold>\<open>Not modelled.\<close> Vendored libraries (\<^verbatim>\<open>cJSON\<close>, mbed TLS, lwIP, libcoap, wakaama, Paho, \<^verbatim>\<open>secure_c\<close>); the ports of the OS layer other than
  Linux, which only call systems outside the repository; sockets of the host and the other modems, which are formats of commands; the
  glue between the interfaces and vendored libraries; printing of logs; demos and board projects; the older version of the agent
  over MQTT and the agents over libcoap and wakaama. Where a modelled file has parts without logic of its own (printing, creation of tasks), its theory says so.
\<close>

end
